(* ===== verification/Prelude.thy ===== *)
theory Prelude
  imports Main "HOL-Library.Word" "HOL-Library.Monad_Syntax"
begin

unbundle bit_operations_syntax

text \<open>
  Shared vocabulary of the development: bytes and byte sequences, the outcome of an
  operation that can abort, and the generic facts on lists, options and machine words that
  the component theories use.

  A C++ operation that may hit a fatal \<^verbatim>\<open>CHECK\<close>, or that would leave the
  defined behaviour of the language (a read outside a buffer, a use of a released block),
  returns \<open>None\<close> in that case; the theorems show when this cannot happen.
\<close>

type_synonym byte = "8 word"
type_synonym bytes = "byte list"

named_theorems stream_simps \<open>equations of the stream operations on their content\<close>
named_theorems codec_simps \<open>equations of the number readers and writers\<close>

section \<open>Options\<close>

lemma bind_SomeE [elim!]:
  assumes "Option.bind m f = Some y"
  obtains x where "m = Some x" and "f x = Some y"
  using assms by (auto simp: bind_eq_Some_conv)

section \<open>Lists and integer positions\<close>

lemma take_drop_nat_add:
  "0 \<le> a \<Longrightarrow> 0 \<le> b \<Longrightarrow> drop (nat b) (drop (nat a) xs) = drop (nat (a + b)) xs"
  by (simp add: nat_add_distrib add.commute)

lemma set_tlD: "x \<in> set (tl xs) \<Longrightarrow> x \<in> set xs"
  by (cases xs) auto

lemma sorted_wrt_last: "sorted_wrt R xs \<Longrightarrow> x \<in> set xs \<Longrightarrow> x = last xs \<or> R x (last xs)"
  by (induction xs) auto

lemma take_eq_min_length: "length xs \<le> k \<Longrightarrow> n = m \<or> k \<le> n \<and> k \<le> m \<Longrightarrow> take n xs = take m xs"
  by auto

lemma take_append_drop_min:
  "take m xs @ take n (drop m xs) = take (m + n) xs"
  by (simp add: take_add)

lemma concat_map_drop_nth:
  "i < length xs \<Longrightarrow>
     concat (map f (drop i xs)) = f (xs ! i) @ concat (map f (drop (Suc i) xs))"
  by (simp add: Cons_nth_drop_Suc [symmetric])

lemma concat_map_take_nth:
  "i < length xs \<Longrightarrow>
     concat (map f (take (Suc i) xs)) = concat (map f (take i xs)) @ f (xs ! i)"
  by (simp add: take_Suc_conv_app_nth)

section \<open>Numbers as bytes\<close>

fun le_bytes :: "nat \<Rightarrow> nat \<Rightarrow> bytes" where
  "le_bytes 0 n = []"
| "le_bytes (Suc k) n = word_of_nat (n mod 256) # le_bytes k (n div 256)"

fun le_value :: "bytes \<Rightarrow> nat" where
  "le_value [] = 0"
| "le_value (b # bs) = unat b + 256 * le_value bs"

definition be_bytes :: "nat \<Rightarrow> nat \<Rightarrow> bytes" where
  "be_bytes k n = rev (le_bytes k n)"

definition be_value :: "bytes \<Rightarrow> nat" where
  "be_value bs = le_value (rev bs)"

lemma length_le_bytes [simp]: "length (le_bytes k n) = k"
  by (induction k n rule: le_bytes.induct) auto

lemma length_be_bytes [simp]: "length (be_bytes k n) = k"
  by (simp add: be_bytes_def)

lemma unat_byte_mod: "unat (word_of_nat (n mod 256) :: byte) = n mod 256"
  by (simp add: unat_of_nat take_bit_eq_mod)

lemma unat_less_power: "unat (w :: 'a::len word) < 2 ^ LENGTH('a)"
  by (rule unsigned_less)

lemma unat_word_of_nat: "n < 2 ^ LENGTH('a) \<Longrightarrow> unat (word_of_nat n :: 'a::len word) = n"
  by (simp add: unat_of_nat take_bit_eq_mod)

lemma unat_byte_less: "unat (b :: byte) < 256"
  using unat_less_power[of b] by simp

lemma le_value_le_bytes [simp]: "le_value (le_bytes k n) = n mod 256 ^ k"
  by (induction k n rule: le_bytes.induct) (auto simp: unat_byte_mod mod_mult2_eq)

lemma le_bytes_le_value [simp]: "le_bytes (length bs) (le_value bs) = bs"
  by (induction bs) (use unat_byte_less in \<open>auto simp: div_mult_self4 word_unat_eq_iff unat_byte_mod\<close>)

lemma le_value_less: "le_value bs < 256 ^ length bs"
proof (induction bs)
  case (Cons b bs)
  then show ?case using unat_byte_less[of b] by simp
qed simp

lemma be_value_be_bytes [simp]: "be_value (be_bytes k n) = n mod 256 ^ k"
  by (simp add: be_value_def be_bytes_def)

lemma be_bytes_be_value [simp]: "be_bytes (length bs) (be_value bs) = bs"
  using le_bytes_le_value[of "rev bs"] by (simp add: be_value_def be_bytes_def)

lemma be_value_less: "be_value bs < 256 ^ length bs"
  using le_value_less[of "rev bs"] by (simp add: be_value_def)

section \<open>Text\<close>

text \<open>A \<^verbatim>\<open>std::string\<close> is its bytes; \<open>bytes_of\<close> reads a literal.\<close>

definition bytes_of :: "string \<Rightarrow> bytes" where
  "bytes_of s = map of_char s"

end
