(* ===== verification/ByteStream.thy ===== *)
theory ByteStream
  imports Prelude
begin

text \<open>
  The contract every reader and writer of the program relies on: a stream holds a sequence
  of unread bytes and a stack of marks; reading takes bytes from the front, writing puts
  bytes at the end of the content and of every mark, and a restore goes back to the last
  mark.  The contract is a locale over a relation \<open>holds s c m\<close> (stream \<open>s\<close> holds content
  \<open>c\<close> with marks \<open>m\<close>).  It is interpreted by the block-based memory stream
  (theory \<^verbatim>\<open>StreamLaws\<close>) and here by the plain list of bytes the codec theories compute on.
\<close>

section \<open>The contract\<close>

locale byte_source =
  fixes holds :: "'s \<Rightarrow> bytes \<Rightarrow> bytes list \<Rightarrow> bool"
    and read :: "'s \<Rightarrow> int \<Rightarrow> (bytes \<times> 's) option"
    and peek :: "'s \<Rightarrow> int \<Rightarrow> bytes option"
    and skip :: "'s \<Rightarrow> int \<Rightarrow> (int \<times> 's) option"
    and available :: "'s \<Rightarrow> int option"
    and mark :: "'s \<Rightarrow> 's"
    and restore :: "'s \<Rightarrow> 's option"
    and unmark :: "'s \<Rightarrow> 's option"
  assumes read_law: "holds s c m \<Longrightarrow>
      \<exists>s'. read s n = Some (take (nat n) c, s') \<and> holds s' (drop (nat n) c) m"
    and peek_law: "holds s c m \<Longrightarrow> peek s n = Some (take (nat n) c)"
    and skip_law: "holds s c m \<Longrightarrow> 0 \<le> n \<Longrightarrow>
      \<exists>s'. skip s n = Some (min n (int (length c)), s') \<and> holds s' (drop (nat n) c) m"
    and available_law: "holds s c m \<Longrightarrow> available s = Some (int (length c))"
    and mark_law: "holds s c m \<Longrightarrow> holds (mark s) c (c # m)"
    and restore_law: "holds s c (x # m) \<Longrightarrow> \<exists>s'. restore s = Some s' \<and> holds s' x m"
    and unmark_law: "holds s c (x # m) \<Longrightarrow> \<exists>s'. unmark s = Some s' \<and> holds s' c m"

locale byte_stream = byte_source holds read peek skip available mark restore unmark
  for holds :: "'s \<Rightarrow> bytes \<Rightarrow> bytes list \<Rightarrow> bool"
    and read :: "'s \<Rightarrow> int \<Rightarrow> (bytes \<times> 's) option"
    and peek :: "'s \<Rightarrow> int \<Rightarrow> bytes option"
    and skip :: "'s \<Rightarrow> int \<Rightarrow> (int \<times> 's) option"
    and available :: "'s \<Rightarrow> int option"
    and mark :: "'s \<Rightarrow> 's"
    and restore :: "'s \<Rightarrow> 's option"
    and unmark :: "'s \<Rightarrow> 's option"
  + fixes put :: "'s \<Rightarrow> bytes \<Rightarrow> (int \<times> 's) option"
  assumes write_law: "holds s c m \<Longrightarrow>
      \<exists>s'. put s xs = Some (int (length xs), s') \<and> holds s' (c @ xs) (map (\<lambda>y. y @ xs) m)"

section \<open>What clients get from it\<close>

context byte_source
begin

lemma read_all:
  assumes "holds s (xs @ c) m" "n = int (length xs)"
  obtains s' where "read s n = Some (xs, s')" "holds s' c m"
  using read_law[OF assms(1), of n] assms(2) by auto

text \<open>Reading in two steps is reading once.\<close>

lemma read_twice:
  assumes "holds s c m" "0 \<le> a" "0 \<le> b" "read s a = Some (xs, s1)" "read s1 b = Some (ys, s2)"
  shows "\<exists>s'. read s (a + b) = Some (xs @ ys, s') \<and> holds s' (drop (nat (a + b)) c) m \<and> holds s2 (drop (nat (a + b)) c) m"
proof -
  have 1: "xs = take (nat a) c" "holds s1 (drop (nat a) c) m"
    using read_law[OF assms(1), of a] assms(4) by auto
  have 2: "ys = take (nat b) (drop (nat a) c)" "holds s2 (drop (nat b) (drop (nat a) c)) m"
    using read_law[OF 1(2), of b] assms(5) by auto
  then show ?thesis
    using read_law[OF assms(1), of "a + b"] assms(2,3) 1
    by (auto simp: take_add nat_add_distrib add.commute)
qed

text \<open>Looking ahead: whatever is read between a mark and its restore is unread again.\<close>

lemma lookahead:
  assumes "holds s c m" "read (mark s) n = Some (xs, s1)"
  shows "xs = take (nat n) c \<and> (\<exists>s2. restore s1 = Some s2 \<and> holds s2 c m)"
proof -
  have "xs = take (nat n) c" "holds s1 (drop (nat n) c) (c # m)"
    using read_law[OF mark_law[OF assms(1)], of n] assms(2) by auto
  then show ?thesis using restore_law by blast
qed

text \<open>Committing: after the mark is dropped the bytes read stay read.\<close>

lemma commit:
  assumes "holds s c m" "read (mark s) n = Some (xs, s1)"
  shows "\<exists>s2. unmark s1 = Some s2 \<and> holds s2 (drop (nat n) c) m"
proof -
  have "holds s1 (drop (nat n) c) (c # m)"
    using read_law[OF mark_law[OF assms(1)], of n] assms(2) by auto
  then show ?thesis using unmark_law by blast
qed

end

context byte_stream
begin

lemma write_read:
  assumes "holds s [] m"
  shows "\<exists>s1 s2. put s xs = Some (int (length xs), s1) \<and> read s1 (int (length xs)) = Some (xs, s2)
    \<and> holds s2 [] (map (\<lambda>y. y @ xs) m)"
proof -
  obtain s1 where s1: "put s xs = Some (int (length xs), s1)" "holds s1 xs (map (\<lambda>y. y @ xs) m)"
    using write_law[OF assms, of xs] by auto
  then show ?thesis using read_law[OF s1(2), of "int (length xs)"] by auto
qed

text \<open>A write between a mark and its restore is kept, behind the unread bytes.\<close>

lemma write_under_mark:
  assumes "holds s c m" "put (mark s) xs = Some (n, s1)"
  shows "\<exists>s2. restore s1 = Some s2 \<and> holds s2 (c @ xs) (map (\<lambda>y. y @ xs) m)"
proof -
  have "holds s1 (c @ xs) ((c @ xs) # map (\<lambda>y. y @ xs) m)"
    using write_law[OF mark_law[OF assms(1)], of xs] assms(2) by auto
  then show ?thesis using restore_law by blast
qed

end

section \<open>The plain stream: content and marks themselves\<close>

type_synonym plain_stream = "bytes \<times> bytes list"

definition ps_holds :: "plain_stream \<Rightarrow> bytes \<Rightarrow> bytes list \<Rightarrow> bool" where
  "ps_holds s c m \<longleftrightarrow> s = (c, m)"

definition ps_read :: "plain_stream \<Rightarrow> int \<Rightarrow> (bytes \<times> plain_stream) option" where
  "ps_read s n = Some (take (nat n) (fst s), (drop (nat n) (fst s), snd s))"

definition ps_peek :: "plain_stream \<Rightarrow> int \<Rightarrow> bytes option" where
  "ps_peek s n = Some (take (nat n) (fst s))"

definition ps_skip :: "plain_stream \<Rightarrow> int \<Rightarrow> (int \<times> plain_stream) option" where
  "ps_skip s n = (if n < 0 then None
     else Some (min n (int (length (fst s))), (drop (nat n) (fst s), snd s)))"

definition ps_available :: "plain_stream \<Rightarrow> int option" where
  "ps_available s = Some (int (length (fst s)))"

definition ps_mark :: "plain_stream \<Rightarrow> plain_stream" where
  "ps_mark s = (fst s, fst s # snd s)"

definition ps_restore :: "plain_stream \<Rightarrow> plain_stream option" where
  "ps_restore s = (case snd s of [] \<Rightarrow> None | x # m \<Rightarrow> Some (x, m))"

definition ps_unmark :: "plain_stream \<Rightarrow> plain_stream option" where
  "ps_unmark s = (case snd s of [] \<Rightarrow> None | x # m \<Rightarrow> Some (fst s, m))"

definition ps_write :: "plain_stream \<Rightarrow> bytes \<Rightarrow> (int \<times> plain_stream) option" where
  "ps_write s xs = Some (int (length xs), (fst s @ xs, map (\<lambda>y. y @ xs) (snd s)))"

interpretation plain: byte_stream ps_holds ps_read ps_peek ps_skip ps_available ps_mark ps_restore
    ps_unmark ps_write
  by unfold_locales
     (auto simp: ps_holds_def ps_read_def ps_peek_def ps_skip_def ps_available_def ps_mark_def
        ps_restore_def ps_unmark_def ps_write_def)

end
