(* ===== verification/NumStreaming.thy ===== *)
theory NumStreaming
  imports ByteStream
begin

text \<open>
  \<^verbatim>\<open>whisperlib/common/io/num_streaming.h\<close>: numbers of 1, 2, 3, 4 and 8 bytes read from
  and written to a stream in a given byte order.  \<^verbatim>\<open>ReadNumber\<close> copies the bytes into the
  number's own memory and swaps them when the host's order differs.  The host's order is a
  parameter, the memory image of a number is \<open>num_mem\<close>, and a number of type \<^verbatim>\<open>N\<close> is a
  machine word; \<^verbatim>\<open>float\<close> and \<^verbatim>\<open>double\<close> are their bit patterns.

  The stream is a parameter too (the template's \<^verbatim>\<open>R\<close> and \<^verbatim>\<open>W\<close>): the lemmas are
  proved from the contract of \<^verbatim>\<open>ByteStream\<close>.  The codec theories use the instance on a
  plain list of bytes given at the end.
\<close>

datatype byte_order = BIGENDIAN | LILENDIAN

text \<open>\<^verbatim>\<open>kByteOrder\<close> of \<^verbatim>\<open>common/base/system.h\<close> on the little-endian hosts.\<close>

definition kByteOrder :: byte_order where
  "kByteOrder = LILENDIAN"

section \<open>Swapping and memory images\<close>

text \<open>The loop of \<^verbatim>\<open>SwapBytes\<close>: \<open>p1\<close> and \<open>p2\<close> move towards each other.\<close>

function num_swap_loop :: "nat \<Rightarrow> nat \<Rightarrow> bytes \<Rightarrow> bytes" where
  "num_swap_loop p1 p2 bs =
     (if p1 < p2 then num_swap_loop (p1 + 1) (p2 - 1) (bs[p1 := bs ! p2, p2 := bs ! p1]) else bs)"
  by pat_completeness auto
termination by (relation "measure (\<lambda>(p1, p2, bs). p2 - p1)") auto

declare num_swap_loop.simps [simp del]

definition num_SwapBytes :: "bytes \<Rightarrow> bytes" where
  "num_SwapBytes bs = num_swap_loop 0 (length bs - 1) bs"

definition num_mem :: "byte_order \<Rightarrow> 'a::len word \<Rightarrow> bytes" where
  "num_mem host w = (case host of
     LILENDIAN \<Rightarrow> le_bytes (LENGTH('a) div 8) (unat w)
   | BIGENDIAN \<Rightarrow> be_bytes (LENGTH('a) div 8) (unat w))"

definition num_of_mem :: "byte_order \<Rightarrow> bytes \<Rightarrow> 'a::len word" where
  "num_of_mem host bs = word_of_nat (case host of
     LILENDIAN \<Rightarrow> le_value bs | BIGENDIAN \<Rightarrow> be_value bs)"

section \<open>Reading and writing numbers\<close>

definition num_read_mem ::
    "byte_order \<Rightarrow> ('s \<Rightarrow> int \<Rightarrow> (bytes \<times> 's) option) \<Rightarrow> nat \<Rightarrow> byte_order \<Rightarrow> 's \<Rightarrow> (bytes \<times> 's) option" where
  "num_read_mem host read size_n order s = do {
     (bs, s') \<leftarrow> read s (int size_n);
     (if length bs = size_n
      then Some (if host \<noteq> order then num_SwapBytes bs else bs, s') else None) }"

definition num_peek_mem ::
    "byte_order \<Rightarrow> ('s \<Rightarrow> int \<Rightarrow> bytes option) \<Rightarrow> nat \<Rightarrow> byte_order \<Rightarrow> 's \<Rightarrow> bytes option" where
  "num_peek_mem host peek size_n order s = do {
     bs \<leftarrow> peek s (int size_n);
     (if length bs = size_n
      then Some (if host \<noteq> order then num_SwapBytes bs else bs) else None) }"

definition num_ReadNumber ::
    "byte_order \<Rightarrow> ('s \<Rightarrow> int \<Rightarrow> (bytes \<times> 's) option) \<Rightarrow> byte_order \<Rightarrow> 's \<Rightarrow> ('a::len word \<times> 's) option" where
  "num_ReadNumber host read order s = do {
     (bs, s') \<leftarrow> num_read_mem host read (LENGTH('a) div 8) order s;
     Some (num_of_mem host bs, s') }"

definition num_PeekNumber ::
    "byte_order \<Rightarrow> ('s \<Rightarrow> int \<Rightarrow> bytes option) \<Rightarrow> byte_order \<Rightarrow> 's \<Rightarrow> 'a::len word option" where
  "num_PeekNumber host peek order s = do {
     bs \<leftarrow> num_peek_mem host peek (LENGTH('a) div 8) order s;
     Some (num_of_mem host bs) }"

definition num_WriteNumber ::
    "byte_order \<Rightarrow> ('s \<Rightarrow> bytes \<Rightarrow> (int \<times> 's) option) \<Rightarrow> 's \<Rightarrow> 'a::len word \<Rightarrow> byte_order \<Rightarrow> (int \<times> 's) option" where
  "num_WriteNumber host write_fn s w order =
     write_fn s (if host \<noteq> order then num_SwapBytes (num_mem host w) else num_mem host w)"

text \<open>
  \<^verbatim>\<open>uint24\<close>: three bytes; the constructor depends on the host's order, the conversion
  back to a number does not.
\<close>

definition uint24_mem :: "byte_order \<Rightarrow> 32 word \<Rightarrow> bytes" where
  "uint24_mem host x = (case host of
     LILENDIAN \<Rightarrow> [ucast x, ucast (drop_bit 8 x), ucast (drop_bit 16 x)]
   | BIGENDIAN \<Rightarrow> [ucast (drop_bit 16 x AND 0xFF), ucast (drop_bit 8 x AND 0xFF), ucast (x AND 0xFF)])"

definition uint24_value :: "bytes \<Rightarrow> 32 word" where
  "uint24_value bs = ucast (bs ! 0) + push_bit 8 (ucast (bs ! 1)) + push_bit 16 (ucast (bs ! 2))"

definition num_ReadUInt24 ::
    "byte_order \<Rightarrow> ('s \<Rightarrow> int \<Rightarrow> (bytes \<times> 's) option) \<Rightarrow> byte_order \<Rightarrow> 's \<Rightarrow> (32 word \<times> 's) option" where
  "num_ReadUInt24 host read order s = do {
     (bs, s') \<leftarrow> num_read_mem host read 3 order s;
     Some (uint24_value bs, s') }"

definition num_WriteUInt24 ::
    "byte_order \<Rightarrow> ('s \<Rightarrow> bytes \<Rightarrow> (int \<times> 's) option) \<Rightarrow> 's \<Rightarrow> 32 word \<Rightarrow> byte_order \<Rightarrow> (int \<times> 's) option" where
  "num_WriteUInt24 host write_fn s x order =
     write_fn s (if host \<noteq> order then num_SwapBytes (uint24_mem host x) else uint24_mem host x)"

section \<open>Facts\<close>

lemma length_num_swap_loop [simp]: "length (num_swap_loop i j bs) = length bs"
proof (induction i j bs rule: num_swap_loop.induct)
  case (1 p1 p2 bs)
  then show ?case by (subst num_swap_loop.simps) auto
qed

lemma num_swap_loop_nth:
  assumes "p1 + p2 + 1 = length bs" "k < length bs"
  shows "num_swap_loop p1 p2 bs ! k
    = (if p1 \<le> k \<and> k \<le> p2 then bs ! (p1 + p2 - k) else bs ! k)"
  using assms
proof (induction p1 p2 bs rule: num_swap_loop.induct)
  case (1 p1 p2 bs)
  show ?case
  proof (cases "p1 < p2")
    case False
    then have "p1 + p2 - k = k" if "p1 \<le> k" "k \<le> p2" using that by simp
    with False show ?thesis by (subst num_swap_loop.simps) auto
  next
    case True
    let ?bs = "bs[p1 := bs ! p2, p2 := bs ! p1]"
    have "num_swap_loop p1 p2 bs ! k = num_swap_loop (p1 + 1) (p2 - 1) ?bs ! k"
      using True by (subst num_swap_loop.simps) simp
    also have "\<dots> = (if p1 + 1 \<le> k \<and> k \<le> p2 - 1 then ?bs ! (p1 + 1 + (p2 - 1) - k) else ?bs ! k)"
      using 1 True by simp
    also have "\<dots> = (if p1 \<le> k \<and> k \<le> p2 then bs ! (p1 + p2 - k) else bs ! k)"
      using True "1.prems" by (auto simp: nth_list_update)
    finally show ?thesis .
  qed
qed

lemma num_SwapBytes_rev [simp]: "num_SwapBytes bs = rev bs"
proof (cases "bs = []")
  case True
  then show ?thesis by (simp add: num_SwapBytes_def num_swap_loop.simps)
next
  case False
  then show ?thesis
    by (intro nth_equalityI) (auto simp: num_SwapBytes_def num_swap_loop_nth rev_nth Suc_leI)
qed

text \<open>The bytes of a number in the order it is sent.\<close>

definition num_bytes :: "byte_order \<Rightarrow> nat \<Rightarrow> nat \<Rightarrow> bytes" where
  "num_bytes order k n = (case order of LILENDIAN \<Rightarrow> le_bytes k n | BIGENDIAN \<Rightarrow> be_bytes k n)"

definition num_value :: "byte_order \<Rightarrow> bytes \<Rightarrow> nat" where
  "num_value order bs = (case order of LILENDIAN \<Rightarrow> le_value bs | BIGENDIAN \<Rightarrow> be_value bs)"

lemma length_num_bytes [simp]: "length (num_bytes order k n) = k"
  by (simp add: num_bytes_def split: byte_order.split)

lemma num_value_bytes [simp]: "num_value order (num_bytes order k n) = n mod 256 ^ k"
  by (simp add: num_bytes_def num_value_def split: byte_order.split)

lemma num_mem_order:
  "(if host \<noteq> order then num_SwapBytes (num_mem host (w :: 'a::len word)) else num_mem host w)
     = num_bytes order (LENGTH('a) div 8) (unat w)"
  by (cases host; cases order) (auto simp: num_mem_def num_bytes_def be_bytes_def)

lemma num_of_mem_order:
  "num_of_mem host (if host \<noteq> order then num_SwapBytes bs else bs) = word_of_nat (num_value order bs)"
  by (cases host; cases order) (auto simp: num_of_mem_def num_value_def be_value_def)

lemma word_of_num_bytes:
  assumes "LENGTH('a) = 8 * k"
  shows "word_of_nat (num_value order (num_bytes order k (unat w))) = (w :: 'a::len word)"
proof -
  have "(256 :: nat) ^ k = 2 ^ LENGTH('a)" using assms by (simp add: power_mult)
  then have "unat w mod 256 ^ k = unat w" using unat_less_power[of w] by simp
  then show ?thesis by simp
qed

context byte_source
begin

text \<open>A number is read if there are enough bytes, whatever the host's byte order; it is the
  value of the bytes in the order asked for.\<close>

lemma read_number:
  assumes "holds s c m" "LENGTH('a) div 8 \<le> length c"
  shows "\<exists>s'. num_ReadNumber host read order s
      = Some (word_of_nat (num_value order (take (LENGTH('a) div 8) c)) :: 'a::len word, s')
    \<and> holds s' (drop (LENGTH('a) div 8) c) m"
  using read_law[OF assms(1), of "int (LENGTH('a) div 8)"] assms(2) num_of_mem_order[of host order]
  by (auto simp: num_ReadNumber_def num_read_mem_def)

lemma read_number_short:
  assumes "holds s c m" "length c < LENGTH('a) div 8"
  shows "num_ReadNumber host read order s = (None :: ('a::len word \<times> 's) option)"
  using read_law[OF assms(1), of "int (LENGTH('a) div 8)"] assms(2)
  by (auto simp: num_ReadNumber_def num_read_mem_def)

lemma peek_number:
  assumes "holds s c m" "LENGTH('a) div 8 \<le> length c"
  shows "num_PeekNumber host peek order s
      = Some (word_of_nat (num_value order (take (LENGTH('a) div 8) c)) :: 'a::len word)"
  using peek_law[OF assms(1), of "int (LENGTH('a) div 8)"] assms(2) num_of_mem_order[of host order]
  by (auto simp: num_PeekNumber_def num_peek_mem_def)

end

context byte_stream
begin

lemma write_number:
  assumes "holds s c m"
  shows "\<exists>s'. num_WriteNumber host put s (w :: 'a::len word) order = Some (int (LENGTH('a) div 8), s')
    \<and> holds s' (c @ num_bytes order (LENGTH('a) div 8) (unat w))
        (map (\<lambda>y. y @ num_bytes order (LENGTH('a) div 8) (unat w)) m)"
  using write_law[OF assms, of "num_bytes order (LENGTH('a) div 8) (unat w)"]
  unfolding num_WriteNumber_def num_mem_order by simp

text \<open>Writer and reader may be hosts of different byte order.\<close>

lemma write_read_number:
  assumes "holds s [] m" "LENGTH('a) = 8 * k"
  shows "\<exists>s1 s2. num_WriteNumber host put s (w :: 'a::len word) order = Some (int k, s1)
    \<and> num_ReadNumber host' read order s1 = Some (w, s2) \<and> holds s2 [] (map (\<lambda>y. y @ num_bytes order k (unat w)) m)"
proof -
  have k: "LENGTH('a) div 8 = k" using assms(2) by simp
  obtain s1 where s1: "num_WriteNumber host put s w order = Some (int k, s1)"
      "holds s1 (num_bytes order k (unat w)) (map (\<lambda>y. y @ num_bytes order k (unat w)) m)"
    using write_number[OF assms(1), of host w order] unfolding k by auto
  then show ?thesis
    using read_number[OF s1(2), where 'a = 'a, of host' order] word_of_num_bytes[OF assms(2), of order w]
    unfolding k by auto
qed

end

section \<open>The instance the codecs use\<close>

text \<open>The codecs read from and write to the content of a memory stream on a little-endian host.\<close>

definition in_read :: "bytes \<Rightarrow> int \<Rightarrow> (bytes \<times> bytes) option" where
  "in_read s n = Some (take (nat n) s, drop (nat n) s)"

definition ReadByte :: "bytes \<Rightarrow> (byte \<times> bytes) option" where
  "ReadByte s = num_ReadNumber kByteOrder in_read kByteOrder s"

definition ReadBE :: "bytes \<Rightarrow> ('a::len word \<times> bytes) option" where
  "ReadBE s = num_ReadNumber kByteOrder in_read BIGENDIAN s"

definition ReadLE :: "bytes \<Rightarrow> ('a::len word \<times> bytes) option" where
  "ReadLE s = num_ReadNumber kByteOrder in_read LILENDIAN s"

definition ReadUInt24BE :: "bytes \<Rightarrow> (32 word \<times> bytes) option" where
  "ReadUInt24BE s = num_ReadUInt24 kByteOrder in_read BIGENDIAN s"

definition WriteBE :: "'a::len word \<Rightarrow> bytes" where
  "WriteBE w = (if kByteOrder \<noteq> BIGENDIAN then num_SwapBytes (num_mem kByteOrder w) else num_mem kByteOrder w)"

definition WriteLE :: "'a::len word \<Rightarrow> bytes" where
  "WriteLE w = (if kByteOrder \<noteq> LILENDIAN then num_SwapBytes (num_mem kByteOrder w) else num_mem kByteOrder w)"

definition WriteUInt24BE :: "32 word \<Rightarrow> bytes" where
  "WriteUInt24BE x = (if kByteOrder \<noteq> BIGENDIAN then num_SwapBytes (uint24_mem kByteOrder x)
     else uint24_mem kByteOrder x)"

lemma ReadByte_Cons [codec_simps]: "ReadByte (b # s) = Some (b, s)"
  by (simp add: ReadByte_def num_ReadNumber_def num_read_mem_def in_read_def num_of_mem_def
      kByteOrder_def)

lemma ReadByte_Nil [codec_simps]: "ReadByte [] = None"
  by (simp add: ReadByte_def num_ReadNumber_def num_read_mem_def in_read_def)

lemma ReadBE_eq:
  "ReadBE s = (if length s < LENGTH('a) div 8 then None
     else Some (word_of_nat (be_value (take (LENGTH('a) div 8) s)) :: 'a::len word, drop (LENGTH('a) div 8) s))"
  by (auto simp: ReadBE_def num_ReadNumber_def num_read_mem_def in_read_def num_of_mem_def kByteOrder_def
      be_value_def)

lemma ReadLE_eq:
  "ReadLE s = (if length s < LENGTH('a) div 8 then None
     else Some (word_of_nat (le_value (take (LENGTH('a) div 8) s)) :: 'a::len word, drop (LENGTH('a) div 8) s))"
  by (auto simp: ReadLE_def num_ReadNumber_def num_read_mem_def in_read_def num_of_mem_def kByteOrder_def)

lemma WriteBE_eq: "WriteBE (w :: 'a::len word) = be_bytes (LENGTH('a) div 8) (unat w)"
  by (simp add: WriteBE_def num_mem_def kByteOrder_def be_bytes_def)

lemma WriteLE_eq: "WriteLE (w :: 'a::len word) = le_bytes (LENGTH('a) div 8) (unat w)"
  by (simp add: WriteLE_def num_mem_def kByteOrder_def)

lemma length_WriteBE [simp]: "length (WriteBE (w :: 'a::len word)) = LENGTH('a) div 8"
  by (simp add: WriteBE_eq)

lemma length_WriteLE [simp]: "length (WriteLE (w :: 'a::len word)) = LENGTH('a) div 8"
  by (simp add: WriteLE_eq)

lemma unat_mod_256:
  assumes "LENGTH('a) = 8 * k"
  shows "unat (w :: 'a::len word) mod 256 ^ k = unat w"
proof -
  have "(256 :: nat) ^ k = 2 ^ LENGTH('a)" using assms by (simp add: power_mult)
  then show ?thesis using unat_less_power[of w] by simp
qed

lemma ReadBE_WriteBE:
  assumes "LENGTH('a) = 8 * (LENGTH('a) div 8)"
  shows "ReadBE (WriteBE (w :: 'a::len word) @ s) = Some (w, s)"
  using unat_mod_256[OF assms, of w] by (simp add: ReadBE_eq WriteBE_eq)

lemma ReadBE_WriteBE_simps [codec_simps]:
  "ReadBE (WriteBE (w16 :: 16 word) @ s) = Some (w16, s)"
  "ReadBE (WriteBE (w32 :: 32 word) @ s) = Some (w32, s)"
  "ReadBE (WriteBE (w64 :: 64 word) @ s) = Some (w64, s)"
  by (simp_all add: ReadBE_WriteBE)

lemma ReadLE_WriteLE:
  assumes "LENGTH('a) = 8 * (LENGTH('a) div 8)"
  shows "ReadLE (WriteLE (w :: 'a::len word) @ s) = Some (w, s)"
  using unat_mod_256[OF assms, of w] by (simp add: ReadLE_eq WriteLE_eq)

lemma ReadLE_WriteLE_simps [codec_simps]:
  "ReadLE (WriteLE (w16 :: 16 word) @ s) = Some (w16, s)"
  "ReadLE (WriteLE (w32 :: 32 word) @ s) = Some (w32, s)"
  "ReadLE (WriteLE (w64 :: 64 word) @ s) = Some (w64, s)"
  by (simp_all add: ReadLE_WriteLE)

lemma uint24_value_eq:
  "length bs = 3 \<Longrightarrow> uint24_value bs = word_of_nat (le_value bs)"
  by (auto simp: length_Suc_conv numeral_3_eq_3 uint24_value_def push_bit_eq_mult algebra_simps)

lemma uint24_mem_LE: "uint24_mem LILENDIAN x = le_bytes 3 (unat x)"
  by (simp add: uint24_mem_def numeral_3_eq_3 word_unat_eq_iff unat_byte_mod unsigned_ucast_eq
      unsigned_drop_bit_eq take_bit_eq_mod drop_bit_eq_div div_mult2_eq [symmetric] unat_div_distrib)

lemma ReadUInt24BE_eq:
  "ReadUInt24BE s = (if length s < 3 then None
     else Some (word_of_nat (be_value (take 3 s)), drop 3 s))"
  by (auto simp: ReadUInt24BE_def num_ReadUInt24_def num_read_mem_def in_read_def kByteOrder_def
      be_value_def uint24_value_eq)

lemma WriteUInt24BE_eq: "WriteUInt24BE x = be_bytes 3 (unat x)"
  by (simp add: WriteUInt24BE_def uint24_mem_LE kByteOrder_def be_bytes_def)

lemma length_WriteUInt24BE [simp]: "length (WriteUInt24BE x) = 3"
  by (simp add: WriteUInt24BE_eq)

lemma ReadUInt24BE_WriteUInt24BE [codec_simps]:
  "unat x < 2 ^ 24 \<Longrightarrow> ReadUInt24BE (WriteUInt24BE x @ s) = Some (x, s)"
  by (simp add: ReadUInt24BE_eq WriteUInt24BE_eq)

end
