(* ===== verification/Reader.thy ===== *)
theory Reader
  imports NumStreaming
begin

text \<open>
  Decoders of untrusted input.  A decoder checks \<^verbatim>\<open>in->Size()\<close>, reads, and returns a status;
  it aborts if it reads more than there is.  \<open>rd_post\<close> is the assertion proved of every
  decoder: it does not abort, it does not make the stream longer, and a success consumed at
  least \<open>k\<close> bytes and satisfies a postcondition.
\<close>

section \<open>Results of readers\<close>

text \<open>
  A reader consumes bytes and reports an error or a value; the outer option is \<open>None\<close> when a
  \<^verbatim>\<open>CHECK\<close> fails.
\<close>

type_synonym ('e, 'a) reader = "bytes \<Rightarrow> (('e + 'a) \<times> bytes) option"

definition rd_ok :: "'a \<Rightarrow> ('e, 'a) reader" where
  "rd_ok x = (\<lambda>s. Some (Inr x, s))"

definition rd_err :: "'e \<Rightarrow> ('e, 'a) reader" where
  "rd_err e = (\<lambda>s. Some (Inl e, s))"

definition rd_bind :: "('e, 'a) reader \<Rightarrow> ('a \<Rightarrow> ('e, 'b) reader) \<Rightarrow> ('e, 'b) reader" where
  "rd_bind r f = (\<lambda>s. case r s of
       None \<Rightarrow> None
     | Some (Inl e, s') \<Rightarrow> Some (Inl e, s')
     | Some (Inr x, s') \<Rightarrow> f x s')"

text \<open>\<^verbatim>\<open>if ( in->Size() < n ) return e\<close>.\<close>

definition rd_need :: "'e \<Rightarrow> nat \<Rightarrow> ('e, unit) reader" where
  "rd_need e n = (\<lambda>s. if length s < n then Some (Inl e, s) else Some (Inr (), s))"

text \<open>A read that aborts when there are not enough bytes.\<close>

definition rd_num :: "(bytes \<Rightarrow> ('a \<times> bytes) option) \<Rightarrow> ('e, 'a) reader" where
  "rd_num r = (\<lambda>s. case r s of None \<Rightarrow> None | Some (x, s') \<Rightarrow> Some (Inr x, s'))"

lemma rd_simps [codec_simps]:
  "rd_ok x s = Some (Inr x, s)"
  "rd_err e s = Some (Inl e, s)"
  "rd_bind (rd_ok y) f s = f y s"
  "rd_bind (rd_err e) f s = Some (Inl e, s)"
  "rd_bind (rd_need e n) g s = (if length s < n then Some (Inl e, s) else g () s)"
  by (auto simp: rd_ok_def rd_err_def rd_bind_def rd_need_def)

lemma rd_bind_num [codec_simps]: "r s = Some (x, s') \<Longrightarrow> rd_bind (rd_num r) f s = f x s'"
  by (simp add: rd_bind_def rd_num_def)

lemma rd_num_apply [codec_simps]: "r s = Some (x, s') \<Longrightarrow> rd_num r s = Some (Inr x, s')"
  by (simp add: rd_num_def)

lemma rd_bind_ok: "r s = Some (Inr x, s') \<Longrightarrow> rd_bind r f s = f x s'"
  by (simp add: rd_bind_def)

lemma rd_bind_err: "r s = Some (Inl e, s') \<Longrightarrow> rd_bind r f s = Some (Inl e, s')"
  by (simp add: rd_bind_def)

text \<open>\<^verbatim>\<open>in->ReadString(out, len)\<close> or \<^verbatim>\<open>Read\<close> under a check of its result.\<close>

definition read_checked :: "nat \<Rightarrow> bytes \<Rightarrow> (bytes \<times> bytes) option" where
  "read_checked n s = (if length (take n s) = n then Some (take n s, drop n s) else None)"

lemma read_checked_append [codec_simps]: "read_checked (length xs) (xs @ s) = Some (xs, s)"
  by (simp add: read_checked_def)

section \<open>Assertions on readers\<close>

definition rd_post :: "('e, 'a) reader \<Rightarrow> bytes \<Rightarrow> nat \<Rightarrow> ('a \<Rightarrow> bool) \<Rightarrow> bool" where
  "rd_post r s k Q \<longleftrightarrow> (\<exists>x s'. r s = Some (x, s') \<and> length s' \<le> length s
     \<and> (\<forall>v. x = Inr v \<longrightarrow> Q v \<and> length s' + k \<le> length s))"

named_theorems rd_rules \<open>rules that derive the assertion of a reader from its parts\<close>

lemma rd_postE:
  assumes "rd_post r s k Q"
  obtains (err) e s' where "r s = Some (Inl e, s')" "length s' \<le> length s"
    | (ok) v s' where "r s = Some (Inr v, s')" "Q v" "length s' + k \<le> length s"
  using assms unfolding rd_post_def by (metis sum.exhaust)

lemma rd_post_cong: "r s = r' s \<Longrightarrow> rd_post r s k Q = rd_post r' s k Q"
  by (simp add: rd_post_def)

lemma rd_post_mono: "rd_post r s k Q \<Longrightarrow> k' \<le> k \<Longrightarrow> (\<And>v. Q v \<Longrightarrow> R v) \<Longrightarrow> rd_post r s k' R"
  unfolding rd_post_def by force

lemma rd_post_ok [rd_rules]: "k = 0 \<Longrightarrow> Q v \<Longrightarrow> rd_post (rd_ok v) s k Q"
  by (simp add: rd_post_def rd_ok_def)

lemma rd_post_err [rd_rules]: "rd_post (rd_err e) s k Q"
  by (simp add: rd_post_def rd_err_def)

lemma rd_post_ok_iff [simp]: "rd_post (rd_ok v) s k Q \<longleftrightarrow> k = 0 \<and> Q v"
  by (auto simp: rd_post_def rd_ok_def)

lemma rd_post_err_iff [simp]: "rd_post (rd_err e) s k Q"
  by (rule rd_post_err)

text \<open>A reader given by cases on its input.\<close>

lemma rd_post_cases:
  "(b s \<Longrightarrow> rd_post r s k Q) \<Longrightarrow> (\<not> b s \<Longrightarrow> rd_post r' s k Q)
     \<Longrightarrow> rd_post (\<lambda>s. if b s then r s else r' s) s k Q"
  by (auto simp: rd_post_def)

lemma rd_post_bind:
  assumes "rd_post r s k1 Q" "\<And>v s'. Q v \<Longrightarrow> length s' + k1 \<le> length s \<Longrightarrow> rd_post (f v) s' (k - k1) R"
  shows "rd_post (rd_bind r f) s k R"
  using assms(1)
proof (cases rule: rd_postE)
  case (err e s')
  then show ?thesis by (simp add: rd_post_def rd_bind_def)
next
  case (ok v s')
  have "rd_post (f v) s' (k - k1) R" using assms(2) ok by blast
  then show ?thesis
  proof (cases rule: rd_postE)
    case (err e s'')
    then show ?thesis using ok by (simp add: rd_post_def rd_bind_def)
  next
    case (ok w s'')
    then show ?thesis using \<open>r s = Some (Inr v, s')\<close> \<open>length s' + k1 \<le> length s\<close>
      by (simp add: rd_post_def rd_bind_def)
  qed
qed

lemma rd_post_need [rd_rules]:
  "(n \<le> length s \<Longrightarrow> rd_post (f ()) s k R) \<Longrightarrow> rd_post (rd_bind (rd_need e n) f) s k R"
  by (cases "length s < n") (auto simp: rd_post_def rd_bind_def rd_need_def)

lemma rd_post_if [rd_rules]:
  "(b \<Longrightarrow> rd_post r s k Q) \<Longrightarrow> (\<not> b \<Longrightarrow> rd_post r' s k Q) \<Longrightarrow> rd_post (if b then r else r') s k Q"
  by simp

lemma rd_post_num:
  assumes "r s = Some (x, s')" "length s' + n = length s" "rd_post (f x) s' (k - n) R"
  shows "rd_post (rd_bind (rd_num r) f) s k R"
  using assms(3)
proof (cases rule: rd_postE)
  case (err e s'')
  then show ?thesis using assms(1,2) by (simp add: rd_post_def rd_bind_def rd_num_def)
next
  case (ok w s'')
  then show ?thesis using assms(1,2) by (simp add: rd_post_def rd_bind_def rd_num_def)
qed

lemma rd_post_byte [rd_rules]:
  assumes "1 \<le> length s" "\<And>b s'. s = b # s' \<Longrightarrow> rd_post (f b) s' (k - 1) R"
  shows "rd_post (rd_bind (rd_num ReadByte) f) s k R"
proof -
  obtain b s' where s: "s = b # s'" using assms(1) by (cases s) auto
  show ?thesis
    by (rule rd_post_num[of _ _ b s' 1]) (use s assms(2) in \<open>auto simp: ReadByte_Cons\<close>)
qed

lemma rd_post_BE [rd_rules]:
  assumes "LENGTH('a) div 8 \<le> length s"
    "\<And>w s'. length s' + LENGTH('a) div 8 = length s \<Longrightarrow> rd_post (f (w :: 'a::len word)) s' (k - LENGTH('a) div 8) R"
  shows "rd_post (rd_bind (rd_num ReadBE) f) s k R"
  using assms by (intro rd_post_num[OF _ _ assms(2)]) (auto simp: ReadBE_eq)

lemma rd_post_LE [rd_rules]:
  assumes "LENGTH('a) div 8 \<le> length s"
    "\<And>w s'. length s' + LENGTH('a) div 8 = length s \<Longrightarrow> rd_post (f (w :: 'a::len word)) s' (k - LENGTH('a) div 8) R"
  shows "rd_post (rd_bind (rd_num ReadLE) f) s k R"
  using assms by (intro rd_post_num[OF _ _ assms(2)]) (auto simp: ReadLE_eq)

lemma rd_post_UInt24BE [rd_rules]:
  assumes "3 \<le> length s" "\<And>w s'. length s' + 3 = length s \<Longrightarrow> rd_post (f w) s' (k - 3) R"
  shows "rd_post (rd_bind (rd_num ReadUInt24BE) f) s k R"
  using assms by (intro rd_post_num[OF _ _ assms(2)]) (auto simp: ReadUInt24BE_eq)

lemma rd_post_checked [rd_rules]:
  assumes "n \<le> length s" "k \<le> n" "\<And>xs. length xs = n \<Longrightarrow> Q xs"
  shows "rd_post (rd_num (read_checked n)) s k Q"
  using assms by (simp add: rd_post_def rd_num_def read_checked_def)

lemma rd_post_bind_checked [rd_rules]:
  assumes "n \<le> length s" "\<And>xs s'. length xs = n \<Longrightarrow> length s' + n = length s \<Longrightarrow> rd_post (f xs) s' (k - n) R"
  shows "rd_post (rd_bind (rd_num (read_checked n)) f) s k R"
  using assms by (intro rd_post_num[OF _ _ assms(2)]) (auto simp: read_checked_def)

section \<open>Readers on a growing input\<close>

text \<open>
  A reader that gives a value or an error other than \<open>nd\<close> (not enough data) gives the same
  when more bytes have arrived, and leaves the rest.
\<close>

definition rd_mono :: "'e \<Rightarrow> ('e, 'a) reader \<Rightarrow> bool" where
  "rd_mono nd r \<longleftrightarrow> (\<forall>s t. case r s of
     None \<Rightarrow> True
   | Some (Inl e, s') \<Rightarrow> e \<noteq> nd \<longrightarrow> r (s @ t) = Some (Inl e, s' @ t)
   | Some (Inr v, s') \<Rightarrow> r (s @ t) = Some (Inr v, s' @ t))"

named_theorems mono_rules \<open>rules for readers on a growing input\<close>

lemma rd_mono_ok [mono_rules]: "rd_mono nd (rd_ok v)"
  by (simp add: rd_mono_def rd_ok_def)

lemma rd_mono_err [mono_rules]: "rd_mono nd (rd_err e)"
  by (simp add: rd_mono_def rd_err_def)

lemma rd_mono_need [mono_rules]: "rd_mono nd (rd_need nd n)"
  by (simp add: rd_mono_def rd_need_def)

lemma rd_mono_bind [mono_rules]:
  assumes "rd_mono nd r" "\<And>v. rd_mono nd (f v)"
  shows "rd_mono nd (rd_bind r f)"
  unfolding rd_mono_def
proof (intro allI)
  fix s t
  note r = assms(1)[unfolded rd_mono_def, rule_format, of s t]
  show "case rd_bind r f s of
      None \<Rightarrow> True
    | Some (Inl e, s') \<Rightarrow> e \<noteq> nd \<longrightarrow> rd_bind r f (s @ t) = Some (Inl e, s' @ t)
    | Some (Inr v, s') \<Rightarrow> rd_bind r f (s @ t) = Some (Inr v, s' @ t)"
  proof (cases "r s")
    case None
    then show ?thesis by (simp add: rd_bind_def)
  next
    case (Some p)
    obtain x s1 where p: "p = (x, s1)" by (cases p)
    show ?thesis
    proof (cases x)
      case (Inl e)
      then show ?thesis using r Some p by (simp add: rd_bind_def)
    next
      case (Inr v)
      then have eqs: "rd_bind r f s = f v s1" "rd_bind r f (s @ t) = f v (s1 @ t)"
        using r Some p by (simp_all add: rd_bind_def)
      show ?thesis
        unfolding eqs by (rule assms(2)[unfolded rd_mono_def, rule_format])
    qed
  qed
qed

lemma rd_mono_if [mono_rules]: "rd_mono nd r \<Longrightarrow> rd_mono nd r' \<Longrightarrow> rd_mono nd (if b then r else r')"
  by simp

lemma rd_mono_num:
  assumes "\<And>s t x s'. r s = Some (x, s') \<Longrightarrow> r (s @ t) = Some (x, s' @ t)"
  shows "rd_mono nd (rd_num r)"
  using assms by (auto simp: rd_mono_def rd_num_def split: option.splits)

lemma rd_mono_numbers [mono_rules]:
  "rd_mono nd (rd_num ReadByte)"
  "rd_mono nd (rd_num (ReadBE :: bytes \<Rightarrow> ('a::len word \<times> bytes) option))"
  "rd_mono nd (rd_num (ReadLE :: bytes \<Rightarrow> ('a::len word \<times> bytes) option))"
  "rd_mono nd (rd_num ReadUInt24BE)"
  "rd_mono nd (rd_num (read_checked n))"
proof -
  show "rd_mono nd (rd_num ReadByte)"
  proof (rule rd_mono_num)
    fix s t x s' assume "ReadByte s = Some (x, s')"
    then show "ReadByte (s @ t) = Some (x, s' @ t)"
      by (cases s) (auto simp: ReadByte_Cons ReadByte_Nil)
  qed
qed (rule rd_mono_num, auto simp: ReadBE_eq ReadLE_eq ReadUInt24BE_eq read_checked_def split: if_splits)+

end
