(* ===== verification/F4vTypes.thy ===== *)
theory F4vTypes
  imports Reader
begin

text \<open>
  \<^verbatim>\<open>whisperstreamlib/f4v\<close>: the codes of the atoms, the statuses of their decoders, the records
  of the sample tables and the contract of a coder of bodies (\<^verbatim>\<open>f4v_types.h\<close>,
  \<^verbatim>\<open>atoms/base_atom.h\<close>, \<^verbatim>\<open>atoms/multi_record_versioned_atom.h\<close>, \<^verbatim>\<open>atoms/movie\<close>).
\<close>

section \<open>Codes\<close>

definition FourCC :: "byte \<Rightarrow> byte \<Rightarrow> byte \<Rightarrow> byte \<Rightarrow> 32 word" where
  "FourCC a b c d = push_bit 8 (push_bit 8 (push_bit 8 (ucast a) OR ucast b) OR ucast c) OR ucast d"

definition ATOM_AVC1 :: "32 word" where "ATOM_AVC1 = FourCC 0x61 0x76 0x63 0x31"
definition ATOM_AVCC :: "32 word" where "ATOM_AVCC = FourCC 0x61 0x76 0x63 0x43"
definition ATOM_CO64 :: "32 word" where "ATOM_CO64 = FourCC 0x63 0x6F 0x36 0x34"
definition ATOM_CTTS :: "32 word" where "ATOM_CTTS = FourCC 0x63 0x74 0x74 0x73"
definition ATOM_ESDS :: "32 word" where "ATOM_ESDS = FourCC 0x65 0x73 0x64 0x73"
definition ATOM_FREE :: "32 word" where "ATOM_FREE = FourCC 0x66 0x72 0x65 0x65"
definition ATOM_FTYP :: "32 word" where "ATOM_FTYP = FourCC 0x66 0x74 0x79 0x70"
definition ATOM_HDLR :: "32 word" where "ATOM_HDLR = FourCC 0x68 0x64 0x6C 0x72"
definition ATOM_MDAT :: "32 word" where "ATOM_MDAT = FourCC 0x6D 0x64 0x61 0x74"
definition ATOM_MDHD :: "32 word" where "ATOM_MDHD = FourCC 0x6D 0x64 0x68 0x64"
definition ATOM_MDIA :: "32 word" where "ATOM_MDIA = FourCC 0x6D 0x64 0x69 0x61"
definition ATOM_MINF :: "32 word" where "ATOM_MINF = FourCC 0x6D 0x69 0x6E 0x66"
definition ATOM_MOOV :: "32 word" where "ATOM_MOOV = FourCC 0x6D 0x6F 0x6F 0x76"
definition ATOM_MP4A :: "32 word" where "ATOM_MP4A = FourCC 0x6D 0x70 0x34 0x61"
definition ATOM_MVHD :: "32 word" where "ATOM_MVHD = FourCC 0x6D 0x76 0x68 0x64"
definition ATOM_NULL :: "32 word" where "ATOM_NULL = FourCC 0 0 0 0"
definition ATOM_SMHD :: "32 word" where "ATOM_SMHD = FourCC 0x73 0x6D 0x68 0x64"
definition ATOM_STBL :: "32 word" where "ATOM_STBL = FourCC 0x73 0x74 0x62 0x6C"
definition ATOM_STCO :: "32 word" where "ATOM_STCO = FourCC 0x73 0x74 0x63 0x6F"
definition ATOM_STSC :: "32 word" where "ATOM_STSC = FourCC 0x73 0x74 0x73 0x63"
definition ATOM_STSD :: "32 word" where "ATOM_STSD = FourCC 0x73 0x74 0x73 0x64"
definition ATOM_STSS :: "32 word" where "ATOM_STSS = FourCC 0x73 0x74 0x73 0x73"
definition ATOM_STSZ :: "32 word" where "ATOM_STSZ = FourCC 0x73 0x74 0x73 0x7A"
definition ATOM_STTS :: "32 word" where "ATOM_STTS = FourCC 0x73 0x74 0x74 0x73"
definition ATOM_TKHD :: "32 word" where "ATOM_TKHD = FourCC 0x74 0x6B 0x68 0x64"
definition ATOM_TRAK :: "32 word" where "ATOM_TRAK = FourCC 0x74 0x72 0x61 0x6B"
definition ATOM_VMHD :: "32 word" where "ATOM_VMHD = FourCC 0x76 0x6D 0x68 0x64"
definition ATOM_WAVE :: "32 word" where "ATOM_WAVE = FourCC 0x77 0x61 0x76 0x65"
definition ATOM_DINF :: "32 word" where "ATOM_DINF = FourCC 0x64 0x69 0x6E 0x66"
definition ATOM_UDTA :: "32 word" where "ATOM_UDTA = FourCC 0x75 0x64 0x74 0x61"
definition ATOM_META :: "32 word" where "ATOM_META = FourCC 0x6D 0x65 0x74 0x61"
definition ATOM_RAW :: "32 word" where "ATOM_RAW = FourCC 0x78 0x78 0x78 0x78"

text \<open>The codes as numbers, so that two codes are told apart by evaluation.\<close>

named_theorems atom_codes \<open>the codes of the atoms as numerals\<close>

lemma atom_code_values [atom_codes]:
  "ATOM_AVC1 = 0x61766331" "ATOM_AVCC = 0x61766343" "ATOM_CO64 = 0x636F3634" "ATOM_CTTS = 0x63747473"
  "ATOM_ESDS = 0x65736473" "ATOM_FREE = 0x66726565" "ATOM_FTYP = 0x66747970" "ATOM_HDLR = 0x68646C72"
  "ATOM_MDAT = 0x6D646174" "ATOM_MDHD = 0x6D646864" "ATOM_MDIA = 0x6D646961" "ATOM_MINF = 0x6D696E66"
  "ATOM_MOOV = 0x6D6F6F76" "ATOM_MP4A = 0x6D703461" "ATOM_MVHD = 0x6D766864" "ATOM_NULL = 0"
  "ATOM_SMHD = 0x736D6864" "ATOM_STBL = 0x7374626C" "ATOM_STCO = 0x7374636F" "ATOM_STSC = 0x73747363"
  "ATOM_STSD = 0x73747364" "ATOM_STSS = 0x73747373" "ATOM_STSZ = 0x7374737A" "ATOM_STTS = 0x73747473"
  "ATOM_TKHD = 0x746B6864" "ATOM_TRAK = 0x7472616B" "ATOM_VMHD = 0x766D6864" "ATOM_WAVE = 0x77617665"
  "ATOM_DINF = 0x64696E66" "ATOM_UDTA = 0x75647461" "ATOM_META = 0x6D657461" "ATOM_RAW = 0x78787878"
  unfolding ATOM_AVC1_def ATOM_AVCC_def ATOM_CO64_def ATOM_CTTS_def ATOM_ESDS_def ATOM_FREE_def
    ATOM_FTYP_def ATOM_HDLR_def ATOM_MDAT_def ATOM_MDHD_def ATOM_MDIA_def ATOM_MINF_def ATOM_MOOV_def
    ATOM_MP4A_def ATOM_MVHD_def ATOM_NULL_def ATOM_SMHD_def ATOM_STBL_def ATOM_STCO_def ATOM_STSC_def
    ATOM_STSD_def ATOM_STSS_def ATOM_STSZ_def ATOM_STTS_def ATOM_TKHD_def ATOM_TRAK_def ATOM_VMHD_def
    ATOM_WAVE_def ATOM_DINF_def ATOM_UDTA_def ATOM_META_def ATOM_RAW_def FourCC_def
  by simp_all

text \<open>
  The atoms whose classes \<^verbatim>\<open>scripts/generate_atoms.py\<close> writes from one template: \<^verbatim>\<open>blnk\<close>,
  \<^verbatim>\<open>chpl\<close>, \<^verbatim>\<open>dinf\<close>, \<^verbatim>\<open>dlay\<close>, \<^verbatim>\<open>drpo\<close>, \<^verbatim>\<open>drpt\<close>, \<^verbatim>\<open>edts\<close>, \<^verbatim>\<open>elts\<close>, \<^verbatim>\<open>hclr\<close>,
  \<^verbatim>\<open>hlit\<close>, \<^verbatim>\<open>href\<close>, \<^verbatim>\<open>ilst\<close>, \<^verbatim>\<open>krok\<close>, \<^verbatim>\<open>load\<close>, \<^verbatim>\<open>meta\<close>, \<^verbatim>\<open>pdin\<close>, \<^verbatim>\<open>sdtp\<close>,
  \<^verbatim>\<open>styl\<close>, \<^verbatim>\<open>tbox\<close>, \<^verbatim>\<open>twrp\<close>, \<^verbatim>\<open>udta\<close>, \<^verbatim>\<open>uuid\<close>.
\<close>

definition autogen_atoms :: "32 word list" where
  "autogen_atoms = [FourCC 0x62 0x6C 0x6E 0x6B, FourCC 0x63 0x68 0x70 0x6C, ATOM_DINF,
     FourCC 0x64 0x6C 0x61 0x79, FourCC 0x64 0x72 0x70 0x6F, FourCC 0x64 0x72 0x70 0x74,
     FourCC 0x65 0x64 0x74 0x73, FourCC 0x65 0x6C 0x74 0x73, FourCC 0x68 0x63 0x6C 0x72,
     FourCC 0x68 0x6C 0x69 0x74, FourCC 0x68 0x72 0x65 0x66, FourCC 0x69 0x6C 0x73 0x74,
     FourCC 0x6B 0x72 0x6F 0x6B, FourCC 0x6C 0x6F 0x61 0x64, ATOM_META,
     FourCC 0x70 0x64 0x69 0x6E, FourCC 0x73 0x64 0x74 0x70, FourCC 0x73 0x74 0x79 0x6C,
     FourCC 0x74 0x62 0x6F 0x78, FourCC 0x74 0x77 0x72 0x70, ATOM_UDTA,
     FourCC 0x75 0x75 0x69 0x64]"

lemma autogen_atoms_values [atom_codes]:
  "autogen_atoms = [0x626C6E6B, 0x6368706C, 0x64696E66, 0x646C6179, 0x6472706F, 0x64727074,
     0x65647473, 0x656C7473, 0x68636C72, 0x686C6974, 0x68726566, 0x696C7374, 0x6B726F6B, 0x6C6F6164,
     0x6D657461, 0x7064696E, 0x73647470, 0x7374796C, 0x74626F78, 0x74777270, 0x75647461, 0x75756964]"
  by (simp add: autogen_atoms_def FourCC_def atom_code_values)

text \<open>\<^verbatim>\<open>TagDecodeStatus\<close> without the success, which carries a value here.\<close>

datatype decode_failure = TAG_DECODE_NO_DATA | TAG_DECODE_ERROR

type_synonym 'a f4v_reader = "(decode_failure, 'a) reader"

text \<open>\<^verbatim>\<open>FrameHeader::Type\<close>.\<close>

datatype f4v_frame_type = AUDIO_FRAME | VIDEO_FRAME | RAW_FRAME

section \<open>Coders of bodies\<close>

text \<open>
  The contract of the body of an atom: a good body is written without an abort, takes as many
  bytes as \<^verbatim>\<open>MeasureBodySize\<close> says, and is read back from that many bytes, whatever follows.
\<close>

locale body_codec =
  fixes encode :: "'b \<Rightarrow> bytes option" and measure_size :: "'b \<Rightarrow> nat"
    and decode :: "nat \<Rightarrow> 'b f4v_reader" and good :: "'b \<Rightarrow> bool"
  assumes encode_good: "good b \<Longrightarrow> \<exists>bs. encode b = Some bs \<and> length bs = measure_size b
    \<and> (\<forall>s. decode (measure_size b) (bs @ s) = Some (Inr b, s))"
begin

lemma decode_encode:
  "good b \<Longrightarrow> encode b = Some bs \<Longrightarrow> decode (length bs) (bs @ s) = Some (Inr b, s)"
  using encode_good[of b] by auto

lemma encode_length: "good b \<Longrightarrow> encode b = Some bs \<Longrightarrow> length bs = measure_size b"
  using encode_good[of b] by auto

lemma encode_inj: "good b \<Longrightarrow> good b' \<Longrightarrow> encode b = encode b' \<Longrightarrow> b = b'"
  using encode_good[of b] encode_good[of b'] by (metis append_Nil2 old.prod.inject option.inject sum.inject(2))

end

section \<open>Tables of records\<close>

text \<open>\<^verbatim>\<open>MultiRecordVersionedAtom<RECORD>\<close>; \<^verbatim>\<open>count * RECORD::kEncodingSize\<close> is a \<^verbatim>\<open>uint32\<close>.\<close>

fun read_each :: "'r f4v_reader \<Rightarrow> nat \<Rightarrow> 'r list f4v_reader" where
  "read_each rd 0 = rd_ok []"
| "read_each rd (Suc k) = rd_bind rd (\<lambda>r. rd_bind (read_each rd k) (\<lambda>rs. rd_ok (r # rs)))"

definition MultiRecord_Decode :: "nat \<Rightarrow> 'r f4v_reader \<Rightarrow> nat \<Rightarrow> 'r list f4v_reader" where
  "MultiRecord_Decode kEncodingSize rd n =
     rd_bind (rd_need TAG_DECODE_NO_DATA 4) (\<lambda>_.
     rd_bind (rd_num ReadBE) (\<lambda>count :: 32 word.
       if n \<noteq> unat (4 + count * word_of_nat kEncodingSize :: 32 word) then rd_err TAG_DECODE_ERROR
       else read_each rd (unat count)))"

definition MultiRecord_Encode :: "('r \<Rightarrow> bytes) \<Rightarrow> 'r list \<Rightarrow> bytes" where
  "MultiRecord_Encode enc rs = WriteBE (word_of_nat (length rs) :: 32 word) @ concat (map enc rs)"

definition MultiRecord_Measure :: "nat \<Rightarrow> 'r list \<Rightarrow> nat" where
  "MultiRecord_Measure kEncodingSize rs = 4 + length rs * kEncodingSize"

text \<open>The contract of a record: it has a fixed size and is read back.\<close>

locale table_record =
  fixes k :: nat and enc :: "'r \<Rightarrow> bytes" and rd :: "'r f4v_reader"
  assumes length_enc: "length (enc r) = k"
    and rd_enc: "rd (enc r @ s) = Some (Inr r, s)"
    and rd_short: "length s < k \<Longrightarrow> rd s = Some (Inl TAG_DECODE_ERROR, s)"
    and k_pos: "0 < k"
begin

lemma length_concat_enc: "length (concat (map enc rs)) = length rs * k"
  by (induction rs) (auto simp: length_enc)

lemma read_each_enc: "read_each rd (length rs) (concat (map enc rs) @ s) = Some (Inr rs, s)"
proof (induction rs)
  case (Cons r rs)
  have "rd (enc r @ concat (map enc rs) @ s) = Some (Inr r, concat (map enc rs) @ s)" by (rule rd_enc)
  with Cons show ?case by (simp add: rd_bind_def rd_ok_def)
qed (simp add: rd_simps)

text \<open>A table of less than \<open>2 ^ 32\<close> bytes is read back.\<close>

definition fits_table :: "'r list \<Rightarrow> bool" where
  "fits_table rs \<longleftrightarrow> MultiRecord_Measure k rs < 2 ^ 32"

lemma table_roundtrip:
  assumes "fits_table rs"
  shows "length (MultiRecord_Encode enc rs) = MultiRecord_Measure k rs"
    "MultiRecord_Decode k rd (MultiRecord_Measure k rs) (MultiRecord_Encode enc rs @ s) = Some (Inr rs, s)"
proof -
  show "length (MultiRecord_Encode enc rs) = MultiRecord_Measure k rs"
    by (simp add: MultiRecord_Encode_def MultiRecord_Measure_def length_concat_enc)
  have fit: "4 + length rs * k < 2 ^ 32" using assms by (simp add: fits_table_def MultiRecord_Measure_def)
  have "length rs \<le> length rs * k" using k_pos by simp
  then have "length rs < 2 ^ 32" using fit by linarith
  then have len: "unat (word_of_nat (length rs) :: 32 word) = length rs"
    by (intro unat_word_of_nat) simp
  have "(4 + word_of_nat (length rs) * word_of_nat k :: 32 word) = word_of_nat (4 + length rs * k)" by simp
  then have whole: "unat (4 + word_of_nat (length rs) * word_of_nat k :: 32 word) = 4 + length rs * k"
    using fit unat_word_of_nat[of "4 + length rs * k", where 'a = 32] by simp
  show "MultiRecord_Decode k rd (MultiRecord_Measure k rs) (MultiRecord_Encode enc rs @ s) = Some (Inr rs, s)"
    by (simp add: MultiRecord_Decode_def MultiRecord_Encode_def MultiRecord_Measure_def codec_simps
        read_each_enc len whole)
qed

lemma table_codec:
  "body_codec (\<lambda>rs. Some (MultiRecord_Encode enc rs)) (MultiRecord_Measure k) (MultiRecord_Decode k rd) fits_table"
  by unfold_locales (auto simp: table_roundtrip)

end

sublocale table_record \<subseteq> table: body_codec "\<lambda>rs. Some (MultiRecord_Encode enc rs)" "MultiRecord_Measure k"
    "MultiRecord_Decode k rd" fits_table
  by (rule table_codec)

end
