(* ===== verification/F4vTables.thy ===== *)
theory F4vTables
  imports F4vTypes
begin

text \<open>
  The records of the sample tables of a track (\<^verbatim>\<open>atoms/movie/{co64,stco,stss,stsz,stts,ctts,
  stsc}_atom\<close>): each is an instance of the locale \<open>table_record\<close>.
\<close>

section \<open>Records\<close>

record stts_record =
  stts_sample_count :: "32 word"
  stts_sample_delta :: "32 word"

text \<open>\<^verbatim>\<open>sample_offset_\<close> is an \<^verbatim>\<open>int32\<close>: the word is read with \<open>sint\<close> where it is used.\<close>

record ctts_record =
  ctts_sample_count :: "32 word"
  ctts_sample_offset :: "32 word"

record stsc_record =
  first_chunk :: "32 word"
  samples_per_chunk :: "32 word"
  sample_description_index :: "32 word"

definition U32Record_Encode :: "32 word \<Rightarrow> bytes" where
  "U32Record_Encode w = WriteBE w"

definition U32Record_Decode :: "(32 word) f4v_reader" where
  "U32Record_Decode = rd_bind (rd_need TAG_DECODE_ERROR 4) (\<lambda>_. rd_num ReadBE)"

definition Co64Record_Encode :: "64 word \<Rightarrow> bytes" where
  "Co64Record_Encode w = WriteBE w"

definition Co64Record_Decode :: "(64 word) f4v_reader" where
  "Co64Record_Decode = rd_bind (rd_need TAG_DECODE_ERROR 8) (\<lambda>_. rd_num ReadBE)"

definition SttsRecord_Encode :: "stts_record \<Rightarrow> bytes" where
  "SttsRecord_Encode r = WriteBE (stts_sample_count r) @ WriteBE (stts_sample_delta r)"

definition SttsRecord_Decode :: "stts_record f4v_reader" where
  "SttsRecord_Decode = rd_bind (rd_need TAG_DECODE_ERROR 8) (\<lambda>_.
     rd_bind (rd_num ReadBE) (\<lambda>count. rd_bind (rd_num ReadBE) (\<lambda>delta.
     rd_ok \<lparr>stts_sample_count = count, stts_sample_delta = delta\<rparr>)))"

definition CttsRecord_Encode :: "ctts_record \<Rightarrow> bytes" where
  "CttsRecord_Encode r = WriteBE (ctts_sample_count r) @ WriteBE (ctts_sample_offset r)"

definition CttsRecord_Decode :: "ctts_record f4v_reader" where
  "CttsRecord_Decode = rd_bind (rd_need TAG_DECODE_ERROR 8) (\<lambda>_.
     rd_bind (rd_num ReadBE) (\<lambda>count. rd_bind (rd_num ReadBE) (\<lambda>offset.
     rd_ok \<lparr>ctts_sample_count = count, ctts_sample_offset = offset\<rparr>)))"

definition StscRecord_Encode :: "stsc_record \<Rightarrow> bytes" where
  "StscRecord_Encode r = WriteBE (first_chunk r) @ WriteBE (samples_per_chunk r)
     @ WriteBE (sample_description_index r)"

definition StscRecord_Decode :: "stsc_record f4v_reader" where
  "StscRecord_Decode = rd_bind (rd_need TAG_DECODE_ERROR 12) (\<lambda>_.
     rd_bind (rd_num ReadBE) (\<lambda>fc. rd_bind (rd_num ReadBE) (\<lambda>spc. rd_bind (rd_num ReadBE) (\<lambda>sdi.
     rd_ok \<lparr>first_chunk = fc, samples_per_chunk = spc, sample_description_index = sdi\<rparr>))))"

section \<open>Tables\<close>

text \<open>
  The tables of \<^verbatim>\<open>stco\<close> and \<^verbatim>\<open>stss\<close> are tables of numbers of four bytes, \<^verbatim>\<open>stsz\<close> has a
  uniform size in front of its table, or instead of it.
\<close>

interpretation u32: table_record 4 U32Record_Encode U32Record_Decode
  by unfold_locales
    (simp_all add: U32Record_Encode_def U32Record_Decode_def codec_simps)

interpretation co64: table_record 8 Co64Record_Encode Co64Record_Decode
  by unfold_locales
    (simp_all add: Co64Record_Encode_def Co64Record_Decode_def codec_simps)

interpretation stts: table_record 8 SttsRecord_Encode SttsRecord_Decode
  by unfold_locales
    (simp_all add: SttsRecord_Encode_def SttsRecord_Decode_def codec_simps)

interpretation ctts: table_record 8 CttsRecord_Encode CttsRecord_Decode
  by unfold_locales
    (simp_all add: CttsRecord_Encode_def CttsRecord_Decode_def codec_simps)

interpretation stsc: table_record 12 StscRecord_Encode StscRecord_Decode
  by unfold_locales
    (simp_all add: StscRecord_Encode_def StscRecord_Decode_def codec_simps)

definition Stsz_Encode :: "32 word \<Rightarrow> (32 word) list \<Rightarrow> bytes" where
  "Stsz_Encode uniform rs = WriteBE uniform @ MultiRecord_Encode U32Record_Encode rs"

definition Stsz_Measure :: "(32 word) list \<Rightarrow> nat" where
  "Stsz_Measure rs = 4 + MultiRecord_Measure 4 rs"

definition Stsz_Decode :: "nat \<Rightarrow> (32 word \<times> (32 word) list) f4v_reader" where
  "Stsz_Decode n =
     rd_bind (rd_need TAG_DECODE_NO_DATA 8) (\<lambda>_.
     rd_bind (rd_num ReadBE) (\<lambda>uniform :: 32 word.
       if uniform \<noteq> 0 then
         if n \<noteq> 8 then rd_err TAG_DECODE_ERROR
         else rd_bind (rd_num ReadBE) (\<lambda>count :: 32 word.
              rd_ok (uniform, replicate (unat count) uniform))
       else rd_bind (MultiRecord_Decode 4 U32Record_Decode (n - 4)) (\<lambda>rs. rd_ok (uniform, rs))))"

text \<open>
  A table of sizes is read back if it has no uniform size, or has one and no records: the
  writer puts the records of a uniform size in the file and the reader does not expect them.
\<close>

definition good_stsz :: "32 word \<Rightarrow> (32 word) list \<Rightarrow> bool" where
  "good_stsz uniform rs \<longleftrightarrow> (uniform = 0 \<or> rs = []) \<and> Stsz_Measure rs < 2 ^ 32"

lemma Stsz_codec:
  "body_codec (\<lambda>(u, rs). Some (Stsz_Encode u rs)) (\<lambda>(u, rs). Stsz_Measure rs) Stsz_Decode
     (\<lambda>(u, rs). good_stsz u rs)"
proof (unfold_locales, clarsimp, intro conjI allI)
  fix u rs s assume good: "good_stsz u rs"
  then have fits_table: "u32.fits_table rs" by (simp add: good_stsz_def Stsz_Measure_def u32.fits_table_def)
  show len: "length (Stsz_Encode u rs) = Stsz_Measure rs"
    using u32.table_roundtrip(1)[OF fits_table] by (simp add: Stsz_Encode_def Stsz_Measure_def)
  show "Stsz_Decode (Stsz_Measure rs) (Stsz_Encode u rs @ s) = Some (Inr (u, rs), s)"
  proof (cases "u = 0")
    case True
    then show ?thesis using u32.table_roundtrip(2)[OF fits_table, of s] u32.table_roundtrip(1)[OF fits_table]
      by (simp add: Stsz_Decode_def Stsz_Encode_def Stsz_Measure_def MultiRecord_Measure_def codec_simps rd_bind_ok)
  next
    case False
    then have "rs = []" using good by (simp add: good_stsz_def)
    with False show ?thesis
      by (simp add: Stsz_Decode_def Stsz_Encode_def Stsz_Measure_def MultiRecord_Measure_def
          MultiRecord_Encode_def codec_simps)
  qed
qed

end
