(* ===== verification/F4vBodies.thy ===== *)
theory F4vBodies
  imports F4vTables
begin

text \<open>
  The bodies of the atoms that hold no other atoms (\<^verbatim>\<open>atoms/{base,versioned,raw}_atom\<close> and
  \<^verbatim>\<open>atoms/movie\<close>): their members, how they are written, measured and read.  Arrays that the
  code copies byte by byte are their bytes.
\<close>

section \<open>Plain bodies\<close>

text \<open>\<^verbatim>\<open>AvccAtom\<close>; a parameter is the bytes of its \<^verbatim>\<open>raw_data_\<close>.\<close>

record avcc_atom =
  configuration_version :: byte
  avcc_profile :: byte
  profile_compatibility :: byte
  avcc_level :: byte
  nalu_length_size :: byte
  seq_parameters :: "bytes list"
  pic_parameters :: "bytes list"

definition AvccParameter_Decode :: "nat \<Rightarrow> bytes \<Rightarrow> (bytes option \<times> bytes) option" where
  "AvccParameter_Decode in_size s =
     (if in_size < 2 then Some (None, s)
      else do {
        (len :: 16 word, s1) \<leftarrow> ReadBE s;
        (if unat len > in_size - 2 then Some (None, s1)
         else Some (Some (take (unat len) s1), drop (unat len) s1)) })"

definition AvccParameter_Encode :: "bytes \<Rightarrow> bytes" where
  "AvccParameter_Encode p = WriteBE (word_of_nat (length p) :: 16 word) @ p"

definition AvccParameter_Measure :: "bytes \<Rightarrow> nat" where
  "AvccParameter_Measure p = 2 + length p"

text \<open>A loop of \<^verbatim>\<open>DecodeBody\<close>: \<open>n\<close> is the size of the body, \<open>decoded\<close> its \<^verbatim>\<open>decoded_bytes\<close>.\<close>

fun avcc_parameters :: "nat \<Rightarrow> nat \<Rightarrow> nat \<Rightarrow> (bytes list \<times> nat) f4v_reader" where
  "avcc_parameters 0 n decoded s = Some (Inr ([], decoded), s)"
| "avcc_parameters (Suc k) n decoded s =
     (if n < decoded then None
      else case AvccParameter_Decode (n - decoded) s of
        None \<Rightarrow> None
      | Some (None, s1) \<Rightarrow> Some (Inl TAG_DECODE_NO_DATA, s1)
      | Some (Some p, s1) \<Rightarrow>
          rd_bind (avcc_parameters k n (decoded + AvccParameter_Measure p))
            (\<lambda>(ps, d). rd_ok (p # ps, d)) s1)"

definition kAvccBodyMinSize :: nat where "kAvccBodyMinSize = 7"

definition Avcc_Decode :: "nat \<Rightarrow> avcc_atom f4v_reader" where
  "Avcc_Decode n =
     rd_bind (rd_need TAG_DECODE_NO_DATA n) (\<lambda>_.
     if n < kAvccBodyMinSize then rd_err TAG_DECODE_NO_DATA
     else
       rd_bind (rd_num ReadByte) (\<lambda>version.
       rd_bind (rd_num ReadByte) (\<lambda>profile.
       rd_bind (rd_num ReadByte) (\<lambda>compatibility.
       rd_bind (rd_num ReadByte) (\<lambda>level.
       rd_bind (rd_num ReadByte) (\<lambda>nalu.
       rd_bind (rd_num ReadByte) (\<lambda>seqs.
       rd_bind (avcc_parameters (unat (0x1F AND seqs)) n 6) (\<lambda>(seq, decoded).
       rd_bind (rd_need TAG_DECODE_NO_DATA 1) (\<lambda>_.
       rd_bind (rd_num ReadByte) (\<lambda>pics.
       rd_bind (avcc_parameters (unat pics) n (decoded + 1)) (\<lambda>(pic, decoded').
       if decoded' \<noteq> n then (if n < decoded' then (\<lambda>s. None) else rd_err TAG_DECODE_ERROR)
       else rd_ok \<lparr>configuration_version = version, avcc_profile = profile,
         profile_compatibility = compatibility, avcc_level = level,
         nalu_length_size = 1 + (0x03 AND nalu), seq_parameters = seq, pic_parameters = pic\<rparr>)))))))))))"

definition Avcc_Encode :: "avcc_atom \<Rightarrow> bytes" where
  "Avcc_Encode a = [configuration_version a, avcc_profile a, profile_compatibility a, avcc_level a,
     0xFC OR (nalu_length_size a - 1), 0xE0 OR word_of_nat (length (seq_parameters a))]
     @ concat (map AvccParameter_Encode (seq_parameters a))
     @ [word_of_nat (length (pic_parameters a))]
     @ concat (map AvccParameter_Encode (pic_parameters a))"

definition Avcc_Measure :: "avcc_atom \<Rightarrow> nat" where
  "Avcc_Measure a = kAvccBodyMinSize + sum_list (map AvccParameter_Measure (seq_parameters a))
     + sum_list (map AvccParameter_Measure (pic_parameters a))"

definition good_avcc :: "avcc_atom \<Rightarrow> bool" where
  "good_avcc a \<longleftrightarrow> nalu_length_size a \<in> {1, 2, 3, 4}
     \<and> length (seq_parameters a) < 32 \<and> length (pic_parameters a) < 256
     \<and> (\<forall>p \<in> set (seq_parameters a) \<union> set (pic_parameters a). length p < 2 ^ 16)"

lemma length_AvccParameter_Encode [simp]: "length (AvccParameter_Encode p) = AvccParameter_Measure p"
  by (simp add: AvccParameter_Encode_def AvccParameter_Measure_def)

lemma AvccParameter_Decode_Encode:
  assumes "length p < 2 ^ 16" "AvccParameter_Measure p \<le> n"
  shows "AvccParameter_Decode n (AvccParameter_Encode p @ s) = Some (Some p, s)"
  using assms unat_word_of_nat[of "length p", where 'a = 16]
  by (simp add: AvccParameter_Decode_def AvccParameter_Encode_def AvccParameter_Measure_def codec_simps)

lemma avcc_parameters_encode:
  assumes "\<forall>p \<in> set ps. length p < 2 ^ 16" "decoded + sum_list (map AvccParameter_Measure ps) \<le> n"
  shows "avcc_parameters (length ps) n decoded (concat (map AvccParameter_Encode ps) @ s)
    = Some (Inr (ps, decoded + sum_list (map AvccParameter_Measure ps)), s)"
  using assms
proof (induction ps arbitrary: decoded)
  case (Cons p ps)
  have "AvccParameter_Decode (n - decoded) (AvccParameter_Encode p @ concat (map AvccParameter_Encode ps) @ s)
      = Some (Some p, concat (map AvccParameter_Encode ps) @ s)"
    using Cons.prems by (intro AvccParameter_Decode_Encode) auto
  moreover have "avcc_parameters (length ps) n (decoded + AvccParameter_Measure p)
        (concat (map AvccParameter_Encode ps) @ s)
      = Some (Inr (ps, decoded + AvccParameter_Measure p + sum_list (map AvccParameter_Measure ps)), s)"
    using Cons.prems by (intro Cons.IH) auto
  ultimately show ?case using Cons.prems by (simp add: rd_bind_def rd_ok_def add.assoc)
qed simp

lemma length_concat_parameters:
  "length (concat (map AvccParameter_Encode ps)) = sum_list (map AvccParameter_Measure ps)"
  by (induction ps) auto

lemma nalu_length_bits:
  "w \<in> {1, 2, 3, 4} \<Longrightarrow> 1 + (0x03 AND (0xFC OR (w - 1))) = (w :: byte)"
  by auto

lemma seq_count_bits:
  assumes "k < 32" shows "unat (0x1F AND (0xE0 OR word_of_nat k :: byte)) = k"
proof -
  have "\<forall>k \<in> {0..<32 :: nat}. unat (0x1F AND (0xE0 OR word_of_nat k :: byte)) = k"
    by (simp add: atLeastLessThan_nat_numeral ball_Un)
  then show ?thesis using assms by simp
qed

lemma Avcc_Decode_Encode:
  assumes "good_avcc a"
  shows "Avcc_Decode (Avcc_Measure a) (Avcc_Encode a @ s) = Some (Inr a, s)"
proof -
  let ?E = "\<lambda>ps. concat (map AvccParameter_Encode ps)"
  let ?M = "\<lambda>ps. sum_list (map AvccParameter_Measure ps)"
  let ?seq = "seq_parameters a" and ?pic = "pic_parameters a"
  have a: "nalu_length_size a \<in> {1, 2, 3, 4}" "length ?seq < 32" "length ?pic < 256"
    "\<forall>p \<in> set ?seq. length p < 2 ^ 16" "\<forall>p \<in> set ?pic. length p < 2 ^ 16"
    using assms unfolding good_avcc_def by blast+
  have m: "Avcc_Measure a = 7 + ?M ?seq + ?M ?pic" by (simp add: Avcc_Measure_def kAvccBodyMinSize_def)
  have count: "unat (word_of_nat (length ?pic) :: byte) = length ?pic"
    using a(3) by (intro unat_word_of_nat) simp
  have seq: "avcc_parameters (length ?seq) (Avcc_Measure a) 6
      (?E ?seq @ word_of_nat (length ?pic) # ?E ?pic @ s)
    = Some (Inr (?seq, 6 + ?M ?seq), word_of_nat (length ?pic) # ?E ?pic @ s)"
    by (rule avcc_parameters_encode) (use a m in auto)
  have pic: "avcc_parameters (length ?pic) (Avcc_Measure a) (Suc (6 + ?M ?seq)) (?E ?pic @ s)
    = Some (Inr (?pic, Suc (6 + ?M ?seq) + ?M ?pic), s)"
    by (rule avcc_parameters_encode) (use a m in auto)
  show ?thesis
    using seq pic
    by (simp add: Avcc_Decode_def Avcc_Encode_def codec_simps kAvccBodyMinSize_def m rd_bind_ok
        seq_count_bits[OF a(2)] nalu_length_bits[OF a(1)] count length_concat_parameters)
qed

lemma length_Avcc_Encode: "length (Avcc_Encode a) = Avcc_Measure a"
  by (simp add: Avcc_Encode_def Avcc_Measure_def kAvccBodyMinSize_def length_concat_parameters)

text \<open>\<^verbatim>\<open>FtypAtom\<close>.\<close>

record ftyp_atom =
  major_brand :: "32 word"
  minor_version :: "32 word"
  compatible_brands :: "(32 word) list"

fun read_brands :: "nat \<Rightarrow> (32 word) list f4v_reader" where
  "read_brands 0 = rd_ok []"
| "read_brands (Suc k) = rd_bind (rd_num ReadBE) (\<lambda>b. rd_bind (read_brands k) (\<lambda>bs. rd_ok (b # bs)))"

definition kFtypBodyMinSize :: nat where "kFtypBodyMinSize = 8"

definition Ftyp_Decode :: "nat \<Rightarrow> ftyp_atom f4v_reader" where
  "Ftyp_Decode n =
     (if n < kFtypBodyMinSize \<or> n mod 4 \<noteq> 0 then rd_err TAG_DECODE_ERROR
      else
        rd_bind (rd_need TAG_DECODE_NO_DATA n) (\<lambda>_.
        rd_bind (rd_num ReadBE) (\<lambda>major.
        rd_bind (rd_num ReadBE) (\<lambda>minor.
        rd_bind (read_brands ((n - kFtypBodyMinSize) div 4)) (\<lambda>brands.
        rd_ok \<lparr>major_brand = major, minor_version = minor, compatible_brands = brands\<rparr>)))))"

definition Ftyp_Encode :: "ftyp_atom \<Rightarrow> bytes" where
  "Ftyp_Encode a = WriteBE (major_brand a) @ WriteBE (minor_version a)
     @ concat (map WriteBE (compatible_brands a))"

definition Ftyp_Measure :: "ftyp_atom \<Rightarrow> nat" where
  "Ftyp_Measure a = kFtypBodyMinSize + 4 * length (compatible_brands a)"

lemma length_concat_brands: "length (concat (map WriteBE (bs :: (32 word) list))) = 4 * length bs"
  by (induction bs) auto

lemma read_brands_write: "read_brands (length bs) (concat (map WriteBE bs) @ s) = Some (Inr bs, s)"
  by (induction bs) (auto simp: codec_simps rd_bind_ok)

lemma Ftyp_Decode_Encode: "Ftyp_Decode (Ftyp_Measure a) (Ftyp_Encode a @ s) = Some (Inr a, s)"
  using read_brands_write[of "compatible_brands a" s]
  by (simp add: Ftyp_Decode_def Ftyp_Encode_def Ftyp_Measure_def kFtypBodyMinSize_def codec_simps
      rd_bind_ok length_concat_brands)

lemma length_Ftyp_Encode: "length (Ftyp_Encode a) = Ftyp_Measure a"
  by (simp add: Ftyp_Encode_def Ftyp_Measure_def kFtypBodyMinSize_def length_concat_brands)

text \<open>\<^verbatim>\<open>FreeAtom\<close>: zeros in pieces of at most 64 bytes; the index is a \<^verbatim>\<open>uint32\<close> below its end.\<close>

function free_zeros :: "nat \<Rightarrow> nat \<Rightarrow> bytes" where
  "free_zeros n i =
     (if i < n then
        let w = min (n - i) 64 in replicate w 0 @ free_zeros n (i + w)
      else [])"
  by pat_completeness auto
termination by (relation "measure (\<lambda>(n, i). n - i)") (auto simp: Let_def)

declare free_zeros.simps [simp del]

lemma free_zeros_eq: "free_zeros n i = replicate (n - i) 0"
proof (induction n i rule: free_zeros.induct)
  case (1 n i)
  show ?case
  proof (cases "i < n")
    case True
    have "replicate (min (n - i) 64) 0 @ replicate (n - (i + min (n - i) 64)) (0 :: byte)
      = replicate (n - i) 0" by (simp add: replicate_add [symmetric])
    then show ?thesis using True 1 by (subst free_zeros.simps) (simp add: Let_def)
  qed (simp add: free_zeros.simps)
qed

end
