(* ===== verification/F4vVersioned.thy ===== *)
theory F4vVersioned
  imports F4vBodies
begin

text \<open>
  The bodies behind a version and flags (\<^verbatim>\<open>atoms/versioned_atom\<close>, \<^verbatim>\<open>atoms/movie/{smhd,
  vmhd,hdlr,mvhd,mdhd,tkhd,esds}_atom\<close>).
\<close>

section \<open>Headers\<close>

text \<open>\<^verbatim>\<open>SmhdAtom\<close>, \<^verbatim>\<open>VmhdAtom\<close>: a number and bytes copied as they are.\<close>

definition Smhd_Decode :: "nat \<Rightarrow> (16 word \<times> bytes) f4v_reader" where
  "Smhd_Decode n =
     (if n \<noteq> 4 then rd_err TAG_DECODE_ERROR
      else rd_bind (rd_need TAG_DECODE_NO_DATA n) (\<lambda>_.
        rd_bind (rd_num ReadBE) (\<lambda>balance. rd_bind (rd_num (read_checked 2)) (\<lambda>reserved.
        rd_ok (balance, reserved)))))"

definition Vmhd_Decode :: "nat \<Rightarrow> (16 word \<times> bytes) f4v_reader" where
  "Vmhd_Decode n =
     (if n \<noteq> 8 then rd_err TAG_DECODE_ERROR
      else rd_bind (rd_need TAG_DECODE_NO_DATA n) (\<lambda>_.
        rd_bind (rd_num ReadBE) (\<lambda>graphics_mode. rd_bind (rd_num (read_checked 6)) (\<lambda>opcolor.
        rd_ok (graphics_mode, opcolor)))))"

record hdlr_atom =
  pre_defined :: "32 word"
  handler_type :: "32 word"
  hdlr_reserved :: bytes
  hdlr_name :: bytes

definition kHdlrVersionedBodyMinSize :: nat where "kHdlrVersionedBodyMinSize = 20"

text \<open>The name may have its length in front, which is dropped: a first byte below a space.\<close>

definition hdlr_name_reader :: "nat \<Rightarrow> bytes f4v_reader" where
  "hdlr_name_reader remaining s =
     (let (r, s1) = (if 0 < remaining \<and> s \<noteq> [] \<and> unat (hd s) < 0x20 then (remaining - 1, tl s) else (remaining, s))
      in Some (Inr (take r s1), drop r s1))"

definition Hdlr_Decode :: "nat \<Rightarrow> hdlr_atom f4v_reader" where
  "Hdlr_Decode n =
     rd_bind (rd_need TAG_DECODE_NO_DATA n) (\<lambda>_.
     if n < kHdlrVersionedBodyMinSize then rd_err TAG_DECODE_ERROR
     else
       rd_bind (rd_num ReadBE) (\<lambda>pre.
       rd_bind (rd_num ReadBE) (\<lambda>handler.
       rd_bind (rd_num (read_checked 12)) (\<lambda>reserved.
       rd_bind (hdlr_name_reader (n - kHdlrVersionedBodyMinSize)) (\<lambda>name.
       rd_ok \<lparr>pre_defined = pre, handler_type = handler, hdlr_reserved = reserved, hdlr_name = name\<rparr>)))))"

definition Hdlr_Encode :: "hdlr_atom \<Rightarrow> bytes" where
  "Hdlr_Encode a = WriteBE (pre_defined a) @ WriteBE (handler_type a) @ hdlr_reserved a @ hdlr_name a"

definition good_hdlr :: "hdlr_atom \<Rightarrow> bool" where
  "good_hdlr a \<longleftrightarrow> length (hdlr_reserved a) = 12 \<and> (hdlr_name a \<noteq> [] \<longrightarrow> 0x20 \<le> unat (hd (hdlr_name a)))"

text \<open>
  A time is 32 bits wide in version 0 and 64 bits in version 1; a version 0 header writes the
  low half.
\<close>

definition read_time :: "byte \<Rightarrow> (64 word) f4v_reader" where
  "read_time version =
     (if version = 0 then rd_bind (rd_num ReadBE) (\<lambda>t :: 32 word. rd_ok (ucast t)) else rd_num ReadBE)"

definition write_time :: "byte \<Rightarrow> 64 word \<Rightarrow> bytes" where
  "write_time version t = (if version = 0 then WriteBE (ucast t :: 32 word) else WriteBE t)"

definition time_fits :: "byte \<Rightarrow> 64 word \<Rightarrow> bool" where
  "time_fits version t \<longleftrightarrow> (version = 0 \<longrightarrow> unat t < 2 ^ 32)"

lemma read_write_time [codec_simps]:
  assumes "time_fits version t"
  shows "rd_bind (read_time version) f (write_time version t @ s) = f t s"
proof (cases "version = 0")
  case True
  then have "ucast (ucast t :: 32 word) = t"
    using assms by (simp add: time_fits_def word_unat_eq_iff unsigned_ucast_eq take_bit_eq_mod unat_mod_distrib)
  then show ?thesis using True
    by (simp add: read_time_def write_time_def codec_simps rd_bind_def rd_num_def rd_ok_def)
next
  case False
  then show ?thesis by (simp add: read_time_def write_time_def codec_simps)
qed

lemma length_write_time [simp]: "length (write_time version t) = (if version = 0 then 4 else 8)"
  by (simp add: write_time_def)

record mdhd_atom =
  mdhd_creation_time :: "64 word"
  mdhd_modification_time :: "64 word"
  mdhd_time_scale :: "32 word"
  mdhd_duration :: "64 word"
  mdhd_language :: "16 word"
  mdhd_reserved :: bytes

definition Mdhd_Measure :: "byte \<Rightarrow> nat" where
  "Mdhd_Measure version = (if version = 0 then 20 else 32)"

definition Mdhd_Decode :: "byte \<Rightarrow> nat \<Rightarrow> mdhd_atom f4v_reader" where
  "Mdhd_Decode version n =
     rd_bind (rd_need TAG_DECODE_NO_DATA n) (\<lambda>_.
     if version = 0 \<and> n = 20 \<or> version = 1 \<and> n = 32 then
       rd_bind (read_time version) (\<lambda>created.
       rd_bind (read_time version) (\<lambda>modified.
       rd_bind (rd_num ReadBE) (\<lambda>scale.
       rd_bind (read_time version) (\<lambda>duration.
       rd_bind (rd_num ReadBE) (\<lambda>language.
       rd_bind (rd_num (read_checked 2)) (\<lambda>reserved.
       rd_ok \<lparr>mdhd_creation_time = created, mdhd_modification_time = modified, mdhd_time_scale = scale,
         mdhd_duration = duration, mdhd_language = language, mdhd_reserved = reserved\<rparr>))))))
     else rd_err TAG_DECODE_ERROR)"

definition Mdhd_Encode :: "byte \<Rightarrow> mdhd_atom \<Rightarrow> bytes option" where
  "Mdhd_Encode version a =
     (if version = 0 \<or> version = 1 then
        Some (write_time version (mdhd_creation_time a) @ write_time version (mdhd_modification_time a)
          @ WriteBE (mdhd_time_scale a) @ write_time version (mdhd_duration a)
          @ WriteBE (mdhd_language a) @ mdhd_reserved a)
      else None)"

definition good_mdhd :: "byte \<Rightarrow> mdhd_atom \<Rightarrow> bool" where
  "good_mdhd version a \<longleftrightarrow> version \<in> {0, 1} \<and> length (mdhd_reserved a) = 2
     \<and> time_fits version (mdhd_creation_time a) \<and> time_fits version (mdhd_modification_time a)
     \<and> time_fits version (mdhd_duration a)"

record mvhd_atom =
  mvhd_creation_time :: "64 word"
  mvhd_modification_time :: "64 word"
  mvhd_time_scale :: "32 word"
  mvhd_duration :: "64 word"
  preferred_rate :: "32 word"
  preferred_volume :: "16 word"
  mvhd_reserved :: bytes
  mvhd_matrix_structure :: bytes
  preview_time :: "32 word"
  preview_duration :: "32 word"
  poster_time :: "32 word"
  selection_time :: "32 word"
  selection_duration :: "32 word"
  current_time :: "32 word"
  next_track_id :: "32 word"

definition Mvhd_Measure :: "byte \<Rightarrow> nat" where
  "Mvhd_Measure version = (if version = 0 then 96 else 108)"

definition Mvhd_Decode :: "byte \<Rightarrow> nat \<Rightarrow> mvhd_atom f4v_reader" where
  "Mvhd_Decode version n =
     (if version \<noteq> 0 \<and> version \<noteq> 1 then rd_err TAG_DECODE_ERROR
      else if n \<noteq> Mvhd_Measure version then rd_err TAG_DECODE_ERROR
      else rd_bind (rd_need TAG_DECODE_NO_DATA n) (\<lambda>_.
        rd_bind (read_time version) (\<lambda>created.
        rd_bind (read_time version) (\<lambda>modified.
        rd_bind (rd_num ReadBE) (\<lambda>scale.
        rd_bind (read_time version) (\<lambda>duration.
        rd_bind (rd_num ReadBE) (\<lambda>rate.
        rd_bind (rd_num ReadBE) (\<lambda>volume.
        rd_bind (rd_num (read_checked 10)) (\<lambda>reserved.
        rd_bind (rd_num (read_checked 36)) (\<lambda>matrix.
        rd_bind (rd_num ReadBE) (\<lambda>pt.
        rd_bind (rd_num ReadBE) (\<lambda>pd.
        rd_bind (rd_num ReadBE) (\<lambda>poster.
        rd_bind (rd_num ReadBE) (\<lambda>st.
        rd_bind (rd_num ReadBE) (\<lambda>sd.
        rd_bind (rd_num ReadBE) (\<lambda>current.
        rd_bind (rd_num ReadBE) (\<lambda>next_id.
        rd_ok \<lparr>mvhd_creation_time = created, mvhd_modification_time = modified, mvhd_time_scale = scale,
          mvhd_duration = duration, preferred_rate = rate, preferred_volume = volume,
          mvhd_reserved = reserved, mvhd_matrix_structure = matrix, preview_time = pt,
          preview_duration = pd, poster_time = poster, selection_time = st, selection_duration = sd,
          current_time = current, next_track_id = next_id\<rparr>)))))))))))))))))"

definition Mvhd_Encode :: "byte \<Rightarrow> mvhd_atom \<Rightarrow> bytes option" where
  "Mvhd_Encode version a =
     (if version = 0 \<or> version = 1 then
        Some (write_time version (mvhd_creation_time a) @ write_time version (mvhd_modification_time a)
          @ WriteBE (mvhd_time_scale a) @ write_time version (mvhd_duration a)
          @ WriteBE (preferred_rate a) @ WriteBE (preferred_volume a) @ mvhd_reserved a
          @ mvhd_matrix_structure a @ WriteBE (preview_time a) @ WriteBE (preview_duration a)
          @ WriteBE (poster_time a) @ WriteBE (selection_time a) @ WriteBE (selection_duration a)
          @ WriteBE (current_time a) @ WriteBE (next_track_id a))
      else None)"

definition good_mvhd :: "byte \<Rightarrow> mvhd_atom \<Rightarrow> bool" where
  "good_mvhd version a \<longleftrightarrow> version \<in> {0, 1} \<and> length (mvhd_reserved a) = 10
     \<and> length (mvhd_matrix_structure a) = 36 \<and> time_fits version (mvhd_creation_time a)
     \<and> time_fits version (mvhd_modification_time a) \<and> time_fits version (mvhd_duration a)"

record fpu16u16 =
  fp_integer :: "16 word"
  fp_fraction :: "16 word"

record tkhd_atom =
  tkhd_creation_time :: "64 word"
  tkhd_modification_time :: "64 word"
  tkhd_id :: "32 word"
  tkhd_reserved1 :: bytes
  tkhd_duration :: "64 word"
  tkhd_reserved2 :: bytes
  tkhd_layer :: "16 word"
  alternate_group :: "16 word"
  tkhd_volume :: "16 word"
  tkhd_reserved3 :: bytes
  tkhd_matrix_structure :: bytes
  tkhd_width :: fpu16u16
  tkhd_height :: fpu16u16

definition Tkhd_Measure :: "byte \<Rightarrow> nat" where
  "Tkhd_Measure version = (if version = 0 then 80 else 92)"

definition Tkhd_Decode :: "byte \<Rightarrow> nat \<Rightarrow> tkhd_atom f4v_reader" where
  "Tkhd_Decode version n =
     (if version \<noteq> 0 \<and> version \<noteq> 1 then rd_err TAG_DECODE_ERROR
      else if n \<noteq> Tkhd_Measure version then rd_err TAG_DECODE_ERROR
      else rd_bind (rd_need TAG_DECODE_NO_DATA n) (\<lambda>_.
        rd_bind (read_time version) (\<lambda>created.
        rd_bind (read_time version) (\<lambda>modified.
        rd_bind (rd_num ReadBE) (\<lambda>track.
        rd_bind (rd_num (read_checked 4)) (\<lambda>r1.
        rd_bind (read_time version) (\<lambda>duration.
        rd_bind (rd_num (read_checked 8)) (\<lambda>r2.
        rd_bind (rd_num ReadBE) (\<lambda>layer.
        rd_bind (rd_num ReadBE) (\<lambda>group.
        rd_bind (rd_num ReadBE) (\<lambda>volume.
        rd_bind (rd_num (read_checked 2)) (\<lambda>r3.
        rd_bind (rd_num (read_checked 36)) (\<lambda>matrix.
        rd_bind (rd_num ReadBE) (\<lambda>wi.
        rd_bind (rd_num ReadBE) (\<lambda>wf.
        rd_bind (rd_num ReadBE) (\<lambda>hi.
        rd_bind (rd_num ReadBE) (\<lambda>hf.
        rd_ok \<lparr>tkhd_creation_time = created, tkhd_modification_time = modified, tkhd_id = track,
          tkhd_reserved1 = r1, tkhd_duration = duration, tkhd_reserved2 = r2, tkhd_layer = layer,
          alternate_group = group, tkhd_volume = volume, tkhd_reserved3 = r3,
          tkhd_matrix_structure = matrix, tkhd_width = \<lparr>fp_integer = wi, fp_fraction = wf\<rparr>,
          tkhd_height = \<lparr>fp_integer = hi, fp_fraction = hf\<rparr>\<rparr>)))))))))))))))))"

definition Tkhd_Encode :: "byte \<Rightarrow> tkhd_atom \<Rightarrow> bytes option" where
  "Tkhd_Encode version a =
     (if version = 0 \<or> version = 1 then
        Some (write_time version (tkhd_creation_time a) @ write_time version (tkhd_modification_time a)
          @ WriteBE (tkhd_id a) @ tkhd_reserved1 a @ write_time version (tkhd_duration a)
          @ tkhd_reserved2 a @ WriteBE (tkhd_layer a) @ WriteBE (alternate_group a)
          @ WriteBE (tkhd_volume a) @ tkhd_reserved3 a @ tkhd_matrix_structure a
          @ WriteBE (fp_integer (tkhd_width a)) @ WriteBE (fp_fraction (tkhd_width a))
          @ WriteBE (fp_integer (tkhd_height a)) @ WriteBE (fp_fraction (tkhd_height a)))
      else None)"

definition good_tkhd :: "byte \<Rightarrow> tkhd_atom \<Rightarrow> bool" where
  "good_tkhd version a \<longleftrightarrow> version \<in> {0, 1} \<and> length (tkhd_reserved1 a) = 4
     \<and> length (tkhd_reserved2 a) = 8 \<and> length (tkhd_reserved3 a) = 2
     \<and> length (tkhd_matrix_structure a) = 36 \<and> time_fits version (tkhd_creation_time a)
     \<and> time_fits version (tkhd_modification_time a) \<and> time_fits version (tkhd_duration a)"

section \<open>They are read back\<close>

lemma rd_bind_checked_append [codec_simps]:
  "length xs = n \<Longrightarrow> rd_bind (rd_num (read_checked n)) f (xs @ s) = f xs s"
  by (auto simp: rd_bind_def rd_num_def read_checked_append)

lemma Smhd_Decode_Encode:
  "length r = 2 \<Longrightarrow> Smhd_Decode 4 (WriteBE b @ r @ s) = Some (Inr (b, r), s)"
  by (simp add: Smhd_Decode_def codec_simps)

lemma Vmhd_Decode_Encode:
  "length r = 6 \<Longrightarrow> Vmhd_Decode 8 (WriteBE b @ r @ s) = Some (Inr (b, r), s)"
  by (simp add: Vmhd_Decode_def codec_simps)

lemma Hdlr_Decode_Encode:
  assumes "good_hdlr a"
  shows "Hdlr_Decode (kHdlrVersionedBodyMinSize + length (hdlr_name a)) (Hdlr_Encode a @ s) = Some (Inr a, s)"
proof -
  have name: "hdlr_name_reader (length (hdlr_name a)) (hdlr_name a @ s) = Some (Inr (hdlr_name a), s)"
    using assms by (cases "hdlr_name a") (auto simp: hdlr_name_reader_def good_hdlr_def)
  show ?thesis using assms name
    by (simp add: Hdlr_Decode_def Hdlr_Encode_def good_hdlr_def kHdlrVersionedBodyMinSize_def codec_simps rd_bind_ok)
qed

lemma Mdhd_Decode_Encode:
  assumes "good_mdhd v a" "Mdhd_Encode v a = Some bs"
  shows "length bs = Mdhd_Measure v" "Mdhd_Decode v (Mdhd_Measure v) (bs @ s) = Some (Inr a, s)"
  using assms
  by (auto simp: Mdhd_Decode_def Mdhd_Encode_def good_mdhd_def Mdhd_Measure_def codec_simps)

lemma Mvhd_Decode_Encode:
  assumes "good_mvhd v a" "Mvhd_Encode v a = Some bs"
  shows "length bs = Mvhd_Measure v" "Mvhd_Decode v (Mvhd_Measure v) (bs @ s) = Some (Inr a, s)"
  using assms
  by (auto simp: Mvhd_Decode_def Mvhd_Encode_def good_mvhd_def Mvhd_Measure_def codec_simps)

lemma Tkhd_Decode_Encode:
  assumes "good_tkhd v a" "Tkhd_Encode v a = Some bs"
  shows "length bs = Tkhd_Measure v" "Tkhd_Decode v (Tkhd_Measure v) (bs @ s) = Some (Inr a, s)"
  using assms
  by (auto simp: Tkhd_Decode_def Tkhd_Encode_def good_tkhd_def Tkhd_Measure_def codec_simps)

end
