(* ===== verification/F4vEsds.thy ===== *)
theory F4vEsds
  imports F4vVersioned
begin

text \<open>
  \<^verbatim>\<open>EsdsAtom\<close>: the descriptors of an audio stream.  The body is kept whole in \<^verbatim>\<open>raw_data_\<close>, the
  other members are found in it.
\<close>

record esds_atom =
  esds_raw_data :: bytes
  es_desc_tag_id :: "16 word"
  es_desc_tag_priority :: byte
  object_type_id :: byte
  stream_type :: byte
  buffer_size_db :: "32 word"
  max_bit_rate :: "32 word"
  avg_bit_rate :: "32 word"
  extra_data :: bytes

definition EsdsAtom_new :: esds_atom where
  "EsdsAtom_new = \<lparr>esds_raw_data = [], es_desc_tag_id = 0, es_desc_tag_priority = 0, object_type_id = 0,
     stream_type = 0, buffer_size_db = 0, max_bit_rate = 0, avg_bit_rate = 0, extra_data = []\<rparr>"

definition MP4ESDescrTag :: byte where "MP4ESDescrTag = 0x03"
definition MP4DecConfigDescrTag :: byte where "MP4DecConfigDescrTag = 0x04"
definition MP4DecSpecificDescrTag :: byte where "MP4DecSpecificDescrTag = 0x05"
definition MP4UnknownTag :: byte where "MP4UnknownTag = 0x06"

section \<open>Types and lengths of descriptors\<close>

text \<open>The loop of \<^verbatim>\<open>ReadTagTypeAndLength\<close>; the first argument counts its rounds down from 4.\<close>

fun read_tag_length :: "nat \<Rightarrow> 32 word \<Rightarrow> (32 word) f4v_reader" where
  "read_tag_length 0 len = rd_ok len"
| "read_tag_length (Suc k) len =
     rd_bind (rd_need TAG_DECODE_NO_DATA 1) (\<lambda>_.
     rd_bind (rd_num ReadByte) (\<lambda>b.
       let len' = push_bit 7 len OR ucast (b AND 0x7F)
       in if b AND 0x80 = 0 then rd_ok len' else read_tag_length k len'))"

definition ReadTagTypeAndLength :: "(byte \<times> 32 word) f4v_reader" where
  "ReadTagTypeAndLength = rd_bind (rd_num ReadByte) (\<lambda>tag_type.
     rd_bind (read_tag_length 4 0) (\<lambda>len. rd_ok (tag_type, len)))"

text \<open>The loop that fills \<^verbatim>\<open>enc_len\<close> from its end.\<close>

fun tag_length_bytes :: "nat \<Rightarrow> 32 word \<Rightarrow> bytes" where
  "tag_length_bytes 0 len = []"
| "tag_length_bytes (Suc k) len =
     tag_length_bytes k (drop_bit 7 len AND 0x1FFFFF) @ [ucast (len AND 0x7F) OR 0x80]"

definition WriteTagTypeAndLength :: "byte \<Rightarrow> 32 word \<Rightarrow> bytes option" where
  "WriteTagTypeAndLength tag_type len =
     (if unat len < 2 ^ 29
      then let e = tag_length_bytes 4 len in Some (tag_type # e[3 := e ! 3 AND 0x7F])
      else None)"

section \<open>The body\<close>

text \<open>
  The members behind \<^verbatim>\<open>raw_data_\<close>.  The checks compare with what is left in the stream, not
  with what is left of the body.
\<close>

definition Esds_decoder_config :: "esds_atom \<Rightarrow> esds_atom f4v_reader" where
  "Esds_decoder_config e =
     rd_bind (rd_need TAG_DECODE_NO_DATA 13) (\<lambda>_.
     rd_bind (rd_num ReadByte) (\<lambda>ot.
     rd_bind (rd_num ReadByte) (\<lambda>st.
     rd_bind (rd_num ReadUInt24BE) (\<lambda>db.
     rd_bind (rd_num ReadBE) (\<lambda>mx.
     rd_bind (rd_num ReadBE) (\<lambda>avg.
     rd_bind ReadTagTypeAndLength (\<lambda>tl1.
     rd_bind (if fst tl1 = MP4UnknownTag then
                rd_bind (rd_need TAG_DECODE_NO_DATA 1) (\<lambda>_.
                rd_bind (rd_num ReadByte) (\<lambda>_. ReadTagTypeAndLength))
              else rd_ok tl1) (\<lambda>tl.
       let e1 = e\<lparr>object_type_id := ot, stream_type := st, buffer_size_db := db, max_bit_rate := mx,
                  avg_bit_rate := avg\<rparr>
       in if fst tl = MP4DecSpecificDescrTag then
            rd_bind (rd_need TAG_DECODE_NO_DATA (unat (snd tl))) (\<lambda>_.
            rd_bind (rd_num (read_checked (unat (snd tl)))) (\<lambda>xs. rd_ok (e1\<lparr>extra_data := xs\<rparr>)))
          else rd_ok e1))))))))"

definition Esds_members :: "esds_atom \<Rightarrow> esds_atom f4v_reader" where
  "Esds_members e =
     rd_bind ReadTagTypeAndLength (\<lambda>tl.
     rd_bind (rd_need TAG_DECODE_NO_DATA 2) (\<lambda>_.
     rd_bind (rd_num ReadBE) (\<lambda>tag_id.
     rd_bind (if fst tl = MP4ESDescrTag
              then rd_bind (rd_need TAG_DECODE_NO_DATA 1) (\<lambda>_. rd_num ReadByte)
              else rd_ok (es_desc_tag_priority e)) (\<lambda>priority.
       let e1 = e\<lparr>es_desc_tag_id := tag_id, es_desc_tag_priority := priority\<rparr>
       in rd_bind ReadTagTypeAndLength (\<lambda>tl2.
            if fst tl2 = MP4DecConfigDescrTag then Esds_decoder_config e1 else rd_ok e1)))))"

text \<open>What the members leave of the body is skipped.\<close>

definition Esds_Decode :: "nat \<Rightarrow> esds_atom f4v_reader" where
  "Esds_Decode n s =
     rd_bind (rd_need TAG_DECODE_NO_DATA n) (\<lambda>_ s.
       case Esds_members (EsdsAtom_new\<lparr>esds_raw_data := take n s\<rparr>) s of
         None \<Rightarrow> None
       | Some (Inl e, s1) \<Rightarrow> Some (Inl e, s1)
       | Some (Inr a, s1) \<Rightarrow>
           (let decoded = length s - length s1
            in if n < decoded then None else Some (Inr a, drop (n - decoded) s1))) s"

definition Esds_Encode :: "esds_atom \<Rightarrow> bytes option" where
  "Esds_Encode a =
     (if esds_raw_data a \<noteq> [] then Some (esds_raw_data a)
      else do {
        t1 \<leftarrow> WriteTagTypeAndLength MP4ESDescrTag 34;
        t2 \<leftarrow> WriteTagTypeAndLength MP4DecConfigDescrTag 20;
        t3 \<leftarrow> WriteTagTypeAndLength MP4DecSpecificDescrTag 2;
        Some (t1 @ WriteBE (es_desc_tag_id a) @ [es_desc_tag_priority a]
          @ t2 @ [object_type_id a, stream_type a] @ WriteUInt24BE (buffer_size_db a)
          @ WriteBE (max_bit_rate a) @ WriteBE (avg_bit_rate a)
          @ t3 @ extra_data a @ [0x06, 0x80, 0x80, 0x80, 0x01, 0x02]) })"

text \<open>An atom that was read from some stream, not made with the setters, which leave \<^verbatim>\<open>raw_data_\<close> empty.\<close>

definition good_esds :: "esds_atom \<Rightarrow> bool" where
  "good_esds a \<longleftrightarrow> (\<exists>n s s'. Esds_Decode n s = Some (Inr a, s'))"

section \<open>They are read back\<close>

text \<open>The length of a descriptor takes four bytes of seven bits.\<close>

lemma low_bits_word:
  "(0x7F :: 32 word) = mask 7" "(0x7F :: byte) = mask 7" "(0x1FFFFF :: 32 word) = mask 21"
  by (simp_all add: mask_eq_exp_minus_1)

lemma tag_length_glue: "push_bit 7 (drop_bit 7 w) OR (w AND 0x7F) = (w :: 32 word)"
  unfolding low_bits_word by (rule bit_eqI) (auto simp: bit_simps)

lemma tag_length_top:
  assumes "unat len < 2 ^ 28"
  shows "drop_bit 21 len AND 0x7F = (drop_bit 21 len :: 32 word)"
proof -
  have "unat (drop_bit 21 len) = unat len div 2 ^ 21"
    by (subst unsigned_drop_bit_eq) (use unat_less_power[of len] in \<open>simp add: drop_bit_eq_div take_bit_eq_mod\<close>)
  then have "unat (drop_bit 21 len) < 2 ^ 7" using assms by simp
  then have "take_bit 7 (drop_bit 21 len) = drop_bit 21 len"
    by (simp add: word_unat_eq_iff unsigned_take_bit_eq take_bit_eq_mod unat_mod_distrib)
  then show ?thesis unfolding low_bits_word by (simp add: take_bit_eq_mask)
qed

lemma drop_bit_mask_21:
  "(drop_bit 7 w AND 0x1FFFFF) AND 0x7F = drop_bit 7 (w :: 32 word) AND 0x7F"
  "drop_bit 7 (drop_bit 7 w AND 0x1FFFFF) AND 0x7F = drop_bit 14 (w :: 32 word) AND 0x7F"
  "drop_bit 14 (drop_bit 7 w AND 0x1FFFFF) AND 0x7F = drop_bit 21 (w :: 32 word) AND 0x7F"
  unfolding low_bits_word by (rule bit_eqI, auto simp: bit_simps)+

lemma four_Suc: "(4 :: nat) = Suc (Suc (Suc (Suc 0)))"
  by simp

lemma tag_length_bytes_4:
  "tag_length_bytes 4 len = [ucast (drop_bit 21 len AND 0x7F) OR 0x80, ucast (drop_bit 14 len AND 0x7F) OR 0x80,
     ucast (drop_bit 7 len AND 0x7F) OR 0x80, ucast (len AND 0x7F) OR 0x80]"
  unfolding four_Suc tag_length_bytes.simps drop_bit_mask_21 append.simps by (rule refl)

lemma bit_128: "bit (128 :: byte) n \<longleftrightarrow> n = 7" "bit (128 :: 32 word) n \<longleftrightarrow> n = 7"
proof -
  have "(128 :: byte) = push_bit 7 1" by simp
  then show "bit (128 :: byte) n \<longleftrightarrow> n = 7" by (simp only: bit_push_bit_iff bit_1_iff) auto
  have "(128 :: 32 word) = push_bit 7 1" by simp
  then show "bit (128 :: 32 word) n \<longleftrightarrow> n = 7" by (simp only: bit_push_bit_iff bit_1_iff) auto
qed

lemma length_byte_bits:
  fixes x :: "32 word"
  shows "(ucast (x AND 0x7F) OR 0x80 :: byte) AND 0x80 \<noteq> 0"
    "ucast ((ucast (x AND 0x7F) OR 0x80 :: byte) AND 0x7F) = x AND 0x7F"
    "((ucast (x AND 0x7F) OR 0x80 :: byte) AND 0x7F) AND 0x80 = 0"
    "ucast (((ucast (x AND 0x7F) OR 0x80 :: byte) AND 0x7F) AND 0x7F) = x AND 0x7F"
proof -
  define y :: byte where "y = ucast (x AND 0x7F)"
  have low: "y AND 0x7F = y" and wide: "ucast y = x AND 0x7F"
    unfolding y_def low_bits_word by (rule bit_eqI, auto simp: bit_simps)+
  have masked: "(y OR 0x80) AND 0x7F = y"
    by (subst bit.conj_disj_distrib2) (simp add: low)
  have "(y OR 0x80) AND 0x80 = (y AND 0x80) OR 0x80" by (subst bit.conj_disj_distrib2) simp
  then have "bit ((y OR 0x80) AND 0x80) 7" by (simp add: bit_simps bit_128)
  then show "(ucast (x AND 0x7F) OR 0x80 :: byte) AND 0x80 \<noteq> 0"
    unfolding y_def [symmetric] by (metis bit_0_eq bot_apply bot_bool_def)
  have "(y AND 0x7F) AND 0x80 = 0" by (simp add: and.assoc)
  then show "((ucast (x AND 0x7F) OR 0x80 :: byte) AND 0x7F) AND 0x80 = 0"
    "ucast ((ucast (x AND 0x7F) OR 0x80 :: byte) AND 0x7F) = x AND 0x7F"
    "ucast (((ucast (x AND 0x7F) OR 0x80 :: byte) AND 0x7F) AND 0x7F) = x AND 0x7F"
    unfolding y_def [symmetric] masked low wide by (simp_all only: low)
qed

lemma ReadTag_bytes:
  assumes "b3 AND 0x80 \<noteq> 0" "b2 AND 0x80 \<noteq> 0" "b1 AND 0x80 \<noteq> 0" "b0 AND 0x80 = 0"
  shows "ReadTagTypeAndLength (t # b3 # b2 # b1 # b0 # s)
     = Some (Inr (t, push_bit 7 (push_bit 7 (push_bit 7 (ucast (b3 AND 0x7F)) OR ucast (b2 AND 0x7F))
         OR ucast (b1 AND 0x7F)) OR ucast (b0 AND 0x7F)), s)"
proof -
  have one: "read_tag_length (Suc k) len (b # s) =
      (if b AND 0x80 = 0 then Some (Inr (push_bit 7 len OR ucast (b AND 0x7F)), s)
       else read_tag_length k (push_bit 7 len OR ucast (b AND 0x7F)) s)" for k len b s
    by (simp add: codec_simps Let_def)
  have "read_tag_length 4 0 (b3 # b2 # b1 # b0 # s)
     = Some (Inr (push_bit 7 (push_bit 7 (push_bit 7 (ucast (b3 AND 0x7F)) OR ucast (b2 AND 0x7F))
         OR ucast (b1 AND 0x7F)) OR ucast (b0 AND 0x7F)), s)"
    by (simp only: four_Suc one assms if_True if_False push_bit_of_0 or.left_neutral simp_thms)
  then show ?thesis
    unfolding ReadTagTypeAndLength_def
    by (simp only: rd_bind_num[where r = ReadByte, OF ReadByte_Cons] rd_bind_ok rd_simps)
qed

lemma Tag_length_roundtrip:
  assumes "unat len < 2 ^ 28"
  shows "\<exists>bs. WriteTagTypeAndLength t len = Some bs \<and> ReadTagTypeAndLength (bs @ s) = Some (Inr (t, len), s)"
proof -
  let ?b = "\<lambda>k. ucast (drop_bit k len AND 0x7F) OR 0x80 :: byte"
  have glue: "push_bit 7 (push_bit 7 (push_bit 7 (drop_bit 21 len AND 0x7F) OR (drop_bit 14 len AND 0x7F))
      OR (drop_bit 7 len AND 0x7F)) OR (len AND 0x7F) = len"
    using tag_length_glue[of "drop_bit 14 len"] tag_length_glue[of "drop_bit 7 len"] tag_length_glue[of len]
    unfolding tag_length_top[OF assms] drop_bit_drop_bit by simp
  have "WriteTagTypeAndLength t len = Some (t # ?b 21 # ?b 14 # ?b 7 # [(ucast (len AND 0x7F) OR 0x80) AND 0x7F])"
  proof -
    have upd: "[a, b, c, d][3 := [a, b, c, d] ! 3 AND 0x7F] = [a, b, c, d AND 0x7F]" for a b c d :: byte
      by (simp add: numeral_3_eq_3)
    have "unat len < 2 ^ 29" using assms by simp
    then show ?thesis unfolding WriteTagTypeAndLength_def tag_length_bytes_4 Let_def upd by (rule if_P)
  qed
  moreover have "ReadTagTypeAndLength (t # ?b 21 # ?b 14 # ?b 7 # ((ucast (len AND 0x7F) OR 0x80) AND 0x7F) # s)
      = Some (Inr (t, len), s)"
    using ReadTag_bytes[where t = t and s = s, OF length_byte_bits(1)[of "drop_bit 21 len"]
        length_byte_bits(1)[of "drop_bit 14 len"] length_byte_bits(1)[of "drop_bit 7 len"]
        length_byte_bits(3)[of len]]
    unfolding length_byte_bits glue .
  ultimately show ?thesis
    by (intro exI[of _ "t # ?b 21 # ?b 14 # ?b 7 # [(ucast (len AND 0x7F) OR 0x80) AND 0x7F]"] conjI)
      (simp_all only: append.simps)
qed

end
