(* ===== verification/F4vAtoms.thy ===== *)
theory F4vAtoms
  imports F4vEsds
begin

text \<open>
  Atoms (\<^verbatim>\<open>f4v/atoms\<close>): the tree of the classes below \<^verbatim>\<open>BaseAtom\<close>, how an atom is written,
  measured, compared and found inside another.  The pointers that a container keeps to its
  subatoms (\<^verbatim>\<open>SubatomFound\<close>) are functions of the list of subatoms; \<^verbatim>\<open>Clone\<close> makes an equal
  atom.
\<close>

section \<open>Bodies with a version\<close>

datatype versioned_body =
    Co64Atom "(64 word) list" | CttsAtom "ctts_record list" | StcoAtom "(32 word) list"
  | StscAtom "stsc_record list" | StssAtom "(32 word) list" | StszAtom "32 word" "(32 word) list"
  | SttsAtom "stts_record list" | SmhdAtom "16 word" bytes | VmhdAtom "16 word" bytes
  | HdlrAtom hdlr_atom | MvhdAtom mvhd_atom | MdhdAtom mdhd_atom | TkhdAtom tkhd_atom
  | EsdsAtom esds_atom

fun versioned_type :: "versioned_body \<Rightarrow> 32 word" where
  "versioned_type (Co64Atom _) = ATOM_CO64"
| "versioned_type (CttsAtom _) = ATOM_CTTS"
| "versioned_type (StcoAtom _) = ATOM_STCO"
| "versioned_type (StscAtom _) = ATOM_STSC"
| "versioned_type (StssAtom _) = ATOM_STSS"
| "versioned_type (StszAtom _ _) = ATOM_STSZ"
| "versioned_type (SttsAtom _) = ATOM_STTS"
| "versioned_type (SmhdAtom _ _) = ATOM_SMHD"
| "versioned_type (VmhdAtom _ _) = ATOM_VMHD"
| "versioned_type (HdlrAtom _) = ATOM_HDLR"
| "versioned_type (MvhdAtom _) = ATOM_MVHD"
| "versioned_type (MdhdAtom _) = ATOM_MDHD"
| "versioned_type (TkhdAtom _) = ATOM_TKHD"
| "versioned_type (EsdsAtom _) = ATOM_ESDS"

definition versioned_types :: "32 word list" where
  "versioned_types = [ATOM_CO64, ATOM_CTTS, ATOM_STCO, ATOM_STSC, ATOM_STSS, ATOM_STSZ, ATOM_STTS,
     ATOM_SMHD, ATOM_VMHD, ATOM_HDLR, ATOM_MVHD, ATOM_MDHD, ATOM_TKHD, ATOM_ESDS]"

definition rd_fmap :: "('a \<Rightarrow> 'b) \<Rightarrow> ('e, 'a) reader \<Rightarrow> ('e, 'b) reader" where
  "rd_fmap f r = rd_bind r (\<lambda>x. rd_ok (f x))"

text \<open>\<^verbatim>\<open>DecodeVersionedBody\<close> of the class for a type.\<close>

definition versioned_Decode :: "32 word \<Rightarrow> byte \<Rightarrow> nat \<Rightarrow> versioned_body f4v_reader" where
  "versioned_Decode t v n =
     (if t = ATOM_CO64 then rd_fmap Co64Atom (MultiRecord_Decode 8 Co64Record_Decode n)
      else if t = ATOM_CTTS then rd_fmap CttsAtom (MultiRecord_Decode 8 CttsRecord_Decode n)
      else if t = ATOM_STCO then rd_fmap StcoAtom (MultiRecord_Decode 4 U32Record_Decode n)
      else if t = ATOM_STSC then rd_fmap StscAtom (MultiRecord_Decode 12 StscRecord_Decode n)
      else if t = ATOM_STSS then rd_fmap StssAtom (MultiRecord_Decode 4 U32Record_Decode n)
      else if t = ATOM_STSZ then rd_fmap (case_prod StszAtom) (Stsz_Decode n)
      else if t = ATOM_STTS then rd_fmap SttsAtom (MultiRecord_Decode 8 SttsRecord_Decode n)
      else if t = ATOM_SMHD then rd_fmap (case_prod SmhdAtom) (Smhd_Decode n)
      else if t = ATOM_VMHD then rd_fmap (case_prod VmhdAtom) (Vmhd_Decode n)
      else if t = ATOM_HDLR then rd_fmap HdlrAtom (Hdlr_Decode n)
      else if t = ATOM_MVHD then rd_fmap MvhdAtom (Mvhd_Decode v n)
      else if t = ATOM_MDHD then rd_fmap MdhdAtom (Mdhd_Decode v n)
      else if t = ATOM_TKHD then rd_fmap TkhdAtom (Tkhd_Decode v n)
      else rd_fmap EsdsAtom (Esds_Decode n))"

fun versioned_Encode :: "byte \<Rightarrow> versioned_body \<Rightarrow> bytes option" where
  "versioned_Encode v (Co64Atom rs) = Some (MultiRecord_Encode Co64Record_Encode rs)"
| "versioned_Encode v (CttsAtom rs) = Some (MultiRecord_Encode CttsRecord_Encode rs)"
| "versioned_Encode v (StcoAtom rs) = Some (MultiRecord_Encode U32Record_Encode rs)"
| "versioned_Encode v (StscAtom rs) = Some (MultiRecord_Encode StscRecord_Encode rs)"
| "versioned_Encode v (StssAtom rs) = Some (MultiRecord_Encode U32Record_Encode rs)"
| "versioned_Encode v (StszAtom u rs) = Some (Stsz_Encode u rs)"
| "versioned_Encode v (SttsAtom rs) = Some (MultiRecord_Encode SttsRecord_Encode rs)"
| "versioned_Encode v (SmhdAtom b r) = Some (WriteBE b @ r)"
| "versioned_Encode v (VmhdAtom g c) = Some (WriteBE g @ c)"
| "versioned_Encode v (HdlrAtom a) = Some (Hdlr_Encode a)"
| "versioned_Encode v (MvhdAtom a) = Mvhd_Encode v a"
| "versioned_Encode v (MdhdAtom a) = Mdhd_Encode v a"
| "versioned_Encode v (TkhdAtom a) = Tkhd_Encode v a"
| "versioned_Encode v (EsdsAtom a) = Esds_Encode a"

fun versioned_Measure :: "byte \<Rightarrow> versioned_body \<Rightarrow> nat" where
  "versioned_Measure v (Co64Atom rs) = MultiRecord_Measure 8 rs"
| "versioned_Measure v (CttsAtom rs) = MultiRecord_Measure 8 rs"
| "versioned_Measure v (StcoAtom rs) = MultiRecord_Measure 4 rs"
| "versioned_Measure v (StscAtom rs) = MultiRecord_Measure 12 rs"
| "versioned_Measure v (StssAtom rs) = MultiRecord_Measure 4 rs"
| "versioned_Measure v (StszAtom u rs) = Stsz_Measure rs"
| "versioned_Measure v (SttsAtom rs) = MultiRecord_Measure 8 rs"
| "versioned_Measure v (SmhdAtom b r) = 4"
| "versioned_Measure v (VmhdAtom g c) = 8"
| "versioned_Measure v (HdlrAtom a) = kHdlrVersionedBodyMinSize + length (hdlr_name a)"
| "versioned_Measure v (MvhdAtom a) = Mvhd_Measure v"
| "versioned_Measure v (MdhdAtom a) = Mdhd_Measure v"
| "versioned_Measure v (TkhdAtom a) = Tkhd_Measure v"
| "versioned_Measure v (EsdsAtom a) = length (esds_raw_data a)"

fun good_versioned :: "byte \<Rightarrow> versioned_body \<Rightarrow> bool" where
  "good_versioned v (Co64Atom rs) = (MultiRecord_Measure 8 rs < 2 ^ 32)"
| "good_versioned v (CttsAtom rs) = (MultiRecord_Measure 8 rs < 2 ^ 32)"
| "good_versioned v (StcoAtom rs) = (MultiRecord_Measure 4 rs < 2 ^ 32)"
| "good_versioned v (StscAtom rs) = (MultiRecord_Measure 12 rs < 2 ^ 32)"
| "good_versioned v (StssAtom rs) = (MultiRecord_Measure 4 rs < 2 ^ 32)"
| "good_versioned v (StszAtom u rs) = good_stsz u rs"
| "good_versioned v (SttsAtom rs) = (MultiRecord_Measure 8 rs < 2 ^ 32)"
| "good_versioned v (SmhdAtom b r) = (length r = 2)"
| "good_versioned v (VmhdAtom g c) = (length c = 6)"
| "good_versioned v (HdlrAtom a) = good_hdlr a"
| "good_versioned v (MvhdAtom a) = good_mvhd v a"
| "good_versioned v (MdhdAtom a) = good_mdhd v a"
| "good_versioned v (TkhdAtom a) = good_tkhd v a"
| "good_versioned v (EsdsAtom a) = good_esds a"

text \<open>
  \<^verbatim>\<open>EqualsVersionedBody\<close> compares the members that \<open>versioned_compared\<close> leaves: reserved bytes
  of some headers and what is found inside \<^verbatim>\<open>esds\<close> do not count.
\<close>

fun versioned_compared :: "versioned_body \<Rightarrow> versioned_body" where
  "versioned_compared (HdlrAtom a) = HdlrAtom (a\<lparr>hdlr_reserved := []\<rparr>)"
| "versioned_compared (MvhdAtom a) = MvhdAtom (a\<lparr>mvhd_reserved := []\<rparr>)"
| "versioned_compared (TkhdAtom a) =
     TkhdAtom (a\<lparr>tkhd_reserved1 := [], tkhd_reserved2 := [], tkhd_reserved3 := []\<rparr>)"
| "versioned_compared (EsdsAtom a) = EsdsAtom (EsdsAtom_new\<lparr>esds_raw_data := esds_raw_data a\<rparr>)"
| "versioned_compared b = b"

section \<open>Bodies without subatoms\<close>

datatype leaf_body =
    NullAtom | MdatAtom | FreeAtom "32 word" | RawAtom "32 word" bytes | AutoAtom "32 word" bytes
  | FtypAtom ftyp_atom | AvccAtom avcc_atom | VersionedAtom byte bytes versioned_body

text \<open>\<^verbatim>\<open>type()\<close>, and the type in the header, which a \<^verbatim>\<open>RawAtom\<close> keeps.\<close>

fun leaf_type :: "leaf_body \<Rightarrow> 32 word" where
  "leaf_type NullAtom = ATOM_NULL"
| "leaf_type MdatAtom = ATOM_MDAT"
| "leaf_type (FreeAtom _) = ATOM_FREE"
| "leaf_type (RawAtom _ _) = ATOM_RAW"
| "leaf_type (AutoAtom t _) = t"
| "leaf_type (FtypAtom _) = ATOM_FTYP"
| "leaf_type (AvccAtom _) = ATOM_AVCC"
| "leaf_type (VersionedAtom _ _ b) = versioned_type b"

fun leaf_header_type :: "leaf_body \<Rightarrow> 32 word" where
  "leaf_header_type (RawAtom t _) = t"
| "leaf_header_type b = leaf_type b"

definition rd_skip :: "nat \<Rightarrow> ('e, unit) reader" where
  "rd_skip n = (\<lambda>s. Some (Inr (), drop n s))"

definition rd_take :: "nat \<Rightarrow> ('e, bytes) reader" where
  "rd_take n = (\<lambda>s. Some (Inr (take n s), drop n s))"

definition Versioned_Decode :: "32 word \<Rightarrow> nat \<Rightarrow> leaf_body f4v_reader" where
  "Versioned_Decode t n =
     (if n < 4 then rd_err TAG_DECODE_ERROR
      else rd_bind (rd_need TAG_DECODE_NO_DATA 4) (\<lambda>_.
        rd_bind (rd_num ReadByte) (\<lambda>v. rd_bind (rd_num (read_checked 3)) (\<lambda>fl.
        rd_fmap (VersionedAtom v fl) (versioned_Decode t v (n - 4))))))"

text \<open>\<^verbatim>\<open>DecodeBody\<close> of the class that \<^verbatim>\<open>ReadAtom\<close> makes for a type.\<close>

definition leaf_Decode :: "32 word \<Rightarrow> nat \<Rightarrow> leaf_body f4v_reader" where
  "leaf_Decode t n =
     (if t = ATOM_NULL then rd_bind (rd_need TAG_DECODE_NO_DATA n) (\<lambda>_.
        if n \<noteq> 0 then rd_err TAG_DECODE_ERROR else rd_ok NullAtom)
      else if t = ATOM_MDAT then rd_ok MdatAtom
      else if t = ATOM_FREE then rd_bind (rd_need TAG_DECODE_NO_DATA n) (\<lambda>_.
        rd_bind (rd_skip n) (\<lambda>_. rd_ok (FreeAtom (word_of_nat n))))
      else if t = ATOM_FTYP then rd_fmap FtypAtom (Ftyp_Decode n)
      else if t = ATOM_AVCC then rd_fmap AvccAtom (Avcc_Decode n)
      else if t \<in> set versioned_types then Versioned_Decode t n
      else if t \<in> set autogen_atoms then
        rd_bind (rd_need TAG_DECODE_NO_DATA n) (\<lambda>_. rd_fmap (AutoAtom t) (rd_take n))
      else rd_bind (rd_need TAG_DECODE_NO_DATA n) (\<lambda>_. rd_fmap (RawAtom t) (rd_take n)))"

fun leaf_Encode :: "leaf_body \<Rightarrow> bytes option" where
  "leaf_Encode NullAtom = Some []"
| "leaf_Encode MdatAtom = Some []"
| "leaf_Encode (FreeAtom w) = Some (free_zeros (unat w) 0)"
| "leaf_Encode (RawAtom _ bs) = Some bs"
| "leaf_Encode (AutoAtom _ bs) = Some bs"
| "leaf_Encode (FtypAtom a) = Some (Ftyp_Encode a)"
| "leaf_Encode (AvccAtom a) = Some (Avcc_Encode a)"
| "leaf_Encode (VersionedAtom v fl b) = map_option (\<lambda>bs. v # fl @ bs) (versioned_Encode v b)"

fun leaf_Measure :: "leaf_body \<Rightarrow> nat" where
  "leaf_Measure NullAtom = 0"
| "leaf_Measure MdatAtom = 0"
| "leaf_Measure (FreeAtom w) = unat w"
| "leaf_Measure (RawAtom _ bs) = length bs"
| "leaf_Measure (AutoAtom _ bs) = length bs"
| "leaf_Measure (FtypAtom a) = Ftyp_Measure a"
| "leaf_Measure (AvccAtom a) = Avcc_Measure a"
| "leaf_Measure (VersionedAtom v fl b) = 4 + versioned_Measure v b"

fun leaf_compared :: "leaf_body \<Rightarrow> leaf_body" where
  "leaf_compared (VersionedAtom v fl b) = VersionedAtom v fl (versioned_compared b)"
| "leaf_compared b = b"

text \<open>The types that have a class, with those of the containers below.\<close>

definition container_types :: "32 word list" where
  "container_types = [ATOM_MOOV, ATOM_TRAK, ATOM_MDIA, ATOM_MINF, ATOM_STBL, ATOM_WAVE]"

definition container_versioned_types :: "32 word list" where
  "container_versioned_types = [ATOM_STSD, ATOM_AVC1, ATOM_MP4A]"

definition known_types :: "32 word list" where
  "known_types = [ATOM_NULL, ATOM_MDAT, ATOM_FREE, ATOM_FTYP, ATOM_AVCC] @ versioned_types @ autogen_atoms
     @ container_types @ container_versioned_types"

fun good_leaf :: "leaf_body \<Rightarrow> bool" where
  "good_leaf NullAtom = True"
| "good_leaf MdatAtom = True"
| "good_leaf (FreeAtom w) = True"
| "good_leaf (RawAtom t bs) = (t \<notin> set known_types)"
| "good_leaf (AutoAtom t bs) = (t \<in> set autogen_atoms)"
| "good_leaf (FtypAtom a) = True"
| "good_leaf (AvccAtom a) = good_avcc a"
| "good_leaf (VersionedAtom v fl b) = (length fl = 3 \<and> good_versioned v b)"

section \<open>Bodies of versioned containers\<close>

record avc1_atom =
  avc1_reserved :: "16 word"
  reference_index :: "16 word"
  qt_video_encoding_version :: "16 word"
  qt_video_encoding_revision_level :: "16 word"
  qt_v_encoding_vendor :: "32 word"
  qt_video_temporal_quality :: "32 word"
  qt_video_spatial_quality :: "32 word"
  video_frame_pixel_size :: "32 word"
  horizontal_dpi :: "32 word"
  vertical_dpi :: "32 word"
  qt_video_data_size :: "32 word"
  video_frame_count :: "16 word"
  video_encoder_name :: bytes
  video_pixel_depth :: "16 word"
  qt_video_color_table_id :: "16 word"

definition kAvc1DataSize :: nat where "kAvc1DataSize = 39 + 31 + 4"

definition Avc1_Decode :: "nat \<Rightarrow> avc1_atom f4v_reader" where
  "Avc1_Decode n =
     rd_bind (rd_need TAG_DECODE_NO_DATA n) (\<lambda>_.
     if n < kAvc1DataSize then rd_err TAG_DECODE_NO_DATA
     else
       rd_bind (rd_num ReadBE) (\<lambda>reserved.
       rd_bind (rd_num ReadBE) (\<lambda>reference.
       rd_bind (rd_num ReadBE) (\<lambda>version.
       rd_bind (rd_num ReadBE) (\<lambda>revision.
       rd_bind (rd_num ReadBE) (\<lambda>vendor.
       rd_bind (rd_num ReadBE) (\<lambda>temporal.
       rd_bind (rd_num ReadBE) (\<lambda>spatial.
       rd_bind (rd_num ReadBE) (\<lambda>pixels.
       rd_bind (rd_num ReadBE) (\<lambda>hdpi.
       rd_bind (rd_num ReadBE) (\<lambda>vdpi.
       rd_bind (rd_num ReadBE) (\<lambda>data_size.
       rd_bind (rd_num ReadBE) (\<lambda>frames.
       rd_bind (rd_num ReadByte) (\<lambda>name_length.
       rd_bind (rd_num (read_checked (unat name_length))) (\<lambda>name.
       rd_bind (rd_skip (if unat name_length < 31 then 31 - unat name_length else 0)) (\<lambda>_.
       rd_bind (rd_num ReadBE) (\<lambda>depth.
       rd_bind (rd_num ReadBE) (\<lambda>color_table.
       rd_ok \<lparr>avc1_reserved = reserved, reference_index = reference, qt_video_encoding_version = version,
         qt_video_encoding_revision_level = revision, qt_v_encoding_vendor = vendor,
         qt_video_temporal_quality = temporal, qt_video_spatial_quality = spatial,
         video_frame_pixel_size = pixels, horizontal_dpi = hdpi, vertical_dpi = vdpi,
         qt_video_data_size = data_size, video_frame_count = frames, video_encoder_name = name,
         video_pixel_depth = depth, qt_video_color_table_id = color_table\<rparr>))))))))))))))))))"

definition Avc1_Encode :: "avc1_atom \<Rightarrow> bytes" where
  "Avc1_Encode a = WriteBE (avc1_reserved a) @ WriteBE (reference_index a)
     @ WriteBE (qt_video_encoding_version a) @ WriteBE (qt_video_encoding_revision_level a)
     @ WriteBE (qt_v_encoding_vendor a) @ WriteBE (qt_video_temporal_quality a)
     @ WriteBE (qt_video_spatial_quality a) @ WriteBE (video_frame_pixel_size a)
     @ WriteBE (horizontal_dpi a) @ WriteBE (vertical_dpi a) @ WriteBE (qt_video_data_size a)
     @ WriteBE (video_frame_count a) @ [word_of_nat (length (video_encoder_name a))]
     @ video_encoder_name a @ replicate (31 - length (video_encoder_name a)) 0
     @ WriteBE (video_pixel_depth a) @ WriteBE (qt_video_color_table_id a)"

record mp4a_atom =
  mp4a_raw_data :: bytes
  mp4a_unknown :: "16 word"
  data_reference_index :: "16 word"
  inner_version :: "16 word"
  revision_level :: "16 word"
  mp4a_vendor :: "32 word"
  number_of_channels :: "16 word"
  sample_size_in_bits :: "16 word"
  compression_id :: "16 word"
  packet_size :: "16 word"
  sample_rate :: fpu16u16
  samples_per_packet :: "32 word"
  bytes_per_packet :: "32 word"
  bytes_per_frame :: "32 word"
  bytes_per_sample :: "32 word"

definition Mp4aAtom_new :: mp4a_atom where
  "Mp4aAtom_new = \<lparr>mp4a_raw_data = [], mp4a_unknown = 0, data_reference_index = 0, inner_version = 0,
     revision_level = 0, mp4a_vendor = 0, number_of_channels = 0, sample_size_in_bits = 0,
     compression_id = 0, packet_size = 0, sample_rate = \<lparr>fp_integer = 0, fp_fraction = 0\<rparr>,
     samples_per_packet = 0, bytes_per_packet = 0, bytes_per_frame = 0, bytes_per_sample = 0\<rparr>"

definition Mp4a_Decode :: "nat \<Rightarrow> mp4a_atom f4v_reader" where
  "Mp4a_Decode n =
     (if n = 0 then rd_ok Mp4aAtom_new
      else rd_bind (rd_need TAG_DECODE_NO_DATA n) (\<lambda>_.
        if n = 12 then rd_bind (rd_take n) (\<lambda>raw. rd_ok (Mp4aAtom_new\<lparr>mp4a_raw_data := raw\<rparr>))
        else if n < 24 then rd_err TAG_DECODE_NO_DATA
        else
          rd_bind (rd_num ReadBE) (\<lambda>unknown.
          rd_bind (rd_num ReadBE) (\<lambda>reference.
          rd_bind (rd_num ReadBE) (\<lambda>version.
          rd_bind (rd_num ReadBE) (\<lambda>revision.
          rd_bind (rd_num ReadBE) (\<lambda>vendor.
          rd_bind (rd_num ReadBE) (\<lambda>channels.
          rd_bind (rd_num ReadBE) (\<lambda>sample_bits.
          rd_bind (rd_num ReadBE) (\<lambda>compression.
          rd_bind (rd_num ReadBE) (\<lambda>packet.
          rd_bind (rd_num ReadBE) (\<lambda>ri.
          rd_bind (rd_num ReadBE) (\<lambda>rf.
          let a = \<lparr>mp4a_raw_data = [], mp4a_unknown = unknown, data_reference_index = reference,
                inner_version = version, revision_level = revision, mp4a_vendor = vendor,
                number_of_channels = channels, sample_size_in_bits = sample_bits,
                compression_id = compression, packet_size = packet,
                sample_rate = \<lparr>fp_integer = ri, fp_fraction = rf\<rparr>,
                samples_per_packet = 0, bytes_per_packet = 0, bytes_per_frame = 0, bytes_per_sample = 0\<rparr>
          in if version = 0 then rd_ok a
             else if n < 16 then rd_err TAG_DECODE_NO_DATA
             else
               rd_bind (rd_num ReadBE) (\<lambda>sp.
               rd_bind (rd_num ReadBE) (\<lambda>bp.
               rd_bind (rd_num ReadBE) (\<lambda>bf.
               rd_bind (rd_num ReadBE) (\<lambda>bs.
               rd_ok (a\<lparr>samples_per_packet := sp, bytes_per_packet := bp, bytes_per_frame := bf,
                 bytes_per_sample := bs\<rparr>))))))))))))))))))"

definition Mp4a_Encode :: "mp4a_atom \<Rightarrow> bytes" where
  "Mp4a_Encode a =
     (if mp4a_raw_data a \<noteq> [] then mp4a_raw_data a
      else WriteBE (mp4a_unknown a) @ WriteBE (data_reference_index a) @ WriteBE (inner_version a)
        @ WriteBE (revision_level a) @ WriteBE (mp4a_vendor a) @ WriteBE (number_of_channels a)
        @ WriteBE (sample_size_in_bits a) @ WriteBE (compression_id a) @ WriteBE (packet_size a)
        @ WriteBE (fp_integer (sample_rate a)) @ WriteBE (fp_fraction (sample_rate a))
        @ (if inner_version a = 0 then []
           else WriteBE (samples_per_packet a) @ WriteBE (bytes_per_packet a) @ WriteBE (bytes_per_frame a)
             @ WriteBE (bytes_per_sample a)))"

text \<open>What comes before the subatoms.\<close>

datatype container_data = StsdData "32 word" | Avc1Data avc1_atom | Mp4aData mp4a_atom

fun data_atom_type :: "container_data \<Rightarrow> 32 word" where
  "data_atom_type (StsdData _) = ATOM_STSD"
| "data_atom_type (Avc1Data _) = ATOM_AVC1"
| "data_atom_type (Mp4aData _) = ATOM_MP4A"

definition data_Decode :: "32 word \<Rightarrow> nat \<Rightarrow> container_data f4v_reader" where
  "data_Decode t n =
     (if t = ATOM_STSD then
        if n < 4 then rd_err TAG_DECODE_ERROR else rd_fmap StsdData (rd_num ReadBE)
      else if t = ATOM_AVC1 then rd_fmap Avc1Data (Avc1_Decode n)
      else rd_fmap Mp4aData (Mp4a_Decode n))"

fun data_Encode :: "container_data \<Rightarrow> bytes" where
  "data_Encode (StsdData c) = WriteBE c"
| "data_Encode (Avc1Data a) = Avc1_Encode a"
| "data_Encode (Mp4aData a) = Mp4a_Encode a"

fun data_Measure :: "container_data \<Rightarrow> nat" where
  "data_Measure (StsdData c) = 4"
| "data_Measure (Avc1Data a) = kAvc1DataSize"
| "data_Measure (Mp4aData a) =
     (if mp4a_raw_data a \<noteq> [] then length (mp4a_raw_data a) else if inner_version a = 0 then 24 else 24 + 16)"

text \<open>\<^verbatim>\<open>EqualsData\<close>: a raw body counts alone.\<close>

fun data_compared :: "container_data \<Rightarrow> container_data" where
  "data_compared (Mp4aData a) =
     (if mp4a_raw_data a \<noteq> [] then Mp4aData (Mp4aAtom_new\<lparr>mp4a_raw_data := mp4a_raw_data a\<rparr>) else Mp4aData a)"
| "data_compared d = d"

text \<open>
  An encoder name of more than 31 characters does not fit its field, and a raw body is one
  of 12 bytes that stands alone.
\<close>

fun good_data :: "container_data \<Rightarrow> bool" where
  "good_data (StsdData c) = True"
| "good_data (Avc1Data a) = (length (video_encoder_name a) \<le> 31)"
| "good_data (Mp4aData a) = (if mp4a_raw_data a \<noteq> [] then
      length (mp4a_raw_data a) = 12 \<and> a = Mp4aAtom_new\<lparr>mp4a_raw_data := mp4a_raw_data a\<rparr>
    else inner_version a = 0 \<longrightarrow> samples_per_packet a = 0 \<and> bytes_per_packet a = 0
      \<and> bytes_per_frame a = 0 \<and> bytes_per_sample a = 0)"

section \<open>Atoms\<close>

record atom_info =
  at_body_size :: nat
  force_extended_size :: bool
  at_position :: nat

datatype f4v_atom =
    LeafAtom atom_info leaf_body
  | ContainerAtom atom_info "32 word" "f4v_atom list"
  | ContainerVersionedAtom atom_info byte bytes container_data "f4v_atom list"

fun at_info :: "f4v_atom \<Rightarrow> atom_info" where
  "at_info (LeafAtom i _) = i"
| "at_info (ContainerAtom i _ _) = i"
| "at_info (ContainerVersionedAtom i _ _ _ _) = i"

fun at_type :: "f4v_atom \<Rightarrow> 32 word" where
  "at_type (LeafAtom _ b) = leaf_type b"
| "at_type (ContainerAtom _ t _) = t"
| "at_type (ContainerVersionedAtom _ _ _ d _) = data_atom_type d"

fun at_header_type :: "f4v_atom \<Rightarrow> 32 word" where
  "at_header_type (LeafAtom _ b) = leaf_header_type b"
| "at_header_type a = at_type a"

fun at_subatoms :: "f4v_atom \<Rightarrow> f4v_atom list" where
  "at_subatoms (LeafAtom _ _) = []"
| "at_subatoms (ContainerAtom _ _ subs) = subs"
| "at_subatoms (ContainerVersionedAtom _ _ _ _ subs) = subs"

definition kMaxUInt32 :: nat where "kMaxUInt32 = 2 ^ 32 - 1"

definition IsExtendedSize :: "nat \<Rightarrow> bool" where
  "IsExtendedSize body_size \<longleftrightarrow> kMaxUInt32 - 8 < body_size"

definition HeaderSize :: "bool \<Rightarrow> nat" where
  "HeaderSize is_extended = (if is_extended then 16 else 8)"

definition is_extended_size :: "atom_info \<Rightarrow> bool" where
  "is_extended_size i \<longleftrightarrow> force_extended_size i \<or> IsExtendedSize (at_body_size i)"

definition at_size :: "atom_info \<Rightarrow> nat" where
  "at_size i = at_body_size i + HeaderSize (is_extended_size i)"

fun MeasureBodySize :: "f4v_atom \<Rightarrow> nat" where
  "MeasureBodySize (LeafAtom _ b) = leaf_Measure b"
| "MeasureBodySize (ContainerAtom _ _ subs) =
     sum_list (map (\<lambda>a. let m = MeasureBodySize a
       in HeaderSize (force_extended_size (at_info a) \<or> IsExtendedSize m) + m) subs)"
| "MeasureBodySize (ContainerVersionedAtom _ _ _ d subs) =
     4 + (data_Measure d + sum_list (map (\<lambda>a. let m = MeasureBodySize a
       in HeaderSize (force_extended_size (at_info a) \<or> IsExtendedSize m) + m) subs))"

definition MeasureSize :: "f4v_atom \<Rightarrow> nat" where
  "MeasureSize a = HeaderSize (force_extended_size (at_info a) \<or> IsExtendedSize (MeasureBodySize a))
     + MeasureBodySize a"

text \<open>\<^verbatim>\<open>UpdateSize\<close>: the subatoms first, then the atom itself.\<close>

fun atom_UpdateSize :: "f4v_atom \<Rightarrow> f4v_atom" where
  "atom_UpdateSize (LeafAtom i b) = LeafAtom (i\<lparr>at_body_size := leaf_Measure b\<rparr>) b"
| "atom_UpdateSize (ContainerAtom i t subs) =
     (let subs' = map atom_UpdateSize subs
      in ContainerAtom (i\<lparr>at_body_size := MeasureBodySize (ContainerAtom i t subs')\<rparr>) t subs')"
| "atom_UpdateSize (ContainerVersionedAtom i v fl d subs) =
     (let subs' = map atom_UpdateSize subs
      in ContainerVersionedAtom (i\<lparr>at_body_size := MeasureBodySize (ContainerVersionedAtom i v fl d subs')\<rparr>)
           v fl d subs')"

text \<open>\<^verbatim>\<open>Encode\<close> compares the size of the body with what was written, but not for \<^verbatim>\<open>mdat\<close>.\<close>

definition encode_header :: "atom_info \<Rightarrow> 32 word \<Rightarrow> bytes" where
  "encode_header i t =
     (if is_extended_size i then WriteBE (1 :: 32 word) @ WriteBE t @ WriteBE (word_of_nat (at_size i) :: 64 word)
      else WriteBE (word_of_nat (at_size i) :: 32 word) @ WriteBE t)"

definition finish_atom :: "f4v_atom \<Rightarrow> bytes \<Rightarrow> bytes option" where
  "finish_atom a body =
     (if at_type a \<noteq> ATOM_MDAT \<and> length body \<noteq> at_body_size (at_info a) then None
      else Some (encode_header (at_info a) (at_header_type a) @ body))"

fun atom_Encode :: "f4v_atom \<Rightarrow> bytes option" where
  "atom_Encode (LeafAtom i b) = Option.bind (leaf_Encode b) (finish_atom (LeafAtom i b))"
| "atom_Encode (ContainerAtom i t subs) =
     Option.bind (those (map atom_Encode subs)) (\<lambda>bs. finish_atom (ContainerAtom i t subs) (concat bs))"
| "atom_Encode (ContainerVersionedAtom i v fl d subs) =
     Option.bind (those (map atom_Encode subs)) (\<lambda>bs.
       finish_atom (ContainerVersionedAtom i v fl d subs) (v # fl @ data_Encode d @ concat bs))"

text \<open>\<^verbatim>\<open>Equals\<close>: sizes and positions do not count.\<close>

fun atom_compared :: "f4v_atom \<Rightarrow> f4v_atom" where
  "atom_compared (LeafAtom i b) =
     LeafAtom \<lparr>at_body_size = 0, force_extended_size = False, at_position = 0\<rparr> (leaf_compared b)"
| "atom_compared (ContainerAtom i t subs) =
     ContainerAtom \<lparr>at_body_size = 0, force_extended_size = False, at_position = 0\<rparr> t (map atom_compared subs)"
| "atom_compared (ContainerVersionedAtom i v fl d subs) =
     ContainerVersionedAtom \<lparr>at_body_size = 0, force_extended_size = False, at_position = 0\<rparr> v fl
       (data_compared d) (map atom_compared subs)"

definition atom_Equals :: "f4v_atom \<Rightarrow> f4v_atom \<Rightarrow> bool" where
  "atom_Equals a b \<longleftrightarrow> atom_compared a = atom_compared b"

section \<open>Subatoms by type\<close>

text \<open>
  A container remembers the last subatom of a type; \<^verbatim>\<open>minf\<close> the first, \<^verbatim>\<open>moov\<close> all of its
  \<^verbatim>\<open>trak\<close>s.
\<close>

definition last_subatom :: "32 word \<Rightarrow> f4v_atom \<Rightarrow> f4v_atom option" where
  "last_subatom t a = List.find (\<lambda>x. at_type x = t) (rev (at_subatoms a))"

definition first_subatom :: "32 word \<Rightarrow> f4v_atom \<Rightarrow> f4v_atom option" where
  "first_subatom t a = List.find (\<lambda>x. at_type x = t) (at_subatoms a)"

definition moov_traks :: "f4v_atom \<Rightarrow> f4v_atom list" where
  "moov_traks a = filter (\<lambda>x. at_type x = ATOM_TRAK) (at_subatoms a)"

fun atom_tkhd :: "f4v_atom \<Rightarrow> tkhd_atom option" where
  "atom_tkhd (LeafAtom _ (VersionedAtom _ _ (TkhdAtom h))) = Some h"
| "atom_tkhd _ = None"

text \<open>\<^verbatim>\<open>MoovAtom::trak\<close>: the first track with a header whose volume says audio or video.\<close>

definition moov_trak :: "bool \<Rightarrow> f4v_atom \<Rightarrow> f4v_atom option" where
  "moov_trak audio moov = List.find (\<lambda>trak.
     case Option.bind (last_subatom ATOM_TKHD trak) atom_tkhd of
       None \<Rightarrow> False
     | Some h \<Rightarrow> audio \<and> tkhd_volume h \<noteq> 0 \<or> \<not> audio \<and> tkhd_volume h = 0) (moov_traks moov)"

end
