(* ===== verification/F4vAtomLaws.thy ===== *)
theory F4vAtomLaws
  imports F4vAtoms
begin

text \<open>
  The bodies of the atoms keep the contract \<open>body_codec\<close>; sizes that are up to date let an
  atom be written.
\<close>

section \<open>The members of esds\<close>

text \<open>
  A reader that succeeds takes at least \<open>k\<close> bytes from the front of its input, and would find
  the same in front of another rest.
\<close>

definition takes :: "nat \<Rightarrow> ('e, 'a) reader \<Rightarrow> bool" where
  "takes k r \<longleftrightarrow> (\<forall>s x s'. r s = Some (Inr x, s') \<longrightarrow>
     (\<exists>u. s = u @ s' \<and> k \<le> length u \<and> (\<forall>t. r (u @ t) = Some (Inr x, t))))"

lemma takes_less: "takes k r \<Longrightarrow> j \<le> k \<Longrightarrow> takes j r"
  unfolding takes_def by (meson le_trans)

lemma takes_ok: "takes 0 (rd_ok v)"
  by (auto simp: takes_def rd_ok_def)

lemma takes_bind:
  assumes "takes j r" "\<And>x. takes k (f x)" "n \<le> j + k"
  shows "takes n (rd_bind r f)"
  unfolding takes_def
proof (intro allI impI)
  fix s y s'' assume "rd_bind r f s = Some (Inr y, s'')"
  then obtain x s' where r: "r s = Some (Inr x, s')" and f: "f x s' = Some (Inr y, s'')"
    by (auto simp: rd_bind_def split: option.splits sum.splits)
  obtain u where u: "s = u @ s'" "j \<le> length u" "\<And>t. r (u @ t) = Some (Inr x, t)"
    using assms(1) r unfolding takes_def by blast
  obtain v where v: "s' = v @ s''" "k \<le> length v" "\<And>t. f x (v @ t) = Some (Inr y, t)"
    using assms(2) f unfolding takes_def by blast
  have "s = (u @ v) @ s'' \<and> n \<le> length (u @ v) \<and> (\<forall>t. rd_bind r f ((u @ v) @ t) = Some (Inr y, t))"
    using u v assms(3) by (simp add: rd_bind_def)
  then show "\<exists>u. s = u @ s'' \<and> n \<le> length u \<and> (\<forall>t. rd_bind r f (u @ t) = Some (Inr y, t))" by blast
qed

lemma takes_need: "takes k r \<Longrightarrow> m \<le> k \<Longrightarrow> takes k (rd_bind (rd_need e m) (\<lambda>_. r))"
  unfolding takes_def by (fastforce simp: codec_simps split: if_splits)

lemma takes_if: "(b \<Longrightarrow> takes k r) \<Longrightarrow> (\<not> b \<Longrightarrow> takes k r') \<Longrightarrow> takes k (if b then r else r')"
  by auto

lemma takes_num:
  assumes "\<And>s x s'. r s = Some (x, s') \<Longrightarrow> \<exists>u. s = u @ s' \<and> length u = k \<and> (\<forall>t. r (u @ t) = Some (x, t))"
  shows "takes k (rd_num r)"
  using assms by (fastforce simp: takes_def rd_num_def split: option.splits)

lemma takes_front:
  assumes "\<And>s. r s = (if length s < k then None else Some (g (take k s), drop k s))"
  shows "takes k (rd_num r)"
proof (rule takes_num)
  fix s x s' assume "r s = Some (x, s')"
  then have "k \<le> length s" "x = g (take k s)" "s' = drop k s" by (auto simp: assms split: if_splits)
  then have "s = take k s @ s' \<and> length (take k s) = k \<and> (\<forall>t. r (take k s @ t) = Some (x, t))" by (simp add: assms)
  then show "\<exists>u. s = u @ s' \<and> length u = k \<and> (\<forall>t. r (u @ t) = Some (x, t))" by blast
qed

lemma takes_reads:
  "takes 1 (rd_num ReadByte)" "takes 3 (rd_num ReadUInt24BE)" "takes 2 (rd_num (ReadBE :: bytes \<Rightarrow> (16 word \<times> bytes) option))"
  "takes 4 (rd_num (ReadBE :: bytes \<Rightarrow> (32 word \<times> bytes) option))" "takes m (rd_num (read_checked m))"
proof -
  show "takes 1 (rd_num ReadByte)"
  proof (rule takes_front[where g = hd])
    show "ReadByte s = (if length s < 1 then None else Some (hd (take 1 s), drop 1 s))" for s
      by (cases s) (simp_all add: ReadByte_Cons ReadByte_Nil)
  qed
  show "takes 2 (rd_num (ReadBE :: bytes \<Rightarrow> (16 word \<times> bytes) option))"
    by (rule takes_front[where g = "\<lambda>x. word_of_nat (be_value x)"]) (simp add: ReadBE_eq)
  show "takes 4 (rd_num (ReadBE :: bytes \<Rightarrow> (32 word \<times> bytes) option))"
    by (rule takes_front[where g = "\<lambda>x. word_of_nat (be_value x)"]) (simp add: ReadBE_eq)
  show "takes m (rd_num (read_checked m))"
    by (rule takes_front[where g = "\<lambda>x. x"]) (auto simp: read_checked_def)
qed (rule takes_front, rule ReadUInt24BE_eq)

lemma takes_0: "takes k r \<Longrightarrow> takes 0 r"
  by (rule takes_less) simp_all

lemma takes_read_tag_length: "takes 0 (read_tag_length k len)" "0 < k \<Longrightarrow> takes 1 (read_tag_length k len)"
proof -
  have step: "takes 1 (read_tag_length (Suc k) len)" if "\<And>len. takes 0 (read_tag_length k len)" for k len
    unfolding read_tag_length.simps Let_def
    by (intro takes_need[OF takes_bind[where j = 1 and k = 0]] takes_reads takes_if takes_ok that) simp_all
  have all: "takes 0 (read_tag_length k len)" for k len
    by (induction k arbitrary: len) (auto intro: takes_ok takes_0[OF step] simp del: read_tag_length.simps(2))
  then show "takes 0 (read_tag_length k len)" .
  assume "0 < k"
  then obtain j where "k = Suc j" using gr0_conv_Suc by blast
  then show "takes 1 (read_tag_length k len)" using step[OF all] by (simp only:)
qed

lemma takes_tag: "takes 2 ReadTagTypeAndLength"
  unfolding ReadTagTypeAndLength_def
  by (intro takes_bind[where j = 1 and k = 1] takes_reads takes_bind[where j = 1 and k = 0] takes_read_tag_length takes_ok)
    simp_all

lemma takes_optional: "takes k r \<Longrightarrow> m \<le> k \<Longrightarrow> takes 0 (if b then rd_bind (rd_need e m) (\<lambda>_. r) else rd_ok p)"
  by (auto intro: takes_0 takes_need takes_ok)

lemma takes_Esds_decoder_config: "takes 0 (Esds_decoder_config e)"
proof -
  have data: "takes 0 (rd_bind (rd_need TAG_DECODE_NO_DATA m) (\<lambda>_. rd_bind (rd_num (read_checked m)) (\<lambda>xs. rd_ok (f xs))))"
    for m and f :: "bytes \<Rightarrow> esds_atom"
    by (intro takes_0[OF takes_need[where k = m]] takes_bind[where j = m and k = 0] takes_reads takes_ok) simp_all
  have unknown: "takes 1 (rd_bind (rd_num ReadByte) (\<lambda>_. ReadTagTypeAndLength))"
    by (rule takes_bind[OF takes_reads(1) takes_tag]) simp
  show ?thesis
    unfolding Esds_decoder_config_def Let_def
    by (rule takes_0, rule takes_need[where k = 13], rule takes_bind[OF takes_reads(1), where k = 12],
        rule takes_bind[OF takes_reads(1), where k = 11], rule takes_bind[OF takes_reads(2), where k = 8],
        rule takes_bind[OF takes_reads(4), where k = 4], rule takes_bind[OF takes_reads(4), where k = 0],
        rule takes_bind[OF takes_tag, where k = 0], rule takes_bind[OF takes_optional[OF unknown le_refl], where k = 0],
        rule takes_if, rule data, rule takes_ok) simp_all
qed

lemma takes_Esds_members: "takes 0 (Esds_members e)"
  unfolding Esds_members_def Let_def
  by (rule takes_bind[OF takes_tag, where k = 0], rule takes_0, rule takes_need[where k = 2],
      rule takes_bind[OF takes_reads(3), where k = 0], rule takes_bind[OF takes_optional[OF takes_reads(1) le_refl], where k = 0],
      rule takes_bind[OF takes_tag, where k = 0], rule takes_if, rule takes_Esds_decoder_config, rule takes_ok) simp_all

text \<open>The body is kept as it is, so an atom that was read from a stream is found in its body again.\<close>

lemma Esds_members_raw: "Esds_members e s = Some (Inr a, s') \<Longrightarrow> esds_raw_data a = esds_raw_data e"
  by (auto simp: Esds_members_def Esds_decoder_config_def rd_bind_def rd_ok_def Let_def
      split: option.splits sum.splits if_splits)

lemma Esds_Decode_raw:
  assumes "Esds_Decode n s = Some (Inr a, s')"
  shows "esds_raw_data a = take n s" "s' = drop n s" "n \<le> length s" "esds_raw_data a \<noteq> []"
    "\<exists>t. Esds_members (EsdsAtom_new\<lparr>esds_raw_data := take n s\<rparr>) (take n s) = Some (Inr a, t)"
proof -
  let ?e = "EsdsAtom_new\<lparr>esds_raw_data := take n s\<rparr>"
  show le: "n \<le> length s" using assms by (auto simp: Esds_Decode_def codec_simps split: if_splits)
  obtain s1 where m: "Esds_members ?e s = Some (Inr a, s1)" "length s - length s1 \<le> n"
      "s' = drop (n - (length s - length s1)) s1"
    using assms le by (auto simp: Esds_Decode_def codec_simps Let_def split: option.splits sum.splits if_splits)
  show raw: "esds_raw_data a = take n s" using Esds_members_raw[OF m(1)] by simp
  obtain u where u: "s = u @ s1" "\<And>t. Esds_members ?e (u @ t) = Some (Inr a, t)"
    using takes_Esds_members m(1) unfolding takes_def by blast
  have len: "length u \<le> n" using m(2) u(1) by simp
  show "s' = drop n s" using m(3) u(1) len by simp
  have "take n s = u @ take (n - length u) s1" using u(1) len by simp
  then show "\<exists>t. Esds_members ?e (take n s) = Some (Inr a, t)"
    using u(2)[of "take (n - length u) s1"] by auto
  show "esds_raw_data a \<noteq> []"
  proof
    assume "esds_raw_data a = []"
    then have "u = []" using raw \<open>take n s = u @ _\<close> by simp
    then have "Esds_members ?e [] = Some (Inr a, [])" using u(2)[of "[]"] by simp
    then show False by (simp add: Esds_members_def ReadTagTypeAndLength_def rd_bind_def rd_num_def ReadByte_Nil)
  qed
qed

lemma Esds_Decode_Encode:
  assumes "good_esds a"
  shows "Esds_Encode a = Some (esds_raw_data a)"
    "Esds_Decode (length (esds_raw_data a)) (esds_raw_data a @ s) = Some (Inr a, s)"
proof -
  let ?raw = "esds_raw_data a" and ?e = "EsdsAtom_new\<lparr>esds_raw_data := esds_raw_data a\<rparr>"
  obtain n s0 s' where "Esds_Decode n s0 = Some (Inr a, s')" using assms unfolding good_esds_def by blast
  note d = Esds_Decode_raw[OF this]
  show "Esds_Encode a = Some ?raw" using d(4) by (simp add: Esds_Encode_def)
  obtain t where m: "Esds_members ?e ?raw = Some (Inr a, t)" using d(5) unfolding d(1) by blast
  obtain u where u: "?raw = u @ t" "\<And>r. Esds_members ?e (u @ r) = Some (Inr a, r)"
    using takes_Esds_members m unfolding takes_def by blast
  then have "Esds_members ?e (?raw @ s) = Some (Inr a, t @ s)" by simp
  moreover have "take (length ?raw) (?raw @ s) = ?raw" by simp
  ultimately show "Esds_Decode (length ?raw) (?raw @ s) = Some (Inr a, s)"
    using u(1) by (simp add: Esds_Decode_def codec_simps Let_def)
qed

section \<open>Bodies keep their contract\<close>

lemma rd_fmap_ok: "r s = Some (Inr x, s') \<Longrightarrow> rd_fmap f r s = Some (Inr (f x), s')"
  by (simp add: rd_fmap_def rd_bind_def rd_ok_def)

lemma versioned_type_in: "versioned_type b \<in> set versioned_types"
  by (cases b) (auto simp: versioned_types_def)

lemma versioned_roundtrip:
  assumes "good_versioned v b"
  shows "\<exists>bs. versioned_Encode v b = Some bs \<and> length bs = versioned_Measure v b
    \<and> (\<forall>s. versioned_Decode (versioned_type b) v (versioned_Measure v b) (bs @ s) = Some (Inr b, s))"
proof (cases b)
  case (Co64Atom rs)
  then show ?thesis using assms co64.table_roundtrip[of rs]
    by (auto simp: versioned_Decode_def atom_codes co64.fits_table_def intro!: rd_fmap_ok)
next
  case (CttsAtom rs)
  then show ?thesis using assms ctts.table_roundtrip[of rs]
    by (auto simp: versioned_Decode_def atom_codes ctts.fits_table_def intro!: rd_fmap_ok)
next
  case (StcoAtom rs)
  then show ?thesis using assms u32.table_roundtrip[of rs]
    by (auto simp: versioned_Decode_def atom_codes u32.fits_table_def intro!: rd_fmap_ok)
next
  case (StscAtom rs)
  then show ?thesis using assms stsc.table_roundtrip[of rs]
    by (auto simp: versioned_Decode_def atom_codes stsc.fits_table_def intro!: rd_fmap_ok)
next
  case (StssAtom rs)
  then show ?thesis using assms u32.table_roundtrip[of rs]
    by (auto simp: versioned_Decode_def atom_codes u32.fits_table_def intro!: rd_fmap_ok)
next
  case (StszAtom u rs)
  then show ?thesis using assms body_codec.encode_good[OF Stsz_codec, of "(u, rs)"]
    by (auto simp: versioned_Decode_def atom_codes rd_fmap_def rd_bind_def rd_ok_def)
next
  case (SttsAtom rs)
  then show ?thesis using assms stts.table_roundtrip[of rs]
    by (auto simp: versioned_Decode_def atom_codes stts.fits_table_def intro!: rd_fmap_ok)
next
  case (SmhdAtom x r)
  then show ?thesis using assms Smhd_Decode_Encode[of r x]
    by (auto simp: versioned_Decode_def atom_codes rd_fmap_def rd_bind_def rd_ok_def)
next
  case (VmhdAtom x r)
  then show ?thesis using assms Vmhd_Decode_Encode[of r x]
    by (auto simp: versioned_Decode_def atom_codes rd_fmap_def rd_bind_def rd_ok_def)
next
  case (HdlrAtom a)
  then show ?thesis using assms Hdlr_Decode_Encode[of a]
    by (auto simp: versioned_Decode_def atom_codes Hdlr_Encode_def good_hdlr_def kHdlrVersionedBodyMinSize_def
        rd_fmap_def rd_bind_def rd_ok_def)
next
  case (MvhdAtom a)
  then have "Mvhd_Encode v a \<noteq> None" using assms by (auto simp: Mvhd_Encode_def good_mvhd_def)
  then show ?thesis using MvhdAtom assms Mvhd_Decode_Encode[of v a]
    by (auto simp: versioned_Decode_def atom_codes intro!: rd_fmap_ok)
next
  case (MdhdAtom a)
  then have "Mdhd_Encode v a \<noteq> None" using assms by (auto simp: Mdhd_Encode_def good_mdhd_def)
  then show ?thesis using MdhdAtom assms Mdhd_Decode_Encode[of v a]
    by (auto simp: versioned_Decode_def atom_codes intro!: rd_fmap_ok)
next
  case (TkhdAtom a)
  then have "Tkhd_Encode v a \<noteq> None" using assms by (auto simp: Tkhd_Encode_def good_tkhd_def)
  then show ?thesis using TkhdAtom assms Tkhd_Decode_Encode[of v a]
    by (auto simp: versioned_Decode_def atom_codes intro!: rd_fmap_ok)
next
  case (EsdsAtom a)
  then show ?thesis using assms Esds_Decode_Encode[of a]
    by (auto simp: versioned_Decode_def atom_codes intro!: rd_fmap_ok)
qed

interpretation versioned: body_codec "versioned_Encode v" "versioned_Measure v" "versioned_Decode t v"
    "\<lambda>b. good_versioned v b \<and> versioned_type b = t" for t v
  by unfold_locales (use versioned_roundtrip in blast)

text \<open>The body of a leaf is read by the decoder of the type in its header.\<close>

lemma known_leaf_types:
  "t \<in> set versioned_types \<Longrightarrow> t \<noteq> ATOM_NULL \<and> t \<noteq> ATOM_MDAT \<and> t \<noteq> ATOM_FREE \<and> t \<noteq> ATOM_FTYP \<and> t \<noteq> ATOM_AVCC"
  "t \<in> set autogen_atoms \<Longrightarrow> t \<noteq> ATOM_NULL \<and> t \<noteq> ATOM_MDAT \<and> t \<noteq> ATOM_FREE \<and> t \<noteq> ATOM_FTYP \<and> t \<noteq> ATOM_AVCC
     \<and> t \<notin> set versioned_types"
  unfolding versioned_types_def atom_codes by auto

lemma rd_take_append: "rd_take (length xs) (xs @ s) = Some (Inr xs, s)"
  by (simp add: rd_take_def)

lemma rd_skip_append: "length xs = n \<Longrightarrow> rd_skip n (xs @ s) = Some (Inr (), s)"
  by (simp add: rd_skip_def)

lemma rd_bind_need_ok: "n \<le> length s \<Longrightarrow> rd_bind (rd_need e n) f s = f () s"
  by (simp add: rd_simps)

lemma leaf_roundtrip:
  assumes "good_leaf b"
  shows "\<exists>bs. leaf_Encode b = Some bs \<and> length bs = leaf_Measure b
    \<and> (\<forall>s. leaf_Decode (leaf_header_type b) (leaf_Measure b) (bs @ s) = Some (Inr b, s))"
proof (cases b)
  case NullAtom
  then show ?thesis by (simp add: leaf_Decode_def codec_simps)
next
  case MdatAtom
  then show ?thesis by (simp add: leaf_Decode_def codec_simps atom_codes)
next
  case (FreeAtom w)
  have "rd_bind (rd_skip (unat w)) (\<lambda>_. rd_ok (FreeAtom w)) (replicate (unat w) 0 @ s)
      = Some (Inr (FreeAtom w) :: decode_failure + leaf_body, s)" for s
    by (simp add: rd_bind_def rd_skip_append rd_ok_def)
  then show ?thesis using FreeAtom
    by (simp add: leaf_Decode_def rd_bind_need_ok free_zeros_eq atom_codes)
next
  case (RawAtom t bs)
  then have "t \<notin> {ATOM_NULL, ATOM_MDAT, ATOM_FREE, ATOM_FTYP, ATOM_AVCC}" "t \<notin> set versioned_types"
      "t \<notin> set autogen_atoms"
    using assms by (auto simp: known_types_def)
  then show ?thesis using RawAtom
    by (simp add: leaf_Decode_def rd_bind_need_ok rd_fmap_ok rd_take_append)
next
  case (AutoAtom t bs)
  then have "t \<in> set autogen_atoms" using assms by simp
  then show ?thesis using AutoAtom known_leaf_types(2)[of t]
    by (simp add: leaf_Decode_def rd_bind_need_ok rd_fmap_ok rd_take_append)
next
  case (FtypAtom a)
  then show ?thesis
    by (simp add: leaf_Decode_def atom_codes length_Ftyp_Encode rd_fmap_ok[where r = "Ftyp_Decode (Ftyp_Measure a)", OF Ftyp_Decode_Encode])
next
  case (AvccAtom a)
  then show ?thesis using assms
    by (simp add: leaf_Decode_def atom_codes length_Avcc_Encode rd_fmap_ok[where r = "Avcc_Decode (Avcc_Measure a)", OF Avcc_Decode_Encode])
next
  case (VersionedAtom v fl c)
  then obtain bs where bs: "versioned_Encode v c = Some bs" "length bs = versioned_Measure v c"
      "\<And>s. versioned_Decode (versioned_type c) v (versioned_Measure v c) (bs @ s) = Some (Inr c, s)"
      "length fl = 3"
    using assms versioned_roundtrip[of v c] by auto
  then show ?thesis using VersionedAtom known_leaf_types(1)[OF versioned_type_in[of c]] versioned_type_in[of c]
    by (simp add: leaf_Decode_def Versioned_Decode_def codec_simps rd_fmap_ok)
qed

interpretation leaf: body_codec leaf_Encode leaf_Measure "leaf_Decode t"
    "\<lambda>b. good_leaf b \<and> leaf_header_type b = t" for t
  by unfold_locales (use leaf_roundtrip in blast)

lemma Avc1_Decode_Encode:
  assumes "length (video_encoder_name a) \<le> 31" "kAvc1DataSize \<le> n" "n \<le> length (Avc1_Encode a @ s)"
  shows "Avc1_Decode n (Avc1_Encode a @ s) = Some (Inr a, s)"
proof -
  let ?k = "length (video_encoder_name a)"
  have len: "unat (word_of_nat ?k :: byte) = ?k" using assms(1) by (intro unat_word_of_nat) simp
  have none: "rd_bind (rd_skip 0) f x = f () x" for f :: "unit \<Rightarrow> avc1_atom f4v_reader" and x
    by (simp add: rd_bind_def rd_skip_def)
  have skip: "rd_bind (rd_skip (31 - ?k)) f (replicate (31 - ?k) 0 @ s) = f () s"
    for f :: "unit \<Rightarrow> avc1_atom f4v_reader" and s
    by (simp add: rd_bind_def rd_skip_def)
  show ?thesis using assms(2,3)
    unfolding Avc1_Decode_def
    by (subst rd_bind_need_ok) (simp_all add: Avc1_Encode_def codec_simps len none skip)
qed

lemma length_Avc1_Encode: "length (video_encoder_name a) \<le> 31 \<Longrightarrow> length (Avc1_Encode a) = kAvc1DataSize"
  by (simp add: Avc1_Encode_def kAvc1DataSize_def)

lemma Mp4a_Decode_Encode:
  assumes "good_data (Mp4aData a)" "n = data_Measure (Mp4aData a) + k" "n \<le> length (Mp4a_Encode a @ s)"
    "mp4a_raw_data a \<noteq> [] \<longrightarrow> k = 0"
  shows "Mp4a_Decode n (Mp4a_Encode a @ s) = Some (Inr a, s)"
proof (cases "mp4a_raw_data a = []")
  case False
  then have "n = 12" "length (mp4a_raw_data a) = 12" and a: "Mp4aAtom_new\<lparr>mp4a_raw_data := mp4a_raw_data a\<rparr> = a"
    using assms by (auto split: if_splits)
  then have "rd_bind (rd_take 12) (\<lambda>raw. rd_ok (Mp4aAtom_new\<lparr>mp4a_raw_data := raw\<rparr>)) (mp4a_raw_data a @ s)
      = Some (Inr a, s)"
    by (simp add: rd_bind_def rd_take_def rd_ok_def)
  then show ?thesis using \<open>n = 12\<close> False \<open>length (mp4a_raw_data a) = 12\<close>
    by (simp add: Mp4a_Decode_def Mp4a_Encode_def rd_bind_need_ok)
next
  case True
  then have "24 \<le> n" using assms by (auto split: if_splits)
  then show ?thesis using assms(1,3) True
    by (cases "inner_version a = 0") (simp_all add: Mp4a_Decode_def Mp4a_Encode_def codec_simps Let_def)
qed

lemma length_data_Encode: "good_data d \<Longrightarrow> length (data_Encode d) = data_Measure d"
  by (cases d) (auto simp: length_Avc1_Encode Mp4a_Encode_def split: if_splits)

lemma data_roundtrip:
  assumes "good_data d" "n = data_Measure d + k" "n \<le> length (data_Encode d @ s)"
    "\<And>a. d = Mp4aData a \<Longrightarrow> mp4a_raw_data a \<noteq> [] \<Longrightarrow> k = 0"
  shows "data_Decode (data_atom_type d) n (data_Encode d @ s) = Some (Inr d, s)"
proof (cases d)
  case (StsdData c)
  then show ?thesis using assms by (simp add: data_Decode_def rd_fmap_ok codec_simps)
next
  case (Avc1Data a)
  then show ?thesis using assms Avc1_Decode_Encode[of a n s]
    by (simp add: data_Decode_def atom_codes rd_fmap_ok)
next
  case (Mp4aData a)
  then show ?thesis using assms Mp4a_Decode_Encode[of a n k s]
    by (simp add: data_Decode_def atom_codes rd_fmap_ok)
qed

end
