(* ===== verification/F4vFrames.thy ===== *)
theory F4vFrames
  imports F4vAtoms
begin

text \<open>
  The frames that a movie atom describes (\<^verbatim>\<open>frames/header.h\<close>, \<^verbatim>\<open>util::ExtractFrames\<close> of
  \<^verbatim>\<open>f4v_util.cc\<close>, \<^verbatim>\<open>Decoder::BuildFrames\<close>): the sample tables of a track are compressed, the
  code walks them together.  \<open>reference_frames\<close> computes each frame from the expanded tables.
\<close>

section \<open>Frames\<close>

text \<open>Times, offsets and sizes are \<^verbatim>\<open>int64\<close>.\<close>

record frame_header =
  fh_offset :: int
  fh_size :: int
  decoding_timestamp :: int
  composition_offset_ms :: int
  fh_duration :: int
  fh_sample_index :: int
  fh_type :: f4v_frame_type
  fh_is_keyframe :: bool

text \<open>The division of C++, towards zero.\<close>

definition c_div :: "int \<Rightarrow> int \<Rightarrow> int" where
  "c_div a b = sgn a * (\<bar>a\<bar> div b)"

section \<open>The tables of a track\<close>

record sample_tables =
  st_time_scale :: "32 word"
  st_sizes :: "(32 word) list"
  st_chunk_offsets :: "(32 word) list"
  st_chunks :: "stsc_record list"
  st_times :: "stts_record list"
  st_compositions :: "ctts_record list option"
  st_keyframes :: "(32 word) list option"

fun versioned_of :: "f4v_atom \<Rightarrow> versioned_body option" where
  "versioned_of (LeafAtom _ (VersionedAtom _ _ b)) = Some b"
| "versioned_of _ = None"

definition track_atom :: "32 word \<Rightarrow> f4v_atom \<Rightarrow> versioned_body option" where
  "track_atom t stbl = Option.bind (last_subatom t stbl) versioned_of"

text \<open>The lookups of \<^verbatim>\<open>ExtractFrames\<close>: \<open>None\<close> is an atom that is missing.\<close>

definition extract_tables :: "f4v_atom \<Rightarrow> bool \<Rightarrow> sample_tables option" where
  "extract_tables moov audio = do {
     trak \<leftarrow> moov_trak audio moov;
     mdia \<leftarrow> last_subatom ATOM_MDIA trak;
     mdhd \<leftarrow> Option.bind (last_subatom ATOM_MDHD mdia) versioned_of;
     minf \<leftarrow> last_subatom ATOM_MINF mdia;
     stbl \<leftarrow> first_subatom ATOM_STBL minf;
     stsz \<leftarrow> track_atom ATOM_STSZ stbl;
     stco \<leftarrow> track_atom ATOM_STCO stbl;
     stsc \<leftarrow> track_atom ATOM_STSC stbl;
     stts \<leftarrow> track_atom ATOM_STTS stbl;
     (case (mdhd, stsz, stco, stsc, stts) of
        (MdhdAtom h, StszAtom _ sizes, StcoAtom offsets, StscAtom chunks, SttsAtom runs) \<Rightarrow>
          Some \<lparr>st_time_scale = mdhd_time_scale h, st_sizes = sizes, st_chunk_offsets = offsets,
            st_chunks = chunks, st_times = runs,
            st_compositions = (case track_atom ATOM_CTTS stbl of Some (CttsAtom rs) \<Rightarrow> Some rs | _ \<Rightarrow> None),
            st_keyframes = (case track_atom ATOM_STSS stbl of Some (StssAtom rs) \<Rightarrow> Some rs | _ \<Rightarrow> None)\<rparr>
      | _ \<Rightarrow> None) }"

text \<open>The lookups of \<^verbatim>\<open>GetStcoAtom\<close>, \<^verbatim>\<open>GetStszAtom\<close>, \<^verbatim>\<open>GetAvccAtom\<close> and \<^verbatim>\<open>GetEsdsAtom\<close>.\<close>

definition track_stbl :: "bool \<Rightarrow> f4v_atom \<Rightarrow> f4v_atom option" where
  "track_stbl audio moov = do {
     trak \<leftarrow> moov_trak audio moov;
     mdia \<leftarrow> last_subatom ATOM_MDIA trak;
     minf \<leftarrow> last_subatom ATOM_MINF mdia;
     first_subatom ATOM_STBL minf }"

definition GetStcoAtom :: "f4v_atom \<Rightarrow> bool \<Rightarrow> f4v_atom option" where
  "GetStcoAtom moov audio = Option.bind (track_stbl audio moov) (last_subatom ATOM_STCO)"

definition GetStszAtom :: "f4v_atom \<Rightarrow> bool \<Rightarrow> f4v_atom option" where
  "GetStszAtom moov audio = Option.bind (track_stbl audio moov) (last_subatom ATOM_STSZ)"

definition GetAvccAtom :: "f4v_atom \<Rightarrow> f4v_atom option" where
  "GetAvccAtom moov = do {
     stbl \<leftarrow> track_stbl False moov;
     stsd \<leftarrow> last_subatom ATOM_STSD stbl;
     avc1 \<leftarrow> last_subatom ATOM_AVC1 stsd;
     last_subatom ATOM_AVCC avc1 }"

definition GetEsdsAtom :: "f4v_atom \<Rightarrow> f4v_atom option" where
  "GetEsdsAtom moov = do {
     stbl \<leftarrow> track_stbl True moov;
     stsd \<leftarrow> last_subatom ATOM_STSD stbl;
     mp4a \<leftarrow> last_subatom ATOM_MP4A stsd;
     (case last_subatom ATOM_ESDS mp4a of
        Some esds \<Rightarrow> Some esds
      | None \<Rightarrow> Option.bind (last_subatom ATOM_WAVE mp4a) (last_subatom ATOM_ESDS)) }"

section \<open>Walking the tables\<close>

text \<open>
  The run-length tables are walked with the records to come and the current record, whose
  count goes down.  \<open>next_run\<close> is the loop that goes to the next record while the count is 0.
\<close>

fun next_run :: "('r \<Rightarrow> 32 word) \<Rightarrow> 'r list \<Rightarrow> 'r \<Rightarrow> 'r list \<times> 'r" where
  "next_run count [] r = ([], r)"
| "next_run count (x # xs) r = (if count r = 0 then next_run count xs x else (x # xs, r))"

record walk =
  wk_decoding_time :: int
  wk_stts :: "stts_record list \<times> stts_record"
  wk_ctts :: "ctts_record list \<times> ctts_record"

text \<open>One round of the loop over the samples of a chunk: the frame and the new state.\<close>

definition sample_step :: "sample_tables \<Rightarrow> bool \<Rightarrow> int \<Rightarrow> 32 word \<Rightarrow> walk \<Rightarrow> frame_header \<times> walk" where
  "sample_step st audio offset size_w w =
     (let (ts, tr) = next_run stts_sample_count (fst (wk_stts w)) (snd (wk_stts w));
          (tr', delta) = (if stts_sample_count tr \<noteq> 0
            then (tr\<lparr>stts_sample_count := stts_sample_count tr - 1\<rparr>, uint (stts_sample_delta tr)) else (tr, 0));
          (cs, cr', composition) = (case st_compositions st of
            None \<Rightarrow> (fst (wk_ctts w), snd (wk_ctts w), 0)
          | Some _ \<Rightarrow>
              let (cs, cr) = next_run ctts_sample_count (fst (wk_ctts w)) (snd (wk_ctts w))
              in if ctts_sample_count cr \<noteq> 0
                 then (cs, cr\<lparr>ctts_sample_count := ctts_sample_count cr - 1\<rparr>, sint (ctts_sample_offset cr))
                 else (cs, cr, 0));
          scale = uint (st_time_scale st);
          time = wk_decoding_time w
      in (\<lparr>fh_offset = offset, fh_size = uint size_w, decoding_timestamp = c_div (time * 1000) scale,
           composition_offset_ms = c_div (composition * 1000) scale, fh_duration = c_div (delta * 1000) scale,
           fh_sample_index = time + composition, fh_type = (if audio then AUDIO_FRAME else VIDEO_FRAME),
           fh_is_keyframe = False\<rparr>,
          \<lparr>wk_decoding_time = time + delta, wk_stts = (ts, tr'), wk_ctts = (cs, cr')\<rparr>))"

text \<open>The samples of a chunk; the list holds the sizes of the frames to come (from \<^verbatim>\<open>frame_index\<close>).\<close>

fun chunk_samples :: "sample_tables \<Rightarrow> bool \<Rightarrow> nat \<Rightarrow> int \<Rightarrow> (32 word) list \<Rightarrow> walk
    \<Rightarrow> frame_header list \<times> (32 word) list \<times> walk" where
  "chunk_samples st audio (Suc k) offset (sz # szs) w =
     (let (f, w1) = sample_step st audio offset sz w;
          (fs, rest, w2) = chunk_samples st audio k (offset + uint sz) szs w1
      in (f # fs, rest, w2))"
| "chunk_samples st audio _ offset szs w = ([], szs, w)"

text \<open>
  The loop over the chunks.  \<open>cs\<close> holds the current \<^verbatim>\<open>stsc\<close> record and those after it;
  \<open>None\<close> is an illegal record.
\<close>

definition next_chunk_record :: "32 word \<Rightarrow> stsc_record list \<Rightarrow> stsc_record list option" where
  "next_chunk_record chunk_index cs = (case cs of
     c # d # ds \<Rightarrow>
       (if first_chunk c > chunk_index \<or> first_chunk d < chunk_index \<or> first_chunk d \<le> first_chunk c then None
        else if first_chunk d = chunk_index then Some (d # ds) else Some cs)
   | _ \<Rightarrow> Some cs)"

fun chunks_loop :: "sample_tables \<Rightarrow> bool \<Rightarrow> 32 word \<Rightarrow> (32 word) list \<Rightarrow> stsc_record list \<Rightarrow> (32 word) list \<Rightarrow> walk
    \<Rightarrow> frame_header list option" where
  "chunks_loop st audio chunk_index [] cs szs w = Some []"
| "chunks_loop st audio chunk_index (o1 # os) cs szs w = (case next_chunk_record chunk_index cs of
     None \<Rightarrow> None
   | Some cs' \<Rightarrow>
       let (fs, rest, w1) = chunk_samples st audio (unat (samples_per_chunk (hd cs'))) (uint o1) szs w
       in map_option (\<lambda>gs. fs @ gs) (chunks_loop st audio (chunk_index + 1) os cs' rest w1))"

definition set_keyframes :: "(32 word) list \<Rightarrow> frame_header list \<Rightarrow> frame_header list" where
  "set_keyframes ks fs = fold (\<lambda>k fs.
     if unat k < 1 \<or> length fs < unat k then fs
     else fs[unat k - 1 := (fs ! (unat k - 1))\<lparr>fh_is_keyframe := True\<rparr>]) ks fs"

definition first_walk :: "sample_tables \<Rightarrow> walk" where
  "first_walk st = \<lparr>wk_decoding_time = 0,
     wk_stts = (st_times st, \<lparr>stts_sample_count = 0, stts_sample_delta = 0\<rparr>),
     wk_ctts = (case st_compositions st of None \<Rightarrow> [] | Some rs \<Rightarrow> rs, \<lparr>ctts_sample_count = 0, ctts_sample_offset = 0\<rparr>)\<rparr>"

definition table_frames :: "sample_tables \<Rightarrow> bool \<Rightarrow> frame_header list" where
  "table_frames st audio =
     (if length (st_chunk_offsets st) < length (st_chunks st) \<or> st_chunks st = [] then []
      else if st_time_scale st = 0 then []
      else case chunks_loop st audio 1 (st_chunk_offsets st) (st_chunks st) (st_sizes st) (first_walk st) of
             None \<Rightarrow> []
           | Some fs \<Rightarrow> (case st_keyframes st of None \<Rightarrow> fs | Some ks \<Rightarrow> set_keyframes ks fs))"

definition ExtractFrames :: "f4v_atom \<Rightarrow> bool \<Rightarrow> frame_header list" where
  "ExtractFrames moov audio = (case extract_tables moov audio of
     None \<Rightarrow> [] | Some st \<Rightarrow> table_frames st audio)"

text \<open>The merge of \<^verbatim>\<open>BuildFrames\<close>: by offset, video first when they are equal.\<close>

fun merge_frames :: "frame_header list \<Rightarrow> frame_header list \<Rightarrow> frame_header list" where
  "merge_frames (a # as) (v # vs) =
     (if fh_offset a < fh_offset v then a # merge_frames as (v # vs) else v # merge_frames (a # as) vs)"
| "merge_frames as [] = as"
| "merge_frames [] vs = vs"

definition movie_frames :: "f4v_atom \<Rightarrow> frame_header list" where
  "movie_frames moov = merge_frames (ExtractFrames moov True) (ExtractFrames moov False)"

section \<open>The frames of the expanded tables\<close>

text \<open>A run-length table as the value of every sample; samples past its end have the value 0.\<close>

definition expand_runs :: "('r \<Rightarrow> 32 word) \<Rightarrow> ('r \<Rightarrow> int) \<Rightarrow> 'r list \<Rightarrow> int list" where
  "expand_runs count val rs = concat (map (\<lambda>r. replicate (unat (count r)) (val r)) rs)"

definition nth_or_0 :: "int list \<Rightarrow> nat \<Rightarrow> int" where
  "nth_or_0 xs i = (if i < length xs then xs ! i else 0)"

text \<open>The number of samples of chunk \<open>c\<close>: that of the last record that starts at \<open>c\<close> or before.\<close>

fun chunk_count :: "stsc_record list \<Rightarrow> nat \<Rightarrow> nat" where
  "chunk_count [] c = 0"
| "chunk_count [r] c = unat (samples_per_chunk r)"
| "chunk_count (r # r' # rs) c =
     (if unat (first_chunk r') \<le> c then chunk_count (r' # rs) c else unat (samples_per_chunk r))"

text \<open>The place and the size of every frame: chunk after chunk, frame after frame.\<close>

fun place_chunk :: "int \<Rightarrow> (32 word) list \<Rightarrow> (int \<times> 32 word) list" where
  "place_chunk offset [] = []"
| "place_chunk offset (sz # szs) = (offset, sz) # place_chunk (offset + uint sz) szs"

fun place_frames :: "stsc_record list \<Rightarrow> nat \<Rightarrow> (32 word) list \<Rightarrow> (32 word) list \<Rightarrow> (int \<times> 32 word) list" where
  "place_frames cs c [] szs = []"
| "place_frames cs c (o1 # os) szs =
     place_chunk (uint o1) (take (chunk_count cs c) szs) @ place_frames cs (c + 1) os (drop (chunk_count cs c) szs)"

definition reference_frame :: "sample_tables \<Rightarrow> bool \<Rightarrow> nat \<Rightarrow> int \<times> 32 word \<Rightarrow> frame_header" where
  "reference_frame st audio i p =
     (let deltas = expand_runs stts_sample_count (\<lambda>r. uint (stts_sample_delta r)) (st_times st);
          compositions = (case st_compositions st of None \<Rightarrow> []
            | Some rs \<Rightarrow> expand_runs ctts_sample_count (\<lambda>r. sint (ctts_sample_offset r)) rs);
          time = sum_list (take i deltas);
          scale = uint (st_time_scale st)
      in \<lparr>fh_offset = fst p, fh_size = uint (snd p), decoding_timestamp = time * 1000 div scale,
          composition_offset_ms = c_div (nth_or_0 compositions i * 1000) scale,
          fh_duration = nth_or_0 deltas i * 1000 div scale, fh_sample_index = time + nth_or_0 compositions i,
          fh_type = (if audio then AUDIO_FRAME else VIDEO_FRAME),
          fh_is_keyframe = (case st_keyframes st of None \<Rightarrow> False | Some ks \<Rightarrow> Suc i \<in> set (map unat ks))\<rparr>)"

definition reference_frames :: "sample_tables \<Rightarrow> bool \<Rightarrow> frame_header list" where
  "reference_frames st audio =
     (let ps = place_frames (st_chunks st) 1 (st_chunk_offsets st) (st_sizes st)
      in map (\<lambda>i. reference_frame st audio i (ps ! i)) [0..<length ps])"

text \<open>
  Tables that the code accepts: a time scale, records of chunks in order from the first chunk,
  none behind the last.
\<close>

definition good_tables :: "sample_tables \<Rightarrow> bool" where
  "good_tables st \<longleftrightarrow> st_time_scale st \<noteq> 0 \<and> st_chunks st \<noteq> []
     \<and> length (st_chunks st) \<le> length (st_chunk_offsets st) \<and> length (st_chunk_offsets st) < 2 ^ 32 - 1
     \<and> sorted_wrt (<) (map first_chunk (st_chunks st)) \<and> first_chunk (hd (st_chunks st)) \<le> 1"

end
