(* ===== verification/F4vDecoder.thy ===== *)
theory F4vDecoder
  imports F4vFrames
begin

text \<open>
  \<^verbatim>\<open>f4v_decoder.cc\<close>: atoms and frames are read from a stream.  \<^verbatim>\<open>ReadAtom\<close> reads the header of
  an atom and lets the atom read its body, which reads subatoms through the decoder.  After an
  \<^verbatim>\<open>mdat\<close> header the decoder reads frames until the end of that atom.  The call of
  \<^verbatim>\<open>util::ExtractMediaInfo\<close> on a movie is left out: what it finds is only logged.
\<close>

section \<open>The decoder\<close>

record decoder =
  stream_position :: nat
  is_topmost_atom :: bool
  stream_size_on_topmost :: nat
  moov_atom :: "f4v_atom option"
  mdat_atom :: "f4v_atom option"
  mdat_begin :: int
  mdat_end :: int
  mdat_offset :: int
  mdat_frames :: "frame_header list"
  mdat_next :: nat
  mdat_prev_frame :: "frame_header option"
  mdat_split_raw_frames :: bool

definition Decoder_new :: decoder where
  "Decoder_new = \<lparr>stream_position = 0, is_topmost_atom = True, stream_size_on_topmost = 0,
     moov_atom = None, mdat_atom = None, mdat_begin = 0, mdat_end = 0, mdat_offset = 0,
     mdat_frames = [], mdat_next = 0, mdat_prev_frame = None, mdat_split_raw_frames = False\<rparr>"

definition set_split_raw_frames :: "bool \<Rightarrow> decoder \<Rightarrow> decoder" where
  "set_split_raw_frames b d = d\<lparr>mdat_split_raw_frames := b\<rparr>"

definition ClearFrames :: "decoder \<Rightarrow> decoder" where
  "ClearFrames d = d\<lparr>mdat_frames := [], mdat_next := 0, mdat_prev_frame := None, mdat_atom := None,
     mdat_begin := 0, mdat_end := 0, mdat_offset := 0\<rparr>"

definition Decoder_Clear :: "decoder \<Rightarrow> decoder" where
  "Decoder_Clear d = (ClearFrames d)\<lparr>moov_atom := None, stream_position := 0, is_topmost_atom := True,
     stream_size_on_topmost := 0\<rparr>"

text \<open>\<^verbatim>\<open>BuildFrames\<close> with its \<^verbatim>\<open>CHECK\<close> that there are no frames yet.\<close>

definition BuildFrames :: "decoder \<Rightarrow> decoder option" where
  "BuildFrames d =
     (if mdat_split_raw_frames d then Some d
      else case moov_atom d of
        None \<Rightarrow> Some d
      | Some moov \<Rightarrow> if mdat_frames d \<noteq> [] then None else Some (d\<lparr>mdat_frames := movie_frames moov\<rparr>))"

section \<open>Reading atoms\<close>

text \<open>
  A reader of atoms: the failure or the atom, the rest of the stream and the decoder;
  \<open>None\<close> when a \<^verbatim>\<open>CHECK\<close> fails.  The reader of subatoms is an argument of what reads a body.
\<close>

type_synonym 'a decoding = "((decode_failure + 'a) \<times> bytes \<times> decoder) option"
type_synonym atom_reader = "decoder \<Rightarrow> bytes \<Rightarrow> f4v_atom decoding"

definition TryReadAtom :: "atom_reader \<Rightarrow> atom_reader" where
  "TryReadAtom rd d s = (if mdat_atom d \<noteq> None then Some (Inl TAG_DECODE_ERROR, s, d) else rd d s)"

text \<open>
  The loops over subatoms.  The first number bounds the rounds: a round consumes the header of
  an atom at least, so more rounds than bytes are never made.
\<close>

fun container_loop :: "atom_reader \<Rightarrow> nat \<Rightarrow> nat \<Rightarrow> nat \<Rightarrow> decoder \<Rightarrow> bytes \<Rightarrow> f4v_atom list decoding" where
  "container_loop rd 0 n read d s = None"
| "container_loop rd (Suc k) n read d s =
     (if read < n then
        case TryReadAtom rd d s of
          None \<Rightarrow> None
        | Some (Inl e, s1, d1) \<Rightarrow> Some (Inl TAG_DECODE_ERROR, s1, d1)
        | Some (Inr a, s1, d1) \<Rightarrow>
            (case container_loop rd k n (read + (length s - length s1)) d1 s1 of
               None \<Rightarrow> None
             | Some (Inl e, s2, d2) \<Rightarrow> Some (Inl e, s2, d2)
             | Some (Inr as, s2, d2) \<Rightarrow> Some (Inr (a # as), s2, d2))
      else if read = n then Some (Inr [], s, d)
      else None)"

text \<open>The subatoms of a versioned container are in a stream of their own; 4 last bytes are ignored.\<close>

fun versioned_container_loop :: "atom_reader \<Rightarrow> nat \<Rightarrow> decoder \<Rightarrow> bytes \<Rightarrow> ((decode_failure + f4v_atom list) \<times> decoder) option" where
  "versioned_container_loop rd 0 d s = None"
| "versioned_container_loop rd (Suc k) d s =
     (if s = [] \<or> length s = 4 then Some (Inr [], d)
      else case TryReadAtom rd d s of
        None \<Rightarrow> None
      | Some (Inl e, s1, d1) \<Rightarrow> Some (Inl TAG_DECODE_ERROR, d1)
      | Some (Inr a, s1, d1) \<Rightarrow>
          (case versioned_container_loop rd k d1 s1 of
             None \<Rightarrow> None
           | Some (Inl e, d2) \<Rightarrow> Some (Inl e, d2)
           | Some (Inr as, d2) \<Rightarrow> Some (Inr (a # as), d2)))"

definition container_DecodeBody :: "atom_reader \<Rightarrow> atom_info \<Rightarrow> 32 word \<Rightarrow> nat \<Rightarrow> decoder \<Rightarrow> bytes \<Rightarrow> f4v_atom decoding" where
  "container_DecodeBody rd i t n d s =
     (if length s < n then Some (Inl TAG_DECODE_NO_DATA, s, d)
      else case container_loop rd (Suc (length s)) n 0 d s of
        None \<Rightarrow> None
      | Some (Inl e, s1, d1) \<Rightarrow> Some (Inl e, s1, d1)
      | Some (Inr as, s1, d1) \<Rightarrow> Some (Inr (ContainerAtom i t as), s1, d1))"

definition versioned_container_body ::
    "atom_reader \<Rightarrow> atom_info \<Rightarrow> 32 word \<Rightarrow> byte \<Rightarrow> bytes \<Rightarrow> nat \<Rightarrow> decoder \<Rightarrow> bytes \<Rightarrow> f4v_atom decoding" where
  "versioned_container_body rd i t v fl n d s =
     (if length s < n then Some (Inl TAG_DECODE_NO_DATA, s, d)
      else case data_Decode t n s of
        None \<Rightarrow> None
      | Some (Inl e, s1) \<Rightarrow> Some (Inl TAG_DECODE_ERROR, s1, d)
      | Some (Inr x, s1) \<Rightarrow>
          (let read = length s - length s1
           in if n < read then None
              else let subs = take (n - read) s1 in
                case versioned_container_loop rd (Suc (length subs)) d subs of
                  None \<Rightarrow> None
                | Some (Inl e, d1) \<Rightarrow> Some (Inl e, drop (n - read) s1, d1)
                | Some (Inr as, d1) \<Rightarrow> Some (Inr (ContainerVersionedAtom i v fl x as), drop (n - read) s1, d1)))"

definition versioned_container_DecodeBody ::
    "atom_reader \<Rightarrow> atom_info \<Rightarrow> 32 word \<Rightarrow> nat \<Rightarrow> decoder \<Rightarrow> bytes \<Rightarrow> f4v_atom decoding" where
  "versioned_container_DecodeBody rd i t n d s =
     (if n < 4 then Some (Inl TAG_DECODE_ERROR, s, d)
      else if length s < 4 then Some (Inl TAG_DECODE_NO_DATA, s, d)
      else versioned_container_body rd i t (hd s) (take 3 (tl s)) (n - 4) d (drop 4 s))"

text \<open>\<^verbatim>\<open>DecodeBody\<close> of the class for the type, and \<^verbatim>\<open>BaseAtom::Decode\<close> with its fatal check.\<close>

definition Atom_DecodeBody :: "atom_reader \<Rightarrow> atom_info \<Rightarrow> 32 word \<Rightarrow> nat \<Rightarrow> decoder \<Rightarrow> bytes \<Rightarrow> f4v_atom decoding" where
  "Atom_DecodeBody rd i t n d s =
     (if t \<in> set container_types then container_DecodeBody rd i t n d s
      else if t \<in> set container_versioned_types then versioned_container_DecodeBody rd i t n d s
      else case leaf_Decode t n s of
        None \<Rightarrow> None
      | Some (Inl e, s1) \<Rightarrow> Some (Inl e, s1, d)
      | Some (Inr b, s1) \<Rightarrow> Some (Inr (LeafAtom i b), s1, d))"

definition Atom_Decode :: "atom_reader \<Rightarrow> atom_info \<Rightarrow> 32 word \<Rightarrow> nat \<Rightarrow> decoder \<Rightarrow> bytes \<Rightarrow> f4v_atom decoding" where
  "Atom_Decode rd i t n d s = (case Atom_DecodeBody rd i t n d s of
     None \<Rightarrow> None
   | Some (r, s1, d1) \<Rightarrow> if n < length s - length s1 then None else Some (r, s1, d1))"

text \<open>The size and the type: the type, the size of the header and the size of the atom.\<close>

definition read_atom_header :: "(32 word \<times> nat \<times> nat) f4v_reader" where
  "read_atom_header =
     rd_bind (rd_num ReadBE) (\<lambda>size32 :: 32 word.
     rd_bind (rd_num ReadBE) (\<lambda>t :: 32 word.
     rd_bind (if size32 = 1 then rd_bind (rd_num ReadBE) (\<lambda>size64 :: 64 word. rd_ok (unat size64, 16))
              else rd_ok (unat size32, 8)) (\<lambda>(n, header). \<lambda>s.
     (let n' = (if n = 0 then header + length s else n)
      in if n' < header then Some (Inl TAG_DECODE_ERROR, s)
         else if t \<noteq> ATOM_MDAT \<and> length s < n' - header then Some (Inl TAG_DECODE_NO_DATA, s)
         else Some (Inr (t, header, n'), s)))))"

fun set_force_extended :: "f4v_atom \<Rightarrow> f4v_atom" where
  "set_force_extended (LeafAtom i b) = LeafAtom (i\<lparr>force_extended_size := True\<rparr>) b"
| "set_force_extended (ContainerAtom i t as) = ContainerAtom (i\<lparr>force_extended_size := True\<rparr>) t as"
| "set_force_extended (ContainerVersionedAtom i v fl x as) =
     ContainerVersionedAtom (i\<lparr>force_extended_size := True\<rparr>) v fl x as"

text \<open>What \<^verbatim>\<open>ReadAtom\<close> does with a movie or a data atom that it has read.\<close>

definition accept_atom :: "nat \<Rightarrow> bytes \<Rightarrow> f4v_atom \<Rightarrow> decoder \<Rightarrow> f4v_atom decoding" where
  "accept_atom header s a d =
     (if at_type a = ATOM_MOOV then do {
        d1 \<leftarrow> BuildFrames (d\<lparr>moov_atom := Some a\<rparr>);
        Some (Inr a, s, d1) }
      else if at_type a = ATOM_MDAT then
        if \<not> mdat_split_raw_frames d \<and> moov_atom d = None then Some (Inl TAG_DECODE_ERROR, s, d)
        else if mdat_atom d \<noteq> None then None
        else Some (Inr a, s, d\<lparr>mdat_atom := Some a,
          mdat_begin := int (at_position (at_info a)) + int header,
          mdat_end := int (at_position (at_info a)) + int (at_size (at_info a)),
          mdat_offset := int (at_position (at_info a)) + int header\<rparr>)
      else Some (Inr a, s, d))"

definition ReadAtom_step :: "atom_reader \<Rightarrow> atom_reader" where
  "ReadAtom_step rd d s =
     (if mdat_atom d \<noteq> None then None
      else if length s < 8 then Some (Inl TAG_DECODE_NO_DATA, s, d)
      else
        let d1 = (if is_topmost_atom d then d\<lparr>stream_size_on_topmost := length s\<rparr> else d);
            position = (if is_topmost_atom d then stream_position d
              else stream_position d + (stream_size_on_topmost d1 - length s))
        in case read_atom_header s of
             None \<Rightarrow> None
           | Some (Inl e, _) \<Rightarrow> Some (Inl e, s, d1)
           | Some (Inr (t, header, n), s1) \<Rightarrow>
               (case Atom_Decode rd \<lparr>at_body_size = n - header, force_extended_size = False, at_position = position\<rparr>
                       t (n - header) (d1\<lparr>is_topmost_atom := False\<rparr>) s1 of
                  None \<Rightarrow> None
                | Some (Inl e, _, d2) \<Rightarrow> Some (Inl e, s, d2\<lparr>is_topmost_atom := is_topmost_atom d\<rparr>)
                | Some (Inr a, s2, d2) \<Rightarrow>
                    (let decoded = length s1 - length s2;
                         a' = (if header = 16 then set_force_extended a else a);
                         d3 = d2\<lparr>is_topmost_atom := is_topmost_atom d\<rparr>;
                         d4 = (if is_topmost_atom d then d3\<lparr>stream_position := stream_position d3 + header + decoded\<rparr> else d3)
                     in if t \<noteq> ATOM_MDAT \<and> n \<noteq> header + decoded then None
                        else accept_atom header s2 a' d4)))"

fun ReadAtom_fuel :: "nat \<Rightarrow> atom_reader" where
  "ReadAtom_fuel 0 d s = None"
| "ReadAtom_fuel (Suc k) d s = ReadAtom_step (ReadAtom_fuel k) d s"

definition ReadAtom :: atom_reader where
  "ReadAtom d s = ReadAtom_fuel (Suc (length s)) d s"

section \<open>Reading frames\<close>

text \<open>
  The frame that \<^verbatim>\<open>IOReadFrame\<close> reads next: frames that do not lie between the current offset
  and the end of the data are skipped, and bytes that belong to no frame make a raw frame.
\<close>

datatype frame_choice = NoMoreFrames | ReadThis frame_header bool

definition raw_frame :: "int \<Rightarrow> int \<Rightarrow> int \<Rightarrow> frame_header" where
  "raw_frame offset n ts = \<lparr>fh_offset = offset, fh_size = n, decoding_timestamp = ts, composition_offset_ms = 0,
     fh_duration = 0, fh_sample_index = 0, fh_type = RAW_FRAME, fh_is_keyframe = False\<rparr>"

definition prev_timestamp :: "decoder \<Rightarrow> int" where
  "prev_timestamp d = (case mdat_prev_frame d of None \<Rightarrow> 0 | Some f \<Rightarrow> decoding_timestamp f)"

fun choose_frame :: "decoder \<Rightarrow> frame_header list \<Rightarrow> nat \<Rightarrow> (frame_choice \<times> nat) option" where
  "choose_frame d [] next_i =
     (if mdat_offset d \<ge> mdat_end d then
        if mdat_offset d = mdat_end d then Some (NoMoreFrames, next_i) else None
      else Some (ReadThis (raw_frame (mdat_offset d) (mdat_end d - mdat_offset d) (prev_timestamp d)) False, next_i))"
| "choose_frame d (f # fs) next_i =
     (if fh_offset f < mdat_begin d then choose_frame d fs (next_i + 1)
      else if fh_offset f \<ge> mdat_end d then choose_frame d fs (next_i + 1)
      else if fh_offset f < mdat_offset d then
        (case mdat_prev_frame d of None \<Rightarrow> None | Some _ \<Rightarrow> choose_frame d fs (next_i + 1))
      else if mdat_offset d < fh_offset f then
        Some (ReadThis (raw_frame (mdat_offset d) (min (fh_offset f) (mdat_end d) - mdat_offset d)
          (prev_timestamp d)) False, next_i)
      else if fh_offset f + fh_size f > mdat_end d then
        Some (ReadThis (f\<lparr>fh_offset := mdat_offset d, fh_size := mdat_end d - mdat_offset d,
          fh_type := RAW_FRAME, fh_is_keyframe := False\<rparr>) True, next_i)
      else Some (ReadThis f True, next_i))"

text \<open>The result of a reader of frames: \<open>Inr None\<close> is a success without a frame.\<close>

type_synonym frame_decoding = "((decode_failure + (frame_header \<times> bytes) option) \<times> bytes \<times> decoder) option"

definition IOReadFrame :: "decoder \<Rightarrow> bytes \<Rightarrow> frame_decoding" where
  "IOReadFrame d s =
     (if mdat_atom d = None \<or> mdat_offset d < mdat_begin d \<or> mdat_end d < mdat_offset d then None
      else if (case mdat_prev_frame d of None \<Rightarrow> False | Some p \<Rightarrow> fh_offset p + fh_size p \<noteq> mdat_offset d) then None
      else if length (mdat_frames d) < mdat_next d then None
      else case choose_frame d (drop (mdat_next d) (mdat_frames d)) (mdat_next d) of
        None \<Rightarrow> None
      | Some (NoMoreFrames, next_i) \<Rightarrow> Some (Inr None, s, d\<lparr>mdat_next := next_i\<rparr>)
      | Some (ReadThis f advance, next_i) \<Rightarrow>
          (if int (length s) < fh_size f then Some (Inl TAG_DECODE_NO_DATA, s, d\<lparr>mdat_next := next_i\<rparr>)
           else let k = nat (fh_size f)
             in if int k \<noteq> fh_size f then None
                else Some (Inr (Some (f, take k s)), drop k s,
                  d\<lparr>mdat_offset := mdat_offset d + int k, stream_position := stream_position d + k,
                    mdat_prev_frame := Some f, mdat_next := (if advance then next_i + 1 else next_i)\<rparr>)))"

definition ReadFrame :: "decoder \<Rightarrow> bytes \<Rightarrow> frame_decoding" where
  "ReadFrame d s =
     (if mdat_split_raw_frames d then
        let n = min (mdat_end d - mdat_offset d) 10000
        in if n = 0 then Some (Inr None, s, ClearFrames d)
           else if int (length s) < n then Some (Inl TAG_DECODE_NO_DATA, s, d)
           else Some (Inr (Some (raw_frame (mdat_offset d - mdat_begin d) n 0, take (nat n) s)), drop (nat n) s,
             d\<lparr>mdat_offset := mdat_offset d + n, stream_position := stream_position d + nat n\<rparr>)
      else case IOReadFrame d s of
        Some (Inr None, s1, d1) \<Rightarrow> Some (Inr None, s1, ClearFrames d1)
      | r \<Rightarrow> r)"

section \<open>Reading tags\<close>

datatype f4v_tag = AtomTag f4v_atom | FrameTag frame_header bytes

definition read_atom_tag :: "decoder \<Rightarrow> bytes \<Rightarrow> f4v_tag decoding" where
  "read_atom_tag d s = (case ReadAtom d s of
     None \<Rightarrow> None
   | Some (Inl e, s1, d1) \<Rightarrow> Some (Inl e, s1, d1)
   | Some (Inr a, s1, d1) \<Rightarrow> Some (Inr (AtomTag a), s1, d1))"

definition ReadTag :: "decoder \<Rightarrow> bytes \<Rightarrow> f4v_tag decoding" where
  "ReadTag d s =
     (if mdat_atom d \<noteq> None then
        case ReadFrame d s of
          None \<Rightarrow> None
        | Some (Inl e, s1, d1) \<Rightarrow> Some (Inl e, s1, d1)
        | Some (Inr (Some (f, bs)), s1, d1) \<Rightarrow> Some (Inr (FrameTag f bs), s1, d1)
        | Some (Inr None, s1, d1) \<Rightarrow> read_atom_tag d1 s1
      else read_atom_tag d s)"

section \<open>Seeking\<close>

text \<open>Back to the key frame at or before a frame.\<close>

fun keyframe_before :: "frame_header list \<Rightarrow> nat \<Rightarrow> nat" where
  "keyframe_before fs 0 = 0"
| "keyframe_before fs (Suc i) = (if fh_is_keyframe (fs ! Suc i) then Suc i else keyframe_before fs i)"

text \<open>The frame and the offset in the file, and the decoder; \<open>None\<close> is a failure.\<close>

definition SeekToFrame :: "decoder \<Rightarrow> nat \<Rightarrow> bool \<Rightarrow> (nat \<times> int \<times> decoder) option" where
  "SeekToFrame d desired to_keyframe =
     (if mdat_atom d = None then None
      else if length (mdat_frames d) \<le> desired then None
      else let i = (if to_keyframe then keyframe_before (mdat_frames d) desired else desired);
               offset = fh_offset (mdat_frames d ! i)
           in Some (i, offset, d\<lparr>mdat_next := i, mdat_offset := offset, mdat_prev_frame := None\<rparr>))"

text \<open>
  The number of frames before the first one after a time.  The outer \<open>None\<close> of \<open>SeekToTime\<close>
  is a failure; without frames the start is reached and the results are not set.
\<close>

definition SeekToTime :: "decoder \<Rightarrow> int \<Rightarrow> bool \<Rightarrow> (nat \<times> int \<times> decoder) option option" where
  "SeekToTime d time to_keyframe =
     (if mdat_frames d = [] then if time = 0 then Some None else None
      else let k = length (takeWhile (\<lambda>f. decoding_timestamp f \<le> time) (mdat_frames d))
           in map_option Some (SeekToFrame d (if 0 < k then k - 1 else k) to_keyframe))"

text \<open>The cue points: the time and the place of every key frame.\<close>

definition GenerateCuePointTable :: "decoder \<Rightarrow> (int \<times> int) list option" where
  "GenerateCuePointTable d = (case moov_atom d of
     None \<Rightarrow> None
   | Some _ \<Rightarrow> Some (map (\<lambda>f. (decoding_timestamp f, fh_offset f)) (filter fh_is_keyframe (mdat_frames d))))"

text \<open>The time scale of a track, 1 when it is not known; \<open>None\<close> is the \<^verbatim>\<open>CHECK\<close> for a movie.\<close>

definition decoder_timescale :: "bool \<Rightarrow> decoder \<Rightarrow> nat option" where
  "decoder_timescale audio d = (case moov_atom d of
     None \<Rightarrow> None
   | Some moov \<Rightarrow> Some (case (do {
         trak \<leftarrow> moov_trak audio moov;
         mdia \<leftarrow> last_subatom ATOM_MDIA trak;
         Option.bind (last_subatom ATOM_MDHD mdia) versioned_of }) of
       Some (MdhdAtom h) \<Rightarrow> unat (mdhd_time_scale h)
     | _ \<Rightarrow> 1))"

section \<open>Writing tags\<close>

text \<open>\<^verbatim>\<open>Encoder::WriteTag\<close>: an atom, or the data of a frame.\<close>

definition WriteTag :: "f4v_tag \<Rightarrow> bytes option" where
  "WriteTag t = (case t of AtomTag a \<Rightarrow> atom_Encode a | FrameTag _ bs \<Rightarrow> Some bs)"

end
