(* ===== verification/F4vRoundtrip.thy ===== *)
theory F4vRoundtrip
  imports F4vAtomLaws F4vDecoder
begin

text \<open>
  An atom whose sizes are up to date is written without an abort, as many bytes as it measures,
  and the decoder reads it back.
\<close>

section \<open>Good atoms\<close>

text \<open>\<open>good_tree\<close>: every body can be read back; a raw audio body stands alone.\<close>

fun good_tree :: "f4v_atom \<Rightarrow> bool" where
  "good_tree (LeafAtom i b) = good_leaf b"
| "good_tree (ContainerAtom i t subs) = (t \<in> set container_types \<and> (\<forall>a \<in> set subs. good_tree a))"
| "good_tree (ContainerVersionedAtom i v fl d subs) = (length fl = 3 \<and> good_data d
     \<and> (case d of Mp4aData a \<Rightarrow> mp4a_raw_data a \<noteq> [] \<longrightarrow> subs = [] | _ \<Rightarrow> True) \<and> (\<forall>a \<in> set subs. good_tree a))"

text \<open>The sizes are those of the bodies.\<close>

fun sizes_ok :: "f4v_atom \<Rightarrow> bool" where
  "sizes_ok (LeafAtom i b) = (at_body_size i = leaf_Measure b)"
| "sizes_ok (ContainerAtom i t subs) =
     (at_body_size i = MeasureBodySize (ContainerAtom i t subs) \<and> (\<forall>a \<in> set subs. sizes_ok a))"
| "sizes_ok (ContainerVersionedAtom i v fl d subs) =
     (at_body_size i = MeasureBodySize (ContainerVersionedAtom i v fl d subs) \<and> (\<forall>a \<in> set subs. sizes_ok a))"

lemma sizes_ok_info: "sizes_ok a \<Longrightarrow> at_body_size (at_info a) = MeasureBodySize a"
  by (cases a) auto

lemma sizes_ok_size: "sizes_ok a \<Longrightarrow> at_size (at_info a) = MeasureSize a"
  by (simp add: at_size_def MeasureSize_def is_extended_size_def sizes_ok_info)

lemma MeasureSize_eq:
  "(let m = MeasureBodySize a in HeaderSize (force_extended_size (at_info a) \<or> IsExtendedSize m) + m) = MeasureSize a"
  by (simp add: MeasureSize_def Let_def)

lemma MeasureBodySize_container [simp]:
  "MeasureBodySize (ContainerAtom i t subs) = sum_list (map MeasureSize subs)"
  "MeasureBodySize (ContainerVersionedAtom i v fl d subs) = 4 + (data_Measure d + sum_list (map MeasureSize subs))"
  by (simp_all only: MeasureBodySize.simps MeasureSize_eq)

declare MeasureBodySize.simps(2,3) [simp del]

lemma atom_UpdateSize_force [simp]: "force_extended_size (at_info (atom_UpdateSize a)) = force_extended_size (at_info a)"
  by (cases a) (auto simp: Let_def)

lemma atom_UpdateSize_measure: "MeasureBodySize (atom_UpdateSize a) = MeasureBodySize a"
proof (induction a)
  case (ContainerAtom i t subs)
  then have "map (MeasureSize \<circ> atom_UpdateSize) subs = map MeasureSize subs" by (auto simp: MeasureSize_def)
  then show ?case by (simp only: atom_UpdateSize.simps Let_def MeasureBodySize_container map_map)
next
  case (ContainerVersionedAtom i v fl d subs)
  then have "map (MeasureSize \<circ> atom_UpdateSize) subs = map MeasureSize subs" by (auto simp: MeasureSize_def)
  then show ?case by (simp only: atom_UpdateSize.simps Let_def MeasureBodySize_container map_map)
qed simp

lemma atom_UpdateSize_sizes_ok: "sizes_ok (atom_UpdateSize a)"
  by (induction a) (auto simp: Let_def)

lemma atom_UpdateSize_good_tree: "good_tree (atom_UpdateSize a) = good_tree a"
  by (induction a) (auto simp: Let_def split: container_data.splits)

section \<open>Writing\<close>

lemma length_encode_header: "length (encode_header i t) = HeaderSize (is_extended_size i)"
  by (simp add: encode_header_def HeaderSize_def)

lemma those_Some: "those xs = Some ys \<longleftrightarrow> xs = map Some ys"
  by (induction xs arbitrary: ys) (auto split: option.splits simp: map_eq_Cons_conv Cons_eq_map_conv)

lemma atom_Encode_good:
  assumes "good_tree a" "sizes_ok a"
  shows "\<exists>bs. atom_Encode a = Some bs \<and> length bs = MeasureSize a"
  using assms
proof (induction a)
  case (LeafAtom i b)
  obtain body where body: "leaf_Encode b = Some body" "length body = leaf_Measure b"
    using LeafAtom.prems leaf_roundtrip[of b] by auto
  then have "finish_atom (LeafAtom i b) body
      = Some (encode_header i (leaf_header_type b) @ body)" "at_size i = MeasureSize (LeafAtom i b)"
    using LeafAtom.prems sizes_ok_size[of "LeafAtom i b"] by (auto simp: finish_atom_def)
  then show ?case using body LeafAtom.prems
    by (simp add: length_encode_header at_size_def)
next
  case (ContainerAtom i t subs)
  have "\<forall>a \<in> set subs. \<exists>bs. atom_Encode a = Some bs \<and> length bs = MeasureSize a"
    using ContainerAtom by auto
  then obtain e where e: "\<forall>a \<in> set subs. atom_Encode a = Some (e a) \<and> length (e a) = MeasureSize a" by metis
  then have "those (map atom_Encode subs) = Some (map e subs)" by (simp add: those_Some)
  moreover have "length (concat (map e subs)) = sum_list (map MeasureSize subs)"
    using e by (simp add: length_concat comp_def cong: map_cong)
  ultimately show ?case using ContainerAtom.prems sizes_ok_size[of "ContainerAtom i t subs"]
    by (simp add: finish_atom_def length_encode_header at_size_def)
next
  case (ContainerVersionedAtom i v fl d subs)
  have "\<forall>a \<in> set subs. \<exists>bs. atom_Encode a = Some bs \<and> length bs = MeasureSize a"
    using ContainerVersionedAtom by auto
  then obtain e where e: "\<forall>a \<in> set subs. atom_Encode a = Some (e a) \<and> length (e a) = MeasureSize a" by metis
  then have "those (map atom_Encode subs) = Some (map e subs)" by (simp add: those_Some)
  moreover have "length (concat (map e subs)) = sum_list (map MeasureSize subs)"
    using e by (simp add: length_concat comp_def cong: map_cong)
  ultimately show ?case
    using ContainerVersionedAtom.prems sizes_ok_size[of "ContainerVersionedAtom i v fl d subs"]
    by (simp add: finish_atom_def length_encode_header at_size_def length_data_Encode)
qed

lemma MeasureSize_ge_8: "8 \<le> MeasureSize a"
  by (simp add: MeasureSize_def HeaderSize_def)

section \<open>Reading headers\<close>

lemma read_atom_header_encode:
  assumes "at_size i < 2 ^ 31" "at_body_size i \<le> length s"
  shows "read_atom_header (encode_header i t @ s) = Some (Inr (t, HeaderSize (is_extended_size i), at_size i), s)"
proof -
  have u32: "unat (word_of_nat (at_size i) :: 32 word) = at_size i"
    by (rule unat_word_of_nat) (use assms in simp)
  have u64: "unat (word_of_nat (at_size i) :: 64 word) = at_size i"
    by (rule unat_word_of_nat) (use assms in simp)
  have ge: "HeaderSize (is_extended_size i) \<le> at_size i" by (simp add: at_size_def)
  have not1: "(word_of_nat (at_size i) :: 32 word) \<noteq> 1" if "\<not> is_extended_size i"
  proof
    assume "(word_of_nat (at_size i) :: 32 word) = 1"
    then have "at_size i = 1" using u32 by (metis unat_1)
    then show False using that by (simp add: at_size_def HeaderSize_def)
  qed
  show ?thesis
  proof (cases "is_extended_size i")
    case True
    then show ?thesis using ge u64 assms(2)
      by (simp add: read_atom_header_def encode_header_def codec_simps rd_bind_def rd_ok_def rd_num_def Let_def
          HeaderSize_def at_size_def)
  next
    case False
    then show ?thesis using ge u32 assms(2) not1
      by (simp add: read_atom_header_def encode_header_def codec_simps rd_bind_def rd_ok_def rd_num_def Let_def
          HeaderSize_def at_size_def)
  qed
qed

section \<open>Reading back\<close>

text \<open>
  What is the same in an atom that is read back: everything but the position, and the extended
  header is forced exactly when it was written.
\<close>

definition norm_info :: "atom_info \<Rightarrow> atom_info" where
  "norm_info i = \<lparr>at_body_size = at_body_size i, force_extended_size = is_extended_size i, at_position = 0\<rparr>"

fun normal :: "f4v_atom \<Rightarrow> f4v_atom" where
  "normal (LeafAtom i b) = LeafAtom (norm_info i) b"
| "normal (ContainerAtom i t subs) = ContainerAtom (norm_info i) t (map normal subs)"
| "normal (ContainerVersionedAtom i v fl d subs) = ContainerVersionedAtom (norm_info i) v fl d (map normal subs)"

fun set_info :: "atom_info \<Rightarrow> f4v_atom \<Rightarrow> f4v_atom" where
  "set_info i (LeafAtom _ b) = LeafAtom i b"
| "set_info i (ContainerAtom _ t subs) = ContainerAtom i t subs"
| "set_info i (ContainerVersionedAtom _ v fl d subs) = ContainerVersionedAtom i v fl d subs"

text \<open>No atom in the tree is a data atom, and no atom below its root a movie.\<close>

fun no_media :: "f4v_atom \<Rightarrow> bool" where
  "no_media (LeafAtom i b) = (leaf_header_type b \<noteq> ATOM_MDAT)"
| "no_media (ContainerAtom i t subs) = (t \<noteq> ATOM_MDAT \<and> (\<forall>a \<in> set subs. at_type a \<noteq> ATOM_MOOV \<and> no_media a))"
| "no_media (ContainerVersionedAtom i v fl d subs) = (\<forall>a \<in> set subs. at_type a \<noteq> ATOM_MOOV \<and> no_media a)"

lemma set_force_info: "set_force_extended a = set_info ((at_info a)\<lparr>force_extended_size := True\<rparr>) a"
  by (cases a) auto

lemma normal_set_info: "normal a = normal b \<Longrightarrow> norm_info i = norm_info j \<Longrightarrow> normal (set_info i a) = normal (set_info j b)"
  by (cases a; cases b) auto

lemma set_info_self [simp]: "set_info (at_info a) a = a" "at_info (set_info i a) = i" "at_type (set_info i a) = at_type a"
  by (cases a; simp)+

lemma normal_type: "normal a = normal b \<Longrightarrow> at_type a = at_type b"
  by (cases a; cases b) auto

lemma no_media_type: "no_media a \<Longrightarrow> at_header_type a \<noteq> ATOM_MDAT" "no_media a \<Longrightarrow> at_type a \<noteq> ATOM_MDAT"
proof -
  show "no_media a \<Longrightarrow> at_header_type a \<noteq> ATOM_MDAT"
    by (cases a) (auto simp: atom_codes elim: data_atom_type.elims)
  show "no_media a \<Longrightarrow> at_type a \<noteq> ATOM_MDAT"
  proof (cases a)
    case (LeafAtom i b)
    then show "no_media a \<Longrightarrow> at_type a \<noteq> ATOM_MDAT" by (cases b) (auto simp: atom_codes)
  next
    case (ContainerVersionedAtom i v fl d subs)
    then show "no_media a \<Longrightarrow> at_type a \<noteq> ATOM_MDAT" by (cases d) (auto simp: atom_codes)
  qed auto
qed

text \<open>The step of the reader, given the reader of the body.\<close>

definition begin_atom :: "nat \<Rightarrow> decoder \<Rightarrow> decoder" where
  "begin_atom n d = (if is_topmost_atom d then d\<lparr>stream_size_on_topmost := n\<rparr> else d)"

definition end_atom :: "nat \<Rightarrow> nat \<Rightarrow> decoder \<Rightarrow> decoder" where
  "end_atom n k d = (if is_topmost_atom d
     then d\<lparr>stream_size_on_topmost := n, stream_position := stream_position d + k\<rparr> else d)"

definition read_info :: "nat \<Rightarrow> nat \<Rightarrow> decoder \<Rightarrow> atom_info" where
  "read_info n k d = \<lparr>at_body_size = k, force_extended_size = False,
     at_position = (if is_topmost_atom d then stream_position d
       else stream_position d + (stream_size_on_topmost d - n))\<rparr>"

lemma ReadAtom_step_encoded:
  assumes "mdat_atom d = None" "at_size i < 2 ^ 31" "at_body_size i = length body" "t \<noteq> ATOM_MDAT"
    and n: "n = length (encode_header i t @ body @ s)"
    and body: "Atom_Decode rd (read_info n (length body) d) t (length body) ((begin_atom n d)\<lparr>is_topmost_atom := False\<rparr>)
      (body @ s) = Some (Inr a, s, (begin_atom n d)\<lparr>is_topmost_atom := False\<rparr>)"
  shows "ReadAtom_step rd d (encode_header i t @ body @ s)
    = accept_atom (HeaderSize (is_extended_size i)) s (if is_extended_size i then set_force_extended a else a)
        (end_atom n (at_size i) d)"
proof -
  have len: "8 \<le> length (encode_header i t)" by (simp add: length_encode_header HeaderSize_def)
  have head: "read_atom_header (encode_header i t @ body @ s)
      = Some (Inr (t, HeaderSize (is_extended_size i), at_size i), body @ s)"
    using assms(2,3) by (intro read_atom_header_encode) auto
  have ext: "HeaderSize (is_extended_size i) = 16 \<longleftrightarrow> is_extended_size i" by (simp add: HeaderSize_def)
  have sz: "at_size i - HeaderSize (is_extended_size i) = length body"
      "at_size i = HeaderSize (is_extended_size i) + length body"
    using assms(3) by (simp_all add: at_size_def)
  have rest: "(begin_atom n d)\<lparr>is_topmost_atom := False, is_topmost_atom := is_topmost_atom d\<rparr> = begin_atom n d"
    by (cases d) (simp add: begin_atom_def)
  have n': "length (encode_header i t) + (length body + length s) = n" by (simp add: n)
  have long: "\<not> n < 8" using len n' by simp
  show ?thesis
    using assms(1,4) head body rest
    by (cases d; cases "is_topmost_atom d")
      (simp_all add: ReadAtom_step_def Let_def n' long sz ext begin_atom_def end_atom_def read_info_def add.assoc)
qed

text \<open>The loops over subatoms, when the reader reads each of them back.\<close>

definition atom_reads_back :: "atom_reader \<Rightarrow> decoder \<Rightarrow> nat \<Rightarrow> f4v_atom \<Rightarrow> bytes \<Rightarrow> bool" where
  "atom_reads_back rd d K a bs \<longleftrightarrow> 8 \<le> length bs \<and> (\<forall>rest. length (bs @ rest) \<le> K \<longrightarrow>
     (\<exists>a'. rd d (bs @ rest) = Some (Inr a', rest, d) \<and> normal a' = normal a))"

lemma container_loop_reads_back:
  assumes "mdat_atom d = None" "\<forall>a \<in> set subs. atom_reads_back rd d K a (e a)"
    "length (concat (map e subs) @ s) \<le> K" "length subs < k" "n = read + length (concat (map e subs))"
  shows "\<exists>as. container_loop rd k n read d (concat (map e subs) @ s) = Some (Inr as, s, d) \<and> map normal as = map normal subs"
  using assms(2-)
proof (induction subs arbitrary: k read)
  case Nil
  then show ?case by (cases k) auto
next
  case (Cons a subs)
  then obtain k' where k: "k = Suc k'" by (cases k) auto
  have "atom_reads_back rd d K a (e a)" "length (e a @ concat (map e subs) @ s) \<le> K" using Cons.prems(1,2) by simp_all
  then obtain a' where a': "rd d (e a @ concat (map e subs) @ s) = Some (Inr a', concat (map e subs) @ s, d)"
      "normal a' = normal a" and pos: "8 \<le> length (e a)"
    unfolding atom_reads_back_def by blast
  obtain as where "container_loop rd k' n (read + length (e a)) d (concat (map e subs) @ s) = Some (Inr as, s, d)"
      "map normal as = map normal subs"
    using Cons.IH[of k' "read + length (e a)"] Cons.prems k by auto
  moreover have "e a \<noteq> []" using pos by auto
  ultimately show ?case using a' assms(1) Cons.prems(4) k
    by (simp add: TryReadAtom_def)
qed

lemma versioned_container_loop_reads_back:
  assumes "mdat_atom d = None" "\<forall>a \<in> set subs. atom_reads_back rd d K a (e a)"
    "length (concat (map e subs)) \<le> K" "length subs < k"
  shows "\<exists>as. versioned_container_loop rd k d (concat (map e subs)) = Some (Inr as, d) \<and> map normal as = map normal subs"
  using assms(2-)
proof (induction subs arbitrary: k)
  case Nil
  then show ?case by (cases k) auto
next
  case (Cons a subs)
  then obtain k' where k: "k = Suc k'" by (cases k) auto
  have "atom_reads_back rd d K a (e a)" "length (e a @ concat (map e subs)) \<le> K" using Cons.prems(1,2) by simp_all
  then obtain a' where a': "rd d (e a @ concat (map e subs)) = Some (Inr a', concat (map e subs), d)"
      "normal a' = normal a" and pos: "8 \<le> length (e a)"
    unfolding atom_reads_back_def by blast
  obtain as where "versioned_container_loop rd k' d (concat (map e subs)) = Some (Inr as, d)"
      "map normal as = map normal subs"
    using Cons.IH[of k'] Cons.prems k by auto
  then show ?case using a' assms(1) pos k
    by (auto simp: TryReadAtom_def)
qed

lemma container_not_leaf:
  "at_header_type (LeafAtom i b) \<notin> set container_types \<and> at_header_type (LeafAtom i b) \<notin> set container_versioned_types"
  if "good_leaf b"
proof (cases b)
  case (RawAtom t bs)
  then show ?thesis using that by (simp add: known_types_def)
next
  case (AutoAtom t bs)
  then show ?thesis using that by (auto simp: atom_codes container_types_def container_versioned_types_def)
next
  case (VersionedAtom v fl c)
  then show ?thesis by (cases c) (simp_all add: atom_codes container_types_def container_versioned_types_def)
qed (simp_all add: atom_codes container_types_def container_versioned_types_def)

lemma data_atom_type_versioned: "data_atom_type d \<in> set container_versioned_types \<and> data_atom_type d \<notin> set container_types"
  by (cases d) (simp_all add: atom_codes container_types_def container_versioned_types_def)

text \<open>What is read differs in its position only, and in whether its header is forced.\<close>

lemma normal_read_info:
  assumes "normal a1 = normal (set_info (read_info n (length body) d) a)" "at_info a1 = read_info n (length body) d"
    "length body = at_body_size (at_info a)"
  shows "normal (if is_extended_size (at_info a) then set_force_extended a1 else a1) = normal a"
proof (cases "is_extended_size (at_info a)")
  case True
  have "normal (set_info ((at_info a1)\<lparr>force_extended_size := True\<rparr>) a1)
      = normal (set_info (at_info a) (set_info (read_info n (length body) d) a))"
    by (rule normal_set_info[OF assms(1)])
      (use True assms(2,3) in \<open>simp add: norm_info_def read_info_def is_extended_size_def\<close>)
  also have "set_info (at_info a) (set_info (read_info n (length body) d) a) = a" by (cases a) auto
  finally show ?thesis using True by (simp add: set_force_info)
next
  case False
  have "normal (set_info (read_info n (length body) d) a) = normal (set_info (at_info a) a)"
    by (rule normal_set_info[OF refl])
      (use False assms(3) in \<open>simp add: norm_info_def read_info_def is_extended_size_def\<close>)
  then show ?thesis using False assms(1) by simp
qed

text \<open>A subatom is read back when its body is.\<close>

lemma ReadAtom_inner:
  assumes "sizes_ok a" "no_media a" "at_type a \<noteq> ATOM_MOOV" "MeasureSize a < 2 ^ 31"
    "atom_Encode a = Some (encode_header (at_info a) (at_header_type a) @ body)"
    "length body = at_body_size (at_info a)" "\<not> is_topmost_atom d" "mdat_atom d = None"
    and body: "\<And>k i s. length (body @ s) \<le> k \<Longrightarrow> at_body_size i = length body \<Longrightarrow>
      \<exists>a'. Atom_Decode (ReadAtom_fuel k) i (at_header_type a) (length body) d (body @ s) = Some (Inr a', s, d)
        \<and> at_info a' = i \<and> normal a' = normal (set_info i a)"
  shows "atom_reads_back (ReadAtom_fuel k) d k a (encode_header (at_info a) (at_header_type a) @ body)"
  unfolding atom_reads_back_def
proof (intro conjI allI impI)
  show "8 \<le> length (encode_header (at_info a) (at_header_type a) @ body)"
    by (simp add: length_encode_header HeaderSize_def)
  fix rest assume fuel: "length ((encode_header (at_info a) (at_header_type a) @ body) @ rest) \<le> k"
  then obtain k' where k: "k = Suc k'" by (cases k) (auto simp: length_encode_header HeaderSize_def split: if_splits)
  let ?i = "at_info a" and ?t = "at_header_type a"
  let ?n = "length (encode_header ?i ?t @ body @ rest)"
  have quiet: "(begin_atom ?n d)\<lparr>is_topmost_atom := False\<rparr> = d" using assms(7) by (cases d) (simp add: begin_atom_def)
  have "length (body @ rest) \<le> k'"
    using fuel k by (simp add: length_encode_header HeaderSize_def split: if_splits)
  then obtain a1 where a1: "Atom_Decode (ReadAtom_fuel k') (read_info ?n (length body) d) ?t (length body) d (body @ rest)
      = Some (Inr a1, rest, d)" "at_info a1 = read_info ?n (length body) d"
      "normal a1 = normal (set_info (read_info ?n (length body) d) a)"
    using body[of rest k' "read_info ?n (length body) d"] by (auto simp: read_info_def)
  let ?a = "if is_extended_size ?i then set_force_extended a1 else a1"
  have "ReadAtom_step (ReadAtom_fuel k') d (encode_header ?i ?t @ body @ rest)
      = accept_atom (HeaderSize (is_extended_size ?i)) rest ?a (end_atom ?n (at_size ?i) d)"
    by (rule ReadAtom_step_encoded)
      (use assms(1,2,4,6,8) a1(1) quiet no_media_type(1)[of a] sizes_ok_size[of a] in auto)
  moreover have type: "at_type ?a = at_type a"
    using normal_type[OF a1(3)] by (auto simp: set_force_info)
  ultimately have "ReadAtom_fuel k d ((encode_header ?i ?t @ body) @ rest) = Some (Inr ?a, rest, d)"
    using k assms(3,7) no_media_type(2)[OF assms(2)] by (auto simp: accept_atom_def end_atom_def)
  moreover have "normal ?a = normal a" by (rule normal_read_info[OF a1(3,2) assms(6)])
  ultimately show "\<exists>a'. ReadAtom_fuel k d ((encode_header ?i ?t @ body) @ rest) = Some (Inr a', rest, d)
      \<and> normal a' = normal a" by blast
qed

lemma Encode_parts:
  assumes "good_tree a" "sizes_ok a"
  obtains body where "atom_Encode a = Some (encode_header (at_info a) (at_header_type a) @ body)"
    "length body = at_body_size (at_info a)"
proof -
  obtain bs where bs: "atom_Encode a = Some bs" "length bs = MeasureSize a" using atom_Encode_good[OF assms] by blast
  then obtain body where "bs = encode_header (at_info a) (at_header_type a) @ body"
    by (cases a) (auto simp: finish_atom_def split: bind_splits if_splits)
  with bs show ?thesis
    using that[of body] sizes_ok_size[OF assms(2)] by (simp add: length_encode_header at_size_def)
qed

lemma MeasureSize_sub: "a \<in> set subs \<Longrightarrow> MeasureSize a \<le> sum_list (map MeasureSize subs)"
  by (simp add: member_le_sum_list)

lemma bodies_of:
  assumes "\<forall>a \<in> set subs. good_tree a \<and> sizes_ok a"
  obtains body where "\<forall>a \<in> set subs. atom_Encode a = Some (encode_header (at_info a) (at_header_type a) @ body a)
    \<and> length (body a) = at_body_size (at_info a)"
proof -
  have "\<forall>a \<in> set subs. \<exists>b. atom_Encode a = Some (encode_header (at_info a) (at_header_type a) @ b)
      \<and> length b = at_body_size (at_info a)"
    using assms Encode_parts by metis
  then show ?thesis using that by metis
qed

lemma Atom_Decode_encoded:
  assumes "good_tree a" "sizes_ok a" "no_media a" "MeasureSize a < 2 ^ 31"
    "atom_Encode a = Some (encode_header (at_info a) (at_header_type a) @ body)"
    "\<not> is_topmost_atom d" "mdat_atom d = None" "length (body @ s) \<le> k" "at_body_size i = length body"
  shows "\<exists>a'. Atom_Decode (ReadAtom_fuel k) i (at_header_type a) (length body) d (body @ s) = Some (Inr a', s, d)
    \<and> at_info a' = i \<and> normal a' = normal (set_info i a)"
  using assms
proof (induction a arbitrary: body k i s)
  case (LeafAtom j b)
  obtain bs where bs: "leaf_Encode b = Some bs" "length bs = leaf_Measure b"
      "\<And>s. leaf_Decode (leaf_header_type b) (leaf_Measure b) (bs @ s) = Some (Inr b, s)"
    using LeafAtom.prems(1) leaf_roundtrip[of b] by auto
  then have "body = bs" using LeafAtom.prems(5) by (auto simp: finish_atom_def split: if_splits)
  then show ?case using bs container_not_leaf[of b j] LeafAtom.prems(1)
    by (simp add: Atom_Decode_def Atom_DecodeBody_def)
next
  case (ContainerAtom j t subs)
  have subs: "\<forall>a \<in> set subs. good_tree a \<and> sizes_ok a" using ContainerAtom.prems(1,2) by simp
  then obtain b where b: "\<forall>a \<in> set subs. atom_Encode a = Some (encode_header (at_info a) (at_header_type a) @ b a)
      \<and> length (b a) = at_body_size (at_info a)"
    using bodies_of by blast
  define e where "e = (\<lambda>a. encode_header (at_info a) (at_header_type a) @ b a)"
  have "those (map atom_Encode subs) = Some (map e subs)" using b by (simp add: those_Some e_def)
  then have body: "body = concat (map e subs)"
    using ContainerAtom.prems(5) by (auto simp: finish_atom_def split: if_splits)
  have small: "MeasureSize a < 2 ^ 31" if "a \<in> set subs" for a
    using ContainerAtom.prems(4) MeasureSize_sub[OF that] by (simp add: MeasureSize_def[of "ContainerAtom _ _ _"])
  have rb: "\<forall>a \<in> set subs. atom_reads_back (ReadAtom_fuel k) d k a (e a)"
    unfolding e_def
  proof (intro ballI ReadAtom_inner)
    fix a :: f4v_atom and k' :: nat and i' :: atom_info and s' :: bytes
    assume a: "a \<in> set subs" and "length (b a @ s') \<le> k'" "at_body_size i' = length (b a)"
    then show "\<exists>a'. Atom_Decode (ReadAtom_fuel k') i' (at_header_type a) (length (b a)) d (b a @ s')
        = Some (Inr a', s', d) \<and> at_info a' = i' \<and> normal a' = normal (set_info i' a)"
      using ContainerAtom.IH[OF a, of "b a" s' k' i'] subs b ContainerAtom.prems(3,6,7) small[OF a] by auto
  qed (use subs b ContainerAtom.prems(3,6,7) small in auto)
  have "length subs \<le> length body"
  proof -
    have "length subs = sum_list (map (\<lambda>a. 1) subs)" by (simp add: sum_list_triv)
    also have "\<dots> \<le> sum_list (map (\<lambda>a. length (e a)) subs)"
      using rb by (intro sum_list_mono) (auto simp: atom_reads_back_def)
    finally show ?thesis by (simp add: body length_concat comp_def)
  qed
  then obtain as where loop: "container_loop (ReadAtom_fuel k) (Suc (length (body @ s))) (length body) 0 d
      (concat (map e subs) @ s) = Some (Inr as, s, d)" "map normal as = map normal subs"
    using container_loop_reads_back[OF ContainerAtom.prems(7) rb, of s "Suc (length (body @ s))" "length body" 0]
      ContainerAtom.prems(8) by (auto simp: body simp del: container_loop.simps)
  then have "container_DecodeBody (ReadAtom_fuel k) i t (length body) d (body @ s)
      = Some (Inr (ContainerAtom i t as), s, d)"
    by (simp add: container_DecodeBody_def body del: container_loop.simps)
  then show ?case using ContainerAtom.prems(1) loop(2)
    by (simp add: Atom_Decode_def Atom_DecodeBody_def)
next
  case (ContainerVersionedAtom j v fl x subs)
  have subs: "\<forall>a \<in> set subs. good_tree a \<and> sizes_ok a" using ContainerVersionedAtom.prems(1,2) by simp
  then obtain b where b: "\<forall>a \<in> set subs. atom_Encode a = Some (encode_header (at_info a) (at_header_type a) @ b a)
      \<and> length (b a) = at_body_size (at_info a)"
    using bodies_of by blast
  define e where "e = (\<lambda>a. encode_header (at_info a) (at_header_type a) @ b a)"
  let ?subs = "concat (map e subs)"
  have "those (map atom_Encode subs) = Some (map e subs)" using b by (simp add: those_Some e_def)
  then have body: "body = v # fl @ data_Encode x @ ?subs"
    using ContainerVersionedAtom.prems(5) by (auto simp: finish_atom_def split: if_splits)
  have small: "MeasureSize a < 2 ^ 31" if "a \<in> set subs" for a
    using ContainerVersionedAtom.prems(4) MeasureSize_sub[OF that]
    by (simp add: MeasureSize_def[of "ContainerVersionedAtom _ _ _ _ _"])
  have rb: "\<forall>a \<in> set subs. atom_reads_back (ReadAtom_fuel k) d k a (e a)"
    unfolding e_def
  proof (intro ballI ReadAtom_inner)
    fix a :: f4v_atom and k' :: nat and i' :: atom_info and s' :: bytes
    assume a: "a \<in> set subs" and "length (b a @ s') \<le> k'" "at_body_size i' = length (b a)"
    then show "\<exists>a'. Atom_Decode (ReadAtom_fuel k') i' (at_header_type a) (length (b a)) d (b a @ s')
        = Some (Inr a', s', d) \<and> at_info a' = i' \<and> normal a' = normal (set_info i' a)"
      using ContainerVersionedAtom.IH[OF a, of "b a" s' k' i'] subs b ContainerVersionedAtom.prems(3,6,7) small[OF a]
      by auto
  qed (use subs b ContainerVersionedAtom.prems(3,6,7) small in auto)
  have "length subs \<le> length ?subs"
  proof -
    have "length subs = sum_list (map (\<lambda>a. 1) subs)" by (simp add: sum_list_triv)
    also have "\<dots> \<le> sum_list (map (\<lambda>a. length (e a)) subs)"
      using rb by (intro sum_list_mono) (auto simp: atom_reads_back_def)
    finally show ?thesis by (simp add: length_concat comp_def)
  qed
  moreover have "length ?subs \<le> k" using ContainerVersionedAtom.prems(8) by (simp add: body)
  ultimately have "\<exists>as. versioned_container_loop (ReadAtom_fuel k) (Suc (length ?subs)) d ?subs = Some (Inr as, d)
      \<and> map normal as = map normal subs"
    by (intro versioned_container_loop_reads_back[OF ContainerVersionedAtom.prems(7) rb]) auto
  then obtain as where loop: "versioned_container_loop (ReadAtom_fuel k) (Suc (length ?subs)) d ?subs = Some (Inr as, d)"
      "map normal as = map normal subs"
    by blast
  have fl: "length fl = 3" and x: "good_data x" "length (data_Encode x) = data_Measure x"
    using ContainerVersionedAtom.prems(1) length_data_Encode[of x] by auto
  have "data_Decode (data_atom_type x) (data_Measure x + length ?subs) (data_Encode x @ ?subs @ s) = Some (Inr x, ?subs @ s)"
    by (rule data_roundtrip[OF x(1) refl]) (use ContainerVersionedAtom.prems(1) x in auto)
  then have "versioned_container_body (ReadAtom_fuel k) i (data_atom_type x) v fl (data_Measure x + length ?subs) d
      (data_Encode x @ ?subs @ s) = Some (Inr (ContainerVersionedAtom i v fl x as), s, d)"
    using loop(1) x(2) by (simp add: versioned_container_body_def del: versioned_container_loop.simps)
  then have "Atom_DecodeBody (ReadAtom_fuel k) i (data_atom_type x) (length body) d (body @ s)
      = Some (Inr (ContainerVersionedAtom i v fl x as), s, d)"
    using data_atom_type_versioned[of x] fl x(2)
    by (simp add: Atom_DecodeBody_def versioned_container_DecodeBody_def body)
  then show ?case using loop(2) by (simp add: Atom_Decode_def)
qed

section \<open>A whole atom\<close>

lemma atom_UpdateSize_types [simp]:
  "at_type (atom_UpdateSize a) = at_type a" "at_header_type (atom_UpdateSize a) = at_header_type a"
  by (cases a; simp add: Let_def)+

lemma atom_UpdateSize_no_media: "no_media (atom_UpdateSize a) = no_media a"
  by (induction a) (auto simp: Let_def)

lemma atom_UpdateSize_MeasureSize: "MeasureSize (atom_UpdateSize a) = MeasureSize a"
  by (simp add: MeasureSize_def atom_UpdateSize_measure)

lemma ReadAtom_topmost:
  assumes "good_tree a" "sizes_ok a" "no_media a" "MeasureSize a < 2 ^ 31" "mdat_atom d = None" "is_topmost_atom d"
    "atom_Encode a = Some bs"
  shows "\<exists>a'. normal a' = normal a \<and> at_type a' = at_type a
    \<and> ReadAtom d (bs @ s) = accept_atom (HeaderSize (is_extended_size (at_info a))) s a'
        (end_atom (length (bs @ s)) (length bs) d)"
proof -
  let ?i = "at_info a" and ?t = "at_header_type a"
  obtain body where body: "bs = encode_header ?i ?t @ body" "length body = at_body_size ?i"
    using Encode_parts[OF assms(1,2)] assms(7) by (metis option.inject)
  let ?n = "length (encode_header ?i ?t @ body @ s)" and ?k = "length (bs @ s)"
  let ?d = "(begin_atom ?n d)\<lparr>is_topmost_atom := False\<rparr>" and ?j = "read_info ?n (length body) d"
  have "\<exists>a1. Atom_Decode (ReadAtom_fuel ?k) ?j ?t (length body) ?d (body @ s) = Some (Inr a1, s, ?d)
      \<and> at_info a1 = ?j \<and> normal a1 = normal (set_info ?j a)"
    by (rule Atom_Decode_encoded)
      (use assms(1-5,7) body in \<open>simp_all add: begin_atom_def read_info_def\<close>)
  then obtain a1 where a1: "Atom_Decode (ReadAtom_fuel ?k) ?j ?t (length body) ?d (body @ s) = Some (Inr a1, s, ?d)"
      "at_info a1 = ?j" "normal a1 = normal (set_info ?j a)"
    by blast
  let ?a = "if is_extended_size ?i then set_force_extended a1 else a1"
  have "ReadAtom d (bs @ s) = accept_atom (HeaderSize (is_extended_size ?i)) s ?a (end_atom ?n (at_size ?i) d)"
    unfolding ReadAtom_def ReadAtom_fuel.simps body(1) append_assoc
    by (rule ReadAtom_step_encoded)
      (use assms(2-5) body a1(1) no_media_type(1)[of a] sizes_ok_size[of a] in auto)
  moreover have "end_atom ?n (at_size ?i) d = end_atom (length (bs @ s)) (length bs) d"
    using body by (simp add: end_atom_def at_size_def length_encode_header)
  moreover have "at_type ?a = at_type a" using normal_type[OF a1(3)] by (auto simp: set_force_info)
  moreover have "normal ?a = normal a" by (rule normal_read_info[OF a1(3,2) body(2)])
  ultimately show ?thesis by metis
qed

lemma accept_atom_plain:
  assumes "at_type a \<noteq> ATOM_MDAT" "at_type a = ATOM_MOOV \<Longrightarrow> mdat_split_raw_frames d \<or> mdat_frames d = []"
  shows "\<exists>d'. accept_atom n s a d = Some (Inr a, s, d') \<and> stream_position d' = stream_position d"
  using assms by (cases "at_type a = ATOM_MOOV") (auto simp: accept_atom_def BuildFrames_def split: option.split)

lemma normal_Equals: "normal a = normal b \<Longrightarrow> atom_Equals a b"
proof -
  have "atom_compared (normal a) = atom_compared a" for a by (induction a) auto
  then show "normal a = normal b \<Longrightarrow> atom_Equals a b" unfolding atom_Equals_def by metis
qed

text \<open>What is the same is also written the same.\<close>

lemma norm_info_sizes [simp]:
  "at_body_size (norm_info i) = at_body_size i" "is_extended_size (norm_info i) = is_extended_size i"
  "at_size (norm_info i) = at_size i" "encode_header (norm_info i) t = encode_header i t"
  by (auto simp: norm_info_def is_extended_size_def at_size_def encode_header_def)

lemma normal_at_info: "at_info (normal a) = norm_info (at_info a)" "at_header_type (normal a) = at_header_type a"
    "at_type (normal a) = at_type a"
  by (cases a; simp)+

lemma finish_atom_normal: "finish_atom (normal a) body = finish_atom a body"
  by (simp add: finish_atom_def normal_at_info)

lemma normal_Encode: "normal a = normal b \<Longrightarrow> atom_Encode a = atom_Encode b"
proof -
  have "atom_Encode (normal a) = atom_Encode a" for a
  proof (induction a)
    case (LeafAtom i b)
    then show ?case using finish_atom_normal[of "LeafAtom i b"] by (cases "leaf_Encode b") auto
  next
    case (ContainerAtom i t subs)
    then have *: "map (atom_Encode \<circ> normal) subs = map atom_Encode subs" by simp
    show ?case using finish_atom_normal[of "ContainerAtom i t subs"]
      unfolding normal.simps atom_Encode.simps map_map * by simp
  next
    case (ContainerVersionedAtom i v fl d subs)
    then have *: "map (atom_Encode \<circ> normal) subs = map atom_Encode subs" by simp
    show ?case using finish_atom_normal[of "ContainerVersionedAtom i v fl d subs"]
      unfolding normal.simps atom_Encode.simps map_map * by simp
  qed
  then show "normal a = normal b \<Longrightarrow> atom_Encode a = atom_Encode b" by metis
qed

section \<open>Atoms that are left out\<close>

text \<open>An atom is not written when one of its subatoms is not.\<close>

lemma subatom_not_written:
  assumes "b \<in> set subs" "atom_Encode (atom_UpdateSize b) = None"
  shows "atom_Encode (atom_UpdateSize (ContainerAtom i t subs)) = None"
    "atom_Encode (atom_UpdateSize (ContainerVersionedAtom i v fl x subs)) = None"
proof -
  have "those (map atom_Encode (map atom_UpdateSize subs)) = None"
    using assms by (induction subs) (auto split: option.split)
  then show "atom_Encode (atom_UpdateSize (ContainerAtom i t subs)) = None"
    "atom_Encode (atom_UpdateSize (ContainerVersionedAtom i v fl x subs)) = None"
    by (simp_all add: Let_def)
qed

text \<open>
  An \<^verbatim>\<open>esds\<close> made with its setters, and an \<^verbatim>\<open>avc1\<close> with a long encoder name, fail the
  \<^verbatim>\<open>CHECK\<close> of their size.
\<close>

lemma setter_esds_not_written:
  assumes "esds_raw_data a = []"
  shows "atom_Encode (atom_UpdateSize (LeafAtom i (VersionedAtom v fl (EsdsAtom a)))) = None"
proof (cases "Esds_Encode a")
  case (Some bs)
  then have "length bs \<ge> 4" using assms by (auto simp: Esds_Encode_def split: Option.bind_splits)
  then show ?thesis using Some assms by (simp add: finish_atom_def atom_codes)
qed simp

lemma long_avc1_name_not_written:
  assumes "31 < length (video_encoder_name a)" "length fl = 3"
  shows "atom_Encode (atom_UpdateSize (ContainerVersionedAtom i v fl (Avc1Data a) [])) = None"
  using assms by (simp add: finish_atom_def atom_codes Avc1_Encode_def kAvc1DataSize_def)

text \<open>
  A table with a uniform size and records is written, but not read: the reader expects no
  records.  A handler name that begins with a control byte is read without it.
\<close>

lemma uniform_stsz_not_read:
  assumes "u \<noteq> 0" "rs \<noteq> []"
  shows "\<exists>s'. Stsz_Decode (Stsz_Measure rs) (Stsz_Encode u rs @ s) = Some (Inl TAG_DECODE_ERROR, s')"
  using assms by (cases rs) (auto simp: Stsz_Decode_def Stsz_Encode_def Stsz_Measure_def MultiRecord_Measure_def
      MultiRecord_Encode_def codec_simps)

lemma control_byte_not_read:
  assumes "length (hdlr_reserved a) = 12" "hdlr_name a = b # name" "unat b < 0x20"
  shows "Hdlr_Decode (kHdlrVersionedBodyMinSize + length (hdlr_name a)) (Hdlr_Encode a @ s) = Some (Inr (a\<lparr>hdlr_name := name\<rparr>), s)"
proof -
  have "hdlr_name_reader (length (hdlr_name a)) (hdlr_name a @ s) = Some (Inr name, s)"
    using assms(2,3) by (simp add: hdlr_name_reader_def)
  then show ?thesis using assms(1)
    by (simp add: Hdlr_Decode_def Hdlr_Encode_def kHdlrVersionedBodyMinSize_def codec_simps rd_bind_ok)
qed

section \<open>The property\<close>

text \<open>
  C10.  After \<^verbatim>\<open>UpdateSize\<close> an atom that is \<open>good_tree\<close>, with all its subatoms, is encoded
  without a failed \<^verbatim>\<open>CHECK\<close> as many bytes as \<^verbatim>\<open>MeasureSize\<close> says.  A decoder at the top of
  a file reads exactly these bytes, whatever follows them, as an equal atom with the same sizes,
  from which the encoder makes the same bytes again, and moves its position behind it.
  \<open>good_tree\<close> asks that every member has the width of its field, and leaves out the atoms that
  the code does not write or read back: an \<^verbatim>\<open>esds\<close> that was made with its setters instead of
  read (\<open>setter_esds_not_written\<close>), an \<^verbatim>\<open>avc1\<close> with an encoder name of more than 31 bytes
  (\<open>long_avc1_name_not_written\<close>), an \<^verbatim>\<open>stsz\<close> of a uniform size with records
  (\<open>uniform_stsz_not_read\<close>), an \<^verbatim>\<open>hdlr\<close> whose name begins with a control byte
  (\<open>control_byte_not_read\<close>), and an \<^verbatim>\<open>mp4a\<close> with raw data and subatoms.  \<open>no_media\<close> leaves
  out \<^verbatim>\<open>mdat\<close> atoms, whose data are not read with them, and a movie below another atom.
\<close>

theorem ReadAtom_Encode:
  assumes "good_tree a" "no_media a" "MeasureSize a < 2 ^ 31"
    and "mdat_atom d = None" "is_topmost_atom d" "at_type a = ATOM_MOOV \<Longrightarrow> mdat_split_raw_frames d \<or> mdat_frames d = []"
  shows "\<exists>bs a' d'. atom_Encode (atom_UpdateSize a) = Some bs \<and> length bs = MeasureSize a
    \<and> ReadAtom d (bs @ s) = Some (Inr a', s, d')
    \<and> atom_Equals a' (atom_UpdateSize a) \<and> normal a' = normal (atom_UpdateSize a)
    \<and> atom_Encode a' = Some bs \<and> stream_position d' = stream_position d + length bs"
proof -
  obtain bs where bs: "atom_Encode (atom_UpdateSize a) = Some bs" "length bs = MeasureSize a"
    using atom_Encode_good[of "atom_UpdateSize a"] assms(1)
    by (auto simp: atom_UpdateSize_good_tree atom_UpdateSize_sizes_ok atom_UpdateSize_MeasureSize)
  obtain a' where a': "normal a' = normal (atom_UpdateSize a)" "at_type a' = at_type a"
      "ReadAtom d (bs @ s) = accept_atom (HeaderSize (is_extended_size (at_info (atom_UpdateSize a)))) s a'
        (end_atom (length (bs @ s)) (length bs) d)"
    using ReadAtom_topmost[of "atom_UpdateSize a" d bs s] assms(1-5) bs(1)
    by (auto simp: atom_UpdateSize_good_tree atom_UpdateSize_sizes_ok atom_UpdateSize_MeasureSize atom_UpdateSize_no_media)
  obtain d' where "ReadAtom d (bs @ s) = Some (Inr a', s, d')" "stream_position d' = stream_position d + length bs"
    using accept_atom_plain[of a' "end_atom (length (bs @ s)) (length bs) d"] a'(2,3) assms(5,6)
      no_media_type(2)[OF assms(2)]
    by (auto simp: end_atom_def)
  moreover have "atom_Encode a' = Some bs" using normal_Encode[OF a'(1)] bs(1) by simp
  ultimately show ?thesis using bs a'(1) normal_Equals by blast
qed

text \<open>A track with a header of its own, whose header is forced to be extended.\<close>

definition demo_trak :: f4v_atom where
  "demo_trak = ContainerAtom \<lparr>at_body_size = 0, force_extended_size = True, at_position = 0\<rparr> ATOM_TRAK
     [LeafAtom \<lparr>at_body_size = 0, force_extended_size = False, at_position = 0\<rparr>
        (VersionedAtom 0 [0, 0, 1] (StcoAtom [1, 2])),
      LeafAtom \<lparr>at_body_size = 0, force_extended_size = False, at_position = 0\<rparr> (FreeAtom 3)]"

lemma demo_trak_good: "good_tree demo_trak" "no_media demo_trak" "MeasureSize demo_trak = 16 + (12 + (4 + 8) + (8 + 3))"
    "at_type demo_trak \<noteq> ATOM_MOOV"
  by (simp_all add: demo_trak_def MeasureSize_def HeaderSize_def IsExtendedSize_def kMaxUInt32_def
      atom_codes container_types_def MultiRecord_Measure_def)

lemma ReadAtom_Encode_witness:
  "\<exists>bs a' d'. atom_Encode (atom_UpdateSize demo_trak) = Some bs \<and> length bs = MeasureSize demo_trak
    \<and> ReadAtom Decoder_new (bs @ [7, 8, 9]) = Some (Inr a', [7, 8, 9], d')
    \<and> atom_Equals a' (atom_UpdateSize demo_trak) \<and> normal a' = normal (atom_UpdateSize demo_trak)
    \<and> atom_Encode a' = Some bs \<and> stream_position d' = stream_position Decoder_new + length bs"
  by (rule ReadAtom_Encode) (simp_all add: demo_trak_good Decoder_new_def)

end
