(* ===== verification/F4vPlayback.thy ===== *)
theory F4vPlayback
  imports F4vDecoder
begin

text \<open>
  What a decoder that does not split keeps while it reads tags, and what it makes of the data
  of an \<^verbatim>\<open>mdat\<close>: the frames that are read cover the data without gaps.
\<close>

section \<open>The invariant\<close>

definition usual_frame :: "frame_header \<Rightarrow> bool" where
  "usual_frame f \<longleftrightarrow> 0 \<le> fh_size f \<and> fh_type f \<noteq> RAW_FRAME"

text \<open>Before the first frame the offset is the start of the data or, after a seek, that of the next frame.\<close>

definition at_frame :: "decoder \<Rightarrow> frame_header list \<Rightarrow> bool" where
  "at_frame d fs \<longleftrightarrow> mdat_offset d = mdat_begin d \<or> fs \<noteq> [] \<and> fh_offset (hd fs) = mdat_offset d \<and> mdat_offset d < mdat_end d"

definition mdat_ok :: "decoder \<Rightarrow> bool" where
  "mdat_ok d \<longleftrightarrow> mdat_begin d \<le> mdat_offset d \<and> mdat_offset d \<le> mdat_end d \<and> mdat_next d \<le> length (mdat_frames d)
     \<and> (case mdat_prev_frame d of None \<Rightarrow> at_frame d (drop (mdat_next d) (mdat_frames d))
        | Some p \<Rightarrow> fh_offset p + fh_size p = mdat_offset d)"

definition decoder_ok :: "decoder \<Rightarrow> bool" where
  "decoder_ok d \<longleftrightarrow> \<not> mdat_split_raw_frames d \<and> (\<forall>f \<in> set (mdat_frames d). usual_frame f)
     \<and> (if mdat_atom d = None then mdat_prev_frame d = None \<and> mdat_next d = 0 else mdat_ok d)"

lemma decoder_ok_new: "decoder_ok Decoder_new"
  by (simp add: decoder_ok_def Decoder_new_def)

lemma decoder_ok_ClearFrames: "\<not> mdat_split_raw_frames d \<Longrightarrow> decoder_ok (ClearFrames d)"
  by (simp add: decoder_ok_def ClearFrames_def)

lemma decoder_ok_Clear: "\<not> mdat_split_raw_frames d \<Longrightarrow> decoder_ok (Decoder_Clear d)"
  by (simp add: decoder_ok_def ClearFrames_def Decoder_Clear_def)

lemma decoder_ok_other [simp]:
  "decoder_ok (d\<lparr>is_topmost_atom := b\<rparr>) = decoder_ok d"
  "decoder_ok (d\<lparr>stream_position := p\<rparr>) = decoder_ok d"
  "decoder_ok (d\<lparr>stream_size_on_topmost := n\<rparr>) = decoder_ok d"
  "decoder_ok (d\<lparr>moov_atom := m\<rparr>) = decoder_ok d"
  by (simp_all add: decoder_ok_def mdat_ok_def at_frame_def cong: option.case_cong)

section \<open>Frames of a movie\<close>

lemma sample_step_usual: "usual_frame (fst (sample_step st audio offset sz w))"
  by (simp add: sample_step_def Let_def usual_frame_def split: prod.splits)

lemma chunk_samples_usual:
  "\<forall>f \<in> set (fst (chunk_samples st audio k offset szs w)). usual_frame f"
proof (induction k arbitrary: offset szs w)
  case (Suc k)
  show ?case
  proof (cases szs)
    case (Cons sz szs')
    obtain f w1 where f: "sample_step st audio offset sz w = (f, w1)" by fastforce
    obtain fs rest w2 where fs: "chunk_samples st audio k (offset + uint sz) szs' w1 = (fs, rest, w2)"
      using prod_cases3 by blast
    show ?thesis using sample_step_usual[of st audio offset sz w] Suc[of "offset + uint sz" szs' w1] f fs Cons by simp
  qed simp
qed simp

lemma chunks_loop_usual:
  "chunks_loop st audio c os cs szs w = Some fs \<Longrightarrow> \<forall>f \<in> set fs. usual_frame f"
proof (induction os arbitrary: c cs szs w fs)
  case (Cons o1 os)
  obtain cs' where cs': "next_chunk_record c cs = Some cs'" using Cons.prems by (auto split: option.splits)
  obtain fs1 rest w1 where fs1: "chunk_samples st audio (unat (samples_per_chunk (hd cs'))) (uint o1) szs w = (fs1, rest, w1)"
    using prod_cases3 by blast
  then obtain gs where gs: "chunks_loop st audio (c + 1) os cs' rest w1 = Some gs" "fs = fs1 @ gs"
    using Cons.prems cs' by auto
  have "\<forall>f \<in> set fs1. usual_frame f"
    using chunk_samples_usual[of st audio "unat (samples_per_chunk (hd cs'))" "uint o1" szs w] fs1 by simp
  then show ?case using Cons.IH[OF gs(1)] gs(2) by auto
qed simp

lemma set_keyframes_usual:
  assumes "\<forall>f \<in> set fs. usual_frame f"
  shows "\<forall>f \<in> set (set_keyframes ks fs). usual_frame f"
  unfolding set_keyframes_def using assms
proof (induction ks arbitrary: fs)
  case (Cons k ks)
  show ?case
    unfolding fold_Cons comp_def
  proof (rule Cons.IH, split if_split, intro conjI impI)
    assume k: "\<not> (unat k < 1 \<or> length fs < unat k)"
    then have "unat k - 1 < length fs" by auto
    then have "usual_frame ((fs ! (unat k - 1))\<lparr>fh_is_keyframe := True\<rparr>)"
      using Cons.prems by (simp add: usual_frame_def)
    then show "\<forall>f \<in> set (fs[unat k - 1 := (fs ! (unat k - 1))\<lparr>fh_is_keyframe := True\<rparr>]). usual_frame f"
      using Cons.prems set_update_subset_insert by fastforce
  qed (use Cons.prems in auto)
qed simp

lemma table_frames_usual: "\<forall>f \<in> set (table_frames st audio). usual_frame f"
proof (cases "chunks_loop st audio 1 (st_chunk_offsets st) (st_chunks st) (st_sizes st) (first_walk st)")
  case (Some fs)
  then show ?thesis using chunks_loop_usual[OF Some] set_keyframes_usual[of fs]
    by (auto simp: table_frames_def split: option.splits)
qed (simp add: table_frames_def)

lemma ExtractFrames_usual: "\<forall>f \<in> set (ExtractFrames moov audio). usual_frame f"
  using table_frames_usual by (auto simp: ExtractFrames_def split: option.splits)

lemma movie_frames_usual: "\<forall>f \<in> set (movie_frames moov). usual_frame f"
proof -
  have "set (merge_frames as vs) = set as \<union> set vs" for as vs
    by (induction as vs rule: merge_frames.induct) auto
  then show ?thesis using ExtractFrames_usual by (auto simp: movie_frames_def)
qed

section \<open>Reading atoms keeps the invariant\<close>

definition keeps_ok :: "atom_reader \<Rightarrow> bool" where
  "keeps_ok rd \<longleftrightarrow> (\<forall>d s r s' d'. decoder_ok d \<longrightarrow> rd d s = Some (r, s', d') \<longrightarrow> decoder_ok d')"

lemma keeps_okD: "keeps_ok rd \<Longrightarrow> rd d s = Some (r, s', d') \<Longrightarrow> decoder_ok d \<Longrightarrow> decoder_ok d'"
  by (auto simp: keeps_ok_def)

lemma BuildFrames_ok: "BuildFrames d = Some d' \<Longrightarrow> decoder_ok d \<Longrightarrow> decoder_ok d'"
  using movie_frames_usual
  by (cases d) (auto simp: BuildFrames_def decoder_ok_def mdat_ok_def at_frame_def split: if_splits option.splits)

lemma begin_mdat_ok:
  assumes "decoder_ok d" "mdat_atom d = None" "b \<le> e"
  shows "decoder_ok (d\<lparr>mdat_atom := Some a, mdat_begin := b, mdat_end := e, mdat_offset := b\<rparr>)"
  using assms by (simp add: decoder_ok_def mdat_ok_def at_frame_def)

lemma accept_atom_ok:
  assumes "accept_atom header s a d = Some (r, s', d')" "decoder_ok d" "header \<le> at_size (at_info a)"
  shows "decoder_ok d'"
proof (cases "at_type a = ATOM_MOOV")
  case True
  then obtain d1 where "BuildFrames (d\<lparr>moov_atom := Some a\<rparr>) = Some d1" "d' = d1"
    using assms(1) by (auto simp: accept_atom_def split: bind_splits)
  then show ?thesis using BuildFrames_ok[of _ d1] assms(2) by simp
next
  case False
  then show ?thesis using assms begin_mdat_ok[OF assms(2)]
    by (auto simp: accept_atom_def split: if_splits)
qed

lemma TryReadAtom_ok: "keeps_ok rd \<Longrightarrow> keeps_ok (TryReadAtom rd)"
  by (auto simp: keeps_ok_def TryReadAtom_def split: if_splits)

lemma container_loop_ok:
  assumes "keeps_ok rd" "container_loop rd k n read d s = Some (r, s', d')" "decoder_ok d"
  shows "decoder_ok d'"
  using assms(2,3)
proof (induction k arbitrary: read d s r s' d')
  case (Suc k)
  note rd = keeps_okD[OF TryReadAtom_ok[OF assms(1)]]
  from Suc.prems show ?case
    by (auto split: if_splits option.splits sum.splits) (blast intro: rd Suc.IH)+
qed simp

lemma versioned_container_loop_ok:
  assumes "keeps_ok rd" "versioned_container_loop rd k d s = Some (r, d')" "decoder_ok d"
  shows "decoder_ok d'"
  using assms(2,3)
proof (induction k arbitrary: d s r d')
  case (Suc k)
  note rd = keeps_okD[OF TryReadAtom_ok[OF assms(1)]]
  from Suc.prems show ?case
    by (auto split: if_splits option.splits sum.splits) (blast intro: rd Suc.IH)+
qed simp

lemma Atom_Decode_ok:
  assumes "keeps_ok rd" "Atom_Decode rd i t n d s = Some (r, s', d')" "decoder_ok d"
  shows "decoder_ok d'"
proof -
  have body: "decoder_ok d2" if "Atom_DecodeBody rd i t n d s = Some (r2, s2, d2)" for r2 s2 d2
    using that assms(1,3)
    by (auto simp: Atom_DecodeBody_def container_DecodeBody_def versioned_container_DecodeBody_def
        versioned_container_body_def Let_def simp del: container_loop.simps versioned_container_loop.simps
        split: if_splits option.splits sum.splits)
      (blast intro: container_loop_ok versioned_container_loop_ok)+
  then show ?thesis using assms(2) by (auto simp: Atom_Decode_def split: option.splits if_splits)
qed

lemma rd_bind_InrE:
  assumes "rd_bind r f s = Some (Inr y, s')"
  obtains x s1 where "r s = Some (Inr x, s1)" "f x s1 = Some (Inr y, s')"
  using assms by (auto simp: rd_bind_def split: option.splits sum.splits)

lemma read_atom_header_sizes:
  "read_atom_header s = Some (Inr (t, header, n), s') \<Longrightarrow> header \<in> {8, 16} \<and> header \<le> n"
  unfolding read_atom_header_def
  by (elim rd_bind_InrE)
    (auto simp: rd_ok_def Let_def split: if_splits prod.splits elim!: rd_bind_InrE)

lemma at_size_ge: "8 \<le> at_size i" "force_extended_size i \<Longrightarrow> 16 \<le> at_size i"
  by (simp_all add: at_size_def HeaderSize_def is_extended_size_def)

lemma set_force_extended_force: "force_extended_size (at_info (set_force_extended a))"
  by (cases a) auto

text \<open>The step after the header, with the decoder and the place for the body by name.\<close>

lemma ReadAtom_step_body:
  assumes "mdat_atom d = None" "8 \<le> length s" "read_atom_header s = Some (Inr (t, header, n), s1)"
    "d1 = (if is_topmost_atom d then d\<lparr>stream_size_on_topmost := length s\<rparr> else d)"
    "i = \<lparr>at_body_size = n - header, force_extended_size = False,
       at_position = (if is_topmost_atom d then stream_position d
         else stream_position d + (stream_size_on_topmost d1 - length s))\<rparr>"
    "d4 = (\<lambda>(s2 :: bytes) (d2 :: decoder). if is_topmost_atom d then d2\<lparr>is_topmost_atom := True,
         stream_position := stream_position d2 + header + (length s1 - length s2)\<rparr>
       else d2\<lparr>is_topmost_atom := False\<rparr>)"
  shows "ReadAtom_step rd d s = (case Atom_Decode rd i t (n - header) (d1\<lparr>is_topmost_atom := False\<rparr>) s1 of
       None \<Rightarrow> None
     | Some (Inl e, _, d2) \<Rightarrow> Some (Inl e, s, d2\<lparr>is_topmost_atom := is_topmost_atom d\<rparr>)
     | Some (Inr a, s2, d2) \<Rightarrow> if t \<noteq> ATOM_MDAT \<and> n \<noteq> header + (length s1 - length s2) then None
         else accept_atom header s2 (if header = 16 then set_force_extended a else a) (d4 s2 d2))"
  using assms(1-3) unfolding assms(4-6)
  by (cases "is_topmost_atom d") (simp_all add: ReadAtom_step_def Let_def split: option.split sum.split)

lemma ReadAtom_step_ok: "keeps_ok rd \<Longrightarrow> keeps_ok (ReadAtom_step rd)"
  unfolding keeps_ok_def
proof (intro allI impI)
  fix d s r s' d'
  assume rd: "\<forall>d s r s' d'. decoder_ok d \<longrightarrow> rd d s = Some (r, s', d') \<longrightarrow> decoder_ok d'"
    and ok: "decoder_ok d" and step: "ReadAtom_step rd d s = Some (r, s', d')"
  show "decoder_ok d'"
  proof (cases "mdat_atom d \<noteq> None \<or> length s < 8")
    case True
    then show ?thesis using step ok by (auto simp: ReadAtom_step_def split: if_splits)
  next
    case False
    then obtain x s1 where head: "read_atom_header s = Some (x, s1)"
      using step by (auto simp: ReadAtom_step_def Let_def split: option.splits)
    show ?thesis
    proof (cases x)
      case (Inl e)
      then show ?thesis using step False head ok by (auto simp: ReadAtom_step_def Let_def)
    next
      case (Inr y)
      obtain t header n where y: "y = (t, header, n)" using prod_cases3 by blast
      define d1 where "d1 = (if is_topmost_atom d then d\<lparr>stream_size_on_topmost := length s\<rparr> else d)"
      define i where "i = \<lparr>at_body_size = n - header, force_extended_size = False,
        at_position = (if is_topmost_atom d then stream_position d
          else stream_position d + (stream_size_on_topmost d1 - length s))\<rparr>"
      define d4 where "d4 = (\<lambda>(s2 :: bytes) (d2 :: decoder). if is_topmost_atom d then d2\<lparr>is_topmost_atom := True,
          stream_position := stream_position d2 + header + (length s1 - length s2)\<rparr>
        else d2\<lparr>is_topmost_atom := False\<rparr>)"
      have body: "(case Atom_Decode rd i t (n - header) (d1\<lparr>is_topmost_atom := False\<rparr>) s1 of
         None \<Rightarrow> None
       | Some (Inl e, _, d2) \<Rightarrow> Some (Inl e, s, d2\<lparr>is_topmost_atom := is_topmost_atom d\<rparr>)
       | Some (Inr a, s2, d2) \<Rightarrow> if t \<noteq> ATOM_MDAT \<and> n \<noteq> header + (length s1 - length s2) then None
           else accept_atom header s2 (if header = 16 then set_force_extended a else a) (d4 s2 d2)) = Some (r, s', d')"
        using step ReadAtom_step_body[OF _ _ head[unfolded Inr y] d1_def i_def d4_def, of rd] False by simp
      obtain z s2 d2 where z: "Atom_Decode rd i t (n - header) (d1\<lparr>is_topmost_atom := False\<rparr>) s1 = Some (z, s2, d2)"
        using body by (auto split: option.splits)
      have ok2: "decoder_ok d2"
        by (rule Atom_Decode_ok[OF _ z]) (use rd ok in \<open>simp_all add: keeps_ok_def d1_def\<close>)
      show ?thesis
      proof (cases z)
        case (Inl e)
        then show ?thesis using body z ok2 by auto
      next
        case (Inr a)
        then have accept: "accept_atom header s2 (if header = 16 then set_force_extended a else a) (d4 s2 d2) = Some (r, s', d')"
          using body z by (simp split: if_splits)
        have "header \<le> at_size (at_info (if header = 16 then set_force_extended a else a))"
          using read_atom_header_sizes[OF head[unfolded \<open>x = Inr y\<close> y]] at_size_ge set_force_extended_force by auto
        moreover have "decoder_ok (d4 s2 d2)" using ok2 by (simp add: d4_def)
        ultimately show ?thesis using accept_atom_ok[OF accept] by simp
      qed
    qed
  qed
qed

lemma ReadAtom_fuel_ok: "keeps_ok (ReadAtom_fuel k)"
proof (induction k)
  case 0
  show ?case unfolding keeps_ok_def by simp
next
  case (Suc k)
  have "ReadAtom_fuel (Suc k) = ReadAtom_step (ReadAtom_fuel k)" by (intro ext) simp
  then show ?case using ReadAtom_step_ok[OF Suc] by simp
qed

lemma ReadAtom_ok: "ReadAtom d s = Some (r, s', d') \<Longrightarrow> decoder_ok d \<Longrightarrow> decoder_ok d'"
  unfolding ReadAtom_def by (rule keeps_okD[OF ReadAtom_fuel_ok])

section \<open>Choosing a frame\<close>

text \<open>What the choice says of the frames that were not skipped.\<close>

fun choice_ok :: "decoder \<Rightarrow> frame_header list \<Rightarrow> frame_choice \<Rightarrow> bool" where
  "choice_ok d rest NoMoreFrames \<longleftrightarrow> rest = [] \<and> mdat_offset d = mdat_end d"
| "choice_ok d rest (ReadThis g False) \<longleftrightarrow> fh_type g = RAW_FRAME \<and> fh_offset g = mdat_offset d \<and> 0 < fh_size g
     \<and> (case rest of [] \<Rightarrow> mdat_offset d + fh_size g = mdat_end d
        | f # _ \<Rightarrow> mdat_offset d + fh_size g = fh_offset f \<and> fh_offset f < mdat_end d)"
| "choice_ok d rest (ReadThis g True) \<longleftrightarrow> rest \<noteq> [] \<and> fh_offset (hd rest) = mdat_offset d \<and> mdat_offset d < mdat_end d
     \<and> fh_offset g = mdat_offset d
     \<and> (if fh_offset (hd rest) + fh_size (hd rest) \<le> mdat_end d then g = hd rest
        else fh_type g = RAW_FRAME \<and> mdat_offset d + fh_size g = mdat_end d)"

lemma choose_frame_ok:
  assumes "mdat_begin d \<le> mdat_offset d" "mdat_offset d \<le> mdat_end d" "mdat_prev_frame d = None \<Longrightarrow> at_frame d fs"
  shows "\<exists>c k. choose_frame d fs i = Some (c, i + k) \<and> k \<le> length fs \<and> choice_ok d (drop k fs) c
    \<and> (\<forall>f \<in> set (take k fs). fh_offset f < mdat_offset d \<or> mdat_end d \<le> fh_offset f)"
  using assms(3)
proof (induction fs arbitrary: i)
  case Nil
  then show ?case using assms(1,2) by (auto simp: raw_frame_def)
next
  case (Cons f fs)
  show ?case
  proof (cases "fh_offset f < mdat_offset d \<or> mdat_end d \<le> fh_offset f")
    case True
    then have start: "mdat_prev_frame d = None \<Longrightarrow> mdat_offset d = mdat_begin d"
      using Cons.prems by (auto simp: at_frame_def)
    then have "choose_frame d (f # fs) i = choose_frame d fs (i + 1)"
      using assms(1,2) True by (auto split: option.splits)
    moreover obtain c k where "choose_frame d fs (i + 1) = Some (c, i + 1 + k)" "k \<le> length fs"
        "choice_ok d (drop k fs) c" "\<forall>f \<in> set (take k fs). fh_offset f < mdat_offset d \<or> mdat_end d \<le> fh_offset f"
      using Cons.IH[of "i + 1"] start by (auto simp: at_frame_def)
    ultimately show ?thesis using True by (intro exI[of _ c] exI[of _ "Suc k"]) auto
  next
    case False
    then have "\<not> fh_offset f < mdat_begin d" using assms(1) by simp
    then show ?thesis using False
      by (intro exI[of _ "fst (the (choose_frame d (f # fs) i))"] exI[of _ 0]) (auto simp: raw_frame_def)
  qed
qed

text \<open>The choice from the next frame on; the frames that are skipped leave the decoder in order.\<close>

lemma choose_next_frame:
  assumes "mdat_ok d"
  shows "\<exists>c k. choose_frame d (drop (mdat_next d) (mdat_frames d)) (mdat_next d) = Some (c, mdat_next d + k)
    \<and> mdat_next d + k \<le> length (mdat_frames d) \<and> choice_ok d (drop (mdat_next d + k) (mdat_frames d)) c
    \<and> (\<forall>f \<in> set (take k (drop (mdat_next d) (mdat_frames d))). fh_offset f < mdat_offset d \<or> mdat_end d \<le> fh_offset f)
    \<and> mdat_ok (d\<lparr>mdat_next := mdat_next d + k\<rparr>)"
proof -
  let ?fs = "drop (mdat_next d) (mdat_frames d)"
  have ok: "mdat_begin d \<le> mdat_offset d" "mdat_offset d \<le> mdat_end d" "mdat_next d \<le> length (mdat_frames d)"
      "mdat_prev_frame d = None \<Longrightarrow> at_frame d ?fs"
    using assms by (auto simp: mdat_ok_def)
  obtain c k where c: "choose_frame d ?fs (mdat_next d) = Some (c, mdat_next d + k)" "k \<le> length ?fs"
      "choice_ok d (drop k ?fs) c" "\<forall>f \<in> set (take k ?fs). fh_offset f < mdat_offset d \<or> mdat_end d \<le> fh_offset f"
    using choose_frame_ok[OF ok(1,2,4), of "mdat_next d"] by blast
  have le: "mdat_next d + k \<le> length (mdat_frames d)" using c(2) ok(3) by simp
  have "at_frame d (drop k ?fs)" if "mdat_prev_frame d = None"
    using ok(4)[OF that] c(4) by (cases k; cases ?fs) (auto simp: at_frame_def)
  then have "mdat_ok (d\<lparr>mdat_next := mdat_next d + k\<rparr>)"
    using assms le by (auto simp: mdat_ok_def at_frame_def add.commute split: option.splits)
  then show ?thesis using c le by (auto simp: add.commute)
qed

lemma choice_size:
  assumes "choice_ok d rest (ReadThis g b)" "mdat_offset d \<le> mdat_end d" "\<forall>f \<in> set rest. usual_frame f"
  shows "0 \<le> fh_size g \<and> mdat_offset d + fh_size g \<le> mdat_end d \<and> fh_offset g = mdat_offset d"
  using assms by (cases b; cases rest) (auto simp: usual_frame_def split: if_splits)

section \<open>Reading the frames\<close>

text \<open>The frames up to the end of the data; \<open>None\<close> when a read fails or there are more frames than rounds.\<close>

fun ReadFrames :: "nat \<Rightarrow> decoder \<Rightarrow> bytes \<Rightarrow> ((frame_header \<times> bytes) list \<times> bytes \<times> decoder) option" where
  "ReadFrames 0 d s = None"
| "ReadFrames (Suc k) d s = (case ReadFrame d s of
     Some (Inr None, s1, d1) \<Rightarrow> Some ([], s1, d1)
   | Some (Inr (Some f), s1, d1) \<Rightarrow> map_option (\<lambda>(fs, s2, d2). (f # fs, s2, d2)) (ReadFrames k d1 s1)
   | _ \<Rightarrow> None)"

text \<open>Frames with their data, one behind the other from an offset to another.\<close>

fun tiles :: "int \<Rightarrow> (frame_header \<times> bytes) list \<Rightarrow> int \<Rightarrow> bool" where
  "tiles a [] b \<longleftrightarrow> a = b"
| "tiles a (fb # fs) b \<longleftrightarrow> fh_offset (fst fb) = a \<and> fh_size (fst fb) = int (length (snd fb))
     \<and> tiles (a + int (length (snd fb))) fs b"

text \<open>The frames that lie in the data from an offset on, and frames that do not overlap.\<close>

definition inside :: "int \<Rightarrow> int \<Rightarrow> frame_header \<Rightarrow> bool" where
  "inside a b f \<longleftrightarrow> a \<le> fh_offset f \<and> fh_offset f < b \<and> fh_offset f + fh_size f \<le> b"

definition apart :: "frame_header list \<Rightarrow> bool" where
  "apart fs \<longleftrightarrow> sorted_wrt (\<lambda>f g. fh_offset f + fh_size f \<le> fh_offset g) fs"

lemma ReadFrame_chosen:
  assumes ok: "decoder_ok d" "mdat_atom d \<noteq> None"
    and choice: "choose_frame d (drop (mdat_next d) (mdat_frames d)) (mdat_next d) = Some (c, i)"
  shows "ReadFrame d s = (case c of
      NoMoreFrames \<Rightarrow> Some (Inr None, s, ClearFrames (d\<lparr>mdat_next := i\<rparr>))
    | ReadThis f advance \<Rightarrow>
        if int (length s) < fh_size f then Some (Inl TAG_DECODE_NO_DATA, s, d\<lparr>mdat_next := i\<rparr>)
        else if fh_size f < 0 then None
        else Some (Inr (Some (f, take (nat (fh_size f)) s)), drop (nat (fh_size f)) s,
          d\<lparr>mdat_offset := mdat_offset d + fh_size f, stream_position := stream_position d + nat (fh_size f),
            mdat_prev_frame := Some f, mdat_next := (if advance then i + 1 else i)\<rparr>))"
proof -
  have "mdat_ok d" "\<not> mdat_split_raw_frames d" using ok by (simp_all add: decoder_ok_def)
  then show ?thesis using ok(2) choice
    by (cases c) (auto simp: ReadFrame_def IOReadFrame_def mdat_ok_def Let_def split: option.split)
qed

lemma IOReadFrame_step:
  assumes "decoder_ok d" "mdat_atom d \<noteq> None" "choice_ok d (drop i (mdat_frames d)) (ReadThis g b)"
    "i \<le> length (mdat_frames d)"
    "d' = d\<lparr>mdat_offset := mdat_offset d + fh_size g, stream_position := p,
       mdat_prev_frame := Some g, mdat_next := (if b then i + 1 else i)\<rparr>"
  shows "decoder_ok d' \<and> mdat_atom d' \<noteq> None"
proof -
  have "\<forall>f \<in> set (drop i (mdat_frames d)). usual_frame f"
    using assms(1) by (auto simp: decoder_ok_def dest: in_set_dropD)
  then have "0 \<le> fh_size g \<and> mdat_offset d + fh_size g \<le> mdat_end d \<and> fh_offset g = mdat_offset d"
    using choice_size[OF assms(3)] assms(1,2) by (simp add: decoder_ok_def mdat_ok_def)
  then show ?thesis using assms by (cases b) (auto simp: decoder_ok_def mdat_ok_def)
qed

lemma filter_inside_cong:
  assumes "\<forall>x \<in> set fs. b \<le> fh_offset x" "a \<le> b"
  shows "filter (inside a e) fs = filter (inside b e) fs"
  using assms by (intro filter_cong) (auto simp: inside_def)

lemma filter_chosen:
  assumes choice: "choice_ok d rest (ReadThis g b)" and rest: "apart rest" "\<forall>f \<in> set rest. usual_frame f"
  shows "filter (inside (mdat_offset d) (mdat_end d)) rest = (if fh_type g = RAW_FRAME then [] else [g])
    @ filter (inside (mdat_offset d + fh_size g) (mdat_end d)) (if b then tl rest else rest)"
proof (cases rest)
  case Nil
  then show ?thesis using choice by (cases b) auto
next
  case (Cons f fs)
  have later: "\<forall>x \<in> set fs. fh_offset f + fh_size f \<le> fh_offset x" and f: "0 \<le> fh_size f" "fh_type f \<noteq> RAW_FRAME"
    using rest Cons by (auto simp: apart_def usual_frame_def)
  show ?thesis
  proof (cases b)
    case False
    then have "\<forall>x \<in> set rest. mdat_offset d + fh_size g \<le> fh_offset x" "0 \<le> fh_size g"
      using choice later f Cons by fastforce+
    then show ?thesis using False choice filter_inside_cong[of rest "mdat_offset d + fh_size g" "mdat_offset d"]
      by simp
  next
    case True
    show ?thesis
    proof (cases "fh_offset f + fh_size f \<le> mdat_end d")
      case inside: True
      have g: "g = f" "fh_offset f = mdat_offset d" "mdat_offset d < mdat_end d"
        using True inside choice Cons by auto
      then have "\<forall>x \<in> set fs. mdat_offset d + fh_size f \<le> fh_offset x" using later by simp
      moreover have "inside (mdat_offset d) (mdat_end d) f" using g inside by (simp add: inside_def)
      ultimately show ?thesis
        using True g(1) Cons f filter_inside_cong[of fs "mdat_offset d + fh_size f" "mdat_offset d"] by simp
    next
      case False
      then have g: "fh_type g = RAW_FRAME" using True choice Cons by simp
      have "\<not> inside a (mdat_end d) x" if "x \<in> set rest" for x a
        using that False later f(1) Cons by (fastforce simp: inside_def)
      then have "filter (inside a (mdat_end d)) rest = []" for a by (simp add: filter_empty_conv)
      moreover from this have "filter (inside a (mdat_end d)) (tl rest) = []" for a
        by (metis Cons filter.simps(2) list.discI list.sel(3))
      ultimately show ?thesis using g by simp
    qed
  qed
qed

lemma ReadFrames_all:
  assumes "decoder_ok d" "mdat_atom d \<noteq> None" "n = nat (mdat_end d - mdat_offset d)" "n \<le> length s"
    "length (mdat_frames d) - mdat_next d + n < k"
  shows "\<exists>fs. ReadFrames k d s = Some (fs, drop n s, ClearFrames (d\<lparr>stream_position := stream_position d + n\<rparr>))
    \<and> tiles (mdat_offset d) fs (mdat_end d) \<and> concat (map snd fs) = take n s
    \<and> (apart (drop (mdat_next d) (mdat_frames d)) \<longrightarrow> filter (\<lambda>f. fh_type f \<noteq> RAW_FRAME) (map fst fs)
        = filter (inside (mdat_offset d) (mdat_end d)) (drop (mdat_next d) (mdat_frames d)))"
  using assms
proof (induction k arbitrary: d s n)
  case (Suc k)
  have ok: "mdat_ok d" using Suc.prems(1,2) by (simp add: decoder_ok_def)
  let ?fs = "drop (mdat_next d) (mdat_frames d)"
  obtain c j where c: "choose_frame d ?fs (mdat_next d) = Some (c, mdat_next d + j)" "mdat_next d + j \<le> length (mdat_frames d)"
      "choice_ok d (drop (mdat_next d + j) (mdat_frames d)) c"
      "\<forall>f \<in> set (take j ?fs). fh_offset f < mdat_offset d \<or> mdat_end d \<le> fh_offset f"
    using choose_next_frame[OF ok] by blast
  let ?i = "mdat_next d + j"
  have rest: "drop j ?fs = drop ?i (mdat_frames d)" by (simp add: add.commute)
  have i: "?i \<le> length (mdat_frames d)" "length (mdat_frames d) - ?i \<le> length (mdat_frames d) - mdat_next d"
    using c(2) ok by (auto simp: mdat_ok_def)
  have "filter (inside (mdat_offset d) (mdat_end d)) (take j ?fs) = []"
    using c(4) by (auto simp: filter_empty_conv inside_def)
  then have skip: "filter (inside (mdat_offset d) (mdat_end d)) ?fs
      = filter (inside (mdat_offset d) (mdat_end d)) (drop ?i (mdat_frames d))"
    by (metis append_Nil append_take_drop_id filter_append rest)
  have apart: "apart ?fs \<Longrightarrow> apart (drop ?i (mdat_frames d))"
    unfolding apart_def rest[symmetric] by (rule sorted_wrt_drop)
  have usual: "\<forall>f \<in> set (drop ?i (mdat_frames d)). usual_frame f"
    using Suc.prems(1) by (auto simp: decoder_ok_def dest: in_set_dropD)
  note read = ReadFrame_chosen[OF Suc.prems(1,2) c(1), of s]
  show ?case
  proof (cases c)
    case NoMoreFrames
    then have "n = 0" "mdat_offset d = mdat_end d" "drop ?i (mdat_frames d) = []"
      using c(3) Suc.prems(3) rest by auto
    then show ?thesis using read NoMoreFrames skip by (auto simp: ClearFrames_def)
  next
    case (ReadThis g b)
    have choice: "choice_ok d (drop ?i (mdat_frames d)) (ReadThis g b)" using c(3) ReadThis rest by simp
    define m where "m = nat (fh_size g)"
    have g: "fh_size g = int m" "mdat_offset d + int m \<le> mdat_end d" "fh_offset g = mdat_offset d"
      using choice_size[OF choice _ usual] ok by (auto simp: m_def mdat_ok_def)
    define d1 where "d1 = d\<lparr>mdat_offset := mdat_offset d + fh_size g, stream_position := stream_position d + m,
       mdat_prev_frame := Some g, mdat_next := (if b then ?i + 1 else ?i)\<rparr>"
    have d1: "decoder_ok d1" "mdat_atom d1 \<noteq> None"
      using IOReadFrame_step[OF Suc.prems(1,2) choice i(1) d1_def] by auto
    have m: "m \<le> n" using g(2) Suc.prems(3) by simp
    have n1: "n - m = nat (mdat_end d1 - mdat_offset d1)" "n - m \<le> length (drop m s)"
      using Suc.prems(3,4) g by (auto simp: d1_def)
    have less: "length (mdat_frames d1) - mdat_next d1 + (n - m) < k"
    proof (cases b)
      case True
      then have "?i < length (mdat_frames d)" using choice by auto
      then show ?thesis using True Suc.prems(5) m i by (simp add: d1_def)
    next
      case False
      then have "0 < m" using choice g by simp
      then show ?thesis using False Suc.prems(5) m i by (simp add: d1_def)
    qed
    have step: "ReadFrame d s = Some (Inr (Some (g, take m s)), drop m s, d1)"
      using read ReadThis g m Suc.prems(4) by (simp add: d1_def)
    obtain fs where fs: "ReadFrames k d1 (drop m s)
          = Some (fs, drop (n - m) (drop m s), ClearFrames (d1\<lparr>stream_position := stream_position d1 + (n - m)\<rparr>))"
        "tiles (mdat_offset d1) fs (mdat_end d1)" "concat (map snd fs) = take (n - m) (drop m s)"
        "apart (drop (mdat_next d1) (mdat_frames d1)) \<longrightarrow> filter (\<lambda>f. fh_type f \<noteq> RAW_FRAME) (map fst fs)
          = filter (inside (mdat_offset d1) (mdat_end d1)) (drop (mdat_next d1) (mdat_frames d1))"
      using Suc.IH[OF d1 n1 less] by blast
    let ?r = "(g, take m s) # fs"
    have "ReadFrames (Suc k) d s
        = Some (?r, drop n s, ClearFrames (d\<lparr>stream_position := stream_position d + n\<rparr>))"
      using step fs(1) m by (simp add: d1_def ClearFrames_def)
    moreover have "tiles (mdat_offset d) ?r (mdat_end d)"
      using fs(2) g m Suc.prems(4) by (simp add: d1_def)
    moreover have "concat (map snd ?r) = take n s"
      using fs(3) m by (simp add: take_add[symmetric])
    moreover have "filter (\<lambda>f. fh_type f \<noteq> RAW_FRAME) (map fst ?r) = filter (inside (mdat_offset d) (mdat_end d)) ?fs"
      if a: "apart ?fs"
    proof -
      have tail: "drop (mdat_next d1) (mdat_frames d1) = (if b then tl (drop ?i (mdat_frames d)) else drop ?i (mdat_frames d))"
        by (simp add: d1_def tl_drop drop_Suc)
      have "apart (drop (mdat_next d1) (mdat_frames d1))"
        using apart[OF a] unfolding tail by (cases "drop ?i (mdat_frames d)") (auto simp: apart_def)
      then show ?thesis using fs(4) filter_chosen[OF choice apart[OF a] usual] skip tail
        by (simp add: d1_def)
    qed
    ultimately show ?thesis by blast
  qed
qed simp

section \<open>The states of a decoder\<close>

text \<open>
  The states of a decoder that reads tags from streams, is cleared now and then and made to
  seek, by \<^verbatim>\<open>SeekToFrame\<close> itself or through \<^verbatim>\<open>SeekToTime\<close>, to frames that begin in the data.
\<close>

inductive decoder_reached :: "decoder \<Rightarrow> bool" where
  reached_new: "decoder_reached Decoder_new"
| reached_tag: "decoder_reached d \<Longrightarrow> ReadTag d s = Some (r, s', d') \<Longrightarrow> decoder_reached d'"
| reached_clear: "decoder_reached d \<Longrightarrow> decoder_reached (Decoder_Clear d)"
| reached_seek: "decoder_reached d \<Longrightarrow> SeekToFrame d i to_keyframe = Some (j, offset, d')
    \<Longrightarrow> mdat_begin d \<le> offset \<Longrightarrow> offset < mdat_end d \<Longrightarrow> decoder_reached d'"

lemma keyframe_before_le: "keyframe_before fs i \<le> i"
  by (induction i) auto

lemma SeekToFrame_ok:
  assumes "SeekToFrame d i to_keyframe = Some (j, offset, d')" "decoder_ok d" "mdat_begin d \<le> offset" "offset < mdat_end d"
  shows "decoder_ok d'"
proof -
  have j: "j < length (mdat_frames d)" "offset = fh_offset (mdat_frames d ! j)"
      "d' = d\<lparr>mdat_next := j, mdat_offset := offset, mdat_prev_frame := None\<rparr>" "mdat_atom d \<noteq> None"
    using assms(1) keyframe_before_le[of "mdat_frames d" i] by (auto simp: SeekToFrame_def Let_def split: if_splits)
  then have "at_frame d' (drop j (mdat_frames d))" using assms(4) by (simp add: at_frame_def hd_drop_conv_nth)
  then show ?thesis using assms(2-4) j by (auto simp: decoder_ok_def mdat_ok_def)
qed

text \<open>After a seek to a frame that begins elsewhere, the next read fails a \<^verbatim>\<open>CHECK\<close>.\<close>

lemma seek_outside_fails:
  assumes "SeekToFrame d i to_keyframe = Some (j, offset, d')" "\<not> mdat_split_raw_frames d"
    and "offset < mdat_begin d \<or> mdat_end d < offset"
  shows "ReadFrame d' s = None" "ReadTag d' s = None"
proof -
  have d': "mdat_atom d' \<noteq> None" "\<not> mdat_split_raw_frames d'" "mdat_offset d' = offset"
      "mdat_begin d' = mdat_begin d" "mdat_end d' = mdat_end d"
    using assms(1,2) by (auto simp: SeekToFrame_def Let_def split: if_splits)
  then have "IOReadFrame d' s = None" using assms(3) by (auto simp: IOReadFrame_def)
  then show "ReadFrame d' s = None" using d'(2) by (simp add: ReadFrame_def)
  then show "ReadTag d' s = None" using d'(1) by (simp add: ReadTag_def)
qed

lemma ReadFrame_ok:
  assumes "decoder_ok d" "mdat_atom d \<noteq> None" "ReadFrame d s = Some (r, s', d')"
  shows "decoder_ok d'"
proof -
  have ok: "mdat_ok d" and split: "\<not> mdat_split_raw_frames d" using assms(1,2) by (simp_all add: decoder_ok_def)
  obtain c j where c: "choose_frame d (drop (mdat_next d) (mdat_frames d)) (mdat_next d) = Some (c, mdat_next d + j)"
      "mdat_next d + j \<le> length (mdat_frames d)" "choice_ok d (drop (mdat_next d + j) (mdat_frames d)) c"
      "mdat_ok (d\<lparr>mdat_next := mdat_next d + j\<rparr>)"
    using choose_next_frame[OF ok] by blast
  have next_ok: "decoder_ok (d\<lparr>mdat_next := mdat_next d + j\<rparr>)"
    using assms(1,2) c(4) by (auto simp: decoder_ok_def)
  note read = assms(3)[unfolded ReadFrame_chosen[OF assms(1,2) c(1)]]
  show ?thesis
  proof (cases c)
    case NoMoreFrames
    then show ?thesis using read split decoder_ok_ClearFrames by auto
  next
    case (ReadThis g b)
    then show ?thesis
      using read next_ok IOReadFrame_step[OF assms(1,2) c(3)[unfolded ReadThis] c(2) refl]
      by (auto split: if_splits)
  qed
qed

lemma read_atom_tag_ok: "read_atom_tag d s = Some (r, s', d') \<Longrightarrow> decoder_ok d \<Longrightarrow> decoder_ok d'"
  by (auto simp: read_atom_tag_def split: option.splits sum.splits dest: ReadAtom_ok)

lemma ReadTag_ok:
  assumes "ReadTag d s = Some (r, s', d')" "decoder_ok d"
  shows "decoder_ok d'"
proof (cases "mdat_atom d = None")
  case True
  then show ?thesis using assms read_atom_tag_ok by (simp add: ReadTag_def)
next
  case False
  then obtain x s1 d1 where x: "ReadFrame d s = Some (x, s1, d1)"
    using assms(1) by (auto simp: ReadTag_def split: option.splits)
  have "decoder_ok d1" by (rule ReadFrame_ok[OF assms(2) False x])
  then show ?thesis using assms(1) False x read_atom_tag_ok
    by (auto simp: ReadTag_def split: sum.splits option.splits)
qed

lemma decoder_reached_ok: "decoder_reached d \<Longrightarrow> decoder_ok d"
proof (induction rule: decoder_reached.induct)
  case (reached_clear d)
  then show ?case by (intro decoder_ok_Clear) (simp add: decoder_ok_def)
qed (auto intro: decoder_ok_new ReadTag_ok SeekToFrame_ok)

end
