(* ===== verification/F4vFrameLaws.thy ===== *)
theory F4vFrameLaws
  imports F4vFrames "HOL-Library.Multiset"
begin

text \<open>The walk over the compressed tables computes the frames of the expanded tables.\<close>

section \<open>Runs\<close>

definition runs_left :: "('r \<Rightarrow> 32 word) \<Rightarrow> ('r \<Rightarrow> int) \<Rightarrow> 'r list \<Rightarrow> 'r \<Rightarrow> int list" where
  "runs_left cnt val rs r = replicate (unat (cnt r)) (val r) @ expand_runs cnt val rs"

definition head_or_0 :: "int list \<Rightarrow> int" where
  "head_or_0 xs = (case xs of [] \<Rightarrow> 0 | x # _ \<Rightarrow> x)"

lemma next_run_left:
  assumes "next_run cnt rs r = (rs', r')"
  shows "runs_left cnt val rs' r' = runs_left cnt val rs r" "cnt r' = 0 \<Longrightarrow> rs' = []"
  using assms
  by (induction rs arbitrary: r) (auto simp: runs_left_def expand_runs_def unat_eq_0 split: if_splits)

lemma next_run_head:
  assumes "next_run cnt rs r = (rs', r')"
  shows "head_or_0 (runs_left cnt val rs r) = (if cnt r' \<noteq> 0 then val r' else 0)"
    "cnt r' \<noteq> 0 \<Longrightarrow> tl (runs_left cnt val rs r) = replicate (unat (cnt r') - 1) (val r') @ expand_runs cnt val rs'"
    "cnt r' = 0 \<Longrightarrow> tl (runs_left cnt val rs r) = [] \<and> runs_left cnt val rs' r' = []"
proof -
  note left = next_run_left(1)[OF assms, of val] next_run_left(2)[OF assms]
  show "head_or_0 (runs_left cnt val rs r) = (if cnt r' \<noteq> 0 then val r' else 0)"
  proof (cases "cnt r' = 0")
    case True
    then have "runs_left cnt val rs r = []"
      unfolding left(1)[symmetric] left(2)[OF True] by (simp add: runs_left_def expand_runs_def)
    with True show ?thesis by (simp add: head_or_0_def)
  next
    case False
    then obtain k where "unat (cnt r') = Suc k" by (metis not0_implies_Suc unat_eq_0)
    with False show ?thesis unfolding left(1)[symmetric] by (simp add: runs_left_def head_or_0_def)
  qed
  show "tl (runs_left cnt val rs r) = replicate (unat (cnt r') - 1) (val r') @ expand_runs cnt val rs'"
    if "cnt r' \<noteq> 0"
  proof -
    have "unat (cnt r') \<noteq> 0" using that by (simp add: unat_eq_0)
    then obtain k where "unat (cnt r') = Suc k" by (cases "unat (cnt r')") auto
    then show ?thesis unfolding left(1)[symmetric] by (simp add: runs_left_def)
  qed
  show "tl (runs_left cnt val rs r) = [] \<and> runs_left cnt val rs' r' = []" if "cnt r' = 0"
    unfolding left(1)[symmetric] left(2)[OF that] by (simp add: runs_left_def expand_runs_def that)
qed

section \<open>Walking is expanding\<close>

definition walk_deltas :: "walk \<Rightarrow> int list" where
  "walk_deltas w = runs_left stts_sample_count (\<lambda>r. uint (stts_sample_delta r)) (fst (wk_stts w)) (snd (wk_stts w))"

definition walk_compositions :: "sample_tables \<Rightarrow> walk \<Rightarrow> int list" where
  "walk_compositions st w = (case st_compositions st of
     None \<Rightarrow> []
   | Some _ \<Rightarrow> runs_left ctts_sample_count (\<lambda>r. sint (ctts_sample_offset r)) (fst (wk_ctts w)) (snd (wk_ctts w)))"

definition walk_frame :: "sample_tables \<Rightarrow> bool \<Rightarrow> int \<Rightarrow> int \<Rightarrow> int \<Rightarrow> int \<times> 32 word \<Rightarrow> frame_header" where
  "walk_frame st audio t d c p =
     \<lparr>fh_offset = fst p, fh_size = uint (snd p), decoding_timestamp = c_div (t * 1000) (uint (st_time_scale st)),
      composition_offset_ms = c_div (c * 1000) (uint (st_time_scale st)),
      fh_duration = c_div (d * 1000) (uint (st_time_scale st)), fh_sample_index = t + c,
      fh_type = (if audio then AUDIO_FRAME else VIDEO_FRAME), fh_is_keyframe = False\<rparr>"

lemma unat_minus_1: "w \<noteq> 0 \<Longrightarrow> unat (w - 1 :: 'a::len word) = unat w - 1"
  by (metis unat_minus_one)

lemma sample_step_walk:
  assumes "sample_step st audio offset sz w = (f, w')"
  shows "f = walk_frame st audio (wk_decoding_time w) (head_or_0 (walk_deltas w))
      (head_or_0 (walk_compositions st w)) (offset, sz)"
    "wk_decoding_time w' = wk_decoding_time w + head_or_0 (walk_deltas w)"
    "walk_deltas w' = tl (walk_deltas w)" "walk_compositions st w' = tl (walk_compositions st w)"
proof -
  obtain ts tr where n: "next_run stts_sample_count (fst (wk_stts w)) (snd (wk_stts w)) = (ts, tr)" by force
  obtain cs cr where m: "next_run ctts_sample_count (fst (wk_ctts w)) (snd (wk_ctts w)) = (cs, cr)" by force
  note d = next_run_head[where val = "\<lambda>r. uint (stts_sample_delta r)", OF n]
  note c = next_run_head[where val = "\<lambda>r. sint (ctts_sample_offset r)", OF m]
  show "f = walk_frame st audio (wk_decoding_time w) (head_or_0 (walk_deltas w))
      (head_or_0 (walk_compositions st w)) (offset, sz)"
    "wk_decoding_time w' = wk_decoding_time w + head_or_0 (walk_deltas w)"
    using assms d(1) c(1) n m
    by (auto simp: sample_step_def walk_frame_def walk_deltas_def walk_compositions_def head_or_0_def Let_def
        split: option.splits if_splits)
  have w': "wk_stts w' = (ts, if stts_sample_count tr \<noteq> 0
      then tr\<lparr>stts_sample_count := stts_sample_count tr - 1\<rparr> else tr)"
    using assms n m by (auto simp: sample_step_def Let_def split: option.splits if_splits)
  show "walk_deltas w' = tl (walk_deltas w)"
    using d(2,3) by (auto simp: walk_deltas_def w' runs_left_def unat_minus_1)
  show "walk_compositions st w' = tl (walk_compositions st w)"
  proof (cases "st_compositions st")
    case (Some rs)
    then have w': "wk_ctts w' = (cs, if ctts_sample_count cr \<noteq> 0
        then cr\<lparr>ctts_sample_count := ctts_sample_count cr - 1\<rparr> else cr)"
      using assms n m by (auto simp: sample_step_def Let_def split: option.splits if_splits)
    show ?thesis
      using c(2,3) Some by (auto simp: walk_compositions_def w' runs_left_def unat_minus_1)
  qed (simp add: walk_compositions_def)
qed

fun walk_frames :: "sample_tables \<Rightarrow> bool \<Rightarrow> int \<Rightarrow> int list \<Rightarrow> int list \<Rightarrow> (int \<times> 32 word) list \<Rightarrow> frame_header list" where
  "walk_frames st audio t ds cs [] = []"
| "walk_frames st audio t ds cs (p # ps) =
     walk_frame st audio t (head_or_0 ds) (head_or_0 cs) p
       # walk_frames st audio (t + head_or_0 ds) (tl ds) (tl cs) ps"

fun walk_after :: "nat \<Rightarrow> int \<Rightarrow> int list \<Rightarrow> int" where
  "walk_after 0 t ds = t"
| "walk_after (Suc k) t ds = walk_after k (t + head_or_0 ds) (tl ds)"

lemma walk_frames_append:
  "walk_frames st audio t ds cs (ps @ qs) = walk_frames st audio t ds cs ps
     @ walk_frames st audio (walk_after (length ps) t ds) (drop (length ps) ds) (drop (length ps) cs) qs"
  by (induction ps arbitrary: t ds cs) (auto simp: drop_Suc)

lemma length_place_chunk [simp]: "length (place_chunk offset szs) = length szs"
  by (induction szs arbitrary: offset) auto

lemma chunk_samples_walk:
  assumes "chunk_samples st audio k offset szs w = (fs, rest, w')"
  shows "fs = walk_frames st audio (wk_decoding_time w) (walk_deltas w) (walk_compositions st w)
        (place_chunk offset (take k szs))"
    "rest = drop k szs"
    "wk_decoding_time w' = walk_after (length (take k szs)) (wk_decoding_time w) (walk_deltas w)"
    "walk_deltas w' = drop (length (take k szs)) (walk_deltas w)"
    "walk_compositions st w' = drop (length (take k szs)) (walk_compositions st w)"
  using assms
proof (induction st audio k offset szs w arbitrary: fs rest w' rule: chunk_samples.induct)
  case (1 st audio k offset sz szs w)
  obtain f w1 where s: "sample_step st audio offset sz w = (f, w1)" by force
  obtain fs1 rest1 w2 where r: "chunk_samples st audio k (offset + uint sz) szs w1 = (fs1, rest1, w2)"
    by (metis prod_cases3)
  note ih = "1.IH"[OF s[symmetric] refl r] and step = sample_step_walk[OF s]
  { case 1 then show ?case using s r ih step by simp }
  { case 2 then show ?case using s r ih step by simp }
  { case 3 then show ?case using s r ih step by simp }
  { case 4 then show ?case using s r ih step by (simp add: drop_Suc tl_drop) }
  { case 5 then show ?case using s r ih step by (simp add: drop_Suc tl_drop) }
qed auto

text \<open>The records of the chunks are current when their chunk comes.\<close>

lemma next_chunk_record_count:
  assumes "cs \<noteq> []" "sorted_wrt (<) (map first_chunk cs)" "first_chunk (hd cs) \<le> ci"
    "\<And>c d ds. cs = c # d # ds \<Longrightarrow> ci \<le> first_chunk d"
  shows "\<exists>cs'. next_chunk_record ci cs = Some cs' \<and> cs' \<noteq> [] \<and> sorted_wrt (<) (map first_chunk cs')
    \<and> first_chunk (hd cs') \<le> ci \<and> unat (samples_per_chunk (hd cs')) = chunk_count cs (unat ci)
    \<and> (\<forall>n \<ge> unat ci. chunk_count cs' n = chunk_count cs n)
    \<and> (\<forall>c d ds. cs' = c # d # ds \<longrightarrow> ci < first_chunk d)"
proof (cases cs rule: remdups_adj.cases)
  case 1
  then show ?thesis using assms(1) by simp
next
  case (2 r)
  then show ?thesis using assms by (simp add: next_chunk_record_def)
next
  case (3 c d ds)
  have *: "first_chunk c < first_chunk d" "ci \<le> first_chunk d" "first_chunk c \<le> ci"
    using assms(2,3) assms(4)[OF 3] 3 by auto
  show ?thesis
  proof (cases "first_chunk d = ci")
    case True
    have "unat (first_chunk d) \<le> n" if "unat ci \<le> n" for n using that True by simp
    moreover have "chunk_count (d # ds) (unat ci) = unat (samples_per_chunk d)"
    proof (cases ds)
      case (Cons e es)
      then have "ci < first_chunk e" using assms(2) 3 True by simp
      then show ?thesis using Cons by (simp add: word_less_nat_alt)
    qed simp
    ultimately show ?thesis using * 3 True assms(2)
      by (auto simp: next_chunk_record_def not_less)
  next
    case False
    then have "ci < first_chunk d" using * by simp
    then show ?thesis using * 3 False assms(2)
      by (auto simp: next_chunk_record_def not_less word_less_nat_alt word_le_nat_alt)
  qed
qed

lemma chunks_loop_walk:
  assumes "cs \<noteq> []" "sorted_wrt (<) (map first_chunk cs)" "first_chunk (hd cs) \<le> ci"
    "\<And>c d ds. cs = c # d # ds \<Longrightarrow> ci \<le> first_chunk d" "unat ci + length os < 2 ^ 32"
  shows "chunks_loop st audio ci os cs szs w = Some (walk_frames st audio (wk_decoding_time w) (walk_deltas w)
    (walk_compositions st w) (place_frames cs (unat ci) os szs))"
  using assms
proof (induction os arbitrary: ci cs szs w)
  case (Cons o1 os)
  obtain cs' where cs': "next_chunk_record ci cs = Some cs'" "cs' \<noteq> []" "sorted_wrt (<) (map first_chunk cs')"
      "first_chunk (hd cs') \<le> ci" "unat (samples_per_chunk (hd cs')) = chunk_count cs (unat ci)"
      "\<forall>n \<ge> unat ci. chunk_count cs' n = chunk_count cs n"
      "\<forall>c d ds. cs' = c # d # ds \<longrightarrow> ci < first_chunk d"
    using next_chunk_record_count[OF Cons.prems(1,2,3)] Cons.prems(4) by blast
  obtain fs rest w1 where s: "chunk_samples st audio (chunk_count cs (unat ci)) (uint o1) szs w = (fs, rest, w1)"
    by (metis prod_cases3)
  note walked = chunk_samples_walk[OF s]
  have suc: "unat (ci + 1) = unat ci + 1"
    using Cons.prems(5) by (simp add: unat_plus_if' )
  have "first_chunk (hd cs') \<le> ci + 1" "\<And>c d ds. cs' = c # d # ds \<Longrightarrow> ci + 1 \<le> first_chunk d"
    using cs'(4,7) suc by (auto simp: word_le_nat_alt word_less_nat_alt)
  then have ih: "chunks_loop st audio (ci + 1) os cs' rest w1 = Some (walk_frames st audio (wk_decoding_time w1)
      (walk_deltas w1) (walk_compositions st w1) (place_frames cs' (unat ci + 1) os rest))"
    using Cons.IH[OF cs'(2,3), of "ci + 1" rest w1] Cons.prems(5) suc by simp
  have counts: "unat ci \<le> n \<Longrightarrow> place_frames cs' n os' szs' = place_frames cs n os' szs'" for n os' szs'
    by (induction os' arbitrary: n szs') (use cs'(6) in auto)
  show ?case
    using cs'(1,5) s ih walked counts[of "unat ci + 1"]
    by (simp add: Let_def walk_frames_append)
qed simp

section \<open>Walking by index\<close>

lemma head_or_0_nth: "head_or_0 xs = nth_or_0 xs 0" "nth_or_0 (tl xs) i = nth_or_0 xs (Suc i)"
  by (cases xs; auto simp: head_or_0_def nth_or_0_def)+

lemma sum_take_Suc: "head_or_0 xs + sum_list (take i (tl xs)) = sum_list (take (Suc i) xs)"
  by (cases xs) (auto simp: head_or_0_def)

lemma walk_frames_nth:
  "walk_frames st audio t ds cs ps = map (\<lambda>i. walk_frame st audio (t + sum_list (take i ds)) (nth_or_0 ds i)
     (nth_or_0 cs i) (ps ! i)) [0..<length ps]"
proof (induction ps arbitrary: t ds cs)
  case (Cons p ps)
  have "map (\<lambda>i. walk_frame st audio (t + head_or_0 ds + sum_list (take i (tl ds))) (nth_or_0 (tl ds) i)
      (nth_or_0 (tl cs) i) (ps ! i)) [0..<length ps]
    = map (\<lambda>i. walk_frame st audio (t + sum_list (take i ds)) (nth_or_0 ds i) (nth_or_0 cs i) ((p # ps) ! i))
        (map Suc [0..<length ps])"
    by (simp add: head_or_0_nth sum_take_Suc [symmetric] add.assoc)
  then show ?case using Cons by (simp add: head_or_0_nth upt_conv_Cons map_Suc_upt del: upt_Suc)
qed simp

lemma set_keyframes_nth:
  "length (set_keyframes ks fs) = length fs"
  "i < length fs \<Longrightarrow> set_keyframes ks fs ! i =
     (if Suc i \<in> set (map unat ks) then (fs ! i)\<lparr>fh_is_keyframe := True\<rparr> else fs ! i)"
  unfolding set_keyframes_def
  by (induction ks arbitrary: fs) (auto simp: nth_list_update)

lemma c_div_nonneg: "0 \<le> a \<Longrightarrow> c_div a b = a div b"
  by (cases "a = 0") (auto simp: c_div_def)

text \<open>\<open>table_frames\<close> walks, \<open>reference_frames\<close> expands: they agree on tables in order.\<close>

lemma expand_runs_nonneg: "(\<And>r. 0 \<le> val r) \<Longrightarrow> \<forall>x \<in> set (expand_runs cnt val rs). 0 \<le> x"
  by (auto simp: expand_runs_def)

lemma table_frames_reference:
  assumes "good_tables st"
  shows "table_frames st audio = reference_frames st audio"
proof -
  let ?ps = "place_frames (st_chunks st) 1 (st_chunk_offsets st) (st_sizes st)"
  let ?ds = "expand_runs stts_sample_count (\<lambda>r. uint (stts_sample_delta r)) (st_times st)"
  let ?cs = "case st_compositions st of None \<Rightarrow> [] | Some rs \<Rightarrow> expand_runs ctts_sample_count (\<lambda>r. sint (ctts_sample_offset r)) rs"
  note g = assms[unfolded good_tables_def]
  have start: "1 \<le> first_chunk d" if "st_chunks st = c # d # ds" for c d ds
  proof -
    have "first_chunk c < first_chunk d" using g that by simp
    then show ?thesis by (metis linorder_not_le word_less_1 word_not_simps(1))
  qed
  have walk: "walk_deltas (first_walk st) = ?ds" "walk_compositions st (first_walk st) = ?cs"
      "wk_decoding_time (first_walk st) = 0"
    by (auto simp: walk_deltas_def walk_compositions_def first_walk_def runs_left_def split: option.splits)
  have "chunks_loop st audio 1 (st_chunk_offsets st) (st_chunks st) (st_sizes st) (first_walk st)
      = Some (walk_frames st audio 0 ?ds ?cs ?ps)"
    using chunks_loop_walk[of "st_chunks st" 1 "st_chunk_offsets st" st audio "st_sizes st" "first_walk st"] g start
    unfolding walk by simp
  then have "table_frames st audio = (case st_keyframes st of None \<Rightarrow> walk_frames st audio 0 ?ds ?cs ?ps
      | Some ks \<Rightarrow> set_keyframes ks (walk_frames st audio 0 ?ds ?cs ?ps))"
    using g by (simp add: table_frames_def del: One_nat_def)
  also have "\<dots> = reference_frames st audio"
  proof (rule nth_equalityI)
    show "length (case st_keyframes st of None \<Rightarrow> walk_frames st audio 0 ?ds ?cs ?ps
        | Some ks \<Rightarrow> set_keyframes ks (walk_frames st audio 0 ?ds ?cs ?ps)) = length (reference_frames st audio)"
      by (auto simp: reference_frames_def walk_frames_nth set_keyframes_nth Let_def split: option.splits)
  next
    fix i assume "i < length (case st_keyframes st of None \<Rightarrow> walk_frames st audio 0 ?ds ?cs ?ps
        | Some ks \<Rightarrow> set_keyframes ks (walk_frames st audio 0 ?ds ?cs ?ps))"
    then have i: "i < length ?ps"
      by (auto simp: walk_frames_nth set_keyframes_nth split: option.splits)
    have pos: "\<forall>d \<in> set ?ds. 0 \<le> d" by (rule expand_runs_nonneg) simp
    then have "0 \<le> sum_list (take i ?ds)" by (intro sum_list_nonneg) (auto dest: in_set_takeD)
    moreover have "0 \<le> nth_or_0 ?ds i" using pos by (auto simp: nth_or_0_def)
    ultimately show "(case st_keyframes st of None \<Rightarrow> walk_frames st audio 0 ?ds ?cs ?ps
        | Some ks \<Rightarrow> set_keyframes ks (walk_frames st audio 0 ?ds ?cs ?ps)) ! i = reference_frames st audio ! i"
      using i by (auto simp: reference_frames_def walk_frames_nth set_keyframes_nth walk_frame_def
          reference_frame_def Let_def c_div_nonneg split: option.splits)
  qed
  finally show ?thesis .
qed

section \<open>Merging\<close>

lemma mset_merge_frames: "mset (merge_frames as vs) = mset as + mset vs"
  by (induction as vs rule: merge_frames.induct) auto

lemma merge_frames_sorted:
  assumes "sorted (map fh_offset as)" "sorted (map fh_offset vs)"
  shows "sorted (map fh_offset (merge_frames as vs))"
proof -
  have sets: "set (merge_frames as vs) = set as \<union> set vs" for as vs
    using arg_cong[OF mset_merge_frames, of set_mset as vs] by simp
  show ?thesis using assms
    by (induction as vs rule: merge_frames.induct) (auto simp: sets)
qed

end
