(* ===== verification/F4vFile.thy ===== *)
theory F4vFile
  imports F4vRoundtrip F4vPlayback F4vFrameLaws
begin

text \<open>
  A file of a movie and its data: what the decoder reads from what the encoder wrote, tag after
  tag and frame after frame.
\<close>

section \<open>Frames do not depend on sizes\<close>

text \<open>An atom without its sizes and positions.\<close>

definition no_info :: atom_info where
  "no_info = \<lparr>at_body_size = 0, force_extended_size = False, at_position = 0\<rparr>"

fun bare :: "f4v_atom \<Rightarrow> f4v_atom" where
  "bare (LeafAtom i b) = LeafAtom no_info b"
| "bare (ContainerAtom i t subs) = ContainerAtom no_info t (map bare subs)"
| "bare (ContainerVersionedAtom i v fl d subs) = ContainerVersionedAtom no_info v fl d (map bare subs)"

lemma bare_normal: "bare (normal a) = bare a"
  by (induction a) auto

lemma bare_UpdateSize: "bare (atom_UpdateSize a) = bare a"
  by (induction a) (auto simp: Let_def)

lemma bare_parts [simp]:
  "at_type (bare a) = at_type a" "at_subatoms (bare a) = map bare (at_subatoms a)"
  "atom_tkhd (bare a) = atom_tkhd a" "versioned_of (bare a) = versioned_of a"
proof -
  show "at_type (bare a) = at_type a" "at_subatoms (bare a) = map bare (at_subatoms a)" by (cases a; simp)+
  show "atom_tkhd (bare a) = atom_tkhd a" by (cases a rule: atom_tkhd.cases) auto
  show "versioned_of (bare a) = versioned_of a" by (cases a rule: versioned_of.cases) auto
qed

lemma find_map: "List.find P (map f xs) = map_option f (List.find (\<lambda>x. P (f x)) xs)"
  by (induction xs) auto

lemma bare_subatoms:
  "last_subatom t (bare a) = map_option bare (last_subatom t a)"
  "first_subatom t (bare a) = map_option bare (first_subatom t a)"
  "track_atom t (bare a) = track_atom t a"
  "moov_traks (bare a) = map bare (moov_traks a)"
proof -
  show last: "last_subatom t (bare a) = map_option bare (last_subatom t a)"
    by (simp add: last_subatom_def rev_map find_map)
  show "first_subatom t (bare a) = map_option bare (first_subatom t a)"
    by (simp add: first_subatom_def find_map)
  show "track_atom t (bare a) = track_atom t a"
    by (cases "last_subatom t a") (simp_all add: track_atom_def last)
  show "moov_traks (bare a) = map bare (moov_traks a)"
    by (simp add: moov_traks_def filter_map comp_def)
qed

lemma bare_trak: "moov_trak audio (bare a) = map_option bare (moov_trak audio a)"
proof -
  have "Option.bind (last_subatom ATOM_TKHD (bare x)) atom_tkhd = Option.bind (last_subatom ATOM_TKHD x) atom_tkhd" for x
    by (cases "last_subatom ATOM_TKHD x") (simp_all add: bare_subatoms)
  then show ?thesis by (simp add: moov_trak_def bare_subatoms find_map)
qed

lemma bind_map_option: "Option.bind (map_option f x) g = Option.bind x (\<lambda>y. g (f y))"
  by (cases x) auto

lemma extract_tables_bare: "extract_tables (bare a) audio = extract_tables a audio"
  unfolding extract_tables_def bare_trak bare_subatoms bind_map_option bind_assoc bare_parts ..

lemma movie_frames_bare: "bare a = bare b \<Longrightarrow> movie_frames a = movie_frames b"
  using extract_tables_bare unfolding movie_frames_def ExtractFrames_def by metis

section \<open>The data atom\<close>

lemma ReadAtom_mdat:
  assumes "mdat_atom d = None" "is_topmost_atom d" "\<not> mdat_split_raw_frames d" "moov_atom d \<noteq> None"
    "at_size i < 2 ^ 31" "at_body_size i \<le> length s" "h = HeaderSize (is_extended_size i)"
  shows "\<exists>m. at_type m = ATOM_MDAT \<and> atom_Encode m = Some (encode_header i ATOM_MDAT) \<and> ReadAtom d (encode_header i ATOM_MDAT @ s)
    = Some (Inr m, s, d\<lparr>stream_size_on_topmost := length (encode_header i ATOM_MDAT @ s),
        stream_position := stream_position d + h, mdat_atom := Some m,
        mdat_begin := int (stream_position d) + int h, mdat_end := int (stream_position d) + int (at_size i),
        mdat_offset := int (stream_position d) + int h\<rparr>)"
proof -
  let ?n = "length (encode_header i ATOM_MDAT @ s)"
  define j where "j = \<lparr>at_body_size = at_size i - h, force_extended_size = False, at_position = stream_position d\<rparr>"
  define m where "m = (if h = 16 then set_force_extended (LeafAtom j MdatAtom) else LeafAtom j MdatAtom)"
  have size: "at_size i = h + at_body_size i" using assms(7) by (simp add: at_size_def)
  have ext: "h = 16 \<longleftrightarrow> is_extended_size i" using assms(7) by (simp add: HeaderSize_def)
  have m: "at_type m = ATOM_MDAT" "at_position (at_info m) = stream_position d" "at_size (at_info m) = at_size i"
    using size ext assms(7) by (auto simp: m_def j_def at_size_def is_extended_size_def HeaderSize_def)
  have same: "is_extended_size (at_info m) = is_extended_size i"
    using size ext assms(7) by (auto simp: m_def j_def is_extended_size_def HeaderSize_def)
  have encode: "atom_Encode m = Some (encode_header i ATOM_MDAT)"
  proof -
    have "m = LeafAtom (at_info m) MdatAtom" by (simp add: m_def)
    then have "atom_Encode m = atom_Encode (LeafAtom (at_info m) MdatAtom)" by (rule arg_cong)
    also have "\<dots> = Some (encode_header (at_info m) ATOM_MDAT)" by (simp add: finish_atom_def)
    finally show ?thesis using m(3) same by (simp add: encode_header_def)
  qed
  have head: "read_atom_header (encode_header i ATOM_MDAT @ s) = Some (Inr (ATOM_MDAT, h, at_size i), s)"
    using read_atom_header_encode[OF assms(5,6)] assms(7) by simp
  have long: "\<not> ?n < 8" by (simp add: length_encode_header HeaderSize_def)
  have decode: "Atom_Decode rd x ATOM_MDAT k e s = Some (Inr (LeafAtom x MdatAtom), s, e)" for rd x k e
    by (simp add: Atom_Decode_def Atom_DecodeBody_def atom_codes container_types_def container_versioned_types_def
        leaf_Decode_def rd_ok_def)
  have "ReadAtom d (encode_header i ATOM_MDAT @ s) = accept_atom h s m
      (d\<lparr>stream_size_on_topmost := ?n, stream_position := stream_position d + h\<rparr>)"
    using assms(1,2) head long decode
    by (cases d) (simp add: ReadAtom_def ReadAtom_step_def Let_def m_def j_def)
  then show ?thesis using m assms(1,3,4) encode
    by (intro exI[of _ m]) (auto simp: accept_atom_def atom_codes)
qed

section \<open>A movie and its data\<close>

lemma movie_then_mdat:
  assumes moov: "good_tree moov" "no_media moov" "at_type moov = ATOM_MOOV" "MeasureSize moov < 2 ^ 31"
    and mdat: "at_body_size i = length D" "at_size i < 2 ^ 31"
  shows "\<exists>bs a m d1 d2. atom_Encode (atom_UpdateSize moov) = Some bs \<and> length bs = MeasureSize moov
    \<and> ReadTag Decoder_new (bs @ encode_header i ATOM_MDAT @ D) = Some (Inr (AtomTag a), encode_header i ATOM_MDAT @ D, d1)
    \<and> atom_Equals a (atom_UpdateSize moov) \<and> atom_Encode a = Some bs
    \<and> ReadTag d1 (encode_header i ATOM_MDAT @ D) = Some (Inr (AtomTag m), D, d2) \<and> at_type m = ATOM_MDAT
    \<and> atom_Encode m = Some (encode_header i ATOM_MDAT)
    \<and> mdat_atom d2 = Some m \<and> mdat_frames d2 = movie_frames moov \<and> mdat_next d2 = 0
    \<and> mdat_offset d2 = int (length (bs @ encode_header i ATOM_MDAT))
    \<and> mdat_end d2 = int (length (bs @ encode_header i ATOM_MDAT @ D))
    \<and> stream_position d2 = length (bs @ encode_header i ATOM_MDAT)"
proof -
  let ?h = "encode_header i ATOM_MDAT" and ?u = "atom_UpdateSize moov"
  obtain bs where bs: "atom_Encode ?u = Some bs" "length bs = MeasureSize moov"
    using atom_Encode_good[of ?u] moov
    by (auto simp: atom_UpdateSize_good_tree atom_UpdateSize_sizes_ok atom_UpdateSize_MeasureSize)
  let ?n = "length (bs @ ?h @ D)"
  obtain a where a: "normal a = normal ?u" "at_type a = ATOM_MOOV"
      "ReadAtom Decoder_new (bs @ ?h @ D) = accept_atom (HeaderSize (is_extended_size (at_info ?u))) (?h @ D) a
        (end_atom ?n (length bs) Decoder_new)"
    using ReadAtom_topmost[of ?u Decoder_new bs "?h @ D"] moov bs(1)
    by (auto simp: atom_UpdateSize_good_tree atom_UpdateSize_sizes_ok atom_UpdateSize_MeasureSize
        atom_UpdateSize_no_media Decoder_new_def)
  have frames: "movie_frames a = movie_frames moov"
    by (rule movie_frames_bare) (metis a(1) bare_normal bare_UpdateSize)
  define d1 where "d1 = Decoder_new\<lparr>stream_size_on_topmost := ?n, stream_position := length bs,
    moov_atom := Some a, mdat_frames := movie_frames moov\<rparr>"
  have first: "ReadTag Decoder_new (bs @ ?h @ D) = Some (Inr (AtomTag a), ?h @ D, d1)"
    using a(2,3) frames
    by (simp add: ReadTag_def read_atom_tag_def accept_atom_def end_atom_def BuildFrames_def d1_def Decoder_new_def)
  have size: "at_size i = HeaderSize (is_extended_size i) + length D" using mdat(1) by (simp add: at_size_def)
  obtain m where m: "at_type m = ATOM_MDAT" "atom_Encode m = Some ?h" "ReadAtom d1 (?h @ D)
      = Some (Inr m, D, d1\<lparr>stream_size_on_topmost := length (?h @ D),
        stream_position := stream_position d1 + HeaderSize (is_extended_size i), mdat_atom := Some m,
        mdat_begin := int (stream_position d1) + int (HeaderSize (is_extended_size i)),
        mdat_end := int (stream_position d1) + int (at_size i),
        mdat_offset := int (stream_position d1) + int (HeaderSize (is_extended_size i))\<rparr>)"
    using ReadAtom_mdat[of d1 i D] mdat by (auto simp: d1_def Decoder_new_def)
  define d2 where "d2 = d1\<lparr>stream_size_on_topmost := length (?h @ D),
        stream_position := stream_position d1 + HeaderSize (is_extended_size i), mdat_atom := Some m,
        mdat_begin := int (stream_position d1) + int (HeaderSize (is_extended_size i)),
        mdat_end := int (stream_position d1) + int (at_size i),
        mdat_offset := int (stream_position d1) + int (HeaderSize (is_extended_size i))\<rparr>"
  have "mdat_atom d1 = None" by (simp add: d1_def Decoder_new_def)
  then have second: "ReadTag d1 (?h @ D) = Some (Inr (AtomTag m), D, d2)"
    using m(3) by (simp add: ReadTag_def read_atom_tag_def d2_def)
  have d2: "mdat_atom d2 = Some m" "mdat_frames d2 = movie_frames moov" "mdat_next d2 = 0"
      "mdat_offset d2 = int (length (bs @ ?h))" "mdat_end d2 = int (length (bs @ ?h @ D))"
      "stream_position d2 = length (bs @ ?h)"
    by (simp_all add: d2_def d1_def Decoder_new_def length_encode_header size)
  have "atom_Encode a = Some bs" using normal_Encode[OF a(1)] bs(1) by simp
  then show ?thesis using bs first normal_Equals[OF a(1)] second m(1,2) d2 by blast
qed

section \<open>An example\<close>

text \<open>A movie with one video track: three samples in two chunks.\<close>

definition demo_leaf :: "versioned_body \<Rightarrow> f4v_atom" where
  "demo_leaf b = LeafAtom no_info (VersionedAtom 0 [0, 0, 0] b)"

definition demo_moov :: f4v_atom where
  "demo_moov = ContainerAtom no_info ATOM_MOOV [ContainerAtom no_info ATOM_TRAK
     [demo_leaf (TkhdAtom \<lparr>tkhd_creation_time = 0, tkhd_modification_time = 0, tkhd_id = 1,
        tkhd_reserved1 = replicate 4 0, tkhd_duration = 0, tkhd_reserved2 = replicate 8 0, tkhd_layer = 0,
        alternate_group = 0, tkhd_volume = 0, tkhd_reserved3 = [0, 0], tkhd_matrix_structure = replicate 36 0,
        tkhd_width = \<lparr>fp_integer = 320, fp_fraction = 0\<rparr>, tkhd_height = \<lparr>fp_integer = 240, fp_fraction = 0\<rparr>\<rparr>),
      ContainerAtom no_info ATOM_MDIA
       [demo_leaf (MdhdAtom \<lparr>mdhd_creation_time = 0, mdhd_modification_time = 0, mdhd_time_scale = 1000,
          mdhd_duration = 0, mdhd_language = 0, mdhd_reserved = [0, 0]\<rparr>),
        ContainerAtom no_info ATOM_MINF [ContainerAtom no_info ATOM_STBL
         [demo_leaf (StszAtom 0 [3, 2, 4]), demo_leaf (StcoAtom [312, 318]),
          demo_leaf (StscAtom [\<lparr>first_chunk = 1, samples_per_chunk = 2, sample_description_index = 1\<rparr>,
            \<lparr>first_chunk = 2, samples_per_chunk = 1, sample_description_index = 1\<rparr>]),
          demo_leaf (SttsAtom [\<lparr>stts_sample_count = 3, stts_sample_delta = 40\<rparr>]),
          demo_leaf (StssAtom [1])]]]]]"

definition demo_frame :: "int \<Rightarrow> int \<Rightarrow> int \<Rightarrow> bool \<Rightarrow> frame_header" where
  "demo_frame offset n ts key = \<lparr>fh_offset = offset, fh_size = n, decoding_timestamp = ts, composition_offset_ms = 0,
     fh_duration = 40, fh_sample_index = ts, fh_type = VIDEO_FRAME, fh_is_keyframe = key\<rparr>"

lemma demo_moov_good: "good_tree demo_moov" "no_media demo_moov" "at_type demo_moov = ATOM_MOOV"
  "MeasureSize demo_moov = 304"
  by (simp_all add: demo_moov_def demo_leaf_def no_info_def MeasureSize_def HeaderSize_def IsExtendedSize_def
      kMaxUInt32_def atom_codes container_types_def MultiRecord_Measure_def good_tkhd_def good_mdhd_def good_stsz_def
      Stsz_Measure_def Tkhd_Measure_def Mdhd_Measure_def time_fits_def)

lemma demo_tables: "extract_tables demo_moov False = Some \<lparr>st_time_scale = 1000, st_sizes = [3, 2, 4],
    st_chunk_offsets = [312, 318], st_chunks = [\<lparr>first_chunk = 1, samples_per_chunk = 2, sample_description_index = 1\<rparr>,
      \<lparr>first_chunk = 2, samples_per_chunk = 1, sample_description_index = 1\<rparr>],
    st_times = [\<lparr>stts_sample_count = 3, stts_sample_delta = 40\<rparr>], st_compositions = None, st_keyframes = Some [1]\<rparr>"
    "extract_tables demo_moov True = None"
  by (simp_all add: demo_moov_def demo_leaf_def extract_tables_def moov_trak_def moov_traks_def last_subatom_def
      first_subatom_def track_atom_def atom_codes)

lemma chunk_samples_2: "chunk_samples st audio 2 offset szs w = chunk_samples st audio (Suc (Suc 0)) offset szs w"
  by (simp add: numeral_2_eq_2)

lemma demo_frames: "movie_frames demo_moov
    = [demo_frame 312 3 0 True, demo_frame 315 2 40 False, demo_frame 318 4 80 False]"
  by (simp add: movie_frames_def ExtractFrames_def demo_tables table_frames_def first_walk_def next_chunk_record_def
      sample_step_def c_div_def set_keyframes_def demo_frame_def Let_def chunk_samples_2 word_le_nat_alt word_less_nat_alt)

text \<open>
  C11.  A decoder that was never told to split, that read anything before and may have been made
  to seek to frames that begin in the data of the \<^verbatim>\<open>mdat\<close> in which it is, reads frames to the
  end of that data when all of it is there: no \<^verbatim>\<open>CHECK\<close> fails, the frames lie one behind the
  other from the current offset to the end, their data together are the data in the stream, and
  then the decoder is cleared of frames.  When the frames of the movie do not overlap, those
  from the next one on that lie in the data are delivered as they are, all of them and in order;
  everything else comes as raw frames.  After a seek to a frame outside of the data a
  \<^verbatim>\<open>CHECK\<close> does fail (\<open>seek_outside_fails\<close>).
\<close>

theorem ReadFrame_covers_mdat:
  assumes "decoder_reached d" "mdat_atom d \<noteq> None" "n = nat (mdat_end d - mdat_offset d)" "n \<le> length s"
  shows "\<exists>fs. ReadFrames (Suc (length (mdat_frames d) + n)) d s
        = Some (fs, drop n s, ClearFrames (d\<lparr>stream_position := stream_position d + n\<rparr>))
    \<and> tiles (mdat_offset d) fs (mdat_end d) \<and> concat (map snd fs) = take n s
    \<and> (apart (drop (mdat_next d) (mdat_frames d)) \<longrightarrow> filter (\<lambda>f. fh_type f \<noteq> RAW_FRAME) (map fst fs)
        = filter (inside (mdat_offset d) (mdat_end d)) (drop (mdat_next d) (mdat_frames d)))"
  by (rule ReadFrames_all[OF decoder_reached_ok]) (use assms in auto)

text \<open>The bytes in the data of the movie are 12; the last two and one between the frames are in no frame.\<close>

definition demo_data :: bytes where
  "demo_data = [1, 2, 3, 4, 5, 6, 7, 8, 9, 10, 11, 12]"

definition demo_mdat :: atom_info where
  "demo_mdat = \<lparr>at_body_size = 12, force_extended_size = False, at_position = 0\<rparr>"

lemma demo_mdat_size: "at_size demo_mdat = 20" "at_body_size demo_mdat = length demo_data"
    "length (encode_header demo_mdat t) = 8"
  by (simp_all add: demo_mdat_def demo_data_def at_size_def is_extended_size_def IsExtendedSize_def kMaxUInt32_def
      HeaderSize_def length_encode_header)

lemma ReadFrame_covers_mdat_witness:
  "\<exists>d fs. mdat_frames d = [demo_frame 312 3 0 True, demo_frame 315 2 40 False, demo_frame 318 4 80 False]
    \<and> ReadFrames 16 d (demo_data @ [0, 0]) = Some (fs, [0, 0], ClearFrames (d\<lparr>stream_position := 324\<rparr>))
    \<and> tiles 312 fs 324 \<and> concat (map snd fs) = demo_data
    \<and> filter (\<lambda>f. fh_type f \<noteq> RAW_FRAME) (map fst fs) = mdat_frames d
    \<and> (\<exists>d3 gs. SeekToFrame d 1 False = Some (1, 315, d3) \<and> tiles 315 gs 324
      \<and> ReadFrames 13 d3 (drop 3 demo_data) = Some (gs, [], ClearFrames (d3\<lparr>stream_position := 321\<rparr>)))"
proof -
  let ?h = "encode_header demo_mdat ATOM_MDAT"
  have small: "at_size demo_mdat < 2 ^ 31" "MeasureSize demo_moov < 2 ^ 31" by (simp_all add: demo_mdat_size demo_moov_good)
  obtain bs a m d1 d2 where f: "length bs = MeasureSize demo_moov"
      "ReadTag Decoder_new (bs @ ?h @ demo_data) = Some (Inr (AtomTag a), ?h @ demo_data, d1)"
      "ReadTag d1 (?h @ demo_data) = Some (Inr (AtomTag m), demo_data, d2)" "mdat_atom d2 = Some m"
      "mdat_frames d2 = movie_frames demo_moov" "mdat_next d2 = 0" "mdat_offset d2 = int (length (bs @ ?h))"
      "mdat_end d2 = int (length (bs @ ?h @ demo_data))" "stream_position d2 = length (bs @ ?h)"
    using movie_then_mdat[OF demo_moov_good(1-3) small(2) demo_mdat_size(2) small(1)] by blast
  have lengths: "length (bs @ ?h) = 312" "length (bs @ ?h @ demo_data) = 324"
    by (simp_all add: f(1) demo_moov_good demo_mdat_size demo_data_def)
  have place: "mdat_offset d2 = 312" "mdat_end d2 = 324" "stream_position d2 = 312"
    unfolding f(7-9) lengths by simp_all
  have frames: "mdat_frames d2 = [demo_frame 312 3 0 True, demo_frame 315 2 40 False, demo_frame 318 4 80 False]"
    by (simp add: f(5) demo_frames)
  have d2: "decoder_reached d2" by (intro reached_tag[OF reached_tag[OF reached_new f(2)] f(3)])
  obtain fs where "ReadFrames 16 d2 (demo_data @ [0, 0]) = Some (fs, [0, 0], ClearFrames (d2\<lparr>stream_position := 324\<rparr>))"
      "tiles 312 fs 324" "concat (map snd fs) = demo_data"
      "apart (mdat_frames d2) \<longrightarrow> filter (\<lambda>f. fh_type f \<noteq> RAW_FRAME) (map fst fs) = filter (inside 312 324) (mdat_frames d2)"
    using ReadFrame_covers_mdat[of d2 12 "demo_data @ [0, 0]"] d2 f(4,6) place frames
    by (auto simp: demo_data_def simp del: filter.simps)
  moreover have "apart (mdat_frames d2)" "filter (inside 312 324) (mdat_frames d2) = mdat_frames d2"
    by (simp_all add: frames demo_frame_def apart_def inside_def)
  moreover obtain d3 gs where "SeekToFrame d2 1 False = Some (1, 315, d3)" "tiles 315 gs 324"
      "ReadFrames 13 d3 (drop 3 demo_data) = Some (gs, [], ClearFrames (d3\<lparr>stream_position := 321\<rparr>))"
  proof -
    let ?d3 = "d2\<lparr>mdat_next := 1, mdat_offset := 315, mdat_prev_frame := None\<rparr>"
    have seek: "SeekToFrame d2 1 False = Some (1, 315, ?d3)" by (simp add: SeekToFrame_def f(4) frames demo_frame_def)
    have "mdat_begin d2 \<le> 312" using decoder_reached_ok[OF d2] f(4) place by (simp add: decoder_ok_def mdat_ok_def)
    then have "decoder_reached ?d3" using reached_seek[OF d2 seek] place by simp
    then show thesis
      using that[OF seek] ReadFrame_covers_mdat[of ?d3 9 "drop 3 demo_data"] f(4) place frames by (auto simp: demo_data_def)
  qed
  ultimately show ?thesis using frames by metis
qed

text \<open>
  C9.  A file that the encoder wrote of a movie and of an \<^verbatim>\<open>mdat\<close> with its data is read back
  by a new decoder: a movie equal to the one written, the \<^verbatim>\<open>mdat\<close>, and then frames that cover
  the data from its first to its last byte, after which the decoder is at the end of the file.
  Writing these tags again gives the file, byte for byte.  When the frames that the sample
  tables describe do not overlap, the decoder delivers those that lie in the data, all of them
  and in order, and raw frames between them.  The movie is \<open>good_tree\<close> and \<open>no_media\<close>, as for
  \<^verbatim>\<open>ReadAtom\<close>: among others no \<^verbatim>\<open>stsz\<close> of a uniform size with records, no \<^verbatim>\<open>esds\<close> made by
  setters, and no name that is too long or begins with a control byte.
\<close>

theorem F4v_file_read_back:
  assumes "good_tree moov" "no_media moov" "at_type moov = ATOM_MOOV" "MeasureSize moov < 2 ^ 31"
    and "mdat = LeafAtom i MdatAtom" "at_body_size i = length D" "at_size i < 2 ^ 31"
    and tags: "WriteTag (AtomTag (atom_UpdateSize moov)) = Some bs" "WriteTag (AtomTag mdat) = Some hs"
  shows "\<exists>a m d1 d2 fs d3. ReadTag Decoder_new (bs @ hs @ D) = Some (Inr (AtomTag a), hs @ D, d1)
    \<and> atom_Equals a (atom_UpdateSize moov) \<and> ReadTag d1 (hs @ D) = Some (Inr (AtomTag m), D, d2)
    \<and> ReadFrames (Suc (length (movie_frames moov) + length D)) d2 D = Some (fs, [], d3)
    \<and> stream_position d3 = length (bs @ hs @ D) \<and> mdat_atom d3 = None
    \<and> tiles (int (length (bs @ hs))) fs (int (length (bs @ hs @ D)))
    \<and> map_option concat (those (map WriteTag ([AtomTag a, AtomTag m] @ map (case_prod FrameTag) fs))) = Some (bs @ hs @ D)
    \<and> (apart (movie_frames moov) \<longrightarrow> filter (\<lambda>f. fh_type f \<noteq> RAW_FRAME) (map fst fs)
        = filter (inside (int (length (bs @ hs))) (int (length (bs @ hs @ D)))) (movie_frames moov))"
proof -
  let ?h = "encode_header i ATOM_MDAT"
  have hs: "hs = ?h" using tags(2) assms(5) by (simp add: WriteTag_def finish_atom_def)
  obtain a m d1 d2 where f: "ReadTag Decoder_new (bs @ ?h @ D) = Some (Inr (AtomTag a), ?h @ D, d1)"
      "atom_Equals a (atom_UpdateSize moov)" "ReadTag d1 (?h @ D) = Some (Inr (AtomTag m), D, d2)" "mdat_atom d2 = Some m"
      "mdat_frames d2 = movie_frames moov" "mdat_next d2 = 0" "mdat_offset d2 = int (length (bs @ ?h))"
      "mdat_end d2 = int (length (bs @ ?h @ D))" "stream_position d2 = length (bs @ ?h)"
      "atom_Encode a = Some bs" "atom_Encode m = Some ?h"
    using movie_then_mdat[OF assms(1-4,6,7)] tags(1) by (auto simp: WriteTag_def)
  let ?d3 = "ClearFrames (d2\<lparr>stream_position := stream_position d2 + length D\<rparr>)"
  have "decoder_ok d2"
    using f(1,3) by (intro decoder_reached_ok reached_tag[OF reached_tag[OF reached_new]])
  then obtain fs where fs: "ReadFrames (Suc (length (movie_frames moov) + length D)) d2 D = Some (fs, [], ?d3)"
      "tiles (mdat_offset d2) fs (mdat_end d2)" "concat (map snd fs) = D"
      "apart (movie_frames moov) \<longrightarrow> filter (\<lambda>f. fh_type f \<noteq> RAW_FRAME) (map fst fs)
        = filter (inside (mdat_offset d2) (mdat_end d2)) (movie_frames moov)"
    using ReadFrames_all[of d2 "length D" D "Suc (length (movie_frames moov) + length D)"] f(4-8) by auto
  have "map WriteTag (map (case_prod FrameTag) fs) = map (Some \<circ> snd) fs" by (simp add: WriteTag_def split_beta)
  then have "those (map WriteTag ([AtomTag a, AtomTag m] @ map (case_prod FrameTag) fs)) = Some ([bs, ?h] @ map snd fs)"
    using f(10,11) by (subst those_Some) (simp add: WriteTag_def)
  then have "map_option concat (those (map WriteTag ([AtomTag a, AtomTag m] @ map (case_prod FrameTag) fs)))
      = Some (bs @ ?h @ D)"
    using fs(3) by simp
  moreover have "stream_position ?d3 = length (bs @ ?h @ D)" "mdat_atom ?d3 = None"
    using f(9) by (simp_all add: ClearFrames_def)
  ultimately show ?thesis unfolding hs using f(1-3) fs(1,2,4) unfolding f(7,8) by metis
qed

lemma demo_moov_written: "\<exists>bs hs. WriteTag (AtomTag (atom_UpdateSize demo_moov)) = Some bs
    \<and> WriteTag (AtomTag (LeafAtom demo_mdat MdatAtom)) = Some hs"
  using atom_Encode_good[of "atom_UpdateSize demo_moov"]
  by (auto simp: WriteTag_def atom_UpdateSize_good_tree atom_UpdateSize_sizes_ok demo_moov_good finish_atom_def)

lemma F4v_file_read_back_witness:
  "\<exists>bs hs a m d1 d2 fs d3. WriteTag (AtomTag (atom_UpdateSize demo_moov)) = Some bs
    \<and> ReadTag Decoder_new (bs @ hs @ demo_data) = Some (Inr (AtomTag a), hs @ demo_data, d1)
    \<and> ReadTag d1 (hs @ demo_data) = Some (Inr (AtomTag m), demo_data, d2)
    \<and> ReadFrames 16 d2 demo_data = Some (fs, [], d3)
    \<and> map_option concat (those (map WriteTag ([AtomTag a, AtomTag m] @ map (case_prod FrameTag) fs)))
        = Some (bs @ hs @ demo_data)"
proof -
  obtain bs hs where f: "WriteTag (AtomTag (atom_UpdateSize demo_moov)) = Some bs"
      "WriteTag (AtomTag (LeafAtom demo_mdat MdatAtom)) = Some hs"
    using demo_moov_written by blast
  have "MeasureSize demo_moov < 2 ^ 31" "at_size demo_mdat < 2 ^ 31" by (simp_all add: demo_moov_good demo_mdat_size)
  note * = F4v_file_read_back[OF demo_moov_good(1-3) this(1) refl demo_mdat_size(2) this(2) f]
  have "Suc (length (movie_frames demo_moov) + length demo_data) = 16" by (simp add: demo_frames demo_data_def)
  then show ?thesis using * f(1) by metis
qed

text \<open>
  C12.  The frames that the code extracts by walking the tables of a track together are those of
  the expanded tables: the place from the chunks, the time from the sum of the durations before,
  composition, duration and key frame from the entry of the sample.
\<close>

theorem ExtractFrames_reference:
  assumes "extract_tables moov audio = Some st" "good_tables st"
  shows "ExtractFrames moov audio = reference_frames st audio"
  by (simp add: ExtractFrames_def assms table_frames_reference[OF assms(2)])

lemma ExtractFrames_reference_witness:
  "ExtractFrames demo_moov False = reference_frames (the (extract_tables demo_moov False)) False"
  by (rule ExtractFrames_reference) (simp_all add: demo_tables good_tables_def word_less_nat_alt)

end
