(* ===== verification/DoubleBits.thy ===== *)
theory DoubleBits
  imports Prelude
begin

text \<open>
  \<^verbatim>\<open>double\<close> values are their 64-bit patterns (IEEE 754 binary64).  The program only
  copies them, compares them with \<^verbatim>\<open>==\<close> and converts to and from \<^verbatim>\<open>int64\<close>
  (\<^verbatim>\<open>CDate\<close> and \<^verbatim>\<open>CNumber::is_int\<close>), so these three are defined here.  An integer
  is converted with rounding to the nearest even mantissa; the conversion back truncates and
  takes, where the language leaves it undefined, the value the x86-64 instruction gives.
\<close>

fun nat_log2 :: "nat \<Rightarrow> nat" where
  "nat_log2 n = (if n < 2 then 0 else Suc (nat_log2 (n div 2)))"

declare nat_log2.simps [simp del]

definition double_of_int :: "int \<Rightarrow> 64 word" where
  "double_of_int x =
     (if x = 0 then 0
      else let m = nat \<bar>x\<bar>; e = nat_log2 m;
               frac = (if e \<le> 52 then m * 2 ^ (52 - e)
                       else let sh = e - 52; q = m div 2 ^ sh; r = m mod 2 ^ sh; half = 2 ^ (sh - 1)
                            in if r > half \<or> (r = half \<and> odd q) then q + 1 else q)
           in word_of_nat ((if x < 0 then 2 ^ 63 else 0) + (e + 1023) * 2 ^ 52 + (frac - 2 ^ 52)))"

definition int64_of_double :: "64 word \<Rightarrow> int" where
  "int64_of_double w =
     (let n = unat w; neg = n div 2 ^ 63 = 1; ex = (n div 2 ^ 52) mod 2 ^ 11; f = n mod 2 ^ 52
      in if ex < 1023 then 0
         else let e = ex - 1023
              in if e \<ge> 63 then - (2 ^ 63)
                 else let v = (if e \<le> 52 then (2 ^ 52 + f) div 2 ^ (52 - e)
                               else (2 ^ 52 + f) * 2 ^ (e - 52))
                      in if neg then - int v else int v)"

definition double_is_nan :: "64 word \<Rightarrow> bool" where
  "double_is_nan w \<longleftrightarrow> (unat w div 2 ^ 52) mod 2 ^ 11 = 2047 \<and> unat w mod 2 ^ 52 \<noteq> 0"

definition double_is_zero :: "64 word \<Rightarrow> bool" where
  "double_is_zero w \<longleftrightarrow> unat w mod 2 ^ 63 = 0"

text \<open>The comparison \<^verbatim>\<open>==\<close>: a NaN differs from everything, the two zeros are equal.\<close>

definition double_eq :: "64 word \<Rightarrow> 64 word \<Rightarrow> bool" where
  "double_eq a b \<longleftrightarrow> \<not> double_is_nan a \<and> \<not> double_is_nan b
     \<and> (a = b \<or> double_is_zero a \<and> double_is_zero b)"

lemma double_eq_refl: "\<not> double_is_nan a \<Longrightarrow> double_eq a a"
  by (simp add: double_eq_def)

lemma nat_log2_bounds:
  assumes "0 < n"
  shows "2 ^ nat_log2 n \<le> n \<and> n < 2 * 2 ^ nat_log2 n"
  using assms
proof (induction n rule: nat_log2.induct)
  case (1 n)
  show ?case
  proof (cases "n < 2")
    case True
    then show ?thesis using "1.prems" by (subst (1 2) nat_log2.simps) simp
  next
    case False
    then have "2 ^ nat_log2 (n div 2) \<le> n div 2 \<and> n div 2 < 2 * 2 ^ nat_log2 (n div 2)"
      using 1 by simp
    then show ?thesis using False by (subst (1 2) nat_log2.simps) (auto simp: algebra_simps)
  qed
qed

text \<open>The fields of a pattern put together from sign, exponent and mantissa.\<close>

lemma pattern_fields:
  assumes "s < 2" "ex < 2 ^ 11" "f < (2 ^ 52 :: nat)"
  shows "unat (word_of_nat (s * 2 ^ 63 + ex * 2 ^ 52 + f) :: 64 word) = s * 2 ^ 63 + ex * 2 ^ 52 + f"
    and "(s * 2 ^ 63 + ex * 2 ^ 52 + f) div 2 ^ 63 = s"
    and "((s * 2 ^ 63 + ex * 2 ^ 52 + f) div 2 ^ 52) mod 2 ^ 11 = ex"
    and "(s * 2 ^ 63 + ex * 2 ^ 52 + f) mod 2 ^ 52 = f"
proof -
  have lt: "ex * 2 ^ 52 + f < 2 ^ 63" using assms by simp
  then show "(s * 2 ^ 63 + ex * 2 ^ 52 + f) div 2 ^ 63 = s" by simp
  have "s * 2 ^ 63 + ex * 2 ^ 52 + f < 2 ^ 64" using lt assms(1) by simp
  then show "unat (word_of_nat (s * 2 ^ 63 + ex * 2 ^ 52 + f) :: 64 word) = s * 2 ^ 63 + ex * 2 ^ 52 + f"
    by (intro unat_word_of_nat) simp
  have eq: "s * 2 ^ 63 + ex * 2 ^ 52 + f = (s * 2 ^ 11 + ex) * 2 ^ 52 + f" by simp
  have "((s * 2 ^ 11 + ex) * 2 ^ 52 + f) div 2 ^ 52 = s * 2 ^ 11 + ex"
    by (rule div_nat_eqI) (use assms(3) in auto)
  moreover have "(s * 2 ^ 11 + ex) mod 2 ^ 11 = ex"
    using assms(2) by (subst mod_mult_self3) (rule mod_less)
  ultimately show "((s * 2 ^ 63 + ex * 2 ^ 52 + f) div 2 ^ 52) mod 2 ^ 11 = ex"
    unfolding eq by simp
  show "(s * 2 ^ 63 + ex * 2 ^ 52 + f) mod 2 ^ 52 = f"
    unfolding eq using assms(3) by (subst mod_mult_self3) (rule mod_less)
qed

lemma int64_of_double_of_int:
  assumes "\<bar>x\<bar> < 2 ^ 53"
  shows "int64_of_double (double_of_int x) = x"
proof (cases "x = 0")
  case True
  then show ?thesis by (simp add: double_of_int_def int64_of_double_def)
next
  case False
  let ?m = "nat \<bar>x\<bar>"
  define e where "e = nat_log2 ?m"
  have m: "0 < ?m" "?m < 2 ^ 53" using False assms by auto
  have b: "2 ^ e \<le> ?m" "?m < 2 * 2 ^ e" using nat_log2_bounds[OF m(1)] by (auto simp: e_def)
  have "(2 :: nat) ^ e < 2 ^ 53" using b(1) m(2) by linarith
  then have "e < 53" by (rule power_less_imp_less_exp[rotated]) simp
  then have e: "e \<le> 52" by simp
  define k where "k = ?m * 2 ^ (52 - e)"
  have pow: "(2 :: nat) ^ e * 2 ^ (52 - e) = 2 ^ 52" using e by (simp flip: power_add)
  have "2 ^ e * 2 ^ (52 - e) \<le> k" unfolding k_def using b(1) by (rule mult_le_mono1)
  moreover have "k < 2 * 2 ^ e * 2 ^ (52 - e)" unfolding k_def using b(2) by simp
  moreover have "2 * 2 ^ e * 2 ^ (52 - e) = 2 * (2 ^ 52 :: nat)" using pow by (metis mult.assoc)
  ultimately have k: "2 ^ 52 \<le> k" "k < 2 * 2 ^ 52" using pow by auto
  define s :: nat where "s = (if x < 0 then 1 else 0)"
  have s: "s < 2" by (simp add: s_def)
  have ex: "e + 1023 < 2 ^ 11" using e by simp
  have f: "k - 2 ^ 52 < 2 ^ 52" using k by simp
  note pf = pattern_fields[OF s ex f]
  have "double_of_int x = word_of_nat (s * 2 ^ 63 + (e + 1023) * 2 ^ 52 + (k - 2 ^ 52))"
    using False e by (simp add: double_of_int_def Let_def e_def[symmetric] k_def[symmetric] s_def)
  moreover have "(2 ^ 52 + (k - 2 ^ 52)) div 2 ^ (52 - e) = ?m" using k by (simp add: k_def)
  ultimately have "int64_of_double (double_of_int x) = (if s = 1 then - int ?m else int ?m)"
    unfolding int64_of_double_def Let_def using e by (simp only: pf) simp
  then show ?thesis using False by (auto simp: s_def)
qed

end
