(* ===== verification/Amf0.thy ===== *)
theory Amf0
  imports Reader DoubleBits "HOL-Library.List_Lexorder"
begin

text \<open>
  \<^verbatim>\<open>whisperstreamlib/rtmp/objects\<close>: the AMF0 values that RTMP messages and FLV metadata
  carry, their encoding and their decoding from untrusted input
  (\<^verbatim>\<open>rtmp_objects.{h,cc}\<close>, \<^verbatim>\<open>amf/amf0_util.{h,cc}\<close>, \<^verbatim>\<open>amf/amf_util.{h,cc}\<close>).

  The class hierarchy under \<^verbatim>\<open>CObject\<close> is one datatype.  A \<^verbatim>\<open>std::map\<close> is an association
  list sorted by key; \<^verbatim>\<open>CStringMap\<close> also keeps the order of insertion.  Strings are byte
  lists, numbers bit patterns.  A decoder returns its status and the unread bytes; on
  failure the partly built object is dropped, as its callers do.

  \<^verbatim>\<open>ReadNextObject\<close> recurses as deep as the input nests.  Its model carries fuel; the
  theorem \<open>ReadNextObject_total\<close> shows that fuel beyond the length of the input is never
  used up, so the outer option of \<open>ReadNextObject\<close> stands only for a failed \<^verbatim>\<open>CHECK\<close> and is
  never reached.
\<close>

section \<open>Status and types\<close>

text \<open>\<^verbatim>\<open>AmfUtil::ReadStatus\<close> without \<^verbatim>\<open>READ_OK\<close>, which is the \<open>Inr\<close> of a result.\<close>

datatype read_status = READ_NO_DATA | READ_CORRUPTED_DATA | READ_NOT_IMPLEMENTED
  | READ_UNSUPPORTED_REFERENCES | READ_STRUCT_TOO_LONG | READ_OOM | READ_TOO_MANY_CHANNELS

definition ReadStatusName :: "read_status + unit \<Rightarrow> string" where
  "ReadStatusName st = (case st of
     Inr _ \<Rightarrow> ''READ_OK''
   | Inl READ_NO_DATA \<Rightarrow> ''READ_NO_DATA''
   | Inl READ_CORRUPTED_DATA \<Rightarrow> ''READ_CORRUPTED_DATA''
   | Inl READ_NOT_IMPLEMENTED \<Rightarrow> ''READ_NOT_IMPLEMENTED''
   | Inl READ_UNSUPPORTED_REFERENCES \<Rightarrow> ''READ_UNSUPPORTED_REFERENCES''
   | Inl READ_STRUCT_TOO_LONG \<Rightarrow> ''READ_STRUCT_TOO_LONG''
   | Inl READ_OOM \<Rightarrow> ''READ_OOM''
   | Inl READ_TOO_MANY_CHANNELS \<Rightarrow> ''READ_TOO_MANY_CHANNELS'')"

definition kMaximumStringReadableData :: nat where "kMaximumStringReadableData = 10 * 2 ^ 20"
definition kMaximumArraySize :: int where "kMaximumArraySize = 10000"
definition LONG_STRING_LENGTH :: nat where "LONG_STRING_LENGTH = 65535"

text \<open>\<^verbatim>\<open>Amf0Util::Type\<close> and the two boolean values.\<close>

definition AMF0_TYPE_NUMBER :: byte where "AMF0_TYPE_NUMBER = 0x00"
definition AMF0_TYPE_BOOLEAN :: byte where "AMF0_TYPE_BOOLEAN = 0x01"
definition AMF0_TYPE_STRING :: byte where "AMF0_TYPE_STRING = 0x02"
definition AMF0_TYPE_OBJECT :: byte where "AMF0_TYPE_OBJECT = 0x03"
definition AMF0_TYPE_MOVIECLIP :: byte where "AMF0_TYPE_MOVIECLIP = 0x04"
definition AMF0_TYPE_NULL :: byte where "AMF0_TYPE_NULL = 0x05"
definition AMF0_TYPE_UNDEFINED :: byte where "AMF0_TYPE_UNDEFINED = 0x06"
definition AMF0_TYPE_REFERENCE :: byte where "AMF0_TYPE_REFERENCE = 0x07"
definition AMF0_TYPE_MIXED_ARRAY :: byte where "AMF0_TYPE_MIXED_ARRAY = 0x08"
definition AMF0_TYPE_END_OF_OBJECT :: byte where "AMF0_TYPE_END_OF_OBJECT = 0x09"
definition AMF0_TYPE_ARRAY :: byte where "AMF0_TYPE_ARRAY = 0x0A"
definition AMF0_TYPE_DATE :: byte where "AMF0_TYPE_DATE = 0x0B"
definition AMF0_TYPE_LONG_STRING :: byte where "AMF0_TYPE_LONG_STRING = 0x0C"
definition AMF0_TYPE_UNSUPPORTED :: byte where "AMF0_TYPE_UNSUPPORTED = 0x0D"
definition AMF0_TYPE_RECORDSET :: byte where "AMF0_TYPE_RECORDSET = 0x0E"
definition AMF0_TYPE_XML :: byte where "AMF0_TYPE_XML = 0x0F"
definition AMF0_TYPE_CLASS_OBJECT :: byte where "AMF0_TYPE_CLASS_OBJECT = 0x10"
definition AMF0_TYPE_AMF3_OBJECT :: byte where "AMF0_TYPE_AMF3_OBJECT = 0x11"
definition VALUE_TRUE :: byte where "VALUE_TRUE = 0x01"
definition VALUE_FALSE :: byte where "VALUE_FALSE = 0x00"

lemmas amf0_types = AMF0_TYPE_NUMBER_def AMF0_TYPE_BOOLEAN_def AMF0_TYPE_STRING_def
  AMF0_TYPE_OBJECT_def AMF0_TYPE_MOVIECLIP_def AMF0_TYPE_NULL_def AMF0_TYPE_UNDEFINED_def
  AMF0_TYPE_REFERENCE_def AMF0_TYPE_MIXED_ARRAY_def AMF0_TYPE_END_OF_OBJECT_def AMF0_TYPE_ARRAY_def
  AMF0_TYPE_DATE_def AMF0_TYPE_LONG_STRING_def AMF0_TYPE_UNSUPPORTED_def AMF0_TYPE_RECORDSET_def
  AMF0_TYPE_XML_def AMF0_TYPE_CLASS_OBJECT_def AMF0_TYPE_AMF3_OBJECT_def VALUE_TRUE_def VALUE_FALSE_def

section \<open>Maps\<close>

text \<open>\<^verbatim>\<open>std::map\<close>: \<^verbatim>\<open>find\<close>, assignment to \<^verbatim>\<open>m[k]\<close>, \<^verbatim>\<open>erase\<close>.\<close>

fun map_find :: "'k \<Rightarrow> ('k \<times> 'v) list \<Rightarrow> 'v option" where
  "map_find k [] = None"
| "map_find k ((k', v) # m) = (if k = k' then Some v else map_find k m)"

fun map_insert :: "'k::linorder \<Rightarrow> 'v \<Rightarrow> ('k \<times> 'v) list \<Rightarrow> ('k \<times> 'v) list" where
  "map_insert k v [] = [(k, v)]"
| "map_insert k v ((k', v') # m) =
     (if k < k' then (k, v) # (k', v') # m
      else if k = k' then (k, v) # m
      else (k', v') # map_insert k v m)"

fun map_erase :: "'k \<Rightarrow> ('k \<times> 'v) list \<Rightarrow> ('k \<times> 'v) list" where
  "map_erase k [] = []"
| "map_erase k ((k', v') # m) = (if k = k' then m else (k', v') # map_erase k m)"

definition map_ok :: "('k::linorder \<times> 'v) list \<Rightarrow> bool" where
  "map_ok m \<longleftrightarrow> sorted_wrt (<) (map fst m)"

lemma map_ok_simps [simp]:
  "map_ok []"
  "map_ok ((k, v) # m) \<longleftrightarrow> (\<forall>x \<in> fst ` set m. k < x) \<and> map_ok m"
  by (auto simp: map_ok_def)

lemma map_ok_distinct: "map_ok m \<Longrightarrow> distinct (map fst m)"
  by (induction m) (auto simp: map_ok_def)

lemma map_find_map_of: "map_find k m = map_of m k"
  by (induction k m rule: map_find.induct) auto

lemma map_insert_keys: "fst ` set (map_insert k v m) = insert k (fst ` set m)"
  by (induction k v m rule: map_insert.induct) auto

lemma map_insert_ok: "map_ok m \<Longrightarrow> map_ok (map_insert k v m)"
  by (induction k v m rule: map_insert.induct) (auto simp: map_insert_keys)

lemma map_of_map_insert: "map_ok m \<Longrightarrow> map_of (map_insert k v m) = (map_of m)(k \<mapsto> v)"
  by (induction k v m rule: map_insert.induct) (auto simp: fun_eq_iff)

lemma map_erase_keys: "distinct (map fst m) \<Longrightarrow> fst ` set (map_erase k m) = fst ` set m - {k}"
  by (induction k m rule: map_erase.induct) (auto simp: rev_image_eqI)

lemma map_erase_subset: "set (map_erase k m) \<subseteq> set m"
  by (induction k m rule: map_erase.induct) auto

lemma map_erase_ok: "map_ok m \<Longrightarrow> map_ok (map_erase k m)"
proof (induction k m rule: map_erase.induct)
  case (2 k k' v' m)
  then show ?case using map_erase_subset[of k m] by fastforce
qed simp

lemma map_of_map_erase: "map_ok m \<Longrightarrow> map_of (map_erase k m) = (map_of m)(k := None)"
proof (induction k m rule: map_erase.induct)
  case (2 k k' v' m)
  have "k \<notin> fst ` set m" if "k = k'" using 2 that by auto
  with 2 show ?case by (auto simp: fun_eq_iff map_of_eq_None_iff)
qed simp

text \<open>A sorted association list is determined by the map it stands for.\<close>

lemma map_ok_unique:
  assumes "map_ok m" "map_ok m'" "map_of m = map_of m'"
  shows "m = m'"
proof -
  have d: "distinct (map fst m)" "distinct (map fst m')"
    using assms(1,2) by (auto intro: map_ok_distinct)
  have "set m = set m'"
    using assms(3) map_of_eq_Some_iff[OF d(1)] map_of_eq_Some_iff[OF d(2)] by auto
  moreover have "sorted (map fst m)" "sorted (map fst m')"
    using assms(1,2) by (auto simp: map_ok_def strict_sorted_imp_sorted)
  ultimately show ?thesis
    using d map_sorted_distinct_set_unique[of fst m m']
    by (metis distinct_map inj_on_subset set_eq_subset Un_upper1 sup.idem)
qed

section \<open>Objects\<close>

datatype cobject =
    CNull
  | CBoolean bool
  | CNumber "64 word"
  | CString bytes
  | CDate "64 word" "16 word"
  | CRecordSet
  | CRecordSetPage
  | CArray "cobject list"
  | CStringMap "(bytes \<times> cobject) list" "bytes list"
  | CMixedMap "32 word" "(bytes \<times> cobject) list"

text \<open>An element is smaller than the object that holds it: the recursions below end.\<close>

lemma cobject_size_elem:
  "x \<in> set xs \<Longrightarrow> size x < size (CArray xs)"
  "(k, x) \<in> set d \<Longrightarrow> size x < size (CStringMap d ks)"
  "(k, x) \<in> set d \<Longrightarrow> size x < size (CMixedMap u d)"
proof -
  show "x \<in> set xs \<Longrightarrow> size x < size (CArray xs)" by (induction xs) auto
  show "(k, x) \<in> set d \<Longrightarrow> size x < size (CStringMap d ks)" by (induction d) auto
  show "(k, x) \<in> set d \<Longrightarrow> size x < size (CMixedMap u d)" by (induction d) auto
qed

datatype core_type = CORE_SKIP | CORE_NULL | CORE_BOOLEAN | CORE_NUMBER | CORE_STRING | CORE_DATE
  | CORE_ARRAY | CORE_MIXED_MAP | CORE_STRING_MAP | CORE_CLASS_OBJECT | CORE_RECORD_SET
  | CORE_RECORD_SET_PAGE

fun object_type :: "cobject \<Rightarrow> core_type" where
  "object_type CNull = CORE_NULL"
| "object_type (CBoolean _) = CORE_BOOLEAN"
| "object_type (CNumber _) = CORE_NUMBER"
| "object_type (CString _) = CORE_STRING"
| "object_type (CDate _ _) = CORE_DATE"
| "object_type CRecordSet = CORE_RECORD_SET"
| "object_type CRecordSetPage = CORE_RECORD_SET_PAGE"
| "object_type (CArray _) = CORE_ARRAY"
| "object_type (CStringMap _ _) = CORE_STRING_MAP"
| "object_type (CMixedMap _ _) = CORE_MIXED_MAP"

definition CNumber_int_value :: "64 word \<Rightarrow> int" where
  "CNumber_int_value v = int64_of_double v"

definition CNumber_is_int :: "64 word \<Rightarrow> bool" where
  "CNumber_is_int v \<longleftrightarrow> double_eq (double_of_int (CNumber_int_value v)) v"

text \<open>\<^verbatim>\<open>Equals\<close> of each class; \<open>eq\<close> is the virtual call on the elements.\<close>

definition CArray_Equals :: "(cobject \<Rightarrow> cobject \<Rightarrow> bool) \<Rightarrow> cobject list \<Rightarrow> cobject list \<Rightarrow> bool" where
  "CArray_Equals eq data tmp \<longleftrightarrow>
     length tmp = length data \<and> list_all (\<lambda>(x, y). eq x y) (zip data tmp)"

definition CStringMap_Equals ::
    "(cobject \<Rightarrow> cobject \<Rightarrow> bool) \<Rightarrow> (bytes \<times> cobject) list \<Rightarrow> (bytes \<times> cobject) list \<Rightarrow> bool" where
  "CStringMap_Equals eq data tmp \<longleftrightarrow> length tmp = length data
     \<and> list_all (\<lambda>(k, x). case map_find k tmp of None \<Rightarrow> False | Some y \<Rightarrow> eq x y) data"

definition CMixedMap_Equals ::
    "(cobject \<Rightarrow> cobject \<Rightarrow> bool) \<Rightarrow> (bytes \<times> cobject) list \<Rightarrow> (bytes \<times> cobject) list \<Rightarrow> bool" where
  "CMixedMap_Equals eq data tmp \<longleftrightarrow> length tmp = length data
     \<and> list_all (\<lambda>(k, x). case map_find k tmp of None \<Rightarrow> False | Some y \<Rightarrow> eq x y) data"

lemma container_Equals_cong [fundef_cong]:
  assumes "data = data'" "tmp = tmp'" "\<And>x y. x \<in> set data' \<Longrightarrow> eq x y = eq' x y"
  shows "CArray_Equals eq data tmp = CArray_Equals eq' data' tmp'"
proof -
  have "list_all (\<lambda>(x, y). eq x y) (zip data' tmp') = list_all (\<lambda>(x, y). eq' x y) (zip data' tmp')"
    using assms(3) by (intro list.pred_cong) (auto dest: set_zip_leftD)
  with assms(1,2) show ?thesis by (simp add: CArray_Equals_def)
qed

lemma map_Equals_cong [fundef_cong]:
  assumes "d = d'" "tmp = tmp'" "\<And>k x y. (k, x) \<in> set d' \<Longrightarrow> eq x y = eq' x y"
  shows "CStringMap_Equals eq d tmp = CStringMap_Equals eq' d' tmp'"
    and "CMixedMap_Equals eq d tmp = CMixedMap_Equals eq' d' tmp'"
  using assms
  by (auto simp: CStringMap_Equals_def CMixedMap_Equals_def list_all_iff split: option.splits)

function CObject_Equals :: "cobject \<Rightarrow> cobject \<Rightarrow> bool" where
  "CObject_Equals CNull obj = (obj = CNull)"
| "CObject_Equals (CBoolean a) obj = (case obj of CBoolean b \<Rightarrow> b = a | _ \<Rightarrow> False)"
| "CObject_Equals (CNumber a) obj = (case obj of CNumber b \<Rightarrow> double_eq b a | _ \<Rightarrow> False)"
| "CObject_Equals (CString a) obj = (case obj of CString b \<Rightarrow> b = a | _ \<Rightarrow> False)"
| "CObject_Equals (CDate t z) obj = (case obj of CDate t' z' \<Rightarrow> t = t' \<and> z = z' | _ \<Rightarrow> False)"
| "CObject_Equals CRecordSet obj = (obj = CRecordSet)"
| "CObject_Equals CRecordSetPage obj = (obj = CRecordSetPage)"
| "CObject_Equals (CArray xs) obj = (case obj of
       CArray ys \<Rightarrow> CArray_Equals CObject_Equals xs ys | _ \<Rightarrow> False)"
| "CObject_Equals (CStringMap d ks) obj = (case obj of
       CStringMap d' ks' \<Rightarrow> CStringMap_Equals CObject_Equals d d' | _ \<Rightarrow> False)"
| "CObject_Equals (CMixedMap u d) obj = (case obj of
       CMixedMap u' d' \<Rightarrow> CMixedMap_Equals CObject_Equals d d' | _ \<Rightarrow> False)"
  by pat_completeness auto
termination
  by (relation "measure (size \<circ> fst)") (auto dest: cobject_size_elem simp del: cobject.size)

subsection \<open>Map objects\<close>

text \<open>The pair of a \<^verbatim>\<open>CStringMap\<close>: its sorted data and the keys in insertion order.\<close>

type_synonym string_map = "(bytes \<times> cobject) list \<times> bytes list"

definition CStringMap_Find :: "bytes \<Rightarrow> string_map \<Rightarrow> cobject option" where
  "CStringMap_Find key m = map_find key (fst m)"

definition CStringMap_Set :: "bytes \<Rightarrow> cobject \<Rightarrow> string_map \<Rightarrow> string_map" where
  "CStringMap_Set key value m =
     (case map_find key (fst m) of
        None \<Rightarrow> (map_insert key value (fst m), snd m @ [key])
      | Some _ \<Rightarrow> (map_insert key value (fst m), snd m))"

text \<open>\<^verbatim>\<open>Erase\<close> aborts when the key is in the data but not in the list of keys.\<close>

definition CStringMap_Erase :: "bytes \<Rightarrow> string_map \<Rightarrow> string_map option" where
  "CStringMap_Erase key m =
     (case map_find key (fst m) of
        None \<Rightarrow> Some m
      | Some _ \<Rightarrow> if key \<in> set (snd m)
          then Some (map_erase key (fst m), remove1 key (snd m)) else None)"

definition CMixedMap_Find :: "bytes \<Rightarrow> (bytes \<times> cobject) list \<Rightarrow> cobject option" where
  "CMixedMap_Find key d = map_find key d"

definition CMixedMap_Set :: "bytes \<Rightarrow> cobject \<Rightarrow> (bytes \<times> cobject) list \<Rightarrow> (bytes \<times> cobject) list" where
  "CMixedMap_Set key value d = map_insert key value d"

definition CMixedMap_Erase :: "bytes \<Rightarrow> (bytes \<times> cobject) list \<Rightarrow> (bytes \<times> cobject) list" where
  "CMixedMap_Erase key d = map_erase key d"

definition CMixedMap_SetAll ::
    "(bytes \<times> cobject) list \<Rightarrow> (bytes \<times> cobject) list \<Rightarrow> (bytes \<times> cobject) list" where
  "CMixedMap_SetAll other d = fold (\<lambda>(k, v). CMixedMap_Set k v) other d"

text \<open>\<^verbatim>\<open>operator=\<close>: the data is replaced, the field \<^verbatim>\<open>unknown_\<close> is not copied.\<close>

fun CMixedMap_assign :: "cobject \<Rightarrow> cobject \<Rightarrow> cobject" where
  "CMixedMap_assign (CMixedMap u d) (CMixedMap u' d') = CMixedMap u (CMixedMap_SetAll d' [])"
| "CMixedMap_assign a b = a"

section \<open>Encoding\<close>

definition PutString :: "bytes \<Rightarrow> bytes" where
  "PutString str = WriteBE (word_of_nat (length str) :: 16 word) @ str"

definition WriteString :: "bytes \<Rightarrow> bytes" where
  "WriteString str =
     (if length str < LONG_STRING_LENGTH
      then [AMF0_TYPE_STRING] @ WriteBE (word_of_nat (length str) :: 16 word)
      else [AMF0_TYPE_LONG_STRING] @ WriteBE (word_of_nat (length str) :: 32 word)) @ str"

definition WriteClassObjectBegin :: bytes where "WriteClassObjectBegin = [AMF0_TYPE_CLASS_OBJECT]"
definition WriteGenericObjectBegin :: bytes where "WriteGenericObjectBegin = [AMF0_TYPE_OBJECT]"
definition WriteGenericObjectEnd :: bytes where "WriteGenericObjectEnd = [AMF0_TYPE_END_OF_OBJECT]"

text \<open>
  \<^verbatim>\<open>Encode\<close> of each class; a container gets the encodings of its elements.  \<open>None\<close> is the
  \<^verbatim>\<open>CHECK\<close> of \<^verbatim>\<open>CStringMap::Encode\<close> on a key without a value.
\<close>

definition CNull_Encode :: bytes where
  "CNull_Encode = [AMF0_TYPE_NULL]"

definition CBoolean_Encode :: "bool \<Rightarrow> bytes" where
  "CBoolean_Encode b = [AMF0_TYPE_BOOLEAN, if b then VALUE_TRUE else VALUE_FALSE]"

definition CNumber_Encode :: "64 word \<Rightarrow> bytes" where
  "CNumber_Encode v = [AMF0_TYPE_NUMBER] @ WriteBE v"

definition CString_Encode :: "bytes \<Rightarrow> bytes" where
  "CString_Encode s = WriteString s"

definition CDate_Encode :: "64 word \<Rightarrow> 16 word \<Rightarrow> bytes" where
  "CDate_Encode t z = [AMF0_TYPE_DATE] @ WriteBE (double_of_int (sint t)) @ WriteBE z"

definition CRecordSet_Encode :: bytes where
  "CRecordSet_Encode = WriteClassObjectBegin @ WriteString (bytes_of ''RecordSet'')"

definition CRecordSetPage_Encode :: bytes where
  "CRecordSetPage_Encode = WriteClassObjectBegin @ WriteString (bytes_of ''RecordSetPage'')"

definition CArray_Encode :: "bytes option list \<Rightarrow> bytes option" where
  "CArray_Encode data =
     map_option (\<lambda>es. [AMF0_TYPE_ARRAY] @ WriteBE (word_of_nat (length data) :: 32 word) @ concat es)
       (those data)"

definition CStringMap_Encode :: "(bytes \<times> bytes option) list \<Rightarrow> bytes list \<Rightarrow> bytes option" where
  "CStringMap_Encode data keys =
     map_option (\<lambda>es. WriteGenericObjectBegin @ concat es @ PutString [] @ WriteGenericObjectEnd)
       (those (map (\<lambda>k. case map_find k data of
            None \<Rightarrow> None
          | Some e \<Rightarrow> map_option (\<lambda>bs. PutString k @ bs) e) keys))"

definition CMixedMap_Encode :: "32 word \<Rightarrow> (bytes \<times> bytes option) list \<Rightarrow> bytes option" where
  "CMixedMap_Encode unknown data =
     map_option (\<lambda>es. [AMF0_TYPE_MIXED_ARRAY] @ WriteBE unknown @ concat es @ PutString []
          @ WriteGenericObjectEnd)
       (those (map (\<lambda>(k, e). map_option (\<lambda>bs. PutString k @ bs) e) data))"

lemmas encode_defs = CNull_Encode_def CBoolean_Encode_def CNumber_Encode_def CString_Encode_def
  CDate_Encode_def CRecordSet_Encode_def CRecordSetPage_Encode_def CArray_Encode_def
  CStringMap_Encode_def

text \<open>The virtual call.\<close>

function CObject_Encode :: "cobject \<Rightarrow> bytes option" where
  "CObject_Encode CNull = Some CNull_Encode"
| "CObject_Encode (CBoolean b) = Some (CBoolean_Encode b)"
| "CObject_Encode (CNumber v) = Some (CNumber_Encode v)"
| "CObject_Encode (CString s) = Some (CString_Encode s)"
| "CObject_Encode (CDate t z) = Some (CDate_Encode t z)"
| "CObject_Encode CRecordSet = Some CRecordSet_Encode"
| "CObject_Encode CRecordSetPage = Some CRecordSetPage_Encode"
| "CObject_Encode (CArray xs) = CArray_Encode (map CObject_Encode xs)"
| "CObject_Encode (CStringMap d ks) = CStringMap_Encode (map (\<lambda>(k, v). (k, CObject_Encode v)) d) ks"
| "CObject_Encode (CMixedMap u d) = CMixedMap_Encode u (map (\<lambda>(k, v). (k, CObject_Encode v)) d)"
  by pat_completeness auto
termination
  by (relation "measure size") (auto dest: cobject_size_elem simp del: cobject.size)

text \<open>\<^verbatim>\<open>EncodingSize\<close> counts in \<^verbatim>\<open>uint32\<close>.\<close>

definition CString_EncodingSize :: "bytes \<Rightarrow> 32 word" where
  "CString_EncodingSize s =
     (if length s < LONG_STRING_LENGTH then 1 + 2 + word_of_nat (length s)
      else 1 + 4 + word_of_nat (length s))"

definition CArray_EncodingSize :: "32 word list \<Rightarrow> 32 word" where
  "CArray_EncodingSize data = 5 + sum_list data"

definition CStringMap_EncodingSize :: "(bytes \<times> 32 word) list \<Rightarrow> 32 word" where
  "CStringMap_EncodingSize data = 1 + sum_list (map (\<lambda>(k, n). 2 + word_of_nat (length k) + n) data) + 2 + 1"

definition CMixedMap_EncodingSize :: "(bytes \<times> 32 word) list \<Rightarrow> 32 word" where
  "CMixedMap_EncodingSize data =
     1 + 4 + sum_list (map (\<lambda>(k, n). 2 + word_of_nat (length k) + n) data) + 2 + 1"

lemmas encoding_size_defs = CString_EncodingSize_def CArray_EncodingSize_def
  CStringMap_EncodingSize_def CMixedMap_EncodingSize_def

function CObject_EncodingSize :: "cobject \<Rightarrow> 32 word" where
  "CObject_EncodingSize CNull = 1"
| "CObject_EncodingSize (CBoolean _) = 2"
| "CObject_EncodingSize (CNumber _) = 9"
| "CObject_EncodingSize (CString s) = CString_EncodingSize s"
| "CObject_EncodingSize (CDate _ _) = 11"
| "CObject_EncodingSize CRecordSet = 13"
| "CObject_EncodingSize CRecordSetPage = 17"
| "CObject_EncodingSize (CArray xs) = CArray_EncodingSize (map CObject_EncodingSize xs)"
| "CObject_EncodingSize (CStringMap d ks) =
     CStringMap_EncodingSize (map (\<lambda>(k, v). (k, CObject_EncodingSize v)) d)"
| "CObject_EncodingSize (CMixedMap u d) =
     CMixedMap_EncodingSize (map (\<lambda>(k, v). (k, CObject_EncodingSize v)) d)"
  by pat_completeness auto
termination
  by (relation "measure size") (auto dest: cobject_size_elem simp del: cobject.size)

section \<open>Decoding\<close>

type_synonym 'a amf_reader = "(read_status, 'a) reader"

definition amf_need :: "nat \<Rightarrow> unit amf_reader" where
  "amf_need n = rd_need READ_NO_DATA n"

definition Amf0_ReadString :: "bytes amf_reader" where
  "Amf0_ReadString =
     rd_bind (amf_need 1) (\<lambda>_.
     rd_bind (rd_num ReadByte) (\<lambda>obtype.
     rd_bind (if obtype = AMF0_TYPE_STRING then
                rd_bind (amf_need 2) (\<lambda>_. rd_bind (rd_num ReadBE) (\<lambda>n :: 16 word. rd_ok (unat n)))
              else if obtype = AMF0_TYPE_LONG_STRING then
                rd_bind (amf_need 4) (\<lambda>_. rd_bind (rd_num ReadBE) (\<lambda>n :: 32 word. rd_ok (unat n)))
              else rd_err READ_CORRUPTED_DATA) (\<lambda>len.
     if len > kMaximumStringReadableData then rd_err READ_STRUCT_TOO_LONG
     else rd_bind (amf_need len) (\<lambda>_. rd_num (read_checked len)))))"

definition Amf0_PickString :: "bytes amf_reader" where
  "Amf0_PickString =
     rd_bind (amf_need 2) (\<lambda>_.
     rd_bind (rd_num ReadBE) (\<lambda>n :: 16 word.
     rd_bind (amf_need (unat n)) (\<lambda>_. rd_num (read_checked (unat n)))))"

definition Amf0_ReadGenericObjectEnd :: "unit amf_reader" where
  "Amf0_ReadGenericObjectEnd =
     rd_bind (amf_need 1) (\<lambda>_.
     rd_bind (rd_num ReadByte) (\<lambda>obtype.
     if obtype \<noteq> AMF0_TYPE_END_OF_OBJECT then rd_err READ_CORRUPTED_DATA else rd_ok ()))"

definition CNull_Decode :: "cobject amf_reader" where
  "CNull_Decode =
     rd_bind (amf_need 1) (\<lambda>_.
     rd_bind (rd_num ReadByte) (\<lambda>obtype.
     if obtype \<noteq> AMF0_TYPE_NULL \<and> obtype \<noteq> AMF0_TYPE_UNDEFINED then rd_err READ_CORRUPTED_DATA
     else rd_ok CNull))"

definition CBoolean_Decode :: "cobject amf_reader" where
  "CBoolean_Decode =
     rd_bind (amf_need 2) (\<lambda>_.
     rd_bind (rd_num ReadByte) (\<lambda>obtype.
     if obtype \<noteq> AMF0_TYPE_BOOLEAN then rd_err READ_CORRUPTED_DATA
     else rd_bind (rd_num ReadByte) (\<lambda>value.
       if value = VALUE_TRUE then rd_ok (CBoolean True)
       else if value = VALUE_FALSE then rd_ok (CBoolean False)
       else rd_err READ_CORRUPTED_DATA)))"

definition CNumber_Decode :: "cobject amf_reader" where
  "CNumber_Decode =
     rd_bind (amf_need 9) (\<lambda>_.
     rd_bind (rd_num ReadByte) (\<lambda>obtype.
     if obtype \<noteq> AMF0_TYPE_NUMBER then rd_err READ_CORRUPTED_DATA
     else rd_bind (rd_num ReadBE) (\<lambda>v. rd_ok (CNumber v))))"

definition CString_Decode :: "cobject amf_reader" where
  "CString_Decode = rd_bind Amf0_ReadString (\<lambda>s. rd_ok (CString s))"

definition CDate_Decode :: "cobject amf_reader" where
  "CDate_Decode =
     rd_bind (amf_need 11) (\<lambda>_.
     rd_bind (rd_num ReadByte) (\<lambda>obtype.
     if obtype \<noteq> AMF0_TYPE_DATE then rd_err READ_CORRUPTED_DATA
     else rd_bind (rd_num ReadBE) (\<lambda>t.
          rd_bind (rd_num ReadBE) (\<lambda>z. rd_ok (CDate (word_of_int (int64_of_double t)) z)))))"

definition CRecordSet_Decode :: "cobject amf_reader" where
  "CRecordSet_Decode =
     rd_bind (amf_need 1) (\<lambda>_.
     rd_bind (rd_num ReadByte) (\<lambda>obtype.
     if obtype \<noteq> AMF0_TYPE_CLASS_OBJECT then rd_err READ_CORRUPTED_DATA
     else rd_bind Amf0_ReadString (\<lambda>tag.
       if tag \<noteq> bytes_of ''RecordSet'' then rd_err READ_CORRUPTED_DATA else rd_ok CRecordSet)))"

definition CRecordSetPage_Decode :: "cobject amf_reader" where
  "CRecordSetPage_Decode =
     rd_bind (amf_need 1) (\<lambda>_.
     rd_bind (rd_num ReadByte) (\<lambda>obtype.
     if obtype \<noteq> AMF0_TYPE_CLASS_OBJECT then rd_err READ_CORRUPTED_DATA
     else rd_bind Amf0_ReadString (\<lambda>tag.
       if tag \<noteq> bytes_of ''RecordSetPage'' then rd_err READ_CORRUPTED_DATA else rd_ok CRecordSetPage)))"

text \<open>The loops of \<^verbatim>\<open>CArray::Decode\<close> and of the two maps; \<open>rd\<close> is \<^verbatim>\<open>ReadNextObject\<close>.\<close>

primrec array_loop :: "cobject amf_reader \<Rightarrow> nat \<Rightarrow> cobject list amf_reader" where
  "array_loop rd 0 = rd_ok []"
| "array_loop rd (Suc n) = rd_bind rd (\<lambda>x. rd_bind (array_loop rd n) (\<lambda>xs. rd_ok (x # xs)))"

definition CArray_Decode :: "cobject amf_reader \<Rightarrow> cobject amf_reader" where
  "CArray_Decode rd =
     rd_bind (amf_need 5) (\<lambda>_.
     rd_bind (rd_num ReadByte) (\<lambda>obtype.
     if obtype \<noteq> AMF0_TYPE_ARRAY then rd_err READ_CORRUPTED_DATA
     else rd_bind (rd_num ReadBE) (\<lambda>n :: 32 word.
       if sint n > kMaximumArraySize then rd_err READ_STRUCT_TOO_LONG
       else rd_bind (array_loop rd (nat (sint n))) (\<lambda>xs. rd_ok (CArray xs)))))"

primrec string_map_loop :: "cobject amf_reader \<Rightarrow> nat \<Rightarrow> string_map \<Rightarrow> string_map amf_reader" where
  "string_map_loop rd 0 m = (\<lambda>s. None)"
| "string_map_loop rd (Suc fuel) m =
     rd_bind Amf0_PickString (\<lambda>key.
       if key = [] then rd_ok m
       else rd_bind rd (\<lambda>value. string_map_loop rd fuel (CStringMap_Set key value m)))"

definition CStringMap_Decode :: "cobject amf_reader \<Rightarrow> nat \<Rightarrow> cobject amf_reader" where
  "CStringMap_Decode rd fuel =
     rd_bind (amf_need 3) (\<lambda>_.
     rd_bind (rd_num ReadByte) (\<lambda>obtype.
     if obtype \<noteq> AMF0_TYPE_OBJECT then rd_err READ_CORRUPTED_DATA
     else rd_bind (string_map_loop rd fuel ([], [])) (\<lambda>(d, ks).
          rd_bind Amf0_ReadGenericObjectEnd (\<lambda>_. rd_ok (CStringMap d ks)))))"

primrec mixed_map_loop ::
    "cobject amf_reader \<Rightarrow> nat \<Rightarrow> (bytes \<times> cobject) list \<Rightarrow> (bytes \<times> cobject) list amf_reader" where
  "mixed_map_loop rd 0 m = (\<lambda>s. None)"
| "mixed_map_loop rd (Suc fuel) m =
     rd_bind Amf0_PickString (\<lambda>key.
       if key = [] then rd_ok m
       else rd_bind rd (\<lambda>value. mixed_map_loop rd fuel (map_insert key value m)))"

definition CMixedMap_Decode :: "cobject amf_reader \<Rightarrow> nat \<Rightarrow> cobject amf_reader" where
  "CMixedMap_Decode rd fuel =
     rd_bind (amf_need 5) (\<lambda>_.
     rd_bind (rd_num ReadByte) (\<lambda>obtype.
     if obtype \<noteq> AMF0_TYPE_MIXED_ARRAY then rd_err READ_CORRUPTED_DATA
     else rd_bind (rd_num ReadBE) (\<lambda>u.
          rd_bind (mixed_map_loop rd fuel []) (\<lambda>d.
          rd_bind Amf0_ReadGenericObjectEnd (\<lambda>_. rd_ok (CMixedMap u d))))))"

text \<open>
  The class object case of \<^verbatim>\<open>ReadNextObject\<close>: the class name is read between a marker and
  its restore, so the stream is back at the type byte when the object is decoded.
\<close>

definition peek_class_name :: "bytes amf_reader" where
  "peek_class_name = (\<lambda>s. case Amf0_ReadString (drop 1 s) of
     None \<Rightarrow> None | Some (r, _) \<Rightarrow> Some (r, s))"

primrec ReadNextObject_fuel :: "nat \<Rightarrow> cobject amf_reader" where
  "ReadNextObject_fuel 0 = (\<lambda>s. None)"
| "ReadNextObject_fuel (Suc fuel) = (\<lambda>s.
     if length s < 1 then Some (Inl READ_NO_DATA, s)
     else let t = hd s in
       if t = AMF0_TYPE_NUMBER then CNumber_Decode s
       else if t = AMF0_TYPE_BOOLEAN then CBoolean_Decode s
       else if t = AMF0_TYPE_STRING \<or> t = AMF0_TYPE_LONG_STRING then CString_Decode s
       else if t = AMF0_TYPE_OBJECT then CStringMap_Decode (ReadNextObject_fuel fuel) fuel s
       else if t = AMF0_TYPE_NULL \<or> t = AMF0_TYPE_UNDEFINED then CNull_Decode s
       else if t = AMF0_TYPE_MIXED_ARRAY then CMixedMap_Decode (ReadNextObject_fuel fuel) fuel s
       else if t = AMF0_TYPE_ARRAY then CArray_Decode (ReadNextObject_fuel fuel) s
       else if t = AMF0_TYPE_DATE then CDate_Decode s
       else if t = AMF0_TYPE_REFERENCE then
         rd_bind (amf_need 2) (\<lambda>_. rd_bind (rd_num ReadBE)
           (\<lambda>r :: 16 word. rd_err READ_UNSUPPORTED_REFERENCES)) s
       else if t = AMF0_TYPE_CLASS_OBJECT then
         rd_bind peek_class_name (\<lambda>name.
           if name = bytes_of ''RecordSet'' then CRecordSet_Decode
           else if name = bytes_of ''RecordSetPage'' then CRecordSetPage_Decode
           else rd_err READ_NOT_IMPLEMENTED) s
       else if t = AMF0_TYPE_XML \<or> t = AMF0_TYPE_MOVIECLIP \<or> t = AMF0_TYPE_RECORDSET
         \<or> t = AMF0_TYPE_UNSUPPORTED \<or> t = AMF0_TYPE_AMF3_OBJECT
       then Some (Inl READ_NOT_IMPLEMENTED, s)
       else Some (Inl READ_CORRUPTED_DATA, s))"

definition ReadNextObject :: "cobject amf_reader" where
  "ReadNextObject s = ReadNextObject_fuel (Suc (length s)) s"

end
