(* ===== verification/Amf0Laws.thy ===== *)
theory Amf0Laws
  imports Amf0
begin

text \<open>
  What holds of the AMF0 objects: the map invariant is kept by the operations and
  established by the decoders, an object that satisfies it can always be encoded and
  \<open>EncodingSize\<close> is the length of the encoding, no input makes a decoder abort or run for
  ever, and what is encoded is decoded again.
\<close>

section \<open>Well-formed objects\<close>

fun obj_ok :: "cobject \<Rightarrow> bool" where
  "obj_ok (CArray xs) \<longleftrightarrow> (\<forall>x \<in> set xs. obj_ok x)"
| "obj_ok (CStringMap d ks) \<longleftrightarrow> map_ok d \<and> distinct ks \<and> set ks = fst ` set d \<and> (\<forall>(k, x) \<in> set d. obj_ok x)"
| "obj_ok (CMixedMap u d) \<longleftrightarrow> map_ok d \<and> (\<forall>(k, x) \<in> set d. obj_ok x)"
| "obj_ok _ \<longleftrightarrow> True"

definition string_map_ok :: "string_map \<Rightarrow> bool" where
  "string_map_ok m \<longleftrightarrow> map_ok (fst m) \<and> distinct (snd m) \<and> set (snd m) = fst ` set (fst m)"

lemma map_find_None: "map_find k m = None \<longleftrightarrow> k \<notin> fst ` set m"
  by (induction k m rule: map_find.induct) auto

lemma map_find_in: "map_find k m = Some v \<Longrightarrow> (k, v) \<in> set m"
  by (induction k m rule: map_find.induct) (auto split: if_splits)

lemma set_map_insert: "set (map_insert k v m) \<subseteq> insert (k, v) (set m)"
  by (induction k v m rule: map_insert.induct) auto

section \<open>The contract of a map\<close>

locale object_map =
  fixes valid :: "'m \<Rightarrow> bool"
    and lookup :: "'k \<Rightarrow> 'm \<Rightarrow> 'v option"
    and update :: "'k \<Rightarrow> 'v \<Rightarrow> 'm \<Rightarrow> 'm"
    and delete :: "'k \<Rightarrow> 'm \<Rightarrow> 'm option"
  assumes update_valid: "valid m \<Longrightarrow> valid (update k v m)"
    and lookup_update: "valid m \<Longrightarrow> lookup k' (update k v m) = (if k' = k then Some v else lookup k' m)"
    and delete_law: "valid m \<Longrightarrow> \<exists>m'. delete k m = Some m' \<and> valid m'
        \<and> (\<forall>k'. lookup k' m' = (if k' = k then None else lookup k' m))"

context object_map
begin

text \<open>The last write to a key wins, writes to different keys commute as far as lookups see.\<close>

lemma update_update: "valid m \<Longrightarrow> lookup k' (update k v (update k w m)) = lookup k' (update k v m)"
  by (simp add: update_valid lookup_update)

lemma update_commute:
  "valid m \<Longrightarrow> k \<noteq> l \<Longrightarrow> lookup k' (update k v (update l w m)) = lookup k' (update l w (update k v m))"
  by (simp add: update_valid lookup_update)

lemma delete_update:
  assumes "valid m"
  shows "\<exists>m'. delete k (update k v m) = Some m' \<and> valid m'
    \<and> (\<forall>k'. lookup k' m' = (if k' = k then None else lookup k' m))"
  using delete_law[OF update_valid[OF assms], of k k v] by (auto simp: lookup_update[OF assms])

end

interpretation strmap: object_map string_map_ok CStringMap_Find CStringMap_Set CStringMap_Erase
proof unfold_locales
  fix m k k' v
  assume ok: "string_map_ok m"
  show "string_map_ok (CStringMap_Set k v m)"
    using ok by (auto simp: string_map_ok_def CStringMap_Set_def map_insert_ok map_insert_keys
        map_find_None split: option.splits dest: map_find_in) (force dest: map_find_in)+
  show "CStringMap_Find k' (CStringMap_Set k v m) = (if k' = k then Some v else CStringMap_Find k' m)"
    using ok by (auto simp: string_map_ok_def CStringMap_Find_def CStringMap_Set_def map_find_map_of
        map_of_map_insert split: option.splits)
  show "\<exists>m'. CStringMap_Erase k m = Some m' \<and> string_map_ok m'
      \<and> (\<forall>k'. CStringMap_Find k' m' = (if k' = k then None else CStringMap_Find k' m))"
  proof (cases "map_find k (fst m)")
    case None
    then show ?thesis using ok by (auto simp: CStringMap_Erase_def CStringMap_Find_def)
  next
    case (Some w)
    then have "k \<in> set (snd m)"
      using ok map_find_in[OF Some] by (force simp: string_map_ok_def)
    then show ?thesis
      using Some ok map_ok_distinct[of "fst m"]
      by (auto simp: CStringMap_Erase_def CStringMap_Find_def string_map_ok_def map_erase_ok map_erase_keys
          map_find_map_of map_of_map_erase)
  qed
qed

interpretation mixmap: object_map map_ok CMixedMap_Find CMixedMap_Set "\<lambda>k m. Some (CMixedMap_Erase k m)"
  by unfold_locales
     (auto simp: CMixedMap_Find_def CMixedMap_Set_def CMixedMap_Erase_def map_insert_ok map_find_map_of
        map_of_map_insert map_erase_ok map_of_map_erase)

section \<open>Encoding\<close>

lemma length_PutString [simp]: "length (PutString s) = 2 + length s"
  by (simp add: PutString_def)

lemma length_WriteString:
  "length (WriteString s) = (if length s < LONG_STRING_LENGTH then 3 else 5) + length s"
  by (simp add: WriteString_def)

lemma those_map_Some: "(\<And>x. x \<in> set xs \<Longrightarrow> f x = Some (g x)) \<Longrightarrow> those (map f xs) = Some (map g xs)"
  by (induction xs) auto

lemma map_find_map: "map_find k (map (\<lambda>(k, v). (k, f v)) d) = map_option f (map_find k d)"
  by (induction k d rule: map_find.induct) auto

lemma CMixedMap_Encode_map:
  "CMixedMap_Encode u (map (\<lambda>(k, v). (k, f v)) d) =
     map_option (\<lambda>es. [AMF0_TYPE_MIXED_ARRAY] @ WriteBE u @ concat es @ PutString [] @ WriteGenericObjectEnd)
       (those (map (\<lambda>(k, v). map_option (\<lambda>bs. PutString k @ bs) (f v)) d))"
  by (simp add: CMixedMap_Encode_def comp_def case_prod_unfold)

text \<open>The encoding as a total function; \<open>obj_ok\<close> makes the \<^verbatim>\<open>CHECK\<close> hold.\<close>

definition enc :: "cobject \<Rightarrow> bytes" where
  "enc x = the (CObject_Encode x)"

definition enc_entry :: "(bytes \<times> cobject) list \<Rightarrow> bytes \<Rightarrow> bytes" where
  "enc_entry d k = PutString k @ (case map_find k d of None \<Rightarrow> [] | Some v \<Rightarrow> enc v)"

lemma CObject_Encode_total: "obj_ok x \<Longrightarrow> CObject_Encode x = Some (enc x)"
proof (induction x rule: CObject_Encode.induct)
  case (8 xs)
  then have "those (map CObject_Encode xs) = Some (map enc xs)"
    by (intro those_map_Some) auto
  then show ?case by (simp add: enc_def encode_defs)
next
  case (9 d ks)
  have "those (map (\<lambda>k. case map_find k (map (\<lambda>(k, v). (k, CObject_Encode v)) d) of
                None \<Rightarrow> None
              | Some e \<Rightarrow> map_option (\<lambda>bs. PutString k @ bs) e) ks) = Some (map (enc_entry d) ks)"
  proof (rule those_map_Some)
    fix k assume "k \<in> set ks"
    then have "map_find k d \<noteq> None" using "9.prems" map_find_None[of k d] by auto
    then obtain v where v: "map_find k d = Some v" by auto
    have "CObject_Encode v = Some (enc v)"
      using "9.IH"[OF map_find_in[OF v] refl] "9.prems" map_find_in[OF v] by auto
    with v show "(case map_find k (map (\<lambda>(k, v). (k, CObject_Encode v)) d) of
        None \<Rightarrow> None | Some e \<Rightarrow> map_option (\<lambda>bs. PutString k @ bs) e) = Some (enc_entry d k)"
      by (simp add: map_find_map enc_entry_def)
  qed
  then show ?case by (simp add: enc_def encode_defs)
next
  case (10 u d)
  have "those (map (\<lambda>(k, v). map_option (\<lambda>bs. PutString k @ bs) (CObject_Encode v)) d)
      = Some (map (\<lambda>(k, v). PutString k @ enc v) d)"
  proof (rule those_map_Some)
    fix p assume p: "p \<in> set d"
    obtain k v where kv: "p = (k, v)" by (cases p)
    have "obj_ok v" using "10.prems" p kv by auto
    then have "CObject_Encode v = Some (enc v)" using "10.IH"[OF p kv[symmetric]] by simp
    then show "(case p of (k, v) \<Rightarrow> map_option ((@) (PutString k)) (CObject_Encode v))
        = Some (case p of (k, v) \<Rightarrow> PutString k @ enc v)" by (simp add: kv)
  qed
  then show ?case by (simp add: enc_def encode_defs CMixedMap_Encode_map)
qed (auto simp: enc_def encode_defs)

lemma enc_simps [simp]:
  "enc CNull = [AMF0_TYPE_NULL]"
  "enc (CBoolean b) = [AMF0_TYPE_BOOLEAN, if b then VALUE_TRUE else VALUE_FALSE]"
  "enc (CNumber v) = AMF0_TYPE_NUMBER # WriteBE v"
  "enc (CString s) = WriteString s"
  "enc (CDate t z) = AMF0_TYPE_DATE # WriteBE (double_of_int (sint t)) @ WriteBE z"
  "enc CRecordSet = AMF0_TYPE_CLASS_OBJECT # WriteString (bytes_of ''RecordSet'')"
  "enc CRecordSetPage = AMF0_TYPE_CLASS_OBJECT # WriteString (bytes_of ''RecordSetPage'')"
  "obj_ok (CArray xs) \<Longrightarrow>
     enc (CArray xs) = AMF0_TYPE_ARRAY # WriteBE (word_of_nat (length xs) :: 32 word) @ concat (map enc xs)"
  "obj_ok (CStringMap d ks) \<Longrightarrow> enc (CStringMap d ks)
     = AMF0_TYPE_OBJECT # concat (map (enc_entry d) ks) @ PutString [] @ [AMF0_TYPE_END_OF_OBJECT]"
  "obj_ok (CMixedMap u d) \<Longrightarrow> enc (CMixedMap u d)
     = AMF0_TYPE_MIXED_ARRAY # WriteBE u @ concat (map (\<lambda>(k, v). PutString k @ enc v) d)
         @ PutString [] @ [AMF0_TYPE_END_OF_OBJECT]"
proof -
  assume ok: "obj_ok (CArray xs)"
  have "those (map CObject_Encode xs) = Some (map enc xs)"
    by (rule those_map_Some, rule CObject_Encode_total) (use ok in simp)
  then show "enc (CArray xs) = AMF0_TYPE_ARRAY # WriteBE (word_of_nat (length xs) :: 32 word) @ concat (map enc xs)"
    by (simp add: enc_def encode_defs)
next
  assume ok: "obj_ok (CStringMap d ks)"
  have "those (map (\<lambda>k. case map_find k (map (\<lambda>(k, v). (k, CObject_Encode v)) d) of
                None \<Rightarrow> None
              | Some e \<Rightarrow> map_option (\<lambda>bs. PutString k @ bs) e) ks) = Some (map (enc_entry d) ks)"
  proof (rule those_map_Some)
    fix k assume "k \<in> set ks"
    then have "map_find k d \<noteq> None" using ok map_find_None[of k d] by auto
    then obtain v where v: "map_find k d = Some v" by auto
    have "CObject_Encode v = Some (enc v)"
      using CObject_Encode_total ok map_find_in[OF v] by auto
    with v show "(case map_find k (map (\<lambda>(k, v). (k, CObject_Encode v)) d) of
        None \<Rightarrow> None | Some e \<Rightarrow> map_option (\<lambda>bs. PutString k @ bs) e) = Some (enc_entry d k)"
      by (simp add: map_find_map enc_entry_def)
  qed
  then show "enc (CStringMap d ks)
     = AMF0_TYPE_OBJECT # concat (map (enc_entry d) ks) @ PutString [] @ [AMF0_TYPE_END_OF_OBJECT]"
    by (simp add: enc_def encode_defs WriteGenericObjectBegin_def WriteGenericObjectEnd_def)
next
  assume ok: "obj_ok (CMixedMap u d)"
  have "those (map (\<lambda>(k, v). map_option (\<lambda>bs. PutString k @ bs) (CObject_Encode v)) d)
      = Some (map (\<lambda>(k, v). PutString k @ enc v) d)"
  proof (rule those_map_Some)
    fix p assume p: "p \<in> set d"
    obtain k v where kv: "p = (k, v)" by (cases p)
    have "obj_ok v" using ok p kv by auto
    then show "(case p of (k, v) \<Rightarrow> map_option ((@) (PutString k)) (CObject_Encode v))
        = Some (case p of (k, v) \<Rightarrow> PutString k @ enc v)" by (simp add: kv CObject_Encode_total)
  qed
  then show "enc (CMixedMap u d)
     = AMF0_TYPE_MIXED_ARRAY # WriteBE u @ concat (map (\<lambda>(k, v). PutString k @ enc v) d)
         @ PutString [] @ [AMF0_TYPE_END_OF_OBJECT]"
    by (simp add: enc_def encode_defs CMixedMap_Encode_map WriteGenericObjectEnd_def)
qed (auto simp: enc_def encode_defs WriteClassObjectBegin_def)

text \<open>\<^verbatim>\<open>EncodingSize\<close> is the number of bytes of the encoding, in 32 bits.\<close>

lemma word_of_nat_sum_list: "(\<Sum>x\<leftarrow>xs. word_of_nat (f x)) = (word_of_nat (\<Sum>x\<leftarrow>xs. f x) :: 'a::len word)"
  by (induction xs) auto

lemma sum_list_permute:
  fixes f :: "'b \<Rightarrow> 'c::comm_monoid_add"
  assumes "distinct xs" "distinct ys" "set xs = set ys"
  shows "(\<Sum>x\<leftarrow>xs. f x) = (\<Sum>x\<leftarrow>ys. f x)"
  using assms by (simp add: sum_list_distinct_conv_sum_set)

lemma map_find_of_mem: "map_ok d \<Longrightarrow> (k, v) \<in> set d \<Longrightarrow> map_find k d = Some v"
  by (induction d) force+

lemma CObject_EncodingSize_eq: "obj_ok x \<Longrightarrow> CObject_EncodingSize x = word_of_nat (length (enc x))"
proof (induction x rule: CObject_EncodingSize.induct)
  case (4 s)
  then show ?case by (simp add: length_WriteString encoding_size_defs)
next
  case (6)
  then show ?case by (simp add: length_WriteString LONG_STRING_LENGTH_def bytes_of_def)
next
  case (7)
  then show ?case by (simp add: length_WriteString LONG_STRING_LENGTH_def bytes_of_def)
next
  case (8 xs)
  have "sum_list (map CObject_EncodingSize xs) = (\<Sum>x\<leftarrow>xs. word_of_nat (length (enc x)))"
    using 8 by (intro arg_cong[of _ _ sum_list]) auto
  then show ?case
    using 8(2) by (simp add: word_of_nat_sum_list length_concat comp_def encoding_size_defs case_prod_unfold del: obj_ok.simps)
next
  case (9 d ks)
  let ?f = "\<lambda>k. length (enc_entry d k)"
  have "(\<Sum>(k, v)\<leftarrow>d. 2 + word_of_nat (length k) + CObject_EncodingSize v)
      = (\<Sum>(k, v)\<leftarrow>d. word_of_nat (?f k))"
    using 9 map_find_of_mem[of d] by (intro arg_cong[of _ _ sum_list]) (auto simp: enc_entry_def)
  moreover have "(\<Sum>(k, v)\<leftarrow>d. ?f k) = (\<Sum>k\<leftarrow>map fst d. ?f k)"
    by (simp add: case_prod_unfold comp_def)
  moreover have "(\<Sum>k\<leftarrow>map fst d. ?f k) = (\<Sum>k\<leftarrow>ks. ?f k)"
    using 9(2) by (intro sum_list_permute) (auto simp: map_ok_distinct)
  moreover have "(\<Sum>(k, v)\<leftarrow>d. word_of_nat (?f k)) = (word_of_nat (\<Sum>(k, v)\<leftarrow>d. ?f k) :: 32 word)"
    by (simp add: case_prod_unfold word_of_nat_sum_list)
  ultimately show ?case
    using 9(2) by (simp add: length_concat comp_def encoding_size_defs case_prod_unfold del: obj_ok.simps)
next
  case (10 u d)
  have "(\<Sum>(k, v)\<leftarrow>d. 2 + word_of_nat (length k) + CObject_EncodingSize v)
      = (\<Sum>(k, v)\<leftarrow>d. word_of_nat (length (PutString k @ enc v)))"
    using 10 by (intro arg_cong[of _ _ sum_list]) auto
  then have "(\<Sum>(k, v)\<leftarrow>d. 2 + word_of_nat (length k) + CObject_EncodingSize v)
      = (word_of_nat (\<Sum>(k, v)\<leftarrow>d. length (PutString k @ enc v)) :: 32 word)"
    by (simp add: case_prod_unfold word_of_nat_sum_list del: length_append length_PutString)
  then show ?case
    using 10(2) by (simp add: length_concat comp_def case_prod_unfold encoding_size_defs del: obj_ok.simps)
qed auto

section \<open>No input makes a decoder abort\<close>

lemma Amf0_ReadString_post: "rd_post Amf0_ReadString s 3 (\<lambda>x. length x \<le> kMaximumStringReadableData)"
  unfolding Amf0_ReadString_def amf_need_def
proof (intro rd_rules)
  fix b s' assume s: "1 \<le> length s" "s = b # s'"
  have len: "rd_post (if b = AMF0_TYPE_STRING then
                rd_bind (rd_need READ_NO_DATA 2) (\<lambda>_. rd_bind (rd_num ReadBE) (\<lambda>n :: 16 word. rd_ok (unat n)))
              else if b = AMF0_TYPE_LONG_STRING then
                rd_bind (rd_need READ_NO_DATA 4) (\<lambda>_. rd_bind (rd_num ReadBE) (\<lambda>n :: 32 word. rd_ok (unat n)))
              else rd_err READ_CORRUPTED_DATA) s' 2 (\<lambda>n. True)"
    by (intro rd_rules rd_post_mono[where k = 4 and k' = 2] order_refl) simp_all
  show "rd_post (rd_bind (if b = AMF0_TYPE_STRING then
                rd_bind (rd_need READ_NO_DATA 2) (\<lambda>_. rd_bind (rd_num ReadBE) (\<lambda>n :: 16 word. rd_ok (unat n)))
              else if b = AMF0_TYPE_LONG_STRING then
                rd_bind (rd_need READ_NO_DATA 4) (\<lambda>_. rd_bind (rd_num ReadBE) (\<lambda>n :: 32 word. rd_ok (unat n)))
              else rd_err READ_CORRUPTED_DATA) (\<lambda>len.
        if len > kMaximumStringReadableData then rd_err READ_STRUCT_TOO_LONG
        else rd_bind (rd_need READ_NO_DATA len) (\<lambda>_. rd_num (read_checked len)))) s' (3 - 1)
        (\<lambda>x. length x \<le> kMaximumStringReadableData)"
    by (rule rd_post_bind[OF len]) (intro rd_rules, simp_all)
qed simp_all

lemma Amf0_PickString_post: "rd_post Amf0_PickString s 2 (\<lambda>x. True)"
  unfolding Amf0_PickString_def amf_need_def by (intro rd_rules) auto

lemma Amf0_ReadGenericObjectEnd_post: "rd_post Amf0_ReadGenericObjectEnd s 1 (\<lambda>x. True)"
  unfolding Amf0_ReadGenericObjectEnd_def amf_need_def by (intro rd_rules) auto

lemma object_end_post:
  "Q v \<Longrightarrow> k \<le> 1 \<Longrightarrow> rd_post (rd_bind Amf0_ReadGenericObjectEnd (\<lambda>_. rd_ok v)) s k Q"
  by (rule rd_post_bind[OF Amf0_ReadGenericObjectEnd_post]) auto

lemma CNull_Decode_post: "rd_post CNull_Decode s 1 obj_ok"
  unfolding CNull_Decode_def amf_need_def by (intro rd_rules) auto

lemma CBoolean_Decode_post: "rd_post CBoolean_Decode s 2 obj_ok"
  unfolding CBoolean_Decode_def amf_need_def by (intro rd_rules) auto

lemma CNumber_Decode_post: "rd_post CNumber_Decode s 9 obj_ok"
  unfolding CNumber_Decode_def amf_need_def by (intro rd_rules) auto

lemma CString_Decode_post: "rd_post CString_Decode s 3 obj_ok"
  unfolding CString_Decode_def by (rule rd_post_bind[OF Amf0_ReadString_post]) (intro rd_rules, auto)

lemma CDate_Decode_post: "rd_post CDate_Decode s 11 obj_ok"
  unfolding CDate_Decode_def amf_need_def by (intro rd_rules) auto

lemma CRecordSet_Decode_post: "rd_post CRecordSet_Decode s 4 obj_ok"
  unfolding CRecordSet_Decode_def amf_need_def
  by (intro rd_rules rd_post_bind[OF Amf0_ReadString_post]) auto

lemma CRecordSetPage_Decode_post: "rd_post CRecordSetPage_Decode s 4 obj_ok"
  unfolding CRecordSetPage_Decode_def amf_need_def
  by (intro rd_rules rd_post_bind[OF Amf0_ReadString_post]) auto

lemma array_loop_post:
  assumes "\<And>s. length s < N \<Longrightarrow> rd_post rd s 1 P" "length s < N"
  shows "rd_post (array_loop rd n) s 0 (\<lambda>xs. \<forall>x \<in> set xs. P x)"
  using assms(2)
proof (induction n arbitrary: s)
  case 0
  then show ?case by (auto intro: rd_rules)
next
  case (Suc n)
  have "rd_post (array_loop rd (Suc n)) s 0 (\<lambda>xs. \<forall>x \<in> set xs. P x)"
    unfolding array_loop.simps
  proof (rule rd_post_bind[OF rd_post_mono[OF assms(1)[OF Suc.prems], of 0]])
    fix v and s' :: bytes assume v: "P v" "length s' + 0 \<le> length s"
    then have "length s' < N" using Suc.prems by simp
    show "rd_post (rd_bind (array_loop rd n) (\<lambda>xs. rd_ok (v # xs))) s' (0 - 0) (\<lambda>xs. \<forall>x\<in>set xs. P x)"
      by (rule rd_post_bind[OF Suc.IH[OF \<open>length s' < N\<close>]]) (use v in auto)
  qed simp_all
  then show ?case .
qed

lemma string_map_loop_post:
  assumes "\<And>s. length s < N \<Longrightarrow> rd_post rd s 1 obj_ok"
    and "length s < N" "length s < fuel" "obj_ok (CStringMap (fst m) (snd m))"
  shows "rd_post (string_map_loop rd fuel m) s 2 (\<lambda>m. obj_ok (CStringMap (fst m) (snd m)))"
  using assms(2-)
proof (induction fuel arbitrary: s m)
  case 0
  then show ?case by simp
next
  case (Suc fuel)
  show ?case
    unfolding string_map_loop.simps
  proof (rule rd_post_bind[OF Amf0_PickString_post])
    fix key and s' :: bytes assume s': "length s' + 2 \<le> length s"
    show "rd_post (if key = [] then rd_ok m
        else rd_bind rd (\<lambda>value. string_map_loop rd fuel (CStringMap_Set key value m))) s' (2 - 2)
        (\<lambda>m. obj_ok (CStringMap (fst m) (snd m)))"
    proof (intro rd_rules)
      have "rd_post rd s' 1 obj_ok" using assms(1) s' Suc.prems(1) by simp
      then show "rd_post (rd_bind rd (\<lambda>value. string_map_loop rd fuel (CStringMap_Set key value m))) s' (2 - 2)
          (\<lambda>m. obj_ok (CStringMap (fst m) (snd m)))"
      proof (rule rd_post_bind)
        fix v and s'' :: bytes assume v: "obj_ok v" "length s'' + 1 \<le> length s'"
        have "string_map_ok (CStringMap_Set key v m)"
          using Suc.prems(3) by (intro strmap.update_valid) (auto simp: string_map_ok_def)
        moreover have "\<forall>(k, x) \<in> set (fst (CStringMap_Set key v m)). obj_ok x"
          using Suc.prems(3) v(1) set_map_insert[of key v "fst m"]
          by (fastforce simp: CStringMap_Set_def split: option.splits)
        ultimately have "obj_ok (CStringMap (fst (CStringMap_Set key v m)) (snd (CStringMap_Set key v m)))"
          by (simp add: string_map_ok_def)
        then have "rd_post (string_map_loop rd fuel (CStringMap_Set key v m)) s'' 2
            (\<lambda>m. obj_ok (CStringMap (fst m) (snd m)))"
          using v s' Suc.prems(1,2) by (intro Suc.IH) auto
        then show "rd_post (string_map_loop rd fuel (CStringMap_Set key v m)) s'' (2 - 2 - 1)
            (\<lambda>m. obj_ok (CStringMap (fst m) (snd m)))"
          by (rule rd_post_mono) auto
      qed
    qed (use Suc.prems(3) in auto)
  qed
qed

lemma mixed_map_loop_post:
  assumes "\<And>s. length s < N \<Longrightarrow> rd_post rd s 1 obj_ok"
    and "length s < N" "length s < fuel" "obj_ok (CMixedMap u m)"
  shows "rd_post (mixed_map_loop rd fuel m) s 2 (\<lambda>m. obj_ok (CMixedMap u m))"
  using assms(2-)
proof (induction fuel arbitrary: s m)
  case 0
  then show ?case by simp
next
  case (Suc fuel)
  show ?case
    unfolding mixed_map_loop.simps
  proof (rule rd_post_bind[OF Amf0_PickString_post])
    fix key and s' :: bytes assume s': "length s' + 2 \<le> length s"
    show "rd_post (if key = [] then rd_ok m
        else rd_bind rd (\<lambda>value. mixed_map_loop rd fuel (map_insert key value m))) s' (2 - 2)
        (\<lambda>m. obj_ok (CMixedMap u m))"
    proof (intro rd_rules)
      have "rd_post rd s' 1 obj_ok" using assms(1) s' Suc.prems(1) by simp
      then show "rd_post (rd_bind rd (\<lambda>value. mixed_map_loop rd fuel (map_insert key value m))) s' (2 - 2)
          (\<lambda>m. obj_ok (CMixedMap u m))"
      proof (rule rd_post_bind)
        fix v and s'' :: bytes assume v: "obj_ok v" "length s'' + 1 \<le> length s'"
        have "obj_ok (CMixedMap u (map_insert key v m))"
          using Suc.prems(3) v(1) set_map_insert[of key v m] map_insert_ok[of m key v] by fastforce
        then have "rd_post (mixed_map_loop rd fuel (map_insert key v m)) s'' 2 (\<lambda>m. obj_ok (CMixedMap u m))"
          using v s' Suc.prems(1,2) by (intro Suc.IH) auto
        then show "rd_post (mixed_map_loop rd fuel (map_insert key v m)) s'' (2 - 2 - 1) (\<lambda>m. obj_ok (CMixedMap u m))"
          by (rule rd_post_mono) auto
      qed
    qed (use Suc.prems(3) in auto)
  qed
qed

lemma peek_class_name_post:
  assumes "1 \<le> length s" "\<And>name. rd_post (f name) s k R"
  shows "rd_post (rd_bind peek_class_name f) s k R"
  using Amf0_ReadString_post[of "drop 1 s"]
proof (cases rule: rd_postE)
  case (err e s')
  then show ?thesis by (simp add: rd_post_def rd_bind_def peek_class_name_def)
next
  case (ok v s')
  then have "rd_bind peek_class_name f s = f v s" by (simp add: rd_bind_def peek_class_name_def)
  then show ?thesis using assms(2)[of v] by (simp add: rd_post_def)
qed

lemma CArray_Decode_post:
  assumes "\<And>s. length s < N \<Longrightarrow> rd_post rd s 1 obj_ok" "length s < Suc N"
  shows "rd_post (CArray_Decode rd) s 5 obj_ok"
  unfolding CArray_Decode_def amf_need_def
  by (intro rd_rules rd_post_bind[OF array_loop_post[OF assms(1)]]) (use assms(2) in auto)

lemma CStringMap_Decode_post:
  assumes "\<And>s. length s < N \<Longrightarrow> rd_post rd s 1 obj_ok" "length s < Suc N"
  shows "rd_post (CStringMap_Decode rd N) s 3 obj_ok"
  unfolding CStringMap_Decode_def amf_need_def
proof (intro rd_rules)
  fix b s' assume s: "3 \<le> length s" "s = b # s'"
  have m: "rd_post (string_map_loop rd N ([], [])) s' 2 (\<lambda>m. obj_ok (CStringMap (fst m) (snd m)))"
    using s assms by (intro string_map_loop_post[where N = N]) auto
  show "rd_post (rd_bind (string_map_loop rd N ([], [])) (\<lambda>(d, ks). rd_bind Amf0_ReadGenericObjectEnd
      (\<lambda>_. rd_ok (CStringMap d ks)))) s' (3 - 1) obj_ok"
    by (rule rd_post_bind[OF m])
       (auto intro!: object_end_post simp: case_prod_unfold)
qed auto

lemma CMixedMap_Decode_post:
  assumes "\<And>s. length s < N \<Longrightarrow> rd_post rd s 1 obj_ok" "length s < Suc N"
  shows "rd_post (CMixedMap_Decode rd N) s 5 obj_ok"
  unfolding CMixedMap_Decode_def amf_need_def
proof (intro rd_rules)
  fix b s' and u :: "32 word" and s2 :: bytes
  assume s: "5 \<le> length s" "s = b # s'" "length s2 + LENGTH(32) div 8 = length s'"
  have m: "rd_post (mixed_map_loop rd N []) s2 2 (\<lambda>m. obj_ok (CMixedMap u m))"
    using s assms by (intro mixed_map_loop_post[where N = N]) auto
  show "rd_post (rd_bind (mixed_map_loop rd N []) (\<lambda>d. rd_bind Amf0_ReadGenericObjectEnd
      (\<lambda>_. rd_ok (CMixedMap u d)))) s2 (5 - 1 - LENGTH(32) div 8) obj_ok"
    by (rule rd_post_bind[OF m])
       (auto intro!: object_end_post simp: case_prod_unfold)
qed auto

lemma class_object_post:
  "1 \<le> length s \<Longrightarrow> rd_post (rd_bind peek_class_name (\<lambda>name.
           if name = bytes_of ''RecordSet'' then CRecordSet_Decode
           else if name = bytes_of ''RecordSetPage'' then CRecordSetPage_Decode
           else rd_err READ_NOT_IMPLEMENTED)) s 1 obj_ok"
  by (intro peek_class_name_post rd_post_if rd_post_err rd_post_mono[OF CRecordSet_Decode_post]
      rd_post_mono[OF CRecordSetPage_Decode_post]) auto

lemma reference_post:
  "rd_post (rd_bind (amf_need 2) (\<lambda>_. rd_bind (rd_num ReadBE)
     (\<lambda>r :: 16 word. rd_err READ_UNSUPPORTED_REFERENCES))) s 1 obj_ok"
  unfolding amf_need_def by (intro rd_rules) auto

lemma ReadNextObject_fuel_post: "length s < n \<Longrightarrow> rd_post (ReadNextObject_fuel n) s 1 obj_ok"
proof (induction n arbitrary: s)
  case 0
  then show ?case by simp
next
  case (Suc n)
  let ?rd = "ReadNextObject_fuel n"
  have nonempty: "rd_post (ReadNextObject_fuel (Suc n)) s 1 obj_ok" if "1 \<le> length s"
    unfolding ReadNextObject_fuel.simps Let_def
    by (intro rd_post_cases
        rd_post_mono[OF CNumber_Decode_post] rd_post_mono[OF CBoolean_Decode_post]
        rd_post_mono[OF CString_Decode_post] rd_post_mono[OF CNull_Decode_post]
        rd_post_mono[OF CDate_Decode_post]
        rd_post_mono[OF CStringMap_Decode_post[OF Suc.IH Suc.prems]]
        rd_post_mono[OF CMixedMap_Decode_post[OF Suc.IH Suc.prems]]
        rd_post_mono[OF CArray_Decode_post[OF Suc.IH Suc.prems]]
        reference_post class_object_post[OF that] rd_post_err[unfolded rd_err_def])
       (use that in simp_all)
  show ?case
    using nonempty by (cases "length s < 1") (auto simp: rd_post_def)
qed

section \<open>Round trip\<close>

text \<open>The sizes the format can carry and the decoder accepts.\<close>

fun obj_fits :: "cobject \<Rightarrow> bool" where
  "obj_fits (CString s) \<longleftrightarrow> length s \<le> kMaximumStringReadableData"
| "obj_fits (CDate t z) \<longleftrightarrow> \<bar>sint t\<bar> < 2 ^ 53"
| "obj_fits (CArray xs) \<longleftrightarrow> int (length xs) \<le> kMaximumArraySize \<and> (\<forall>x \<in> set xs. obj_fits x)"
| "obj_fits (CStringMap d ks) \<longleftrightarrow> (\<forall>(k, x) \<in> set d. k \<noteq> [] \<and> length k < 2 ^ 16 \<and> obj_fits x)"
| "obj_fits (CMixedMap u d) \<longleftrightarrow> (\<forall>(k, x) \<in> set d. k \<noteq> [] \<and> length k < 2 ^ 16 \<and> obj_fits x)"
| "obj_fits _ \<longleftrightarrow> True"

lemma PickString_PutString:
  "length k < 2 ^ 16 \<Longrightarrow> Amf0_PickString (PutString k @ s) = Some (Inr k, s)"
  by (simp add: Amf0_PickString_def amf_need_def PutString_def codec_simps unat_word_of_nat)

lemma ReadString_WriteString:
  assumes "length x \<le> kMaximumStringReadableData"
  shows "Amf0_ReadString (WriteString x @ s) = Some (Inr x, s)"
proof -
  have big: "length x < 2 ^ 32" using assms by (simp add: kMaximumStringReadableData_def)
  show ?thesis
  proof (cases "length x < LONG_STRING_LENGTH")
    case True
    then have "length x < 2 ^ 16" by (simp add: LONG_STRING_LENGTH_def)
    then show ?thesis
      using True assms
      by (simp add: Amf0_ReadString_def amf_need_def WriteString_def codec_simps unat_word_of_nat
          rd_bind_def rd_need_def rd_num_def rd_ok_def)
  next
    case False
    then show ?thesis
      using assms big
      by (simp add: Amf0_ReadString_def amf_need_def WriteString_def codec_simps unat_word_of_nat
          rd_bind_def rd_need_def rd_num_def rd_ok_def amf0_types)
  qed
qed

lemma ReadGenericObjectEnd_ok: "Amf0_ReadGenericObjectEnd (AMF0_TYPE_END_OF_OBJECT # s) = Some (Inr (), s)"
  by (simp add: Amf0_ReadGenericObjectEnd_def amf_need_def codec_simps)

text \<open>What it means that \<open>rd\<close> reads back every encoding shorter than \<open>N\<close>.\<close>

definition reads_back :: "cobject amf_reader \<Rightarrow> nat \<Rightarrow> cobject \<Rightarrow> bool" where
  "reads_back rd N x \<longleftrightarrow> (\<forall>s. length (enc x @ s) < N \<longrightarrow> rd (enc x @ s) = Some (Inr x, s))"

lemma array_loop_enc:
  assumes "\<And>x. x \<in> set xs \<Longrightarrow> reads_back rd N x" "length (concat (map enc xs) @ s) < N"
  shows "array_loop rd (length xs) (concat (map enc xs) @ s) = Some (Inr xs, s)"
  using assms
proof (induction xs arbitrary: s)
  case Nil
  then show ?case by (simp add: codec_simps)
next
  case (Cons x xs)
  have "rd (enc x @ concat (map enc xs) @ s) = Some (Inr x, concat (map enc xs) @ s)"
    using Cons.prems by (simp add: reads_back_def)
  moreover have "array_loop rd (length xs) (concat (map enc xs) @ s) = Some (Inr xs, s)"
    using Cons.prems by (intro Cons.IH) auto
  ultimately show ?case by (simp add: rd_bind_ok codec_simps)
qed

lemma string_map_loop_enc:
  assumes "\<And>k. k \<in> set ks \<Longrightarrow> k \<noteq> [] \<and> length k < 2 ^ 16 \<and> (\<exists>v. map_find k d = Some v \<and> reads_back rd N v)"
    and "length (concat (map (enc_entry d) ks) @ PutString [] @ s) < N"
    and "length (concat (map (enc_entry d) ks) @ PutString [] @ s) < fuel"
  shows "string_map_loop rd fuel m (concat (map (enc_entry d) ks) @ PutString [] @ s)
    = Some (Inr (fold (\<lambda>k. CStringMap_Set k (the (map_find k d))) ks m), s)"
  using assms
proof (induction ks arbitrary: m fuel)
  case Nil
  then obtain f where "fuel = Suc f" by (cases fuel) auto
  then show ?case by (simp add: rd_bind_ok PickString_PutString codec_simps)
next
  case (Cons k ks)
  then obtain f where f: "fuel = Suc f" by (cases fuel) auto
  obtain v where v: "map_find k d = Some v" "reads_back rd N v" "k \<noteq> []" "length k < 2 ^ 16"
    using Cons.prems(1)[of k] by auto
  let ?rest = "concat (map (enc_entry d) ks) @ PutString [] @ s"
  have e: "enc_entry d k = PutString k @ enc v" using v(1) by (simp add: enc_entry_def)
  have "rd (enc v @ ?rest) = Some (Inr v, ?rest)"
    using v(2) Cons.prems(2) e by (simp add: reads_back_def)
  moreover have "string_map_loop rd f (CStringMap_Set k v m) ?rest
      = Some (Inr (fold (\<lambda>k. CStringMap_Set k (the (map_find k d))) ks (CStringMap_Set k v m)), s)"
    using Cons.prems f e by (intro Cons.IH) auto
  moreover have "Amf0_PickString (PutString k @ enc v @ ?rest) = Some (Inr k, enc v @ ?rest)"
    using v(4) by (rule PickString_PutString)
  ultimately show ?case using f v e by (simp add: rd_bind_ok)
qed

lemma mixed_map_loop_enc:
  assumes "\<And>k v. (k, v) \<in> set d \<Longrightarrow> k \<noteq> [] \<and> length k < 2 ^ 16 \<and> reads_back rd N v"
    and "length (concat (map (\<lambda>(k, v). PutString k @ enc v) d) @ PutString [] @ s) < N"
    and "length (concat (map (\<lambda>(k, v). PutString k @ enc v) d) @ PutString [] @ s) < fuel"
  shows "mixed_map_loop rd fuel m (concat (map (\<lambda>(k, v). PutString k @ enc v) d) @ PutString [] @ s)
    = Some (Inr (fold (\<lambda>(k, v). map_insert k v) d m), s)"
  using assms
proof (induction d arbitrary: m fuel)
  case Nil
  then obtain f where "fuel = Suc f" by (cases fuel) auto
  then show ?case by (simp add: rd_bind_ok PickString_PutString codec_simps)
next
  case (Cons p d)
  obtain k v where p: "p = (k, v)" by (cases p)
  obtain f where f: "fuel = Suc f" using Cons.prems(3) by (cases fuel) auto
  have v: "reads_back rd N v" "k \<noteq> []" "length k < 2 ^ 16"
    using Cons.prems(1)[of k v] p by auto
  let ?rest = "concat (map (\<lambda>(k, v). PutString k @ enc v) d) @ PutString [] @ s"
  have "rd (enc v @ ?rest) = Some (Inr v, ?rest)"
    using v(1) Cons.prems(2) p by (simp add: reads_back_def)
  moreover have "mixed_map_loop rd f (map_insert k v m) ?rest
      = Some (Inr (fold (\<lambda>(k, v). map_insert k v) d (map_insert k v m)), s)"
    using Cons.prems f p by (intro Cons.IH) auto
  moreover have "Amf0_PickString (PutString k @ enc v @ ?rest) = Some (Inr k, enc v @ ?rest)"
    using v(3) by (rule PickString_PutString)
  ultimately show ?case using f v p by (simp add: rd_bind_ok)
qed

text \<open>Inserting all entries of a map in any order rebuilds the map.\<close>

lemma fold_CStringMap_Set:
  assumes "string_map_ok m" "distinct ks" "set ks \<inter> set (snd m) = {}"
  shows "string_map_ok (fold (\<lambda>k. CStringMap_Set k (f k)) ks m)
    \<and> snd (fold (\<lambda>k. CStringMap_Set k (f k)) ks m) = snd m @ ks
    \<and> (\<forall>k. CStringMap_Find k (fold (\<lambda>k. CStringMap_Set k (f k)) ks m)
         = (if k \<in> set ks then Some (f k) else CStringMap_Find k m))"
  using assms
proof (induction ks arbitrary: m)
  case Nil
  then show ?case by simp
next
  case (Cons k ks)
  let ?m = "CStringMap_Set k (f k) m"
  have new: "map_find k (fst m) = None"
    using Cons.prems(1,3) by (auto simp: map_find_None string_map_ok_def)
  then have snd: "snd ?m = snd m @ [k]" by (simp add: CStringMap_Set_def)
  note IH = Cons.IH[of ?m, OF strmap.update_valid[OF Cons.prems(1)]]
  have "distinct ks" "set ks \<inter> set (snd ?m) = {}" using Cons.prems snd by auto
  note IH = IH[OF this]
  show ?case using IH snd strmap.lookup_update[OF Cons.prems(1)] Cons.prems(2) by auto
qed

lemma map_find_ext:
  assumes "map_ok m" "map_ok m'" "\<And>k. map_find k m = map_find k m'"
  shows "m = m'"
  using assms by (intro map_ok_unique) (auto simp: map_find_map_of fun_eq_iff)

lemma rebuild_string_map:
  assumes "obj_ok (CStringMap d ks)"
  shows "fold (\<lambda>k. CStringMap_Set k (the (map_find k d))) ks ([], []) = (d, ks)"
proof -
  let ?m = "fold (\<lambda>k. CStringMap_Set k (the (map_find k d))) ks ([], [])"
  have p: "string_map_ok ([], [])" "distinct ks" "set ks \<inter> set (snd (([], []) :: string_map)) = {}"
    using assms by (auto simp: string_map_ok_def)
  note f = fold_CStringMap_Set[OF p, of "\<lambda>k. the (map_find k d)"]
  have ok: "string_map_ok ?m" "snd ?m = ks"
    and find: "CStringMap_Find k ?m = (if k \<in> set ks then Some (the (map_find k d)) else None)" for k
    using f by (simp_all add: CStringMap_Find_def)
  have mem: "k \<in> set ks \<longleftrightarrow> map_find k d \<noteq> None" for k using assms by (simp add: map_find_None)
  have same: "map_find k (fst ?m) = map_find k d" for k
    using find[of k] mem[of k] unfolding CStringMap_Find_def by (cases "map_find k d") simp_all
  have "map_ok (fst ?m)" "map_ok d" using ok(1) assms by (simp_all add: string_map_ok_def)
  then have "fst ?m = d" using same by (rule map_find_ext)
  with ok(2) show ?thesis by (simp add: prod_eq_iff)
qed

lemma fold_map_insert:
  assumes "map_ok m" "distinct (map fst d)"
  shows "map_ok (fold (\<lambda>(k, v). map_insert k v) d m)
    \<and> (\<forall>k. map_find k (fold (\<lambda>(k, v). map_insert k v) d m)
         = (case map_find k d of None \<Rightarrow> map_find k m | Some v \<Rightarrow> Some v))"
  using assms
proof (induction d arbitrary: m)
  case (Cons p d)
  obtain k v where p: "p = (k, v)" by (cases p)
  note IH = Cons.IH[OF map_insert_ok[OF Cons.prems(1)], of k v]
  have "map_find k d = None" using Cons.prems(2) p by (simp add: map_find_None)
  then show ?case
    using IH Cons.prems p by (auto simp: map_find_map_of map_of_map_insert split: option.splits)
qed simp

lemma rebuild_mixed_map:
  assumes "map_ok d"
  shows "fold (\<lambda>(k, v). map_insert k v) d [] = d"
  using fold_map_insert[of "[]" d] assms map_ok_distinct[OF assms]
  by (intro map_find_ext) (auto split: option.splits)

lemma roundtrip:
  "obj_ok x \<Longrightarrow> obj_fits x \<Longrightarrow> reads_back (ReadNextObject_fuel n) n x"
proof (induction n arbitrary: x)
  case 0
  then show ?case by (simp add: reads_back_def)
next
  case (Suc n)
  let ?rd = "ReadNextObject_fuel n"
  have "ReadNextObject_fuel (Suc n) (enc x @ s) = Some (Inr x, s)" if len: "length (enc x @ s) < Suc n" for s
  proof (cases x)
    case CNull
    then show ?thesis by (simp add: amf0_types CNull_Decode_def amf_need_def codec_simps)
  next
    case (CBoolean b)
    then show ?thesis by (simp add: amf0_types CBoolean_Decode_def amf_need_def codec_simps)
  next
    case (CNumber v)
    then show ?thesis by (simp add: amf0_types CNumber_Decode_def amf_need_def codec_simps)
  next
    case (CString str)
    then have "hd (WriteString str @ s) = AMF0_TYPE_STRING \<or> hd (WriteString str @ s) = AMF0_TYPE_LONG_STRING"
      by (simp add: WriteString_def)
    moreover have "CString_Decode (WriteString str @ s) = Some (Inr (CString str), s)"
      using CString Suc.prems ReadString_WriteString[of str s]
      by (simp add: CString_Decode_def rd_bind_ok codec_simps)
    moreover have "WriteString str @ s \<noteq> []" by (simp add: WriteString_def)
    ultimately show ?thesis using CString by (auto simp: amf0_types Let_def)
  next
    case (CDate t z)
    then have "int64_of_double (double_of_int (sint t)) = sint t"
      using Suc.prems by (intro int64_of_double_of_int) simp
    then show ?thesis
      using CDate by (simp add: amf0_types CDate_Decode_def amf_need_def codec_simps)
  next
    case CRecordSet
    have "length (bytes_of ''RecordSet'') \<le> kMaximumStringReadableData"
      by (simp add: bytes_of_def kMaximumStringReadableData_def)
    note rs = ReadString_WriteString[OF this, of s]
    have "rd_bind peek_class_name f (enc x @ s) = f (bytes_of ''RecordSet'') (enc x @ s)" for f :: "_ \<Rightarrow> cobject amf_reader"
      using CRecordSet rs by (simp add: rd_bind_def peek_class_name_def)
    then show ?thesis
      using CRecordSet rs
      by (simp add: amf0_types Let_def) (simp add: CRecordSet_Decode_def amf_need_def codec_simps amf0_types rd_bind_ok)
  next
    case CRecordSetPage
    have "length (bytes_of ''RecordSetPage'') \<le> kMaximumStringReadableData"
      by (simp add: bytes_of_def kMaximumStringReadableData_def)
    note rs = ReadString_WriteString[OF this, of s]
    have ne: "bytes_of ''RecordSetPage'' \<noteq> bytes_of ''RecordSet''" by (simp add: bytes_of_def)
    have "rd_bind peek_class_name f (enc x @ s) = f (bytes_of ''RecordSetPage'') (enc x @ s)" for f :: "_ \<Rightarrow> cobject amf_reader"
      using CRecordSetPage rs by (simp add: rd_bind_def peek_class_name_def)
    then show ?thesis
      using CRecordSetPage rs ne
      by (simp add: amf0_types Let_def) (simp add: CRecordSetPage_Decode_def amf_need_def codec_simps amf0_types rd_bind_ok)
  next
    case (CArray xs)
    have n: "int (length xs) \<le> kMaximumArraySize" using Suc.prems(2) CArray by simp
    then have si: "sint (word_of_nat (length xs) :: 32 word) = int (length xs)"
      by (simp add: kMaximumArraySize_def signed_of_nat signed_take_bit_int_eq_self)
    have "array_loop ?rd (length xs) (concat (map enc xs) @ s) = Some (Inr xs, s)"
      using Suc CArray len by (intro array_loop_enc[where N = n]) auto
    then show ?thesis
      using CArray Suc.prems(1) n si
      by (simp add: amf0_types CArray_Decode_def amf_need_def codec_simps rd_bind_ok)
  next
    case (CStringMap d ks)
    have "\<exists>v. map_find k d = Some v \<and> k \<noteq> [] \<and> length k < 2 ^ 16 \<and> reads_back ?rd n v" if "k \<in> set ks" for k
    proof -
      have "map_find k d \<noteq> None" using Suc.prems(1) CStringMap that by (simp add: map_find_None)
      then obtain v where v: "map_find k d = Some v" by auto
      note mem = map_find_in[OF v]
      have "reads_back ?rd n v" using Suc.prems CStringMap mem by (intro Suc.IH) auto
      then show ?thesis using v mem Suc.prems(2) CStringMap by auto
    qed
    then have "string_map_loop ?rd n ([], []) (concat (map (enc_entry d) ks) @ PutString [] @ AMF0_TYPE_END_OF_OBJECT # s)
        = Some (Inr (d, ks), AMF0_TYPE_END_OF_OBJECT # s)"
      using rebuild_string_map[of d ks] string_map_loop_enc[of ks d ?rd n "AMF0_TYPE_END_OF_OBJECT # s" n "([], [])"]
        Suc.prems CStringMap len by fastforce
    then show ?thesis
      using CStringMap Suc.prems(1)
      by (simp add: amf0_types CStringMap_Decode_def amf_need_def codec_simps rd_bind_ok
          ReadGenericObjectEnd_ok[unfolded amf0_types] del: obj_ok.simps)
  next
    case (CMixedMap u d)
    have "k \<noteq> [] \<and> length k < 2 ^ 16 \<and> reads_back ?rd n v" if "(k, v) \<in> set d" for k v
      using that Suc CMixedMap by fastforce
    then have "mixed_map_loop ?rd n [] (concat (map (\<lambda>(k, v). PutString k @ enc v) d) @ PutString [] @ AMF0_TYPE_END_OF_OBJECT # s)
        = Some (Inr d, AMF0_TYPE_END_OF_OBJECT # s)"
      using rebuild_mixed_map[of d] mixed_map_loop_enc[of d ?rd n "AMF0_TYPE_END_OF_OBJECT # s" n "[]"]
        Suc.prems CMixedMap len by simp
    then show ?thesis
      using CMixedMap Suc.prems(1)
      by (simp add: amf0_types CMixedMap_Decode_def amf_need_def codec_simps rd_bind_ok
          ReadGenericObjectEnd_ok[unfolded amf0_types] del: obj_ok.simps)
  qed
  then show ?case by (simp add: reads_back_def)
qed

text \<open>The two facts about the top-level call.\<close>

lemma ReadNextObject_post: "rd_post ReadNextObject s 1 obj_ok"
  using rd_post_cong[of ReadNextObject s "ReadNextObject_fuel (Suc (length s))" 1 obj_ok]
    ReadNextObject_fuel_post[of s "Suc (length s)"] by (simp add: ReadNextObject_def)

lemma ReadNextObject_enc:
  "obj_ok x \<Longrightarrow> obj_fits x \<Longrightarrow> ReadNextObject (enc x @ s) = Some (Inr x, s)"
  using roundtrip[of x "Suc (length (enc x @ s))"] by (simp add: reads_back_def ReadNextObject_def)

section \<open>Properties\<close>

text \<open>
  C26. Decoding untrusted bytes with \<^verbatim>\<open>Amf0Util::ReadNextObject\<close> always returns: no
  \<^verbatim>\<open>CHECK\<close> fails and the recursion ends, whatever the input.  It never makes the input
  longer, a success consumes at least the type byte, and the object it built is well formed
  (sorted maps, the key list of a \<^verbatim>\<open>CStringMap\<close> in step with its data).
\<close>

theorem ReadNextObject_total:
  "case ReadNextObject s of
     None \<Rightarrow> False
   | Some (Inl e, s') \<Rightarrow> length s' \<le> length s
   | Some (Inr x, s') \<Rightarrow> obj_ok x \<and> length s' < length s"
  using ReadNextObject_post[of s] by (cases rule: rd_postE) auto

text \<open>
  C15. Every well-formed object within the limits of the format (strings of at most 10 MB,
  arrays of at most 10000 elements, non-empty map keys shorter than 64 KB, dates that a
  \<^verbatim>\<open>double\<close> represents) is encoded without a failed \<^verbatim>\<open>CHECK\<close>, and
  \<^verbatim>\<open>ReadNextObject\<close> reads back the same object and leaves what follows it.
\<close>

theorem ReadNextObject_Encode:
  assumes "obj_ok x" "obj_fits x"
  shows "\<exists>bs. CObject_Encode x = Some bs \<and> ReadNextObject (bs @ s) = Some (Inr x, s)"
  using CObject_Encode_total[OF assms(1)] ReadNextObject_enc[OF assms] by blast

definition sample_object :: cobject where
  "sample_object = CStringMap
     [(bytes_of ''app'', CString (bytes_of ''live'')), (bytes_of ''fpad'', CBoolean False),
      (bytes_of ''z'', CArray [CNumber 0x3FF0000000000000, CMixedMap 2 [(bytes_of ''0'', CNull)], CDate 5 0])]
     [bytes_of ''fpad'', bytes_of ''z'', bytes_of ''app'']"

lemma sample_object_ok: "obj_ok sample_object" "obj_fits sample_object"
  by (simp_all add: sample_object_def bytes_of_def kMaximumStringReadableData_def kMaximumArraySize_def,
      auto)

lemma ReadNextObject_Encode_witness:
  "\<exists>bs. CObject_Encode sample_object = Some bs
     \<and> ReadNextObject (bs @ [0x05]) = Some (Inr sample_object, [0x05])"
  by (rule ReadNextObject_Encode) (rule sample_object_ok)+

text \<open>
  \<^verbatim>\<open>EncodingSize\<close> of a well-formed object is the number of bytes that \<^verbatim>\<open>Encode\<close>
  writes, modulo the 32 bits it is counted in.
\<close>

theorem EncodingSize_Encode:
  assumes "obj_ok x"
  shows "\<exists>bs. CObject_Encode x = Some bs \<and> CObject_EncodingSize x = word_of_nat (length bs)"
  using CObject_Encode_total[OF assms] CObject_EncodingSize_eq[OF assms] by blast

lemma EncodingSize_Encode_witness:
  "\<exists>bs. CObject_Encode sample_object = Some bs
     \<and> CObject_EncodingSize sample_object = word_of_nat (length bs)"
  by (rule EncodingSize_Encode) (rule sample_object_ok)

text \<open>
  \<^verbatim>\<open>CStringMap\<close> behaves as a map through \<^verbatim>\<open>Set\<close>, \<^verbatim>\<open>Erase\<close> and
  \<^verbatim>\<open>Find\<close>: after a \<^verbatim>\<open>Set\<close> and an \<^verbatim>\<open>Erase\<close> of the same key every other key
  finds what it found, the \<^verbatim>\<open>LOG_FATAL\<close> ``out of sync'' is not reached, and the list of
  keys stays in step with the data.
\<close>

theorem CStringMap_laws:
  assumes "string_map_ok m"
  shows "CStringMap_Find k (CStringMap_Set k v m) = Some v
    \<and> string_map_ok (CStringMap_Set k v m)
    \<and> (\<exists>m'. CStringMap_Erase k (CStringMap_Set k v m) = Some m' \<and> string_map_ok m'
          \<and> (\<forall>k'. CStringMap_Find k' m' = (if k' = k then None else CStringMap_Find k' m)))"
  using strmap.update_valid[OF assms] strmap.lookup_update[OF assms] strmap.delete_update[OF assms]
  by simp

lemma CStringMap_laws_witness:
  "CStringMap_Find [2] (CStringMap_Set [2] CNull ([([1], CNull)], [[1]])) = Some CNull
    \<and> string_map_ok (CStringMap_Set [2] CNull ([([1], CNull)], [[1]]))
    \<and> (\<exists>m'. CStringMap_Erase [2] (CStringMap_Set [2] CNull ([([1], CNull)], [[1]])) = Some m'
          \<and> string_map_ok m'
          \<and> (\<forall>k'. CStringMap_Find k' m' = (if k' = [2] then None
                else CStringMap_Find k' ([([1], CNull)], [[1]]))))"
  by (rule CStringMap_laws) (simp add: string_map_ok_def)

end
