(* ===== verification/FlvTag.thy ===== *)
theory FlvTag
  imports Amf0Laws
begin

text \<open>
  \<^verbatim>\<open>whisperstreamlib/flv\<close>: the tags of an FLV file or stream, the flags in the first bytes
  of their bodies, and how a tag learns its attributes (\<^verbatim>\<open>flv_consts.h\<close>,
  \<^verbatim>\<open>flv_tag.{h,cc}\<close>, parts of \<^verbatim>\<open>flv_coder.cc\<close>).  A flag is the byte that the code casts
  to the enumeration; streams are their content.
\<close>

section \<open>Constants\<close>

text \<open>\<^verbatim>\<open>TagReadStatus\<close>; the names of AMF0's statuses are taken.\<close>

datatype tag_read_status = TAG_NO_DATA | TAG_OK | TAG_SKIP | TAG_CORRUPTED | TAG_EOF

definition FLV_FRAMETYPE_VIDEO :: byte where "FLV_FRAMETYPE_VIDEO = 0x09"
definition FLV_FRAMETYPE_AUDIO :: byte where "FLV_FRAMETYPE_AUDIO = 0x08"
definition FLV_FRAMETYPE_METADATA :: byte where "FLV_FRAMETYPE_METADATA = 0x12"

lemmas flv_frametypes = FLV_FRAMETYPE_VIDEO_def FLV_FRAMETYPE_AUDIO_def FLV_FRAMETYPE_METADATA_def

definition kFlvMaskSoundType :: byte where "kFlvMaskSoundType = 0x01"
definition kFlvMaskSoundSize :: byte where "kFlvMaskSoundSize = 0x02"
definition kFlvMaskSoundRate :: byte where "kFlvMaskSoundRate = 0x0C"
definition kFlvMaskSoundFormat :: byte where "kFlvMaskSoundFormat = 0xF0"
definition FLV_FLAG_SOUND_FORMAT_AAC :: byte where "FLV_FLAG_SOUND_FORMAT_AAC = 0x0A"
definition kFlvMaskVideoCodec :: byte where "kFlvMaskVideoCodec = 0x0F"
definition kFlvMaskVideoFrameType :: byte where "kFlvMaskVideoFrameType = 0xF0"

definition FLV_FLAG_VIDEO_CODEC_JPEG :: byte where "FLV_FLAG_VIDEO_CODEC_JPEG = 0x01"
definition FLV_FLAG_VIDEO_CODEC_SCREEN :: byte where "FLV_FLAG_VIDEO_CODEC_SCREEN = 0x03"
definition FLV_FLAG_VIDEO_CODEC_SCREEN_VIDEO_V2 :: byte where "FLV_FLAG_VIDEO_CODEC_SCREEN_VIDEO_V2 = 0x06"
definition FLV_FLAG_VIDEO_CODEC_H263 :: byte where "FLV_FLAG_VIDEO_CODEC_H263 = 0x02"
definition FLV_FLAG_VIDEO_CODEC_VP6 :: byte where "FLV_FLAG_VIDEO_CODEC_VP6 = 0x04"
definition FLV_FLAG_VIDEO_CODEC_VP6_WITH_ALPHA :: byte where "FLV_FLAG_VIDEO_CODEC_VP6_WITH_ALPHA = 0x05"
definition FLV_FLAG_VIDEO_CODEC_AVC :: byte where "FLV_FLAG_VIDEO_CODEC_AVC = 0x07"
definition FLV_FLAG_VIDEO_FRAMETYPE_KEYFRAME :: byte where "FLV_FLAG_VIDEO_FRAMETYPE_KEYFRAME = 0x01"

definition AVC_SEQUENCE_HEADER :: byte where "AVC_SEQUENCE_HEADER = 0x00"
definition AVC_NALU :: byte where "AVC_NALU = 0x01"
definition AVC_END_OF_SEQUENCE :: byte where "AVC_END_OF_SEQUENCE = 0x02"

definition kFlvHeaderSize :: nat where "kFlvHeaderSize = 9"
definition kFlvTagHeaderSize :: nat where "kFlvTagHeaderSize = 15"

definition ATTR_METADATA :: "32 word" where "ATTR_METADATA = 0x0001"
definition ATTR_AUDIO :: "32 word" where "ATTR_AUDIO = 0x0002"
definition ATTR_VIDEO :: "32 word" where "ATTR_VIDEO = 0x0004"
definition ATTR_DROPPABLE :: "32 word" where "ATTR_DROPPABLE = 0x0008"
definition ATTR_CAN_RESYNC :: "32 word" where "ATTR_CAN_RESYNC = 0x0010"

section \<open>Tags\<close>

record flv_audio =
  au_data :: bytes
  au_type :: byte
  au_format :: byte
  au_rate :: byte
  au_size :: byte
  is_aac_header :: bool

record flv_video =
  vi_data :: bytes
  vi_codec :: byte
  vi_frame_type :: byte
  avc_packet_type :: byte
  avc_composition_offset_ms :: "32 word"

text \<open>The tag made from the moov box inside a video body: its attributes, time and body.\<close>

record flv_moov =
  moov_attributes :: "32 word"
  moov_timestamp_ms :: int
  moov_video :: flv_video

text \<open>
  The body of a tag.  The third argument of a video body is \<^verbatim>\<open>avc_moov_\<close>.
  \<open>BadMetadata\<close> is a metadata body whose decoding failed half-way, with the name it has
  then; the values decoded before the failure are not modelled.
\<close>

datatype flv_body =
    FlvAudio flv_audio
  | FlvVideo flv_video "flv_moov option"
  | FlvMetadata bytes "32 word" "(bytes \<times> cobject) list"
  | BadMetadata bytes

record flv_tag =
  attributes :: "32 word"
  tag_timestamp_ms :: int
  tag_stream_id :: "32 word"
  tag_body :: flv_body

definition Audio_new :: flv_audio where
  "Audio_new = \<lparr>au_data = [], au_type = 0, au_format = 0, au_rate = 0, au_size = 0, is_aac_header = False\<rparr>"

definition Video_new :: flv_video where
  "Video_new = \<lparr>vi_data = [], vi_codec = FLV_FLAG_VIDEO_CODEC_H263,
     vi_frame_type = FLV_FLAG_VIDEO_FRAMETYPE_KEYFRAME, avc_packet_type = AVC_SEQUENCE_HEADER,
     avc_composition_offset_ms = 0\<rparr>"

text \<open>The body of \<^verbatim>\<open>FlvTag(attributes, flavour, timestamp, frame_type)\<close>; \<open>None\<close> is its \<^verbatim>\<open>CHECK\<close>.\<close>

definition FlvBody_new :: "byte \<Rightarrow> flv_body option" where
  "FlvBody_new frame_type =
     (if frame_type = FLV_FRAMETYPE_AUDIO then Some (FlvAudio Audio_new)
      else if frame_type = FLV_FRAMETYPE_VIDEO then Some (FlvVideo Video_new None)
      else if frame_type = FLV_FRAMETYPE_METADATA then Some (FlvMetadata [] 0 [])
      else None)"

fun flv_body_type :: "flv_body \<Rightarrow> byte" where
  "flv_body_type (FlvAudio _) = FLV_FRAMETYPE_AUDIO"
| "flv_body_type (FlvVideo _ _) = FLV_FRAMETYPE_VIDEO"
| "flv_body_type (FlvMetadata _ _ _) = FLV_FRAMETYPE_METADATA"
| "flv_body_type (BadMetadata _) = FLV_FRAMETYPE_METADATA"

section \<open>Flags\<close>

definition DecodeAudioFlags :: "flv_audio \<Rightarrow> tag_read_status \<times> flv_audio" where
  "DecodeAudioFlags a =
     (case au_data a of
        [] \<Rightarrow> (TAG_NO_DATA, a)
      | fb # _ \<Rightarrow>
          let a1 = a\<lparr>au_type := drop_bit 0 (fb AND kFlvMaskSoundType),
                     au_size := drop_bit 1 (fb AND kFlvMaskSoundSize),
                     au_rate := drop_bit 2 (fb AND kFlvMaskSoundRate),
                     au_format := drop_bit 4 (fb AND kFlvMaskSoundFormat)\<rparr>
          in if au_format a1 = FLV_FLAG_SOUND_FORMAT_AAC then
               if length (take 4 (au_data a)) \<noteq> 4 then (TAG_NO_DATA, a1)
               else (TAG_OK, a1\<lparr>is_aac_header := (au_data a ! 1 = 0x00)\<rparr>)
             else (TAG_OK, a1))"

definition DecodeVideoFlags :: "flv_video \<Rightarrow> (tag_read_status \<times> flv_video) option" where
  "DecodeVideoFlags v =
     (if length (vi_data v) < 1 then Some (TAG_NO_DATA, v)
      else do {
        (fb, s1) \<leftarrow> ReadByte (vi_data v);
        let v1 = v\<lparr>vi_codec := drop_bit 0 (fb AND kFlvMaskVideoCodec),
                   vi_frame_type := drop_bit 4 (fb AND kFlvMaskVideoFrameType)\<rparr>;
        (if vi_codec v1 = FLV_FLAG_VIDEO_CODEC_AVC then
           if length s1 < 4 then Some (TAG_NO_DATA, v1)
           else do {
             (pt, s2) \<leftarrow> ReadByte s1;
             (off, s3) \<leftarrow> ReadUInt24BE s2;
             Some (TAG_OK, v1\<lparr>avc_packet_type := pt, avc_composition_offset_ms := off\<rparr>) }
         else Some (TAG_OK, v1)) })"

section \<open>Bodies\<close>

text \<open>
  \<^verbatim>\<open>Decode(in, size)\<close>: the status, the body and the rest of the input.
\<close>

definition Audio_Decode :: "flv_audio \<Rightarrow> bytes \<Rightarrow> nat \<Rightarrow> (tag_read_status \<times> flv_audio) \<times> bytes" where
  "Audio_Decode a s n =
     (if length s < n then ((TAG_NO_DATA, a), s)
      else (DecodeAudioFlags (a\<lparr>au_data := take n s\<rparr>), drop n s))"

definition Video_Decode :: "flv_video \<Rightarrow> bytes \<Rightarrow> nat \<Rightarrow> ((tag_read_status \<times> flv_video) \<times> bytes) option" where
  "Video_Decode v s n =
     (if length s < n then Some ((TAG_NO_DATA, v), s)
      else do {
        r \<leftarrow> DecodeVideoFlags (v\<lparr>vi_data := take n s\<rparr>);
        Some (r, drop n s) })"

text \<open>
  The name and the map; the marker is restored if either fails.  The \<open>size\<close> argument of the
  code is only compared for a log message.
\<close>

definition CMixedMap_Decode_top :: "cobject amf_reader" where
  "CMixedMap_Decode_top s = CMixedMap_Decode (ReadNextObject_fuel (length s)) (length s) s"

definition Metadata_Decode :: "bytes \<Rightarrow> ((tag_read_status \<times> flv_body) \<times> bytes) option" where
  "Metadata_Decode s = (case Amf0_ReadString s of
       None \<Rightarrow> None
     | Some (Inl e, _) \<Rightarrow> Some ((TAG_CORRUPTED, BadMetadata []), s)
     | Some (Inr name, s1) \<Rightarrow>
         (case CMixedMap_Decode_top s1 of
            Some (Inr (CMixedMap u d), s2) \<Rightarrow> Some ((TAG_OK, FlvMetadata name u d), s2)
          | Some (Inl e, _) \<Rightarrow> Some ((TAG_CORRUPTED, BadMetadata name), s)
          | _ \<Rightarrow> None))"

definition flv_body_Decode :: "flv_body \<Rightarrow> bytes \<Rightarrow> nat \<Rightarrow> ((tag_read_status \<times> flv_body) \<times> bytes) option" where
  "flv_body_Decode b s n = (case b of
     FlvAudio a \<Rightarrow> (case Audio_Decode a s n of ((st, a'), s') \<Rightarrow> Some ((st, FlvAudio a'), s'))
   | FlvVideo v m \<Rightarrow> map_option (\<lambda>((st, v'), s'). ((st, FlvVideo v' m), s')) (Video_Decode v s n)
   | _ \<Rightarrow> Metadata_Decode s)"

text \<open>
  \<^verbatim>\<open>Encode\<close> and \<^verbatim>\<open>Size\<close>.  What a metadata body that failed to decode would write is not
  modelled: \<open>None\<close>, as an abort.
\<close>

definition flv_body_Encode :: "flv_body \<Rightarrow> bytes option" where
  "flv_body_Encode b = (case b of
     FlvAudio a \<Rightarrow> Some (au_data a)
   | FlvVideo v _ \<Rightarrow> Some (vi_data v)
   | FlvMetadata name u d \<Rightarrow> map_option (\<lambda>e. CString_Encode name @ e) (CObject_Encode (CMixedMap u d))
   | BadMetadata _ \<Rightarrow> None)"

definition flv_body_Size :: "flv_body \<Rightarrow> 32 word" where
  "flv_body_Size b = (case b of
     FlvAudio a \<Rightarrow> word_of_nat (length (au_data a))
   | FlvVideo v _ \<Rightarrow> word_of_nat (length (vi_data v))
   | FlvMetadata name u d \<Rightarrow> CString_EncodingSize name + CObject_EncodingSize (CMixedMap u d)
   | BadMetadata _ \<Rightarrow> 0)"

section \<open>Attributes\<close>

definition kAfme3_0_MoovBeginning :: bytes where
  "kAfme3_0_MoovBeginning = [0x17, 0x01, 0x00, 0x00, 0x00]"
definition kAfme3_0_MoovSignalBegin :: nat where "kAfme3_0_MoovSignalBegin = 9"
definition kAfme3_0_MoovSignal :: bytes where "kAfme3_0_MoovSignal = [0x65, 0x88, 0x80, 0x40]"
definition kMoovBeginning :: bytes where
  "kMoovBeginning = [0x17, 0x01, 0x00, 0x00, 0x00, 0x00, 0x00, 0x00, 0x02, 0x09, 0x10]"
definition kMoovMarkBegin :: nat where "kMoovMarkBegin = 35"
definition kMoovMark :: bytes where "kMoovMark = [0x78, 0x32, 0x36, 0x34]"

text \<open>\<^verbatim>\<open>memcmp(buf + off, pat, sizeof(pat)) == 0\<close>.\<close>

definition matches_at :: "bytes \<Rightarrow> nat \<Rightarrow> bytes \<Rightarrow> bool" where
  "matches_at buf off pat \<longleftrightarrow> take (length pat) (drop off buf) = pat"

definition moov_size :: "bytes \<Rightarrow> int option" where
  "moov_size buf =
     (if matches_at buf 0 kAfme3_0_MoovBeginning \<and> matches_at buf kAfme3_0_MoovSignalBegin kAfme3_0_MoovSignal
      then Some (sint (word_of_nat (5 + 4 + be_value (take 4 (drop 5 buf))) :: 32 word))
      else if matches_at buf 0 kMoovBeginning \<and> matches_at buf kMoovMarkBegin kMoovMark
      then Some (sint (word_of_nat (11 + 4 + be_value (take 4 (drop 11 buf))) :: 32 word))
      else None)"

text \<open>The outer option is an abort, the inner one NULL.\<close>

definition DecodeAuxiliaryMoovTag :: "32 word \<Rightarrow> int \<Rightarrow> flv_video \<Rightarrow> flv_moov option option" where
  "DecodeAuxiliaryMoovTag attrs t v =
     (if vi_frame_type v \<noteq> FLV_FLAG_VIDEO_FRAMETYPE_KEYFRAME \<or> vi_codec v \<noteq> FLV_FLAG_VIDEO_CODEC_AVC
         \<or> avc_packet_type v \<noteq> AVC_NALU
      then Some None
      else if length (vi_data v) < kMoovMarkBegin + length kMoovMark then Some None
      else case moov_size (take (kMoovMarkBegin + length kMoovMark) (vi_data v)) of
             None \<Rightarrow> Some None
           | Some n \<Rightarrow>
               if n > int (length (vi_data v)) \<or> n \<le> 0 then Some None
               else case Video_Decode Video_new (vi_data v) (nat n) of
                      None \<Rightarrow> None
                    | Some ((st, v'), _) \<Rightarrow>
                        if st \<noteq> TAG_OK then Some None
                        else Some (Some \<lparr>moov_attributes = attrs, moov_timestamp_ms = t, moov_video = v'\<rparr>))"

definition LearnAttributes :: "flv_tag \<Rightarrow> flv_tag option" where
  "LearnAttributes tag = (case tag_body tag of
     FlvVideo v m \<Rightarrow>
       let a1 = attributes tag OR ATTR_VIDEO;
           a2 = (if vi_frame_type v = FLV_FLAG_VIDEO_FRAMETYPE_KEYFRAME then a1 OR ATTR_CAN_RESYNC else a1)
       in if vi_codec v = FLV_FLAG_VIDEO_CODEC_AVC then
            case DecodeAuxiliaryMoovTag a2 (tag_timestamp_ms tag) v of
              None \<Rightarrow> None
            | Some m' \<Rightarrow>
                Some (tag\<lparr>tag_body := FlvVideo v m',
                          attributes := (if avc_packet_type v \<noteq> AVC_SEQUENCE_HEADER
                                         then a2 OR ATTR_DROPPABLE else a2)\<rparr>)
          else Some (tag\<lparr>attributes := a2 OR ATTR_DROPPABLE\<rparr>)
   | FlvAudio a \<Rightarrow>
       let a1 = attributes tag OR ATTR_AUDIO OR ATTR_CAN_RESYNC
       in Some (tag\<lparr>attributes := (if au_format a \<noteq> FLV_FLAG_SOUND_FORMAT_AAC \<or> \<not> is_aac_header a
                                   then a1 OR ATTR_DROPPABLE else a1)\<rparr>)
   | _ \<Rightarrow> Some (tag\<lparr>attributes := attributes tag OR ATTR_METADATA\<rparr>))"

end
