(* ===== verification/F4vToFlv.thy ===== *)
theory F4vToFlv
  imports F4vDecoder FlvTag
begin

text \<open>
  \<^verbatim>\<open>F4vToFlvConverter\<close> (\<^verbatim>\<open>f4v_to_flv.cc\<close>): the FLV tags made of F4V tags.  A body is written and then
  decoded by the code of FLV tags, whose failure is a failed \<^verbatim>\<open>CHECK\<close>.
\<close>

section \<open>Tags of frames and of configurations\<close>

text \<open>\<^verbatim>\<open>MediaInfo::Audio::Format\<close> and \<^verbatim>\<open>MediaInfo::Video::Format\<close>, and the members of the converter.\<close>

datatype info_audio_format = FORMAT_AAC | FORMAT_MP3
datatype info_video_format = FORMAT_H263 | FORMAT_H264 | FORMAT_ON_VP6

record flv_converter =
  cv_audio_format :: info_audio_format
  cv_video_format :: info_video_format

definition F4vToFlvConverter_new :: flv_converter where
  "F4vToFlvConverter_new = \<lparr>cv_audio_format = FORMAT_AAC, cv_video_format = FORMAT_H264\<rparr>"

text \<open>A new tag whose body is decoded from bytes.\<close>

definition decoded_tag :: "32 word \<Rightarrow> int \<Rightarrow> byte \<Rightarrow> bytes \<Rightarrow> flv_tag option" where
  "decoded_tag attrs timestamp frame_type buf = do {
     b \<leftarrow> FlvBody_new frame_type;
     ((st, b'), s) \<leftarrow> flv_body_Decode b buf (length buf);
     (if st = TAG_OK then Some \<lparr>attributes = attrs, tag_timestamp_ms = timestamp, tag_stream_id = 0, tag_body = b'\<rparr>
      else None) }"

definition CreateAudioTag :: "flv_converter \<Rightarrow> int \<Rightarrow> bool \<Rightarrow> bytes \<Rightarrow> flv_tag option" where
  "CreateAudioTag c timestamp aac_header data =
     (let first = 0x0f OR (case cv_audio_format c of FORMAT_AAC \<Rightarrow> 0xa0 | FORMAT_MP3 \<Rightarrow> 0x20);
          second = (if aac_header then 1 else 0)
      in decoded_tag ATTR_AUDIO timestamp FLV_FRAMETYPE_AUDIO (first # second # data))"

definition CreateVideoTag :: "flv_converter \<Rightarrow> int \<Rightarrow> int \<Rightarrow> bool \<Rightarrow> bool \<Rightarrow> bytes \<Rightarrow> flv_tag option" where
  "CreateVideoTag c timestamp composition avc_header keyframe data =
     (let first = (if avc_header \<or> keyframe then 0x10 else 0x20) OR (case cv_video_format c of
            FORMAT_H263 \<Rightarrow> 0x02 | FORMAT_H264 \<Rightarrow> 0x07 | FORMAT_ON_VP6 \<Rightarrow> 0x04)
      in decoded_tag ATTR_VIDEO timestamp FLV_FRAMETYPE_VIDEO
           ([first, if avc_header then 0 else 1] @ WriteUInt24BE (word_of_int composition) @ data))"

definition GetEsds :: "flv_converter \<Rightarrow> int \<Rightarrow> esds_atom \<Rightarrow> flv_tag option" where
  "GetEsds c timestamp esds = CreateAudioTag c timestamp True (extra_data esds)"

text \<open>The whole atom is written and its first 8 bytes are dropped.\<close>

definition GetAvcc :: "flv_converter \<Rightarrow> int \<Rightarrow> f4v_atom \<Rightarrow> flv_tag option" where
  "GetAvcc c timestamp avcc = do {
     ms \<leftarrow> atom_Encode avcc;
     CreateVideoTag c timestamp 0 True True (drop 8 ms) }"

section \<open>Conversion\<close>

text \<open>
  \<^verbatim>\<open>ConvertMoov\<close> calls \<^verbatim>\<open>ExtractMediaInfoFromMoov\<close> with an empty vector of frames, which reads
  its first element: \<open>None\<close>, as an abort.  Other atoms give no tags.
\<close>

definition ConvertAtom :: "f4v_atom \<Rightarrow> flv_tag list option" where
  "ConvertAtom a = (if at_type a = ATOM_MOOV then None else Some [])"

definition ConvertTag :: "flv_converter \<Rightarrow> f4v_tag \<Rightarrow> flv_tag list option" where
  "ConvertTag c t = (case t of
     AtomTag a \<Rightarrow> ConvertAtom a
   | FrameTag f data \<Rightarrow> (case fh_type f of
       AUDIO_FRAME \<Rightarrow> map_option (\<lambda>x. [x]) (CreateAudioTag c (decoding_timestamp f) False data)
     | VIDEO_FRAME \<Rightarrow> map_option (\<lambda>x. [x]) (CreateVideoTag c (decoding_timestamp f) (composition_offset_ms f) False
         (fh_is_keyframe f) data)
     | RAW_FRAME \<Rightarrow> Some []))"

section \<open>What the tags say\<close>

lemma CreateVideoTag_H264:
  assumes "cv_video_format c = FORMAT_H264" "0 \<le> composition" "composition < 2 ^ 24"
  shows "CreateVideoTag c ts composition avc_header keyframe data = Some \<lparr>attributes = ATTR_VIDEO,
      tag_timestamp_ms = ts, tag_stream_id = 0,
      tag_body = FlvVideo \<lparr>vi_data = [if avc_header \<or> keyframe then 0x17 else 0x27, if avc_header then 0 else 1]
          @ WriteUInt24BE (word_of_int composition) @ data,
        vi_codec = FLV_FLAG_VIDEO_CODEC_AVC, vi_frame_type = (if avc_header \<or> keyframe then 1 else 2),
        avc_packet_type = (if avc_header then AVC_SEQUENCE_HEADER else AVC_NALU),
        avc_composition_offset_ms = word_of_int composition\<rparr> None\<rparr>"
proof -
  have small: "unat (word_of_int composition :: 32 word) < 2 ^ 24"
  proof -
    have "uint (word_of_int composition :: 32 word) = composition"
      using assms(2,3) by (simp add: uint_word_of_int_eq take_bit_int_eq_self)
    then show ?thesis using assms(2,3) by (simp add: nat_less_iff flip: nat_uint_eq)
  qed
  show ?thesis using assms(1)
    by (cases "avc_header \<or> keyframe"; cases avc_header)
      (simp_all add: CreateVideoTag_def decoded_tag_def FlvBody_new_def FLV_FRAMETYPE_VIDEO_def FLV_FRAMETYPE_AUDIO_def
        flv_body_Decode_def Video_Decode_def DecodeVideoFlags_def Let_def codec_simps Video_new_def
        kFlvMaskVideoFrameType_def kFlvMaskVideoCodec_def FLV_FLAG_VIDEO_CODEC_AVC_def
        ReadUInt24BE_WriteUInt24BE[OF small] AVC_SEQUENCE_HEADER_def AVC_NALU_def)
qed

lemma CreateAudioTag_AAC:
  assumes "cv_audio_format c = FORMAT_AAC"
  shows "2 \<le> length data \<Longrightarrow> \<exists>a. CreateAudioTag c ts aac_header data = Some \<lparr>attributes = ATTR_AUDIO, tag_timestamp_ms = ts,
      tag_stream_id = 0, tag_body = FlvAudio a\<rparr> \<and> au_data a = [0xaf, if aac_header then 1 else 0] @ data
      \<and> au_format a = FLV_FLAG_SOUND_FORMAT_AAC \<and> is_aac_header a = (\<not> aac_header)"
    "length data < 2 \<Longrightarrow> CreateAudioTag c ts aac_header data = None"
  using assms
  by (auto simp: CreateAudioTag_def decoded_tag_def FlvBody_new_def flv_body_Decode_def Audio_Decode_def
      DecodeAudioFlags_def Let_def kFlvMaskSoundFormat_def FLV_FLAG_SOUND_FORMAT_AAC_def Audio_new_def)

text \<open>
  C23.  A frame of a converter as it is made, for AAC and H264, becomes one FLV tag with the time of
  the frame.  A video frame keeps its data behind the five bytes that say NAL units, key frame
  and composition time.  An audio frame is marked as an AAC header, since the converter writes
  the packet type the other way round than the coder of FLV tags reads it; one shorter than two
  bytes fails a \<^verbatim>\<open>CHECK\<close>.
\<close>

theorem ConvertTag_frame:
  assumes "fh_type f \<noteq> RAW_FRAME" "0 \<le> composition_offset_ms f" "composition_offset_ms f < 2 ^ 24"
  shows "case ConvertTag F4vToFlvConverter_new (FrameTag f data) of
      None \<Rightarrow> fh_type f = AUDIO_FRAME \<and> length data < 2
    | Some tags \<Rightarrow> (\<exists>t. tags = [t] \<and> tag_timestamp_ms t = decoding_timestamp f \<and> (case tag_body t of
          FlvVideo v m \<Rightarrow> fh_type f = VIDEO_FRAME \<and> drop 5 (vi_data v) = data \<and> vi_codec v = FLV_FLAG_VIDEO_CODEC_AVC
            \<and> (vi_frame_type v = FLV_FLAG_VIDEO_FRAMETYPE_KEYFRAME \<longleftrightarrow> fh_is_keyframe f)
            \<and> avc_packet_type v = AVC_NALU \<and> uint (avc_composition_offset_ms v) = composition_offset_ms f
        | FlvAudio a \<Rightarrow> fh_type f = AUDIO_FRAME \<and> drop 2 (au_data a) = data
            \<and> au_format a = FLV_FLAG_SOUND_FORMAT_AAC \<and> is_aac_header a
        | _ \<Rightarrow> False))"
proof (cases "fh_type f")
  case AUDIO_FRAME
  then show ?thesis
    using CreateAudioTag_AAC[of F4vToFlvConverter_new data "decoding_timestamp f" False]
    by (cases "length data < 2") (auto simp: ConvertTag_def F4vToFlvConverter_new_def)
next
  case VIDEO_FRAME
  have "uint (word_of_int (composition_offset_ms f) :: 32 word) = composition_offset_ms f"
    using assms(2,3) by (simp add: uint_word_of_int_eq take_bit_int_eq_self)
  then show ?thesis using VIDEO_FRAME
      CreateVideoTag_H264[of F4vToFlvConverter_new, OF _ assms(2,3), of "decoding_timestamp f" False "fh_is_keyframe f" data]
    by (simp add: ConvertTag_def F4vToFlvConverter_new_def FLV_FLAG_VIDEO_FRAMETYPE_KEYFRAME_def)
qed (use assms(1) in simp)

lemma ConvertTag_frame_witness:
  "case ConvertTag F4vToFlvConverter_new (FrameTag \<lparr>fh_offset = 0, fh_size = 3, decoding_timestamp = 40,
      composition_offset_ms = 80, fh_duration = 40, fh_sample_index = 0, fh_type = AUDIO_FRAME, fh_is_keyframe = False\<rparr>
      [1, 2, 3]) of
      None \<Rightarrow> False
    | Some tags \<Rightarrow> (\<exists>t. tags = [t] \<and> tag_timestamp_ms t = 40 \<and> (case tag_body t of
          FlvAudio a \<Rightarrow> drop 2 (au_data a) = [1, 2, 3] \<and> is_aac_header a | _ \<Rightarrow> False))"
  using ConvertTag_frame[of "\<lparr>fh_offset = 0, fh_size = 3, decoding_timestamp = 40,
      composition_offset_ms = 80, fh_duration = 40, fh_sample_index = 0, fh_type = AUDIO_FRAME, fh_is_keyframe = False\<rparr>"
      "[1, 2, 3]"]
  by (auto split: option.splits flv_body.splits)

end
