(* ===== verification/DataBlock.thy ===== *)
theory DataBlock
  imports Prelude
begin

text \<open>
  \<^verbatim>\<open>whisperlib/common/io/buffer/data_block.h\<close> and
  \<^verbatim>\<open>data_block.cc\<close>: the blocks a memory stream is made of, the queue of
  blocks with its stable block numbers, and the pointers that walk over it.

  A \<^verbatim>\<open>DataBlock\<close> is its allocated memory, the number of bytes in use and
  whether it may be written.  \<^verbatim>\<open>BlockDqueue\<close> keeps the released blocks in front
  of \<^verbatim>\<open>begin_id_\<close> until \<^verbatim>\<open>correct_buffer\<close> moves the live ones
  down; a block number is an index into the vector plus \<^verbatim>\<open>correction_\<close>.  The source
  looks a block up without a check, so a number outside the live range is undefined
  behaviour: here the lookup is \<open>None\<close>.

  Reference counts and the disposer closures are memory management and are not part of
  the model: a block shared by two streams is copied, which is sound because a shared
  block is full and no operation writes a full block
  (\<open>bd_grows\<close> in the theory on pointers).
\<close>

section \<open>Data blocks\<close>

record data_block =
  db_writable :: bool
  db_buffer :: bytes
  db_size :: int

definition db_buffer_size :: "data_block \<Rightarrow> int" where
  "db_buffer_size b = int (length (db_buffer b))"

definition kDefaultBufferSize :: int where
  "kDefaultBufferSize = 4096"

text \<open>The constructor that allocates; fresh memory has no meaning, zeros stand for it.\<close>

definition db_new :: "int \<Rightarrow> data_block option" where
  "db_new sz = (if sz > 0
     then Some \<lparr>db_writable = True, db_buffer = replicate (nat sz) 0, db_size = 0\<rparr>
     else None)"

text \<open>The constructor that wraps foreign memory: read-only and full.\<close>

definition db_wrap :: "bytes \<Rightarrow> data_block option" where
  "db_wrap buf = (if length buf > 0
     then Some \<lparr>db_writable = False, db_buffer = buf, db_size = int (length buf)\<rparr>
     else None)"

definition db_set_size :: "int \<Rightarrow> data_block \<Rightarrow> data_block" where
  "db_set_size n b = b\<lparr>db_size := n\<rparr>"

definition db_mutable_buffer :: "data_block \<Rightarrow> bytes option" where
  "db_mutable_buffer b = (if db_writable b then Some (db_buffer b) else None)"

text \<open>\<^verbatim>\<open>memcpy\<close> into the buffer at an offset; outside the buffer it is undefined.\<close>

definition db_poke :: "int \<Rightarrow> bytes \<Rightarrow> data_block \<Rightarrow> data_block option" where
  "db_poke off bs b = do {
     buf \<leftarrow> db_mutable_buffer b;
     (if 0 \<le> off \<and> off + int (length bs) \<le> db_buffer_size b
      then Some (b\<lparr>db_buffer := take (nat off) buf @ bs @ drop (nat off + length bs) buf\<rparr>)
      else None)}"

text \<open>\<^verbatim>\<open>memcpy\<close> out of the buffer.\<close>

definition db_peek :: "int \<Rightarrow> int \<Rightarrow> data_block \<Rightarrow> bytes option" where
  "db_peek off n b =
     (if 0 \<le> off \<and> 0 \<le> n \<and> off + n \<le> db_buffer_size b
      then Some (take (nat n) (drop (nat off) (db_buffer b))) else None)"

definition db_data :: "data_block \<Rightarrow> bytes" where
  "db_data b = take (nat (db_size b)) (db_buffer b)"

definition db_ok :: "data_block \<Rightarrow> bool" where
  "db_ok b \<longleftrightarrow> 0 < db_buffer_size b \<and> 0 \<le> db_size b \<and> db_size b \<le> db_buffer_size b
     \<and> (\<not> db_writable b \<longrightarrow> db_size b = db_buffer_size b)"

definition db_full :: "data_block \<Rightarrow> bool" where
  "db_full b \<longleftrightarrow> db_size b = db_buffer_size b"

lemma db_ok_sizes [simp]:
  assumes "db_ok b"
  shows "0 \<le> db_size b" and "db_size b \<le> db_buffer_size b" and "0 < db_buffer_size b"
  using assms by (auto simp: db_ok_def)

lemma length_db_data [simp]: "db_ok b \<Longrightarrow> length (db_data b) = nat (db_size b)"
  by (auto simp: db_ok_def db_data_def db_buffer_size_def)

lemma db_new_ok: "db_new sz = Some b \<Longrightarrow> db_ok b \<and> db_data b = [] \<and> db_size b = 0
    \<and> db_buffer_size b = sz \<and> db_writable b"
  by (auto simp: db_new_def db_ok_def db_data_def db_buffer_size_def split: if_splits)

lemma db_wrap_ok: "db_wrap buf = Some b \<Longrightarrow> db_ok b \<and> db_data b = buf \<and> db_full b
    \<and> db_size b = int (length buf)"
  by (auto simp: db_wrap_def db_ok_def db_data_def db_buffer_size_def db_full_def split: if_splits)

lemma db_peek_data:
  assumes "db_ok b" "0 \<le> off" "0 \<le> n" "off + n \<le> db_size b"
  shows "db_peek off n b = Some (take (nat n) (drop (nat off) (db_data b)))"
proof -
  have "nat n \<le> nat (db_size b) - nat off"
    using assms by linarith
  then have "min (nat n) (nat (db_size b) - nat off) = nat n"
    by (rule min_absorb1)
  then have "take (nat n) (drop (nat off) (db_buffer b))
      = take (nat n) (drop (nat off) (db_data b))"
    unfolding db_data_def drop_take take_take by (rule ssubst) (rule refl)
  moreover have "off + n \<le> db_buffer_size b"
    using assms(4) db_ok_sizes(2)[OF assms(1)] by linarith
  ultimately show ?thesis
    using assms(2,3) by (simp add: db_peek_def)
qed

section \<open>The queue of blocks\<close>

record block_dqueue =
  bd_vec :: "data_block list"
  bd_first :: int
  bd_correction :: int

definition bd_new :: block_dqueue where
  "bd_new = \<lparr>bd_vec = [], bd_first = 0, bd_correction = 0\<rparr>"

definition bd_begin_id :: "block_dqueue \<Rightarrow> int" where
  "bd_begin_id q = bd_first q + bd_correction q"

definition bd_end_id :: "block_dqueue \<Rightarrow> int" where
  "bd_end_id q = int (length (bd_vec q)) + bd_correction q"

definition bd_block :: "block_dqueue \<Rightarrow> int \<Rightarrow> data_block option" where
  "bd_block q i =
     (if bd_begin_id q \<le> i \<and> i < bd_end_id q
      then Some (bd_vec q ! nat (i - bd_correction q)) else None)"

text \<open>Writing through \<^verbatim>\<open>mutable_block(id)\<close>.\<close>

definition bd_put_block :: "block_dqueue \<Rightarrow> int \<Rightarrow> data_block \<Rightarrow> block_dqueue" where
  "bd_put_block q i b = q\<lparr>bd_vec := (bd_vec q)[nat (i - bd_correction q) := b]\<rparr>"

definition bd_pop_front :: "block_dqueue \<Rightarrow> block_dqueue" where
  "bd_pop_front q = q\<lparr>bd_first := bd_first q + 1\<rparr>"

definition bd_push_back :: "data_block \<Rightarrow> block_dqueue \<Rightarrow> block_dqueue" where
  "bd_push_back b q = q\<lparr>bd_vec := bd_vec q @ [b]\<rparr>"

definition bd_elems :: "block_dqueue \<Rightarrow> int" where
  "bd_elems q = int (length (bd_vec q)) - bd_first q"

definition bd_empty :: "block_dqueue \<Rightarrow> bool" where
  "bd_empty q \<longleftrightarrow> bd_first q = int (length (bd_vec q))"

definition bd_clear :: "block_dqueue \<Rightarrow> block_dqueue" where
  "bd_clear q = \<lparr>bd_vec = [], bd_first = 0,
     bd_correction = bd_correction q + bd_first q\<rparr>"

definition kResizeThreshold :: int where
  "kResizeThreshold = 25"

text \<open>
  The loop of \<^verbatim>\<open>correct_buffer\<close>: the element at \<open>i + b\<close> moves to \<open>i\<close>, for
  \<open>k\<close> successive \<open>i\<close>.
\<close>

fun bd_move_down :: "nat \<Rightarrow> nat \<Rightarrow> nat \<Rightarrow> 'a list \<Rightarrow> 'a list" where
  "bd_move_down i 0 b v = v"
| "bd_move_down i (Suc k) b v = bd_move_down (Suc i) k b (v[i := v ! (i + b)])"

definition bd_correct_buffer :: "block_dqueue \<Rightarrow> block_dqueue" where
  "bd_correct_buffer q =
     (let n = bd_elems q in
      if bd_first q > kResizeThreshold \<and> bd_first q > n
      then \<lparr>bd_vec = take (nat n) (bd_move_down 0 (nat n) (nat (bd_first q)) (bd_vec q)),
            bd_first = 0,
            bd_correction = bd_correction q + bd_first q\<rparr>
      else q)"

definition bd_live :: "block_dqueue \<Rightarrow> data_block list" where
  "bd_live q = drop (nat (bd_first q)) (bd_vec q)"

definition bd_ok :: "block_dqueue \<Rightarrow> bool" where
  "bd_ok q \<longleftrightarrow> 0 \<le> bd_first q \<and> bd_first q \<le> int (length (bd_vec q))
     \<and> 0 \<le> bd_correction q \<and> (\<forall>b \<in> set (bd_live q). db_ok b)"

lemma bd_okD:
  assumes "bd_ok q"
  shows "0 \<le> bd_first q" and "bd_first q \<le> int (length (bd_vec q))"
    and "0 \<le> bd_correction q" and "0 \<le> bd_begin_id q" and "bd_begin_id q \<le> bd_end_id q"
  using assms by (auto simp: bd_ok_def bd_begin_id_def bd_end_id_def)

text \<open>The live blocks, seen from the front: block \<open>begin_id + k\<close> is the \<open>k\<close>-th.\<close>

lemma bd_block_live:
  assumes "bd_ok q"
  shows "bd_block q i =
    (if bd_begin_id q \<le> i \<and> i < bd_end_id q then Some (bd_live q ! nat (i - bd_begin_id q)) else None)"
proof -
  have "bd_vec q ! nat (i - bd_correction q) = bd_live q ! nat (i - bd_begin_id q)"
    if "bd_begin_id q \<le> i" "i < bd_end_id q"
  proof -
    have "nat (bd_first q) + nat (i - bd_begin_id q) = nat (i - bd_correction q)"
      using that bd_okD[OF assms] by (simp add: bd_begin_id_def)
    then show ?thesis
      using that bd_okD[OF assms] by (simp add: bd_live_def)
  qed
  then show ?thesis by (simp add: bd_block_def)
qed

lemma length_bd_live: "bd_ok q \<Longrightarrow> int (length (bd_live q)) = bd_end_id q - bd_begin_id q"
  by (auto simp: bd_live_def bd_ok_def bd_begin_id_def bd_end_id_def)

lemma bd_block_ok:
  assumes "bd_ok q" "bd_block q i = Some b"
  shows "db_ok b"
proof -
  from assms have r: "bd_begin_id q \<le> i" "i < bd_end_id q" and b: "b = bd_live q ! nat (i - bd_begin_id q)"
    by (auto simp: bd_block_live split: if_splits)
  have "nat (i - bd_begin_id q) < length (bd_live q)"
    using r length_bd_live[OF assms(1)] by linarith
  with b assms(1) show ?thesis by (auto simp: bd_ok_def)
qed

lemma bd_block_Some_iff: "(\<exists>b. bd_block q i = Some b) \<longleftrightarrow> bd_begin_id q \<le> i \<and> i < bd_end_id q"
  by (auto simp: bd_block_def)

subsection \<open>The queue operations keep the block numbers\<close>

lemma length_bd_move_down [simp]: "length (bd_move_down i k b v) = length v"
  by (induction i k b v rule: bd_move_down.induct) auto

lemma bd_move_down_nth:
  "i + k + b \<le> length v \<Longrightarrow> j < length v \<Longrightarrow>
     bd_move_down i k b v ! j = (if i \<le> j \<and> j < i + k then v ! (j + b) else v ! j)"
proof (induction i k b v arbitrary: j rule: bd_move_down.induct)
  case (1 i b v)
  then show ?case by auto
next
  case (2 i k b v)
  have IH: "bd_move_down (Suc i) k b (v[i := v ! (i + b)]) ! j =
      (if Suc i \<le> j \<and> j < Suc i + k then v[i := v ! (i + b)] ! (j + b) else v[i := v ! (i + b)] ! j)"
    using 2 by simp
  show ?case
  proof (cases "j = i")
    case True
    then show ?thesis using 2 IH by simp
  next
    case False
    then have "v[i := v ! (i + b)] ! (j + b) = v ! (j + b)" if "Suc i \<le> j"
      using that by simp
    with IH False show ?thesis by auto
  qed
qed

lemma bd_move_down_drop:
  assumes "b + n = length v"
  shows "take n (bd_move_down 0 n b v) = drop b v"
proof (rule nth_equalityI)
  show "length (take n (bd_move_down 0 n b v)) = length (drop b v)"
    using assms by auto
next
  fix i assume "i < length (take n (bd_move_down 0 n b v))"
  then show "take n (bd_move_down 0 n b v) ! i = drop b v ! i"
    using assms by (simp add: bd_move_down_nth add.commute)
qed

lemma bd_correct_buffer_live [simp]: "bd_ok q \<Longrightarrow> bd_live (bd_correct_buffer q) = bd_live q"
  by (auto simp: bd_correct_buffer_def bd_live_def Let_def bd_elems_def bd_ok_def intro!: bd_move_down_drop)

lemma bd_correct_buffer_ids [simp]:
  "bd_ok q \<Longrightarrow> bd_begin_id (bd_correct_buffer q) = bd_begin_id q"
  "bd_ok q \<Longrightarrow> bd_end_id (bd_correct_buffer q) = bd_end_id q"
  by (auto simp: bd_correct_buffer_def bd_begin_id_def bd_end_id_def Let_def bd_elems_def bd_ok_def)

lemma bd_correct_buffer_ok [simp]: "bd_ok q \<Longrightarrow> bd_ok (bd_correct_buffer q)"
  using bd_correct_buffer_live[of q]
  by (auto simp: bd_ok_def bd_correct_buffer_def Let_def bd_elems_def)

lemma bd_correct_buffer_block: "bd_ok q \<Longrightarrow> bd_block (bd_correct_buffer q) i = bd_block q i"
  by (simp add: bd_block_live)

lemma bd_push_back_simps [simp]:
  "bd_begin_id (bd_push_back b q) = bd_begin_id q"
  "bd_end_id (bd_push_back b q) = bd_end_id q + 1"
  "bd_ok q \<Longrightarrow> bd_live (bd_push_back b q) = bd_live q @ [b]"
  "bd_ok q \<Longrightarrow> db_ok b \<Longrightarrow> bd_ok (bd_push_back b q)"
  by (auto simp: bd_push_back_def bd_begin_id_def bd_end_id_def bd_live_def bd_ok_def)

lemma bd_pop_front_simps:
  assumes "bd_ok q" "bd_begin_id q < bd_end_id q"
  shows "bd_begin_id (bd_pop_front q) = bd_begin_id q + 1"
    and "bd_end_id (bd_pop_front q) = bd_end_id q"
    and "bd_live (bd_pop_front q) = tl (bd_live q)"
    and "bd_ok (bd_pop_front q)"
proof -
  show "bd_begin_id (bd_pop_front q) = bd_begin_id q + 1" "bd_end_id (bd_pop_front q) = bd_end_id q"
    by (auto simp: bd_pop_front_def bd_begin_id_def bd_end_id_def)
  show l: "bd_live (bd_pop_front q) = tl (bd_live q)"
    using assms by (simp add: bd_pop_front_def bd_live_def bd_ok_def nat_add_distrib drop_Suc tl_drop)
  show "bd_ok (bd_pop_front q)"
    using assms l by (auto simp: bd_ok_def bd_pop_front_def bd_begin_id_def bd_end_id_def dest: set_tlD)
qed

lemma bd_pop_front_block:
  assumes "bd_begin_id q < i"
  shows "bd_block (bd_pop_front q) i = bd_block q i"
  using assms by (auto simp: bd_block_def bd_pop_front_def bd_begin_id_def bd_end_id_def)

end
