(* ===== verification/DataBlockPointer.thy ===== *)
theory DataBlockPointer
  imports DataBlock
begin

text \<open>
  \<^verbatim>\<open>DataBlockPointer\<close> of \<^verbatim>\<open>data_block.h\<close> and
  \<^verbatim>\<open>data_block.cc\<close>: a position (block number, offset) in a queue of blocks, and the
  loops that measure, move, read and write from it.  Every block access goes through
  \<open>bd_block\<close>, so \<open>None\<close> is a failed \<^verbatim>\<open>CHECK\<close> or undefined behaviour.

  The meaning of a pointer is \<open>data_from\<close>: the bytes from it to the end of the queue.
  Each loop is shown to terminate, to be defined on valid pointers, and to compute
  \<open>take\<close> and \<open>drop\<close> on these bytes.
\<close>

record dbp =
  dbp_block_id :: int
  dbp_pos :: int

definition dbp_at :: "int \<Rightarrow> int \<Rightarrow> dbp" where
  "dbp_at i n = \<lparr>dbp_block_id = i, dbp_pos = n\<rparr>"

definition dbp_Clear :: dbp where
  "dbp_Clear = dbp_at (- 1) (- 1)"

definition dbp_IsNull :: "dbp \<Rightarrow> bool" where
  "dbp_IsNull p \<longleftrightarrow> dbp_block_id p = - 1"

definition dbp_block :: "block_dqueue \<Rightarrow> dbp \<Rightarrow> data_block option" where
  "dbp_block q p = bd_block q (dbp_block_id p)"

definition dbp_less :: "dbp \<Rightarrow> dbp \<Rightarrow> bool" where
  "dbp_less p m = (if dbp_block_id p = dbp_block_id m then dbp_pos p < dbp_pos m
     else dbp_block_id p < dbp_block_id m)"

definition dbp_greater :: "dbp \<Rightarrow> dbp \<Rightarrow> bool" where
  "dbp_greater p m = (if dbp_block_id p = dbp_block_id m then dbp_pos p > dbp_pos m
     else dbp_block_id p > dbp_block_id m)"

definition dbp_equals :: "dbp \<Rightarrow> dbp \<Rightarrow> bool" where
  "dbp_equals p m \<longleftrightarrow> dbp_block_id p = dbp_block_id m \<and> dbp_pos p = dbp_pos m"

definition dbp_leq :: "dbp \<Rightarrow> dbp \<Rightarrow> bool" where
  "dbp_leq p m \<longleftrightarrow> dbp_less p m \<or> dbp_equals p m"

definition dbp_geq :: "dbp \<Rightarrow> dbp \<Rightarrow> bool" where
  "dbp_geq p m \<longleftrightarrow> dbp_greater p m \<or> dbp_equals p m"

definition dbp_AvailableForWrite :: "block_dqueue \<Rightarrow> dbp \<Rightarrow> int option" where
  "dbp_AvailableForWrite q p =
     (if dbp_IsNull p then Some 0
      else do { b \<leftarrow> dbp_block q p; Some (db_buffer_size b - dbp_pos p) })"

definition dbp_AdvanceToCurrentBlockEnd ::
    "block_dqueue \<Rightarrow> dbp \<Rightarrow> (block_dqueue \<times> dbp \<times> int) option" where
  "dbp_AdvanceToCurrentBlockEnd q p =
     (if dbp_IsNull p then Some (q, p, 0)
      else do {
        b \<leftarrow> dbp_block q p;
        let ret = db_buffer_size b - dbp_pos p;
        let b' = db_set_size (db_buffer_size b) b;
        Some (bd_put_block q (dbp_block_id p) b', p\<lparr>dbp_pos := db_size b'\<rparr>, ret) })"

definition dbp_SkipToCurrentBlockEnd :: "block_dqueue \<Rightarrow> dbp \<Rightarrow> dbp option" where
  "dbp_SkipToCurrentBlockEnd q p =
     (if dbp_IsNull p then Some p
      else do { b \<leftarrow> dbp_block q p; Some (p\<lparr>dbp_pos := db_size b\<rparr>) })"

definition dbp_MarkCurrentBlockEndAtPointer ::
    "block_dqueue \<Rightarrow> dbp \<Rightarrow> block_dqueue option" where
  "dbp_MarkCurrentBlockEndAtPointer q p =
     do { b \<leftarrow> dbp_block q p; Some (bd_put_block q (dbp_block_id p) (db_set_size (dbp_pos p) b)) }"

section \<open>Measuring\<close>

text \<open>Sum of the sizes of the blocks with numbers \<open>i, \<dots>, e - 1\<close>.\<close>

function bd_sum_sizes :: "block_dqueue \<Rightarrow> int \<Rightarrow> int \<Rightarrow> int option" where
  "bd_sum_sizes q i e =
     (if i < e then do {
        b \<leftarrow> bd_block q i;
        s \<leftarrow> bd_sum_sizes q (i + 1) e;
        Some (db_size b + s) }
      else Some 0)"
  by pat_completeness auto
termination
  by (relation "measure (\<lambda>(q, i, e). nat (e - i))") auto

definition dbp_ReadableSize :: "block_dqueue \<Rightarrow> dbp \<Rightarrow> int option" where
  "dbp_ReadableSize q p = do {
     s \<leftarrow> bd_sum_sizes q (dbp_block_id p) (bd_end_id q);
     Some (s - dbp_pos p) }"

definition dbp_Distance_up :: "block_dqueue \<Rightarrow> dbp \<Rightarrow> dbp \<Rightarrow> int option" where
  "dbp_Distance_up q p m = do {
     s \<leftarrow> bd_sum_sizes q (dbp_block_id p) (dbp_block_id m);
     Some (s - dbp_pos p + dbp_pos m) }"

definition dbp_Distance :: "block_dqueue \<Rightarrow> dbp \<Rightarrow> dbp \<Rightarrow> int option" where
  "dbp_Distance q p m =
     (if dbp_less m p then dbp_Distance_up q m p else dbp_Distance_up q p m)"

section \<open>Moving\<close>

text \<open>Distance of the offset from the end of its block: what a step inside a block shrinks.\<close>

definition dbp_gap :: "block_dqueue \<Rightarrow> dbp \<Rightarrow> nat" where
  "dbp_gap q p = (case dbp_block q p of None \<Rightarrow> 0 | Some b \<Rightarrow> nat \<bar>db_size b - dbp_pos p\<bar>)"

function dbp_Advance_loop :: "block_dqueue \<Rightarrow> dbp \<Rightarrow> int \<Rightarrow> int \<Rightarrow> (dbp \<times> int) option" where
  "dbp_Advance_loop q p cb delta =
     (case dbp_block q p of
        None \<Rightarrow> None
      | Some b \<Rightarrow>
          if cb > 0 \<or> dbp_pos p = db_size b then
            if dbp_pos p = db_size b then
              if dbp_block_id p + 1 \<ge> bd_end_id q then Some (p, delta)
              else dbp_Advance_loop q (dbp_at (dbp_block_id p + 1) 0) cb delta
            else
              let to_add = min (db_size b - dbp_pos p) cb
              in dbp_Advance_loop q (p\<lparr>dbp_pos := dbp_pos p + to_add\<rparr>) (cb - to_add) (delta + to_add)
          else Some (p, delta))"
  by pat_completeness auto
termination
  by (relation "measures [\<lambda>(q, p, cb, d). nat (bd_end_id q - dbp_block_id p),
                          \<lambda>(q, p, cb, d). dbp_gap q p]")
     (auto simp: dbp_gap_def dbp_block_def dbp_at_def min_def split: if_splits)

text \<open>
  \<^verbatim>\<open>Devance\<close>; the source lets a negative count of \<^verbatim>\<open>Advance\<close> call
  \<^verbatim>\<open>Devance\<close> and the other way round.
\<close>

function dbp_Devance_loop :: "block_dqueue \<Rightarrow> dbp \<Rightarrow> int \<Rightarrow> int \<Rightarrow> (dbp \<times> int) option" where
  "dbp_Devance_loop q p cb delta =
     (if cb > 0 \<or> dbp_pos p = 0 then
        if dbp_pos p = 0 then
          if dbp_block_id p = bd_begin_id q then Some (p, delta)
          else (case bd_block q (dbp_block_id p - 1) of
                  None \<Rightarrow> None
                | Some b \<Rightarrow> dbp_Devance_loop q (dbp_at (dbp_block_id p - 1) (db_size b)) cb delta)
        else
          let to_del = min (dbp_pos p) cb
          in dbp_Devance_loop q (p\<lparr>dbp_pos := dbp_pos p - to_del\<rparr>) (cb - to_del) (delta + to_del)
      else Some (p, delta))"
  by pat_completeness auto
termination
  by (relation "measures [\<lambda>(q, p, cb, d). nat (dbp_block_id p - bd_begin_id q),
                          \<lambda>(q, p, cb, d). nat \<bar>dbp_pos p\<bar>]")
     (auto simp: dbp_at_def bd_block_def min_def split: if_splits)

definition dbp_Advance :: "block_dqueue \<Rightarrow> dbp \<Rightarrow> int \<Rightarrow> (dbp \<times> int) option" where
  "dbp_Advance q p cb =
     (if cb < 0 then dbp_Devance_loop q p (- cb) 0 else dbp_Advance_loop q p cb 0)"

definition dbp_Devance :: "block_dqueue \<Rightarrow> dbp \<Rightarrow> int \<Rightarrow> (dbp \<times> int) option" where
  "dbp_Devance q p cb =
     (if cb < 0 then dbp_Advance_loop q p (- cb) 0 else dbp_Devance_loop q p cb 0)"

section \<open>Reading and writing\<close>

text \<open>
  \<^verbatim>\<open>AdvanceToNextBlock\<close>: the first non-empty block after the current one; \<open>None\<close>
  inside the result is the source's \<^verbatim>\<open>false\<close>, which leaves the pointer alone.
\<close>

function dbp_next_nonempty :: "block_dqueue \<Rightarrow> int \<Rightarrow> int option" where
  "dbp_next_nonempty q i =
     (if i < bd_end_id q then
        (case bd_block q i of
           None \<Rightarrow> Some i
         | Some b \<Rightarrow> if db_size b = 0 then dbp_next_nonempty q (i + 1) else Some i)
      else None)"
  by pat_completeness auto
termination
  by (relation "measure (\<lambda>(q, i). nat (bd_end_id q - i))") auto

declare dbp_next_nonempty.simps [simp del]

lemma dbp_next_nonempty_ge: "dbp_next_nonempty q i = Some j \<Longrightarrow> i \<le> j"
proof (induction q i rule: dbp_next_nonempty.induct)
  case (1 q i)
  show ?case
    using "1.prems" "1.IH" by (subst (asm) dbp_next_nonempty.simps) (fastforce split: if_splits option.splits)
qed

definition dbp_AdvanceToNextBlock :: "block_dqueue \<Rightarrow> dbp \<Rightarrow> dbp option" where
  "dbp_AdvanceToNextBlock q p =
     (case dbp_next_nonempty q (dbp_block_id p + 1) of
        None \<Rightarrow> None
      | Some i \<Rightarrow> Some (dbp_at i 0))"

function dbp_WriteData_loop ::
    "block_dqueue \<Rightarrow> dbp \<Rightarrow> bytes \<Rightarrow> int \<Rightarrow> (block_dqueue \<times> dbp \<times> int) option" where
  "dbp_WriteData_loop q p buf cb =
     (if buf = [] then Some (q, p, cb)
      else (case dbp_block q p of
          None \<Rightarrow> None
        | Some b \<Rightarrow>
            if dbp_pos p = db_buffer_size b then
              if dbp_block_id p + 1 \<ge> bd_end_id q then Some (q, p, cb)
              else (case bd_block q (dbp_block_id p + 1) of
                      None \<Rightarrow> None
                    | Some b' \<Rightarrow>
                        if db_size b' = 0
                        then dbp_WriteData_loop q (dbp_at (dbp_block_id p + 1) 0) buf cb
                        else None)
            else
              let to_write = min (db_buffer_size b - dbp_pos p) (int (length buf)) in
              if to_write \<le> 0 then None
              else (case db_poke (dbp_pos p) (take (nat to_write) buf) b of
                  None \<Rightarrow> None
                | Some b' \<Rightarrow>
                    dbp_WriteData_loop
                      (bd_put_block q (dbp_block_id p) (db_set_size (db_size b' + to_write) b'))
                      (p\<lparr>dbp_pos := dbp_pos p + to_write\<rparr>)
                      (drop (nat to_write) buf) (cb + to_write))))"
  by pat_completeness auto
termination
  by (relation "measures [\<lambda>(q, p, buf, cb). length buf,
                          \<lambda>(q, p, buf, cb). nat (bd_end_id q - dbp_block_id p)]")
     (auto simp: dbp_at_def min_def split: if_splits)

definition dbp_WriteData ::
    "block_dqueue \<Rightarrow> dbp \<Rightarrow> bytes \<Rightarrow> (block_dqueue \<times> dbp \<times> int) option" where
  "dbp_WriteData q p buf = dbp_WriteData_loop q p buf 0"

text \<open>
  \<^verbatim>\<open>ReadBlock\<close>: a piece of the current block; \<open>len > 0\<close> bounds it.  The result
  is the source's boolean, the piece (with its length) and the pointer.
\<close>

definition dbp_ReadBlock ::
    "block_dqueue \<Rightarrow> dbp \<Rightarrow> int \<Rightarrow> (bool \<times> bytes \<times> dbp) option" where
  "dbp_ReadBlock q p len = do {
     b \<leftarrow> dbp_block q p;
     (case (if dbp_pos p = db_size b then dbp_AdvanceToNextBlock q p else Some p) of
        None \<Rightarrow> Some (False, [], p)
      | Some p' \<Rightarrow> do {
          b' \<leftarrow> dbp_block q p';
          let n = (if len > 0 then min len (db_size b' - dbp_pos p') else db_size b' - dbp_pos p');
          bs \<leftarrow> db_peek (dbp_pos p') n b';
          Some (True, bs, p'\<lparr>dbp_pos := dbp_pos p' + n\<rparr>) }) }"

function dbp_ReadData :: "block_dqueue \<Rightarrow> dbp \<Rightarrow> int \<Rightarrow> (bytes \<times> dbp) option" where
  "dbp_ReadData q p len =
     (if len > 0 then
        (case dbp_block q p of
           None \<Rightarrow> None
         | Some b \<Rightarrow>
             if dbp_pos p = db_size b then
               (case dbp_AdvanceToNextBlock q p of
                  None \<Rightarrow> Some ([], p)
                | Some p' \<Rightarrow> dbp_ReadData q p' len)
             else
               let to_read = min (db_size b - dbp_pos p) len in
               if to_read \<le> 0 then None
               else (case db_peek (dbp_pos p) to_read b of
                   None \<Rightarrow> None
                 | Some bs \<Rightarrow>
                     (case dbp_ReadData q (p\<lparr>dbp_pos := dbp_pos p + to_read\<rparr>) (len - to_read) of
                        None \<Rightarrow> None
                      | Some (bs', p') \<Rightarrow> Some (bs @ bs', p'))))
      else Some ([], p))"
  by pat_completeness auto
termination
  by (relation "measures [\<lambda>(q, p, len). nat len,
                          \<lambda>(q, p, len). nat (bd_end_id q - dbp_block_id p)]")
     (auto simp: dbp_block_def bd_block_def min_def dbp_AdvanceToNextBlock_def dbp_at_def
           dest!: dbp_next_nonempty_ge split: if_splits option.splits)

declare bd_sum_sizes.simps [simp del] dbp_Advance_loop.simps [simp del]
  dbp_Devance_loop.simps [simp del]
  dbp_WriteData_loop.simps [simp del] dbp_ReadData.simps [simp del]

section \<open>The bytes from a pointer on\<close>

definition bd_data_from :: "block_dqueue \<Rightarrow> int \<Rightarrow> bytes" where
  "bd_data_from q i = concat (map db_data (drop (nat (i - bd_begin_id q)) (bd_live q)))"

definition dbp_ok :: "block_dqueue \<Rightarrow> dbp \<Rightarrow> bool" where
  "dbp_ok q p = (case dbp_block q p of None \<Rightarrow> False
     | Some b \<Rightarrow> 0 \<le> dbp_pos p \<and> dbp_pos p \<le> db_size b)"

definition data_from :: "block_dqueue \<Rightarrow> dbp \<Rightarrow> bytes" where
  "data_from q p = drop (nat (dbp_pos p)) (bd_data_from q (dbp_block_id p))"

lemma dbp_at_simps [simp]: "dbp_block_id (dbp_at i n) = i" "dbp_pos (dbp_at i n) = n"
  by (auto simp: dbp_at_def)

lemma dbp_at_eta: "dbp_at (dbp_block_id p) n = p\<lparr>dbp_pos := n\<rparr>"
  by (cases p) (simp add: dbp_at_def)

lemma dbp_block_at [simp]: "dbp_block q (dbp_at i n) = bd_block q i"
  by (simp add: dbp_block_def)

lemma dbp_block_update_pos [simp]: "dbp_block q (p\<lparr>dbp_pos := n\<rparr>) = dbp_block q p"
  by (simp add: dbp_block_def)

lemma dbp_okE:
  assumes "dbp_ok q p"
  obtains b where "dbp_block q p = Some b" "0 \<le> dbp_pos p" "dbp_pos p \<le> db_size b"
  using assms by (auto simp: dbp_ok_def split: option.splits)

lemma bd_data_from_step:
  assumes "bd_ok q" "bd_block q i = Some b"
  shows "bd_data_from q i = db_data b @ bd_data_from q (i + 1)"
proof -
  from assms have r: "bd_begin_id q \<le> i" "i < bd_end_id q"
    and b: "b = bd_live q ! nat (i - bd_begin_id q)"
    by (auto simp: bd_block_live split: if_splits)
  have "nat (i - bd_begin_id q) < length (bd_live q)"
    using r length_bd_live[OF assms(1)] by linarith
  moreover have "Suc (nat (i - bd_begin_id q)) = nat (i + 1 - bd_begin_id q)"
    using r by linarith
  ultimately show ?thesis
    by (simp add: bd_data_from_def concat_map_drop_nth b)
qed

lemma bd_data_from_end: "bd_ok q \<Longrightarrow> bd_end_id q \<le> i \<Longrightarrow> bd_data_from q i = []"
  using length_bd_live[of q] by (simp add: bd_data_from_def)

text \<open>The three ways a pointer's bytes unfold: inside a block, at its end, at the very end.\<close>

lemma data_from_block:
  assumes "bd_ok q" "dbp_block q p = Some b" "0 \<le> dbp_pos p" "dbp_pos p \<le> db_size b"
  shows "data_from q p = drop (nat (dbp_pos p)) (db_data b) @ bd_data_from q (dbp_block_id p + 1)"
  using assms bd_block_ok[of q "dbp_block_id p" b]
  by (simp add: data_from_def dbp_block_def bd_data_from_step)

lemma data_from_block_end:
  assumes "bd_ok q" "dbp_block q p = Some b" "dbp_pos p = db_size b"
  shows "data_from q p = bd_data_from q (dbp_block_id p + 1)"
  using assms bd_block_ok[of q "dbp_block_id p" b]
  by (simp add: data_from_block dbp_block_def)

lemma data_from_at_0 [simp]: "data_from q (dbp_at i 0) = bd_data_from q i"
  by (simp add: data_from_def)

lemma data_from_forward:
  assumes "0 \<le> dbp_pos p" "0 \<le> n"
  shows "data_from q (p\<lparr>dbp_pos := dbp_pos p + n\<rparr>) = drop (nat n) (data_from q p)"
  using assms by (simp add: data_from_def nat_add_distrib add.commute)

lemma length_data_from_block:
  assumes "bd_ok q" "dbp_block q p = Some b" "0 \<le> dbp_pos p" "dbp_pos p \<le> db_size b"
  shows "int (length (data_from q p))
    = db_size b - dbp_pos p + int (length (bd_data_from q (dbp_block_id p + 1)))"
  using assms bd_block_ok[of q "dbp_block_id p" b]
  by (simp add: data_from_block dbp_block_def)

lemma data_from_take_block:
  assumes "bd_ok q" "dbp_block q p = Some b" "0 \<le> dbp_pos p" "0 \<le> n" "dbp_pos p + n \<le> db_size b"
  shows "take (nat n) (data_from q p) = take (nat n) (drop (nat (dbp_pos p)) (db_data b))"
  using assms bd_block_ok[of q "dbp_block_id p" b]
  by (simp add: data_from_block dbp_block_def nat_diff_distrib')

section \<open>What the loops compute\<close>

lemma bd_block_exists:
  assumes "bd_begin_id q \<le> i" "i < bd_end_id q"
  obtains b where "bd_block q i = Some b"
  using assms by (auto simp: bd_block_def)

lemma length_bd_data_from_step:
  "bd_ok q \<Longrightarrow> bd_block q i = Some b \<Longrightarrow>
     int (length (bd_data_from q i)) = db_size b + int (length (bd_data_from q (i + 1)))"
  using bd_block_ok[of q i b] by (simp add: bd_data_from_step)

lemma bd_sum_sizes_eq:
  assumes "bd_ok q" "bd_begin_id q \<le> i" "i \<le> e" "e \<le> bd_end_id q"
  shows "bd_sum_sizes q i e
    = Some (int (length (bd_data_from q i)) - int (length (bd_data_from q e)))"
  using assms
proof (induction q i e rule: bd_sum_sizes.induct)
  case (1 q i e)
  show ?case
  proof (cases "i < e")
    case True
    with "1.prems" obtain b where b: "bd_block q i = Some b"
      by (auto elim: bd_block_exists)
    show ?thesis
      using "1.IH"[OF True b] "1.prems" True b
      by (subst bd_sum_sizes.simps) (simp add: length_bd_data_from_step)
  next
    case False
    then show ?thesis using "1.prems" by (subst bd_sum_sizes.simps) simp
  qed
qed

lemma dbp_ok_range:
  assumes "dbp_ok q p"
  shows "bd_begin_id q \<le> dbp_block_id p" and "dbp_block_id p < bd_end_id q" and "0 \<le> dbp_pos p"
  using assms by (auto elim!: dbp_okE simp: dbp_block_def bd_block_def split: if_splits)

lemma length_data_from:
  assumes "bd_ok q" "dbp_ok q p"
  shows "int (length (data_from q p))
    = int (length (bd_data_from q (dbp_block_id p))) - dbp_pos p"
proof -
  from assms(2) obtain b where b: "dbp_block q p = Some b" "0 \<le> dbp_pos p" "dbp_pos p \<le> db_size b"
    by (rule dbp_okE)
  show ?thesis
    using length_data_from_block[OF assms(1) b] length_bd_data_from_step[OF assms(1), of "dbp_block_id p" b] b
    by (simp add: dbp_block_def)
qed

lemma dbp_ReadableSize_eq:
  assumes "bd_ok q" "dbp_ok q p"
  shows "dbp_ReadableSize q p = Some (int (length (data_from q p)))"
  using assms dbp_ok_range[OF assms(2)]
  by (simp add: dbp_ReadableSize_def bd_sum_sizes_eq bd_data_from_end length_data_from)

lemma dbp_Distance_up_eq:
  assumes "bd_ok q" "dbp_ok q p" "dbp_ok q m" "dbp_block_id p \<le> dbp_block_id m"
  shows "dbp_Distance_up q p m
    = Some (int (length (data_from q p)) - int (length (data_from q m)))"
  using assms dbp_ok_range[OF assms(2)] dbp_ok_range[OF assms(3)]
  by (simp add: dbp_Distance_up_def bd_sum_sizes_eq length_data_from)

text \<open>A smaller pointer has all the bytes of a larger one at the end of its own.\<close>

lemma bd_data_from_suffix:
  assumes "bd_ok q" "bd_begin_id q \<le> i" "i \<le> j"
  shows "\<exists>xs. bd_data_from q i = xs @ bd_data_from q j"
proof -
  have "nat (j - bd_begin_id q) = nat (j - i) + nat (i - bd_begin_id q)"
    using assms by linarith
  then have "drop (nat (j - bd_begin_id q)) (bd_live q)
      = drop (nat (j - i)) (drop (nat (i - bd_begin_id q)) (bd_live q))"
    by simp
  then show ?thesis
    unfolding bd_data_from_def
    by (metis append_take_drop_id concat_append map_append)
qed

lemma dbp_leq_suffix:
  assumes "bd_ok q" "dbp_ok q p" "dbp_ok q m" "dbp_leq p m"
  shows "\<exists>xs. data_from q p = xs @ data_from q m"
proof (cases "dbp_block_id p = dbp_block_id m")
  case True
  with assms(4) have le: "dbp_pos p \<le> dbp_pos m"
    by (auto simp: dbp_leq_def dbp_less_def dbp_equals_def)
  have "data_from q m = drop (nat (dbp_pos m - dbp_pos p)) (data_from q p)"
    using True le dbp_ok_range(3)[OF assms(2)]
    by (simp add: data_from_def nat_add_distrib[symmetric])
  then show ?thesis by (metis append_take_drop_id)
next
  case False
  with assms(4) have lt: "dbp_block_id p + 1 \<le> dbp_block_id m"
    by (auto simp: dbp_leq_def dbp_less_def dbp_equals_def)
  obtain b where b: "dbp_block q p = Some b" "0 \<le> dbp_pos p" "dbp_pos p \<le> db_size b"
    using assms(2) by (rule dbp_okE)
  obtain xs where "bd_data_from q (dbp_block_id p + 1) = xs @ bd_data_from q (dbp_block_id m)"
    using bd_data_from_suffix[OF assms(1) _ lt] dbp_ok_range[OF assms(2)] by auto
  then show ?thesis
    unfolding data_from_block[OF assms(1) b]
    by (metis append.assoc append_take_drop_id data_from_def)
qed

lemma dbp_Distance_eq:
  assumes "bd_ok q" "dbp_ok q p" "dbp_ok q m" "dbp_leq p m"
  shows "dbp_Distance q p m
    = Some (int (length (data_from q p)) - int (length (data_from q m)))"
proof -
  have "\<not> dbp_less m p" "dbp_block_id p \<le> dbp_block_id m"
    using assms(4) by (auto simp: dbp_leq_def dbp_less_def dbp_equals_def split: if_splits)
  then show ?thesis
    using assms by (simp add: dbp_Distance_def dbp_Distance_up_eq)
qed

subsection \<open>Advance\<close>

lemma dbp_ok_at_0: "bd_ok q \<Longrightarrow> bd_begin_id q \<le> i \<Longrightarrow> i < bd_end_id q \<Longrightarrow> dbp_ok q (dbp_at i 0)"
  using bd_block_ok[of q i] by (auto simp: dbp_ok_def bd_block_def split: option.splits if_splits)

lemma dbp_Advance_loop_eq:
  assumes "bd_ok q" "dbp_ok q p" "0 \<le> cb"
  shows "\<exists>p'. dbp_Advance_loop q p cb delta
        = Some (p', delta + min cb (int (length (data_from q p))))
      \<and> dbp_ok q p' \<and> data_from q p' = drop (nat cb) (data_from q p) \<and> dbp_leq p p'"
  using assms
proof (induction q p cb delta rule: dbp_Advance_loop.induct)
  case (1 q p cb delta)
  obtain b where b: "dbp_block q p = Some b" "0 \<le> dbp_pos p" "dbp_pos p \<le> db_size b"
    using "1.prems"(2) by (rule dbp_okE)
  note unf = dbp_Advance_loop.simps[of q p cb delta]
  consider (stop) "\<not> (cb > 0 \<or> dbp_pos p = db_size b)"
    | (last) "dbp_pos p = db_size b" "dbp_block_id p + 1 \<ge> bd_end_id q"
    | (hop) "dbp_pos p = db_size b" "dbp_block_id p + 1 < bd_end_id q"
    | (move) "cb > 0" "dbp_pos p \<noteq> db_size b"
    by linarith
  then show ?case
  proof cases
    case stop
    then show ?thesis
      using b "1.prems" unf by (auto simp: dbp_leq_def dbp_equals_def)
  next
    case last
    have "data_from q p = []"
      using last b "1.prems" by (simp add: data_from_block_end bd_data_from_end)
    then show ?thesis
      using last b "1.prems" unf by (auto simp: dbp_leq_def dbp_equals_def)
  next
    case hop
    let ?p = "dbp_at (dbp_block_id p + 1) 0"
    have ok: "dbp_ok q ?p"
      using hop "1.prems" dbp_ok_range[OF "1.prems"(2)] by (intro dbp_ok_at_0) auto
    have same: "data_from q ?p = data_from q p"
      using hop b "1.prems" by (simp add: data_from_block_end)
    obtain p' where "dbp_Advance_loop q ?p cb delta = Some (p', delta + min cb (int (length (data_from q ?p))))"
        "dbp_ok q p'" "data_from q p' = drop (nat cb) (data_from q ?p)" "dbp_leq ?p p'"
      using "1.IH"(1)[OF b(1)] hop "1.prems" ok by force
    then show ?thesis
      using hop b unf same
      by (intro exI[of _ p']) (auto simp: dbp_leq_def dbp_less_def dbp_equals_def split: if_splits)
  next
    case move
    let ?n = "min (db_size b - dbp_pos p) cb"
    let ?p = "p\<lparr>dbp_pos := dbp_pos p + ?n\<rparr>"
    have n: "0 < ?n" "?n \<le> cb" "dbp_pos p + ?n \<le> db_size b" using move b by auto
    have ok: "dbp_ok q ?p" using b n by (auto simp: dbp_ok_def)
    have df: "data_from q ?p = drop (nat ?n) (data_from q p)"
      using b n by (intro data_from_forward) auto
    have len: "?n \<le> int (length (data_from q p))"
      using length_data_from_block[OF "1.prems"(1) b] n by linarith
    obtain p' where p': "dbp_Advance_loop q ?p (cb - ?n) (delta + ?n)
          = Some (p', delta + ?n + min (cb - ?n) (int (length (data_from q ?p))))"
        "dbp_ok q p'" "data_from q p' = drop (nat (cb - ?n)) (data_from q ?p)" "dbp_leq ?p p'"
      using "1.IH"(2)[OF b(1) _ move(2) refl] move "1.prems" ok n by auto
    have "dbp_Advance_loop q p cb delta = Some (p', delta + min cb (int (length (data_from q p))))"
      using unf b move p'(1) n len unfolding df by (simp add: Let_def of_nat_diff)
    moreover have "data_from q p' = drop (nat cb) (data_from q p)"
      unfolding p'(3) df using n by (simp add: take_drop_nat_add nat_add_distrib[symmetric])
    moreover have "dbp_leq p p'"
      using p'(4) n by (auto simp: dbp_leq_def dbp_less_def dbp_equals_def split: if_splits)
    ultimately show ?thesis using p'(2) by blast
  qed
qed

subsection \<open>Devance\<close>

text \<open>Moving back never leaves the queue; it stops at its first byte.\<close>

lemma dbp_Devance_loop_eq:
  assumes "bd_ok q" "dbp_ok q p" "0 \<le> cb"
  shows "\<exists>p' n. dbp_Devance_loop q p cb delta = Some (p', delta + n)
      \<and> dbp_ok q p' \<and> 0 \<le> n \<and> n \<le> cb \<and> data_from q p = drop (nat n) (data_from q p')
      \<and> (n < cb \<longrightarrow> data_from q p' = bd_data_from q (bd_begin_id q))"
  using assms
proof (induction q p cb delta rule: dbp_Devance_loop.induct)
  case (1 q p cb delta)
  obtain b where b: "dbp_block q p = Some b" "0 \<le> dbp_pos p" "dbp_pos p \<le> db_size b"
    using "1.prems"(2) by (rule dbp_okE)
  note unf = dbp_Devance_loop.simps[of q p cb delta]
  have r: "bd_begin_id q \<le> dbp_block_id p" "dbp_block_id p < bd_end_id q"
    using dbp_ok_range[OF "1.prems"(2)] by auto
  consider (stop) "\<not> (cb > 0 \<or> dbp_pos p = 0)"
    | (first) "dbp_pos p = 0" "dbp_block_id p = bd_begin_id q"
    | (hop) "dbp_pos p = 0" "bd_begin_id q < dbp_block_id p"
    | (move) "cb > 0" "dbp_pos p \<noteq> 0"
    using r by linarith
  then show ?case
  proof cases
    case stop
    then show ?thesis using "1.prems" unf by (intro exI[of _ p] exI[of _ 0]) auto
  next
    case first
    then show ?thesis
      using "1.prems" unf by (intro exI[of _ p] exI[of _ 0]) (auto simp: data_from_def)
  next
    case hop
    obtain b' where b': "bd_block q (dbp_block_id p - 1) = Some b'"
      using hop r bd_block_Some_iff[of q "dbp_block_id p - 1"] by auto
    let ?p = "dbp_at (dbp_block_id p - 1) (db_size b')"
    have ok: "dbp_ok q ?p"
      using b' bd_block_ok[OF "1.prems"(1) b'] by (simp add: dbp_ok_def)
    have same: "data_from q ?p = data_from q p"
      using data_from_block_end[OF "1.prems"(1), of ?p b'] b' hop(1) by (simp add: data_from_def)
    obtain p' n where p': "dbp_Devance_loop q ?p cb delta = Some (p', delta + n)"
        "dbp_ok q p'" "0 \<le> n" "n \<le> cb" "data_from q ?p = drop (nat n) (data_from q p')"
        "n < cb \<longrightarrow> data_from q p' = bd_data_from q (bd_begin_id q)"
      using "1.IH"(1)[OF _ hop(1) _ b'] hop "1.prems" ok by force
    have "dbp_Devance_loop q p cb delta = Some (p', delta + n)"
      using unf hop b' p'(1) by simp
    then show ?thesis using p' same by auto
  next
    case move
    let ?n = "min (dbp_pos p) cb"
    let ?p = "p\<lparr>dbp_pos := dbp_pos p - ?n\<rparr>"
    have n: "0 < ?n" "?n \<le> cb" "?n \<le> dbp_pos p" using move b by auto
    have ok: "dbp_ok q ?p" using b n by (auto simp: dbp_ok_def)
    have "nat (dbp_pos p - ?n) + nat ?n = nat (dbp_pos p)" using n by linarith
    then have df: "data_from q p = drop (nat ?n) (data_from q ?p)"
      by (simp add: data_from_def add.commute)
    obtain p' m where p': "dbp_Devance_loop q ?p (cb - ?n) (delta + ?n) = Some (p', delta + ?n + m)"
        "dbp_ok q p'" "0 \<le> m" "m \<le> cb - ?n" "data_from q ?p = drop (nat m) (data_from q p')"
        "m < cb - ?n \<longrightarrow> data_from q p' = bd_data_from q (bd_begin_id q)"
      using "1.IH"(2)[OF _ move(2) refl] move "1.prems" ok n by auto
    have "dbp_Devance_loop q p cb delta = Some (p', delta + (?n + m))"
      using unf move p'(1) by (simp add: Let_def add.assoc)
    moreover have "data_from q p = drop (nat (?n + m)) (data_from q p')"
      unfolding df p'(5) using n p'(3) by (simp add: nat_add_distrib add.commute)
    ultimately show ?thesis using p' n by (intro exI[of _ p'] exI[of _ "?n + m"]) auto
  qed
qed

subsection \<open>Reading\<close>

lemma dbp_next_nonempty_eq:
  assumes "bd_ok q" "bd_begin_id q \<le> i"
  shows "case dbp_next_nonempty q i of
      None \<Rightarrow> bd_data_from q i = []
    | Some j \<Rightarrow> i \<le> j \<and> j < bd_end_id q \<and> dbp_ok q (dbp_at j 0)
        \<and> bd_data_from q j = bd_data_from q i \<and> bd_data_from q i \<noteq> []
        \<and> (\<forall>b. bd_block q j = Some b \<longrightarrow> 0 < db_size b)"
  using assms
proof (induction q i rule: dbp_next_nonempty.induct)
  case (1 q i)
  note unf = dbp_next_nonempty.simps[of q i]
  show ?case
  proof (cases "i < bd_end_id q")
    case True
    with "1.prems" obtain b where b: "bd_block q i = Some b"
      by (auto elim: bd_block_exists)
    note okb = bd_block_ok[OF "1.prems"(1) b]
    show ?thesis
    proof (cases "db_size b = 0")
      case True
      then have "bd_data_from q i = bd_data_from q (i + 1)"
        using "1.prems" b by (simp add: bd_data_from_step db_data_def)
      moreover have "dbp_next_nonempty q i = dbp_next_nonempty q (i + 1)"
        using unf b True \<open>i < bd_end_id q\<close> by simp
      ultimately show ?thesis
        using "1.IH"[OF \<open>i < bd_end_id q\<close> b True] "1.prems" by (simp split: option.splits)
    next
      case False
      have "0 < db_size b" using False db_ok_sizes(1)[OF okb] by linarith
      moreover have "bd_data_from q i \<noteq> []"
        using False okb length_bd_data_from_step[OF "1.prems"(1) b] \<open>0 < db_size b\<close> by force
      moreover have "dbp_ok q (dbp_at i 0)"
        using True "1.prems" by (intro dbp_ok_at_0) auto
      ultimately show ?thesis using unf True False b by auto
    qed
  next
    case False
    then show ?thesis using unf "1.prems" by (simp add: bd_data_from_end)
  qed
qed

lemma dbp_AdvanceToNextBlock_None:
  assumes "bd_ok q" "dbp_ok q p" "dbp_block q p = Some b" "dbp_pos p = db_size b"
    "dbp_AdvanceToNextBlock q p = None"
  shows "data_from q p = []"
  using assms dbp_next_nonempty_eq[of q "dbp_block_id p + 1"] dbp_ok_range[OF assms(2)]
  by (auto simp: dbp_AdvanceToNextBlock_def data_from_block_end split: option.splits)

lemma dbp_AdvanceToNextBlock_Some:
  assumes "bd_ok q" "dbp_ok q p" "dbp_block q p = Some b" "dbp_pos p = db_size b"
    "dbp_AdvanceToNextBlock q p = Some p'"
  shows "dbp_ok q p'" and "data_from q p' = data_from q p" and "data_from q p \<noteq> []"
    and "dbp_block_id p < dbp_block_id p'" and "dbp_pos p' = 0"
    and "dbp_block q p' = Some b' \<Longrightarrow> 0 < db_size b'"
  using assms dbp_next_nonempty_eq[of q "dbp_block_id p + 1"] dbp_ok_range[OF assms(2)]
  by (auto simp: dbp_AdvanceToNextBlock_def data_from_block_end split: option.splits)

lemma dbp_leq_trans: "dbp_leq p r \<Longrightarrow> dbp_leq r m \<Longrightarrow> dbp_leq p m"
  by (auto simp: dbp_leq_def dbp_less_def dbp_equals_def split: if_splits)

lemma dbp_leq_refl [simp]: "dbp_leq p p"
  by (simp add: dbp_leq_def dbp_equals_def)

lemma dbp_leq_block: "dbp_block_id p < dbp_block_id m \<Longrightarrow> dbp_leq p m"
  by (simp add: dbp_leq_def dbp_less_def)

lemma dbp_leq_pos: "0 \<le> n \<Longrightarrow> dbp_leq p (p\<lparr>dbp_pos := dbp_pos p + n\<rparr>)"
  by (auto simp: dbp_leq_def dbp_less_def dbp_equals_def)

lemma dbp_ReadData_eq:
  assumes "bd_ok q" "dbp_ok q p"
  shows "\<exists>p'. dbp_ReadData q p len = Some (take (nat len) (data_from q p), p')
      \<and> dbp_ok q p' \<and> data_from q p' = drop (nat len) (data_from q p) \<and> dbp_leq p p'"
  using assms
proof (induction q p len rule: dbp_ReadData.induct)
  case (1 q p len)
  obtain b where b: "dbp_block q p = Some b" "0 \<le> dbp_pos p" "dbp_pos p \<le> db_size b"
    using "1.prems"(2) by (rule dbp_okE)
  note unf = dbp_ReadData.simps[of q p len]
  show ?case
  proof (cases "len > 0")
    case False
    then show ?thesis using unf "1.prems" by auto
  next
    case len: True
    show ?thesis
    proof (cases "dbp_pos p = db_size b")
      case atend: True
      show ?thesis
      proof (cases "dbp_AdvanceToNextBlock q p")
        case None
        then show ?thesis
          using unf len b atend "1.prems" dbp_AdvanceToNextBlock_None[OF "1.prems" b(1) atend] by auto
      next
        case (Some r)
        note adv = dbp_AdvanceToNextBlock_Some[OF "1.prems" b(1) atend Some]
        show ?thesis
          using "1.IH"(1)[OF len b(1) atend Some "1.prems"(1) adv(1)] unf len b atend Some adv(2)
            dbp_leq_trans[OF dbp_leq_block[OF adv(4)]]
          by auto
      qed
    next
      case inside: False
      let ?n = "min (db_size b - dbp_pos p) len"
      let ?p = "p\<lparr>dbp_pos := dbp_pos p + ?n\<rparr>"
      have n: "0 < ?n" "?n \<le> len" "dbp_pos p + ?n \<le> db_size b" using inside b len by auto
      have ok: "dbp_ok q ?p" using b n by (auto simp: dbp_ok_def)
      have df: "data_from q ?p = drop (nat ?n) (data_from q p)"
        using b n by (intro data_from_forward) auto
      have pk: "db_peek (dbp_pos p) ?n b = Some (take (nat ?n) (data_from q p))"
        using b n "1.prems" bd_block_ok[of q "dbp_block_id p" b]
        by (subst data_from_take_block[of q p b]) (auto simp: dbp_block_def intro!: db_peek_data)
      obtain p' where p': "dbp_ReadData q ?p (len - ?n)
            = Some (take (nat (len - ?n)) (data_from q ?p), p')"
          "dbp_ok q p'" "data_from q p' = drop (nat (len - ?n)) (data_from q ?p)" "dbp_leq ?p p'"
        using "1.IH"(2)[OF len b(1) inside refl _ pk "1.prems"(1) ok] n by auto
      have split: "nat len = nat ?n + nat (len - ?n)" using n by linarith
      have "dbp_ReadData q p len = Some (take (nat len) (data_from q p), p')"
        using unf len b inside n pk p'(1) unfolding df split take_add by (simp add: Let_def)
      moreover have "data_from q p' = drop (nat len) (data_from q p)"
        unfolding p'(3) df split by (simp add: add.commute)
      moreover have "dbp_leq p p'"
        using dbp_leq_trans[OF dbp_leq_pos p'(4)] n by simp
      ultimately show ?thesis using p'(2) by blast
    qed
  qed
qed

lemma dbp_ReadBlock_eq:
  assumes "bd_ok q" "dbp_ok q p"
  shows "(data_from q p = [] \<longrightarrow> dbp_ReadBlock q p len = Some (False, [], p))
    \<and> (data_from q p \<noteq> [] \<longrightarrow> (\<exists>bs p'. dbp_ReadBlock q p len = Some (True, bs, p')
        \<and> bs \<noteq> [] \<and> (0 < len \<longrightarrow> int (length bs) \<le> len) \<and> data_from q p = bs @ data_from q p'
        \<and> dbp_ok q p' \<and> dbp_leq p p'))"
proof -
  obtain b where b: "dbp_block q p = Some b" "0 \<le> dbp_pos p" "dbp_pos p \<le> db_size b"
    using assms(2) by (rule dbp_okE)
  define r where "r = (if dbp_pos p = db_size b then dbp_AdvanceToNextBlock q p else Some p)"
  show ?thesis
  proof (cases r)
    case None
    then have "dbp_pos p = db_size b" "dbp_AdvanceToNextBlock q p = None"
      by (auto simp: r_def split: if_splits)
    then have "data_from q p = []"
      using dbp_AdvanceToNextBlock_None[OF assms b(1)] by blast
    then show ?thesis
      using None b(1) by (simp add: dbp_ReadBlock_def r_def[symmetric])
  next
    case (Some p1)
    obtain b1 where b1: "dbp_block q p1 = Some b1" "0 \<le> dbp_pos p1" "dbp_pos p1 < db_size b1"
      and p1: "dbp_ok q p1" "data_from q p1 = data_from q p" "dbp_leq p p1"
    proof (cases "dbp_pos p = db_size b")
      case True
      with Some have "dbp_AdvanceToNextBlock q p = Some p1" by (simp add: r_def)
      note adv = dbp_AdvanceToNextBlock_Some[OF assms b(1) True this]
      from adv(1) obtain b1 where "dbp_block q p1 = Some b1" by (rule dbp_okE)
      with adv that[of b1] show ?thesis by (simp add: dbp_leq_block)
    next
      case False
      with Some b assms that[of b] show ?thesis by (simp add: r_def)
    qed
    define n where "n = (if len > 0 then min len (db_size b1 - dbp_pos p1) else db_size b1 - dbp_pos p1)"
    have n: "0 < n" "dbp_pos p1 + n \<le> db_size b1" "0 < len \<longrightarrow> n \<le> len"
      using b1 by (auto simp: n_def)
    have pk: "db_peek (dbp_pos p1) n b1 = Some (take (nat n) (data_from q p1))"
      using b1 n assms bd_block_ok[of q "dbp_block_id p1" b1]
      by (subst data_from_take_block[of q p1 b1]) (auto simp: dbp_block_def intro!: db_peek_data)
    have len: "n \<le> int (length (data_from q p1))"
      using length_data_from_block[OF assms(1) b1(1,2)] b1 n by linarith
    let ?p = "p1\<lparr>dbp_pos := dbp_pos p1 + n\<rparr>"
    have df: "data_from q ?p = drop (nat n) (data_from q p1)"
      using b1 n by (intro data_from_forward) auto
    have res: "dbp_ReadBlock q p len = Some (True, take (nat n) (data_from q p1), ?p)"
      using b(1) Some b1(1) pk
      by (simp add: dbp_ReadBlock_def r_def[symmetric] n_def[symmetric] Let_def)
    have ne: "take (nat n) (data_from q p1) \<noteq> []"
      using n len by auto
    moreover have "dbp_ok q ?p" using b1 n by (auto simp: dbp_ok_def)
    moreover have "dbp_leq p ?p"
      using dbp_leq_trans[OF p1(3) dbp_leq_pos] n by simp
    moreover have "int (length (take (nat n) (data_from q p1))) = n" using n len by simp
    moreover have "data_from q p = take (nat n) (data_from q p1) @ data_from q ?p"
      by (simp add: df p1(2))
    moreover have "data_from q p \<noteq> []" using ne p1(2) by auto
    ultimately show ?thesis using res n(3) by auto
  qed
qed

subsection \<open>Writing\<close>

lemma bd_put_block_simps [simp]:
  "bd_begin_id (bd_put_block q i b) = bd_begin_id q"
  "bd_end_id (bd_put_block q i b) = bd_end_id q"
  by (auto simp: bd_put_block_def bd_begin_id_def bd_end_id_def)

lemma bd_block_put:
  assumes "bd_ok q" "bd_begin_id q \<le> i"
  shows "bd_block (bd_put_block q i b) j =
    (if j = i \<and> i < bd_end_id q then Some b else bd_block q j)"
proof (cases "bd_begin_id q \<le> j \<and> j < bd_end_id q")
  case True
  note ok = bd_okD[OF assms(1)]
  have j: "nat (j - bd_correction q) < length (bd_vec q)"
    using True ok by (auto simp: bd_end_id_def bd_begin_id_def)
  have eq: "nat (i - bd_correction q) = nat (j - bd_correction q) \<longleftrightarrow> i = j"
    using True assms ok by (auto simp: bd_begin_id_def)
  have "bd_block (bd_put_block q i b) j
      = Some ((bd_vec q)[nat (i - bd_correction q) := b] ! nat (j - bd_correction q))"
    using True by (simp add: bd_block_def) (simp add: bd_put_block_def)
  then show ?thesis
    using True j eq by (auto simp: nth_list_update bd_block_def)
next
  case False
  then show ?thesis using assms(2) by (auto simp: bd_block_def)
qed

lemma bd_okI:
  assumes "0 \<le> bd_first q" "bd_first q \<le> int (length (bd_vec q))" "0 \<le> bd_correction q"
    and "\<And>i b. bd_block q i = Some b \<Longrightarrow> db_ok b"
  shows "bd_ok q"
proof -
  have "db_ok b" if "b \<in> set (bd_live q)" for b
  proof -
    from that obtain k where k: "k < length (bd_live q)" "b = bd_live q ! k"
      by (auto simp: in_set_conv_nth)
    then have "bd_block q (bd_begin_id q + int k) = Some b"
      using assms(1-3) by (auto simp: bd_block_def bd_live_def bd_begin_id_def bd_end_id_def nat_add_distrib)
    then show ?thesis by (rule assms(4))
  qed
  then show ?thesis using assms(1-3) by (auto simp: bd_ok_def)
qed

lemma bd_put_block_ok:
  assumes "bd_ok q" "db_ok b" "bd_begin_id q \<le> i" "i < bd_end_id q"
  shows "bd_ok (bd_put_block q i b)"
proof (rule bd_okI)
  fix j c assume "bd_block (bd_put_block q i b) j = Some c"
  then show "db_ok c"
    using assms bd_block_ok[OF assms(1), of j c] by (auto simp: bd_block_put split: if_splits)
qed (use assms in \<open>auto simp: bd_put_block_def bd_ok_def\<close>)

lemma bd_data_from_cong:
  assumes "bd_ok q" "bd_ok q'" "bd_begin_id q \<le> i" "bd_begin_id q' \<le> i"
    and "bd_end_id q' = bd_end_id q" "\<And>j. i \<le> j \<Longrightarrow> bd_block q' j = bd_block q j"
  shows "bd_data_from q' i = bd_data_from q i"
  using assms(3-6)
proof (induction "nat (bd_end_id q - i)" arbitrary: i)
  case 0
  then show ?case using assms(1,2) by (simp add: bd_data_from_end)
next
  case (Suc n)
  then obtain b where b: "bd_block q i = Some b"
    by (auto elim: bd_block_exists)
  have "bd_data_from q' (i + 1) = bd_data_from q (i + 1)"
    using Suc.prems Suc.hyps(2) by (intro Suc.hyps(1)) auto
  then show ?case
    using b Suc.prems(4)[of i] assms(1,2) by (simp add: bd_data_from_step)
qed

text \<open>Replacing the last block that holds data by one with more data appends to the queue.\<close>

lemma bd_data_from_put:
  assumes "bd_ok q" "bd_block q i = Some b" "db_ok b'" "db_data b' = db_data b @ xs"
    and "bd_data_from q (i + 1) = []" "bd_begin_id q \<le> j" "j \<le> i"
  shows "bd_data_from (bd_put_block q i b') j = bd_data_from q j @ xs"
  using assms(6,7)
proof (induction "nat (i - j)" arbitrary: j)
  case 0
  have r: "bd_begin_id q \<le> i" "i < bd_end_id q" using assms(2) by (auto simp: bd_block_def split: if_splits)
  have ok': "bd_ok (bd_put_block q i b')" using assms r by (intro bd_put_block_ok)
  have "bd_data_from (bd_put_block q i b') (i + 1) = bd_data_from q (i + 1)"
    using assms(1) ok' r by (intro bd_data_from_cong) (auto simp: bd_block_put)
  then show ?case
    using 0 assms r ok' by (simp add: bd_data_from_step bd_block_put)
next
  case (Suc n)
  have r: "bd_begin_id q \<le> i" "i < bd_end_id q" using assms(2) by (auto simp: bd_block_def split: if_splits)
  have ok': "bd_ok (bd_put_block q i b')" using assms r by (intro bd_put_block_ok)
  obtain c where c: "bd_block q j = Some c"
    using Suc.prems r by (auto elim: bd_block_exists[of q j])
  have "bd_data_from (bd_put_block q i b') (j + 1) = bd_data_from q (j + 1) @ xs"
    using Suc by (intro Suc.hyps(1)) auto
  moreover have "bd_block (bd_put_block q i b') j = Some c"
    using c Suc r assms(1) by (auto simp: bd_block_put)
  ultimately show ?case
    using c ok' assms(1) by (simp add: bd_data_from_step)
qed

text \<open>
  How a queue may grow under writes: same block numbers, no block shrinks, and a full block
  is left as it is.  The last part is what makes it safe that full blocks are shared
  between streams.
\<close>

definition bd_grows :: "block_dqueue \<Rightarrow> block_dqueue \<Rightarrow> bool" where
  "bd_grows q q' \<longleftrightarrow> bd_begin_id q' = bd_begin_id q \<and> bd_end_id q \<le> bd_end_id q'
     \<and> (\<forall>j b. bd_block q j = Some b \<longrightarrow>
          (\<exists>b'. bd_block q' j = Some b' \<and> db_size b \<le> db_size b' \<and> (db_full b \<longrightarrow> b' = b)))"

lemma bd_grows_refl [simp]: "bd_grows q q"
  by (simp add: bd_grows_def)

lemma bd_grows_trans: "bd_grows q q1 \<Longrightarrow> bd_grows q1 q2 \<Longrightarrow> bd_grows q q2"
  unfolding bd_grows_def by (elim conjE, intro conjI allI impI) (force, force, blast intro: order_trans)

lemma bd_grows_ok: "bd_grows q q' \<Longrightarrow> dbp_ok q p \<Longrightarrow> dbp_ok q' p"
  by (force simp: bd_grows_def dbp_block_def dbp_ok_def split: option.splits)

lemma bd_block_push:
  assumes "bd_ok q"
  shows "bd_block (bd_push_back b q) j = (if j = bd_end_id q then Some b else bd_block q j)"
proof -
  note ok = bd_okD[OF assms]
  have "nat (j - bd_correction q) < length (bd_vec q) \<longleftrightarrow> j < bd_end_id q" if "bd_begin_id q \<le> j"
    using that ok by (auto simp: bd_begin_id_def bd_end_id_def)
  moreover have "nat (bd_end_id q - bd_correction q) = length (bd_vec q)"
    by (simp add: bd_end_id_def)
  ultimately show ?thesis
    using ok(5) unfolding bd_block_def bd_push_back_simps(1,2)
    by (auto simp: bd_push_back_def nth_append)
qed

lemma bd_grows_push: "bd_ok q \<Longrightarrow> bd_grows q (bd_push_back b q)"
  by (auto simp: bd_grows_def bd_block_push) (auto simp: bd_block_def)

lemma bd_grows_put:
  assumes "bd_ok q" "bd_block q i = Some b" "db_size b \<le> db_size b'" "\<not> db_full b"
  shows "bd_grows q (bd_put_block q i b')"
proof -
  have "bd_begin_id q \<le> i" using assms(2) by (auto simp: bd_block_def split: if_splits)
  then show ?thesis using assms by (auto simp: bd_grows_def bd_block_put)
qed

text \<open>A write position: the end of its block, with only fresh blocks behind it.\<close>

definition dbp_wr_ok :: "block_dqueue \<Rightarrow> dbp \<Rightarrow> bool" where
  "dbp_wr_ok q p \<longleftrightarrow> (\<exists>b. dbp_block q p = Some b \<and> dbp_pos p = db_size b)
     \<and> (\<forall>j c. dbp_block_id p < j \<and> bd_block q j = Some c \<longrightarrow> db_size c = 0 \<and> db_writable c)"

lemma dbp_wr_okI:
  "dbp_block q p = Some b \<Longrightarrow> dbp_pos p = db_size b \<Longrightarrow>
   (\<And>j c. dbp_block_id p < j \<Longrightarrow> bd_block q j = Some c \<Longrightarrow> db_size c = 0 \<and> db_writable c) \<Longrightarrow>
   dbp_wr_ok q p"
  by (auto simp: dbp_wr_ok_def)

lemma dbp_wr_okD:
  "dbp_wr_ok q p \<Longrightarrow> dbp_block_id p < j \<Longrightarrow> bd_block q j = Some c \<Longrightarrow> db_size c = 0 \<and> db_writable c"
  unfolding dbp_wr_ok_def by blast

lemma dbp_wr_ok_pos: "dbp_wr_ok q p \<Longrightarrow> dbp_block q p = Some b \<Longrightarrow> dbp_pos p = db_size b"
  unfolding dbp_wr_ok_def by auto

lemma dbp_wr_ok_ok: "bd_ok q \<Longrightarrow> dbp_wr_ok q p \<Longrightarrow> dbp_ok q p"
  using bd_block_ok by (fastforce simp: dbp_wr_ok_def dbp_ok_def dbp_block_def)

lemma bd_data_from_fresh:
  assumes "bd_ok q" "bd_begin_id q \<le> i" "\<And>j c. i \<le> j \<Longrightarrow> bd_block q j = Some c \<Longrightarrow> db_size c = 0"
  shows "bd_data_from q i = []"
  using assms(2,3)
proof (induction "nat (bd_end_id q - i)" arbitrary: i)
  case 0
  then show ?case using assms(1) by (simp add: bd_data_from_end)
next
  case (Suc n)
  then obtain b where b: "bd_block q i = Some b" by (auto elim: bd_block_exists)
  have "bd_data_from q (i + 1) = []"
  proof (rule Suc.hyps(1))
    show "db_size c = 0" if "i + 1 \<le> j" "bd_block q j = Some c" for j c
      using that by (intro Suc.prems(2)[of j]) auto
  qed (use Suc.prems Suc.hyps(2) in auto)
  then show ?case using b Suc.prems(2)[of i b] assms(1) by (simp add: bd_data_from_step db_data_def)
qed

lemma dbp_wr_ok_data_from:
  assumes "bd_ok q" "dbp_wr_ok q p"
  shows "bd_data_from q (dbp_block_id p + 1) = []" and "data_from q p = []"
proof -
  have r: "bd_begin_id q \<le> dbp_block_id p"
    using dbp_ok_range[OF dbp_wr_ok_ok[OF assms]] by simp
  show 1: "bd_data_from q (dbp_block_id p + 1) = []"
  proof (rule bd_data_from_fresh[OF assms(1)])
    show "db_size c = 0" if "dbp_block_id p + 1 \<le> j" "bd_block q j = Some c" for j c
      using that assms(2) by (auto simp: dbp_wr_ok_def add1_zle_eq)
  qed (use r in simp)
  show "data_from q p = []"
    using assms 1 by (auto simp: dbp_wr_ok_def data_from_block_end)
qed

lemma db_poke_append:
  assumes "db_ok b" "db_writable b" "db_size b + int (length bs) \<le> db_buffer_size b"
  obtains b' where "db_poke (db_size b) bs b = Some b'"
    and "db_ok (db_set_size (db_size b' + int (length bs)) b')"
    and "db_data (db_set_size (db_size b' + int (length bs)) b') = db_data b @ bs"
    and "db_size b' = db_size b" and "db_buffer_size b' = db_buffer_size b" and "db_writable b'"
proof -
  let ?b = "b\<lparr>db_buffer := take (nat (db_size b)) (db_buffer b) @ bs
              @ drop (nat (db_size b) + length bs) (db_buffer b)\<rparr>"
  have 1: "db_poke (db_size b) bs b = Some ?b"
    using assms by (simp add: db_poke_def db_mutable_buffer_def)
  have len: "nat (db_size b) + length bs \<le> length (db_buffer b)"
    using assms(3) db_ok_sizes(1)[OF assms(1)] unfolding db_buffer_size_def by linarith
  have bs: "db_buffer_size ?b = db_buffer_size b"
    using len by (simp add: db_buffer_size_def)
  have 3: "db_data (db_set_size (db_size ?b + int (length bs)) ?b) = db_data b @ bs"
    using assms len by (simp add: db_data_def db_set_size_def nat_add_distrib)
  have 2: "db_ok (db_set_size (db_size ?b + int (length bs)) ?b)"
    using assms bs by (auto simp: db_ok_def db_set_size_def db_buffer_size_def)
  show ?thesis using that[OF 1 2 3] bs assms(2) by simp
qed

lemma dbp_wr_ok_step:
  assumes "bd_ok q" "dbp_wr_ok q p" "dbp_block_id p + 1 < bd_end_id q"
  obtains c where "bd_block q (dbp_block_id p + 1) = Some c" "db_size c = 0"
    "dbp_wr_ok q (dbp_at (dbp_block_id p + 1) 0)"
proof -
  have "bd_begin_id q \<le> dbp_block_id p"
    using dbp_ok_range[OF dbp_wr_ok_ok[OF assms(1,2)]] by simp
  then obtain c where c: "bd_block q (dbp_block_id p + 1) = Some c"
    using assms(3) bd_block_Some_iff[of q "dbp_block_id p + 1"] by auto
  moreover have "db_size c = 0" using dbp_wr_okD[OF assms(2) _ c] by simp
  moreover have "dbp_wr_ok q (dbp_at (dbp_block_id p + 1) 0)"
  proof (rule dbp_wr_okI[of _ _ c])
    show "db_size d = 0 \<and> db_writable d"
      if "dbp_block_id (dbp_at (dbp_block_id p + 1) 0) < j" "bd_block q j = Some d" for j d
      using that by (intro dbp_wr_okD[OF assms(2), of j]) auto
  qed (use c \<open>db_size c = 0\<close> in auto)
  ultimately show ?thesis by (rule that)
qed

lemma dbp_wr_ok_fresh_full:
  assumes "bd_ok q" "dbp_wr_ok q p" "dbp_block q p = Some b"
  shows "db_ok b" "dbp_pos p = db_size b" "db_full b \<or> db_writable b"
proof -
  show b: "db_ok b" using assms(1,3) unfolding dbp_block_def by (rule bd_block_ok)
  show "dbp_pos p = db_size b" using assms(2,3) by (rule dbp_wr_ok_pos)
  show "db_full b \<or> db_writable b" using b unfolding db_ok_def db_full_def by blast
qed

lemma dbp_WriteData_loop_eq:
  assumes "bd_ok q" "dbp_wr_ok q p"
  shows "\<exists>q' p' n. dbp_WriteData_loop q p buf cb = Some (q', p', cb + int n)
      \<and> n \<le> length buf \<and> bd_ok q' \<and> bd_end_id q' = bd_end_id q \<and> dbp_wr_ok q' p' \<and> dbp_leq p p'
      \<and> bd_grows q q'
      \<and> (\<forall>j. bd_begin_id q \<le> j \<longrightarrow> j \<le> dbp_block_id p \<longrightarrow>
            bd_data_from q' j = bd_data_from q j @ take n buf)
      \<and> (n < length buf \<longrightarrow> dbp_block_id p' + 1 = bd_end_id q
            \<and> (\<exists>b. dbp_block q' p' = Some b \<and> db_full b))
      \<and> (buf \<noteq> [] \<longrightarrow> dbp_block_id p + 1 < bd_end_id q \<longrightarrow>
            (\<exists>b. dbp_block q p = Some b \<and> db_full b) \<longrightarrow> dbp_block_id p < dbp_block_id p')"
  using assms
proof (induction q p buf cb rule: dbp_WriteData_loop.induct)
  case (1 q p buf cb)
  note unf = dbp_WriteData_loop.simps[of q p buf cb]
  obtain b where b: "dbp_block q p = Some b"
    using "1.prems"(2) by (auto simp: dbp_wr_ok_def)
  note bo = dbp_wr_ok_fresh_full[OF "1.prems" b]
  have r: "bd_begin_id q \<le> dbp_block_id p" "dbp_block_id p < bd_end_id q"
    using dbp_ok_range[OF dbp_wr_ok_ok[OF "1.prems"]] by auto
  consider (nothing) "buf = []"
    | (last) "buf \<noteq> []" "dbp_pos p = db_buffer_size b" "dbp_block_id p + 1 \<ge> bd_end_id q"
    | (hop) "buf \<noteq> []" "dbp_pos p = db_buffer_size b" "dbp_block_id p + 1 < bd_end_id q"
    | (move) "buf \<noteq> []" "dbp_pos p \<noteq> db_buffer_size b"
    by linarith
  then show ?case
  proof cases
    case nothing
    then show ?thesis using unf "1.prems" by (intro exI[of _ q] exI[of _ p] exI[of _ 0]) auto
  next
    case last
    then show ?thesis
      using unf "1.prems" b bo r
      by (intro exI[of _ q] exI[of _ p] exI[of _ 0]) (auto simp: db_full_def)
  next
    case hop
    let ?p = "dbp_at (dbp_block_id p + 1) 0"
    obtain c where c: "bd_block q (dbp_block_id p + 1) = Some c" "db_size c = 0" and w: "dbp_wr_ok q ?p"
      using dbp_wr_ok_step[OF "1.prems" hop(3)] by blast
    have step: "dbp_WriteData_loop q p buf cb = dbp_WriteData_loop q ?p buf cb"
      using unf b c hop by simp
    obtain q' p' n where res: "dbp_WriteData_loop q ?p buf cb = Some (q', p', cb + int n)"
        "n \<le> length buf" "bd_ok q'" "bd_end_id q' = bd_end_id q" "dbp_wr_ok q' p'" "dbp_leq ?p p'"
        "bd_grows q q'"
        "\<forall>j. bd_begin_id q \<le> j \<longrightarrow> j \<le> dbp_block_id p + 1 \<longrightarrow> bd_data_from q' j = bd_data_from q j @ take n buf"
        "n < length buf \<longrightarrow> dbp_block_id p' + 1 = bd_end_id q \<and> (\<exists>b. dbp_block q' p' = Some b \<and> db_full b)"
      using "1.IH"(1)[OF hop(1) b hop(2) _ c "1.prems"(1) w] hop(3) by auto
    have lt: "dbp_block_id p < dbp_block_id p'"
      using res(6) by (auto simp: dbp_leq_def dbp_less_def dbp_equals_def split: if_splits)
    show ?thesis
      using step res lt by (intro exI[of _ q'] exI[of _ p'] exI[of _ n]) (auto simp: dbp_leq_block)
  next
    case move
    let ?n = "min (db_buffer_size b - dbp_pos p) (int (length buf))"
    let ?xs = "take (nat ?n) buf"
    have n: "0 < ?n" "int (length ?xs) = ?n" "db_size b + ?n \<le> db_buffer_size b"
      using move bo(2) db_ok_sizes(2)[OF bo(1)] by (cases buf; linarith | simp)+
    have nf: "\<not> db_full b" using move bo by (simp add: db_full_def)
    have wr: "db_writable b" using bo nf by auto
    obtain b' where b': "db_poke (dbp_pos p) ?xs b = Some b'"
        "db_ok (db_set_size (db_size b' + ?n) b')"
        "db_data (db_set_size (db_size b' + ?n) b') = db_data b @ ?xs"
        "db_size b' = db_size b" "db_buffer_size b' = db_buffer_size b" "db_writable b'"
      using db_poke_append[OF bo(1) wr, of ?xs] n bo(2) by metis
    let ?b = "db_set_size (db_size b' + ?n) b'"
    let ?q = "bd_put_block q (dbp_block_id p) ?b"
    let ?p = "p\<lparr>dbp_pos := dbp_pos p + ?n\<rparr>"
    have okq: "bd_ok ?q" using "1.prems" b'(2) r by (intro bd_put_block_ok)
    have blk: "bd_block ?q j = (if j = dbp_block_id p then Some ?b else bd_block q j)" for j
      using "1.prems"(1) r by (simp add: bd_block_put)
    have w: "dbp_wr_ok ?q ?p"
    proof (rule dbp_wr_okI)
      show "dbp_block ?q ?p = Some ?b" by (simp add: dbp_block_def blk)
      show "dbp_pos ?p = db_size ?b" using b'(4) bo(2) by (simp add: db_set_size_def)
      show "db_size c = 0 \<and> db_writable c" if "dbp_block_id ?p < j" "bd_block ?q j = Some c" for j c
        using that blk[of j] by (intro dbp_wr_okD[OF "1.prems"(2), of j]) auto
    qed
    have dat: "bd_data_from ?q j = bd_data_from q j @ ?xs" if "bd_begin_id q \<le> j" "j \<le> dbp_block_id p" for j
      using "1.prems" b b' that dbp_wr_ok_data_from[OF "1.prems"]
      by (intro bd_data_from_put) (auto simp: dbp_block_def)
    have gr: "bd_grows q ?q"
      using "1.prems"(1) b nf b'(4) n(1) by (intro bd_grows_put) (auto simp: dbp_block_def db_set_size_def)
    have step: "dbp_WriteData_loop q p buf cb
        = dbp_WriteData_loop ?q ?p (drop (nat ?n) buf) (cb + ?n)"
      using unf b b'(1) move n(1) by (simp add: Let_def)
    obtain q' p' m where res: "dbp_WriteData_loop ?q ?p (drop (nat ?n) buf) (cb + ?n) = Some (q', p', cb + ?n + int m)"
        "m \<le> length (drop (nat ?n) buf)" "bd_ok q'" "bd_end_id q' = bd_end_id ?q" "dbp_wr_ok q' p'" "dbp_leq ?p p'"
        "bd_grows ?q q'"
        "\<forall>j. bd_begin_id ?q \<le> j \<longrightarrow> j \<le> dbp_block_id p \<longrightarrow>
           bd_data_from q' j = bd_data_from ?q j @ take m (drop (nat ?n) buf)"
        "m < length (drop (nat ?n) buf) \<longrightarrow> dbp_block_id p' + 1 = bd_end_id ?q
           \<and> (\<exists>b. dbp_block q' p' = Some b \<and> db_full b)"
      using "1.IH"(2)[OF move(1) b move(2) refl _ b'(1) okq w] n(1) by auto
    have all: "bd_data_from q' j = bd_data_from q j @ take (nat ?n + m) buf"
      if "bd_begin_id q \<le> j" "j \<le> dbp_block_id p" for j
      using res(8) that dat by (simp add: take_add)
    have "dbp_leq p p'" using dbp_leq_trans[OF dbp_leq_pos res(6)] n by simp
    moreover have "cb + ?n + int m = cb + int (nat ?n + m)" using n by simp
    moreover have "nat ?n + m \<le> length buf" using res(2) n by simp
    moreover have "nat ?n + m < length buf \<longrightarrow> m < length (drop (nat ?n) buf)"
      unfolding length_drop by linarith
    moreover have "\<not> (\<exists>c. dbp_block q p = Some c \<and> db_full c)" using b nf by simp
    ultimately show ?thesis
      unfolding step using res all bd_grows_trans[OF gr res(7)]
      by (intro exI[of _ q'] exI[of _ p'] exI[of _ "nat ?n + m"]) auto
  qed
qed

end
