(* ===== verification/MemoryStream.thy ===== *)
theory MemoryStream
  imports DataBlockPointer
begin

text \<open>
  \<^verbatim>\<open>whisperlib/common/io/buffer/memory_stream.h\<close> and
  \<^verbatim>\<open>memory_stream.cc\<close>: the stream of bytes every codec of the program reads from
  and writes to, kept as a queue of blocks with a read pointer, a write pointer and a stack
  of markers.  Each operation below is the source's, block by block.

  The meaning of a stream, its invariant and what every operation does to its content are
  in the theory \<^verbatim>\<open>StreamContent\<close>.
\<close>

section \<open>State\<close>

text \<open>
  \<open>ms_markers\<close> has the most recent marker first (the source's \<^verbatim>\<open>back()\<close>);
  its last element is \<^verbatim>\<open>front()\<close>, the oldest one.
\<close>

record memory_stream =
  ms_block_size :: int
  ms_blocks :: block_dqueue
  ms_read :: dbp
  ms_write :: dbp
  ms_scratch :: dbp
  ms_markers :: "(int \<times> dbp) list"
  ms_invalid_markers_size :: bool
  ms_size :: int

definition ms_new :: "int \<Rightarrow> memory_stream option" where
  "ms_new bsz = (if bsz > 0
     then Some \<lparr>ms_block_size = bsz, ms_blocks = bd_new, ms_read = dbp_at (- 1) 0,
       ms_write = dbp_at (- 1) 0, ms_scratch = dbp_at (- 1) 0, ms_markers = [],
       ms_invalid_markers_size = False, ms_size = 0\<rparr>
     else None)"

definition ms_IsEmpty :: "memory_stream \<Rightarrow> bool" where
  "ms_IsEmpty s \<longleftrightarrow> ms_size s \<le> 0"

definition ms_Size :: "memory_stream \<Rightarrow> int option" where
  "ms_Size s = (if ms_size s \<ge> 0 then Some (ms_size s) else None)"

definition ms_MarkerIsSet :: "memory_stream \<Rightarrow> bool" where
  "ms_MarkerIsSet s \<longleftrightarrow> ms_markers s \<noteq> []"

definition ms_Clear :: "memory_stream \<Rightarrow> memory_stream option" where
  "ms_Clear s = (if ms_MarkerIsSet s then None
     else Some (s\<lparr>ms_read := dbp_at (- 1) 0, ms_write := dbp_at (- 1) 0,
                  ms_blocks := bd_clear (ms_blocks s), ms_size := 0\<rparr>))"

definition ms_GetReadPointer :: "memory_stream \<Rightarrow> dbp" where
  "ms_GetReadPointer s =
     (if dbp_IsNull (ms_read s) \<and> \<not> dbp_IsNull (ms_write s)
      then dbp_at (bd_begin_id (ms_blocks s)) (dbp_pos (ms_read s))
      else ms_read s)"

definition ms_MaybeInitReadPointer :: "memory_stream \<Rightarrow> bool \<times> memory_stream" where
  "ms_MaybeInitReadPointer s =
     (if dbp_IsNull (ms_read s)
      then if dbp_IsNull (ms_write s) then (False, s)
           else (True, s\<lparr>ms_read := (ms_read s)\<lparr>dbp_block_id := bd_begin_id (ms_blocks s)\<rparr>\<rparr>)
      else (True, s))"

text \<open>The loop of \<^verbatim>\<open>MaybeDisposeBlocks\<close>; \<open>front\<close> is the block of the oldest marker.\<close>

function ms_dispose_loop :: "int \<Rightarrow> int option \<Rightarrow> block_dqueue \<Rightarrow> block_dqueue" where
  "ms_dispose_loop rd front q =
     (if bd_begin_id q < rd \<and> bd_begin_id q < bd_end_id q
         \<and> (case front of None \<Rightarrow> True | Some f \<Rightarrow> bd_begin_id q < f)
      then ms_dispose_loop rd front (bd_pop_front q)
      else q)"
  by pat_completeness auto
termination
  by (relation "measure (\<lambda>(rd, front, q). nat (bd_end_id q - bd_begin_id q))")
     (auto simp: bd_pop_front_def bd_begin_id_def bd_end_id_def)

declare ms_dispose_loop.simps [simp del]

definition ms_MaybeDisposeBlocks :: "memory_stream \<Rightarrow> memory_stream" where
  "ms_MaybeDisposeBlocks s =
     (let front = (if ms_markers s = [] then None
                   else Some (dbp_block_id (snd (last (ms_markers s)))))
      in s\<lparr>ms_blocks := bd_correct_buffer
             (ms_dispose_loop (dbp_block_id (ms_read s)) front (ms_blocks s))\<rparr>)"

section \<open>Markers\<close>

definition ms_MarkerSet :: "memory_stream \<Rightarrow> memory_stream" where
  "ms_MarkerSet s =
     (let s1 = (if ms_markers s = [] then s\<lparr>ms_invalid_markers_size := False\<rparr> else s)
      in s1\<lparr>ms_markers := (ms_size s, ms_read s) # ms_markers s\<rparr>)"

definition ms_MarkerRestore :: "memory_stream \<Rightarrow> memory_stream option" where
  "ms_MarkerRestore s =
     (case ms_markers s of
        [] \<Rightarrow> None
      | (sz, p) # rest \<Rightarrow>
          let s1 = s\<lparr>ms_read := p\<rparr> in
          do {
            s2 \<leftarrow> (if ms_invalid_markers_size s1
                   then (let s' = snd (ms_MaybeInitReadPointer s1)
                         in do { d \<leftarrow> dbp_Distance (ms_blocks s') (ms_read s') (ms_write s');
                                 Some (s'\<lparr>ms_size := d\<rparr>) })
                   else Some (s1\<lparr>ms_size := sz\<rparr>));
            Some (s2\<lparr>ms_markers := rest\<rparr>) })"

definition ms_MarkerClear :: "memory_stream \<Rightarrow> memory_stream option" where
  "ms_MarkerClear s =
     (case ms_markers s of
        [] \<Rightarrow> None
      | _ # rest \<Rightarrow> Some (ms_MaybeDisposeBlocks (s\<lparr>ms_markers := rest\<rparr>)))"

section \<open>Reading\<close>

definition ms_ReadInternal :: "memory_stream \<Rightarrow> int \<Rightarrow> bool \<Rightarrow> (bytes \<times> memory_stream) option" where
  "ms_ReadInternal s len dispose =
     (if len = 0 then Some ([], s)
      else let (ok, s1) = ms_MaybeInitReadPointer s in
        if \<not> ok then Some ([], s1)
        else do {
          (bs, p) \<leftarrow> dbp_ReadData (ms_blocks s1) (ms_read s1) len;
          let s2 = s1\<lparr>ms_read := p, ms_size := ms_size s1 - int (length bs)\<rparr>;
          Some (bs, if dispose then ms_MaybeDisposeBlocks s2 else s2) })"

definition ms_Read :: "memory_stream \<Rightarrow> int \<Rightarrow> (bytes \<times> memory_stream) option" where
  "ms_Read s len = ms_ReadInternal s len True"

definition ms_ReadString :: "memory_stream \<Rightarrow> int \<Rightarrow> (bytes \<times> memory_stream) option" where
  "ms_ReadString s len =
     (let n = if len = - 1 then ms_size s else len in
      if n < 0 then None  \<comment> \<open>\<open>tmp.reserve\<close> throws\<close>
      else ms_Read s n)"

definition ms_Peek :: "memory_stream \<Rightarrow> int \<Rightarrow> bytes option" where
  "ms_Peek s len =
     (let p = ms_GetReadPointer s in
      if dbp_IsNull p then Some []
      else map_option fst (dbp_ReadData (ms_blocks s) p len))"

definition ms_PeekString :: "memory_stream \<Rightarrow> int \<Rightarrow> (bytes \<times> memory_stream) option" where
  "ms_PeekString s len = do {
     (bs, s1) \<leftarrow> ms_ReadString (ms_MarkerSet s) len;
     s2 \<leftarrow> ms_MarkerRestore s1;
     Some (bs, s2) }"

definition ms_Skip :: "memory_stream \<Rightarrow> int \<Rightarrow> (int \<times> memory_stream) option" where
  "ms_Skip s len =
     (if len < 0 then None
      else let (ok, s1) = ms_MaybeInitReadPointer s in
        if \<not> ok then Some (0, s1)
        else do {
          (p, cb) \<leftarrow> dbp_Advance (ms_blocks s1) (ms_read s1) len;
          Some (cb, ms_MaybeDisposeBlocks (s1\<lparr>ms_read := p, ms_size := ms_size s1 - cb\<rparr>)) })"

definition ms_ReadNext :: "memory_stream \<Rightarrow> int \<Rightarrow> (bool \<times> bytes \<times> memory_stream) option" where
  "ms_ReadNext s len =
     (if \<not> dbp_IsNull (ms_scratch s) then None
      else let (ok, s1) = ms_MaybeInitReadPointer s in
        if \<not> ok then Some (False, [], s1)
        else let s2 = ms_MaybeDisposeBlocks s1 in
          do {
            (found, bs, p) \<leftarrow> dbp_ReadBlock (ms_blocks s2) (ms_read s2) len;
            (if found
             then Some (True, bs, s2\<lparr>ms_read := p, ms_size := ms_size s2 - int (length bs)\<rparr>)
             else Some (False, [], s2\<lparr>ms_read := p\<rparr>)) })"

text \<open>The gathering loop of \<^verbatim>\<open>ReadForWritev\<close>: whole pieces of blocks until \<open>max_size\<close>.\<close>

partial_function (option) ms_gather ::
    "memory_stream \<Rightarrow> int \<Rightarrow> bytes list \<Rightarrow> (bytes list \<times> memory_stream) option" where
  "ms_gather s max_size acc =
     (if max_size > 0 then
        Option.bind (dbp_ReadBlock (ms_blocks s) (ms_read s) 0) (\<lambda>(found, bs, p).
          if found
          then ms_gather (s\<lparr>ms_read := p, ms_size := ms_size s - int (length bs)\<rparr>)
                 (max_size - int (length bs)) (acc @ [bs])
          else Some (acc, s\<lparr>ms_read := p\<rparr>))
      else Some (acc, s))"

definition ms_ReadForWritev :: "memory_stream \<Rightarrow> int \<Rightarrow> (bytes list \<times> memory_stream) option" where
  "ms_ReadForWritev s max_size =
     (if \<not> dbp_IsNull (ms_scratch s) then None
      else let (ok, s1) = ms_MaybeInitReadPointer s in
        if \<not> ok then Some ([], s1)
        else ms_gather (ms_MaybeDisposeBlocks s1) max_size [])"

section \<open>Writing\<close>

definition ms_AppendBlock :: "memory_stream \<Rightarrow> data_block \<Rightarrow> memory_stream" where
  "ms_AppendBlock s b =
     (let q = bd_push_back b (ms_blocks s)
      in s\<lparr>ms_blocks := q, ms_invalid_markers_size := True,
           ms_write := dbp_at (bd_end_id q - 1) (db_size b),
           ms_size := ms_size s + db_size b\<rparr>)"

definition ms_AppendRaw :: "memory_stream \<Rightarrow> bytes \<Rightarrow> memory_stream option" where
  "ms_AppendRaw s buf = do { b \<leftarrow> db_wrap buf; Some (ms_AppendBlock s b) }"

text \<open>The loop of \<^verbatim>\<open>Write\<close>: fill the current block, then add a block and go on.\<close>

partial_function (option) ms_Write_loop :: "memory_stream \<Rightarrow> bytes \<Rightarrow> memory_stream option" where
  "ms_Write_loop s buf =
     (if buf = [] then Some s
      else Option.bind (dbp_WriteData (ms_blocks s) (ms_write s) buf) (\<lambda>(q, p, delta).
        let s1 = s\<lparr>ms_blocks := q, ms_write := p, ms_size := ms_size s + delta\<rparr>;
            rest = drop (nat delta) buf
        in if rest = [] then Some s1
           else Option.bind (db_new (max (int (length rest)) (ms_block_size s))) (\<lambda>b.
                  ms_Write_loop (s1\<lparr>ms_blocks := bd_push_back b q\<rparr>) rest)))"

definition ms_Write :: "memory_stream \<Rightarrow> bytes \<Rightarrow> (int \<times> memory_stream) option" where
  "ms_Write s buf =
     (let s0 = s\<lparr>ms_invalid_markers_size := True\<rparr> in
      do {
        s1 \<leftarrow> (if dbp_IsNull (ms_write s0)
               then do {
                 b \<leftarrow> db_new (max (int (length buf)) (ms_block_size s0));
                 let q = bd_push_back b (ms_blocks s0);
                 Some (s0\<lparr>ms_blocks := q, ms_write := dbp_at (bd_begin_id q) 0\<rparr>) }
               else Some s0);
        s2 \<leftarrow> ms_Write_loop s1 buf;
        Some (int (length buf), s2) })"

definition ms_AppendNewBlock ::
    "memory_stream \<Rightarrow> data_block \<Rightarrow> int \<Rightarrow> int \<Rightarrow> memory_stream option" where
  "ms_AppendNewBlock s b pos_begin pos_end =
     (if pos_end - pos_begin > 0
      then do {
        bs \<leftarrow> db_peek pos_begin (pos_end - pos_begin) b;
        (_, s') \<leftarrow> ms_Write s bs;
        Some s' }
      else Some s)"

text \<open>
  The private \<^verbatim>\<open>AppendStreamNonDestructive(begin, end)\<close>, compiled with
  \<^verbatim>\<open>__APPEND_WITH_BLOCK_REUSE__\<close>: whole full blocks are shared, the rest is copied.
  \<open>src\<close> is the queue of the stream appended from.
\<close>

function ms_append_range ::
    "memory_stream \<Rightarrow> block_dqueue \<Rightarrow> dbp \<Rightarrow> dbp \<Rightarrow> memory_stream option" where
  "ms_append_range s src b e =
     (if dbp_block_id b \<le> dbp_block_id e then
        do {
          blk \<leftarrow> dbp_block src b;
          let pos_begin = dbp_pos b;
          let pos_end = (if dbp_block_id b = dbp_block_id e then dbp_pos e else db_size blk);
          s' \<leftarrow> (if pos_begin < pos_end then
                   if pos_begin = 0 \<and> pos_end = db_buffer_size blk
                   then Some (ms_AppendBlock s blk)
                   else ms_AppendNewBlock s blk pos_begin pos_end
                 else Some s);
          ms_append_range s' src (dbp_at (dbp_block_id b + 1) 0) e }
      else Some s)"
  by pat_completeness auto
termination
  by (relation "measure (\<lambda>(s, src, b, e). nat (dbp_block_id e + 1 - dbp_block_id b))")
     auto

declare ms_append_range.simps [simp del]

definition ms_AppendStreamNonDestructive_range ::
    "memory_stream \<Rightarrow> block_dqueue \<Rightarrow> dbp \<Rightarrow> dbp \<Rightarrow> memory_stream option" where
  "ms_AppendStreamNonDestructive_range s src b e =
     do {
       s1 \<leftarrow> (if dbp_less b e then ms_append_range s src b e else Some s);
       w \<leftarrow> dbp_SkipToCurrentBlockEnd (ms_blocks s1) (ms_write s1);
       Some (s1\<lparr>ms_write := w\<rparr>) }"

definition ms_AppendStreamNonDestructive ::
    "memory_stream \<Rightarrow> memory_stream \<Rightarrow> int \<Rightarrow> int \<Rightarrow> memory_stream option" where
  "ms_AppendStreamNonDestructive s buffer offset n =
     (let b0 = ms_GetReadPointer buffer in
      if dbp_IsNull b0 then Some s
      else do {
        (b, _) \<leftarrow> dbp_Advance (ms_blocks buffer) b0 offset;
        e \<leftarrow> (if n \<ge> 0
              then do {
                total \<leftarrow> ms_Size buffer;
                (e, _) \<leftarrow> dbp_Advance (ms_blocks buffer) b (min n total);
                Some e }
              else Some (ms_write buffer));
        (if \<not> ms_IsEmpty buffer
         then ms_AppendStreamNonDestructive_range s (ms_blocks buffer) b e
         else Some s) })"

definition ms_AppendStream ::
    "memory_stream \<Rightarrow> memory_stream \<Rightarrow> int \<Rightarrow> (memory_stream \<times> memory_stream) option" where
  "ms_AppendStream s buffer n = do {
     s' \<leftarrow> ms_AppendStreamNonDestructive s buffer 0 n;
     total \<leftarrow> ms_Size buffer;
     (_, buffer') \<leftarrow> ms_Skip buffer (if n \<ge> 0 \<and> n < total then n else total);
     Some (s', buffer') }"

subsection \<open>Scratch space\<close>

text \<open>
  \<^verbatim>\<open>GetScratchSpace\<close> hands out the rest of the current block; the caller then writes
  into that memory (\<open>ms_fill_scratch\<close>) and confirms how much it used.
\<close>

definition ms_GetScratchSpace :: "memory_stream \<Rightarrow> (int \<times> memory_stream) option" where
  "ms_GetScratchSpace s =
     (if \<not> dbp_IsNull (ms_scratch s) then None
      else do {
        avail \<leftarrow> dbp_AvailableForWrite (ms_blocks s) (ms_write s);
        s1 \<leftarrow> (if dbp_IsNull (ms_write s) \<or> avail = 0
               then do {
                 b \<leftarrow> db_new (ms_block_size s);
                 let q = bd_push_back b (ms_blocks s);
                 Some (s\<lparr>ms_blocks := q, ms_write := dbp_at (bd_end_id q - 1) 0\<rparr>) }
               else Some s);
        let sc = ms_write s1;
        (q, w, n) \<leftarrow> dbp_AdvanceToCurrentBlockEnd (ms_blocks s1) (ms_write s1);
        Some (n, s1\<lparr>ms_invalid_markers_size := True, ms_blocks := q, ms_write := w,
                    ms_scratch := sc\<rparr>) })"

definition ms_fill_scratch :: "memory_stream \<Rightarrow> bytes \<Rightarrow> memory_stream option" where
  "ms_fill_scratch s bs = do {
     b \<leftarrow> dbp_block (ms_blocks s) (ms_scratch s);
     b' \<leftarrow> db_poke (dbp_pos (ms_scratch s)) bs b;
     Some (s\<lparr>ms_blocks := bd_put_block (ms_blocks s) (dbp_block_id (ms_scratch s)) b'\<rparr>) }"

definition ms_ConfirmScratch :: "memory_stream \<Rightarrow> int \<Rightarrow> memory_stream option" where
  "ms_ConfirmScratch s n =
     (if dbp_IsNull (ms_scratch s) then None
      else do {
        (w, _) \<leftarrow> dbp_Advance (ms_blocks s) (ms_scratch s) n;
        q \<leftarrow> dbp_MarkCurrentBlockEndAtPointer (ms_blocks s) w;
        Some (s\<lparr>ms_invalid_markers_size := True, ms_blocks := q, ms_write := w,
                ms_scratch := dbp_Clear, ms_size := ms_size s + n\<rparr>) })"

section \<open>Comparing\<close>

text \<open>The loop of \<^verbatim>\<open>Equals\<close>: both streams are read 128 bytes at a time.\<close>

partial_function (option) ms_Equals_loop ::
    "memory_stream \<Rightarrow> memory_stream \<Rightarrow> (bool \<times> memory_stream \<times> memory_stream) option" where
  "ms_Equals_loop a b =
     Option.bind (ms_Read a 128) (\<lambda>(abs, a').
       if \<not> (length abs = 128 \<or> ms_IsEmpty a') then None
       else Option.bind (ms_Read b 128) (\<lambda>(bbs, b').
         if \<not> (length bbs = 128 \<or> ms_IsEmpty b') then None
         else if length abs \<noteq> length bbs \<or> abs \<noteq> bbs then Some (False, a', b')
         else if length abs = 0 then Some (True, a', b')
         else ms_Equals_loop a' b'))"

definition ms_Equals ::
    "memory_stream \<Rightarrow> memory_stream \<Rightarrow> (bool \<times> memory_stream \<times> memory_stream) option" where
  "ms_Equals a b = do {
     n \<leftarrow> ms_Size a;
     m \<leftarrow> ms_Size b;
     (if n \<noteq> m then Some (False, a, b)
      else do {
        (r, a', b') \<leftarrow> ms_Equals_loop (ms_MarkerSet a) (ms_MarkerSet b);
        a'' \<leftarrow> ms_MarkerRestore a';
        b'' \<leftarrow> ms_MarkerRestore b';
        Some (r, a'', b'') }) }"

end
