(* ===== verification/StreamContent.thy ===== *)
theory StreamContent
  imports MemoryStream
begin

text \<open>
  What a memory stream means: \<open>ms_content\<close> is the sequence of unread bytes, \<open>ms_marks\<close>
  what a restore of each marker would make of it, most recent first, and \<open>ms_inv\<close> the
  invariant.  Every operation of the stream is shown to succeed on a stream that satisfies
  the invariant, to keep it, and to be a simple list operation on content and marks.
\<close>

section \<open>Meaning and invariant\<close>

definition ptr_ok :: "block_dqueue \<Rightarrow> dbp \<Rightarrow> bool" where
  "ptr_ok q p \<longleftrightarrow> p = dbp_at (- 1) 0 \<or> dbp_ok q p"

definition ptr_data :: "block_dqueue \<Rightarrow> dbp \<Rightarrow> bytes" where
  "ptr_data q p = (if dbp_IsNull p then bd_data_from q (bd_begin_id q) else data_from q p)"

definition ms_content :: "memory_stream \<Rightarrow> bytes" where
  "ms_content s = ptr_data (ms_blocks s) (ms_read s)"

definition ms_marks :: "memory_stream \<Rightarrow> bytes list" where
  "ms_marks s = map (\<lambda>(n, p). ptr_data (ms_blocks s) p) (ms_markers s)"

definition wr_ok :: "block_dqueue \<Rightarrow> dbp \<Rightarrow> bool" where
  "wr_ok q p \<longleftrightarrow>
     (if dbp_IsNull p then bd_begin_id q = bd_end_id q \<and> dbp_pos p = 0
      else dbp_block_id p + 1 = bd_end_id q \<and> dbp_wr_ok q p)"

definition ms_inv :: "memory_stream \<Rightarrow> bool" where
  "ms_inv s \<longleftrightarrow> ms_block_size s > 0 \<and> bd_ok (ms_blocks s)
     \<and> dbp_IsNull (ms_scratch s)
     \<and> wr_ok (ms_blocks s) (ms_write s)
     \<and> (\<forall>p \<in> set (ms_read s # map snd (ms_markers s)). ptr_ok (ms_blocks s) p)
     \<and> sorted_wrt (\<lambda>p p'. dbp_leq p' p) (ms_read s # map snd (ms_markers s))
     \<and> ms_size s = int (length (ms_content s))
     \<and> (\<not> ms_invalid_markers_size s \<longrightarrow>
          (\<forall>(n, p) \<in> set (ms_markers s). n = int (length (ptr_data (ms_blocks s) p))))"

lemma ms_invD:
  assumes "ms_inv s"
  shows "ms_block_size s > 0" "bd_ok (ms_blocks s)" "dbp_IsNull (ms_scratch s)"
    "wr_ok (ms_blocks s) (ms_write s)" "ptr_ok (ms_blocks s) (ms_read s)"
    "ms_size s = int (length (ms_content s))"
    "sorted_wrt (\<lambda>p p'. dbp_leq p' p) (ms_read s # map snd (ms_markers s))"
  using assms by (auto simp: ms_inv_def)

lemma ms_inv_marker: "ms_inv s \<Longrightarrow> (n, p) \<in> set (ms_markers s) \<Longrightarrow>
    ptr_ok (ms_blocks s) p \<and> dbp_leq p (ms_read s)"
  by (force simp: ms_inv_def)

lemma dbp_ok_not_null: "bd_ok q \<Longrightarrow> dbp_ok q p \<Longrightarrow> \<not> dbp_IsNull p"
  using dbp_ok_range[of q p] bd_okD(4)[of q] by (auto simp: dbp_IsNull_def)

lemma dbp_IsNull_at [simp]: "dbp_IsNull (dbp_at (- 1) n)"
  by (simp add: dbp_IsNull_def)

lemma ptr_ok_null: "bd_ok q \<Longrightarrow> ptr_ok q p \<Longrightarrow> dbp_IsNull p \<longleftrightarrow> p = dbp_at (- 1) 0"
  by (auto simp: ptr_ok_def dest: dbp_ok_not_null)

lemma ptr_ok_not_null: "ptr_ok q p \<Longrightarrow> \<not> dbp_IsNull p \<Longrightarrow> dbp_ok q p"
  by (auto simp: ptr_ok_def)

lemma ptr_ok_at [simp]: "ptr_ok q (dbp_at (- 1) 0)"
  by (simp add: ptr_ok_def)

lemma ptr_data_ok: "bd_ok q \<Longrightarrow> dbp_ok q p \<Longrightarrow> ptr_data q p = data_from q p"
  by (auto simp: ptr_data_def dest: dbp_ok_not_null)

lemma wr_ok_null_ptr:
  assumes "wr_ok q w" "dbp_IsNull w" "ptr_ok q p"
  shows "p = dbp_at (- 1) 0"
  using assms dbp_ok_range[of q p] by (auto simp: wr_ok_def ptr_ok_def)

lemma wr_ok_null_content:
  "bd_ok q \<Longrightarrow> wr_ok q w \<Longrightarrow> dbp_IsNull w \<Longrightarrow> ptr_ok q p \<Longrightarrow> ptr_data q p = []"
  using wr_ok_null_ptr[of q w p] by (simp add: ptr_data_def wr_ok_def bd_data_from_end)

lemma dbp_leq_wr_ok:
  assumes "bd_ok q" "dbp_ok q p" "dbp_wr_ok q w" "dbp_block_id w + 1 = bd_end_id q"
  shows "dbp_leq p w"
proof (cases "dbp_block_id p = dbp_block_id w")
  case True
  then have "dbp_block q p = dbp_block q w" by (simp add: dbp_block_def)
  then have "dbp_pos p \<le> dbp_pos w"
    using assms(2,3) by (auto elim!: dbp_okE simp: dbp_wr_ok_def)
  with True show ?thesis by (auto simp: dbp_leq_def dbp_less_def dbp_equals_def)
next
  case False
  then show ?thesis using assms(4) dbp_ok_range[OF assms(2)] by (intro dbp_leq_block) linarith
qed

lemma dbp_leq_null: "bd_ok q \<Longrightarrow> ptr_ok q p \<Longrightarrow> dbp_leq (dbp_at (- 1) 0) p"
  using dbp_ok_range[of q p] bd_okD(4)[of q]
  by (auto simp: ptr_ok_def dbp_leq_block)

lemma dbp_leq_null_iff: "bd_ok q \<Longrightarrow> ptr_ok q p \<Longrightarrow> dbp_leq p (dbp_at (- 1) 0) \<longleftrightarrow> p = dbp_at (- 1) 0"
  using dbp_ok_range[of q p] bd_okD(4)[of q]
  by (auto simp: ptr_ok_def dbp_leq_def dbp_less_def dbp_equals_def split: if_splits)

section \<open>Moving the read pointer\<close>

text \<open>A stream whose read pointer moved forward by \<open>n\<close> bytes.\<close>

lemma ms_inv_forward:
  assumes "ms_inv s" "dbp_ok (ms_blocks s) (ms_read s)" "dbp_ok (ms_blocks s) p'"
    and "data_from (ms_blocks s) p' = drop n (ms_content s)" "dbp_leq (ms_read s) p'"
    and "n \<le> length (ms_content s)"
  shows "ms_inv (s\<lparr>ms_read := p', ms_size := ms_size s - int n\<rparr>)"
    and "ms_content (s\<lparr>ms_read := p', ms_size := ms_size s - int n\<rparr>) = drop n (ms_content s)"
    and "ms_marks (s\<lparr>ms_read := p', ms_size := ms_size s - int n\<rparr>) = ms_marks s"
proof -
  note inv = ms_invD[OF assms(1)]
  let ?s = "s\<lparr>ms_read := p', ms_size := ms_size s - int n\<rparr>"
  show c: "ms_content ?s = drop n (ms_content s)"
    using assms(3,4) inv(2) by (simp add: ms_content_def ptr_data_ok)
  show "ms_marks ?s = ms_marks s" by (simp add: ms_marks_def)
  have "sorted_wrt (\<lambda>p p'. dbp_leq p' p) (p' # map snd (ms_markers s))"
    using inv(7) assms(5) by (auto intro: dbp_leq_trans)
  moreover have "ptr_ok (ms_blocks s) p'" using assms(3) by (simp add: ptr_ok_def)
  moreover have "ms_size ?s = int (length (ms_content ?s))"
    using inv(6) assms(6) c by simp
  ultimately show "ms_inv ?s"
    using assms(1) by (simp add: ms_inv_def)
qed

lemma dbp_ok_begin: "bd_ok q \<Longrightarrow> wr_ok q w \<Longrightarrow> \<not> dbp_IsNull w \<Longrightarrow> dbp_ok q (dbp_at (bd_begin_id q) 0)"
  using dbp_ok_range[OF dbp_wr_ok_ok[of q w]] by (intro dbp_ok_at_0) (auto simp: wr_ok_def)

text \<open>\<^verbatim>\<open>MaybeInitReadPointer\<close> only turns a null read pointer into the first byte.\<close>

lemma ms_MaybeInitReadPointer_eq:
  assumes "ms_inv s"
  obtains (empty) "ms_MaybeInitReadPointer s = (False, s)" "ms_content s = []" "dbp_IsNull (ms_read s)"
      "dbp_IsNull (ms_write s)"
    | (ready) s1 where "ms_MaybeInitReadPointer s = (True, s1)" "ms_inv s1"
      "ms_content s1 = ms_content s" "ms_marks s1 = ms_marks s" "dbp_ok (ms_blocks s1) (ms_read s1)"
      "s1 = s\<lparr>ms_read := ms_read s1\<rparr>" "\<not> dbp_IsNull (ms_write s)"
proof -
  note inv = ms_invD[OF assms]
  note d = ms_MaybeInitReadPointer_def[of s]
  consider (a) "dbp_IsNull (ms_read s)" "dbp_IsNull (ms_write s)"
    | (b) "dbp_IsNull (ms_read s)" "\<not> dbp_IsNull (ms_write s)"
    | (c) "\<not> dbp_IsNull (ms_read s)" by blast
  then show ?thesis
  proof cases
    case a
    have "ms_content s = []"
      using wr_ok_null_content[OF inv(2,4) a(2) inv(5)] by (simp add: ms_content_def)
    then show ?thesis using d a by (intro empty) auto
  next
    case b
    let ?p = "dbp_at (bd_begin_id (ms_blocks s)) 0"
    let ?s = "s\<lparr>ms_read := ?p\<rparr>"
    have r: "ms_read s = dbp_at (- 1) 0" using b inv by (simp add: ptr_ok_null)
    have ok: "dbp_ok (ms_blocks s) ?p" using dbp_ok_begin[OF inv(2,4) b(2)] .
    have c: "ms_content ?s = ms_content s"
      using ok inv(2) r by (simp add: ms_content_def ptr_data_ok) (simp add: ptr_data_def)
    have "ms_MaybeInitReadPointer s = (True, ?s)"
      using d b r by (simp add: dbp_at_def)
    moreover have "sorted_wrt (\<lambda>p p'. dbp_leq p' p) (?p # map snd (ms_markers s))"
      using inv(7) r dbp_leq_null[OF inv(2), of ?p] ok
      by (auto simp: ptr_ok_def intro: dbp_leq_trans)
    then have "ms_inv ?s"
      using assms c ok by (simp add: ms_inv_def ptr_ok_def)
    ultimately show ?thesis
      using c ok b(2) by (intro ready[of ?s]) (auto simp: ms_marks_def)
  next
    case c
    moreover have "dbp_ok (ms_blocks s) (ms_read s)" using c inv by (intro ptr_ok_not_null)
    moreover have "\<not> dbp_IsNull (ms_write s)"
      using wr_ok_null_ptr[OF inv(4) _ inv(5)] c by auto
    ultimately show ?thesis using d assms by (intro ready[of s]) auto
  qed
qed

section \<open>Disposing blocks\<close>

lemma ms_dispose_loop_eq:
  assumes "bd_ok q"
  shows "bd_ok (ms_dispose_loop rd front q)"
    and "bd_end_id (ms_dispose_loop rd front q) = bd_end_id q"
    and "bd_begin_id q \<le> bd_begin_id (ms_dispose_loop rd front q)"
    and "bd_begin_id (ms_dispose_loop rd front q) = bd_begin_id q
       \<or> bd_begin_id (ms_dispose_loop rd front q) \<le> rd"
    and "front = Some f \<Longrightarrow> bd_begin_id (ms_dispose_loop rd front q) = bd_begin_id q
       \<or> bd_begin_id (ms_dispose_loop rd front q) \<le> f"
    and "bd_begin_id (ms_dispose_loop rd front q) \<le> i \<Longrightarrow>
       bd_block (ms_dispose_loop rd front q) i = bd_block q i"
proof -
  have "bd_ok (ms_dispose_loop rd front q)
    \<and> bd_end_id (ms_dispose_loop rd front q) = bd_end_id q
    \<and> bd_begin_id q \<le> bd_begin_id (ms_dispose_loop rd front q)
    \<and> (bd_begin_id (ms_dispose_loop rd front q) = bd_begin_id q
       \<or> bd_begin_id (ms_dispose_loop rd front q) \<le> rd)
    \<and> (\<forall>f. front = Some f \<longrightarrow> bd_begin_id (ms_dispose_loop rd front q) = bd_begin_id q
       \<or> bd_begin_id (ms_dispose_loop rd front q) \<le> f)
    \<and> (\<forall>i. bd_begin_id (ms_dispose_loop rd front q) \<le> i \<longrightarrow>
       bd_block (ms_dispose_loop rd front q) i = bd_block q i)"
    using assms
  proof (induction rd front q rule: ms_dispose_loop.induct)
    case (1 rd front q)
    note unf = ms_dispose_loop.simps[of rd front q]
    show ?case
    proof (cases "bd_begin_id q < rd \<and> bd_begin_id q < bd_end_id q
         \<and> (case front of None \<Rightarrow> True | Some f \<Rightarrow> bd_begin_id q < f)")
      case True
      note pop = bd_pop_front_simps[OF "1.prems"]
      have step: "ms_dispose_loop rd front q = ms_dispose_loop rd front (bd_pop_front q)"
        using unf True by simp
      show ?thesis
        unfolding step
        using "1.IH"[OF True] pop True bd_pop_front_block[of q] by (auto split: option.splits)
    next
      case False
      have stay: "ms_dispose_loop rd front q = q"
        unfolding unf using False by (rule if_not_P)
      show ?thesis unfolding stay using "1.prems" by simp
    qed
  qed
  then show "bd_ok (ms_dispose_loop rd front q)"
    and "bd_end_id (ms_dispose_loop rd front q) = bd_end_id q"
    and "bd_begin_id q \<le> bd_begin_id (ms_dispose_loop rd front q)"
    and "bd_begin_id (ms_dispose_loop rd front q) = bd_begin_id q
       \<or> bd_begin_id (ms_dispose_loop rd front q) \<le> rd"
    and "front = Some f \<Longrightarrow> bd_begin_id (ms_dispose_loop rd front q) = bd_begin_id q
       \<or> bd_begin_id (ms_dispose_loop rd front q) \<le> f"
    and "bd_begin_id (ms_dispose_loop rd front q) \<le> i \<Longrightarrow>
       bd_block (ms_dispose_loop rd front q) i = bd_block q i"
    by blast+
qed

text \<open>Dropping blocks in front of every pointer is invisible.\<close>

lemma ptr_same:
  assumes "bd_ok q" "bd_ok q'" "bd_end_id q' = bd_end_id q" "bd_begin_id q \<le> bd_begin_id q'"
    and "\<And>i. bd_begin_id q' \<le> i \<Longrightarrow> bd_block q' i = bd_block q i"
    and "ptr_ok q p" "bd_begin_id q' = bd_begin_id q \<or> bd_begin_id q' \<le> dbp_block_id p"
  shows "ptr_ok q' p" and "ptr_data q' p = ptr_data q p"
proof -
  have null: "bd_begin_id q' = bd_begin_id q" if "dbp_IsNull p"
    using that assms(7) bd_okD(4)[OF assms(2)] by (auto simp: dbp_IsNull_def)
  have le: "bd_begin_id q' \<le> dbp_block_id p" if "\<not> dbp_IsNull p"
    using assms(7) dbp_ok_range(1)[OF ptr_ok_not_null[OF assms(6) that]] by auto
  have eq: "bd_data_from q' i = bd_data_from q i" if "bd_begin_id q' \<le> i" for i
    using assms that by (intro bd_data_from_cong) auto
  show "ptr_data q' p = ptr_data q p"
    using eq null le by (auto simp: ptr_data_def data_from_def)
  show "ptr_ok q' p"
  proof (cases "dbp_IsNull p")
    case True
    then show ?thesis using assms(6) ptr_ok_null[OF assms(1,6)] by simp
  next
    case False
    then have "dbp_block q' p = dbp_block q p"
      using assms(5)[OF le] by (simp add: dbp_block_def)
    then show ?thesis
      using ptr_ok_not_null[OF assms(6) False] by (simp add: ptr_ok_def dbp_ok_def)
  qed
qed

lemma wr_ok_same:
  assumes "bd_end_id q' = bd_end_id q" "bd_begin_id q \<le> bd_begin_id q'" "bd_ok q'"
    and "\<And>i. bd_begin_id q' \<le> i \<Longrightarrow> bd_block q' i = bd_block q i"
    and "wr_ok q w" "bd_begin_id q' = bd_begin_id q \<or> bd_begin_id q' \<le> dbp_block_id w"
    and "bd_ok q"
  shows "wr_ok q' w"
proof (cases "dbp_IsNull w")
  case True
  then show ?thesis
    using assms bd_okD(4)[OF assms(3)] by (auto simp: wr_ok_def dbp_IsNull_def)
next
  case False
  then have w: "dbp_block_id w + 1 = bd_end_id q" "dbp_wr_ok q w"
    using assms(5) by (auto simp: wr_ok_def)
  have le: "bd_begin_id q' \<le> dbp_block_id w"
    using assms(6) dbp_ok_range(1)[OF dbp_wr_ok_ok[OF assms(7) w(2)]] by auto
  then have "dbp_wr_ok q' w"
    using w(2) assms(4) by (auto simp: dbp_wr_ok_def dbp_block_def)
  then show ?thesis using w(1) assms(1) False by (simp add: wr_ok_def)
qed

lemma ms_MaybeDisposeBlocks_eq:
  assumes "ms_inv s"
  shows "ms_inv (ms_MaybeDisposeBlocks s)" "ms_content (ms_MaybeDisposeBlocks s) = ms_content s"
    "ms_marks (ms_MaybeDisposeBlocks s) = ms_marks s"
    "ms_read (ms_MaybeDisposeBlocks s) = ms_read s"
    "dbp_ok (ms_blocks s) (ms_read s) \<Longrightarrow> dbp_ok (ms_blocks (ms_MaybeDisposeBlocks s)) (ms_read s)"
proof -
  note inv = ms_invD[OF assms]
  define front where "front = (if ms_markers s = [] then None
      else Some (dbp_block_id (snd (last (ms_markers s)))))"
  define q where "q = bd_correct_buffer (ms_dispose_loop (dbp_block_id (ms_read s)) front (ms_blocks s))"
  have s': "ms_MaybeDisposeBlocks s = s\<lparr>ms_blocks := q\<rparr>"
    by (simp add: ms_MaybeDisposeBlocks_def q_def front_def)
  note loop = ms_dispose_loop_eq[OF inv(2)]
  have q: "bd_ok q" "bd_end_id q = bd_end_id (ms_blocks s)" "bd_begin_id (ms_blocks s) \<le> bd_begin_id q"
    "\<And>i. bd_begin_id q \<le> i \<Longrightarrow> bd_block q i = bd_block (ms_blocks s) i"
    using loop(1-3,6) by (auto simp: q_def bd_correct_buffer_block)
  have old: "bd_begin_id q = bd_begin_id (ms_blocks s)
       \<or> bd_begin_id q \<le> dbp_block_id p" if "p \<in> set (map snd (ms_markers s))" for p
  proof -
    from that have ne: "ms_markers s \<noteq> []" by auto
    have fr: "front = Some (dbp_block_id (snd (last (ms_markers s))))" using ne by (simp add: front_def)
    have "sorted_wrt (\<lambda>p p'. dbp_leq p' p) (map snd (ms_markers s))" using inv(7) by simp
    then have "dbp_leq (last (map snd (ms_markers s))) p"
      using sorted_wrt_last[OF _ that] by fastforce
    then have "dbp_block_id (snd (last (ms_markers s))) \<le> dbp_block_id p"
      using ne by (auto simp: last_map dbp_leq_def dbp_less_def dbp_equals_def split: if_splits)
    then show ?thesis
      using loop(5)[OF fr, of "dbp_block_id (ms_read s)"] loop(1) by (auto simp: q_def)
  qed
  have rd: "bd_begin_id q = bd_begin_id (ms_blocks s) \<or> bd_begin_id q \<le> dbp_block_id (ms_read s)"
    using loop(4)[of "dbp_block_id (ms_read s)" front] loop(1) by (auto simp: q_def)
  note same = ptr_same[OF inv(2) q(1-3) q(4)]
  have prd: "ptr_ok q (ms_read s)" "ptr_data q (ms_read s) = ptr_data (ms_blocks s) (ms_read s)"
    using same[OF _ inv(5) rd] by auto
  have mk: "ptr_ok q p" "ptr_data q p = ptr_data (ms_blocks s) p" if "(n, p) \<in> set (ms_markers s)" for n p
    using same[of p] old[of p] ms_inv_marker[OF assms that] that by force+
  have w: "wr_ok q (ms_write s)"
  proof (rule wr_ok_same[OF q(2,3,1) q(4) inv(4) _ inv(2)])
    show "bd_begin_id q = bd_begin_id (ms_blocks s) \<or> bd_begin_id q \<le> dbp_block_id (ms_write s)"
    proof (cases "dbp_IsNull (ms_read s)")
      case True
      then show ?thesis using rd q(3) bd_okD(4)[OF inv(2)] by (auto simp: dbp_IsNull_def)
    next
      case False
      then have nw: "\<not> dbp_IsNull (ms_write s)" using wr_ok_null_ptr[OF inv(4) _ inv(5)] by auto
      moreover have "dbp_block_id (ms_read s) < bd_end_id (ms_blocks s)"
        using dbp_ok_range[OF ptr_ok_not_null[OF inv(5) False]] by simp
      ultimately show ?thesis using rd inv(4) by (auto simp: wr_ok_def)
    qed
  qed simp_all
  show c: "ms_content (ms_MaybeDisposeBlocks s) = ms_content s"
    using prd by (simp add: s' ms_content_def)
  show m: "ms_marks (ms_MaybeDisposeBlocks s) = ms_marks s"
    using mk by (auto simp: s' ms_marks_def)
  have "\<not> ms_invalid_markers_size s \<Longrightarrow> (n, p) \<in> set (ms_markers s) \<Longrightarrow> n = int (length (ptr_data q p))" for n p
    using assms mk by (force simp: ms_inv_def)
  then show "ms_inv (ms_MaybeDisposeBlocks s)"
    using assms inv(6) c prd(1) w q(1) mk(1) by (auto simp: ms_inv_def s')
  show "ms_read (ms_MaybeDisposeBlocks s) = ms_read s" by (simp add: s')
  show "dbp_ok (ms_blocks (ms_MaybeDisposeBlocks s)) (ms_read s)" if "dbp_ok (ms_blocks s) (ms_read s)"
    using prd(1) dbp_ok_not_null[OF inv(2) that] by (auto simp: s' ptr_ok_def)
qed

section \<open>Reading\<close>

text \<open>\<open>ms_is s c m\<close>: a valid stream with content \<open>c\<close> and marks \<open>m\<close>.\<close>

definition ms_is :: "memory_stream \<Rightarrow> bytes \<Rightarrow> bytes list \<Rightarrow> bool" where
  "ms_is s c m \<longleftrightarrow> ms_inv s \<and> ms_content s = c \<and> ms_marks s = m"

lemma ms_is_inv: "ms_is s c m \<Longrightarrow> ms_inv s"
  by (simp add: ms_is_def)

lemma ms_new_is: "0 < bsz \<Longrightarrow> \<exists>s. ms_new bsz = Some s \<and> ms_is s [] []"
  by (auto simp: ms_new_def ms_is_def ms_inv_def ms_content_def ms_marks_def ptr_data_def wr_ok_def
      bd_new_def bd_ok_def bd_live_def bd_data_from_def bd_begin_id_def bd_end_id_def)

lemma ms_Size_eq: "ms_inv s \<Longrightarrow> ms_Size s = Some (int (length (ms_content s)))"
  using ms_invD(6)[of s] by (simp add: ms_Size_def)

lemma ms_IsEmpty_eq: "ms_inv s \<Longrightarrow> ms_IsEmpty s \<longleftrightarrow> ms_content s = []"
  using ms_invD(6)[of s] by (simp add: ms_IsEmpty_def)

lemma ms_MarkerIsSet_eq: "ms_MarkerIsSet s \<longleftrightarrow> ms_marks s \<noteq> []"
  by (simp add: ms_MarkerIsSet_def ms_marks_def)

lemma ms_forward_is:
  assumes "ms_is s c m" "dbp_ok (ms_blocks s) (ms_read s)" "dbp_ok (ms_blocks s) p'"
    and "data_from (ms_blocks s) p' = drop n c" "dbp_leq (ms_read s) p'" "n \<le> length c"
  shows "ms_is (s\<lparr>ms_read := p', ms_size := ms_size s - int n\<rparr>) (drop n c) m"
  using assms ms_inv_forward[of s p' n] by (simp add: ms_is_def)

lemma ms_dispose_is: "ms_is s c m \<Longrightarrow> ms_is (ms_MaybeDisposeBlocks s) c m"
  using ms_MaybeDisposeBlocks_eq[of s] by (simp add: ms_is_def)

lemma ms_init_cases:
  assumes "ms_is s c m"
  obtains (empty) "ms_MaybeInitReadPointer s = (False, s)" "c = []"
    | (ready) s1 where "ms_MaybeInitReadPointer s = (True, s1)" "ms_is s1 c m"
      "dbp_ok (ms_blocks s1) (ms_read s1)" "data_from (ms_blocks s1) (ms_read s1) = c"
      "bd_ok (ms_blocks s1)" "dbp_IsNull (ms_scratch s1)"
proof -
  have inv: "ms_inv s" using assms by (rule ms_is_inv)
  show ?thesis
  proof (cases rule: ms_MaybeInitReadPointer_eq[OF inv])
    case 1
    then show ?thesis using empty assms by (simp add: ms_is_def)
  next
    case (2 s1)
    have "data_from (ms_blocks s1) (ms_read s1) = c"
      using 2(3,5) ms_invD(2)[OF 2(2)] assms by (simp add: ms_content_def ptr_data_ok ms_is_def)
    then show ?thesis
      using 2 assms ms_invD(2,3)[OF 2(2)] by (intro ready[of s1]) (auto simp: ms_is_def)
  qed
qed

lemma ms_ReadInternal_is:
  assumes "ms_is s c m"
  shows "\<exists>s'. ms_ReadInternal s len dispose = Some (take (nat len) c, s') \<and> ms_is s' (drop (nat len) c) m"
proof (cases "len = 0")
  case True
  then show ?thesis using assms by (simp add: ms_ReadInternal_def)
next
  case False
  show ?thesis
  proof (cases rule: ms_init_cases[OF assms])
    case 1
    then show ?thesis using assms False by (simp add: ms_ReadInternal_def)
  next
    case (2 s1)
    obtain p' where p': "dbp_ReadData (ms_blocks s1) (ms_read s1) len = Some (take (nat len) c, p')"
        "dbp_ok (ms_blocks s1) p'" "data_from (ms_blocks s1) p' = drop (nat len) c"
        "dbp_leq (ms_read s1) p'"
      using dbp_ReadData_eq[OF 2(5,3), of len] 2(4) by auto
    have "drop (nat len) c = drop (min (nat len) (length c)) c"
      by (simp add: min_def)
    then have "ms_is (s1\<lparr>ms_read := p', ms_size := ms_size s1 - int (min (nat len) (length c))\<rparr>)
        (drop (nat len) c) m"
      using ms_forward_is[OF 2(2,3) p'(2) _ p'(4), of "min (nat len) (length c)"] p'(3) by simp
    then show ?thesis
      using 2(1) False p'(1) by (auto simp: ms_ReadInternal_def Let_def min.commute ms_dispose_is)
  qed
qed

lemma ms_Read_is:
  "ms_is s c m \<Longrightarrow> \<exists>s'. ms_Read s len = Some (take (nat len) c, s') \<and> ms_is s' (drop (nat len) c) m"
  unfolding ms_Read_def by (rule ms_ReadInternal_is)

lemma ms_ReadString_is:
  assumes "ms_is s c m" "- 1 \<le> len"
  shows "\<exists>s'. ms_ReadString s len
      = Some (if len = - 1 then c else take (nat len) c, s')
    \<and> ms_is s' (if len = - 1 then [] else drop (nat len) c) m"
  using ms_Read_is[OF assms(1), of len] ms_Read_is[OF assms(1), of "ms_size s"]
    ms_invD(6)[OF ms_is_inv[OF assms(1)]] assms
  by (auto simp: ms_ReadString_def ms_is_def)

text \<open>Asked for a length below -1, \<open>reserve\<close> throws: no string is read.\<close>

lemma ms_ReadString_negative:
  "len < - 1 \<Longrightarrow> ms_ReadString s len = None" "len < - 1 \<Longrightarrow> ms_PeekString s len = None"
  by (simp_all add: ms_ReadString_def ms_PeekString_def)

lemma ms_GetReadPointer_eq:
  "ms_GetReadPointer s = ms_read (snd (ms_MaybeInitReadPointer s))
    \<and> ms_blocks (snd (ms_MaybeInitReadPointer s)) = ms_blocks s"
  by (simp add: ms_GetReadPointer_def ms_MaybeInitReadPointer_def dbp_at_def)

text \<open>The read pointer a peek or an append uses: null only on a stream never written.\<close>

lemma ms_GetReadPointer_cases:
  assumes "ms_is s c m"
  obtains (empty) "dbp_IsNull (ms_GetReadPointer s)" "c = []"
    | (ready) "\<not> dbp_IsNull (ms_GetReadPointer s)" "dbp_ok (ms_blocks s) (ms_GetReadPointer s)"
      "data_from (ms_blocks s) (ms_GetReadPointer s) = c" "\<not> dbp_IsNull (ms_write s)"
proof -
  have inv: "ms_inv s" using assms by (rule ms_is_inv)
  show ?thesis
  proof (cases rule: ms_MaybeInitReadPointer_eq[OF inv])
    case 1
    then show ?thesis using empty assms ms_GetReadPointer_eq[of s] by (simp add: ms_is_def)
  next
    case (2 s1)
    then show ?thesis
      using ready assms ms_GetReadPointer_eq[of s] ms_invD(2)[OF 2(2)] dbp_ok_not_null[of "ms_blocks s1" "ms_read s1"]
      by (auto simp: ms_content_def ptr_data_ok ms_is_def)
  qed
qed

lemma ms_Peek_is:
  assumes "ms_is s c m"
  shows "ms_Peek s len = Some (take (nat len) c)"
proof (cases rule: ms_GetReadPointer_cases[OF assms])
  case 1
  then show ?thesis by (simp add: ms_Peek_def)
next
  case 2
  have "bd_ok (ms_blocks s)" using ms_invD(2)[OF ms_is_inv[OF assms]] .
  from dbp_ReadData_eq[OF this 2(2), of len] 2 show ?thesis by (auto simp: ms_Peek_def)
qed

lemma ms_Skip_is:
  assumes "ms_is s c m" "0 \<le> len"
  shows "\<exists>s'. ms_Skip s len = Some (min len (int (length c)), s') \<and> ms_is s' (drop (nat len) c) m"
proof (cases rule: ms_init_cases[OF assms(1)])
  case 1
  then show ?thesis using assms by (simp add: ms_Skip_def)
next
  case (2 s1)
  obtain p' where p': "dbp_Advance (ms_blocks s1) (ms_read s1) len = Some (p', min len (int (length c)))"
      "dbp_ok (ms_blocks s1) p'" "data_from (ms_blocks s1) p' = drop (nat len) c"
      "dbp_leq (ms_read s1) p'"
    using dbp_Advance_loop_eq[OF 2(5,3), of len 0] 2(4) assms(2) by (auto simp: dbp_Advance_def)
  have "drop (nat len) c = drop (min (nat len) (length c)) c"
    by (simp add: min_def)
  then have "ms_is (s1\<lparr>ms_read := p', ms_size := ms_size s1 - int (min (nat len) (length c))\<rparr>)
      (drop (nat len) c) m"
    using ms_forward_is[OF 2(2,3) p'(2) _ p'(4), of "min (nat len) (length c)"] p'(3) by simp
  moreover have "int (min (nat len) (length c)) = min len (int (length c))" using assms(2) by simp
  ultimately show ?thesis
    using 2(1) assms(2) p'(1) by (simp add: ms_Skip_def Let_def ms_dispose_is)
qed

text \<open>A piece of the current block.\<close>

lemma ms_read_block_is:
  assumes "ms_is s c m" "dbp_ok (ms_blocks s) (ms_read s)"
  obtains (empty) "dbp_ReadBlock (ms_blocks s) (ms_read s) len = Some (False, [], ms_read s)" "c = []"
    | (piece) bs p' c' where "dbp_ReadBlock (ms_blocks s) (ms_read s) len = Some (True, bs, p')"
      "bs \<noteq> []" "c = bs @ c'" "0 < len \<longrightarrow> int (length bs) \<le> len" "dbp_ok (ms_blocks s) p'"
      "ms_is (s\<lparr>ms_read := p', ms_size := ms_size s - int (length bs)\<rparr>) c' m"
proof -
  have ok: "bd_ok (ms_blocks s)" using ms_invD(2)[OF ms_is_inv[OF assms(1)]] .
  have d: "data_from (ms_blocks s) (ms_read s) = c"
    using assms ok by (simp add: ms_is_def ms_content_def ptr_data_ok)
  show ?thesis
  proof (cases "c = []")
    case True
    then show ?thesis using dbp_ReadBlock_eq[OF ok assms(2), of len] d by (intro empty) auto
  next
    case False
    then obtain bs p' where p': "dbp_ReadBlock (ms_blocks s) (ms_read s) len = Some (True, bs, p')"
        "bs \<noteq> []" "0 < len \<longrightarrow> int (length bs) \<le> len" "c = bs @ data_from (ms_blocks s) p'"
        "dbp_ok (ms_blocks s) p'" "dbp_leq (ms_read s) p'"
      using dbp_ReadBlock_eq[OF ok assms(2), of len] d by auto
    have len: "length bs \<le> length c" using arg_cong[OF p'(4), of length] by simp
    have dr: "data_from (ms_blocks s) p' = drop (length bs) c"
      using arg_cong[OF p'(4), of "drop (length bs)"] by simp
    have "ms_is (s\<lparr>ms_read := p', ms_size := ms_size s - int (length bs)\<rparr>) (drop (length bs) c) m"
      by (rule ms_forward_is[OF assms p'(5) dr p'(6) len])
    with p' dr show ?thesis by (intro piece[of bs p' "data_from (ms_blocks s) p'"]) auto
  qed
qed

lemma ms_dispose_read_ok:
  "ms_is s c m \<Longrightarrow> dbp_ok (ms_blocks s) (ms_read s) \<Longrightarrow>
     dbp_ok (ms_blocks (ms_MaybeDisposeBlocks s)) (ms_read (ms_MaybeDisposeBlocks s))"
  using ms_MaybeDisposeBlocks_eq[of s] by (simp add: ms_is_def)

lemma ms_ReadNext_is:
  assumes "ms_is s c m"
  shows "\<exists>bs s' c'. ms_ReadNext s len = Some (c \<noteq> [], bs, s') \<and> c = bs @ c'
    \<and> (c \<noteq> [] \<longrightarrow> bs \<noteq> []) \<and> (0 < len \<longrightarrow> int (length bs) \<le> len) \<and> ms_is s' c' m"
proof -
  have sc: "dbp_IsNull (ms_scratch s)" using ms_invD(3)[OF ms_is_inv[OF assms]] .
  show ?thesis
  proof (cases rule: ms_init_cases[OF assms])
    case 1
    then show ?thesis using assms sc by (auto simp: ms_ReadNext_def)
  next
    case (2 s1)
    let ?s = "ms_MaybeDisposeBlocks s1"
    have st: "ms_is ?s c m" "dbp_ok (ms_blocks ?s) (ms_read ?s)"
      using 2 by (auto intro: ms_dispose_is ms_dispose_read_ok)
    show ?thesis
    proof (cases rule: ms_read_block_is[OF st, of len])
      case 1
      then show ?thesis using sc 2(1) st(1) by (simp add: ms_ReadNext_def Let_def)
    next
      case p: (2 bs p' c')
      then show ?thesis using sc 2(1)
        by (intro exI[of _ bs] exI exI[of _ c']) (auto simp: ms_ReadNext_def Let_def)
    qed
  qed
qed

lemma ms_gather_is:
  assumes "ms_is s c m" "dbp_ok (ms_blocks s) (ms_read s)"
  shows "\<exists>ps s' c'. ms_gather s k acc = Some (acc @ ps, s') \<and> c = concat ps @ c' \<and> [] \<notin> set ps
    \<and> (c' = [] \<or> k \<le> int (length (concat ps))) \<and> ms_is s' c' m"
  using assms
proof (induction "length c" arbitrary: s c k acc rule: less_induct)
  case less
  show ?case
  proof (cases "k > 0")
    case False
    then show ?thesis
      using less.prems by (subst ms_gather.simps) (intro exI[of _ "[]"] exI[of _ s] exI[of _ c], simp)
  next
    case True
    show ?thesis
    proof (cases rule: ms_read_block_is[OF less.prems, of 0])
      case 1
      then show ?thesis
        using True less.prems
        by (subst ms_gather.simps) (intro exI[of _ "[]"] exI[of _ s] exI[of _ "[]"], simp)
    next
      case (2 bs p' c1)
      let ?s = "s\<lparr>ms_read := p', ms_size := ms_size s - int (length bs)\<rparr>"
      have ok: "dbp_ok (ms_blocks ?s) (ms_read ?s)" using 2(5) by simp
      have "length c1 < length c" using 2(2,3) by simp
      from less.hyps[OF this 2(6) ok, of "k - int (length bs)" "acc @ [bs]"]
      obtain ps s' c' where *: "ms_gather ?s (k - int (length bs)) (acc @ [bs]) = Some ((acc @ [bs]) @ ps, s')"
          "c1 = concat ps @ c'" "[] \<notin> set ps" "c' = [] \<or> k - int (length bs) \<le> int (length (concat ps))"
          "ms_is s' c' m"
        by blast
      then show ?thesis
        using True 2
        by (subst ms_gather.simps) (intro exI[of _ "bs # ps"] exI[of _ s'] exI[of _ c'], auto)
    qed
  qed
qed

lemma ms_ReadForWritev_is:
  assumes "ms_is s c m"
  shows "\<exists>ps s' c'. ms_ReadForWritev s k = Some (ps, s') \<and> c = concat ps @ c' \<and> [] \<notin> set ps
    \<and> (c' = [] \<or> k \<le> int (length (concat ps))) \<and> ms_is s' c' m"
proof -
  have sc: "dbp_IsNull (ms_scratch s)" using ms_invD(3)[OF ms_is_inv[OF assms]] .
  show ?thesis
  proof (cases rule: ms_init_cases[OF assms])
    case 1
    then show ?thesis using assms sc
      by (intro exI[of _ "[]"] exI[of _ s] exI[of _ "[]"]) (simp add: ms_ReadForWritev_def)
  next
    case (2 s1)
    then show ?thesis
      using sc ms_gather_is[OF ms_dispose_is[OF 2(2)] ms_dispose_read_ok[OF 2(2,3)], of k "[]"]
      by (simp add: ms_ReadForWritev_def)
  qed
qed

section \<open>Markers\<close>

lemma ms_MarkerSet_is:
  assumes "ms_is s c m"
  shows "ms_is (ms_MarkerSet s) c (c # m)"
proof -
  have inv: "ms_inv s" using assms by (rule ms_is_inv)
  have "ms_inv (ms_MarkerSet s)"
    using inv by (auto simp: ms_inv_def ms_MarkerSet_def ms_content_def)
  then show ?thesis
    using assms by (auto simp: ms_is_def ms_MarkerSet_def ms_content_def ms_marks_def)
qed

lemma ms_MarkerRestore_is:
  assumes "ms_is s c (x # m)"
  shows "\<exists>s'. ms_MarkerRestore s = Some s' \<and> ms_is s' x m"
proof -
  have inv: "ms_inv s" using assms by (rule ms_is_inv)
  note i = ms_invD[OF inv]
  obtain n p rest where mk: "ms_markers s = (n, p) # rest" and x: "x = ptr_data (ms_blocks s) p"
      and m: "m = map (\<lambda>(n, p). ptr_data (ms_blocks s) p) rest"
    using assms by (cases "ms_markers s") (auto simp: ms_is_def ms_marks_def)
  let ?s = "s\<lparr>ms_read := p, ms_size := int (length x), ms_markers := rest\<rparr>"
  have st: "ms_is ?s x m"
    using inv mk x m by (auto simp: ms_is_def ms_inv_def ms_content_def ms_marks_def)
  show ?thesis
  proof (cases "ms_invalid_markers_size s")
    case False
    then have "n = int (length x)" using inv mk x by (simp add: ms_inv_def)
    then show ?thesis using False mk st by (simp add: ms_MarkerRestore_def)
  next
    case True
    let ?s1 = "s\<lparr>ms_read := p\<rparr>"
    have d: "ms_MaybeInitReadPointer ?s1 = (r, t) \<Longrightarrow>
        ms_MaybeInitReadPointer ?s = (r, t\<lparr>ms_size := int (length x), ms_markers := rest\<rparr>)" for r t
      by (auto simp: ms_MaybeInitReadPointer_def split: if_splits)
    obtain r t where t: "ms_MaybeInitReadPointer ?s1 = (r, t)" by fastforce
    have tb: "ms_blocks t = ms_blocks s" "ms_write t = ms_write s"
      using t by (auto simp: ms_MaybeInitReadPointer_def split: if_splits)
    have dist: "dbp_Distance (ms_blocks t) (ms_read t) (ms_write t) = Some (int (length x))
        \<and> ms_is (t\<lparr>ms_size := int (length x), ms_markers := rest\<rparr>) x m"
    proof (cases rule: ms_MaybeInitReadPointer_eq[OF ms_is_inv[OF st]])
      case 1
      have "ptr_ok (ms_blocks s) p" using ms_inv_marker[OF inv, of n p] mk by simp
      then have "dbp_Distance (ms_blocks s) p (ms_write s) = Some 0"
        using 1 i(2,4) ptr_ok_null[of "ms_blocks s" p]
        by (simp add: dbp_Distance_def dbp_Distance_up_def dbp_less_def wr_ok_def dbp_IsNull_def
            bd_sum_sizes.simps)
      moreover have "ms_read t = p"
        using t 1 d[OF t] by (auto simp: ms_MaybeInitReadPointer_def split: if_splits)
      ultimately show ?thesis using 1 d[OF t] tb st by (auto simp: ms_is_def)
    next
      case (2 s2)
      then have s2: "s2 = t\<lparr>ms_size := int (length x), ms_markers := rest\<rparr>" using d[OF t] by simp
      have w: "dbp_wr_ok (ms_blocks s) (ms_write s)" "dbp_block_id (ms_write s) + 1 = bd_end_id (ms_blocks s)"
        using i(4) 2(7) by (auto simp: wr_ok_def)
      have rd: "dbp_ok (ms_blocks s) (ms_read t)" using 2(5) s2 tb by simp
      have "data_from (ms_blocks s) (ms_read t) = x"
        using 2(3) s2 st rd i(2) tb by (simp add: ms_content_def ms_is_def ptr_data_ok)
      then have "dbp_Distance (ms_blocks s) (ms_read t) (ms_write s) = Some (int (length x))"
        using dbp_Distance_eq[OF i(2) rd dbp_wr_ok_ok[OF i(2) w(1)] dbp_leq_wr_ok[OF i(2) rd w]]
          dbp_wr_ok_data_from(2)[OF i(2) w(1)] by simp
      then show ?thesis using tb s2 2(2-4) st by (simp add: ms_is_def)
    qed
    have tr: "ms_invalid_markers_size ?s1" using True by simp
    show ?thesis
      using dist mk tr t by (simp add: ms_MarkerRestore_def Let_def)
  qed
qed

lemma ms_MarkerClear_is:
  assumes "ms_is s c (x # m)"
  shows "\<exists>s'. ms_MarkerClear s = Some s' \<and> ms_is s' c m"
proof -
  obtain n p rest where mk: "ms_markers s = (n, p) # rest"
      and m: "m = map (\<lambda>(n, p). ptr_data (ms_blocks s) p) rest"
    using assms by (cases "ms_markers s") (auto simp: ms_is_def ms_marks_def)
  have "ms_is (s\<lparr>ms_markers := rest\<rparr>) c m"
    using assms mk m by (auto simp: ms_is_def ms_inv_def ms_content_def ms_marks_def)
  then show ?thesis using mk by (auto simp: ms_MarkerClear_def intro: ms_dispose_is)
qed

lemma ms_PeekString_is:
  assumes "ms_is s c m" "- 1 \<le> len"
  shows "\<exists>s'. ms_PeekString s len = Some (if len = - 1 then c else take (nat len) c, s') \<and> ms_is s' c m"
proof -
  obtain s1 where s1: "ms_ReadString (ms_MarkerSet s) len = Some (if len = - 1 then c else take (nat len) c, s1)"
      "ms_is s1 (if len = - 1 then [] else drop (nat len) c) (c # m)"
    using ms_ReadString_is[OF ms_MarkerSet_is[OF assms(1)] assms(2)] by blast
  obtain s2 where "ms_MarkerRestore s1 = Some s2" "ms_is s2 c m"
    using ms_MarkerRestore_is[OF s1(2)] by blast
  with s1(1) show ?thesis by (simp add: ms_PeekString_def)
qed

lemma ms_Clear_is:
  assumes "ms_is s c []"
  shows "\<exists>s'. ms_Clear s = Some s' \<and> ms_is s' [] []"
  using assms bd_okD[OF ms_invD(2)[OF ms_is_inv[OF assms]]]
  by (auto simp: ms_Clear_def ms_MarkerIsSet_eq ms_is_def ms_inv_def ms_marks_def ms_content_def
      ptr_data_def wr_ok_def bd_clear_def bd_ok_def bd_live_def bd_data_from_def bd_begin_id_def bd_end_id_def)

section \<open>Writing\<close>

text \<open>
  How a write changes the queue, for the blocks up to \<open>k\<close>: each of them now has \<open>xs\<close> at
  the end of its bytes.
\<close>

definition bd_appends :: "int \<Rightarrow> block_dqueue \<Rightarrow> block_dqueue \<Rightarrow> bytes \<Rightarrow> bool" where
  "bd_appends k q q' xs \<longleftrightarrow> bd_ok q' \<and> bd_grows q q'
     \<and> (\<forall>j. bd_begin_id q \<le> j \<longrightarrow> j \<le> k \<longrightarrow> bd_data_from q' j = bd_data_from q j @ xs)"

lemma bd_appends_refl: "bd_ok q \<Longrightarrow> bd_appends k q q []"
  by (simp add: bd_appends_def)

lemma bd_appends_trans:
  assumes "bd_appends k q q1 xs" "bd_appends k q1 q2 ys"
  shows "bd_appends k q q2 (xs @ ys)"
proof -
  have b: "bd_begin_id q1 = bd_begin_id q" using assms(1) by (simp add: bd_appends_def bd_grows_def)
  show ?thesis using assms bd_grows_trans[of q q1 q2] by (simp add: bd_appends_def b)
qed

lemma bd_data_from_push:
  assumes "bd_ok q" "db_ok b" "bd_begin_id q \<le> j" "j \<le> bd_end_id q"
  shows "bd_data_from (bd_push_back b q) j = bd_data_from q j @ db_data b"
proof -
  have "nat (j - bd_begin_id q) \<le> length (bd_live q)"
    using assms length_bd_live[OF assms(1)] by linarith
  then show ?thesis using assms by (simp add: bd_data_from_def)
qed

lemma bd_appends_push:
  assumes "bd_ok q" "db_ok b" "k \<le> bd_end_id q"
  shows "bd_appends k q (bd_push_back b q) (db_data b)"
  using assms bd_grows_push[OF assms(1)] bd_data_from_push[OF assms(1,2)]
  by (auto simp: bd_appends_def)

lemma dbp_leq_same_ptr: "dbp_leq p p' \<Longrightarrow> dbp_block_id p \<le> dbp_block_id p'"
  by (auto simp: dbp_leq_def dbp_less_def dbp_equals_def split: if_splits)

lemma dbp_wr_ok_push:
  assumes "bd_ok q" "dbp_wr_ok q p" "db_writable b" "db_size b = 0"
  shows "dbp_wr_ok (bd_push_back b q) p"
proof -
  obtain c where c: "dbp_block q p = Some c" using assms(2) by (auto simp: dbp_wr_ok_def)
  have lt: "dbp_block_id p < bd_end_id q" using dbp_ok_range[OF dbp_wr_ok_ok[OF assms(1,2)]] by simp
  show ?thesis
  proof (rule dbp_wr_okI[of _ _ c])
    show "dbp_block (bd_push_back b q) p = Some c"
      using c lt assms(1) by (simp add: dbp_block_def bd_block_push)
    show "dbp_pos p = db_size c" using dbp_wr_ok_pos[OF assms(2) c] .
    show "db_size d = 0 \<and> db_writable d"
      if "dbp_block_id p < j" "bd_block (bd_push_back b q) j = Some d" for j d
    proof (cases "j = bd_end_id q")
      case True
      then show ?thesis using that assms by (simp add: bd_block_push)
    next
      case False
      then show ?thesis using that assms(1) by (intro dbp_wr_okD[OF assms(2), of j]) (auto simp: bd_block_push)
    qed
  qed
qed

text \<open>A write behind a full block puts at least one byte into the fresh block.\<close>

lemma write_progress:
  assumes "bd_ok q" "dbp_wr_ok q p" "dbp_block q p = Some b" "db_full b"
    and "bd_ok q'" "bd_grows q q'" "dbp_block_id p < dbp_block_id p'" "dbp_block q' p' = Some b'" "db_full b'"
    and "bd_data_from q' (dbp_block_id p) = bd_data_from q (dbp_block_id p) @ xs"
  shows "xs \<noteq> []"
proof
  assume "xs = []"
  let ?i = "dbp_block_id p"
  have blk: "bd_block q' ?i = Some b"
    using assms(3,4,6) by (fastforce simp: bd_grows_def dbp_block_def)
  then have "bd_data_from q' (?i + 1) = []"
    using assms(1,3,5,10) \<open>xs = []\<close> dbp_wr_ok_data_from(1)[OF assms(1,2)]
      bd_data_from_step[OF assms(5) blk] bd_data_from_step[OF assms(1), of ?i b]
    by (simp add: dbp_block_def)
  moreover have "bd_begin_id q' \<le> ?i" using blk by (auto simp: bd_block_def split: if_splits)
  ultimately have "bd_data_from q' (dbp_block_id p') = []"
    using bd_data_from_suffix[OF assms(5), of "?i + 1" "dbp_block_id p'"] assms(7) by auto
  moreover have "bd_data_from q' (dbp_block_id p') = db_data b' @ bd_data_from q' (dbp_block_id p' + 1)"
    using assms(5,8) by (simp add: dbp_block_def bd_data_from_step)
  moreover have ok: "db_ok b'" using assms(5,8) unfolding dbp_block_def by (rule bd_block_ok)
  ultimately have "db_size b' = 0"
    using length_db_data[OF ok] db_ok_sizes(1)[OF ok] by simp
  then show False using assms(9) db_ok_sizes(3)[OF ok] by (simp add: db_full_def)
qed

text \<open>
  One round of the loop of \<^verbatim>\<open>Write\<close>.  The write pointer is in the last block
  (\<open>d = 1\<close>), or its block is full and one fresh block follows (\<open>d = 2\<close>).
\<close>

definition at_block :: "block_dqueue \<Rightarrow> dbp \<Rightarrow> int \<Rightarrow> bool" where
  "at_block q w d \<longleftrightarrow> bd_ok q \<and> dbp_wr_ok q w \<and> dbp_block_id w + d = bd_end_id q
     \<and> (d = 1 \<or> d = 2 \<and> (\<exists>b. dbp_block q w = Some b \<and> db_full b))"

lemma write_round:
  assumes "at_block q w d" "buf \<noteq> []" "k \<le> dbp_block_id w"
  shows "\<exists>q' w' n. dbp_WriteData q w buf = Some (q', w', int n) \<and> n \<le> length buf
    \<and> bd_appends k q q' (take n buf) \<and> at_block q' w' 1 \<and> k \<le> dbp_block_id w'
    \<and> (n < length buf \<longrightarrow> (\<exists>b. dbp_block q' w' = Some b \<and> db_full b))
    \<and> (d = 2 \<longrightarrow> 0 < n)"
proof -
  have q: "bd_ok q" "dbp_wr_ok q w" using assms(1) by (auto simp: at_block_def)
  obtain q' w' n where res: "dbp_WriteData q w buf = Some (q', w', int n)" "n \<le> length buf" "bd_ok q'"
      "bd_end_id q' = bd_end_id q" "dbp_wr_ok q' w'" "dbp_leq w w'" "bd_grows q q'"
      "\<forall>j. bd_begin_id q \<le> j \<longrightarrow> j \<le> dbp_block_id w \<longrightarrow> bd_data_from q' j = bd_data_from q j @ take n buf"
      "n < length buf \<longrightarrow> dbp_block_id w' + 1 = bd_end_id q \<and> (\<exists>b. dbp_block q' w' = Some b \<and> db_full b)"
      "dbp_block_id w + 1 < bd_end_id q \<longrightarrow> (\<exists>b. dbp_block q w = Some b \<and> db_full b) \<longrightarrow>
         dbp_block_id w < dbp_block_id w'"
    using dbp_WriteData_loop_eq[OF q, of buf 0] assms(2) by (auto simp: dbp_WriteData_def)
  have rng: "dbp_block_id w' < bd_end_id q'" "bd_begin_id q \<le> dbp_block_id w"
    using dbp_ok_range[OF dbp_wr_ok_ok[OF res(3,5)]] dbp_ok_range[OF dbp_wr_ok_ok[OF q]] by auto
  have le: "dbp_block_id w \<le> dbp_block_id w'" using dbp_leq_same_ptr[OF res(6)] .
  have d2: "dbp_block_id w < dbp_block_id w'" if "d = 2" using res(10) assms(1) that by (simp add: at_block_def)
  have last: "dbp_block_id w' + 1 = bd_end_id q'"
    using assms(1) le d2 rng res(4) by (auto simp: at_block_def)
  have "bd_appends k q q' (take n buf)"
    using res(3,7,8) assms(3) by (auto simp: bd_appends_def)
  moreover have "0 < n" if two: "d = 2"
  proof (rule ccontr)
    assume "\<not> 0 < n"
    then have n0: "n < length buf" "take n buf = []" using assms(2) by auto
    obtain b where b: "dbp_block q w = Some b" "db_full b" using assms(1) two by (auto simp: at_block_def)
    obtain b' where b': "dbp_block q' w' = Some b'" "db_full b'" using res(9) n0 by auto
    have "take n buf \<noteq> []"
      using write_progress[OF q b res(3,7) d2[OF two] b'] res(8) rng by auto
    with n0 show False by simp
  qed
  ultimately show ?thesis
    using res last le assms(3)
    by (intro exI[of _ q'] exI[of _ w'] exI[of _ n]) (auto simp: at_block_def)
qed

lemma at_block_push:
  assumes "at_block q w 1" "dbp_block q w = Some b" "db_full b" "db_new sz = Some c"
  shows "at_block (bd_push_back c q) w 2"
proof -
  have q: "bd_ok q" "dbp_wr_ok q w" "dbp_block_id w + 1 = bd_end_id q" using assms(1) by (auto simp: at_block_def)
  note c = db_new_ok[OF assms(4)]
  have "dbp_block (bd_push_back c q) w = Some b"
    using assms(2) q by (simp add: dbp_block_def bd_block_push)
  then show ?thesis
    using q c assms(3) dbp_wr_ok_push[OF q(1,2)] by (simp add: at_block_def)
qed

lemma ms_Write_loop_is:
  assumes "at_block (ms_blocks s) (ms_write s) d" "0 < ms_block_size s"
    and "k \<le> dbp_block_id (ms_write s)" "d = 1 \<or> buf \<noteq> []"
  shows "\<exists>q' w'. ms_Write_loop s buf = Some (s\<lparr>ms_blocks := q', ms_write := w',
           ms_size := ms_size s + int (length buf)\<rparr>)
       \<and> bd_appends k (ms_blocks s) q' buf \<and> at_block q' w' 1"
  using assms
proof (induction "2 * length buf + (if d = 1 then 1 else 0)" arbitrary: s buf d rule: less_induct)
  case less
  have ok: "bd_ok (ms_blocks s)" using less.prems(1) by (simp add: at_block_def)
  show ?case
  proof (cases "buf = []")
    case True
    then show ?thesis
      using less.prems ok
      by (subst ms_Write_loop.simps)
         (auto intro!: exI[of _ "ms_blocks s"] exI[of _ "ms_write s"] simp: bd_appends_refl)
  next
    case False
    obtain q' w' n where r: "dbp_WriteData (ms_blocks s) (ms_write s) buf = Some (q', w', int n)"
        "n \<le> length buf" "bd_appends k (ms_blocks s) q' (take n buf)" "at_block q' w' 1" "k \<le> dbp_block_id w'"
        "n < length buf \<longrightarrow> (\<exists>b. dbp_block q' w' = Some b \<and> db_full b)" "d = 2 \<longrightarrow> 0 < n"
      using write_round[OF less.prems(1) False less.prems(3)] by blast
    let ?s1 = "s\<lparr>ms_blocks := q', ms_write := w', ms_size := ms_size s + int n\<rparr>"
    show ?thesis
    proof (cases "n = length buf")
      case True
      then show ?thesis
        using r False by (subst ms_Write_loop.simps) (auto simp: Let_def)
    next
      case lt: False
      then obtain b where b: "dbp_block q' w' = Some b" "db_full b" using r(2,6) by auto
      let ?sz = "max (int (length (drop n buf))) (ms_block_size s)"
      obtain c where c: "db_new ?sz = Some c"
        using less.prems(2) by (simp add: db_new_def less_max_iff_disj)
      let ?s2 = "?s1\<lparr>ms_blocks := bd_push_back c q'\<rparr>"
      have at: "at_block (ms_blocks ?s2) (ms_write ?s2) 2"
        using at_block_push[OF r(4) b c] by simp
      have qok: "bd_ok q'" "dbp_block_id w' + 1 = bd_end_id q'" using r(4) by (auto simp: at_block_def)
      have ap: "bd_appends k (ms_blocks s) (bd_push_back c q') (take n buf)"
        using bd_appends_trans[OF r(3) bd_appends_push[OF qok(1), of c k]] db_new_ok[OF c] r(5) qok(2) by simp
      have d: "d = 1 \<or> d = 2" using less.prems(1) by (auto simp: at_block_def)
      have meas: "2 * length (drop n buf) + (if (2::int) = 1 then 1 else 0)
          < 2 * length buf + (if d = 1 then 1 else 0)"
        using d r(2,7) by auto
      have "drop n buf \<noteq> []" using lt r(2) by simp
      then obtain q2 w2 where r2: "ms_Write_loop ?s2 (drop n buf) = Some (?s2\<lparr>ms_blocks := q2, ms_write := w2,
           ms_size := ms_size ?s2 + int (length (drop n buf))\<rparr>)"
          "bd_appends k (ms_blocks ?s2) q2 (drop n buf)" "at_block q2 w2 1"
        using less.hyps[OF meas at] less.prems(2) r(5) by auto
      have "ms_Write_loop s buf = ms_Write_loop ?s2 (drop n buf)"
        using False r(1) lt r(2) c by (subst ms_Write_loop.simps) (simp add: Let_def)
      moreover have "bd_appends k (ms_blocks s) q2 buf"
        using bd_appends_trans[OF ap, of q2 "drop n buf"] r2(2) by simp
      ultimately show ?thesis using r2(1,3) r(2) by (intro exI[of _ q2] exI[of _ w2]) simp
    qed
  qed
qed

text \<open>A change of the queue that appends \<open>xs\<close> appends \<open>xs\<close> to the content and to every mark.\<close>

definition bd_last :: "block_dqueue \<Rightarrow> int" where
  "bd_last q = max (bd_begin_id q) (bd_end_id q - 1)"

lemma ptr_appends:
  assumes "bd_ok q" "bd_appends (bd_last q) q q' xs" "ptr_ok q p"
  shows "ptr_ok q' p" and "ptr_data q' p = ptr_data q p @ xs"
proof -
  have q': "bd_ok q'" "bd_grows q q'" "bd_begin_id q' = bd_begin_id q"
    using assms(2) by (auto simp: bd_appends_def bd_grows_def)
  have d: "bd_data_from q' j = bd_data_from q j @ xs" if "bd_begin_id q \<le> j" "j \<le> bd_last q" for j
    using assms(2) that by (simp add: bd_appends_def)
  show "ptr_ok q' p" using assms(3) bd_grows_ok[OF q'(2)] by (auto simp: ptr_ok_def)
  show "ptr_data q' p = ptr_data q p @ xs"
  proof (cases "dbp_IsNull p")
    case True
    then show ?thesis using d[of "bd_begin_id q"] q'(3) by (simp add: ptr_data_def bd_last_def)
  next
    case False
    then have ok: "dbp_ok q p" using assms(3) by (rule ptr_ok_not_null[rotated])
    have "bd_begin_id q \<le> dbp_block_id p" "dbp_block_id p \<le> bd_last q"
      using dbp_ok_range[OF ok] by (auto simp: bd_last_def)
    moreover have "nat (dbp_pos p) \<le> length (bd_data_from q (dbp_block_id p))"
      using length_data_from[OF assms(1) ok] dbp_ok_range(3)[OF ok] by linarith
    ultimately show ?thesis using False d by (simp add: ptr_data_def data_from_def)
  qed
qed

lemma ms_appended_is:
  assumes "ms_is s c m" "bd_appends (bd_last (ms_blocks s)) (ms_blocks s) q' xs" "wr_ok q' w'"
  shows "ms_is (s\<lparr>ms_invalid_markers_size := True, ms_blocks := q', ms_write := w',
      ms_size := ms_size s + int (length xs)\<rparr>) (c @ xs) (map (\<lambda>y. y @ xs) m)"
proof -
  let ?s = "s\<lparr>ms_invalid_markers_size := True, ms_blocks := q', ms_write := w',
      ms_size := ms_size s + int (length xs)\<rparr>"
  have inv: "ms_inv s" using assms(1) by (rule ms_is_inv)
  note i = ms_invD[OF inv]
  note ap = ptr_appends[OF i(2) assms(2)]
  have c: "ms_content ?s = c @ xs"
    using ap(2)[OF i(5)] assms(1) by (simp add: ms_content_def ms_is_def)
  have "ptr_data q' p = ptr_data (ms_blocks s) p @ xs" if "(n, p) \<in> set (ms_markers s)" for n p
    using ap(2) ms_inv_marker[OF inv that] by blast
  then have m: "ms_marks ?s = map (\<lambda>y. y @ xs) m"
    using assms(1) by (auto simp: ms_marks_def ms_is_def)
  have "ptr_ok q' p" if "p \<in> set (ms_read s # map snd (ms_markers s))" for p
    using ap(1) inv that by (auto simp: ms_inv_def)
  moreover have "bd_ok q'" using assms(2) by (simp add: bd_appends_def)
  moreover have "ms_size ?s = int (length (ms_content ?s))"
    using i(6) c assms(1) by (simp add: ms_is_def)
  ultimately have "ms_inv ?s" using inv assms(3) by (simp add: ms_inv_def)
  then show ?thesis using c m by (simp add: ms_is_def)
qed

lemma ms_Write_is:
  assumes "ms_is s c m"
  shows "\<exists>s'. ms_Write s xs = Some (int (length xs), s') \<and> ms_is s' (c @ xs) (map (\<lambda>y. y @ xs) m)
    \<and> \<not> dbp_IsNull (ms_write s')"
proof -
  note i = ms_invD[OF ms_is_inv[OF assms]]
  let ?q = "ms_blocks s"
  let ?k = "bd_last ?q"
  obtain q1 w1 where
      init: "ms_Write s xs = Option.bind (ms_Write_loop (s\<lparr>ms_invalid_markers_size := True,
          ms_blocks := q1, ms_write := w1\<rparr>) xs) (\<lambda>s2. Some (int (length xs), s2))"
      and at: "at_block q1 w1 1" "bd_appends ?k ?q q1 []" "?k \<le> dbp_block_id w1"
  proof (cases "dbp_IsNull (ms_write s)")
    case True
    let ?sz = "max (int (length xs)) (ms_block_size s)"
    obtain b where b: "db_new ?sz = Some b" using i(1) by (simp add: db_new_def less_max_iff_disj)
    let ?w = "dbp_at (bd_begin_id ?q) 0"
    note bo = db_new_ok[OF b]
    have be: "bd_begin_id ?q = bd_end_id ?q" using i(4) True by (simp add: wr_ok_def)
    have "bd_block (bd_push_back b ?q) j = (if j = bd_begin_id ?q then Some b else None)" for j
      using i(2) be by (simp add: bd_block_push) (simp add: bd_block_def)
    then have "dbp_wr_ok (bd_push_back b ?q) ?w"
      using bo by (intro dbp_wr_okI[of _ _ b]) (auto split: if_splits)
    then have "at_block (bd_push_back b ?q) ?w 1" using bo i(2) be by (simp add: at_block_def)
    moreover have "bd_appends ?k ?q (bd_push_back b ?q) []"
      using bd_appends_push[OF i(2), of b ?k] bo be by (simp add: bd_last_def)
    moreover have "?k \<le> dbp_block_id ?w" using be by (simp add: bd_last_def)
    ultimately show ?thesis
      using that[of ?w "bd_push_back b ?q"] True b by (simp add: ms_Write_def Let_def)
  next
    case False
    then have w: "dbp_wr_ok ?q (ms_write s)" "dbp_block_id (ms_write s) + 1 = bd_end_id ?q"
      using i(4) by (auto simp: wr_ok_def)
    have "bd_begin_id ?q \<le> dbp_block_id (ms_write s)"
      using dbp_ok_range[OF dbp_wr_ok_ok[OF i(2) w(1)]] by simp
    then have "?k \<le> dbp_block_id (ms_write s)" using w(2) by (simp add: bd_last_def)
    then show ?thesis
      using that[of "ms_write s" ?q] False w i(2)
      by (simp add: at_block_def bd_appends_refl ms_Write_def)
  qed
  let ?s1 = "s\<lparr>ms_invalid_markers_size := True, ms_blocks := q1, ms_write := w1\<rparr>"
  obtain q' w' where l: "ms_Write_loop ?s1 xs = Some (?s1\<lparr>ms_blocks := q', ms_write := w',
         ms_size := ms_size ?s1 + int (length xs)\<rparr>)"
      "bd_appends ?k q1 q' xs" "at_block q' w' 1"
    using ms_Write_loop_is[of ?s1 1 ?k xs] at i(1) by auto
  have nn: "\<not> dbp_IsNull w'"
    using l(3) dbp_ok_not_null[OF _ dbp_wr_ok_ok] by (auto simp: at_block_def)
  then have wr: "wr_ok q' w'" using l(3) by (simp add: at_block_def wr_ok_def)
  have "bd_appends ?k ?q q' xs" using bd_appends_trans[OF at(2) l(2)] by simp
  from ms_appended_is[OF assms this wr] show ?thesis
    using init l(1) nn by simp
qed

lemma ms_AppendBlock_is:
  assumes "ms_is s c m" "db_ok b"
  shows "ms_is (ms_AppendBlock s b) (c @ db_data b) (map (\<lambda>y. y @ db_data b) m)"
proof -
  note i = ms_invD[OF ms_is_inv[OF assms(1)]]
  let ?q = "ms_blocks s"
  let ?q' = "bd_push_back b ?q"
  let ?w = "dbp_at (bd_end_id ?q) (db_size b)"
  have blk: "bd_block ?q' (bd_end_id ?q) = Some b" using i(2) by (simp add: bd_block_push)
  have "dbp_wr_ok ?q' ?w"
    by (rule dbp_wr_okI[of _ _ b]) (use blk in \<open>auto simp: bd_block_def split: if_splits\<close>)
  moreover have "bd_end_id ?q \<noteq> - 1" using bd_okD(4,5)[OF i(2)] by linarith
  ultimately have wr: "wr_ok ?q' ?w" by (simp add: wr_ok_def dbp_IsNull_def)
  have ap: "bd_appends (bd_last ?q) ?q ?q' (db_data b)"
    using bd_okD(5)[OF i(2)] by (intro bd_appends_push i(2) assms(2)) (simp add: bd_last_def)
  have len: "int (length (db_data b)) = db_size b"
    using length_db_data[OF assms(2)] db_ok_sizes(1)[OF assms(2)] by simp
  have "ms_AppendBlock s b = s\<lparr>ms_invalid_markers_size := True, ms_blocks := ?q', ms_write := ?w,
      ms_size := ms_size s + int (length (db_data b))\<rparr>"
    unfolding len by (cases s) (simp add: ms_AppendBlock_def Let_def)
  then show ?thesis using ms_appended_is[OF assms(1) ap wr] by simp
qed

lemma ms_AppendBlock_write: "ms_inv s \<Longrightarrow> \<not> dbp_IsNull (ms_write (ms_AppendBlock s b))"
  using bd_okD(4,5)[OF ms_invD(2)[of s]] by (auto simp: ms_AppendBlock_def dbp_IsNull_def Let_def)

lemma ms_AppendRaw_is:
  assumes "ms_is s c m" "buf \<noteq> []"
  shows "\<exists>s'. ms_AppendRaw s buf = Some s' \<and> ms_is s' (c @ buf) (map (\<lambda>y. y @ buf) m)"
proof -
  obtain b where b: "db_wrap buf = Some b" using assms(2) by (simp add: db_wrap_def)
  from db_wrap_ok[OF b] ms_AppendBlock_is[OF assms(1), of b] show ?thesis
    by (auto simp: ms_AppendRaw_def b)
qed

section \<open>Appending another stream\<close>

lemma ms_AppendNewBlock_is:
  assumes "ms_is s c m" "db_ok b" "0 \<le> i" "i < j" "j \<le> db_size b"
  shows "\<exists>s'. ms_AppendNewBlock s b i j = Some s'
    \<and> ms_is s' (c @ take (nat (j - i)) (drop (nat i) (db_data b)))
        (map (\<lambda>y. y @ take (nat (j - i)) (drop (nat i) (db_data b))) m)"
proof -
  let ?xs = "take (nat (j - i)) (drop (nat i) (db_data b))"
  have pk: "db_peek i (j - i) b = Some ?xs"
    using assms by (intro db_peek_data) auto
  obtain s' where "ms_Write s ?xs = Some (int (length ?xs), s')" "ms_is s' (c @ ?xs) (map (\<lambda>y. y @ ?xs) m)"
    using ms_Write_is[OF assms(1)] by blast
  then show ?thesis using pk assms(4) by (simp add: ms_AppendNewBlock_def)
qed

text \<open>One block of the range: shared when it is taken whole and full, copied otherwise.\<close>

lemma append_piece_is:
  assumes "ms_is s c m" "db_ok b" "0 \<le> i" "i \<le> j" "j \<le> db_size b"
  shows "\<exists>s'. (if i < j then
                   if i = 0 \<and> j = db_buffer_size b
                   then Some (ms_AppendBlock s b)
                   else ms_AppendNewBlock s b i j
                 else Some s) = Some s'
    \<and> ms_is s' (c @ take (nat (j - i)) (drop (nat i) (db_data b)))
        (map (\<lambda>y. y @ take (nat (j - i)) (drop (nat i) (db_data b))) m)"
proof (cases "i < j")
  case False
  then show ?thesis using assms by simp
next
  case True
  show ?thesis
  proof (cases "i = 0 \<and> j = db_buffer_size b")
    case whole: True
    then have "db_size b = j" using assms(5) db_ok_sizes(2)[OF assms(2)] by simp
    then have "take (nat (j - i)) (drop (nat i) (db_data b)) = db_data b"
      using whole length_db_data[OF assms(2)] by simp
    then show ?thesis using ms_AppendBlock_is[OF assms(1,2)] True whole by simp
  next
    case False
    have eq: "(if i < j then if i = 0 \<and> j = db_buffer_size b then Some (ms_AppendBlock s b)
        else ms_AppendNewBlock s b i j else Some s) = ms_AppendNewBlock s b i j"
      using True False by (simp only: if_True if_False)
    show ?thesis unfolding eq using ms_AppendNewBlock_is[OF assms(1-3) True assms(5)] .
  qed
qed

lemma ms_append_range_is:
  assumes "ms_is s c m" "bd_ok src" "dbp_ok src e"
    and "dbp_ok src b \<and> dbp_leq b e \<or> dbp_block_id b = dbp_block_id e + 1"
  shows "\<exists>s' xs. ms_append_range s src b e = Some s' \<and> ms_is s' (c @ xs) (map (\<lambda>y. y @ xs) m)
    \<and> (if dbp_block_id b \<le> dbp_block_id e then data_from src b = xs @ data_from src e else xs = [])"
  using assms
proof (induction s src b e arbitrary: c m rule: ms_append_range.induct)
  case (1 s src b e)
  note unf = ms_append_range.simps[of s src b e]
  show ?case
  proof (cases "dbp_block_id b \<le> dbp_block_id e")
    case False
    then show ?thesis using unf "1.prems"(1) by (intro exI[of _ s] exI[of _ "[]"]) simp
  next
    case True
    then have b: "dbp_ok src b" "dbp_leq b e" using "1.prems"(4) by auto
    obtain blk where blk: "dbp_block src b = Some blk" "0 \<le> dbp_pos b" "dbp_pos b \<le> db_size blk"
      using b(1) by (rule dbp_okE)
    obtain eb where eb: "dbp_block src e = Some eb" "0 \<le> dbp_pos e" "dbp_pos e \<le> db_size eb"
      using "1.prems"(3) by (rule dbp_okE)
    have okb: "db_ok blk" using "1.prems"(2) blk(1) unfolding dbp_block_def by (rule bd_block_ok)
    let ?pe = "if dbp_block_id b = dbp_block_id e then dbp_pos e else db_size blk"
    have same: "eb = blk" if "dbp_block_id b = dbp_block_id e"
      using that blk(1) eb(1) by (simp add: dbp_block_def)
    have pe: "dbp_pos b \<le> ?pe" "?pe \<le> db_size blk"
      using b(2) blk eb(3) same by (auto simp: dbp_leq_def dbp_less_def dbp_equals_def)
    let ?xs = "take (nat (?pe - dbp_pos b)) (drop (nat (dbp_pos b)) (db_data blk))"
    obtain s1 where s1: "(if dbp_pos b < ?pe then
                   if dbp_pos b = 0 \<and> ?pe = db_buffer_size blk
                   then Some (ms_AppendBlock s blk)
                   else ms_AppendNewBlock s blk (dbp_pos b) ?pe
                 else Some s) = Some s1" "ms_is s1 (c @ ?xs) (map (\<lambda>y. y @ ?xs) m)"
      using append_piece_is[OF "1.prems"(1) okb blk(2) pe] by blast
    let ?b = "dbp_at (dbp_block_id b + 1) 0"
    have step: "ms_append_range s src b e = ms_append_range s1 src ?b e"
      unfolding unf if_P[OF True] blk(1) bind.bind_lunit Let_def s1(1) ..
    have next_ok: "dbp_ok src ?b \<and> dbp_leq ?b e \<or> dbp_block_id ?b = dbp_block_id e + 1"
    proof (cases "dbp_block_id b = dbp_block_id e")
      case False
      then have "dbp_ok src ?b"
        using True dbp_ok_range[OF b(1)] dbp_ok_range[OF "1.prems"(3)] "1.prems"(2)
        by (intro dbp_ok_at_0) auto
      moreover have "dbp_leq ?b e"
        using True False eb(2) by (auto simp: dbp_leq_def dbp_less_def dbp_equals_def)
      ultimately show ?thesis by simp
    qed simp
    obtain s' ys where r: "ms_append_range s1 src ?b e = Some s'"
        "ms_is s' ((c @ ?xs) @ ys) (map (\<lambda>y. y @ ys) (map (\<lambda>y. y @ ?xs) m))"
        "if dbp_block_id ?b \<le> dbp_block_id e then data_from src ?b = ys @ data_from src e else ys = []"
      using "1.IH"[OF True blk(1) refl refl s1(1) s1(2) "1.prems"(2,3) next_ok] by blast
    have "data_from src b = (?xs @ ys) @ data_from src e"
    proof (cases "dbp_block_id b = dbp_block_id e")
      case False
      then have "ys @ data_from src e = bd_data_from src (dbp_block_id b + 1)" using r(3) True by simp
      moreover have "?xs = drop (nat (dbp_pos b)) (db_data blk)"
        using False okb by (simp add: nat_diff_distrib' blk)
      ultimately show ?thesis using data_from_block[OF "1.prems"(2) blk] by simp
    next
      case eq: True
      have ys: "ys = []" using r(3) eq by simp
      have "data_from src e = drop (nat (dbp_pos e)) (db_data blk) @ bd_data_from src (dbp_block_id b + 1)"
        using data_from_block[OF "1.prems"(2) eb] same[OF eq] eq by simp
      moreover have "nat (dbp_pos e) = nat (dbp_pos e - dbp_pos b) + nat (dbp_pos b)"
        using pe eq blk(2) by simp
      ultimately have "?xs @ data_from src e = data_from src b"
        using eq data_from_block[OF "1.prems"(2) blk]
        by (simp add: drop_drop[symmetric] del: drop_drop)
      then show ?thesis using ys by simp
    qed
    then show ?thesis
      unfolding step using r(1,2) True
      by (intro exI[of _ s'] exI[of _ "?xs @ ys"]) (simp add: comp_def)
  qed
qed

lemma SkipToCurrentBlockEnd_eq:
  assumes "wr_ok q w"
  shows "dbp_SkipToCurrentBlockEnd q w = Some w"
  using assms by (auto simp: dbp_SkipToCurrentBlockEnd_def wr_ok_def dbp_wr_ok_def)

lemma AppendStreamNonDestructive_range_is:
  assumes "ms_is s c m" "bd_ok src" "dbp_ok src b" "dbp_ok src e" "dbp_leq b e"
  shows "\<exists>s' xs. ms_AppendStreamNonDestructive_range s src b e = Some s'
    \<and> ms_is s' (c @ xs) (map (\<lambda>y. y @ xs) m) \<and> data_from src b = xs @ data_from src e"
proof (cases "dbp_less b e")
  case True
  then have "dbp_block_id b \<le> dbp_block_id e" by (auto simp: dbp_less_def split: if_splits)
  then obtain s' xs where r: "ms_append_range s src b e = Some s'"
      "ms_is s' (c @ xs) (map (\<lambda>y. y @ xs) m)" "data_from src b = xs @ data_from src e"
    using ms_append_range_is[OF assms(1,2,4), of b] assms(3,5) by auto
  show ?thesis
    using r True SkipToCurrentBlockEnd_eq[OF ms_invD(4)[OF ms_is_inv[OF r(2)]]]
    by (intro exI[of _ s'] exI[of _ xs]) (simp add: ms_AppendStreamNonDestructive_range_def)
next
  case False
  then have "dbp_equals b e" using assms(5) by (simp add: dbp_leq_def)
  then have "data_from src b = data_from src e" by (simp add: dbp_equals_def data_from_def)
  then show ?thesis
    using assms(1) False SkipToCurrentBlockEnd_eq[OF ms_invD(4)[OF ms_is_inv[OF assms(1)]]]
    by (intro exI[of _ s] exI[of _ "[]"]) (simp add: ms_AppendStreamNonDestructive_range_def)
qed

lemma ms_AppendStreamNonDestructive_is:
  assumes "ms_is s c m" "ms_is t d n" "0 \<le> offset"
  shows "\<exists>s'. ms_AppendStreamNonDestructive s t offset len = Some s'
    \<and> ms_is s' (c @ (if 0 \<le> len then take (nat len) (drop (nat offset) d) else drop (nat offset) d))
        (map (\<lambda>y. y @ (if 0 \<le> len then take (nat len) (drop (nat offset) d) else drop (nat offset) d)) m)"
proof (cases rule: ms_GetReadPointer_cases[OF assms(2)])
  case 1
  then show ?thesis using assms(1) by (simp add: ms_AppendStreamNonDestructive_def)
next
  case 2
  let ?q = "ms_blocks t"
  note i = ms_invD[OF ms_is_inv[OF assms(2)]]
  obtain b where b: "dbp_Advance ?q (ms_GetReadPointer t) offset
        = Some (b, min offset (int (length d)))"
      "dbp_ok ?q b" "data_from ?q b = drop (nat offset) d"
    using dbp_Advance_loop_eq[OF i(2) 2(2) assms(3), of 0] 2(3) assms(3) by (auto simp: dbp_Advance_def)
  have w: "dbp_wr_ok ?q (ms_write t)" "dbp_block_id (ms_write t) + 1 = bd_end_id ?q"
    using i(4) 2(4) by (auto simp: wr_ok_def)
  have size: "ms_Size t = Some (int (length d))"
    using ms_Size_eq[OF ms_is_inv[OF assms(2)]] assms(2) by (simp add: ms_is_def)
  let ?xs = "if 0 \<le> len then take (nat len) (drop (nat offset) d) else drop (nat offset) d"
  obtain e where e: "(if len \<ge> 0
              then do {
                total \<leftarrow> ms_Size t;
                (e, _) \<leftarrow> dbp_Advance ?q b (min len total);
                Some e }
              else Some (ms_write t)) = Some e"
      "dbp_ok ?q e" "dbp_leq b e" "data_from ?q b = ?xs @ data_from ?q e"
  proof (cases "0 \<le> len")
    case True
    define l where "l = min len (int (length d))"
    have l: "0 \<le> l" using True by (simp add: l_def)
    obtain e where e: "dbp_Advance ?q b l = Some (e, min l (int (length (data_from ?q b))))"
        "dbp_ok ?q e" "data_from ?q e = drop (nat l) (data_from ?q b)" "dbp_leq b e"
      using dbp_Advance_loop_eq[OF i(2) b(2), of l 0] l by (auto simp: dbp_Advance_def)
    have "take (nat len) (data_from ?q b) = take (nat l) (data_from ?q b)"
      unfolding b(3) by (rule take_eq_min_length[of _ "length d"]) (auto simp: l_def)
    then show ?thesis
      using e True size l_def b(3) append_take_drop_id[of "nat l" "data_from ?q b"] by (intro that[of e]) auto
  next
    case False
    then show ?thesis
      using b(3) dbp_wr_ok_ok[OF i(2) w(1)] dbp_leq_wr_ok[OF i(2) b(2) w] dbp_wr_ok_data_from(2)[OF i(2) w(1)]
      by (intro that[of "ms_write t"]) auto
  qed
  show ?thesis
  proof (cases "ms_IsEmpty t")
    case True
    then have "d = []" using ms_IsEmpty_eq[OF ms_is_inv[OF assms(2)]] assms(2) by (simp add: ms_is_def)
    then show ?thesis
      using assms(1) True 2(1) b(1) e(1) by (simp add: ms_AppendStreamNonDestructive_def)
  next
    case False
    obtain s' xs where r: "ms_AppendStreamNonDestructive_range s ?q b e = Some s'"
        "ms_is s' (c @ xs) (map (\<lambda>y. y @ xs) m)" "data_from ?q b = xs @ data_from ?q e"
      using AppendStreamNonDestructive_range_is[OF assms(1) i(2) b(2) e(2,3)] by blast
    have "xs = ?xs" using r(3) e(4) by simp
    have "ms_AppendStreamNonDestructive s t offset len = Some s'"
      unfolding ms_AppendStreamNonDestructive_def Let_def if_not_P[OF 2(1)] b(1) bind.bind_lunit
        prod.case e(1) using False r(1) by simp
    then show ?thesis using r(2) \<open>xs = ?xs\<close> by blast
  qed
qed

lemma ms_AppendStream_is:
  assumes "ms_is s c m" "ms_is t d n"
  shows "\<exists>s' t'. ms_AppendStream s t len = Some (s', t')
    \<and> ms_is s' (c @ (if 0 \<le> len then take (nat len) d else d))
        (map (\<lambda>y. y @ (if 0 \<le> len then take (nat len) d else d)) m)
    \<and> ms_is t' (if 0 \<le> len then drop (nat len) d else []) n"
proof -
  obtain s' where s': "ms_AppendStreamNonDestructive s t 0 len = Some s'"
      "ms_is s' (c @ (if 0 \<le> len then take (nat len) d else d))
        (map (\<lambda>y. y @ (if 0 \<le> len then take (nat len) d else d)) m)"
    using ms_AppendStreamNonDestructive_is[OF assms, of 0 len] by (simp only: nat_0 drop_0) blast
  have size: "ms_Size t = Some (int (length d))"
    using ms_Size_eq[OF ms_is_inv[OF assms(2)]] assms(2) by (simp add: ms_is_def)
  let ?k = "if 0 \<le> len \<and> len < int (length d) then len else int (length d)"
  have k: "0 \<le> ?k" by simp
  obtain t' where t': "ms_Skip t ?k = Some (min ?k (int (length d)), t')" "ms_is t' (drop (nat ?k) d) n"
    using ms_Skip_is[OF assms(2) k] by blast
  have "drop (nat ?k) d = (if 0 \<le> len then drop (nat len) d else [])" by auto
  then show ?thesis using s' t' size by (auto simp: ms_AppendStream_def)
qed

section \<open>Scratch space\<close>

lemma bd_put_put: "bd_put_block (bd_put_block q i b) i b' = bd_put_block q i b'"
  by (simp add: bd_put_block_def)

lemma db_poke_set_size:
  "db_poke off bs (db_set_size n b) = map_option (db_set_size n) (db_poke off bs b)"
  by (cases b) (auto simp: db_poke_def db_set_size_def db_mutable_buffer_def db_buffer_size_def)

lemma db_set_size_twice [simp]: "db_set_size n (db_set_size k b) = db_set_size n b"
  by (simp add: db_set_size_def)

lemma db_set_size_simps [simp]:
  "db_size (db_set_size n b) = n" "db_buffer_size (db_set_size n b) = db_buffer_size b"
  "db_writable (db_set_size n b) = db_writable b"
  by (auto simp: db_set_size_def db_buffer_size_def)

lemma dbp_Advance_in_block:
  assumes "dbp_block q p = Some b" "dbp_pos p + k \<le> db_size b" "0 \<le> k" "dbp_pos p < db_size b"
    and "dbp_block_id p + 1 = bd_end_id q"
  shows "dbp_Advance q p k = Some (p\<lparr>dbp_pos := dbp_pos p + k\<rparr>, k)"
proof (cases "k = 0")
  case True
  then show ?thesis using assms by (simp add: dbp_Advance_def dbp_Advance_loop.simps[of q p])
next
  case False
  then have "min (db_size b - dbp_pos p) k = k" using assms by simp
  then show ?thesis
    using assms False
    by (simp add: dbp_Advance_def dbp_Advance_loop.simps[of q p]
        dbp_Advance_loop.simps[of q "p\<lparr>dbp_pos := dbp_pos p + k\<rparr>"] Let_def)
qed

text \<open>What \<^verbatim>\<open>GetScratchSpace\<close> hands out: the free rest of the last block.\<close>

lemma ms_GetScratchSpace_eq:
  assumes "ms_is s c m"
  obtains q w b where "ms_GetScratchSpace s = Some (db_buffer_size b - db_size b,
      s\<lparr>ms_blocks := bd_put_block q (dbp_block_id w) (db_set_size (db_buffer_size b) b),
        ms_write := w\<lparr>dbp_pos := db_buffer_size b\<rparr>,
        ms_invalid_markers_size := True, ms_scratch := w\<rparr>)"
    "at_block q w 1" "dbp_block q w = Some b" "\<not> db_full b"
    "bd_appends (bd_last (ms_blocks s)) (ms_blocks s) q []" "bd_last (ms_blocks s) \<le> dbp_block_id w"
proof -
  note i = ms_invD[OF ms_is_inv[OF assms]]
  let ?q = "ms_blocks s"
  obtain avail where avail: "dbp_AvailableForWrite ?q (ms_write s) = Some avail"
      "dbp_IsNull (ms_write s) \<or> (\<exists>b. dbp_block ?q (ms_write s) = Some b
          \<and> avail = db_buffer_size b - db_size b \<and> dbp_pos (ms_write s) = db_size b)"
  proof (cases "dbp_IsNull (ms_write s)")
    case True
    then show ?thesis using that by (simp add: dbp_AvailableForWrite_def)
  next
    case False
    then obtain b where "dbp_block ?q (ms_write s) = Some b" "dbp_pos (ms_write s) = db_size b"
      using i(4) by (auto simp: wr_ok_def dbp_wr_ok_def)
    then show ?thesis using that False by (simp add: dbp_AvailableForWrite_def)
  qed
  obtain q w b where
      st: "(if dbp_IsNull (ms_write s) \<or> avail = 0
               then do {
                 b \<leftarrow> db_new (ms_block_size s);
                 let q = bd_push_back b (ms_blocks s);
                 Some (s\<lparr>ms_blocks := q, ms_write := dbp_at (bd_end_id q - 1) 0\<rparr>) }
               else Some s) = Some (s\<lparr>ms_blocks := q, ms_write := w\<rparr>)"
      and at: "at_block q w 1" "dbp_block q w = Some b" "\<not> db_full b"
      and ap: "bd_appends (bd_last ?q) ?q q []" "bd_last ?q \<le> dbp_block_id w"
  proof (cases "dbp_IsNull (ms_write s) \<or> avail = 0")
    case True
    obtain b where b: "db_new (ms_block_size s) = Some b" using i(1) by (simp add: db_new_def)
    note bo = db_new_ok[OF b]
    let ?w = "dbp_at (bd_end_id ?q) 0"
    have blk: "bd_block (bd_push_back b ?q) (bd_end_id ?q) = Some b" using i(2) by (simp add: bd_block_push)
    have "dbp_wr_ok (bd_push_back b ?q) ?w"
      by (rule dbp_wr_okI[of _ _ b]) (use blk bo in \<open>auto simp: bd_block_def split: if_splits\<close>)
    then have "at_block (bd_push_back b ?q) ?w 1" using bo i(2) by (simp add: at_block_def)
    moreover have "bd_appends (bd_last ?q) ?q (bd_push_back b ?q) []"
      using bd_appends_push[OF i(2), of b "bd_last ?q"] bo bd_okD(5)[OF i(2)] by (simp add: bd_last_def)
    moreover have "bd_last ?q \<le> dbp_block_id ?w" using bd_okD(5)[OF i(2)] by (simp add: bd_last_def)
    moreover have "\<not> db_full b" using bo i(1) by (simp add: db_full_def)
    ultimately show ?thesis using that[of ?w "bd_push_back b ?q" b] True b blk by simp
  next
    case False
    then obtain b where b: "dbp_block ?q (ms_write s) = Some b" "avail = db_buffer_size b - db_size b"
      using avail(2) by blast
    have w: "dbp_wr_ok ?q (ms_write s)" "dbp_block_id (ms_write s) + 1 = bd_end_id ?q"
      using i(4) False by (auto simp: wr_ok_def)
    have "bd_last ?q \<le> dbp_block_id (ms_write s)"
      using w(2) dbp_ok_range[OF dbp_wr_ok_ok[OF i(2) w(1)]] by (simp add: bd_last_def)
    moreover have "\<not> db_full b" using b False by (simp add: db_full_def)
    ultimately show ?thesis
      using that[of "ms_write s" ?q b] False w i(2) b(1) by (simp add: at_block_def bd_appends_refl)
  qed
  have nn: "\<not> dbp_IsNull w"
    using at(1) dbp_ok_not_null[OF _ dbp_wr_ok_ok] by (auto simp: at_block_def)
  have pos: "dbp_pos w = db_size b" using at(1,2) dbp_wr_ok_pos by (auto simp: at_block_def)
  have "ms_GetScratchSpace s = Some (db_buffer_size b - db_size b,
      s\<lparr>ms_blocks := bd_put_block q (dbp_block_id w) (db_set_size (db_buffer_size b) b),
        ms_write := w\<lparr>dbp_pos := db_buffer_size b\<rparr>,
        ms_invalid_markers_size := True, ms_scratch := w\<rparr>)"
    unfolding ms_GetScratchSpace_def avail(1) bind.bind_lunit st
    using i(3) at(2) nn pos by (cases s) (simp add: dbp_AdvanceToCurrentBlockEnd_def Let_def)
  then show ?thesis using that at ap by blast
qed

lemma ms_scratch_is:
  assumes "ms_is s c m"
  shows "\<exists>n s1. ms_GetScratchSpace s = Some (n, s1) \<and> 0 < n
    \<and> (\<forall>bs. int (length bs) \<le> n \<longrightarrow>
        (\<exists>s2 s3. ms_fill_scratch s1 bs = Some s2 \<and> ms_ConfirmScratch s2 (int (length bs)) = Some s3
          \<and> ms_is s3 (c @ bs) (map (\<lambda>y. y @ bs) m)))"
proof -
  note i = ms_invD[OF ms_is_inv[OF assms]]
  let ?q0 = "ms_blocks s"
  obtain q w b where g: "ms_GetScratchSpace s = Some (db_buffer_size b - db_size b,
      s\<lparr>ms_blocks := bd_put_block q (dbp_block_id w) (db_set_size (db_buffer_size b) b),
        ms_write := w\<lparr>dbp_pos := db_buffer_size b\<rparr>,
        ms_invalid_markers_size := True, ms_scratch := w\<rparr>)"
    and at: "at_block q w 1" "dbp_block q w = Some b" "\<not> db_full b"
    and ap: "bd_appends (bd_last ?q0) ?q0 q []" "bd_last ?q0 \<le> dbp_block_id w"
    using ms_GetScratchSpace_eq[OF assms] by blast
  let ?i = "dbp_block_id w"
  have q: "bd_ok q" "dbp_wr_ok q w" "?i + 1 = bd_end_id q" using at(1) by (auto simp: at_block_def)
  have w: "\<not> dbp_IsNull w" using dbp_ok_not_null[OF q(1) dbp_wr_ok_ok[OF q(1,2)]] .
  have r: "bd_begin_id q \<le> ?i" using dbp_ok_range[OF dbp_wr_ok_ok[OF q(1,2)]] by simp
  note bo = dbp_wr_ok_fresh_full[OF q(1,2) at(2)]
  have lt: "db_size b < db_buffer_size b"
    using at(3) db_ok_sizes(2)[OF bo(1)] by (simp add: db_full_def)
  have wr: "db_writable b" using bo(3) at(3) by simp
  let ?q1 = "bd_put_block q ?i (db_set_size (db_buffer_size b) b)"
  let ?s1 = "s\<lparr>ms_blocks := ?q1, ms_write := w\<lparr>dbp_pos := db_buffer_size b\<rparr>,
        ms_invalid_markers_size := True, ms_scratch := w\<rparr>"
  have "\<exists>s2 s3. ms_fill_scratch ?s1 bs = Some s2 \<and> ms_ConfirmScratch s2 (int (length bs)) = Some s3
          \<and> ms_is s3 (c @ bs) (map (\<lambda>y. y @ bs) m)"
    if fits: "int (length bs) \<le> db_buffer_size b - db_size b" for bs
  proof -
    let ?k = "int (length bs)"
    obtain b' where b': "db_poke (db_size b) bs b = Some b'"
        "db_ok (db_set_size (db_size b' + ?k) b')" "db_data (db_set_size (db_size b' + ?k) b') = db_data b @ bs"
        "db_size b' = db_size b" "db_buffer_size b' = db_buffer_size b" "db_writable b'"
      using db_poke_append[OF bo(1) wr, of bs] fits by (metis le_diff_eq add.commute)
    let ?bf = "db_set_size (db_buffer_size b) b'"
    let ?q2 = "bd_put_block q ?i ?bf"
    let ?b3 = "db_set_size (db_size b + ?k) b'"
    let ?q3 = "bd_put_block q ?i ?b3"
    let ?w3 = "w\<lparr>dbp_pos := dbp_pos w + ?k\<rparr>"
    have blk: "bd_block (bd_put_block q ?i x) ?i = Some x" for x
      using q r by (simp add: bd_block_put)
    have fill: "ms_fill_scratch ?s1 bs = Some (?s1\<lparr>ms_blocks := ?q2\<rparr>)"
      using b'(1) bo(2) blk by (simp add: ms_fill_scratch_def dbp_block_def db_poke_set_size bd_put_put)
    have adv: "dbp_Advance ?q2 w ?k = Some (?w3, ?k)"
      using bo(2) fits lt q(3) by (intro dbp_Advance_in_block[where b = ?bf]) (auto simp: dbp_block_def blk)
    let ?s3 = "s\<lparr>ms_blocks := ?q3, ms_write := ?w3, ms_invalid_markers_size := True,
        ms_scratch := dbp_Clear, ms_size := ms_size s + ?k\<rparr>"
    have conf: "ms_ConfirmScratch (?s1\<lparr>ms_blocks := ?q2\<rparr>) ?k = Some ?s3"
      using w adv blk bo(2)
      by (cases s) (simp add: ms_ConfirmScratch_def dbp_MarkCurrentBlockEndAtPointer_def dbp_block_def bd_put_put)
    have ok3: "bd_ok ?q3" using b'(2,4) q r by (intro bd_put_block_ok) auto
    have gr: "bd_grows q ?q3"
      using q(1) at(2,3) by (intro bd_grows_put) (auto simp: dbp_block_def)
    have "bd_data_from ?q3 j = bd_data_from q j @ bs" if "bd_begin_id q \<le> j" "j \<le> ?i" for j
      using that q b'(2-4) at(2) dbp_wr_ok_data_from(1)[OF q(1,2)]
      by (intro bd_data_from_put[of q ?i b]) (auto simp: dbp_block_def)
    then have "bd_appends (bd_last ?q0) q ?q3 bs"
      using ok3 gr ap(2) by (auto simp: bd_appends_def)
    then have ap3: "bd_appends (bd_last ?q0) ?q0 ?q3 bs" using bd_appends_trans[OF ap(1)] by simp
    have "dbp_wr_ok ?q3 ?w3"
    proof (rule dbp_wr_okI[of _ _ ?b3])
      show "dbp_block ?q3 ?w3 = Some ?b3" by (simp add: dbp_block_def blk)
      show "dbp_pos ?w3 = db_size ?b3" using bo(2) by simp
      show "db_size d = 0 \<and> db_writable d" if "dbp_block_id ?w3 < j" "bd_block ?q3 j = Some d" for j d
        using that q(3) by (auto simp: bd_block_def split: if_splits)
    qed
    then have wr3: "wr_ok ?q3 ?w3" using q(3) w by (simp add: wr_ok_def dbp_IsNull_def)
    have "ms_is (?s3\<lparr>ms_scratch := ms_scratch s\<rparr>) (c @ bs) (map (\<lambda>y. y @ bs) m)"
      using ms_appended_is[OF assms ap3 wr3] by (cases s) simp
    then have "ms_is ?s3 (c @ bs) (map (\<lambda>y. y @ bs) m)"
      by (cases s) (simp add: ms_is_def ms_inv_def ms_content_def ms_marks_def dbp_Clear_def)
    then show ?thesis using fill conf by blast
  qed
  then show ?thesis using g lt by auto
qed

section \<open>Comparing\<close>

lemma take_128_eq:
  fixes c d :: "'a list"
  shows "take 128 c = take 128 d \<and> drop 128 c = drop 128 d \<longleftrightarrow> c = d"
  by (metis append_take_drop_id)

lemma ms_Equals_loop_is:
  assumes "ms_is a c m" "ms_is b d n"
  shows "\<exists>a' b' c' d'. ms_Equals_loop a b = Some (c = d, a', b') \<and> ms_is a' c' m \<and> ms_is b' d' n"
  using assms
proof (induction "length c" arbitrary: a b c d rule: less_induct)
  case less
  obtain a' where a': "ms_Read a 128 = Some (take 128 c, a')" "ms_is a' (drop 128 c) m"
    using ms_Read_is[OF less.prems(1), of 128] by auto
  obtain b' where b': "ms_Read b 128 = Some (take 128 d, b')" "ms_is b' (drop 128 d) n"
    using ms_Read_is[OF less.prems(2), of 128] by auto
  have ea: "length (take 128 c) = 128 \<or> ms_IsEmpty a'" and eb: "length (take 128 d) = 128 \<or> ms_IsEmpty b'"
    using ms_IsEmpty_eq[OF ms_is_inv[OF a'(2)]] ms_IsEmpty_eq[OF ms_is_inv[OF b'(2)]] a'(2) b'(2)
    by (auto simp: ms_is_def)
  note unf = ms_Equals_loop.simps[of a b]
  consider (differ) "take 128 c \<noteq> take 128 d" | (finish) "take 128 c = take 128 d" "c = []"
    | (more) "take 128 c = take 128 d" "c \<noteq> []" by blast
  then show ?case
  proof cases
    case differ
    then have "c \<noteq> d" by auto
    then show ?thesis
      using unf a' b' ea eb differ
      by (intro exI[of _ a'] exI[of _ b'] exI[of _ "drop 128 c"] exI[of _ "drop 128 d"]) auto
  next
    case finish
    then have "d = []" by (simp add: eq_commute)
    then show ?thesis
      using unf a' b' ea eb finish
      by (intro exI[of _ a'] exI[of _ b'] exI[of _ "[]"] exI[of _ "[]"]) auto
  next
    case more
    have "length (drop 128 c) < length c" using more by simp
    then obtain a2 b2 c2 d2 where r: "ms_Equals_loop a' b' = Some (drop 128 c = drop 128 d, a2, b2)"
        "ms_is a2 c2 m" "ms_is b2 d2 n"
      using less.hyps[OF _ a'(2) b'(2)] by blast
    have "ms_Equals_loop a b = ms_Equals_loop a' b'"
      using unf a'(1) b'(1) ea eb more by (cases c) auto
    moreover have "(drop 128 c = drop 128 d) = (c = d)" using more take_128_eq[of c d] by blast
    ultimately show ?thesis using r by auto
  qed
qed

lemma ms_Equals_is:
  assumes "ms_is a c m" "ms_is b d n"
  shows "\<exists>a' b'. ms_Equals a b = Some (c = d, a', b') \<and> ms_is a' c m \<and> ms_is b' d n"
proof -
  have size: "ms_Size a = Some (int (length c))" "ms_Size b = Some (int (length d))"
    using ms_Size_eq[OF ms_is_inv[OF assms(1)]] ms_Size_eq[OF ms_is_inv[OF assms(2)]] assms
    by (auto simp: ms_is_def)
  show ?thesis
  proof (cases "length c = length d")
    case False
    then have "c \<noteq> d" by auto
    then show ?thesis using False size assms by (auto simp: ms_Equals_def)
  next
    case True
    obtain a1 b1 c1 d1 where l: "ms_Equals_loop (ms_MarkerSet a) (ms_MarkerSet b) = Some (c = d, a1, b1)"
        "ms_is a1 c1 (c # m)" "ms_is b1 d1 (d # n)"
      using ms_Equals_loop_is[OF ms_MarkerSet_is[OF assms(1)] ms_MarkerSet_is[OF assms(2)]] by blast
    obtain a2 b2 where "ms_MarkerRestore a1 = Some a2" "ms_is a2 c m" "ms_MarkerRestore b1 = Some b2" "ms_is b2 d n"
      using ms_MarkerRestore_is[OF l(2)] ms_MarkerRestore_is[OF l(3)] by blast
    then show ?thesis using l(1) size True by (simp add: ms_Equals_def)
  qed
qed

end
