(* ===== verification/BlockText.thy ===== *)
theory BlockText
  imports StreamContent
begin

text \<open>
  Reading text from a memory stream: lines (\<^verbatim>\<open>ReadUntilChar\<close>, \<^verbatim>\<open>ReadLFLine\<close>,
  \<^verbatim>\<open>ReadLine\<close>) and tokens (\<^verbatim>\<open>ReadNextAsciiToken\<close>) of \<^verbatim>\<open>data_block.cc\<close> and
  \<^verbatim>\<open>memory_stream.h\<close>, which the HTTP and JSON parsers are built on.  The loops walk over
  the blocks; the theorems say that the block boundaries cannot be seen: the result is that of
  a scanner over the content of the stream.
\<close>

section \<open>Characters\<close>

definition c_ERROR :: "8 word" where "c_ERROR = 1"
definition c_QUOTE :: "8 word" where "c_QUOTE = 2"
definition c_SEP :: "8 word" where "c_SEP = 4"
definition c_CHAR :: "8 word" where "c_CHAR = 8"
definition c_SPACE :: "8 word" where "c_SPACE = 16"

text \<open>The table \<^verbatim>\<open>kCharLookup\<close>, row by row of 16 characters.\<close>

definition kCharLookup :: "8 word list" where
  "kCharLookup =
    (let E = c_ERROR; Q = c_QUOTE OR c_SEP; P = c_SEP; C = c_CHAR; S = c_SPACE in
     [E,E,E,E,E,E,E,E,E,S,S,E,E,S,E,E,
      E,E,E,E,E,E,E,E,E,E,E,E,E,E,E,E,
      S,P,Q,P,P,P,P,Q,P,P,P,C,P,C,C,C,
      C,C,C,C,C,C,C,C,C,C,P,P,P,P,P,C,
      C,C,C,C,C,C,C,C,C,C,C,C,C,C,C,C,
      C,C,C,C,C,C,C,C,C,C,C,P,P,P,P,C,
      P,C,C,C,C,C,C,C,C,C,C,C,C,C,C,C,
      C,C,C,C,C,C,C,C,C,C,C,P,P,P,P,C] @ replicate 128 E)"

definition AttrIsSpace :: "byte \<Rightarrow> bool" where
  "AttrIsSpace c \<longleftrightarrow> kCharLookup ! unat c AND c_SPACE \<noteq> 0"

definition AttrIsQuote :: "byte \<Rightarrow> bool" where
  "AttrIsQuote c \<longleftrightarrow> kCharLookup ! unat c AND c_QUOTE \<noteq> 0"

definition AttrIsError :: "byte \<Rightarrow> bool" where
  "AttrIsError c \<longleftrightarrow> kCharLookup ! unat c AND c_ERROR \<noteq> 0"

definition AttrIsSep :: "byte \<Rightarrow> bool" where
  "AttrIsSep c \<longleftrightarrow> kCharLookup ! unat c AND c_SEP \<noteq> 0"

definition AttrIsChar :: "byte \<Rightarrow> bool" where
  "AttrIsChar c \<longleftrightarrow> kCharLookup ! unat c AND c_CHAR \<noteq> 0"

section \<open>Lines\<close>

definition dbp_ReadStringData :: "block_dqueue \<Rightarrow> dbp \<Rightarrow> int \<Rightarrow> (bytes \<times> dbp) option" where
  "dbp_ReadStringData q p len = dbp_ReadData q p len"

definition dbp_ReadToString :: "block_dqueue \<Rightarrow> dbp \<Rightarrow> (bytes \<times> dbp) option" where
  "dbp_ReadToString q p = do {
     len \<leftarrow> dbp_ReadableSize q p;
     (s, p') \<leftarrow> dbp_ReadStringData q p len;
     (if int (length s) = len then Some (s, p') else None) }"

text \<open>
  The loop of \<^verbatim>\<open>ReadUntilChar\<close>: the number of bytes up to and including \<open>fin\<close>;
  \<open>Some None\<close> when the queue ends first.
\<close>

function dbp_until_loop :: "block_dqueue \<Rightarrow> dbp \<Rightarrow> byte \<Rightarrow> int \<Rightarrow> int option option" where
  "dbp_until_loop q p fin len =
     (case dbp_block q p of
        None \<Rightarrow> None
      | Some b \<Rightarrow>
          (case (if dbp_pos p = db_size b then dbp_AdvanceToNextBlock q p else Some p) of
             None \<Rightarrow> Some None
           | Some p' \<Rightarrow>
               (case dbp_block q p' of
                  None \<Rightarrow> None
                | Some b' \<Rightarrow>
                    (case db_peek (dbp_pos p') 1 b' of
                       None \<Rightarrow> None
                     | Some cs \<Rightarrow>
                         if hd cs = fin then Some (Some (len + 1))
                         else dbp_until_loop q (p'\<lparr>dbp_pos := dbp_pos p' + 1\<rparr>) fin (len + 1)))))"
  by pat_completeness auto
termination
  by (relation "measures [\<lambda>(q, p, fin, len). nat (bd_end_id q - dbp_block_id p),
                          \<lambda>(q, p, fin, len). case dbp_block q p of None \<Rightarrow> 0
                             | Some b \<Rightarrow> nat (db_buffer_size b - dbp_pos p)]")
     (auto simp: db_peek_def dbp_AdvanceToNextBlock_def dbp_block_def bd_block_def dbp_at_def
        dest!: dbp_next_nonempty_ge split: if_splits option.splits)

declare dbp_until_loop.simps [simp del]

definition dbp_ReadUntilChar :: "block_dqueue \<Rightarrow> dbp \<Rightarrow> byte \<Rightarrow> (bytes option \<times> dbp) option" where
  "dbp_ReadUntilChar q p fin = do {
     r \<leftarrow> dbp_until_loop q p fin 0;
     (case r of
        None \<Rightarrow> Some (None, p)
      | Some len \<Rightarrow> do { (s, p') \<leftarrow> dbp_ReadStringData q p len; Some (Some s, p') }) }"

definition dbp_ReadLFLine :: "block_dqueue \<Rightarrow> dbp \<Rightarrow> (bytes option \<times> dbp) option" where
  "dbp_ReadLFLine q p = dbp_ReadUntilChar q p 10"

definition ms_ReadLFLine :: "memory_stream \<Rightarrow> (bytes option \<times> memory_stream) option" where
  "ms_ReadLFLine s =
     (let (ok, s1) = ms_MaybeInitReadPointer s in
      if \<not> ok then Some (None, s1)
      else do {
        (r, p) \<leftarrow> dbp_ReadLFLine (ms_blocks s1) (ms_read s1);
        (case r of
           None \<Rightarrow> Some (None, s1\<lparr>ms_read := p\<rparr>)
         | Some l \<Rightarrow> Some (Some l, s1\<lparr>ms_read := p, ms_size := ms_size s1 - int (length l)\<rparr>)) })"

text \<open>\<^verbatim>\<open>StrTrimCRLFInPlace\<close>: count the CR and LF at the end, then erase them.\<close>

fun str_crlf_count :: "bytes \<Rightarrow> nat" where
  "str_crlf_count [] = 0"
| "str_crlf_count (c # cs) = (if c = 10 \<or> c = 13 then Suc (str_crlf_count cs) else 0)"

definition StrTrimCRLFInPlace :: "bytes \<Rightarrow> bytes" where
  "StrTrimCRLFInPlace s = take (length s - str_crlf_count (rev s)) s"

definition ms_ReadLine :: "memory_stream \<Rightarrow> (bytes option \<times> memory_stream) option" where
  "ms_ReadLine s = do {
     (r, s') \<leftarrow> ms_ReadLFLine s;
     Some (map_option StrTrimCRLFInPlace r, s') }"

section \<open>Tokens\<close>

datatype token_result = TOKEN_OK | TOKEN_QUOTED_OK | TOKEN_SEP_OK | TOKEN_ERROR_CHAR | TOKEN_NO_DATA

text \<open>
  The loop of \<^verbatim>\<open>ReadNextAsciiToken\<close>: \<open>begin\<close> is the start of the token, \<open>len\<close> its
  length so far, \<open>quote\<close> the quote it began with (\<open>0\<close> for none), \<open>esc\<close> whether the last
  character was a backslash.  The result is the code, the token if there is one, the pointer
  and \<^verbatim>\<open>len_covered\<close>.
\<close>

function dbp_token_loop ::
    "block_dqueue \<Rightarrow> dbp \<Rightarrow> dbp \<Rightarrow> dbp \<Rightarrow> int \<Rightarrow> int \<Rightarrow> byte \<Rightarrow> bool
      \<Rightarrow> (token_result \<times> bytes option \<times> dbp \<times> int) option" where
  "dbp_token_loop q saved p bgn len skipped quote esc =
     (case dbp_block q p of
        None \<Rightarrow> None
      | Some b \<Rightarrow>
          if dbp_pos p = db_size b then
            (case dbp_AdvanceToNextBlock q p of
               None \<Rightarrow> Some (TOKEN_NO_DATA, None, saved, 0)
             | Some p' \<Rightarrow> dbp_token_loop q saved p' bgn len skipped quote esc)
          else
            (case db_peek (dbp_pos p) 1 b of
               None \<Rightarrow> None
             | Some cs \<Rightarrow>
                 let c = hd cs; p1 = p\<lparr>dbp_pos := dbp_pos p + 1\<rparr> in
                 if quote = 0 then
                   if AttrIsError c then Some (TOKEN_ERROR_CHAR, None, saved, 0)
                   else if len \<noteq> 0 then
                     if AttrIsChar c
                     then dbp_token_loop q saved p1 bgn (len + 1) skipped quote esc
                     else do { (s, p') \<leftarrow> dbp_ReadStringData q bgn len;
                               Some (TOKEN_OK, Some s, p', len + skipped) }
                   else if AttrIsQuote c
                     then dbp_token_loop q saved p1 p (len + 1) skipped c esc
                   else if AttrIsSep c
                     then do { (p', _) \<leftarrow> dbp_Advance q p 1;
                               Some (TOKEN_SEP_OK, Some [c], p', 1 + skipped) }
                   else if AttrIsSpace c
                     then dbp_token_loop q saved p1 bgn len (skipped + 1) quote esc
                   else dbp_token_loop q saved p1 p (len + 1) skipped quote esc
                 else
                   if quote = c \<and> \<not> esc
                   then do { (s, p') \<leftarrow> dbp_ReadStringData q bgn (len + 1);
                             Some (TOKEN_QUOTED_OK, Some s, p', len + skipped + 1) }
                   else dbp_token_loop q saved p1 bgn (len + 1) skipped quote (\<not> esc \<and> c = 92)))"
  by pat_completeness auto
termination
  by (relation "measures [\<lambda>(q, sv, p, bg, len, sk, qu, esc). nat (bd_end_id q - dbp_block_id p),
                          \<lambda>(q, sv, p, bg, len, sk, qu, esc). case dbp_block q p of None \<Rightarrow> 0
                             | Some b \<Rightarrow> nat (db_buffer_size b - dbp_pos p)]")
     (auto simp: db_peek_def dbp_AdvanceToNextBlock_def dbp_block_def bd_block_def dbp_at_def
        dest!: dbp_next_nonempty_ge split: if_splits option.splits)

declare dbp_token_loop.simps [simp del]

definition dbp_ReadNextAsciiToken ::
    "block_dqueue \<Rightarrow> dbp \<Rightarrow> (token_result \<times> bytes option \<times> dbp \<times> int) option" where
  "dbp_ReadNextAsciiToken q p = dbp_token_loop q p p p 0 0 0 False"

definition ms_ReadNextAsciiToken ::
    "memory_stream \<Rightarrow> (token_result \<times> bytes option \<times> memory_stream) option" where
  "ms_ReadNextAsciiToken s =
     (let (ok, s1) = ms_MaybeInitReadPointer s in
      if \<not> ok then Some (TOKEN_NO_DATA, None, s1)
      else do {
        (r, tok, p, len) \<leftarrow> dbp_ReadNextAsciiToken (ms_blocks s1) (ms_read s1);
        Some (r, tok, s1\<lparr>ms_read := p, ms_size := ms_size s1 - len\<rparr>) })"

section \<open>The scanner on the content\<close>

text \<open>
  What the token loop computes, on the bytes themselves: the result, the token and the unread
  rest.  \<open>tok\<close> holds the characters of the token so far.
\<close>

fun lex_token :: "bytes \<Rightarrow> bytes \<Rightarrow> byte \<Rightarrow> bool \<Rightarrow> (token_result \<times> bytes \<times> bytes) option" where
  "lex_token [] tok quote esc = None"
| "lex_token (c # cs) tok quote esc =
     (if quote = 0 then
        if AttrIsError c then Some (TOKEN_ERROR_CHAR, [], [])
        else if tok \<noteq> [] then
          if AttrIsChar c then lex_token cs (tok @ [c]) quote esc
          else Some (TOKEN_OK, tok, c # cs)
        else if AttrIsQuote c then lex_token cs [c] c esc
        else if AttrIsSep c then Some (TOKEN_SEP_OK, [c], cs)
        else if AttrIsSpace c then lex_token cs [] quote esc
        else lex_token cs [c] quote esc
      else
        if quote = c \<and> \<not> esc then Some (TOKEN_QUOTED_OK, tok @ [c], cs)
        else lex_token cs (tok @ [c]) quote (\<not> esc \<and> c = 92))"

definition lex :: "bytes \<Rightarrow> token_result \<times> bytes option \<times> bytes" where
  "lex s = (case lex_token s [] 0 False of
       None \<Rightarrow> (TOKEN_NO_DATA, None, s)
     | Some (r, tok, rest) \<Rightarrow>
         if r = TOKEN_ERROR_CHAR then (TOKEN_ERROR_CHAR, None, s) else (r, Some tok, rest))"

section \<open>The loops see only the content\<close>

lemma block_char:
  assumes "bd_ok q" "dbp_ok q p" "dbp_block q p = Some b" "dbp_pos p \<noteq> db_size b"
  obtains c where "db_peek (dbp_pos p) 1 b = Some [c]"
    "data_from q p = c # data_from q (p\<lparr>dbp_pos := dbp_pos p + 1\<rparr>)"
    "dbp_ok q (p\<lparr>dbp_pos := dbp_pos p + 1\<rparr>)" "dbp_leq p (p\<lparr>dbp_pos := dbp_pos p + 1\<rparr>)"
proof -
  have p: "0 \<le> dbp_pos p" "dbp_pos p + 1 \<le> db_size b"
    using assms(2-4) by (auto simp: dbp_ok_def)
  have okb: "db_ok b" using assms(1,3) unfolding dbp_block_def by (rule bd_block_ok)
  have pk: "db_peek (dbp_pos p) 1 b = Some (take 1 (data_from q p))"
    using data_from_take_block[OF assms(1,3) p(1), of 1] p(2) db_peek_data[OF okb p(1) _ p(2)] by simp
  have "data_from q p \<noteq> []"
    using length_data_from_block[OF assms(1,3) p(1)] p by auto
  then obtain c cs where d: "data_from q p = c # cs" by (cases "data_from q p") auto
  have "data_from q (p\<lparr>dbp_pos := dbp_pos p + 1\<rparr>) = cs"
    using data_from_forward[OF p(1), of 1 q] d by simp
  moreover have "dbp_ok q (p\<lparr>dbp_pos := dbp_pos p + 1\<rparr>)"
    using p assms(3) by (simp add: dbp_ok_def)
  ultimately show ?thesis using pk d by (intro that[of c]) (auto simp: dbp_leq_pos)
qed

lemma dbp_until_loop_eq:
  assumes "bd_ok q" "dbp_ok q p"
  shows "dbp_until_loop q p fin len = Some (if fin \<in> set (data_from q p)
      then Some (len + 1 + int (length (takeWhile (\<lambda>c. c \<noteq> fin) (data_from q p)))) else None)"
  using assms
proof (induction q p fin len rule: dbp_until_loop.induct)
  case (1 q p fin len)
  obtain b where b: "dbp_block q p = Some b" "0 \<le> dbp_pos p" "dbp_pos p \<le> db_size b"
    using "1.prems"(2) by (rule dbp_okE)
  note unf = dbp_until_loop.simps[of q p fin len]
  define r where "r = (if dbp_pos p = db_size b then dbp_AdvanceToNextBlock q p else Some p)"
  show ?case
  proof (cases r)
    case None
    then have "data_from q p = []"
      using dbp_AdvanceToNextBlock_None[OF "1.prems" b(1)] by (auto simp: r_def split: if_splits)
    moreover have "dbp_until_loop q p fin len = Some None"
      using b(1) None unfolding unf by (simp add: r_def)
    ultimately show ?thesis by simp
  next
    case (Some p')
    obtain b' where b': "dbp_block q p' = Some b'" "dbp_ok q p'" "dbp_pos p' \<noteq> db_size b'"
        "data_from q p' = data_from q p"
    proof (cases "dbp_pos p = db_size b")
      case True
      then have adv: "dbp_AdvanceToNextBlock q p = Some p'" using Some by (simp add: r_def)
      note a = dbp_AdvanceToNextBlock_Some[OF "1.prems" b(1) True adv]
      from a(1) obtain b' where "dbp_block q p' = Some b'" by (rule dbp_okE)
      then show ?thesis using that a by fastforce
    next
      case False
      then show ?thesis using that[of b] Some b(1) "1.prems"(2) by (simp add: r_def)
    qed
    obtain c where c: "db_peek (dbp_pos p') 1 b' = Some [c]"
        "data_from q p' = c # data_from q (p'\<lparr>dbp_pos := dbp_pos p' + 1\<rparr>)"
        "dbp_ok q (p'\<lparr>dbp_pos := dbp_pos p' + 1\<rparr>)"
      using block_char[OF "1.prems"(1) b'(2,1,3)] by blast
    have step: "dbp_until_loop q p fin len = (if c = fin then Some (Some (len + 1))
        else dbp_until_loop q (p'\<lparr>dbp_pos := dbp_pos p' + 1\<rparr>) fin (len + 1))"
      using b(1) Some b'(1) c(1) unfolding unf by (simp add: r_def)
    show ?thesis
    proof (cases "c = fin")
      case True
      then show ?thesis using step c(2) b'(4) by simp
    next
      case False
      have "hd [c] \<noteq> fin" using False by simp
      from "1.IH"[OF b(1) Some[unfolded r_def] b'(1) c(1) this "1.prems"(1) c(3)]
      show ?thesis using step False c(2) b'(4) by auto
    qed
  qed
qed

text \<open>A line, on the content: up to and including the first LF.\<close>

definition first_line :: "byte \<Rightarrow> bytes \<Rightarrow> nat option" where
  "first_line fin c = (if fin \<in> set c then Some (Suc (length (takeWhile (\<lambda>x. x \<noteq> fin) c))) else None)"

lemma first_line_le: "first_line fin c = Some n \<Longrightarrow> n \<le> length c"
proof -
  have "fin \<in> set c \<Longrightarrow> Suc (length (takeWhile (\<lambda>x. x \<noteq> fin) c)) \<le> length c" for c
    by (induction c) auto
  then show "first_line fin c = Some n \<Longrightarrow> n \<le> length c"
    by (auto simp: first_line_def split: if_splits)
qed

lemma dbp_ReadUntilChar_eq:
  assumes "bd_ok q" "dbp_ok q p"
  shows "\<exists>p'. dbp_ReadUntilChar q p fin
      = Some (map_option (\<lambda>n. take n (data_from q p)) (first_line fin (data_from q p)), p')
    \<and> dbp_ok q p' \<and> dbp_leq p p'
    \<and> data_from q p' = (case first_line fin (data_from q p) of None \<Rightarrow> data_from q p
         | Some n \<Rightarrow> drop n (data_from q p))"
proof (cases "fin \<in> set (data_from q p)")
  case False
  then show ?thesis
    using assms by (simp add: dbp_ReadUntilChar_def dbp_until_loop_eq first_line_def)
next
  case True
  let ?n = "Suc (length (takeWhile (\<lambda>c. c \<noteq> fin) (data_from q p)))"
  have "nat (1 + int (length (takeWhile (\<lambda>c. c \<noteq> fin) (data_from q p)))) = ?n" by simp
  then show ?thesis
    using dbp_ReadData_eq[OF assms, of "1 + int (length (takeWhile (\<lambda>c. c \<noteq> fin) (data_from q p)))"] True
    by (auto simp: dbp_ReadUntilChar_def dbp_ReadStringData_def dbp_until_loop_eq[OF assms] first_line_def)
qed

lemma ms_ReadLFLine_is:
  assumes "ms_is s c m"
  shows "\<exists>s'. ms_ReadLFLine s = Some (map_option (\<lambda>n. take n c) (first_line 10 c), s')
    \<and> ms_is s' (case first_line 10 c of None \<Rightarrow> c | Some n \<Rightarrow> drop n c) m"
proof (cases rule: ms_init_cases[OF assms])
  case 1
  then show ?thesis using assms by (simp add: ms_ReadLFLine_def first_line_def)
next
  case (2 s1)
  obtain p' where p': "dbp_ReadLFLine (ms_blocks s1) (ms_read s1)
        = Some (map_option (\<lambda>n. take n c) (first_line 10 c), p')"
      "dbp_ok (ms_blocks s1) p'" "dbp_leq (ms_read s1) p'"
      "data_from (ms_blocks s1) p' = (case first_line 10 c of None \<Rightarrow> c | Some n \<Rightarrow> drop n c)"
    using dbp_ReadUntilChar_eq[OF 2(5,3), of 10] 2(4) unfolding dbp_ReadLFLine_def by auto
  show ?thesis
  proof (cases "first_line 10 c")
    case None
    have "ms_is (s1\<lparr>ms_read := p', ms_size := ms_size s1 - int 0\<rparr>) (drop 0 c) m"
      using None p' by (intro ms_forward_is[OF 2(2,3)]) auto
    then show ?thesis using None p'(1) 2(1) by (simp add: ms_ReadLFLine_def Let_def)
  next
    case (Some n)
    have n: "n \<le> length c" using Some by (rule first_line_le)
    have "ms_is (s1\<lparr>ms_read := p', ms_size := ms_size s1 - int n\<rparr>) (drop n c) m"
      using Some p' n by (intro ms_forward_is[OF 2(2,3)]) auto
    then show ?thesis using Some p'(1) 2(1) n by (simp add: ms_ReadLFLine_def Let_def)
  qed
qed

lemma str_crlf_count_le: "str_crlf_count s \<le> length s"
  by (induction s) auto

lemma StrTrimCRLF_split:
  "\<exists>t. s = StrTrimCRLFInPlace s @ t \<and> set t \<subseteq> {10, 13}
    \<and> (StrTrimCRLFInPlace s \<noteq> [] \<longrightarrow> last (StrTrimCRLFInPlace s) \<notin> {10, 13})"
proof -
  have gen: "str_crlf_count r \<le> length r \<and> set (take (str_crlf_count r) r) \<subseteq> {10, 13}
      \<and> (drop (str_crlf_count r) r \<noteq> [] \<longrightarrow> hd (drop (str_crlf_count r) r) \<notin> {10, 13})" for r
    by (induction r) auto
  let ?k = "str_crlf_count (rev s)"
  have "drop (length s - ?k) s = rev (take ?k (rev s))" "take (length s - ?k) s = rev (drop ?k (rev s))"
    by (simp_all add: take_rev drop_rev)
  moreover have "s = StrTrimCRLFInPlace s @ drop (length s - ?k) s"
    by (simp add: StrTrimCRLFInPlace_def)
  ultimately show ?thesis
    using gen[of "rev s"]
    by (intro exI[of _ "drop (length s - ?k) s"]) (auto simp: last_rev StrTrimCRLFInPlace_def)
qed

subsection \<open>Tokens\<close>

text \<open>What the loop must return for the scanner's answer.\<close>

definition token_answer ::
    "block_dqueue \<Rightarrow> dbp \<Rightarrow> (token_result \<times> bytes \<times> bytes) option
      \<Rightarrow> (token_result \<times> bytes option \<times> dbp \<times> int) option \<Rightarrow> bool" where
  "token_answer q saved r res =
     (case r of
        None \<Rightarrow> res = Some (TOKEN_NO_DATA, None, saved, 0)
      | Some (k, tok, rest) \<Rightarrow>
          if k = TOKEN_ERROR_CHAR then res = Some (TOKEN_ERROR_CHAR, None, saved, 0)
          else \<exists>p'. res = Some (k, Some tok, p', int (length (data_from q saved)) - int (length rest))
            \<and> dbp_ok q p' \<and> dbp_leq saved p' \<and> data_from q p' = rest)"

lemma AttrIsQuote_nonzero: "AttrIsQuote c \<Longrightarrow> c \<noteq> 0"
  by (auto simp: AttrIsQuote_def kCharLookup_def c_ERROR_def c_QUOTE_def Let_def)

lemma dbp_token_loop_eq:
  assumes "bd_ok q" "dbp_ok q p" "dbp_leq saved p"
    and "int (length tok) = len" "quote \<noteq> 0 \<longrightarrow> tok \<noteq> []"
    and "int (length (data_from q saved)) = skipped + len + int (length (data_from q p))"
    and "tok \<noteq> [] \<longrightarrow> dbp_ok q bgn \<and> dbp_leq saved bgn \<and> data_from q bgn = tok @ data_from q p"
  shows "token_answer q saved (lex_token (data_from q p) tok quote esc)
      (dbp_token_loop q saved p bgn len skipped quote esc)"
  using assms
proof (induction q saved p bgn len skipped quote esc arbitrary: tok rule: dbp_token_loop.induct)
  case (1 q saved p bgn len skipped quote esc)
  note prems = "1.prems"
  obtain b where b: "dbp_block q p = Some b" "0 \<le> dbp_pos p" "dbp_pos p \<le> db_size b"
    using prems(2) by (rule dbp_okE)
  note unf = dbp_token_loop.simps[of q saved p bgn len skipped quote esc]
    dbp_token_loop.simps[of q saved p bgn len skipped 0 esc]
    dbp_token_loop.simps[of q saved p bgn 0 skipped 0 esc]
  show ?case
  proof (cases "dbp_pos p = db_size b")
    case atend: True
    show ?thesis
    proof (cases "dbp_AdvanceToNextBlock q p")
      case None
      then show ?thesis
        using dbp_AdvanceToNextBlock_None[OF prems(1,2) b(1) atend None] b(1) atend
        unfolding unf by (simp add: token_answer_def)
    next
      case (Some p')
      note a = dbp_AdvanceToNextBlock_Some[OF prems(1,2) b(1) atend Some]
      have "token_answer q saved (lex_token (data_from q p') tok quote esc)
          (dbp_token_loop q saved p' bgn len skipped quote esc)"
        using prems a(1,2) dbp_leq_trans[OF prems(3) dbp_leq_block[OF a(4)]]
        by (intro "1.IH"(1)[OF b(1) atend Some]) auto
      then show ?thesis using a(2) b(1) atend Some unfolding unf by simp
    qed
  next
    case inside: False
    let ?p1 = "p\<lparr>dbp_pos := dbp_pos p + 1\<rparr>"
    obtain c where c: "db_peek (dbp_pos p) 1 b = Some [c]" "data_from q p = c # data_from q ?p1"
        "dbp_ok q ?p1" "dbp_leq p ?p1"
      using block_char[OF prems(1,2) b(1) inside] by blast
    note leq1 = dbp_leq_trans[OF prems(3) c(4)]
    have d: "data_from q p \<noteq> []" "int (length (data_from q p)) = 1 + int (length (data_from q ?p1))"
      using c(2) by auto
    have goal: ?thesis if "token_answer q saved (lex_token (c # data_from q ?p1) tok quote esc) r"
        "dbp_token_loop q saved p bgn len skipped quote esc = r" for r
      using that c(2) by simp
    show ?thesis
    proof (cases "quote = 0")
      case q0: True
      show ?thesis
      proof (cases "AttrIsError c")
        case True
        then show ?thesis
          using b(1) inside c(1)
          by (intro goal) (auto simp: token_answer_def unf q0)
      next
        case ne: False
        show ?thesis
        proof (cases "tok = []")
          case False
          then have len: "len \<noteq> 0" and bg: "dbp_ok q bgn" "dbp_leq saved bgn" "data_from q bgn = tok @ data_from q p"
            using prems(4,7) by auto
          show ?thesis
          proof (cases "AttrIsChar c")
            case True
            have "token_answer q saved (lex_token (data_from q ?p1) (tok @ [c]) quote esc)
                (dbp_token_loop q saved ?p1 bgn (len + 1) skipped quote esc)"
              by (rule "1.IH"(2)[OF b(1) inside c(1) refl refl q0 _ len])
                 (use True ne prems c d leq1 bg in auto)
            then show ?thesis
              using q0 ne False len True b(1) inside c(1) by (intro goal) (auto simp: unf)
          next
            case nc: False
            obtain p' where p': "dbp_ReadData q bgn len = Some (tok, p')" "dbp_ok q p'"
                "data_from q p' = data_from q p" "dbp_leq bgn p'"
              using dbp_ReadData_eq[OF prems(1) bg(1), of len] bg(3) prems(4) by auto
            show ?thesis
              using q0 ne False len nc b(1) inside c p' prems(6) dbp_leq_trans[OF bg(2) p'(4)]
              by (intro goal) (auto simp: unf token_answer_def dbp_ReadStringData_def)
          qed
        next
          case tok: True
          then have len: "\<not> len \<noteq> 0" using prems(4) by simp
          consider (quote) "AttrIsQuote c" | (sep) "\<not> AttrIsQuote c" "AttrIsSep c"
            | (space) "\<not> AttrIsQuote c" "\<not> AttrIsSep c" "AttrIsSpace c"
            | (other) "\<not> AttrIsQuote c" "\<not> AttrIsSep c" "\<not> AttrIsSpace c" by blast
          then show ?thesis
          proof cases
            case quote
            have "token_answer q saved (lex_token (data_from q ?p1) [c] c esc)
                (dbp_token_loop q saved ?p1 p (len + 1) skipped c esc)"
              using "1.IH"(3)[OF b(1) inside c(1) refl refl q0 _ len, of "[c]"] quote ne prems c d leq1 len
              by simp
            then show ?thesis
              using q0 ne tok len quote b(1) inside c(1) by (intro goal) (auto simp: unf)
          next
            case sep
            obtain p' k where p': "dbp_Advance q p 1 = Some (p', k)" "dbp_ok q p'"
                "data_from q p' = data_from q ?p1" "dbp_leq p p'"
              using dbp_Advance_loop_eq[OF prems(1,2), of 1 0] c(2) by (auto simp: dbp_Advance_def)
            show ?thesis
              using q0 ne tok len sep b(1) inside c p' prems(6) dbp_leq_trans[OF prems(3) p'(4)]
              by (intro goal) (auto simp: unf token_answer_def)
          next
            case space
            have "token_answer q saved (lex_token (data_from q ?p1) [] quote esc)
                (dbp_token_loop q saved ?p1 bgn len (skipped + 1) quote esc)"
              using "1.IH"(4)[OF b(1) inside c(1) refl refl q0 _ len, of "[]"] space ne prems c d leq1 len q0
              by simp
            then show ?thesis
              using q0 ne tok len space b(1) inside c(1) by (intro goal) (auto simp: unf)
          next
            case other
            have "token_answer q saved (lex_token (data_from q ?p1) [c] quote esc)
                (dbp_token_loop q saved ?p1 p (len + 1) skipped quote esc)"
              using "1.IH"(5)[OF b(1) inside c(1) refl refl q0 _ len, of "[c]"] other ne prems c d leq1 len q0
              by simp
            then show ?thesis
              using q0 ne tok len other b(1) inside c(1) by (intro goal) (auto simp: unf)
          qed
        qed
      qed
    next
      case qn: False
      then have tok: "tok \<noteq> []" and bg: "dbp_ok q bgn" "dbp_leq saved bgn" "data_from q bgn = tok @ data_from q p"
        using prems(5,7) by auto
      show ?thesis
      proof (cases "quote = c \<and> \<not> esc")
        case True
        have "nat (len + 1) = Suc (length tok)" using prems(4) by simp
        then obtain p' where p': "dbp_ReadData q bgn (len + 1) = Some (tok @ [c], p')" "dbp_ok q p'"
            "data_from q p' = data_from q ?p1" "dbp_leq bgn p'"
          using dbp_ReadData_eq[OF prems(1) bg(1), of "len + 1"] bg(3) c(2) by auto
        have "dbp_token_loop q saved p bgn len skipped quote esc
            = Some (TOKEN_QUOTED_OK, Some (tok @ [c]), p', len + skipped + 1)"
          unfolding unf(1) using qn True b(1) inside c(1) p'(1) by (simp add: dbp_ReadStringData_def)
        then show ?thesis
          using qn True c p' prems(6) dbp_leq_trans[OF bg(2) p'(4)]
          by (intro goal) (auto simp: token_answer_def)
      next
        case False
        have "token_answer q saved (lex_token (data_from q ?p1) (tok @ [c]) quote (\<not> esc \<and> c = 92))
            (dbp_token_loop q saved ?p1 bgn (len + 1) skipped quote (\<not> esc \<and> c = 92))"
          using "1.IH"(6)[OF b(1) inside c(1) refl refl qn, of "tok @ [c]"] False prems c d leq1 bg tok
          by simp
        then show ?thesis
          using qn False b(1) inside c(1) by (intro goal) (auto simp: unf)
      qed
    qed
  qed
qed

lemma ms_ReadNextAsciiToken_is:
  assumes "ms_is s c m"
  shows "\<exists>s'. ms_ReadNextAsciiToken s = Some (fst (lex c), fst (snd (lex c)), s')
    \<and> ms_is s' (snd (snd (lex c))) m"
proof (cases rule: ms_init_cases[OF assms])
  case 1
  then show ?thesis using assms by (simp add: ms_ReadNextAsciiToken_def lex_def)
next
  case (2 s1)
  let ?q = "ms_blocks s1" and ?p = "ms_read s1"
  have ans: "token_answer ?q ?p (lex_token c [] 0 False) (dbp_ReadNextAsciiToken ?q ?p)"
    using dbp_token_loop_eq[OF 2(5,3), of ?p "[]" 0 0 0 ?p False] 2(4)
    by (simp add: dbp_ReadNextAsciiToken_def)
  have stay: "s1\<lparr>ms_read := ms_read s1, ms_size := ms_size s1\<rparr> = s1" by simp
  show ?thesis
  proof (cases "lex_token c [] 0 False")
    case None
    then show ?thesis
      using ans 2(1,2) stay by (auto simp: token_answer_def ms_ReadNextAsciiToken_def lex_def)
  next
    case (Some r)
    obtain k tok rest where r: "r = (k, tok, rest)" by (cases r)
    show ?thesis
    proof (cases "k = TOKEN_ERROR_CHAR")
      case True
      then show ?thesis
        using ans Some r 2(1,2) stay by (auto simp: token_answer_def ms_ReadNextAsciiToken_def lex_def)
    next
      case False
      obtain p' where p': "dbp_ReadNextAsciiToken ?q ?p = Some (k, Some tok, p', int (length c) - int (length rest))"
          "dbp_ok ?q p'" "dbp_leq ?p p'" "data_from ?q p' = rest"
        using ans Some r False 2(4) by (auto simp: token_answer_def)
      obtain xs where xs: "c = xs @ rest"
        using dbp_leq_suffix[OF 2(5,3) p'(2,3)] p'(4) 2(4) by auto
      have "ms_is (s1\<lparr>ms_read := p', ms_size := ms_size s1 - int (length xs)\<rparr>) (drop (length xs) c) m"
        using p' xs by (intro ms_forward_is[OF 2(2,3)]) auto
      then show ?thesis
        using p'(1) xs Some r False 2(1) by (simp add: ms_ReadNextAsciiToken_def lex_def)
    qed
  qed
qed

end
