(* ===== verification/StreamLaws.thy ===== *)
theory StreamLaws
  imports BlockText ByteStream
begin

text \<open>
  The memory stream keeps the contract of \<^verbatim>\<open>ByteStream\<close>, and any program of stream
  operations observes on it exactly what it would observe on a plain list of bytes: block
  sizes, block boundaries, disposal of blocks and the marker bookkeeping cannot be seen.
\<close>

interpretation mst: byte_stream ms_is ms_Read ms_Peek ms_Skip ms_Size ms_MarkerSet ms_MarkerRestore
    ms_MarkerClear ms_Write
proof unfold_locales
  fix s c m n xs x
  show "ms_is s c m \<Longrightarrow> \<exists>s'. ms_Read s n = Some (take (nat n) c, s') \<and> ms_is s' (drop (nat n) c) m"
    by (rule ms_Read_is)
  show "ms_is s c m \<Longrightarrow> ms_Peek s n = Some (take (nat n) c)" by (rule ms_Peek_is)
  show "ms_is s c m \<Longrightarrow> 0 \<le> n \<Longrightarrow>
      \<exists>s'. ms_Skip s n = Some (min n (int (length c)), s') \<and> ms_is s' (drop (nat n) c) m"
    by (rule ms_Skip_is)
  show "ms_is s c m \<Longrightarrow> ms_Size s = Some (int (length c))"
    using ms_Size_eq by (auto simp: ms_is_def)
  show "ms_is s c m \<Longrightarrow> ms_is (ms_MarkerSet s) c (c # m)" by (rule ms_MarkerSet_is)
  show "ms_is s c (x # m) \<Longrightarrow> \<exists>s'. ms_MarkerRestore s = Some s' \<and> ms_is s' x m"
    by (rule ms_MarkerRestore_is)
  show "ms_is s c (x # m) \<Longrightarrow> \<exists>s'. ms_MarkerClear s = Some s' \<and> ms_is s' c m"
    by (rule ms_MarkerClear_is)
  show "ms_is s c m \<Longrightarrow>
      \<exists>s'. ms_Write s xs = Some (int (length xs), s') \<and> ms_is s' (c @ xs) (map (\<lambda>y. y @ xs) m)"
    using ms_Write_is by blast
qed

section \<open>Programs of stream operations\<close>

datatype stream_op =
    OpRead int | OpReadString int | OpPeek int | OpPeekString int | OpSkip int | OpSize | OpIsEmpty
  | OpWrite bytes | OpAppendRaw bytes | OpMarkerSet | OpMarkerRestore | OpMarkerClear
  | OpMarkerIsSet | OpReadLFLine | OpReadLine | OpToken | OpClear

datatype observation =
    ObsBytes bytes | ObsInt int | ObsBool bool | ObsLine "bytes option"
  | ObsToken token_result "bytes option" | ObsDone

text \<open>One operation on the memory stream; \<open>None\<close> when it aborts.\<close>

definition ms_op :: "stream_op \<Rightarrow> memory_stream \<Rightarrow> (observation \<times> memory_stream) option" where
  "ms_op op s = (case op of
     OpRead n \<Rightarrow> map_option (\<lambda>(b, s'). (ObsBytes b, s')) (ms_Read s n)
   | OpReadString n \<Rightarrow> map_option (\<lambda>(b, s'). (ObsBytes b, s')) (ms_ReadString s n)
   | OpPeek n \<Rightarrow> map_option (\<lambda>b. (ObsBytes b, s)) (ms_Peek s n)
   | OpPeekString n \<Rightarrow> map_option (\<lambda>(b, s'). (ObsBytes b, s')) (ms_PeekString s n)
   | OpSkip n \<Rightarrow> map_option (\<lambda>(k, s'). (ObsInt k, s')) (ms_Skip s n)
   | OpSize \<Rightarrow> map_option (\<lambda>k. (ObsInt k, s)) (ms_Size s)
   | OpIsEmpty \<Rightarrow> Some (ObsBool (ms_IsEmpty s), s)
   | OpWrite b \<Rightarrow> map_option (\<lambda>(k, s'). (ObsInt k, s')) (ms_Write s b)
   | OpAppendRaw b \<Rightarrow> map_option (\<lambda>s'. (ObsDone, s')) (ms_AppendRaw s b)
   | OpMarkerSet \<Rightarrow> Some (ObsDone, ms_MarkerSet s)
   | OpMarkerRestore \<Rightarrow> map_option (\<lambda>s'. (ObsDone, s')) (ms_MarkerRestore s)
   | OpMarkerClear \<Rightarrow> map_option (\<lambda>s'. (ObsDone, s')) (ms_MarkerClear s)
   | OpMarkerIsSet \<Rightarrow> Some (ObsBool (ms_MarkerIsSet s), s)
   | OpReadLFLine \<Rightarrow> map_option (\<lambda>(l, s'). (ObsLine l, s')) (ms_ReadLFLine s)
   | OpReadLine \<Rightarrow> map_option (\<lambda>(l, s'). (ObsLine l, s')) (ms_ReadLine s)
   | OpToken \<Rightarrow> map_option (\<lambda>(r, t, s'). (ObsToken r t, s')) (ms_ReadNextAsciiToken s)
   | OpClear \<Rightarrow> map_option (\<lambda>s'. (ObsDone, s')) (ms_Clear s))"

text \<open>The same operation on the unread bytes \<open>c\<close> and the marks \<open>m\<close>.\<close>

definition ps_op :: "stream_op \<Rightarrow> plain_stream \<Rightarrow> (observation \<times> plain_stream) option" where
  "ps_op op s = (let (c, m) = s in case op of
     OpRead n \<Rightarrow> Some (ObsBytes (take (nat n) c), (drop (nat n) c, m))
   | OpReadString n \<Rightarrow> if n < - 1 then None else if n = - 1 then Some (ObsBytes c, ([], m))
       else Some (ObsBytes (take (nat n) c), (drop (nat n) c, m))
   | OpPeek n \<Rightarrow> Some (ObsBytes (take (nat n) c), s)
   | OpPeekString n \<Rightarrow> if n < - 1 then None else Some (ObsBytes (if n = - 1 then c else take (nat n) c), s)
   | OpSkip n \<Rightarrow> if n < 0 then None
       else Some (ObsInt (min n (int (length c))), (drop (nat n) c, m))
   | OpSize \<Rightarrow> Some (ObsInt (int (length c)), s)
   | OpIsEmpty \<Rightarrow> Some (ObsBool (c = []), s)
   | OpWrite b \<Rightarrow> Some (ObsInt (int (length b)), (c @ b, map (\<lambda>y. y @ b) m))
   | OpAppendRaw b \<Rightarrow> if b = [] then None else Some (ObsDone, (c @ b, map (\<lambda>y. y @ b) m))
   | OpMarkerSet \<Rightarrow> Some (ObsDone, (c, c # m))
   | OpMarkerRestore \<Rightarrow> (case m of [] \<Rightarrow> None | x # m' \<Rightarrow> Some (ObsDone, (x, m')))
   | OpMarkerClear \<Rightarrow> (case m of [] \<Rightarrow> None | x # m' \<Rightarrow> Some (ObsDone, (c, m')))
   | OpMarkerIsSet \<Rightarrow> Some (ObsBool (m \<noteq> []), s)
   | OpReadLFLine \<Rightarrow> (case first_line 10 c of None \<Rightarrow> Some (ObsLine None, s)
       | Some n \<Rightarrow> Some (ObsLine (Some (take n c)), (drop n c, m)))
   | OpReadLine \<Rightarrow> (case first_line 10 c of None \<Rightarrow> Some (ObsLine None, s)
       | Some n \<Rightarrow> Some (ObsLine (Some (StrTrimCRLFInPlace (take n c))), (drop n c, m)))
   | OpToken \<Rightarrow> Some (ObsToken (fst (lex c)) (fst (snd (lex c))), (snd (snd (lex c)), m))
   | OpClear \<Rightarrow> if m \<noteq> [] then None else Some (ObsDone, ([], [])))"

fun ms_run :: "stream_op list \<Rightarrow> memory_stream \<Rightarrow> observation list option" where
  "ms_run [] s = Some []"
| "ms_run (op # ops) s = do {
     (obs, s') \<leftarrow> ms_op op s;
     rest \<leftarrow> ms_run ops s';
     Some (obs # rest) }"

fun ps_run :: "stream_op list \<Rightarrow> plain_stream \<Rightarrow> observation list option" where
  "ps_run [] s = Some []"
| "ps_run (op # ops) s = do {
     (obs, s') \<leftarrow> ps_op op s;
     rest \<leftarrow> ps_run ops s';
     Some (obs # rest) }"

text \<open>A program run on a fresh stream with blocks of \<open>bsz\<close> bytes.\<close>

definition ms_trace :: "int \<Rightarrow> stream_op list \<Rightarrow> observation list option" where
  "ms_trace bsz ops = Option.bind (ms_new bsz) (ms_run ops)"

lemma ms_marks_Nil: "ms_is s c [] \<Longrightarrow> ms_markers s = []"
  by (simp add: ms_is_def ms_marks_def)

text \<open>The simulation step: same observation, same abort.\<close>

lemma ms_op_simulates:
  assumes "ms_is s c m"
  shows "case ps_op op (c, m) of
      None \<Rightarrow> ms_op op s = None
    | Some (obs, (c', m')) \<Rightarrow> \<exists>s'. ms_op op s = Some (obs, s') \<and> ms_is s' c' m'"
proof (cases op)
  case (OpRead n)
  then show ?thesis using ms_Read_is[OF assms, of n] by (auto simp: ps_op_def ms_op_def)
next
  case (OpReadString n)
  then show ?thesis using ms_ReadString_is[OF assms, of n] ms_ReadString_negative(1)[of n]
    by (cases "n < - 1") (auto simp: ps_op_def ms_op_def)
next
  case (OpPeek n)
  then show ?thesis using ms_Peek_is[OF assms, of n] assms by (auto simp: ps_op_def ms_op_def)
next
  case (OpPeekString n)
  then show ?thesis using ms_PeekString_is[OF assms, of n] ms_ReadString_negative(2)[of n]
    by (cases "n < - 1") (auto simp: ps_op_def ms_op_def)
next
  case (OpSkip n)
  then show ?thesis using ms_Skip_is[OF assms, of n] by (auto simp: ps_op_def ms_op_def ms_Skip_def)
next
  case OpSize
  then show ?thesis using ms_Size_eq[of s] assms by (auto simp: ps_op_def ms_op_def ms_is_def)
next
  case OpIsEmpty
  then show ?thesis using ms_IsEmpty_eq[of s] assms by (auto simp: ps_op_def ms_op_def ms_is_def)
next
  case (OpWrite b)
  then show ?thesis using ms_Write_is[OF assms, of b] by (auto simp: ps_op_def ms_op_def)
next
  case (OpAppendRaw b)
  then show ?thesis
    using ms_AppendRaw_is[OF assms, of b] by (auto simp: ps_op_def ms_op_def ms_AppendRaw_def db_wrap_def)
next
  case OpMarkerSet
  then show ?thesis using ms_MarkerSet_is[OF assms] by (auto simp: ps_op_def ms_op_def)
next
  case OpMarkerRestore
  then show ?thesis
    using assms ms_MarkerRestore_is[of s c] ms_marks_Nil[of s c]
    by (cases m) (auto simp: ps_op_def ms_op_def ms_MarkerRestore_def)
next
  case OpMarkerClear
  then show ?thesis
    using assms ms_MarkerClear_is[of s c] ms_marks_Nil[of s c]
    by (cases m) (auto simp: ps_op_def ms_op_def ms_MarkerClear_def)
next
  case OpMarkerIsSet
  then show ?thesis using assms by (auto simp: ps_op_def ms_op_def ms_MarkerIsSet_eq ms_is_def)
next
  case OpReadLFLine
  then show ?thesis
    using ms_ReadLFLine_is[OF assms] by (auto simp: ps_op_def ms_op_def split: option.splits)
next
  case OpReadLine
  then show ?thesis
    using ms_ReadLFLine_is[OF assms] by (auto simp: ps_op_def ms_op_def ms_ReadLine_def split: option.splits)
next
  case OpToken
  then show ?thesis
    using ms_ReadNextAsciiToken_is[OF assms] by (auto simp: ps_op_def ms_op_def)
next
  case OpClear
  then show ?thesis
    using assms ms_Clear_is[of s c] by (cases m) (auto simp: ps_op_def ms_op_def ms_Clear_def ms_MarkerIsSet_eq ms_is_def)
qed

lemma ms_run_simulates: "ms_is s c m \<Longrightarrow> ms_run ops s = ps_run ops (c, m)"
proof (induction ops arbitrary: s c m)
  case (Cons op ops)
  show ?case
  proof (cases "ps_op op (c, m)")
    case None
    then show ?thesis using ms_op_simulates[OF Cons.prems, of op] by simp
  next
    case (Some r)
    obtain obs c' m' where r: "r = (obs, c', m')" by (cases r) auto
    obtain s' where "ms_op op s = Some (obs, s')" "ms_is s' c' m'"
      using ms_op_simulates[OF Cons.prems, of op] Some r by auto
    then show ?thesis using Some r Cons.IH[of s' c' m'] by simp
  qed
qed simp

end
