(* ===== verification/RtmpHeader.thy ===== *)
theory RtmpHeader
  imports Amf0Laws
begin

text \<open>
  \<^verbatim>\<open>whisperstreamlib/rtmp\<close>: the event types (\<^verbatim>\<open>rtmp_consts.{h,cc}\<close>), the state that
  \<^verbatim>\<open>rtmp::Coder\<close> keeps for each channel (\<^verbatim>\<open>rtmp_coder.h\<close>), and the chunk header with
  its decoding and encoding relative to the last header of the channel
  (\<^verbatim>\<open>events/rtmp_header.{h,cc}\<close>).  Streams are represented by their content.
\<close>

section \<open>Event types\<close>

datatype event_type =
    EVENT_CHUNK_SIZE | EVENT_BYTES_READ | EVENT_PING | EVENT_SERVER_BANDWIDTH
  | EVENT_CLIENT_BANDWIDTH | EVENT_AUDIO_DATA | EVENT_VIDEO_DATA | EVENT_FLEX_SHARED_OBJECT
  | EVENT_FLEX_MESSAGE | EVENT_NOTIFY | EVENT_SHARED_OBJECT | EVENT_INVOKE | EVENT_MEDIA_DATA

fun event_code :: "event_type \<Rightarrow> byte" where
  "event_code EVENT_CHUNK_SIZE = 0x01"
| "event_code EVENT_BYTES_READ = 0x03"
| "event_code EVENT_PING = 0x04"
| "event_code EVENT_SERVER_BANDWIDTH = 0x05"
| "event_code EVENT_CLIENT_BANDWIDTH = 0x06"
| "event_code EVENT_AUDIO_DATA = 0x08"
| "event_code EVENT_VIDEO_DATA = 0x09"
| "event_code EVENT_FLEX_SHARED_OBJECT = 0x10"
| "event_code EVENT_FLEX_MESSAGE = 0x11"
| "event_code EVENT_NOTIFY = 0x12"
| "event_code EVENT_SHARED_OBJECT = 0x13"
| "event_code EVENT_INVOKE = 0x14"
| "event_code EVENT_MEDIA_DATA = 0x16"

definition event_types :: "event_type list" where
  "event_types = [EVENT_CHUNK_SIZE, EVENT_BYTES_READ, EVENT_PING, EVENT_SERVER_BANDWIDTH,
     EVENT_CLIENT_BANDWIDTH, EVENT_AUDIO_DATA, EVENT_VIDEO_DATA, EVENT_FLEX_SHARED_OBJECT,
     EVENT_FLEX_MESSAGE, EVENT_NOTIFY, EVENT_SHARED_OBJECT, EVENT_INVOKE, EVENT_MEDIA_DATA]"

text \<open>
  The cast \<^verbatim>\<open>EventType(byte)\<close> followed by the check \<^verbatim>\<open>IsValidEventType\<close>: \<open>None\<close> is
  a byte that fails the check.
\<close>

definition EventType_of_byte :: "byte \<Rightarrow> event_type option" where
  "EventType_of_byte b = List.find (\<lambda>t. event_code t = b) event_types"

definition IsValidEventType :: "byte \<Rightarrow> bool" where
  "IsValidEventType b \<longleftrightarrow> list_ex (\<lambda>t. event_code t = b) event_types"

fun EventTypeName :: "event_type \<Rightarrow> string" where
  "EventTypeName EVENT_CHUNK_SIZE = ''EVENT_CHUNK_SIZE''"
| "EventTypeName EVENT_BYTES_READ = ''EVENT_BYTES_READ''"
| "EventTypeName EVENT_PING = ''EVENT_PING''"
| "EventTypeName EVENT_SERVER_BANDWIDTH = ''EVENT_SERVER_BANDWIDTH''"
| "EventTypeName EVENT_CLIENT_BANDWIDTH = ''EVENT_CLIENT_BANDWIDTH''"
| "EventTypeName EVENT_AUDIO_DATA = ''EVENT_AUDIO_DATA''"
| "EventTypeName EVENT_VIDEO_DATA = ''EVENT_VIDEO_DATA''"
| "EventTypeName EVENT_FLEX_SHARED_OBJECT = ''EVENT_FLEX_SHARED_OBJECT''"
| "EventTypeName EVENT_FLEX_MESSAGE = ''EVENT_FLEX_MESSAGE''"
| "EventTypeName EVENT_NOTIFY = ''EVENT_NOTIFY''"
| "EventTypeName EVENT_SHARED_OBJECT = ''EVENT_SHARED_OBJECT''"
| "EventTypeName EVENT_INVOKE = ''EVENT_INVOKE''"
| "EventTypeName EVENT_MEDIA_DATA = ''EVENT_MEDIA_DATA''"

lemma event_types_complete: "t \<in> set event_types"
  by (cases t) (auto simp: event_types_def)

lemma EventType_of_code [simp]: "EventType_of_byte (event_code t) = Some t"
  by (cases t) (simp_all add: EventType_of_byte_def event_types_def)

lemma EventType_valid: "IsValidEventType b \<longleftrightarrow> EventType_of_byte b \<noteq> None"
  by (auto simp: IsValidEventType_def EventType_of_byte_def list_ex_iff find_None_iff)

lemma EventType_of_byte_code: "EventType_of_byte b = Some t \<Longrightarrow> event_code t = b"
  by (auto simp: EventType_of_byte_def find_Some_iff)

section \<open>Headers and channels\<close>

datatype header_type = HEADER_NEW | HEADER_SAME_SOURCE | HEADER_TIMER_CHANGE | HEADER_CONTINUE

definition HeaderType_of :: "byte \<Rightarrow> header_type" where
  "HeaderType_of b = [HEADER_NEW, HEADER_SAME_SOURCE, HEADER_TIMER_CHANGE, HEADER_CONTINUE] ! (unat b div 64)"

fun header_code :: "header_type \<Rightarrow> byte" where
  "header_code HEADER_NEW = 0"
| "header_code HEADER_SAME_SOURCE = 1"
| "header_code HEADER_TIMER_CHANGE = 2"
| "header_code HEADER_CONTINUE = 3"

fun HeaderLength :: "header_type \<Rightarrow> nat" where
  "HeaderLength HEADER_NEW = 11"
| "HeaderLength HEADER_SAME_SOURCE = 7"
| "HeaderLength HEADER_TIMER_CHANGE = 3"
| "HeaderLength HEADER_CONTINUE = 0"

record header =
  channel_id :: "32 word"
  stream_id :: "32 word"
  h_event_type :: event_type
  timestamp_ms :: "32 word"
  is_timestamp_relative :: bool

definition kInvalidChannelId :: "32 word" where "kInvalidChannelId = 0xFFFFFFFF"
definition kInvalidStreamId :: "32 word" where "kInvalidStreamId = 0xFFFFFFFF"

definition Header_default :: header where
  "Header_default = \<lparr>channel_id = kInvalidChannelId, stream_id = kInvalidStreamId,
     h_event_type = EVENT_SHARED_OBJECT, timestamp_ms = 0, is_timestamp_relative = True\<rparr>"

text \<open>
  The state of a \<^verbatim>\<open>Coder\<close>.  The arrays have one entry for each of the
  \<^verbatim>\<open>kMaxNumChannels\<close> channels; the two arrays of sizes are not initialised by the
  constructor, their first content is the argument of \<open>Coder_new\<close>.
\<close>

definition kMaxNumChannels :: nat where "kMaxNumChannels = 32"
definition kMaxChunkSize :: "32 word" where "kMaxChunkSize = 65536"
definition kDefaultReadChunkSize :: int where "kDefaultReadChunkSize = 128"
definition kDefaultWriteChunkSize :: int where "kDefaultWriteChunkSize = 128"

record coder =
  memory_limit :: int
  last_read_event_header :: "header list"
  last_read_event_size :: "32 word list"
  last_write_event_header :: "header list"
  last_write_event_size :: "32 word list"
  partial_bodies :: "bytes list"
  read_chunk_size :: int
  write_chunk_size :: int
  memory_used :: int

definition Coder_new :: "int \<Rightarrow> 32 word list \<Rightarrow> 32 word list \<Rightarrow> coder" where
  "Coder_new limit uninit_r uninit_w =
     \<lparr>memory_limit = limit,
      last_read_event_header = replicate kMaxNumChannels Header_default,
      last_read_event_size = uninit_r,
      last_write_event_header = replicate kMaxNumChannels Header_default,
      last_write_event_size = uninit_w,
      partial_bodies = replicate kMaxNumChannels [],
      read_chunk_size = kDefaultReadChunkSize,
      write_chunk_size = kDefaultWriteChunkSize,
      memory_used = 0\<rparr>"

section \<open>Decoding a header\<close>

text \<open>The loop over the zero padding: \<open>None\<close> is the end of the input.\<close>

primrec skip_padding :: "bytes \<Rightarrow> (byte \<times> bytes) option" where
  "skip_padding [] = None"
| "skip_padding (b # s) = (if b = 0 then skip_padding s else Some (b, s))"

definition read_header_byte :: "byte amf_reader" where
  "read_header_byte = (\<lambda>s. case skip_padding s of
     None \<Rightarrow> Some (Inl READ_NO_DATA, [])
   | Some (b, s') \<Rightarrow> Some (Inr b, s'))"

definition read_channel_id :: "byte \<Rightarrow> 32 word amf_reader" where
  "read_channel_id header_byte =
     (if header_byte AND 0x3f = 0 then
        rd_bind (rd_num ReadByte) (\<lambda>b. rd_ok (0x40 + ucast b))
      else if header_byte AND 0x3f = 1 then
        rd_bind (rd_num ReadByte) (\<lambda>b0. rd_bind (rd_num ReadByte) (\<lambda>b1.
          rd_ok (0x40 + ucast b0 + push_bit 8 (ucast b1))))
      else rd_ok (ucast (header_byte AND 0x3f)))"

text \<open>The extended timestamp, present when the 24-bit field is saturated.\<close>

definition read_extended :: "32 word \<Rightarrow> 32 word amf_reader" where
  "read_extended ts = (if ts \<ge> 0xffffff then rd_num ReadBE else rd_ok ts)"

text \<open>The four cases of the switch.\<close>

definition decode_new :: "32 word \<Rightarrow> (header \<times> 32 word) amf_reader" where
  "decode_new ch =
     rd_bind (rd_num ReadUInt24BE) (\<lambda>ts.
     rd_bind (rd_num ReadUInt24BE) (\<lambda>event_size.
     rd_bind (rd_num ReadByte) (\<lambda>b.
     case EventType_of_byte b of
       None \<Rightarrow> rd_err READ_CORRUPTED_DATA
     | Some t \<Rightarrow>
         rd_bind (rd_num ReadLE) (\<lambda>sid.
         rd_bind (read_extended ts) (\<lambda>ts'.
         rd_ok (\<lparr>channel_id = ch, stream_id = sid, h_event_type = t, timestamp_ms = ts',
                 is_timestamp_relative = False\<rparr>, event_size))))))"

definition decode_same_source :: "32 word \<Rightarrow> header \<Rightarrow> (header \<times> 32 word) amf_reader" where
  "decode_same_source ch last_h =
     rd_bind (rd_num ReadUInt24BE) (\<lambda>ts.
     rd_bind (rd_num ReadUInt24BE) (\<lambda>event_size.
     rd_bind (rd_num ReadByte) (\<lambda>b.
     case EventType_of_byte b of
       None \<Rightarrow> rd_err READ_CORRUPTED_DATA
     | Some t \<Rightarrow>
         rd_bind (read_extended ts) (\<lambda>ts'.
         rd_ok (\<lparr>channel_id = ch, stream_id = stream_id last_h, h_event_type = t, timestamp_ms = ts',
                 is_timestamp_relative = True\<rparr>, event_size)))))"

definition decode_timer_change :: "32 word \<Rightarrow> header \<Rightarrow> 32 word \<Rightarrow> (header \<times> 32 word) amf_reader" where
  "decode_timer_change ch last_h last_size =
     rd_bind (rd_num ReadUInt24BE) (\<lambda>ts.
     rd_bind (read_extended ts) (\<lambda>ts'.
     rd_ok (\<lparr>channel_id = ch, stream_id = stream_id last_h, h_event_type = h_event_type last_h,
             timestamp_ms = ts', is_timestamp_relative = True\<rparr>, last_size)))"

definition decode_continue :: "32 word \<Rightarrow> header \<Rightarrow> 32 word \<Rightarrow> (header \<times> 32 word) amf_reader" where
  "decode_continue ch last_h last_size =
     rd_bind (read_extended (timestamp_ms last_h)) (\<lambda>ts'.
     rd_ok (\<lparr>channel_id = ch, stream_id = stream_id last_h, h_event_type = h_event_type last_h,
             timestamp_ms = ts', is_timestamp_relative = True\<rparr>, last_size))"

definition Header_Decode :: "coder \<Rightarrow> (header \<times> 32 word) amf_reader" where
  "Header_Decode c =
     rd_bind read_header_byte (\<lambda>header_byte.
     rd_bind (amf_need 2) (\<lambda>_.
     let header_type = HeaderType_of header_byte in
     rd_bind (read_channel_id header_byte) (\<lambda>ch.
     if unat ch \<ge> kMaxNumChannels then rd_err READ_TOO_MANY_CHANNELS
     else rd_bind (amf_need (HeaderLength header_type + 4)) (\<lambda>_.
       let last_h = last_read_event_header c ! unat ch;
           last_size = last_read_event_size c ! unat ch
       in if header_type \<noteq> HEADER_NEW \<and> channel_id last_h = kInvalidChannelId
          then rd_err READ_CORRUPTED_DATA
          else case header_type of
            HEADER_NEW \<Rightarrow> decode_new ch
          | HEADER_SAME_SOURCE \<Rightarrow> decode_same_source ch last_h
          | HEADER_TIMER_CHANGE \<Rightarrow> decode_timer_change ch last_h last_size
          | HEADER_CONTINUE \<Rightarrow> decode_continue ch last_h last_size))))"

section \<open>Encoding a header\<close>

text \<open>The choice of the header's form.\<close>

definition choose_header_type :: "header \<Rightarrow> header \<Rightarrow> 32 word \<Rightarrow> 32 word \<Rightarrow> bool \<Rightarrow> header_type" where
  "choose_header_type h last_h last_size event_size force_continue =
     (if \<not> force_continue \<and> is_timestamp_relative h \<and> stream_id h = stream_id last_h then
        if event_size = last_size \<and> h_event_type h = h_event_type last_h then
          if timestamp_ms h = timestamp_ms last_h then HEADER_CONTINUE else HEADER_TIMER_CHANGE
        else HEADER_SAME_SOURCE
      else if force_continue then HEADER_CONTINUE else HEADER_NEW)"

definition write_channel_id :: "header_type \<Rightarrow> 32 word \<Rightarrow> bytes" where
  "write_channel_id t ch =
     (if ch \<le> 0x3f then WriteBE (push_bit 6 (header_code t) + ucast ch :: byte)
      else if ch \<le> 0x40 + 0xff then
        WriteBE (push_bit 6 (header_code t)) @ WriteBE (ucast (ch - 0x40) :: byte)
      else
        WriteBE (push_bit 6 (header_code t)) @ WriteBE (ucast ((ch - 0x40) AND 0xff) :: byte)
          @ WriteBE (ucast (drop_bit 8 (ch - 0x40)) :: byte))"

text \<open>\<^verbatim>\<open>Encode\<close>; \<open>None\<close> is a failed \<^verbatim>\<open>CHECK\<close>.\<close>

definition Header_Encode :: "coder \<Rightarrow> 32 word \<Rightarrow> bool \<Rightarrow> header \<Rightarrow> bytes option" where
  "Header_Encode c event_size force_continue h =
     (if \<not> unat (channel_id h) < kMaxNumChannels then None
      else
        let last_h = last_write_event_header c ! unat (channel_id h);
            last_size = last_write_event_size c ! unat (channel_id h);
            t = choose_header_type h last_h last_size event_size force_continue
        in if t \<noteq> HEADER_NEW \<and> \<not> is_timestamp_relative h \<and> channel_id last_h = kInvalidChannelId
           then None
           else
             let ts32 = (if t \<noteq> HEADER_NEW \<and> \<not> is_timestamp_relative h
                         then if timestamp_ms h > timestamp_ms last_h
                              then timestamp_ms h - timestamp_ms last_h else 0
                         else timestamp_ms h);
                 ext = ts32 \<ge> 0xffffff;
                 ts24 = (if ext then 0xffffff else ts32);
                 is_extended_ts = (if t = HEADER_CONTINUE then timestamp_ms last_h \<ge> 0xffffff else ext);
                 ext_bytes = (if is_extended_ts then WriteBE ts32 else [])
             in Some (write_channel_id t (channel_id h) @ (case t of
                  HEADER_NEW \<Rightarrow> WriteUInt24BE ts24 @ WriteUInt24BE event_size
                     @ WriteBE (event_code (h_event_type h)) @ WriteLE (stream_id h) @ ext_bytes
                | HEADER_SAME_SOURCE \<Rightarrow> WriteUInt24BE ts24 @ WriteUInt24BE event_size
                     @ WriteBE (event_code (h_event_type h)) @ ext_bytes
                | HEADER_TIMER_CHANGE \<Rightarrow> WriteUInt24BE ts24 @ ext_bytes
                | HEADER_CONTINUE \<Rightarrow> ext_bytes)))"

section \<open>Facts\<close>

definition header_byte_of :: "header_type \<Rightarrow> 32 word \<Rightarrow> byte" where
  "header_byte_of t ch = push_bit 6 (header_code t) + ucast ch"

lemma header_byte_fields:
  assumes "2 \<le> unat ch" "unat ch < kMaxNumChannels"
  shows "header_byte_of t ch \<noteq> 0" "header_byte_of t ch AND 0x3f \<noteq> 0"
    "header_byte_of t ch AND 0x3f \<noteq> 1" "HeaderType_of (header_byte_of t ch) = t"
    "ucast (header_byte_of t ch AND 0x3f) = ch"
proof -
  have all: "\<forall>n \<in> set [2..<32]. \<forall>t \<in> set [HEADER_NEW, HEADER_SAME_SOURCE, HEADER_TIMER_CHANGE, HEADER_CONTINUE].
     let b = (push_bit 6 (header_code t) + word_of_nat n :: byte) in
       b \<noteq> 0 \<and> b AND 0x3f \<noteq> 0 \<and> b AND 0x3f \<noteq> 1 \<and> HeaderType_of b = t
         \<and> (ucast (b AND 0x3f) :: 32 word) = word_of_nat n"
    by code_simp
  have t: "t \<in> set [HEADER_NEW, HEADER_SAME_SOURCE, HEADER_TIMER_CHANGE, HEADER_CONTINUE]"
    by (cases t) auto
  have n: "unat ch \<in> set [2..<32]" using assms(1,2) unfolding set_upt kMaxNumChannels_def by simp
  have u: "word_of_nat (unat ch) = ch" "(word_of_nat (unat ch) :: byte) = ucast ch" by simp_all
  from all[rule_format, OF n t]
  show "header_byte_of t ch \<noteq> 0" "header_byte_of t ch AND 0x3f \<noteq> 0"
      "header_byte_of t ch AND 0x3f \<noteq> 1" "HeaderType_of (header_byte_of t ch) = t"
      "ucast (header_byte_of t ch AND 0x3f) = ch"
    unfolding u header_byte_of_def Let_def by auto
qed

lemma WriteBE_byte: "WriteBE (b :: byte) = [b]"
  using unat_byte_less[of b] by (simp add: WriteBE_eq be_bytes_def)

lemma write_channel_id_small:
  assumes "2 \<le> unat ch" "unat ch < kMaxNumChannels"
  shows "write_channel_id t ch = [header_byte_of t ch]"
proof -
  have "ch \<le> 0x3f" using assms(2) by (simp add: word_le_nat_alt kMaxNumChannels_def)
  moreover have "WriteBE (b :: byte) = [b]" for b 
    using unat_byte_less[of b] by (simp add: WriteBE_eq be_bytes_def)
  ultimately show ?thesis by (simp add: write_channel_id_def header_byte_of_def)
qed

text \<open>Well-formed arrays: an entry is the default header or belongs to its channel.\<close>

definition channels_ok :: "header list \<Rightarrow> bool" where
  "channels_ok hs \<longleftrightarrow> length hs = kMaxNumChannels
     \<and> (\<forall>i < kMaxNumChannels. hs ! i = Header_default \<or> unat (channel_id (hs ! i)) = i)"

definition coder_ok :: "coder \<Rightarrow> bool" where
  "coder_ok c \<longleftrightarrow> channels_ok (last_read_event_header c) \<and> channels_ok (last_write_event_header c)
     \<and> length (last_read_event_size c) = kMaxNumChannels
     \<and> length (last_write_event_size c) = kMaxNumChannels
     \<and> length (partial_bodies c) = kMaxNumChannels
     \<and> 0 \<le> read_chunk_size c \<and> 0 < write_chunk_size c"

lemma Coder_new_ok:
  "length rs = kMaxNumChannels \<Longrightarrow> length ws = kMaxNumChannels \<Longrightarrow> coder_ok (Coder_new limit rs ws)"
  by (simp add: coder_ok_def Coder_new_def channels_ok_def
      kDefaultReadChunkSize_def kDefaultWriteChunkSize_def)

subsection \<open>Decoding arbitrary input\<close>

lemma skip_padding_length: "skip_padding s = Some (b, s') \<Longrightarrow> length s' < length s \<and> b \<noteq> 0"
  by (induction s) (auto split: if_splits)

lemma read_header_byte_post: "rd_post read_header_byte s 1 (\<lambda>b. b \<noteq> 0)"
  using skip_padding_length[of s]
  by (auto simp: rd_post_def read_header_byte_def split: option.splits)

lemma read_channel_id_post: "2 \<le> length s \<Longrightarrow> rd_post (read_channel_id b) s 0 (\<lambda>_. True)"
  unfolding read_channel_id_def by (intro rd_rules) auto

lemma read_extended_post:
  "4 \<le> length s \<Longrightarrow> rd_post (read_extended ts) s 0 (\<lambda>_. True)"
  by (auto simp: read_extended_def rd_post_def rd_num_def ReadBE_eq rd_ok_def)

definition read_header_ok :: "header \<times> 32 word \<Rightarrow> bool" where
  "read_header_ok p \<longleftrightarrow> unat (channel_id (fst p)) < kMaxNumChannels"

lemma decode_forms_post:
  assumes "unat ch < kMaxNumChannels"
  shows "15 \<le> length s \<Longrightarrow> rd_post (decode_new ch) s 0 read_header_ok"
    and "11 \<le> length s \<Longrightarrow> rd_post (decode_same_source ch h) s 0 read_header_ok"
    and "7 \<le> length s \<Longrightarrow> rd_post (decode_timer_change ch h n) s 0 read_header_ok"
    and "4 \<le> length s \<Longrightarrow> rd_post (decode_continue ch h n) s 0 read_header_ok"
proof -
  have ext: "rd_post (rd_bind (read_extended ts) (\<lambda>t. rd_ok (f t))) s k read_header_ok"
    if "4 \<le> length s" "k = 0" "\<And>t. read_header_ok (f t)" for ts f s k
    using that by (intro rd_post_bind[OF read_extended_post]) auto
  show "15 \<le> length s \<Longrightarrow> rd_post (decode_new ch) s 0 read_header_ok"
    unfolding decode_new_def
    by (intro rd_rules; (split option.split, intro conjI allI impI)?; (intro rd_rules ext)?)
       (use assms in \<open>auto simp: read_header_ok_def\<close>)
  show "11 \<le> length s \<Longrightarrow> rd_post (decode_same_source ch h) s 0 read_header_ok"
    unfolding decode_same_source_def
    by (intro rd_rules; (split option.split, intro conjI allI impI)?; (intro rd_rules ext)?)
       (use assms in \<open>auto simp: read_header_ok_def\<close>)
  show "7 \<le> length s \<Longrightarrow> rd_post (decode_timer_change ch h n) s 0 read_header_ok"
    unfolding decode_timer_change_def
    by (intro rd_rules ext) (use assms in \<open>auto simp: read_header_ok_def\<close>)
  show "4 \<le> length s \<Longrightarrow> rd_post (decode_continue ch h n) s 0 read_header_ok"
    unfolding decode_continue_def
    by (intro rd_rules ext) (use assms in \<open>auto simp: read_header_ok_def\<close>)
qed

lemma Header_Decode_post: "rd_post (Header_Decode c) s 1 read_header_ok"
  unfolding Header_Decode_def amf_need_def Let_def
proof (rule rd_post_bind[OF read_header_byte_post], intro rd_post_need)
  fix b and s1 :: bytes
  assume "2 \<le> length s1"
  show "rd_post (rd_bind (read_channel_id b) (\<lambda>ch.
      if kMaxNumChannels \<le> unat ch then rd_err READ_TOO_MANY_CHANNELS
      else rd_bind (rd_need READ_NO_DATA (HeaderLength (HeaderType_of b) + 4)) (\<lambda>_.
        if HeaderType_of b \<noteq> HEADER_NEW \<and> channel_id (last_read_event_header c ! unat ch) = kInvalidChannelId
        then rd_err READ_CORRUPTED_DATA
        else case HeaderType_of b of
            HEADER_NEW \<Rightarrow> decode_new ch
          | HEADER_SAME_SOURCE \<Rightarrow> decode_same_source ch (last_read_event_header c ! unat ch)
          | HEADER_TIMER_CHANGE \<Rightarrow> decode_timer_change ch (last_read_event_header c ! unat ch)
              (last_read_event_size c ! unat ch)
          | HEADER_CONTINUE \<Rightarrow> decode_continue ch (last_read_event_header c ! unat ch)
              (last_read_event_size c ! unat ch))))
     s1 (1 - 1) read_header_ok"
    by (rule rd_post_bind[OF read_channel_id_post[OF \<open>2 \<le> length s1\<close>]],
        intro rd_post_if rd_post_need rd_post_err, cases "HeaderType_of b")
       (auto intro!: decode_forms_post)
qed

subsection \<open>Round trip\<close>

definition ts24_of :: "32 word \<Rightarrow> 32 word" where
  "ts24_of ts = (if ts \<ge> 0xffffff then 0xffffff else ts)"

definition ext_of :: "32 word \<Rightarrow> bytes" where
  "ext_of ts = (if ts \<ge> 0xffffff then WriteBE ts else [])"

lemma read_ts24: "ReadUInt24BE (WriteUInt24BE (ts24_of ts) @ s) = Some (ts24_of ts, s)"
  by (rule ReadUInt24BE_WriteUInt24BE) (auto simp: ts24_of_def word_le_nat_alt)

lemma read_extended_of: "read_extended (ts24_of ts) (ext_of ts @ s) = Some (Inr ts, s)"
  by (simp add: read_extended_def ts24_of_def ext_of_def rd_num_def codec_simps)

lemma ReadByte_WriteBE [codec_simps]: "ReadByte (WriteBE (b :: byte) @ s) = Some (b, s)"
  by (simp add: WriteBE_byte codec_simps)

lemma decode_forms_encode:
  assumes "unat n < 2 ^ 24"
  shows "decode_new ch (WriteUInt24BE (ts24_of ts) @ WriteUInt24BE n @ WriteBE (event_code t) @ WriteLE sid
            @ ext_of ts @ s)
      = Some (Inr (\<lparr>channel_id = ch, stream_id = sid, h_event_type = t, timestamp_ms = ts,
           is_timestamp_relative = False\<rparr>, n), s)"
    and "decode_same_source ch h (WriteUInt24BE (ts24_of ts) @ WriteUInt24BE n @ WriteBE (event_code t)
            @ ext_of ts @ s)
      = Some (Inr (\<lparr>channel_id = ch, stream_id = stream_id h, h_event_type = t, timestamp_ms = ts,
           is_timestamp_relative = True\<rparr>, n), s)"
    and "decode_timer_change ch h n' (WriteUInt24BE (ts24_of ts) @ ext_of ts @ s)
      = Some (Inr (\<lparr>channel_id = ch, stream_id = stream_id h, h_event_type = h_event_type h,
           timestamp_ms = ts, is_timestamp_relative = True\<rparr>, n'), s)"
  using ReadUInt24BE_WriteUInt24BE[OF assms]
  by (simp_all add: decode_new_def decode_same_source_def decode_timer_change_def decode_continue_def
      rd_bind_def rd_num_def rd_ok_def read_ts24 ReadByte_WriteBE ReadLE_WriteLE_simps(2)
      read_extended_of)

lemma decode_continue_cases:
  "timestamp_ms h \<ge> 0xffffff \<Longrightarrow> decode_continue ch h n (WriteBE ts @ s)
     = Some (Inr (\<lparr>channel_id = ch, stream_id = stream_id h, h_event_type = h_event_type h,
          timestamp_ms = ts, is_timestamp_relative = True\<rparr>, n), s)"
  "\<not> timestamp_ms h \<ge> 0xffffff \<Longrightarrow> decode_continue ch h n s
     = Some (Inr (\<lparr>channel_id = ch, stream_id = stream_id h, h_event_type = h_event_type h,
          timestamp_ms = timestamp_ms h, is_timestamp_relative = True\<rparr>, n), s)"
  by (simp_all add: decode_continue_def read_extended_def rd_bind_def rd_num_def rd_ok_def codec_simps)

text \<open>The part of \<^verbatim>\<open>Decode\<close> before the switch, on the first byte of a small channel.\<close>

lemma Header_Decode_start:
  assumes "2 \<le> unat ch" "unat ch < kMaxNumChannels"
    "t = HEADER_NEW \<or> channel_id (last_read_event_header c ! unat ch) \<noteq> kInvalidChannelId"
    "HeaderLength t + 4 \<le> length s"
  shows "Header_Decode c (header_byte_of t ch # s) = (case t of
       HEADER_NEW \<Rightarrow> decode_new ch
     | HEADER_SAME_SOURCE \<Rightarrow> decode_same_source ch (last_read_event_header c ! unat ch)
     | HEADER_TIMER_CHANGE \<Rightarrow> decode_timer_change ch (last_read_event_header c ! unat ch)
         (last_read_event_size c ! unat ch)
     | HEADER_CONTINUE \<Rightarrow> decode_continue ch (last_read_event_header c ! unat ch)
         (last_read_event_size c ! unat ch)) s"
proof -
  note f = header_byte_fields[OF assms(1,2), of t]
  have 1: "read_header_byte (header_byte_of t ch # s) = Some (Inr (header_byte_of t ch), s)"
    using f(1) by (simp add: read_header_byte_def)
  have 2: "rd_bind read_header_byte g (header_byte_of t ch # s) = g (header_byte_of t ch) s"
    for g :: "byte \<Rightarrow> (header \<times> 32 word) amf_reader"
    by (rule rd_bind_ok) (rule 1)
  show ?thesis
    using assms by (auto simp: 2 Header_Decode_def amf_need_def rd_simps read_channel_id_def f Let_def)
qed

text \<open>
  The writer's and the reader's memory of a channel agree, but for the flag of the header,
  which neither side looks at; the sizes agree once a header was written.
\<close>

definition same_header :: "header \<Rightarrow> header \<Rightarrow> bool" where
  "same_header g h \<longleftrightarrow> g\<lparr>is_timestamp_relative := True\<rparr> = h\<lparr>is_timestamp_relative := True\<rparr>"

definition in_sync :: "coder \<Rightarrow> coder \<Rightarrow> nat \<Rightarrow> bool" where
  "in_sync w r i \<longleftrightarrow> same_header (last_read_event_header r ! i) (last_write_event_header w ! i)
     \<and> (channel_id (last_write_event_header w ! i) \<noteq> kInvalidChannelId
          \<longrightarrow> last_read_event_size r ! i = last_write_event_size w ! i)"

lemma same_headerD:
  assumes "same_header g h"
  shows "channel_id g = channel_id h" "stream_id g = stream_id h" "h_event_type g = h_event_type h"
    "timestamp_ms g = timestamp_ms h"
  using assms by (cases g; cases h; simp add: same_header_def)+

text \<open>A header of the form \<open>HEADER_NEW\<close> is read as absolute, every other as relative.\<close>

definition relative_on :: "header \<Rightarrow> header \<Rightarrow> bool" where
  "relative_on h last_h \<longleftrightarrow> is_timestamp_relative h \<and> stream_id h = stream_id last_h"

lemma Header_roundtrip:
  fixes h :: header and w r :: coder
  defines "i \<equiv> unat (channel_id h)"
  defines "last_h \<equiv> last_write_event_header w ! i"
  assumes ch: "2 \<le> i" "i < kMaxNumChannels" and sync: "in_sync w r i"
    and known: "relative_on h last_h \<Longrightarrow> channel_id last_h \<noteq> kInvalidChannelId"
    and n: "unat n < 2 ^ 24" and s: "4 \<le> length s"
  shows "\<exists>bs. Header_Encode w n False h = Some bs
    \<and> Header_Decode r (bs @ s) = Some (Inr (h\<lparr>is_timestamp_relative := relative_on h last_h\<rparr>, n), s)"
proof -
  let ?t = "choose_header_type h last_h (last_write_event_size w ! i) n False"
  note ch' = ch[unfolded i_def]
  have t: "?t \<noteq> HEADER_NEW \<longleftrightarrow> relative_on h last_h"
    by (auto simp: choose_header_type_def relative_on_def)
  have rel: "is_timestamp_relative h" if "?t \<noteq> HEADER_NEW" using that t by (simp add: relative_on_def)
  define body where "body = (case ?t of
       HEADER_NEW \<Rightarrow> WriteUInt24BE (ts24_of (timestamp_ms h)) @ WriteUInt24BE n
         @ WriteBE (event_code (h_event_type h)) @ WriteLE (stream_id h) @ ext_of (timestamp_ms h)
     | HEADER_SAME_SOURCE \<Rightarrow> WriteUInt24BE (ts24_of (timestamp_ms h)) @ WriteUInt24BE n
         @ WriteBE (event_code (h_event_type h)) @ ext_of (timestamp_ms h)
     | HEADER_TIMER_CHANGE \<Rightarrow> WriteUInt24BE (ts24_of (timestamp_ms h)) @ ext_of (timestamp_ms h)
     | HEADER_CONTINUE \<Rightarrow> (if timestamp_ms last_h \<ge> 0xffffff then WriteBE (timestamp_ms h) else []))"
  have enc: "Header_Encode w n False h = Some (header_byte_of ?t (channel_id h) # body)"
    using ch' rel
    by (auto simp: Header_Encode_def Let_def write_channel_id_small body_def ts24_of_def ext_of_def
        i_def[symmetric] last_h_def[symmetric] split: header_type.splits)
  have len: "HeaderLength ?t + 4 \<le> length (body @ s)"
    using s by (cases ?t) (auto simp: body_def)
  have "same_header (last_read_event_header r ! i) last_h"
    using sync by (simp add: in_sync_def last_h_def)
  note r = same_headerD[OF this]
  have size: "last_read_event_size r ! i = last_write_event_size w ! i" if "relative_on h last_h"
    using sync known[OF that] by (simp add: in_sync_def last_h_def)
  have k: "?t = HEADER_NEW \<or> channel_id (last_read_event_header r ! unat (channel_id h)) \<noteq> kInvalidChannelId"
    using known t r by (auto simp: i_def)
  have dec: "Header_Decode r ((header_byte_of ?t (channel_id h) # body) @ s)
      = Some (Inr (h\<lparr>is_timestamp_relative := relative_on h last_h\<rparr>, n), s)"
  proof (cases ?t)
    case HEADER_NEW
    then show ?thesis
      using Header_Decode_start[OF ch' k len] t decode_forms_encode(1)[OF n]
      by (simp add: body_def)
  next
    case HEADER_SAME_SOURCE
    then show ?thesis
      using Header_Decode_start[OF ch' k len] t decode_forms_encode(2)[OF n] r
      by (simp add: body_def i_def relative_on_def)
  next
    case HEADER_TIMER_CHANGE
    moreover from this have "n = last_write_event_size w ! i \<and> h_event_type h = h_event_type last_h"
      by (auto simp: choose_header_type_def split: if_splits)
    ultimately show ?thesis
      using Header_Decode_start[OF ch' k len] t decode_forms_encode(3)[OF n] r size
      by (simp add: body_def i_def relative_on_def)
  next
    case HEADER_CONTINUE
    moreover from this have "n = last_write_event_size w ! i \<and> h_event_type h = h_event_type last_h
        \<and> timestamp_ms h = timestamp_ms last_h"
      by (auto simp: choose_header_type_def split: if_splits)
    ultimately show ?thesis
      using Header_Decode_start[OF ch' k len] t r size
      by (simp add: body_def i_def relative_on_def decode_continue_cases)
  qed
  from enc dec show ?thesis by blast
qed

text \<open>
  The header of a further chunk of the event last written on the channel.  Whatever the
  first header was, it is read as relative; an absolute timestamp of more than 24 bits becomes
  0.
\<close>

definition continued_header :: "header \<Rightarrow> header" where
  "continued_header h = h\<lparr>
     timestamp_ms := (if timestamp_ms h \<ge> 0xffffff \<and> \<not> is_timestamp_relative h then 0 else timestamp_ms h),
     is_timestamp_relative := True\<rparr>"

lemma Header_continue_roundtrip:
  fixes h :: header and w r :: coder
  defines "i \<equiv> unat (channel_id h)"
  assumes ch: "2 \<le> i" "i < kMaxNumChannels" and sync: "in_sync w r i"
    and last_h: "last_write_event_header w ! i = h" and s: "4 \<le> length s"
  shows "\<exists>bs. Header_Encode w n True h = Some bs
    \<and> Header_Decode r (bs @ s) = Some (Inr (continued_header h, last_write_event_size w ! i), s)"
proof -
  note ch' = ch[unfolded i_def]
  let ?ts = "if is_timestamp_relative h then timestamp_ms h else 0"
  let ?body = "if timestamp_ms h \<ge> 0xffffff then WriteBE ?ts else []"
  have inv: "channel_id h \<noteq> kInvalidChannelId"
    using ch'(2) by (auto simp: kInvalidChannelId_def kMaxNumChannels_def)
  have enc: "Header_Encode w n True h = Some (header_byte_of HEADER_CONTINUE (channel_id h) # ?body)"
    using ch' last_h inv
    by (simp add: Header_Encode_def Let_def choose_header_type_def write_channel_id_small i_def[symmetric])
  have "same_header (last_read_event_header r ! i) h" using sync last_h by (simp add: in_sync_def)
  note r = same_headerD[OF this]
  have size: "last_read_event_size r ! i = last_write_event_size w ! i"
    using sync last_h inv by (simp add: in_sync_def)
  have k: "HEADER_CONTINUE = HEADER_NEW
      \<or> channel_id (last_read_event_header r ! unat (channel_id h)) \<noteq> kInvalidChannelId"
    using r inv by (simp add: i_def)
  have len: "HeaderLength HEADER_CONTINUE + 4 \<le> length (?body @ s)" using s by simp
  have "Header_Decode r ((header_byte_of HEADER_CONTINUE (channel_id h) # ?body) @ s)
      = Some (Inr (continued_header h, last_write_event_size w ! i), s)"
    using Header_Decode_start[OF ch' k len] r size
    by (simp add: i_def continued_header_def decode_continue_cases)
  with enc show ?thesis by blast
qed

section \<open>Properties\<close>

text \<open>
  C24. A chunk header: what \<^verbatim>\<open>Encode\<close> writes for channels 2 to 31 and event sizes of 24
  bits, in whichever of the four forms it chooses from its memory of the channel,
  \<^verbatim>\<open>Decode\<close> reads back as the same channel, stream, event type, timestamp (24 or 32 bits)
  and event size, given the same memory and at least four bytes after the header.  The timestamp
  is read as relative exactly when it was relative and on the stream of the last header: the
  flag of a relative header on another stream is lost.  The header of a further chunk of the
  event last written, for which \<^verbatim>\<open>force_continue\<close> is set, is read back with the size of that
  event but always as relative, and an absolute timestamp of more than 24 bits as 0
  (\<open>continued_header\<close>).
\<close>

theorem Header_Encode_Decode:
  assumes "2 \<le> unat (channel_id h)" "unat (channel_id h) < kMaxNumChannels"
    and "in_sync w r (unat (channel_id h))"
    and "relative_on h (last_write_event_header w ! unat (channel_id h))
      \<Longrightarrow> channel_id (last_write_event_header w ! unat (channel_id h)) \<noteq> kInvalidChannelId"
    and "unat n < 2 ^ 24" "4 \<le> length s"
  shows "(\<exists>bs. Header_Encode w n False h = Some bs
      \<and> Header_Decode r (bs @ s) = Some (Inr (h\<lparr>is_timestamp_relative :=
          relative_on h (last_write_event_header w ! unat (channel_id h))\<rparr>, n), s))
    \<and> (last_write_event_header w ! unat (channel_id h) = h \<longrightarrow>
        (\<exists>bs. Header_Encode w n True h = Some bs \<and> Header_Decode r (bs @ s)
          = Some (Inr (continued_header h, last_write_event_size w ! unat (channel_id h)), s)))"
  using Header_roundtrip[OF assms] Header_continue_roundtrip[OF assms(1-3) _ assms(6)] by blast

definition sample_header :: header where
  "sample_header = \<lparr>channel_id = 5, stream_id = 1, h_event_type = EVENT_VIDEO_DATA,
     timestamp_ms = 0x2000000, is_timestamp_relative = True\<rparr>"

definition sample_coder :: coder where
  "sample_coder = (Coder_new 1000 (replicate 32 0) (replicate 32 0))
     \<lparr>last_write_event_header := replicate 32 sample_header,
      last_read_event_header := replicate 32 sample_header\<rparr>"

lemma Header_Encode_Decode_witness:
  "(\<exists>bs. Header_Encode sample_coder 9 False sample_header = Some bs
    \<and> Header_Decode sample_coder (bs @ [1, 2, 3, 4]) = Some (Inr (sample_header, 9), [1, 2, 3, 4]))
   \<and> (\<exists>bs. Header_Encode sample_coder 9 True sample_header = Some bs
    \<and> Header_Decode sample_coder (bs @ [1, 2, 3, 4]) = Some (Inr (sample_header, 0), [1, 2, 3, 4]))"
  using Header_Encode_Decode[of sample_header sample_coder sample_coder 9 "[1, 2, 3, 4]"]
  by (simp add: sample_header_def sample_coder_def kMaxNumChannels_def in_sync_def same_header_def
       Coder_new_def kInvalidChannelId_def relative_on_def continued_header_def)

end
