(* ===== verification/RtmpEvents.thy ===== *)
theory RtmpEvents
  imports RtmpHeader
begin

text \<open>
  \<^verbatim>\<open>whisperstreamlib/rtmp/events\<close>: the events an RTMP conversation consists of, with the
  decoding and the encoding of their bodies (\<^verbatim>\<open>rtmp_event.h\<close>, \<^verbatim>\<open>rtmp_event_ping\<close>,
  \<^verbatim>\<open>rtmp_event_notify\<close>, \<^verbatim>\<open>rtmp_event_invoke\<close>, \<^verbatim>\<open>rtmp_call\<close>).  A class derived
  from \<^verbatim>\<open>Event\<close> is a constructor of \<open>event_body\<close>; the pair with its header is the event.
\<close>

section \<open>Pings\<close>

datatype ping_type = STREAM_CLEAR | STREAM_CLEAR_BUFFER | CLIENT_BUFFER | STREAM_RESET | PING_CLIENT
  | PONG_SERVER | SWF_VERIFY_REQUEST | SWF_VERIFY_RESPONSE | PING_31 | PING_32

fun ping_code :: "ping_type \<Rightarrow> 16 word" where
  "ping_code STREAM_CLEAR = 0"
| "ping_code STREAM_CLEAR_BUFFER = 1"
| "ping_code CLIENT_BUFFER = 3"
| "ping_code STREAM_RESET = 4"
| "ping_code PING_CLIENT = 6"
| "ping_code PONG_SERVER = 7"
| "ping_code SWF_VERIFY_REQUEST = 26"
| "ping_code SWF_VERIFY_RESPONSE = 27"
| "ping_code PING_31 = 31"
| "ping_code PING_32 = 32"

text \<open>\<^verbatim>\<open>IsValidType\<close> and the cast to \<^verbatim>\<open>Type\<close>.\<close>

definition ping_type_of :: "16 word \<Rightarrow> ping_type option" where
  "ping_type_of w = List.find (\<lambda>t. ping_code t = w) [STREAM_CLEAR, STREAM_CLEAR_BUFFER,
     CLIENT_BUFFER, STREAM_RESET, PING_CLIENT, PONG_SERVER, SWF_VERIFY_REQUEST,
     SWF_VERIFY_RESPONSE, PING_31, PING_32]"

record ping =
  ping_type :: ping_type
  value2 :: "32 word"
  value3 :: "32 word"
  value4 :: "32 word"
  value5 :: "32 word"

text \<open>A fresh ping as \<^verbatim>\<open>CreateEvent\<close> makes it.\<close>

definition EventPing_new :: ping where
  "EventPing_new = \<lparr>ping_type = STREAM_CLEAR, value2 = -1, value3 = -1, value4 = -1, value5 = -1\<rparr>"

text \<open>An optional trailing \<^verbatim>\<open>int32\<close>: read if there are four bytes left.\<close>

definition ping_optional :: "(32 word \<Rightarrow> ping amf_reader) \<Rightarrow> ping \<Rightarrow> ping amf_reader" where
  "ping_optional k p = (\<lambda>s. if length s \<ge> 4 then rd_bind (rd_num ReadBE) k s else rd_ok p s)"

definition EventPing_DecodeBody :: "ping \<Rightarrow> ping amf_reader" where
  "EventPing_DecodeBody p =
     rd_bind (amf_need 6) (\<lambda>_.
     rd_bind (rd_num ReadBE) (\<lambda>w.
     case ping_type_of w of
       None \<Rightarrow> rd_err READ_NOT_IMPLEMENTED
     | Some t \<Rightarrow>
         rd_bind (rd_num ReadBE) (\<lambda>v2.
         let p = p\<lparr>ping_type := t, value2 := v2\<rparr> in
         ping_optional (\<lambda>v3. let p = p\<lparr>value3 := v3\<rparr> in
         ping_optional (\<lambda>v4. let p = p\<lparr>value4 := v4\<rparr> in
         ping_optional (\<lambda>v5. rd_ok (p\<lparr>value5 := v5\<rparr>)) p) p) p)))"

definition EventPing_EncodeBody :: "ping \<Rightarrow> bytes" where
  "EventPing_EncodeBody p = WriteBE (ping_code (ping_type p)) @ WriteBE (value2 p) @
     (if value3 p \<noteq> -1 then WriteBE (value3 p) @
        (if value4 p \<noteq> -1 then WriteBE (value4 p) @
           (if value5 p \<noteq> -1 then WriteBE (value5 p) else []) else []) else [])"

section \<open>Calls\<close>

datatype call_status = STATUS_PENDING | STATUS_SUCCESS_RESULT | STATUS_SUCCESS_NULL
  | STATUS_SUCCESS_VOID | STATUS_SERVICE_NOT_FOUND | STATUS_METHOD_NOT_FOUND | STATUS_ACCESS_DENIED
  | STATUS_INVOCATION_EXCEPTION | STATUS_GENERAL_EXCEPTION

record call =
  service_name :: bytes
  method_name :: bytes
  invoke_id :: "32 word"
  call_status :: call_status
  connection_params :: "cobject option"
  arguments :: "cobject list"

text \<open>\<^verbatim>\<open>PendingCall("", "", 0, STATUS_PENDING, NULL, NULL)\<close>.\<close>

definition PendingCall_new :: call where
  "PendingCall_new = \<lparr>service_name = [], method_name = [], invoke_id = 0,
     call_status = STATUS_PENDING, connection_params = None, arguments = []\<rparr>"

definition Call_IsSuccess :: "call \<Rightarrow> bool" where
  "Call_IsSuccess c \<longleftrightarrow> call_status c \<in> {STATUS_SUCCESS_RESULT, STATUS_SUCCESS_NULL, STATUS_SUCCESS_VOID}"

definition PendingCall_result :: "call \<Rightarrow> cobject option" where
  "PendingCall_result c = (case arguments c of [] \<Rightarrow> None | x # _ \<Rightarrow> Some x)"

definition dot :: byte where "dot = 0x2e"

text \<open>\<^verbatim>\<open>find_last_of(".")\<close> and the two \<^verbatim>\<open>substr\<close>: the part before the last dot, if any.\<close>

definition split_last_dot :: "bytes \<Rightarrow> bytes option \<times> bytes" where
  "split_last_dot a =
     (if dot \<in> set a
      then let suffix = rev (takeWhile (\<lambda>b. b \<noteq> dot) (rev a))
           in (Some (take (length a - length suffix - 1) a), suffix)
      else (None, a))"

text \<open>
  Objects up to the end of the input, as \<^verbatim>\<open>Call\<close>, \<^verbatim>\<open>EventNotify\<close> and
  \<^verbatim>\<open>EventFlexMessage\<close> read them.  Fuel beyond the length of the input is never used up.
\<close>

primrec read_objects_fuel :: "nat \<Rightarrow> cobject list amf_reader" where
  "read_objects_fuel 0 = (\<lambda>s. None)"
| "read_objects_fuel (Suc fuel) = (\<lambda>s. if s = [] then rd_ok [] s
     else rd_bind ReadNextObject (\<lambda>x. rd_bind (read_objects_fuel fuel) (\<lambda>xs. rd_ok (x # xs))) s)"

definition read_objects :: "cobject list amf_reader" where
  "read_objects s = read_objects_fuel (Suc (length s)) s"

text \<open>A \<^verbatim>\<open>CNumber\<close> if there is one: otherwise the marker is restored and the value is 0.\<close>

definition read_invoke_id :: "32 word amf_reader" where
  "read_invoke_id = (\<lambda>s. case CNumber_Decode s of
     Some (Inr (CNumber v), s') \<Rightarrow> Some (Inr (word_of_int (CNumber_int_value v)), s')
   | None \<Rightarrow> None
   | _ \<Rightarrow> Some (Inr 0, s))"

definition Call_Decode :: "call \<Rightarrow> call amf_reader" where
  "Call_Decode c =
     rd_bind Amf0_ReadString (\<lambda>action.
     let c = (case split_last_dot action of
                (None, m) \<Rightarrow> c\<lparr>method_name := m\<rparr>
              | (Some sv, m) \<Rightarrow> c\<lparr>service_name := sv, method_name := m\<rparr>) in
     rd_bind read_invoke_id (\<lambda>invoke.
     rd_bind read_objects (\<lambda>objs.
       rd_ok (c\<lparr>invoke_id := invoke,
                connection_params := (case objs of [] \<Rightarrow> None | x # _ \<Rightarrow> Some x),
                arguments := arguments c @ tl objs\<rparr>))))"

text \<open>Encodings are \<open>None\<close> when \<open>CObject_Encode\<close> fails a \<^verbatim>\<open>CHECK\<close>.\<close>

definition encode_objects :: "cobject list \<Rightarrow> bytes option" where
  "encode_objects xs = map_option concat (those (map CObject_Encode xs))"

definition Call_Encode :: "bool \<Rightarrow> call \<Rightarrow> bytes option" where
  "Call_Encode write_invoke_id c = do {
     params \<leftarrow> (case connection_params c of None \<Rightarrow> CObject_Encode CNull | Some p \<Rightarrow> CObject_Encode p);
     args \<leftarrow> encode_objects (arguments c);
     Some (WriteString (if service_name c = [] then method_name c
                        else service_name c @ [dot] @ method_name c)
       @ (if write_invoke_id then CNumber_Encode (double_of_int (uint (invoke_id c))) else [])
       @ params @ args) }"

section \<open>Events\<close>

datatype event_body =
    EventChunkSize "32 word"
  | EventBytesRead "32 word"
  | EventServerBW "32 word"
  | EventClientBW "32 word" byte
  | EventPing ping
  | EventAudioData bytes
  | EventVideoData bytes
  | MediaDataEvent bytes
  | EventFlexSharedObject bytes
  | EventSharedObject bytes
  | EventStreamMetadata bytes
  | EventFlexMessage byte "cobject list"
  | EventNotify bytes "cobject list"
  | EventInvoke "call option"

fun body_type :: "event_body \<Rightarrow> event_type" where
  "body_type (EventChunkSize _) = EVENT_CHUNK_SIZE"
| "body_type (EventBytesRead _) = EVENT_BYTES_READ"
| "body_type (EventServerBW _) = EVENT_SERVER_BANDWIDTH"
| "body_type (EventClientBW _ _) = EVENT_CLIENT_BANDWIDTH"
| "body_type (EventPing _) = EVENT_PING"
| "body_type (EventAudioData _) = EVENT_AUDIO_DATA"
| "body_type (EventVideoData _) = EVENT_VIDEO_DATA"
| "body_type (MediaDataEvent _) = EVENT_MEDIA_DATA"
| "body_type (EventFlexSharedObject _) = EVENT_FLEX_SHARED_OBJECT"
| "body_type (EventSharedObject _) = EVENT_SHARED_OBJECT"
| "body_type (EventStreamMetadata _) = EVENT_NOTIFY"
| "body_type (EventFlexMessage _ _) = EVENT_FLEX_MESSAGE"
| "body_type (EventNotify _ _) = EVENT_NOTIFY"
| "body_type (EventInvoke _) = EVENT_INVOKE"

record event =
  ev_header :: header
  ev_body :: event_body

text \<open>The constructor of \<^verbatim>\<open>Event\<close> checks that header and class agree.\<close>

definition event_ok :: "event \<Rightarrow> bool" where
  "event_ok e \<longleftrightarrow> h_event_type (ev_header e) = body_type (ev_body e)"

text \<open>\<^verbatim>\<open>Coder::CreateEvent\<close>.\<close>

definition CreateEvent :: "event_type \<Rightarrow> event_body" where
  "CreateEvent t = (case t of
     EVENT_CHUNK_SIZE \<Rightarrow> EventChunkSize 0
   | EVENT_INVOKE \<Rightarrow> EventInvoke None
   | EVENT_NOTIFY \<Rightarrow> EventNotify [] []
   | EVENT_PING \<Rightarrow> EventPing EventPing_new
   | EVENT_BYTES_READ \<Rightarrow> EventBytesRead 0
   | EVENT_AUDIO_DATA \<Rightarrow> EventAudioData []
   | EVENT_VIDEO_DATA \<Rightarrow> EventVideoData []
   | EVENT_FLEX_SHARED_OBJECT \<Rightarrow> EventFlexSharedObject []
   | EVENT_SHARED_OBJECT \<Rightarrow> EventSharedObject []
   | EVENT_SERVER_BANDWIDTH \<Rightarrow> EventServerBW 0
   | EVENT_CLIENT_BANDWIDTH \<Rightarrow> EventClientBW 0 0
   | EVENT_FLEX_MESSAGE \<Rightarrow> EventFlexMessage 0 []
   | EVENT_MEDIA_DATA \<Rightarrow> MediaDataEvent [])"

text \<open>\<^verbatim>\<open>BulkDataEvent::DecodeBody\<close> moves the whole input to the end of its data.\<close>

definition BulkDataEvent_DecodeBody :: "bytes \<Rightarrow> bytes amf_reader" where
  "BulkDataEvent_DecodeBody data = (\<lambda>s. Some (Inr (data @ s), []))"

definition uint32_DecodeBody :: "32 word amf_reader" where
  "uint32_DecodeBody = rd_bind (amf_need 4) (\<lambda>_. rd_num ReadBE)"

definition EventClientBW_DecodeBody :: "(32 word \<times> byte) amf_reader" where
  "EventClientBW_DecodeBody = rd_bind (amf_need 5) (\<lambda>_.
     rd_bind (rd_num ReadBE) (\<lambda>bw. rd_bind (rd_num ReadByte) (\<lambda>v. rd_ok (bw, v))))"

definition EventFlexMessage_DecodeBody :: "(byte \<times> cobject list) amf_reader" where
  "EventFlexMessage_DecodeBody = rd_bind (amf_need 1) (\<lambda>_.
     rd_bind (rd_num ReadByte) (\<lambda>u. rd_bind read_objects (\<lambda>xs. rd_ok (u, xs))))"

definition EventNotify_DecodeBody :: "(bytes \<times> cobject list) amf_reader" where
  "EventNotify_DecodeBody = rd_bind Amf0_ReadString (\<lambda>name. rd_bind read_objects (\<lambda>xs. rd_ok (name, xs)))"

definition EventInvoke_DecodeBody :: "call amf_reader" where
  "EventInvoke_DecodeBody = Call_Decode PendingCall_new"

definition rd_map :: "('a \<Rightarrow> 'b) \<Rightarrow> ('e, 'a) reader \<Rightarrow> ('e, 'b) reader" where
  "rd_map f r = rd_bind r (\<lambda>x. rd_ok (f x))"

definition DecodeBody :: "event_body \<Rightarrow> event_body amf_reader" where
  "DecodeBody b = (case b of
     EventChunkSize _ \<Rightarrow> rd_map EventChunkSize uint32_DecodeBody
   | EventBytesRead _ \<Rightarrow> rd_map EventBytesRead uint32_DecodeBody
   | EventServerBW _ \<Rightarrow> rd_map EventServerBW uint32_DecodeBody
   | EventClientBW _ _ \<Rightarrow> rd_map (\<lambda>(bw, v). EventClientBW bw v) EventClientBW_DecodeBody
   | EventPing p \<Rightarrow> rd_map EventPing (EventPing_DecodeBody p)
   | EventAudioData d \<Rightarrow> rd_map EventAudioData (BulkDataEvent_DecodeBody d)
   | EventVideoData d \<Rightarrow> rd_map EventVideoData (BulkDataEvent_DecodeBody d)
   | MediaDataEvent d \<Rightarrow> rd_map MediaDataEvent (BulkDataEvent_DecodeBody d)
   | EventFlexSharedObject d \<Rightarrow> rd_map EventFlexSharedObject (BulkDataEvent_DecodeBody d)
   | EventSharedObject d \<Rightarrow> rd_map EventSharedObject (BulkDataEvent_DecodeBody d)
   | EventStreamMetadata d \<Rightarrow> rd_map EventStreamMetadata (BulkDataEvent_DecodeBody d)
   | EventFlexMessage _ _ \<Rightarrow> rd_map (\<lambda>(u, xs). EventFlexMessage u xs) EventFlexMessage_DecodeBody
   | EventNotify _ _ \<Rightarrow> rd_map (\<lambda>(n, xs). EventNotify n xs) EventNotify_DecodeBody
   | EventInvoke _ \<Rightarrow> rd_map (\<lambda>c. EventInvoke (Some c)) EventInvoke_DecodeBody)"

text \<open>\<open>EncodeBody\<close> of an \<^verbatim>\<open>EventInvoke\<close> without a call dereferences NULL.\<close>

fun EncodeBody :: "event_body \<Rightarrow> bytes option" where
  "EncodeBody (EventChunkSize n) = Some (WriteBE n)"
| "EncodeBody (EventBytesRead n) = Some (WriteBE n)"
| "EncodeBody (EventServerBW n) = Some (WriteBE n)"
| "EncodeBody (EventClientBW n v) = Some (WriteBE n @ WriteBE v)"
| "EncodeBody (EventPing p) = Some (EventPing_EncodeBody p)"
| "EncodeBody (EventAudioData d) = Some d"
| "EncodeBody (EventVideoData d) = Some d"
| "EncodeBody (MediaDataEvent d) = Some d"
| "EncodeBody (EventFlexSharedObject d) = Some d"
| "EncodeBody (EventSharedObject d) = Some d"
| "EncodeBody (EventStreamMetadata d) = Some d"
| "EncodeBody (EventFlexMessage u xs) = map_option ((@) (WriteBE u)) (encode_objects xs)"
| "EncodeBody (EventNotify name xs) = map_option ((@) (CString_Encode name)) (encode_objects xs)"
| "EncodeBody (EventInvoke c) = (case c of None \<Rightarrow> None | Some c' \<Rightarrow> Call_Encode True c')"

section \<open>Decoding arbitrary bodies\<close>

lemma read_objects_fuel_post:
  "length s < n \<Longrightarrow> rd_post (read_objects_fuel n) s 0 (list_all obj_ok)"
proof (induction n arbitrary: s)
  case (Suc n)
  have "rd_post (rd_bind ReadNextObject (\<lambda>x. rd_bind (read_objects_fuel n) (\<lambda>xs. rd_ok (x # xs))))
      s 0 (list_all obj_ok)"
  proof (rule rd_post_bind[OF ReadNextObject_post])
    fix x and s' :: bytes
    assume x: "obj_ok x" and "length s' + 1 \<le> length s"
    then have "rd_post (read_objects_fuel n) s' 0 (list_all obj_ok)" using Suc by simp
    then show "rd_post (rd_bind (read_objects_fuel n) (\<lambda>xs. rd_ok (x # xs))) s' (0 - 1) (list_all obj_ok)"
      by (rule rd_post_bind) (simp add: x)
  qed
  then show ?case by (auto simp: rd_post_def rd_ok_def)
qed simp

lemma read_objects_post: "rd_post read_objects s 0 (list_all obj_ok)"
  using rd_post_cong[of read_objects s "read_objects_fuel (Suc (length s))"]
    read_objects_fuel_post[of s "Suc (length s)"] by (simp add: read_objects_def)

lemma read_objects_fuel_rest: "read_objects_fuel n s = Some (Inr xs, s') \<Longrightarrow> s' = []"
  by (induction n arbitrary: s xs)
     (auto simp: rd_bind_def rd_ok_def split: if_splits option.splits sum.splits)

lemma read_invoke_id_post: "rd_post read_invoke_id s 0 (\<lambda>_. True)"
  using CNumber_Decode_post[of s]
  by (cases rule: rd_postE)
     (auto simp: rd_post_def read_invoke_id_def split: cobject.splits sum.splits)

definition call_ok :: "call \<Rightarrow> bool" where
  "call_ok c \<longleftrightarrow> pred_option obj_ok (connection_params c) \<and> list_all obj_ok (arguments c)"

lemma Call_Decode_post:
  assumes "list_all obj_ok (arguments c)"
  shows "rd_post (Call_Decode c) s 3 call_ok"
  unfolding Call_Decode_def Let_def
proof (rule rd_post_bind[OF Amf0_ReadString_post], rule rd_post_bind[OF read_invoke_id_post],
    rule rd_post_bind[OF read_objects_post])
  fix xs :: "cobject list"
  assume "list_all obj_ok xs"
  then show "rd_post (rd_ok ((case split_last_dot action of
        (None, m) \<Rightarrow> c\<lparr>method_name := m\<rparr>
      | (Some sv, m) \<Rightarrow> c\<lparr>service_name := sv, method_name := m\<rparr>)
        \<lparr>invoke_id := n, connection_params := case xs of [] \<Rightarrow> None | x # xa \<Rightarrow> Some x,
         arguments := arguments (case split_last_dot action of
            (None, m) \<Rightarrow> c\<lparr>method_name := m\<rparr>
          | (Some sv, m) \<Rightarrow> c\<lparr>service_name := sv, method_name := m\<rparr>) @ tl xs\<rparr>))
      s' (3 - 3 - 0 - 0) call_ok" for action n s'
    using assms by (cases xs) (auto simp: call_ok_def split: prod.splits option.splits)
qed

fun body_ok :: "event_body \<Rightarrow> bool" where
  "body_ok (EventFlexMessage u xs) \<longleftrightarrow> list_all obj_ok xs"
| "body_ok (EventNotify n xs) \<longleftrightarrow> list_all obj_ok xs"
| "body_ok (EventInvoke c) \<longleftrightarrow> pred_option call_ok c"
| "body_ok _ \<longleftrightarrow> True"

lemma rd_map_post: "rd_post r s k (\<lambda>x. Q (f x)) \<Longrightarrow> rd_post (rd_map f r) s k Q"
  unfolding rd_map_def by (erule rd_post_bind) simp

lemma ping_optional_post:
  assumes "\<And>v s. rd_post (f v) s 0 Q" "Q p" "k = 0"
  shows "rd_post (ping_optional f p) s k Q"
proof -
  have "rd_post (rd_bind (rd_num ReadBE) f) s 0 Q" if "4 \<le> length s"
    using that assms(1) by (intro rd_rules) auto
  then show ?thesis using assms(2,3) by (auto simp: ping_optional_def rd_post_def rd_ok_def)
qed

lemma EventPing_DecodeBody_post: "rd_post (EventPing_DecodeBody p) s 0 (\<lambda>_. True)"
  unfolding EventPing_DecodeBody_def amf_need_def Let_def
  by (intro rd_rules; (split option.split, intro conjI allI impI)?;
      (intro rd_rules ping_optional_post)?) auto

lemma DecodeBody_post:
  "rd_post (DecodeBody b) s 0 (\<lambda>b'. body_type b' = body_type b \<and> body_ok b')"
proof -
  have u: "rd_post uint32_DecodeBody s 0 Q" if "\<And>x. Q x" for Q
    unfolding uint32_DecodeBody_def amf_need_def
    by (intro rd_rules) (use that in \<open>auto simp: rd_post_def rd_num_def ReadBE_eq\<close>)
  have d: "rd_post (BulkDataEvent_DecodeBody d) s 0 Q" if "\<And>x. Q x" for Q d
    using that by (simp add: BulkDataEvent_DecodeBody_def rd_post_def)
  show ?thesis
  proof (cases b)
    case (EventClientBW x v)
    show ?thesis
      unfolding EventClientBW DecodeBody_def event_body.case EventClientBW_DecodeBody_def amf_need_def
      by (intro rd_map_post rd_rules) auto
  next
    case (EventPing p)
    then show ?thesis
      by (auto simp: DecodeBody_def intro!: rd_map_post EventPing_DecodeBody_post[THEN rd_post_mono])
  next
    case (EventFlexMessage x y)
    show ?thesis
      unfolding EventFlexMessage DecodeBody_def event_body.case EventFlexMessage_DecodeBody_def amf_need_def
      by (intro rd_map_post rd_rules rd_post_bind[OF read_objects_post]) auto
  next
    case (EventNotify x y)
    show ?thesis
      unfolding EventNotify DecodeBody_def event_body.case EventNotify_DecodeBody_def
      by (intro rd_map_post rd_post_bind[OF Amf0_ReadString_post] rd_post_bind[OF read_objects_post]) auto
  next
    case (EventInvoke c)
    show ?thesis
      unfolding EventInvoke DecodeBody_def event_body.case EventInvoke_DecodeBody_def
      by (intro rd_map_post rd_post_mono[OF Call_Decode_post]) (auto simp: PendingCall_new_def)
  qed (auto simp: DecodeBody_def intro!: rd_map_post u d)
qed

section \<open>Round trip of the bodies\<close>

lemma enc_not_Nil:
  assumes "obj_ok x" "obj_fits x"
  shows "enc x \<noteq> []"
  using ReadNextObject_post[of "enc x @ []"] ReadNextObject_enc[OF assms, of "[]"]
  by (auto simp: rd_post_def)

lemma read_objects_fuel_enc:
  "list_all obj_ok xs \<Longrightarrow> list_all obj_fits xs \<Longrightarrow> length (concat (map enc xs)) < n
     \<Longrightarrow> read_objects_fuel n (concat (map enc xs)) = Some (Inr xs, [])"
proof (induction xs arbitrary: n)
  case Nil
  then show ?case by (cases n) (auto simp: rd_ok_def)
next
  case (Cons x xs)
  obtain m where n: "n = Suc m" using Cons.prems(3) by (cases n) auto
  have x: "enc x \<noteq> []" using Cons.prems enc_not_Nil by simp
  have 1: "ReadNextObject (enc x @ concat (map enc xs)) = Some (Inr x, concat (map enc xs))"
    using Cons.prems by (intro ReadNextObject_enc) auto
  have "length (concat (map enc xs)) < m"
    using Cons.prems(3) n x by (cases "enc x") simp_all
  then have 2: "read_objects_fuel m (concat (map enc xs)) = Some (Inr xs, [])"
    using Cons.prems by (intro Cons.IH) auto
  show ?case using x by (simp add: n rd_bind_def rd_ok_def 1 2)
qed

lemma read_objects_enc:
  "list_all obj_ok xs \<Longrightarrow> list_all obj_fits xs
     \<Longrightarrow> read_objects (concat (map enc xs)) = Some (Inr xs, [])"
  unfolding read_objects_def by (rule read_objects_fuel_enc) auto

lemma encode_objects_enc: "list_all obj_ok xs \<Longrightarrow> encode_objects xs = Some (concat (map enc xs))"
  unfolding encode_objects_def
  using those_map_Some[of xs CObject_Encode enc] CObject_Encode_total by (auto simp: list_all_iff)

definition ping_fits :: "ping \<Rightarrow> bool" where
  "ping_fits p \<longleftrightarrow> (value3 p = -1 \<longrightarrow> value4 p = -1) \<and> (value4 p = -1 \<longrightarrow> value5 p = -1)"

definition call_fits :: "call \<Rightarrow> bool" where
  "call_fits c \<longleftrightarrow> dot \<notin> set (method_name c)
     \<and> length (service_name c) + 1 + length (method_name c) \<le> kMaximumStringReadableData
     \<and> connection_params c \<noteq> None \<and> pred_option obj_fits (connection_params c)
     \<and> list_all obj_fits (arguments c) \<and> call_status c = STATUS_PENDING"

fun body_fits :: "event_body \<Rightarrow> bool" where
  "body_fits (EventPing p) \<longleftrightarrow> ping_fits p"
| "body_fits (EventFlexMessage u xs) \<longleftrightarrow> list_all obj_fits xs"
| "body_fits (EventNotify n xs) \<longleftrightarrow> length n \<le> kMaximumStringReadableData \<and> list_all obj_fits xs"
| "body_fits (EventInvoke c) \<longleftrightarrow> c \<noteq> None \<and> pred_option call_fits c"
| "body_fits (EventStreamMetadata d) \<longleftrightarrow> False"
| "body_fits _ \<longleftrightarrow> True"

lemma ping_type_of_code [simp]: "ping_type_of (ping_code t) = Some t"
  by (cases t) (simp_all add: ping_type_of_def)

lemma EventPing_roundtrip:
  assumes "ping_fits p"
  shows "EventPing_DecodeBody EventPing_new (EventPing_EncodeBody p) = Some (Inr p, [])"
proof -
  have l: "length (WriteBE (w :: 16 word)) = 2" for w by simp
  have e: "ReadBE (WriteBE (w :: 32 word)) = Some (w, [])" for w
    using ReadBE_WriteBE_simps(2)[of w "[]"] by simp
  show ?thesis
    using assms
    by (cases p; cases "value3 p = -1"; cases "value4 p = -1"; cases "value5 p = -1")
       (auto simp: EventPing_DecodeBody_def EventPing_EncodeBody_def ping_fits_def amf_need_def rd_need_def
         rd_bind_def rd_num_def rd_ok_def codec_simps e ping_optional_def Let_def EventPing_new_def)
qed

lemma takeWhile_dot: "dot \<notin> set m \<Longrightarrow> takeWhile (\<lambda>b. b \<noteq> dot) (rev m @ dot # s) = rev m"
  by (subst takeWhile_append2) auto

lemma split_last_dot_join:
  assumes "dot \<notin> set m"
  shows "split_last_dot (if sv = [] then m else sv @ [dot] @ m) = (if sv = [] then (None, m) else (Some sv, m))"
  using assms by (simp add: split_last_dot_def takeWhile_dot Let_def)

lemma read_invoke_id_enc:
  "read_invoke_id (CNumber_Encode (double_of_int (uint (n :: 32 word))) @ s) = Some (Inr n, s)"
proof -
  have "uint n < 2 ^ 53" using uint_bounded[of n] by simp
  then have "int64_of_double (double_of_int (uint n)) = uint n"
    by (intro int64_of_double_of_int) (simp add: abs_if)
  then show ?thesis
    by (simp add: read_invoke_id_def CNumber_Encode_def CNumber_Decode_def amf_need_def rd_simps
        rd_bind_def rd_num_def rd_ok_def rd_need_def codec_simps CNumber_int_value_def)
qed

lemma Call_roundtrip:
  assumes "call_ok c" "call_fits c"
  shows "\<exists>bs. Call_Encode True c = Some bs \<and> Call_Decode PendingCall_new bs = Some (Inr c, [])"
proof -
  obtain p where p: "connection_params c = Some p" "obj_ok p" "obj_fits p"
    using assms by (cases "connection_params c") (auto simp: call_ok_def call_fits_def)
  have args: "list_all obj_ok (p # arguments c)" "list_all obj_fits (p # arguments c)"
    using assms p by (auto simp: call_ok_def call_fits_def)
  define a where "a = (if service_name c = [] then method_name c else service_name c @ [dot] @ method_name c)"
  define n where "n = CNumber_Encode (double_of_int (uint (invoke_id c)))"
  define os where "os = concat (map enc (p # arguments c))"
  have enc: "Call_Encode True c = Some (WriteString a @ n @ os)"
    using args p by (simp add: Call_Encode_def encode_objects_enc CObject_Encode_total a_def n_def os_def)
  have 1: "Amf0_ReadString (WriteString a @ n @ os) = Some (Inr a, n @ os)"
    using assms by (intro ReadString_WriteString) (auto simp: call_fits_def a_def)
  have 2: "read_invoke_id (n @ os) = Some (Inr (invoke_id c), os)"
    by (simp add: n_def read_invoke_id_enc)
  have 3: "read_objects os = Some (Inr (p # arguments c), [])"
    unfolding os_def by (rule read_objects_enc[OF args])
  have sd: "split_last_dot a
      = (if service_name c = [] then (None, method_name c) else (Some (service_name c), method_name c))"
    unfolding a_def using assms by (intro split_last_dot_join) (simp add: call_fits_def)
  have "Call_Decode PendingCall_new (WriteString a @ n @ os) = Some (Inr c, [])"
    using assms(2) p
    by (cases c) (auto simp: Call_Decode_def rd_bind_def rd_ok_def Let_def 1 2 3 sd PendingCall_new_def call_fits_def)
  with enc show ?thesis by blast
qed

lemma Body_roundtrip:
  assumes "body_ok b" "body_fits b"
  shows "\<exists>bs. EncodeBody b = Some bs \<and> DecodeBody (CreateEvent (body_type b)) bs = Some (Inr b, [])"
proof -
  have e: "ReadBE (WriteBE (w :: 32 word)) = Some (w, [])" "WriteBE (v :: byte) = [v]" for w v
    using ReadBE_WriteBE_simps(2)[of w "[]"] by (simp_all add: WriteBE_byte)
  note simps = DecodeBody_def CreateEvent_def rd_map_def rd_bind_def rd_ok_def rd_num_def rd_need_def
    amf_need_def codec_simps e
  show ?thesis
  proof (cases b)
    case (EventPing p)
    then show ?thesis using assms EventPing_roundtrip[of p] by (simp add: simps)
  next
    case (EventFlexMessage u xs)
    then show ?thesis
      using assms by (simp add: simps EventFlexMessage_DecodeBody_def encode_objects_enc read_objects_enc)
  next
    case (EventNotify n xs)
    then show ?thesis
      using assms by (simp add: simps EventNotify_DecodeBody_def encode_objects_enc read_objects_enc
          CString_Encode_def ReadString_WriteString)
  next
    case (EventInvoke c)
    then obtain c' where c: "b = EventInvoke (Some c')" "call_ok c'" "call_fits c'"
      using assms by (cases c) auto
    obtain bs where "Call_Encode True c' = Some bs" "Call_Decode PendingCall_new bs = Some (Inr c', [])"
      using Call_roundtrip[OF c(2,3)] by blast
    then show ?thesis using c by (simp add: simps EventInvoke_DecodeBody_def)
  qed (use assms in \<open>auto simp: simps uint32_DecodeBody_def EventClientBW_DecodeBody_def
      BulkDataEvent_DecodeBody_def\<close>)
qed

section \<open>Properties\<close>

text \<open>
  What the receiver makes of a body.  It creates its events by the type: the bytes of an
  \<^verbatim>\<open>EventStreamMetadata\<close> go as a notification and arrive as the \<^verbatim>\<open>EventNotify\<close> of
  which they are the body; every other event arrives in its own class.
\<close>

fun received_as :: "event_body \<Rightarrow> event_body \<Rightarrow> bool" where
  "received_as (EventStreamMetadata d) b' \<longleftrightarrow> body_type b' = EVENT_NOTIFY \<and> EncodeBody b' = Some d"
| "received_as b b' \<longleftrightarrow> b' = b"

lemma received_as_encoding: "received_as b b' \<Longrightarrow> EncodeBody b' = EncodeBody b \<and> body_type b' = body_type b"
  by (cases b) auto

text \<open>
  C25. The body of an event of every class is encoded, and decoding it into a fresh event of its
  type gives the same body and consumes all of it; an \<^verbatim>\<open>EventStreamMetadata\<close> gives the
  notification that its bytes are (\<open>received_as\<close>).  The body must be within the limits of the
  format (\<open>body_fits\<close>): strings and objects as for AMF0, a method name without a dot, a call
  with connection parameters and in the state pending, a ping without gaps in its optional
  values.
\<close>

theorem EncodeBody_DecodeBody:
  assumes "received_as b b'" "body_ok b'" "body_fits b'"
  shows "\<exists>bs. EncodeBody b = Some bs \<and> DecodeBody (CreateEvent (body_type b)) bs = Some (Inr b', [])"
  using Body_roundtrip[OF assms(2,3)] received_as_encoding[OF assms(1)] by simp

definition sample_invoke :: event_body where
  "sample_invoke = EventInvoke (Some \<lparr>service_name = bytes_of ''a.b'', method_name = bytes_of ''connect'',
     invoke_id = 0xFFFFFFFF, call_status = STATUS_PENDING, connection_params = Some sample_object,
     arguments = [CNumber 0, CString []]\<rparr>)"

lemma EncodeBody_DecodeBody_witness:
  "(\<exists>bs. EncodeBody sample_invoke = Some bs
     \<and> DecodeBody (CreateEvent (body_type sample_invoke)) bs = Some (Inr sample_invoke, []))
   \<and> (\<exists>bs. EncodeBody (EventStreamMetadata (the (EncodeBody (EventNotify [7] [CNumber 0])))) = Some bs
     \<and> DecodeBody (CreateEvent EVENT_NOTIFY) bs = Some (Inr (EventNotify [7] [CNumber 0]), []))"
proof
  show "\<exists>bs. EncodeBody sample_invoke = Some bs
     \<and> DecodeBody (CreateEvent (body_type sample_invoke)) bs = Some (Inr sample_invoke, [])"
    by (rule EncodeBody_DecodeBody)
       (simp_all add: sample_invoke_def call_ok_def call_fits_def sample_object_ok dot_def bytes_of_def
         kMaximumStringReadableData_def)
  show "\<exists>bs. EncodeBody (EventStreamMetadata (the (EncodeBody (EventNotify [7] [CNumber 0])))) = Some bs
     \<and> DecodeBody (CreateEvent EVENT_NOTIFY) bs = Some (Inr (EventNotify [7] [CNumber 0]), [])"
    using EncodeBody_DecodeBody[of "EventStreamMetadata (the (EncodeBody (EventNotify [7] [CNumber 0])))"
        "EventNotify [7] [CNumber 0]"]
    by (simp add: encode_objects_enc kMaximumStringReadableData_def)
qed

text \<open>
  C33. Decoding the body of an event from arbitrary bytes always returns: no \<^verbatim>\<open>CHECK\<close>
  fails, the loops over objects end, the rest is not longer than the body, and an event that is
  accepted has the class it was created with and well-formed objects in it.
\<close>

theorem DecodeBody_total:
  "case DecodeBody b s of
     None \<Rightarrow> False
   | Some (Inl e, s') \<Rightarrow> length s' \<le> length s
   | Some (Inr b', s') \<Rightarrow> length s' \<le> length s \<and> body_type b' = body_type b \<and> body_ok b'"
  using DecodeBody_post[of b s] by (cases rule: rd_postE) auto

end
