(* ===== verification/RtmpCoder.thy ===== *)
theory RtmpCoder
  imports RtmpEvents
begin

text \<open>
  \<^verbatim>\<open>rtmp::Coder\<close> (\<^verbatim>\<open>rtmp/rtmp_coder.{h,cc}\<close>): events cut into chunks and put
  together again.  \<^verbatim>\<open>Decode\<close> reads chunks of interleaved channels until one event is
  complete; what it has of the others stays in \<open>partial_bodies\<close>.  The input is the content of
  the memory stream; \<^verbatim>\<open>MarkerRestore\<close> is the return of the input as it was.
\<close>

section \<open>Decoding\<close>

text \<open>One round of the loop: the function returns, or it goes on with the next chunk.\<close>

datatype chunk_outcome =
    Return "read_status + event" coder bytes
  | Continue coder bytes

text \<open>The chunk's bytes join the body of the channel.\<close>

definition append_chunk :: "coder \<Rightarrow> nat \<Rightarrow> bytes \<Rightarrow> coder" where
  "append_chunk c i chunk =
     (let body = partial_bodies c ! i; body1 = body @ chunk
      in c\<lparr>partial_bodies := (partial_bodies c)[i := body1],
           memory_used := memory_used c + (int (length body1) - int (length body))\<rparr>)"

text \<open>The first header of a series of chunks is remembered.\<close>

definition remember_header :: "coder \<Rightarrow> header \<Rightarrow> 32 word \<Rightarrow> coder" where
  "remember_header c h event_size =
     c\<lparr>last_read_event_header := (last_read_event_header c)[unat (channel_id h) := h],
       last_read_event_size := (last_read_event_size c)[unat (channel_id h) := event_size]\<rparr>"

text \<open>The body of the channel is complete: it is decoded and, if that succeeds, cleared.\<close>

definition compose_event :: "coder \<Rightarrow> header \<Rightarrow> bytes \<Rightarrow> chunk_outcome option" where
  "compose_event c h s =
     (let i = unat (channel_id h);
          body = partial_bodies c ! i;
          c1 = c\<lparr>memory_used := memory_used c - int (length body)\<rparr>
      in case DecodeBody (CreateEvent (h_event_type h)) body of
           None \<Rightarrow> None
         | Some (Inl err, rest) \<Rightarrow>
             Some (Return (Inl err) (c1\<lparr>partial_bodies := (partial_bodies c1)[i := rest]\<rparr>) s)
         | Some (Inr b, rest) \<Rightarrow>
             let c2 = c1\<lparr>partial_bodies := (partial_bodies c1)[i := []]\<rparr>;
                 c3 = (case b of
                         EventChunkSize n \<Rightarrow>
                           if n > kMaxChunkSize then c2 else c2\<lparr>read_chunk_size := uint n\<rparr>
                       | _ \<Rightarrow> c2)
             in Some (Return (Inr \<lparr>ev_header = h, ev_body = b\<rparr>) c3 s))"

definition Coder_Decode_chunk :: "coder \<Rightarrow> bytes \<Rightarrow> chunk_outcome option" where
  "Coder_Decode_chunk c s =
     (case Header_Decode c s of
        None \<Rightarrow> None
      | Some (Inl err, _) \<Rightarrow> Some (Return (Inl err) c s)
      | Some (Inr (h, event_size), s1) \<Rightarrow>
          let i = unat (channel_id h);
              initial = length (partial_bodies c ! i);
              to_read = min (read_chunk_size c) (sint (event_size - word_of_nat initial))
          in if to_read < 0 then Some (Return (Inl READ_CORRUPTED_DATA) c s)
          else if int (length s1) < to_read then Some (Return (Inl READ_NO_DATA) c s)
          else
            let c1 = append_chunk c i (take (nat to_read) s1);
                s2 = drop (nat to_read) s1
            in if memory_used c1 > memory_limit c1 then Some (Return (Inl READ_OOM) c1 s)
            else
              let c2 = (if initial = 0 then remember_header c1 h event_size else c1)
              in if word_of_nat (length (partial_bodies c2 ! i)) < event_size
                 then Some (Continue c2 s2)
                 else compose_event c2 h s2)"

text \<open>The loop; every round consumes at least a byte, so the fuel below is never used up.\<close>

primrec Coder_Decode_fuel :: "nat \<Rightarrow> coder \<Rightarrow> bytes \<Rightarrow> ((read_status + event) \<times> coder \<times> bytes) option" where
  "Coder_Decode_fuel 0 c s = None"
| "Coder_Decode_fuel (Suc fuel) c s =
     (case Coder_Decode_chunk c s of
        None \<Rightarrow> None
      | Some (Return x c' s') \<Rightarrow> Some (x, c', s')
      | Some (Continue c' s') \<Rightarrow> Coder_Decode_fuel fuel c' s')"

definition Coder_Decode :: "coder \<Rightarrow> bytes \<Rightarrow> ((read_status + event) \<times> coder \<times> bytes) option" where
  "Coder_Decode c s = Coder_Decode_fuel (Suc (length s)) c s"

section \<open>Encoding\<close>

text \<open>The loop over the chunks of \<^verbatim>\<open>EncodeWithAuxBuffer\<close>; \<open>es\<close> is what is left of the body.\<close>

primrec encode_chunks ::
    "nat \<Rightarrow> header \<Rightarrow> bytes \<Rightarrow> nat \<Rightarrow> coder \<Rightarrow> (coder \<times> bytes) option" where
  "encode_chunks 0 h es num_chunks c = None"
| "encode_chunks (Suc fuel) h es num_chunks c =
     (let i = unat (channel_id h);
          chunk_size = min (int (length es)) (write_chunk_size c)
      in case Header_Encode c (word_of_nat (length es)) (num_chunks > 0) h of
           None \<Rightarrow> None
         | Some hb \<Rightarrow>
             let c1 = (if num_chunks = 0
                       then c\<lparr>last_write_event_header := (last_write_event_header c)[i := h],
                              last_write_event_size := (last_write_event_size c)[i := word_of_nat (length es)]\<rparr>
                       else c);
                 chunk = take (nat chunk_size) es;
                 es' = drop (nat chunk_size) es;
                 num' = (if chunk_size > 0 then num_chunks + 1 else num_chunks)
             in if length es' > 0
                then (case encode_chunks fuel h es' num' c1 of
                        None \<Rightarrow> None
                      | Some (c2, bs) \<Rightarrow> Some (c2, hb @ chunk @ bs))
                else Some (c1, hb @ chunk))"

definition EncodeWithAuxBuffer :: "coder \<Rightarrow> event \<Rightarrow> bytes \<Rightarrow> (coder \<times> bytes) option" where
  "EncodeWithAuxBuffer c e event_stream =
     (let c1 = (case ev_body e of
                  EventChunkSize n \<Rightarrow> c\<lparr>write_chunk_size := sint n\<rparr>
                | _ \<Rightarrow> c)
      in if (case ev_body e of EventChunkSize n \<Rightarrow> \<not> sint n > 0 | _ \<Rightarrow> False) then None
      else encode_chunks (Suc (length event_stream)) (ev_header e) event_stream 0 c1)"

definition Coder_Encode :: "coder \<Rightarrow> event \<Rightarrow> (coder \<times> bytes) option" where
  "Coder_Encode c e =
     (case EncodeBody (ev_body e) of
        None \<Rightarrow> None
      | Some event_stream \<Rightarrow> EncodeWithAuxBuffer c e event_stream)"

section \<open>Every input is decoded or refused\<close>

definition memory_ok :: "coder \<Rightarrow> bool" where
  "memory_ok c \<longleftrightarrow> memory_used c = (\<Sum>b\<leftarrow>partial_bodies c. int (length b))"

lemma channels_ok_update:
  "channels_ok hs \<Longrightarrow> unat (channel_id h) < kMaxNumChannels \<Longrightarrow> channels_ok (hs[unat (channel_id h) := h])"
  by (auto simp: channels_ok_def nth_list_update)

lemma sum_list_update_int:
  fixes xs :: "'a list" and f :: "'a \<Rightarrow> int"
  assumes "i < length xs"
  shows "sum_list (map f (xs[i := x])) = sum_list (map f xs) - f (xs ! i) + f x"
  using assms
proof (induction xs arbitrary: i)
  case (Cons y ys)
  then show ?case by (cases i) auto
qed simp

definition outcome_ok :: "bytes \<Rightarrow> chunk_outcome \<Rightarrow> bool" where
  "outcome_ok s r \<longleftrightarrow> (case r of
     Continue c' s' \<Rightarrow> coder_ok c' \<and> length s' < length s
   | Return (Inl e) c' s' \<Rightarrow> coder_ok c' \<and> length s' \<le> length s
   | Return (Inr e) c' s' \<Rightarrow> coder_ok c' \<and> length s' < length s \<and> event_ok e \<and> body_ok (ev_body e)
       \<and> unat (channel_id (ev_header e)) < kMaxNumChannels)"

lemma body_type_CreateEvent [simp]: "body_type (CreateEvent t) = t"
  by (cases t) (simp_all add: CreateEvent_def)

lemma append_chunk_ok:
  "coder_ok c \<Longrightarrow> i < kMaxNumChannels \<Longrightarrow> coder_ok (append_chunk c i chunk)"
  by (auto simp: coder_ok_def append_chunk_def Let_def)

lemma remember_header_ok:
  "coder_ok c \<Longrightarrow> unat (channel_id h) < kMaxNumChannels \<Longrightarrow> coder_ok (remember_header c h n)"
  by (simp add: coder_ok_def remember_header_def channels_ok_update)

lemma chunk_size_update_ok:
  "coder_ok c \<Longrightarrow> coder_ok (case b of
     EventChunkSize n \<Rightarrow> if n > kMaxChunkSize then c else c\<lparr>read_chunk_size := uint n\<rparr> | _ \<Rightarrow> c)"
  by (auto simp: coder_ok_def split: event_body.splits)

lemma compose_event_total:
  assumes ok: "coder_ok c" and ch: "unat (channel_id h) < kMaxNumChannels" and s: "length s < length s0"
  shows "\<exists>r. compose_event c h s = Some r \<and> outcome_ok s0 r"
  using DecodeBody_post[of "CreateEvent (h_event_type h)" "partial_bodies c ! unat (channel_id h)"]
proof (cases rule: rd_postE)
  case (err e s')
  then show ?thesis
    using ok s by (simp add: compose_event_def Let_def outcome_ok_def coder_ok_def)
next
  case (ok v s')
  let ?c2 = "c\<lparr>memory_used := memory_used c - int (length (partial_bodies c ! unat (channel_id h))),
    partial_bodies := (partial_bodies c)[unat (channel_id h) := []]\<rparr>"
  have "coder_ok ?c2" using assms by (simp add: coder_ok_def)
  then show ?thesis
    using ok s ch chunk_size_update_ok[of ?c2 v]
    by (simp add: compose_event_def Let_def outcome_ok_def event_ok_def)
qed

lemma Coder_Decode_chunk_total:
  assumes ok: "coder_ok c"
  shows "\<exists>r. Coder_Decode_chunk c s = Some r \<and> outcome_ok s r"
  using Header_Decode_post[of c s]
proof (cases rule: rd_postE)
  case (err e s')
  then show ?thesis using ok by (simp add: Coder_Decode_chunk_def outcome_ok_def)
next
  case (ok v s1)
  obtain h n where v: "v = (h, n)" by (cases v)
  let ?i = "unat (channel_id h)"
  have ch: "?i < kMaxNumChannels" using ok v by (simp add: read_header_ok_def)
  define k where "k = min (read_chunk_size c) (sint (n - word_of_nat (length (partial_bodies c ! ?i))))"
  define c1 where "c1 = append_chunk c ?i (take (nat k) s1)"
  define c2 where "c2 = (if length (partial_bodies c ! ?i) = 0 then remember_header c1 h n else c1)"
  have c1: "coder_ok c1" unfolding c1_def by (rule append_chunk_ok[OF assms ch])
  then have c2: "coder_ok c2" by (simp add: c2_def remember_header_ok ch)
  have l: "length (drop (nat k) s1) < length s" using ok(3) by simp
  have eq: "Coder_Decode_chunk c s =
      (if k < 0 then Some (Return (Inl READ_CORRUPTED_DATA) c s)
       else if int (length s1) < k then Some (Return (Inl READ_NO_DATA) c s)
       else if memory_used c1 > memory_limit c1 then Some (Return (Inl READ_OOM) c1 s)
       else if word_of_nat (length (partial_bodies c2 ! ?i)) < n then Some (Continue c2 (drop (nat k) s1))
       else compose_event c2 h (drop (nat k) s1))"
    using ok v by (simp add: Coder_Decode_chunk_def Let_def k_def c1_def c2_def)
  show ?thesis
    unfolding eq using compose_event_total[OF c2 ch l] assms c1 c2 l
    by (auto simp: outcome_ok_def)
qed

definition result_ok :: "bytes \<Rightarrow> (read_status + event) \<times> coder \<times> bytes \<Rightarrow> bool" where
  "result_ok s r \<longleftrightarrow> (case r of (x, c', s') \<Rightarrow> outcome_ok s (Return x c' s'))"

lemma outcome_ok_longer: "outcome_ok s r \<Longrightarrow> length s \<le> length s' \<Longrightarrow> outcome_ok s' r"
  by (auto simp: outcome_ok_def split: chunk_outcome.splits sum.splits)

lemma Coder_Decode_fuel_total:
  "coder_ok c \<Longrightarrow> length s < n \<Longrightarrow> \<exists>r. Coder_Decode_fuel n c s = Some r \<and> result_ok s r"
proof (induction n arbitrary: c s)
  case (Suc n)
  obtain r where r: "Coder_Decode_chunk c s = Some r" "outcome_ok s r"
    using Coder_Decode_chunk_total[OF Suc.prems(1)] by blast
  show ?case
  proof (cases r)
    case (Return x c' s')
    then show ?thesis using r by (simp add: result_ok_def)
  next
    case (Continue c' s')
    then have "coder_ok c'" "length s' < length s" using r by (simp_all add: outcome_ok_def)
    then obtain r' where "Coder_Decode_fuel n c' s' = Some r'" "result_ok s' r'"
      using Suc by (metis less_Suc_eq_le order_less_le_trans)
    moreover from this have "result_ok s r'"
      using \<open>length s' < length s\<close> outcome_ok_longer[of s'] by (auto simp: result_ok_def)
    ultimately show ?thesis using r Continue by simp
  qed
qed simp

section \<open>Input that arrives in pieces\<close>

lemma Header_Decode_mono: "rd_mono READ_NO_DATA (Header_Decode c)"
proof -
  have 1: "rd_mono READ_NO_DATA read_header_byte"
  proof -
    have "skip_padding s = Some (b, s') \<Longrightarrow> skip_padding (s @ t) = Some (b, s' @ t)" for s t b s'
      by (induction s) (auto split: if_splits)
    then show ?thesis by (auto simp: rd_mono_def read_header_byte_def split: option.splits)
  qed
  have 2: "rd_mono READ_NO_DATA (read_extended ts)" for ts
    by (simp add: read_extended_def mono_rules)
  have 3: "rd_mono READ_NO_DATA (decode_new ch)" "rd_mono READ_NO_DATA (decode_same_source ch h)"
      "rd_mono READ_NO_DATA (decode_timer_change ch h n)" "rd_mono READ_NO_DATA (decode_continue ch h n)"
    for ch h n
    unfolding decode_new_def decode_same_source_def decode_timer_change_def decode_continue_def
    by (intro mono_rules 2; (split option.split, intro conjI allI impI)?; (intro mono_rules 2)?)+
  have 4: "rd_mono READ_NO_DATA (case t of
       HEADER_NEW \<Rightarrow> decode_new ch
     | HEADER_SAME_SOURCE \<Rightarrow> decode_same_source ch h
     | HEADER_TIMER_CHANGE \<Rightarrow> decode_timer_change ch h n
     | HEADER_CONTINUE \<Rightarrow> decode_continue ch h n)" for t ch h n
    by (cases t) (simp_all add: 3)
  show ?thesis
    unfolding Header_Decode_def amf_need_def Let_def read_channel_id_def
    by (intro mono_rules 1 4)
qed

text \<open>The outcome with more input behind it.\<close>

fun more_input :: "bytes \<Rightarrow> chunk_outcome \<Rightarrow> chunk_outcome" where
  "more_input t (Return x c s) = Return x c (s @ t)"
| "more_input t (Continue c s) = Continue c (s @ t)"

lemma compose_event_more: "compose_event c h (s @ t) = map_option (more_input t) (compose_event c h s)"
  by (auto simp: compose_event_def Let_def split: option.splits sum.splits)

lemma Coder_Decode_chunk_more:
  assumes "Coder_Decode_chunk c s = Some r" "r \<noteq> Return (Inl READ_NO_DATA) c s"
  shows "Coder_Decode_chunk c (s @ t) = Some (more_input t r)"
proof -
  note mono = Header_Decode_mono[of c, unfolded rd_mono_def, rule_format, of s t]
  show ?thesis
  proof (cases "Header_Decode c s")
    case None
    then show ?thesis using assms by (simp add: Coder_Decode_chunk_def)
  next
    case (Some p)
    obtain x s1 where p: "p = (x, s1)" by (cases p)
    show ?thesis
    proof (cases x)
      case (Inl e)
      then show ?thesis using assms Some p mono by (auto simp: Coder_Decode_chunk_def)
    next
      case (Inr v)
      obtain h n where v: "v = (h, n)" by (cases v)
      define k where "k = min (read_chunk_size c)
        (sint (n - word_of_nat (length (partial_bodies c ! unat (channel_id h)))))"
      have more: "Header_Decode c (s @ t) = Some (Inr (h, n), s1 @ t)"
        using mono Some p Inr v by simp
      consider (neg) "k < 0" | (short) "int (length s1) < k" | (ok) "0 \<le> k" "nat k \<le> length s1" by linarith
      then show ?thesis
      proof cases
        case ok
        then have "take (nat k) (s1 @ t) = take (nat k) s1"
            "drop (nat k) (s1 @ t) = drop (nat k) s1 @ t" "\<not> int (length s1) < k" "\<not> k < 0"
            "\<not> int (length (s1 @ t)) < k"
          by auto
        then show ?thesis
          using assms(1) Some p Inr v more
          by (auto simp: Coder_Decode_chunk_def Let_def k_def[symmetric] compose_event_more split: if_splits)
      qed (use assms Some p Inr v more in \<open>auto simp: Coder_Decode_chunk_def Let_def k_def[symmetric]\<close>)
    qed
  qed
qed

text \<open>The fuel does not matter once it is enough.\<close>

lemma Coder_Decode_fuel_mono:
  "Coder_Decode_fuel n c s = Some r \<Longrightarrow> n \<le> m \<Longrightarrow> Coder_Decode_fuel m c s = Some r"
proof (induction n arbitrary: c s m)
  case (Suc n)
  then obtain m' where "m = Suc m'" "n \<le> m'" by (cases m) auto
  then show ?case using Suc by (auto split: option.splits chunk_outcome.splits)
qed simp

lemma Coder_Decode_fuel_eq:
  "coder_ok c \<Longrightarrow> length s < n \<Longrightarrow> Coder_Decode_fuel n c s = Coder_Decode c s"
  unfolding Coder_Decode_def
  using Coder_Decode_fuel_total[of c s "Suc (length s)"] Coder_Decode_fuel_mono[of "Suc (length s)" c s _ n]
  by auto

lemma Coder_Decode_step:
  assumes "coder_ok c"
  shows "Coder_Decode c s = (case Coder_Decode_chunk c s of
      None \<Rightarrow> None
    | Some (Return x c' s') \<Rightarrow> Some (x, c', s')
    | Some (Continue c' s') \<Rightarrow> Coder_Decode c' s')"
proof -
  obtain r where r: "Coder_Decode_chunk c s = Some r" "outcome_ok s r"
    using Coder_Decode_chunk_total[OF assms] by blast
  show ?thesis
  proof (cases r)
    case (Continue c' s')
    then have "Coder_Decode_fuel (length s) c' s' = Coder_Decode c' s'"
      using r by (intro Coder_Decode_fuel_eq) (auto simp: outcome_ok_def)
    then show ?thesis using r Continue by (simp add: Coder_Decode_def)
  qed (use r in \<open>simp add: Coder_Decode_def\<close>)
qed

lemma Coder_Decode_induct [consumes 1, case_names step]:
  assumes "coder_ok c"
    and step: "\<And>c s. coder_ok c
      \<Longrightarrow> (\<And>c' s'. Coder_Decode_chunk c s = Some (Continue c' s') \<Longrightarrow> coder_ok c' \<and> P c' s') \<Longrightarrow> P c s"
  shows "P c s"
  using assms(1)
proof (induction s arbitrary: c rule: measure_induct_rule[of length])
  case (less s)
  show ?case
  proof (rule step[OF less.prems])
    fix c' s' assume "Coder_Decode_chunk c s = Some (Continue c' s')"
    then have "coder_ok c'" "length s' < length s"
      using Coder_Decode_chunk_total[OF less.prems, of s] by (auto simp: outcome_ok_def)
    then show "coder_ok c' \<and> P c' s'" using less.IH by blast
  qed
qed

lemma Coder_Decode_resume:
  assumes "coder_ok c"
  shows "Coder_Decode c s = Some (x, c', s') \<Longrightarrow>
      Coder_Decode c (s @ t) = Some (x, c', s' @ t)
      \<or> x = Inl READ_NO_DATA \<and> Coder_Decode c (s @ t) = Coder_Decode c' (s' @ t)"
  using assms
proof (induction c s rule: Coder_Decode_induct)
  case (step c s)
  obtain r where r: "Coder_Decode_chunk c s = Some r" "outcome_ok s r"
    using Coder_Decode_chunk_total[OF step.hyps(1)] by blast
  show ?case
  proof (cases "r = Return (Inl READ_NO_DATA) c s")
    case True
    then show ?thesis using step.prems r step.hyps(1) by (simp add: Coder_Decode_step)
  next
    case False
    note m = Coder_Decode_chunk_more[OF r(1) False, of t]
    show ?thesis
    proof (cases r)
      case (Return y d u)
      then show ?thesis using step.prems r m step.hyps(1) by (auto simp: Coder_Decode_step)
    next
      case (Continue d u)
      then show ?thesis
        using step r m Coder_Decode_step[OF step.hyps(1), of s]
          Coder_Decode_step[OF step.hyps(1), of "s @ t"] by simp
    qed
  qed
qed

section \<open>Memory\<close>

text \<open>What the partial bodies hold, and the account the coder keeps of it.\<close>

definition stored_bytes :: "coder \<Rightarrow> int" where
  "stored_bytes c = (\<Sum>b\<leftarrow>partial_bodies c. int (length b))"

definition memory_inv :: "coder \<Rightarrow> bool" where
  "memory_inv c \<longleftrightarrow> memory_used c = stored_bytes c \<and> memory_used c \<le> memory_limit c"

lemma stored_bytes_update:
  "i < length (partial_bodies c) \<Longrightarrow> (\<Sum>b\<leftarrow>(partial_bodies c)[i := x]. int (length b))
     = stored_bytes c - int (length (partial_bodies c ! i)) + int (length x)"
  by (simp add: stored_bytes_def sum_list_update_int[where f = "\<lambda>b. int (length b)"])

lemma append_chunk_memory:
  assumes "i < length (partial_bodies c)" "memory_used c = stored_bytes c"
  shows "memory_used (append_chunk c i chunk) = stored_bytes (append_chunk c i chunk)"
proof -
  have "stored_bytes (append_chunk c i chunk) = stored_bytes c + int (length chunk)"
    using stored_bytes_update[OF assms(1), of "partial_bodies c ! i @ chunk"]
    by (simp add: append_chunk_def Let_def stored_bytes_def[of "_\<lparr>memory_used := _\<rparr>"])
  then show ?thesis using assms(2) by (simp add: append_chunk_def Let_def)
qed

text \<open>On an error the account may be below what is stored, never above, and only
  \<open>READ_OOM\<close> leaves more than the limit.\<close>

definition memory_outcome :: "read_status + event \<Rightarrow> coder \<Rightarrow> bool" where
  "memory_outcome x c \<longleftrightarrow> (case x of
     Inr e \<Rightarrow> memory_inv c
   | Inl e \<Rightarrow> memory_used c \<le> stored_bytes c \<and> (e = READ_OOM \<or> stored_bytes c \<le> memory_limit c))"

lemma compose_event_memory:
  assumes "compose_event c h s = Some (Return x c' s')" "memory_inv c"
    "unat (channel_id h) < length (partial_bodies c)"
  shows "memory_outcome x c'"
proof -
  let ?i = "unat (channel_id h)"
  let ?body = "partial_bodies c ! ?i"
  have upd: "stored_bytes (d\<lparr>partial_bodies := (partial_bodies c)[?i := b]\<rparr>)
      = stored_bytes c - int (length ?body) + int (length b)" for b d
    using stored_bytes_update[OF assms(3), of b] by (simp add: stored_bytes_def)
  have upd': "stored_bytes (d\<lparr>partial_bodies := (partial_bodies c)[?i := b], read_chunk_size := n\<rparr>)
      = stored_bytes c - int (length ?body) + int (length b)" for b d n
    using stored_bytes_update[OF assms(3), of b] by (simp add: stored_bytes_def)
  from DecodeBody_post[of "CreateEvent (h_event_type h)" ?body] show ?thesis
  proof (cases rule: rd_postE)
    case (err e rest)
    then show ?thesis
      using assms(1,2) upd[where d = "c\<lparr>memory_used := memory_used c - int (length ?body)\<rparr>" and b = rest]
      by (auto simp: compose_event_def Let_def memory_outcome_def memory_inv_def)
  next
    case (ok b rest)
    then show ?thesis
      using assms(1,2) upd[where d = "c\<lparr>memory_used := memory_used c - int (length ?body)\<rparr>" and b = "[]"]
        upd'[where d = "c\<lparr>memory_used := memory_used c - int (length ?body)\<rparr>" and b = "[]"]
      by (auto simp: compose_event_def Let_def memory_outcome_def memory_inv_def split: event_body.splits if_splits)
  qed
qed

lemma Coder_Decode_chunk_memory:
  assumes "coder_ok c" "memory_inv c"
  shows "Coder_Decode_chunk c s = Some (Continue c' s') \<Longrightarrow> memory_inv c'"
    and "Coder_Decode_chunk c s = Some (Return x c' s') \<Longrightarrow> memory_outcome x c'"
proof -
  have "(\<forall>c' s'. Coder_Decode_chunk c s = Some (Continue c' s') \<longrightarrow> memory_inv c')
      \<and> (\<forall>x c' s'. Coder_Decode_chunk c s = Some (Return x c' s') \<longrightarrow> memory_outcome x c')"
    using Header_Decode_post[of c s]
  proof (cases rule: rd_postE)
    case (err e s1)
    then show ?thesis using assms
      by (auto simp: Coder_Decode_chunk_def memory_outcome_def memory_inv_def)
  next
    case (ok v s1)
    obtain h n where v: "v = (h, n)" by (cases v)
    let ?i = "unat (channel_id h)"
    have ch: "?i < kMaxNumChannels" using ok v by (simp add: read_header_ok_def)
    then have i: "?i < length (partial_bodies c)" using assms(1) by (simp add: coder_ok_def)
    define k where "k = min (read_chunk_size c) (sint (n - word_of_nat (length (partial_bodies c ! ?i))))"
    define c1 where "c1 = append_chunk c ?i (take (nat k) s1)"
    define c2 where "c2 = (if length (partial_bodies c ! ?i) = 0 then remember_header c1 h n else c1)"
    have eq: "Coder_Decode_chunk c s =
        (if k < 0 then Some (Return (Inl READ_CORRUPTED_DATA) c s)
         else if int (length s1) < k then Some (Return (Inl READ_NO_DATA) c s)
         else if memory_used c1 > memory_limit c1 then Some (Return (Inl READ_OOM) c1 s)
         else if word_of_nat (length (partial_bodies c2 ! ?i)) < n then Some (Continue c2 (drop (nat k) s1))
         else compose_event c2 h (drop (nat k) s1))"
      using ok v by (simp add: Coder_Decode_chunk_def Let_def k_def c1_def c2_def)
    have m1: "memory_used c1 = stored_bytes c1"
      unfolding c1_def using append_chunk_memory[OF i] assms(2) by (simp add: memory_inv_def)
    have m2: "memory_inv c2" if "\<not> memory_used c1 > memory_limit c1"
      using that m1 by (auto simp: c2_def memory_inv_def remember_header_def stored_bytes_def)
    have "length (partial_bodies c2) = length (partial_bodies c)"
      by (simp add: c2_def c1_def append_chunk_def remember_header_def Let_def)
    then have i2: "?i < length (partial_bodies c2)" using i by simp
    have r: "memory_outcome x c'" if "compose_event c2 h u = Some (Return x c' s')"
        "\<not> memory_used c1 > memory_limit c1" for x c' s' u
      by (rule compose_event_memory[OF that(1) m2[OF that(2)] i2])
    have nc: "compose_event c2 h u \<noteq> Some (Continue c' s')" for u c' s'
      by (auto simp: compose_event_def Let_def split: option.splits sum.splits)
    show ?thesis
      unfolding eq using m1 m2 r nc assms
      by (auto simp: memory_outcome_def memory_inv_def)
  qed
  then show "Coder_Decode_chunk c s = Some (Continue c' s') \<Longrightarrow> memory_inv c'"
    and "Coder_Decode_chunk c s = Some (Return x c' s') \<Longrightarrow> memory_outcome x c'" by blast+
qed

lemma Coder_Decode_memory_outcome:
  assumes "coder_ok c"
  shows "memory_inv c \<Longrightarrow> Coder_Decode c s = Some (x, c', s') \<Longrightarrow> memory_outcome x c'"
  using assms
proof (induction c s rule: Coder_Decode_induct)
  case (step c s)
  note mem = Coder_Decode_chunk_memory[OF step.hyps(1) step.prems(1), of s]
  obtain r where r: "Coder_Decode_chunk c s = Some r"
    using Coder_Decode_chunk_total[OF step.hyps(1), of s] by blast
  show ?case
  proof (cases r)
    case (Return y d u)
    then show ?thesis
      using mem(2)[of y d u] r step.prems(2) Coder_Decode_step[OF step.hyps(1), of s] by simp
  next
    case (Continue d u)
    then show ?thesis
      using mem(1)[of d u] r step.IH step.prems(2) Coder_Decode_step[OF step.hyps(1), of s] by simp
  qed
qed

section \<open>Round trip\<close>

text \<open>What the decoder does once it has the whole body.\<close>

definition finish :: "coder \<Rightarrow> header \<Rightarrow> bytes \<Rightarrow> ((read_status + event) \<times> coder \<times> bytes) option" where
  "finish c h s = (case compose_event c h s of
     Some (Return x c' s') \<Rightarrow> Some (x, c', s') | _ \<Rightarrow> None)"

lemma append_chunk_append:
  "i < length (partial_bodies c) \<Longrightarrow>
     append_chunk (append_chunk c i a) i b = append_chunk c i (a @ b)"
  by (simp add: append_chunk_def Let_def)

lemma sint_word_diff:
  assumes "a \<le> n" "n < 2 ^ 24"
  shows "sint (word_of_nat n - word_of_nat a :: 32 word) = int (n - a)"
proof -
  have "word_of_nat n - word_of_nat a = (word_of_nat (n - a) :: 32 word)"
    using assms by (simp add: of_nat_diff)
  moreover have "sint (word_of_nat (n - a) :: 32 word) = int (n - a)"
  proof -
    have "n - a < 2 ^ 31" using assms by simp
    then show ?thesis by (simp add: signed_of_nat signed_take_bit_int_eq_self)
  qed
  ultimately show ?thesis by simp
qed

lemma word_of_nat_less_24:
  "a < 2 ^ 24 \<Longrightarrow> n < 2 ^ 24 \<Longrightarrow> (word_of_nat a :: 32 word) < word_of_nat n \<longleftrightarrow> a < n"
  by (simp add: word_less_nat_alt unat_word_of_nat)

text \<open>The size of the last chunk of a body.\<close>

definition last_chunk :: "int \<Rightarrow> nat \<Rightarrow> nat" where
  "last_chunk chunk n = (if n = 0 then 0 else (n - 1) mod nat chunk + 1)"

lemma last_chunk_small: "int n \<le> k \<Longrightarrow> last_chunk k n = n"
  by (auto simp: last_chunk_def)

lemma last_chunk_drop: "0 < k \<Longrightarrow> k < int n \<Longrightarrow> last_chunk k (n - nat k) = last_chunk k n"
proof -
  assume k: "0 < k" "k < int n"
  then have "(n - 1) mod nat k = (n - 1 - nat k) mod nat k"
    using le_mod_geq[of "nat k" "n - 1"] by linarith
  moreover have "n - nat k - 1 = n - 1 - nat k" by simp
  ultimately show ?thesis using k by (auto simp: last_chunk_def)
qed

text \<open>One chunk of a body of \<open>n\<close> bytes whose header was decoded.\<close>

lemma Coder_Decode_one_chunk:
  assumes ok: "coder_ok r" and ch: "unat (channel_id h) < kMaxNumChannels"
    and hd: "Header_Decode r s0 = Some (Inr (h, word_of_nat n), chunk @ s)"
    and n: "n < 2 ^ 24" "length pre + length chunk \<le> n" and pre: "partial_bodies r ! unat (channel_id h) = pre"
    and len: "int (length chunk) = min (read_chunk_size r) (int (n - length pre))"
    and mem: "memory_used r + int (length chunk) \<le> memory_limit r"
    and c1: "c1 = append_chunk r (unat (channel_id h)) chunk"
    and c2: "c2 = (if pre = [] then remember_header c1 h (word_of_nat n) else c1)"
  shows "Coder_Decode r s0 =
    (if length pre + length chunk < n then Coder_Decode c2 s else finish c2 h s)"
proof -
  let ?i = "unat (channel_id h)"
  note c1_def = c1 and c2_def = c2
  have i: "?i < length (partial_bodies r)" using ok ch by (simp add: coder_ok_def)
  have k: "min (read_chunk_size r) (sint (word_of_nat n - word_of_nat (length (partial_bodies r ! ?i)) :: 32 word))
      = int (length chunk)"
    using n pre len by (subst sint_word_diff) auto
  have m: "\<not> memory_used c1 > memory_limit c1"
    using mem by (simp add: c1_def append_chunk_def Let_def)
  have b: "length (partial_bodies c2 ! ?i) = length pre + length chunk"
    using i pre by (simp add: c2_def c1_def append_chunk_def remember_header_def Let_def)
  have "Coder_Decode_chunk r s0 =
      (if length pre + length chunk < n then Some (Continue c2 s) else compose_event c2 h s)"
  proof -
    have c1': "append_chunk r ?i (take (nat (int (length chunk))) (chunk @ s)) = c1"
      by (simp add: c1_def)
    have c2': "(if length (partial_bodies r ! ?i) = 0 then remember_header c1 h (word_of_nat n) else c1) = c2"
      by (simp add: c2_def pre)
    have lt: "(word_of_nat (length (partial_bodies c2 ! ?i)) :: 32 word) < word_of_nat n
        \<longleftrightarrow> length pre + length chunk < n"
      using n b by (subst word_of_nat_less_24) auto
    show ?thesis
      unfolding Coder_Decode_chunk_def hd Let_def option.case sum.case prod.case k c1' c2'
      using m lt by simp
  qed
  moreover have "compose_event c2 h s \<noteq> Some (Continue c' s')" for c' s'
    by (auto simp: compose_event_def Let_def split: option.splits sum.splits)
  ultimately show ?thesis
    using Coder_Decode_step[OF ok, of s0]
    by (auto simp: finish_def split: option.splits chunk_outcome.splits)
qed

definition remember_written :: "coder \<Rightarrow> header \<Rightarrow> nat \<Rightarrow> coder" where
  "remember_written c h n =
     c\<lparr>last_write_event_header := (last_write_event_header c)[unat (channel_id h) := h],
       last_write_event_size := (last_write_event_size c)[unat (channel_id h) := word_of_nat n]\<rparr>"

lemma take_min_chunk:
  assumes "0 < k"
  shows "take (nat (min (int (length es)) k)) es = take (nat k) es"
    "drop (nat (min (int (length es)) k)) es = drop (nat k) es"
proof -
  have "nat (min (int (length es)) k) = min (length es) (nat k)"
    using assms by (cases "int (length es) \<le> k") (simp_all add: nat_le_iff le_nat_iff min_absorb1 min_absorb2)
  then show "take (nat (min (int (length es)) k)) es = take (nat k) es"
      "drop (nat (min (int (length es)) k)) es = drop (nat k) es"
    by (simp_all add: min_def)
qed

lemma encode_chunks_step:
  assumes "Header_Encode c (word_of_nat (length es)) (num > 0) h = Some hb" "0 < write_chunk_size c"
    and "chunk = take (nat (write_chunk_size c)) es" "es' = drop (nat (write_chunk_size c)) es"
    and "c1 = (if num = 0 then remember_written c h (length es) else c)"
  shows "encode_chunks (Suc fuel) h es num c =
    (if es' = [] then Some (c1, hb @ chunk)
     else case encode_chunks fuel h es' (num + 1) c1 of
            None \<Rightarrow> None
          | Some (c2, bs) \<Rightarrow> Some (c2, hb @ chunk @ bs))"
proof -
  have "0 < min (int (length es)) (write_chunk_size c)" if "es' \<noteq> []"
    using that assms(2,4) by auto
  then show ?thesis
    unfolding encode_chunks.simps Let_def take_min_chunk[OF assms(2)]
    using assms by (auto simp: remember_written_def)
qed

lemma encode_chunks_length:
  "encode_chunks fuel h es num c = Some (c', bs) \<Longrightarrow> length es \<le> length bs"
proof (induction fuel arbitrary: es num c c' bs)
  case (Suc fuel)
  then show ?case
    by (fastforce simp: Let_def split: option.splits if_splits)
qed simp

lemma last_chunk_le: "last_chunk k n \<le> n"
  by (auto simp: last_chunk_def) (metis Suc_pred mod_less_eq_dividend not_less_eq_eq)

lemma continued_header_channel [simp]: "channel_id (continued_header h) = channel_id h"
  by (simp add: continued_header_def)

lemma append_chunk_fields [simp]:
  "read_chunk_size (append_chunk c i x) = read_chunk_size c"
  "memory_limit (append_chunk c i x) = memory_limit c"
  "last_read_event_header (append_chunk c i x) = last_read_event_header c"
  "last_read_event_size (append_chunk c i x) = last_read_event_size c"
  "memory_used (append_chunk c i x) = memory_used c + int (length x)"
  "i < length (partial_bodies c) \<Longrightarrow> partial_bodies (append_chunk c i x) ! i = partial_bodies c ! i @ x"
  "partial_bodies (append_chunk c i x) = (partial_bodies c)[i := partial_bodies c ! i @ x]"
  by (simp_all add: append_chunk_def Let_def)

lemma continue_chunks:
  fixes h :: header
  defines "i \<equiv> unat (channel_id h)"
  assumes ch: "2 \<le> i" "i < kMaxNumChannels" and last_h: "last_write_event_header w ! i = h"
    and size: "last_write_event_size w ! i = word_of_nat n" "n < 2 ^ 24"
    and k: "write_chunk_size w = k" "0 < k"
  shows "coder_ok r \<Longrightarrow> in_sync w r i \<Longrightarrow> read_chunk_size r = k \<Longrightarrow> partial_bodies r ! i = pre \<Longrightarrow> pre \<noteq> []
      \<Longrightarrow> length pre + length es = n \<Longrightarrow> es \<noteq> [] \<Longrightarrow> memory_used r + int (length es) \<le> memory_limit r
      \<Longrightarrow> 0 < num \<Longrightarrow> 4 \<le> last_chunk k (length es) + length s \<Longrightarrow> length es < fuel
      \<Longrightarrow> \<exists>bs. encode_chunks fuel h es num w = Some (w, bs)
        \<and> Coder_Decode r (bs @ s) = finish (append_chunk r i es) (continued_header h) s"
proof (induction fuel arbitrary: es pre r num)
  case (Suc fuel)
  define chunk where "chunk = take (nat k) es"
  define es' where "es' = drop (nat k) es"
  have es: "es = chunk @ es'" by (simp add: chunk_def es'_def)
  have lk: "int (length chunk) = min k (int (length es))"
    using k by (simp add: chunk_def of_nat_min min.commute)
  have i: "i < length (partial_bodies r)" using Suc.prems(1) ch by (simp add: coder_ok_def)
  have one: "Coder_Decode r (hb @ chunk @ u) =
      (if es' \<noteq> [] then Coder_Decode (append_chunk r i chunk) u
       else finish (append_chunk r i chunk) (continued_header h) u)"
    if "Header_Decode r (hb @ chunk @ u) = Some (Inr (continued_header h, last_write_event_size w ! i), chunk @ u)"
    for hb u
  proof -
    have hd: "Header_Decode r (hb @ chunk @ u) = Some (Inr (continued_header h, word_of_nat n), chunk @ u)"
      using that size by simp
    have len: "length pre + length chunk \<le> n" "int (length chunk) = min (read_chunk_size r) (int (n - length pre))"
      using Suc.prems(3,6) es lk by auto
    have mem: "memory_used r + int (length chunk) \<le> memory_limit r" using Suc.prems(8) es by simp
    have "Coder_Decode r (hb @ chunk @ u) = (if length pre + length chunk < n
        then Coder_Decode (append_chunk r i chunk) u
        else finish (append_chunk r i chunk) (continued_header h) u)"
      by (rule Coder_Decode_one_chunk[OF Suc.prems(1) _ hd size(2) len(1) _ len(2) mem])
         (use Suc.prems(4,5) ch(2) in \<open>simp_all add: i_def\<close>)
    moreover have "length pre + length chunk < n \<longleftrightarrow> es' \<noteq> []" using Suc.prems(6) es by auto
    ultimately show ?thesis by simp
  qed
  show ?case
  proof (cases "es' = []")
    case True
    have "4 \<le> length (chunk @ s)"
      using Suc.prems(10) last_chunk_le[of k "length es"] True es by simp
    then obtain hb where hb: "Header_Encode w (word_of_nat (length es)) True h = Some hb"
        "Header_Decode r (hb @ chunk @ s) = Some (Inr (continued_header h, last_write_event_size w ! i), chunk @ s)"
      using Header_continue_roundtrip[OF ch[unfolded i_def] Suc.prems(2)[unfolded i_def] last_h[unfolded i_def],
          where s = "chunk @ s" and n = "word_of_nat (length es)"]
      by (auto simp: i_def)
    have "encode_chunks (Suc fuel) h es num w = Some (w, hb @ chunk)"
      using True Suc.prems(9)
      by (subst encode_chunks_step[where hb = hb, OF _ _ chunk_def[folded k(1)] es'_def[folded k(1)] refl])
         (use hb(1) k in simp_all)
    then show ?thesis using one[OF hb(2)] True es by simp
  next
    case False
    have lc: "last_chunk k (length es') = last_chunk k (length es)"
      using False k(2) by (simp add: es'_def last_chunk_drop)
    have c0: "0 < length chunk" using lk k(2) Suc.prems(7) by (cases es) (auto simp: chunk_def)
    have sync': "in_sync w (append_chunk r i chunk) i" using Suc.prems(2) by (simp add: in_sync_def)
    have "\<exists>bs. encode_chunks fuel h es' (num + 1) w = Some (w, bs)
        \<and> Coder_Decode (append_chunk r i chunk) (bs @ s)
          = finish (append_chunk (append_chunk r i chunk) i es') (continued_header h) s"
    proof (rule Suc.IH[OF append_chunk_ok[OF Suc.prems(1) ch(2)] sync', where pre = "pre @ chunk"])
      show "length es' < fuel" using Suc.prems(11) c0 es by (cases chunk) auto
    qed (use Suc.prems i es lc False in auto)
    then obtain bs where bs: "encode_chunks fuel h es' (num + 1) w = Some (w, bs)"
        "Coder_Decode (append_chunk r i chunk) (bs @ s)
          = finish (append_chunk r i es) (continued_header h) s"
      using append_chunk_append[OF i] es by auto
    have "4 \<le> length (chunk @ bs @ s)"
      using Suc.prems(10) lc last_chunk_le[of k "length es'"] encode_chunks_length[OF bs(1)] by simp
    then obtain hb where hb: "Header_Encode w (word_of_nat (length es)) True h = Some hb"
        "Header_Decode r (hb @ chunk @ bs @ s)
          = Some (Inr (continued_header h, last_write_event_size w ! i), chunk @ bs @ s)"
      using Header_continue_roundtrip[OF ch[unfolded i_def] Suc.prems(2)[unfolded i_def] last_h[unfolded i_def],
          where s = "chunk @ bs @ s" and n = "word_of_nat (length es)"]
      by (auto simp: i_def)
    have "encode_chunks (Suc fuel) h es num w = Some (w, hb @ chunk @ bs)"
      using False Suc.prems(9) bs(1)
      by (subst encode_chunks_step[where hb = hb, OF _ _ chunk_def[folded k(1)] es'_def[folded k(1)] refl])
         (use hb(1) k in simp_all)
    then show ?thesis using one[OF hb(2)] False bs(2) by simp
  qed
qed simp

text \<open>What the writer remembers, and the header the receiver sees.\<close>

definition first_header :: "coder \<Rightarrow> header \<Rightarrow> header" where
  "first_header w h = h\<lparr>is_timestamp_relative :=
     relative_on h (last_write_event_header w ! unat (channel_id h))\<rparr>"

definition delivered_header :: "coder \<Rightarrow> header \<Rightarrow> nat \<Rightarrow> header" where
  "delivered_header w h n =
     (if int n \<le> write_chunk_size w then first_header w h else continued_header h)"

lemma first_header_channel [simp]: "channel_id (first_header w h) = channel_id h"
  by (simp add: first_header_def)

lemma append_remember:
  "append_chunk (remember_header r h n) i x = remember_header (append_chunk r i x) h n"
  by (simp add: append_chunk_def remember_header_def Let_def)

lemma in_sync_remember:
  assumes "coder_ok w" "coder_ok r" "unat (channel_id h) < kMaxNumChannels"
    "in_sync w r i" "i < kMaxNumChannels"
  shows "in_sync (remember_written w h n) (remember_header r (first_header w h) (word_of_nat n)) i"
  using assms
  by (cases "i = unat (channel_id h)")
     (auto simp: in_sync_def remember_written_def remember_header_def coder_ok_def channels_ok_def
        same_header_def first_header_def)

lemma encode_decode_chunks:
  fixes h :: header
  defines "i \<equiv> unat (channel_id h)"
  assumes ok: "coder_ok w" "coder_ok r" and ch: "2 \<le> i" "i < kMaxNumChannels"
    and sid: "stream_id h \<noteq> kInvalidStreamId" and sync: "in_sync w r i"
    and pre: "partial_bodies r ! i = []" and n: "length es < 2 ^ 24"
    and k: "write_chunk_size w = read_chunk_size r
      \<or> int (length es) \<le> write_chunk_size w \<and> int (length es) \<le> read_chunk_size r"
    and mem: "memory_used r + int (length es) \<le> memory_limit r"
    and tail: "4 \<le> last_chunk (write_chunk_size w) (length es) + length s"
  shows "\<exists>bs. encode_chunks (Suc (length es)) h es 0 w = Some (remember_written w h (length es), bs)
    \<and> Coder_Decode r (bs @ s)
      = finish (append_chunk (remember_header r (first_header w h) (word_of_nat (length es))) i es)
          (delivered_header w h (length es)) s"
proof -
  let ?n = "length es" and ?k = "write_chunk_size w" and ?w' = "remember_written w h (length es)"
    and ?r' = "remember_header r (first_header w h) (word_of_nat (length es))"
  have k0: "0 < ?k" using ok(1) by (simp add: coder_ok_def)
  define chunk where "chunk = take (nat ?k) es"
  define es' where "es' = drop (nat ?k) es"
  have es: "es = chunk @ es'" by (simp add: chunk_def es'_def)
  have lk: "int (length chunk) = min ?k (int ?n)"
    using k0 by (simp add: chunk_def of_nat_min min.commute)
  have known: "channel_id (last_write_event_header w ! i) \<noteq> kInvalidChannelId"
    if "relative_on h (last_write_event_header w ! i)"
  proof
    assume "channel_id (last_write_event_header w ! i) = kInvalidChannelId"
    then have "last_write_event_header w ! i = Header_default"
      using ok(1) ch(2) by (fastforce simp: coder_ok_def channels_ok_def kInvalidChannelId_def kMaxNumChannels_def)
    then show False using that sid by (simp add: relative_on_def Header_default_def)
  qed
  have i: "i < length (partial_bodies r)" using ok ch by (simp add: coder_ok_def)
  have k1: "int (length chunk) = min (read_chunk_size r) (int ?n)"
    using k lk by (auto simp: min_def)
  have un: "unat (word_of_nat ?n :: 32 word) < 2 ^ 24" using n by (simp add: unat_word_of_nat)
  have one: "Coder_Decode r (hb @ chunk @ u) =
      (if es' \<noteq> [] then Coder_Decode (append_chunk ?r' i chunk) u
       else finish (append_chunk ?r' i chunk) (first_header w h) u)"
    if "Header_Decode r (hb @ chunk @ u) = Some (Inr (first_header w h, word_of_nat ?n), chunk @ u)" for hb u
  proof -
    have len: "length ([] :: bytes) + length chunk \<le> ?n" "int (length chunk) = min (read_chunk_size r) (int (?n - length ([] :: bytes)))"
      using es k1 by auto
    have m: "memory_used r + int (length chunk) \<le> memory_limit r" using mem es by simp
    have "Coder_Decode r (hb @ chunk @ u) = (if length ([] :: bytes) + length chunk < ?n
        then Coder_Decode (append_chunk ?r' i chunk) u
        else finish (append_chunk ?r' i chunk) (first_header w h) u)"
      by (rule Coder_Decode_one_chunk[OF ok(2) _ that n len(1) _ len(2) m])
         (use pre ch(2) in \<open>simp_all add: i_def append_remember\<close>)
    moreover have "length chunk < ?n \<longleftrightarrow> es' \<noteq> []" using es by auto
    ultimately show ?thesis by simp
  qed
  have hdr: "\<exists>hb. Header_Encode w (word_of_nat ?n) False h = Some hb
      \<and> Header_Decode r (hb @ u) = Some (Inr (first_header w h, word_of_nat ?n), u)" if "4 \<le> length u" for u
    using Header_roundtrip[OF ch[unfolded i_def] sync[unfolded i_def] _ un that] known
    by (simp add: i_def first_header_def)
  show ?thesis
  proof (cases "es' = []")
    case True
    then have small: "int ?n \<le> ?k" using es lk by simp
    have "4 \<le> length (chunk @ s)" using tail last_chunk_le[of ?k ?n] True es by simp
    then obtain hb where hb: "Header_Encode w (word_of_nat ?n) False h = Some hb"
        "Header_Decode r (hb @ chunk @ s) = Some (Inr (first_header w h, word_of_nat ?n), chunk @ s)"
      using hdr by blast
    have "encode_chunks (Suc ?n) h es 0 w = Some (?w', hb @ chunk)"
      using True by (subst encode_chunks_step[where hb = hb, OF _ k0 chunk_def es'_def refl]) (use hb(1) in simp_all)
    then show ?thesis using one[OF hb(2)] True es small by (simp add: delivered_header_def)
  next
    case False
    then have big: "\<not> int ?n \<le> ?k" by (auto simp: es'_def)
    then have kk: "?k = read_chunk_size r" using k by blast
    have c0: "chunk \<noteq> []" using lk k0 big by auto
    have lc: "last_chunk ?k (length es') = last_chunk ?k ?n"
      using big k0 by (simp add: es'_def last_chunk_drop)
    have lens: "length (last_write_event_header w) = kMaxNumChannels" "length (last_write_event_size w) = kMaxNumChannels"
      using ok(1) by (simp_all add: coder_ok_def channels_ok_def)
    have ok': "coder_ok (append_chunk ?r' i chunk)"
      using ok(2) ch by (intro append_chunk_ok remember_header_ok) (auto simp: i_def)
    have "in_sync ?w' ?r' i" using ok ch sync by (intro in_sync_remember) (auto simp: i_def)
    then have sync': "in_sync ?w' (append_chunk ?r' i chunk) i" by (simp add: in_sync_def)
    have "\<exists>bs. encode_chunks ?n h es' 1 ?w' = Some (?w', bs)
        \<and> Coder_Decode (append_chunk ?r' i chunk) (bs @ s)
          = finish (append_chunk (append_chunk ?r' i chunk) i es') (continued_header h) s"
      unfolding i_def
      by (rule continue_chunks[where n = ?n and k = ?k and pre = chunk])
         (use ok' sync' ch lens n kk k0 i pre c0 False lc tail mem es in
           \<open>auto simp: i_def remember_written_def remember_header_def\<close>)
    then obtain bs where bs: "encode_chunks ?n h es' 1 ?w' = Some (?w', bs)"
        "Coder_Decode (append_chunk ?r' i chunk) (bs @ s) = finish (append_chunk ?r' i es) (continued_header h) s"
      using append_chunk_append[of i ?r' chunk es'] es i by (auto simp: remember_header_def)
    have "4 \<le> length (chunk @ bs @ s)"
      using tail lc last_chunk_le[of ?k "length es'"] encode_chunks_length[OF bs(1)] by simp
    then obtain hb where hb: "Header_Encode w (word_of_nat ?n) False h = Some hb"
        "Header_Decode r (hb @ chunk @ bs @ s) = Some (Inr (first_header w h, word_of_nat ?n), chunk @ bs @ s)"
      using hdr by blast
    have "encode_chunks (Suc ?n) h es 0 w = Some (?w', hb @ chunk @ bs)"
      using False bs(1)
      by (subst encode_chunks_step[where hb = hb, OF _ k0 chunk_def es'_def refl]) (use hb(1) in simp_all)
    then show ?thesis using one[OF hb(2)] False bs(2) big by (simp add: delivered_header_def)
  qed
qed

text \<open>The chunk size that goes with an event, on either side.\<close>

definition read_size_after :: "event_body \<Rightarrow> coder \<Rightarrow> coder" where
  "read_size_after b c = (case b of
     EventChunkSize n \<Rightarrow> if n > kMaxChunkSize then c else c\<lparr>read_chunk_size := uint n\<rparr> | _ \<Rightarrow> c)"

definition write_size_before :: "event_body \<Rightarrow> coder \<Rightarrow> coder" where
  "write_size_before b c = (case b of EventChunkSize n \<Rightarrow> c\<lparr>write_chunk_size := sint n\<rparr> | _ \<Rightarrow> c)"

definition chunk_size_fits :: "event_body \<Rightarrow> bool" where
  "chunk_size_fits b \<longleftrightarrow> (case b of EventChunkSize n \<Rightarrow> 4 \<le> n \<and> n \<le> kMaxChunkSize | _ \<Rightarrow> True)"

lemma chunk_size_fits_sint:
  assumes "chunk_size_fits (EventChunkSize n)"
  shows "4 \<le> sint n" "sint n = uint n" "\<not> n > kMaxChunkSize"
proof -
  have u: "4 \<le> uint n" "uint n \<le> 65536"
    using assms by (auto simp: chunk_size_fits_def kMaxChunkSize_def word_le_def)
  show eq: "sint n = uint n"
    using u by (simp add: sint_uint signed_take_bit_int_eq_self)
  show "4 \<le> sint n" using u eq by simp
  show "\<not> n > kMaxChunkSize" using assms by (auto simp: chunk_size_fits_def)
qed

lemma write_size_before_fields [simp]:
  "last_write_event_header (write_size_before b w) = last_write_event_header w"
  "last_write_event_size (write_size_before b w) = last_write_event_size w"
  "last_read_event_header (write_size_before b w) = last_read_event_header w"
  "partial_bodies (write_size_before b w) = partial_bodies w"
  "read_chunk_size (write_size_before b w) = read_chunk_size w"
  by (auto simp: write_size_before_def split: event_body.splits)

lemma write_size_before_ok:
  assumes "coder_ok w" "chunk_size_fits b"
  shows "coder_ok (write_size_before b w)"
proof (cases b)
  case (EventChunkSize n)
  then show ?thesis
    using assms chunk_size_fits_sint(1)[of n] by (simp add: coder_ok_def write_size_before_def)
qed (use assms in \<open>simp_all add: write_size_before_def\<close>)

lemma EncodeWithAuxBuffer_eq:
  assumes "chunk_size_fits (ev_body e)"
  shows "EncodeWithAuxBuffer c e es
    = encode_chunks (Suc (length es)) (ev_header e) es 0 (write_size_before (ev_body e) c)"
proof (cases "ev_body e")
  case (EventChunkSize n)
  then show ?thesis
    using assms chunk_size_fits_sint(1)[of n]
    by (simp add: EncodeWithAuxBuffer_def write_size_before_def del: encode_chunks.simps)
qed (simp_all add: EncodeWithAuxBuffer_def write_size_before_def del: encode_chunks.simps)

lemma finish_event:
  assumes "partial_bodies r ! unat (channel_id h) = es" "h_event_type h = body_type b"
    and "DecodeBody (CreateEvent (body_type b)) es = Some (Inr b, [])"
  shows "finish r h s = Some (Inr \<lparr>ev_header = h, ev_body = b\<rparr>,
    read_size_after b (r\<lparr>memory_used := memory_used r - int (length es),
      partial_bodies := (partial_bodies r)[unat (channel_id h) := []]\<rparr>), s)"
  using assms by (simp add: finish_def compose_event_def Let_def read_size_after_def)

text \<open>
  Two coders at the ends of a connection: they remember the same headers, the receiver waits
  for no chunk, and both use one chunk size.
\<close>

definition synced :: "coder \<Rightarrow> coder \<Rightarrow> bool" where
  "synced w r \<longleftrightarrow> coder_ok w \<and> coder_ok r
     \<and> (\<forall>i < kMaxNumChannels. in_sync w r i \<and> partial_bodies r ! i = [])
     \<and> write_chunk_size w = read_chunk_size r \<and> 4 \<le> read_chunk_size r"

text \<open>What an event must satisfy to be sent and received.\<close>

definition sendable :: "event \<Rightarrow> bool" where
  "sendable e \<longleftrightarrow> event_ok e \<and> body_ok (ev_body e) \<and> body_fits (ev_body e)
     \<and> 2 \<le> unat (channel_id (ev_header e)) \<and> unat (channel_id (ev_header e)) < kMaxNumChannels
     \<and> stream_id (ev_header e) \<noteq> kInvalidStreamId \<and> chunk_size_fits (ev_body e)"

definition body_length :: "event \<Rightarrow> nat" where
  "body_length e = (case EncodeBody (ev_body e) of None \<Rightarrow> 0 | Some bs \<Rightarrow> length bs)"

definition delivered :: "coder \<Rightarrow> event \<Rightarrow> event" where
  "delivered w e = e\<lparr>ev_header :=
     delivered_header (write_size_before (ev_body e) w) (ev_header e) (body_length e)\<rparr>"

lemma synced_new:
  assumes "length rs = kMaxNumChannels" "length ws = kMaxNumChannels"
    "length rs' = kMaxNumChannels" "length ws' = kMaxNumChannels"
  shows "synced (Coder_new l rs ws) (Coder_new l' rs' ws')"
  using assms Coder_new_ok
  by (auto simp: synced_def in_sync_def same_header_def Coder_new_def Header_default_def
      kDefaultReadChunkSize_def kDefaultWriteChunkSize_def)

lemma h_event_type_delivered [simp]: "h_event_type (delivered_header w h n) = h_event_type h"
  by (simp add: delivered_header_def first_header_def continued_header_def)

lemma channel_id_delivered [simp]: "channel_id (delivered_header w h n) = channel_id h"
  by (simp add: delivered_header_def first_header_def continued_header_def)

lemma read_size_after_fields [simp]:
  "last_read_event_header (read_size_after b r) = last_read_event_header r"
  "last_read_event_size (read_size_after b r) = last_read_event_size r"
  "partial_bodies (read_size_after b r) = partial_bodies r"
  "memory_used (read_size_after b r) = memory_used r"
  "memory_limit (read_size_after b r) = memory_limit r"
  by (auto simp: read_size_after_def split: event_body.splits)

lemma read_size_after_size:
  "read_chunk_size c = read_chunk_size d
     \<Longrightarrow> read_chunk_size (read_size_after b c) = read_chunk_size (read_size_after b d)"
  by (auto simp: read_size_after_def split: event_body.splits)

lemma read_size_after_ok: "coder_ok r \<Longrightarrow> coder_ok (read_size_after b r)"
  unfolding read_size_after_def by (rule chunk_size_update_ok)

lemma synced_sizes:
  assumes "chunk_size_fits b" "write_chunk_size w = read_chunk_size r" "4 \<le> read_chunk_size r"
  shows "write_chunk_size (write_size_before b w) = read_chunk_size (read_size_after b r)
    \<and> 4 \<le> read_chunk_size (read_size_after b r)"
proof (cases b)
  case (EventChunkSize n)
  then show ?thesis
    using assms chunk_size_fits_sint[of n] by (simp add: write_size_before_def read_size_after_def)
qed (use assms in \<open>simp_all add: write_size_before_def read_size_after_def\<close>)

lemma chunk_size_body_length:
  "EncodeBody (EventChunkSize n) = Some bs \<Longrightarrow> length bs = 4"
  by auto

lemma event_roundtrip:
  assumes sync: "synced w r" and e: "sendable e" and len: "body_length e < 2 ^ 24"
    and mem: "memory_used r + int (body_length e) \<le> memory_limit r"
  shows "\<exists>w' bs r'. Coder_Encode w e = Some (w', bs)
    \<and> (\<forall>s. 4 \<le> last_chunk (write_chunk_size (write_size_before (ev_body e) w)) (body_length e) + length s
          \<longrightarrow> Coder_Decode r (bs @ s) = Some (Inr (delivered w e), r', s))
    \<and> synced w' r' \<and> memory_used r' = memory_used r \<and> memory_limit r' = memory_limit r"
proof -
  let ?h = "ev_header e" and ?b = "ev_body e"
  let ?i = "unat (channel_id ?h)"
  let ?w = "write_size_before ?b w"
  obtain es where es: "EncodeBody ?b = Some es" "DecodeBody (CreateEvent (body_type ?b)) es = Some (Inr ?b, [])"
    using Body_roundtrip e by (auto simp: sendable_def)
  have n: "body_length e = length es" by (simp add: body_length_def es)
  have fits: "chunk_size_fits ?b" and ch: "2 \<le> ?i" "?i < kMaxNumChannels"
    and sid: "stream_id ?h \<noteq> kInvalidStreamId" and ty: "h_event_type ?h = body_type ?b"
    using e by (auto simp: sendable_def event_ok_def)
  have okw: "coder_ok ?w" and okr: "coder_ok r"
    using sync fits by (auto simp: synced_def write_size_before_ok)
  have k: "write_chunk_size ?w = read_chunk_size r
      \<or> int (length es) \<le> write_chunk_size ?w \<and> int (length es) \<le> read_chunk_size r"
  proof (cases ?b)
    case (EventChunkSize m)
    then show ?thesis
      using es(1) fits chunk_size_fits_sint(1)[of m] sync by (auto simp: write_size_before_def synced_def)
  qed (use sync in \<open>simp_all add: write_size_before_def synced_def\<close>)
  have sync_i: "in_sync ?w r ?i" "partial_bodies r ! ?i = []"
    using sync ch by (auto simp: synced_def in_sync_def)
  let ?r1 = "append_chunk (remember_header r (first_header ?w ?h) (word_of_nat (length es))) ?i es"
  let ?h' = "delivered_header ?w ?h (length es)"
  let ?tail = "last_chunk (write_chunk_size ?w) (length es)"
  have ex: "\<exists>bs. encode_chunks (Suc (length es)) ?h es 0 ?w = Some (remember_written ?w ?h (length es), bs)
      \<and> Coder_Decode r (bs @ s) = finish ?r1 ?h' s" if "4 \<le> ?tail + length s" for s
    using encode_decode_chunks[OF okw okr ch sid sync_i _ k, where s = s] len mem that n by auto
  obtain bs where bs: "encode_chunks (Suc (length es)) ?h es 0 ?w = Some (remember_written ?w ?h (length es), bs)"
    using ex[of "replicate 4 0"] by auto
  have dec: "Coder_Decode r (bs @ s) = finish ?r1 ?h' s" if "4 \<le> ?tail + length s" for s
    using ex[OF that] bs by auto
  have i: "?i < length (partial_bodies r)" using okr ch by (simp add: coder_ok_def)
  define r' where "r' = read_size_after ?b (?r1\<lparr>memory_used := memory_used ?r1 - int (length es),
      partial_bodies := (partial_bodies ?r1)[?i := []]\<rparr>)"
  have fin: "finish ?r1 ?h' s = Some (Inr \<lparr>ev_header = ?h', ev_body = ?b\<rparr>, r', s)" for s
    unfolding r'_def using finish_event[of ?r1 ?h' es ?b s] es(2) ty i sync_i(2)
    by (simp add: remember_header_def)
  have okr1: "coder_ok ?r1"
    using okr ch by (intro append_chunk_ok remember_header_ok) auto
  have okr': "coder_ok r'"
    unfolding r'_def by (rule read_size_after_ok) (use okr1 in \<open>simp add: coder_ok_def\<close>)
  have okw': "coder_ok (remember_written ?w ?h (length es))"
    using okw ch channels_ok_update[of "last_write_event_header ?w" ?h]
    by (simp add: coder_ok_def remember_written_def)
  have sizes: "write_chunk_size ?w = read_chunk_size r' \<and> 4 \<le> read_chunk_size r'"
    unfolding r'_def using synced_sizes[OF fits, of w r] sync
    by (subst (1 2) read_size_after_size[where d = r]) (simp_all add: synced_def remember_header_def)
  have "in_sync (remember_written ?w ?h (length es)) r' j \<and> partial_bodies r' ! j = []"
    if j: "j < kMaxNumChannels" for j
  proof -
    have "in_sync ?w r j" "partial_bodies r ! j = []"
      using sync j by (auto simp: synced_def in_sync_def)
    then show ?thesis
      using in_sync_remember[OF okw okr ch(2) _ j, of "length es"] i
      by (cases "j = ?i") (auto simp: in_sync_def r'_def remember_header_def)
  qed
  then have "synced (remember_written ?w ?h (length es)) r'"
    using okw' okr' sizes by (simp add: synced_def remember_written_def)
  moreover have "memory_used r' = memory_used r" "memory_limit r' = memory_limit r"
    by (simp_all add: r'_def remember_header_def)
  moreover have "Coder_Encode w e = Some (remember_written ?w ?h (length es), bs)"
    using bs es(1) by (simp add: Coder_Encode_def EncodeWithAuxBuffer_eq[OF fits] del: encode_chunks.simps)
  moreover have "delivered w e = \<lparr>ev_header = ?h', ev_body = ?b\<rparr>"
    by (simp add: delivered_def n)
  ultimately show ?thesis using dec fin n by auto
qed

section \<open>Conversations\<close>

primrec encode_all :: "coder \<Rightarrow> event list \<Rightarrow> (coder \<times> bytes) option" where
  "encode_all w [] = Some (w, [])"
| "encode_all w (e # es) = do {
     (w1, bs) \<leftarrow> Coder_Encode w e;
     (w2, bs') \<leftarrow> encode_all w1 es;
     Some (w2, bs @ bs') }"

text \<open>Decoding until \<open>n\<close> events have come.\<close>

primrec decode_n :: "nat \<Rightarrow> coder \<Rightarrow> bytes \<Rightarrow> (event list \<times> coder \<times> bytes) option" where
  "decode_n 0 r s = Some ([], r, s)"
| "decode_n (Suc n) r s = (case Coder_Decode r s of
     Some (Inr e, r', s') \<Rightarrow> map_option (\<lambda>(es, q). (e # es, q)) (decode_n n r' s')
   | _ \<Rightarrow> None)"

text \<open>The headers the receiver sees depend on what was sent before.\<close>

primrec delivered_all :: "coder \<Rightarrow> event list \<Rightarrow> event list" where
  "delivered_all w [] = []"
| "delivered_all w (e # es) =
     delivered w e # delivered_all (case Coder_Encode w e of Some (w', _) \<Rightarrow> w' | None \<Rightarrow> w) es"

lemma conversation_roundtrip:
  assumes "synced w r" "4 \<le> length s"
    and "\<And>e. e \<in> set es \<Longrightarrow> sendable e \<and> body_length e < 2 ^ 24
        \<and> memory_used r + int (body_length e) \<le> memory_limit r"
  shows "\<exists>w' bs r'. encode_all w es = Some (w', bs)
    \<and> decode_n (length es) r (bs @ s) = Some (delivered_all w es, r', s)
    \<and> synced w' r'"
  using assms
proof (induction es arbitrary: w r)
  case (Cons e es)
  let ?P = "\<lambda>r e. sendable e \<and> body_length e < 2 ^ 24 \<and> memory_used r + int (body_length e) \<le> memory_limit r"
  have e: "?P r e" and es: "\<And>x. x \<in> set es \<Longrightarrow> ?P r x" using Cons.prems(3) by auto
  obtain w1 bs1 r1 where 1: "Coder_Encode w e = Some (w1, bs1)"
      "\<And>u. 4 \<le> length u \<Longrightarrow> Coder_Decode r (bs1 @ u) = Some (Inr (delivered w e), r1, u)"
    and s1: "synced w1 r1" "memory_used r1 = memory_used r" "memory_limit r1 = memory_limit r"
    using event_roundtrip[OF Cons.prems(1), of e] e by (auto simp: trans_le_add2)
  have "\<And>x. x \<in> set es \<Longrightarrow> ?P r1 x" using es s1 by simp
  then obtain w2 bs2 r2 where 2: "encode_all w1 es = Some (w2, bs2)"
      "decode_n (length es) r1 (bs2 @ s) = Some (delivered_all w1 es, r2, s)" "synced w2 r2"
    using Cons.IH[OF s1(1) Cons.prems(2)] by blast
  have "Coder_Decode r (bs1 @ bs2 @ s) = Some (Inr (delivered w e), r1, bs2 @ s)"
    using 1(2)[of "bs2 @ s"] Cons.prems(2) by simp
  then show ?case using 1(1) 2 by simp
qed simp

subsection \<open>Events of fewer than four bytes\<close>

lemma Header_Decode_short:
  assumes "2 \<le> unat ch" "unat ch < kMaxNumChannels" "length s < HeaderLength t + 4"
  shows "\<exists>s'. Header_Decode c (header_byte_of t ch # s) = Some (Inl READ_NO_DATA, s')"
proof -
  note f = header_byte_fields[OF assms(1,2), of t]
  have 1: "read_header_byte (header_byte_of t ch # s) = Some (Inr (header_byte_of t ch), s)"
    using f(1) by (simp add: read_header_byte_def)
  have 2: "rd_bind read_header_byte g (header_byte_of t ch # s) = g (header_byte_of t ch) s"
    for g :: "byte \<Rightarrow> (header \<times> 32 word) amf_reader"
    by (rule rd_bind_ok) (rule 1)
  show ?thesis
    using assms by (auto simp: 2 Header_Decode_def amf_need_def rd_simps read_channel_id_def f Let_def)
qed

lemma Header_Encode_length:
  assumes h: "Header_Encode w n False h = Some hb" "timestamp_ms h < 0xffffff"
    and ch: "2 \<le> unat (channel_id h)" "unat (channel_id h) < kMaxNumChannels"
  shows "\<exists>t body. hb = header_byte_of t (channel_id h) # body \<and> length body = HeaderLength t"
proof -
  let ?l = "last_write_event_header w ! unat (channel_id h)"
  define t where "t = choose_header_type h ?l (last_write_event_size w ! unat (channel_id h)) n False"
  have rel: "is_timestamp_relative h" if "t \<noteq> HEADER_NEW"
    using that by (auto simp: t_def choose_header_type_def split: if_splits)
  have ext: "\<not> timestamp_ms ?l \<ge> 0xffffff" if "t = HEADER_CONTINUE"
    using that h(2) by (auto simp: t_def choose_header_type_def split: if_splits)
  have "\<exists>body. hb = header_byte_of t (channel_id h) # body \<and> length body = HeaderLength t"
    using h ch rel ext
    by (cases t) (auto simp: Header_Encode_def Let_def t_def[symmetric] write_channel_id_small WriteBE_byte
        split: if_splits)
  then show ?thesis by blast
qed

lemma short_event_encoding:
  assumes ok: "coder_ok w" and e: "sendable e" "body_length e < 4" "\<forall>n. ev_body e \<noteq> EventChunkSize n"
    and ts: "timestamp_ms (ev_header e) < 0xffffff" and k: "4 \<le> write_chunk_size w"
    and enc: "Coder_Encode w e = Some (w', bs)"
  shows "\<exists>t body. bs = header_byte_of t (channel_id (ev_header e)) # body \<and> length body < HeaderLength t + 4"
proof -
  let ?h = "ev_header e"
  obtain es where es: "EncodeBody (ev_body e) = Some es"
    using enc by (auto simp: Coder_Encode_def split: option.splits)
  have n: "length es < 4" using e(2) es by (simp add: body_length_def)
  have w: "write_size_before (ev_body e) w = w"
    using e(3) by (simp add: write_size_before_def split: event_body.splits)
  have chunks: "encode_chunks (Suc (length es)) ?h es 0 w = Some (w', bs)"
    using enc es e(1) by (simp add: Coder_Encode_def EncodeWithAuxBuffer_eq sendable_def w del: encode_chunks.simps)
  obtain hb where hb: "Header_Encode w (word_of_nat (length es)) False ?h = Some hb"
    using chunks by (auto simp: Let_def split: option.splits)
  have k0: "0 < write_chunk_size w" and big: "length es \<le> nat (write_chunk_size w)" using k n by auto
  have "bs = hb @ es"
    using chunks hb big
    by (subst (asm) encode_chunks_step[where hb = hb, OF _ k0 refl refl refl]) auto
  then show ?thesis
    using Header_Encode_length[OF hb ts] e(1) n by (fastforce simp: sendable_def)
qed

section \<open>Properties\<close>

text \<open>
  C2. A conversation: between two coders in step (two fresh coders are), every sequence of
  events that the writer encodes is decoded by the reader, in order, event by event: the same
  classes of events with the same bodies, whatever their lengths, how they were cut into chunks
  and which changes of the chunk size they announce; afterwards the coders are in step again.
  The headers that arrive are those of \<open>delivered_all\<close>.
\<close>

theorem Coder_conversation:
  assumes "synced w r" "4 \<le> length s"
    and "\<And>e. e \<in> set es \<Longrightarrow> sendable e \<and> body_length e < 2 ^ 24
        \<and> memory_used r + int (body_length e) \<le> memory_limit r"
  shows "\<exists>w' bs r'. encode_all w es = Some (w', bs)
    \<and> decode_n (length es) r (bs @ s) = Some (delivered_all w es, r', s)
    \<and> map ev_body (delivered_all w es) = map ev_body es
    \<and> synced w' r'"
proof -
  have "map ev_body (delivered_all v es) = map ev_body es" for v
    by (induction es arbitrary: v) (simp_all add: delivered_def)
  then show ?thesis using conversation_roundtrip[OF assms] by blast
qed

definition fresh_coder :: coder where
  "fresh_coder = Coder_new (4 * 2 ^ 20) (replicate 32 0) (replicate 32 7)"

lemma fresh_coder_synced: "synced fresh_coder fresh_coder"
  unfolding fresh_coder_def by (rule synced_new) (simp_all add: kMaxNumChannels_def)

definition sample_events :: "event list" where
  "sample_events =
     [\<lparr>ev_header = \<lparr>channel_id = 2, stream_id = 0, h_event_type = EVENT_CHUNK_SIZE,
         timestamp_ms = 0, is_timestamp_relative = False\<rparr>, ev_body = EventChunkSize 4096\<rparr>,
      \<lparr>ev_header = \<lparr>channel_id = 6, stream_id = 1, h_event_type = EVENT_AUDIO_DATA,
         timestamp_ms = 0x1000000, is_timestamp_relative = False\<rparr>,
       ev_body = EventAudioData (replicate 200 7)\<rparr>,
      \<lparr>ev_header = \<lparr>channel_id = 3, stream_id = 1, h_event_type = EVENT_INVOKE,
         timestamp_ms = 0, is_timestamp_relative = True\<rparr>,
       ev_body = EventInvoke (Some \<lparr>service_name = [], method_name = bytes_of ''connect'', invoke_id = 1,
         call_status = STATUS_PENDING, connection_params = Some (CStringMap [(bytes_of ''app'', CString (bytes_of ''live''))] [bytes_of ''app'']),
         arguments = [CNumber 0]\<rparr>)\<rparr>]"

lemma sample_events_sendable: "e \<in> set sample_events \<Longrightarrow> sendable e"
  by (auto simp: sample_events_def sendable_def event_ok_def call_ok_def call_fits_def chunk_size_fits_def
      kMaxChunkSize_def kMaxNumChannels_def kInvalidStreamId_def dot_def bytes_of_def
      kMaximumStringReadableData_def)

lemma sample_events_length: "e \<in> set sample_events \<Longrightarrow> body_length e < 300"
  by (auto simp: sample_events_def body_length_def Call_Encode_def encode_objects_def encode_defs
      length_WriteString bytes_of_def LONG_STRING_LENGTH_def WriteGenericObjectBegin_def
      WriteGenericObjectEnd_def)

lemma Coder_conversation_witness:
  "\<exists>w' bs r'. encode_all fresh_coder sample_events = Some (w', bs)
    \<and> decode_n (length sample_events) fresh_coder (bs @ [0, 0, 0, 0])
        = Some (delivered_all fresh_coder sample_events, r', [0, 0, 0, 0])
    \<and> map ev_body (delivered_all fresh_coder sample_events) = map ev_body sample_events
    \<and> synced w' r'"
proof (rule Coder_conversation[OF fresh_coder_synced])
  fix e assume "e \<in> set sample_events"
  then show "sendable e \<and> body_length e < 2 ^ 24
      \<and> memory_used fresh_coder + int (body_length e) \<le> memory_limit fresh_coder"
    using sample_events_sendable sample_events_length[of e]
    by (simp add: fresh_coder_def Coder_new_def)
qed simp

text \<open>
  C18. \<^verbatim>\<open>Coder::Decode\<close> on arbitrary bytes: from a well-formed state it always returns,
  without a failed \<^verbatim>\<open>CHECK\<close> and without running out of input it announced, in a
  well-formed state; an event it returns agrees with its header, is on one of the 32 channels,
  and consumed part of the input.
\<close>

theorem Coder_Decode_total:
  assumes "coder_ok c"
  shows "case Coder_Decode c s of
      None \<Rightarrow> False
    | Some (Inl e, c', s') \<Rightarrow> coder_ok c' \<and> length s' \<le> length s
    | Some (Inr e, c', s') \<Rightarrow> coder_ok c' \<and> length s' < length s \<and> event_ok e \<and> body_ok (ev_body e)
        \<and> unat (channel_id (ev_header e)) < kMaxNumChannels"
proof -
  obtain x where "Coder_Decode c s = Some x" "result_ok s x"
    using Coder_Decode_fuel_total[OF assms, of s "Suc (length s)"] by (auto simp: Coder_Decode_def)
  then show ?thesis
    by (cases x; cases "fst x") (auto simp: result_ok_def outcome_ok_def)
qed

lemma Coder_Decode_total_witness:
  "case Coder_Decode fresh_coder [0, 7, 0x42, 1] of
      None \<Rightarrow> False
    | Some (Inl e, c', s') \<Rightarrow> coder_ok c' \<and> length s' \<le> length [0, 7, 0x42, 1 :: byte]
    | Some (Inr e, c', s') \<Rightarrow> coder_ok c' \<and> length s' < length [0, 7, 0x42, 1 :: byte] \<and> event_ok e
        \<and> body_ok (ev_body e) \<and> unat (channel_id (ev_header e)) < kMaxNumChannels"
  by (rule Coder_Decode_total) (use fresh_coder_synced in \<open>simp add: synced_def\<close>)

text \<open>
  C19. Input that arrives in pieces is decoded as if it had arrived at once: if \<^verbatim>\<open>Decode\<close>
  returns on a prefix of the input, then on the whole input it returns the same and leaves what
  follows, or it was waiting for data and goes on from where it stopped.
\<close>

theorem Coder_Decode_pieces:
  assumes "coder_ok c" "Coder_Decode c s = Some (x, c', s')"
  shows "Coder_Decode c (s @ t) = Some (x, c', s' @ t)
    \<or> x = Inl READ_NO_DATA \<and> Coder_Decode c (s @ t) = Coder_Decode c' (s' @ t)"
  by (rule Coder_Decode_resume[OF assms])

lemma Coder_Decode_pieces_witness:
  "Coder_Decode fresh_coder ([7] @ [0, 0, 0]) = Some (Inl READ_NO_DATA, fresh_coder, [7] @ [0, 0, 0])
    \<or> (Inl READ_NO_DATA :: read_status + event) = Inl READ_NO_DATA
      \<and> Coder_Decode fresh_coder ([7] @ [0, 0, 0]) = Coder_Decode fresh_coder ([7] @ [0, 0, 0])"
proof (rule Coder_Decode_pieces)
  show "coder_ok fresh_coder" using fresh_coder_synced by (simp add: synced_def)
  show "Coder_Decode fresh_coder [7] = Some (Inl READ_NO_DATA, fresh_coder, [7])"
    by (simp add: Coder_Decode_def Coder_Decode_chunk_def Header_Decode_def read_header_byte_def
        rd_bind_def amf_need_def rd_need_def)
qed

text \<open>
  C21. The account of memory: as long as events are delivered, \<^verbatim>\<open>memory_used_\<close> is exactly
  what the partial bodies hold and stays within the limit; an error never leaves the account
  above what is held, and no error but \<open>READ_OOM\<close> leaves more than the limit in memory.
\<close>

theorem Coder_Decode_memory:
  assumes "coder_ok c" "memory_inv c" "Coder_Decode c s = Some (x, c', s')"
  shows "memory_outcome x c'"
  by (rule Coder_Decode_memory_outcome[OF assms])

lemma Coder_Decode_memory_witness: "memory_outcome (Inl READ_NO_DATA) fresh_coder"
proof (rule Coder_Decode_memory)
  show "coder_ok fresh_coder" using fresh_coder_synced by (simp add: synced_def)
  show "memory_inv fresh_coder"
    by (simp add: memory_inv_def stored_bytes_def fresh_coder_def Coder_new_def sum_list_replicate)
  show "Coder_Decode fresh_coder [7] = Some (Inl READ_NO_DATA, fresh_coder, [7])"
    by (simp add: Coder_Decode_def Coder_Decode_chunk_def Header_Decode_def read_header_byte_def
        rd_bind_def amf_need_def rd_need_def)
qed

text \<open>
  An event longer than a chunk arrives with the header of its last chunk: an event that was
  sent with an absolute timestamp is delivered as one with a relative timestamp, of the same
  value, or 0 if it needs more than 24 bits.
\<close>

theorem multi_chunk_absolute_header:
  assumes "synced w r" "sendable e" "body_length e < 2 ^ 24"
    "memory_used r + int (body_length e) \<le> memory_limit r" "4 \<le> length s"
    and long: "write_chunk_size (write_size_before (ev_body e) w) < int (body_length e)"
    and abs: "\<not> is_timestamp_relative (ev_header e)"
  shows "\<exists>w' bs e' r'. Coder_Encode w e = Some (w', bs)
    \<and> Coder_Decode r (bs @ s) = Some (Inr e', r', s)
    \<and> is_timestamp_relative (ev_header e')
    \<and> timestamp_ms (ev_header e')
        = (if timestamp_ms (ev_header e) \<ge> 0xffffff then 0 else timestamp_ms (ev_header e))"
proof -
  have "ev_header (delivered w e) = continued_header (ev_header e)"
    using long by (simp add: delivered_def delivered_header_def)
  then show ?thesis
    using event_roundtrip[OF assms(1-4)] assms(5) abs by (fastforce simp: continued_header_def)
qed

lemma multi_chunk_absolute_header_witness:
  "\<exists>w' bs e' r'. Coder_Encode fresh_coder (sample_events ! 1) = Some (w', bs)
    \<and> Coder_Decode fresh_coder (bs @ [0, 0, 0, 0]) = Some (Inr e', r', [0, 0, 0, 0])
    \<and> is_timestamp_relative (ev_header e')
    \<and> timestamp_ms (ev_header e')
        = (if timestamp_ms (ev_header (sample_events ! 1)) \<ge> 0xffffff then 0
           else timestamp_ms (ev_header (sample_events ! 1)))"
proof (rule multi_chunk_absolute_header[OF fresh_coder_synced])
  have m: "sample_events ! 1 \<in> set sample_events" by (simp add: sample_events_def)
  show "sendable (sample_events ! 1)" by (rule sample_events_sendable[OF m])
  show "body_length (sample_events ! 1) < 2 ^ 24" using sample_events_length[OF m] by simp
  show "memory_used fresh_coder + int (body_length (sample_events ! 1)) \<le> memory_limit fresh_coder"
    using sample_events_length[OF m] by (simp add: fresh_coder_def Coder_new_def)
qed (simp_all add: sample_events_def body_length_def write_size_before_def fresh_coder_def Coder_new_def
    kDefaultWriteChunkSize_def)

text \<open>
  \<^verbatim>\<open>Header::Decode\<close> asks for four bytes beyond every header, whether or not there is an
  extended timestamp: an event with a body of fewer than four bytes is not decoded although all
  of it has arrived; \<^verbatim>\<open>Decode\<close> waits for the event after it.
\<close>

theorem short_event_waits:
  assumes "synced w r" "sendable e" "body_length e < 4" "\<forall>n. ev_body e \<noteq> EventChunkSize n"
    and "timestamp_ms (ev_header e) < 0xffffff" "Coder_Encode w e = Some (w', bs)"
  shows "Coder_Decode r bs = Some (Inl READ_NO_DATA, r, bs)"
proof -
  have w: "coder_ok w" "4 \<le> write_chunk_size w" and r: "coder_ok r" using assms(1) by (simp_all add: synced_def)
  obtain t body where bs: "bs = header_byte_of t (channel_id (ev_header e)) # body"
      "length body < HeaderLength t + 4"
    using short_event_encoding[OF w(1) assms(2-5) w(2) assms(6)] by blast
  then show ?thesis
    using Header_Decode_short[of "channel_id (ev_header e)" body t r] assms(2)
    by (auto simp: Coder_Decode_def Coder_Decode_chunk_def sendable_def)
qed

lemma short_event_waits_witness:
  "Coder_Decode fresh_coder [6, 0, 0, 0, 0, 0, 1, 8, 1, 0, 0, 0, 9]
     = Some (Inl READ_NO_DATA, fresh_coder, [6, 0, 0, 0, 0, 0, 1, 8, 1, 0, 0, 0, 9])"
proof -
  let ?h = "\<lparr>channel_id = 6, stream_id = 1, h_event_type = EVENT_AUDIO_DATA, timestamp_ms = 0,
    is_timestamp_relative = False\<rparr>"
  show ?thesis
  proof (rule short_event_waits[OF fresh_coder_synced])
    show "Coder_Encode fresh_coder \<lparr>ev_header = ?h, ev_body = EventAudioData [9]\<rparr>
        = Some (remember_written fresh_coder ?h 1, [6, 0, 0, 0, 0, 0, 1, 8, 1, 0, 0, 0, 9])"
      by code_simp
  qed (simp_all add: sendable_def event_ok_def kMaxNumChannels_def kInvalidStreamId_def
      chunk_size_fits_def body_length_def)
qed

end
