(* ===== verification/RtmpStream.thy ===== *)
theory RtmpStream
  imports RtmpCoder
begin

text \<open>
  The clocks of \<^verbatim>\<open>rtmp::Stream\<close> (\<^verbatim>\<open>rtmp/rtmp_stream.{h,cc}\<close>): \<^verbatim>\<open>SendEvent\<close> turns
  the time of an event into an absolute or a relative timestamp of its header,
  \<^verbatim>\<open>ReceiveEvent\<close> turns the timestamps back into times.  The hand-over to the selector
  thread and the reference counts are not modelled: the model is what runs in that thread.
\<close>

section \<open>The clocks\<close>

record rtmp_stream =
  first_timestamp_ms :: "int list"
  last_timestamp_ms :: "int list"

definition Stream_new :: rtmp_stream where
  "Stream_new = \<lparr>first_timestamp_ms = replicate kMaxNumChannels (-1),
     last_timestamp_ms = replicate kMaxNumChannels (-1)\<rparr>"

text \<open>The header that is sent; \<open>timestamp_ms < 0\<close> stands for no time of its own.\<close>

definition Stream_SendEvent :: "rtmp_stream \<Rightarrow> header \<Rightarrow> int \<Rightarrow> header \<times> rtmp_stream" where
  "Stream_SendEvent st h t =
     (let ch = unat (channel_id h);
          last_t = last_timestamp_ms st ! ch;
          (t', rel, ts) =
            (if t < 0 then
               if last_t = -1 then (0, False, 0) else (last_t, True, 0)
             else
               if last_t = -1 then (t, False, t)
               else if last_t \<le> t then (t, True, t - last_t)
               else (t, False, t))
      in (h\<lparr>timestamp_ms := word_of_int ts, is_timestamp_relative := rel\<rparr>,
          st\<lparr>last_timestamp_ms := (last_timestamp_ms st)[ch := t']\<rparr>))"

text \<open>The time that \<^verbatim>\<open>ProcessEvent\<close> gets.\<close>

definition Stream_ReceiveEvent :: "rtmp_stream \<Rightarrow> header \<Rightarrow> int \<times> rtmp_stream" where
  "Stream_ReceiveEvent st h =
     (let ch = unat (channel_id h);
          last_t = last_timestamp_ms st ! ch;
          t = (if is_timestamp_relative h
               then if last_t < 0 then uint (timestamp_ms h) else last_t + uint (timestamp_ms h)
               else uint (timestamp_ms h));
          st1 = (if first_timestamp_ms st ! ch < 0
                 then st\<lparr>first_timestamp_ms := (first_timestamp_ms st)[ch := t]\<rparr> else st)
      in (t, st1\<lparr>last_timestamp_ms := (last_timestamp_ms st1)[ch := t]\<rparr>))"

primrec send_events :: "rtmp_stream \<Rightarrow> (event \<times> int) list \<Rightarrow> event list" where
  "send_events st [] = []"
| "send_events st (p # ps) =
     (let (h, st') = Stream_SendEvent st (ev_header (fst p)) (snd p)
      in (fst p)\<lparr>ev_header := h\<rparr> # send_events st' ps)"

primrec receive_times :: "rtmp_stream \<Rightarrow> event list \<Rightarrow> int list" where
  "receive_times st [] = []"
| "receive_times st (e # es) =
     (let (t, st') = Stream_ReceiveEvent st (ev_header e) in t # receive_times st' es)"

text \<open>The times meant: an event without one of its own has that of the event before it.\<close>

primrec meant_times :: "int list \<Rightarrow> (event \<times> int) list \<Rightarrow> int list" where
  "meant_times last_ts [] = []"
| "meant_times last_ts (p # ps) =
     (let ch = unat (channel_id (ev_header (fst p)));
          t = (if snd p < 0 then max 0 (last_ts ! ch) else snd p)
      in t # meant_times (last_ts[ch := t]) ps)"

section \<open>Sender and receiver\<close>

text \<open>The clocks of both sides, and times that fit in the 32 bits of a timestamp.\<close>

definition clocks_ok :: "rtmp_stream \<Rightarrow> bool" where
  "clocks_ok st \<longleftrightarrow> length (last_timestamp_ms st) = kMaxNumChannels
     \<and> (\<forall>t \<in> set (last_timestamp_ms st). -1 \<le> t \<and> t < 2 ^ 32)"

definition time_ok :: "event \<times> int \<Rightarrow> bool" where
  "time_ok p \<longleftrightarrow> unat (channel_id (ev_header (fst p))) < kMaxNumChannels \<and> snd p < 2 ^ 32"

lemma uint_word_of_int_32: "0 \<le> x \<Longrightarrow> x < 2 ^ 32 \<Longrightarrow> uint (word_of_int x :: 32 word) = x"
  by (simp add: uint_word_of_int)

lemma uint_diff_32:
  assumes "0 \<le> l" "l \<le> t" "t < 2 ^ 32"
  shows "uint (word_of_int t - word_of_int l :: 32 word) = t - l"
proof -
  have "(word_of_int t - word_of_int l :: 32 word) = word_of_int (t - l)" by simp
  then show ?thesis using assms uint_word_of_int_32[of "t - l"] by simp
qed

lemma send_receive_step:
  assumes "clocks_ok st" "last_timestamp_ms rt = last_timestamp_ms st"
    and ch: "unat (channel_id h) < kMaxNumChannels" and t: "t < 2 ^ 32"
    and send: "Stream_SendEvent st h t = (h', st')"
  defines "t' \<equiv> (if t < 0 then max 0 (last_timestamp_ms st ! unat (channel_id h)) else t)"
  shows "\<exists>rt'. Stream_ReceiveEvent rt h' = (t', rt') \<and> last_timestamp_ms rt' = last_timestamp_ms st'
    \<and> clocks_ok st' \<and> last_timestamp_ms st' = (last_timestamp_ms st)[unat (channel_id h) := t']"
proof -
  let ?i = "unat (channel_id h)"
  define l where "l = last_timestamp_ms st ! ?i"
  have l: "-1 \<le> l" "l < 2 ^ 32"
    using assms(1) ch by (auto simp: clocks_ok_def l_def)
  have st': "last_timestamp_ms st' = (last_timestamp_ms st)[?i := t']" "channel_id h' = channel_id h"
    using send l by (auto simp: Stream_SendEvent_def Let_def l_def[symmetric] t'_def split: if_splits)
  have ts: "fst (Stream_ReceiveEvent rt h') = t'"
    using send l t assms(2)
    by (auto simp: Stream_SendEvent_def Stream_ReceiveEvent_def Let_def l_def[symmetric] t'_def
        uint_word_of_int_32 uint_diff_32 split: if_splits)
  have last_rt: "last_timestamp_ms (snd (Stream_ReceiveEvent rt h'))
      = (last_timestamp_ms rt)[?i := fst (Stream_ReceiveEvent rt h')]"
    using st'(2) by (simp add: Stream_ReceiveEvent_def Let_def)
  have "0 \<le> t'" "t' < 2 ^ 32" using l t by (auto simp: t'_def l_def)
  then have "clocks_ok st'"
    using assms(1) st'(1) set_update_subset_insert[of "last_timestamp_ms st" ?i t']
    by (auto simp: clocks_ok_def)
  then show ?thesis
    using ts last_rt st' assms(2) by (cases "Stream_ReceiveEvent rt h'") auto
qed

lemma receive_send_events:
  assumes "clocks_ok st" "last_timestamp_ms rt = last_timestamp_ms st" "list_all time_ok ps"
  shows "receive_times rt (send_events st ps) = meant_times (last_timestamp_ms st) ps"
  using assms
proof (induction ps arbitrary: st rt)
  case (Cons p ps)
  obtain h st' where send: "Stream_SendEvent st (ev_header (fst p)) (snd p) = (h, st')" by fastforce
  have p: "unat (channel_id (ev_header (fst p))) < kMaxNumChannels" "snd p < 2 ^ 32"
    using Cons.prems(3) by (auto simp: time_ok_def)
  obtain rt' where "Stream_ReceiveEvent rt h
        = ((if snd p < 0 then max 0 (last_timestamp_ms st ! unat (channel_id (ev_header (fst p)))) else snd p), rt')"
      "last_timestamp_ms rt' = last_timestamp_ms st'" "clocks_ok st'"
      "last_timestamp_ms st' = (last_timestamp_ms st)[unat (channel_id (ev_header (fst p))) :=
         (if snd p < 0 then max 0 (last_timestamp_ms st ! unat (channel_id (ev_header (fst p)))) else snd p)]"
    using send_receive_step[OF Cons.prems(1,2) p send] by blast
  then show ?case
    using Cons.IH[of st' rt'] Cons.prems(3) send by (simp add: Let_def)
qed simp

section \<open>Over a connection\<close>

lemma encode_chunks_state:
  "encode_chunks fuel h es num c = Some (c', bs)
     \<Longrightarrow> c' = (if num = 0 then remember_written c h (length es) else c)"
proof (induction fuel arbitrary: es num c c' bs)
  case (Suc fuel)
  obtain hb where hb: "Header_Encode c (word_of_nat (length es)) (num > 0) h = Some hb"
    using Suc.prems by (auto simp: Let_def split: option.splits)
  show ?case
  proof (cases "0 < write_chunk_size c")
    case True
    show ?thesis
      using Suc.prems
      by (subst (asm) encode_chunks_step[OF hb True refl refl refl])
         (auto split: if_splits option.splits dest!: Suc.IH)
  next
    case False
    then have "nat (min (int (length es)) (write_chunk_size c)) = 0" "\<not> 0 < min (int (length es)) (write_chunk_size c)"
      by auto
    then show ?thesis
      using Suc.prems hb
      by (auto simp: Let_def remember_written_def split: if_splits option.splits dest!: Suc.IH)
  qed
qed simp

lemma Coder_Encode_remembers:
  assumes "Coder_Encode w e = Some (w1, bs)" "chunk_size_fits (ev_body e)"
  shows "w1 = remember_written (write_size_before (ev_body e) w) (ev_header e) (body_length e)"
proof -
  obtain es where es: "EncodeBody (ev_body e) = Some es" "EncodeWithAuxBuffer w e es = Some (w1, bs)"
    using assms(1) by (auto simp: Coder_Encode_def split: option.splits)
  then have "encode_chunks (Suc (length es)) (ev_header e) es 0 (write_size_before (ev_body e) w) = Some (w1, bs)"
    using EncodeWithAuxBuffer_eq[OF assms(2), of w es] by (simp del: encode_chunks.simps)
  from encode_chunks_state[OF this] show ?thesis using es(1) by (simp add: body_length_def)
qed

text \<open>
  An event of one chunk can have any time.  One of several chunks arrives with the header of
  the last one, which is relative: it may not go back behind the event before it on the channel,
  and as the first one it must have a time of 24 bits.
\<close>

definition timely :: "coder \<Rightarrow> int \<Rightarrow> event \<times> int \<Rightarrow> bool" where
  "timely w last_t p \<longleftrightarrow> int (body_length (fst p)) \<le> write_chunk_size (write_size_before (ev_body (fst p)) w)
     \<or> (if last_t < 0 then snd p < 0xffffff else snd p < 0 \<or> last_t \<le> snd p)"

primrec timely_all :: "coder \<Rightarrow> int list \<Rightarrow> (event \<times> int) list \<Rightarrow> bool" where
  "timely_all w last_ts [] \<longleftrightarrow> True"
| "timely_all w last_ts (p # ps) \<longleftrightarrow>
     (let ch = unat (channel_id (ev_header (fst p)));
          t = (if snd p < 0 then max 0 (last_ts ! ch) else snd p)
      in timely w (last_ts ! ch) p \<and> timely_all (write_size_before (ev_body (fst p)) w) (last_ts[ch := t]) ps)"

text \<open>The header that arrives gives the time of the one that was sent.\<close>

lemma receive_delivered:
  assumes "is_timestamp_relative h \<Longrightarrow> stream_id (last_write_event_header w ! unat (channel_id h)) = stream_id h"
    and "int n \<le> write_chunk_size w \<or> is_timestamp_relative h
      \<or> last_timestamp_ms rt ! unat (channel_id h) < 0 \<and> timestamp_ms h < 0xffffff"
  shows "Stream_ReceiveEvent rt (delivered_header w h n) = Stream_ReceiveEvent rt h"
proof (cases "int n \<le> write_chunk_size w")
  case True
  then have "delivered_header w h n = h"
    using assms(1) by (cases h) (auto simp: delivered_header_def first_header_def relative_on_def)
  then show ?thesis by simp
next
  case False
  show ?thesis
  proof (cases "is_timestamp_relative h")
    case True
    then have "delivered_header w h n = h"
      using False by (cases h) (simp add: delivered_header_def continued_header_def)
    then show ?thesis by simp
  next
    case abs: False
    then have "last_timestamp_ms rt ! unat (channel_id h) < 0" "\<not> timestamp_ms h \<ge> 0xffffff"
      using False assms(2) by (auto simp: not_le)
    then show ?thesis
      using False abs by (simp add: delivered_header_def continued_header_def Stream_ReceiveEvent_def Let_def)
  qed
qed

lemma Stream_SendEvent_header:
  "Stream_SendEvent st h t = (h', st') \<Longrightarrow> h' = h\<lparr>timestamp_ms := timestamp_ms h',
     is_timestamp_relative := is_timestamp_relative h'\<rparr>"
  by (auto simp: Stream_SendEvent_def Let_def split: if_splits)

text \<open>When the header is relative, and what an absolute one has.\<close>

lemma Stream_SendEvent_relative:
  assumes "Stream_SendEvent st h t = (h', st')" "clocks_ok st" "unat (channel_id h) < kMaxNumChannels"
  defines "last_t \<equiv> last_timestamp_ms st ! unat (channel_id h)"
  shows "is_timestamp_relative h' \<longleftrightarrow> 0 \<le> last_t \<and> (t < 0 \<or> last_t \<le> t)"
    and "\<not> is_timestamp_relative h' \<Longrightarrow> t < 0xffffff \<Longrightarrow> timestamp_ms h' < 0xffffff"
proof -
  have "-1 \<le> last_t" using assms(2,3) by (auto simp: clocks_ok_def last_t_def)
  then show rel: "is_timestamp_relative h' \<longleftrightarrow> 0 \<le> last_t \<and> (t < 0 \<or> last_t \<le> t)"
    using assms(1) by (auto simp: Stream_SendEvent_def Let_def last_t_def[symmetric] split: if_splits)
  show "timestamp_ms h' < 0xffffff" if "\<not> is_timestamp_relative h'" "t < 0xffffff"
    using assms(1) that
    by (auto simp: Stream_SendEvent_def Let_def last_t_def[symmetric] word_less_def uint_word_of_int split: if_splits)
qed

text \<open>The sending stream, the writer and the receiving stream after some events.\<close>

definition stream_inv :: "(32 word \<Rightarrow> 32 word) \<Rightarrow> rtmp_stream \<Rightarrow> rtmp_stream \<Rightarrow> coder \<Rightarrow> bool" where
  "stream_inv sid st rt w \<longleftrightarrow> clocks_ok st \<and> last_timestamp_ms rt = last_timestamp_ms st
     \<and> length (last_write_event_header w) = kMaxNumChannels
     \<and> (\<forall>ch. unat ch < kMaxNumChannels \<longrightarrow> 0 \<le> last_timestamp_ms st ! unat ch
          \<longrightarrow> stream_id (last_write_event_header w ! unat ch) = sid ch)"

definition on_stream :: "(32 word \<Rightarrow> 32 word) \<Rightarrow> event \<times> int \<Rightarrow> bool" where
  "on_stream sid p \<longleftrightarrow> unat (channel_id (ev_header (fst p))) < kMaxNumChannels \<and> snd p < 2 ^ 32
     \<and> stream_id (ev_header (fst p)) = sid (channel_id (ev_header (fst p))) \<and> chunk_size_fits (ev_body (fst p))"

lemma stream_step:
  assumes inv: "stream_inv sid st rt w" and p: "on_stream sid p"
    and t: "timely w (last_timestamp_ms st ! unat (channel_id (ev_header (fst p)))) p"
    and send: "Stream_SendEvent st (ev_header (fst p)) (snd p) = (h, st')"
    and enc: "Coder_Encode w ((fst p)\<lparr>ev_header := h\<rparr>) = Some (w1, bs)"
  defines "i \<equiv> unat (channel_id (ev_header (fst p)))"
  defines "t' \<equiv> (if snd p < 0 then max 0 (last_timestamp_ms st ! i) else snd p)"
  shows "\<exists>rt'. Stream_ReceiveEvent rt (ev_header (delivered w ((fst p)\<lparr>ev_header := h\<rparr>))) = (t', rt')
    \<and> stream_inv sid st' rt' w1 \<and> last_timestamp_ms st' = (last_timestamp_ms st)[i := t']
    \<and> write_chunk_size w1 = write_chunk_size (write_size_before (ev_body (fst p)) w)"
proof -
  let ?w = "write_size_before (ev_body (fst p)) w" and ?n = "body_length (fst p)"
  have i: "i < kMaxNumChannels" using p by (simp add: on_stream_def i_def)
  have ok: "clocks_ok st" "last_timestamp_ms rt = last_timestamp_ms st" using inv by (simp_all add: stream_inv_def)
  have ch: "channel_id h = channel_id (ev_header (fst p))" "stream_id h = stream_id (ev_header (fst p))"
    by (subst Stream_SendEvent_header[OF send], simp)+
  note rel = Stream_SendEvent_relative[OF send ok(1) i[unfolded i_def], folded i_def]
  obtain rt' where rt': "Stream_ReceiveEvent rt h = (t', rt')" "last_timestamp_ms rt' = last_timestamp_ms st'" "clocks_ok st'"
      "last_timestamp_ms st' = (last_timestamp_ms st)[i := t']"
    using send_receive_step[OF ok i[unfolded i_def] _ send] p unfolding on_stream_def i_def t'_def by blast
  have "Stream_ReceiveEvent rt (delivered_header ?w h ?n) = Stream_ReceiveEvent rt h"
  proof (rule receive_delivered)
    assume "is_timestamp_relative h"
    then show "stream_id (last_write_event_header ?w ! unat (channel_id h)) = stream_id h"
      using rel(1) inv p i ch by (simp add: stream_inv_def on_stream_def i_def)
  next
    show "int ?n \<le> write_chunk_size ?w \<or> is_timestamp_relative h
        \<or> last_timestamp_ms rt ! unat (channel_id h) < 0 \<and> timestamp_ms h < 0xffffff"
      using t rel ok(2) ch(1) by (auto simp: timely_def i_def split: if_splits)
  qed
  then have recv: "Stream_ReceiveEvent rt (ev_header (delivered w ((fst p)\<lparr>ev_header := h\<rparr>))) = (t', rt')"
    using rt'(1) by (simp add: delivered_def body_length_def)
  have w1: "w1 = remember_written ?w h ?n"
    using Coder_Encode_remembers[OF enc] p by (simp add: on_stream_def body_length_def)
  have "stream_inv sid st' rt' w1"
    unfolding stream_inv_def
  proof (intro conjI allI impI)
    fix c :: "32 word"
    assume c: "unat c < kMaxNumChannels" "0 \<le> last_timestamp_ms st' ! unat c"
    show "stream_id (last_write_event_header w1 ! unat c) = sid c"
    proof (cases "unat c = i")
      case True
      then have "c = channel_id h" using ch(1) by (simp add: i_def word_unat_eq_iff)
      then show ?thesis using inv i p ch True by (simp add: w1 remember_written_def stream_inv_def on_stream_def)
    next
      case False
      then have "last_timestamp_ms st' ! unat c = last_timestamp_ms st ! unat c" by (simp add: rt'(4))
      then show ?thesis using inv c False ch(1) by (simp add: w1 remember_written_def stream_inv_def i_def)
    qed
  qed (use rt' inv in \<open>simp_all add: w1 remember_written_def stream_inv_def\<close>)
  then show ?thesis using recv rt'(4) by (simp add: w1 remember_written_def)
qed

lemma timely_all_size: "write_chunk_size v = write_chunk_size w \<Longrightarrow> timely_all v ts ps = timely_all w ts ps"
proof (induction ps arbitrary: v w ts)
  case (Cons p ps)
  have "write_chunk_size (write_size_before (ev_body (fst p)) v) = write_chunk_size (write_size_before (ev_body (fst p)) w)"
    using Cons.prems by (simp add: write_size_before_def split: event_body.splits)
  from Cons.IH[OF this] this show ?case by (simp add: Let_def timely_def)
qed simp

lemma receive_delivered_all:
  assumes "stream_inv sid st rt w" "\<forall>p \<in> set ps. on_stream sid p" "timely_all w (last_timestamp_ms st) ps"
    and "encode_all w (send_events st ps) = Some x"
  shows "receive_times rt (delivered_all w (send_events st ps)) = meant_times (last_timestamp_ms st) ps"
  using assms
proof (induction ps arbitrary: st rt w x)
  case (Cons p ps)
  let ?i = "unat (channel_id (ev_header (fst p)))"
  let ?t = "if snd p < 0 then max 0 (last_timestamp_ms st ! ?i) else snd p"
  obtain h st' where send: "Stream_SendEvent st (ev_header (fst p)) (snd p) = (h, st')" by fastforce
  obtain w1 bs y where enc: "Coder_Encode w ((fst p)\<lparr>ev_header := h\<rparr>) = Some (w1, bs)"
      "encode_all w1 (send_events st' ps) = Some y"
    using Cons.prems(4) send by auto
  have p: "on_stream sid p" "timely w (last_timestamp_ms st ! ?i) p"
      "timely_all (write_size_before (ev_body (fst p)) w) ((last_timestamp_ms st)[?i := ?t]) ps"
    using Cons.prems(2,3) by (simp_all add: Let_def)
  obtain rt' where r: "Stream_ReceiveEvent rt (ev_header (delivered w ((fst p)\<lparr>ev_header := h\<rparr>))) = (?t, rt')"
      "stream_inv sid st' rt' w1" "last_timestamp_ms st' = (last_timestamp_ms st)[?i := ?t]"
      "write_chunk_size w1 = write_chunk_size (write_size_before (ev_body (fst p)) w)"
    using stream_step[OF Cons.prems(1) p(1,2) send enc(1)] by blast
  have "timely_all w1 (last_timestamp_ms st') ps" using p(3) r(3) timely_all_size[OF r(4)] by simp
  then show ?case
    using Cons.IH[OF r(2) _ _ enc(2)] Cons.prems(2) send enc(1) r(1,3) by (simp add: Let_def)
qed simp

lemma send_events_all:
  assumes "\<And>p h. p \<in> set ps \<Longrightarrow> P (fst p) \<Longrightarrow>
      P ((fst p)\<lparr>ev_header := (ev_header (fst p))\<lparr>timestamp_ms := fst h, is_timestamp_relative := snd h\<rparr>\<rparr>)"
    and "\<And>p. p \<in> set ps \<Longrightarrow> P (fst p)"
  shows "e \<in> set (send_events st ps) \<Longrightarrow> P e"
  using assms
proof (induction ps arbitrary: st)
  case (Cons p ps)
  obtain h st' where send: "Stream_SendEvent st (ev_header (fst p)) (snd p) = (h, st')" by fastforce
  have "P ((fst p)\<lparr>ev_header := h\<rparr>)"
    using Cons.prems(2)[of p "(timestamp_ms h, is_timestamp_relative h)"] Cons.prems(3)[of p]
      Stream_SendEvent_header[OF send] by simp
  then show ?case using Cons send by auto
qed simp

lemma length_send_events [simp]: "length (send_events st ps) = length ps"
  by (induction ps arbitrary: st) (auto simp: split_beta)

lemma sendable_stamp [simp]:
  "sendable (e\<lparr>ev_header := (ev_header e)\<lparr>timestamp_ms := t, is_timestamp_relative := b\<rparr>\<rparr>) = sendable e"
  by (simp add: sendable_def event_ok_def)

lemma body_length_stamp [simp]: "body_length (e\<lparr>ev_header := h\<rparr>) = body_length e"
  by (simp add: body_length_def)

lemma map_body_send_events: "map ev_body (send_events st ps) = map (ev_body \<circ> fst) ps"
  by (induction ps arbitrary: st) (auto simp: split_beta)

section \<open>Properties\<close>

text \<open>
  C17. The times of a stream survive a connection: events sent on new streams, on any channels,
  each channel for one stream id, with times below \<^verbatim>\<open>2^32\<close> ms (in any order, with or
  without times of their own), are written by \<^verbatim>\<open>Coder::Encode\<close>, read by
  \<^verbatim>\<open>Coder::Decode\<close>, and the receiving streams give every event the time it was sent with.
  An event of several chunks may not go back behind the one before it on its channel, nor start
  the channel with a time of more than 24 bits (\<open>timely\<close>): it would arrive with another time
  (\<open>multi_chunk_absolute_header\<close>).
\<close>

theorem stream_times:
  assumes "synced w r" "4 \<le> length s"
    and "\<And>p. p \<in> set ps \<Longrightarrow> sendable (fst p) \<and> snd p < 2 ^ 32
        \<and> stream_id (ev_header (fst p)) = sid (channel_id (ev_header (fst p)))
        \<and> body_length (fst p) < 2 ^ 24 \<and> memory_used r + int (body_length (fst p)) \<le> memory_limit r"
    and "timely_all w (replicate kMaxNumChannels (-1)) ps"
  shows "\<exists>w' bs es r'. encode_all w (send_events Stream_new ps) = Some (w', bs)
    \<and> decode_n (length ps) r (bs @ s) = Some (es, r', s)
    \<and> map ev_body es = map (ev_body \<circ> fst) ps
    \<and> receive_times Stream_new es = meant_times (replicate kMaxNumChannels (-1)) ps"
proof -
  let ?es = "send_events Stream_new ps"
  have each: "sendable e \<and> body_length e < 2 ^ 24 \<and> memory_used r + int (body_length e) \<le> memory_limit r"
    if "e \<in> set ?es" for e
    by (rule send_events_all[OF _ _ that]) (use assms(3) in auto)
  obtain w' bs r' where 1: "encode_all w ?es = Some (w', bs)"
      "decode_n (length ps) r (bs @ s) = Some (delivered_all w ?es, r', s)"
    using conversation_roundtrip[OF assms(1,2), of ?es] each by auto
  have "map ev_body (delivered_all v es) = map ev_body es" for v es
    by (induction es arbitrary: v) (simp_all add: delivered_def)
  moreover have "receive_times Stream_new (delivered_all w ?es) = meant_times (last_timestamp_ms Stream_new) ps"
  proof (rule receive_delivered_all[where sid = sid])
    show "stream_inv sid Stream_new Stream_new w"
      using assms(1) by (auto simp: stream_inv_def clocks_ok_def Stream_new_def synced_def coder_ok_def channels_ok_def)
    show "\<forall>p \<in> set ps. on_stream sid p" using assms(3) by (auto simp: on_stream_def sendable_def)
  qed (use 1 assms(4) in \<open>simp_all add: Stream_new_def\<close>)
  ultimately show ?thesis
    using 1 map_body_send_events[of Stream_new ps] by (auto simp: Stream_new_def)
qed

definition sample_audio :: "byte \<Rightarrow> event" where
  "sample_audio b = \<lparr>ev_header = \<lparr>channel_id = 6, stream_id = 1, h_event_type = EVENT_AUDIO_DATA,
     timestamp_ms = 0, is_timestamp_relative = False\<rparr>, ev_body = EventAudioData [b]\<rparr>"

definition sample_video_event :: event where
  "sample_video_event = \<lparr>ev_header = \<lparr>channel_id = 7, stream_id = 1, h_event_type = EVENT_VIDEO_DATA,
     timestamp_ms = 0, is_timestamp_relative = False\<rparr>, ev_body = EventVideoData (replicate 200 7)\<rparr>"

text \<open>Two channels and an event of two chunks behind an earlier one.\<close>

definition sample_times :: "(event \<times> int) list" where
  "sample_times = [(sample_audio 1, 500), (sample_video_event, 480), (sample_audio 2, 540), (sample_audio 3, -1),
     (sample_video_event, 520), (sample_audio 4, 20)]"

lemma stream_times_witness:
  "\<exists>w' bs es r'. encode_all fresh_coder (send_events Stream_new sample_times) = Some (w', bs)
    \<and> decode_n (length sample_times) fresh_coder (bs @ [0, 0, 0, 0]) = Some (es, r', [0, 0, 0, 0])
    \<and> map ev_body es = map (ev_body \<circ> fst) sample_times
    \<and> receive_times Stream_new es = meant_times (replicate kMaxNumChannels (-1)) sample_times"
proof (rule stream_times[where sid = "\<lambda>_. 1", OF fresh_coder_synced])
  show "timely_all fresh_coder (replicate kMaxNumChannels (-1)) sample_times"
    by (simp add: sample_times_def sample_audio_def sample_video_event_def timely_def body_length_def kMaxNumChannels_def
        write_size_before_def fresh_coder_def Coder_new_def kDefaultWriteChunkSize_def nth_list_update Let_def)
qed (auto simp: sample_times_def sample_audio_def sample_video_event_def sendable_def event_ok_def body_length_def
    chunk_size_fits_def kMaxNumChannels_def kInvalidStreamId_def fresh_coder_def Coder_new_def)

end
