(* ===== verification/FlvCoder.thy ===== *)
theory FlvCoder
  imports FlvTag
begin

text \<open>
  Reading and writing FLV streams: \<^verbatim>\<open>FlvCoder\<close> (\<^verbatim>\<open>flv_coder.cc\<close>), \<^verbatim>\<open>FlvHeader\<close> and
  \<^verbatim>\<open>FlvTagSerializer\<close> (\<^verbatim>\<open>flv_tag.{h,cc}\<close>).  A reader gets the content of the stream and
  returns its results with the rest; a writer returns the bytes it appends.
\<close>

section \<open>The file header\<close>

record flv_header =
  hd_unknown :: "32 word"
  hd_version :: byte
  audio_video_flags :: byte
  data_offset :: "32 word"

definition has_audio :: "flv_header \<Rightarrow> bool" where
  "has_audio h \<longleftrightarrow> audio_video_flags h AND 0x04 \<noteq> 0"

definition has_video :: "flv_header \<Rightarrow> bool" where
  "has_video h \<longleftrightarrow> audio_video_flags h AND 0x01 \<noteq> 0"

definition FlvHeader_Write :: "flv_header \<Rightarrow> bytes" where
  "FlvHeader_Write h = WriteUInt24BE (hd_unknown h) @ [hd_version h] @ [audio_video_flags h]
     @ WriteBE (data_offset h)"

definition StandardHeader :: "bool \<Rightarrow> bool \<Rightarrow> flv_header" where
  "StandardHeader video audio =
     \<lparr>hd_unknown = 0x464c56, hd_version = 0x01,
      audio_video_flags = (if audio then 0x04 else 0x00) OR (if video then 0x01 else 0x00),
      data_offset = 0x09\<rparr>"

definition AppendStandardHeader :: "bool \<Rightarrow> bool \<Rightarrow> bytes" where
  "AppendStandardHeader video audio = FlvHeader_Write (StandardHeader video audio)"

text \<open>\<^verbatim>\<open>s.find(pat)\<close>.\<close>

fun find_bytes :: "bytes \<Rightarrow> bytes \<Rightarrow> nat option" where
  "find_bytes pat [] = (if pat = [] then Some 0 else None)"
| "find_bytes pat (b # s) =
     (if take (length pat) (b # s) = pat then Some 0 else map_option Suc (find_bytes pat s))"

text \<open>
  \<open>search\<close> is the flag \<^verbatim>\<open>flv_coder_search_for_head\<close>, \<open>cb\<close> what \<^verbatim>\<open>*cb\<close> holds on entry.
\<close>

definition DecodeHeader_at :: "bytes \<Rightarrow> ((tag_read_status \<times> flv_header option \<times> int) \<times> bytes) option" where
  "DecodeHeader_at s =
     (if length s < kFlvHeaderSize then Some ((TAG_NO_DATA, None, 0), s)
      else do {
        (unknown, s1) \<leftarrow> ReadUInt24BE s;
        (version, s2) \<leftarrow> ReadByte s1;
        (flags, s3) \<leftarrow> ReadByte s2;
        (off, s4) \<leftarrow> ReadBE s3;
        Some ((TAG_OK, Some \<lparr>hd_unknown = unknown, hd_version = version, audio_video_flags = flags,
                 data_offset = off\<rparr>, int kFlvHeaderSize), s4) })"

definition FlvCoder_DecodeHeader ::
    "int \<Rightarrow> int \<Rightarrow> bytes \<Rightarrow> ((tag_read_status \<times> flv_header option \<times> int) \<times> bytes) option" where
  "FlvCoder_DecodeHeader search cb s =
     (if search > 0 then
        if int (length s) < search then Some ((TAG_NO_DATA, None, cb), s)
        else case find_bytes (bytes_of ''FLV'') (take (nat search) s) of
               None \<Rightarrow> Some ((TAG_CORRUPTED, None, cb), s)
             | Some pos \<Rightarrow> DecodeHeader_at (drop pos s)
      else DecodeHeader_at s)"

section \<open>Reading a tag\<close>

text \<open>
  \<open>max_size\<close> is the flag \<^verbatim>\<open>flv_max_tag_size\<close>, converted for the comparison.  The status of the
  body's decoder is dropped, as in the code.
\<close>

definition DecodeTag_body ::
    "byte \<Rightarrow> 32 word \<Rightarrow> bytes \<Rightarrow> ((tag_read_status \<times> flv_tag option \<times> int) \<times> bytes) option" where
  "DecodeTag_body type body_size s = do {
     (timestamp_low, s1) \<leftarrow> ReadUInt24BE s;
     (timestamp_hi, s2) \<leftarrow> ReadByte s1;
     let timestamp = timestamp_low OR push_bit 24 (ucast timestamp_hi);
     (stream_id, s3) \<leftarrow> ReadUInt24BE s2;
     new \<leftarrow> FlvBody_new type;
     ((_, body), s4) \<leftarrow> flv_body_Decode new s3 (unat body_size);
     tag \<leftarrow> LearnAttributes
       \<lparr>attributes = 0, tag_timestamp_ms = int (unat timestamp), tag_stream_id = stream_id, tag_body = body\<rparr>;
     Some ((TAG_OK, Some tag, int kFlvTagHeaderSize + int (unat body_size)), s4) }"

definition FlvCoder_DecodeTag ::
    "32 word \<Rightarrow> bytes \<Rightarrow> ((tag_read_status \<times> flv_tag option \<times> int) \<times> bytes) option" where
  "FlvCoder_DecodeTag max_size s =
     (if length s < kFlvTagHeaderSize then Some ((TAG_NO_DATA, None, 0), s)
      else do {
        (type, s2) \<leftarrow> ReadByte (drop 4 s);
        (body_size, s3) \<leftarrow> ReadUInt24BE s2;
        (if body_size > max_size then Some ((TAG_CORRUPTED, None, 0), s)
         else if length s3 < unat (body_size + 7) then Some ((TAG_NO_DATA, None, 0), s)
         else if type \<noteq> FLV_FRAMETYPE_VIDEO \<and> type \<noteq> FLV_FRAMETYPE_AUDIO \<and> type \<noteq> FLV_FRAMETYPE_METADATA
         then Some ((TAG_SKIP, None, 0), drop (unat (7 + body_size)) s3)
         else if (type = FLV_FRAMETYPE_AUDIO \<or> type = FLV_FRAMETYPE_VIDEO) \<and> body_size = 0
         then Some ((TAG_CORRUPTED, None, 0), s)
         else DecodeTag_body type body_size s3) })"

section \<open>Writing tags\<close>

record flv_serializer =
  write_header :: bool
  fs_has_video :: bool
  fs_has_audio :: bool
  previous_tag_size :: "32 word"
  last_timestamp_ms :: "32 word"

definition FlvTagSerializer_new :: "bool \<Rightarrow> bool \<Rightarrow> bool \<Rightarrow> flv_serializer" where
  "FlvTagSerializer_new header video audio =
     \<lparr>write_header = header, fs_has_video = video, fs_has_audio = audio,
      previous_tag_size = 0, last_timestamp_ms = 0\<rparr>"

definition Serializer_Initialize :: "flv_serializer \<Rightarrow> bytes \<times> flv_serializer" where
  "Serializer_Initialize z =
     (if write_header z then AppendStandardHeader (fs_has_video z) (fs_has_audio z) else [],
      z\<lparr>previous_tag_size := 0, last_timestamp_ms := 0\<rparr>)"

text \<open>
  The tags given to a serializer: those of FLV, a \<^verbatim>\<open>MediaInfoTag\<close>, and any other with its
  attributes and its \<^verbatim>\<open>Data()\<close> (\<open>None\<close> for NULL).
\<close>

datatype 'i any_tag =
    TagFlv flv_tag
  | TagMediaInfo 'i
  | TagOther "32 word" "bytes option"
  | TagComposed "32 word"

definition FlvTag_Data :: "flv_tag \<Rightarrow> bytes option" where
  "FlvTag_Data t = (case tag_body t of
     FlvAudio a \<Rightarrow> Some (au_data a) | FlvVideo v _ \<Rightarrow> Some (vi_data v) | _ \<Rightarrow> None)"

definition has_attribute :: "32 word \<Rightarrow> 32 word \<Rightarrow> bool" where
  "has_attribute attrs attr \<longleftrightarrow> attrs AND attr = attr"

text \<open>The fields of a tag around its body; the size in them is the sum of both.\<close>

definition write_tag :: "byte \<Rightarrow> 32 word \<Rightarrow> int \<Rightarrow> bytes \<Rightarrow> flv_serializer \<Rightarrow> bytes \<times> flv_serializer" where
  "write_tag type sz timestamp_ms body z =
     (let tag = [type] @ WriteUInt24BE sz @ WriteUInt24BE (word_of_int timestamp_ms AND 0xFFFFFF)
                @ [word_of_int (drop_bit 24 timestamp_ms AND 0xFF)] @ WriteUInt24BE 0 @ body
      in (WriteBE (previous_tag_size z) @ tag, z\<lparr>previous_tag_size := word_of_nat (length tag)\<rparr>))"

text \<open>
  \<^verbatim>\<open>SerializeInternal\<close> past the branch of \<^verbatim>\<open>MediaInfoTag\<close>: the attributes, \<^verbatim>\<open>Data()\<close>, and the
  tag when its type is \<^verbatim>\<open>TYPE_FLV\<close>.  \<open>None\<close> is a failed \<^verbatim>\<open>CHECK\<close>.
\<close>

definition serialize_media ::
    "32 word \<Rightarrow> bytes option \<Rightarrow> flv_tag option \<Rightarrow> int \<Rightarrow> flv_serializer \<Rightarrow> ((bool \<times> bytes) \<times> flv_serializer) option" where
  "serialize_media attrs data flv timestamp_ms z =
     (if has_attribute attrs ATTR_AUDIO \<or> has_attribute attrs ATTR_VIDEO then do {
        bs \<leftarrow> data;
        let (out, z') = write_tag (if has_attribute attrs ATTR_AUDIO then FLV_FRAMETYPE_AUDIO else FLV_FRAMETYPE_VIDEO)
                          (word_of_nat (length bs)) timestamp_ms bs z;
        Some ((True, out), z') }
      else if has_attribute attrs ATTR_METADATA then
        (case flv of
           None \<Rightarrow> Some ((True, []), z)
         | Some t \<Rightarrow> do {
             bs \<leftarrow> flv_body_Encode (tag_body t);
             let (out, z') = write_tag FLV_FRAMETYPE_METADATA (flv_body_Size (tag_body t)) timestamp_ms bs z;
             Some ((True, out), z') })
      else Some ((True, []), z))"

definition serialize_flv :: "flv_tag \<Rightarrow> int \<Rightarrow> flv_serializer \<Rightarrow> ((bool \<times> bytes) \<times> flv_serializer) option" where
  "serialize_flv t = serialize_media (attributes t) (FlvTag_Data t) (Some t)"

text \<open>\<open>compose\<close> stands for \<^verbatim>\<open>streaming::util::ComposeFlv\<close>.\<close>

definition SerializeInternal ::
    "('i \<Rightarrow> flv_tag option) \<Rightarrow> 'i any_tag \<Rightarrow> int \<Rightarrow> flv_serializer \<Rightarrow> ((bool \<times> bytes) \<times> flv_serializer) option" where
  "SerializeInternal compose tag timestamp_ms z =
     (if timestamp_ms < 0 then None
      else case tag of
        TagMediaInfo info \<Rightarrow>
          (case compose info of
             None \<Rightarrow> Some ((False, []), z)
           | Some meta \<Rightarrow> serialize_flv meta timestamp_ms z)
      | TagFlv t \<Rightarrow> serialize_flv t timestamp_ms z
      | TagOther attrs data \<Rightarrow> serialize_media attrs data None timestamp_ms z
      | TagComposed attrs \<Rightarrow> serialize_media attrs None None timestamp_ms z)"

text \<open>\<^verbatim>\<open>TagSerializer::Serialize\<close>.\<close>

definition Serialize ::
    "('i \<Rightarrow> flv_tag option) \<Rightarrow> 'i any_tag \<Rightarrow> int \<Rightarrow> flv_serializer \<Rightarrow> ((bool \<times> bytes) \<times> flv_serializer) option" where
  "Serialize compose tag timestamp_ms z = (case tag of
     TagComposed _ \<Rightarrow> Some ((False, []), z)
   | _ \<Rightarrow> SerializeInternal compose tag timestamp_ms z)"

definition FlvTag_EncodingSize :: "flv_tag \<Rightarrow> 32 word" where
  "FlvTag_EncodingSize t = 4 + 1 + 3 + 3 + 1 + 3 + flv_body_Size (tag_body t)"

section \<open>Video data\<close>

definition codec_skip_size :: "byte \<Rightarrow> nat option" where
  "codec_skip_size codec =
     (if codec = FLV_FLAG_VIDEO_CODEC_H263 then Some 1
      else if codec = FLV_FLAG_VIDEO_CODEC_VP6 \<or> codec = FLV_FLAG_VIDEO_CODEC_VP6_WITH_ALPHA then Some 2
      else if codec = FLV_FLAG_VIDEO_CODEC_AVC then Some 5
      else None)"

text \<open>The success and the bytes appended.\<close>

definition ExtractVideoCodecData :: "flv_tag \<Rightarrow> bool \<times> bytes" where
  "ExtractVideoCodecData t = (case tag_body t of
     FlvVideo v _ \<Rightarrow>
       (case codec_skip_size (vi_codec v) of
          None \<Rightarrow> (False, [])
        | Some skip \<Rightarrow>
            if length (vi_data v) < skip then (False, []) else (True, drop skip (vi_data v)))
   | _ \<Rightarrow> (False, []))"

text \<open>\<^verbatim>\<open>TransformNaluFromPacketToStream\<close>: the loop of each path, then the function.\<close>

function nalu_loop :: "bytes \<Rightarrow> (bool \<times> bytes) option" where
  "nalu_loop s =
     (if length s \<le> 4 then Some (True, [])
      else case ReadBE s of
        None \<Rightarrow> None
      | Some (crt_size :: 32 word, s1) \<Rightarrow>
          if unat crt_size \<le> length s1 then
            map_option (\<lambda>(ok, out). (ok, WriteBE (0x00000001 :: 32 word) @ take (unat crt_size) s1 @ out))
              (nalu_loop (drop (unat crt_size) s1))
          else Some (False, []))"
  by auto
termination
  by (relation "measure length") (auto simp: ReadBE_eq split: if_splits)

declare nalu_loop.simps [simp del]

fun pps_loop :: "nat \<Rightarrow> bytes \<Rightarrow> (bool \<times> bytes) option" where
  "pps_loop 0 s = Some (True, [])"
| "pps_loop (Suc n) s =
     (if length s < 2 then Some (False, [])
      else do {
        (pps_size :: 16 word, s1) \<leftarrow> ReadBE s;
        let sz = WriteBE (ucast pps_size :: 32 word);
        (if length s1 < unat pps_size then Some (False, sz)
         else map_option (\<lambda>(ok, out). (ok, sz @ take (unat pps_size) s1 @ out))
                (pps_loop n (drop (unat pps_size) s1))) })"

definition avc_header_to_stream :: "bytes \<Rightarrow> (bool \<times> bytes) option" where
  "avc_header_to_stream s =
     (let start = WriteBE (0x00000001 :: 32 word) in
      if length s < 8 then Some (False, start)
      else do {
        (sps_size :: 16 word, s1) \<leftarrow> ReadBE (drop 6 s);
        let start = start @ WriteBE (ucast sps_size :: 32 word);
        (if length s1 < unat sps_size then Some (False, start)
         else
           let out = start @ take (unat sps_size) s1; s2 = drop (unat sps_size) s1 in
           if length s2 < 1 then Some (False, out)
           else do {
             (num_pps, s3) \<leftarrow> ReadByte s2;
             map_option (\<lambda>(ok, o'). (ok, out @ o')) (pps_loop (unat num_pps) s3) }) })"

definition TransformNaluFromPacketToStream :: "bytes \<Rightarrow> byte \<Rightarrow> (bool \<times> bytes) option" where
  "TransformNaluFromPacketToStream s avc_type =
     (if avc_type = AVC_END_OF_SEQUENCE then Some (True, [])
      else if avc_type = AVC_NALU then nalu_loop s
      else if avc_type = AVC_SEQUENCE_HEADER then avc_header_to_stream s
      else None)"

end
