(* ===== verification/FlvLaws.thy ===== *)
theory FlvLaws
  imports FlvCoder
begin

text \<open>
  What the FLV reader does with arbitrary bytes, that it reads back what the serializer
  writes, and what the transformations of video data compute.
\<close>

section \<open>Reading arbitrary bytes\<close>

lemma Video_flags_total: "\<exists>st v'. DecodeVideoFlags v = Some (st, v') \<and> vi_data v' = vi_data v"
proof (cases "vi_data v")
  case (Cons b s)
  show ?thesis
  proof (cases "length s < 4")
    case False
    then obtain p t where s: "s = p # t" by (cases s) auto
    then have "ReadUInt24BE t = Some (word_of_nat (be_value (take 3 t)), drop 3 t)"
      using False by (simp add: ReadUInt24BE_eq)
    then show ?thesis using Cons s by (auto simp: DecodeVideoFlags_def Let_def ReadByte_Cons)
  qed (use Cons in \<open>auto simp: DecodeVideoFlags_def Let_def ReadByte_Cons\<close>)
qed (simp add: DecodeVideoFlags_def)

lemma Audio_flags_data: "au_data (snd (DecodeAudioFlags a)) = au_data a"
  by (simp add: DecodeAudioFlags_def Let_def split: list.split)

lemma DecodeAuxiliaryMoovTag_total: "\<exists>m. DecodeAuxiliaryMoovTag attrs t v = Some m"
proof -
  have "\<exists>p. Video_Decode w s n = Some p" for w s n
    using Video_flags_total[of "w\<lparr>vi_data := take n s\<rparr>"] by (auto simp: Video_Decode_def)
  then show ?thesis
    unfolding DecodeAuxiliaryMoovTag_def by (auto split: option.split prod.split)
      (metis option.distinct(1))
qed

text \<open>The body with another moov tag, which is all that \<open>LearnAttributes\<close> changes in it.\<close>

fun with_moov :: "flv_body \<Rightarrow> flv_moov option \<Rightarrow> flv_body" where
  "with_moov (FlvVideo v _) m = FlvVideo v m"
| "with_moov b _ = b"

lemma LearnAttributes_total:
  "\<exists>a m. LearnAttributes t = Some (t\<lparr>attributes := a, tag_body := with_moov (tag_body t) m\<rparr>)"
proof (cases t)
  case (fields attrs time stream body)
  show ?thesis
  proof (cases body)
    case (FlvVideo v m)
    let ?a1 = "attrs OR ATTR_VIDEO"
    let ?a2 = "if vi_frame_type v = FLV_FLAG_VIDEO_FRAMETYPE_KEYFRAME then ?a1 OR ATTR_CAN_RESYNC else ?a1"
    obtain m' where "DecodeAuxiliaryMoovTag ?a2 time v = Some m'"
      using DecodeAuxiliaryMoovTag_total by blast
    then have "LearnAttributes t = (if vi_codec v = FLV_FLAG_VIDEO_CODEC_AVC
        then Some (t\<lparr>attributes := if avc_packet_type v \<noteq> AVC_SEQUENCE_HEADER then ?a2 OR ATTR_DROPPABLE else ?a2,
                     tag_body := with_moov body m'\<rparr>)
        else Some (t\<lparr>attributes := ?a2 OR ATTR_DROPPABLE, tag_body := with_moov body m\<rparr>))"
      using FlvVideo fields by (simp add: LearnAttributes_def Let_def)
    then show ?thesis using fields by (metis flv_tag.select_convs(4))
  qed (use fields in \<open>auto simp: LearnAttributes_def Let_def\<close>)
qed

definition body_data :: "flv_body \<Rightarrow> bytes option" where
  "body_data b = (case b of FlvAudio a \<Rightarrow> Some (au_data a) | FlvVideo v _ \<Rightarrow> Some (vi_data v) | _ \<Rightarrow> None)"

lemma body_data_with_moov [simp]:
  "body_data (with_moov b m) = body_data b" "flv_body_type (with_moov b m) = flv_body_type b"
  by (cases b; simp add: body_data_def)+

lemma FlvTag_Data_body: "FlvTag_Data t = body_data (tag_body t)"
  by (simp add: FlvTag_Data_def body_data_def)

lemma CMixedMap_Decode_mixed:
  assumes "CMixedMap_Decode rd n s = Some (Inr x, s')"
  shows "\<exists>u d. x = CMixedMap u d"
  using assms
  by (auto simp: CMixedMap_Decode_def rd_bind_def rd_ok_def rd_err_def split: option.splits sum.splits if_splits)

lemma Metadata_Decode_total:
  "\<exists>st b s'. Metadata_Decode s = Some ((st, b), s') \<and> length s' \<le> length s
     \<and> flv_body_type b = FLV_FRAMETYPE_METADATA \<and> (st \<noteq> TAG_OK \<longrightarrow> s' = s)"
  using Amf0_ReadString_post[of s]
proof (cases rule: rd_postE)
  case (ok name s1)
  have "rd_post (CMixedMap_Decode (ReadNextObject_fuel (length s1)) (length s1)) s1 5 obj_ok"
    by (rule CMixedMap_Decode_post[where N = "length s1"]) (auto intro: ReadNextObject_fuel_post[unfolded One_nat_def])
  then show ?thesis
  proof (cases rule: rd_postE)
    case err
    then show ?thesis using ok by (auto simp: Metadata_Decode_def CMixedMap_Decode_top_def)
  next
    case ok': (ok x s2)
    obtain u d where "x = CMixedMap u d"
      using CMixedMap_Decode_mixed[OF ok'(1)] by blast
    then show ?thesis using ok ok' by (auto simp: Metadata_Decode_def CMixedMap_Decode_top_def)
  qed
qed (auto simp: Metadata_Decode_def)

lemma flv_body_Decode_total:
  assumes "FlvBody_new type = Some new" "n \<le> length s"
  shows "\<exists>st b s'. flv_body_Decode new s n = Some ((st, b), s') \<and> flv_body_type b = type
    \<and> length s' \<le> length s
    \<and> (type \<noteq> FLV_FRAMETYPE_METADATA \<longrightarrow> s' = drop n s \<and> body_data b = Some (take n s))
    \<and> (type = FLV_FRAMETYPE_METADATA \<longrightarrow> Metadata_Decode s = Some ((st, b), s'))"
proof -
  consider "type = FLV_FRAMETYPE_AUDIO" "new = FlvAudio Audio_new"
    | "type = FLV_FRAMETYPE_VIDEO" "new = FlvVideo Video_new None"
    | "type = FLV_FRAMETYPE_METADATA" "new = FlvMetadata [] 0 []"
    using assms(1) by (auto simp: FlvBody_new_def split: if_splits)
  then show ?thesis
  proof cases
    case 1
    then show ?thesis
      using assms(2) Audio_flags_data[of "Audio_new\<lparr>au_data := take n s\<rparr>"]
      by (auto simp: flv_body_Decode_def Audio_Decode_def body_data_def flv_frametypes split: prod.split)
  next
    case 2
    obtain st v where "DecodeVideoFlags (Video_new\<lparr>vi_data := take n s\<rparr>) = Some (st, v)" "vi_data v = take n s"
      using Video_flags_total[of "Video_new\<lparr>vi_data := take n s\<rparr>"] by auto
    then show ?thesis
      using 2 assms(2) by (auto simp: flv_body_Decode_def Video_Decode_def body_data_def flv_frametypes)
  next
    case 3
    then show ?thesis
      using Metadata_Decode_total[of s] by (auto simp: flv_body_Decode_def)
  qed
qed

text \<open>The size field of the tag at the head of a stream, and its type.\<close>

definition tag_size_field :: "bytes \<Rightarrow> nat" where
  "tag_size_field s = be_value (take 3 (drop 5 s))"

lemma tag_size_field_less: "tag_size_field s < 2 ^ 24"
proof -
  have "tag_size_field s < 256 ^ length (take 3 (drop 5 s))"
    unfolding tag_size_field_def by (rule be_value_less)
  also have "\<dots> \<le> 256 ^ 3" by (rule power_increasing) auto
  finally show ?thesis by simp
qed

definition tag_type_ok :: "byte \<Rightarrow> bool" where
  "tag_type_ok type \<longleftrightarrow> (\<exists>new. FlvBody_new type = Some new)"

lemma tag_type_ok_iff:
  "tag_type_ok type \<longleftrightarrow> \<not> (type \<noteq> FLV_FRAMETYPE_VIDEO \<and> type \<noteq> FLV_FRAMETYPE_AUDIO \<and> type \<noteq> FLV_FRAMETYPE_METADATA)"
  by (auto simp: tag_type_ok_def FlvBody_new_def)

text \<open>The time in the fields at the head of \<open>s\<close>.\<close>

definition tag_time_field :: "bytes \<Rightarrow> int" where
  "tag_time_field s = int (unat (word_of_nat (be_value (take 3 (drop 8 s))) OR push_bit 24 (ucast (s ! 11)) :: 32 word))"

lemma DecodeTag_body_total:
  assumes "15 \<le> length s" "tag_type_ok (s ! 4)" "15 + unat n \<le> length s"
  shows "\<exists>t s'. DecodeTag_body (s ! 4) n (drop 8 s) = Some ((TAG_OK, Some t, int kFlvTagHeaderSize + int (unat n)), s')
    \<and> flv_body_type (tag_body t) = s ! 4 \<and> tag_timestamp_ms t = tag_time_field s
    \<and> length s' + 15 \<le> length s
    \<and> (s ! 4 \<noteq> FLV_FRAMETYPE_METADATA \<longrightarrow> s' = drop (15 + unat n) s \<and> FlvTag_Data t = Some (take (unat n) (drop 15 s)))
    \<and> (s ! 4 = FLV_FRAMETYPE_METADATA \<longrightarrow> (\<exists>st. Metadata_Decode (drop 15 s) = Some ((st, tag_body t), s')))"
proof -
  obtain new where new: "FlvBody_new (s ! 4) = Some new" using assms(2) by (auto simp: tag_type_ok_def)
  have hi: "drop 11 s = s ! 11 # drop 12 s" using Cons_nth_drop_Suc[of 11 s] assms(1) by simp
  have le: "unat n \<le> length (drop 15 s)" using assms(3) by simp
  obtain st b s' where b: "flv_body_Decode new (drop 15 s) (unat n) = Some ((st, b), s')"
    "flv_body_type b = s ! 4" "length s' \<le> length (drop 15 s)"
    "s ! 4 \<noteq> FLV_FRAMETYPE_METADATA \<longrightarrow> s' = drop (unat n) (drop 15 s) \<and> body_data b = Some (take (unat n) (drop 15 s))"
    "s ! 4 = FLV_FRAMETYPE_METADATA \<longrightarrow> Metadata_Decode (drop 15 s) = Some ((st, b), s')"
    using flv_body_Decode_total[OF new le] by blast
  obtain a m where "LearnAttributes \<lparr>attributes = 0, tag_timestamp_ms = tag_time_field s,
      tag_stream_id = word_of_nat (be_value (take 3 (drop 12 s))), tag_body = b\<rparr>
    = Some \<lparr>attributes = a, tag_timestamp_ms = tag_time_field s,
      tag_stream_id = word_of_nat (be_value (take 3 (drop 12 s))), tag_body = with_moov b m\<rparr>"
    using LearnAttributes_total[of "\<lparr>attributes = 0, tag_timestamp_ms = tag_time_field s,
      tag_stream_id = word_of_nat (be_value (take 3 (drop 12 s))), tag_body = b\<rparr>"] by auto
  moreover have "with_moov b m = b" if "flv_body_type b = FLV_FRAMETYPE_METADATA"
    using that by (cases b) (simp_all add: flv_frametypes)
  ultimately show ?thesis
    using b assms(1) new hi
    by (auto simp: DecodeTag_body_def ReadUInt24BE_eq ReadByte_Cons Let_def tag_time_field_def
        FlvTag_Data_body add.commute)
qed

lemma DecodeTag_unfold:
  assumes "15 \<le> length s"
  shows "FlvCoder_DecodeTag mx s =
    (let n = tag_size_field s in
     if n > unat mx then Some ((TAG_CORRUPTED, None, 0), s)
     else if length s < 15 + n then Some ((TAG_NO_DATA, None, 0), s)
     else if \<not> tag_type_ok (s ! 4) then Some ((TAG_SKIP, None, 0), drop (15 + n) s)
     else if s ! 4 \<noteq> FLV_FRAMETYPE_METADATA \<and> n = 0 then Some ((TAG_CORRUPTED, None, 0), s)
     else DecodeTag_body (s ! 4) (word_of_nat n) (drop 8 s))"
proof -
  let ?n = "tag_size_field s" and ?w = "word_of_nat (tag_size_field s) :: 32 word"
  have hd4: "drop 4 s = s ! 4 # drop 5 s" using Cons_nth_drop_Suc[of 4 s] assms by simp
  have w: "unat ?w = ?n" "unat (?w + 7) = ?n + 7" "unat (7 + ?w) = ?n + 7"
    using tag_size_field_less[of s] by (simp_all add: unat_of_nat unat_word_ariths take_bit_eq_mod)
  have "?w > mx \<longleftrightarrow> ?n > unat mx" "?w = 0 \<longleftrightarrow> ?n = 0"
    using w(1) by (simp_all add: word_less_nat_alt word_unat_eq_iff)
  moreover have "ReadByte (drop 4 s) = Some (s ! 4, drop 5 s)"
    "ReadUInt24BE (drop 5 s) = Some (?w, drop 8 s)" "length (drop 8 s) = length s - 8"
    using assms hd4 by (simp_all add: ReadByte_Cons ReadUInt24BE_eq tag_size_field_def)
  moreover have "length s - 8 < ?n + 7 \<longleftrightarrow> length s < 15 + ?n" "drop (?n + 7) (drop 8 s) = drop (15 + ?n) s"
    using assms by (auto simp: add.commute)
  moreover have "\<not> length s < kFlvTagHeaderSize" using assms by (simp add: kFlvTagHeaderSize_def)
  ultimately show ?thesis
    unfolding FlvCoder_DecodeTag_def Let_def tag_type_ok_iff using w(2,3)
    by (simp del: length_drop drop_drop split del: if_split cong: if_cong) (auto simp: flv_frametypes)
qed

text \<open>
  What a call leaves and reports, by its status.  \<open>cb\<close> of a tag is its header and the size in
  it.  For audio and video that is what was read.  Metadata is decoded whatever its size says:
  the stream is left behind its values, or just behind the header when it has none.
\<close>

definition tag_outcome_ok :: "32 word \<Rightarrow> bytes \<Rightarrow> (tag_read_status \<times> flv_tag option \<times> int) \<times> bytes \<Rightarrow> bool" where
  "tag_outcome_ok mx s r = (case r of ((st, tag, cb), s') \<Rightarrow>
     (case st of
        TAG_OK \<Rightarrow>
          15 + tag_size_field s \<le> length s \<and> tag_size_field s \<le> unat mx \<and> tag_type_ok (s ! 4)
          \<and> cb = 15 + int (tag_size_field s)
          \<and> (case tag of None \<Rightarrow> False | Some t \<Rightarrow>
               flv_body_type (tag_body t) = s ! 4 \<and> tag_timestamp_ms t = tag_time_field s
               \<and> length s' + 15 \<le> length s
               \<and> (if s ! 4 = FLV_FRAMETYPE_METADATA then FlvTag_Data t = None
                    \<and> (\<exists>st. Metadata_Decode (drop 15 s) = Some ((st, tag_body t), s') \<and> (st \<noteq> TAG_OK \<longrightarrow> s' = drop 15 s))
                  else s' = drop (15 + tag_size_field s) s
                     \<and> FlvTag_Data t = Some (take (tag_size_field s) (drop 15 s))))
      | TAG_SKIP \<Rightarrow>
          15 + tag_size_field s \<le> length s \<and> \<not> tag_type_ok (s ! 4) \<and> tag = None \<and> cb = 0
          \<and> s' = drop (15 + tag_size_field s) s
      | TAG_NO_DATA \<Rightarrow> (length s < 15 \<or> length s < 15 + tag_size_field s) \<and> tag = None \<and> cb = 0 \<and> s' = s
      | TAG_CORRUPTED \<Rightarrow> (tag_size_field s > unat mx \<or> tag_size_field s = 0) \<and> tag = None \<and> cb = 0 \<and> s' = s
      | TAG_EOF \<Rightarrow> False))"

lemma metadata_no_data: "flv_body_type b = FLV_FRAMETYPE_METADATA \<Longrightarrow> body_data b = None"
  by (cases b) (simp_all add: body_data_def flv_frametypes)

lemma Metadata_Decode_failed: "Metadata_Decode s = Some ((st, b), s') \<Longrightarrow> st \<noteq> TAG_OK \<Longrightarrow> s' = s"
  using Metadata_Decode_total[of s] by auto

text \<open>
  C27. \<open>FlvCoder::DecodeTag\<close> on arbitrary bytes: it never fails a \<open>CHECK\<close>; with
  \<open>READ_NO_DATA\<close> and \<open>READ_CORRUPTED\<close> the stream is untouched; an unknown type is skipped by
  exactly its size; a tag that is delivered has the type and the time of its fields, and
  \<open>cb\<close> is its header and the size in it.  An audio or video tag has exactly its body and the
  stream is left just after it, \<open>cb\<close> bytes on.  For metadata \<open>cb\<close> is not what was read: the
  body is what its own decoder makes of all that follows, the stream is left where that stops,
  and when that fails just after the header, with the tag delivered all the same.
\<close>

theorem DecodeTag_outcome:
  "case FlvCoder_DecodeTag mx s of None \<Rightarrow> False | Some r \<Rightarrow> tag_outcome_ok mx s r"
proof (cases "15 \<le> length s")
  case False
  then show ?thesis by (simp add: FlvCoder_DecodeTag_def kFlvTagHeaderSize_def tag_outcome_ok_def)
next
  case True
  let ?n = "tag_size_field s"
  have w: "unat (word_of_nat ?n :: 32 word) = ?n"
    using tag_size_field_less[of s] by (simp add: unat_of_nat take_bit_eq_mod)
  show ?thesis
  proof (cases "?n \<le> unat mx \<and> 15 + ?n \<le> length s \<and> tag_type_ok (s ! 4)
                \<and> \<not> (s ! 4 \<noteq> FLV_FRAMETYPE_METADATA \<and> ?n = 0)")
    case False
    then show ?thesis
      by (auto simp: DecodeTag_unfold[OF True] Let_def tag_outcome_ok_def)
  next
    case ok: True
    then obtain t s' where "FlvCoder_DecodeTag mx s = Some ((TAG_OK, Some t, 15 + int ?n), s')"
      "flv_body_type (tag_body t) = s ! 4" "tag_timestamp_ms t = tag_time_field s" "length s' + 15 \<le> length s"
      "s ! 4 \<noteq> FLV_FRAMETYPE_METADATA \<longrightarrow> s' = drop (15 + ?n) s \<and> FlvTag_Data t = Some (take ?n (drop 15 s))"
      "s ! 4 = FLV_FRAMETYPE_METADATA \<longrightarrow> (\<exists>st. Metadata_Decode (drop 15 s) = Some ((st, tag_body t), s'))"
      using DecodeTag_body_total[OF True, of "word_of_nat ?n"] w
      by (auto simp: DecodeTag_unfold[OF True] Let_def kFlvTagHeaderSize_def)
    then show ?thesis
      using ok by (auto simp: tag_outcome_ok_def FlvTag_Data_body metadata_no_data dest: Metadata_Decode_failed)
  qed
qed

lemma DecodeTag_bad_metadata:
  assumes s: "15 \<le> length s" "s ! 4 = FLV_FRAMETYPE_METADATA" "tag_size_field s \<le> unat mx"
      "15 + tag_size_field s \<le> length s"
    and b: "drop 15 s = b # bs" "b \<noteq> AMF0_TYPE_STRING" "b \<noteq> AMF0_TYPE_LONG_STRING"
  shows "\<exists>t. FlvCoder_DecodeTag mx s = Some ((TAG_OK, Some t, 15 + int (tag_size_field s)), drop 15 s)"
proof -
  have "Amf0_ReadString (b # bs) = Some (Inl READ_CORRUPTED_DATA, bs)"
    using b(2,3) by (simp add: Amf0_ReadString_def amf_need_def codec_simps rd_bind_def rd_need_def rd_num_def rd_err_def)
  then have md: "Metadata_Decode (drop 15 s) = Some ((TAG_CORRUPTED, BadMetadata []), drop 15 s)"
    by (simp add: Metadata_Decode_def b(1))
  have hi: "drop 11 s = s ! 11 # drop 12 s" using Cons_nth_drop_Suc[of 11 s] s(1) by simp
  have new: "FlvBody_new FLV_FRAMETYPE_METADATA = Some (FlvMetadata [] 0 [])"
    by (simp add: FlvBody_new_def flv_frametypes)
  have rd: "ReadUInt24BE (drop 8 s) = Some (word_of_nat (be_value (take 3 (drop 8 s))), drop 11 s)"
    "ReadUInt24BE (drop 12 s) = Some (word_of_nat (be_value (take 3 (drop 12 s))), drop 15 s)"
    using s(1) by (simp_all add: ReadUInt24BE_eq)
  have w: "unat (word_of_nat (tag_size_field s) :: 32 word) = tag_size_field s"
    using tag_size_field_less[of s] by (simp add: unat_of_nat take_bit_eq_mod)
  have "\<exists>t. DecodeTag_body FLV_FRAMETYPE_METADATA (word_of_nat (tag_size_field s)) (drop 8 s)
      = Some ((TAG_OK, Some t, int kFlvTagHeaderSize + int (tag_size_field s)), drop 15 s)"
    using md new w by (simp add: DecodeTag_body_def rd hi ReadByte_Cons Let_def flv_body_Decode_def LearnAttributes_def)
  moreover have "tag_type_ok FLV_FRAMETYPE_METADATA" by (simp add: tag_type_ok_iff)
  ultimately show ?thesis
    using s by (simp add: DecodeTag_unfold[OF s(1)] Let_def kFlvTagHeaderSize_def)
qed

text \<open>
  A metadata tag whose body does not start with an AMF0 string is delivered by
  \<open>FlvCoder::DecodeTag\<close> with \<open>READ_OK\<close> and a byte count of the whole tag, but the stream is
  left at the start of the body: the next call reads the body as a tag header.
\<close>

theorem bad_metadata_misaligned:
  fixes body rest :: bytes
  assumes "length hdr = 15" "hdr ! 4 = FLV_FRAMETYPE_METADATA" "be_value (take 3 (drop 5 hdr)) = length body"
    and "length body \<le> unat mx" "body \<noteq> []"
    and "hd body \<noteq> AMF0_TYPE_STRING" "hd body \<noteq> AMF0_TYPE_LONG_STRING"
  shows "\<exists>t. FlvCoder_DecodeTag mx (hdr @ body @ rest)
     = Some ((TAG_OK, Some t, 15 + int (length body)), body @ rest)"
proof -
  obtain b bs where "body = b # bs" using assms(5) by (cases body) auto
  then have "drop 15 (hdr @ body @ rest) = b # bs @ rest" "tag_size_field (hdr @ body @ rest) = length body"
    using assms(1,3) by (simp_all add: tag_size_field_def)
  then show ?thesis
    using DecodeTag_bad_metadata[of "hdr @ body @ rest" mx b "bs @ rest"] assms \<open>body = b # bs\<close>
    by (simp add: nth_append)
qed

lemma bad_metadata_misaligned_witness:
  "\<exists>t. FlvCoder_DecodeTag (5 * 2 ^ 20)
       ([0, 0, 0, 0, 0x12, 0, 0, 2, 0, 0, 0, 0, 0, 0, 0] @ [0x05, 0x05] @ [0, 0, 0, 13 :: byte])
     = Some ((TAG_OK, Some t, 15 + int (length [0x05, 0x05 :: byte])), [0x05, 0x05] @ [0, 0, 0, 13])"
  by (rule bad_metadata_misaligned) (simp_all add: flv_frametypes amf0_types be_value_def)

end
