(* ===== verification/FlvRoundtrip.thy ===== *)
theory FlvRoundtrip
  imports FlvLaws
begin

text \<open>
  An FLV file written by \<^verbatim>\<open>FlvTagSerializer\<close> is read back by \<^verbatim>\<open>FlvCoder\<close>.
\<close>

section \<open>Tags that their bytes determine\<close>

definition body_ok :: "flv_body \<Rightarrow> bool" where
  "body_ok b = (case b of
     FlvAudio a \<Rightarrow> au_data a \<noteq> [] \<and> snd (DecodeAudioFlags (Audio_new\<lparr>au_data := au_data a\<rparr>)) = a
   | FlvVideo v _ \<Rightarrow> vi_data v \<noteq> [] \<and> map_option snd (DecodeVideoFlags (Video_new\<lparr>vi_data := vi_data v\<rparr>)) = Some v
   | FlvMetadata name u d \<Rightarrow>
       length name \<le> kMaximumStringReadableData \<and> obj_ok (CMixedMap u d) \<and> obj_fits (CMixedMap u d)
   | BadMetadata _ \<Rightarrow> False)"

text \<open>The flags of the body are those of its data, the attributes those that \<open>LearnAttributes\<close> adds.\<close>

definition flv_tag_ok :: "flv_tag \<Rightarrow> bool" where
  "flv_tag_ok t \<longleftrightarrow> body_ok (tag_body t)
     \<and> LearnAttributes (t\<lparr>attributes := 0, tag_body := with_moov (tag_body t) None\<rparr>) = Some t"

text \<open>The tag at another time, on stream 0.\<close>

definition retime :: "flv_tag \<Rightarrow> int \<Rightarrow> flv_tag" where
  "retime t ts = t\<lparr>tag_timestamp_ms := ts, tag_stream_id := 0,
     tag_body := (case tag_body t of
        FlvVideo v m \<Rightarrow> FlvVideo v (map_option (moov_timestamp_ms_update (\<lambda>_. ts)) m) | b \<Rightarrow> b)\<rparr>"

definition body_bytes :: "flv_body \<Rightarrow> bytes" where
  "body_bytes b = the (flv_body_Encode b)"

lemma DecodeAuxiliaryMoovTag_time:
  "DecodeAuxiliaryMoovTag attrs ts v =
     map_option (map_option (moov_timestamp_ms_update (\<lambda>_. ts))) (DecodeAuxiliaryMoovTag attrs t v)"
  by (simp add: DecodeAuxiliaryMoovTag_def split: option.split prod.split)

lemma LearnAttributes_retime:
  assumes "flv_tag_ok t"
  shows "LearnAttributes \<lparr>attributes = 0, tag_timestamp_ms = ts, tag_stream_id = 0,
      tag_body = with_moov (tag_body t) None\<rparr> = Some (retime t ts)"
proof (cases t)
  case (fields attrs time stream body)
  show ?thesis
  proof (cases body)
    case (FlvVideo v m)
    let ?a = "if vi_frame_type v = FLV_FLAG_VIDEO_FRAMETYPE_KEYFRAME then ATTR_VIDEO OR ATTR_CAN_RESYNC else ATTR_VIDEO"
    show ?thesis
      using assms fields FlvVideo DecodeAuxiliaryMoovTag_time[of ?a ts v time]
      by (cases "DecodeAuxiliaryMoovTag ?a time v")
         (auto simp: flv_tag_ok_def LearnAttributes_def Let_def retime_def split: if_splits)
  qed (use assms fields in \<open>auto simp: flv_tag_ok_def LearnAttributes_def Let_def retime_def\<close>)
qed

lemma learned_attributes:
  assumes "flv_tag_ok t"
  shows "has_attribute (attributes t) ATTR_AUDIO \<longleftrightarrow> flv_body_type (tag_body t) = FLV_FRAMETYPE_AUDIO"
    and "has_attribute (attributes t) ATTR_VIDEO \<longleftrightarrow> flv_body_type (tag_body t) = FLV_FRAMETYPE_VIDEO"
    and "has_attribute (attributes t) ATTR_METADATA \<longleftrightarrow> flv_body_type (tag_body t) = FLV_FRAMETYPE_METADATA"
proof -
  have "(has_attribute (attributes t) ATTR_AUDIO \<longleftrightarrow> flv_body_type (tag_body t) = FLV_FRAMETYPE_AUDIO)
    \<and> (has_attribute (attributes t) ATTR_VIDEO \<longleftrightarrow> flv_body_type (tag_body t) = FLV_FRAMETYPE_VIDEO)
    \<and> (has_attribute (attributes t) ATTR_METADATA \<longleftrightarrow> flv_body_type (tag_body t) = FLV_FRAMETYPE_METADATA)"
  proof (cases t)
    case (fields attrs time stream body)
    then show ?thesis using assms
      by (cases body) (auto simp: flv_tag_ok_def LearnAttributes_def Let_def has_attribute_def flv_frametypes
          ATTR_AUDIO_def ATTR_VIDEO_def ATTR_METADATA_def ATTR_DROPPABLE_def ATTR_CAN_RESYNC_def
          split: if_splits option.splits)
  qed
  then show
    "has_attribute (attributes t) ATTR_AUDIO \<longleftrightarrow> flv_body_type (tag_body t) = FLV_FRAMETYPE_AUDIO"
    "has_attribute (attributes t) ATTR_VIDEO \<longleftrightarrow> flv_body_type (tag_body t) = FLV_FRAMETYPE_VIDEO"
    "has_attribute (attributes t) ATTR_METADATA \<longleftrightarrow> flv_body_type (tag_body t) = FLV_FRAMETYPE_METADATA"
    by blast+
qed

section \<open>Times\<close>

lemma time_fields:
  fixes ts :: int
  defines "w \<equiv> word_of_int ts :: 32 word"
  shows "(w AND 0xFFFFFF) OR push_bit 24 (ucast (word_of_int (drop_bit 24 ts AND 0xFF) :: byte)) = w"
    and "int (unat w) = ts mod 2 ^ 32" and "unat (w AND 0xFFFFFF) < 2 ^ 24"
proof -
  have m: "(0xFFFFFF :: 32 word) = mask 24" "(0xFF :: int) = mask 8" by (simp_all add: mask_eq_exp_minus_1)
  show "(w AND 0xFFFFFF) OR push_bit 24 (ucast (word_of_int (drop_bit 24 ts AND 0xFF) :: byte)) = w"
    unfolding w_def m by (rule bit_word_eqI) (auto simp: bit_simps)
  show "int (unat w) = ts mod 2 ^ 32"
    by (simp add: w_def unsigned_of_int take_bit_eq_mod)
  have "unat (w AND 0xFFFFFF) = take_bit 24 (unat w)"
    by (simp only: m(1) take_bit_eq_mask [symmetric] unsigned_take_bit_eq)
  then show "unat (w AND 0xFFFFFF) < 2 ^ 24" using take_bit_nat_less_exp[of 24 "unat w"] by simp
qed

section \<open>One tag\<close>

lemma CMixedMap_Decode_top_enc:
  assumes "obj_ok (CMixedMap u d)" "obj_fits (CMixedMap u d)"
  shows "CMixedMap_Decode_top (enc (CMixedMap u d) @ s) = Some (Inr (CMixedMap u d), s)"
proof -
  have step: "ReadNextObject_fuel (Suc n) x = CMixedMap_Decode (ReadNextObject_fuel n) n x"
    if "x \<noteq> []" "hd x = AMF0_TYPE_MIXED_ARRAY" for n x
    using that by (simp add: amf0_types Let_def)
  have "CMixedMap_Decode_top (enc (CMixedMap u d) @ s) = ReadNextObject (enc (CMixedMap u d) @ s)"
    unfolding CMixedMap_Decode_top_def ReadNextObject_def
    by (rule step [symmetric]) (use assms(1) in simp_all)
  then show ?thesis using ReadNextObject_enc[OF assms] by simp
qed

lemma flv_body_roundtrip:
  assumes "body_ok b"
  shows "flv_body_Encode b = Some (body_bytes b)"
    and "flv_body_Size b = word_of_nat (length (body_bytes b))"
    and "body_bytes b \<noteq> []"
    and "\<exists>new st. FlvBody_new (flv_body_type b) = Some new
      \<and> flv_body_Decode new (body_bytes b @ s) (length (body_bytes b)) = Some ((st, with_moov b None), s)"
proof -
  have "flv_body_Encode b = Some (body_bytes b) \<and> flv_body_Size b = word_of_nat (length (body_bytes b))
    \<and> body_bytes b \<noteq> [] \<and> (\<exists>new st. FlvBody_new (flv_body_type b) = Some new
      \<and> flv_body_Decode new (body_bytes b @ s) (length (body_bytes b)) = Some ((st, with_moov b None), s))"
  proof (cases b)
    case (FlvAudio a)
    then obtain st where "DecodeAudioFlags (Audio_new\<lparr>au_data := au_data a\<rparr>) = (st, a)"
      using assms by (cases "DecodeAudioFlags (Audio_new\<lparr>au_data := au_data a\<rparr>)") (simp add: body_ok_def)
    then show ?thesis
      using FlvAudio assms by (simp add: body_ok_def body_bytes_def flv_body_Encode_def flv_body_Size_def
          flv_body_Decode_def Audio_Decode_def FlvBody_new_def flv_frametypes)
  next
    case (FlvVideo v m)
    then obtain st where "DecodeVideoFlags (Video_new\<lparr>vi_data := vi_data v\<rparr>) = Some (st, v)"
      using assms by (auto simp: body_ok_def)
    then show ?thesis
      using FlvVideo assms by (simp add: body_ok_def body_bytes_def flv_body_Encode_def flv_body_Size_def
          flv_body_Decode_def Video_Decode_def FlvBody_new_def flv_frametypes)
  next
    case (FlvMetadata name u d)
    then have ok: "obj_ok (CMixedMap u d)" "obj_fits (CMixedMap u d)" "length name \<le> kMaximumStringReadableData"
      using assms by (simp_all add: body_ok_def del: obj_ok.simps obj_fits.simps)
    have enc: "CObject_Encode (CMixedMap u d) = Some (enc (CMixedMap u d))" by (rule CObject_Encode_total[OF ok(1)])
    have bs: "body_bytes b = WriteString name @ enc (CMixedMap u d)"
      using FlvMetadata enc by (simp add: body_bytes_def flv_body_Encode_def CString_Encode_def)
    have "length (WriteString name) > 0" by (simp add: length_WriteString)
    moreover have "CString_EncodingSize name = word_of_nat (length (WriteString name))"
      by (simp add: CString_EncodingSize_def length_WriteString)
    moreover have "Metadata_Decode (WriteString name @ enc (CMixedMap u d) @ s) = Some ((TAG_OK, FlvMetadata name u d), s)"
      using ReadString_WriteString[OF ok(3), of "enc (CMixedMap u d) @ s"] CMixedMap_Decode_top_enc[OF ok(1,2), of s]
      by (simp add: Metadata_Decode_def del: enc_simps)
    ultimately show ?thesis
      using FlvMetadata enc bs CObject_EncodingSize_eq[OF ok(1)]
      by (simp add: flv_body_Encode_def flv_body_Size_def flv_body_Decode_def FlvBody_new_def flv_frametypes
          CString_Encode_def del: enc_simps CObject_EncodingSize.simps)
  qed (use assms in \<open>simp add: body_ok_def\<close>)
  then show "flv_body_Encode b = Some (body_bytes b)"
    "flv_body_Size b = word_of_nat (length (body_bytes b))" "body_bytes b \<noteq> []"
    "\<exists>new st. FlvBody_new (flv_body_type b) = Some new
      \<and> flv_body_Decode new (body_bytes b @ s) (length (body_bytes b)) = Some ((st, with_moov b None), s)"
    by blast+
qed

lemma flv_body_type_cases:
  "flv_body_type b = FLV_FRAMETYPE_AUDIO \<or> flv_body_type b = FLV_FRAMETYPE_VIDEO
     \<or> flv_body_type b = FLV_FRAMETYPE_METADATA"
  by (cases b) simp_all

lemma serialize_flv_eq:
  assumes "flv_tag_ok t"
  shows "serialize_flv t ts z = (let (out, z') = write_tag (flv_body_type (tag_body t))
       (word_of_nat (length (body_bytes (tag_body t)))) ts (body_bytes (tag_body t)) z
     in Some ((True, out), z'))"
proof -
  have ok: "body_ok (tag_body t)" using assms by (simp add: flv_tag_ok_def)
  note attrs = learned_attributes[OF assms] and rt = flv_body_roundtrip(1,2)[OF ok]
  have data: "FlvTag_Data t = Some (body_bytes (tag_body t))" if "flv_body_type (tag_body t) \<noteq> FLV_FRAMETYPE_METADATA"
    using that rt(1) by (cases "tag_body t") (simp_all add: FlvTag_Data_def flv_body_Encode_def)
  show ?thesis
    using flv_body_type_cases[of "tag_body t"] data rt
    by (auto simp: serialize_flv_def serialize_media_def attrs flv_frametypes)
qed

lemma DecodeTag_write_tag:
  assumes ok: "flv_tag_ok t" and n: "length (body_bytes (tag_body t)) < 2 ^ 24"
    and mx: "length (body_bytes (tag_body t)) \<le> unat mx"
    and out: "write_tag (flv_body_type (tag_body t)) (word_of_nat (length (body_bytes (tag_body t)))) ts
       (body_bytes (tag_body t)) z = (out, z')"
  shows "FlvCoder_DecodeTag mx (out @ s) = Some ((TAG_OK, Some (retime t (ts mod 2 ^ 32)), int (length out)), s)"
proof -
  let ?b = "body_bytes (tag_body t)" and ?ty = "flv_body_type (tag_body t)" and ?w = "word_of_int ts :: 32 word"
  let ?hi = "word_of_int (drop_bit 24 ts AND 0xFF) :: byte" and ?n = "word_of_nat (length (body_bytes (tag_body t))) :: 32 word"
  have bok: "body_ok (tag_body t)" using ok by (simp add: flv_tag_ok_def)
  obtain new st where new: "FlvBody_new ?ty = Some new"
    "flv_body_Decode new (?b @ s) (length ?b) = Some ((st, with_moov (tag_body t) None), s)"
    using flv_body_roundtrip(4)[OF bok, of s] by blast
  have w: "unat ?n = length ?b" "unat (?n + 7) = length ?b + 7" "?n \<noteq> 0" "\<not> ?n > mx"
    using n mx flv_body_roundtrip(3)[OF bok]
    by (simp_all add: unat_of_nat unat_word_ariths take_bit_eq_mod word_less_nat_alt word_unat_eq_iff)
  have outeq: "out @ s = WriteBE (previous_tag_size z) @ ?ty # WriteUInt24BE ?n
      @ WriteUInt24BE (?w AND 0xFFFFFF) @ ?hi # WriteUInt24BE 0 @ ?b @ s"
    and len: "length out = 15 + length ?b"
    using out by (auto simp: write_tag_def Let_def)
  have rd: "ReadUInt24BE (WriteUInt24BE ?n @ x) = Some (?n, x)"
    "ReadUInt24BE (WriteUInt24BE (?w AND 0xFFFFFF) @ x) = Some (?w AND 0xFFFFFF, x)"
    "ReadUInt24BE (WriteUInt24BE 0 @ x) = Some (0, x)" for x
    using n w(1) time_fields(3)[of ts] by (simp_all add: ReadUInt24BE_WriteUInt24BE)
  have "DecodeTag_body ?ty ?n (WriteUInt24BE (?w AND 0xFFFFFF) @ ?hi # WriteUInt24BE 0 @ ?b @ s)
      = Some ((TAG_OK, Some (retime t (ts mod 2 ^ 32)), int (length out)), s)"
    using new w(1) LearnAttributes_retime[OF ok, of "ts mod 2 ^ 32"] time_fields(2)[of ts]
    by (simp add: DecodeTag_body_def rd ReadByte_Cons time_fields(1) len kFlvTagHeaderSize_def)
  moreover have "drop 4 (out @ s) = ?ty # WriteUInt24BE ?n @ WriteUInt24BE (?w AND 0xFFFFFF) @ ?hi # WriteUInt24BE 0 @ ?b @ s"
    by (simp add: outeq)
  moreover have "\<not> length (out @ s) < kFlvTagHeaderSize" by (simp add: len kFlvTagHeaderSize_def)
  ultimately show ?thesis
    using w flv_body_type_cases[of "tag_body t"]
    by (simp add: FlvCoder_DecodeTag_def ReadByte_Cons rd del: drop_append length_append) auto
qed

section \<open>Files\<close>

text \<open>A client that writes tags one after the other, and one that reads \<open>n\<close> of them.\<close>

fun serialize_all :: "(flv_tag \<times> int) list \<Rightarrow> flv_serializer \<Rightarrow> (bytes \<times> flv_serializer) option" where
  "serialize_all [] z = Some ([], z)"
| "serialize_all ((t, ts) # r) z = do {
     ((ok, out), z1) \<leftarrow> Serialize (\<lambda>_ :: unit. None) (TagFlv t) ts z;
     (rest, z2) \<leftarrow> serialize_all r z1;
     (if ok then Some (out @ rest, z2) else None) }"

fun decode_all :: "nat \<Rightarrow> 32 word \<Rightarrow> bytes \<Rightarrow> (flv_tag list \<times> bytes) option" where
  "decode_all 0 mx s = Some ([], s)"
| "decode_all (Suc n) mx s = (case FlvCoder_DecodeTag mx s of
     Some ((TAG_OK, Some t, cb), s1) \<Rightarrow> map_option (\<lambda>(ts, s2). (t # ts, s2)) (decode_all n mx s1)
   | _ \<Rightarrow> None)"

text \<open>A tag with its time that the format can carry, for a reader with the limit \<open>mx\<close>.\<close>

definition writable :: "32 word \<Rightarrow> flv_tag \<times> int \<Rightarrow> bool" where
  "writable mx p \<longleftrightarrow> flv_tag_ok (fst p) \<and> 0 \<le> snd p
     \<and> length (body_bytes (tag_body (fst p))) < 2 ^ 24 \<and> length (body_bytes (tag_body (fst p))) \<le> unat mx"

lemma serialize_one:
  assumes "writable mx (t, ts)"
  shows "\<exists>out z'. Serialize (\<lambda>_ :: unit. None) (TagFlv t) ts z = Some ((True, out), z')
    \<and> write_tag (flv_body_type (tag_body t)) (word_of_nat (length (body_bytes (tag_body t)))) ts
        (body_bytes (tag_body t)) z = (out, z')"
  using assms serialize_flv_eq[of t ts z]
  by (auto simp: writable_def Serialize_def SerializeInternal_def split: prod.splits)

lemma file_roundtrip:
  assumes "\<forall>p \<in> set tags. writable mx p"
  shows "\<exists>out z'. serialize_all tags z = Some (out, z')
    \<and> decode_all (length tags) mx (out @ s) = Some (map (\<lambda>(t, ts). retime t (ts mod 2 ^ 32)) tags, s)"
  using assms
proof (induction tags arbitrary: z)
  case (Cons p tags)
  obtain t ts where p: "p = (t, ts)" by (cases p)
  then have wr: "writable mx (t, ts)" using Cons.prems by simp
  obtain out z1 where out: "Serialize (\<lambda>_ :: unit. None) (TagFlv t) ts z = Some ((True, out), z1)"
    "write_tag (flv_body_type (tag_body t)) (word_of_nat (length (body_bytes (tag_body t)))) ts
        (body_bytes (tag_body t)) z = (out, z1)"
    using serialize_one[OF wr] by blast
  obtain rest z2 where rest: "serialize_all tags z1 = Some (rest, z2)"
    "decode_all (length tags) mx (rest @ s) = Some (map (\<lambda>(t, ts). retime t (ts mod 2 ^ 32)) tags, s)"
    using Cons by fastforce
  have "FlvCoder_DecodeTag mx (out @ rest @ s) = Some ((TAG_OK, Some (retime t (ts mod 2 ^ 32)), int (length out)), rest @ s)"
    using wr by (intro DecodeTag_write_tag[OF _ _ _ out(2)]) (simp_all add: writable_def)
  then show ?case using p out(1) rest by simp
qed simp

text \<open>The bytes of a tag with its sizes: each tag follows the size of the one before it.\<close>

fun flv_layout :: "nat \<Rightarrow> bytes list \<Rightarrow> bytes" where
  "flv_layout prev [] = []"
| "flv_layout prev (x # xs) = WriteBE (word_of_nat prev :: 32 word) @ x @ flv_layout (length x) xs"

lemma serialize_layout:
  assumes "\<forall>p \<in> set tags. writable mx p" "previous_tag_size z = word_of_nat prev"
  shows "\<exists>frames z'. serialize_all tags z = Some (flv_layout prev frames, z')
    \<and> map (\<lambda>x. 4 + length x) frames = map (\<lambda>(t, ts). unat (FlvTag_EncodingSize t)) tags"
  using assms
proof (induction tags arbitrary: z prev)
  case (Cons p tags)
  obtain t ts where p: "p = (t, ts)" by (cases p)
  then have wr: "writable mx (t, ts)" using Cons.prems by simp
  let ?b = "body_bytes (tag_body t)"
  obtain out z1 where out: "Serialize (\<lambda>_ :: unit. None) (TagFlv t) ts z = Some ((True, out), z1)"
    "write_tag (flv_body_type (tag_body t)) (word_of_nat (length ?b)) ts ?b z = (out, z1)"
    using serialize_one[OF wr] by blast
  define x where "x = drop 4 out"
  have x: "out = WriteBE (word_of_nat prev :: 32 word) @ x" "length x = 11 + length ?b"
      "previous_tag_size z1 = word_of_nat (length x)"
    using out(2) Cons.prems(2) by (auto simp: write_tag_def Let_def x_def)
  obtain frames z2 where rest: "serialize_all tags z1 = Some (flv_layout (length x) frames, z2)"
    "map (\<lambda>x. 4 + length x) frames = map (\<lambda>(t, ts). unat (FlvTag_EncodingSize t)) tags"
    using Cons.IH[OF _ x(3)] Cons.prems(1) by auto
  have "flv_body_Size (tag_body t) = word_of_nat (length ?b)"
    using wr flv_body_roundtrip(2) by (simp add: writable_def flv_tag_ok_def)
  then have sz: "unat (FlvTag_EncodingSize t) = 15 + length ?b"
    using wr by (simp add: writable_def FlvTag_EncodingSize_def unat_of_nat unat_word_ariths take_bit_eq_mod)
  show ?case
    using p out(1) rest x sz by (intro exI[of _ "x # frames"] exI[of _ z2]) simp
qed (auto intro!: exI[of _ "[]"])

section \<open>Properties\<close>

definition sample_tags :: "(flv_tag \<times> int) list" where
  "sample_tags =
     [(\<lparr>attributes = 0x0001, tag_timestamp_ms = 0, tag_stream_id = 0,
        tag_body = FlvMetadata (bytes_of ''onMetaData'') 1 [(bytes_of ''width'', CNumber 0x4084000000000000)]\<rparr>, 0),
      (\<lparr>attributes = 0x0012, tag_timestamp_ms = 3, tag_stream_id = 5,
        tag_body = FlvAudio \<lparr>au_data = [0xAF, 0x00, 0x12, 0x10], au_type = 1, au_format = 10, au_rate = 3,
          au_size = 1, is_aac_header = True\<rparr>\<rparr>, 0x1000000),
      (\<lparr>attributes = 0x001C, tag_timestamp_ms = 0, tag_stream_id = 0,
        tag_body = FlvVideo \<lparr>vi_data = [0x17, 0x01, 0x00, 0x00, 0x2A, 0x65], vi_codec = 7, vi_frame_type = 1,
          avc_packet_type = 1, avc_composition_offset_ms = 42\<rparr> None\<rparr>, 0x123456789)]"

lemma sample_tags_ok: "\<forall>p \<in> set sample_tags. writable 0x500000 p"
proof -
  have "flv_tag_ok (fst p)" if "p \<in> set sample_tags" for p
    using that
    by (auto simp: sample_tags_def flv_tag_ok_def body_ok_def LearnAttributes_def DecodeAudioFlags_def
        DecodeVideoFlags_def DecodeAuxiliaryMoovTag_def Audio_new_def Video_new_def codec_simps Let_def
        ReadUInt24BE_eq be_value_def kMoovMark_def kMoovMarkBegin_def bytes_of_def kMaximumStringReadableData_def
        FLV_FLAG_SOUND_FORMAT_AAC_def FLV_FLAG_VIDEO_CODEC_AVC_def FLV_FLAG_VIDEO_FRAMETYPE_KEYFRAME_def
        kFlvMaskSoundType_def kFlvMaskSoundSize_def kFlvMaskSoundRate_def kFlvMaskSoundFormat_def
        kFlvMaskVideoCodec_def kFlvMaskVideoFrameType_def AVC_NALU_def AVC_SEQUENCE_HEADER_def
        ATTR_AUDIO_def ATTR_VIDEO_def ATTR_METADATA_def ATTR_DROPPABLE_def ATTR_CAN_RESYNC_def)
  moreover have "length (body_bytes (tag_body (fst p))) < 1000 \<and> 0 \<le> snd p" if "p \<in> set sample_tags" for p
    using that
    by (auto simp: sample_tags_def body_bytes_def flv_body_Encode_def CString_Encode_def length_WriteString
        CMixedMap_Encode_def CNumber_Encode_def bytes_of_def WriteGenericObjectEnd_def)
  ultimately show ?thesis by (force simp: writable_def)
qed

text \<open>
  C4. An FLV file: what \<open>FlvTagSerializer\<close> writes for any sequence of tags that the format
  can carry is read back by \<open>FlvCoder\<close>: the header with its audio and video flags, then every
  tag with its attributes, flags and body, its time modulo \<open>2 ^ 32\<close> milliseconds and the
  stream id 0; what follows is left.
\<close>

theorem Flv_file_roundtrip:
  assumes "\<forall>p \<in> set tags. writable mx p"
    and "Serializer_Initialize (FlvTagSerializer_new True video audio) = (hdr, z)"
  shows "\<exists>out z' h. serialize_all tags z = Some (out, z')
    \<and> FlvCoder_DecodeHeader 0 cb (hdr @ out @ s) = Some ((TAG_OK, Some h, 9), out @ s)
    \<and> has_video h = video \<and> has_audio h = audio
    \<and> decode_all (length tags) mx (out @ s) = Some (map (\<lambda>(t, ts). retime t (ts mod 2 ^ 32)) tags, s)"
proof -
  have "hdr = AppendStandardHeader video audio"
    using assms(2) by (simp add: Serializer_Initialize_def FlvTagSerializer_new_def)
  then have "FlvCoder_DecodeHeader 0 cb (hdr @ x) = Some ((TAG_OK, Some (StandardHeader video audio), 9), x)" for x
    by (simp add: AppendStandardHeader_def FlvHeader_Write_def FlvCoder_DecodeHeader_def DecodeHeader_at_def
        kFlvHeaderSize_def codec_simps StandardHeader_def)
  moreover have "has_video (StandardHeader video audio) = video" "has_audio (StandardHeader video audio) = audio"
    by (simp_all add: has_video_def has_audio_def StandardHeader_def)
  ultimately show ?thesis using file_roundtrip[OF assms(1), of z s] by blast
qed

lemma Flv_file_roundtrip_witness:
  "\<exists>out z' h. serialize_all sample_tags (FlvTagSerializer_new True True True) = Some (out, z')
    \<and> FlvCoder_DecodeHeader 0 7 (AppendStandardHeader True True @ out @ [1]) = Some ((TAG_OK, Some h, 9), out @ [1])
    \<and> has_video h = True \<and> has_audio h = True
    \<and> decode_all (length sample_tags) 0x500000 (out @ [1])
        = Some (map (\<lambda>(t, ts). retime t (ts mod 2 ^ 32)) sample_tags, [1])"
  by (rule Flv_file_roundtrip[OF sample_tags_ok])
     (simp add: Serializer_Initialize_def FlvTagSerializer_new_def)

text \<open>
  In the output of a serializer each tag stands between its own size fields: the four
  bytes before a tag hold the length of the tag before it, 0 before the first, and
  \<open>FlvTagSerializer::EncodingSize\<close> is the length of a tag with that field.
\<close>

theorem previous_tag_sizes:
  assumes "\<forall>p \<in> set tags. writable mx p"
    and "Serializer_Initialize fresh = (hdr, z)"
  shows "\<exists>frames z'. serialize_all tags z = Some (flv_layout 0 frames, z')
    \<and> map (\<lambda>x. 4 + length x) frames = map (\<lambda>(t, ts). unat (FlvTag_EncodingSize t)) tags"
  using serialize_layout[OF assms(1), of z 0] assms(2) by (auto simp: Serializer_Initialize_def)

lemma previous_tag_sizes_witness:
  "\<exists>frames z'. serialize_all sample_tags (FlvTagSerializer_new False True False) = Some (flv_layout 0 frames, z')
    \<and> map (\<lambda>x. 4 + length x) frames = map (\<lambda>(t, ts). unat (FlvTag_EncodingSize t)) sample_tags"
  by (rule previous_tag_sizes[OF sample_tags_ok, where fresh = "FlvTagSerializer_new False True False" and hdr = "[]"])
     (simp add: Serializer_Initialize_def FlvTagSerializer_new_def)

end
