(* ===== verification/FlvVideo.thy ===== *)
theory FlvVideo
  imports FlvCoder
begin

text \<open>
  What \<^verbatim>\<open>TransformNaluFromPacketToStream\<close> computes: NAL units with their sizes become NAL
  units after start codes.
\<close>

section \<open>Units with sizes\<close>

definition nalu_packet :: "bytes \<Rightarrow> bytes" where
  "nalu_packet u = WriteBE (word_of_nat (length u) :: 32 word) @ u"

definition nalu_start :: "bytes \<Rightarrow> bytes" where
  "nalu_start u = WriteBE (0x00000001 :: 32 word) @ u"

lemma WriteBE_of_bytes:
  "length bs = 4 \<Longrightarrow> WriteBE (word_of_nat (be_value bs) :: 32 word) = bs"
  using be_value_less[of bs] be_bytes_be_value[of bs] by (simp add: WriteBE_eq unat_word_of_nat)

text \<open>One step of the loop on bytes that are a size and the rest.\<close>

lemma nalu_loop_step:
  assumes "4 < length s" and n: "n = be_value (take 4 s)"
  shows "nalu_loop s =
    (if n \<le> length s - 4 then
       map_option (\<lambda>(ok, out). (ok, nalu_start (take n (drop 4 s)) @ out)) (nalu_loop (drop (4 + n) s))
     else Some (False, []))"
proof -
  have "n < 2 ^ 32" using be_value_less[of "take 4 s"] assms by simp
  then have u: "unat (word_of_nat n :: 32 word) = n" by (simp add: unat_word_of_nat)
  show ?thesis
    using assms(1) u by (simp add: nalu_loop.simps[of s] ReadBE_eq n nalu_start_def add.commute)
qed

lemma nalu_loop_spec:
  "\<exists>ok us rest. nalu_loop s = Some (ok, concat (map nalu_start us))
     \<and> s = concat (map nalu_packet us) @ rest
     \<and> (if ok then length rest \<le> 4 else 4 < length rest \<and> length rest - 4 < be_value (take 4 rest))"
proof (induction "length s" arbitrary: s rule: less_induct)
  case less
  show ?case
  proof (cases "4 < length s")
    case False
    then show ?thesis by (intro exI[of _ True] exI[of _ "[]"] exI[of _ s]) (simp add: nalu_loop.simps)
  next
    case True
    let ?n = "be_value (take 4 s)"
    note step = nalu_loop_step[OF True refl]
    show ?thesis
    proof (cases "?n \<le> length s - 4")
      case False
      then show ?thesis using step True by (intro exI[of _ False] exI[of _ "[]"] exI[of _ s]) simp
    next
      case le: True
      define n u where "n = be_value (take 4 s)" and "u = take n (drop 4 s)"
      have len: "length u = n" and shorter: "length (drop (4 + n) s) < length s"
        using le True by (simp_all add: n_def u_def)
      obtain ok us rest where r: "nalu_loop (drop (4 + n) s) = Some (ok, concat (map nalu_start us))"
        "drop (4 + n) s = concat (map nalu_packet us) @ rest"
        "if ok then length rest \<le> 4 else 4 < length rest \<and> length rest - 4 < be_value (take 4 rest)"
        using less[OF shorter] by blast
      have size: "WriteBE (word_of_nat (length u) :: 32 word) = take 4 s"
        using True WriteBE_of_bytes[of "take 4 s"] by (simp add: len n_def)
      have "concat (map nalu_packet (u # us)) @ rest = take 4 s @ u @ drop (4 + n) s"
        by (simp add: nalu_packet_def size r(2))
      also have "\<dots> = s"
        unfolding u_def by (metis append_take_drop_id drop_drop add.commute)
      finally show ?thesis
        using step le r by (intro exI[of _ ok] exI[of _ "u # us"] exI[of _ rest]) (simp add: n_def u_def)
    qed
  qed
qed

lemma nalu_loop_packets:
  assumes "\<forall>u \<in> set us. length u < 2 ^ 32" "length rest \<le> 4" "us \<noteq> [] \<Longrightarrow> last us \<noteq> [] \<or> rest \<noteq> []"
  shows "nalu_loop (concat (map nalu_packet us) @ rest) = Some (True, concat (map nalu_start us))"
  using assms
proof (induction us)
  case Nil
  then show ?case by (simp add: nalu_loop.simps)
next
  case (Cons u us)
  let ?s = "concat (map nalu_packet (u # us)) @ rest"
  have s: "?s = WriteBE (word_of_nat (length u) :: 32 word) @ u @ concat (map nalu_packet us) @ rest"
    by (simp add: nalu_packet_def)
  have "4 < length ?s"
    using Cons.prems(3) by (cases us; cases "u = []") (auto simp: nalu_packet_def)
  moreover have "be_value (take 4 ?s) = length u"
    using Cons.prems(1) unfolding s by (simp add: WriteBE_eq unat_word_of_nat)
  moreover have "take (length u) (drop 4 ?s) = u" "length u \<le> length ?s - 4"
    "drop (4 + length u) ?s = concat (map nalu_packet us) @ rest"
    unfolding s by simp_all
  moreover have "nalu_loop (concat (map nalu_packet us) @ rest) = Some (True, concat (map nalu_start us))"
    using Cons.prems by (intro Cons.IH) (auto split: if_splits)
  ultimately show ?case
    using nalu_loop_step[of ?s "length u"] by (simp only: if_True) simp
qed

section \<open>The sequence header\<close>

definition sized16 :: "bytes \<Rightarrow> bytes" where
  "sized16 u = WriteBE (word_of_nat (length u) :: 16 word) @ u"

lemma unat_word_16: "length u < 2 ^ 16 \<Longrightarrow> unat (word_of_nat (length u) :: 16 word) = length u"
    "length u < 2 ^ 16 \<Longrightarrow> ucast (word_of_nat (length u) :: 16 word) = (word_of_nat (length u) :: 32 word)"
  by (simp_all add: unat_word_of_nat word_unat_eq_iff unsigned_ucast_eq take_bit_eq_mod)

lemma pps_loop_sized:
  assumes "\<forall>u \<in> set us. length u < 2 ^ 16"
  shows "pps_loop (length us) (concat (map sized16 us) @ rest) = Some (True, concat (map nalu_packet us))"
  using assms
proof (induction us)
  case (Cons u us)
  let ?w = "word_of_nat (length u) :: 16 word"
  have w: "unat ?w = length u" using Cons.prems by (simp add: unat_word_of_nat)
  have "(ucast ?w :: 32 word) = word_of_nat (length u)" using Cons.prems by (simp add: unat_word_16)
  then show ?case using Cons w by (simp add: sized16_def nalu_packet_def codec_simps Let_def)
qed simp

section \<open>Properties\<close>

text \<open>
  \<open>TransformNaluFromPacketToStream\<close> on the body of any AVC packet: it always returns;
  the output is the units it read, each after a start code; the input is these units with
  their 32 bit sizes, and what remains is at most four bytes if it succeeded, and a unit
  longer than the rest of the data if not.
\<close>

theorem TransformNalu_spec:
  "\<exists>ok us rest. TransformNaluFromPacketToStream s AVC_NALU = Some (ok, concat (map nalu_start us))
     \<and> s = concat (map nalu_packet us) @ rest
     \<and> (if ok then length rest \<le> 4 else 4 < length rest \<and> length rest - 4 < be_value (take 4 rest))"
  using nalu_loop_spec[of s]
  by (simp add: TransformNaluFromPacketToStream_def AVC_NALU_def AVC_END_OF_SEQUENCE_def)

text \<open>
  Every sequence of units shorter than \<open>2 ^ 32\<close>, the last one not empty, is transformed
  into the same units after start codes; an AVC sequence header with one sequence parameter
  set and up to 255 picture parameter sets is transformed into a start code and the sets,
  each after its size in 32 bits.
\<close>

theorem TransformNalu_units:
  assumes "\<forall>u \<in> set us. length u < 2 ^ 32" "us \<noteq> [] \<longrightarrow> last us \<noteq> []"
    and "length config = 6" "length sps < 2 ^ 16" "length pps < 2 ^ 8" "\<forall>u \<in> set pps. length u < 2 ^ 16"
  shows "TransformNaluFromPacketToStream (concat (map nalu_packet us)) AVC_NALU
      = Some (True, concat (map nalu_start us))
    \<and> TransformNaluFromPacketToStream
        (config @ sized16 sps @ [word_of_nat (length pps)] @ concat (map sized16 pps) @ rest) AVC_SEQUENCE_HEADER
      = Some (True, WriteBE (1 :: 32 word) @ nalu_packet sps @ concat (map nalu_packet pps))"
proof
  show "TransformNaluFromPacketToStream (concat (map nalu_packet us)) AVC_NALU
      = Some (True, concat (map nalu_start us))"
    using nalu_loop_packets[of us "[]"] assms(1,2)
    by (simp add: TransformNaluFromPacketToStream_def AVC_NALU_def AVC_END_OF_SEQUENCE_def)
  have n: "unat (word_of_nat (length pps) :: byte) = length pps" using assms(5) by (simp add: unat_word_of_nat)
  let ?s = "config @ sized16 sps @ [word_of_nat (length pps)] @ concat (map sized16 pps) @ rest"
  have s: "drop 6 ?s = WriteBE (word_of_nat (length sps) :: 16 word) @ sps @ word_of_nat (length pps) # concat (map sized16 pps) @ rest"
    "\<not> length ?s < 8" using assms(3) by (simp_all add: sized16_def)
  have "avc_header_to_stream ?s = Some (True, WriteBE (1 :: 32 word) @ nalu_packet sps @ concat (map nalu_packet pps))"
    unfolding avc_header_to_stream_def s(1)
    using s(2) n assms(4) unat_word_16[of sps] pps_loop_sized[OF assms(6), of rest]
    by (simp add: codec_simps Let_def nalu_packet_def)
  then show "TransformNaluFromPacketToStream ?s AVC_SEQUENCE_HEADER
      = Some (True, WriteBE (1 :: 32 word) @ nalu_packet sps @ concat (map nalu_packet pps))"
    by (simp add: TransformNaluFromPacketToStream_def AVC_NALU_def AVC_END_OF_SEQUENCE_def AVC_SEQUENCE_HEADER_def)
qed

lemma TransformNalu_units_witness:
  "TransformNaluFromPacketToStream (concat (map nalu_packet [[0x09, 0x10], [0x65]])) AVC_NALU
      = Some (True, concat (map nalu_start [[0x09, 0x10], [0x65]]))
   \<and> TransformNaluFromPacketToStream
        ([1, 66, 0, 30, 255, 225] @ sized16 [0x67, 1] @ [word_of_nat (length [[0x68 :: byte]])]
           @ concat (map sized16 [[0x68]]) @ []) AVC_SEQUENCE_HEADER
      = Some (True, WriteBE (1 :: 32 word) @ nalu_packet [0x67, 1] @ concat (map nalu_packet [[0x68]]))"
  by (rule TransformNalu_units[where us = "[[0x09, 0x10], [0x65]]" and config = "[1, 66, 0, 30, 255, 225]"
        and sps = "[0x67, 1]" and pps = "[[0x68]]"]) simp_all

end
