(* ===== verification/FlvEvents.thy ===== *)
theory FlvEvents
  imports RtmpEvents FlvRoundtrip
begin

text \<open>
  FLV tags carried by RTMP events: \<^verbatim>\<open>DecodeTag\<close> of audio and video events, the aggregate
  \<^verbatim>\<open>MediaDataEvent\<close> (\<^verbatim>\<open>rtmp/events/rtmp_event.{h,cc}\<close>) and \<^verbatim>\<open>ExtractFlvTags\<close>
  (\<^verbatim>\<open>rtmp/rtmp_util.cc\<close>).
\<close>

section \<open>Audio and video events\<close>

text \<open>
  The outer option is an abort; the inner one is the NULL left in \<^verbatim>\<open>*out\<close>.
\<close>

definition decode_event_tag :: "byte \<Rightarrow> bytes \<Rightarrow> int \<Rightarrow> flv_tag option option" where
  "decode_event_tag type data ts_ms =
     (if data = [] then Some None
      else do {
        new \<leftarrow> FlvBody_new type;
        ((st, body), _) \<leftarrow> flv_body_Decode new data (length data);
        (if st \<noteq> TAG_OK then Some None
         else map_option Some (LearnAttributes
                \<lparr>attributes = 0, tag_timestamp_ms = ts_ms, tag_stream_id = 0, tag_body = body\<rparr>)) })"

definition EventVideoData_DecodeTag :: "bytes \<Rightarrow> int \<Rightarrow> flv_tag option option" where
  "EventVideoData_DecodeTag = decode_event_tag FLV_FRAMETYPE_VIDEO"

definition EventAudioData_DecodeTag :: "bytes \<Rightarrow> int \<Rightarrow> flv_tag option option" where
  "EventAudioData_DecodeTag = decode_event_tag FLV_FRAMETYPE_AUDIO"

section \<open>Aggregates\<close>

record media_data =
  md_data :: bytes
  first_tag_ts :: int
  md_previous_tag_size :: "32 word"
  md_duration_ms :: int

definition MediaDataEvent_new :: media_data where
  "MediaDataEvent_new = \<lparr>md_data = [], first_tag_ts = -1, md_previous_tag_size = 0, md_duration_ms = 0\<rparr>"

definition EncodeAddTag :: "flv_tag \<Rightarrow> int \<Rightarrow> media_data \<Rightarrow> media_data option" where
  "EncodeAddTag tag ts_ms e =
     (let first = (if first_tag_ts e = -1 then ts_ms else first_tag_ts e);
          ts = ts_ms - first;
          data = md_data e @ (if md_previous_tag_size e > 0 then WriteBE (md_previous_tag_size e) else [])
      in map_option (\<lambda>body.
           let encoded = [flv_body_type (tag_body tag)] @ WriteUInt24BE (flv_body_Size (tag_body tag))
                 @ WriteUInt24BE (word_of_int ts AND 0xFFFFFF) @ [word_of_int (drop_bit 24 ts AND 0xFF)]
                 @ WriteUInt24BE (tag_stream_id tag) @ body
           in \<lparr>md_data = data @ encoded, first_tag_ts = first,
               md_previous_tag_size = word_of_nat (length encoded), md_duration_ms = ts_ms - first\<rparr>)
         (flv_body_Encode (tag_body tag)))"

definition EncodeFinalize :: "media_data \<Rightarrow> media_data" where
  "EncodeFinalize e = e\<lparr>md_data := md_data e @ WriteBE (0 :: 32 word)\<rparr>"

text \<open>One turn of the loop of \<^verbatim>\<open>DecodeTags\<close>: \<open>None\<close> inside is a \<^verbatim>\<open>break\<close>.\<close>

definition DecodeTags_step :: "int \<Rightarrow> bytes \<Rightarrow> (flv_tag \<times> bytes) option option" where
  "DecodeTags_step ts_ms s = do {
     (type, s1) \<leftarrow> ReadByte s;
     (sz, s2) \<leftarrow> ReadUInt24BE s1;
     (low, s3) \<leftarrow> ReadUInt24BE s2;
     (hi, s4) \<leftarrow> ReadByte s3;
     (stream_id, s5) \<leftarrow> ReadUInt24BE s4;
     let timestamp = (low AND 0xFFFFFF) OR push_bit 24 (ucast hi AND 0xFF);
     (if type \<noteq> FLV_FRAMETYPE_AUDIO \<and> type \<noteq> FLV_FRAMETYPE_VIDEO \<and> type \<noteq> FLV_FRAMETYPE_METADATA
      then Some None
      else do {
        new \<leftarrow> FlvBody_new type;
        ((st, body), s6) \<leftarrow> flv_body_Decode new s5 (unat sz);
        (if st \<noteq> TAG_OK then Some None
         else Some (Some (\<lparr>attributes = 0, tag_timestamp_ms = ts_ms + sint timestamp,
                           tag_stream_id = stream_id, tag_body = body\<rparr>, drop 4 s6))) }) }"

lemma flv_body_Decode_length:
  assumes "flv_body_Decode new s n = Some (r, s')"
  shows "length s' \<le> length s"
  using assms Metadata_Decode_total[of s]
  by (cases new) (auto simp: flv_body_Decode_def Audio_Decode_def Video_Decode_def split: if_splits prod.splits)

lemma read_lengths:
  "ReadByte s = Some (b, s') \<Longrightarrow> length s' < length s"
  "ReadUInt24BE s = Some (w, s') \<Longrightarrow> length s' \<le> length s"
  by (cases s) (auto simp: ReadByte_Cons ReadByte_Nil ReadUInt24BE_eq split: if_splits)

lemma DecodeTags_step_length:
  assumes "DecodeTags_step t s = Some (Some (tag, s'))"
  shows "length s' < length s"
proof -
  obtain type s1 sz s2 low s3 hi s4 stream s5 new r s6 where
    "ReadByte s = Some (type, s1)" "ReadUInt24BE s1 = Some (sz, s2)" "ReadUInt24BE s2 = Some (low, s3)"
    "ReadByte s3 = Some (hi, s4)" "ReadUInt24BE s4 = Some (stream, s5)"
    "flv_body_Decode new s5 (unat sz) = Some (r, s6)" "s' = drop 4 s6"
    using assms by (auto simp: DecodeTags_step_def Let_def split: if_splits)
  then show ?thesis
    using flv_body_Decode_length[of new s5 "unat sz" r s6] by (fastforce dest!: read_lengths)
qed

function DecodeTags_loop :: "int \<Rightarrow> bytes \<Rightarrow> flv_tag list option" where
  "DecodeTags_loop ts_ms s =
     (if length s \<le> 11 then Some []
      else case DecodeTags_step ts_ms s of
             None \<Rightarrow> None
           | Some None \<Rightarrow> Some []
           | Some (Some (tag, s')) \<Rightarrow> map_option ((#) tag) (DecodeTags_loop ts_ms s'))"
  by auto
termination
  by (relation "measure (length \<circ> snd)") (auto dest: DecodeTags_step_length)

declare DecodeTags_loop.simps [simp del]

definition DecodeTags :: "bytes \<Rightarrow> int \<Rightarrow> flv_tag list option" where
  "DecodeTags data ts_ms = (if data = [] then Some [] else DecodeTags_loop ts_ms data)"

section \<open>Tags of an event\<close>

text \<open>\<^verbatim>\<open>values_.SetAll(map)\<close> on the empty map of a new metadata body.\<close>

definition ExtractFlvTags :: "event_body \<Rightarrow> int \<Rightarrow> flv_tag list option" where
  "ExtractFlvTags e ts_ms = (case e of
     EventNotify name values \<Rightarrow>
       (if name \<noteq> bytes_of ''@setDataFrame'' then Some []
        else case values of
          [CString _, CStringMap d ks] \<Rightarrow>
            map_option (\<lambda>t. [t]) (LearnAttributes
              \<lparr>attributes = 0, tag_timestamp_ms = ts_ms, tag_stream_id = 0,
               tag_body = FlvMetadata (bytes_of ''onMetaData'') 0 (CMixedMap_SetAll d [])\<rparr>)
        | _ \<Rightarrow> Some [])
   | EventStreamMetadata _ \<Rightarrow> None
   | EventVideoData d \<Rightarrow>
       map_option (\<lambda>t. case t of None \<Rightarrow> [] | Some t \<Rightarrow> [t]) (EventVideoData_DecodeTag d ts_ms)
   | EventAudioData d \<Rightarrow>
       map_option (\<lambda>t. case t of None \<Rightarrow> [] | Some t \<Rightarrow> [t]) (EventAudioData_DecodeTag d ts_ms)
   | MediaDataEvent d \<Rightarrow> DecodeTags d ts_ms
   | _ \<Rightarrow> Some [])"

section \<open>Any aggregate\<close>

lemma flv_body_Decode_ex:
  assumes "FlvBody_new type = Some new"
  shows "\<exists>r s'. flv_body_Decode new s n = Some (r, s')"
proof (cases "n \<le> length s")
  case True
  then show ?thesis using flv_body_Decode_total[OF assms True] by blast
next
  case False
  then show ?thesis using assms Metadata_Decode_total[of s]
    by (auto simp: FlvBody_new_def flv_body_Decode_def Audio_Decode_def Video_Decode_def split: if_splits)
qed

lemma DecodeTags_step_total:
  assumes "11 \<le> length s"
  shows "\<exists>r. DecodeTags_step t s = Some r \<and> (\<forall>tag s'. r = Some (tag, s') \<longrightarrow> attributes tag = 0)"
proof -
  have hi: "drop 7 s = s ! 7 # drop 8 s" and s0: "s = s ! 0 # drop 1 s"
    using Cons_nth_drop_Suc[of 7 s] assms by (simp, cases s, auto)
  have "ReadByte s = Some (s ! 0, drop 1 s)" "ReadByte (drop 7 s) = Some (s ! 7, drop 8 s)"
    "\<exists>w. ReadUInt24BE (drop 1 s) = Some (w, drop 4 s)" "\<exists>w. ReadUInt24BE (drop 4 s) = Some (w, drop 7 s)"
    "\<exists>w. ReadUInt24BE (drop 8 s) = Some (w, drop 11 s)"
    using assms s0 hi by (metis ReadByte_Cons, metis ReadByte_Cons, auto simp: ReadUInt24BE_eq)
  then obtain w1 w2 w3 where rd: "ReadByte s = Some (s ! 0, drop 1 s)" "ReadByte (drop 7 s) = Some (s ! 7, drop 8 s)"
    "ReadUInt24BE (drop 1 s) = Some (w1, drop 4 s)" "ReadUInt24BE (drop 4 s) = Some (w2, drop 7 s)"
    "ReadUInt24BE (drop 8 s) = Some (w3, drop 11 s)" by blast
  note rd = rd rd(1,3)[unfolded One_nat_def]
  show ?thesis
  proof (cases "tag_type_ok (s ! 0)")
    case False
    then show ?thesis by (simp add: DecodeTags_step_def rd Let_def tag_type_ok_iff)
  next
    case True
    then obtain new where new: "FlvBody_new (s ! 0) = Some new" by (auto simp: tag_type_ok_def)
    obtain st body s' where "flv_body_Decode new (drop 11 s) (unat w1) = Some ((st, body), s')"
      using flv_body_Decode_ex[OF new, of "drop 11 s" "unat w1"] by auto
    then show ?thesis
      using True new by (auto simp: DecodeTags_step_def rd Let_def tag_type_ok_iff)
  qed
qed

lemma DecodeTags_loop_total: "\<exists>ts. DecodeTags_loop t s = Some ts \<and> (\<forall>tag \<in> set ts. attributes tag = 0)"
proof (induction t s rule: DecodeTags_loop.induct)
  case (1 t s)
  show ?case
  proof (cases "length s \<le> 11")
    case True
    then show ?thesis by (simp add: DecodeTags_loop.simps)
  next
    case False
    then obtain r where r: "DecodeTags_step t s = Some r" "\<And>tag s'. r = Some (tag, s') \<Longrightarrow> attributes tag = 0"
      using DecodeTags_step_total[of s t] by auto
    show ?thesis
    proof (cases r)
      case (Some p)
      obtain tag s' where p: "p = (tag, s')" by (cases p)
      then obtain ts where "DecodeTags_loop t s' = Some ts" "\<forall>tag \<in> set ts. attributes tag = 0"
        using 1 False r(1) Some by blast
      then show ?thesis using False r Some p by (simp add: DecodeTags_loop.simps[of t s])
    qed (use False r in \<open>simp add: DecodeTags_loop.simps[of t s]\<close>)
  qed
qed

section \<open>Encoded aggregates\<close>

text \<open>A tag with its time that an aggregate can carry; the body decodes with \<open>READ_OK\<close>.\<close>

definition aggregable :: "int \<Rightarrow> flv_tag \<times> int \<Rightarrow> bool" where
  "aggregable first p \<longleftrightarrow> body_ok (tag_body (fst p)) \<and> length (body_bytes (tag_body (fst p))) < 2 ^ 24
     \<and> unat (tag_stream_id (fst p)) < 2 ^ 24 \<and> first \<le> snd p \<and> snd p - first < 2 ^ 31
     \<and> (case tag_body (fst p) of
          FlvAudio a \<Rightarrow> fst (DecodeAudioFlags (Audio_new\<lparr>au_data := au_data a\<rparr>)) = TAG_OK
        | FlvVideo v _ \<Rightarrow> map_option fst (DecodeVideoFlags (Video_new\<lparr>vi_data := vi_data v\<rparr>)) = Some TAG_OK
        | _ \<Rightarrow> True)"

text \<open>What comes out of an aggregate for such a tag.\<close>

definition plain_tag :: "int \<Rightarrow> int \<Rightarrow> flv_tag \<times> int \<Rightarrow> flv_tag" where
  "plain_tag start first p = \<lparr>attributes = 0, tag_timestamp_ms = start + (snd p - first),
     tag_stream_id = tag_stream_id (fst p), tag_body = with_moov (tag_body (fst p)) None\<rparr>"

text \<open>The bytes of one tag.\<close>

definition aggregate_bytes :: "int \<Rightarrow> flv_tag \<times> int \<Rightarrow> bytes" where
  "aggregate_bytes first p = (case p of (t, ts) \<Rightarrow>
     [flv_body_type (tag_body t)] @ WriteUInt24BE (flv_body_Size (tag_body t))
     @ WriteUInt24BE (word_of_int (ts - first) AND 0xFFFFFF) @ [word_of_int (drop_bit 24 (ts - first) AND 0xFF)]
     @ WriteUInt24BE (tag_stream_id t) @ body_bytes (tag_body t))"

lemma decode_status_ok:
  assumes "aggregable first (t, ts)" "FlvBody_new (flv_body_type (tag_body t)) = Some new"
  shows "flv_body_Decode new (body_bytes (tag_body t) @ s) (length (body_bytes (tag_body t)))
    = Some ((TAG_OK, with_moov (tag_body t) None), s)"
proof -
  have ok: "body_ok (tag_body t)" using assms(1) by (simp add: aggregable_def)
  obtain st where st: "flv_body_Decode new (body_bytes (tag_body t) @ s) (length (body_bytes (tag_body t)))
    = Some ((st, with_moov (tag_body t) None), s)"
    using flv_body_roundtrip(4)[OF ok, of s] assms(2) by auto
  moreover have "st = TAG_OK"
  proof (cases "tag_body t")
    case (FlvMetadata name u d)
    then show ?thesis
      using st ok Metadata_Decode_total[of "body_bytes (tag_body t) @ s"] flv_body_roundtrip(3)[OF ok] assms(2)
      by (auto simp: FlvBody_new_def flv_frametypes flv_body_Decode_def)
  qed (use st assms in \<open>auto simp: aggregable_def FlvBody_new_def flv_frametypes flv_body_Decode_def body_bytes_def
        flv_body_Encode_def Audio_Decode_def Video_Decode_def body_ok_def split: prod.splits\<close>)
  ultimately show ?thesis by simp
qed

lemma time_delta:
  fixes d :: int
  assumes "0 \<le> d" "d < 2 ^ 31"
  shows "sint ((word_of_int d AND 0xFFFFFF) OR push_bit 24 (ucast (word_of_int (drop_bit 24 d AND 0xFF) :: byte)) :: 32 word) = d"
  using time_fields(1)[of d] assms by (simp add: signed_of_int signed_take_bit_int_eq_self)

lemma DecodeTags_step_enc:
  assumes "aggregable first (t, ts)" "length tail = 4"
  shows "DecodeTags_step start (aggregate_bytes first (t, ts) @ tail @ s) = Some (Some (plain_tag start first (t, ts), s))"
proof -
  let ?b = "body_bytes (tag_body t)" and ?ty = "flv_body_type (tag_body t)"
  have ok: "body_ok (tag_body t)" using assms(1) by (simp add: aggregable_def)
  obtain new where new: "FlvBody_new ?ty = Some new" using flv_body_roundtrip(4)[OF ok] by blast
  note dec = decode_status_ok[OF assms(1) new, of "tail @ s"]
  have sz: "flv_body_Size (tag_body t) = word_of_nat (length ?b)" by (rule flv_body_roundtrip(2)[OF ok])
  have n: "unat (word_of_nat (length ?b) :: 32 word) = length ?b" "length ?b < 2 ^ 24"
    using assms(1) by (simp_all add: aggregable_def unat_of_nat take_bit_eq_mod)
  have m: "(w AND 0xFFFFFF) AND 0xFFFFFF = (w AND 0xFFFFFF :: 32 word)" for w by (simp add: and.assoc)
  have m8: "ucast (b :: byte) AND 0xFF = (ucast b :: 32 word)" for b
  proof -
    have "0xFF = (mask 8 :: 32 word)" by (simp add: mask_eq_exp_minus_1)
    show ?thesis unfolding \<open>0xFF = mask 8\<close>
      by (rule bit_word_eqI) (use bit_imp_le_length[of b] in \<open>auto simp: bit_simps\<close>)
  qed
  define d where "d = ts - first"
  have rd: "ReadUInt24BE (WriteUInt24BE (word_of_nat (length ?b)) @ x) = Some (word_of_nat (length ?b), x)"
    "ReadUInt24BE (WriteUInt24BE (word_of_int d AND 0xFFFFFF) @ x) = Some (word_of_int d AND 0xFFFFFF, x)"
    "ReadUInt24BE (WriteUInt24BE (tag_stream_id t) @ x) = Some (tag_stream_id t, x)" for x
    using n time_fields(3)[of d] assms(1) by (simp_all add: ReadUInt24BE_WriteUInt24BE aggregable_def)
  have bytes: "aggregate_bytes first (t, ts) @ tail @ s = ?ty # WriteUInt24BE (word_of_nat (length ?b))
     @ WriteUInt24BE (word_of_int d AND 0xFFFFFF) @ word_of_int (drop_bit 24 d AND 0xFF)
     # WriteUInt24BE (tag_stream_id t) @ ?b @ tail @ s"
    by (simp add: aggregate_bytes_def sz d_def)
  have tag: "plain_tag start first (t, ts) = \<lparr>attributes = 0, tag_timestamp_ms = start + d,
     tag_stream_id = tag_stream_id t, tag_body = with_moov (tag_body t) None\<rparr>"
    by (simp add: plain_tag_def d_def)
  have "0 \<le> d" "d < 2 ^ 31" using assms(1) by (simp_all add: aggregable_def d_def)
  note delta = time_delta[OF this]
  show ?thesis
    unfolding bytes tag
    using new dec assms(2) flv_body_type_cases[of "tag_body t"]
    by (auto simp: DecodeTags_step_def ReadByte_Cons rd n m m8 delta Let_def)
qed

fun add_tags :: "(flv_tag \<times> int) list \<Rightarrow> media_data \<Rightarrow> media_data option" where
  "add_tags [] e = Some e"
| "add_tags ((t, ts) # r) e = do { e1 \<leftarrow> EncodeAddTag t ts e; add_tags r e1 }"

lemma EncodeAddTag_eq:
  assumes "aggregable first (t, ts)" "first = (if first_tag_ts e = -1 then ts else first_tag_ts e)"
  shows "\<exists>e1. EncodeAddTag t ts e = Some e1
    \<and> md_data e1 = md_data e @ (if md_previous_tag_size e > 0 then WriteBE (md_previous_tag_size e) else [])
        @ aggregate_bytes first (t, ts)
    \<and> first_tag_ts e1 = first \<and> md_previous_tag_size e1 > 0 \<and> md_duration_ms e1 = ts - first"
proof -
  have ok: "body_ok (tag_body t)" using assms(1) by (simp add: aggregable_def)
  have "length (body_bytes (tag_body t)) < 2 ^ 24" using assms(1) by (simp add: aggregable_def)
  then have "(word_of_nat (11 + length (body_bytes (tag_body t))) :: 32 word) > 0"
    by (simp add: word_less_nat_alt unat_of_nat unat_word_ariths take_bit_eq_mod)
  then show ?thesis
    using flv_body_roundtrip(1)[OF ok] assms(2)
    by (simp add: EncodeAddTag_def Let_def aggregate_bytes_def)
qed

lemma DecodeTags_loop_enc:
  assumes "aggregable first p" "length tail = 4"
  shows "DecodeTags_loop start (aggregate_bytes first p @ tail @ s)
    = map_option ((#) (plain_tag start first p)) (DecodeTags_loop start s)"
proof -
  obtain t ts where p: "p = (t, ts)" by (cases p)
  have "body_bytes (tag_body t) \<noteq> []" using assms(1) p flv_body_roundtrip(3) by (simp add: aggregable_def)
  then have "\<not> length (aggregate_bytes first p @ tail @ s) \<le> 11"
    using assms(2) by (simp add: p aggregate_bytes_def)
  then show ?thesis
    using DecodeTags_step_enc[OF assms(1)[unfolded p] assms(2)] p
    by (simp add: DecodeTags_loop.simps[of start "aggregate_bytes first (t, ts) @ tail @ s"])
qed

lemma add_tags_decode:
  assumes "\<forall>p \<in> set ps. aggregable first p" "first_tag_ts e = first" "first \<noteq> -1" "md_previous_tag_size e > 0"
  shows "\<exists>e' rest. add_tags ps e = Some e' \<and> md_data (EncodeFinalize e') = md_data e @ rest
    \<and> 4 \<le> length rest \<and> DecodeTags_loop start (drop 4 rest) = Some (map (plain_tag start first) ps)"
  using assms
proof (induction ps arbitrary: e)
  case Nil
  then show ?case by (simp add: EncodeFinalize_def DecodeTags_loop.simps)
next
  case (Cons p ps)
  obtain t ts where p: "p = (t, ts)" by (cases p)
  have ag: "aggregable first (t, ts)" using Cons.prems(1) p by simp
  obtain e1 where e1: "EncodeAddTag t ts e = Some e1"
    "md_data e1 = md_data e @ WriteBE (md_previous_tag_size e) @ aggregate_bytes first (t, ts)"
    "first_tag_ts e1 = first" "md_previous_tag_size e1 > 0"
    using EncodeAddTag_eq[OF ag, of e] Cons.prems by auto
  obtain e' rest where r: "add_tags ps e1 = Some e'" "md_data (EncodeFinalize e') = md_data e1 @ rest"
    "4 \<le> length rest" "DecodeTags_loop start (drop 4 rest) = Some (map (plain_tag start first) ps)"
    using Cons.IH[of e1] Cons.prems e1 by auto
  have "rest = take 4 rest @ drop 4 rest" by simp
  then have "DecodeTags_loop start (aggregate_bytes first p @ rest) = Some (map (plain_tag start first) (p # ps))"
    using DecodeTags_loop_enc[of first p "take 4 rest" start "drop 4 rest"] ag p r(3,4) by simp
  then show ?case
    using p e1(1,2) r(1-3)
    by (intro exI[of _ e'] exI[of _ "WriteBE (md_previous_tag_size e) @ aggregate_bytes first p @ rest"]) simp
qed

lemma aggregate_roundtrip:
  assumes "\<forall>p \<in> set ((t, ts) # ps). aggregable ts p" "ts \<noteq> -1"
  shows "\<exists>e. add_tags ((t, ts) # ps) MediaDataEvent_new = Some e
    \<and> DecodeTags (md_data (EncodeFinalize e)) start = Some (map (plain_tag start ts) ((t, ts) # ps))"
proof -
  have ag: "aggregable ts (t, ts)" using assms(1) by simp
  obtain e1 where e1: "EncodeAddTag t ts MediaDataEvent_new = Some e1"
    "md_data e1 = aggregate_bytes ts (t, ts)" "first_tag_ts e1 = ts" "md_previous_tag_size e1 > 0"
    using EncodeAddTag_eq[OF ag, of MediaDataEvent_new] by (auto simp: MediaDataEvent_new_def)
  obtain e' rest where r: "add_tags ps e1 = Some e'" "md_data (EncodeFinalize e') = md_data e1 @ rest"
    "4 \<le> length rest" "DecodeTags_loop start (drop 4 rest) = Some (map (plain_tag start ts) ps)"
    using add_tags_decode[of ps ts e1 start] assms e1 by auto
  have "rest = take 4 rest @ drop 4 rest" by simp
  then have "DecodeTags_loop start (aggregate_bytes ts (t, ts) @ rest) = Some (map (plain_tag start ts) ((t, ts) # ps))"
    using DecodeTags_loop_enc[OF ag, of "take 4 rest" start "drop 4 rest"] r(3,4) by simp
  then show ?thesis using e1 r by (auto simp: DecodeTags_def aggregate_bytes_def)
qed

section \<open>Properties\<close>

text \<open>
  C30. The tags added to a \<open>MediaDataEvent\<close> are what \<open>DecodeTags\<close> gives back, in order: the
  bodies and stream ids are the same, the times keep their distance from the first tag and
  start at the time of the event.  Distances are up to \<open>2 ^ 31\<close> milliseconds.
\<close>

theorem MediaDataEvent_roundtrip:
  assumes "\<forall>p \<in> set ((t, ts) # ps). aggregable ts p" "ts \<noteq> -1"
  shows "\<exists>e. add_tags ((t, ts) # ps) MediaDataEvent_new = Some e
    \<and> ExtractFlvTags (MediaDataEvent (md_data (EncodeFinalize e))) start
        = Some (map (plain_tag start ts) ((t, ts) # ps))"
  using aggregate_roundtrip[OF assms, of start] by (simp add: ExtractFlvTags_def)

lemma sample_aggregable: "\<forall>p \<in> set (map (\<lambda>(t, ts). (t, 7)) sample_tags). aggregable 7 p"
proof -
  have w: "\<forall>p \<in> set sample_tags. body_ok (tag_body (fst p)) \<and> length (body_bytes (tag_body (fst p))) < 2 ^ 24"
    using sample_tags_ok by (simp add: writable_def flv_tag_ok_def)
  show ?thesis
    using w by (simp add: sample_tags_def aggregable_def DecodeAudioFlags_def Audio_new_def
        DecodeVideoFlags_def Video_new_def codec_simps ReadUInt24BE_eq Let_def)
qed

lemma MediaDataEvent_roundtrip_witness:
  "\<exists>e. add_tags (map (\<lambda>(t, ts). (t, 7)) sample_tags) MediaDataEvent_new = Some e
    \<and> ExtractFlvTags (MediaDataEvent (md_data (EncodeFinalize e))) 100
        = Some (map (plain_tag 100 7) (map (\<lambda>(t, ts). (t, 7)) sample_tags))"
proof -
  obtain t ps where ps: "map (\<lambda>(t, ts). (t, 7 :: int)) sample_tags = (t, 7) # ps"
    by (simp add: sample_tags_def)
  show ?thesis
    unfolding ps by (rule MediaDataEvent_roundtrip) (use sample_aggregable ps in auto)
qed

text \<open>
  The tags of a \<open>MediaDataEvent\<close>, whatever its bytes, never get attributes
  (\<open>DecodeTags\<close> does not call \<open>LearnAttributes\<close>, as \<open>DecodeTag\<close> of the audio and video events
  does): a serializer takes each of them for a signaling tag and writes nothing.
\<close>

theorem aggregate_tags_ignored:
  "case ExtractFlvTags (MediaDataEvent data) start of
     None \<Rightarrow> False
   | Some tags \<Rightarrow> list_all (\<lambda>t. attributes t = 0
        \<and> Serialize compose (TagFlv t) \<bar>ts\<bar> z = Some ((True, []), z)) tags"
proof -
  obtain tags where tags: "ExtractFlvTags (MediaDataEvent data) start = Some tags" "\<forall>t \<in> set tags. attributes t = 0"
    using DecodeTags_loop_total[of start data] by (cases "data = []") (auto simp: ExtractFlvTags_def DecodeTags_def)
  have "Serialize compose (TagFlv t) \<bar>ts\<bar> z = Some ((True, []), z)" if "attributes t = 0" for t
    using that by (simp add: Serialize_def SerializeInternal_def serialize_flv_def serialize_media_def
        has_attribute_def ATTR_AUDIO_def ATTR_VIDEO_def ATTR_METADATA_def)
  then show ?thesis using tags by (simp add: list_all_iff)
qed

end
