(* ===== verification/RecordIo.thy ===== *)
theory RecordIo
  imports Reader
begin

text \<open>
  \<^verbatim>\<open>whisperlib/common/io/logio/recordio.{h,cc}\<close>: records in blocks of a fixed size, with a
  checksum per block.  A record is written in pieces, each with a header of flags and size;
  a piece never crosses a block.  zlib is not part of the program: its checksum, and what
  its wrappers compute, are arguments.  Streams are their content.
\<close>

section \<open>Writer\<close>

definition HAS_CONT :: byte where "HAS_CONT = 1"
definition IS_ZIPPED :: byte where "IS_ZIPPED = 2"
definition IS_FIRST :: byte where "IS_FIRST = 4"

definition kBlockTrailerEnd :: int where "kBlockTrailerEnd = 12"
definition kRecordHeaderSize :: int where "kRecordHeaderSize = 4"
definition kMaximumRecordBlockSize :: int where "kMaximumRecordBlockSize = 0xFFFFFF"

record record_writer =
  rw_block_size :: int
  rw_dumpable_size :: int
  rw_content :: bytes
  rw_zlib :: bool
  content_record_count :: int
  rw_prev_block_crc :: "32 word"

text \<open>
  The percentage of the code is a \<^verbatim>\<open>float\<close>; \<open>dumpable\<close> is the size computed from it.  \<open>None\<close>
  is a failed \<^verbatim>\<open>CHECK\<close>, here and below.
\<close>

definition RecordWriter_new :: "int \<Rightarrow> bool \<Rightarrow> int \<Rightarrow> record_writer option" where
  "RecordWriter_new block_size deflate dumpable =
     (if block_size < kMaximumRecordBlockSize
      then Some \<lparr>rw_block_size = block_size, rw_dumpable_size = dumpable, rw_content = [],
                 rw_zlib = deflate, content_record_count = 0, rw_prev_block_crc = 0\<rparr>
      else None)"

definition PendingRecordCount :: "record_writer \<Rightarrow> int" where
  "PendingRecordCount w = content_record_count w"

definition leftover :: "record_writer \<Rightarrow> int" where
  "leftover w = int (length (rw_content w))"

text \<open>The block appended to the output, and the writer.\<close>

definition FinalizeContent :: "(bytes \<Rightarrow> 32 word) \<Rightarrow> record_writer \<Rightarrow> (bytes \<times> record_writer) option" where
  "FinalizeContent crc32 w =
     (if rw_content w = [] then Some ([], w)
      else
        let content_size = int (length (rw_content w));
            padding_size = rw_block_size w - content_size - kBlockTrailerEnd
        in if padding_size < 0 then None
           else
             let content = rw_content w @ replicate (nat padding_size) 0
                   @ WriteBE (word_of_int content_size :: 32 word) @ WriteBE (rw_prev_block_crc w);
                 crc = crc32 content
             in Some (content @ WriteBE crc,
                      w\<lparr>rw_content := [], rw_prev_block_crc := crc, content_record_count := 0\<rparr>))"

text \<open>Flags, size and data of a piece.\<close>

definition write_piece :: "byte \<Rightarrow> bytes \<Rightarrow> record_writer \<Rightarrow> record_writer" where
  "write_piece flags data w = w\<lparr>
     rw_content := rw_content w @ [flags] @ WriteUInt24BE (word_of_nat (length data)) @ data,
     content_record_count := content_record_count w + 1\<rparr>"

text \<open>
  The loop that both versions of \<^verbatim>\<open>AppendRecord\<close> have, from its body on: the output and the
  number of blocks in it.
\<close>

function append_pieces ::
    "(bytes \<Rightarrow> 32 word) \<Rightarrow> bool \<Rightarrow> bytes \<Rightarrow> record_writer \<Rightarrow> (bytes \<times> nat \<times> record_writer) option" where
  "append_pieces crc32 is_first data w =
     (let available = rw_block_size w - kBlockTrailerEnd - kRecordHeaderSize - int (length (rw_content w))
      in if available \<le> 0 then None
         else if int (length data) \<le> available
         then Some ([], 0, write_piece (if is_first then IS_FIRST else 0) data w)
         else
           let w1 = write_piece (HAS_CONT OR (if is_first then IS_FIRST else 0)) (take (nat available) data) w
           in case FinalizeContent crc32 w1 of
                None \<Rightarrow> None
              | Some (out, w2) \<Rightarrow>
                  map_option (\<lambda>(out', n, w3). (out @ out', Suc n, w3))
                    (append_pieces crc32 False (drop (nat available) data) w2))"
  by pat_completeness auto
termination
  by (relation "measure (\<lambda>(_, _, data, _). length data)") auto

declare append_pieces.simps [simp del]

definition maybe_dump ::
    "(bytes \<Rightarrow> 32 word) \<Rightarrow> bytes \<times> nat \<times> record_writer \<Rightarrow> ((bool \<times> bytes) \<times> record_writer) option" where
  "maybe_dump crc32 r = (case r of (out, n, w) \<Rightarrow>
     if int (length (rw_content w)) > rw_dumpable_size w then
       (case FinalizeContent crc32 w of
          None \<Rightarrow> None
        | Some (out', w') \<Rightarrow> Some ((Suc n \<ge> 1, out @ out'), w'))
     else Some ((n \<ge> 1, out), w))"

text \<open>\<^verbatim>\<open>AppendRecord\<close> of a stream that is not zipped any more: its loop runs while there is data.\<close>

definition append_stream ::
    "(bytes \<Rightarrow> 32 word) \<Rightarrow> bytes \<Rightarrow> record_writer \<Rightarrow> ((bool \<times> bytes) \<times> record_writer) option" where
  "append_stream crc32 data w =
     (case (if data = [] then Some ([], 0, w) else append_pieces crc32 True data w) of
        None \<Rightarrow> None
      | Some r \<Rightarrow> maybe_dump crc32 r)"

text \<open>\<^verbatim>\<open>AppendRecord(in, out)\<close>; \<open>None\<close> of \<open>deflate\<close> is an error of zlib.\<close>

definition AppendRecord ::
    "(bytes \<Rightarrow> 32 word) \<Rightarrow> (bytes \<Rightarrow> bytes option) \<Rightarrow> bytes \<Rightarrow> record_writer
       \<Rightarrow> ((bool \<times> bytes) \<times> record_writer) option" where
  "AppendRecord crc32 deflate data w =
     (if rw_zlib w then
        (case deflate data of None \<Rightarrow> None | Some zipped \<Rightarrow> append_stream crc32 zipped w)
      else append_stream crc32 data w)"

text \<open>\<^verbatim>\<open>AppendRecord(buffer, size, out)\<close>: its loop runs at least once.\<close>

definition AppendRecord_buffer ::
    "(bytes \<Rightarrow> 32 word) \<Rightarrow> (bytes \<Rightarrow> bytes option) \<Rightarrow> bytes \<Rightarrow> record_writer
       \<Rightarrow> ((bool \<times> bytes) \<times> record_writer) option" where
  "AppendRecord_buffer crc32 deflate data w =
     (if rw_zlib w then
        (case deflate data of None \<Rightarrow> None | Some zipped \<Rightarrow> append_stream crc32 zipped w)
      else case append_pieces crc32 True data w of
             None \<Rightarrow> None
           | Some r \<Rightarrow> maybe_dump crc32 r)"

section \<open>Reader\<close>

datatype read_result = RECORD_OK | RECORD_NO_DATA | RECORD_CRC_CORRUPTED | RECORD_ZIP_CORRUPTED
  | RECORD_CRC_BLOCK_BROKEN

record record_reader =
  rr_block_size :: int
  rr_content :: bytes
  record_content :: bytes
  rr_prev_block_crc :: "32 word"
  skip_record :: bool

definition RecordReader_new :: "int \<Rightarrow> record_reader" where
  "RecordReader_new block_size =
     \<lparr>rr_block_size = block_size, rr_content = [], record_content = [], rr_prev_block_crc = 0,
      skip_record = False\<rparr>"

definition RecordReader_Clear :: "record_reader \<Rightarrow> record_reader" where
  "RecordReader_Clear r = r\<lparr>rr_content := []\<rparr>"

text \<open>
  Blocks smaller than their trailer abort here.  A negative size given to \<^verbatim>\<open>AppendStream\<close>
  takes everything.
\<close>

definition ReadNextBlock ::
    "(bytes \<Rightarrow> 32 word) \<Rightarrow> bytes \<Rightarrow> record_reader \<Rightarrow> (read_result \<times> bytes \<times> record_reader) option" where
  "ReadNextBlock crc32 s r =
     (if rr_block_size r < kBlockTrailerEnd then None
      else if int (length s) < rr_block_size r then Some (RECORD_NO_DATA, s, r)
      else
        let n = nat (rr_block_size r - kBlockTrailerEnd) in do {
          (content_size :: 32 word, s1) \<leftarrow> ReadBE (drop n s);
          (prev_crc, s2) \<leftarrow> ReadBE s1;
          (crc, s3) \<leftarrow> ReadBE s2;
          let temp = take n s @ WriteBE content_size @ WriteBE prev_crc;
          (if crc32 temp \<noteq> crc \<or> sint content_size > rr_block_size r - kBlockTrailerEnd
           then Some (RECORD_CRC_CORRUPTED, s3, r)
           else
             Some (if prev_crc \<noteq> 0 \<and> rr_prev_block_crc r \<noteq> 0 \<and> prev_crc \<noteq> rr_prev_block_crc r
                   then RECORD_CRC_BLOCK_BROKEN else RECORD_OK,
                   s3,
                   r\<lparr>rr_prev_block_crc := crc,
                     rr_content := rr_content r @
                       (if sint content_size < 0 then temp else take (nat (sint content_size)) temp)\<rparr>)) })"

text \<open>The header of the next piece, under its \<^verbatim>\<open>CHECK\<close>.\<close>

definition read_piece_header :: "record_reader \<Rightarrow> (byte \<times> nat \<times> record_reader) option" where
  "read_piece_header r =
     (if length (rr_content r) < 4 then None
      else do {
        (flags, c1) \<leftarrow> ReadByte (rr_content r);
        (len, c2) \<leftarrow> ReadUInt24BE c1;
        Some (flags, unat len, r\<lparr>rr_content := c2\<rparr>) })"

definition SkipRecord :: "record_reader \<Rightarrow> record_reader option" where
  "SkipRecord r = do {
     (flags, len, r1) \<leftarrow> read_piece_header r;
     Some (r1\<lparr>rr_content := drop len (rr_content r1), skip_record := (flags AND HAS_CONT \<noteq> 0)\<rparr>) }"

lemma read_piece_header_length:
  assumes "read_piece_header r = Some (flags, len, r1)"
  shows "length (rr_content r1) < length (rr_content r)"
proof -
  obtain c1 w where "ReadByte (rr_content r) = Some (flags, c1)" "ReadUInt24BE c1 = Some (w, rr_content r1)"
    using assms by (auto simp: read_piece_header_def split: if_splits)
  then have "rr_content r1 = drop 3 c1" "rr_content r = flags # c1"
    by (cases "rr_content r"; auto simp: ReadByte_Cons ReadByte_Nil ReadUInt24BE_eq split: if_splits)+
  then show ?thesis by simp
qed

function skip_loop :: "record_reader \<Rightarrow> record_reader option" where
  "skip_loop r =
     (if skip_record r \<and> rr_content r \<noteq> [] then
        case SkipRecord r of None \<Rightarrow> None | Some r' \<Rightarrow> skip_loop r'
      else Some r)"
  by auto
termination
  by (relation "measure (\<lambda>r. length (rr_content r))")
     (auto simp: SkipRecord_def dest!: read_piece_header_length)

declare skip_loop.simps [simp del]

datatype read_step =
    StepReturn read_result bytes bytes record_reader
  | StepContinue bytes record_reader

text \<open>
  One turn of the loop of \<^verbatim>\<open>ReadRecord\<close>, past the block and the skipped pieces; \<open>wanted\<close> is
  \<open>out \<noteq> NULL\<close>, and a result carries the bytes appended to it.
\<close>

definition read_piece :: "(bytes \<Rightarrow> bytes \<times> bool) \<Rightarrow> bool \<Rightarrow> bytes \<Rightarrow> record_reader \<Rightarrow> read_step option" where
  "read_piece inflate wanted s r = do {
     (flags, len, r1) \<leftarrow> read_piece_header r;
     let data = take len (rr_content r1);
     let r2 = r1\<lparr>rr_content := drop len (rr_content r1)\<rparr>;
     (if flags AND IS_FIRST \<noteq> 0 \<and> record_content r \<noteq> [] then
        Some (StepReturn RECORD_CRC_CORRUPTED [] s (r2\<lparr>record_content := []\<rparr>))
      else if record_content r = [] \<and> flags AND IS_FIRST = 0 then Some (StepContinue s r2)
      else
        let r3 = r2\<lparr>record_content := record_content r @ data\<rparr>;
            done_r = r3\<lparr>record_content := []\<rparr> in
        if flags AND HAS_CONT \<noteq> 0 then Some (StepContinue s r3)
        else if \<not> wanted then Some (StepReturn RECORD_OK [] s done_r)
        else if flags AND IS_ZIPPED \<noteq> 0 then
          let (out, stream_end) = inflate (record_content r3)
          in Some (StepReturn (if stream_end then RECORD_OK else RECORD_ZIP_CORRUPTED) out s done_r)
        else Some (StepReturn RECORD_OK (record_content r3) s done_r)) }"

definition read_record_step ::
    "(bytes \<Rightarrow> 32 word) \<Rightarrow> (bytes \<Rightarrow> bytes \<times> bool) \<Rightarrow> bool \<Rightarrow> bytes \<Rightarrow> record_reader \<Rightarrow> read_step option" where
  "read_record_step crc32 inflate wanted s r =
     (let after_block = (\<lambda>s r. case skip_loop r of
            None \<Rightarrow> None
          | Some r' \<Rightarrow> if rr_content r' = [] then Some (StepContinue s r') else read_piece inflate wanted s r')
      in if rr_content r = [] then
           (case ReadNextBlock crc32 s r of
              None \<Rightarrow> None
            | Some (ret, s', r') \<Rightarrow>
                if ret = RECORD_CRC_BLOCK_BROKEN \<and> record_content r' \<noteq> []
                then after_block s' (r'\<lparr>skip_record := True\<rparr>)
                else if ret \<noteq> RECORD_OK then Some (StepReturn ret [] s' r')
                else after_block s' r')
         else after_block s r)"

lemma ReadNextBlock_length:
  assumes "ReadNextBlock crc32 s r = Some (ret, s', r')" "ret \<noteq> RECORD_NO_DATA"
  shows "length s' < length s"
proof -
  define t where "t = drop (nat (rr_block_size r - kBlockTrailerEnd)) s"
  obtain w1 w2 w3 :: "32 word" and s1 s2 where
    "ReadBE t = Some (w1, s1)" "ReadBE s1 = Some (w2, s2)" "ReadBE s2 = Some (w3, s')"
    using assms by (auto simp: ReadNextBlock_def Let_def t_def split: if_splits)
  then have "length s' < length t" by (auto simp: ReadBE_eq split: if_splits)
  then show ?thesis by (simp add: t_def)
qed

lemma skip_loop_length:
  "skip_loop r = Some r' \<Longrightarrow> length (rr_content r') \<le> length (rr_content r)
     \<and> (skip_record r \<and> rr_content r \<noteq> [] \<longrightarrow> length (rr_content r') < length (rr_content r))"
proof (induction r rule: skip_loop.induct)
  case (1 r)
  show ?case
  proof (cases "skip_record r \<and> rr_content r \<noteq> []")
    case False
    then show ?thesis using 1(2) by (auto simp: skip_loop.simps[of r])
  next
    case True
    then obtain r1 where r1: "SkipRecord r = Some r1" "skip_loop r1 = Some r'"
      using 1(2) by (auto simp: skip_loop.simps[of r] split: option.splits)
    then have "length (rr_content r1) < length (rr_content r)"
      by (auto simp: SkipRecord_def dest!: read_piece_header_length)
    then show ?thesis using 1(1)[OF True r1] by simp
  qed
qed

lemma read_piece_continue:
  assumes "read_piece inflate wanted s r = Some (StepContinue s' r')"
  shows "s' = s \<and> length (rr_content r') < length (rr_content r)"
proof -
  obtain flags len r1 where h: "read_piece_header r = Some (flags, len, r1)"
    using assms by (auto simp: read_piece_def)
  show ?thesis
    using assms h read_piece_header_length[OF h]
    by (auto simp: read_piece_def Let_def split: if_splits prod.splits)
qed

lemma read_record_step_continue:
  assumes "read_record_step crc32 inflate wanted s r = Some (StepContinue s' r')"
  shows "length s' < length s \<or> s' = s \<and> length (rr_content r') < length (rr_content r)"
proof (cases "rr_content r = []")
  case True
  then obtain ret s1 r1 where b: "ReadNextBlock crc32 s r = Some (ret, s1, r1)"
    using assms by (auto simp: read_record_step_def Let_def split: option.splits)
  have "ret \<noteq> RECORD_NO_DATA" "s' = s1"
    using assms b True
    by (auto simp: read_record_step_def Let_def dest!: read_piece_continue split: option.splits if_splits)
  then show ?thesis using ReadNextBlock_length[OF b] by simp
next
  case False
  then obtain r1 where r1: "skip_loop r = Some r1"
    "if rr_content r1 = [] then s' = s \<and> r' = r1 else read_piece inflate wanted s r1 = Some (StepContinue s' r')"
    using assms by (auto simp: read_record_step_def Let_def split: option.splits if_splits)
  then show ?thesis
    using False skip_loop_length[OF r1(1)] read_piece_continue[of inflate wanted s r1 s' r']
    by (auto split: if_splits)
qed

function ReadRecord ::
    "(bytes \<Rightarrow> 32 word) \<Rightarrow> (bytes \<Rightarrow> bytes \<times> bool) \<Rightarrow> bool \<Rightarrow> bytes \<Rightarrow> record_reader
       \<Rightarrow> ((read_result \<times> bytes) \<times> bytes \<times> record_reader) option" where
  "ReadRecord crc32 inflate wanted s r =
     (case read_record_step crc32 inflate wanted s r of
        None \<Rightarrow> None
      | Some (StepReturn ret out s' r') \<Rightarrow> Some ((ret, out), s', r')
      | Some (StepContinue s' r') \<Rightarrow> ReadRecord crc32 inflate wanted s' r')"
  by pat_completeness auto
termination
  by (relation "measures [\<lambda>(_, _, _, s, _). length s, \<lambda>(_, _, _, _, r). length (rr_content r)]")
     (auto dest: read_record_step_continue)

declare ReadRecord.simps [simp del]

end
