(* ===== verification/RecordLaws.thy ===== *)
theory RecordLaws
  imports RecordIo
begin

text \<open>
  Records written by \<^verbatim>\<open>RecordWriter\<close> and read by \<^verbatim>\<open>RecordReader\<close>: the blocks of a file are
  described by the pieces in them, and the pieces of a record by its fragments.
\<close>

section \<open>Pieces and blocks\<close>

type_synonym piece = "byte \<times> bytes"

definition enc_piece :: "piece \<Rightarrow> bytes" where
  "enc_piece p = [fst p] @ WriteUInt24BE (word_of_nat (length (snd p))) @ snd p"

definition enc_pieces :: "piece list \<Rightarrow> bytes" where
  "enc_pieces ps = concat (map enc_piece ps)"

lemma enc_pieces_simps [simp]:
  "enc_pieces [] = []" "enc_pieces (p # ps) = enc_piece p @ enc_pieces ps"
  "enc_pieces (ps @ qs) = enc_pieces ps @ enc_pieces qs"
  by (simp_all add: enc_pieces_def)

lemma enc_pieces_Nil [simp]: "enc_pieces ps = [] \<longleftrightarrow> ps = []"
  by (cases ps) (simp_all add: enc_piece_def)

lemma enc_piece_not_Nil [simp]: "enc_piece p \<noteq> []"
  by (simp add: enc_piece_def)

lemma length_enc_piece [simp]: "length (enc_piece p) = 4 + length (snd p)"
  by (simp add: enc_piece_def)

text \<open>A list of pieces that a block of size \<open>B\<close> has room for.\<close>

definition fits :: "int \<Rightarrow> piece list \<Rightarrow> bool" where
  "fits B ps \<longleftrightarrow> int (length (enc_pieces ps)) \<le> B - 12"

definition block_content :: "int \<Rightarrow> 32 word \<Rightarrow> piece list \<Rightarrow> bytes" where
  "block_content B prev ps = enc_pieces ps @ replicate (nat (B - int (length (enc_pieces ps)) - 12)) 0
     @ WriteBE (word_of_int (int (length (enc_pieces ps))) :: 32 word) @ WriteBE prev"

fun enc_blocks :: "(bytes \<Rightarrow> 32 word) \<Rightarrow> int \<Rightarrow> 32 word \<Rightarrow> piece list list \<Rightarrow> bytes" where
  "enc_blocks crc32 B prev [] = []"
| "enc_blocks crc32 B prev (b # bs) =
     (let content = block_content B prev b; crc = crc32 content
      in content @ WriteBE crc @ enc_blocks crc32 B crc bs)"

text \<open>The checksum of the last block.\<close>

fun last_crc :: "(bytes \<Rightarrow> 32 word) \<Rightarrow> int \<Rightarrow> 32 word \<Rightarrow> piece list list \<Rightarrow> 32 word" where
  "last_crc crc32 B prev [] = prev"
| "last_crc crc32 B prev (b # bs) = last_crc crc32 B (crc32 (block_content B prev b)) bs"

lemma enc_blocks_append:
  "enc_blocks crc32 B prev (bs @ cs) = enc_blocks crc32 B prev bs @ enc_blocks crc32 B (last_crc crc32 B prev bs) cs"
  by (induction bs arbitrary: prev) (auto simp: Let_def)

lemma last_crc_append [simp]:
  "last_crc crc32 B prev (bs @ cs) = last_crc crc32 B (last_crc crc32 B prev bs) cs"
  by (induction bs arbitrary: prev) auto

lemma length_block_content: "fits B b \<Longrightarrow> int (length (block_content B prev b)) = B - 4"
  by (simp add: block_content_def fits_def)

lemma length_enc_blocks:
  "\<forall>b \<in> set bs. fits B b \<Longrightarrow> int (length (enc_blocks crc32 B prev bs)) = B * int (length bs)"
  by (induction bs arbitrary: prev) (auto simp: Let_def length_block_content algebra_simps)

text \<open>The pieces of a record.\<close>

fun fragments :: "bool \<Rightarrow> bytes \<Rightarrow> piece list \<Rightarrow> bool" where
  "fragments first x [] = False"
| "fragments first x [(f, d)] \<longleftrightarrow> f = (if first then IS_FIRST else 0) \<and> d = x"
| "fragments first x ((f, d) # ps) \<longleftrightarrow> f = (HAS_CONT OR (if first then IS_FIRST else 0)) \<and> d \<noteq> []
     \<and> (\<exists>y. x = d @ y \<and> fragments False y ps)"

lemma fragments_Cons:
  "ps \<noteq> [] \<Longrightarrow> fragments first x ((f, d) # ps) \<longleftrightarrow> f = (HAS_CONT OR (if first then IS_FIRST else 0)) \<and> d \<noteq> []
     \<and> (\<exists>y. x = d @ y \<and> fragments False y ps)"
  by (cases ps) auto

section \<open>Writer\<close>

text \<open>A writer of blocks of size \<open>B\<close> that has the pieces \<open>ps\<close> in its block, after the checksum \<open>prev\<close>.\<close>

definition writer_holds :: "bool \<Rightarrow> int \<Rightarrow> int \<Rightarrow> record_writer \<Rightarrow> 32 word \<Rightarrow> piece list \<Rightarrow> bool" where
  "writer_holds zl B dump w prev ps \<longleftrightarrow> rw_block_size w = B \<and> rw_dumpable_size w = dump \<and> rw_zlib w = zl
     \<and> rw_content w = enc_pieces ps \<and> rw_prev_block_crc w = prev \<and> fits B ps
     \<and> (ps = [] \<longrightarrow> content_record_count w = 0)"

lemma FinalizeContent_holds:
  assumes "writer_holds zl B dump w prev ps" "ps \<noteq> []"
  shows "\<exists>w'. FinalizeContent crc32 w = Some (enc_blocks crc32 B prev [ps], w')
     \<and> writer_holds zl B dump w' (last_crc crc32 B prev [ps]) []"
proof -
  have "\<not> B - int (length (enc_pieces ps)) - 12 < 0" "0 \<le> B - 12"
    using assms(1) by (auto simp: writer_holds_def fits_def)
  then show ?thesis
    using assms by (auto simp: FinalizeContent_def writer_holds_def Let_def block_content_def kBlockTrailerEnd_def fits_def)
qed

lemma write_piece_holds:
  assumes "writer_holds zl B dump w prev ps" "int (length d) \<le> B - 16 - int (length (enc_pieces ps))"
  shows "writer_holds zl B dump (write_piece f d w) prev (ps @ [(f, d)])"
  using assms by (simp add: writer_holds_def write_piece_def enc_piece_def fits_def)

lemma append_pieces_holds:
  assumes "writer_holds zl B dump w prev ps" "int (length (enc_pieces ps)) < B - 16"
  shows "\<exists>blocks qs fr w'. append_pieces crc32 first x w = Some (enc_blocks crc32 B prev blocks, length blocks, w')
     \<and> writer_holds zl B dump w' (last_crc crc32 B prev blocks) qs
     \<and> (\<forall>b \<in> set blocks. b \<noteq> [] \<and> fits B b) \<and> qs \<noteq> []
     \<and> fragments first x fr \<and> ps @ fr = concat blocks @ qs
     \<and> (int (length x) \<le> B - 16 - int (length (enc_pieces ps)) \<longrightarrow> fr = [(if first then IS_FIRST else 0, x)])"
  using assms
proof (induction crc32 first x w arbitrary: prev ps rule: append_pieces.induct)
  case (1 crc32 first x w)
  let ?av = "rw_block_size w - kBlockTrailerEnd - kRecordHeaderSize - int (length (rw_content w))"
  have av: "?av = B - 16 - int (length (enc_pieces ps))" "\<not> ?av \<le> 0"
    using 1(2,3) by (simp_all add: writer_holds_def kBlockTrailerEnd_def kRecordHeaderSize_def)
  show ?case
  proof (cases "int (length x) \<le> ?av")
    case True
    let ?f = "if first then IS_FIRST else 0"
    have "writer_holds zl B dump (write_piece ?f x w) prev (ps @ [(?f, x)])"
      by (rule write_piece_holds[OF 1(2)]) (use True av in simp)
    then show ?thesis
      using av True
      by (intro exI[of _ "[]"] exI[of _ "ps @ [(?f, x)]"] exI[of _ "[(?f, x)]"] exI[of _ "write_piece ?f x w"])
         (simp add: append_pieces.simps[of crc32 first x w] Let_def)
  next
    case False
    let ?f = "HAS_CONT OR (if first then IS_FIRST else 0)" and ?d = "take (nat ?av) x"
    let ?w1 = "write_piece ?f ?d w"
    have w1: "writer_holds zl B dump ?w1 prev (ps @ [(?f, ?d)])"
      by (rule write_piece_holds[OF 1(2)]) (use av in simp)
    obtain w2 where w2: "FinalizeContent crc32 ?w1 = Some (enc_blocks crc32 B prev [ps @ [(?f, ?d)]], w2)"
      "writer_holds zl B dump w2 (last_crc crc32 B prev [ps @ [(?f, ?d)]]) []"
      using FinalizeContent_holds[OF w1] by auto
    have room: "int (length (enc_pieces [])) < B - 16" using 1(3) by simp
    obtain blocks qs fr w' where r:
      "append_pieces crc32 False (drop (nat ?av) x) w2
         = Some (enc_blocks crc32 B (last_crc crc32 B prev [ps @ [(?f, ?d)]]) blocks, length blocks, w')"
      "writer_holds zl B dump w' (last_crc crc32 B (last_crc crc32 B prev [ps @ [(?f, ?d)]]) blocks) qs"
      "\<forall>b \<in> set blocks. b \<noteq> [] \<and> fits B b" "qs \<noteq> []" "fragments False (drop (nat ?av) x) fr" "[] @ fr = concat blocks @ qs"
      using 1(1)[OF refl av(2) False refl w2(1) refl w2(2) room] by blast
    have "fr \<noteq> []" using r(5) by auto
    then have fr: "fragments first x ((?f, ?d) # fr)"
      using r(5) av False by (subst fragments_Cons) (auto intro!: exI[of _ "drop (nat ?av) x"])
    have fit: "fits B (ps @ [(?f, ?d)])" using w1 by (simp add: writer_holds_def)
    have "append_pieces crc32 first x w = Some (enc_blocks crc32 B prev ((ps @ [(?f, ?d)]) # blocks), Suc (length blocks), w')"
      using av False w2(1) r(1) by (simp add: append_pieces.simps[of crc32 first x w] Let_def)
    moreover have "\<not> int (length x) \<le> B - 16 - int (length (enc_pieces ps))" using False av(1) by simp
    ultimately show ?thesis
      using r fr fit
      by (intro exI[of _ "(ps @ [(?f, ?d)]) # blocks"] exI[of _ qs] exI[of _ "(?f, ?d) # fr"] exI[of _ w']) simp
  qed
qed

text \<open>
  Records one after the other, all blocks in the output; \<open>(True, x)\<close> is a call with a buffer,
  \<open>(False, x)\<close> one with a stream.
\<close>

fun write_records ::
    "(bytes \<Rightarrow> 32 word) \<Rightarrow> (bytes \<Rightarrow> bytes option) \<Rightarrow> (bool \<times> bytes) list \<Rightarrow> record_writer
       \<Rightarrow> (bytes \<times> record_writer) option" where
  "write_records crc32 deflate [] w = FinalizeContent crc32 w"
| "write_records crc32 deflate ((buf, x) # xs) w = do {
     ((_, out), w1) \<leftarrow> (if buf then AppendRecord_buffer crc32 deflate x w else AppendRecord crc32 deflate x w);
     (rest, w2) \<leftarrow> write_records crc32 deflate xs w1;
     Some (out @ rest, w2) }"

text \<open>The bytes that a writer with or without zlib stores of a record, if it stores it at all.\<close>

definition stored :: "bool \<Rightarrow> (bytes \<Rightarrow> bytes option) \<Rightarrow> bool \<times> bytes \<Rightarrow> bytes" where
  "stored zl deflate p = (if zl then the (deflate (snd p)) else snd p)"

definition storable :: "bool \<Rightarrow> (bytes \<Rightarrow> bytes option) \<Rightarrow> bool \<times> bytes \<Rightarrow> bool" where
  "storable zl deflate p \<longleftrightarrow> (if zl then (\<exists>z. deflate (snd p) = Some z \<and> z \<noteq> []) else fst p \<or> snd p \<noteq> [])"

lemma AppendRecord_stored:
  assumes "storable (rw_zlib w) deflate (buf, x)"
  shows "(if buf then AppendRecord_buffer crc32 deflate x w else AppendRecord crc32 deflate x w)
    = (case append_pieces crc32 True (stored (rw_zlib w) deflate (buf, x)) w of
         None \<Rightarrow> None | Some r \<Rightarrow> maybe_dump crc32 r)"
  using assms by (auto simp: storable_def stored_def AppendRecord_buffer_def AppendRecord_def append_stream_def)

lemma append_dump_holds:
  assumes w: "writer_holds zl B dump w prev ps" and ps: "int (length (enc_pieces ps)) \<le> dump"
    and B: "0 \<le> dump" "dump < B - 16"
  shows "\<exists>ready blocks qs fr w'.
     (case append_pieces crc32 True x w of None \<Rightarrow> None | Some r \<Rightarrow> maybe_dump crc32 r)
       = Some ((ready, enc_blocks crc32 B prev blocks), w')
     \<and> writer_holds zl B dump w' (last_crc crc32 B prev blocks) qs
     \<and> int (length (enc_pieces qs)) \<le> dump
     \<and> (\<forall>b \<in> set blocks. b \<noteq> [] \<and> fits B b) \<and> fragments True x fr \<and> ps @ fr = concat blocks @ qs
     \<and> (ready \<longleftrightarrow> blocks \<noteq> []) \<and> (int (length x) + dump \<le> B - 16 \<longrightarrow> fr = [(IS_FIRST, x)])"
proof -
  obtain blocks qs fr w1 where a:
    "append_pieces crc32 True x w = Some (enc_blocks crc32 B prev blocks, length blocks, w1)"
    "writer_holds zl B dump w1 (last_crc crc32 B prev blocks) qs"
    "\<forall>b \<in> set blocks. b \<noteq> [] \<and> fits B b" "qs \<noteq> []" "fragments True x fr" "ps @ fr = concat blocks @ qs"
    "int (length x) \<le> B - 16 - int (length (enc_pieces ps)) \<longrightarrow> fr = [(IS_FIRST, x)]"
    using append_pieces_holds[OF w, of crc32 True x] ps B by auto
  have one: "int (length x) + dump \<le> B - 16 \<longrightarrow> fr = [(IS_FIRST, x)]" using a(7) ps by linarith
  have z: "rw_dumpable_size w1 = dump" "rw_content w1 = enc_pieces qs" "fits B qs"
    using a(2) by (simp_all add: writer_holds_def)
  show ?thesis
  proof (cases "int (length (enc_pieces qs)) > dump")
    case False
    then show ?thesis
      using a(1-6) one z by (intro exI[of _ "length blocks \<ge> 1"] exI[of _ blocks] exI[of _ qs] exI[of _ fr] exI[of _ w1])
        (auto simp: maybe_dump_def Suc_le_eq)
  next
    case True
    obtain w' where w': "FinalizeContent crc32 w1 = Some (enc_blocks crc32 B (last_crc crc32 B prev blocks) [qs], w')"
      "writer_holds zl B dump w' (last_crc crc32 B (last_crc crc32 B prev blocks) [qs]) []"
      using FinalizeContent_holds[OF a(2,4)] by blast
    then show ?thesis
      using a(1-6) one z True B
      by (intro exI[of _ True] exI[of _ "blocks @ [qs]"] exI[of _ "[]"] exI[of _ fr] exI[of _ w'])
         (auto simp: maybe_dump_def enc_blocks_append)
  qed
qed

lemma write_records_holds:
  assumes "writer_holds zl B dump w prev ps" "int (length (enc_pieces ps)) \<le> dump" "0 \<le> dump" "dump < B - 16"
    and "\<forall>p \<in> set xs. storable zl deflate p"
  shows "\<exists>blocks frs w'. write_records crc32 deflate xs w = Some (enc_blocks crc32 B prev blocks, w')
     \<and> leftover w' = 0
     \<and> (\<forall>b \<in> set blocks. b \<noteq> [] \<and> fits B b) \<and> list_all2 (fragments True) (map (stored zl deflate) xs) frs
     \<and> ps @ concat frs = concat blocks"
  using assms
proof (induction xs arbitrary: w prev ps)
  case Nil
  then show ?case
  proof (cases "ps = []")
    case True
    then have "rw_content w = []" using Nil by (simp add: writer_holds_def)
    then show ?thesis
      using True by (intro exI[of _ "[]"] exI[of _ "[]"] exI[of _ w]) (simp add: FinalizeContent_def leftover_def)
  next
    case False
    obtain w' where "FinalizeContent crc32 w = Some (enc_blocks crc32 B prev [ps], w')"
      "writer_holds zl B dump w' (last_crc crc32 B prev [ps]) []"
      using FinalizeContent_holds[OF Nil(1) False] by blast
    then show ?thesis
      using False Nil(1) by (intro exI[of _ "[ps]"] exI[of _ "[]"] exI[of _ w']) (simp add: leftover_def writer_holds_def)
  qed
next
  case (Cons x xs)
  obtain buf y where x: "x = (buf, y)" by (cases x)
  obtain ready blocks qs fr w1 where a:
    "(case append_pieces crc32 True (stored zl deflate x) w of None \<Rightarrow> None | Some r \<Rightarrow> maybe_dump crc32 r)
       = Some ((ready, enc_blocks crc32 B prev blocks), w1)"
    "writer_holds zl B dump w1 (last_crc crc32 B prev blocks) qs" "int (length (enc_pieces qs)) \<le> dump"
    "\<forall>b \<in> set blocks. b \<noteq> [] \<and> fits B b" "fragments True (stored zl deflate x) fr" "ps @ fr = concat blocks @ qs"
    using append_dump_holds[OF Cons.prems(1-4), of crc32 "stored zl deflate x"] by blast
  have ap: "(if buf then AppendRecord_buffer crc32 deflate y w else AppendRecord crc32 deflate y w)
      = Some ((ready, enc_blocks crc32 B prev blocks), w1)"
    using AppendRecord_stored[of w deflate buf y crc32] a(1) Cons.prems(1,5) x by (simp add: writer_holds_def)
  obtain cs frs w' where r: "write_records crc32 deflate xs w1 = Some (enc_blocks crc32 B (last_crc crc32 B prev blocks) cs, w')"
    "leftover w' = 0" "\<forall>b \<in> set cs. b \<noteq> [] \<and> fits B b" "list_all2 (fragments True) (map (stored zl deflate) xs) frs"
    "qs @ concat frs = concat cs"
    using Cons.IH[OF a(2,3) Cons.prems(3,4)] Cons.prems(5) by auto
  have "ps @ concat (fr # frs) = concat (blocks @ cs)"
  proof -
    have "ps @ concat (fr # frs) = (ps @ fr) @ concat frs" by simp
    also have "\<dots> = concat blocks @ qs @ concat frs" by (simp only: a(6) append_assoc)
    also have "\<dots> = concat (blocks @ cs)" by (simp only: r(5) concat_append)
    finally show ?thesis .
  qed
  moreover have "write_records crc32 deflate (x # xs) w = Some (enc_blocks crc32 B prev (blocks @ cs), w')"
    using ap r(1) x by (simp add: enc_blocks_append)
  moreover have "\<forall>b \<in> set (blocks @ cs). b \<noteq> [] \<and> fits B b" using a(4) r(3) by auto
  moreover have "list_all2 (fragments True) (map (stored zl deflate) (x # xs)) (fr # frs)" using a(5) r(4) by simp
  ultimately show ?case using r(2) by blast
qed

section \<open>Reader\<close>

text \<open>
  The reader of blocks of size \<open>B\<close> between two calls: what is left of its block is the
  pieces \<open>ps\<close>, the input starts with \<open>blocks\<close>, and \<open>acc\<close> is read of the current record.
\<close>

definition reader_holds ::
    "(bytes \<Rightarrow> 32 word) \<Rightarrow> int \<Rightarrow> bytes \<Rightarrow> piece list \<Rightarrow> piece list list \<Rightarrow> bytes \<Rightarrow> record_reader \<Rightarrow> bytes \<Rightarrow> bool" where
  "reader_holds crc32 B acc ps blocks tail r s \<longleftrightarrow>
     rr_block_size r = B \<and> B < 2 ^ 24 \<and> record_content r = acc \<and> \<not> skip_record r
     \<and> rr_content r = enc_pieces ps \<and> fits B ps \<and> (\<forall>b \<in> set blocks. b \<noteq> [] \<and> fits B b)
     \<and> s = enc_blocks crc32 B (rr_prev_block_crc r) blocks @ tail"

text \<open>The block at the head of the input, written after a block with the checksum \<open>q\<close>.\<close>

lemma ReadNextBlock_block:
  assumes fit: "fits B b" "B < 2 ^ 24" "rr_block_size r = B" "rr_content r = []"
    and s: "s = block_content B q b @ WriteBE (crc32 (block_content B q b)) @ rest"
  shows "ReadNextBlock crc32 s r =
    Some (if q \<noteq> 0 \<and> rr_prev_block_crc r \<noteq> 0 \<and> q \<noteq> rr_prev_block_crc r then RECORD_CRC_BLOCK_BROKEN else RECORD_OK,
          rest, r\<lparr>rr_prev_block_crc := crc32 (block_content B q b), rr_content := enc_pieces b\<rparr>)"
proof -
  let ?n = "int (length (enc_pieces b))" and ?c = "block_content B q b"
  have n: "?n \<le> B - 12" "sint (word_of_int ?n :: 32 word) = ?n"
    using fit(1,2) by (simp_all add: fits_def signed_of_nat signed_take_bit_int_eq_self)
  define front where "front = enc_pieces b @ replicate (nat (B - ?n - 12)) 0"
  have c: "?c = front @ WriteBE (word_of_int ?n :: 32 word) @ WriteBE q" by (simp add: block_content_def front_def)
  have front: "length front = nat (B - 12)" using n by (simp add: front_def nat_diff_distrib)
  have dr: "drop (nat (B - 12)) s = WriteBE (word_of_int ?n :: 32 word) @ WriteBE q @ WriteBE (crc32 ?c) @ rest"
    and tk: "take (nat (B - 12)) s = front" by (simp_all add: s c front)
  have len: "\<not> int (length s) < B" using n by (simp add: s c front)
  have c': "front @ WriteBE (word_of_nat (length (enc_pieces b)) :: 32 word) @ WriteBE q = ?c" by (simp add: c)
  have tk2: "take (length (enc_pieces b)) ?c = enc_pieces b" by (simp add: c front_def)
  show ?thesis
    using n fit(3,4) len
    by (simp add: ReadNextBlock_def kBlockTrailerEnd_def dr tk codec_simps Let_def tk2 c' del: take_append)
qed

lemma ReadNextBlock_enc:
  assumes "reader_holds crc32 B acc [] (b # blocks) tail r s"
  shows "\<exists>r' s'. ReadNextBlock crc32 s r = Some (RECORD_OK, s', r') \<and> reader_holds crc32 B acc b blocks tail r' s'"
proof -
  let ?c = "block_content B (rr_prev_block_crc r) b"
  have "ReadNextBlock crc32 s r = Some (RECORD_OK, enc_blocks crc32 B (crc32 ?c) blocks @ tail,
      r\<lparr>rr_prev_block_crc := crc32 ?c, rr_content := enc_pieces b\<rparr>)"
    using assms ReadNextBlock_block[of B b r s "rr_prev_block_crc r" crc32 "enc_blocks crc32 B (crc32 ?c) blocks @ tail"]
    by (simp add: reader_holds_def Let_def)
  then show ?thesis using assms by (auto simp: reader_holds_def)
qed

text \<open>One turn of the loop comes to the next piece, from the rest of the block or from the next one.\<close>

lemma read_record_step_piece:
  assumes "reader_holds crc32 B acc ps blocks tail r s" "ps @ concat blocks = p # P"
  shows "\<exists>qs cs r1 s1. read_record_step crc32 inflate wanted s r = read_piece inflate wanted s1 r1
     \<and> reader_holds crc32 B acc (p # qs) cs tail r1 s1 \<and> P = qs @ concat cs"
proof (cases ps)
  case (Cons q qs)
  then have "rr_content r \<noteq> []" "skip_loop r = Some r"
    using assms(1) by (auto simp: reader_holds_def skip_loop.simps)
  then show ?thesis
    using assms Cons by (intro exI[of _ qs] exI[of _ blocks] exI[of _ r] exI[of _ s])
      (auto simp: read_record_step_def Let_def)
next
  case Nil
  then obtain b cs where blocks: "blocks = b # cs" using assms(2) by (cases blocks) auto
  then obtain r1 s1 where r1: "ReadNextBlock crc32 s r = Some (RECORD_OK, s1, r1)"
      "reader_holds crc32 B acc b cs tail r1 s1"
    using ReadNextBlock_enc assms(1) Nil by blast
  obtain qs where b: "b = p # qs"
    using assms(1,2) Nil blocks by (cases b) (auto simp: reader_holds_def)
  have "rr_content r = []" "rr_content r1 \<noteq> []" "skip_loop r1 = Some r1"
    using assms(1) r1(2) Nil b by (auto simp: reader_holds_def skip_loop.simps)
  then show ?thesis
    using assms(2) Nil blocks r1 b by (intro exI[of _ qs] exI[of _ cs] exI[of _ r1] exI[of _ s1])
      (auto simp: read_record_step_def Let_def)
qed

lemma read_piece_header_piece:
  assumes "rr_content r = enc_pieces ((f, d) # ps)" "length d < 2 ^ 24"
  shows "read_piece_header r = Some (f, length d, r\<lparr>rr_content := d @ enc_pieces ps\<rparr>)"
proof -
  have "unat (word_of_nat (length d) :: 32 word) = length d"
    using assms(2) by (simp add: unat_of_nat take_bit_eq_mod)
  then show ?thesis
    using assms by (simp add: read_piece_header_def enc_piece_def ReadByte_Cons ReadUInt24BE_WriteUInt24BE)
qed

lemma read_piece_header_enc:
  assumes "reader_holds crc32 B acc ((f, d) # ps) blocks tail r s"
  shows "read_piece_header r = Some (f, length d, r\<lparr>rr_content := d @ enc_pieces ps\<rparr>)"
  by (rule read_piece_header_piece) (use assms in \<open>auto simp: reader_holds_def fits_def\<close>)

lemma flag_bits:
  "IS_FIRST AND IS_FIRST \<noteq> 0" "(HAS_CONT OR IS_FIRST) AND IS_FIRST \<noteq> 0" "(HAS_CONT OR IS_FIRST) AND HAS_CONT \<noteq> 0"
  "IS_FIRST AND HAS_CONT = 0" "HAS_CONT AND IS_FIRST = 0" "HAS_CONT AND HAS_CONT \<noteq> 0"
  "IS_FIRST \<noteq> 0" "HAS_CONT \<noteq> 0" "IS_FIRST AND IS_ZIPPED = 0" "HAS_CONT AND IS_ZIPPED = 0"
  by (simp_all add: HAS_CONT_def IS_FIRST_def IS_ZIPPED_def)

lemma ReadRecord_fragments:
  assumes "reader_holds crc32 B acc ps blocks tail r s" "fragments first x fr" "ps @ concat blocks = fr @ rest"
    and "first \<longleftrightarrow> acc = []"
  shows "\<exists>qs cs r' s'. ReadRecord crc32 inflate wanted s r = Some ((RECORD_OK, if wanted then acc @ x else []), s', r')
     \<and> reader_holds crc32 B [] qs cs tail r' s' \<and> qs @ concat cs = rest"
  using assms
proof (induction fr arbitrary: first x acc ps blocks r s)
  case Nil
  then show ?case by simp
next
  case (Cons p fr)
  obtain f d where p: "p = (f, d)" by (cases p)
  obtain qs cs r1 s1 where st: "read_record_step crc32 inflate wanted s r = read_piece inflate wanted s1 r1"
    "reader_holds crc32 B acc ((f, d) # qs) cs tail r1 s1" "fr @ rest = qs @ concat cs"
    using read_record_step_piece[OF Cons.prems(1), where p = p and P = "fr @ rest" and inflate = inflate
        and wanted = wanted] Cons.prems(3) p by auto
  note hd = read_piece_header_enc[OF st(2)]
  have holds: "reader_holds crc32 B acc' qs cs tail (r1\<lparr>rr_content := enc_pieces qs, record_content := acc'\<rparr>) s1" for acc'
    using st(2) by (auto simp: reader_holds_def fits_def)
  have acc: "record_content r1 = acc" using st(2) by (simp add: reader_holds_def)
  show ?case
  proof (cases "fr = []")
    case True
    have fd: "f = (if first then IS_FIRST else 0)" "d = x" using Cons.prems(2) p True by simp_all
    have "read_piece inflate wanted s1 r1 = Some (StepReturn RECORD_OK (if wanted then acc @ x else []) s1
        (r1\<lparr>rr_content := enc_pieces qs, record_content := []\<rparr>))"
      using Cons.prems(4) fd acc by (auto simp: read_piece_def hd flag_bits Let_def)
    then show ?thesis
      using st(1,3) True holds[of "[]"] by (simp add: ReadRecord.simps[of crc32 inflate wanted s r]) (metis append_Nil)
  next
    case False
    obtain y where fd: "f = (HAS_CONT OR (if first then IS_FIRST else 0))" "d \<noteq> []" "x = d @ y" "fragments False y fr"
      using Cons.prems(2) p fragments_Cons[OF False] by blast
    let ?r = "r1\<lparr>rr_content := enc_pieces qs, record_content := acc @ d\<rparr>"
    have "read_piece inflate wanted s1 r1 = Some (StepContinue s1 ?r)"
      using Cons.prems(4) fd acc by (auto simp: read_piece_def hd flag_bits Let_def)
    moreover have "\<exists>qs cs r' s'. ReadRecord crc32 inflate wanted s1 ?r
        = Some ((RECORD_OK, if wanted then (acc @ d) @ y else []), s', r')
      \<and> reader_holds crc32 B [] qs cs tail r' s' \<and> qs @ concat cs = rest"
      by (rule Cons.IH[OF holds fd(4) st(3) [symmetric]]) (use fd(2) in simp)
    ultimately show ?thesis
      using st(1) fd(3) by (cases wanted) (simp_all add: ReadRecord.simps[of crc32 inflate _ s r])
  qed
qed

lemma ReadRecord_end:
  assumes "reader_holds crc32 B [] [] [] [] r s" "0 < B" "12 \<le> B"
  shows "ReadRecord crc32 inflate wanted s r = Some ((RECORD_NO_DATA, []), [], r)"
proof -
  have "s = []" "rr_content r = []" "rr_block_size r = B" using assms(1) by (simp_all add: reader_holds_def)
  then show ?thesis
    using assms(2,3)
    by (simp add: ReadRecord.simps[of crc32 inflate wanted "[]" r] read_record_step_def ReadNextBlock_def kBlockTrailerEnd_def)
qed

text \<open>\<open>n\<close> successful calls.\<close>

fun read_records ::
    "(bytes \<Rightarrow> 32 word) \<Rightarrow> (bytes \<Rightarrow> bytes \<times> bool) \<Rightarrow> nat \<Rightarrow> bytes \<Rightarrow> record_reader
       \<Rightarrow> (bytes list \<times> bytes \<times> record_reader) option" where
  "read_records crc32 inflate 0 s r = Some ([], s, r)"
| "read_records crc32 inflate (Suc n) s r = (case ReadRecord crc32 inflate True s r of
     Some ((RECORD_OK, x), s', r') \<Rightarrow> map_option (\<lambda>(xs, e). (x # xs, e)) (read_records crc32 inflate n s' r')
   | _ \<Rightarrow> None)"

lemma read_records_holds:
  assumes "reader_holds crc32 B [] ps blocks tail r s" "list_all2 (fragments True) xs frs"
    and "ps @ concat blocks = concat frs"
  shows "\<exists>r' s'. read_records crc32 inflate (length xs) s r = Some (xs, s', r')
     \<and> reader_holds crc32 B [] [] [] tail r' s'"
  using assms(2,1,3)
proof (induction arbitrary: ps blocks r s rule: list_all2_induct)
  case Nil
  then have "ps = []" "blocks = []" by (cases blocks; auto simp: reader_holds_def)+
  then show ?case using Nil by auto
next
  case (Cons x xs fr frs)
  obtain qs cs r1 s1 where r1: "ReadRecord crc32 inflate True s r = Some ((RECORD_OK, x), s1, r1)"
      "reader_holds crc32 B [] qs cs tail r1 s1" "qs @ concat cs = concat frs"
    using ReadRecord_fragments[OF Cons.prems(1) Cons.hyps(1), where rest = "concat frs" and inflate = inflate
        and wanted = True] Cons.prems(2) by auto
  show ?case using Cons.IH[OF r1(2,3)] r1(1) by auto
qed

lemma record_file:
  assumes "RecordWriter_new B zl dump = Some w" "0 \<le> dump" "dump < B - 16" "\<forall>p \<in> set xs. storable zl deflate p"
  shows "\<exists>out w' r. write_records crc32 deflate xs w = Some (out, w') \<and> leftover w' = 0
     \<and> int (length out) mod B = 0
     \<and> read_records crc32 inflate (length xs) out (RecordReader_new B) = Some (map (stored zl deflate) xs, [], r)
     \<and> ReadRecord crc32 inflate True [] r = Some ((RECORD_NO_DATA, []), [], r)"
proof -
  have B: "B < 2 ^ 24" "B > 16" using assms by (auto simp: RecordWriter_new_def kMaximumRecordBlockSize_def split: if_splits)
  have w: "writer_holds zl B dump w 0 []"
    using assms(1-3) by (auto simp: RecordWriter_new_def writer_holds_def fits_def split: if_splits)
  obtain blocks frs w' where o: "write_records crc32 deflate xs w = Some (enc_blocks crc32 B 0 blocks, w')"
    "leftover w' = 0" "\<forall>b \<in> set blocks. b \<noteq> [] \<and> fits B b"
    "list_all2 (fragments True) (map (stored zl deflate) xs) frs" "concat frs = concat blocks"
    using write_records_holds[OF w, of xs deflate crc32] assms(2-4) by auto
  have rd: "reader_holds crc32 B [] [] blocks [] (RecordReader_new B) (enc_blocks crc32 B 0 blocks)"
    using o(3) B by (simp add: reader_holds_def RecordReader_new_def fits_def)
  obtain r s where r: "read_records crc32 inflate (length xs) (enc_blocks crc32 B 0 blocks) (RecordReader_new B)
        = Some (map (stored zl deflate) xs, s, r)" "reader_holds crc32 B [] [] [] [] r s"
    using read_records_holds[OF rd o(4), of inflate] o(5) by auto
  have "s = []" using r(2) by (simp add: reader_holds_def)
  moreover have "int (length (enc_blocks crc32 B 0 blocks)) = B * int (length blocks)"
    using o(3) by (intro length_enc_blocks) auto
  ultimately show ?thesis
    using o(1,2) r ReadRecord_end[OF r(2), of inflate True] B by auto
qed

text \<open>An empty record that is appended from a stream leaves the writer as it is.\<close>

definition leaves_trace :: "bool \<times> bytes \<Rightarrow> bool" where
  "leaves_trace p \<longleftrightarrow> fst p \<or> snd p \<noteq> []"

lemma AppendRecord_empty:
  assumes "writer_holds False B dump w prev ps" "int (length (enc_pieces ps)) \<le> dump"
  shows "AppendRecord crc32 deflate [] w = Some ((False, []), w)"
  using assms by (simp add: AppendRecord_def append_stream_def maybe_dump_def writer_holds_def)

lemma write_records_trace:
  assumes "writer_holds False B dump w prev ps" "int (length (enc_pieces ps)) \<le> dump" "0 \<le> dump" "dump < B - 16"
  shows "write_records crc32 deflate xs w = write_records crc32 deflate (filter leaves_trace xs) w"
  using assms(1,2)
proof (induction xs arbitrary: w prev ps)
  case (Cons x xs)
  obtain buf y where x: "x = (buf, y)" by (cases x)
  show ?case
  proof (cases "leaves_trace x")
    case False
    then show ?thesis using Cons.IH[OF Cons.prems] AppendRecord_empty[OF Cons.prems] x by (simp add: leaves_trace_def)
  next
    case True
    then have "storable (rw_zlib w) deflate (buf, y)" "stored (rw_zlib w) deflate (buf, y) = y"
      using Cons.prems(1) x by (simp_all add: leaves_trace_def storable_def stored_def writer_holds_def)
    from AppendRecord_stored[OF this(1), of crc32] this(2) obtain ready out w1 prev1 qs where
      "(if buf then AppendRecord_buffer crc32 deflate y w else AppendRecord crc32 deflate y w) = Some ((ready, out), w1)"
      "writer_holds False B dump w1 prev1 qs" "int (length (enc_pieces qs)) \<le> dump"
      using append_dump_holds[OF Cons.prems assms(3,4), of crc32 y] by auto
    with Cons.IH[of w1 prev1 qs] True x show ?thesis by simp
  qed
qed simp

section \<open>Properties\<close>

text \<open>
  C5. A record file: whatever records are appended to a new \<open>RecordWriter\<close> that does not
  deflate, of whatever size and by either version of \<open>AppendRecord\<close>, the output is whole
  blocks, nothing is left over after \<open>FinalizeContent\<close>, and a \<open>RecordReader\<close> of the same block
  size gives back in order exactly those that leave a trace, and then \<open>READ_NO_DATA\<close>, for any
  checksum function.  All do but the empty ones that are appended from a stream: those are lost.
\<close>

theorem Record_roundtrip:
  assumes "RecordWriter_new B False dump = Some w" "0 \<le> dump" "dump < B - 16"
  shows "\<exists>out w' r. write_records crc32 deflate xs w = Some (out, w') \<and> leftover w' = 0
     \<and> int (length out) mod B = 0
     \<and> read_records crc32 inflate (length (filter leaves_trace xs)) out (RecordReader_new B)
         = Some (map snd (filter leaves_trace xs), [], r)
     \<and> ReadRecord crc32 inflate True [] r = Some ((RECORD_NO_DATA, []), [], r)"
proof -
  let ?xs = "filter leaves_trace xs"
  have xs: "map (stored False deflate) ?xs = map snd ?xs" by (simp add: stored_def)
  have "writer_holds False B dump w 0 []"
    using assms by (auto simp: RecordWriter_new_def writer_holds_def fits_def split: if_splits)
  then have "write_records crc32 deflate xs w = write_records crc32 deflate ?xs w"
    using write_records_trace[of B dump w 0 "[]"] assms(2,3) by simp
  then show ?thesis
    using record_file[OF assms, of ?xs deflate crc32 inflate] unfolding xs by (simp add: storable_def leaves_trace_def)
qed

lemma Record_roundtrip_witness:
  "\<exists>out w' r. write_records (\<lambda>bs. word_of_nat (be_value bs)) (\<lambda>_. None)
       [(True, replicate 50 7), (True, []), (False, []), (False, [1, 2])]
       (the (RecordWriter_new 40 False 20)) = Some (out, w') \<and> leftover w' = 0
     \<and> int (length out) mod 40 = 0
     \<and> read_records (\<lambda>bs. word_of_nat (be_value bs)) (\<lambda>bs. (bs, True))
         3 out (RecordReader_new 40)
         = Some ([replicate 50 7, [], [1, 2]], [], r)
     \<and> ReadRecord (\<lambda>bs. word_of_nat (be_value bs)) (\<lambda>bs. (bs, True)) True [] r = Some ((RECORD_NO_DATA, []), [], r)"
  using Record_roundtrip[where xs = "[(True, replicate 50 7), (True, []), (False, []), (False, [1, 2])]" and B = 40 and dump = 20]
  by (simp add: RecordWriter_new_def kMaximumRecordBlockSize_def leaves_trace_def numeral_3_eq_3)

text \<open>
  C34. A writer that deflates never sets the flag \<open>IS_ZIPPED\<close> in the header of a piece: a
  reader gives back the deflated bytes of every record with \<open>READ_OK\<close>, whatever its
  \<open>Inflate\<close> would compute.
\<close>

theorem zipped_records_not_inflated:
  assumes "RecordWriter_new B True dump = Some w" "0 \<le> dump" "dump < B - 16"
    and "\<forall>p \<in> set xs. \<exists>z. deflate (snd p) = Some z \<and> z \<noteq> []"
  shows "\<exists>out w' r. write_records crc32 deflate xs w = Some (out, w')
     \<and> read_records crc32 inflate (length xs) out (RecordReader_new B) = Some (map (the \<circ> deflate \<circ> snd) xs, [], r)"
proof -
  have "map (stored True deflate) xs = map (the \<circ> deflate \<circ> snd) xs" by (simp add: stored_def)
  then show ?thesis
    using record_file[OF assms(1-3), of xs deflate crc32 inflate] assms(4) unfolding \<open>map _ _ = _\<close>
    by (auto simp: storable_def)
qed

lemma zipped_records_not_inflated_witness:
  "\<exists>out w' r. write_records (\<lambda>bs. word_of_nat (be_value bs)) (\<lambda>bs. Some (0x78 # rev bs)) [(True, [3, 4])]
       (the (RecordWriter_new 40 True 20)) = Some (out, w')
     \<and> read_records (\<lambda>bs. word_of_nat (be_value bs)) (\<lambda>bs. (rev (tl bs), True)) (length [(True, [3, 4 :: byte])]) out
         (RecordReader_new 40) = Some (map (the \<circ> (\<lambda>bs. Some (0x78 # rev bs)) \<circ> snd) [(True, [3, 4])], [], r)"
  by (rule zipped_records_not_inflated[where dump = 20]) (simp_all add: RecordWriter_new_def kMaximumRecordBlockSize_def)

text \<open>
  C35. After a block is lost in the middle of a record, the reader skips the tail of that
  record in the next block but keeps its head: the first record that begins in the next
  block is intact and is dropped with \<open>READ_CRC_CORRUPTED\<close>; reading goes on after it.
\<close>

theorem record_lost_after_gap:
  assumes "rr_block_size r = B" "B < 2 ^ 24" "rr_content r = []" "record_content r \<noteq> []" "\<not> skip_record r"
    and "rr_prev_block_crc r \<noteq> 0" "q \<noteq> 0" "q \<noteq> rr_prev_block_crc r"
    and "fits B ((0, t) # (IS_FIRST, x) # ps)"
  shows "\<exists>r'. ReadRecord crc32 inflate wanted (enc_blocks crc32 B q [(0, t) # (IS_FIRST, x) # ps] @ s) r
        = Some ((RECORD_CRC_CORRUPTED, []), s, r')
     \<and> rr_content r' = enc_pieces ps \<and> record_content r' = []"
proof -
  let ?b = "(0, t) # (IS_FIRST, x) # ps" and ?s = "enc_blocks crc32 B q [(0, t) # (IS_FIRST, x) # ps] @ s"
  define r1 where "r1 = r\<lparr>rr_prev_block_crc := crc32 (block_content B q ?b), rr_content := enc_pieces ?b\<rparr>"
  define r2 where "r2 = r1\<lparr>skip_record := True\<rparr>"
  define r3 where "r3 = r2\<lparr>rr_content := enc_pieces ((IS_FIRST, x) # ps), skip_record := False\<rparr>"
  have lt: "length t < 2 ^ 24" and lx: "length x < 2 ^ 24"
    using assms(2,9) unfolding fits_def by (simp, simp)
  have blk: "ReadNextBlock crc32 ?s r = Some (RECORD_CRC_BLOCK_BROKEN, s, r1)"
    using ReadNextBlock_block[OF assms(9,2,1,3), of ?s q crc32 s] assms(6-8) by (simp add: Let_def r1_def)
  have h2: "read_piece_header r2 = Some (0, length t, r2\<lparr>rr_content := t @ enc_pieces ((IS_FIRST, x) # ps)\<rparr>)"
    by (rule read_piece_header_piece) (use lt in \<open>simp_all add: r2_def r1_def\<close>)
  have h3: "read_piece_header r3 = Some (IS_FIRST, length x, r3\<lparr>rr_content := x @ enc_pieces ps\<rparr>)"
    by (rule read_piece_header_piece) (use lx in \<open>simp_all add: r3_def\<close>)
  have skip: "skip_loop r2 = Some r3"
  proof -
    have "SkipRecord r2 = Some r3" by (simp add: SkipRecord_def h2 r3_def)
    moreover have "skip_record r2 \<and> rr_content r2 \<noteq> []" "\<not> skip_record r3" by (simp_all add: r2_def r1_def r3_def)
    ultimately show ?thesis by (simp add: skip_loop.simps[of r2] skip_loop.simps[of r3])
  qed
  have rc: "record_content r3 \<noteq> []" "rr_content r3 \<noteq> []" "record_content r1 \<noteq> []"
    using assms(4) by (simp_all add: r3_def r2_def r1_def)
  have "read_record_step crc32 inflate wanted ?s r
      = Some (StepReturn RECORD_CRC_CORRUPTED [] s (r3\<lparr>rr_content := enc_pieces ps, record_content := []\<rparr>))"
    unfolding read_record_step_def blk
    using assms(3) rc skip by (simp add: Let_def r2_def [symmetric] read_piece_def h3 flag_bits)
  then have "ReadRecord crc32 inflate wanted ?s r
      = Some ((RECORD_CRC_CORRUPTED, []), s, r3\<lparr>rr_content := enc_pieces ps, record_content := []\<rparr>)"
    unfolding ReadRecord.simps[of crc32 inflate wanted ?s r] by simp
  then show ?thesis by simp
qed

lemma record_lost_after_gap_witness:
  "\<exists>r'. ReadRecord (\<lambda>bs. word_of_nat (be_value bs)) (\<lambda>bs. (bs, True)) True
        (enc_blocks (\<lambda>bs. word_of_nat (be_value bs)) 40 5 [[(0, [1]), (IS_FIRST, [2, 3]), (IS_FIRST, [4])]] @ [])
        \<lparr>rr_block_size = 40, rr_content = [], record_content = [9], rr_prev_block_crc = 7, skip_record = False\<rparr>
        = Some ((RECORD_CRC_CORRUPTED, []), [], r')
     \<and> rr_content r' = enc_pieces [(IS_FIRST, [4])] \<and> record_content r' = []"
  by (rule record_lost_after_gap) (simp_all add: fits_def)

end
