(* ===== verification/MediaTag.thy ===== *)
theory MediaTag
  imports FlvCoder
begin

text \<open>
  \<^verbatim>\<open>whisperstreamlib/base/tag.{h,cc}\<close> and \<^verbatim>\<open>tag_dropper.{h,cc}\<close>: the tags that travel
  between the elements of a server, the search in a table of cue points, the clock that
  \<^verbatim>\<open>StreamTimeCalculator\<close> keeps and the filter \<^verbatim>\<open>TagDropper\<close>.  The type of a tag is
  fixed by its class, so it is computed from the data here and the casts of the code never
  meet another class.  \<^verbatim>\<open>int64\<close> times are integers.
\<close>

section \<open>Tags\<close>

datatype tag_type =
    TYPE_MEDIA_INFO | TYPE_FLV | TYPE_FLV_HEADER | TYPE_MP3 | TYPE_AAC | TYPE_INTERNAL | TYPE_F4V
  | TYPE_MTS | TYPE_RAW | TYPE_EOS | TYPE_FEATURE_FOUND | TYPE_CUE_POINT | TYPE_SOURCE_STARTED
  | TYPE_SOURCE_ENDED | TYPE_COMPOSED | TYPE_OSD | TYPE_SEEK_PERFORMED | TYPE_BOOTSTRAP_BEGIN
  | TYPE_BOOTSTRAP_END

text \<open>
  The classes of tags.  \<open>FlvData\<close> has the time, the stream and the body of an \<^verbatim>\<open>FlvTag\<close>;
  \<open>SourceStartedData\<close> the element's name, the path, whether it is final and when the source
  started; \<open>ComposedData\<close> the type of its parts (\<open>None\<close> for \<^verbatim>\<open>kAnyType\<close>) and the
  parts.  \<open>FormatData\<close> stands for the tags of the other formats: its type, duration, size and
  data; \<open>'i\<close> is \<^verbatim>\<open>MediaInfo\<close>.
\<close>

datatype other_format = Mp3 | Aac | Internal | F4v | Mts | Raw | Osd

datatype 'i media_tag = MediaTag (mt_attributes: "32 word") (mt_flavour_mask: "32 word") (mt_data: "'i tag_data")
and 'i tag_data =
    MediaInfoData 'i
  | FlvData int "32 word" flv_body
  | FlvHeaderData flv_header
  | CuePointData "(int \<times> int) list"
  | FeatureFoundData bytes int
  | SourceStartedData bytes bytes bool int
  | SourceEndedData bytes bytes bool
  | ComposedData "tag_type option" "'i media_tag list"
  | EosData bool
  | BootstrapBeginData
  | BootstrapEndData
  | SeekPerformedData
  | FormatData other_format int "32 word" "bytes option"

fun format_type :: "other_format \<Rightarrow> tag_type" where
  "format_type Mp3 = TYPE_MP3"
| "format_type Aac = TYPE_AAC"
| "format_type Internal = TYPE_INTERNAL"
| "format_type F4v = TYPE_F4V"
| "format_type Mts = TYPE_MTS"
| "format_type Raw = TYPE_RAW"
| "format_type Osd = TYPE_OSD"

fun data_type :: "'i tag_data \<Rightarrow> tag_type" where
  "data_type (MediaInfoData _) = TYPE_MEDIA_INFO"
| "data_type (FlvData _ _ _) = TYPE_FLV"
| "data_type (FlvHeaderData _) = TYPE_FLV_HEADER"
| "data_type (CuePointData _) = TYPE_CUE_POINT"
| "data_type (FeatureFoundData _ _) = TYPE_FEATURE_FOUND"
| "data_type (SourceStartedData _ _ _ _) = TYPE_SOURCE_STARTED"
| "data_type (SourceEndedData _ _ _) = TYPE_SOURCE_ENDED"
| "data_type (ComposedData _ _) = TYPE_COMPOSED"
| "data_type (EosData _) = TYPE_EOS"
| "data_type BootstrapBeginData = TYPE_BOOTSTRAP_BEGIN"
| "data_type BootstrapEndData = TYPE_BOOTSTRAP_END"
| "data_type SeekPerformedData = TYPE_SEEK_PERFORMED"
| "data_type (FormatData f _ _ _) = format_type f"

definition mt_type :: "'i media_tag \<Rightarrow> tag_type" where
  "mt_type t = data_type (mt_data t)"

text \<open>The two checks of the constructor: bits 8 to 15 of the attributes are clear, one flavour.\<close>

definition one_flavour :: "32 word \<Rightarrow> bool" where
  "one_flavour m \<longleftrightarrow> m \<noteq> 0 \<and> m AND (m - 1) = 0"

definition Tag_new :: "32 word \<Rightarrow> 32 word \<Rightarrow> 'i tag_data \<Rightarrow> 'i media_tag option" where
  "Tag_new attrs flavour d =
     (if attrs AND 0xFF00 = 0 \<and> one_flavour flavour then Some (MediaTag attrs flavour d) else None)"

definition set_flavour_mask :: "32 word \<Rightarrow> 'i media_tag \<Rightarrow> 'i media_tag option" where
  "set_flavour_mask m t = (if one_flavour m then Some (MediaTag (mt_attributes t) m (mt_data t)) else None)"

definition add_attributes :: "32 word \<Rightarrow> 'i media_tag \<Rightarrow> 'i media_tag" where
  "add_attributes a t = MediaTag (mt_attributes t OR a) (mt_flavour_mask t) (mt_data t)"

definition is_droppable :: "'i media_tag \<Rightarrow> bool" where
  "is_droppable t \<longleftrightarrow> mt_attributes t AND ATTR_DROPPABLE = ATTR_DROPPABLE"

definition can_resync :: "'i media_tag \<Rightarrow> bool" where
  "can_resync t \<longleftrightarrow> mt_attributes t AND ATTR_CAN_RESYNC = ATTR_CAN_RESYNC"

definition is_video_tag :: "'i media_tag \<Rightarrow> bool" where
  "is_video_tag t \<longleftrightarrow> mt_attributes t AND ATTR_VIDEO = ATTR_VIDEO"

definition is_audio_tag :: "'i media_tag \<Rightarrow> bool" where
  "is_audio_tag t \<longleftrightarrow> mt_attributes t AND ATTR_AUDIO = ATTR_AUDIO"

definition is_metadata_tag :: "'i media_tag \<Rightarrow> bool" where
  "is_metadata_tag t \<longleftrightarrow> mt_attributes t AND ATTR_METADATA = ATTR_METADATA"

section \<open>Composed tags\<close>

definition kMaxSize :: nat where "kMaxSize = 16"

text \<open>\<^verbatim>\<open>duration_ms\<close> and \<^verbatim>\<open>size\<close>, which are virtual.\<close>

fun tag_duration_ms :: "'i media_tag \<Rightarrow> int" and data_duration_ms :: "'i tag_data \<Rightarrow> int" where
  "tag_duration_ms (MediaTag _ _ d) = data_duration_ms d"
| "data_duration_ms (FlvData _ _ b) = uint (flv_body_Size b)"
| "data_duration_ms (ComposedData _ ts) = sum_list (map tag_duration_ms ts)"
| "data_duration_ms (FormatData _ d _ _) = d"
| "data_duration_ms _ = 0"

fun tag_size :: "'i media_tag \<Rightarrow> 32 word" and data_size :: "'i tag_data \<Rightarrow> 32 word" where
  "tag_size (MediaTag _ _ d) = data_size d"
| "data_size (FlvData _ _ b) = flv_body_Size b"
| "data_size (FlvHeaderData _) = word_of_nat kFlvHeaderSize"
| "data_size (ComposedData _ ts) = sum_list (map tag_size ts)"
| "data_size (FormatData _ _ n _) = n"
| "data_size _ = 0"

text \<open>\<^verbatim>\<open>ComposedTag::add_tag\<close>; the time of the part is not used.\<close>

definition ComposedTag_add_tag :: "'i media_tag \<Rightarrow> int \<Rightarrow> 'i media_tag \<Rightarrow> (int \<times> 'i media_tag) option" where
  "ComposedTag_add_tag tag timestamp_ms c = (case mt_data c of
     ComposedData sub tags \<Rightarrow>
       (if length tags \<ge> kMaxSize then None
        else if sub \<noteq> None \<and> sub \<noteq> Some (mt_type tag) then None
        else
          let c' = MediaTag (mt_attributes c OR mt_attributes tag) (mt_flavour_mask c)
                     (ComposedData (Some (mt_type tag)) (tags @ [tag]))
          in Some (tag_duration_ms c', c'))
   | _ \<Rightarrow> None)"

section \<open>Cue points\<close>

function cue_loop :: "(int \<times> int) list \<Rightarrow> int \<Rightarrow> int \<Rightarrow> int \<Rightarrow> int" where
  "cue_loop cues t l r =
     (if l + 1 < r then
        let mid = (r + l) div 2
        in if fst (cues ! nat mid) \<le> t then cue_loop cues t mid r else cue_loop cues t l mid
      else l)"
  by pat_completeness auto
termination by (relation "measure (\<lambda>(cues, t, l, r). nat (r - l))") auto

declare cue_loop.simps [simp del]

definition GetCueForTime :: "(int \<times> int) list \<Rightarrow> int \<Rightarrow> int" where
  "GetCueForTime cues t =
     (if cues = [] then -1 else if t < 0 then 0 else cue_loop cues t 0 (int (length cues)))"

section \<open>Stream time\<close>

record stream_time =
  last_tag_ts :: int
  stream_time_ms :: int
  last_source_started_ts :: int

definition StreamTimeCalculator_new :: stream_time where
  "StreamTimeCalculator_new = \<lparr>last_tag_ts = 0, stream_time_ms = 0, last_source_started_ts = 0\<rparr>"

definition media_time_ms :: "stream_time \<Rightarrow> int" where
  "media_time_ms s = last_tag_ts s - last_source_started_ts s"

definition has_no_time :: "'i media_tag \<Rightarrow> bool" where
  "has_no_time t \<longleftrightarrow> mt_type t = TYPE_FLV_HEADER \<or> mt_type t = TYPE_BOOTSTRAP_BEGIN
     \<or> mt_type t = TYPE_BOOTSTRAP_END \<or> mt_type t = TYPE_EOS \<or> mt_type t = TYPE_SOURCE_ENDED"

definition StreamTime_ProcessTag :: "'i media_tag \<Rightarrow> int \<Rightarrow> stream_time \<Rightarrow> stream_time" where
  "StreamTime_ProcessTag tag ts s =
     (if has_no_time tag then s
      else
        let s1 = (case mt_data tag of
              SourceStartedData name path final start \<Rightarrow>
                s\<lparr>last_tag_ts := ts,
                  stream_time_ms := (if stream_time_ms s = 0 then ts else stream_time_ms s),
                  last_source_started_ts := start\<rparr>
            | _ \<Rightarrow> s);
            delta = ts - last_tag_ts s1
        in s1\<lparr>stream_time_ms := stream_time_ms s1 + delta, last_tag_ts := ts\<rparr>)"

section \<open>Dropping tags\<close>

record tag_dropper =
  is_audio_synced :: bool
  is_video_synced :: bool
  last_timestamp_ms :: int

definition TagDropper_new :: tag_dropper where
  "TagDropper_new = \<lparr>is_audio_synced = False, is_video_synced = False, last_timestamp_ms = -1\<rparr>"

definition restarts :: "'i media_tag \<Rightarrow> bool" where
  "restarts tag \<longleftrightarrow> mt_type tag = TYPE_SEEK_PERFORMED \<or> mt_type tag = TYPE_SOURCE_STARTED"

text \<open>Whether the tag is delivered (\<open>False\<close> is NULL), and the dropper.\<close>

definition TagDropper_ProcessTag :: "'i media_tag \<Rightarrow> int \<Rightarrow> tag_dropper \<Rightarrow> bool \<times> tag_dropper" where
  "TagDropper_ProcessTag tag ts d0 =
     (let d = (if restarts tag then d0\<lparr>is_audio_synced := False, is_video_synced := False\<rparr> else d0)
      in if ts < 0 \<or> ts \<le> last_timestamp_ms d then
           (False, if is_audio_tag tag then d\<lparr>is_audio_synced := False\<rparr>
                   else if is_video_tag tag then d\<lparr>is_video_synced := False\<rparr> else d)
         else if \<not> is_audio_synced d \<and> is_audio_tag tag \<and> \<not> can_resync tag then (False, d)
         else
           let d1 = (if \<not> is_audio_synced d \<and> is_audio_tag tag then d\<lparr>is_audio_synced := True\<rparr> else d)
           in if \<not> is_video_synced d1 \<and> is_video_tag tag \<and> \<not> can_resync tag then (False, d1)
              else
                let d2 = (if \<not> is_video_synced d1 \<and> is_video_tag tag then d1\<lparr>is_video_synced := True\<rparr> else d1)
                in (True, d2\<lparr>last_timestamp_ms := ts\<rparr>))"

text \<open>A sequence of tags through the dropper: what is delivered of each.\<close>

fun dropper_run :: "('i media_tag \<times> int) list \<Rightarrow> tag_dropper \<Rightarrow> bool list \<times> tag_dropper" where
  "dropper_run [] d = ([], d)"
| "dropper_run ((t, ts) # r) d =
     (let (out, d1) = TagDropper_ProcessTag t ts d; (outs, d2) = dropper_run r d1 in (out # outs, d2))"

fun stream_time_run :: "('i media_tag \<times> int) list \<Rightarrow> stream_time \<Rightarrow> stream_time" where
  "stream_time_run [] s = s"
| "stream_time_run ((t, ts) # r) s = stream_time_run r (StreamTime_ProcessTag t ts s)"

end
