(* ===== verification/MediaTagLaws.thy ===== *)
theory MediaTagLaws
  imports MediaTag
begin

text \<open>
  What the cue point search finds, how the stream clock moves, and which tags a dropper
  delivers.
\<close>

section \<open>Cue points\<close>

lemma cue_loop_spec:
  assumes "0 \<le> l" "l < r" "r \<le> int (length cues)"
    and "l = 0 \<or> fst (cues ! nat l) \<le> t" "r = int (length cues) \<or> t < fst (cues ! nat r)"
  shows "l \<le> cue_loop cues t l r \<and> cue_loop cues t l r < r
    \<and> (cue_loop cues t l r = 0 \<or> fst (cues ! nat (cue_loop cues t l r)) \<le> t)
    \<and> (cue_loop cues t l r + 1 = int (length cues) \<or> t < fst (cues ! nat (cue_loop cues t l r + 1)))"
  using assms
proof (induction cues t l r rule: cue_loop.induct)
  case (1 cues t l r)
  show ?case
  proof (cases "l + 1 < r")
    case False
    then have "r = l + 1" using "1.prems" by linarith
    then show ?thesis using "1.prems" by (auto simp: cue_loop.simps)
  next
    case True
    define mid where "mid = (r + l) div 2"
    have m: "l < mid" "mid < r" using True unfolding mid_def by linarith+
    show ?thesis
    proof (cases "fst (cues ! nat mid) \<le> t")
      case le: True
      have e: "cue_loop cues t l r = cue_loop cues t mid r"
        using True le by (subst cue_loop.simps) (simp add: mid_def Let_def)
      show ?thesis
        using "1.IH"(1)[OF True mid_def le] "1.prems" m le unfolding e by auto
    next
      case gt: False
      have e: "cue_loop cues t l r = cue_loop cues t l mid"
        using True gt by (subst cue_loop.simps) (simp add: mid_def Let_def)
      show ?thesis
        using "1.IH"(2)[OF True mid_def gt] "1.prems" m gt unfolding e by auto
    qed
  qed
qed

text \<open>In a sorted table the elements within a bound are a prefix.\<close>

lemma count_sorted_prefix:
  assumes "sorted (map f xs)" "i < length xs" "f (xs ! i) \<le> t" "Suc i = length xs \<or> t < f (xs ! Suc i)"
  shows "length (filter (\<lambda>x. f x \<le> (t :: 'a::linorder)) xs) = Suc i"
proof -
  have le: "f (xs ! j) \<le> t" if "j \<le> i" for j
    using sorted_nth_mono[OF assms(1), of j i] that assms(2,3) by auto
  have gt: "\<not> f (xs ! j) \<le> t" if "Suc i \<le> j" "j < length xs" for j
    using sorted_nth_mono[OF assms(1), of "Suc i" j] that assms(4) by auto
  have "{j. j < length xs \<and> f (xs ! j) \<le> t} = {..<Suc i}"
    using le gt assms(2) by (auto simp: less_Suc_eq_le not_less_eq_eq[symmetric]) (metis not_less_eq_eq)
  then show ?thesis by (simp add: length_filter_conv_card)
qed

lemma count_sorted_none:
  assumes "sorted (map f xs)" "xs \<noteq> []" "\<not> f (xs ! 0) \<le> (t :: 'a::linorder)"
  shows "filter (\<lambda>x. f x \<le> t) xs = []"
proof -
  have "\<not> f x \<le> t" if "x \<in> set xs" for x
  proof -
    obtain j where "j < length xs" "x = xs ! j" using \<open>x \<in> set xs\<close> by (auto simp: in_set_conv_nth)
    then show ?thesis using sorted_nth_mono[OF assms(1), of 0 j] assms(2,3) by (auto simp: nth_map)
  qed
  then show ?thesis by (simp add: filter_empty_conv)
qed

text \<open>
  The cue point found for a time is one of the table; except at the start of the table its
  time is not after the time asked for, and the next one's is; in a sorted table it is the last
  of those not after it, as a scan from the front counts them, and the first when there is none.
\<close>

theorem GetCueForTime_spec:
  assumes "cues \<noteq> []" "0 \<le> t"
  shows "0 \<le> GetCueForTime cues t \<and> GetCueForTime cues t < int (length cues)
    \<and> (GetCueForTime cues t = 0 \<or> fst (cues ! nat (GetCueForTime cues t)) \<le> t)
    \<and> (GetCueForTime cues t + 1 = int (length cues) \<or> t < fst (cues ! nat (GetCueForTime cues t + 1)))
    \<and> (sorted (map fst cues) \<longrightarrow>
         GetCueForTime cues t = max 0 (int (length (filter (\<lambda>c. fst c \<le> t) cues)) - 1))"
proof -
  define i where "i = GetCueForTime cues t"
  have "i = cue_loop cues t 0 (int (length cues))" using assms by (simp add: i_def GetCueForTime_def)
  then have spec: "0 \<le> i" "i < int (length cues)" "i = 0 \<or> fst (cues ! nat i) \<le> t"
      "i + 1 = int (length cues) \<or> t < fst (cues ! nat (i + 1))"
    using cue_loop_spec[of 0 "int (length cues)" cues t] assms(1) by auto
  have "i = max 0 (int (length (filter (\<lambda>c. fst c \<le> t) cues)) - 1)" if s: "sorted (map fst cues)"
  proof (cases "fst (cues ! nat i) \<le> t")
    case True
    have "Suc (nat i) = length cues \<or> t < fst (cues ! Suc (nat i))"
      using spec(1,4) by (auto simp: nat_add_distrib)
    then have "length (filter (\<lambda>c. fst c \<le> t) cues) = Suc (nat i)"
      using count_sorted_prefix[OF s] True spec(1,2) by auto
    then show ?thesis using spec(1) by simp
  next
    case False
    then have "i = 0" using spec(3) by auto
    then show ?thesis using count_sorted_none[OF s assms(1)] False by simp
  qed
  then show ?thesis using spec unfolding i_def by blast
qed

theorem GetCueForTime_spec_witness: "GetCueForTime [(0, 13), (40, 900), (80, 1800)] 79 = 1"
  using GetCueForTime_spec[of "[(0, 13), (40, 900), (80, 1800)]" 79] by simp

section \<open>The stream clock\<close>

text \<open>Tags with a time that do not start a source.\<close>

definition moves_clock :: "'i media_tag \<Rightarrow> bool" where
  "moves_clock t \<longleftrightarrow> \<not> has_no_time t \<and> mt_type t \<noteq> TYPE_SOURCE_STARTED"

lemma data_type_started: "data_type d = TYPE_SOURCE_STARTED \<longleftrightarrow> (\<exists>n p f s. d = SourceStartedData n p f s)"
  by (cases d) (auto elim: format_type.elims)

lemma StreamTime_moves:
  assumes "moves_clock t"
  shows "StreamTime_ProcessTag t ts s
    = s\<lparr>stream_time_ms := stream_time_ms s + (ts - last_tag_ts s), last_tag_ts := ts\<rparr>"
proof -
  have "\<nexists>n p f st. mt_data t = SourceStartedData n p f st"
    using assms by (auto simp: moves_clock_def mt_type_def)
  then show ?thesis
    using assms by (cases "mt_data t") (auto simp: StreamTime_ProcessTag_def moves_clock_def Let_def)
qed

lemma StreamTime_still: "has_no_time t \<Longrightarrow> StreamTime_ProcessTag t ts s = s"
  by (simp add: StreamTime_ProcessTag_def)

lemma StreamTime_started:
  assumes "mt_data t = SourceStartedData n p f start"
  shows "StreamTime_ProcessTag t ts s = \<lparr>last_tag_ts = ts,
    stream_time_ms = (if stream_time_ms s = 0 then ts else stream_time_ms s), last_source_started_ts = start\<rparr>"
proof -
  have "\<not> has_no_time t" by (simp add: has_no_time_def mt_type_def assms)
  then show ?thesis by (cases s) (simp add: StreamTime_ProcessTag_def assms Let_def)
qed

lemma stream_time_run_append: "stream_time_run (xs @ ys) s = stream_time_run ys (stream_time_run xs s)"
  by (induction xs s rule: stream_time_run.induct) auto

lemma stream_time_run_moves:
  assumes "\<forall>(t, ts) \<in> set r. has_no_time t \<or> moves_clock t"
  shows "stream_time_ms (stream_time_run r s) - last_tag_ts (stream_time_run r s) = stream_time_ms s - last_tag_ts s
    \<and> last_source_started_ts (stream_time_run r s) = last_source_started_ts s"
  using assms
  by (induction r s rule: stream_time_run.induct) (auto simp: StreamTime_moves StreamTime_still)

text \<open>
  C39. When a source starts the stream time stands still (or is set to the time of the start, at
  the beginning), and from then on it moves exactly as the times of the tags do, backwards and
  at a seek too, while the media time counts from the start of the source.
\<close>

theorem stream_time_law:
  assumes "mt_data t = SourceStartedData n p f start"
    and "\<forall>(t, ts) \<in> set r. has_no_time t \<or> moves_clock t"
    and "s' = stream_time_run ((t, ts) # r) s"
  shows "stream_time_ms s' = (if stream_time_ms s = 0 then ts else stream_time_ms s) + (last_tag_ts s' - ts)
    \<and> media_time_ms s' = last_tag_ts s' - start"
proof -
  have s: "s' = stream_time_run r (StreamTime_ProcessTag t ts s)" using assms(3) by simp
  show ?thesis
    using stream_time_run_moves[OF assms(2), of "StreamTime_ProcessTag t ts s"]
    unfolding s StreamTime_started[OF assms(1)] media_time_ms_def by (auto split: if_splits)
qed

text \<open>The stream of the comment on the class: the seek counts as the time it jumps over.\<close>

definition sample_started :: "int \<Rightarrow> unit media_tag" where
  "sample_started ts = MediaTag 0 1 (SourceStartedData [] [] False ts)"

definition sample_frame :: "unit media_tag" where
  "sample_frame = MediaTag ATTR_AUDIO 1 (FormatData Mp3 26 400 None)"

definition sample_seek :: "unit media_tag" where
  "sample_seek = MediaTag 0 1 SeekPerformedData"

theorem stream_time_law_witness:
  "stream_time_ms (stream_time_run [(sample_started 123, 123), (sample_frame, 124), (sample_frame, 345), (sample_seek, 781), (sample_frame, 933)]
     StreamTimeCalculator_new) = 933"
proof -
  let ?r = "[(sample_frame, 124), (sample_frame, 345), (sample_seek, 781), (sample_frame, 933)]"
  have "\<forall>(t, ts) \<in> set ?r. has_no_time t \<or> moves_clock t"
    by (simp add: moves_clock_def has_no_time_def sample_frame_def sample_seek_def mt_type_def)
  from stream_time_law[OF _ this refl, of "sample_started 123" "[]" "[]" False 123 123 StreamTimeCalculator_new]
  show ?thesis
    by (simp add: sample_started_def StreamTimeCalculator_new_def StreamTime_ProcessTag_def has_no_time_def
      sample_frame_def sample_seek_def mt_type_def)
qed

section \<open>The dropper\<close>

lemma dropper_step_time:
  assumes "TagDropper_ProcessTag t ts d = (out, d')"
  shows "if out then 0 \<le> ts \<and> last_timestamp_ms d < ts \<and> last_timestamp_ms d' = ts
    else last_timestamp_ms d' = last_timestamp_ms d"
  using assms by (auto simp: TagDropper_ProcessTag_def Let_def split: if_splits)

text \<open>A tag that is both an audio and a video tag, as \<^verbatim>\<open>TagSplitter\<close> composes them.\<close>

definition composed_tag :: "'i media_tag \<Rightarrow> bool" where
  "composed_tag t \<longleftrightarrow> is_audio_tag t \<and> is_video_tag t"

text \<open>
  How the two flags of the dropper change; \<open>kind\<close> is the kind of tags, \<open>flag\<close> the flag of the
  state that belongs to it.
\<close>

definition flag_step :: "('i media_tag \<Rightarrow> bool) \<Rightarrow> 'i media_tag \<Rightarrow> bool \<Rightarrow> bool \<Rightarrow> bool \<Rightarrow> bool" where
  "flag_step kind t out f f' \<longleftrightarrow>
     (f' \<longrightarrow> (if restarts t then out \<and> kind t \<and> can_resync t
              else f \<and> (kind t \<and> \<not> composed_tag t \<longrightarrow> out) \<or> out \<and> kind t \<and> can_resync t))
     \<and> (out \<and> kind t \<and> \<not> can_resync t \<longrightarrow> f \<and> \<not> restarts t)"

lemma dropper_step_audio:
  assumes "TagDropper_ProcessTag t ts d = (out, d')"
  shows "flag_step is_audio_tag t out (is_audio_synced d) (is_audio_synced d')"
  using assms by (auto simp: TagDropper_ProcessTag_def Let_def flag_step_def composed_tag_def split: if_splits)

lemma dropper_step_video:
  assumes "TagDropper_ProcessTag t ts d = (out, d')"
  shows "flag_step is_video_tag t out (is_video_synced d) (is_video_synced d')"
  using assms by (auto simp: TagDropper_ProcessTag_def Let_def flag_step_def composed_tag_def split: if_splits)

lemma dropper_run_snoc:
  "dropper_run (r @ [(t, ts)]) d = (let (outs, d1) = dropper_run r d; (out, d2) = TagDropper_ProcessTag t ts d1
     in (outs @ [out], d2))"
  by (induction r d rule: dropper_run.induct) (auto simp: Let_def split: prod.splits)

lemma dropper_run_length: "dropper_run r d = (outs, d') \<Longrightarrow> length outs = length r"
  by (induction r d arbitrary: outs rule: dropper_run.induct) (auto simp: Let_def split: prod.splits)

text \<open>The times delivered.\<close>

definition delivered :: "('i media_tag \<times> int) list \<Rightarrow> bool list \<Rightarrow> int list" where
  "delivered r outs = map (snd \<circ> fst) (filter snd (zip r outs))"

text \<open>
  Before tag \<open>n\<close> a tag of the kind that can resync was delivered, and since then nothing was
  restarted and no tag of the kind dropped, except composed ones.
\<close>

definition in_sync :: "('i media_tag \<Rightarrow> bool) \<Rightarrow> ('i media_tag \<times> int) list \<Rightarrow> bool list \<Rightarrow> nat \<Rightarrow> bool" where
  "in_sync kind r outs n \<longleftrightarrow> (\<exists>j < n. outs ! j \<and> kind (fst (r ! j)) \<and> can_resync (fst (r ! j))
     \<and> (\<forall>k. j < k \<and> k < n \<longrightarrow> \<not> restarts (fst (r ! k)) \<and> (kind (fst (r ! k)) \<and> \<not> composed_tag (fst (r ! k)) \<longrightarrow> outs ! k)))"

definition no_gaps :: "('i media_tag \<Rightarrow> bool) \<Rightarrow> ('i media_tag \<times> int) list \<Rightarrow> bool list \<Rightarrow> bool" where
  "no_gaps kind r outs \<longleftrightarrow> (\<forall>i < length r. outs ! i \<and> kind (fst (r ! i)) \<and> \<not> can_resync (fst (r ! i))
     \<longrightarrow> \<not> restarts (fst (r ! i)) \<and> in_sync kind r outs i)"

lemma in_sync_append:
  assumes "n \<le> length r" "length outs = length r"
  shows "in_sync kind (r @ r') (outs @ outs') n = in_sync kind r outs n"
  using assms by (auto simp: in_sync_def nth_append)

lemma in_sync_snoc:
  assumes len: "length outs = length r" and step: "flag_step kind t out f f'"
    and f: "f \<longrightarrow> in_sync kind r outs (length r)" and f': f'
  shows "in_sync kind (r @ [(t, ts)]) (outs @ [out]) (Suc (length r))"
proof (cases "out \<and> kind t \<and> can_resync t")
  case True
  then show ?thesis using len unfolding in_sync_def by (intro exI[of _ "length r"]) (auto simp: nth_append)
next
  case False
  then have nf: "f" "\<not> restarts t" "kind t \<and> \<not> composed_tag t \<longrightarrow> out" using step f' unfolding flag_step_def by argo+
  then obtain j where j: "j < length r" "outs ! j" "kind (fst (r ! j))" "can_resync (fst (r ! j))"
      "\<forall>k. j < k \<and> k < length r \<longrightarrow> \<not> restarts (fst (r ! k)) \<and> (kind (fst (r ! k)) \<and> \<not> composed_tag (fst (r ! k)) \<longrightarrow> outs ! k)"
    using f by (auto simp: in_sync_def)
  have later: "\<not> restarts (fst ((r @ [(t, ts)]) ! k)) \<and> (kind (fst ((r @ [(t, ts)]) ! k)) \<and> \<not> composed_tag (fst ((r @ [(t, ts)]) ! k)) \<longrightarrow> (outs @ [out]) ! k)"
    if "j < k" "k < Suc (length r)" for k
    using j(5) that nf(2,3) len by (cases "k = length r") (simp_all add: nth_append)
  have "(outs @ [out]) ! j \<and> kind (fst ((r @ [(t, ts)]) ! j)) \<and> can_resync (fst ((r @ [(t, ts)]) ! j))"
    using j(1-4) len by (simp add: nth_append)
  then show ?thesis
    unfolding in_sync_def using later less_SucI[OF j(1)] by blast
qed

lemma no_gaps_snoc:
  assumes len: "length outs = length r" and step: "flag_step kind t out f f'"
    and f: "f \<longrightarrow> in_sync kind r outs (length r)" and prev: "no_gaps kind r outs"
  shows "no_gaps kind (r @ [(t, ts)]) (outs @ [out])"
  unfolding no_gaps_def
proof (intro allI impI)
  fix i
  assume i: "i < length (r @ [(t, ts)])"
    "(outs @ [out]) ! i \<and> kind (fst ((r @ [(t, ts)]) ! i)) \<and> \<not> can_resync (fst ((r @ [(t, ts)]) ! i))"
  show "\<not> restarts (fst ((r @ [(t, ts)]) ! i)) \<and> in_sync kind (r @ [(t, ts)]) (outs @ [out]) i"
  proof (cases "i < length r")
    case True
    then show ?thesis using prev i len in_sync_append[of i r outs kind "[(t, ts)]" "[out]"]
      by (auto simp: no_gaps_def nth_append)
  next
    case False
    then have "i = length r" using i by simp
    then show ?thesis using step f i len in_sync_append[of i r outs kind "[(t, ts)]" "[out]"]
      by (auto simp: flag_step_def nth_append)
  qed
qed

lemma delivered_snoc:
  "length outs = length r \<Longrightarrow> delivered (r @ [(t, ts)]) (outs @ [out]) = delivered r outs @ (if out then [ts] else [])"
  by (simp add: delivered_def)

definition dropper_inv :: "('i media_tag \<times> int) list \<Rightarrow> bool list \<Rightarrow> tag_dropper \<Rightarrow> bool" where
  "dropper_inv r outs d \<longleftrightarrow> length outs = length r
     \<and> sorted_wrt (<) (delivered r outs) \<and> (\<forall>x \<in> set (delivered r outs). 0 \<le> x \<and> x \<le> last_timestamp_ms d)
     \<and> last_timestamp_ms d = last (-1 # delivered r outs)
     \<and> (is_audio_synced d \<longrightarrow> in_sync is_audio_tag r outs (length r)) \<and> no_gaps is_audio_tag r outs
     \<and> (is_video_synced d \<longrightarrow> in_sync is_video_tag r outs (length r)) \<and> no_gaps is_video_tag r outs"

lemma dropper_run_inv:
  assumes "dropper_run r TagDropper_new = (outs, d)"
  shows "dropper_inv r outs d"
  using assms
proof (induction r arbitrary: outs d rule: rev_induct)
  case Nil
  then show ?case by (auto simp: dropper_inv_def TagDropper_new_def delivered_def no_gaps_def)
next
  case (snoc x r)
  obtain t ts where x: "x = (t, ts)" by (cases x)
  obtain os d1 where r: "dropper_run r TagDropper_new = (os, d1)" by fastforce
  obtain out where step: "TagDropper_ProcessTag t ts d1 = (out, d)" and outs: "outs = os @ [out]"
    using snoc.prems unfolding x dropper_run_snoc r by (auto split: prod.splits)
  have inv: "dropper_inv r os d1" by (rule snoc.IH[OF r])
  then have len: "length os = length r" by (simp add: dropper_inv_def)
  note a = dropper_step_audio[OF step] and v = dropper_step_video[OF step]
  have "delivered (r @ [(t, ts)]) (os @ [out]) = delivered r os @ (if out then [ts] else [])"
    by (rule delivered_snoc[OF len])
  moreover have "is_audio_synced d \<longrightarrow> in_sync is_audio_tag (r @ [(t, ts)]) (os @ [out]) (Suc (length r))"
    using in_sync_snoc[OF len a] inv by (auto simp: dropper_inv_def)
  moreover have "is_video_synced d \<longrightarrow> in_sync is_video_tag (r @ [(t, ts)]) (os @ [out]) (Suc (length r))"
    using in_sync_snoc[OF len v] inv by (auto simp: dropper_inv_def)
  moreover have "no_gaps is_audio_tag (r @ [(t, ts)]) (os @ [out])" "no_gaps is_video_tag (r @ [(t, ts)]) (os @ [out])"
    using no_gaps_snoc[OF len a] no_gaps_snoc[OF len v] inv by (auto simp: dropper_inv_def)
  ultimately show ?case
    using inv dropper_step_time[OF step] len unfolding x outs dropper_inv_def
    by (auto simp: sorted_wrt_append split: if_splits)
qed

text \<open>
  C22. What a dropper delivers has strictly increasing times from 0 on, and an audio or video tag
  that cannot be decoded by itself is delivered only after one of its kind that can, with no seek
  or start of a source in between, and no tag of its kind dropped in between that is audio alone
  or video alone.  A composed tag, which is both, can be dropped there: a late one resets only
  the flag of the audio, and one that is dropped for one kind leaves the flag of the other
  (\<open>composed_tag_gap\<close>).
\<close>

theorem dropper_delivers:
  assumes "dropper_run r TagDropper_new = (outs, d)"
  shows "sorted_wrt (<) (delivered r outs) \<and> (\<forall>x \<in> set (delivered r outs). 0 \<le> x)
    \<and> no_gaps is_audio_tag r outs \<and> no_gaps is_video_tag r outs"
  using dropper_run_inv[OF assms] by (simp add: dropper_inv_def)

definition sample_video :: "bool \<Rightarrow> unit media_tag" where
  "sample_video key = MediaTag (if key then ATTR_VIDEO OR ATTR_CAN_RESYNC else ATTR_VIDEO) 1 (FormatData Raw 40 400 None)"

theorem dropper_delivers_witness:
  "delivered [(sample_video False, 0), (sample_video True, 40), (sample_video False, 80), (sample_video False, 70), (sample_video False, 120)]
     [False, True, True, False, False] = [40, 80]
   \<and> no_gaps is_video_tag [(sample_video False, 0), (sample_video True, 40), (sample_video False, 80), (sample_video False, 70), (sample_video False, 120)]
     [False, True, True, False, False]"
proof -
  let ?r = "[(sample_video False, 0), (sample_video True, 40), (sample_video False, 80), (sample_video False, 70), (sample_video False, 120)]"
  have v: "is_video_tag (sample_video k)" "\<not> is_audio_tag (sample_video k)" "can_resync (sample_video k) = k" "\<not> restarts (sample_video k)" for k
    by (auto simp: is_video_tag_def is_audio_tag_def can_resync_def restarts_def mt_type_def sample_video_def
      ATTR_VIDEO_def ATTR_AUDIO_def ATTR_CAN_RESYNC_def)
  have "\<exists>d. dropper_run ?r TagDropper_new = ([False, True, True, False, False], d)"
    by (simp add: TagDropper_new_def TagDropper_ProcessTag_def v Let_def)
  then show ?thesis using dropper_delivers[of ?r] by (auto simp: delivered_def v)
qed

text \<open>
  The exception is real: behind a composed tag that comes too late, a video tag that needs the
  dropped one is delivered, while after a late tag of video alone it is not.
\<close>

definition composed_sample :: "unit media_tag" where
  "composed_sample = MediaTag (ATTR_AUDIO OR ATTR_VIDEO) 1 (FormatData Raw 40 400 None)"

lemma composed_tag_gap:
  "fst (dropper_run [(sample_video True, 40), (composed_sample, 40), (sample_video False, 80)] TagDropper_new) = [True, False, True]"
  "fst (dropper_run [(sample_video True, 40), (sample_video False, 40), (sample_video False, 80)] TagDropper_new) = [True, False, False]"
  by (simp_all add: dropper_run.simps TagDropper_new_def TagDropper_ProcessTag_def Let_def is_video_tag_def is_audio_tag_def
      can_resync_def restarts_def mt_type_def sample_video_def composed_sample_def ATTR_VIDEO_def ATTR_AUDIO_def ATTR_CAN_RESYNC_def)

text \<open>
  A dropper never gets stuck: whatever it was given, the next tag with a time of its own
  after all that were delivered is delivered if it can resync or is neither audio nor video.
\<close>

theorem dropper_resumes:
  assumes "dropper_run r TagDropper_new = (outs, d)"
    and "0 \<le> ts" "\<forall>x \<in> set (delivered r outs). x < ts"
    and "can_resync t \<or> \<not> is_audio_tag t \<and> \<not> is_video_tag t"
  shows "\<exists>d'. dropper_run (r @ [(t, ts)]) TagDropper_new = (outs @ [True], d')"
proof -
  have "last_timestamp_ms d < ts"
    using dropper_run_inv[OF assms(1)] assms(2,3) by (auto simp: dropper_inv_def split: if_splits)
  then have "fst (TagDropper_ProcessTag t ts d)"
    using assms(2,4) by (auto simp: TagDropper_ProcessTag_def Let_def)
  then show ?thesis
    unfolding dropper_run_snoc assms(1) by (cases "TagDropper_ProcessTag t ts d") auto
qed

theorem dropper_resumes_witness:
  "\<exists>d. dropper_run [(sample_video False, 0), (sample_video True, 40)] TagDropper_new = ([False, True], d)"
proof -
  have v: "is_video_tag (sample_video k)" "\<not> is_audio_tag (sample_video k)" "can_resync (sample_video k) = k" "\<not> restarts (sample_video k)" for k
    by (auto simp: is_video_tag_def is_audio_tag_def can_resync_def restarts_def mt_type_def sample_video_def
      ATTR_VIDEO_def ATTR_AUDIO_def ATTR_CAN_RESYNC_def)
  have "\<exists>d. dropper_run [(sample_video False, 0)] TagDropper_new = ([False], d)"
    by (simp add: TagDropper_new_def TagDropper_ProcessTag_def v Let_def)
  then show ?thesis
    using dropper_resumes[of "[(sample_video False, 0)]" "[False]" _ 40 "sample_video True"] by (auto simp: delivered_def v)
qed

end
