(* ===== verification/Bootstrap.thy ===== *)
theory Bootstrap
  imports MediaTag
begin

text \<open>
  \<^verbatim>\<open>whisperstreamlib/base/bootstrapper.{h,cc}\<close>: the tags a new client of a running stream
  needs before it can follow the stream, kept up to date as the tags go by, and the theorem
  that says what is kept in terms of the tags that went by.  References to tags are the tags;
  what the code only logs is left out.
\<close>

record 'i bootstrapper =
  keep_media :: bool
  source_started_tags :: "'i media_tag list"
  avc_sequence_header :: "'i media_tag option"
  aac_header_tag :: "'i media_tag option"
  bs_metadata :: "'i media_tag option"
  bs_media_info :: "'i media_tag option"
  bs_cue_points :: "'i media_tag option"
  moov_tag :: "'i media_tag option"
  media_bootstrap :: "'i media_tag list"

definition Bootstrapper_new :: "bool \<Rightarrow> 'i bootstrapper" where
  "Bootstrapper_new keep = \<lparr>keep_media = keep, source_started_tags = [], avc_sequence_header = None,
     aac_header_tag = None, bs_metadata = None, bs_media_info = None, bs_cue_points = None,
     moov_tag = None, media_bootstrap = []\<rparr>"

definition ClearMediaBootstrap :: "'i bootstrapper \<Rightarrow> 'i bootstrapper" where
  "ClearMediaBootstrap b = b\<lparr>media_bootstrap := []\<rparr>"

definition ClearBootstrap :: "'i bootstrapper \<Rightarrow> 'i bootstrapper" where
  "ClearBootstrap b = b\<lparr>source_started_tags := [], avc_sequence_header := None, aac_header_tag := None,
     bs_metadata := None, bs_media_info := None, bs_cue_points := None, moov_tag := None\<rparr>"

definition set_keep_media :: "bool \<Rightarrow> 'i bootstrapper \<Rightarrow> 'i bootstrapper" where
  "set_keep_media keep b =
     (let b1 = b\<lparr>keep_media := keep\<rparr> in if \<not> keep then ClearMediaBootstrap b1 else b1)"

section \<open>What is played\<close>

text \<open>The tags and times that the callback is run on; \<open>None\<close> when a tag cannot be made.\<close>

definition MaybeSendTag :: "int \<Rightarrow> 'i media_tag option \<Rightarrow> ('i media_tag \<times> int) list" where
  "MaybeSendTag ts tag = (case tag of None \<Rightarrow> [] | Some t \<Rightarrow> [(t, ts)])"

definition PlayAtBegin :: "int \<Rightarrow> 32 word \<Rightarrow> 'i bootstrapper \<Rightarrow> ('i media_tag \<times> int) list option" where
  "PlayAtBegin timestamp_ms flavour_mask b = do {
     let ts = (if timestamp_ms < 0 then 0 else timestamp_ms);
     begin_tag \<leftarrow> Tag_new 0 flavour_mask BootstrapBeginData;
     end_tag \<leftarrow> Tag_new 0 flavour_mask BootstrapEndData;
     Some ([(begin_tag, 0)]
       @ concat (map (\<lambda>t. MaybeSendTag ts (Some t)) (source_started_tags b))
       @ MaybeSendTag ts (bs_media_info b)
       @ MaybeSendTag ts (bs_metadata b)
       @ MaybeSendTag ts (bs_cue_points b)
       @ MaybeSendTag ts (avc_sequence_header b)
       @ MaybeSendTag ts (aac_header_tag b)
       @ MaybeSendTag ts (moov_tag b)
       @ concat (map (\<lambda>t. MaybeSendTag ts (Some t)) (media_bootstrap b))
       @ [(end_tag, ts)]) }"

definition source_ended_for :: "'i media_tag \<Rightarrow> 'i media_tag option" where
  "source_ended_for t = (case mt_data t of
     SourceStartedData name path final start \<Rightarrow>
       Tag_new (mt_attributes t) (mt_flavour_mask t) (SourceEndedData name path final)
   | _ \<Rightarrow> None)"

fun play_ended :: "int \<Rightarrow> 32 word \<Rightarrow> 'i media_tag list \<Rightarrow> ('i media_tag \<times> int) list option" where
  "play_ended ts flavour_mask [] = Some []"
| "play_ended ts flavour_mask (t # r) =
     (if mt_flavour_mask t AND flavour_mask \<noteq> 0 then do {
        e \<leftarrow> source_ended_for t;
        rest \<leftarrow> play_ended ts flavour_mask r;
        Some ((e, ts) # rest) }
      else play_ended ts flavour_mask r)"

definition PlayAtEnd :: "int \<Rightarrow> 32 word \<Rightarrow> 'i bootstrapper \<Rightarrow> ('i media_tag \<times> int) list option" where
  "PlayAtEnd timestamp_ms flavour_mask b =
     play_ended (if timestamp_ms < 0 then 0 else timestamp_ms) flavour_mask (rev (source_started_tags b))"

definition GetBootstrapTags :: "'i bootstrapper \<Rightarrow> 'i media_tag list" where
  "GetBootstrapTags b =
     (let opt = (\<lambda>x. case x of None \<Rightarrow> [] | Some t \<Rightarrow> [t])
      in source_started_tags b @ opt (bs_metadata b) @ opt (bs_media_info b) @ opt (bs_cue_points b)
         @ opt (avc_sequence_header b) @ opt (aac_header_tag b) @ opt (moov_tag b))"

section \<open>What is kept\<close>

definition kOnMetaData :: bytes where
  "kOnMetaData = bytes_of ''onMetaData''"

definition is_avc_header :: "'i media_tag \<Rightarrow> bool" where
  "is_avc_header t = (case mt_data t of
     FlvData _ _ (FlvVideo v _) \<Rightarrow>
       vi_codec v = FLV_FLAG_VIDEO_CODEC_AVC \<and> avc_packet_type v = AVC_SEQUENCE_HEADER
   | _ \<Rightarrow> False)"

text \<open>\<^verbatim>\<open>avc_moov().get()\<close> as a tag of the same flavour; \<open>None\<close> for NULL.\<close>

definition avc_moov :: "'i media_tag \<Rightarrow> 'i media_tag option" where
  "avc_moov t = (case mt_data t of
     FlvData _ _ (FlvVideo _ (Some m)) \<Rightarrow>
       Some (MediaTag (moov_attributes m) (mt_flavour_mask t) (FlvData (moov_timestamp_ms m) 0 (FlvVideo (moov_video m) None)))
   | _ \<Rightarrow> None)"

definition is_on_metadata :: "'i media_tag \<Rightarrow> bool" where
  "is_on_metadata t = (case mt_data t of
     FlvData _ _ (FlvMetadata name _ _) \<Rightarrow> name = kOnMetaData
   | FlvData _ _ (BadMetadata name) \<Rightarrow> name = kOnMetaData
   | _ \<Rightarrow> False)"

definition is_aac_header_tag :: "'i media_tag \<Rightarrow> bool" where
  "is_aac_header_tag t = (case mt_data t of
     FlvData _ _ (FlvAudio a) \<Rightarrow> au_format a = FLV_FLAG_SOUND_FORMAT_AAC \<and> is_aac_header a
   | _ \<Rightarrow> False)"

definition is_keyframe :: "'i media_tag \<Rightarrow> bool" where
  "is_keyframe t \<longleftrightarrow> is_video_tag t \<and> can_resync t"

text \<open>The part of \<^verbatim>\<open>ProcessTag\<close> that keeps the media from the last keyframe on.\<close>

definition keep_media_tag :: "'i media_tag \<Rightarrow> 'i bootstrapper \<Rightarrow> 'i bootstrapper" where
  "keep_media_tag t b =
     (if keep_media b then
        let b1 = (if is_keyframe t then ClearMediaBootstrap b else b)
        in if media_bootstrap b1 = [] \<and> \<not> is_keyframe t then b1
           else b1\<lparr>media_bootstrap := media_bootstrap b1 @ [t]\<rparr>
      else b)"

definition Bootstrapper_ProcessTag :: "'i media_tag \<Rightarrow> int \<Rightarrow> 'i bootstrapper \<Rightarrow> 'i bootstrapper" where
  "Bootstrapper_ProcessTag t timestamp_ms b =
     (if mt_type t = TYPE_SOURCE_ENDED then
        b\<lparr>source_started_tags := (if source_started_tags b = [] then [] else butlast (source_started_tags b)),
          media_bootstrap := [], avc_sequence_header := None, aac_header_tag := None, bs_metadata := None,
          bs_media_info := None, bs_cue_points := None, moov_tag := None\<rparr>
      else if mt_type t = TYPE_MEDIA_INFO then b\<lparr>bs_media_info := Some t\<rparr>
      else if mt_type t = TYPE_SOURCE_STARTED then b\<lparr>source_started_tags := source_started_tags b @ [t]\<rparr>
      else if mt_type t = TYPE_FLV \<and> is_avc_header t then b\<lparr>avc_sequence_header := Some t\<rparr>
      else if mt_type t = TYPE_FLV \<and> avc_moov t \<noteq> None then b\<lparr>moov_tag := avc_moov t\<rparr>
      else if mt_type t = TYPE_FLV \<and> is_on_metadata t then b\<lparr>bs_metadata := Some t\<rparr>
      else if mt_type t = TYPE_FLV \<and> is_aac_header_tag t then b\<lparr>aac_header_tag := Some t\<rparr>
      else if mt_type t = TYPE_CUE_POINT then b\<lparr>bs_cue_points := Some t\<rparr>
      else keep_media_tag t b)"

section \<open>What is kept, from the tags that went by\<close>

definition process_all :: "'i media_tag list \<Rightarrow> 'i bootstrapper \<Rightarrow> 'i bootstrapper" where
  "process_all ts b = foldl (\<lambda>b t. Bootstrapper_ProcessTag t 0 b) b ts"

text \<open>The end of a list after its last element with a property; the last element with one.\<close>

definition after_last :: "('a \<Rightarrow> bool) \<Rightarrow> 'a list \<Rightarrow> 'a list" where
  "after_last p xs = rev (takeWhile (Not \<circ> p) (rev xs))"

definition find_last :: "('a \<Rightarrow> bool) \<Rightarrow> 'a list \<Rightarrow> 'a option" where
  "find_last p xs = List.find p (rev xs)"

text \<open>The end of a list from its last element with a property on.\<close>

definition from_last :: "('a \<Rightarrow> bool) \<Rightarrow> 'a list \<Rightarrow> 'a list" where
  "from_last p xs = (case find_last p xs of None \<Rightarrow> [] | Some x \<Rightarrow> x # after_last p xs)"

lemma after_last_snoc [simp]:
  "after_last p [] = []"
  "after_last p (xs @ [x]) = (if p x then [] else after_last p xs @ [x])"
  by (simp_all add: after_last_def)

lemma find_last_snoc [simp]:
  "find_last p [] = None"
  "find_last p (xs @ [x]) = (if p x then Some x else find_last p xs)"
  by (simp_all add: find_last_def)

lemma from_last_snoc [simp]:
  "from_last p [] = []"
  "from_last p (xs @ [x]) = (if p x then [x] else if from_last p xs = [] then [] else from_last p xs @ [x])"
  by (auto simp: from_last_def split: option.splits)

text \<open>The sources that have started and not ended, the last one at the end.\<close>

fun open_sources :: "'i media_tag list \<Rightarrow> 'i media_tag list \<Rightarrow> 'i media_tag list" where
  "open_sources [] st = st"
| "open_sources (t # r) st = open_sources r
     (if mt_type t = TYPE_SOURCE_STARTED then st @ [t]
      else if mt_type t = TYPE_SOURCE_ENDED then butlast st else st)"

lemma open_sources_append: "open_sources (xs @ ys) st = open_sources ys (open_sources xs st)"
  by (induction xs st rule: open_sources.induct) auto

text \<open>The tags that a bootstrapper keeps by their kind, and all the others: the media.\<close>

definition is_moov :: "'i media_tag \<Rightarrow> bool" where
  "is_moov t \<longleftrightarrow> \<not> is_avc_header t \<and> avc_moov t \<noteq> None"

definition is_media :: "'i media_tag \<Rightarrow> bool" where
  "is_media t \<longleftrightarrow> mt_type t \<noteq> TYPE_SOURCE_ENDED \<and> mt_type t \<noteq> TYPE_SOURCE_STARTED
     \<and> mt_type t \<noteq> TYPE_MEDIA_INFO \<and> mt_type t \<noteq> TYPE_CUE_POINT
     \<and> \<not> is_avc_header t \<and> \<not> is_moov t \<and> \<not> is_on_metadata t \<and> \<not> is_aac_header_tag t"

definition kept :: "bool \<Rightarrow> 'i media_tag list \<Rightarrow> 'i bootstrapper" where
  "kept keep ts =
     (let cur = after_last (\<lambda>t. mt_type t = TYPE_SOURCE_ENDED) ts in
      \<lparr>keep_media = keep,
       source_started_tags = open_sources ts [],
       avc_sequence_header = find_last is_avc_header cur,
       aac_header_tag = find_last is_aac_header_tag cur,
       bs_metadata = find_last is_on_metadata cur,
       bs_media_info = find_last (\<lambda>t. mt_type t = TYPE_MEDIA_INFO) cur,
       bs_cue_points = find_last (\<lambda>t. mt_type t = TYPE_CUE_POINT) cur,
       moov_tag = Option.bind (find_last is_moov cur) avc_moov,
       media_bootstrap = (if keep then from_last is_keyframe (filter is_media cur) else [])\<rparr>)"

text \<open>A tag is of one kind at most.\<close>

lemma kind_disjoint:
  "is_avc_header t \<Longrightarrow> mt_type t = TYPE_FLV \<and> \<not> is_on_metadata t \<and> \<not> is_aac_header_tag t \<and> \<not> is_moov t"
  "avc_moov t \<noteq> None \<Longrightarrow> mt_type t = TYPE_FLV \<and> \<not> is_on_metadata t \<and> \<not> is_aac_header_tag t"
  "is_on_metadata t \<Longrightarrow> mt_type t = TYPE_FLV \<and> \<not> is_aac_header_tag t"
  "is_aac_header_tag t \<Longrightarrow> mt_type t = TYPE_FLV"
  by (auto simp: is_avc_header_def avc_moov_def is_on_metadata_def is_aac_header_tag_def is_moov_def mt_type_def
      split: tag_data.splits flv_body.splits option.splits)

lemma process_kinds:
  "mt_type t = TYPE_MEDIA_INFO \<Longrightarrow> Bootstrapper_ProcessTag t ts b = b\<lparr>bs_media_info := Some t\<rparr>"
  "mt_type t = TYPE_SOURCE_STARTED \<Longrightarrow>
     Bootstrapper_ProcessTag t ts b = b\<lparr>source_started_tags := source_started_tags b @ [t]\<rparr>"
  "is_avc_header t \<Longrightarrow> Bootstrapper_ProcessTag t ts b = b\<lparr>avc_sequence_header := Some t\<rparr>"
  "is_moov t \<Longrightarrow> Bootstrapper_ProcessTag t ts b = b\<lparr>moov_tag := avc_moov t\<rparr>"
  "is_on_metadata t \<Longrightarrow> Bootstrapper_ProcessTag t ts b = b\<lparr>bs_metadata := Some t\<rparr>"
  "is_aac_header_tag t \<Longrightarrow> Bootstrapper_ProcessTag t ts b = b\<lparr>aac_header_tag := Some t\<rparr>"
  "mt_type t = TYPE_CUE_POINT \<Longrightarrow> Bootstrapper_ProcessTag t ts b = b\<lparr>bs_cue_points := Some t\<rparr>"
  "is_media t \<Longrightarrow> Bootstrapper_ProcessTag t ts b = keep_media_tag t b"
  using kind_disjoint[of t] unfolding Bootstrapper_ProcessTag_def is_moov_def is_media_def by auto

lemma non_flv_kinds:
  assumes "mt_type t \<noteq> TYPE_FLV"
  shows "\<not> is_avc_header t" "\<not> is_moov t" "\<not> is_on_metadata t" "\<not> is_aac_header_tag t"
  using kind_disjoint[of t] assms by (auto simp: is_moov_def)

lemma flv_kinds:
  "is_avc_header t \<Longrightarrow> \<not> is_moov t" "is_avc_header t \<Longrightarrow> \<not> is_on_metadata t"
  "is_avc_header t \<Longrightarrow> \<not> is_aac_header_tag t"
  "is_moov t \<Longrightarrow> \<not> is_avc_header t" "is_moov t \<Longrightarrow> \<not> is_on_metadata t" "is_moov t \<Longrightarrow> \<not> is_aac_header_tag t"
  "is_on_metadata t \<Longrightarrow> \<not> is_avc_header t" "is_on_metadata t \<Longrightarrow> \<not> is_moov t"
  "is_on_metadata t \<Longrightarrow> \<not> is_aac_header_tag t"
  "is_aac_header_tag t \<Longrightarrow> \<not> is_avc_header t" "is_aac_header_tag t \<Longrightarrow> \<not> is_moov t"
  "is_aac_header_tag t \<Longrightarrow> \<not> is_on_metadata t"
  using kind_disjoint[of t] by (auto simp: is_moov_def)

lemma kinds_flv:
  "is_avc_header t \<Longrightarrow> mt_type t = TYPE_FLV" "is_moov t \<Longrightarrow> mt_type t = TYPE_FLV"
  "is_on_metadata t \<Longrightarrow> mt_type t = TYPE_FLV" "is_aac_header_tag t \<Longrightarrow> mt_type t = TYPE_FLV"
  using kind_disjoint[of t] by (auto simp: is_moov_def)

lemma process_kept: "Bootstrapper_ProcessTag t ts (kept keep r) = kept keep (r @ [t])"
proof -
  note fold = kept_def Let_def open_sources_append
  consider (ended) "mt_type t = TYPE_SOURCE_ENDED" | (info) "mt_type t = TYPE_MEDIA_INFO"
    | (started) "mt_type t = TYPE_SOURCE_STARTED" | (avc) "is_avc_header t"
    | (moov) "is_moov t" | (meta) "is_on_metadata t" | (aac) "is_aac_header_tag t"
    | (cue) "mt_type t = TYPE_CUE_POINT" | (media) "is_media t"
    unfolding is_media_def by blast
  then show ?thesis
  proof cases
    case ended
    then show ?thesis by (simp add: Bootstrapper_ProcessTag_def fold)
  next
    case info
    then show ?thesis by (simp add: process_kinds(1) non_flv_kinds is_media_def fold)
  next
    case started
    then show ?thesis by (simp add: process_kinds(2) non_flv_kinds is_media_def fold)
  next
    case avc
    with flv_kinds(1-3)[OF avc] kinds_flv(1)[OF avc] show ?thesis
      by (simp add: process_kinds(3) is_media_def fold)
  next
    case moov
    with flv_kinds(4-6)[OF moov] kinds_flv(2)[OF moov] show ?thesis
      by (simp add: process_kinds(4) is_media_def fold)
  next
    case meta
    with flv_kinds(7-9)[OF meta] kinds_flv(3)[OF meta] show ?thesis
      by (simp add: process_kinds(5) is_media_def fold)
  next
    case aac
    with flv_kinds(10-12)[OF aac] kinds_flv(4)[OF aac] show ?thesis
      by (simp add: process_kinds(6) is_media_def fold)
  next
    case cue
    then show ?thesis by (simp add: process_kinds(7) non_flv_kinds is_media_def fold)
  next
    case media
    then have "mt_type t \<noteq> TYPE_SOURCE_ENDED" "mt_type t \<noteq> TYPE_SOURCE_STARTED" "mt_type t \<noteq> TYPE_MEDIA_INFO"
        "mt_type t \<noteq> TYPE_CUE_POINT" "\<not> is_avc_header t" "\<not> is_moov t" "\<not> is_on_metadata t" "\<not> is_aac_header_tag t"
      by (auto simp: is_media_def)
    then show ?thesis
      using media by (simp add: process_kinds(8) keep_media_tag_def ClearMediaBootstrap_def fold)
  qed
qed

text \<open>
  C16. Whatever tags went by, a bootstrapper holds the sources that have started and not ended
  and, of the tags since a source last ended, the last header of each kind (AVC, AAC, moov box,
  metadata, media information, cue points) and, if it keeps media, the media tags from the last
  key frame on.
\<close>

theorem Bootstrapper_history: "process_all ts (Bootstrapper_new keep) = kept keep ts"
proof (induction ts rule: rev_induct)
  case Nil
  then show ?case by (simp add: process_all_def Bootstrapper_new_def kept_def)
next
  case (snoc t ts)
  then show ?case by (simp add: process_all_def process_kept)
qed

end
