(* ===== verification/TagDistribution.thy ===== *)
theory TagDistribution
  imports Bootstrap
begin

text \<open>
  \<^verbatim>\<open>whisperstreamlib/base/tag_distributor.h\<close> and \<^verbatim>\<open>callbacks_manager.{h,cc}\<close>: the
  fan-out of a stream of tags to its clients.  Requests and callbacks are their addresses; a
  \<^verbatim>\<open>map\<close> over requests is a list in the order of the addresses.  An operation returns the
  calls of callbacks it makes, in order, or \<open>None\<close> when a \<^verbatim>\<open>CHECK\<close> or \<^verbatim>\<open>DCHECK\<close> fails.
  The flag \<^verbatim>\<open>distributing_tag_\<close> traps callbacks that call back into the distributor;
  as they may not, it is false between operations and left out.
\<close>

section \<open>Maps with addresses as keys\<close>

fun map_put :: "nat \<Rightarrow> 'a \<Rightarrow> (nat \<times> 'a) list \<Rightarrow> (nat \<times> 'a) list" where
  "map_put k v [] = [(k, v)]"
| "map_put k v ((k', v') # m) =
     (if k < k' then (k, v) # (k', v') # m
      else if k = k' then (k, v) # m
      else (k', v') # map_put k v m)"

definition map_del :: "nat \<Rightarrow> (nat \<times> 'a) list \<Rightarrow> (nat \<times> 'a) list" where
  "map_del k m = filter (\<lambda>(k', v). k' \<noteq> k) m"

definition has_key :: "nat \<Rightarrow> (nat \<times> 'a) list \<Rightarrow> bool" where
  "has_key k m \<longleftrightarrow> k \<in> set (map fst m)"

section \<open>State\<close>

record callback_entry =
  callback :: nat
  done_flag :: bool

record 'i tag_distributor =
  td_bootstrapper :: "'i bootstrapper"
  running :: "(nat \<times> callback_entry) list"
  to_bootstrap :: "(nat \<times> callback_entry) list"
  td_flavour_mask :: "32 word"
  td_name :: bytes
  td_last_tag_ts :: int

definition TagDistributor_new :: "32 word \<Rightarrow> bytes \<Rightarrow> bool \<Rightarrow> 'i tag_distributor option" where
  "TagDistributor_new flavour_mask name bootstrap_media =
     (if one_flavour flavour_mask then
        Some \<lparr>td_bootstrapper = Bootstrapper_new bootstrap_media, running = [], to_bootstrap = [],
              td_flavour_mask = flavour_mask, td_name = name, td_last_tag_ts = 0\<rparr>
      else None)"

definition add_callback :: "nat \<Rightarrow> nat \<Rightarrow> 'i tag_distributor \<Rightarrow> 'i tag_distributor option" where
  "add_callback req cb d =
     (if has_key req (running d) \<or> has_key req (to_bootstrap d) then None
      else Some (d\<lparr>to_bootstrap := map_put req \<lparr>callback = cb, done_flag = False\<rparr> (to_bootstrap d)\<rparr>))"

definition remove_callback :: "nat \<Rightarrow> 'i tag_distributor \<Rightarrow> 'i tag_distributor option" where
  "remove_callback req d =
     (if has_key req (running d) then Some (d\<lparr>running := map_del req (running d)\<rparr>)
      else if has_key req (to_bootstrap d) then Some (d\<lparr>to_bootstrap := map_del req (to_bootstrap d)\<rparr>)
      else None)"

section \<open>Calls\<close>

type_synonym 'i calls = "(nat \<times> 'i media_tag \<times> int) list"

definition run_on :: "callback_entry \<Rightarrow> ('i media_tag \<times> int) list \<Rightarrow> 'i calls" where
  "run_on c ts = map (\<lambda>(t, ts). (callback c, t, ts)) ts"

fun for_each :: "(callback_entry \<Rightarrow> 'i calls option) \<Rightarrow> (nat \<times> callback_entry) list \<Rightarrow> 'i calls option" where
  "for_each f [] = Some []"
| "for_each f ((k, c) # m) = do {
     a \<leftarrow> f c;
     b \<leftarrow> for_each f m;
     Some (a @ b) }"

definition play_at_end :: "'i tag_distributor \<Rightarrow> callback_entry \<Rightarrow> 'i calls option" where
  "play_at_end d c = map_option (run_on c) (PlayAtEnd (td_last_tag_ts d) (td_flavour_mask d) (td_bootstrapper d))"

definition DistributeTagInternal ::
    "(nat \<times> callback_entry) list \<Rightarrow> 'i media_tag \<Rightarrow> int \<Rightarrow> 'i tag_distributor \<Rightarrow> 'i calls \<times> 'i tag_distributor" where
  "DistributeTagInternal callbacks tag ts d =
     (concat (map (\<lambda>(k, c). run_on c [(tag, ts)]) callbacks), d\<lparr>td_last_tag_ts := ts\<rparr>)"

definition Switch :: "'i tag_distributor \<Rightarrow> ('i calls \<times> 'i tag_distributor) option" where
  "Switch d = do {
     out \<leftarrow> for_each (play_at_end d) (running d);
     Some (out, d\<lparr>td_bootstrapper := ClearBootstrap (td_bootstrapper d), td_last_tag_ts := 0\<rparr>) }"

fun move_all :: "(nat \<times> callback_entry) list \<Rightarrow> (nat \<times> callback_entry) list \<Rightarrow> (nat \<times> callback_entry) list" where
  "move_all [] to = to"
| "move_all ((k, c) # from) to = move_all from (map_put k c to)"

definition Reset :: "'i tag_distributor \<Rightarrow> ('i calls \<times> 'i tag_distributor) option" where
  "Reset d = do {
     out1 \<leftarrow> for_each (play_at_end d) (running d);
     (out2, d1) \<leftarrow> (if td_name d \<noteq> [] then do {
         ended \<leftarrow> Tag_new 0 (td_flavour_mask d) (SourceEndedData (td_name d) (td_name d) False);
         Some (DistributeTagInternal (running d) ended (td_last_tag_ts d) d) }
       else Some ([], d));
     Some (out1 @ out2,
       d1\<lparr>to_bootstrap := move_all (running d1) (to_bootstrap d1), running := [],
          td_bootstrapper := ClearBootstrap (td_bootstrapper d1), td_last_tag_ts := 0\<rparr>) }"

definition set_done :: "nat \<Rightarrow> (nat \<times> callback_entry) list \<Rightarrow> (nat \<times> callback_entry) list" where
  "set_done req m = map (\<lambda>(k, c). (k, if k = req then c\<lparr>done_flag := True\<rparr> else c)) m"

text \<open>What a running callback is sent when it is closed, then at what time \<open>ets\<close> the end of stream.\<close>

definition close_running ::
    "'i tag_distributor \<Rightarrow> 'i media_tag \<Rightarrow> 'i media_tag \<Rightarrow> int \<Rightarrow> callback_entry \<Rightarrow> 'i calls option" where
  "close_running d source_ended eos ets c = do {
     out \<leftarrow> play_at_end d c;
     (if done_flag c then None
      else Some (out @ run_on c ((if td_name d = [] then [] else [(source_ended, 0)]) @ [(eos, ets)]))) }"

definition close_waiting :: "'i media_tag \<Rightarrow> int \<Rightarrow> callback_entry \<Rightarrow> 'i calls option" where
  "close_waiting eos ets c = (if done_flag c then None else Some (run_on c [(eos, ets)]))"

definition CloseCallback :: "nat \<Rightarrow> bool \<Rightarrow> 'i tag_distributor \<Rightarrow> ('i calls \<times> 'i tag_distributor) option" where
  "CloseCallback req forced d = do {
     source_ended \<leftarrow> Tag_new 0 (td_flavour_mask d) (SourceEndedData (td_name d) (td_name d) False);
     eos \<leftarrow> Tag_new 0 (td_flavour_mask d) (EosData forced);
     (case map_of (running d) req of
        Some c \<Rightarrow> do {
          out \<leftarrow> close_running d source_ended eos 0 c;
          Some (out, d\<lparr>running := set_done req (running d)\<rparr>) }
      | None \<Rightarrow> (case map_of (to_bootstrap d) req of
          None \<Rightarrow> None
        | Some c \<Rightarrow> do {
            out \<leftarrow> close_waiting eos 0 c;
            Some (out, d\<lparr>to_bootstrap := set_done req (to_bootstrap d)\<rparr>) })) }"

definition CloseAllCallbacks :: "bool \<Rightarrow> 'i tag_distributor \<Rightarrow> ('i calls \<times> 'i tag_distributor) option" where
  "CloseAllCallbacks forced d = do {
     source_ended \<leftarrow> Tag_new 0 (td_flavour_mask d) (SourceEndedData (td_name d) (td_name d) False);
     eos \<leftarrow> Tag_new 0 (td_flavour_mask d) (EosData forced);
     out1 \<leftarrow> for_each (close_running d source_ended eos (td_last_tag_ts d)) (running d);
     out2 \<leftarrow> for_each (close_waiting eos (td_last_tag_ts d)) (to_bootstrap d);
     let all_done = map (\<lambda>(k, c). (k, c\<lparr>done_flag := True\<rparr>));
     Some (out1 @ out2, d\<lparr>running := all_done (running d), to_bootstrap := all_done (to_bootstrap d)\<rparr>) }"

text \<open>What a new client is sent first.\<close>

definition bootstrap_tags :: "'i tag_distributor \<Rightarrow> int \<Rightarrow> ('i media_tag \<times> int) list option" where
  "bootstrap_tags d ts = do {
     started \<leftarrow> (if td_name d = [] then Some []
       else map_option (\<lambda>t. [(t, ts)])
         (Tag_new 0 (td_flavour_mask d) (SourceStartedData (td_name d) (td_name d) False ts)));
     play \<leftarrow> PlayAtBegin ts (td_flavour_mask d) (td_bootstrapper d);
     Some (started @ play) }"

definition DistributeTag :: "'i media_tag \<Rightarrow> int \<Rightarrow> 'i tag_distributor \<Rightarrow> ('i calls \<times> 'i tag_distributor) option" where
  "DistributeTag tag ts d =
     (if mt_type tag = TYPE_BOOTSTRAP_BEGIN \<or> mt_type tag = TYPE_BOOTSTRAP_END then Some ([], d)
      else do {
        out1 \<leftarrow> for_each (\<lambda>c. map_option (run_on c) (bootstrap_tags d ts)) (to_bootstrap d);
        let d1 = d\<lparr>running := move_all (to_bootstrap d) (running d), to_bootstrap := [],
                   td_bootstrapper := Bootstrapper_ProcessTag tag ts (td_bootstrapper d)\<rparr>;
        let (out2, d2) = DistributeTagInternal (running d1) tag ts d1;
        Some (out1 @ out2, d2) })"

section \<open>\<^verbatim>\<open>CallbacksManager\<close>\<close>

text \<open>The same fan-out without bootstrapping.\<close>

definition manager_add_callback :: "nat \<Rightarrow> nat \<Rightarrow> (nat \<times> nat) list \<Rightarrow> (nat \<times> nat) list option" where
  "manager_add_callback req cb m = (if has_key req m then None else Some (map_put req cb m))"

definition manager_remove_callback :: "nat \<Rightarrow> (nat \<times> nat) list \<Rightarrow> (nat \<times> nat) list" where
  "manager_remove_callback req m = map_del req m"

definition manager_DistributeTag :: "'i media_tag \<Rightarrow> int \<Rightarrow> (nat \<times> nat) list \<Rightarrow> 'i calls" where
  "manager_DistributeTag tag ts m = map (\<lambda>(req, cb). (cb, tag, ts)) m"

text \<open>\<^verbatim>\<open>insert\<close> keeps what \<^verbatim>\<open>out\<close> has already.\<close>

fun MoveAllCallbacks :: "(nat \<times> nat) list \<Rightarrow> (nat \<times> nat) list \<Rightarrow> (nat \<times> nat) list" where
  "MoveAllCallbacks [] out = out"
| "MoveAllCallbacks ((req, cb) # m) out = MoveAllCallbacks m (if has_key req out then out else map_put req cb out)"

end
