(* ===== verification/TagDistributionLaws.thy ===== *)
theory TagDistributionLaws
  imports TagDistribution
begin

text \<open>
  What the clients of a distributor see: the invariant that says which sources each client was
  told are open, and that every operation of the distributor keeps it and does not abort.
\<close>

section \<open>Maps\<close>

lemma map_of_map_put [simp]: "map_of (map_put k v m) = (map_of m)(k \<mapsto> v)"
  by (induction k v m rule: map_put.induct) (auto simp: fun_eq_iff)

lemma keys_map_put [simp]: "fst ` set (map_put k v m) = insert k (fst ` set m)"
  by (induction k v m rule: map_put.induct) auto

lemma set_map_put: "x \<in> set (map_put k v m) \<Longrightarrow> x = (k, v) \<or> x \<in> set m"
  by (induction k v m rule: map_put.induct) (auto split: if_splits)

lemma sorted_map_put:
  "sorted_wrt (<) (map fst m) \<Longrightarrow> sorted_wrt (<) (map fst (map_put k v m))"
proof (induction k v m rule: map_put.induct)
  case (2 k v k' v' m)
  then show ?case using keys_map_put[of k v m] by (auto simp: image_iff)
qed simp

lemma sorted_map_del: "sorted_wrt (<) (map fst m) \<Longrightarrow> sorted_wrt (<) (map fst (map_del k m))"
  by (induction m) (auto simp: map_del_def)

lemma map_of_map_del: "map_of (map_del k m) = (map_of m)(k := None)"
  by (induction m) (auto simp: map_del_def fun_eq_iff)

lemma keys_map_of: "fst ` set m = dom (map_of m)"
  by (simp add: dom_map_of_conv_image_fst)

lemma has_key_iff: "has_key k m \<longleftrightarrow> map_of m k \<noteq> None"
  by (simp add: has_key_def map_of_eq_None_iff)

lemma map_of_set_done:
  "map_of (set_done r m) k = map_option (\<lambda>c. if k = r then c\<lparr>done_flag := True\<rparr> else c) (map_of m k)"
  by (induction m) (auto simp: set_done_def)

lemma keys_set_done [simp]: "map fst (set_done r m) = map fst m"
  by (simp add: set_done_def case_prod_beta comp_def)

text \<open>The maps over requests keep the contract of a map, as the objects of AMF0 do.\<close>

interpretation reqmap: object_map "\<lambda>m. sorted_wrt (<) (map fst m)" "\<lambda>k m. map_of m k" map_put
    "\<lambda>k m. Some (map_del k m)"
  by unfold_locales (auto simp: sorted_map_put sorted_map_del map_of_map_del)

lemma sorted_move_all:
  "sorted_wrt (<) (map fst m) \<Longrightarrow> sorted_wrt (<) (map fst (move_all from m))"
  by (induction "from" m rule: move_all.induct) (simp_all add: sorted_map_put)

lemma map_of_move_all:
  "distinct (map fst from) \<Longrightarrow> map_of (move_all from m) = map_of m ++ map_of from"
proof (induction "from" m rule: move_all.induct)
  case (2 k c "from" to)
  then have "k \<notin> dom (map_of from)" by (simp add: dom_map_of_conv_image_fst)
  then show ?case using 2 by (auto simp: fun_eq_iff map_add_def split: option.splits)
qed simp

lemma sorted_distinct: "sorted_wrt (<) (xs :: nat list) \<Longrightarrow> distinct xs"
  by (induction xs) auto

section \<open>Calls\<close>

text \<open>The tags a callback is run on.\<close>

definition tags_to :: "nat \<Rightarrow> 'i calls \<Rightarrow> 'i media_tag list" where
  "tags_to c out = map (fst \<circ> snd) (filter (\<lambda>x. fst x = c) out)"

lemma tags_to_append [simp]: "tags_to c (a @ b) = tags_to c a @ tags_to c b"
  by (simp add: tags_to_def)

lemma tags_to_Nil [simp]: "tags_to c [] = []"
  by (simp add: tags_to_def)

lemma tags_to_run_on [simp]: "tags_to c (run_on e ts) = (if callback e = c then map fst ts else [])"
  by (auto simp: tags_to_def run_on_def filter_map comp_def case_prod_beta)

lemma for_each_Some:
  assumes "\<forall>(k, c) \<in> set m. f c = Some (run_on c (g c))"
  shows "for_each f m = Some (concat (map (\<lambda>(k, c). run_on c (g c)) m))"
  using assms by (induction m) auto

text \<open>Every client has a callback of its own, with the address of its request.\<close>

definition own_callbacks :: "(nat \<times> callback_entry) list \<Rightarrow> bool" where
  "own_callbacks m \<longleftrightarrow> sorted_wrt (<) (map fst m) \<and> (\<forall>k c. map_of m k = Some c \<longrightarrow> callback c = k)"

lemma own_callbacksD: "own_callbacks m \<Longrightarrow> (k, c) \<in> set m \<Longrightarrow> callback c = k \<and> map_of m k = Some c"
  using sorted_distinct[of "map fst m"] by (auto simp: own_callbacks_def map_of_is_SomeI)

lemma tags_to_for_each:
  assumes "own_callbacks m"
  shows "tags_to r (concat (map (\<lambda>(k, c). run_on c (g c)) m))
    = (case map_of m r of None \<Rightarrow> [] | Some c \<Rightarrow> map fst (g c))"
proof -
  have "tags_to r (concat (map (\<lambda>(k, c). run_on c (g c)) m)) = (case map_of m r of None \<Rightarrow> [] | Some c \<Rightarrow> map fst (g c))"
    if "distinct (map fst m)" "\<forall>(k, c) \<in> set m. callback c = k"
    using that
  proof (induction m)
    case (Cons x m)
    then show ?case by (cases x) (auto simp: map_of_eq_None_iff[THEN iffD2] split: option.splits)
  qed simp
  moreover have "distinct (map fst m)" using assms sorted_distinct by (simp add: own_callbacks_def)
  moreover have "\<forall>(k, c) \<in> set m. callback c = k" using own_callbacksD[OF assms] by blast
  ultimately show ?thesis by blast
qed

section \<open>What a client sees\<close>

text \<open>The sources open after some tags, the last one first; \<open>None\<close> when the pairs do not match.\<close>

fun sources_seen :: "'i media_tag list \<Rightarrow> bytes list \<Rightarrow> bytes list option" where
  "sources_seen [] st = Some st"
| "sources_seen (t # ts) st = (case mt_data t of
     SourceStartedData n _ _ _ \<Rightarrow> sources_seen ts (n # st)
   | SourceEndedData n _ _ \<Rightarrow> (case st of m # r \<Rightarrow> if m = n then sources_seen ts r else None | [] \<Rightarrow> None)
   | _ \<Rightarrow> sources_seen ts st)"

lemma sources_seen_append: "sources_seen (a @ b) st = Option.bind (sources_seen a st) (sources_seen b)"
proof (induction a st rule: sources_seen.induct)
  case (2 t ts st)
  then show ?case by (cases "mt_data t") (auto split: list.splits)
qed simp

definition neutral :: "'i media_tag \<Rightarrow> bool" where
  "neutral t \<longleftrightarrow> mt_type t \<noteq> TYPE_SOURCE_STARTED \<and> mt_type t \<noteq> TYPE_SOURCE_ENDED"

lemma sources_seen_neutral [simp]: "neutral t \<Longrightarrow> sources_seen (t # ts) st = sources_seen ts st"
  by (cases "mt_data t") (auto simp: neutral_def mt_type_def)

lemma sources_seen_neutrals: "\<forall>t \<in> set ts. neutral t \<Longrightarrow> sources_seen (ts @ us) st = sources_seen us st"
  by (induction ts) (auto simp del: sources_seen.simps(2))

definition source_name :: "'i media_tag \<Rightarrow> bytes" where
  "source_name t = (case mt_data t of SourceStartedData n _ _ _ \<Rightarrow> n | _ \<Rightarrow> [])"

text \<open>A tag that can be on the stack of a bootstrapper of the flavour.\<close>

definition source_ok :: "32 word \<Rightarrow> 'i media_tag \<Rightarrow> bool" where
  "source_ok fl t \<longleftrightarrow> mt_type t = TYPE_SOURCE_STARTED \<and> mt_attributes t AND 0xFF00 = 0
     \<and> one_flavour (mt_flavour_mask t) \<and> mt_flavour_mask t AND fl \<noteq> 0"

lemma started_data: "mt_type t = TYPE_SOURCE_STARTED \<longleftrightarrow> (\<exists>n p f s. mt_data t = SourceStartedData n p f s)"
  by (cases "mt_data t") (auto simp: mt_type_def elim: format_type.elims)

lemma ended_data: "mt_type t = TYPE_SOURCE_ENDED \<longleftrightarrow> (\<exists>n p f. mt_data t = SourceEndedData n p f)"
  by (cases "mt_data t") (auto simp: mt_type_def elim: format_type.elims)

lemma sources_seen_started:
  "\<forall>t \<in> set ts. mt_type t = TYPE_SOURCE_STARTED \<Longrightarrow>
     sources_seen (ts @ us) st = sources_seen us (rev (map source_name ts) @ st)"
proof (induction ts arbitrary: st)
  case (Cons t ts)
  then obtain n p f s where "mt_data t = SourceStartedData n p f s" using started_data[of t] by auto
  then show ?case using Cons by (simp add: source_name_def)
qed simp

lemma play_ended_closes:
  assumes "\<forall>t \<in> set l. source_ok fl t"
  shows "\<exists>es. play_ended ts fl l = Some es \<and> sources_seen (map fst es) (map source_name l @ st) = Some st"
  using assms
proof (induction l)
  case (Cons t l)
  then obtain es where es: "play_ended ts fl l = Some es" "sources_seen (map fst es) (map source_name l @ st) = Some st"
    by auto
  have t: "source_ok fl t" using Cons.prems by simp
  then obtain n p f s where d: "mt_data t = SourceStartedData n p f s" using started_data[of t] by (auto simp: source_ok_def)
  have "source_ended_for t = Some (MediaTag (mt_attributes t) (mt_flavour_mask t) (SourceEndedData n p f))"
    using t d by (simp add: source_ended_for_def Tag_new_def source_ok_def)
  moreover have "source_name t = n" using d by (simp add: source_name_def)
  ultimately show ?case using es t by (simp add: source_ok_def)
qed simp

section \<open>The bootstrapper of a distributor\<close>

definition slot_tags :: "'i bootstrapper \<Rightarrow> 'i media_tag list" where
  "slot_tags b = concat (map (\<lambda>x. case x of None \<Rightarrow> [] | Some t \<Rightarrow> [t])
     [bs_media_info b, bs_metadata b, bs_cue_points b, avc_sequence_header b, aac_header_tag b, moov_tag b])
     @ media_bootstrap b"

definition bs_ok :: "32 word \<Rightarrow> 'i bootstrapper \<Rightarrow> bool" where
  "bs_ok fl b \<longleftrightarrow> (\<forall>t \<in> set (source_started_tags b). source_ok fl t) \<and> (\<forall>t \<in> set (slot_tags b). neutral t)"

definition stack :: "'i bootstrapper \<Rightarrow> bytes list" where
  "stack b = map source_name (rev (source_started_tags b))"

lemma bs_ok_new [simp]: "bs_ok fl (Bootstrapper_new keep)"
  by (simp add: bs_ok_def Bootstrapper_new_def slot_tags_def)

lemma bs_ok_clear [simp]: "bs_ok fl b \<Longrightarrow> bs_ok fl (ClearBootstrap b)"
  by (auto simp: bs_ok_def ClearBootstrap_def slot_tags_def)

lemma stack_clear [simp]: "stack (ClearBootstrap b) = []"
  by (simp add: stack_def ClearBootstrap_def)

lemma avc_moov_neutral: "avc_moov t = Some m \<Longrightarrow> neutral m"
  by (auto simp: avc_moov_def neutral_def mt_type_def split: tag_data.splits flv_body.splits option.splits)

lemma process_sources:
  "source_started_tags (Bootstrapper_ProcessTag t ts b) = open_sources [t] (source_started_tags b)"
  by (simp add: Bootstrapper_ProcessTag_def keep_media_tag_def ClearMediaBootstrap_def Let_def)

lemma process_slots:
  assumes "x \<in> set (slot_tags (Bootstrapper_ProcessTag t ts b))"
  shows "x \<in> set (slot_tags b) \<or> neutral x"
proof (cases "neutral t")
  case False
  then have "mt_type t = TYPE_SOURCE_STARTED \<or> mt_type t = TYPE_SOURCE_ENDED" by (auto simp: neutral_def)
  then show ?thesis using assms
    by (auto simp: Bootstrapper_ProcessTag_def slot_tags_def split: option.splits)
next
  case True
  have "x \<in> set (slot_tags b) \<or> x = t \<or> avc_moov t = Some x"
    using assms True
    by (auto simp: Bootstrapper_ProcessTag_def slot_tags_def keep_media_tag_def ClearMediaBootstrap_def Let_def neutral_def
        split: option.splits if_splits)
  then show ?thesis using True avc_moov_neutral by auto
qed

lemma bs_ok_process:
  assumes "bs_ok fl b" "mt_type t = TYPE_SOURCE_STARTED \<longrightarrow> source_ok fl t"
  shows "bs_ok fl (Bootstrapper_ProcessTag t ts b)"
  using assms process_slots[of _ t ts b] unfolding bs_ok_def process_sources
  by (auto dest: in_set_butlastD)

lemma stack_process:
  assumes "sources_seen [t] (stack b) = Some st"
  shows "stack (Bootstrapper_ProcessTag t ts b) = st"
proof (cases "neutral t")
  case True
  then show ?thesis using assms sources_seen_neutral[OF True, of "[]"]
    by (simp add: stack_def process_sources neutral_def)
next
  case False
  then consider n p f s where "mt_data t = SourceStartedData n p f s" | n p f where "mt_data t = SourceEndedData n p f"
    using started_data[of t] ended_data[of t] by (auto simp: neutral_def)
  then show ?thesis
  proof cases
    case 1
    then show ?thesis using assms by (simp add: stack_def process_sources mt_type_def source_name_def)
  next
    case 2
    then show ?thesis using assms
      by (cases "source_started_tags b" rule: rev_cases) (auto simp: stack_def process_sources mt_type_def split: if_splits)
  qed
qed

lemma sources_seen_more: "sources_seen ts st = Some st' \<Longrightarrow> sources_seen ts (st @ base) = Some (st' @ base)"
proof (induction ts st rule: sources_seen.induct)
  case (2 t ts st)
  then show ?case by (cases "mt_data t") (auto split: list.splits if_splits)
qed simp

lemma one_flavour_Tag_new: "one_flavour fl \<Longrightarrow> Tag_new 0 fl x = Some (MediaTag 0 fl x)"
  by (simp add: Tag_new_def)

lemma concat_sends [simp]: "concat (map (\<lambda>t. MaybeSendTag ts (Some t)) l) = map (\<lambda>t. (t, ts)) l"
  by (induction l) (simp_all add: MaybeSendTag_def)

lemma map_fst_send: "map fst (MaybeSendTag ts x) = (case x of None \<Rightarrow> [] | Some t \<Rightarrow> [t])"
  by (simp add: MaybeSendTag_def split: option.split)

lemma PlayAtBegin_seen:
  assumes "one_flavour fl" "bs_ok fl b"
  shows "\<exists>p. PlayAtBegin ts fl b = Some p \<and> sources_seen (map fst p) base = Some (stack b @ base)
    \<and> (\<forall>t \<in> set (media_bootstrap b). (t, max 0 ts) \<in> set p)"
proof -
  let ?ts = "if ts < 0 then 0 else ts"
  define p where "p = [(MediaTag 0 fl BootstrapBeginData, 0)]
       @ concat (map (\<lambda>t. MaybeSendTag ?ts (Some t)) (source_started_tags b))
       @ MaybeSendTag ?ts (bs_media_info b) @ MaybeSendTag ?ts (bs_metadata b) @ MaybeSendTag ?ts (bs_cue_points b)
       @ MaybeSendTag ?ts (avc_sequence_header b) @ MaybeSendTag ?ts (aac_header_tag b) @ MaybeSendTag ?ts (moov_tag b)
       @ concat (map (\<lambda>t. MaybeSendTag ?ts (Some t)) (media_bootstrap b))
       @ [(MediaTag 0 fl BootstrapEndData, ?ts)]"
  have "PlayAtBegin ts fl b = Some p"
    unfolding PlayAtBegin_def p_def using assms(1) by (simp add: one_flavour_Tag_new)
  moreover have "map fst p = MediaTag 0 fl BootstrapBeginData # source_started_tags b @ slot_tags b
      @ [MediaTag 0 fl BootstrapEndData]"
    unfolding p_def concat_sends map_append map_fst_send by (simp add: slot_tags_def comp_def)
  moreover have "sources_seen (MediaTag 0 fl BootstrapBeginData # source_started_tags b @ slot_tags b
      @ [MediaTag 0 fl BootstrapEndData]) base = Some (stack b @ base)"
    using assms(2) by (simp add: bs_ok_def sources_seen_started source_ok_def sources_seen_neutrals stack_def rev_map)
  moreover have "\<forall>t \<in> set (media_bootstrap b). (t, max 0 ts) \<in> set p" unfolding p_def by auto
  ultimately show ?thesis by auto
qed

lemma PlayAtEnd_seen:
  assumes "bs_ok fl b"
  shows "\<exists>es. PlayAtEnd ts fl b = Some es \<and> sources_seen (map fst es) (stack b @ base) = Some base"
  using play_ended_closes[of "rev (source_started_tags b)" fl "if ts < 0 then 0 else ts" base] assms
  by (simp add: PlayAtEnd_def bs_ok_def stack_def)

section \<open>The invariant\<close>

definition base :: "'i tag_distributor \<Rightarrow> bytes list" where
  "base d = (if td_name d = [] then [] else [td_name d])"

text \<open>\<open>seen\<close> are the tags each client was sent since it was added.\<close>

definition td_inv :: "'i tag_distributor \<Rightarrow> (nat \<Rightarrow> 'i media_tag list) \<Rightarrow> bool" where
  "td_inv d seen \<longleftrightarrow> own_callbacks (running d) \<and> own_callbacks (to_bootstrap d)
     \<and> (\<forall>k. map_of (running d) k = None \<or> map_of (to_bootstrap d) k = None)
     \<and> one_flavour (td_flavour_mask d) \<and> bs_ok (td_flavour_mask d) (td_bootstrapper d)
     \<and> (\<forall>k c. map_of (running d) k = Some c \<longrightarrow>
          sources_seen (seen k) [] = Some (if done_flag c then [] else stack (td_bootstrapper d) @ base d))
     \<and> (\<forall>k c. map_of (to_bootstrap d) k = Some c \<longrightarrow> sources_seen (seen k) [] = Some [])"

lemma td_invD:
  assumes "td_inv d seen"
  shows "own_callbacks (running d)" "own_callbacks (to_bootstrap d)"
    "\<And>k. map_of (running d) k = None \<or> map_of (to_bootstrap d) k = None"
    "one_flavour (td_flavour_mask d)" "bs_ok (td_flavour_mask d) (td_bootstrapper d)"
    "\<And>k c. map_of (running d) k = Some c \<Longrightarrow>
       sources_seen (seen k) [] = Some (if done_flag c then [] else stack (td_bootstrapper d) @ base d)"
    "\<And>k c. map_of (to_bootstrap d) k = Some c \<Longrightarrow> sources_seen (seen k) [] = Some []"
  using assms by (auto simp: td_inv_def)

lemma td_invI:
  assumes "own_callbacks (running d)" "own_callbacks (to_bootstrap d)"
    and "\<And>k. map_of (running d) k = None \<or> map_of (to_bootstrap d) k = None"
    and "one_flavour (td_flavour_mask d)" "bs_ok (td_flavour_mask d) (td_bootstrapper d)"
    and "\<And>k c. map_of (running d) k = Some c \<Longrightarrow>
       sources_seen (seen k) [] = Some (if done_flag c then [] else stack (td_bootstrapper d) @ base d)"
    and "\<And>k c. map_of (to_bootstrap d) k = Some c \<Longrightarrow> sources_seen (seen k) [] = Some []"
  shows "td_inv d seen"
  using assms by (auto simp: td_inv_def)

definition hear :: "(nat \<Rightarrow> 'i media_tag list) \<Rightarrow> 'i calls \<Rightarrow> nat \<Rightarrow> 'i media_tag list" where
  "hear seen out = (\<lambda>k. seen k @ tags_to k out)"

definition none_done :: "'i tag_distributor \<Rightarrow> bool" where
  "none_done d \<longleftrightarrow> (\<forall>(k, c) \<in> set (running d @ to_bootstrap d). \<not> done_flag c)"

lemma none_doneD:
  "none_done d \<Longrightarrow> map_of (running d) k = Some c \<Longrightarrow> \<not> done_flag c"
  "none_done d \<Longrightarrow> map_of (to_bootstrap d) k = Some c \<Longrightarrow> \<not> done_flag c"
  by (auto simp: none_done_def dest!: map_of_SomeD)

lemma own_callbacks_put:
  "own_callbacks m \<Longrightarrow> own_callbacks (map_put k \<lparr>callback = k, done_flag = f\<rparr> m)"
  by (auto simp: own_callbacks_def sorted_map_put)

lemma own_callbacks_del: "own_callbacks m \<Longrightarrow> own_callbacks (map_del k m)"
  by (auto simp: own_callbacks_def sorted_map_del map_of_map_del)

lemma own_callbacks_set_done: "own_callbacks m \<Longrightarrow> own_callbacks (set_done r m)"
  by (auto simp: own_callbacks_def map_of_set_done)

lemma own_callbacks_Nil [simp]: "own_callbacks []"
  by (simp add: own_callbacks_def)

lemma own_callbacks_distinct: "own_callbacks m \<Longrightarrow> distinct (map fst m)"
  using sorted_distinct by (auto simp: own_callbacks_def)

lemma own_callbacks_move_all:
  assumes "own_callbacks m" "own_callbacks from"
  shows "own_callbacks (move_all from m)"
  using assms map_of_move_all[OF own_callbacks_distinct[OF assms(2)], of m]
  by (auto simp: own_callbacks_def sorted_move_all map_add_def split: option.splits)

lemma add_callback_inv:
  assumes "td_inv d seen" "add_callback r r d = Some d'"
  shows "td_inv d' (seen(r := []))"
proof -
  have r: "map_of (running d) r = None" "map_of (to_bootstrap d) r = None"
    using assms(2) by (auto simp: add_callback_def has_key_iff split: if_splits)
  have d': "d' = d\<lparr>to_bootstrap := map_put r \<lparr>callback = r, done_flag = False\<rparr> (to_bootstrap d)\<rparr>"
    using assms(2) by (auto simp: add_callback_def split: if_splits)
  show ?thesis
    using assms(1) r unfolding td_inv_def d' by (auto simp: own_callbacks_put base_def)
qed

lemma remove_callback_inv:
  assumes "td_inv d seen" "remove_callback r d = Some d'"
  shows "td_inv d' seen"
proof -
  note i = td_invD[OF assms(1)]
  consider "d' = d\<lparr>running := map_del r (running d)\<rparr>" | "d' = d\<lparr>to_bootstrap := map_del r (to_bootstrap d)\<rparr>"
    using assms(2) by (auto simp: remove_callback_def split: if_splits)
  then show ?thesis
  proof cases
    case 1
    have "map_of (running d') k = Some c \<Longrightarrow> map_of (running d) k = Some c" for k c
      using 1 by (auto simp: map_of_map_del split: if_splits)
    then show ?thesis
      using i(3) i(6) unfolding td_inv_def 1
      by (auto simp: own_callbacks_del i map_of_map_del base_def split: if_splits)
  next
    case 2
    then show ?thesis
      using i(3) i(6) unfolding td_inv_def 2
      by (auto simp: own_callbacks_del i map_of_map_del base_def split: if_splits)
  qed
qed

lemma play_at_end_running:
  assumes "td_inv d seen"
  obtains es where "\<And>c. play_at_end d c = Some (run_on c es)"
    "\<And>st. sources_seen (map fst es) (stack (td_bootstrapper d) @ st) = Some st"
proof -
  note ok = td_invD(5)[OF assms]
  obtain es where es: "PlayAtEnd (td_last_tag_ts d) (td_flavour_mask d) (td_bootstrapper d) = Some es"
    using PlayAtEnd_seen[OF ok] by blast
  have "sources_seen (map fst es) (stack (td_bootstrapper d) @ st) = Some st" for st
    using PlayAtEnd_seen[OF ok, of "td_last_tag_ts d" st] es by simp
  then show thesis using that[of es] es by (simp add: play_at_end_def)
qed

lemma Switch_inv:
  assumes inv: "td_inv d seen" and nd: "none_done d"
  shows "\<exists>out d'. Switch d = Some (out, d') \<and> td_inv d' (hear seen out)"
proof -
  note i = td_invD[OF inv]
  obtain es where es: "\<And>c. play_at_end d c = Some (run_on c es)"
      "\<And>st. sources_seen (map fst es) (stack (td_bootstrapper d) @ st) = Some st"
    using play_at_end_running[OF inv] by blast
  define out where "out = concat (map (\<lambda>(k, c). run_on c es) (running d))"
  have "for_each (play_at_end d) (running d) = Some out"
    using for_each_Some[of "running d" "play_at_end d" "\<lambda>_. es"] es by (simp add: out_def)
  then have sw: "Switch d = Some (out, d\<lparr>td_bootstrapper := ClearBootstrap (td_bootstrapper d), td_last_tag_ts := 0\<rparr>)"
    by (simp add: Switch_def)
  have to: "tags_to k out = (case map_of (running d) k of None \<Rightarrow> [] | Some c \<Rightarrow> map fst es)" for k
    unfolding out_def by (rule tags_to_for_each[OF i(1)])
  have "sources_seen (hear seen out k) [] = Some (base d)" if "map_of (running d) k = Some c" for k c
    using i(6)[OF that] none_doneD(1)[OF nd that] that es(2)
    by (simp add: hear_def to sources_seen_append)
  moreover have "sources_seen (hear seen out k) [] = Some []" if "map_of (to_bootstrap d) k = Some c" for k c
    using i(3)[of k] i(7)[OF that] that by (simp add: hear_def to)
  ultimately show ?thesis
    unfolding sw td_inv_def using i none_doneD(1)[OF nd] by (auto simp: base_def)
qed

lemma Reset_inv:
  assumes inv: "td_inv (d :: 'a tag_distributor) seen" and nd: "none_done d"
  shows "\<exists>out d'. Reset d = Some (out, d') \<and> td_inv d' (hear seen out)"
proof -
  note i = td_invD[OF inv]
  obtain es where es: "\<And>c. play_at_end d c = Some (run_on c es)"
      "\<And>st. sources_seen (map fst es) (stack (td_bootstrapper d) @ st) = Some st"
    using play_at_end_running[OF inv] by blast
  let ?e = "MediaTag 0 (td_flavour_mask d) (SourceEndedData (td_name d) (td_name d) False) :: 'a media_tag"
  define ends where "ends = (if td_name d = [] then [] else [(?e, td_last_tag_ts d)])"
  define out where "out = concat (map (\<lambda>(k, c). run_on c es) (running d))
    @ concat (map (\<lambda>(k, c). run_on c ends) (running d))"
  define d' where "d' = d\<lparr>running := [], to_bootstrap := move_all (running d) (to_bootstrap d),
     td_bootstrapper := ClearBootstrap (td_bootstrapper d), td_last_tag_ts := 0\<rparr>"
  have "for_each (play_at_end d) (running d) = Some (concat (map (\<lambda>(k, c). run_on c es) (running d)))"
    using for_each_Some[of "running d" "play_at_end d" "\<lambda>_. es"] es by simp
  moreover have "concat (map (\<lambda>(k, c). run_on c []) (running d)) = []"
    by (auto simp: run_on_def)
  ultimately have rs: "Reset d = Some (out, d')"
    unfolding d'_def out_def ends_def
    by (auto simp: Reset_def one_flavour_Tag_new[OF i(4)] DistributeTagInternal_def)
  have to: "tags_to k out = (case map_of (running d) k of None \<Rightarrow> [] | Some c \<Rightarrow> map fst es @ map fst ends)" for k
    unfolding out_def by (simp add: tags_to_for_each[OF i(1)] split: option.split)
  have closed: "sources_seen (hear seen out k) [] = Some []" if "map_of (running d) k = Some c" for k c
    using i(6)[OF that] none_doneD(1)[OF nd that] that es(2)
    by (simp add: hear_def to sources_seen_append ends_def base_def)
  have waiting: "sources_seen (hear seen out k) [] = Some []" if "map_of (to_bootstrap d) k = Some c" for k c
    using i(3)[of k] i(7)[OF that] that by (simp add: hear_def to)
  have "map_of (to_bootstrap d') k = Some c \<Longrightarrow> sources_seen (hear seen out k) [] = Some []" for k c
    using closed waiting unfolding d'_def
    by (auto simp: map_of_move_all[OF own_callbacks_distinct[OF i(1)]] map_add_def split: option.splits)
  moreover have "own_callbacks (to_bootstrap d')"
    unfolding d'_def using own_callbacks_move_all[OF i(2,1)] by simp
  ultimately have "td_inv d' (hear seen out)"
    unfolding td_inv_def using i(4,5) by (simp add: d'_def)
  then show ?thesis using rs by blast
qed

lemma neutral_data [simp]:
  "neutral (MediaTag a f (EosData x))" "neutral (MediaTag a f BootstrapBeginData)" "neutral (MediaTag a f BootstrapEndData)"
  by (simp_all add: neutral_def mt_type_def)

text \<open>What is sent to a client that is closed.\<close>

definition close_tags :: "'i tag_distributor \<Rightarrow> ('i media_tag \<times> int) list \<Rightarrow> bool \<Rightarrow> int \<Rightarrow> ('i media_tag \<times> int) list" where
  "close_tags d es forced ets = es
     @ (if td_name d = [] then []
        else [(MediaTag 0 (td_flavour_mask d) (SourceEndedData (td_name d) (td_name d) False), 0)])
     @ [(MediaTag 0 (td_flavour_mask d) (EosData forced), ets)]"

lemma close_tags_seen:
  assumes "\<And>st. sources_seen (map fst es) (stack (td_bootstrapper d) @ st) = Some st"
  shows "sources_seen (map fst (close_tags d es forced ets)) (stack (td_bootstrapper d) @ base d) = Some []"
  using assms by (simp add: close_tags_def sources_seen_append base_def)

lemma run_on_append: "run_on c (a @ b) = run_on c a @ run_on c b"
  by (simp add: run_on_def)

lemma close_running_eq:
  assumes "\<And>c. play_at_end d c = Some (run_on c es)" "\<not> done_flag c"
  shows "close_running d (MediaTag 0 (td_flavour_mask d) (SourceEndedData (td_name d) (td_name d) False))
      (MediaTag 0 (td_flavour_mask d) (EosData forced)) ets c = Some (run_on c (close_tags d es forced ets))"
  using assms by (simp add: close_running_def close_tags_def run_on_append)

lemma CloseCallback_inv:
  assumes inv: "td_inv d seen"
    and c: "map_of (running d) r = Some c \<or> map_of (to_bootstrap d) r = Some c" "\<not> done_flag c"
  shows "\<exists>out d'. CloseCallback r forced d = Some (out, d') \<and> td_inv d' (hear seen out)"
proof -
  note i = td_invD[OF inv]
  obtain es where es: "\<And>c. play_at_end d c = Some (run_on c es)"
      "\<And>st. sources_seen (map fst es) (stack (td_bootstrapper d) @ st) = Some st"
    using play_at_end_running[OF inv] by blast
  show ?thesis
  proof (cases "map_of (running d) r")
    case (Some c')
    then have c': "c' = c" using c(1) i(3)[of r] by auto
    let ?out = "run_on c (close_tags d es forced 0)"
    have cl: "CloseCallback r forced d = Some (?out, d\<lparr>running := set_done r (running d)\<rparr>)"
      using Some c' close_running_eq[OF es(1) c(2)] by (simp add: CloseCallback_def one_flavour_Tag_new[OF i(4)])
    have cb: "callback c = r" using i(1) Some c' by (simp add: own_callbacks_def)
    have closed: "sources_seen (hear seen ?out r) [] = Some []"
      using i(6)[OF Some] c' c(2) cb close_tags_seen[OF es(2)] by (simp add: hear_def sources_seen_append)
    have other: "hear seen ?out k = seen k" if "k \<noteq> r" for k using that cb by (simp add: hear_def)
    have "td_inv (d\<lparr>running := set_done r (running d)\<rparr>) (hear seen ?out)"
    proof (rule td_invI)
      fix k c1
      assume "map_of (running (d\<lparr>running := set_done r (running d)\<rparr>)) k = Some c1"
      then show "sources_seen (hear seen ?out k) [] = Some (if done_flag c1 then []
          else stack (td_bootstrapper (d\<lparr>running := set_done r (running d)\<rparr>)) @ base (d\<lparr>running := set_done r (running d)\<rparr>))"
        using closed other[of k] i(6)[of k] by (cases "k = r") (auto simp: map_of_set_done base_def)
    next
      fix k c1
      assume w: "map_of (to_bootstrap (d\<lparr>running := set_done r (running d)\<rparr>)) k = Some c1"
      then have "k \<noteq> r" using i(3)[of r] Some by auto
      then show "sources_seen (hear seen ?out k) [] = Some []" using w i(7)[of k] other by simp
    qed (use i in \<open>auto simp: own_callbacks_set_done map_of_set_done\<close>)
    then show ?thesis using cl by blast
  next
    case None
    then have w: "map_of (to_bootstrap d) r = Some c" using c(1) by simp
    let ?e = "MediaTag 0 (td_flavour_mask d) (EosData forced)"
    have cl: "CloseCallback r forced d = Some (run_on c [(?e, 0)], d\<lparr>to_bootstrap := set_done r (to_bootstrap d)\<rparr>)"
      using None w c(2) by (simp add: CloseCallback_def one_flavour_Tag_new[OF i(4)] close_waiting_def)
    have cb: "callback c = r" using i(2) w by (simp add: own_callbacks_def)
    have closed: "sources_seen (hear seen (run_on c [(?e, 0)]) r) [] = Some []"
      using i(7)[OF w] cb by (simp add: hear_def sources_seen_append del: sources_seen.simps(2))
    have other: "hear seen (run_on c [(?e, 0)]) k = seen k" if "k \<noteq> r" for k using that cb by (simp add: hear_def)
    have "td_inv (d\<lparr>to_bootstrap := set_done r (to_bootstrap d)\<rparr>) (hear seen (run_on c [(?e, 0)]))"
    proof (rule td_invI)
      fix k c1
      assume w: "map_of (running (d\<lparr>to_bootstrap := set_done r (to_bootstrap d)\<rparr>)) k = Some c1"
      then have "k \<noteq> r" using None by auto
      then show "sources_seen (hear seen (run_on c [(?e, 0)]) k) [] = Some (if done_flag c1 then []
          else stack (td_bootstrapper (d\<lparr>to_bootstrap := set_done r (to_bootstrap d)\<rparr>))
            @ base (d\<lparr>to_bootstrap := set_done r (to_bootstrap d)\<rparr>))"
        using w i(6)[of k] other by (simp add: base_def)
    next
      fix k c1
      assume "map_of (to_bootstrap (d\<lparr>to_bootstrap := set_done r (to_bootstrap d)\<rparr>)) k = Some c1"
      then show "sources_seen (hear seen (run_on c [(?e, 0)]) k) [] = Some []"
        using closed other[of k] i(7)[of k] by (cases "k = r") (auto simp: map_of_set_done)
    qed (use i in \<open>auto simp: own_callbacks_set_done map_of_set_done\<close>)
    then show ?thesis using cl by blast
  qed
qed

lemma map_of_all_done: "map_of (map (\<lambda>(k, c). (k, f c)) m) k = map_option f (map_of m k)"
  by (induction m) auto

lemma CloseAllCallbacks_inv:
  assumes inv: "td_inv (d :: 'a tag_distributor) seen" and nd: "none_done d"
  shows "\<exists>out d'. CloseAllCallbacks forced d = Some (out, d') \<and> td_inv d' (hear seen out)"
proof -
  note i = td_invD[OF inv]
  obtain es where es: "\<And>c. play_at_end d c = Some (run_on c es)"
      "\<And>st. sources_seen (map fst es) (stack (td_bootstrapper d) @ st) = Some st"
    using play_at_end_running[OF inv] by blast
  let ?t = "td_last_tag_ts d"
  let ?eos = "MediaTag 0 (td_flavour_mask d) (EosData forced) :: 'a media_tag"
  let ?all = "map (\<lambda>(k, c). (k, c\<lparr>done_flag := True\<rparr>))"
  define out1 where "out1 = concat (map (\<lambda>(k, c). run_on c (close_tags d es forced ?t)) (running d))"
  define out2 where "out2 = concat (map (\<lambda>(k, c). run_on c [(?eos, ?t)]) (to_bootstrap d))"
  define d' where "d' = d\<lparr>running := ?all (running d), to_bootstrap := ?all (to_bootstrap d)\<rparr>"
  have nd': "\<forall>(k, c) \<in> set (running d). \<not> done_flag c" "\<forall>(k, c) \<in> set (to_bootstrap d). \<not> done_flag c"
    using nd by (auto simp: none_done_def)
  have "for_each (close_running d (MediaTag 0 (td_flavour_mask d) (SourceEndedData (td_name d) (td_name d) False)) ?eos ?t)
      (running d) = Some out1"
    unfolding out1_def by (rule for_each_Some) (use nd' close_running_eq[OF es(1)] in auto)
  moreover have "for_each (close_waiting ?eos ?t) (to_bootstrap d) = Some out2"
    unfolding out2_def by (rule for_each_Some) (use nd' in \<open>auto simp: close_waiting_def\<close>)
  ultimately have cl: "CloseAllCallbacks forced d = Some (out1 @ out2, d')"
    by (simp add: CloseAllCallbacks_def one_flavour_Tag_new[OF i(4)] d'_def Let_def)
  have to: "tags_to k out1 = (case map_of (running d) k of None \<Rightarrow> [] | Some c \<Rightarrow> map fst (close_tags d es forced ?t))"
    "tags_to k out2 = (case map_of (to_bootstrap d) k of None \<Rightarrow> [] | Some c \<Rightarrow> [?eos])" for k
    unfolding out1_def out2_def tags_to_for_each[OF i(1)] tags_to_for_each[OF i(2)] by (simp_all split: option.split)
  have run: "sources_seen (hear seen (out1 @ out2) k) [] = Some []" if "map_of (running d) k = Some c" for k c
    using i(6)[OF that] none_doneD(1)[OF nd that] that i(3)[of k] close_tags_seen[OF es(2)]
    by (simp add: hear_def to sources_seen_append)
  have wait: "sources_seen (hear seen (out1 @ out2) k) [] = Some []" if "map_of (to_bootstrap d) k = Some c" for k c
    using i(7)[OF that] that i(3)[of k] by (simp add: hear_def to sources_seen_append del: sources_seen.simps(2))
  have own: "own_callbacks (?all m)" if "own_callbacks m" for m
    using that by (auto simp: own_callbacks_def map_of_all_done comp_def case_prod_beta)
  have "td_inv d' (hear seen (out1 @ out2))"
    by (rule td_invI) (use i run wait own in \<open>auto simp: d'_def map_of_all_done\<close>)
  then show ?thesis using cl by blast
qed

text \<open>Tags a distributor may be given: sources end as they started, in its flavour.\<close>

definition may_distribute :: "'i media_tag \<Rightarrow> 'i tag_distributor \<Rightarrow> bool" where
  "may_distribute t d \<longleftrightarrow> (mt_type t = TYPE_SOURCE_STARTED \<longrightarrow> source_ok (td_flavour_mask d) t)
     \<and> sources_seen [t] (stack (td_bootstrapper d)) \<noteq> None"

lemma bootstrap_tags_seen:
  assumes "one_flavour (td_flavour_mask d)" "bs_ok (td_flavour_mask d) (td_bootstrapper d)"
  shows "\<exists>p. bootstrap_tags d ts = Some p \<and> sources_seen (map fst p) [] = Some (stack (td_bootstrapper d) @ base d)
    \<and> (\<forall>t \<in> set (media_bootstrap (td_bootstrapper d)). (t, max 0 ts) \<in> set p)"
proof -
  obtain p where p: "PlayAtBegin ts (td_flavour_mask d) (td_bootstrapper d) = Some p"
      "sources_seen (map fst p) (base d) = Some (stack (td_bootstrapper d) @ base d)"
      "\<forall>t \<in> set (media_bootstrap (td_bootstrapper d)). (t, max 0 ts) \<in> set p"
    using PlayAtBegin_seen[OF assms] by blast
  then show ?thesis
    by (cases "td_name d = []") (simp_all add: bootstrap_tags_def base_def one_flavour_Tag_new[OF assms(1)])
qed

text \<open>What a tag makes the distributor do.\<close>

lemma DistributeTag_eq:
  assumes inv: "td_inv d seen" and t: "mt_type t \<noteq> TYPE_BOOTSTRAP_BEGIN" "mt_type t \<noteq> TYPE_BOOTSTRAP_END"
  shows "\<exists>out p d'. DistributeTag t ts d = Some (out, d') \<and> bootstrap_tags d ts = Some p
    \<and> d' = d\<lparr>running := move_all (to_bootstrap d) (running d), to_bootstrap := [],
             td_bootstrapper := Bootstrapper_ProcessTag t ts (td_bootstrapper d), td_last_tag_ts := ts\<rparr>
    \<and> out = concat (map (\<lambda>(k, c). run_on c p) (to_bootstrap d))
          @ concat (map (\<lambda>(k, c). run_on c [(t, ts)]) (running d'))
    \<and> (\<forall>k. tags_to k out = (case map_of (to_bootstrap d) k of Some c \<Rightarrow> map fst p @ [t]
         | None \<Rightarrow> (case map_of (running d) k of Some c \<Rightarrow> [t] | None \<Rightarrow> [])))"
proof -
  note i = td_invD[OF inv]
  obtain p where p: "bootstrap_tags d ts = Some p" using bootstrap_tags_seen[OF i(4,5)] by blast
  define d' where "d' = d\<lparr>running := move_all (to_bootstrap d) (running d), to_bootstrap := [],
     td_bootstrapper := Bootstrapper_ProcessTag t ts (td_bootstrapper d), td_last_tag_ts := ts\<rparr>"
  define out where "out = concat (map (\<lambda>(k, c). run_on c p) (to_bootstrap d))
     @ concat (map (\<lambda>(k, c). run_on c [(t, ts)]) (running d'))"
  have "for_each (\<lambda>c. map_option (run_on c) (bootstrap_tags d ts)) (to_bootstrap d)
      = Some (concat (map (\<lambda>(k, c). run_on c p) (to_bootstrap d)))"
    by (rule for_each_Some) (auto simp: p)
  then have "DistributeTag t ts d = Some (out, d')"
    using t by (simp add: DistributeTag_def DistributeTagInternal_def out_def d'_def)
  moreover have "own_callbacks (running d')" by (simp add: d'_def own_callbacks_move_all[OF i(1,2)])
  then have "tags_to k out = (case map_of (to_bootstrap d) k of Some c \<Rightarrow> map fst p @ [t]
         | None \<Rightarrow> (case map_of (running d) k of Some c \<Rightarrow> [t] | None \<Rightarrow> []))" for k
    unfolding out_def tags_to_append
    by (simp add: tags_to_for_each[OF i(2)] tags_to_for_each d'_def map_of_move_all[OF own_callbacks_distinct[OF i(2)]]
        map_add_def split: option.split)
  ultimately show ?thesis using p d'_def out_def by blast
qed

lemma DistributeTag_inv:
  assumes inv: "td_inv d seen" and nd: "none_done d" and t: "may_distribute t d"
  shows "\<exists>out d'. DistributeTag t ts d = Some (out, d') \<and> td_inv d' (hear seen out)"
proof (cases "mt_type t = TYPE_BOOTSTRAP_BEGIN \<or> mt_type t = TYPE_BOOTSTRAP_END")
  case True
  then show ?thesis using inv by (simp add: DistributeTag_def hear_def)
next
  case False
  note i = td_invD[OF inv]
  let ?b = "td_bootstrapper d"
  let ?b' = "Bootstrapper_ProcessTag t ts ?b"
  obtain out p d' where o: "DistributeTag t ts d = Some (out, d')" "bootstrap_tags d ts = Some p"
      "d' = d\<lparr>running := move_all (to_bootstrap d) (running d), to_bootstrap := [], td_bootstrapper := ?b', td_last_tag_ts := ts\<rparr>"
      "\<And>k. tags_to k out = (case map_of (to_bootstrap d) k of Some c \<Rightarrow> map fst p @ [t]
         | None \<Rightarrow> (case map_of (running d) k of Some c \<Rightarrow> [t] | None \<Rightarrow> []))"
    using DistributeTag_eq[OF inv, of t ts] False by blast
  obtain st where st: "sources_seen [t] (stack ?b) = Some st" using t by (auto simp: may_distribute_def)
  then have next_stack: "sources_seen [t] (stack ?b @ base d) = Some (stack ?b' @ base d)"
    using sources_seen_more[OF st, of "base d"] stack_process[OF st] by simp
  have p: "sources_seen (map fst p) [] = Some (stack ?b @ base d)"
    using bootstrap_tags_seen[OF i(4,5), of ts] o(2) by auto
  have mo: "map_of (running d') = map_of (running d) ++ map_of (to_bootstrap d)"
    using map_of_move_all[OF own_callbacks_distinct[OF i(2)]] by (simp add: o(3))
  have heard: "sources_seen (hear seen out k) [] = Some (stack ?b' @ base d) \<and> \<not> done_flag c"
    if "map_of (running d') k = Some c" for k c
  proof (cases "map_of (to_bootstrap d) k")
    case None
    then have r: "map_of (running d) k = Some c" using that by (simp add: mo map_add_def)
    then show ?thesis using i(6)[OF r] none_doneD(1)[OF nd r] next_stack None
      by (simp add: hear_def o(4) sources_seen_append del: sources_seen.simps(2))
  next
    case (Some c')
    then show ?thesis using i(7)[OF Some] none_doneD(2)[OF nd Some] next_stack p that
      by (simp add: hear_def o(4) mo sources_seen_append del: sources_seen.simps(2))
  qed
  have "td_inv d' (hear seen out)"
  proof (rule td_invI)
    show "bs_ok (td_flavour_mask d') (td_bootstrapper d')"
      using bs_ok_process[OF i(5), of t ts] t by (simp add: o(3) may_distribute_def)
    show "own_callbacks (running d')" by (simp add: o(3) own_callbacks_move_all[OF i(1,2)])
    fix k c
    assume "map_of (running d') k = Some c"
    from heard[OF this] show "sources_seen (hear seen out k) [] = Some (if done_flag c then [] else stack (td_bootstrapper d') @ base d')"
      by (simp add: o(3) base_def)
  qed (use i in \<open>simp_all add: o(3)\<close>)
  then show ?thesis using o(1) by blast
qed

end
