(* ===== verification/TagSession.thy ===== *)
theory TagSession
  imports TagDistributionLaws
begin

text \<open>
  Sessions of a distributor: the states it reaches by any sequence of operations that respects
  the protocol, what holds in all of them, and two things a client may not expect.
\<close>

section \<open>Sessions\<close>

text \<open>
  The states a distributor can reach and the tags its clients have seen in them: a client's
  callback is its own, a source ends only as it started, and a client that was sent the end of
  the stream is removed before anything else is sent.
\<close>

inductive td_reach :: "'i tag_distributor \<Rightarrow> (nat \<Rightarrow> 'i media_tag list) \<Rightarrow> bool" where
  start: "TagDistributor_new fl name keep = Some d \<Longrightarrow> td_reach d (\<lambda>_. [])"
| add: "td_reach d seen \<Longrightarrow> add_callback r r d = Some d' \<Longrightarrow> td_reach d' (seen(r := []))"
| remove: "td_reach d seen \<Longrightarrow> remove_callback r d = Some d' \<Longrightarrow> td_reach d' seen"
| close_one: "td_reach d seen \<Longrightarrow> CloseCallback r forced d = Some (out, d') \<Longrightarrow> td_reach d' (hear seen out)"
| close_all: "td_reach d seen \<Longrightarrow> CloseAllCallbacks forced d = Some (out, d') \<Longrightarrow> td_reach d' (hear seen out)"
| switch: "td_reach d seen \<Longrightarrow> none_done d \<Longrightarrow> Switch d = Some (out, d') \<Longrightarrow> td_reach d' (hear seen out)"
| reset: "td_reach d seen \<Longrightarrow> none_done d \<Longrightarrow> Reset d = Some (out, d') \<Longrightarrow> td_reach d' (hear seen out)"
| distribute: "td_reach d seen \<Longrightarrow> none_done d \<Longrightarrow> may_distribute t d
    \<Longrightarrow> DistributeTag t ts d = Some (out, d') \<Longrightarrow> td_reach d' (hear seen out)"

lemma CloseCallback_open:
  assumes "td_inv d seen" "CloseCallback r forced d = Some x"
  shows "\<exists>c. (map_of (running d) r = Some c \<or> map_of (to_bootstrap d) r = Some c) \<and> \<not> done_flag c"
  using assms td_invD(3)[OF assms(1), of r]
  by (auto simp: CloseCallback_def close_running_def close_waiting_def split: option.splits if_splits)

lemma for_each_None: "for_each f m = Some x \<Longrightarrow> (k, c) \<in> set m \<Longrightarrow> f c \<noteq> None"
  by (induction m arbitrary: x) auto

lemma CloseAllCallbacks_open:
  assumes "CloseAllCallbacks forced d = Some x"
  shows "none_done d"
proof -
  obtain se eos t out1 out2 where "for_each (close_running d se eos t) (running d) = Some out1"
      "for_each (close_waiting eos t) (to_bootstrap d) = Some out2"
    using assms by (auto simp: CloseAllCallbacks_def)
  then have "(k, c) \<in> set (running d) \<Longrightarrow> \<not> done_flag c" "(k, c) \<in> set (to_bootstrap d) \<Longrightarrow> \<not> done_flag c" for k c
    using for_each_None[of _ _ _ k c] by (fastforce simp: close_running_def close_waiting_def)+
  then show ?thesis by (auto simp: none_done_def)
qed

lemma td_reach_inv: "td_reach d seen \<Longrightarrow> td_inv d seen"
proof (induction rule: td_reach.induct)
  case (start fl name keep d)
  then show ?case by (auto simp: TagDistributor_new_def td_inv_def split: if_splits)
next
  case (add d seen r d')
  then show ?case by (blast intro: add_callback_inv)
next
  case (remove d seen r d')
  then show ?case by (blast intro: remove_callback_inv)
next
  case (close_one d seen r forced out d')
  obtain c where c: "map_of (running d) r = Some c \<or> map_of (to_bootstrap d) r = Some c" "\<not> done_flag c"
    using CloseCallback_open[OF close_one.IH close_one.hyps(2)] by blast
  show ?case using CloseCallback_inv[OF close_one.IH c, of forced] close_one.hyps(2) by auto
next
  case (close_all d seen forced out d')
  show ?case
    using CloseAllCallbacks_inv[OF close_all.IH CloseAllCallbacks_open[OF close_all.hyps(2)], of forced] close_all.hyps(2)
    by auto
next
  case (switch d seen out d')
  show ?case using Switch_inv[OF switch.IH switch.hyps(2)] switch.hyps(3) by auto
next
  case (reset d seen out d')
  show ?case using Reset_inv[OF reset.IH reset.hyps(2)] reset.hyps(3) by auto
next
  case (distribute d seen t ts out d')
  show ?case using DistributeTag_inv[OF distribute.IH distribute.hyps(2,3), of ts] distribute.hyps(4) by auto
qed

text \<open>
  C3. In every state that a distributor can reach, the sources a client was told of since it was
  added have started and ended in nested pairs; those still open are the distributor's own and
  the ones its bootstrapper has on its stack while the client is running, and none before it is
  bootstrapped, after a reset and after it is closed.
\<close>

theorem sources_nested:
  assumes "td_reach d seen"
  shows "(\<forall>r c. map_of (running d) r = Some c \<longrightarrow> sources_seen (seen r) [] =
        Some (if done_flag c then []
              else map source_name (rev (source_started_tags (td_bootstrapper d)))
                @ (if td_name d = [] then [] else [td_name d])))
    \<and> (\<forall>r c. map_of (to_bootstrap d) r = Some c \<longrightarrow> sources_seen (seen r) [] = Some [])"
  using td_invD(6,7)[OF td_reach_inv[OF assms]] by (auto simp: stack_def base_def)

text \<open>
  C28. No operation of a distributor in a reachable state aborts: a client that is not there can
  be added, one that is there removed, one that is not closed can be closed, and when none is
  closed everything can be switched, reset, closed, and any tag that keeps the nesting of the
  sources distributed.
\<close>

theorem distributor_total:
  assumes "td_reach d seen"
  shows "(\<not> has_key r (running d) \<and> \<not> has_key r (to_bootstrap d) \<longrightarrow> add_callback r r d \<noteq> None)
    \<and> (has_key r (running d) \<or> has_key r (to_bootstrap d) \<longrightarrow> remove_callback r d \<noteq> None)
    \<and> ((\<exists>c. (map_of (running d) r = Some c \<or> map_of (to_bootstrap d) r = Some c) \<and> \<not> done_flag c)
         \<longrightarrow> CloseCallback r forced d \<noteq> None)
    \<and> (none_done d \<longrightarrow> CloseAllCallbacks forced d \<noteq> None \<and> Switch d \<noteq> None \<and> Reset d \<noteq> None)
    \<and> (none_done d \<and> may_distribute t d \<longrightarrow> DistributeTag t ts d \<noteq> None)"
proof -
  note inv = td_reach_inv[OF assms]
  have "CloseCallback r forced d \<noteq> None"
    if "map_of (running d) r = Some c \<or> map_of (to_bootstrap d) r = Some c" "\<not> done_flag c" for c
    using CloseCallback_inv[OF inv that, of forced] by auto
  moreover have "CloseAllCallbacks forced d \<noteq> None \<and> Switch d \<noteq> None \<and> Reset d \<noteq> None" if "none_done d"
    using CloseAllCallbacks_inv[OF inv that, of forced] Switch_inv[OF inv that] Reset_inv[OF inv that] by auto
  moreover have "DistributeTag t ts d \<noteq> None" if "none_done d" "may_distribute t d"
    using DistributeTag_inv[OF inv that, of ts] by auto
  moreover have "\<not> has_key r (running d) \<and> \<not> has_key r (to_bootstrap d) \<longrightarrow> add_callback r r d \<noteq> None"
    "has_key r (running d) \<or> has_key r (to_bootstrap d) \<longrightarrow> remove_callback r d \<noteq> None"
    by (auto simp: add_callback_def remove_callback_def)
  ultimately show ?thesis by blast
qed

text \<open>
  C29. A tag reaches every client once, the running ones by itself and each new one after the
  start of the distributor's source, the mark of the bootstrap and what the bootstrapper has to
  play; after that nobody waits.  The marks of another bootstrap reach nobody.
\<close>

theorem distribute_delivers:
  assumes "td_reach d seen" "none_done d" "may_distribute t d"
  shows "\<exists>out d'. DistributeTag t ts d = Some (out, d')
    \<and> (if mt_type t = TYPE_BOOTSTRAP_BEGIN \<or> mt_type t = TYPE_BOOTSTRAP_END then out = [] \<and> d' = d
       else to_bootstrap d' = [] \<and> td_last_tag_ts d' = ts
         \<and> map_of (running d') = map_of (running d) ++ map_of (to_bootstrap d)
         \<and> (\<exists>p. bootstrap_tags d ts = Some p
             \<and> (\<forall>r. tags_to r out = (case map_of (to_bootstrap d) r of Some c \<Rightarrow> map fst p @ [t]
                  | None \<Rightarrow> (case map_of (running d) r of Some c \<Rightarrow> [t] | None \<Rightarrow> [])))))"
proof (cases "mt_type t = TYPE_BOOTSTRAP_BEGIN \<or> mt_type t = TYPE_BOOTSTRAP_END")
  case True
  then show ?thesis by (simp add: DistributeTag_def)
next
  case False
  note inv = td_reach_inv[OF assms(1)]
  have "map_of (move_all (to_bootstrap d) (running d)) = map_of (running d) ++ map_of (to_bootstrap d)"
    using map_of_move_all own_callbacks_distinct td_invD(2)[OF inv] by blast
  then show ?thesis using DistributeTag_eq[OF inv, of t ts] False by auto
qed

text \<open>\<^verbatim>\<open>TYPE_EOS\<close> is to be the last tag that a callback sees.\<close>

lemma CloseCallback_eos:
  assumes inv: "td_inv d seen" and cl: "CloseCallback r forced d = Some (out, d')"
  shows "tags_to r out \<noteq> [] \<and> mt_type (last (tags_to r out)) = TYPE_EOS
    \<and> (has_key r (running d') \<or> has_key r (to_bootstrap d'))"
proof -
  note i = td_invD[OF inv]
  obtain c where c: "map_of (running d) r = Some c \<or> map_of (to_bootstrap d) r = Some c"
    using CloseCallback_open[OF inv cl] by blast
  then have cb: "callback c = r" using i(1,2) by (auto simp: own_callbacks_def)
  have "tags_to r out \<noteq> [] \<and> mt_type (last (tags_to r out)) = TYPE_EOS"
    using c cl i(3)[of r] cb
    by (auto simp: CloseCallback_def close_running_def close_waiting_def one_flavour_Tag_new[OF i(4)] mt_type_def
      split: option.splits if_splits)
  moreover have "has_key r (running d') \<or> has_key r (to_bootstrap d')"
    using cl by (auto simp: CloseCallback_def has_key_iff map_of_set_done split: option.splits)
  ultimately show ?thesis by blast
qed

text \<open>
  C40. A client that was closed and not yet removed is still sent the next tag, after the end of
  the stream, and if it was waiting even the start of the source and the bootstrap.
\<close>

theorem closed_client_served:
  assumes "td_reach d seen" "CloseCallback r forced d = Some (out1, d1)"
    and "mt_type t \<noteq> TYPE_BOOTSTRAP_BEGIN" "mt_type t \<noteq> TYPE_BOOTSTRAP_END"
  shows "mt_type (last (tags_to r out1)) = TYPE_EOS
    \<and> (\<exists>out2 d2. DistributeTag t ts d1 = Some (out2, d2) \<and> last (tags_to r out2) = t \<and> tags_to r out2 \<noteq> []
         \<and> (has_key r (to_bootstrap d1) \<longrightarrow> (\<exists>p. bootstrap_tags d1 ts = Some p \<and> tags_to r out2 = map fst p @ [t])))"
proof -
  have "td_reach d1 (hear seen out1)" using assms(1,2) by (rule td_reach.close_one)
  note inv1 = td_reach_inv[OF this]
  note eos = CloseCallback_eos[OF td_reach_inv[OF assms(1)] assms(2)]
  obtain out2 p d2 where o: "DistributeTag t ts d1 = Some (out2, d2)" "bootstrap_tags d1 ts = Some p"
      "\<And>k. tags_to k out2 = (case map_of (to_bootstrap d1) k of Some c \<Rightarrow> map fst p @ [t]
         | None \<Rightarrow> (case map_of (running d1) k of Some c \<Rightarrow> [t] | None \<Rightarrow> []))"
    using DistributeTag_eq[OF inv1 assms(3,4), of ts] by blast
  have "tags_to r out2 \<noteq> [] \<and> last (tags_to r out2) = t
    \<and> (has_key r (to_bootstrap d1) \<longrightarrow> tags_to r out2 = map fst p @ [t])"
    using eos unfolding o(3) by (auto simp: has_key_iff split: option.splits)
  then show ?thesis using eos o(1,2) by auto
qed

text \<open>
  A reset keeps the media of a distributor that bootstraps it: the first tag after the reset,
  of another source, is preceded for every client by the media of the source before.
\<close>

theorem stale_media_after_reset:
  assumes "td_reach d seen" "none_done d" "has_key r (running d)" "m \<in> set (media_bootstrap (td_bootstrapper d))"
    and "mt_type t \<noteq> TYPE_BOOTSTRAP_BEGIN" "mt_type t \<noteq> TYPE_BOOTSTRAP_END"
  shows "\<exists>out1 d1 out2 d2. Reset d = Some (out1, d1) \<and> DistributeTag t ts d1 = Some (out2, d2)
    \<and> m \<in> set (tags_to r out2) \<and> last (tags_to r out2) = t"
proof -
  note inv = td_reach_inv[OF assms(1)]
  obtain out1 d1 where rs: "Reset d = Some (out1, d1)" and inv1: "td_inv d1 (hear seen out1)"
    using Reset_inv[OF inv assms(2)] by blast
  have media: "media_bootstrap (td_bootstrapper d1) = media_bootstrap (td_bootstrapper d)"
    and w: "map_of (to_bootstrap d1) = map_of (to_bootstrap d) ++ map_of (running d)"
    using rs map_of_move_all[OF own_callbacks_distinct[OF td_invD(1)[OF inv]], of "to_bootstrap d"]
    by (auto simp: Reset_def DistributeTagInternal_def ClearBootstrap_def split: if_splits)
  have r: "map_of (to_bootstrap d1) r \<noteq> None" using assms(3) w by (auto simp: has_key_iff)
  obtain out2 p d2 where o: "DistributeTag t ts d1 = Some (out2, d2)" "bootstrap_tags d1 ts = Some p"
      "\<And>k. tags_to k out2 = (case map_of (to_bootstrap d1) k of Some c \<Rightarrow> map fst p @ [t]
         | None \<Rightarrow> (case map_of (running d1) k of Some c \<Rightarrow> [t] | None \<Rightarrow> []))"
    using DistributeTag_eq[OF inv1 assms(5,6), of ts] by blast
  have "(m, max 0 ts) \<in> set p"
    using bootstrap_tags_seen[OF td_invD(4,5)[OF inv1], of ts] assms(4) o(2) unfolding media by auto
  then have "m \<in> fst ` set p" by (rule image_eqI[rotated]) simp
  then have "m \<in> set (tags_to r out2) \<and> last (tags_to r out2) = t"
    using r unfolding o(3) by (auto split: option.splits)
  then show ?thesis using rs o(1) by blast
qed

section \<open>Sample sessions\<close>

text \<open>A distributor named \<open>[110]\<close> with the client 7, which was sent the start of the source \<open>[115]\<close>.\<close>

definition sample_source :: "unit media_tag" where
  "sample_source = MediaTag 0 1 (SourceStartedData [115] [115] False 0)"

definition sample_key :: "unit media_tag" where
  "sample_key = MediaTag (ATTR_VIDEO OR ATTR_CAN_RESYNC) 1 (FormatData Raw 40 400 None)"

definition sample_waiting :: "unit tag_distributor" where
  "sample_waiting = \<lparr>td_bootstrapper = Bootstrapper_new True, running = [],
     to_bootstrap = [(7, \<lparr>callback = 7, done_flag = False\<rparr>)], td_flavour_mask = 1, td_name = [110], td_last_tag_ts = 0\<rparr>"

lemma sample_waiting_reach: "td_reach sample_waiting (\<lambda>_. [])"
proof -
  have "td_reach (sample_waiting\<lparr>to_bootstrap := []\<rparr>) (\<lambda>_. [])"
    by (rule td_reach.start[of 1 "[110]" True]) (simp add: TagDistributor_new_def one_flavour_def sample_waiting_def)
  from td_reach.add[OF this, of 7 sample_waiting] show ?thesis
    by (simp add: add_callback_def has_key_def sample_waiting_def fun_upd_def)
qed

lemma sample_running:
  "\<exists>d seen. td_reach d seen \<and> none_done d \<and> map_of (running d) 7 = Some \<lparr>callback = 7, done_flag = False\<rparr>
     \<and> to_bootstrap d = [] \<and> td_bootstrapper d = (Bootstrapper_new True)\<lparr>media_bootstrap := [sample_key]\<rparr>
     \<and> td_name d = [110]"
proof -
  have nd: "none_done sample_waiting" by (simp add: none_done_def sample_waiting_def)
  have key: "mt_type sample_key = TYPE_RAW" "is_video_tag sample_key" "can_resync sample_key"
    by (simp_all add: sample_key_def mt_type_def is_video_tag_def can_resync_def ATTR_VIDEO_def ATTR_CAN_RESYNC_def)
  have may: "may_distribute sample_key sample_waiting"
    using key by (simp add: may_distribute_def neutral_def del: sources_seen.simps(2))
  obtain out p d where o: "DistributeTag sample_key 40 sample_waiting = Some (out, d)"
    and d: "d = sample_waiting\<lparr>running := move_all (to_bootstrap sample_waiting) (running sample_waiting),
       to_bootstrap := [], td_bootstrapper := Bootstrapper_ProcessTag sample_key 40 (td_bootstrapper sample_waiting),
       td_last_tag_ts := 40\<rparr>"
    using DistributeTag_eq[OF td_reach_inv[OF sample_waiting_reach], of sample_key 40] key by auto
  have "td_reach d (hear (\<lambda>_. []) out)"
    using td_reach.distribute[OF sample_waiting_reach nd may o] .
  moreover have "Bootstrapper_ProcessTag sample_key 40 (Bootstrapper_new True)
      = (Bootstrapper_new True)\<lparr>media_bootstrap := [sample_key]\<rparr>"
    by (simp add: Bootstrapper_ProcessTag_def key keep_media_tag_def is_keyframe_def ClearMediaBootstrap_def Bootstrapper_new_def)
  ultimately show ?thesis
    by (intro exI[of _ d] exI[of _ "hear (\<lambda>_. []) out"]) (simp add: d sample_waiting_def none_done_def)
qed

theorem sources_nested_witness:
  "\<exists>d seen. td_reach (d :: unit tag_distributor) seen \<and> sources_seen (seen 7) [] = Some [[110]]"
proof -
  obtain d seen where d: "td_reach (d :: unit tag_distributor) seen"
      "map_of (running d) 7 = Some \<lparr>callback = 7, done_flag = False\<rparr>"
      "td_bootstrapper d = (Bootstrapper_new True)\<lparr>media_bootstrap := [sample_key]\<rparr>" "td_name d = [110]"
    using sample_running by blast
  have "sources_seen (seen 7) [] = Some [[110]]"
    using sources_nested[OF d(1)] d(2-4) by (simp add: Bootstrapper_new_def)
  then show ?thesis using d(1) by blast
qed

theorem distributor_total_witness: "Reset sample_waiting \<noteq> None"
  using distributor_total[OF sample_waiting_reach] by (simp add: none_done_def sample_waiting_def)

theorem distribute_delivers_witness:
  "\<exists>out d. DistributeTag sample_source 5 sample_waiting = Some (out, d) \<and> to_bootstrap d = [] \<and> td_last_tag_ts d = 5"
proof -
  have "none_done sample_waiting" by (simp add: none_done_def sample_waiting_def)
  moreover have "may_distribute sample_source sample_waiting"
    by (simp add: may_distribute_def sample_source_def sample_waiting_def source_ok_def mt_type_def one_flavour_def)
  ultimately show ?thesis
    using distribute_delivers[OF sample_waiting_reach, of sample_source 5] by (auto simp: sample_source_def mt_type_def)
qed

theorem closed_client_served_witness:
  "\<exists>out1 d1 out2 d2. CloseCallback 7 True sample_waiting = Some (out1, d1)
     \<and> mt_type (last (tags_to 7 out1)) = TYPE_EOS
     \<and> DistributeTag sample_source 5 d1 = Some (out2, d2) \<and> last (tags_to 7 out2) = sample_source"
proof -
  have "\<exists>out1 d1. CloseCallback 7 True sample_waiting = Some (out1, d1)"
    by (simp add: CloseCallback_def sample_waiting_def Tag_new_def one_flavour_def close_waiting_def)
  then obtain out1 d1 where c: "CloseCallback 7 True sample_waiting = Some (out1, d1)" by blast
  show ?thesis
    using closed_client_served[OF sample_waiting_reach c, of sample_source 5] c by (auto simp: sample_source_def mt_type_def)
qed

theorem stale_media_after_reset_witness:
  "\<exists>d :: unit tag_distributor. \<exists>out1 d1 out2 d2. Reset d = Some (out1, d1)
     \<and> DistributeTag sample_source 0 d1 = Some (out2, d2) \<and> sample_key \<in> set (tags_to 7 out2)"
proof -
  obtain d seen where d: "td_reach d seen" "none_done d" "map_of (running d) 7 = Some \<lparr>callback = 7, done_flag = False\<rparr>"
      "td_bootstrapper d = (Bootstrapper_new True)\<lparr>media_bootstrap := [sample_key]\<rparr>"
    using sample_running by blast
  show ?thesis
    using stale_media_after_reset[OF d(1,2), of 7 sample_key sample_source 0] d(3,4)
    by (simp add: has_key_iff sample_source_def mt_type_def) blast
qed

end
