(* ===== verification/RtpPackets.thy ===== *)
theory RtpPackets
  imports NumStreaming
begin

text \<open>
  \<^verbatim>\<open>whisperstreamlib/rtp\<close>: the header of an RTP packet (\<^verbatim>\<open>rtp_header.{h,cc}\<close>) and the
  packetizers that cut a frame of audio or video into packets (\<^verbatim>\<open>rtp_packetization.{h,cc}\<close>).
  A stream is its content.  A packetizer returns its result, the packets and what is left in
  the input stream, or \<open>None\<close> when a \<^verbatim>\<open>CHECK\<close> fails.
\<close>

definition kRtpMtu :: nat where "kRtpMtu = 1386"

section \<open>Header\<close>

record rtp_header =
  rtp_flags :: byte
  rtp_payload_type :: byte
  rtp_sequence_number :: "16 word"
  rtp_timestamp :: "32 word"
  rtp_ssrc :: "32 word"

definition rtp_Header_new :: rtp_header where
  "rtp_Header_new = \<lparr>rtp_flags = 0, rtp_payload_type = 0, rtp_sequence_number = 0, rtp_timestamp = 0, rtp_ssrc = 0\<rparr>"

definition set_flag_version :: "byte \<Rightarrow> rtp_header \<Rightarrow> rtp_header" where
  "set_flag_version v h = h\<lparr>rtp_flags := push_bit 6 (v AND 0x03) OR (rtp_flags h AND 0x3f)\<rparr>"

definition set_flag_padding :: "byte \<Rightarrow> rtp_header \<Rightarrow> rtp_header" where
  "set_flag_padding v h = h\<lparr>rtp_flags := push_bit 5 (v AND 0x01) OR (rtp_flags h AND 0xdf)\<rparr>"

definition set_flag_extension :: "byte \<Rightarrow> rtp_header \<Rightarrow> rtp_header" where
  "set_flag_extension v h = h\<lparr>rtp_flags := push_bit 4 (v AND 0x01) OR (rtp_flags h AND 0xef)\<rparr>"

definition set_flag_cssid :: "byte \<Rightarrow> rtp_header \<Rightarrow> rtp_header" where
  "set_flag_cssid v h = h\<lparr>rtp_flags := (v AND 0x0f) OR (rtp_flags h AND 0xf0)\<rparr>"

text \<open>The marker is put over the low bits of the flags, not of the payload type.\<close>

definition set_payload_type_marker :: "byte \<Rightarrow> rtp_header \<Rightarrow> rtp_header" where
  "set_payload_type_marker v h = h\<lparr>rtp_payload_type := push_bit 7 (v AND 0x01) OR (rtp_flags h AND 0x7f)\<rparr>"

definition set_payload_type :: "byte \<Rightarrow> rtp_header \<Rightarrow> rtp_header" where
  "set_payload_type v h = h\<lparr>rtp_payload_type := (v AND 0x7f) OR (rtp_payload_type h AND 0x80)\<rparr>"

definition set_sequence_number :: "16 word \<Rightarrow> rtp_header \<Rightarrow> rtp_header" where
  "set_sequence_number n h = h\<lparr>rtp_sequence_number := n\<rparr>"

definition set_timestamp :: "32 word \<Rightarrow> rtp_header \<Rightarrow> rtp_header" where
  "set_timestamp t h = h\<lparr>rtp_timestamp := t\<rparr>"

definition set_ssrc :: "32 word \<Rightarrow> rtp_header \<Rightarrow> rtp_header" where
  "set_ssrc n h = h\<lparr>rtp_ssrc := n\<rparr>"

definition rtp_Header_Encode :: "rtp_header \<Rightarrow> bytes" where
  "rtp_Header_Encode h = [rtp_flags h] @ [rtp_payload_type h] @ WriteBE (rtp_sequence_number h)
     @ WriteBE (rtp_timestamp h) @ WriteBE (rtp_ssrc h)"

section \<open>Packetizers\<close>

datatype packetizer = H263 | H264 bool | MP4A bool | MP3 bool | SPLIT

text \<open>
  The loop that cuts a stream into packets of a header and at most \<open>mx\<close> bytes; it is written
  out once, the packetizers give the header.
\<close>

function split_loop :: "nat \<Rightarrow> (bool \<Rightarrow> nat \<Rightarrow> bytes) \<Rightarrow> bool \<Rightarrow> bytes \<Rightarrow> bytes list" where
  "split_loop mx header first s =
     (if s = [] \<or> mx = 0 then []
      else
        let sz = min (length s) mx
        in (header first sz @ take sz s) # split_loop mx header False (drop sz s))"
  by pat_completeness auto
termination by (relation "measure (\<lambda>(mx, header, first, s). length s)") auto

declare split_loop.simps [simp del]

definition h263_header :: "bool \<Rightarrow> nat \<Rightarrow> bytes" where
  "h263_header first sz =
     (let p_bit = (if first then 1 else 0); v_bit = 0; plen = 0; pebit = 0
      in WriteBE (push_bit 10 p_bit OR push_bit 9 v_bit OR push_bit 3 plen OR pebit :: 16 word))"

definition H263_Packetize :: "bytes \<Rightarrow> ((bool \<times> bytes list) \<times> bytes) option" where
  "H263_Packetize s =
     (if length s < 2 then Some ((False, []), s)
      else do {
        (b0, s1) \<leftarrow> ReadByte (drop 1 s);
        (b1, s2) \<leftarrow> ReadByte s1;
        (if b0 \<noteq> 0 \<or> b1 \<noteq> 0 then Some ((False, []), s2)
         else Some ((True, split_loop (kRtpMtu - 2) h263_header True s2), s2)) })"

text \<open>Fragmentation units; \<open>count\<close> is the number of packets made of the unit so far.\<close>

function fu_loop :: "byte \<Rightarrow> nat \<Rightarrow> nat \<Rightarrow> nat \<Rightarrow> bytes \<Rightarrow> bytes list \<times> bytes" where
  "fu_loop nalu_hdr nalu_size count consumed s =
     (if consumed < nalu_size then
        let sz = min (nalu_size - consumed) (kRtpMtu - 2);
            first = (count = 0);
            last_one = (consumed + sz = nalu_size);
            p = [(nalu_hdr AND 0x60) OR 28]
              @ [(if first then 0x80 else 0x00) OR (if last_one then 0x40 else 0x00) OR (nalu_hdr AND 0x1f)]
              @ take sz s;
            (ps, s') = fu_loop nalu_hdr nalu_size (count + 1) (consumed + sz) (drop sz s)
        in (p # ps, s')
      else ([], s))"
  by pat_completeness auto
termination
  by (relation "measure (\<lambda>(hdr, n, count, consumed, s). n - consumed)") (auto simp: kRtpMtu_def)

declare fu_loop.simps [simp del]

text \<open>
  The loop of \<^verbatim>\<open>SplitNalu\<close>; \<open>k\<close> is \<^verbatim>\<open>nalu_size_bytes\<close>, the number read is big-endian.
  What was pushed before an error stays in the output.
\<close>

lemma snd_fu_loop: "length (snd (fu_loop hdr n count consumed s)) \<le> length s"
proof (induction hdr n count consumed s rule: fu_loop.induct)
  case (1 hdr n count consumed s)
  show ?case
  proof (cases "consumed < n")
    case True
    then have "length (snd (fu_loop hdr n count consumed s)) \<le> length (drop (min (n - consumed) (kRtpMtu - 2)) s)"
      using "1.IH"[OF True refl refl refl refl] by (subst fu_loop.simps) (simp add: Let_def case_prod_beta)
    then show ?thesis by simp
  next
    case False
    then show ?thesis by (simp add: fu_loop.simps)
  qed
qed

function SplitNalu :: "nat \<Rightarrow> bytes \<Rightarrow> (bool \<times> bytes list) \<times> bytes" where
  "SplitNalu k s =
     (if s = [] then ((True, []), s)
      else if length s < k then ((False, []), s)
      else if k \<noteq> 4 \<and> k \<noteq> 2 then ((False, []), s)
      else
        let nalu_size = be_value (take k s); s1 = drop k s
        in if nalu_size = 0 then SplitNalu k s1
           else if nalu_size > length s1 then ((False, []), s1)
           else if nalu_size \<le> kRtpMtu then
             let ((ok, ps), s') = SplitNalu k (drop nalu_size s1)
             in ((ok, take nalu_size s1 # ps), s')
           else
             let fu = fu_loop (hd s1) nalu_size 0 1 (tl s1);
                 ((ok, ps), s') = SplitNalu k (snd fu)
             in ((ok, fst fu @ ps), s'))"
  by pat_completeness auto
termination
proof (relation "measure (\<lambda>(k, s). length s)")
  fix k s x xa xb
  assume "\<not> s = []" "\<not> length s < k" "\<not> (k \<noteq> 4 \<and> k \<noteq> 2)" "xa = drop k s" "xb = fu_loop (hd xa) x 0 1 (tl xa)"
  then have "length (snd xb) \<le> length s - k - 1" "0 < k" "k \<le> length s"
    using snd_fu_loop[of "hd xa" x 0 1 "tl xa"] by auto
  then show "((k, snd xb), k, s) \<in> measure (\<lambda>(k, s). length s)" by auto
qed auto

declare SplitNalu.simps [simp del]

definition H264_Packetize :: "bool \<Rightarrow> bytes \<Rightarrow> (bool \<times> bytes list) option" where
  "H264_Packetize is_flv_format s =
     (let tmp = take 6 (take 6 s @ replicate 6 0)
      in if is_flv_format \<and> tmp = [0x17, 0, 0, 0, 0, 1] then Some (True, [])
         else
           let s1 = (if is_flv_format then drop 7 s else s);
               ((ok, ps), rest) = SplitNalu (if is_flv_format then 2 else 4) s1
           in if ok \<and> rest \<noteq> [] then None else Some (ok, ps))"

definition mp4a_header :: "bool \<Rightarrow> nat \<Rightarrow> bytes" where
  "mp4a_header first sz = WriteBE (0x0010 :: 16 word) @ WriteBE (word_of_nat (sz * 8) :: 16 word)"

definition Mp4a_Packetize :: "bool \<Rightarrow> bytes \<Rightarrow> bool \<times> bytes list" where
  "Mp4a_Packetize is_flv_format s =
     (let s1 = (if is_flv_format then drop 2 s else s)
      in (True, split_loop (kRtpMtu - 4) mp4a_header True s1))"

definition mp3_header :: "bool \<Rightarrow> nat \<Rightarrow> bytes" where
  "mp3_header first sz = [0, 0, 0, 0]"

definition Mp3_Packetize :: "bool \<Rightarrow> bytes \<Rightarrow> bool \<times> bytes list" where
  "Mp3_Packetize is_flv_format s =
     (let s1 = (if is_flv_format then drop 1 s else s)
      in (True, split_loop (kRtpMtu - 4) mp3_header True s1))"

definition Split_Packetize :: "bytes \<Rightarrow> bool \<times> bytes list" where
  "Split_Packetize s = (True, split_loop kRtpMtu (\<lambda>_ _. []) True s)"

text \<open>The virtual \<^verbatim>\<open>Packetize\<close>; all but the one for H263 restore the stream.\<close>

definition Packetize :: "packetizer \<Rightarrow> bytes \<Rightarrow> ((bool \<times> bytes list) \<times> bytes) option" where
  "Packetize p s = (case p of
     H263 \<Rightarrow> H263_Packetize s
   | H264 flv \<Rightarrow> map_option (\<lambda>r. (r, s)) (H264_Packetize flv s)
   | MP4A flv \<Rightarrow> Some (Mp4a_Packetize flv s, s)
   | MP3 flv \<Rightarrow> Some (Mp3_Packetize flv s, s)
   | SPLIT \<Rightarrow> Some (Split_Packetize s, s))"

end
