(* ===== verification/RtpLaws.thy ===== *)
theory RtpLaws
  imports RtpPackets
begin

text \<open>
  What the packetizers make of a frame: packets within the limit, from which the receiver gets
  the frame back.
\<close>

section \<open>Cutting a frame\<close>

text \<open>The contract of the packetizers that put a header of a fixed size in front of each piece.\<close>

locale frame_cutter =
  fixes header :: "bool \<Rightarrow> nat \<Rightarrow> bytes" and h :: nat and mx :: nat
  assumes header_length: "length (header first sz) = h" and room: "0 < mx"

context frame_cutter
begin

lemma cut_Nil: "split_loop mx header first [] = []"
  by (simp add: split_loop.simps)

lemma cut_Cons:
  "s \<noteq> [] \<Longrightarrow> split_loop mx header first s
     = (header first (min (length s) mx) @ take (min (length s) mx) s)
       # split_loop mx header False (drop (min (length s) mx) s)"
  using room by (subst split_loop.simps) (simp add: Let_def)

lemma cut_induct [case_names Nil Cons]:
  assumes "P []" "\<And>s. s \<noteq> [] \<Longrightarrow> P (drop (min (length s) mx) s) \<Longrightarrow> P s"
  shows "P s"
proof (induction s rule: length_induct)
  case (1 s)
  then show ?case using assms room by (cases "s = []") auto
qed

lemma cut_bounds: "\<forall>p \<in> set (split_loop mx header first s). h < length p \<and> length p \<le> h + mx"
proof (induction s arbitrary: first rule: cut_induct)
  case (Cons s)
  then show ?case using room by (auto simp: cut_Cons header_length)
qed (simp add: cut_Nil)

lemma cut_payload: "concat (map (drop h) (split_loop mx header first s)) = s"
proof (induction s arbitrary: first rule: cut_induct)
  case (Cons s)
  then show ?case by (simp add: cut_Cons header_length)
qed (simp add: cut_Nil)

lemma cut_full: "\<forall>p \<in> set (butlast (split_loop mx header first s)). length p = h + mx"
proof (induction s arbitrary: first rule: cut_induct)
  case (Cons s)
  let ?n = "min (length s) mx"
  define r where "r = split_loop mx header False (drop ?n s)"
  have split: "split_loop mx header first s = (header first ?n @ take ?n s) # r"
    using cut_Cons[OF Cons(1)] by (simp add: r_def)
  have "r = []" if "length s \<le> mx" using that by (simp add: r_def cut_Nil min_absorb1)
  then have "r \<noteq> [] \<Longrightarrow> ?n = mx" by (cases "length s \<le> mx") simp_all
  moreover have "\<forall>p \<in> set (butlast r). length p = h + mx" unfolding r_def by (rule Cons(2))
  moreover have "length (header first ?n @ take ?n s) = h + ?n" by (simp add: header_length)
  ultimately show ?case unfolding split by (cases "r = []") simp_all
qed (simp add: cut_Nil)

lemma cut_headers:
  "\<forall>i < length (split_loop mx header first s).
     take h (split_loop mx header first s ! i)
       = header (first \<and> i = 0) (length (split_loop mx header first s ! i) - h)"
proof (induction s arbitrary: first rule: cut_induct)
  case (Cons s)
  let ?n = "min (length s) mx"
  define r where "r = split_loop mx header False (drop ?n s)"
  have split: "split_loop mx header first s = (header first ?n @ take ?n s) # r"
    using cut_Cons[OF Cons(1)] by (simp add: r_def)
  have ih: "\<forall>i < length r. take h (r ! i) = header False (length (r ! i) - h)"
    using Cons(2)[of False] by (simp add: r_def)
  show ?case
    unfolding split
  proof (intro allI impI)
    fix i
    assume "i < length ((header first ?n @ take ?n s) # r)"
    then show "take h (((header first ?n @ take ?n s) # r) ! i)
      = header (first \<and> i = 0) (length (((header first ?n @ take ?n s) # r) ! i) - h)"
      using ih by (cases i) (simp_all add: header_length)
  qed
qed (simp add: cut_Nil)

end

interpretation h263: frame_cutter h263_header 2 "kRtpMtu - 2"
  by unfold_locales (simp_all add: h263_header_def Let_def kRtpMtu_def)

interpretation mp4a: frame_cutter mp4a_header 4 "kRtpMtu - 4"
  by unfold_locales (simp_all add: mp4a_header_def kRtpMtu_def)

interpretation mp3: frame_cutter mp3_header 4 "kRtpMtu - 4"
  by unfold_locales (simp_all add: mp3_header_def kRtpMtu_def)

interpretation whole: frame_cutter "\<lambda>_ _. []" 0 kRtpMtu
  by unfold_locales (simp_all add: kRtpMtu_def)

section \<open>Fragments of a unit\<close>

lemma fu_step:
  assumes "consumed < n"
  shows "fu_loop hdr n count consumed s =
    (let sz = min (n - consumed) (kRtpMtu - 2); (ps, s') = fu_loop hdr n (Suc count) (consumed + sz) (drop sz s)
     in (([(hdr AND 0x60) OR 28, (if count = 0 then 0x80 else 0) OR (if consumed + sz = n then 0x40 else 0) OR (hdr AND 0x1f)]
          @ take sz s) # ps, s'))"
  using assms by (subst fu_loop.simps) (simp add: Let_def)

lemma fu_end: "\<not> consumed < n \<Longrightarrow> fu_loop hdr n count consumed s = ([], s)"
  by (simp add: fu_loop.simps)

lemma fu_loop_spec:
  assumes "consumed \<le> n" "n - consumed \<le> length s"
  shows "snd (fu_loop hdr n count consumed s) = drop (n - consumed) s
    \<and> (\<forall>p \<in> set (fst (fu_loop hdr n count consumed s)). 0 < length p \<and> length p \<le> kRtpMtu)"
  using assms
proof (induction "n - consumed" arbitrary: count consumed s rule: less_induct)
  case less
  show ?case
  proof (cases "consumed < n")
    case True
    define sz where "sz = min (n - consumed) (kRtpMtu - 2)"
    have sz: "0 < sz" "sz \<le> n - consumed" "sz + 2 \<le> kRtpMtu" using True by (auto simp: sz_def kRtpMtu_def)
    obtain ps s' where r: "fu_loop hdr n (Suc count) (consumed + sz) (drop sz s) = (ps, s')" by fastforce
    have "s' = drop (n - (consumed + sz)) (drop sz s) \<and> (\<forall>p \<in> set ps. 0 < length p \<and> length p \<le> kRtpMtu)"
      using less.hyps[of "consumed + sz" "drop sz s" "Suc count"] less.prems sz r by simp
    moreover have "n - (consumed + sz) + sz = n - consumed" using sz by simp
    ultimately show ?thesis
      using sz less.prems by (simp add: fu_step[OF True] sz_def[symmetric] Let_def r)
  next
    case False
    then show ?thesis using less.prems by (simp add: fu_end)
  qed
qed

text \<open>
  The receiver (RFC 6184): a fragment with the start bit begins a unit, one with the end bit
  completes it; every other packet is a unit.
\<close>

fun depacketize :: "bytes \<Rightarrow> bytes list \<Rightarrow> bytes list" where
  "depacketize cur [] = []"
| "depacketize cur ((i # f # payload) # ps) =
     (if i AND 0x1f = 28 then
        let u = (if f AND 0x80 \<noteq> 0 then [(i AND 0xe0) OR (f AND 0x1f)] else cur) @ payload
        in if f AND 0x40 \<noteq> 0 then u # depacketize [] ps else depacketize u ps
      else (i # f # payload) # depacketize [] ps)"
| "depacketize cur (p # ps) = p # depacketize [] ps"

lemma fu_bits:
  fixes hdr :: byte
  shows "((hdr AND 0x60) OR 28) AND 0x1f = 28" "((hdr AND 0x60) OR 28) AND 0xe0 = hdr AND 0x60"
    "(hdr AND 0x1f) AND 0x80 = 0" "(hdr AND 0x1f) AND 0x40 = 0" "(0x80 OR (hdr AND 0x1f)) AND 0x80 = 0x80"
    "(0x80 OR (hdr AND 0x1f)) AND 0x40 = 0" "(0x80 OR (hdr AND 0x1f)) AND 0x1f = hdr AND 0x1f"
    "(0x40 OR (hdr AND 0x1f)) AND 0x80 = 0" "(0x40 OR (hdr AND 0x1f)) AND 0x40 = 0x40"
    "(0x80 OR (0x40 OR (hdr AND 0x1f))) AND 0x80 = 0x80" "(0x80 OR (0x40 OR (hdr AND 0x1f))) AND 0x40 = 0x40"
    "(0x80 OR (0x40 OR (hdr AND 0x1f))) AND 0x1f = hdr AND 0x1f"
  by (simp_all add: bit.conj_disj_distrib2 and.assoc)

lemma depacketize_fu:
  assumes "consumed < n" "n - consumed \<le> length s"
  shows "depacketize cur (fst (fu_loop hdr n count consumed s) @ qs)
    = ((if count = 0 then [(hdr AND 0x60) OR (hdr AND 0x1f)] else cur) @ take (n - consumed) s) # depacketize [] qs"
  using assms
proof (induction "n - consumed" arbitrary: count consumed s cur rule: less_induct)
  case less
  define sz where "sz = min (n - consumed) (kRtpMtu - 2)"
  have sz: "0 < sz" "sz \<le> n - consumed" using less.prems by (auto simp: sz_def kRtpMtu_def)
  obtain ps s' where r: "fu_loop hdr n (Suc count) (consumed + sz) (drop sz s) = (ps, s')" by fastforce
  have e: "fst (fu_loop hdr n count consumed s)
    = ([(hdr AND 0x60) OR 28, (if count = 0 then 0x80 else 0) OR (if consumed + sz = n then 0x40 else 0) OR (hdr AND 0x1f)]
        @ take sz s) # ps"
    by (simp add: fu_step[OF less.prems(1)] sz_def[symmetric] Let_def r)
  show ?case
  proof (cases "consumed + sz = n")
    case True
    then have "ps = []" "sz = n - consumed" using r by (auto simp: fu_end)
    then show ?thesis
      unfolding e using True by (auto simp: fu_bits)
  next
    case False
    then have "consumed + sz < n" using sz by simp
    then have ih: "depacketize cur' (ps @ qs) = (cur' @ take (n - (consumed + sz)) (drop sz s)) # depacketize [] qs" for cur'
      using less.hyps[of "consumed + sz" "drop sz s" cur' "Suc count"] less.prems sz r by simp
    have "take sz s @ take (n - (consumed + sz)) (drop sz s) = take (n - consumed) s"
      using sz by (simp add: take_append_drop_min)
    then show ?thesis
      unfolding e using False by (auto simp: fu_bits ih)
  qed
qed

section \<open>Units\<close>

lemma Split_Nil: "SplitNalu k [] = ((True, []), [])"
  by (simp add: SplitNalu.simps)

lemma SplitNalu_spec:
  "(fst (fst (SplitNalu k s)) \<longrightarrow> snd (SplitNalu k s) = [])
     \<and> (\<forall>p \<in> set (snd (fst (SplitNalu k s))). 0 < length p \<and> length p \<le> kRtpMtu)"
proof (induction k s rule: SplitNalu.induct)
  case (1 k s)
  show ?case
  proof (cases "s = [] \<or> length s < k \<or> (k \<noteq> 4 \<and> k \<noteq> 2)")
    case True
    then show ?thesis by (auto simp: SplitNalu.simps[of k s])
  next
    case False
    then have c: "\<not> s = []" "\<not> length s < k" "\<not> (k \<noteq> 4 \<and> k \<noteq> 2)" by blast+
    define n where "n = be_value (take k s)"
    define s1 where "s1 = drop k s"
    note ih = "1.IH"[OF c n_def s1_def]
    consider (zero) "n = 0" | (big) "n \<noteq> 0" "n > length s1" | (one) "n \<noteq> 0" "\<not> n > length s1" "n \<le> kRtpMtu"
      | (fu) "n \<noteq> 0" "\<not> n > length s1" "\<not> n \<le> kRtpMtu" by blast
    then show ?thesis
    proof cases
      case zero
      then have "SplitNalu k s = SplitNalu k s1"
        using c by (subst SplitNalu.simps) (auto simp: Let_def n_def[symmetric] s1_def[symmetric])
      then show ?thesis using ih(1)[OF zero] by simp
    next
      case big
      then have "SplitNalu k s = ((False, []), s1)"
        using c by (subst SplitNalu.simps) (auto simp: Let_def n_def[symmetric] s1_def[symmetric])
      then show ?thesis by simp
    next
      case one
      obtain ok ps s' where r: "SplitNalu k (drop n s1) = ((ok, ps), s')" by (metis prod.collapse)
      have "SplitNalu k s = ((ok, take n s1 # ps), s')"
        using c one r by (subst SplitNalu.simps) (auto simp: Let_def n_def[symmetric] s1_def[symmetric])
      then show ?thesis using ih(2)[OF one] one r by auto
    next
      case fu
      define f where "f = fu_loop (hd s1) n 0 1 (tl s1)"
      obtain ok ps s' where r: "SplitNalu k (snd f) = ((ok, ps), s')" by (metis prod.collapse)
      have eq: "SplitNalu k s = ((ok, fst f @ ps), s')"
        using c fu r by (subst SplitNalu.simps) (auto simp: Let_def n_def[symmetric] s1_def[symmetric] f_def)
      have "\<forall>p \<in> set (fst f). 0 < length p \<and> length p \<le> kRtpMtu"
        unfolding f_def using fu_loop_spec[of 1 n "tl s1"] fu by simp
      then show ?thesis using ih(3)[OF fu f_def] r unfolding eq by auto
    qed
  qed
qed

section \<open>The packetizers\<close>

lemma H264_defined: "\<exists>r. H264_Packetize flv s = Some r"
proof -
  obtain ok ps rest where r: "SplitNalu (if flv then 2 else 4) (if flv then drop 7 s else s) = ((ok, ps), rest)"
    by (metis prod.collapse)
  then have "ok \<Longrightarrow> rest = []"
    using SplitNalu_spec[of "if flv then 2 else 4" "if flv then drop 7 s else s"] by simp
  then show ?thesis by (cases ok) (auto simp: H264_Packetize_def Let_def r)
qed

lemma H264_bounds:
  assumes "H264_Packetize flv s = Some (ok, ps)"
  shows "\<forall>p \<in> set ps. 0 < length p \<and> length p \<le> kRtpMtu"
proof -
  obtain ok' ps' rest where r: "SplitNalu (if flv then 2 else 4) (if flv then drop 7 s else s) = ((ok', ps'), rest)"
    by (metis prod.collapse)
  then have "ps = [] \<or> ps = ps'"
    using assms by (simp add: H264_Packetize_def Let_def split: if_splits)
  then show ?thesis
    using SplitNalu_spec[of "if flv then 2 else 4" "if flv then drop 7 s else s"] r by auto
qed

lemma H263_cases:
  "H263_Packetize s =
     (if length s < 2 then Some ((False, []), s)
      else if length s = 2 then None
      else if s ! 1 \<noteq> 0 \<or> s ! 2 \<noteq> 0 then Some ((False, []), drop 3 s)
      else Some ((True, split_loop (kRtpMtu - 2) h263_header True (drop 3 s)), drop 3 s))"
proof -
  consider "s = []" | x where "s = [x]" | x y where "s = [x, y]" | x y z r where "s = x # y # z # r"
    by (metis neq_Nil_conv)
  then show ?thesis
    by cases (simp_all add: H263_Packetize_def ReadByte_Cons ReadByte_Nil)
qed

lemma Packetize_limits_lemma:
  "(Packetize pk s = None \<longleftrightarrow> pk = H263 \<and> length s = 2)
    \<and> (\<forall>ok ps s'. Packetize pk s = Some ((ok, ps), s') \<longrightarrow>
         (\<forall>p \<in> set ps. 0 < length p \<and> length p \<le> kRtpMtu)
         \<and> s' = (if pk = H263 \<and> 2 < length s then drop 3 s else s))"
proof -
  have m: "2 + (kRtpMtu - 2) = kRtpMtu" "4 + (kRtpMtu - 4) = kRtpMtu" by (simp_all add: kRtpMtu_def)
  note cuts = h263.cut_bounds[unfolded m] mp4a.cut_bounds[unfolded m] mp3.cut_bounds[unfolded m]
    whole.cut_bounds[unfolded add_0]
  show ?thesis
  proof (cases pk)
    case H263
    consider (short) "length s < 2" | (two) "length s = 2" | (bad) "2 < length s" "s ! 1 \<noteq> 0 \<or> s ! 2 \<noteq> 0"
      | (ok) "2 < length s" "s ! 1 = 0" "s ! 2 = 0" by linarith
    then show ?thesis
    proof cases
      case ok
      then have "Packetize pk s = Some ((True, split_loop (kRtpMtu - 2) h263_header True (drop 3 s)), drop 3 s)"
        using H263 by (simp add: Packetize_def H263_cases)
      then show ?thesis using ok H263 h263.cut_bounds[of True "drop 3 s", unfolded m] by auto
    qed (use H263 in \<open>simp_all add: Packetize_def H263_cases\<close>)
  next
    case (H264 flv)
    then show ?thesis using H264_defined[of flv s] H264_bounds[of flv s] by (auto simp: Packetize_def)
  next
    case (MP4A flv)
    then show ?thesis using mp4a.cut_bounds[of True, unfolded m] by (fastforce simp: Packetize_def Mp4a_Packetize_def Let_def)
  next
    case (MP3 flv)
    then show ?thesis using mp3.cut_bounds[of True, unfolded m] by (fastforce simp: Packetize_def Mp3_Packetize_def Let_def)
  next
    case SPLIT
    then show ?thesis using whole.cut_bounds[of True, unfolded add_0] by (fastforce simp: Packetize_def Split_Packetize_def)
  qed
qed

text \<open>
  C31. No packetizer makes an empty packet or one larger than the limit; each leaves the stream as
  it was, but the one for H263, which consumes three bytes of a frame and aborts on a frame of
  two, the only input on which a packetizer aborts.
\<close>

theorem Packetize_limits:
  "(Packetize pk s = None \<longleftrightarrow> pk = H263 \<and> length s = 2)
    \<and> (\<forall>ok ps s'. Packetize pk s = Some ((ok, ps), s') \<longrightarrow>
         (\<forall>p \<in> set ps. 0 < length p \<and> length p \<le> kRtpMtu)
         \<and> s' = (if pk = H263 \<and> 2 < length s then drop 3 s else s))"
  by (rule Packetize_limits_lemma)

theorem Packetize_limits_witness: "Packetize H263 [1, 0] = None"
  using Packetize_limits[of H263 "[1, 0]"] by simp

text \<open>The size of the header of a packet, and the part of a frame that is sent.\<close>

definition header_size :: "packetizer \<Rightarrow> nat" where
  "header_size pk = (case pk of H263 \<Rightarrow> 2 | SPLIT \<Rightarrow> 0 | _ \<Rightarrow> 4)"

definition sent_part :: "packetizer \<Rightarrow> bytes \<Rightarrow> bytes" where
  "sent_part pk s = (case pk of H263 \<Rightarrow> drop 3 s | H264 flv \<Rightarrow> (if flv then drop 7 s else s)
     | MP4A flv \<Rightarrow> (if flv then drop 2 s else s) | MP3 flv \<Rightarrow> (if flv then drop 1 s else s) | SPLIT \<Rightarrow> s)"

text \<open>
  The packetizers that cut a frame anywhere (all but the one for H264) send all of it: without
  their headers the packets in order are the frame (after the bytes of its container), every
  packet but the last is as large as allowed, and the header of an MPEG-4 audio packet has the
  number of bits of the data after it.
\<close>

theorem Packetize_payload:
  assumes "Packetize pk s = Some ((True, ps), s')" "\<nexists>flv. pk = H264 flv"
  shows "concat (map (drop (header_size pk)) ps) = sent_part pk s
    \<and> (\<forall>p \<in> set (butlast ps). length p = kRtpMtu)
    \<and> (\<forall>flv. pk = MP4A flv \<longrightarrow> (\<forall>p \<in> set ps. be_value (take 2 (drop 2 p)) = 8 * (length p - 4)))"
proof -
  have m: "2 + (kRtpMtu - 2) = kRtpMtu" "4 + (kRtpMtu - 4) = kRtpMtu" by (simp_all add: kRtpMtu_def)
  show ?thesis
  proof (cases pk)
    case H263
    then have "ps = split_loop (kRtpMtu - 2) h263_header True (drop 3 s)"
      using assms(1) by (auto simp: Packetize_def H263_cases split: if_splits)
    then show ?thesis
      using H263 h263.cut_payload h263.cut_full[of True "drop 3 s", unfolded m] by (simp add: header_size_def sent_part_def)
  next
    case (MP4A flv)
    let ?s = "if flv then drop 2 s else s"
    have ps: "ps = split_loop (kRtpMtu - 4) mp4a_header True ?s"
      using assms(1) MP4A by (simp add: Packetize_def Mp4a_Packetize_def Let_def)
    have "be_value (take 2 (drop 2 p)) = 8 * (length p - 4)" if "p \<in> set ps" for p
    proof -
      have l: "length p \<le> kRtpMtu" using mp4a.cut_bounds[of True ?s, unfolded m] that ps by auto
      from that obtain i where i: "i < length ps" "p = ps ! i" by (metis in_set_conv_nth)
      then have "take 4 p = mp4a_header (True \<and> i = 0) (length p - 4)"
        using mp4a.cut_headers[of True ?s] unfolding ps by blast
      moreover have "take 2 (drop 2 p) = drop 2 (take 4 p)" by (simp add: drop_take)
      ultimately have t: "take 2 (drop 2 p) = WriteBE (word_of_nat ((length p - 4) * 8) :: 16 word)"
        by (simp add: mp4a_header_def)
      have small: "(length p - 4) * 8 < 2 ^ LENGTH(16)" using l by (simp add: kRtpMtu_def)
      have "be_value (take 2 (drop 2 p)) = ((length p - 4) * 8) mod 256 ^ (LENGTH(16) div 8)"
        unfolding t WriteBE_eq unat_word_of_nat[OF small] be_value_be_bytes ..
      then show ?thesis using small by simp
    qed
    then show ?thesis
      using MP4A mp4a.cut_payload mp4a.cut_full[of True ?s, unfolded m] ps by (simp add: header_size_def sent_part_def)
  next
    case (MP3 flv)
    then have "ps = split_loop (kRtpMtu - 4) mp3_header True (if flv then drop 1 s else s)"
      using assms(1) by (auto simp: Packetize_def Mp3_Packetize_def Let_def)
    then show ?thesis
      using MP3 mp3.cut_payload mp3.cut_full[of True "if flv then drop 1 s else s", unfolded m]
      by (simp add: header_size_def sent_part_def)
  next
    case SPLIT
    then have "ps = split_loop kRtpMtu (\<lambda>_ _. []) True s"
      using assms(1) by (auto simp: Packetize_def Split_Packetize_def)
    then show ?thesis
      using SPLIT whole.cut_payload whole.cut_full[of True s, unfolded add_0] by (simp add: header_size_def sent_part_def)
  qed (use assms(2) in auto)
qed

theorem Packetize_payload_witness:
  "\<exists>ps. Packetize (MP3 True) [0x2e, 1, 2, 3] = Some ((True, ps), [0x2e, 1, 2, 3])
     \<and> concat (map (drop 4) ps) = [1, 2, 3]"
proof -
  obtain ps where "Packetize (MP3 True) [0x2e, 1, 2, 3] = Some ((True, ps), [0x2e, 1, 2, 3])"
    by (simp add: Packetize_def Mp3_Packetize_def Let_def)
  then show ?thesis using Packetize_payload[of "MP3 True" "[0x2e, 1, 2, 3]" ps] by (simp add: header_size_def sent_part_def)
qed

section \<open>Units of H264\<close>

text \<open>
  A frame is units with their sizes in front.  A unit sent whole must not look like a fragment,
  one that is cut loses its forbidden bit.
\<close>

definition unit_ok :: "bytes \<Rightarrow> bool" where
  "unit_ok u \<longleftrightarrow> u \<noteq> [] \<and> (if length u \<le> kRtpMtu then hd u AND 0x1f \<noteq> 28 else hd u AND 0x80 = 0)"

definition sized_units :: "bytes list \<Rightarrow> bytes" where
  "sized_units us = concat (map (\<lambda>u. be_bytes 4 (length u) @ u) us)"

definition unit_packets :: "bytes \<Rightarrow> bytes list" where
  "unit_packets u = (if length u \<le> kRtpMtu then [u] else fst (fu_loop (hd u) (length u) 0 1 (tl u)))"

lemma header_byte:
  fixes hdr :: byte
  assumes "hdr AND 0x80 = 0"
  shows "(hdr AND 0x60) OR (hdr AND 0x1f) = hdr"
proof -
  have m: "(0x60 OR 0x1f OR 0x80 :: byte) = mask 8" by (simp add: mask_eq_exp_minus_1)
  have "hdr = hdr AND (0x60 OR 0x1f OR 0x80)"
    unfolding m by (simp only: take_bit_eq_mask[symmetric]) (simp add: take_bit_word_eq_self)
  also have "\<dots> = (hdr AND 0x60) OR (hdr AND 0x1f) OR (hdr AND 0x80)"
    by (simp only: bit.conj_disj_distrib)
  finally show ?thesis using assms by simp
qed

text \<open>A unit with its size is split off, in packets that the receiver puts together.\<close>

lemma SplitNalu_unit:
  assumes k: "k = 4 \<or> k = 2" and u: "unit_ok u" "length u < 256 ^ k"
    and rest: "SplitNalu k rest = ((ok, ps), s')"
  shows "\<exists>fp. SplitNalu k (be_bytes k (length u) @ u @ rest) = ((ok, fp @ ps), s')
    \<and> depacketize [] (fp @ ps) = u # depacketize [] ps"
proof -
  obtain b r where ur: "u = b # r" using u(1) by (cases u) (auto simp: unit_ok_def)
  let ?s = "be_bytes k (length u) @ u @ rest"
  have n: "be_value (take k ?s) = length u" "drop k ?s = u @ rest" using u(2) by simp_all
  have c: "?s \<noteq> []" "\<not> length ?s < k" "\<not> (k \<noteq> 4 \<and> k \<noteq> 2)" "length u \<noteq> 0" "\<not> length u > length (u @ rest)"
    using ur k by auto
  show ?thesis
  proof (cases "length u \<le> kRtpMtu")
    case True
    have "SplitNalu k ?s = ((ok, [u] @ ps), s')"
      by (subst SplitNalu.simps) (simp only: c n if_False True if_True Let_def, simp add: rest)
    moreover have "depacketize [] ([u] @ ps) = u # depacketize [] ps"
      using True u(1) ur by (cases r) (simp_all add: unit_ok_def)
    ultimately show ?thesis by blast
  next
    case False
    define fu where "fu = fu_loop b (length u) 0 1 (r @ rest)"
    have s: "snd fu = rest"
      using fu_loop_spec[of 1 "length u" "r @ rest" b 0] ur by (simp add: fu_def)
    have "hd (u @ rest) = b" "tl (u @ rest) = r @ rest" using ur by simp_all
    then have "SplitNalu k ?s = ((ok, fst fu @ ps), s')"
      by (subst SplitNalu.simps)
         (simp only: c n if_False False Let_def, simp add: fu_def[symmetric] s rest del: One_nat_def)
    moreover have "depacketize [] (fst fu @ ps) = u # depacketize [] ps"
    proof -
      have "1 < length u" using False by (simp add: kRtpMtu_def)
      then have "depacketize [] (fst fu @ ps) = ([(b AND 0x60) OR (b AND 0x1f)] @ r) # depacketize [] ps"
        unfolding fu_def using depacketize_fu[of 1 "length u" "r @ rest" "[]" b 0 ps] ur by simp
      moreover have "(b AND 0x60) OR (b AND 0x1f) = b"
        using u(1) False ur by (intro header_byte) (simp add: unit_ok_def)
      ultimately show ?thesis using ur by simp
    qed
    ultimately show ?thesis by blast
  qed
qed

lemma SplitNalu_units_4:
  assumes "\<forall>u \<in> set us. unit_ok u \<and> length u < 256 ^ 4"
  shows "\<exists>ps. SplitNalu 4 (sized_units us) = ((True, ps), []) \<and> depacketize [] ps = us"
  using assms
proof (induction us)
  case Nil
  then show ?case by (simp add: sized_units_def Split_Nil)
next
  case (Cons u us)
  then obtain ps where ps: "SplitNalu 4 (sized_units us) = ((True, ps), [])" "depacketize [] ps = us" by auto
  have "unit_ok u" "length u < 256 ^ 4" using Cons.prems by auto
  then obtain fp where "SplitNalu 4 (be_bytes 4 (length u) @ u @ sized_units us) = ((True, fp @ ps), [])"
      "depacketize [] (fp @ ps) = u # depacketize [] ps"
    using SplitNalu_unit[OF _ _ _ ps(1), of u] by auto
  then show ?case using ps(2) by (intro exI[of _ "fp @ ps"]) (simp add: sized_units_def)
qed

text \<open>With sizes of two bytes the upper half of a size is taken for an empty unit.\<close>

lemma be_bytes_upper:
  assumes "n < 65536"
  shows "be_bytes 4 n = [0, 0] @ be_bytes 2 n"
proof -
  have z: "n div 256 div 256 = 0" using assms by (simp add: div_mult2_eq[symmetric])
  have "be_bytes (Suc (Suc (Suc (Suc 0)))) n = [0, 0] @ be_bytes (Suc (Suc 0)) n"
    by (simp add: be_bytes_def z)
  then show ?thesis by (simp add: numeral_eq_Suc)
qed

lemma SplitNalu_upper: "SplitNalu 2 ([0, 0] @ s) = SplitNalu 2 s"
  by (subst SplitNalu.simps) (simp add: be_value_def)

lemma SplitNalu_units_2:
  assumes "\<forall>u \<in> set us. unit_ok u \<and> length u < 65536"
  shows "\<exists>ps. SplitNalu 2 (sized_units us) = ((True, ps), []) \<and> depacketize [] ps = us"
  using assms
proof (induction us)
  case Nil
  then show ?case by (simp add: sized_units_def Split_Nil)
next
  case (Cons u us)
  then obtain ps where ps: "SplitNalu 2 (sized_units us) = ((True, ps), [])" "depacketize [] ps = us" by auto
  have u: "unit_ok u" "length u < 256 ^ 2" using Cons.prems by auto
  have "sized_units (u # us) = [0, 0] @ be_bytes 2 (length u) @ u @ sized_units us"
    using u(2) be_bytes_upper[of "length u"] by (simp add: sized_units_def)
  moreover obtain fp where "SplitNalu 2 (be_bytes 2 (length u) @ u @ sized_units us) = ((True, fp @ ps), [])"
      "depacketize [] (fp @ ps) = u # depacketize [] ps"
    using SplitNalu_unit[OF _ u ps(1)] by auto
  ultimately show ?case using ps(2) SplitNalu_upper by (intro exI[of _ "fp @ ps"]) simp
qed

text \<open>
  C20. The receiver puts the packets of an H264 frame together to the units of the frame, both
  for frames of an MP4 file and, after the five bytes that FLV has in front, for frames of
  FLV, provided no unit of the latter has 65536 bytes or more.
\<close>

theorem H264_units:
  assumes "\<forall>u \<in> set us. unit_ok u \<and> length u < (if flv then 65536 else 2 ^ 32)"
    and "flv \<Longrightarrow> length hdr = 5" "\<not> flv \<Longrightarrow> hdr = []"
  shows "\<exists>ps. Packetize (H264 flv) (hdr @ sized_units us) = Some ((True, ps), hdr @ sized_units us)
    \<and> depacketize [] ps = us"
proof (cases flv)
  case False
  then obtain ps where "SplitNalu 4 (sized_units us) = ((True, ps), [])" "depacketize [] ps = us"
    using SplitNalu_units_4[of us] assms(1) by auto
  then show ?thesis using False assms(3) by (simp add: Packetize_def H264_Packetize_def)
next
  case True
  then obtain ps where ps: "SplitNalu 2 (sized_units us) = ((True, ps), [])" "depacketize [] ps = us"
    using SplitNalu_units_2[of us] assms(1) by auto
  let ?s = "hdr @ sized_units us"
  have start: "sized_units us = [] \<or> (\<exists>r. sized_units us = [0, 0] @ r)"
    using True assms(1) be_bytes_upper by (cases us) (auto simp: sized_units_def)
  have "take 6 (take 6 ?s @ replicate 6 0) ! 5 = 0"
    using start assms(2)[OF True] by (auto simp: nth_append)
  then have no_header: "take 6 (take 6 ?s @ replicate 6 0) \<noteq> [0x17, 0, 0, 0, 0, 1]" by auto
  have "SplitNalu 2 (drop 7 ?s) = ((True, ps), [])"
    using start ps(1) SplitNalu_upper assms(2)[OF True] by auto
  then show ?thesis using True no_header ps(2) by (simp add: Packetize_def H264_Packetize_def Let_def)
qed

theorem H264_units_witness:
  "\<exists>ps. Packetize (H264 True) ([0x27, 1, 0, 0, 0] @ sized_units [replicate 3000 0x41, [0x65]])
      = Some ((True, ps), [0x27, 1, 0, 0, 0] @ sized_units [replicate 3000 0x41, [0x65]])
    \<and> depacketize [] ps = [replicate 3000 0x41, [0x65]]"
  by (rule H264_units) (simp_all add: unit_ok_def kRtpMtu_def)

end
