(* ===== verification/RtpBroadcast.thy ===== *)
theory RtpBroadcast
  imports RtpLaws MediaTag F4vTypes
begin

text \<open>
  \<^verbatim>\<open>rtp::Broadcaster\<close> (\<^verbatim>\<open>rtp_broadcaster.{h,cc}\<close>): tags become RTP packets.  The
  sender is an interface; \<open>sent\<close> says for each packet of a frame whether \<^verbatim>\<open>SendRtp\<close>
  succeeded, the packets given to it are part of the result.  What is only logged is left out.
\<close>

definition AVP_PAYLOAD_MPA :: byte where "AVP_PAYLOAD_MPA = 14"
definition AVP_PAYLOAD_MPV :: byte where "AVP_PAYLOAD_MPV = 32"
definition AVP_PAYLOAD_DYNAMIC_AAC :: byte where "AVP_PAYLOAD_DYNAMIC_AAC = 96"
definition AVP_PAYLOAD_DYNAMIC_H264 :: byte where "AVP_PAYLOAD_DYNAMIC_H264 = 97"

record broadcaster =
  video_packetizer :: "packetizer option"
  audio_packetizer :: "packetizer option"
  rtp_audio_seq_number :: "32 word"
  rtp_audio_payload :: "32 word"
  rtp_audio_sample_rate :: "32 word"
  rtp_video_seq_number :: "32 word"
  rtp_video_payload :: "32 word"
  rtp_video_clock_rate :: "32 word"
  dropped_frames :: "64 word"

definition Broadcaster_new :: broadcaster where
  "Broadcaster_new = \<lparr>video_packetizer = None, audio_packetizer = None,
     rtp_audio_seq_number = 0, rtp_audio_payload = 0, rtp_audio_sample_rate = 0,
     rtp_video_seq_number = 0, rtp_video_payload = 0, rtp_video_clock_rate = 0, dropped_frames = 0\<rparr>"

text \<open>
  \<open>audio\<close> and \<open>video\<close> are payload type and rate of the media that \<^verbatim>\<open>Sdp\<close> describes, the
  flags say whether MP3, AAC and H264 come in an FLV container.
\<close>

definition SetMediaInfo ::
    "(byte \<times> 32 word) option \<Rightarrow> (byte \<times> 32 word) option \<Rightarrow> bool \<Rightarrow> bool \<Rightarrow> bool \<Rightarrow> broadcaster \<Rightarrow> broadcaster option" where
  "SetMediaInfo audio video mp3_flv aac_flv h264_flv b = do {
     b1 \<leftarrow> (case audio of
         None \<Rightarrow> Some b
       | Some (payload, rate) \<Rightarrow>
           (if audio_packetizer b \<noteq> None then None
            else Some (b\<lparr>rtp_audio_payload := ucast payload, rtp_audio_sample_rate := rate,
              audio_packetizer := (if payload = AVP_PAYLOAD_MPA then Some (MP3 mp3_flv)
                else if payload = AVP_PAYLOAD_DYNAMIC_AAC then Some (MP4A aac_flv) else None)\<rparr>)));
     (case video of
         None \<Rightarrow> Some b1
       | Some (payload, rate) \<Rightarrow>
           (if video_packetizer b1 \<noteq> None then None
            else Some (b1\<lparr>rtp_video_payload := ucast payload, rtp_video_clock_rate := rate,
              video_packetizer := (if payload = AVP_PAYLOAD_MPV then Some H263
                else if payload = AVP_PAYLOAD_DYNAMIC_H264 then Some (H264 h264_flv) else None)\<rparr>))) }"

definition rtp_packet_header :: "bool \<Rightarrow> bool \<Rightarrow> 32 word \<Rightarrow> broadcaster \<Rightarrow> rtp_header" where
  "rtp_packet_header is_audio mark ts b =
     set_ssrc (if is_audio then 0xceafa03c else 0x52d8e95a)
       (set_timestamp ts
         (set_sequence_number (ucast (if is_audio then rtp_audio_seq_number b else rtp_video_seq_number b))
           (set_payload_type (ucast (if is_audio then rtp_audio_payload b else rtp_video_payload b))
             (set_payload_type_marker (if mark then 1 else 0)
               (set_flag_cssid 0 (set_flag_extension 0 (set_flag_padding 0 (set_flag_version 2 rtp_Header_new))))))))"

text \<open>The loop over the packets: number \<open>i\<close> of \<open>n\<close> is next.\<close>

fun send_packets ::
    "(nat \<Rightarrow> bool) \<Rightarrow> 32 word \<Rightarrow> bool \<Rightarrow> nat \<Rightarrow> nat \<Rightarrow> bytes list \<Rightarrow> broadcaster \<Rightarrow> (bool \<times> bytes list) \<times> broadcaster" where
  "send_packets sent ts is_audio i n [] b = ((True, []), b)"
| "send_packets sent ts is_audio i n (p # ps) b =
     (let mark = (is_audio \<or> i = n - 1);
          ms = rtp_Header_Encode (rtp_packet_header is_audio mark ts b) @ p;
          b1 = (if is_audio then b\<lparr>rtp_audio_seq_number := rtp_audio_seq_number b + 1\<rparr>
                else b\<lparr>rtp_video_seq_number := rtp_video_seq_number b + 1\<rparr>);
          ((success, out), b2) = send_packets sent ts is_audio (i + 1) n ps b1
      in ((sent i \<and> success, ms # out), b2))"

text \<open>The result, the packets sent and what is left of the frame's data.\<close>

definition RtpSend ::
    "(nat \<Rightarrow> bool) \<Rightarrow> bytes \<Rightarrow> 32 word \<Rightarrow> bool \<Rightarrow> broadcaster \<Rightarrow> ((bool \<times> bytes list \<times> bytes) \<times> broadcaster) option" where
  "RtpSend sent frame_data ts is_audio b =
     (case (if is_audio then audio_packetizer b else video_packetizer b) of
        None \<Rightarrow> Some ((True, [], frame_data), b\<lparr>dropped_frames := dropped_frames b + 1\<rparr>)
      | Some pk \<Rightarrow> do {
          ((ok, ps), rest) \<leftarrow> Packetize pk frame_data;
          (if \<not> ok then Some ((True, [], rest), b\<lparr>dropped_frames := dropped_frames b + 1\<rparr>)
           else
             let ((success, out), b') = send_packets sent ts is_audio 0 (length ps) ps b
             in Some ((success, out, rest), b')) })"

definition rtp_ticks :: "int \<Rightarrow> 32 word \<Rightarrow> 32 word" where
  "rtp_ticks timestamp_ms rate = ucast ((word_of_int timestamp_ms :: 64 word) * ucast rate div 1000)"

definition HandleFlvTag ::
    "(nat \<Rightarrow> bool) \<Rightarrow> flv_body \<Rightarrow> int \<Rightarrow> broadcaster \<Rightarrow> ((bool \<times> bytes list \<times> bytes) \<times> broadcaster) option" where
  "HandleFlvTag sent body timestamp_ms b = (case body of
     FlvAudio a \<Rightarrow> RtpSend sent (au_data a) (rtp_ticks timestamp_ms (rtp_audio_sample_rate b)) True b
   | FlvVideo v _ \<Rightarrow> RtpSend sent (vi_data v) (rtp_ticks timestamp_ms (rtp_video_clock_rate b)) False b
   | _ \<Rightarrow> Some ((True, [], []), b))"

text \<open>A frame of an F4V tag.\<close>

record f4v_frame =
  frame_type :: f4v_frame_type
  sample_index :: "64 word"
  composition_timestamp :: "64 word"
  frame_data :: bytes

definition HandleF4vTag ::
    "(nat \<Rightarrow> bool) \<Rightarrow> f4v_frame option \<Rightarrow> broadcaster \<Rightarrow> ((bool \<times> bytes list \<times> bytes) \<times> broadcaster) option" where
  "HandleF4vTag sent frame b = (case frame of
     None \<Rightarrow> Some ((True, [], []), b)
   | Some f \<Rightarrow>
       (if frame_type f = RAW_FRAME then Some ((True, [], frame_data f), b)
        else
          let is_audio = (frame_type f = AUDIO_FRAME);
              ts = (if is_audio then ucast (sample_index f)
                    else ucast (composition_timestamp f * ucast (rtp_video_clock_rate b div 1000)))
          in RtpSend sent (frame_data f) ts is_audio b))"

definition HandleMp3Tag ::
    "(nat \<Rightarrow> bool) \<Rightarrow> bytes \<Rightarrow> int \<Rightarrow> broadcaster \<Rightarrow> ((bool \<times> bytes list \<times> bytes) \<times> broadcaster) option" where
  "HandleMp3Tag sent data timestamp_ms b = RtpSend sent data (word_of_int timestamp_ms * 90) True b"

text \<open>
  The calls of the end-of-stream callback (with its argument), the packets and the state;
  \<open>f4v\<close> gives the frame of an F4V tag.
\<close>

definition HandleTag ::
    "('i media_tag \<Rightarrow> f4v_frame option) \<Rightarrow> (nat \<Rightarrow> bool) \<Rightarrow> 'i media_tag \<Rightarrow> int \<Rightarrow> broadcaster
       \<Rightarrow> ((bool list \<times> bytes list) \<times> broadcaster) option" where
  "HandleTag f4v sent tag timestamp_ms b = do {
     ((success, out, rest), b1) \<leftarrow> (case mt_data tag of
         FlvData _ _ body \<Rightarrow> HandleFlvTag sent body timestamp_ms b
       | FormatData F4v _ _ _ \<Rightarrow> HandleF4vTag sent (f4v tag) b
       | FormatData Mp3 _ _ (Some data) \<Rightarrow> HandleMp3Tag sent data timestamp_ms b
       | _ \<Rightarrow> Some ((True, [], []), b));
     Some (((if mt_type tag = TYPE_EOS then [False] else []) @ (if success then [] else [True]), out), b1) }"

section \<open>The packets of a frame\<close>

lemma packet_header:
  "rtp_Header_Encode (rtp_packet_header is_audio mark ts b)
     = [0x80, (if mark then 0x80 else 0) OR (ucast (if is_audio then rtp_audio_payload b else rtp_video_payload b) AND 0x7f)]
       @ WriteBE (ucast (if is_audio then rtp_audio_seq_number b else rtp_video_seq_number b) :: 16 word)
       @ WriteBE ts @ WriteBE (if is_audio then 0xceafa03c else 0x52d8e95a :: 32 word)"
  by (simp add: rtp_Header_Encode_def rtp_packet_header_def set_ssrc_def set_timestamp_def set_sequence_number_def
      set_payload_type_def set_payload_type_marker_def set_flag_cssid_def set_flag_extension_def set_flag_padding_def
      set_flag_version_def rtp_Header_new_def or.commute)

definition seq_of :: "bool \<Rightarrow> broadcaster \<Rightarrow> 32 word" where
  "seq_of is_audio b = (if is_audio then rtp_audio_seq_number b else rtp_video_seq_number b)"

definition advance :: "bool \<Rightarrow> nat \<Rightarrow> broadcaster \<Rightarrow> broadcaster" where
  "advance is_audio n b = (if is_audio then b\<lparr>rtp_audio_seq_number := rtp_audio_seq_number b + word_of_nat n\<rparr>
     else b\<lparr>rtp_video_seq_number := rtp_video_seq_number b + word_of_nat n\<rparr>)"

text \<open>Packet \<open>i\<close> of \<open>n\<close>.\<close>

definition rtp_packet :: "bool \<Rightarrow> 32 word \<Rightarrow> broadcaster \<Rightarrow> nat \<Rightarrow> nat \<Rightarrow> bytes \<Rightarrow> bytes" where
  "rtp_packet is_audio ts b n i p =
     [0x80, (if is_audio \<or> i = n - 1 then 0x80 else 0) OR (ucast (if is_audio then rtp_audio_payload b else rtp_video_payload b) AND 0x7f)]
       @ WriteBE (ucast (seq_of is_audio b + word_of_nat i) :: 16 word) @ WriteBE ts
       @ WriteBE (if is_audio then 0xceafa03c else 0x52d8e95a :: 32 word) @ p"

lemma send_packets_spec:
  "send_packets sent ts is_audio i n ps (advance is_audio i b)
     = ((\<forall>j < length ps. sent (i + j), map (\<lambda>j. rtp_packet is_audio ts b n (i + j) (ps ! j)) [0..<length ps]),
        advance is_audio (i + length ps) b)"
proof (induction ps arbitrary: i)
  case (Cons p ps)
  have b1: "(if is_audio then (advance is_audio i b)\<lparr>rtp_audio_seq_number := rtp_audio_seq_number (advance is_audio i b) + 1\<rparr>
      else (advance is_audio i b)\<lparr>rtp_video_seq_number := rtp_video_seq_number (advance is_audio i b) + 1\<rparr>)
    = advance is_audio (Suc i) b"
    by (simp add: advance_def add.commute add.left_commute)
  have p: "rtp_Header_Encode (rtp_packet_header is_audio (is_audio \<or> i = n - 1) ts (advance is_audio i b)) @ p
    = rtp_packet is_audio ts b n i p"
    unfolding packet_header rtp_packet_def by (simp add: advance_def seq_of_def)
  have all: "(\<forall>j < length (p # ps). sent (i + j)) \<longleftrightarrow> sent i \<and> (\<forall>j < length ps. sent (Suc i + j))"
    by (auto simp: less_Suc_eq_0_disj)
  have "map (\<lambda>j. rtp_packet is_audio ts b n (i + j) ((p # ps) ! j)) [0..<length (p # ps)]
    = rtp_packet is_audio ts b n i p # map (\<lambda>j. rtp_packet is_audio ts b n (Suc i + j) (ps ! j)) [0..<length ps]"
    by (rule nth_equalityI) (auto simp: nth_Cons' simp del: upt_Suc)
  then show ?case
    using Cons.IH[of "Suc i"] all by (simp add: Let_def b1 p[unfolded One_nat_def] del: upt_Suc)
qed simp

text \<open>
  C32. A frame is sent as its packets, each behind a header of version 2 with the payload type of
  the media, consecutive sequence numbers that go on after the frame, the time of the frame and
  the mark on every audio packet and the last video packet; no datagram is larger than the limit
  and the header, and sending succeeds when all of them were sent.
\<close>

theorem RtpSend_packets:
  assumes "(if is_audio then audio_packetizer b else video_packetizer b) = Some pk"
    and "Packetize pk frame = Some ((True, ps), rest)"
  shows "\<exists>out. RtpSend sent frame ts is_audio b
      = Some ((\<forall>i < length ps. sent i, out, rest), advance is_audio (length ps) b)
    \<and> length out = length ps
    \<and> (\<forall>i < length ps. out ! i = rtp_packet is_audio ts b (length ps) i (ps ! i) \<and> length (out ! i) \<le> 12 + kRtpMtu)"
proof -
  let ?out = "map (\<lambda>i. rtp_packet is_audio ts b (length ps) i (ps ! i)) [0..<length ps]"
  have "advance is_audio 0 b = b" by (simp add: advance_def)
  then have "send_packets sent ts is_audio 0 (length ps) ps b
    = ((\<forall>i < length ps. sent i, ?out), advance is_audio (length ps) b)"
    using send_packets_spec[of sent ts is_audio 0 "length ps" ps b] by simp
  then have "RtpSend sent frame ts is_audio b = Some ((\<forall>i < length ps. sent i, ?out, rest), advance is_audio (length ps) b)"
    using assms by (simp add: RtpSend_def)
  moreover have "\<forall>p \<in> set ps. length p \<le> kRtpMtu"
    using Packetize_limits_lemma[of pk frame] assms(2) by auto
  then have "length (?out ! i) \<le> 12 + kRtpMtu" if "i < length ps" for i
    using that by (simp add: rtp_packet_def)
  ultimately show ?thesis by (intro exI[of _ ?out]) simp
qed

theorem RtpSend_packets_witness:
  "\<exists>out b. RtpSend (\<lambda>_. True) [9, 1, 2] 77 True (Broadcaster_new\<lparr>audio_packetizer := Some (MP3 True), rtp_audio_payload := 14\<rparr>)
      = Some ((True, out, [9, 1, 2]), b) \<and> rtp_audio_seq_number b = 1"
proof -
  let ?b = "Broadcaster_new\<lparr>audio_packetizer := Some (MP3 True), rtp_audio_payload := 14\<rparr>"
  have "Packetize (MP3 True) [9, 1, 2] = Some ((True, [[0, 0, 0, 0, 1, 2]]), [9, 1, 2])"
  proof -
    have "min (length [1 :: byte, 2]) (kRtpMtu - 4) = 2" by (simp add: kRtpMtu_def)
    then have "split_loop (kRtpMtu - 4) mp3_header True [1, 2] = [[0, 0, 0, 0, 1, 2]]"
      by (simp add: mp3.cut_Cons mp3.cut_Nil mp3_header_def)
    then show ?thesis by (simp add: Packetize_def Mp3_Packetize_def)
  qed
  from RtpSend_packets[OF _ this, of True ?b "\<lambda>_. True" 77] show ?thesis
    by (auto simp: advance_def Broadcaster_new_def)
qed

end
