(* ===== verification/FileIo.thy ===== *)
theory FileIo
  imports Reader "HOL-Library.AList" "HOL-Library.List_Lexorder"
begin

text \<open>
  \<^verbatim>\<open>whisperlib/common/io/file/file.{h,cc}\<close> and the part of \<^verbatim>\<open>whisperlib/common/io/ioutil.cc\<close>
  that the logs use.  The operating system is a world with the regular files by their path and
  the results of the system calls to come: a negative number is an error, another one how
  many bytes a \<^verbatim>\<open>read\<close> or \<^verbatim>\<open>write\<close> moves at most; when the list is empty everything succeeds.
  Directories, links and permissions are not in the world, and nobody else changes it while
  an operation runs.
\<close>

section \<open>The system\<close>

record world =
  disk :: "(bytes \<times> bytes) list"
  results :: "int list"

definition next_result :: "world \<Rightarrow> int option \<times> world" where
  "next_result w = (case results w of [] \<Rightarrow> (None, w) | x # xs \<Rightarrow> (Some x, w\<lparr>results := xs\<rparr>))"

definition fails :: "int option \<Rightarrow> bool" where
  "fails r = (case r of None \<Rightarrow> False | Some x \<Rightarrow> x < 0)"

text \<open>How many of \<open>n\<close> bytes a call moves.\<close>

definition moved :: "int option \<Rightarrow> nat \<Rightarrow> nat" where
  "moved r n = (case r of None \<Rightarrow> n | Some x \<Rightarrow> min (nat x) n)"

definition file_content :: "bytes \<Rightarrow> world \<Rightarrow> bytes" where
  "file_content path w = (case map_of (disk w) path of None \<Rightarrow> [] | Some c \<Rightarrow> c)"

definition put_file :: "bytes \<Rightarrow> bytes \<Rightarrow> world \<Rightarrow> world" where
  "put_file path c w = w\<lparr>disk := AList.update path c (disk w)\<rparr>"

text \<open>\<open>data\<close> in place of what the content has from an offset on; a gap is zeroes.\<close>

definition splice :: "nat \<Rightarrow> bytes \<Rightarrow> bytes \<Rightarrow> bytes" where
  "splice off data c = take off c @ replicate (off - length c) 0 @ data @ drop (off + length data) c"

record open_flags =
  o_creat :: bool
  o_trunc :: bool
  o_excl :: bool

definition sys_open :: "bytes \<Rightarrow> open_flags \<Rightarrow> world \<Rightarrow> bool \<times> world" where
  "sys_open path fl w = (case next_result w of (r, w1) \<Rightarrow>
     if fails r then (False, w1)
     else case map_of (disk w1) path of
            None \<Rightarrow> if o_creat fl then (True, put_file path [] w1) else (False, w1)
          | Some c \<Rightarrow> if o_creat fl \<and> o_excl fl then (False, w1)
                      else (True, if o_trunc fl then put_file path [] w1 else w1))"

definition sys_write :: "bytes \<Rightarrow> nat \<Rightarrow> bytes \<Rightarrow> world \<Rightarrow> int \<times> world" where
  "sys_write path off data w = (case next_result w of (r, w1) \<Rightarrow>
     if fails r then (-1, w1)
     else let n = moved r (length data)
          in (int n, put_file path (splice off (take n data) (file_content path w1)) w1))"

definition sys_read :: "bytes \<Rightarrow> nat \<Rightarrow> nat \<Rightarrow> world \<Rightarrow> int \<times> bytes \<times> world" where
  "sys_read path off n w = (case next_result w of (r, w1) \<Rightarrow>
     if fails r then (-1, [], w1)
     else let data = take (moved r n) (drop off (file_content path w1))
          in (int (length data), data, w1))"

definition sys_ftruncate :: "bytes \<Rightarrow> nat \<Rightarrow> world \<Rightarrow> bool \<times> world" where
  "sys_ftruncate path n w = (case next_result w of (r, w1) \<Rightarrow>
     if fails r then (False, w1)
     else let c = file_content path w1
          in (True, put_file path (take n c @ replicate (n - length c) 0) w1))"

definition sys_unlink :: "bytes \<Rightarrow> world \<Rightarrow> bool \<times> world" where
  "sys_unlink path w = (case next_result w of (r, w1) \<Rightarrow>
     if fails r then (False, w1) else (True, w1\<lparr>disk := AList.delete path (disk w1)\<rparr>))"

definition sys_rename :: "bytes \<Rightarrow> bytes \<Rightarrow> world \<Rightarrow> bool \<times> world" where
  "sys_rename old new w = (case next_result w of (r, w1) \<Rightarrow>
     if fails r then (False, w1)
     else (True, (put_file new (file_content old w1) w1)
                   \<lparr>disk := AList.delete old (AList.update new (file_content old w1) (disk w1))\<rparr>))"

section \<open>The class File\<close>

datatype file_access = GENERIC_READ | GENERIC_WRITE | GENERIC_READ_WRITE

datatype creation_disposition = CREATE_ALWAYS | CREATE_NEW | OPEN_ALWAYS | OPEN_EXISTING | TRUNCATE_EXISTING

text \<open>
  \<open>fd\<close> is the open descriptor, which is the offset that the system keeps for it;
  \<open>file_size\<close> and \<open>file_position\<close> are the cached values.
\<close>

record io_file =
  filename :: bytes
  fd :: "nat option"
  file_size :: int
  file_position :: int

definition File_new :: io_file where
  "File_new = \<lparr>filename = [], fd = None, file_size = 0, file_position = 0\<rparr>"

definition is_open :: "io_file \<Rightarrow> bool" where
  "is_open f \<longleftrightarrow> fd f \<noteq> None"

definition creation_flags :: "creation_disposition \<Rightarrow> open_flags" where
  "creation_flags cd = (case cd of
     CREATE_ALWAYS \<Rightarrow> \<lparr>o_creat = True, o_trunc = True, o_excl = False\<rparr>
   | CREATE_NEW \<Rightarrow> \<lparr>o_creat = True, o_trunc = False, o_excl = True\<rparr>
   | OPEN_ALWAYS \<Rightarrow> \<lparr>o_creat = True, o_trunc = False, o_excl = False\<rparr>
   | OPEN_EXISTING \<Rightarrow> \<lparr>o_creat = False, o_trunc = False, o_excl = False\<rparr>
   | TRUNCATE_EXISTING \<Rightarrow> \<lparr>o_creat = False, o_trunc = True, o_excl = False\<rparr>)"

definition UpdateSize :: "world \<Rightarrow> io_file \<Rightarrow> io_file" where
  "UpdateSize w f = f\<lparr>file_size := int (length (file_content (filename f) w))\<rparr>"

definition UpdatePosition :: "io_file \<Rightarrow> io_file" where
  "UpdatePosition f = (case fd f of None \<Rightarrow> f | Some off \<Rightarrow> f\<lparr>file_position := int off\<rparr>)"

text \<open>\<open>None\<close> is a failed \<^verbatim>\<open>CHECK\<close>, here and below.\<close>

definition File_Open ::
    "bytes \<Rightarrow> creation_disposition \<Rightarrow> io_file \<Rightarrow> world \<Rightarrow> (bool \<times> io_file \<times> world) option" where
  "File_Open path cd f w =
     (if is_open f then None
      else case sys_open path (creation_flags cd) w of
             (False, w1) \<Rightarrow> Some (False, f, w1)
           | (True, w1) \<Rightarrow>
               Some (True, UpdatePosition (UpdateSize w1 (f\<lparr>filename := path, fd := Some 0\<rparr>)), w1))"

definition File_Close :: "io_file \<Rightarrow> io_file" where
  "File_Close f = (if is_open f then File_new else f)"

definition File_Size :: "io_file \<Rightarrow> int option" where
  "File_Size f = (if is_open f then Some (file_size f) else None)"

definition File_Position :: "io_file \<Rightarrow> int option" where
  "File_Position f = (if is_open f then Some (file_position f) else None)"

datatype move_method = FILE_SET | FILE_CUR | FILE_END

text \<open>The only error of \<^verbatim>\<open>lseek\<close> on a regular file is a negative offset.\<close>

definition File_SetPosition ::
    "int \<Rightarrow> move_method \<Rightarrow> world \<Rightarrow> io_file \<Rightarrow> (int \<times> io_file) option" where
  "File_SetPosition distance mm w f = (case fd f of
     None \<Rightarrow> None
   | Some off \<Rightarrow>
       let pos = distance + (case mm of FILE_SET \<Rightarrow> 0 | FILE_CUR \<Rightarrow> int off
                             | FILE_END \<Rightarrow> int (length (file_content (filename f) w)))
       in Some (if pos < 0 then (-1, f) else (pos, f\<lparr>fd := Some (nat pos), file_position := pos\<rparr>)))"

definition File_Truncate :: "int \<Rightarrow> io_file \<Rightarrow> world \<Rightarrow> (io_file \<times> world) option" where
  "File_Truncate pos f w = do {
     crt \<leftarrow> File_Position f;
     let p = (if pos = -1 then crt else pos);
     (if p < 0 then Some (f, snd (next_result w))
      else case sys_ftruncate (filename f) (nat p) w of
             (False, w1) \<Rightarrow> Some (f, w1)
           | (True, w1) \<Rightarrow> do {
               (_, f1) \<leftarrow> File_SetPosition 0 FILE_END w1 f;
               Some (UpdateSize w1 f1, w1) }) }"

definition File_Read_buffer :: "nat \<Rightarrow> io_file \<Rightarrow> world \<Rightarrow> (int \<times> bytes \<times> io_file \<times> world) option" where
  "File_Read_buffer len f w = (case fd f of
     None \<Rightarrow> None
   | Some off \<Rightarrow> (case sys_read (filename f) off len w of
       (cb, data, w1) \<Rightarrow>
         if cb < 0 then Some (cb, [], f, w1)
         else
           let f1 = f\<lparr>fd := Some (off + length data), file_position := file_position f + cb\<rparr>
           in Some (cb, data, if file_size f1 < file_position f1 then UpdateSize w1 f1 else f1, w1)))"

text \<open>The version that reads into a stream, in pieces of 512 bytes: what it returns and what it appends.\<close>

function File_Read_loop ::
    "int \<Rightarrow> int \<Rightarrow> io_file \<Rightarrow> world \<Rightarrow> (int \<times> bytes \<times> io_file \<times> world) option" where
  "File_Read_loop got len f w =
     (if got < len then
        (case File_Read_buffer (nat (min (len - got) 512)) f w of
           None \<Rightarrow> None
         | Some (r, data, f1, w1) \<Rightarrow>
             if r < 0 then Some (r, [], f1, w1)
             else if r = 0 then Some (got, [], f1, w1)
             else map_option (\<lambda>(cb, rest, e). (cb, data @ rest, e)) (File_Read_loop (got + r) len f1 w1))
      else Some (got, [], f, w))"
  by auto
termination
  by (relation "measure (\<lambda>(got, len, _). nat (len - got))") auto

declare File_Read_loop.simps [simp del]

definition File_Read :: "int \<Rightarrow> io_file \<Rightarrow> world \<Rightarrow> (int \<times> bytes \<times> io_file \<times> world) option" where
  "File_Read len f w = File_Read_loop 0 len f w"

definition File_Write_buffer :: "bytes \<Rightarrow> io_file \<Rightarrow> world \<Rightarrow> (int \<times> io_file \<times> world) option" where
  "File_Write_buffer data f w = (case fd f of
     None \<Rightarrow> None
   | Some off \<Rightarrow> (case sys_write (filename f) off data w of
       (cb, w1) \<Rightarrow>
         if cb < 0 then Some (cb, UpdatePosition f, w1)
         else
           let pos = file_position f + cb
           in Some (cb, f\<lparr>fd := Some (off + nat cb), file_position := pos, file_size := max (file_size f) pos\<rparr>, w1)))"

text \<open>
  The version that writes from a stream: what it returns and what is left of the stream.  A
  piece that is read from the stream and written in part is gone.
\<close>

function File_Write_loop ::
    "int \<Rightarrow> int \<Rightarrow> bytes \<Rightarrow> io_file \<Rightarrow> world \<Rightarrow> (int \<times> bytes \<times> io_file \<times> world) option" where
  "File_Write_loop written len ms f w =
     (if written < len \<and> ms \<noteq> [] then
        (let n = nat (min (len - written) 512)
         in case File_Write_buffer (take n ms) f w of
              None \<Rightarrow> None
            | Some (cb, f1, w1) \<Rightarrow>
                if cb < 0 then Some (cb, drop n ms, f1, w1)
                else if cb = 0 then Some (written, drop n ms, f1, w1)
                else File_Write_loop (written + cb) len (drop n ms) f1 w1)
      else Some (written, ms, f, w))"
  by auto
termination
  by (relation "measure (\<lambda>(_, _, ms, _). length ms)") auto

declare File_Write_loop.simps [simp del]

definition File_Write :: "bytes \<Rightarrow> int \<Rightarrow> io_file \<Rightarrow> world \<Rightarrow> (int \<times> bytes \<times> io_file \<times> world) option" where
  "File_Write ms len f w =
     (if is_open f then File_Write_loop 0 (if len = -1 then int (length ms) else len) ms f w else None)"

definition File_Flush :: "io_file \<Rightarrow> world \<Rightarrow> (io_file \<times> world) option" where
  "File_Flush f w =
     (if is_open f then (case next_result w of (r, w1) \<Rightarrow> if fails r then None else Some (f, w1)) else None)"

section \<open>Paths and directories\<close>

definition slash :: byte where "slash = 47"

definition JoinPaths :: "bytes \<Rightarrow> bytes \<Rightarrow> bytes" where
  "JoinPaths p q =
     (if p = [] then q
      else if q = [] then p
      else if last p = slash \<and> hd q = slash then p @ tl q
      else if last p = slash \<or> hd q = slash then p @ q
      else p @ [slash] @ q)"

definition IsReadableFile :: "bytes \<Rightarrow> world \<Rightarrow> bool" where
  "IsReadableFile path w \<longleftrightarrow> map_of (disk w) path \<noteq> None"

text \<open>\<^verbatim>\<open>DirList\<close> for the files of a directory whose names a regular expression matches.\<close>

definition dir_entries :: "bytes \<Rightarrow> world \<Rightarrow> bytes list" where
  "dir_entries dir w =
     [drop (length dir + 1) p. p \<leftarrow> remdups (map fst (disk w)), take (length dir + 1) p = dir @ [slash] \<and>
        drop (length dir + 1) p \<noteq> [] \<and> slash \<notin> set (drop (length dir + 1) p)]"

definition DirList_files :: "bytes \<Rightarrow> (bytes \<Rightarrow> bool) \<Rightarrow> world \<Rightarrow> bytes list option \<times> world" where
  "DirList_files dir matches w = (case next_result w of (r, w1) \<Rightarrow>
     if fails r then (None, w1) else (Some (filter matches (dir_entries dir w1)), w1))"

text \<open>Rm and Rename of files.\<close>

definition Rm :: "bytes \<Rightarrow> world \<Rightarrow> bool \<times> world" where
  "Rm path w = (if IsReadableFile path w then sys_unlink path w else (True, w))"

definition Rename :: "bytes \<Rightarrow> bytes \<Rightarrow> bool \<Rightarrow> world \<Rightarrow> bool \<times> world" where
  "Rename old new overwrite w =
     (if \<not> IsReadableFile old w then (False, w)
      else if IsReadableFile new w \<and> \<not> overwrite then (False, w)
      else sys_rename old new w)"

text \<open>\<^verbatim>\<open>Mkdir\<close> of one directory that may exist already.\<close>

definition Mkdir :: "world \<Rightarrow> bool \<times> world" where
  "Mkdir w = (case next_result w of (r, w1) \<Rightarrow> (\<not> fails r, w1))"

section \<open>Numbers in text\<close>

definition is_digit :: "byte \<Rightarrow> bool" where
  "is_digit b \<longleftrightarrow> 48 \<le> b \<and> b \<le> 57"

definition digit_char :: "nat \<Rightarrow> byte" where
  "digit_char d = word_of_nat (48 + d)"

text \<open>The last \<open>k\<close> decimal digits, as \<^verbatim>\<open>%0kd\<close> prints a number that has no more.\<close>

fun digits :: "nat \<Rightarrow> nat \<Rightarrow> bytes" where
  "digits 0 n = []"
| "digits (Suc k) n = digits k (n div 10) @ [digit_char (n mod 10)]"

fun decimal :: "nat \<Rightarrow> bytes" where
  "decimal n = (if n < 10 then [] else decimal (n div 10)) @ [digit_char (n mod 10)]"

declare decimal.simps [simp del]

definition digits_value :: "bytes \<Rightarrow> nat" where
  "digits_value = foldl (\<lambda>v d. 10 * v + (unat d - 48)) 0"

definition is_space :: "byte \<Rightarrow> bool" where
  "is_space b \<longleftrightarrow> b = 32 \<or> 9 \<le> b \<and> b \<le> 13"

text \<open>\<^verbatim>\<open>strtol\<close> in base 10 on 64 bits, and its result in an \<^verbatim>\<open>int32\<close>, which is \<^verbatim>\<open>atoi\<close> too.\<close>

definition strtol :: "bytes \<Rightarrow> int" where
  "strtol s =
     (let t = dropWhile is_space s;
          neg = (t \<noteq> [] \<and> hd t = 45);
          u = (if t \<noteq> [] \<and> (hd t = 45 \<or> hd t = 43) then tl t else t);
          v = int (digits_value (takeWhile is_digit u))
      in if neg then max (- v) (- (2 ^ 63)) else min v (2 ^ 63 - 1))"

definition parse_int32 :: "bytes \<Rightarrow> int" where
  "parse_int32 s = sint (word_of_int (strtol s) :: 32 word)"

definition GetLastNumberedFile :: "bytes \<Rightarrow> (bytes \<Rightarrow> bool) \<Rightarrow> nat \<Rightarrow> world \<Rightarrow> (int \<times> world) option" where
  "GetLastNumberedFile dir matches n_digits w = (case DirList_files dir matches w of
     (None, w1) \<Rightarrow> Some (-2, w1)
   | (Some files, w1) \<Rightarrow>
       if files = [] then Some (-1, w1)
       else
         let name = last (sort files)
         in if length name \<le> 10 then None
            else let n = parse_int32 (drop (length name - n_digits) name)
                 in Some (if n < 0 then -2 else n, w1))"

end
