(* ===== verification/LogIo.thy ===== *)
theory LogIo
  imports RecordIo FileIo
begin

text \<open>
  \<^verbatim>\<open>whisperlib/common/io/logio/logio.{h,cc}\<close>: a log is a sequence of numbered files of blocks of
  records.  \<open>LogWriter\<close> appends to the last file and goes on in the next one when a file has
  all its blocks; \<open>LogReader\<close> reads the records of all files and can go to a position.  The
  base name of a log has no character that is special in a regular expression.  \<open>None\<close> is a
  failed \<^verbatim>\<open>CHECK\<close>; of the two loops that go through files, it is also a loop that does not end.
\<close>

section \<open>Names and positions\<close>

definition underscore :: byte where "underscore = 95"

definition log_name_prefix :: "bytes \<Rightarrow> int \<Rightarrow> bytes" where
  "log_name_prefix base block_size = base @ [underscore] @ digits 10 (nat block_size) @ [underscore]"

definition log_file_name :: "bytes \<Rightarrow> bytes \<Rightarrow> int \<Rightarrow> int \<Rightarrow> bytes" where
  "log_file_name dir base block_size file_num =
     dir @ [slash] @ log_name_prefix base block_size @ digits 10 (nat file_num)"

text \<open>The expression that matches the names of the files of a log.\<close>

definition log_re :: "bytes \<Rightarrow> int \<Rightarrow> bytes \<Rightarrow> bool" where
  "log_re base block_size name \<longleftrightarrow>
     (let p = log_name_prefix base block_size
      in take (length p) name = p \<and> length name = length p + 10 \<and> list_all is_digit (drop (length p) name))"

record log_pos =
  file_num :: int
  block_num :: int
  record_num :: int

definition LogPos_IsNull :: "log_pos \<Rightarrow> bool" where
  "LogPos_IsNull p \<longleftrightarrow> file_num p = -1"

section \<open>Writer\<close>

record log_writer =
  lw_dir :: bytes
  lw_base :: bytes
  lw_block_size :: int
  lw_blocks_per_file :: int
  lw_temporary :: bool
  lw_file_num :: int
  lw_file :: io_file
  lw_buf :: bytes
  lw_recorder :: record_writer

definition LogWriter_new :: "bytes \<Rightarrow> bytes \<Rightarrow> int \<Rightarrow> int \<Rightarrow> bool \<Rightarrow> bool \<Rightarrow> int \<Rightarrow> log_writer option" where
  "LogWriter_new dir base block_size blocks_per_file temporary deflate dumpable =
     map_option (\<lambda>r. \<lparr>lw_dir = dir, lw_base = base, lw_block_size = block_size,
         lw_blocks_per_file = blocks_per_file, lw_temporary = temporary, lw_file_num = -1,
         lw_file = File_new, lw_buf = [], lw_recorder = r\<rparr>)
       (RecordWriter_new block_size deflate dumpable)"

definition temp_dir :: "log_writer \<Rightarrow> bytes" where
  "temp_dir lw = JoinPaths (lw_dir lw) (bytes_of ''temp'')"

definition lock_name :: "log_writer \<Rightarrow> bytes" where
  "lock_name lw = JoinPaths (lw_dir lw) (lw_base lw @ bytes_of ''.lock'')"

definition LogWriter_ComposeFileName :: "bool \<Rightarrow> log_writer \<Rightarrow> bytes option" where
  "LogWriter_ComposeFileName temp lw =
     (if lw_file_num lw < 0 then None
      else Some (log_file_name (if temp then temp_dir lw else lw_dir lw) (lw_base lw) (lw_block_size lw) (lw_file_num lw)))"

definition CloseLog :: "log_writer \<Rightarrow> world \<Rightarrow> (log_writer \<times> world) option" where
  "CloseLog lw w =
     (if \<not> is_open (lw_file lw) then Some (lw, w)
      else
        let name = filename (lw_file lw); lw1 = lw\<lparr>lw_file := File_Close (lw_file lw)\<rparr>
        in if lw_temporary lw1 then
             (case LogWriter_ComposeFileName False lw1 of
                None \<Rightarrow> None
              | Some final \<Rightarrow> Some (lw1, if final \<noteq> name then snd (Rename name final False w) else w))
           else Some (lw1, w))"

text \<open>One call of \<^verbatim>\<open>OpenNextLog\<close>: its result, or \<open>None\<close> when it calls itself.\<close>

definition open_next_step :: "log_writer \<Rightarrow> world \<Rightarrow> (bool option \<times> log_writer \<times> world) option" where
  "open_next_step lw w =
     (if lw_file_num lw < 0 then None
      else do {
        (lw1, w1) \<leftarrow> (if is_open (lw_file lw)
                      then map_option (\<lambda>(l, v). (l\<lparr>lw_file_num := lw_file_num l + 1\<rparr>, v)) (CloseLog lw w)
                      else Some (lw, w));
        name \<leftarrow> LogWriter_ComposeFileName (lw_temporary lw1) lw1;
        (ok, f, w2) \<leftarrow> File_Open name OPEN_ALWAYS (lw_file lw1) w1;
        (if \<not> ok then Some (Some False, lw1\<lparr>lw_file := f\<rparr>, w2)
         else do {
           size \<leftarrow> File_Size f;
           (f1, w3) \<leftarrow> (if size mod lw_block_size lw1 \<noteq> 0
                         then File_Truncate (size div lw_block_size lw1 * lw_block_size lw1) f w2
                         else Some (f, w2));
           size1 \<leftarrow> File_Size f1;
           (if size1 mod lw_block_size lw1 \<noteq> 0 then None
            else do {
              (pos, f2) \<leftarrow> File_SetPosition 0 FILE_END w3 f1;
              let lw2 = lw1\<lparr>lw_file := f2\<rparr>;
              (if pos = -1 then Some (Some False, lw2, w3)
               else do {
                 p \<leftarrow> File_Position f2;
                 Some (if p = lw_block_size lw2 * lw_blocks_per_file lw2 then None else Some True, lw2, w3) }) }) }) })"

partial_function (option) OpenNextLog :: "log_writer \<Rightarrow> world \<Rightarrow> (bool \<times> log_writer \<times> world) option" where
  "OpenNextLog lw w = (case open_next_step lw w of
     None \<Rightarrow> None
   | Some (r, lw1, w1) \<Rightarrow> (case r of None \<Rightarrow> OpenNextLog lw1 w1 | Some ok \<Rightarrow> Some (ok, lw1, w1)))"

text \<open>One turn of the loop of \<^verbatim>\<open>WriteBuffer\<close>: \<open>None\<close> when it goes on.\<close>

definition write_buffer_step :: "log_writer \<Rightarrow> world \<Rightarrow> (bool option \<times> log_writer \<times> world) option" where
  "write_buffer_step lw w = do {
     pos \<leftarrow> File_Position (lw_file lw);
     let limit = lw_block_size lw * lw_blocks_per_file lw;
     (if lw_buf lw = [] then Some (Some True, lw, w)
      else if pos mod lw_block_size lw \<noteq> 0 \<or> pos > limit then Some (Some False, lw, w)
      else if \<not> pos < limit \<or> int (length (lw_buf lw)) mod lw_block_size lw \<noteq> 0 then None
      else do {
        let to_write = min (limit - pos) (int (length (lw_buf lw)));
        (cb, rest, f1, w1) \<leftarrow> File_Write (lw_buf lw) to_write (lw_file lw) w;
        (if cb < 0 then Some (Some False, lw\<lparr>lw_file := f1\<rparr>, w1)
         else if cb \<noteq> to_write then
           map_option (\<lambda>(f2, w2). (Some False, lw\<lparr>lw_file := f2\<rparr>, w2)) (File_Truncate pos f1 w1)
         else do {
           let lw1 = lw\<lparr>lw_file := f1, lw_buf := rest\<rparr>;
           p \<leftarrow> File_Position f1;
           (if p = limit then
              map_option (\<lambda>(ok, lw2, w2). (if ok then None else Some False, lw2, w2)) (OpenNextLog lw1 w1)
            else Some (None, lw1, w1)) }) }) }"

partial_function (option) write_buffer_loop :: "log_writer \<Rightarrow> world \<Rightarrow> (bool \<times> log_writer \<times> world) option" where
  "write_buffer_loop lw w = (case write_buffer_step lw w of
     None \<Rightarrow> None
   | Some (r, lw1, w1) \<Rightarrow> (case r of None \<Rightarrow> write_buffer_loop lw1 w1 | Some ok \<Rightarrow> Some (ok, lw1, w1)))"

definition WriteBuffer :: "bool \<Rightarrow> log_writer \<Rightarrow> world \<Rightarrow> (bool \<times> log_writer \<times> world) option" where
  "WriteBuffer force_flush lw w = do {
     (ok, lw1, w1) \<leftarrow> write_buffer_loop lw w;
     (if ok \<and> force_flush then do {
        (f, w2) \<leftarrow> File_Flush (lw_file lw1) w1;
        Some (True, lw1\<lparr>lw_file := f\<rparr>, w2) }
      else Some (ok, lw1, w1)) }"

text \<open>Both versions of \<^verbatim>\<open>WriteRecord\<close>; \<open>(True, x)\<close> is the one with a buffer.\<close>

definition append_record ::
    "(bytes \<Rightarrow> 32 word) \<Rightarrow> (bytes \<Rightarrow> bytes option) \<Rightarrow> bool \<times> bytes \<Rightarrow> log_writer \<Rightarrow> (bool \<times> log_writer) option" where
  "append_record crc32 deflate x lw =
     map_option (\<lambda>((ready, out), r). (ready, lw\<lparr>lw_buf := lw_buf lw @ out, lw_recorder := r\<rparr>))
       (if fst x then AppendRecord_buffer crc32 deflate (snd x) (lw_recorder lw)
        else AppendRecord crc32 deflate (snd x) (lw_recorder lw))"

definition WriteRecord ::
    "(bytes \<Rightarrow> 32 word) \<Rightarrow> (bytes \<Rightarrow> bytes option) \<Rightarrow> bool \<times> bytes \<Rightarrow> log_writer \<Rightarrow> world
       \<Rightarrow> (bool \<times> log_writer \<times> world) option" where
  "WriteRecord crc32 deflate x lw w = do {
     (ok, lw1, w1) \<leftarrow> (if is_open (lw_file lw) then Some (True, lw, w) else OpenNextLog lw w);
     (if \<not> ok then Some (False, lw1, w1)
      else do {
        (ready, lw2) \<leftarrow> append_record crc32 deflate x lw1;
        (if ready then WriteBuffer False lw2 w1 else Some (True, lw2, w1)) }) }"

definition finalize_recorder :: "(bytes \<Rightarrow> 32 word) \<Rightarrow> log_writer \<Rightarrow> log_writer option" where
  "finalize_recorder crc32 lw =
     map_option (\<lambda>(out, r). lw\<lparr>lw_buf := lw_buf lw @ out, lw_recorder := r\<rparr>)
       (FinalizeContent crc32 (lw_recorder lw))"

definition Flush :: "(bytes \<Rightarrow> 32 word) \<Rightarrow> log_writer \<Rightarrow> world \<Rightarrow> (bool \<times> log_writer \<times> world) option" where
  "Flush crc32 lw w = do {
     lw1 \<leftarrow> finalize_recorder crc32 lw;
     (if lw_buf lw1 = [] then Some (True, lw1, w) else WriteBuffer True lw1 w) }"

definition LogWriter_Tell :: "log_writer \<Rightarrow> log_pos option" where
  "LogWriter_Tell lw = do {
     pos \<leftarrow> File_Position (lw_file lw);
     (if pos mod lw_block_size lw \<noteq> 0 then None
      else Some (if pos = lw_blocks_per_file lw * lw_block_size lw
                 then \<lparr>file_num = lw_file_num lw + 1, block_num = 0, record_num = PendingRecordCount (lw_recorder lw)\<rparr>
                 else \<lparr>file_num = lw_file_num lw, block_num = pos div lw_block_size lw,
                       record_num = PendingRecordCount (lw_recorder lw)\<rparr>)) }"

definition LogWriter_Close :: "(bytes \<Rightarrow> 32 word) \<Rightarrow> log_writer \<Rightarrow> world \<Rightarrow> (log_writer \<times> world) option" where
  "LogWriter_Close crc32 lw w =
     (if \<not> is_open (lw_file lw) then Some (lw, w)
      else do {
        lw1 \<leftarrow> finalize_recorder crc32 lw;
        (_, lw2, w1) \<leftarrow> WriteBuffer False lw1 w;
        (lw3, w2) \<leftarrow> CloseLog lw2 w1;
        Some (lw3, snd (Rm (lock_name lw3) w2)) })"

definition LogWriter_destroy :: "(bytes \<Rightarrow> 32 word) \<Rightarrow> log_writer \<Rightarrow> world \<Rightarrow> world option" where
  "LogWriter_destroy crc32 lw w = do {
     (lw1, w1) \<leftarrow> LogWriter_Close crc32 lw w;
     (if lw_buf lw1 = [] \<and> leftover (lw_recorder lw1) = 0 then Some w1 else None) }"

text \<open>The name of the file by which a process is seen to run, and the text of a process id.\<close>

definition int_text :: "int \<Rightarrow> bytes" where
  "int_text n = (if n < 0 then 45 # decimal (nat (- n)) else decimal (nat n))"

definition proc_name :: "int \<Rightarrow> bytes" where
  "proc_name p = bytes_of ''/proc/'' @ int_text p @ bytes_of ''/cmdline''"

text \<open>The lock of the log: \<open>pid\<close> is the id of this process.\<close>

definition take_lock :: "int \<Rightarrow> log_writer \<Rightarrow> world \<Rightarrow> (bool \<times> world) option" where
  "take_lock pid lw w = do {
     (ok, f, w1) \<leftarrow> File_Open (lock_name lw) OPEN_ALWAYS File_new w;
     (if \<not> ok then Some (False, w1)
      else do {
        (_, tmp, f1, w2) \<leftarrow> File_Read_buffer 63 f w1;
        let owner = parse_int32 tmp;
        (if owner \<noteq> 0 \<and> IsReadableFile (proc_name owner) w2 then Some (False, w2)
         else do {
           (_, f2) \<leftarrow> File_SetPosition 0 FILE_SET w2 f1;
           (_, f3, w3) \<leftarrow> File_Write_buffer (int_text pid) f2 w2;
           (_, w4) \<leftarrow> File_Truncate (-1) f3 w3;
           Some (True, w4) }) }) }"

definition Initialize :: "int \<Rightarrow> log_writer \<Rightarrow> world \<Rightarrow> (bool \<times> log_writer \<times> world) option" where
  "Initialize pid lw w = do {
     (locked, w1) \<leftarrow> take_lock pid lw w;
     (if \<not> locked then Some (False, lw, w1)
      else do {
        (n, w2) \<leftarrow> GetLastNumberedFile (lw_dir lw) (log_re (lw_base lw) (lw_block_size lw)) 10 w1;
        (if n = -2 then Some (False, lw\<lparr>lw_file_num := n\<rparr>, w2)
         else do {
           let lw1 = lw\<lparr>lw_file_num := (if n = -1 then 0 else n)\<rparr>;
           let (made, w3) = (if lw_temporary lw1 then Mkdir w2 else (True, w2));
           (if \<not> made then Some (False, lw1, w3) else OpenNextLog lw1 w3) }) }) }"

section \<open>Reader\<close>

record log_reader =
  lr_dir :: bytes
  lr_base :: bytes
  lr_block_size :: int
  lr_blocks_per_file :: int
  lr_file :: io_file
  lr_file_num :: int
  lr_record_num :: int
  lr_reader :: record_reader
  num_errors :: "32 word"
  lr_buf :: bytes

definition LogReader_new :: "bytes \<Rightarrow> bytes \<Rightarrow> int \<Rightarrow> int \<Rightarrow> log_reader" where
  "LogReader_new dir base block_size blocks_per_file =
     \<lparr>lr_dir = dir, lr_base = base, lr_block_size = block_size, lr_blocks_per_file = blocks_per_file,
      lr_file = File_new, lr_file_num = -1, lr_record_num = 0, lr_reader = RecordReader_new block_size,
      num_errors = 0, lr_buf = []\<rparr>"

definition LogReader_Tell :: "log_reader \<Rightarrow> log_pos option" where
  "LogReader_Tell lr =
     (let f = lr_file lr; B = lr_block_size lr
      in if is_open f \<and> file_position f > 0 then
           (if file_position f mod B \<noteq> 0 then None
            else Some \<lparr>file_num = lr_file_num lr,
                       block_num = file_position f div B - (if lr_record_num lr = 0 then 0 else 1),
                       record_num = lr_record_num lr\<rparr>)
         else Some \<lparr>file_num = lr_file_num lr, block_num = 0, record_num = lr_record_num lr\<rparr>)"

definition CloseInternal :: "bool \<Rightarrow> log_reader \<Rightarrow> log_reader" where
  "CloseInternal on_error lr = lr\<lparr>lr_file := File_Close (lr_file lr), lr_file_num := -1, lr_record_num := 0,
     num_errors := num_errors lr + (if on_error then 1 else 0),
     lr_reader := RecordReader_Clear (lr_reader lr), lr_buf := []\<rparr>"

definition Rewind :: "log_reader \<Rightarrow> world \<Rightarrow> (log_reader \<times> world) option" where
  "Rewind lr w =
     (let lr1 = CloseInternal False lr
      in case DirList_files (lr_dir lr) (log_re (lr_base lr) (lr_block_size lr)) w of
           (None, w1) \<Rightarrow> Some (lr1, w1)
         | (Some files, w1) \<Rightarrow>
             if files = [] then Some (lr1, w1)
             else
               let name = hd (sort files); n = parse_int32 (drop (length name - 10) name)
               in if length name \<le> 10 \<or> n < 0 then None else Some (lr1\<lparr>lr_file_num := n\<rparr>, w1))"

definition OpenFile :: "int \<Rightarrow> log_reader \<Rightarrow> world \<Rightarrow> (bool \<times> log_reader \<times> world) option" where
  "OpenFile num lr w =
     (let lr1 = (CloseInternal False lr)\<lparr>lr_file_num := num\<rparr>
      in if num < 0 then None
         else
           let name = log_file_name (lr_dir lr) (lr_base lr) (lr_block_size lr) num
           in if \<not> IsReadableFile name w then Some (False, lr1, w)
              else do {
                (ok, f, w1) \<leftarrow> File_Open name OPEN_EXISTING (lr_file lr1) w;
                (if ok \<and> file_position f \<noteq> 0 then None else Some (ok, lr1\<lparr>lr_file := f\<rparr>, w1)) })"

definition ReadBlock :: "log_reader \<Rightarrow> world \<Rightarrow> (bool \<times> log_reader \<times> world) option" where
  "ReadBlock lr w = do {
     pos \<leftarrow> File_Position (lr_file lr);
     (ok, lr1, w1) \<leftarrow> (if pos = lr_block_size lr * lr_blocks_per_file lr
                        then OpenFile (lr_file_num lr + 1) lr w else Some (True, lr, w));
     (if \<not> ok then Some (False, lr1, w1)
      else if lr_buf lr1 \<noteq> [] then None
      else do {
        file_pos \<leftarrow> File_Position (lr_file lr1);
        (cb, data, f, w2) \<leftarrow> File_Read (lr_block_size lr1) (lr_file lr1) w1;
        (if cb < lr_block_size lr1 then do {
           (_, f1) \<leftarrow> File_SetPosition file_pos FILE_SET w2 f;
           Some (False, lr1\<lparr>lr_file := f1, lr_buf := []\<rparr>, w2) }
         else if int (length data) \<noteq> lr_block_size lr1 then None
         else Some (True, lr1\<lparr>lr_file := f, lr_buf := data\<rparr>, w2)) }) }"

text \<open>One turn of the loop of \<^verbatim>\<open>GetNextRecord\<close>: the result with what is added to the output, or \<open>None\<close>.\<close>

definition next_record_step ::
    "(bytes \<Rightarrow> 32 word) \<Rightarrow> (bytes \<Rightarrow> bytes \<times> bool) \<Rightarrow> bool \<Rightarrow> log_reader \<Rightarrow> world
       \<Rightarrow> ((bool \<times> bytes) option \<times> log_reader \<times> world) option" where
  "next_record_step crc32 inflate wanted lr w = do {
     ((res, out), buf, r) \<leftarrow> ReadRecord crc32 inflate wanted (lr_buf lr) (lr_reader lr);
     let lr1 = lr\<lparr>lr_buf := buf, lr_reader := r\<rparr>;
     (if res = RECORD_NO_DATA then do {
        (ok, lr2, w1) \<leftarrow> ReadBlock (lr1\<lparr>lr_record_num := 0\<rparr>) w;
        Some (if ok then None else Some (False, out), lr2, w1) }
      else if res \<noteq> RECORD_OK then do {
        _ \<leftarrow> LogReader_Tell lr1;
        Some (Some (True, out), lr1\<lparr>num_errors := num_errors lr1 + 1, lr_record_num := lr_record_num lr1 + 1\<rparr>, w) }
      else Some (Some (True, out), lr1\<lparr>lr_record_num := lr_record_num lr1 + 1\<rparr>, w)) }"

partial_function (option) next_record_loop ::
    "(bytes \<Rightarrow> 32 word) \<Rightarrow> (bytes \<Rightarrow> bytes \<times> bool) \<Rightarrow> bool \<Rightarrow> log_reader \<Rightarrow> world
       \<Rightarrow> ((bool \<times> bytes) \<times> log_reader \<times> world) option" where
  "next_record_loop crc32 inflate wanted lr w = (case next_record_step crc32 inflate wanted lr w of
     None \<Rightarrow> None
   | Some (res, lr1, w1) \<Rightarrow> (case res of
       None \<Rightarrow> next_record_loop crc32 inflate wanted lr1 w1
     | Some x \<Rightarrow> Some (x, lr1, w1)))"

definition GetNextRecord ::
    "(bytes \<Rightarrow> 32 word) \<Rightarrow> (bytes \<Rightarrow> bytes \<times> bool) \<Rightarrow> bool \<Rightarrow> log_reader \<Rightarrow> world
       \<Rightarrow> ((bool \<times> bytes) \<times> log_reader \<times> world) option" where
  "GetNextRecord crc32 inflate wanted lr w = do {
     (lr1, w1) \<leftarrow> (if lr_file_num lr = -1 then Rewind lr w else Some (lr, w));
     (if lr_file_num lr1 = -1 then Some ((False, []), lr1, w1)
      else do {
        (ok, lr2, w2) \<leftarrow> (if is_open (lr_file lr1) then Some (True, lr1, w1)
                            else OpenFile (lr_file_num lr1) lr1 w1);
        (if \<not> ok then Some ((False, []), lr2, w2) else next_record_loop crc32 inflate wanted lr2 w2) }) }"

fun skip_log_records ::
    "(bytes \<Rightarrow> 32 word) \<Rightarrow> (bytes \<Rightarrow> bytes \<times> bool) \<Rightarrow> nat \<Rightarrow> log_reader \<Rightarrow> (bool \<times> log_reader) option" where
  "skip_log_records crc32 inflate 0 lr = Some (True, lr)"
| "skip_log_records crc32 inflate (Suc n) lr = do {
     ((res, _), buf, r) \<leftarrow> ReadRecord crc32 inflate False (lr_buf lr) (lr_reader lr);
     let lr1 = lr\<lparr>lr_buf := buf, lr_reader := r\<rparr>;
     (if res \<noteq> RECORD_OK then Some (False, lr1)
      else skip_log_records crc32 inflate n (lr1\<lparr>lr_record_num := lr_record_num lr1 + 1\<rparr>)) }"

definition AdvanceToPosInFile ::
    "(bytes \<Rightarrow> 32 word) \<Rightarrow> (bytes \<Rightarrow> bytes \<times> bool) \<Rightarrow> log_pos \<Rightarrow> log_reader \<Rightarrow> world
       \<Rightarrow> (bool \<times> log_reader \<times> world) option" where
  "AdvanceToPosInFile crc32 inflate pos lr w =
     (if \<not> is_open (lr_file lr) \<or> lr_file_num lr \<noteq> file_num pos then None
      else do {
        let lr1 = lr\<lparr>lr_reader := RecordReader_Clear (lr_reader lr), lr_buf := []\<rparr>;
        (p, f) \<leftarrow> File_SetPosition (block_num pos * lr_block_size lr) FILE_SET w (lr_file lr1);
        let lr2 = lr1\<lparr>lr_file := f\<rparr>;
        (if p = -1 then Some (False, lr2, w)
         else if record_num pos = 0 then Some (True, lr2, w)
         else do {
           (ok, lr3, w1) \<leftarrow> ReadBlock lr2 w;
           (if \<not> ok then Some (False, lr3, w1)
            else if int (length (lr_buf lr3)) \<noteq> lr_block_size lr3 then None
            else map_option (\<lambda>(ok1, lr4). (ok1, lr4, w1))
                   (skip_log_records crc32 inflate (nat (record_num pos)) (lr3\<lparr>lr_record_num := 0\<rparr>))) }) })"

definition Seek ::
    "(bytes \<Rightarrow> 32 word) \<Rightarrow> (bytes \<Rightarrow> bytes \<times> bool) \<Rightarrow> log_pos \<Rightarrow> log_reader \<Rightarrow> world
       \<Rightarrow> (bool \<times> log_reader \<times> world) option" where
  "Seek crc32 inflate pos lr w =
     (if LogPos_IsNull pos then map_option (\<lambda>(lr1, w1). (True, lr1, w1)) (Rewind lr w)
      else if block_num pos = 0 \<and> record_num pos = 0 \<and> file_num pos > 0
        \<and> IsReadableFile (log_file_name (lr_dir lr) (lr_base lr) (lr_block_size lr) (file_num pos - 1)) w
      then Some (True, lr\<lparr>lr_file_num := file_num pos, lr_record_num := 0\<rparr>, w)
      else do {
        (ok, lr1, w1) \<leftarrow> OpenFile (file_num pos) lr w;
        (if \<not> ok then Some (False, lr1, w1) else AdvanceToPosInFile crc32 inflate pos lr1 w1) })"

section \<open>Cleaning\<close>

fun clean_loop :: "(int \<Rightarrow> bytes) \<Rightarrow> int \<Rightarrow> bytes list \<Rightarrow> nat \<Rightarrow> world \<Rightarrow> (nat \<times> world) option" where
  "clean_loop name_of first [] n w = Some (n, w)"
| "clean_loop name_of first (name # names) n w =
     (if length name \<le> 10 then None
      else
        let num = parse_int32 (drop (length name - 10) name)
        in if num < 0 then clean_loop name_of first names n w
           else if num \<ge> first then Some (n, w)
           else case Rm (name_of num) w of
                  (ok, w1) \<Rightarrow> clean_loop name_of first names (if ok then Suc n else n) w1)"

definition CleanLog :: "bytes \<Rightarrow> bytes \<Rightarrow> log_pos \<Rightarrow> int \<Rightarrow> world \<Rightarrow> (nat \<times> world) option" where
  "CleanLog dir base first_pos block_size w = (case DirList_files dir (log_re base block_size) w of
     (None, w1) \<Rightarrow> Some (0, w1)
   | (Some files, w1) \<Rightarrow> clean_loop (log_file_name dir base block_size) (file_num first_pos) (sort files) 0 w1)"

end
