(* ===== verification/FileLaws.thy ===== *)
theory FileLaws
  imports FileIo
begin

text \<open>
  The operations on files when every system call succeeds, and the names of numbered files:
  printed with a fixed number of digits they are read back and sort as their numbers do.
\<close>

section \<open>Files without errors\<close>

lemma next_result_none [simp]: "results w = [] \<Longrightarrow> next_result w = (None, w)"
  by (simp add: next_result_def)

lemma no_failure [simp]: "\<not> fails None" "moved None n = n"
  by (simp_all add: fails_def moved_def)

lemma put_file_simps [simp]:
  "results (put_file p c w) = results w" "file_content p (put_file p c w) = c"
  "p \<noteq> q \<Longrightarrow> file_content q (put_file p c w) = file_content q w"
  "put_file p c (put_file p c' w) = put_file p c w"
  by (simp_all add: put_file_def file_content_def update_conv')

lemma map_of_put_file: "map_of (disk (put_file p c w)) = (map_of (disk w))(p \<mapsto> c)"
  by (simp add: put_file_def update_conv')

lemma put_file_same: "map_of (disk w) p = Some c \<Longrightarrow> put_file p c w = w"
  by (simp add: put_file_def update_triv)

lemma file_content_Some: "map_of (disk w) p = Some c \<Longrightarrow> file_content p w = c"
  by (simp add: file_content_def)

lemma splice_end [simp]: "splice (length c) d c = c @ d"
  by (simp add: splice_def)

text \<open>A file open at the end of its content, for writing.\<close>

definition at_end :: "io_file \<Rightarrow> bytes \<Rightarrow> bytes \<Rightarrow> world \<Rightarrow> bool" where
  "at_end f path c w \<longleftrightarrow> filename f = path \<and> fd f = Some (length c) \<and> file_size f = int (length c)
     \<and> file_position f = int (length c) \<and> map_of (disk w) path = Some c"

lemma File_Write_buffer_end:
  assumes "at_end f path c w" "results w = []"
  shows "\<exists>f'. File_Write_buffer d f w = Some (int (length d), f', put_file path (c @ d) w)
     \<and> at_end f' path (c @ d) (put_file path (c @ d) w)"
  using assms
  by (simp add: at_end_def File_Write_buffer_def sys_write_def Let_def file_content_Some map_of_put_file)

lemma File_Write_loop_end:
  assumes "at_end f path c w" "results w = []" "0 \<le> written" "int n = len - written" "n \<le> length ms"
  shows "\<exists>f'. File_Write_loop written len ms f w = Some (len, drop n ms, f', put_file path (c @ take n ms) w)
     \<and> at_end f' path (c @ take n ms) (put_file path (c @ take n ms) w)"
  using assms
proof (induction "length ms" arbitrary: written ms f w c n rule: less_induct)
  case less
  show ?case
  proof (cases "n = 0")
    case True
    then show ?thesis
      using less.prems by (simp add: File_Write_loop.simps[of written] put_file_same at_end_def)
  next
    case False
    define m d where "m = nat (min (len - written) 512)" and "d = take m ms"
    have m: "0 < m" "m \<le> n" "ms \<noteq> []" "written < len" "length d = m"
      using False less.prems(4,5) by (auto simp: m_def d_def)
    obtain f1 where f1: "File_Write_buffer d f w = Some (int m, f1, put_file path (c @ d) w)"
      "at_end f1 path (c @ d) (put_file path (c @ d) w)"
      using File_Write_buffer_end[OF less.prems(1,2), of d] m(5) by auto
    have "\<exists>f'. File_Write_loop (written + int m) len (drop m ms) f1 (put_file path (c @ d) w)
        = Some (len, drop (n - m) (drop m ms), f',
            put_file path ((c @ d) @ take (n - m) (drop m ms)) (put_file path (c @ d) w))
      \<and> at_end f' path ((c @ d) @ take (n - m) (drop m ms))
          (put_file path ((c @ d) @ take (n - m) (drop m ms)) (put_file path (c @ d) w))"
      by (rule less.hyps[OF _ f1(2)]) (use less.prems m in auto)
    moreover have "(c @ d) @ take (n - m) (drop m ms) = c @ take n ms" "drop (n - m) (drop m ms) = drop n ms"
      using m(2) by (simp_all add: take_append_drop_min d_def)
    ultimately show ?thesis
      using f1(1) m(1,3,4) by (simp add: File_Write_loop.simps[of written] Let_def m_def[symmetric] d_def[symmetric])
  qed
qed

lemma File_Write_end:
  assumes "at_end f path c w" "results w = []" "n \<le> length ms"
  shows "\<exists>f'. File_Write ms (int n) f w = Some (int n, drop n ms, f', put_file path (c @ take n ms) w)
     \<and> at_end f' path (c @ take n ms) (put_file path (c @ take n ms) w)"
proof -
  have "is_open f" using assms(1) by (simp add: at_end_def is_open_def)
  then show ?thesis using File_Write_loop_end[OF assms(1,2), of 0 n "int n" ms] assms(3) by (simp add: File_Write_def)
qed

text \<open>A file open for reading at an offset.\<close>

definition reads_at :: "io_file \<Rightarrow> bytes \<Rightarrow> nat \<Rightarrow> world \<Rightarrow> bool" where
  "reads_at f path off w \<longleftrightarrow> filename f = path \<and> fd f = Some off \<and> file_position f = int off
     \<and> file_size f = int (length (file_content path w)) \<and> off \<le> length (file_content path w)"

lemma File_Read_loop_at:
  assumes "reads_at f path off w" "results w = []" "0 \<le> got" "int n = len - got"
  shows "\<exists>f'. File_Read_loop got len f w
       = Some (got + int (length (take n (drop off (file_content path w)))), take n (drop off (file_content path w)), f', w)
     \<and> reads_at f' path (off + length (take n (drop off (file_content path w)))) w"
  using assms
proof (induction "n" arbitrary: got f off rule: less_induct)
  case (less n)
  let ?c = "file_content path w"
  show ?case
  proof (cases "n = 0")
    case True
    then show ?thesis using less.prems by (simp add: File_Read_loop.simps[of got])
  next
    case False
    define m d where "m = nat (min (len - got) 512)" and "d = take m (drop off ?c)"
    define f1 where "f1 = f\<lparr>fd := Some (off + length d), file_position := int off + int (length d)\<rparr>"
    have m: "0 < m" "m \<le> n" "got < len" using False less.prems(4) by (auto simp: m_def)
    have rd: "File_Read_buffer m f w = Some (int (length d), d, f1, w)" "reads_at f1 path (off + length d) w"
      using less.prems(1,2)
      by (auto simp: reads_at_def File_Read_buffer_def sys_read_def Let_def f1_def d_def)
    have step: "File_Read_loop got len f w = (if d = [] then Some (got, [], f1, w)
        else map_option (\<lambda>(cb, rest, e). (cb, d @ rest, e)) (File_Read_loop (got + int (length d)) len f1 w))"
      using rd(1) m(3) by (simp add: File_Read_loop.simps[of got] m_def[symmetric])
    show ?thesis
    proof (cases "d = []")
      case True
      then have "drop off ?c = []" using m(1) by (simp add: d_def)
      then show ?thesis using rd(2) True step by (intro exI[of _ f1]) simp
    next
      case ne: False
      define l where "l = length d"
      have l: "0 < l" "l \<le> n" using ne m(2) by (simp_all add: l_def d_def)
      have d: "d = take l (drop off ?c)" unfolding l_def d_def by (cases "m \<le> length (drop off ?c)") auto
      let ?rest = "take (n - l) (drop (off + l) ?c)"
      have "\<exists>f'. File_Read_loop (got + int l) len f1 w = Some (got + int l + int (length ?rest), ?rest, f', w)
          \<and> reads_at f' path (off + l + length ?rest) w"
        by (rule less.IH) (use less.prems rd(2) l in \<open>auto simp: l_def[symmetric]\<close>)
      moreover have sp: "d @ ?rest = take n (drop off ?c)"
        using l(2) take_append_drop_min[of l "drop off ?c" "n - l"] unfolding d by (simp add: add.commute)
      moreover have "length (take n (drop off ?c)) = l + length ?rest" unfolding sp[symmetric] by (simp add: l_def)
      ultimately show ?thesis using ne step by (auto simp: l_def[symmetric] add.assoc)
    qed
  qed
qed

lemma File_Read_at:
  assumes "reads_at f path off w" "results w = []"
  shows "\<exists>f'. File_Read (int n) f w
       = Some (int (length (take n (drop off (file_content path w)))), take n (drop off (file_content path w)), f', w)
     \<and> reads_at f' path (off + length (take n (drop off (file_content path w)))) w"
  using File_Read_loop_at[OF assms, of 0 n "int n"] by (simp add: File_Read_def)

section \<open>Names of numbered files\<close>

lemma length_digits [simp]: "length (digits k n) = k"
  by (induction k arbitrary: n) auto

lemma unat_digit_char: "d < 10 \<Longrightarrow> unat (digit_char d) = 48 + d"
  unfolding digit_char_def by (subst unat_word_of_nat) auto

lemma unat_digit_mod [simp]: "unat (digit_char (n mod 10)) = 48 + n mod 10"
  by (rule unat_digit_char) simp

lemma is_digit_iff: "is_digit d \<longleftrightarrow> 48 \<le> unat d \<and> unat d \<le> 57"
  by (simp add: is_digit_def word_le_nat_alt)

lemma is_digit_digit: "is_digit (digit_char (n mod 10))"
proof -
  have "n mod 10 < 10" by simp
  then show ?thesis unfolding is_digit_iff unat_digit_mod by linarith
qed

lemma digits_are_digits: "list_all is_digit (digits k n)"
  by (induction k arbitrary: n) (simp_all add: is_digit_digit)

lemma digits_value_snoc: "digits_value (ds @ [d]) = 10 * digits_value ds + (unat d - 48)"
  by (simp add: digits_value_def)

lemma digits_value_digits: "digits_value (digits k n) = n mod 10 ^ k"
proof (induction k arbitrary: n)
  case 0
  then show ?case by (simp add: digits_value_def)
next
  case (Suc k)
  then show ?case by (simp add: digits_value_snoc mod_mult2_eq)
qed

lemma digits_digits_value: "list_all is_digit ds \<Longrightarrow> digits (length ds) (digits_value ds) = ds"
proof (induction ds rule: rev_induct)
  case (snoc d ds)
  have d: "48 \<le> unat d" "unat d \<le> 57" using snoc.prems by (simp_all add: is_digit_def word_le_nat_alt)
  define e where "e = unat d - 48"
  have e: "e < 10" "digit_char e = d"
    using d by (auto simp: e_def word_unat_eq_iff unat_digit_char)
  then have "(10 * digits_value ds + e) div 10 = digits_value ds" "(10 * digits_value ds + e) mod 10 = e" by auto
  then show ?case using snoc e(2) by (simp add: digits_value_snoc e_def[symmetric])
qed simp

lemma digits_inject: "m < 10 ^ k \<Longrightarrow> n < 10 ^ k \<Longrightarrow> digits k m = digits k n \<longleftrightarrow> m = n"
  by (metis digits_value_digits mod_less)

lemma append_snoc_less:
  fixes a b :: "'a :: linorder"
  shows "length xs = length ys \<Longrightarrow> xs @ [a] < ys @ [b] \<longleftrightarrow> xs < ys \<or> xs = ys \<and> a < b"
  by (induction xs ys rule: list_induct2) auto

lemma append_less_append:
  fixes xs ys :: "'a :: linorder list"
  shows "ps @ xs < ps @ ys \<longleftrightarrow> xs < ys"
  by (induction ps) auto

lemma digits_less: "m < 10 ^ k \<Longrightarrow> n < 10 ^ k \<Longrightarrow> digits k m < digits k n \<longleftrightarrow> m < n"
proof (induction k arbitrary: m n)
  case (Suc k)
  have b: "m div 10 < 10 ^ k" "n div 10 < 10 ^ k" using Suc.prems by (simp_all add: less_mult_imp_div_less)
  have "digit_char (m mod 10) < digit_char (n mod 10) \<longleftrightarrow> m mod 10 < n mod 10"
    by (simp add: word_less_nat_alt)
  then have "digits (Suc k) m < digits (Suc k) n
      \<longleftrightarrow> m div 10 < n div 10 \<or> m div 10 = n div 10 \<and> m mod 10 < n mod 10"
    using Suc.IH[OF b] b by (simp add: append_snoc_less digits_inject)
  then show ?case using div_mult_mod_eq[of m 10] div_mult_mod_eq[of n 10] by arith
qed simp

lemma not_space_digit: "is_digit d \<Longrightarrow> \<not> is_space d \<and> d \<noteq> 45 \<and> d \<noteq> 43"
  by (auto simp: is_digit_def is_space_def word_le_nat_alt)

lemma parse_int32_digits:
  assumes "n < 2 ^ 31" "0 < k" "n < 10 ^ k"
  shows "parse_int32 (digits k n) = int n"
proof -
  obtain d ds where ds: "digits k n = d # ds" using assms(2) by (cases "digits k n") (auto dest: arg_cong[of _ _ length])
  have all: "list_all is_digit (d # ds)" using digits_are_digits[of k n] ds by simp
  then have tw: "takeWhile is_digit (d # ds) = d # ds"
    by (auto simp: not_space_digit list_all_iff takeWhile_eq_all_conv)
  have "strtol (d # ds) = min (int (digits_value (takeWhile is_digit (d # ds)))) (2 ^ 63 - 1)"
    using not_space_digit[of d] all by (simp add: strtol_def Let_def)
  then have "strtol (digits k n) = min (int (digits_value (digits k n))) (2 ^ 63 - 1)"
    unfolding tw ds .
  then have "strtol (digits k n) = int n" using assms(1,3) by (simp add: digits_value_digits)
  then show ?thesis using assms(1) by (simp add: parse_int32_def signed_of_nat signed_take_bit_int_eq_self)
qed

section \<open>Directories\<close>

lemma dir_entries_iff:
  "name \<in> set (dir_entries dir w) \<longleftrightarrow>
     map_of (disk w) (dir @ [slash] @ name) \<noteq> None \<and> name \<noteq> [] \<and> slash \<notin> set name"
proof -
  have "p = dir @ [slash] @ drop (length dir + 1) p" if "take (length dir + 1) p = dir @ [slash]" for p :: bytes
    using append_take_drop_id[of "length dir + 1" p] that by (metis append_assoc)
  then show ?thesis
    by (auto simp: dir_entries_def map_of_eq_None_iff image_iff split: if_splits) force+
qed

lemma comprehension_filter: "[f x. x \<leftarrow> xs, P x] = map f (filter P xs)"
  by (induction xs) auto

lemma distinct_dir_entries: "distinct (dir_entries dir w)"
proof -
  let ?P = "\<lambda>p. take (length dir + 1) p = dir @ [slash] \<and> drop (length dir + 1) p \<noteq> [] \<and> slash \<notin> set (drop (length dir + 1) p)"
  have "dir_entries dir w = map (drop (length dir + 1)) (filter ?P (remdups (map fst (disk w))))"
    unfolding dir_entries_def by (rule comprehension_filter)
  moreover have "inj_on (drop (length dir + 1)) (set (filter ?P (remdups (map fst (disk w)))))"
  proof (rule inj_onI)
    fix x y assume x: "x \<in> set (filter ?P (remdups (map fst (disk w))))" and y: "y \<in> set (filter ?P (remdups (map fst (disk w))))"
      and eq: "drop (length dir + 1) x = drop (length dir + 1) y"
    have "take (length dir + 1) x = take (length dir + 1) y" using x y by simp
    then show "x = y" using eq by (metis append_take_drop_id)
  qed
  ultimately show ?thesis by (simp add: distinct_map)
qed

text \<open>Names of a prefix and a number of ten digits.\<close>

lemma numbered_name_iff:
  "take (length p) name = p \<and> length name = length p + 10 \<and> list_all is_digit (drop (length p) name)
     \<longleftrightarrow> (\<exists>k < 10 ^ 10. name = p @ digits 10 k)" (is "?l \<longleftrightarrow> ?r")
proof
  assume re: ?l
  let ?d = "drop (length p) name"
  have "digits (length ?d) (digits_value ?d) = ?d" by (rule digits_digits_value) (use re in simp)
  then have "digits 10 (digits_value ?d mod 10 ^ 10) = ?d"
    using re by (metis add_diff_cancel_left' digits_value_digits digits_digits_value digits_are_digits length_digits length_drop)
  moreover have "name = p @ ?d" using re by (metis append_take_drop_id)
  ultimately show ?r by (metis mod_less_divisor zero_less_numeral zero_less_power)
qed (auto simp: digits_are_digits)

lemma no_slash_digits: "slash \<notin> set (digits j n)"
  using digits_are_digits[of j n] by (auto simp: list_all_iff is_digit_def slash_def)

lemma numbered_listing:
  assumes "slash \<notin> set p" "\<And>name. matches name \<longleftrightarrow> (\<exists>k < 10 ^ 10. name = p @ digits 10 k)"
    and "\<And>k. k < 10 ^ 10 \<Longrightarrow> map_of (disk w) (dir @ [slash] @ p @ digits 10 k) \<noteq> None \<longleftrightarrow> k \<in> K" "K \<subseteq> {..<10 ^ 10}"
  shows "set (filter matches (dir_entries dir w)) = (\<lambda>k. p @ digits 10 k) ` K"
proof -
  have "p @ digits 10 k \<noteq> []" for k by (metis append_is_Nil_conv length_0_conv length_digits zero_neq_numeral)
  then have "p @ digits 10 k \<in> set (dir_entries dir w) \<longleftrightarrow> k \<in> K" if "k < 10 ^ 10" for k
    using assms(1) assms(3)[OF that] no_slash_digits by (simp add: dir_entries_iff)
  then show ?thesis using assms(2,4) by auto
qed

lemma sort_names:
  assumes "set names = (\<lambda>k. p @ digits 10 k) ` {lo..<n}" "distinct names" "n \<le> 10 ^ 10"
  shows "sort names = map (\<lambda>k. p @ digits 10 k) [lo..<n]"
proof (rule sorted_distinct_set_unique)
  have "p @ digits 10 j < p @ digits 10 k" if "j < k" "k < n" for j k
    using that assms(3) digits_less[of j 10 k] by (simp add: append_less_append)
  then have lt: "sorted_wrt (<) (map (\<lambda>k. p @ digits 10 k) [lo..<n])"
    by (simp add: sorted_wrt_map sorted_wrt_iff_nth_less)
  then show "sorted (map (\<lambda>k. p @ digits 10 k) [lo..<n])" "distinct (map (\<lambda>k. p @ digits 10 k) [lo..<n])"
    by (simp_all only: strict_sorted_iff)
  show "set (sort names) = set (map (\<lambda>k. p @ digits 10 k) [lo..<n])" using assms(1) by simp
qed (use assms(2) in simp_all)

text \<open>The files of a directory that match are those with the prefix and the numbers between two bounds.\<close>

lemma last_sort_names:
  assumes "set names = (\<lambda>k. p @ digits 10 k) ` {lo..n}" "n < 10 ^ 10" "lo \<le> n"
  shows "last (sort names) = p @ digits 10 n" and "hd (sort names) = p @ digits 10 lo"
proof -
  have ne: "sort names \<noteq> []" using assms(1,3) by (metis atLeastAtMost_iff empty_iff image_eqI list.set(1) order_refl set_sort)
  have set: "set (sort names) = (\<lambda>k. p @ digits 10 k) ` {lo..n}" using assms(1) by simp
  have mono: "j \<le> k \<Longrightarrow> k \<le> n \<Longrightarrow> p @ digits 10 j \<le> p @ digits 10 k" for j k
    using assms(2) digits_less[of j 10 k] by (cases "j = k") (auto simp: list_le_def append_less_append)
  have "last (sort names) \<in> set (sort names)" "hd (sort names) \<in> set (sort names)"
    using last_in_set[OF ne] hd_in_set[OF ne] .
  then obtain j k where jk: "last (sort names) = p @ digits 10 j" "hd (sort names) = p @ digits 10 k" "j \<le> n" "lo \<le> k" "k \<le> n"
    unfolding set by auto
  have top: "x \<le> last (sort names)" if "x \<in> set (sort names)" for x
    using sorted_wrt_last[of "(\<le>)" "sort names" x] that by auto
  have bot: "hd (sort names) \<le> x" if "x \<in> set (sort names)" for x
    using that sorted_sort[of names] ne by (cases "sort names") auto
  have "p @ digits 10 n \<le> p @ digits 10 j" using top[of "p @ digits 10 n"] jk(1) assms(3) unfolding set by auto
  then show "last (sort names) = p @ digits 10 n" using mono[of j n] jk(1,3) by (simp add: antisym)
  have "p @ digits 10 k \<le> p @ digits 10 lo" using bot[of "p @ digits 10 lo"] jk(2) assms(3) unfolding set by auto
  then show "hd (sort names) = p @ digits 10 lo" using mono[of lo k] jk(2,4,5) by (simp add: antisym)
qed

end
