(* ===== verification/LogLaws.thy ===== *)
theory LogLaws
  imports LogIo FileLaws RecordLaws
begin

text \<open>
  A log that is written and read without errors of the system: its files are the pieces of one
  sequence of blocks, the writer appends to it and the reader goes through it.
\<close>

section \<open>The files of a log\<close>

definition log_name :: "bytes \<Rightarrow> bytes \<Rightarrow> nat \<Rightarrow> nat \<Rightarrow> bytes" where
  "log_name dir base B k = log_file_name dir base (int B) (int k)"

lemma log_name_inject: "j < 10 ^ 10 \<Longrightarrow> k < 10 ^ 10 \<Longrightarrow> log_name dir base B j = log_name dir base B k \<longleftrightarrow> j = k"
  by (simp add: log_name_def log_file_name_def digits_inject)

definition file_part :: "nat \<Rightarrow> bytes \<Rightarrow> nat \<Rightarrow> bytes" where
  "file_part L all k = take L (drop (k * L) all)"

lemma file_part_append:
  assumes "k < length all div L"
  shows "file_part L (all @ d) k = file_part L all k"
proof -
  have "Suc k * L \<le> length all div L * L" using assms by (intro mult_le_mono1) simp
  then have "Suc k * L \<le> length all" using div_times_less_eq_dividend[of "length all" L] by linarith
  then have "k * L + L \<le> length all" by simp
  then show ?thesis by (simp add: file_part_def)
qed

lemma length_mod_parts: "length all - length all div L * L = length all mod (L :: nat)"
  by (metis minus_div_mult_eq_mod)

lemma file_part_last:
  assumes "length all mod L + length d \<le> L"
  shows "file_part L (all @ d) (length all div L) = drop (length all div L * L) all @ d"
  using assms by (simp add: file_part_def length_mod_parts)

lemma file_part_end: "0 < L \<Longrightarrow> file_part L all (length all div L) = drop (length all div L * L) all"
  using file_part_last[of all L "[]"] by simp

lemma file_part_beyond: "length all \<le> k * L \<Longrightarrow> file_part L all k = []"
  by (simp add: file_part_def)

text \<open>
  The log has the bytes \<open>all\<close>, in files of \<open>N\<close> blocks of size \<open>B\<close>, of which those with a number
  below \<open>lo\<close> have been deleted.
\<close>

definition log_holds :: "nat \<Rightarrow> bytes \<Rightarrow> bytes \<Rightarrow> nat \<Rightarrow> nat \<Rightarrow> bytes \<Rightarrow> world \<Rightarrow> bool" where
  "log_holds lo dir base B N all w \<longleftrightarrow> results w = [] \<and> 0 < B \<and> 0 < N \<and> length all mod B = 0
     \<and> length all div (B * N) < 2 ^ 31 \<and> lo \<le> length all div (B * N)
     \<and> (\<forall>k < 10 ^ 10. map_of (disk w) (log_name dir base B k)
          = (if lo \<le> k \<and> k \<le> length all div (B * N) then Some (file_part (B * N) all k) else None))"

text \<open>Bytes added to the last file, which may complete it: then the next one is there too.\<close>

lemma log_holds_append:
  assumes "log_holds lo dir base B N all w" "length d mod B = 0"
    and "length all mod (B * N) + length d < B * N"
    and "c = drop (length all div (B * N) * (B * N)) all"
  shows "log_holds lo dir base B N (all @ d) (put_file (log_name dir base B (length all div (B * N))) (c @ d) w)"
    and "length (all @ d) div (B * N) = length all div (B * N)"
proof -
  let ?L = "B * N" and ?m = "length all div (B * N)"
  have "length (all @ d) = ?m * ?L + (length all mod ?L + length d)"
    using div_mult_mod_eq[of "length all" ?L] by simp
  then show div: "length (all @ d) div ?L = ?m" using assms(3) by (simp only: div_mult_self3 div_less)
  have m: "?m < 10 ^ 10" using assms(1) by (simp add: log_holds_def)
  have "file_part ?L (all @ d) ?m = c @ d" using file_part_last[of all ?L d] assms(3,4) by simp
  moreover have "(length all + length d) mod B = 0" using assms(1,2) by (simp add: log_holds_def mod_add_eq[symmetric])
  ultimately show "log_holds lo dir base B N (all @ d) (put_file (log_name dir base B ?m) (c @ d) w)"
    using assms(1) m div by (auto simp: log_holds_def map_of_put_file log_name_inject file_part_append)
qed

lemma log_holds_complete:
  assumes "log_holds lo dir base B N all w" "length d mod B = 0"
    and "length all mod (B * N) + length d = B * N"
    and "c = drop (length all div (B * N) * (B * N)) all" "Suc (length all div (B * N)) < 2 ^ 31"
  shows "log_holds lo dir base B N (all @ d)
       (put_file (log_name dir base B (Suc (length all div (B * N)))) []
         (put_file (log_name dir base B (length all div (B * N))) (c @ d) w))"
    and "length (all @ d) div (B * N) = Suc (length all div (B * N))"
    and "map_of (disk w) (log_name dir base B (Suc (length all div (B * N)))) = None"
proof -
  let ?L = "B * N" and ?m = "length all div (B * N)"
  have L: "0 < ?L" using assms(1) by (simp add: log_holds_def)
  have len: "length (all @ d) = Suc ?m * ?L"
    using div_mult_mod_eq[of "length all" ?L] assms(3) by simp
  then show div: "length (all @ d) div ?L = Suc ?m" using L by (simp only: nonzero_mult_div_cancel_right)
  have m: "Suc ?m < 10 ^ 10" using assms(5) by simp
  have last: "file_part ?L (all @ d) ?m = c @ d" using file_part_last[of all ?L d] assms(3,4) by simp
  have beyond: "file_part ?L (all @ d) (Suc ?m) = []" by (rule file_part_beyond) (simp only: len)
  have "(length all + length d) mod B = 0" using assms(1,2) by (simp add: log_holds_def mod_add_eq[symmetric])
  moreover have "k \<le> Suc ?m \<longleftrightarrow> k < ?m \<or> k = ?m \<or> k = Suc ?m" for k by auto
  ultimately show "log_holds lo dir base B N (all @ d)
       (put_file (log_name dir base B (Suc ?m)) [] (put_file (log_name dir base B ?m) (c @ d) w))"
    using assms(1,5) m div last beyond
    by (auto simp: log_holds_def map_of_put_file log_name_inject file_part_append)
  show "map_of (disk w) (log_name dir base B (Suc ?m)) = None" using assms(1) m by (simp add: log_holds_def)
qed

section \<open>The writer\<close>

definition writer_conf :: "bytes \<Rightarrow> bytes \<Rightarrow> nat \<Rightarrow> nat \<Rightarrow> log_writer \<Rightarrow> bool" where
  "writer_conf dir base B N lw \<longleftrightarrow> lw_dir lw = dir \<and> lw_base lw = base \<and> lw_block_size lw = int B
     \<and> lw_blocks_per_file lw = int N \<and> \<not> lw_temporary lw"

lemma OpenNextLog_opens:
  assumes conf: "writer_conf dir base B N lw" and w: "results w = []" and num: "0 \<le> lw_file_num lw"
    and k: "k = nat (if is_open (lw_file lw) then lw_file_num lw + 1 else lw_file_num lw)"
    and c: "c = file_content (log_name dir base B k) w" "length c mod B = 0" "length c < B * N"
  shows "\<exists>f. OpenNextLog lw w = Some (True, lw\<lparr>lw_file_num := int k, lw_file := f\<rparr>, put_file (log_name dir base B k) c w)
     \<and> at_end f (log_name dir base B k) c (put_file (log_name dir base B k) c w)"
proof -
  let ?n = "log_name dir base B k"
  define f where "f = \<lparr>filename = ?n, fd = Some (length c), file_size = int (length c), file_position = int (length c)\<rparr>"
  have B: "int (length c) mod int B = 0" "int (length c) \<noteq> int B * int N"
    using c(2,3) by (simp_all add: zmod_int[symmetric]) (metis nat_less_le of_nat_eq_iff of_nat_mult)
  define lw1 where "lw1 = lw\<lparr>lw_file_num := int k, lw_file := File_Close (lw_file lw)\<rparr>"
  have closed: "\<not> is_open (lw_file lw1)" "fd (lw_file lw1) = None" by (simp_all add: lw1_def File_Close_def File_new_def is_open_def)
  have st1: "(if is_open (lw_file lw) then map_option (\<lambda>(l, v). (l\<lparr>lw_file_num := lw_file_num l + 1\<rparr>, v)) (CloseLog lw w)
       else Some (lw, w)) = Some (lw1, w)"
    using conf k num by (simp add: CloseLog_def Let_def writer_conf_def lw1_def File_Close_def)
  have name: "LogWriter_ComposeFileName (lw_temporary lw1) lw1 = Some ?n"
    using conf by (simp add: LogWriter_ComposeFileName_def writer_conf_def lw1_def log_name_def)
  have op: "\<exists>f0. File_Open ?n OPEN_ALWAYS (lw_file lw1) w = Some (True, f0, put_file ?n c w)
     \<and> filename f0 = ?n \<and> fd f0 = Some 0 \<and> file_size f0 = int (length c) \<and> file_position f0 = 0"
    using closed w c(1)
    by (cases "map_of (disk w) ?n")
       (auto simp: File_Open_def sys_open_def creation_flags_def UpdatePosition_def UpdateSize_def update_triv
          file_content_def update_conv' put_file_def)
  then obtain f0 where f0: "File_Open ?n OPEN_ALWAYS (lw_file lw1) w = Some (True, f0, put_file ?n c w)"
     "filename f0 = ?n" "fd f0 = Some 0" "file_size f0 = int (length c)" "file_position f0 = 0" by blast
  have conf1: "lw_block_size lw1 = int B" "lw_blocks_per_file lw1 = int N" using conf by (simp_all add: lw1_def writer_conf_def)
  have "open_next_step lw w = Some (Some True, lw1\<lparr>lw_file := f\<rparr>, put_file ?n c w)"
    unfolding open_next_step_def st1 using num name f0 B conf1
    by (auto simp: File_Size_def is_open_def File_SetPosition_def Let_def File_Position_def f_def)
  moreover have "at_end f ?n c (put_file ?n c w)" by (simp add: at_end_def f_def map_of_put_file)
  ultimately show ?thesis by (intro exI[of _ f]) (simp add: OpenNextLog.simps[of lw w] lw1_def)
qed

text \<open>The writer at the end of the log, with an empty buffer or one of whole blocks.\<close>

definition writer_at :: "nat \<Rightarrow> bytes \<Rightarrow> bytes \<Rightarrow> nat \<Rightarrow> nat \<Rightarrow> bytes \<Rightarrow> log_writer \<Rightarrow> world \<Rightarrow> bool" where
  "writer_at lo dir base B N all lw w \<longleftrightarrow> log_holds lo dir base B N all w \<and> writer_conf dir base B N lw
     \<and> lw_file_num lw = int (length all div (B * N))
     \<and> at_end (lw_file lw) (log_name dir base B (length all div (B * N))) (drop (length all div (B * N) * (B * N)) all) w"

text \<open>What is not a file of the log stays as it is.\<close>

definition frame_eq :: "bytes \<Rightarrow> bytes \<Rightarrow> nat \<Rightarrow> world \<Rightarrow> world \<Rightarrow> bool" where
  "frame_eq dir base B w w' \<longleftrightarrow>
     (\<forall>p. (\<forall>k. p \<noteq> log_name dir base B k) \<longrightarrow> map_of (disk w') p = map_of (disk w) p)"

text \<open>The same for what is neither a file of the log nor its lock.\<close>

definition outside_eq :: "bytes \<Rightarrow> bytes \<Rightarrow> nat \<Rightarrow> world \<Rightarrow> world \<Rightarrow> bool" where
  "outside_eq dir base B w w' \<longleftrightarrow> (\<forall>p. p \<noteq> dir @ [slash] @ base @ bytes_of ''.lock'' \<longrightarrow> (\<forall>k. p \<noteq> log_name dir base B k)
     \<longrightarrow> map_of (disk w') p = map_of (disk w) p)"

lemma outside_eq_trans: "outside_eq dir base B w w' \<Longrightarrow> outside_eq dir base B w' w'' \<Longrightarrow> outside_eq dir base B w w''"
  by (simp add: outside_eq_def)

lemma frame_outside: "frame_eq dir base B w w' \<Longrightarrow> outside_eq dir base B w w'"
  by (simp add: outside_eq_def frame_eq_def)

lemma frame_eq_refl [simp]: "frame_eq dir base B w w"
  by (simp add: frame_eq_def)

lemma frame_eq_trans: "frame_eq dir base B w w' \<Longrightarrow> frame_eq dir base B w' w'' \<Longrightarrow> frame_eq dir base B w w''"
  by (simp add: frame_eq_def)

lemma frame_eq_put [simp]: "frame_eq dir base B w (put_file (log_name dir base B k) c w)"
  by (simp add: frame_eq_def map_of_put_file)

lemma drop_parts: "drop (length all div L * L) (all @ d) = drop (length all div L * L) all @ d"
  by simp

lemma at_end_position: "at_end f path c w \<Longrightarrow> File_Position f = Some (int (length c))"
  by (simp add: at_end_def File_Position_def is_open_def)

lemma write_buffer_step_at:
  assumes at: "writer_at lo dir base B N all lw w" and buf: "lw_buf lw \<noteq> []" "length (lw_buf lw) mod B = 0"
    and room: "(length all + length (lw_buf lw)) div (B * N) < 2 ^ 31"
  shows "\<exists>t lw' w'. 0 < t \<and> t \<le> length (lw_buf lw) \<and> t mod B = 0
     \<and> write_buffer_step lw w = Some (None, lw', w')
     \<and> writer_at lo dir base B N (all @ take t (lw_buf lw)) lw' w' \<and> lw_buf lw' = drop t (lw_buf lw)
     \<and> lw_recorder lw' = lw_recorder lw \<and> frame_eq dir base B w w'"
proof -
  let ?L = "B * N" and ?m = "length all div (B * N)"
  let ?n = "log_name dir base B ?m" and ?c = "drop (length all div (B * N) * (B * N)) all"
  define p t d where "p = length all mod ?L" and "t = min (?L - p) (length (lw_buf lw))" and "d = take t (lw_buf lw)"
  have h: "log_holds lo dir base B N all w" "writer_conf dir base B N lw" "at_end (lw_file lw) ?n ?c w"
    and num: "lw_file_num lw = int ?m"
    using at by (simp_all add: writer_at_def)
  have BN: "0 < B" "0 < N" "results w = []" "length all mod B = 0" using h(1) by (simp_all add: log_holds_def)
  have c: "length ?c = p" by (simp add: p_def length_mod_parts)
  have p: "p < ?L" "p mod B = 0" using BN by (simp_all add: p_def mod_mod_cancel)
  have t: "0 < t" "t \<le> length (lw_buf lw)" "length d = t" "p + t \<le> ?L" using p buf(1) by (auto simp: t_def d_def)
  have "(?L - p) mod B = 0" using p(2) by (simp add: mod_eq_0_iff_dvd dvd_diff_nat)
  then have tB: "t mod B = 0" using buf(2) by (auto simp: t_def min_def)
  obtain f1 where f1: "File_Write (lw_buf lw) (int t) (lw_file lw) w = Some (int t, drop t (lw_buf lw), f1, put_file ?n (?c @ d) w)"
    "at_end f1 ?n (?c @ d) (put_file ?n (?c @ d) w)"
    using File_Write_end[OF h(3) BN(3) t(2)] by (auto simp: d_def)
  define w1 where "w1 = put_file ?n (?c @ d) w"
  define lw1 where "lw1 = lw\<lparr>lw_file := f1, lw_buf := drop t (lw_buf lw)\<rparr>"
  have conf: "lw_block_size lw = int B" "lw_blocks_per_file lw = int N" using h(2) by (simp_all add: writer_conf_def)
  have pos: "File_Position (lw_file lw) = Some (int p)" "File_Position f1 = Some (int (p + t))"
    using at_end_position[OF h(3)] at_end_position[OF f1(2)] c t(3) by (simp_all only: length_append)
  have ints: "int p mod int B = 0" "\<not> int p > int B * int N" "int p < int B * int N"
     "int (length (lw_buf lw)) mod int B = 0" "min (int B * int N - int p) (int (length (lw_buf lw))) = int t"
    using p buf(2) by (simp_all add: zmod_int[symmetric] t_def of_nat_diff) (use p(1) in \<open>auto simp: min_def of_nat_diff simp flip: of_nat_mult\<close>)
  have step: "write_buffer_step lw w = (if p + t = ?L then
        map_option (\<lambda>(ok, lw2, w2). (if ok then None else Some False, lw2, w2)) (OpenNextLog lw1 w1)
      else Some (None, lw1, w1))"
    unfolding write_buffer_step_def pos(1) using buf(1) ints conf f1(1) pos(2)
    by (simp add: Let_def w1_def lw1_def flip: of_nat_mult of_nat_add)
  show ?thesis
  proof (cases "p + t = ?L")
    case False
    then have lt: "length all mod ?L + length d < ?L" using t(3,4) by (simp add: p_def)
    note ah = log_holds_append[OF h(1) _ lt refl]
    have dB: "length d mod B = 0" using t(3) tB by simp
    have "writer_at lo dir base B N (all @ d) lw1 w1"
      using ah(1)[OF dB] ah(2)[OF dB] h(2) num f1(2)
      by (simp add: writer_at_def w1_def lw1_def writer_conf_def del: length_append)
    then show ?thesis
      using step False t(1,2) tB by (intro exI[of _ t] exI[of _ lw1] exI[of _ w1]) (simp add: d_def lw1_def w1_def)
  next
    case True
    then have eq: "length all mod ?L + length d = ?L" using t(3) by (simp add: p_def)
    have dB: "length d mod B = 0" using t(3) tB by simp
    have "Suc ?m * ?L \<le> length all + length (lw_buf lw)"
      using eq t(2,3) div_mult_mod_eq[of "length all" ?L] by simp
    then have "Suc ?m \<le> (length all + length (lw_buf lw)) div ?L" using BN by (simp add: less_eq_div_iff_mult_less_eq)
    then have m: "Suc ?m < 2 ^ 31" using room by linarith
    note ah = log_holds_complete[OF h(1) dB eq refl m]
    have ne: "?n \<noteq> log_name dir base B (Suc ?m)" using m by (simp add: log_name_inject)
    have "file_content (log_name dir base B (Suc ?m)) w1 = []"
      using ah(3) ne by (simp add: file_content_def w1_def map_of_put_file)
    moreover have "writer_conf dir base B N lw1" "is_open (lw_file lw1)" "lw_file_num lw1 = int ?m" "results w1 = []"
      using h(2) f1(2) num BN(3) by (simp_all add: lw1_def writer_conf_def at_end_def is_open_def w1_def)
    ultimately obtain f2 where f2:
      "OpenNextLog lw1 w1 = Some (True, lw1\<lparr>lw_file_num := int (Suc ?m), lw_file := f2\<rparr>, put_file (log_name dir base B (Suc ?m)) [] w1)"
      "at_end f2 (log_name dir base B (Suc ?m)) [] (put_file (log_name dir base B (Suc ?m)) [] w1)"
      using OpenNextLog_opens[of dir base B N lw1 w1 "Suc ?m" "[]"] BN by (auto simp: nat_add_distrib)
    have "drop (Suc ?m * ?L) (all @ d) = []"
      using eq div_mult_mod_eq[of "length all" ?L] by simp
    then have "writer_at lo dir base B N (all @ d) (lw1\<lparr>lw_file_num := int (Suc ?m), lw_file := f2\<rparr>)
        (put_file (log_name dir base B (Suc ?m)) [] w1)"
      using ah(1,2) h(2) f2(2) by (simp add: writer_at_def w1_def lw1_def writer_conf_def del: length_append)
    then show ?thesis
      using step True t(1,2) tB f2(1) frame_eq_trans[OF frame_eq_put frame_eq_put]
      by (intro exI[of _ t] exI[of _ "lw1\<lparr>lw_file_num := int (Suc ?m), lw_file := f2\<rparr>"]
          exI[of _ "put_file (log_name dir base B (Suc ?m)) [] w1"]) (simp add: d_def lw1_def w1_def)
  qed
qed

lemma write_buffer_loop_at:
  assumes "writer_at lo dir base B N all lw w" "length (lw_buf lw) mod B = 0"
    and "(length all + length (lw_buf lw)) div (B * N) < 2 ^ 31"
  shows "\<exists>lw' w'. write_buffer_loop lw w = Some (True, lw', w')
     \<and> writer_at lo dir base B N (all @ lw_buf lw) lw' w' \<and> lw_buf lw' = []
     \<and> lw_recorder lw' = lw_recorder lw \<and> frame_eq dir base B w w'"
  using assms
proof (induction "length (lw_buf lw)" arbitrary: lw w all rule: less_induct)
  case less
  show ?case
  proof (cases "lw_buf lw = []")
    case True
    have "write_buffer_step lw w = Some (Some True, lw, w)"
      using True less.prems(1) by (simp add: write_buffer_step_def writer_at_def at_end_def File_Position_def is_open_def Let_def)
    then show ?thesis
      using less.prems(1) True by (simp add: write_buffer_loop.simps[of lw w])
  next
    case False
    obtain t lw1 w1 where s: "0 < t" "t \<le> length (lw_buf lw)" "t mod B = 0"
      "write_buffer_step lw w = Some (None, lw1, w1)"
      "writer_at lo dir base B N (all @ take t (lw_buf lw)) lw1 w1" "lw_buf lw1 = drop t (lw_buf lw)"
      "lw_recorder lw1 = lw_recorder lw" "frame_eq dir base B w w1"
      using write_buffer_step_at[OF less.prems(1) False less.prems(2,3)] by (elim exE conjE) (rule that)
    have "length (lw_buf lw1) < length (lw_buf lw)" "length (lw_buf lw1) mod B = 0"
      "(length (all @ take t (lw_buf lw)) + length (lw_buf lw1)) div (B * N) < 2 ^ 31"
      using s(1-3,6) less.prems(2,3) by (simp_all add: mod_eq_0_iff_dvd)
    from less.hyps[OF this(1) s(5) this(2,3)] obtain lw' w' where
      r: "write_buffer_loop lw1 w1 = Some (True, lw', w')"
      "writer_at lo dir base B N ((all @ take t (lw_buf lw)) @ lw_buf lw1) lw' w'" "lw_buf lw' = []"
      "lw_recorder lw' = lw_recorder lw1" "frame_eq dir base B w1 w'" by blast
    have "write_buffer_loop lw w = Some (True, lw', w')"
      unfolding write_buffer_loop.simps[of lw w] s(4) using r(1) by simp
    moreover have "(all @ take t (lw_buf lw)) @ lw_buf lw1 = all @ lw_buf lw" using s(6) by simp
    ultimately show ?thesis using r(2-5) s(7) frame_eq_trans[OF s(8) r(5)] by auto
  qed
qed

section \<open>The lock and the first file\<close>

text \<open>A directory and a base name for the logs.\<close>

definition good_names :: "bytes \<Rightarrow> bytes \<Rightarrow> bool" where
  "good_names dir base \<longleftrightarrow> dir \<noteq> [] \<and> last dir \<noteq> slash \<and> slash \<notin> set base"

definition log_lock :: "bytes \<Rightarrow> bytes \<Rightarrow> bytes" where
  "log_lock dir base = dir @ [slash] @ base @ bytes_of ''.lock''"

lemma lock_name_eq:
  assumes "good_names (lw_dir lw) (lw_base lw)"
  shows "lock_name lw = log_lock (lw_dir lw) (lw_base lw)"
proof -
  have "hd (lw_base lw @ bytes_of ''.lock'') \<noteq> slash" "lw_base lw @ bytes_of ''.lock'' \<noteq> []"
    using assms by (cases "lw_base lw"; auto simp: good_names_def bytes_of_def slash_def)+
  then show ?thesis using assms by (auto simp: lock_name_def JoinPaths_def log_lock_def good_names_def)
qed

lemma log_lock_other: "log_lock dir base \<noteq> log_name dir base B k"
  by (simp add: log_lock_def log_name_def log_file_name_def log_name_prefix_def bytes_of_def underscore_def)

lemma take_lock_free:
  assumes "good_names (lw_dir lw) (lw_base lw)" "results w = []" "map_of (disk w) (log_lock (lw_dir lw) (lw_base lw)) = None"
  shows "\<exists>c. take_lock pid lw w = Some (True, put_file (log_lock (lw_dir lw) (lw_base lw)) c w)"
proof -
  let ?l = "log_lock (lw_dir lw) (lw_base lw)"
  define f where "f = File_new\<lparr>filename := ?l, fd := Some 0, file_size := 0, file_position := 0\<rparr>"
  have op: "File_Open ?l OPEN_ALWAYS File_new w = Some (True, f, put_file ?l [] w)"
    using assms(2,3) by (simp add: File_Open_def is_open_def File_new_def sys_open_def creation_flags_def
        UpdatePosition_def UpdateSize_def f_def)
  have rd: "File_Read_buffer 63 f (put_file ?l [] w) = Some (0, [], f, put_file ?l [] w)"
    using assms(2) by (simp add: File_Read_buffer_def sys_read_def f_def)
  have nought: "parse_int32 [] = 0" by (simp add: parse_int32_def strtol_def digits_value_def)
  have sp: "File_SetPosition 0 FILE_SET v f = Some (0, f)" for v by (simp add: File_SetPosition_def f_def)
  define f3 where "f3 = f\<lparr>fd := Some (length (int_text pid)), file_position := int (length (int_text pid)),
      file_size := int (length (int_text pid))\<rparr>"
  have wr: "File_Write_buffer (int_text pid) f (put_file ?l [] w)
      = Some (int (length (int_text pid)), f3, put_file ?l (int_text pid) w)"
    using assms(2) by (simp add: File_Write_buffer_def sys_write_def Let_def f_def f3_def splice_def)
  have tr: "\<exists>f4. File_Truncate (-1) f3 (put_file ?l (int_text pid) w) = Some (f4, put_file ?l (int_text pid) w)"
    using assms(2) by (simp add: File_Truncate_def File_Position_def is_open_def f3_def f_def sys_ftruncate_def Let_def
        File_SetPosition_def)
  show ?thesis
    using tr unfolding take_lock_def lock_name_eq[OF assms(1)] op
    by (auto simp: rd nought sp wr intro!: exI[of _ "int_text pid"])
qed

lemma log_re_iff: "log_re base (int B) name \<longleftrightarrow> (\<exists>k < 10 ^ 10. name = log_name_prefix base (int B) @ digits 10 k)"
  by (simp add: log_re_def Let_def numbered_name_iff)

lemma no_slash_in_prefix: "slash \<notin> set base \<Longrightarrow> slash \<notin> set (log_name_prefix base (int B))"
  using no_slash_digits by (auto simp: log_name_prefix_def slash_def underscore_def)

lemma log_listing:
  assumes "slash \<notin> set base"
    and "\<And>k. k < 10 ^ 10 \<Longrightarrow> map_of (disk w) (log_name dir base B k) \<noteq> None \<longleftrightarrow> k \<in> K" "K \<subseteq> {..<10 ^ 10}"
  shows "set (filter (log_re base (int B)) (dir_entries dir w)) = (\<lambda>k. log_name_prefix base (int B) @ digits 10 k) ` K"
  by (rule numbered_listing[OF no_slash_in_prefix[OF assms(1)] log_re_iff])
    (use assms(2,3) in \<open>simp_all add: log_name_def log_file_name_def\<close>)

lemma digits_end: "drop (length (p @ digits k n) - k) (p @ digits k n) = digits k n"
  by simp

lemma GetLastNumberedFile_holds:
  assumes "slash \<notin> set base" "log_holds lo dir base B N all w"
  shows "GetLastNumberedFile dir (log_re base (int B)) 10 w = Some (int (length all div (B * N)), w)"
proof -
  let ?m = "length all div (B * N)" and ?p = "log_name_prefix base (int B)"
  have h: "results w = []" "?m < 2 ^ 31" and le: "lo \<le> ?m" using assms(2) by (simp_all add: log_holds_def)
  have "set (filter (log_re base (int B)) (dir_entries dir w)) = (\<lambda>k. ?p @ digits 10 k) ` {lo..?m}"
    by (rule log_listing) (use assms in \<open>auto simp: log_holds_def\<close>)
  note l = this last_sort_names(1)[OF this _ le]
  have "filter (log_re base (int B)) (dir_entries dir w) \<noteq> []" using l(1) le by (metis empty_set image_is_empty atLeastatMost_empty_iff2)
  moreover define nm where "nm = ?p @ digits 10 ?m"
  moreover have "\<not> length nm \<le> 10" "drop (length nm - 10) nm = digits 10 ?m" by (simp_all add: nm_def log_name_prefix_def)
  moreover have "parse_int32 (digits 10 ?m) = int ?m" by (rule parse_int32_digits) (use h(2) in simp_all)
  moreover have "last (sort (filter (log_re base (int B)) (dir_entries dir w))) = nm" using l(2) h(2) nm_def by simp
  ultimately show ?thesis
    using h by (simp add: GetLastNumberedFile_def DirList_files_def Let_def)
qed

lemma GetLastNumberedFile_none:
  assumes "slash \<notin> set base" "results w = []" "\<And>k. k < 10 ^ 10 \<Longrightarrow> map_of (disk w) (log_name dir base B k) = None"
  shows "GetLastNumberedFile dir (log_re base (int B)) 10 w = Some (-1, w)"
proof -
  have "set (filter (log_re base (int B)) (dir_entries dir w)) = (\<lambda>k. log_name_prefix base (int B) @ digits 10 k) ` {}"
    by (rule log_listing) (use assms in auto)
  then show ?thesis using assms(2) by (simp add: GetLastNumberedFile_def DirList_files_def)
qed

text \<open>A log with bytes \<open>all\<close>, or none yet.\<close>

definition log_before :: "nat \<Rightarrow> bytes \<Rightarrow> bytes \<Rightarrow> nat \<Rightarrow> nat \<Rightarrow> bytes \<Rightarrow> world \<Rightarrow> bool" where
  "log_before lo dir base B N all w \<longleftrightarrow> log_holds lo dir base B N all w
     \<or> lo = 0 \<and> results w = [] \<and> 0 < B \<and> 0 < N \<and> all = [] \<and> (\<forall>k < 10 ^ 10. map_of (disk w) (log_name dir base B k) = None)"

lemma log_holds_put_other:
  "(\<And>k. p \<noteq> log_name dir base B k) \<Longrightarrow> log_holds lo dir base B N all (put_file p c w) = log_holds lo dir base B N all w"
proof -
  assume "\<And>k. p \<noteq> log_name dir base B k"
  then have "log_name dir base B k \<noteq> p" for k by metis
  then show ?thesis by (simp add: log_holds_def map_of_put_file)
qed

lemma Initialize_at:
  assumes names: "good_names dir base" and conf: "writer_conf dir base B N lw" "lw_file lw = File_new"
    and log: "log_before lo dir base B N all w" and lock: "map_of (disk w) (log_lock dir base) = None"
  shows "\<exists>f n c w'. Initialize pid lw w = Some (True, lw\<lparr>lw_file_num := n, lw_file := f\<rparr>, w')
     \<and> writer_at lo dir base B N all (lw\<lparr>lw_file_num := n, lw_file := f\<rparr>) w'
     \<and> frame_eq dir base B (put_file (log_lock dir base) c w) w'"
proof -
  let ?m = "length all div (B * N)" and ?l = "log_lock dir base"
  have lw: "lw_dir lw = dir" "lw_base lw = base" "lw_block_size lw = int B" "\<not> lw_temporary lw"
    using conf by (simp_all add: writer_conf_def)
  have BN: "results w = []" "0 < B" "0 < N" using log by (auto simp: log_before_def log_holds_def)
  have slash: "slash \<notin> set base" using names by (simp add: good_names_def)
  obtain c where c: "take_lock pid lw w = Some (True, put_file ?l c w)"
    using take_lock_free[of lw w pid] names lock BN(1) lw by auto
  let ?w1 = "put_file ?l c w"
  have other: "map_of (disk ?w1) (log_name dir base B k) = map_of (disk w) (log_name dir base B k)" for k
    using log_lock_other[of dir base B k] by (simp add: map_of_put_file)
  obtain n where n: "GetLastNumberedFile dir (log_re base (int B)) 10 ?w1 = Some (n, ?w1)" "n \<noteq> -2"
      "(if n = -1 then 0 else n) = int ?m"
    using GetLastNumberedFile_holds[OF slash, of lo dir B N all ?w1] GetLastNumberedFile_none[OF slash, of ?w1 dir B] log other BN(1)
      log_holds_put_other[OF log_lock_other]
    by (auto simp: log_before_def)
  let ?lw1 = "lw\<lparr>lw_file_num := int ?m\<rparr>" and ?n = "log_name dir base B ?m" and ?c = "drop (?m * (B * N)) all"
  have cont: "file_content ?n ?w1 = ?c"
    using log other by (auto simp: log_before_def log_holds_def file_content_def file_part_end)
  have len: "length ?c mod B = 0" "length ?c < B * N"
    using log BN(2,3) by (auto simp: log_before_def log_holds_def length_mod_parts mod_mod_cancel)
  have lw1: "writer_conf dir base B N ?lw1" "results ?w1 = []" "0 \<le> lw_file_num ?lw1"
    "?m = nat (if is_open (lw_file ?lw1) then lw_file_num ?lw1 + 1 else lw_file_num ?lw1)"
    using conf BN by (simp_all add: writer_conf_def is_open_def File_new_def)
  obtain f where f: "OpenNextLog ?lw1 ?w1 = Some (True, ?lw1\<lparr>lw_file_num := int ?m, lw_file := f\<rparr>, put_file ?n ?c ?w1)"
      "at_end f ?n ?c (put_file ?n ?c ?w1)"
    using OpenNextLog_opens[OF lw1 cont[symmetric] len] by (elim exE conjE) (rule that)
  have "log_holds lo dir base B N all (put_file ?n ?c ?w1)"
  proof (cases "log_holds lo dir base B N all w")
    case True
    then have "put_file ?n ?c ?w1 = ?w1"
      using other[of ?m] by (intro put_file_same) (auto simp: log_holds_def file_part_end)
    then show ?thesis using True log_holds_put_other[OF log_lock_other] by simp
  next
    case False
    then have none: "lo = 0" "all = []" "\<forall>k < 10 ^ 10. map_of (disk w) (log_name dir base B k) = None"
      using log by (auto simp: log_before_def)
    show ?thesis using none BN other
      by (auto simp: log_holds_def map_of_put_file log_name_inject file_part_def)
  qed
  then have "writer_at lo dir base B N all (?lw1\<lparr>lw_file_num := int ?m, lw_file := f\<rparr>) (put_file ?n ?c ?w1)"
    using f(2) conf(1) by (simp add: writer_at_def writer_conf_def)
  moreover have "Initialize pid lw w = Some (True, ?lw1\<lparr>lw_file_num := int ?m, lw_file := f\<rparr>, put_file ?n ?c ?w1)"
    unfolding Initialize_def c using n f(1) lw by (simp add: Let_def)
  moreover have "frame_eq dir base B ?w1 (put_file ?n ?c ?w1)" by simp
  ultimately show ?thesis by (intro exI[of _ f] exI[of _ "int ?m"] exI[of _ c] exI[of _ "put_file ?n ?c ?w1"]) simp
qed

lemma CloseLog_at:
  assumes "writer_at lo dir base B N all lw w"
  shows "CloseLog lw w = Some (lw\<lparr>lw_file := File_new\<rparr>, w)"
  using assms by (simp add: writer_at_def CloseLog_def File_Close_def at_end_def is_open_def Let_def writer_conf_def)

section \<open>Blocks of several sessions\<close>

text \<open>
  The blocks of a log with the checksum that each keeps of the one before it.  A writer that
  goes on with a log starts with the checksum 0, which the reader takes after any block.
\<close>

type_synonym linked_block = "32 word \<times> piece list"

definition sealed :: "(bytes \<Rightarrow> 32 word) \<Rightarrow> nat \<Rightarrow> linked_block \<Rightarrow> bytes" where
  "sealed crc32 B qb = block_content (int B) (fst qb) (snd qb) @ WriteBE (crc32 (block_content (int B) (fst qb) (snd qb)))"

definition log_bytes :: "(bytes \<Rightarrow> 32 word) \<Rightarrow> nat \<Rightarrow> linked_block list \<Rightarrow> bytes" where
  "log_bytes crc32 B qbs = concat (map (sealed crc32 B) qbs)"

fun link_blocks :: "(bytes \<Rightarrow> 32 word) \<Rightarrow> nat \<Rightarrow> 32 word \<Rightarrow> piece list list \<Rightarrow> linked_block list" where
  "link_blocks crc32 B prev [] = []"
| "link_blocks crc32 B prev (b # bs) = (prev, b) # link_blocks crc32 B (crc32 (block_content (int B) prev b)) bs"

fun end_crc :: "(bytes \<Rightarrow> 32 word) \<Rightarrow> nat \<Rightarrow> 32 word \<Rightarrow> linked_block list \<Rightarrow> 32 word" where
  "end_crc crc32 B p [] = p"
| "end_crc crc32 B p (qb # qbs) = end_crc crc32 B (crc32 (block_content (int B) (fst qb) (snd qb))) qbs"

fun linked :: "(bytes \<Rightarrow> 32 word) \<Rightarrow> nat \<Rightarrow> 32 word \<Rightarrow> linked_block list \<Rightarrow> bool" where
  "linked crc32 B p [] = True"
| "linked crc32 B p (qb # qbs) \<longleftrightarrow> (fst qb = 0 \<or> fst qb = p) \<and> snd qb \<noteq> [] \<and> fits (int B) (snd qb)
     \<and> linked crc32 B (crc32 (block_content (int B) (fst qb) (snd qb))) qbs"

lemma log_bytes_simps [simp]:
  "log_bytes crc32 B [] = []" "log_bytes crc32 B (qb # qbs) = sealed crc32 B qb @ log_bytes crc32 B qbs"
  "log_bytes crc32 B (qbs @ rbs) = log_bytes crc32 B qbs @ log_bytes crc32 B rbs"
  by (simp_all add: log_bytes_def)

lemma end_crc_append [simp]: "end_crc crc32 B p (qbs @ rbs) = end_crc crc32 B (end_crc crc32 B p qbs) rbs"
  by (induction qbs arbitrary: p) auto

lemma linked_append [simp]:
  "linked crc32 B p (qbs @ rbs) \<longleftrightarrow> linked crc32 B p qbs \<and> linked crc32 B (end_crc crc32 B p qbs) rbs"
  by (induction qbs arbitrary: p) auto

lemma link_blocks_facts:
  "log_bytes crc32 B (link_blocks crc32 B prev bs) = enc_blocks crc32 (int B) prev bs"
  "concat (map snd (link_blocks crc32 B prev bs)) = concat bs"
  "length (link_blocks crc32 B prev bs) = length bs"
  "end_crc crc32 B p (link_blocks crc32 B prev bs) = (if bs = [] then p else last_crc crc32 (int B) prev bs)"
  by (induction bs arbitrary: prev p) (auto simp: sealed_def Let_def)

lemma linked_link_blocks:
  "\<forall>b \<in> set bs. b \<noteq> [] \<and> fits (int B) b \<Longrightarrow> prev = 0 \<or> prev = p \<Longrightarrow> linked crc32 B p (link_blocks crc32 B prev bs)"
  by (induction bs arbitrary: prev p) auto

lemma length_sealed: "fits (int B) (snd qb) \<Longrightarrow> length (sealed crc32 B qb) = B"
  using length_block_content[of "int B" "snd qb" "fst qb"] by (simp add: sealed_def)

lemma length_log_bytes: "linked crc32 B p qbs \<Longrightarrow> length (log_bytes crc32 B qbs) = B * length qbs"
  by (induction qbs arbitrary: p) (auto simp: length_sealed)

lemma length_concat_linked: "linked crc32 B p qbs \<Longrightarrow> length qbs \<le> length (concat (map snd qbs))"
proof (induction qbs arbitrary: p)
  case (Cons qb qbs)
  then have "0 < length (snd qb)" "length qbs \<le> length (concat (map snd qbs))" by auto
  then show ?case by (simp del: length_greater_0_conv)
qed simp

text \<open>The pieces of a sequence of records, and how many they can be.\<close>

definition encode_records :: "bytes list \<Rightarrow> piece list \<Rightarrow> bool" where
  "encode_records xs ps \<longleftrightarrow> (\<exists>frs. list_all2 (fragments True) xs frs \<and> ps = concat frs)"

definition weight :: "bytes list \<Rightarrow> nat" where
  "weight xs = sum_list (map (\<lambda>x. Suc (length x)) xs)"

lemma fragments_length: "fragments first x fr \<Longrightarrow> length fr \<le> Suc (length x)"
  by (induction first x fr rule: fragments.induct) (auto simp: neq_Nil_conv intro!: trans_le_add2)

lemma encode_records_Nil [simp]: "encode_records [] ps \<longleftrightarrow> ps = []"
  by (simp add: encode_records_def)

lemma encode_records_Cons: "encode_records (x # xs) ps \<longleftrightarrow> (\<exists>fr qs. fragments True x fr \<and> encode_records xs qs \<and> ps = fr @ qs)"
  by (fastforce simp: encode_records_def list_all2_Cons1)

lemma encode_records_append: "encode_records xs ps \<Longrightarrow> encode_records ys qs \<Longrightarrow> encode_records (xs @ ys) (ps @ qs)"
  by (induction xs arbitrary: ps) (auto simp: encode_records_Cons)

lemma encode_records_length: "encode_records xs ps \<Longrightarrow> length ps \<le> weight xs"
  by (induction xs arbitrary: ps) (auto simp: encode_records_Cons weight_def dest!: fragments_length, fastforce)

text \<open>Records that always have room in what the recorder may keep are written in one piece.\<close>

definition laid_out :: "int \<Rightarrow> nat \<Rightarrow> bytes list \<Rightarrow> piece list \<Rightarrow> bool" where
  "laid_out dump B xs ps \<longleftrightarrow> encode_records xs ps
     \<and> ((\<forall>x \<in> set xs. int (length x) + dump \<le> int B - 16) \<longrightarrow> ps = map (Pair IS_FIRST) xs)"

lemma laid_out_Nil [simp]: "laid_out dump B [] ps \<longleftrightarrow> ps = []"
  by (auto simp: laid_out_def)

lemma laid_out_Cons:
  "fragments True x fr \<Longrightarrow> int (length x) + dump \<le> int B - 16 \<longrightarrow> fr = [(IS_FIRST, x)] \<Longrightarrow> laid_out dump B xs ps
     \<Longrightarrow> laid_out dump B (x # xs) (fr @ ps)"
  by (auto simp: laid_out_def encode_records_Cons)

lemma laid_out_append: "laid_out dump B xs ps \<Longrightarrow> laid_out dump B ys qs \<Longrightarrow> laid_out dump B (xs @ ys) (ps @ qs)"
  by (auto simp: laid_out_def encode_records_append)

lemma laid_out_encode: "laid_out dump B xs ps \<Longrightarrow> encode_records xs ps"
  by (simp add: laid_out_def)

section \<open>Writing records\<close>

text \<open>Between two calls a writer has the blocks \<open>qbs\<close> in its files and the pieces \<open>ps\<close> in its recorder.\<close>

definition writer_inv ::
    "(bytes \<Rightarrow> 32 word) \<Rightarrow> bool \<Rightarrow> int \<Rightarrow> nat \<Rightarrow> bytes \<Rightarrow> bytes \<Rightarrow> nat \<Rightarrow> nat \<Rightarrow> linked_block list \<Rightarrow> piece list
       \<Rightarrow> log_writer \<Rightarrow> world \<Rightarrow> bool" where
  "writer_inv crc32 zl dump lo dir base B N qbs ps lw w \<longleftrightarrow>
     writer_at lo dir base B N (log_bytes crc32 B qbs) lw w \<and> lw_buf lw = []
     \<and> (\<exists>prev. writer_holds zl (int B) dump (lw_recorder lw) prev ps \<and> (prev = 0 \<or> prev = end_crc crc32 B 0 qbs))
     \<and> linked crc32 B 0 qbs \<and> int (length (enc_pieces ps)) \<le> dump \<and> 0 \<le> dump \<and> dump < int B - 16"

lemma room_for_blocks:
  assumes "linked crc32 B 0 qbs" "length qbs < 2 ^ 31" "0 < B"
  shows "length (log_bytes crc32 B qbs) div (B * N) < 2 ^ 31"
proof -
  have "length (log_bytes crc32 B qbs) div (B * N) = length qbs div N"
    using length_log_bytes[OF assms(1)] assms(3) by simp
  also have "\<dots> \<le> length qbs" by simp
  finally show ?thesis using assms(2) by simp
qed

lemma write_blocks_at:
  assumes "writer_at lo dir base B N (log_bytes crc32 B qbs) lw w" "lw_buf lw = enc_blocks crc32 (int B) prev bs"
    and "\<forall>b \<in> set bs. b \<noteq> [] \<and> fits (int B) b" "prev = 0 \<or> prev = end_crc crc32 B 0 qbs" "linked crc32 B 0 qbs"
    and "length qbs + length bs < 2 ^ 31"
  shows "\<exists>lw' w'. write_buffer_loop lw w = Some (True, lw', w')
     \<and> writer_at lo dir base B N (log_bytes crc32 B (qbs @ link_blocks crc32 B prev bs)) lw' w' \<and> lw_buf lw' = []
     \<and> linked crc32 B 0 (qbs @ link_blocks crc32 B prev bs)
     \<and> lw_recorder lw' = lw_recorder lw \<and> frame_eq dir base B w w'"
proof -
  let ?new = "link_blocks crc32 B prev bs"
  have l: "linked crc32 B 0 (qbs @ ?new)" using linked_link_blocks[of bs B prev] assms(3-5) by simp
  have B: "0 < B" using assms(1) by (simp add: writer_at_def log_holds_def)
  have buf: "lw_buf lw = log_bytes crc32 B ?new" using assms(2) by (simp add: link_blocks_facts)
  have len: "length (lw_buf lw) mod B = 0" using l length_log_bytes[of crc32 B "end_crc crc32 B 0 qbs" ?new] by (simp add: buf)
  have room: "(length (log_bytes crc32 B qbs) + length (lw_buf lw)) div (B * N) < 2 ^ 31"
    using room_for_blocks[OF l _ B, of N] assms(6) by (simp add: buf link_blocks_facts)
  show ?thesis using write_buffer_loop_at[OF assms(1) len room] l buf by auto
qed

lemma WriteRecord_inv:
  assumes inv: "writer_inv crc32 zl dump lo dir base B N qbs ps lw w" and x: "storable zl deflate x"
    and room: "length qbs + length ps + weight [stored zl deflate x] < 2 ^ 31"
  shows "\<exists>new qs fr lw' w'. WriteRecord crc32 deflate x lw w = Some (True, lw', w')
     \<and> writer_inv crc32 zl dump lo dir base B N (qbs @ new) qs lw' w'
     \<and> fragments True (stored zl deflate x) fr \<and> ps @ fr = concat (map snd new) @ qs \<and> frame_eq dir base B w w'
     \<and> (int (length (stored zl deflate x)) + dump \<le> int B - 16 \<longrightarrow> fr = [(IS_FIRST, stored zl deflate x)])"
proof -
  obtain prev where prev: "writer_holds zl (int B) dump (lw_recorder lw) prev ps" "prev = 0 \<or> prev = end_crc crc32 B 0 qbs"
    and at: "writer_at lo dir base B N (log_bytes crc32 B qbs) lw w" "lw_buf lw = []" "linked crc32 B 0 qbs"
    and d: "int (length (enc_pieces ps)) \<le> dump" "0 \<le> dump" "dump < int B - 16"
    using inv by (auto simp: writer_inv_def)
  obtain buf y where xy: "x = (buf, y)" by (cases x)
  obtain ready bs qs fr r where a:
    "(case append_pieces crc32 True (stored zl deflate x) (lw_recorder lw) of None \<Rightarrow> None | Some r \<Rightarrow> maybe_dump crc32 r)
       = Some ((ready, enc_blocks crc32 (int B) prev bs), r)"
    "writer_holds zl (int B) dump r (last_crc crc32 (int B) prev bs) qs" "int (length (enc_pieces qs)) \<le> dump"
    "\<forall>b \<in> set bs. b \<noteq> [] \<and> fits (int B) b" "fragments True (stored zl deflate x) fr" "ps @ fr = concat bs @ qs"
    "ready \<longleftrightarrow> bs \<noteq> []" "int (length (stored zl deflate x)) + dump \<le> int B - 16 \<longrightarrow> fr = [(IS_FIRST, stored zl deflate x)]"
    using append_dump_holds[OF prev(1) d, of crc32 "stored zl deflate x"] by blast
  define lw1 where "lw1 = lw\<lparr>lw_buf := enc_blocks crc32 (int B) prev bs, lw_recorder := r\<rparr>"
  have zl: "rw_zlib (lw_recorder lw) = zl" using prev(1) by (simp add: writer_holds_def)
  have ap: "append_record crc32 deflate x lw = Some (ready, lw1)"
    using AppendRecord_stored[of "lw_recorder lw" deflate buf y crc32] a(1) x at(2) xy zl
    by (cases buf) (auto simp: append_record_def lw1_def)
  have op: "is_open (lw_file lw)" using at(1) by (simp add: writer_at_def at_end_def is_open_def)
  have step: "WriteRecord crc32 deflate x lw w = (if ready then WriteBuffer False lw1 w else Some (True, lw1, w))"
    using op ap by (simp add: WriteRecord_def)
  have at1: "writer_at lo dir base B N (log_bytes crc32 B qbs) lw1 w"
    using at(1) by (simp add: writer_at_def writer_conf_def lw1_def)
  show ?thesis
  proof (cases "bs = []")
    case True
    have "writer_inv crc32 zl dump lo dir base B N (qbs @ []) qs lw1 w"
      using at1 True prev(2) a(2,3) at(3) d by (auto simp: writer_inv_def lw1_def)
    then show ?thesis
      using step a(5-8) True by (intro exI[of _ "[]"] exI[of _ qs] exI[of _ fr] exI[of _ lw1] exI[of _ w]) simp
  next
    case False
    have "length bs \<le> length (concat bs)"
      using length_concat_linked[OF linked_link_blocks[OF a(4), of 0 0 crc32]] by (simp add: link_blocks_facts)
    moreover have "length (concat bs @ qs) = length ps + length fr" unfolding a(6)[symmetric] by simp
    ultimately have "length bs \<le> length ps + length fr" by simp
    then have "length qbs + length bs < 2 ^ 31"
      using room fragments_length[OF a(5)] by (simp add: weight_def)
    from write_blocks_at[OF at1 _ a(4) prev(2) at(3) this] obtain lw2 w2 where w2:
      "write_buffer_loop lw1 w = Some (True, lw2, w2)"
      "writer_at lo dir base B N (log_bytes crc32 B (qbs @ link_blocks crc32 B prev bs)) lw2 w2" "lw_buf lw2 = []"
      "linked crc32 B 0 (qbs @ link_blocks crc32 B prev bs)" "lw_recorder lw2 = r" "frame_eq dir base B w w2"
      by (auto simp: lw1_def)
    have "writer_inv crc32 zl dump lo dir base B N (qbs @ link_blocks crc32 B prev bs) qs lw2 w2"
      using w2 a(2,3) False d by (auto simp: writer_inv_def link_blocks_facts)
    moreover have "WriteRecord crc32 deflate x lw w = Some (True, lw2, w2)"
      using step a(7) False w2(1) by (simp add: WriteBuffer_def)
    moreover have "ps @ fr = concat (map snd (link_blocks crc32 B prev bs)) @ qs" using a(6) by (simp add: link_blocks_facts)
    ultimately show ?thesis using a(5,8) w2(6) by blast
  qed
qed

text \<open>Records one after the other.\<close>

fun write_all ::
    "(bytes \<Rightarrow> 32 word) \<Rightarrow> (bytes \<Rightarrow> bytes option) \<Rightarrow> (bool \<times> bytes) list \<Rightarrow> log_writer \<Rightarrow> world
       \<Rightarrow> (log_writer \<times> world) option" where
  "write_all crc32 deflate [] lw w = Some (lw, w)"
| "write_all crc32 deflate (x # xs) lw w = (case WriteRecord crc32 deflate x lw w of
     Some (True, lw1, w1) \<Rightarrow> write_all crc32 deflate xs lw1 w1
   | _ \<Rightarrow> None)"

lemma write_all_inv:
  assumes "writer_inv crc32 zl dump lo dir base B N qbs ps lw w" "\<forall>x \<in> set xs. storable zl deflate x"
    and "length qbs + length ps + weight (map (stored zl deflate) xs) < 2 ^ 31"
  shows "\<exists>new qs fs lw' w'. write_all crc32 deflate xs lw w = Some (lw', w')
     \<and> writer_inv crc32 zl dump lo dir base B N (qbs @ new) qs lw' w'
     \<and> laid_out dump B (map (stored zl deflate) xs) fs \<and> ps @ fs = concat (map snd new) @ qs \<and> frame_eq dir base B w w'"
  using assms
proof (induction xs arbitrary: qbs ps lw w)
  case Nil
  then show ?case by (intro exI[of _ "[]"] exI[of _ ps] exI[of _ lw] exI[of _ w]) simp
next
  case (Cons x xs)
  have x: "storable zl deflate x" "length qbs + length ps + weight [stored zl deflate x] < 2 ^ 31"
    using Cons.prems(2,3) by (simp_all add: weight_def)
  obtain new qs fr lw1 w1 where s: "WriteRecord crc32 deflate x lw w = Some (True, lw1, w1)"
     "writer_inv crc32 zl dump lo dir base B N (qbs @ new) qs lw1 w1"
     "fragments True (stored zl deflate x) fr" "ps @ fr = concat (map snd new) @ qs" "frame_eq dir base B w w1"
     "int (length (stored zl deflate x)) + dump \<le> int B - 16 \<longrightarrow> fr = [(IS_FIRST, stored zl deflate x)]"
    using WriteRecord_inv[OF Cons.prems(1) x] by blast
  have "linked crc32 B (end_crc crc32 B 0 qbs) new" using s(2) by (simp add: writer_inv_def)
  then have "length new + length qs \<le> length ps + length fr"
    using length_concat_linked[of crc32 B _ new] arg_cong[OF s(4), of length] by simp
  then have room: "length (qbs @ new) + length qs + weight (map (stored zl deflate) xs) < 2 ^ 31"
    using Cons.prems(3) fragments_length[OF s(3)] by (simp add: weight_def)
  obtain new' qs' fs lw2 w2 where r: "write_all crc32 deflate xs lw1 w1 = Some (lw2, w2)"
     "writer_inv crc32 zl dump lo dir base B N ((qbs @ new) @ new') qs' lw2 w2"
     "laid_out dump B (map (stored zl deflate) xs) fs" "qs @ fs = concat (map snd new') @ qs'" "frame_eq dir base B w1 w2"
    using Cons.IH[OF s(2) _ room] Cons.prems(2) by auto
  have "ps @ (fr @ fs) = concat (map snd (new @ new')) @ qs'"
    using s(4) r(4) by (metis append_assoc concat_append map_append)
  moreover have "laid_out dump B (map (stored zl deflate) (x # xs)) (fr @ fs)"
    using laid_out_Cons[OF s(3,6) r(3)] by simp
  ultimately show ?case
    using s(1) r(1,2) frame_eq_trans[OF s(5) r(5)] by (intro exI[of _ "new @ new'"] exI[of _ qs'] exI[of _ "fr @ fs"]) auto
qed

text \<open>\<^verbatim>\<open>Flush\<close> and \<^verbatim>\<open>Close\<close> leave nothing in the recorder.\<close>

lemma finalize_at:
  assumes "writer_inv crc32 zl dump lo dir base B N qbs ps lw w" "length qbs < 2 ^ 31 - 1"
  shows "\<exists>lw1 lw2 w2 new. finalize_recorder crc32 lw = Some lw1 \<and> write_buffer_loop lw1 w = Some (True, lw2, w2)
     \<and> writer_inv crc32 zl dump lo dir base B N (qbs @ new) [] lw2 w2 \<and> concat (map snd new) = ps
     \<and> frame_eq dir base B w w2 \<and> (lw_buf lw1 = [] \<longrightarrow> lw2 = lw1 \<and> w2 = w) \<and> leftover (lw_recorder lw2) = 0"
proof -
  obtain prev where prev: "writer_holds zl (int B) dump (lw_recorder lw) prev ps" "prev = 0 \<or> prev = end_crc crc32 B 0 qbs"
    and at: "writer_at lo dir base B N (log_bytes crc32 B qbs) lw w" "lw_buf lw = []" "linked crc32 B 0 qbs"
    and d: "int (length (enc_pieces ps)) \<le> dump" "0 \<le> dump" "dump < int B - 16"
    using assms(1) by (auto simp: writer_inv_def)
  define bs where "bs = (if ps = [] then [] else [ps])"
  have fin: "\<exists>r. FinalizeContent crc32 (lw_recorder lw) = Some (enc_blocks crc32 (int B) prev bs, r)
      \<and> writer_holds zl (int B) dump r (last_crc crc32 (int B) prev bs) []"
  proof (cases "ps = []")
    case True
    then show ?thesis using prev(1) by (simp add: bs_def FinalizeContent_def writer_holds_def)
  next
    case False
    then show ?thesis using FinalizeContent_holds[OF prev(1) False, of crc32] by (simp add: bs_def)
  qed
  then obtain r where r: "FinalizeContent crc32 (lw_recorder lw) = Some (enc_blocks crc32 (int B) prev bs, r)"
      "writer_holds zl (int B) dump r (last_crc crc32 (int B) prev bs) []" by blast
  define lw1 where "lw1 = lw\<lparr>lw_buf := enc_blocks crc32 (int B) prev bs, lw_recorder := r\<rparr>"
  have fits: "\<forall>b \<in> set bs. b \<noteq> [] \<and> fits (int B) b" using prev(1) by (simp add: bs_def writer_holds_def)
  have at1: "writer_at lo dir base B N (log_bytes crc32 B qbs) lw1 w"
    using at(1) by (simp add: writer_at_def writer_conf_def lw1_def)
  have "length qbs + length bs < 2 ^ 31" using assms(2) by (simp add: bs_def)
  from write_blocks_at[OF at1 _ fits prev(2) at(3) this] obtain lw2 w2 where w2:
      "write_buffer_loop lw1 w = Some (True, lw2, w2)"
      "writer_at lo dir base B N (log_bytes crc32 B (qbs @ link_blocks crc32 B prev bs)) lw2 w2" "lw_buf lw2 = []"
      "linked crc32 B 0 (qbs @ link_blocks crc32 B prev bs)" "lw_recorder lw2 = r" "frame_eq dir base B w w2"
    by (auto simp: lw1_def)
  have "writer_inv crc32 zl dump lo dir base B N (qbs @ link_blocks crc32 B prev bs) [] lw2 w2"
    using w2 r(2) d prev(2) by (auto simp: writer_inv_def link_blocks_facts)
  moreover have "concat (map snd (link_blocks crc32 B prev bs)) = ps" by (simp add: link_blocks_facts bs_def)
  moreover have "finalize_recorder crc32 lw = Some lw1" using r(1) at(2) by (simp add: finalize_recorder_def lw1_def)
  moreover have "leftover (lw_recorder lw2) = 0" using w2(5) r(2) by (simp add: leftover_def writer_holds_def)
  moreover have "lw2 = lw1 \<and> w2 = w" if "lw_buf lw1 = []"
    using that w2(1) at1 by (simp add: write_buffer_loop.simps[of lw1 w] write_buffer_step_def writer_at_def
        at_end_position Let_def split: option.splits) (auto simp: at_end_def File_Position_def is_open_def)
  ultimately show ?thesis using w2(1,6) by blast
qed

lemma Flush_inv:
  assumes "writer_inv crc32 zl dump lo dir base B N qbs ps lw w" "length qbs < 2 ^ 31 - 1"
  shows "\<exists>new lw' w'. Flush crc32 lw w = Some (True, lw', w')
     \<and> writer_inv crc32 zl dump lo dir base B N (qbs @ new) [] lw' w' \<and> concat (map snd new) = ps \<and> frame_eq dir base B w w'"
proof -
  obtain lw1 lw2 w2 new where f: "finalize_recorder crc32 lw = Some lw1" "write_buffer_loop lw1 w = Some (True, lw2, w2)"
     "writer_inv crc32 zl dump lo dir base B N (qbs @ new) [] lw2 w2" "concat (map snd new) = ps"
     "frame_eq dir base B w w2" "lw_buf lw1 = [] \<longrightarrow> lw2 = lw1 \<and> w2 = w"
    using finalize_at[OF assms] by blast
  have "is_open (lw_file lw2)" "results w2 = []"
    using f(3) by (auto simp: writer_inv_def writer_at_def at_end_def is_open_def log_holds_def)
  then have "Flush crc32 lw w = Some (True, lw2, w2)"
    using f(1,2,6) by (simp add: Flush_def WriteBuffer_def File_Flush_def)
  then show ?thesis using f(3-5) by blast
qed

lemma LogWriter_Close_inv:
  assumes "writer_inv crc32 zl dump lo dir base B N qbs ps lw w" "length qbs < 2 ^ 31 - 1" "good_names dir base"
  shows "\<exists>new lw' w'. LogWriter_Close crc32 lw w = Some (lw', w') \<and> lw_buf lw' = [] \<and> leftover (lw_recorder lw') = 0
     \<and> \<not> is_open (lw_file lw')
     \<and> log_holds lo dir base B N (log_bytes crc32 B (qbs @ new)) w' \<and> linked crc32 B 0 (qbs @ new)
     \<and> concat (map snd new) = ps \<and> map_of (disk w') (log_lock dir base) = None \<and> outside_eq dir base B w w'"
proof -
  obtain lw1 lw2 w2 new where f: "finalize_recorder crc32 lw = Some lw1" "write_buffer_loop lw1 w = Some (True, lw2, w2)"
     "writer_inv crc32 zl dump lo dir base B N (qbs @ new) [] lw2 w2" "concat (map snd new) = ps" "leftover (lw_recorder lw2) = 0"
     "frame_eq dir base B w w2"
    using finalize_at[OF assms(1,2)] by blast
  let ?lw = "lw2\<lparr>lw_file := File_new\<rparr>" and ?l = "log_lock dir base"
  have at: "writer_at lo dir base B N (log_bytes crc32 B (qbs @ new)) lw2 w2" "lw_buf lw2 = []" "linked crc32 B 0 (qbs @ new)"
    using f(3) by (simp_all add: writer_inv_def)
  have op: "is_open (lw_file lw)" using assms(1) by (simp add: writer_inv_def writer_at_def at_end_def is_open_def)
  have lock: "lock_name ?lw = ?l"
    using lock_name_eq[of ?lw] assms(3) at(1) by (simp add: writer_at_def writer_conf_def)
  have w: "log_holds lo dir base B N (log_bytes crc32 B (qbs @ new)) w2" using at(1) by (simp add: writer_at_def)
  then have none: "results w2 = []" by (simp add: log_holds_def)
  let ?w3 = "snd (Rm ?l w2)"
  have "map_of (disk ?w3) ?l = None" "results ?w3 = []"
    "map_of (disk ?w3) (log_name dir base B k) = map_of (disk w2) (log_name dir base B k)" for k
    using none log_lock_other[of dir base B k] by (auto simp: Rm_def sys_unlink_def IsReadableFile_def delete_conv')
  moreover have "LogWriter_Close crc32 lw w = Some (?lw, ?w3)"
    using op f(1,2) CloseLog_at[OF at(1)] lock by (simp add: LogWriter_Close_def WriteBuffer_def)
  moreover have "log_holds lo dir base B N (log_bytes crc32 B (qbs @ new)) ?w3"
    using w calculation(2,3) unfolding log_holds_def by simp
  moreover have "outside_eq dir base B w2 ?w3"
    by (auto simp: outside_eq_def Rm_def sys_unlink_def IsReadableFile_def delete_conv' none log_lock_def)
  ultimately show ?thesis
    using at f(4,5) outside_eq_trans[OF frame_outside[OF f(6)]]
    by (intro exI[of _ new] exI[of _ ?lw] exI[of _ ?w3]) (simp add: File_new_def is_open_def)
qed

section \<open>Sessions\<close>

text \<open>A process that opens the log, writes records and closes it, and one after the other.\<close>

definition log_session ::
    "(bytes \<Rightarrow> 32 word) \<Rightarrow> (bytes \<Rightarrow> bytes option) \<Rightarrow> log_writer \<Rightarrow> int \<Rightarrow> (bool \<times> bytes) list \<Rightarrow> world \<Rightarrow> world option" where
  "log_session crc32 deflate lw pid xs w = (case Initialize pid lw w of
     Some (True, lw1, w1) \<Rightarrow> do {
       (lw2, w2) \<leftarrow> write_all crc32 deflate xs lw1 w1;
       LogWriter_destroy crc32 lw2 w2 }
   | _ \<Rightarrow> None)"

fun log_sessions ::
    "(bytes \<Rightarrow> 32 word) \<Rightarrow> (bytes \<Rightarrow> bytes option) \<Rightarrow> log_writer \<Rightarrow> (int \<times> (bool \<times> bytes) list) list \<Rightarrow> world \<Rightarrow> world option" where
  "log_sessions crc32 deflate lw [] w = Some w"
| "log_sessions crc32 deflate lw ((pid, xs) # ss) w = do {
     w1 \<leftarrow> log_session crc32 deflate lw pid xs w;
     log_sessions crc32 deflate lw ss w1 }"

definition log_contents ::
    "(bytes \<Rightarrow> 32 word) \<Rightarrow> nat \<Rightarrow> bytes \<Rightarrow> bytes \<Rightarrow> nat \<Rightarrow> nat \<Rightarrow> linked_block list \<Rightarrow> world \<Rightarrow> bool" where
  "log_contents crc32 lo dir base B N qbs w \<longleftrightarrow> log_before lo dir base B N (log_bytes crc32 B qbs) w
     \<and> linked crc32 B 0 qbs \<and> map_of (disk w) (log_lock dir base) = None"

lemma Initialize_inv:
  assumes new: "LogWriter_new dir base (int B) (int N) False zl dump = Some lw" "good_names dir base" "0 \<le> dump" "dump < int B - 16"
    and log: "log_contents crc32 lo dir base B N qbs w"
  shows "\<exists>lw' w'. Initialize pid lw w = Some (True, lw', w') \<and> writer_inv crc32 zl dump lo dir base B N qbs [] lw' w'
     \<and> outside_eq dir base B w w'"
proof -
  obtain r where r: "RecordWriter_new (int B) zl dump = Some r"
    and lw: "lw = \<lparr>lw_dir = dir, lw_base = base, lw_block_size = int B,
         lw_blocks_per_file = int N, lw_temporary = False, lw_file_num = -1,
         lw_file = File_new, lw_buf = [], lw_recorder = r\<rparr>"
    using new(1) by (auto simp: LogWriter_new_def)
  have conf: "writer_conf dir base B N lw" "lw_file lw = File_new" by (simp_all add: lw writer_conf_def)
  have h: "writer_holds zl (int B) dump r 0 []"
    using r new(3,4) by (auto simp: RecordWriter_new_def writer_holds_def fits_def split: if_splits)
  obtain f n c w' where i: "Initialize pid lw w = Some (True, lw\<lparr>lw_file_num := n, lw_file := f\<rparr>, w')"
     "writer_at lo dir base B N (log_bytes crc32 B qbs) (lw\<lparr>lw_file_num := n, lw_file := f\<rparr>) w'"
     "frame_eq dir base B (put_file (log_lock dir base) c w) w'"
    using Initialize_at[OF new(2) conf, of lo "log_bytes crc32 B qbs" w pid] log by (auto simp: log_contents_def)
  have "outside_eq dir base B w (put_file (log_lock dir base) c w)"
    by (simp add: outside_eq_def map_of_put_file log_lock_def)
  then have "outside_eq dir base B w w'" using frame_outside[OF i(3)] outside_eq_trans by blast
  then show ?thesis
    using i(1,2) h log new(3,4) by (auto simp: writer_inv_def log_contents_def lw intro!: exI[of _ 0])
qed

lemma log_session_holds:
  assumes new: "LogWriter_new dir base (int B) (int N) False zl dump = Some lw" "good_names dir base" "0 \<le> dump" "dump < int B - 16"
    and log: "log_contents crc32 lo dir base B N qbs w" and xs: "\<forall>x \<in> set xs. storable zl deflate x"
    and room: "length qbs + weight (map (stored zl deflate) xs) < 2 ^ 31 - 1"
  shows "\<exists>new w'. log_session crc32 deflate lw pid xs w = Some w' \<and> log_contents crc32 lo dir base B N (qbs @ new) w'
     \<and> laid_out dump B (map (stored zl deflate) xs) (concat (map snd new))"
proof -
  obtain lw1 w1 where i: "Initialize pid lw w = Some (True, lw1, w1)" "writer_inv crc32 zl dump lo dir base B N qbs [] lw1 w1"
    using Initialize_inv[OF new log] by blast
  have r1: "length qbs + length [] + weight (map (stored zl deflate) xs) < 2 ^ 31" using room by simp
  obtain new ps fs lw2 w2 where a: "write_all crc32 deflate xs lw1 w1 = Some (lw2, w2)"
     "writer_inv crc32 zl dump lo dir base B N (qbs @ new) ps lw2 w2"
     "laid_out dump B (map (stored zl deflate) xs) fs" "[] @ fs = concat (map snd new) @ ps"
    using write_all_inv[OF i(2) xs r1] by blast
  have "linked crc32 B (end_crc crc32 B 0 qbs) new" using a(2) by (simp add: writer_inv_def)
  then have "length new \<le> length fs" using length_concat_linked[of crc32 B "end_crc crc32 B 0 qbs" new] a(4) by simp
  then have "length (qbs @ new) < 2 ^ 31 - 1" using encode_records_length[OF laid_out_encode[OF a(3)]] room by simp
  from LogWriter_Close_inv[OF a(2) this new(2)] obtain last lw3 w3 where c:
     "LogWriter_Close crc32 lw2 w2 = Some (lw3, w3)" "lw_buf lw3 = []" "leftover (lw_recorder lw3) = 0"
     "log_holds lo dir base B N (log_bytes crc32 B ((qbs @ new) @ last)) w3" "linked crc32 B 0 ((qbs @ new) @ last)"
     "concat (map snd last) = ps" "map_of (disk w3) (log_lock dir base) = None"
    by blast
  have "log_session crc32 deflate lw pid xs w = Some w3"
    using i(1) a(1) c(1-3) by (simp add: log_session_def LogWriter_destroy_def)
  moreover have "log_contents crc32 lo dir base B N (qbs @ (new @ last)) w3"
    using c(4,5,7) by (simp add: log_contents_def log_before_def)
  moreover have "laid_out dump B (map (stored zl deflate) xs) (concat (map snd (new @ last)))"
    using a(3,4) c(6) by simp
  ultimately show ?thesis by blast
qed

lemma log_sessions_hold:
  assumes new: "LogWriter_new dir base (int B) (int N) False zl dump = Some lw" "good_names dir base" "0 \<le> dump" "dump < int B - 16"
    and log: "log_contents crc32 lo dir base B N qbs w" and xs: "\<forall>s \<in> set ss. \<forall>x \<in> set (snd s). storable zl deflate x"
    and room: "length qbs + weight (map (stored zl deflate) (concat (map snd ss))) < 2 ^ 31 - 1"
  shows "\<exists>new w'. log_sessions crc32 deflate lw ss w = Some w' \<and> log_contents crc32 lo dir base B N (qbs @ new) w'
     \<and> laid_out dump B (map (stored zl deflate) (concat (map snd ss))) (concat (map snd new))"
  using log xs room
proof (induction ss arbitrary: qbs w)
  case Nil
  then show ?case by (intro exI[of _ "[]"] exI[of _ w]) simp
next
  case (Cons s ss)
  obtain pid xs where s: "s = (pid, xs)" by (cases s)
  obtain n1 w1 where a: "log_session crc32 deflate lw pid xs w = Some w1" "log_contents crc32 lo dir base B N (qbs @ n1) w1"
     "laid_out dump B (map (stored zl deflate) xs) (concat (map snd n1))"
    using log_session_holds[OF new Cons.prems(1), of xs deflate pid] Cons.prems(2,3) s by (auto simp: weight_def)
  have "linked crc32 B (end_crc crc32 B 0 qbs) n1" using a(2) by (simp add: log_contents_def)
  then have "length n1 \<le> weight (map (stored zl deflate) xs)"
    using length_concat_linked[of crc32 B "end_crc crc32 B 0 qbs" n1] encode_records_length[OF laid_out_encode[OF a(3)]] by linarith
  then have "length (qbs @ n1) + weight (map (stored zl deflate) (concat (map snd ss))) < 2 ^ 31 - 1"
    using Cons.prems(3) s by (simp add: weight_def)
  then obtain n2 w2 where r: "log_sessions crc32 deflate lw ss w1 = Some w2" "log_contents crc32 lo dir base B N ((qbs @ n1) @ n2) w2"
     "laid_out dump B (map (stored zl deflate) (concat (map snd ss))) (concat (map snd n2))"
    using Cons.IH[OF a(2)] Cons.prems(2) by auto
  have "laid_out dump B (map (stored zl deflate) (concat (map snd (s # ss)))) (concat (map snd (n1 @ n2)))"
    using laid_out_append[OF a(3) r(3)] s by simp
  then show ?case using a(1) r(1,2) s by (intro exI[of _ "n1 @ n2"] exI[of _ w2]) simp
qed

end
