(* ===== verification/LogReading.thy ===== *)
theory LogReading
  imports LogLaws
begin

text \<open>
  The reader of a log: it goes through the blocks of all files one at a time, and the records
  that they encode come out in order.
\<close>

section \<open>Records from the content of a block\<close>

definition content_holds :: "nat \<Rightarrow> bytes \<Rightarrow> piece list \<Rightarrow> record_reader \<Rightarrow> bool" where
  "content_holds B acc ps r \<longleftrightarrow> rr_block_size r = int B \<and> int B < 2 ^ 24 \<and> 12 \<le> B \<and> record_content r = acc
     \<and> \<not> skip_record r \<and> rr_content r = enc_pieces ps \<and> fits (int B) ps"

lemma content_piece:
  assumes "content_holds B acc ((f, d) # ps) r"
  shows "read_record_step crc32 inflate wanted s r = read_piece inflate wanted s r"
    and "read_piece_header r = Some (f, length d, r\<lparr>rr_content := d @ enc_pieces ps\<rparr>)"
    and "record_content r = acc"
    and "content_holds B acc' ps (r\<lparr>rr_content := enc_pieces ps, record_content := acc'\<rparr>)"
proof -
  have "rr_content r \<noteq> []" "skip_loop r = Some r" using assms by (auto simp: content_holds_def skip_loop.simps)
  then show "read_record_step crc32 inflate wanted s r = read_piece inflate wanted s r"
    by (simp add: read_record_step_def Let_def)
  show "read_piece_header r = Some (f, length d, r\<lparr>rr_content := d @ enc_pieces ps\<rparr>)"
    by (rule read_piece_header_piece) (use assms in \<open>auto simp: content_holds_def fits_def\<close>)
  show "record_content r = acc" "content_holds B acc' ps (r\<lparr>rr_content := enc_pieces ps, record_content := acc'\<rparr>)"
    using assms by (auto simp: content_holds_def fits_def)
qed

lemma content_last_piece:
  assumes "content_holds B acc ((f, d) # ps) r" "f = (if first then IS_FIRST else 0)" "first \<longleftrightarrow> acc = []"
  shows "ReadRecord crc32 inflate wanted s r = Some ((RECORD_OK, if wanted then acc @ d else []), s,
     r\<lparr>rr_content := enc_pieces ps, record_content := []\<rparr>)"
proof -
  note p = content_piece[OF assms(1)]
  have "read_piece inflate wanted s r = Some (StepReturn RECORD_OK (if wanted then acc @ d else []) s
        (r\<lparr>rr_content := enc_pieces ps, record_content := []\<rparr>))"
    using assms(2,3) p(3) by (auto simp: read_piece_def p(2) flag_bits Let_def)
  then show ?thesis by (simp add: ReadRecord.simps[of crc32 inflate wanted s r] p(1))
qed

lemma content_next_piece:
  assumes "content_holds B acc ((f, d) # ps) r" "f = HAS_CONT OR (if first then IS_FIRST else 0)" "first \<longleftrightarrow> acc = []"
  shows "ReadRecord crc32 inflate wanted s r
     = ReadRecord crc32 inflate wanted s (r\<lparr>rr_content := enc_pieces ps, record_content := acc @ d\<rparr>)"
proof -
  note p = content_piece[OF assms(1)]
  have "read_piece inflate wanted s r = Some (StepContinue s (r\<lparr>rr_content := enc_pieces ps, record_content := acc @ d\<rparr>))"
    using assms(2,3) p(3) by (auto simp: read_piece_def p(2) flag_bits Let_def)
  then show ?thesis by (simp add: ReadRecord.simps[of crc32 inflate wanted s r] p(1))
qed

lemma ReadRecord_inside:
  assumes "content_holds B acc (fr @ rest) r" "fragments first x fr" "first \<longleftrightarrow> acc = []"
  shows "\<exists>r'. ReadRecord crc32 inflate wanted s r = Some ((RECORD_OK, if wanted then acc @ x else []), s, r')
     \<and> content_holds B [] rest r' \<and> rr_prev_block_crc r' = rr_prev_block_crc r"
  using assms
proof (induction fr arbitrary: first x acc r)
  case (Cons p fr)
  obtain f d where p: "p = (f, d)" by (cases p)
  have c: "content_holds B acc ((f, d) # (fr @ rest)) r" using Cons.prems(1) p by simp
  show ?case
  proof (cases "fr = []")
    case True
    then show ?thesis
      using Cons.prems(2,3) p content_last_piece[OF c, of first crc32 inflate wanted s] content_piece(4)[OF c, of "[]"] by auto
  next
    case False
    obtain y where fd: "f = (HAS_CONT OR (if first then IS_FIRST else 0))" "d \<noteq> []" "x = d @ y" "fragments False y fr"
      using Cons.prems(2) p fragments_Cons[OF False] by blast
    have "\<exists>r'. ReadRecord crc32 inflate wanted s (r\<lparr>rr_content := enc_pieces (fr @ rest), record_content := acc @ d\<rparr>)
        = Some ((RECORD_OK, if wanted then (acc @ d) @ y else []), s, r')
      \<and> content_holds B [] rest r'
      \<and> rr_prev_block_crc r' = rr_prev_block_crc (r\<lparr>rr_content := enc_pieces (fr @ rest), record_content := acc @ d\<rparr>)"
      by (rule Cons.IH[OF content_piece(4)[OF c] fd(4)]) (use fd(2) in simp)
    then show ?thesis
      using content_next_piece[OF c fd(1) Cons.prems(3), of crc32 inflate wanted s] fd(3) by (cases wanted) simp_all
  qed
qed simp

lemma ReadRecord_no_data:
  assumes "content_holds B acc [] r"
  shows "ReadRecord crc32 inflate wanted [] r = Some ((RECORD_NO_DATA, []), [], r)"
proof -
  have "rr_content r = []" "rr_block_size r = int B" "12 \<le> B" using assms by (simp_all add: content_holds_def)
  then show ?thesis
    by (simp add: ReadRecord.simps[of crc32 inflate wanted "[]" r] read_record_step_def ReadNextBlock_def kBlockTrailerEnd_def)
qed

lemma ReadRecord_runs_out:
  assumes "content_holds B acc ps r" "fragments first x (ps @ tl_ps)" "tl_ps \<noteq> []" "first \<longleftrightarrow> acc = []"
  shows "\<exists>r' x1 x2. x = x1 @ x2 \<and> ReadRecord crc32 inflate wanted [] r = Some ((RECORD_NO_DATA, []), [], r')
     \<and> content_holds B (acc @ x1) [] r' \<and> rr_prev_block_crc r' = rr_prev_block_crc r
     \<and> fragments (acc @ x1 = []) x2 tl_ps"
  using assms
proof (induction ps arbitrary: first x acc r)
  case Nil
  then show ?case
    using ReadRecord_no_data[OF Nil(1), of crc32 inflate wanted] by (intro exI[of _ r] exI[of _ "[]"] exI[of _ x]) simp
next
  case (Cons p ps)
  obtain f d where p: "p = (f, d)" by (cases p)
  have ne: "ps @ tl_ps \<noteq> []" using Cons.prems(3) by simp
  obtain y where fd: "f = (HAS_CONT OR (if first then IS_FIRST else 0))" "d \<noteq> []" "x = d @ y" "fragments False y (ps @ tl_ps)"
    using Cons.prems(2) p fragments_Cons[OF ne, of first x f d] by auto
  have c: "content_holds B acc ((f, d) # ps) r" using Cons.prems(1) p by simp
  have n: "False \<longleftrightarrow> acc @ d = []" using fd(2) by simp
  obtain r' x1 x2 where r: "y = x1 @ x2"
      "ReadRecord crc32 inflate wanted [] (r\<lparr>rr_content := enc_pieces ps, record_content := acc @ d\<rparr>) = Some ((RECORD_NO_DATA, []), [], r')"
      "content_holds B ((acc @ d) @ x1) [] r'" "rr_prev_block_crc r' = rr_prev_block_crc r"
      "fragments ((acc @ d) @ x1 = []) x2 tl_ps"
    using Cons.IH[OF content_piece(4)[OF c] fd(4) Cons.prems(3) n] by auto
  show ?case
    using content_next_piece[OF c fd(1) Cons.prems(4), of crc32 inflate wanted "[]"] r fd(3)
    by (intro exI[of _ r'] exI[of _ "d @ x1"] exI[of _ x2]) simp
qed

text \<open>A block in the input is as good as its pieces in the content.\<close>

lemma ReadRecord_block:
  assumes "content_holds B acc [] r" "fits (int B) (snd qb)" "snd qb \<noteq> []"
    and "fst qb = 0 \<or> rr_prev_block_crc r = 0 \<or> fst qb = rr_prev_block_crc r"
  shows "\<exists>r'. ReadRecord crc32 inflate wanted (sealed crc32 B qb) r = ReadRecord crc32 inflate wanted [] r'
     \<and> content_holds B acc (snd qb) r' \<and> rr_prev_block_crc r' = crc32 (block_content (int B) (fst qb) (snd qb))"
proof -
  let ?c = "block_content (int B) (fst qb) (snd qb)"
  define r' where "r' = r\<lparr>rr_prev_block_crc := crc32 ?c, rr_content := enc_pieces (snd qb)\<rparr>"
  have B: "int B < 2 ^ 24" "rr_block_size r = int B" "rr_content r = []" using assms(1) by (simp_all add: content_holds_def)
  have "ReadNextBlock crc32 (sealed crc32 B qb) r = Some (RECORD_OK, [], r')"
    using ReadNextBlock_block[OF assms(2) B, of "sealed crc32 B qb" "fst qb" crc32 "[]"] assms(4)
    by (auto simp: sealed_def r'_def)
  moreover have "rr_content r' \<noteq> []" using assms(3) by (simp add: r'_def)
  ultimately have "read_record_step crc32 inflate wanted (sealed crc32 B qb) r = read_record_step crc32 inflate wanted [] r'"
    using B(3) by (simp add: read_record_step_def Let_def)
  then have "ReadRecord crc32 inflate wanted (sealed crc32 B qb) r = ReadRecord crc32 inflate wanted [] r'"
    by (simp add: ReadRecord.simps[of crc32 inflate wanted])
  then show ?thesis using assms(1,2) by (intro exI[of _ r']) (auto simp: r'_def content_holds_def)
qed

section \<open>Blocks from the files\<close>

text \<open>The reader has read the first \<open>i\<close> blocks of the log, from whichever files they are in.\<close>

definition reader_conf :: "bytes \<Rightarrow> bytes \<Rightarrow> nat \<Rightarrow> nat \<Rightarrow> log_reader \<Rightarrow> bool" where
  "reader_conf dir base B N lr \<longleftrightarrow> lr_dir lr = dir \<and> lr_base lr = base \<and> lr_block_size lr = int B
     \<and> lr_blocks_per_file lr = int N"

definition reader_at :: "nat \<Rightarrow> bytes \<Rightarrow> bytes \<Rightarrow> nat \<Rightarrow> nat \<Rightarrow> nat \<Rightarrow> log_reader \<Rightarrow> world \<Rightarrow> bool" where
  "reader_at lo dir base B N i lr w \<longleftrightarrow> reader_conf dir base B N lr
     \<and> (\<exists>j p. lo \<le> j \<and> lr_file_num lr = int j \<and> reads_at (lr_file lr) (log_name dir base B j) (B * p) w \<and> p \<le> N \<and> j * N + p = i)"

lemma OpenFile_holds:
  assumes "log_holds lo dir base B N all w" "reader_conf dir base B N lr" "lo \<le> k" "k \<le> length all div (B * N)"
  shows "\<exists>f. OpenFile (int k) lr w = Some (True, (CloseInternal False lr)\<lparr>lr_file_num := int k, lr_file := f\<rparr>, w)
     \<and> reads_at f (log_name dir base B k) 0 w"
proof -
  have k: "k < 10 ^ 10" "results w = []" "map_of (disk w) (log_name dir base B k) = Some (file_part (B * N) all k)"
    using assms(1,3,4) by (auto simp: log_holds_def)
  define f where "f = File_new\<lparr>filename := log_name dir base B k, fd := Some 0,
      file_size := int (length (file_part (B * N) all k)), file_position := 0\<rparr>"
  have closed: "lr_file (CloseInternal False lr) = File_new \<or> fd (lr_file (CloseInternal False lr)) = None"
    by (auto simp: CloseInternal_def File_Close_def is_open_def)
  have "\<exists>g. File_Open (log_name dir base B k) OPEN_EXISTING (lr_file (CloseInternal False lr)) w = Some (True, g, w)
      \<and> file_position g = 0 \<and> reads_at g (log_name dir base B k) 0 w"
    using closed k by (auto simp: File_Open_def is_open_def File_new_def sys_open_def creation_flags_def
        UpdatePosition_def UpdateSize_def reads_at_def)
  then show ?thesis
    using assms(2) k(3) by (auto simp: OpenFile_def Let_def reader_conf_def log_name_def IsReadableFile_def)
qed

lemma file_part_block:
  assumes "linked crc32 B 0 qbs" "0 < B" "p < N"
  shows "take B (drop (B * p) (file_part (B * N) (log_bytes crc32 B qbs) j))
    = (if j * N + p < length qbs then sealed crc32 B (qbs ! (j * N + p)) else [])"
proof -
  let ?i = "j * N + p" and ?all = "log_bytes crc32 B qbs"
  have "B * p + B \<le> B * N" using assms(3) by (metis Suc_leI mult_Suc_right mult_le_mono2 add.commute)
  then have "take B (drop (B * p) (file_part (B * N) ?all j)) = take B (drop (B * p) (drop (j * (B * N)) ?all))"
    unfolding file_part_def drop_take by (simp add: min_def)
  also have "\<dots> = take B (drop (B * ?i) ?all)" by (simp add: algebra_simps)
  also have "\<dots> = (if ?i < length qbs then sealed crc32 B (qbs ! ?i) else [])"
  proof (cases "?i < length qbs")
    case True
    define xs y ys where "xs = take ?i qbs" and "y = qbs ! ?i" and "ys = drop (Suc ?i) qbs"
    have q: "qbs = xs @ y # ys" unfolding xs_def y_def ys_def by (rule id_take_nth_drop[OF True])
    have q2: "length xs = ?i" using True by (simp add: xs_def)
    have l: "linked crc32 B 0 xs" "fits (int B) (snd y)" using assms(1) unfolding q by simp_all
    have "drop (B * ?i) ?all = sealed crc32 B y @ log_bytes crc32 B ys"
      using length_log_bytes[OF l(1)] q2 by (simp add: q)
    then show ?thesis using True length_sealed[OF l(2)] by (simp add: y_def)
  next
    case False
    then have "length ?all \<le> B * ?i" using length_log_bytes[OF assms(1)] by simp
    then show ?thesis using False by simp
  qed
  finally show ?thesis .
qed

text \<open>\<^verbatim>\<open>ReadBlock\<close> takes the next block, through the end of a file, or there is none.\<close>

definition same_records :: "log_reader \<Rightarrow> log_reader \<Rightarrow> bool" where
  "same_records lr lr' \<longleftrightarrow> lr_reader lr' = lr_reader lr \<and> num_errors lr' = num_errors lr"

lemma ReadBlock_in_file:
  assumes log: "log_holds lo dir base B N (log_bytes crc32 B qbs) w" "linked crc32 B 0 qbs"
    and lr: "reader_conf dir base B N lr" "lr_file_num lr = int j" "lr_buf lr = []"
      "reads_at (lr_file lr) (log_name dir base B j) (B * p) w" "p < N" "j * N + p \<le> length qbs" "lo \<le> j"
  shows "\<exists>f. ReadBlock lr w = Some (j * N + p < length qbs,
        lr\<lparr>lr_file := f, lr_buf := (if j * N + p < length qbs then sealed crc32 B (qbs ! (j * N + p)) else [])\<rparr>, w)
     \<and> reads_at f (log_name dir base B j) (B * (if j * N + p < length qbs then Suc p else p)) w"
proof -
  let ?i = "j * N + p" and ?n = "log_name dir base B j"
  have B: "0 < B" "0 < N" "results w = []" using log(1) by (simp_all add: log_holds_def)
  have "j * N \<le> length qbs" using lr(6) by simp
  then have j: "j \<le> length (log_bytes crc32 B qbs) div (B * N)"
    using length_log_bytes[OF log(2)] B by (simp add: less_eq_div_iff_mult_less_eq)
  then have cont: "file_content ?n w = file_part (B * N) (log_bytes crc32 B qbs) j"
    using log(1) lr(7) by (auto simp: log_holds_def file_content_def)
  define blk where "blk = take B (drop (B * p) (file_content ?n w))"
  have blk: "blk = (if ?i < length qbs then sealed crc32 B (qbs ! ?i) else [])"
    unfolding blk_def cont by (rule file_part_block[OF log(2) B(1) lr(5)])
  obtain f where f: "File_Read (int B) (lr_file lr) w = Some (int (length blk), blk, f, w)"
      "reads_at f ?n (B * p + length blk) w"
    using File_Read_at[OF lr(4) B(3), of B] unfolding blk_def[symmetric] by blast
  have pos: "File_Position (lr_file lr) = Some (int (B * p))"
    using lr(4) by (simp add: reads_at_def File_Position_def is_open_def)
  have inside: "int (B * p) \<noteq> lr_block_size lr * lr_blocks_per_file lr"
    using lr(1,5) B(1) by (simp add: reader_conf_def flip: of_nat_mult)
  have bs: "lr_block_size lr = int B" using lr(1) by (simp add: reader_conf_def)
  show ?thesis
  proof (cases "?i < length qbs")
    case True
    have "linked crc32 B 0 (take ?i qbs @ qbs ! ?i # drop (Suc ?i) qbs)"
      using log(2) by (simp only: id_take_nth_drop[OF True, symmetric])
    then have "length (sealed crc32 B (qbs ! ?i)) = B" by (intro length_sealed) simp
    then have len: "length blk = B" using blk True by simp
    have "ReadBlock lr w = Some (True, lr\<lparr>lr_file := f, lr_buf := blk\<rparr>, w)"
      unfolding ReadBlock_def pos using inside lr(3) bs f(1) len pos by simp
    then show ?thesis using f(2) len blk True by (intro exI[of _ f]) (simp add: algebra_simps)
  next
    case False
    then have e: "blk = []" using blk by simp
    define f1 where "f1 = f\<lparr>fd := Some (B * p), file_position := int (B * p)\<rparr>"
    have "fd f = Some (B * p)" using f(2) e by (simp add: reads_at_def)
    then have sp: "File_SetPosition (int (B * p)) FILE_SET w f = Some (int (B * p), f1)"
      by (simp add: File_SetPosition_def f1_def Let_def flip: of_nat_mult)
    have "ReadBlock lr w = Some (False, lr\<lparr>lr_file := f1, lr_buf := []\<rparr>, w)"
      unfolding ReadBlock_def pos using inside lr(3) bs f(1) e pos B(1) sp by simp
    moreover have "reads_at f1 ?n (B * p) w" using f(2) e by (simp add: f1_def reads_at_def)
    ultimately show ?thesis using False by (intro exI[of _ f1]) simp
  qed
qed

lemma ReadBlock_at:
  assumes log: "log_holds lo dir base B N (log_bytes crc32 B qbs) w" "linked crc32 B 0 qbs"
    and lr: "reader_at lo dir base B N i lr w" "lr_buf lr = []" "i \<le> length qbs" "lr_record_num lr = 0"
      "rr_content (lr_reader lr) = []"
  shows "\<exists>lr'. ReadBlock lr w = Some (i < length qbs, lr', w)
     \<and> lr_buf lr' = (if i < length qbs then sealed crc32 B (qbs ! i) else [])
     \<and> (\<forall>buf r n e. reader_at lo dir base B N (if i < length qbs then Suc i else i)
          (lr'\<lparr>lr_buf := buf, lr_reader := r, lr_record_num := n, num_errors := e\<rparr>) w)
     \<and> lr_record_num lr' = 0 \<and> same_records lr lr' \<and> (i < length qbs \<longrightarrow> 0 < file_position (lr_file lr'))"
proof -
  have B: "0 < B" "0 < N" using log(1) by (simp_all add: log_holds_def)
  obtain j p where jp: "reader_conf dir base B N lr" "lr_file_num lr = int j"
     "reads_at (lr_file lr) (log_name dir base B j) (B * p) w" "p \<le> N" "j * N + p = i" "lo \<le> j"
    using lr(1) by (auto simp: reader_at_def)
  have from_file: ?thesis
    if c: "reader_conf dir base B N l" "lr_file_num l = int k" "lr_buf l = []"
      "reads_at (lr_file l) (log_name dir base B k) (B * q) w" "q < N" "k * N + q = i" "lr_record_num l = 0" "same_records lr l" "lo \<le> k"
      and eq: "ReadBlock lr w = ReadBlock l w" for l k q
  proof -
    obtain f where f: "ReadBlock l w = Some (k * N + q < length qbs,
        l\<lparr>lr_file := f, lr_buf := (if k * N + q < length qbs then sealed crc32 B (qbs ! (k * N + q)) else [])\<rparr>, w)"
      "reads_at f (log_name dir base B k) (B * (if k * N + q < length qbs then Suc q else q)) w"
      using ReadBlock_in_file[OF log c(1-5) _ c(9)] c(6) lr(3) by blast
    have "k * N + (if i < length qbs then Suc q else q) = (if i < length qbs then Suc i else i)" using c(6) by simp
    moreover have "i < length qbs \<longrightarrow> 0 < file_position f" using f(2) c(6) B(1) by (simp add: reads_at_def)
    ultimately show ?thesis
      using f c eq by (intro exI[of _ "l\<lparr>lr_file := f, lr_buf := (if i < length qbs then sealed crc32 B (qbs ! i) else [])\<rparr>"])
        (force simp: reader_at_def reader_conf_def same_records_def)
  qed
  show ?thesis
  proof (cases "p = N")
    case False
    then show ?thesis
      by (intro from_file[of lr j p]) (use jp lr in \<open>simp_all add: same_records_def\<close>)
  next
    case True
    have i: "Suc j * N = i" using True jp(5) by simp
    then have "Suc j * N \<le> length qbs" using lr(3) by simp
    then have "Suc j \<le> length (log_bytes crc32 B qbs) div (B * N)"
      using length_log_bytes[OF log(2)] B by (simp add: less_eq_div_iff_mult_less_eq)
    then obtain f where f: "OpenFile (int (Suc j)) lr w
         = Some (True, (CloseInternal False lr)\<lparr>lr_file_num := int (Suc j), lr_file := f\<rparr>, w)"
        "reads_at f (log_name dir base B (Suc j)) 0 w"
      using OpenFile_holds[OF log(1) jp(1) le_SucI[OF jp(6)]] by blast
    define l where "l = (CloseInternal False lr)\<lparr>lr_file_num := int (Suc j), lr_file := f\<rparr>"
    have pos: "File_Position (lr_file lr) = Some (lr_block_size lr * lr_blocks_per_file lr)"
      using jp(1,3) True by (simp add: reads_at_def File_Position_def is_open_def reader_conf_def)
    have pos1: "File_Position f = Some 0" using f(2) by (simp add: reads_at_def File_Position_def is_open_def)
    have conf: "reader_conf dir base B N l" using jp(1) by (simp add: l_def reader_conf_def CloseInternal_def)
    have num: "lr_file_num lr + 1 = int (Suc j)" using jp(2) by simp
    have ne: "0 \<noteq> lr_block_size lr * lr_blocks_per_file lr" using jp(1) B by (simp add: reader_conf_def)
    have "lr_block_size l = lr_block_size lr" "lr_blocks_per_file l = lr_blocks_per_file lr" "lr_file l = f"
      by (simp_all add: l_def CloseInternal_def)
    then have "ReadBlock lr w = ReadBlock l w"
      unfolding ReadBlock_def pos num f(1) l_def[symmetric] using pos1 ne by simp
    moreover have "same_records lr l" using lr(5) by (simp add: same_records_def l_def CloseInternal_def RecordReader_Clear_def)
    ultimately show ?thesis
      by (intro from_file[of l "Suc j" 0]) (use conf f(2) i B jp(6) in \<open>simp_all add: l_def CloseInternal_def\<close>)
  qed
qed

section \<open>Records from the log\<close>

definition reader_state ::
    "(bytes \<Rightarrow> 32 word) \<Rightarrow> nat \<Rightarrow> bytes \<Rightarrow> bytes \<Rightarrow> nat \<Rightarrow> nat \<Rightarrow> linked_block list \<Rightarrow> nat \<Rightarrow> bytes \<Rightarrow> piece list
       \<Rightarrow> log_reader \<Rightarrow> world \<Rightarrow> bool" where
  "reader_state crc32 lo dir base B N qbs i acc ps lr w \<longleftrightarrow> reader_at lo dir base B N i lr w \<and> lr_buf lr = []
     \<and> i \<le> length qbs \<and> content_holds B acc ps (lr_reader lr)
     \<and> (rr_prev_block_crc (lr_reader lr) = 0 \<or> rr_prev_block_crc (lr_reader lr) = end_crc crc32 B 0 (take i qbs))"

lemma linked_nth:
  assumes "linked crc32 B 0 qbs" "i < length qbs"
  shows "fits (int B) (snd (qbs ! i))" "snd (qbs ! i) \<noteq> []"
    and "fst (qbs ! i) = 0 \<or> fst (qbs ! i) = end_crc crc32 B 0 (take i qbs)"
    and "crc32 (block_content (int B) (fst (qbs ! i)) (snd (qbs ! i))) = end_crc crc32 B 0 (take (Suc i) qbs)"
proof -
  have "linked crc32 B 0 (take i qbs @ qbs ! i # drop (Suc i) qbs)"
    using assms(1) by (simp only: id_take_nth_drop[OF assms(2), symmetric])
  then show "fits (int B) (snd (qbs ! i))" "snd (qbs ! i) \<noteq> []"
    "fst (qbs ! i) = 0 \<or> fst (qbs ! i) = end_crc crc32 B 0 (take i qbs)" by simp_all
  show "crc32 (block_content (int B) (fst (qbs ! i)) (snd (qbs ! i))) = end_crc crc32 B 0 (take (Suc i) qbs)"
    by (simp add: take_Suc_conv_app_nth[OF assms(2)])
qed

lemma next_record_block:
  assumes log: "log_holds lo dir base B N (log_bytes crc32 B qbs) w" "linked crc32 B 0 qbs"
    and st: "reader_state crc32 lo dir base B N qbs i acc [] lr w" and i: "i < length qbs" and z: "lr_record_num lr = 0"
  shows "\<exists>lr1 lr2. ReadBlock lr w = Some (True, lr1, w)
     \<and> next_record_loop crc32 inflate wanted lr1 w = next_record_loop crc32 inflate wanted lr2 w
     \<and> reader_state crc32 lo dir base B N qbs (Suc i) acc (snd (qbs ! i)) lr2 w
     \<and> lr_record_num lr2 = 0 \<and> num_errors lr2 = num_errors lr \<and> 0 < file_position (lr_file lr2)"
proof -
  have at: "reader_at lo dir base B N i lr w" "lr_buf lr = []" "i \<le> length qbs" "content_holds B acc [] (lr_reader lr)"
    "rr_prev_block_crc (lr_reader lr) = 0 \<or> rr_prev_block_crc (lr_reader lr) = end_crc crc32 B 0 (take i qbs)"
    using st by (simp_all add: reader_state_def)
  have "rr_content (lr_reader lr) = []" using at(4) by (simp add: content_holds_def)
  from ReadBlock_at[OF log at(1-3) z this] i obtain lr1 where b:
      "ReadBlock lr w = Some (True, lr1, w)" "lr_buf lr1 = sealed crc32 B (qbs ! i)"
      "\<And>buf r n e. reader_at lo dir base B N (Suc i) (lr1\<lparr>lr_buf := buf, lr_reader := r, lr_record_num := n, num_errors := e\<rparr>) w"
      "lr_record_num lr1 = 0" "lr_reader lr1 = lr_reader lr" "num_errors lr1 = num_errors lr"
      "0 < file_position (lr_file lr1)"
    by (auto simp: same_records_def)
  note q = linked_nth[OF log(2) i]
  have "fst (qbs ! i) = 0 \<or> rr_prev_block_crc (lr_reader lr) = 0 \<or> fst (qbs ! i) = rr_prev_block_crc (lr_reader lr)"
    using q(3) at(5) by auto
  from ReadRecord_block[where ?crc32.0 = crc32 and inflate = inflate and wanted = wanted, OF at(4) q(1,2) this] obtain r where r:
     "ReadRecord crc32 inflate wanted (sealed crc32 B (qbs ! i)) (lr_reader lr) = ReadRecord crc32 inflate wanted [] r"
     "content_holds B acc (snd (qbs ! i)) r" "rr_prev_block_crc r = end_crc crc32 B 0 (take (Suc i) qbs)"
    using q(4) by auto
  define lr2 where "lr2 = lr1\<lparr>lr_buf := [], lr_reader := r, lr_record_num := 0, num_errors := num_errors lr\<rparr>"
  have eq: "lr2 = lr1\<lparr>lr_buf := [], lr_reader := r\<rparr>" using b(4,6) by (simp add: lr2_def)
  have "next_record_step crc32 inflate wanted lr1 w = next_record_step crc32 inflate wanted lr2 w"
    unfolding next_record_step_def eq using b(2,5) r(1) by simp
  then have "next_record_loop crc32 inflate wanted lr1 w = next_record_loop crc32 inflate wanted lr2 w"
    by (simp add: next_record_loop.simps[of crc32 inflate wanted])
  moreover have "reader_state crc32 lo dir base B N qbs (Suc i) acc (snd (qbs ! i)) lr2 w"
    using b(3)[where buf = "[]" and r = r and n = 0 and e = "num_errors lr"] r(2,3) i by (simp add: reader_state_def lr2_def)
  ultimately show ?thesis using b(1,7) by (intro exI[of _ lr1] exI[of _ lr2]) (simp add: lr2_def)
qed

lemma next_record_loop_at:
  assumes log: "log_holds lo dir base B N (log_bytes crc32 B qbs) w" "linked crc32 B 0 qbs"
    and st: "reader_state crc32 lo dir base B N qbs i acc ps lr w"
    and rec: "fragments first x fr" "ps @ concat (map snd (drop i qbs)) = fr @ rest" "first \<longleftrightarrow> acc = []"
  shows "\<exists>i' qs lr'. next_record_loop crc32 inflate wanted lr w = Some ((True, if wanted then acc @ x else []), lr', w)
     \<and> reader_state crc32 lo dir base B N qbs i' [] qs lr' w \<and> qs @ concat (map snd (drop i' qbs)) = rest
     \<and> num_errors lr' = num_errors lr \<and> lr_record_num lr' = (if i' = i then lr_record_num lr + 1 else 1)
     \<and> (i' = i \<and> ps = fr @ qs \<and> lr_file lr' = lr_file lr
        \<or> i < i' \<and> 0 < file_position (lr_file lr') \<and> (\<exists>fr1 fr2. fr = fr1 @ fr2 \<and> fr2 \<noteq> [] \<and> snd (qbs ! (i' - 1)) = fr2 @ qs))"
  using st rec
proof (induction "length qbs - i" arbitrary: i acc ps lr first x fr rule: less_induct)
  case less
  have st: "reader_at lo dir base B N i lr w" "lr_buf lr = []" "i \<le> length qbs" "content_holds B acc ps (lr_reader lr)"
    "rr_prev_block_crc (lr_reader lr) = 0 \<or> rr_prev_block_crc (lr_reader lr) = end_crc crc32 B 0 (take i qbs)"
    using less.prems(1) by (simp_all add: reader_state_def)
  have any: "reader_at lo dir base B N i (lr\<lparr>lr_buf := buf, lr_reader := r, lr_record_num := n\<rparr>) w" for buf r n
    using st(1) by (simp add: reader_at_def reader_conf_def)
  consider (inside) qs where "ps = fr @ qs" | (beyond) u where "fr = ps @ u" "u \<noteq> []"
    using less.prems(3) by (auto simp: append_eq_append_conv2) (metis append_Nil2)
  then show ?case
  proof cases
    case inside
    obtain r where r: "ReadRecord crc32 inflate wanted [] (lr_reader lr) = Some ((RECORD_OK, if wanted then acc @ x else []), [], r)"
        "content_holds B [] qs r" "rr_prev_block_crc r = rr_prev_block_crc (lr_reader lr)"
      using ReadRecord_inside[where ?crc32.0 = crc32 and inflate = inflate and wanted = wanted and s = "[]", OF _ less.prems(2,4)] st(4) inside by blast
    define lr' where "lr' = lr\<lparr>lr_buf := [], lr_reader := r, lr_record_num := lr_record_num lr + 1\<rparr>"
    have "next_record_loop crc32 inflate wanted lr w = Some ((True, if wanted then acc @ x else []), lr', w)"
      using st(2) r(1) by (simp add: next_record_loop.simps[of _ _ _ lr] next_record_step_def lr'_def)
    moreover have "reader_state crc32 lo dir base B N qbs i [] qs lr' w"
      using any[where buf = "[]" and r = r] st(3,5) r(2,3) by (simp add: reader_state_def lr'_def)
    ultimately show ?thesis
      using less.prems(3) inside by (intro exI[of _ i] exI[of _ qs] exI[of _ lr']) (simp add: lr'_def)
  next
    case beyond
    have fr: "fragments first x (ps @ u)" using less.prems(2) beyond(1) by simp
    obtain r x1 x2 where r: "x = x1 @ x2" "ReadRecord crc32 inflate wanted [] (lr_reader lr) = Some ((RECORD_NO_DATA, []), [], r)"
       "content_holds B (acc @ x1) [] r" "rr_prev_block_crc r = rr_prev_block_crc (lr_reader lr)"
       "fragments (acc @ x1 = []) x2 u"
      using ReadRecord_runs_out[where ?crc32.0 = crc32 and inflate = inflate and wanted = wanted, OF st(4) fr beyond(2) less.prems(4)] by blast
    have rest: "concat (map snd (drop i qbs)) = u @ rest" using less.prems(3) beyond(1) by simp
    then have i: "i < length qbs" using beyond(2) by (cases "i < length qbs") auto
    then have blk: "concat (map snd (drop i qbs)) = snd (qbs ! i) @ concat (map snd (drop (Suc i) qbs))"
      by (rule concat_map_drop_nth)
    define lr0 where "lr0 = lr\<lparr>lr_buf := [], lr_reader := r, lr_record_num := 0\<rparr>"
    have st0: "reader_state crc32 lo dir base B N qbs i (acc @ x1) [] lr0 w"
      using any[where buf = "[]" and r = r] st(3,5) r(3,4) by (simp add: reader_state_def lr0_def)
    obtain lr1 lr2 where b: "ReadBlock lr0 w = Some (True, lr1, w)"
      "next_record_loop crc32 inflate wanted lr1 w = next_record_loop crc32 inflate wanted lr2 w"
      "reader_state crc32 lo dir base B N qbs (Suc i) (acc @ x1) (snd (qbs ! i)) lr2 w"
      "lr_record_num lr2 = 0" "num_errors lr2 = num_errors lr0" "0 < file_position (lr_file lr2)"
      using next_record_block[where inflate = inflate and wanted = wanted, OF log st0 i] by (auto simp: lr0_def)
    have step: "next_record_loop crc32 inflate wanted lr w = next_record_loop crc32 inflate wanted lr2 w"
      using st(2) r(2) b(1,2) by (simp add: next_record_loop.simps[of _ _ _ lr] next_record_step_def lr0_def)
    have less_i: "length qbs - Suc i < length qbs - i" using i by simp
    have tail: "snd (qbs ! i) @ concat (map snd (drop (Suc i) qbs)) = u @ rest" using rest blk by simp
    obtain i' qs lr' where ih: "next_record_loop crc32 inflate wanted lr2 w
        = Some ((True, if wanted then (acc @ x1) @ x2 else []), lr', w)"
      "reader_state crc32 lo dir base B N qbs i' [] qs lr' w" "qs @ concat (map snd (drop i' qbs)) = rest"
      "num_errors lr' = num_errors lr2" "lr_record_num lr' = (if i' = Suc i then lr_record_num lr2 + 1 else 1)"
      "i' = Suc i \<and> snd (qbs ! i) = u @ qs \<and> lr_file lr' = lr_file lr2
        \<or> Suc i < i' \<and> 0 < file_position (lr_file lr') \<and> (\<exists>fr1 fr2. u = fr1 @ fr2 \<and> fr2 \<noteq> [] \<and> snd (qbs ! (i' - 1)) = fr2 @ qs)"
      using less.hyps[OF less_i b(3) r(5) tail refl] by blast
    have "i < i' \<and> 0 < file_position (lr_file lr') \<and> (\<exists>fr1 fr2. fr = fr1 @ fr2 \<and> fr2 \<noteq> [] \<and> snd (qbs ! (i' - 1)) = fr2 @ qs)"
      using ih(6)
    proof
      assume "i' = Suc i \<and> snd (qbs ! i) = u @ qs \<and> lr_file lr' = lr_file lr2"
      then show ?thesis using beyond b(6) by auto
    next
      assume "Suc i < i' \<and> 0 < file_position (lr_file lr') \<and> (\<exists>fr1 fr2. u = fr1 @ fr2 \<and> fr2 \<noteq> [] \<and> snd (qbs ! (i' - 1)) = fr2 @ qs)"
      then obtain fr1 fr2 where "Suc i < i'" "0 < file_position (lr_file lr')" "u = fr1 @ fr2" "fr2 \<noteq> []" "snd (qbs ! (i' - 1)) = fr2 @ qs" by blast
      then show ?thesis using beyond(1) by (intro conjI exI[of _ "ps @ fr1"] exI[of _ fr2]) simp_all
    qed
    then show ?thesis
      using step ih(1-5) b(4,5) r(1)
      by (intro exI[of _ i'] exI[of _ qs] exI[of _ lr']) (auto simp: lr0_def)
  qed
qed

lemma next_record_loop_end:
  assumes log: "log_holds lo dir base B N (log_bytes crc32 B qbs) w" "linked crc32 B 0 qbs"
    and st: "reader_state crc32 lo dir base B N qbs (length qbs) acc [] lr w"
  shows "\<exists>lr'. next_record_loop crc32 inflate wanted lr w = Some ((False, []), lr', w)
     \<and> reader_state crc32 lo dir base B N qbs (length qbs) acc [] lr' w \<and> num_errors lr' = num_errors lr"
proof -
  have at: "reader_at lo dir base B N (length qbs) lr w" "lr_buf lr = []" "content_holds B acc [] (lr_reader lr)"
    using st by (simp_all add: reader_state_def)
  define lr0 where "lr0 = lr\<lparr>lr_record_num := 0\<rparr>"
  have at0: "reader_at lo dir base B N (length qbs) lr0 w" using at(1) by (simp add: reader_at_def reader_conf_def lr0_def)
  have "rr_content (lr_reader lr) = []" using at(3) by (simp add: content_holds_def)
  then obtain lr1 where b: "ReadBlock lr0 w = Some (False, lr1, w)" "lr_buf lr1 = []"
     "\<And>buf r n e. reader_at lo dir base B N (length qbs) (lr1\<lparr>lr_buf := buf, lr_reader := r, lr_record_num := n, num_errors := e\<rparr>) w"
     "lr_reader lr1 = lr_reader lr" "num_errors lr1 = num_errors lr"
    using ReadBlock_at[OF log at0] at(2) by (auto simp: lr0_def same_records_def)
  have "reader_at lo dir base B N (length qbs) lr1 w"
    using b(3)[where buf = "lr_buf lr1" and r = "lr_reader lr1" and n = "lr_record_num lr1" and e = "num_errors lr1"] by simp
  moreover have eq: "lr\<lparr>lr_buf := [], lr_record_num := 0\<rparr> = lr0" using at(2) by (cases lr) (simp add: lr0_def)
  have "next_record_loop crc32 inflate wanted lr w = Some ((False, []), lr1, w)"
    using b(1) ReadRecord_no_data[where ?crc32.0 = crc32 and inflate = inflate and wanted = wanted, OF at(3)] at(2)
    by (simp add: next_record_loop.simps[of _ _ _ lr] next_record_step_def eq)
  ultimately show ?thesis
    using st b(2,4,5) by (intro exI[of _ lr1]) (simp add: reader_state_def)
qed

text \<open>A record of which the last pieces are missing is not given.\<close>

lemma next_record_cut:
  assumes log: "log_holds lo dir base B N (log_bytes crc32 B qbs) w" "linked crc32 B 0 qbs"
    and st: "reader_state crc32 lo dir base B N qbs i acc ps lr w"
    and rec: "fragments first x ((ps @ concat (map snd (drop i qbs))) @ lost)" "lost \<noteq> []" "first \<longleftrightarrow> acc = []"
  shows "\<exists>lr'. next_record_loop crc32 inflate wanted lr w = Some ((False, []), lr', w) \<and> num_errors lr' = num_errors lr"
  using st rec
proof (induction "length qbs - i" arbitrary: i acc ps lr first x rule: less_induct)
  case less
  have st: "reader_at lo dir base B N i lr w" "lr_buf lr = []" "i \<le> length qbs" "content_holds B acc ps (lr_reader lr)"
    "rr_prev_block_crc (lr_reader lr) = 0 \<or> rr_prev_block_crc (lr_reader lr) = end_crc crc32 B 0 (take i qbs)"
    using less.prems(1) by (simp_all add: reader_state_def)
  have any: "reader_at lo dir base B N i (lr\<lparr>lr_buf := buf, lr_reader := r, lr_record_num := n\<rparr>) w" for buf r n
    using st(1) by (simp add: reader_at_def reader_conf_def)
  have fr: "fragments first x (ps @ (concat (map snd (drop i qbs)) @ lost))" using less.prems(2) by simp
  have ne: "concat (map snd (drop i qbs)) @ lost \<noteq> []" using less.prems(3) by simp
  obtain r x1 x2 where r: "ReadRecord crc32 inflate wanted [] (lr_reader lr) = Some ((RECORD_NO_DATA, []), [], r)"
     "content_holds B (acc @ x1) [] r" "rr_prev_block_crc r = rr_prev_block_crc (lr_reader lr)"
     "fragments (acc @ x1 = []) x2 (concat (map snd (drop i qbs)) @ lost)"
    using ReadRecord_runs_out[where ?crc32.0 = crc32 and inflate = inflate and wanted = wanted, OF st(4) fr ne less.prems(4)] by blast
  define lr0 where "lr0 = lr\<lparr>lr_buf := [], lr_reader := r, lr_record_num := 0\<rparr>"
  have st0: "reader_state crc32 lo dir base B N qbs i (acc @ x1) [] lr0 w"
    using any[where buf = "[]" and r = r] st(3,5) r(2,3) by (simp add: reader_state_def lr0_def)
  have "next_record_step crc32 inflate wanted lr w = next_record_step crc32 inflate wanted lr0 w"
    using st(2) r(1) ReadRecord_no_data[where ?crc32.0 = crc32 and inflate = inflate and wanted = wanted, OF r(2)]
    by (simp add: next_record_step_def lr0_def)
  then have same: "next_record_loop crc32 inflate wanted lr w = next_record_loop crc32 inflate wanted lr0 w"
    by (simp add: next_record_loop.simps[of crc32 inflate wanted])
  show ?case
  proof (cases "i < length qbs")
    case True
    obtain lr1 lr2 where b: "ReadBlock lr0 w = Some (True, lr1, w)"
      "next_record_loop crc32 inflate wanted lr1 w = next_record_loop crc32 inflate wanted lr2 w"
      "reader_state crc32 lo dir base B N qbs (Suc i) (acc @ x1) (snd (qbs ! i)) lr2 w" "num_errors lr2 = num_errors lr0"
      using next_record_block[where inflate = inflate and wanted = wanted, OF log st0 True] by (auto simp: lr0_def)
    have "next_record_loop crc32 inflate wanted lr w = next_record_loop crc32 inflate wanted lr2 w"
      using st(2) r(1) b(1,2) by (simp add: next_record_loop.simps[of _ _ _ lr] next_record_step_def lr0_def)
    moreover have "fragments (acc @ x1 = []) x2 ((snd (qbs ! i) @ concat (map snd (drop (Suc i) qbs))) @ lost)"
      using r(4) unfolding concat_map_drop_nth[OF True] .
    moreover have "length qbs - Suc i < length qbs - i" using True by simp
    ultimately show ?thesis
      using less.hyps[OF _ b(3) _ less.prems(3) refl] b(4) by (simp add: lr0_def)
  next
    case False
    then have "i = length qbs" using st(3) by simp
    then have "reader_state crc32 lo dir base B N qbs (length qbs) (acc @ x1) [] lr0 w" using st0 by simp
    from next_record_loop_end[where inflate = inflate and wanted = wanted, OF log this]
    show ?thesis unfolding same by (auto simp: lr0_def)
  qed
qed

text \<open>Whole records, and then perhaps the first pieces of one that is not whole.\<close>

definition records_in :: "bytes list \<Rightarrow> piece list \<Rightarrow> bool" where
  "records_in xs ps \<longleftrightarrow> (\<exists>fs part. encode_records xs fs \<and> ps = fs @ part
     \<and> (part = [] \<or> (\<exists>x lost. lost \<noteq> [] \<and> fragments True x (part @ lost))))"

lemma records_in_whole: "encode_records xs ps \<Longrightarrow> records_in xs ps"
  unfolding records_in_def by (intro exI[of _ ps] exI[of _ "[]"]) simp

lemma records_in_append: "encode_records xs ps \<Longrightarrow> records_in ys qs \<Longrightarrow> records_in (xs @ ys) (ps @ qs)"
  unfolding records_in_def by (metis append_assoc encode_records_append)

lemma records_in_front:
  "encode_records ys (ps @ qs) \<Longrightarrow> \<exists>xs zs. ys = xs @ zs \<and> records_in xs ps"
proof (induction ys arbitrary: ps)
  case Nil
  then show ?case by (simp add: records_in_whole)
next
  case (Cons y ys)
  obtain fr gs where f: "fragments True y fr" "encode_records ys gs" "ps @ qs = fr @ gs"
    using Cons.prems by (auto simp: encode_records_Cons)
  from f(3) consider us where "ps = fr @ us" "us @ qs = gs" | us where "fr = ps @ us" "us \<noteq> []"
    by (auto simp: append_eq_append_conv2) (metis append_Nil append_Nil2)
  then show ?case
  proof cases
    case 1
    then obtain xs zs where "ys = xs @ zs" "records_in xs us" using Cons.IH[of us] f(2) by auto
    moreover have "encode_records [y] fr" using f(1) by (simp add: encode_records_Cons)
    ultimately show ?thesis
      using records_in_append[of "[y]" fr xs us] 1(1) by (intro exI[of _ "y # xs"] exI[of _ zs]) simp
  next
    case 2
    then have "records_in [] ps" unfolding records_in_def using f(1)
      by (intro exI[of _ "[]"] exI[of _ ps]) auto
    then show ?thesis by (intro exI[of _ "[]"] exI[of _ "y # ys"]) simp
  qed
qed

text \<open>A state in which the next call goes into the loop, and the state of a new reader.\<close>

lemma GetNextRecord_loop:
  assumes "reader_state crc32 lo dir base B N qbs i acc ps lr w"
  shows "GetNextRecord crc32 inflate wanted lr w = next_record_loop crc32 inflate wanted lr w"
  using assms by (auto simp: reader_state_def reader_at_def reads_at_def GetNextRecord_def is_open_def)

text \<open>\<open>n\<close> calls that give a record.\<close>

fun read_log ::
    "(bytes \<Rightarrow> 32 word) \<Rightarrow> (bytes \<Rightarrow> bytes \<times> bool) \<Rightarrow> nat \<Rightarrow> log_reader \<Rightarrow> world \<Rightarrow> (bytes list \<times> log_reader \<times> world) option" where
  "read_log crc32 inflate 0 lr w = Some ([], lr, w)"
| "read_log crc32 inflate (Suc n) lr w = (case GetNextRecord crc32 inflate True lr w of
     Some ((True, x), lr1, w1) \<Rightarrow> map_option (\<lambda>(xs, e). (x # xs, e)) (read_log crc32 inflate n lr1 w1)
   | _ \<Rightarrow> None)"

lemma read_log_at:
  assumes log: "log_holds lo dir base B N (log_bytes crc32 B qbs) w" "linked crc32 B 0 qbs"
    and st: "reader_state crc32 lo dir base B N qbs i [] ps lr w"
    and rec: "encode_records xs fs" "ps @ concat (map snd (drop i qbs)) = fs @ rest"
  shows "\<exists>i' qs lr'. read_log crc32 inflate (length xs) lr w = Some (xs, lr', w)
     \<and> reader_state crc32 lo dir base B N qbs i' [] qs lr' w \<and> qs @ concat (map snd (drop i' qbs)) = rest
     \<and> num_errors lr' = num_errors lr"
  using st rec
proof (induction xs arbitrary: i ps lr fs)
  case Nil
  then show ?case by auto
next
  case (Cons x xs)
  obtain fr gs where f: "fragments True x fr" "encode_records xs gs" "fs = fr @ gs"
    using Cons.prems(2) by (auto simp: encode_records_Cons)
  have tail: "ps @ concat (map snd (drop i qbs)) = fr @ (gs @ rest)" using Cons.prems(3) f(3) by simp
  have "True \<longleftrightarrow> ([] :: bytes) = []" by simp
  from next_record_loop_at[where inflate = inflate and wanted = True, OF log Cons.prems(1) f(1) tail this] obtain i1 qs1 lr1 where s:
    "next_record_loop crc32 inflate True lr w = Some ((True, x), lr1, w)"
    "reader_state crc32 lo dir base B N qbs i1 [] qs1 lr1 w" "qs1 @ concat (map snd (drop i1 qbs)) = gs @ rest"
    "num_errors lr1 = num_errors lr"
    by auto
  from Cons.IH[OF s(2) f(2) s(3)] show ?case
    using s(1,4) GetNextRecord_loop[where inflate = inflate and wanted = True, OF Cons.prems(1)] by auto
qed

section \<open>A new reader\<close>

lemma Rewind_holds:
  assumes "slash \<notin> set base" "log_holds lo dir base B N all w" "reader_conf dir base B N lr"
  shows "Rewind lr w = Some ((CloseInternal False lr)\<lparr>lr_file_num := int lo\<rparr>, w)"
proof -
  let ?m = "length all div (B * N)" and ?p = "log_name_prefix base (int B)"
  have h: "results w = []" "?m < 2 ^ 31" and le: "lo \<le> ?m" using assms(2) by (simp_all add: log_holds_def)
  have "set (filter (log_re base (int B)) (dir_entries dir w)) = (\<lambda>k. ?p @ digits 10 k) ` {lo..?m}"
    by (rule log_listing) (use assms in \<open>auto simp: log_holds_def\<close>)
  note l = this last_sort_names(2)[OF this _ le]
  have "filter (log_re base (int B)) (dir_entries dir w) \<noteq> []" using l(1) le by (metis empty_set image_is_empty atLeastatMost_empty_iff2)
  moreover define nm where "nm = ?p @ digits 10 lo"
  moreover have "\<not> length nm \<le> 10" "drop (length nm - 10) nm = digits 10 lo" by (simp_all add: nm_def log_name_prefix_def)
  moreover have "parse_int32 (digits 10 lo) = int lo" by (rule parse_int32_digits) (use h(2) le in simp_all)
  moreover have "hd (sort (filter (log_re base (int B)) (dir_entries dir w))) = nm" using l(2) h(2) nm_def by simp
  ultimately show ?thesis
    using h(1) assms(3) by (simp add: Rewind_def DirList_files_def Let_def reader_conf_def)
qed

lemma CloseInternal_new [simp]: "CloseInternal False (LogReader_new dir base B N) = LogReader_new dir base B N"
  by (simp add: CloseInternal_def LogReader_new_def File_Close_def File_new_def is_open_def RecordReader_Clear_def
      RecordReader_new_def)

lemma CloseInternal_num [simp]: "CloseInternal False (lr\<lparr>lr_file_num := k\<rparr>) = CloseInternal False lr"
  by (simp add: CloseInternal_def)

lemma new_reader_content:
  assumes "int B < 2 ^ 24" "12 \<le> B"
  shows "content_holds B [] [] (RecordReader_new (int B))"
  using assms by (simp add: content_holds_def RecordReader_new_def fits_def)

lemma reader_new_state:
  assumes log: "log_holds lo dir base B N (log_bytes crc32 B qbs) w" "int B < 2 ^ 24" "12 \<le> B"
    and f: "reads_at f (log_name dir base B j) (B * p) w" "p \<le> N" "j * N + p \<le> length qbs" "lo \<le> j"
  shows "reader_state crc32 lo dir base B N qbs (j * N + p) [] []
     ((LogReader_new dir base (int B) (int N))\<lparr>lr_file_num := int j, lr_file := f\<rparr>) w"
  using new_reader_content[OF log(2,3)] f
  by (auto simp: reader_state_def reader_at_def reader_conf_def LogReader_new_def RecordReader_new_def)

lemma GetNextRecord_new:
  assumes names: "slash \<notin> set base" and log: "log_holds lo dir base B N (log_bytes crc32 B qbs) w" "int B < 2 ^ 24" "12 \<le> B"
    and linked: "linked crc32 B 0 qbs"
  shows "\<exists>lr. GetNextRecord crc32 inflate wanted (LogReader_new dir base (int B) (int N)) w = next_record_loop crc32 inflate wanted lr w
     \<and> reader_state crc32 lo dir base B N qbs (lo * N) [] [] lr w \<and> num_errors lr = 0"
proof -
  let ?lr = "LogReader_new dir base (int B) (int N)"
  have conf: "reader_conf dir base B N ?lr" "reader_conf dir base B N (?lr\<lparr>lr_file_num := int lo\<rparr>)"
    by (simp_all add: reader_conf_def LogReader_new_def)
  have le: "lo \<le> length (log_bytes crc32 B qbs) div (B * N)" and B: "0 < B" "0 < N" using log(1) by (simp_all add: log_holds_def)
  then have blocks: "lo * N \<le> length qbs" using length_log_bytes[OF linked] by (simp add: less_eq_div_iff_mult_less_eq)
  obtain f where f: "OpenFile (int lo) (?lr\<lparr>lr_file_num := int lo\<rparr>) w = Some (True, ?lr\<lparr>lr_file_num := int lo, lr_file := f\<rparr>, w)"
      "reads_at f (log_name dir base B lo) 0 w"
    using OpenFile_holds[OF log(1) conf(2) order_refl] le by auto
  have "lr_file_num ?lr = -1" "\<not> is_open (lr_file ?lr)" by (simp_all add: LogReader_new_def is_open_def File_new_def)
  then have "GetNextRecord crc32 inflate wanted ?lr w = next_record_loop crc32 inflate wanted (?lr\<lparr>lr_file_num := int lo, lr_file := f\<rparr>) w"
    using Rewind_holds[OF names log(1) conf(1)] f(1) by (simp add: GetNextRecord_def)
  moreover have "reader_state crc32 lo dir base B N qbs (lo * N) [] [] (?lr\<lparr>lr_file_num := int lo, lr_file := f\<rparr>) w"
    using reader_new_state[OF log, of f lo 0] f(2) blocks by simp
  ultimately show ?thesis by (intro exI[of _ "?lr\<lparr>lr_file_num := int lo, lr_file := f\<rparr>"]) (simp add: LogReader_new_def)
qed

text \<open>All that there is to read from a state, and then nothing; the files stay as they are.\<close>

definition reads_all ::
    "(bytes \<Rightarrow> 32 word) \<Rightarrow> (bytes \<Rightarrow> bytes \<times> bool) \<Rightarrow> log_reader \<Rightarrow> world \<Rightarrow> bytes list \<Rightarrow> bool" where
  "reads_all crc32 inflate lr w xs \<longleftrightarrow> (\<exists>lr1 lr2. read_log crc32 inflate (length xs) lr w = Some (xs, lr1, w)
     \<and> GetNextRecord crc32 inflate True lr1 w = Some ((False, []), lr2, w) \<and> num_errors lr2 = num_errors lr)"

lemma reader_state_end:
  assumes "linked crc32 B 0 qbs" "reader_state crc32 lo dir base B N qbs i [] ps lr w" "ps @ concat (map snd (drop i qbs)) = []"
  shows "ps = [] \<and> i = length qbs"
proof -
  have "\<not> i < length qbs"
  proof
    assume i: "i < length qbs"
    then have "snd (qbs ! i) = []" using assms(3) by (auto simp: Cons_nth_drop_Suc[symmetric])
    then show False using linked_nth(2)[OF assms(1) i] by simp
  qed
  then show ?thesis using assms(2,3) by (simp add: reader_state_def)
qed

lemma reads_all_from:
  assumes log: "log_holds lo dir base B N (log_bytes crc32 B qbs) w" "linked crc32 B 0 qbs"
    and st: "reader_state crc32 lo dir base B N qbs i [] ps lr w"
    and rec: "records_in xs (ps @ concat (map snd (drop i qbs)))"
  shows "reads_all crc32 inflate lr w xs"
proof -
  obtain fs part where p: "encode_records xs fs" "ps @ concat (map snd (drop i qbs)) = fs @ part"
    "part = [] \<or> (\<exists>x more. more \<noteq> [] \<and> fragments True x (part @ more))"
    using rec by (auto simp: records_in_def)
  obtain i' qs lr1 where r: "read_log crc32 inflate (length xs) lr w = Some (xs, lr1, w)"
     "reader_state crc32 lo dir base B N qbs i' [] qs lr1 w" "qs @ concat (map snd (drop i' qbs)) = part"
     "num_errors lr1 = num_errors lr"
    using read_log_at[where inflate = inflate, OF log st p(1,2)] by auto
  have "\<exists>lr2. next_record_loop crc32 inflate True lr1 w = Some ((False, []), lr2, w) \<and> num_errors lr2 = num_errors lr1"
    using p(3)
  proof
    assume "part = []"
    then have e: "qs = []" "i' = length qbs" using reader_state_end[OF log(2) r(2)] r(3) by simp_all
    have "reader_state crc32 lo dir base B N qbs (length qbs) [] [] lr1 w" using r(2) e by simp
    from next_record_loop_end[where inflate = inflate and wanted = True, OF log this] show ?thesis by blast
  next
    assume "\<exists>x more. more \<noteq> [] \<and> fragments True x (part @ more)"
    then obtain x more where "more \<noteq> []" "fragments True x (part @ more)" by blast
    then show ?thesis
      using next_record_cut[where inflate = inflate and wanted = True, OF log r(2)] r(3) by blast
  qed
  then show ?thesis using r(1,4) GetNextRecord_loop[OF r(2), of inflate True] unfolding reads_all_def by metis
qed

lemma reads_all_step:
  assumes "GetNextRecord crc32 inflate True lr w = GetNextRecord crc32 inflate True lr1 w" "num_errors lr = num_errors lr1"
    and "reads_all crc32 inflate lr1 w xs"
  shows "reads_all crc32 inflate lr w xs"
proof (cases xs)
  case Nil
  then show ?thesis using assms by (auto simp: reads_all_def)
next
  case (Cons y ys)
  have "read_log crc32 inflate (length xs) lr w = read_log crc32 inflate (length xs) lr1 w"
    using assms(1) Cons by simp
  then show ?thesis using assms(2,3) by (simp add: reads_all_def)
qed

lemma reads_all_new:
  assumes names: "slash \<notin> set base" and log: "log_holds lo dir base B N (log_bytes crc32 B qbs) w" "linked crc32 B 0 qbs"
    "int B < 2 ^ 24" "12 \<le> B" and rec: "records_in xs (concat (map snd (drop (lo * N) qbs)))"
  shows "reads_all crc32 inflate (LogReader_new dir base (int B) (int N)) w xs"
proof -
  obtain lr where lr: "GetNextRecord crc32 inflate True (LogReader_new dir base (int B) (int N)) w = next_record_loop crc32 inflate True lr w"
     "reader_state crc32 lo dir base B N qbs (lo * N) [] [] lr w" "num_errors lr = 0"
    using GetNextRecord_new[where inflate = inflate and wanted = True, OF names log(1,3,4,2)] by blast
  have "reads_all crc32 inflate lr w xs" using reads_all_from[OF log(1,2) lr(2)] rec by simp
  moreover have "num_errors (LogReader_new dir base (int B) (int N)) = num_errors lr" using lr(3) by (simp add: LogReader_new_def)
  ultimately show ?thesis
    using reads_all_step lr(1) GetNextRecord_loop[OF lr(2), of inflate True] by metis
qed

end
