(* ===== verification/LogSessions.thy ===== *)
theory LogSessions
  imports LogReading
begin

text \<open>
  What a process that writes a log and one that reads it can rely on, and where they cannot:
  records come back in order over any number of sessions and files, positions that were told
  are found again; a position inside a block that begins with the rest of a record is not.
\<close>

section \<open>Positions\<close>

lemma LogWriter_Tell_at:
  assumes "writer_at lo dir base B N (log_bytes crc32 B qbs) lw w" "linked crc32 B 0 qbs"
    and "PendingRecordCount (lw_recorder lw) = 0"
  shows "LogWriter_Tell lw = Some \<lparr>file_num = int (length qbs div N), block_num = int (length qbs mod N), record_num = 0\<rparr>"
proof -
  let ?all = "log_bytes crc32 B qbs"
  have B: "0 < B" "0 < N" using assms(1) by (simp_all add: writer_at_def log_holds_def)
  have len: "length ?all = B * length qbs" by (rule length_log_bytes[OF assms(2)])
  have div: "length ?all div (B * N) = length qbs div N" using B(1) len by simp
  have "length ?all mod (B * N) = B * (length qbs mod N)" unfolding len by (rule mult_mod_right[symmetric])
  then have "length (drop (length ?all div (B * N) * (B * N)) ?all) = B * (length qbs mod N)"
    by (simp only: length_drop length_mod_parts)
  moreover have "at_end (lw_file lw) (log_name dir base B (length ?all div (B * N)))
      (drop (length ?all div (B * N) * (B * N)) ?all) w"
    using assms(1) by (simp only: writer_at_def)
  ultimately have pos: "File_Position (lw_file lw) = Some (int (B * (length qbs mod N)))"
    by (simp only: at_end_position)
  have conf: "lw_block_size lw = int B" "lw_blocks_per_file lw = int N" "lw_file_num lw = int (length qbs div N)"
    using assms(1) div by (simp_all add: writer_at_def writer_conf_def)
  have "int (B * (length qbs mod N)) \<noteq> int N * int B"
    using B by (simp flip: of_nat_mult add: mult.commute[of N]) (metis less_irrefl mod_less_divisor)
  then show ?thesis using pos conf B assms(3) by (simp add: LogWriter_Tell_def)
qed

text \<open>A new reader that opens the file of a block and moves to the block.\<close>

lemma open_at_block:
  assumes log: "log_holds lo dir base B N (log_bytes crc32 B qbs) w" "linked crc32 B 0 qbs" "int B < 2 ^ 24" "12 \<le> B"
    and n: "n \<le> length qbs" "j * N + p = n" "p \<le> N" "lo \<le> j" and lr: "lr = LogReader_new dir base (int B) (int N)"
  shows "\<exists>f f1. OpenFile (int j) lr w = Some (True, lr\<lparr>lr_file_num := int j, lr_file := f\<rparr>, w) \<and> is_open f
     \<and> File_SetPosition (int (B * p)) FILE_SET w f = Some (int (B * p), f1)
     \<and> reader_state crc32 lo dir base B N qbs n [] [] (lr\<lparr>lr_file_num := int j, lr_file := f1\<rparr>) w
     \<and> (p = 0 \<longrightarrow> f1 = f)"
proof -
  have B: "0 < B" "0 < N" using log(1) by (simp_all add: log_holds_def)
  have conf: "reader_conf dir base B N lr" by (simp add: reader_conf_def LogReader_new_def lr)
  have "j * N \<le> length qbs" using n(1,2) by linarith
  then have j: "j \<le> length (log_bytes crc32 B qbs) div (B * N)"
    using length_log_bytes[OF log(2)] B by (simp add: less_eq_div_iff_mult_less_eq)
  obtain f where f: "OpenFile (int j) lr w = Some (True, lr\<lparr>lr_file_num := int j, lr_file := f\<rparr>, w)"
      "reads_at f (log_name dir base B j) 0 w"
    using OpenFile_holds[OF log(1) conf n(4) j] lr by auto
  define f1 where "f1 = f\<lparr>fd := Some (B * p), file_position := int (B * p)\<rparr>"
  have sp: "File_SetPosition (int (B * p)) FILE_SET w f = Some (int (B * p), f1)"
    using f(2) by (simp add: reads_at_def File_SetPosition_def f1_def Let_def flip: of_nat_mult)
  have "file_content (log_name dir base B j) w = file_part (B * N) (log_bytes crc32 B qbs) j"
    using log(1) j n(4) by (auto simp: log_holds_def file_content_def)
  moreover have "B * p \<le> length (file_part (B * N) (log_bytes crc32 B qbs) j)"
  proof -
    have "j * (B * N) + B * p = B * n" using n(2) by (metis add_mult_distrib2 mult.left_commute)
    also have "\<dots> \<le> length (log_bytes crc32 B qbs)" using n(1) length_log_bytes[OF log(2)] by simp
    finally show ?thesis using n(3) by (simp add: file_part_def)
  qed
  ultimately have "reads_at f1 (log_name dir base B j) (B * p) w" using f(2) by (simp add: reads_at_def f1_def)
  then have "reader_state crc32 lo dir base B N qbs n [] [] (lr\<lparr>lr_file_num := int j, lr_file := f1\<rparr>) w"
    using reader_new_state[OF log(1,3,4) _ n(3) _ n(4)] n(1,2) unfolding lr by metis
  moreover have "is_open f" using f(2) by (simp add: reads_at_def is_open_def)
  moreover have "p = 0 \<longrightarrow> f1 = f" using f(2) by (cases f) (simp add: f1_def reads_at_def)
  ultimately show ?thesis using f(1) sp by blast
qed

lemma Seek_block:
  assumes log: "log_holds lo dir base B N (log_bytes crc32 B qbs) w" "linked crc32 B 0 qbs" "int B < 2 ^ 24" "12 \<le> B"
    and n: "n \<le> length qbs" "lo \<le> n div N"
  shows "\<exists>lr. Seek crc32 inflate \<lparr>file_num = int (n div N), block_num = int (n mod N), record_num = 0\<rparr>
         (LogReader_new dir base (int B) (int N)) w = Some (True, lr, w)
     \<and> num_errors lr = 0
     \<and> (\<exists>lr1. GetNextRecord crc32 inflate True lr w = next_record_loop crc32 inflate True lr1 w
          \<and> reader_state crc32 lo dir base B N qbs n [] [] lr1 w \<and> num_errors lr1 = 0)"
proof -
  let ?j = "n div N" and ?p = "n mod N"
  define lr0 where "lr0 = LogReader_new dir base (int B) (int N)"
  let ?pos = "\<lparr>file_num = int ?j, block_num = int ?p, record_num = 0\<rparr>"
  have np: "?j * N + ?p = n" "?p \<le> N" using log(1) by (simp_all add: less_imp_le log_holds_def)
  obtain f f1 where f: "OpenFile (int ?j) lr0 w = Some (True, lr0\<lparr>lr_file_num := int ?j, lr_file := f\<rparr>, w)" "is_open f"
     "File_SetPosition (int (B * ?p)) FILE_SET w f = Some (int (B * ?p), f1)"
     "reader_state crc32 lo dir base B N qbs n [] [] (lr0\<lparr>lr_file_num := int ?j, lr_file := f1\<rparr>) w" "?p = 0 \<longrightarrow> f1 = f"
    using open_at_block[OF log n(1) np n(2) lr0_def] by (elim exE conjE) (rule that)
  show ?thesis
  proof (cases "?p = 0 \<and> 0 < ?j \<and> IsReadableFile (log_file_name dir base (int B) (int ?j - 1)) w")
    case True
    define lr where "lr = lr0\<lparr>lr_file_num := int ?j, lr_record_num := 0\<rparr>"
    have "Seek crc32 inflate ?pos lr0 w = Some (True, lr, w)"
      using True by (simp add: Seek_def LogPos_IsNull_def lr_def lr0_def LogReader_new_def)
    moreover have "lr_file_num lr \<noteq> -1" "\<not> is_open (lr_file lr)" "lr_file_num lr = int ?j" "num_errors lr = 0"
      by (simp_all add: lr_def lr0_def LogReader_new_def is_open_def File_new_def)
    moreover have "OpenFile (int ?j) lr w = OpenFile (int ?j) lr0 w"
      by (simp add: OpenFile_def lr_def lr0_def CloseInternal_def LogReader_new_def)
    moreover have "f1 = f" using f(5) True by simp
    ultimately show ?thesis
      using f(1,4) unfolding lr0_def[symmetric]
      by (intro exI[of _ lr] conjI exI[of _ "lr0\<lparr>lr_file_num := int ?j, lr_file := f\<rparr>"])
        (simp_all add: GetNextRecord_def, simp add: lr0_def LogReader_new_def)
  next
    case False
    define lr where "lr = lr0\<lparr>lr_file_num := int ?j, lr_file := f1\<rparr>"
    have "AdvanceToPosInFile crc32 inflate ?pos (lr0\<lparr>lr_file_num := int ?j, lr_file := f\<rparr>) w = Some (True, lr, w)"
      using f(2,3) by (simp add: AdvanceToPosInFile_def Let_def lr0_def LogReader_new_def lr_def RecordReader_Clear_def
          RecordReader_new_def mult.commute flip: of_nat_mult)
    then have "Seek crc32 inflate ?pos lr0 w = Some (True, lr, w)"
      using False f(1) by (auto simp: Seek_def LogPos_IsNull_def lr0_def LogReader_new_def)
    moreover have "num_errors lr = 0" by (simp add: lr_def lr0_def LogReader_new_def)
    ultimately show ?thesis
      using f(4) GetNextRecord_loop[OF f(4)] unfolding lr0_def[symmetric] lr_def[symmetric]
      by (intro exI[of _ lr] conjI exI[of _ lr]) simp_all
  qed
qed

text \<open>A position with a number of records: the block is read and that many records are skipped.\<close>

lemma Seek_inside:
  assumes log: "log_holds lo dir base B N (log_bytes crc32 B qbs) w" "linked crc32 B 0 qbs" "int B < 2 ^ 24" "12 \<le> B"
    and m: "m < length qbs" "j * N + p = m" "p \<le> N" "lo \<le> j" and n: "0 < n"
  shows "\<exists>lr. Seek crc32 inflate \<lparr>file_num = int j, block_num = int p, record_num = int n\<rparr>
         (LogReader_new dir base (int B) (int N)) w
       = map_option (\<lambda>(ok, l). (ok, l, w)) (skip_log_records crc32 inflate n lr)
     \<and> reader_state crc32 lo dir base B N qbs (Suc m) [] (snd (qbs ! m)) lr w \<and> num_errors lr = 0"
proof -
  define lr0 where "lr0 = LogReader_new dir base (int B) (int N)"
  let ?pos = "\<lparr>file_num = int j, block_num = int p, record_num = int n\<rparr>"
  obtain f f1 where f: "OpenFile (int j) lr0 w = Some (True, lr0\<lparr>lr_file_num := int j, lr_file := f\<rparr>, w)" "is_open f"
     "File_SetPosition (int (B * p)) FILE_SET w f = Some (int (B * p), f1)"
     "reader_state crc32 lo dir base B N qbs m [] [] (lr0\<lparr>lr_file_num := int j, lr_file := f1\<rparr>) w"
    using open_at_block[OF log _ m(2-4) lr0_def] m(1) by auto
  define lr2 where "lr2 = lr0\<lparr>lr_file_num := int j, lr_file := f1\<rparr>"
  have st: "reader_at lo dir base B N m lr2 w" "lr_buf lr2 = []" "m \<le> length qbs" "content_holds B [] [] (lr_reader lr2)"
      "lr_record_num lr2 = 0" "num_errors lr2 = 0"
    using f(4) m(1) by (simp_all add: reader_state_def lr2_def lr0_def LogReader_new_def)
  have "rr_content (lr_reader lr2) = []" using st(4) by (simp add: content_holds_def)
  from ReadBlock_at[OF log(1,2) st(1-3,5) this] m(1) obtain lr3 where b:
      "ReadBlock lr2 w = Some (True, lr3, w)" "lr_buf lr3 = sealed crc32 B (qbs ! m)"
      "\<And>buf r n e. reader_at lo dir base B N (Suc m) (lr3\<lparr>lr_buf := buf, lr_reader := r, lr_record_num := n, num_errors := e\<rparr>) w"
      "lr_record_num lr3 = 0" "lr_reader lr3 = lr_reader lr2" "num_errors lr3 = num_errors lr2"
    by (auto simp: same_records_def)
  note q = linked_nth[OF log(2) m(1)]
  have "rr_prev_block_crc (lr_reader lr2) = 0" by (simp add: lr2_def lr0_def LogReader_new_def RecordReader_new_def)
  then have "fst (qbs ! m) = 0 \<or> rr_prev_block_crc (lr_reader lr2) = 0 \<or> fst (qbs ! m) = rr_prev_block_crc (lr_reader lr2)"
    by simp
  from ReadRecord_block[where ?crc32.0 = crc32 and inflate = inflate and wanted = False, OF st(4) q(1,2) this] obtain r where r:
     "ReadRecord crc32 inflate False (sealed crc32 B (qbs ! m)) (lr_reader lr2) = ReadRecord crc32 inflate False [] r"
     "content_holds B [] (snd (qbs ! m)) r" "rr_prev_block_crc r = end_crc crc32 B 0 (take (Suc m) qbs)"
    using q(4) by auto
  define lr where "lr = lr3\<lparr>lr_buf := [], lr_reader := r\<rparr>"
  have "reader_at lo dir base B N (Suc m) lr w"
    using b(3)[where buf = "[]" and r = r and n = "lr_record_num lr3" and e = "num_errors lr3"] by (simp add: lr_def)
  then have state: "reader_state crc32 lo dir base B N qbs (Suc m) [] (snd (qbs ! m)) lr w"
    using r(2,3) m(1) by (simp add: reader_state_def lr_def)
  obtain k where k: "n = Suc k" using n by (cases n) auto
  have skip: "skip_log_records crc32 inflate n lr3 = skip_log_records crc32 inflate n lr"
    using b(2,5) r(1) by (simp add: k lr_def)
  have B: "lr_block_size lr3 = int B" "length (lr_buf lr3) = B"
    using b(3)[where buf = "[]" and r = r and n = 0 and e = 0] length_sealed[OF q(1)] b(2)
    by (simp_all add: reader_at_def reader_conf_def)
  have z: "lr3\<lparr>lr_record_num := 0\<rparr> = lr3" using b(4) by (cases lr3) simp
  have clr: "(lr0\<lparr>lr_file_num := int j, lr_file := f\<rparr>)\<lparr>lr_reader := RecordReader_Clear (lr_reader lr0), lr_buf := [], lr_file := f1\<rparr> = lr2"
    by (simp add: lr2_def lr0_def LogReader_new_def RecordReader_Clear_def RecordReader_new_def)
  have "AdvanceToPosInFile crc32 inflate ?pos (lr0\<lparr>lr_file_num := int j, lr_file := f\<rparr>) w
      = map_option (\<lambda>(ok, l). (ok, l, w)) (skip_log_records crc32 inflate n lr)"
    using f(2,3) b(1) B clr n skip z
    by (simp add: AdvanceToPosInFile_def Let_def mult.commute lr0_def[THEN arg_cong[of _ _ lr_block_size]] LogReader_new_def
        flip: of_nat_mult)
  then have "Seek crc32 inflate ?pos lr0 w = map_option (\<lambda>(ok, l). (ok, l, w)) (skip_log_records crc32 inflate n lr)"
    using f(1) n by (simp add: Seek_def LogPos_IsNull_def)
  then show ?thesis using state b(6) st(6) by (intro exI[of _ lr]) (simp add: lr0_def lr_def)
qed

text \<open>Skipping records that are in one piece each, and one behind the rest of another.\<close>

lemma skip_whole_records:
  assumes "reader_state crc32 lo dir base B N qbs i [] (map (Pair IS_FIRST) xs @ ps) lr w"
  shows "\<exists>lr'. skip_log_records crc32 inflate (length xs) lr = Some (True, lr')
     \<and> reader_state crc32 lo dir base B N qbs i [] ps lr' w \<and> num_errors lr' = num_errors lr"
  using assms
proof (induction xs arbitrary: lr)
  case Nil
  then show ?case by simp
next
  case (Cons x xs)
  let ?ps = "map (Pair IS_FIRST) xs @ ps"
  have st: "lr_buf lr = []" "content_holds B [] ((IS_FIRST, x) # ?ps) (lr_reader lr)"
    using Cons.prems by (simp_all add: reader_state_def)
  define lr1 where "lr1 = lr\<lparr>lr_buf := [], lr_reader := (lr_reader lr)\<lparr>rr_content := enc_pieces ?ps, record_content := []\<rparr>,
      lr_record_num := lr_record_num lr + 1\<rparr>"
  have "ReadRecord crc32 inflate False (lr_buf lr) (lr_reader lr)
      = Some ((RECORD_OK, []), [], (lr_reader lr)\<lparr>rr_content := enc_pieces ?ps, record_content := []\<rparr>)"
    using content_last_piece[OF st(2), of True crc32 inflate False] st(1) by simp
  then have "skip_log_records crc32 inflate (length (x # xs)) lr = skip_log_records crc32 inflate (length xs) lr1"
    by (simp add: lr1_def)
  moreover have "reader_state crc32 lo dir base B N qbs i [] ?ps lr1 w"
    using Cons.prems content_piece(4)[OF st(2), of "[]"]
    by (simp add: reader_state_def lr1_def reader_at_def reader_conf_def)
  ultimately show ?case using Cons.IH[of lr1] by (simp add: lr1_def)
qed

lemma content_tail_piece:
  assumes "content_holds B [] ((0, t) # ps) r"
  shows "ReadRecord crc32 inflate wanted s r
     = ReadRecord crc32 inflate wanted s (r\<lparr>rr_content := enc_pieces ps, record_content := []\<rparr>)"
proof -
  note p = content_piece[OF assms]
  have e: "r\<lparr>rr_content := enc_pieces ps, record_content := []\<rparr> = r\<lparr>rr_content := enc_pieces ps\<rparr>"
    using p(3) by (cases r) simp
  have "read_piece inflate wanted s r = Some (StepContinue s (r\<lparr>rr_content := enc_pieces ps\<rparr>))"
    using p(3) by (simp add: read_piece_def p(2) flag_bits Let_def)
  then show ?thesis unfolding e by (simp add: ReadRecord.simps[of crc32 inflate wanted s r] p(1))
qed

lemma skip_behind_tail:
  assumes "reader_state crc32 lo dir base B N qbs i [] ((0, t) # (IS_FIRST, x) # ps) lr w"
  shows "\<exists>lr'. skip_log_records crc32 inflate 1 lr = Some (True, lr')
     \<and> reader_state crc32 lo dir base B N qbs i [] ps lr' w \<and> num_errors lr' = num_errors lr"
proof -
  let ?r = "(lr_reader lr)\<lparr>rr_content := enc_pieces ((IS_FIRST, x) # ps), record_content := []\<rparr>"
  define lr1 where "lr1 = lr\<lparr>lr_reader := ?r\<rparr>"
  have st: "lr_buf lr = []" "content_holds B [] ((0, t) # (IS_FIRST, x) # ps) (lr_reader lr)"
    using assms by (simp_all add: reader_state_def)
  have "reader_state crc32 lo dir base B N qbs i [] (map (Pair IS_FIRST) [x] @ ps) lr1 w"
    using assms content_piece(4)[OF st(2), of "[]"] by (simp add: reader_state_def lr1_def reader_at_def reader_conf_def)
  moreover have "skip_log_records crc32 inflate 1 lr = skip_log_records crc32 inflate (length [x]) lr1"
    using content_tail_piece[OF st(2), of crc32 inflate False "[]"] st(1) by (simp add: lr1_def)
  moreover have "num_errors lr1 = num_errors lr" by (simp add: lr1_def)
  ultimately show ?thesis using skip_whole_records by metis
qed

text \<open>Where a reader says that it is, after records of one piece each.\<close>

definition tells :: "nat \<Rightarrow> nat \<Rightarrow> linked_block list \<Rightarrow> nat \<Rightarrow> piece list \<Rightarrow> log_reader \<Rightarrow> bool" where
  "tells B N qbs i ps lr \<longleftrightarrow> 0 < i \<and> 0 < file_position (lr_file lr)
     \<and> (\<exists>ds. ds \<noteq> [] \<and> snd (qbs ! (i - 1)) = map (Pair IS_FIRST) ds @ ps \<and> lr_record_num lr = int (length ds))"

lemma LogReader_Tell_at:
  assumes "reader_at lo dir base B N i lr w" "0 < B" "0 < file_position (lr_file lr)" "lr_record_num lr = int n" "0 < n"
  shows "\<exists>j p. LogReader_Tell lr = Some \<lparr>file_num = int j, block_num = int p, record_num = int n\<rparr> \<and> j * N + p = i - 1 \<and> p < N \<and> lo \<le> j"
proof -
  obtain j p where jp: "reader_conf dir base B N lr" "lr_file_num lr = int j"
     "reads_at (lr_file lr) (log_name dir base B j) (B * p) w" "p \<le> N" "j * N + p = i" "lo \<le> j"
    using assms(1) by (auto simp: reader_at_def)
  have "file_position (lr_file lr) = int (B * p)" "is_open (lr_file lr)" "0 < p" "lr_block_size lr = int B"
    using jp assms(3) by (auto simp: reads_at_def is_open_def reader_conf_def intro: Nat.gr0I)
  then show ?thesis
    using jp(2,4-6) assms(2-5) by (intro exI[of _ j] exI[of _ "p - 1"]) (simp add: LogReader_Tell_def Let_def of_nat_diff)
qed

lemma read_log_whole:
  assumes log: "log_holds lo dir base B N (log_bytes crc32 B qbs) w" "linked crc32 B 0 qbs"
    and st: "reader_state crc32 lo dir base B N qbs i [] ps lr w" "ps = [] \<or> tells B N qbs i ps lr"
    and rec: "ps @ concat (map snd (drop i qbs)) = map (Pair IS_FIRST) (xs @ ys)" "xs \<noteq> []"
  shows "\<exists>i' qs lr'. read_log crc32 inflate (length xs) lr w = Some (xs, lr', w)
     \<and> reader_state crc32 lo dir base B N qbs i' [] qs lr' w \<and> qs @ concat (map snd (drop i' qbs)) = map (Pair IS_FIRST) ys
     \<and> tells B N qbs i' qs lr'"
  using st rec
proof (induction xs arbitrary: i ps lr)
  case (Cons x xs)
  have frag: "fragments True x [(IS_FIRST, x)]" by simp
  have tail: "ps @ concat (map snd (drop i qbs)) = [(IS_FIRST, x)] @ map (Pair IS_FIRST) (xs @ ys)"
    using Cons.prems(3) by simp
  have "True \<longleftrightarrow> ([] :: bytes) = []" by simp
  from next_record_loop_at[where inflate = inflate and wanted = True, OF log Cons.prems(1) frag tail this] obtain i1 qs1 lr1 where s:
    "next_record_loop crc32 inflate True lr w = Some ((True, x), lr1, w)"
    "reader_state crc32 lo dir base B N qbs i1 [] qs1 lr1 w"
    "qs1 @ concat (map snd (drop i1 qbs)) = map (Pair IS_FIRST) (xs @ ys)"
    "lr_record_num lr1 = (if i1 = i then lr_record_num lr + 1 else 1)"
    "i1 = i \<and> ps = [(IS_FIRST, x)] @ qs1 \<and> lr_file lr1 = lr_file lr
        \<or> i < i1 \<and> 0 < file_position (lr_file lr1)
          \<and> (\<exists>fr1 fr2. [(IS_FIRST, x)] = fr1 @ fr2 \<and> fr2 \<noteq> [] \<and> snd (qbs ! (i1 - 1)) = fr2 @ qs1)"
    by auto
  have told: "tells B N qbs i1 qs1 lr1"
    using s(5)
  proof
    assume a: "i1 = i \<and> ps = [(IS_FIRST, x)] @ qs1 \<and> lr_file lr1 = lr_file lr"
    then obtain ds where "ds \<noteq> []" "snd (qbs ! (i - 1)) = map (Pair IS_FIRST) ds @ ps" "lr_record_num lr = int (length ds)"
      "0 < i" "0 < file_position (lr_file lr)"
      using Cons.prems(2) by (auto simp: tells_def)
    then show ?thesis using a s(4) by (auto simp: tells_def intro!: exI[of _ "ds @ [x]"])
  next
    assume a: "i < i1 \<and> 0 < file_position (lr_file lr1)
          \<and> (\<exists>fr1 fr2. [(IS_FIRST, x)] = fr1 @ fr2 \<and> fr2 \<noteq> [] \<and> snd (qbs ! (i1 - 1)) = fr2 @ qs1)"
    then have "snd (qbs ! (i1 - 1)) = [(IS_FIRST, x)] @ qs1" by (auto simp: Cons_eq_append_conv)
    then show ?thesis using a s(4) by (auto simp: tells_def intro!: exI[of _ "[x]"])
  qed
  have gn: "GetNextRecord crc32 inflate True lr w = Some ((True, x), lr1, w)"
    using GetNextRecord_loop[where inflate = inflate and wanted = True, OF Cons.prems(1)] s(1) by simp
  show ?case
  proof (cases "xs = []")
    case True
    then show ?thesis using gn s(2,3) told by (intro exI[of _ i1] exI[of _ qs1] exI[of _ lr1]) simp
  next
    case False
    from Cons.IH[OF s(2) disjI2[OF told] s(3) False] show ?thesis using gn by auto
  qed
qed simp

section \<open>A directory without a log, and one with a log of one file\<close>

definition no_log :: "bytes \<Rightarrow> bytes \<Rightarrow> nat \<Rightarrow> world \<Rightarrow> bool" where
  "no_log dir base B w \<longleftrightarrow> results w = [] \<and> (\<forall>k < 10 ^ 10. map_of (disk w) (log_name dir base B k) = None)
     \<and> map_of (disk w) (log_lock dir base) = None"

lemma no_log_contents: "no_log dir base B w \<Longrightarrow> 0 < B \<Longrightarrow> 0 < N \<Longrightarrow> log_contents crc32 0 dir base B N [] w"
  by (simp add: no_log_def log_contents_def log_before_def)

lemma no_log_empty: "no_log dir base B \<lparr>disk = [], results = []\<rparr>"
  by (simp add: no_log_def)

lemma one_file_log:
  assumes "linked crc32 B 0 qbs" "length qbs < N" "0 < B"
  shows "log_holds 0 dir base B N (log_bytes crc32 B qbs)
     \<lparr>disk = [(log_name dir base B 0, log_bytes crc32 B qbs)], results = []\<rparr>"
proof -
  have "length (log_bytes crc32 B qbs) < B * N" using length_log_bytes[OF assms(1)] assms(2,3) by simp
  then show ?thesis
    using length_log_bytes[OF assms(1)] assms(2,3) by (auto simp: log_holds_def log_name_inject file_part_def)
qed

lemma Rewind_no_log:
  assumes "slash \<notin> set base" "results w = []" "\<And>k. k < 10 ^ 10 \<Longrightarrow> map_of (disk w) (log_name dir base B k) = None"
  shows "Rewind (LogReader_new dir base (int B) (int N)) w = Some (LogReader_new dir base (int B) (int N), w)"
proof -
  have "set (filter (log_re base (int B)) (dir_entries dir w)) = (\<lambda>k. log_name_prefix base (int B) @ digits 10 k) ` {}"
    by (rule log_listing) (use assms in auto)
  then show ?thesis using assms(2) by (simp add: Rewind_def DirList_files_def) (simp add: LogReader_new_def)
qed

text \<open>Everything is read from the first file on, by a new reader and by one that was rewound.\<close>

lemma Rewind_reads_all:
  assumes names: "slash \<notin> set base" and log: "log_before lo dir base B N (log_bytes crc32 B qbs) w" "linked crc32 B 0 qbs" "int B < 2 ^ 24" "12 \<le> B"
    and rec: "records_in xs (concat (map snd (drop (lo * N) qbs)))"
  shows "\<exists>lr. Rewind (LogReader_new dir base (int B) (int N)) w = Some (lr, w)
     \<and> reads_all crc32 inflate (LogReader_new dir base (int B) (int N)) w xs \<and> reads_all crc32 inflate lr w xs"
proof (cases "log_holds lo dir base B N (log_bytes crc32 B qbs) w")
  case True
  let ?lr = "LogReader_new dir base (int B) (int N)" and ?lr1 = "(LogReader_new dir base (int B) (int N))\<lparr>lr_file_num := int lo\<rparr>"
  have all: "reads_all crc32 inflate ?lr w xs"
    by (rule reads_all_new[OF names True log(2-4) rec])
  have "reader_conf dir base B N ?lr" by (simp add: reader_conf_def LogReader_new_def)
  then have rew: "Rewind ?lr w = Some (?lr1, w)" using Rewind_holds[OF names True] by simp
  have num: "lr_file_num ?lr = -1" "num_errors ?lr1 = num_errors ?lr" by (simp_all add: LogReader_new_def)
  have "GetNextRecord crc32 inflate True ?lr1 w = GetNextRecord crc32 inflate True ?lr w"
    using rew num(1) by (simp add: GetNextRecord_def)
  from reads_all_step[OF this num(2) all] show ?thesis using rew all by blast
next
  case False
  then have none: "results w = []" "log_bytes crc32 B qbs = []" "\<forall>k < 10 ^ 10. map_of (disk w) (log_name dir base B k) = None"
    "0 < B"
    using log(1) by (auto simp: log_before_def)
  have "qbs = []" using none(2,4) length_log_bytes[OF log(2)] by simp
  then have xs: "xs = []" using rec by (cases xs) (auto simp: encode_records_Cons records_in_def)
  let ?lr = "LogReader_new dir base (int B) (int N)"
  have rew: "Rewind ?lr w = Some (?lr, w)" using none(3) by (intro Rewind_no_log[OF names none(1)]) simp
  moreover have "lr_file_num ?lr = -1" by (simp add: LogReader_new_def)
  ultimately show ?thesis by (simp add: reads_all_def xs GetNextRecord_def)
qed

lemma reads_all_contents:
  assumes names: "slash \<notin> set base" and log: "log_contents crc32 0 dir base B N qbs w" "int B < 2 ^ 24" "12 \<le> B"
    and rec: "encode_records xs (concat (map snd qbs))"
  shows "reads_all crc32 inflate (LogReader_new dir base (int B) (int N)) w xs"
  using Rewind_reads_all[where inflate = inflate and lo = 0 and xs = xs, OF names _ _ log(2,3)] log(1) records_in_whole[OF rec]
  by (simp add: log_contents_def) blast

lemma LogWriter_new_bound: "LogWriter_new dir base B N t zl dump = Some lw \<Longrightarrow> B < 2 ^ 24"
  by (auto simp: LogWriter_new_def RecordWriter_new_def kMaximumRecordBlockSize_def split: if_splits)

lemma storable_plain: "storable False deflate x \<longleftrightarrow> fst x \<or> snd x \<noteq> []" "stored False deflate x = snd x"
  by (simp_all add: storable_def stored_def)

lemma sessions_plain:
  assumes new: "LogWriter_new dir base (int B) (int N) False False dump = Some lw" "good_names dir base" "0 < N"
      "0 \<le> dump" "dump < int B - 16"
    and log: "no_log dir base B w" and xs: "\<forall>s \<in> set ss. \<forall>x \<in> set (snd s). fst x \<or> snd x \<noteq> []"
    and room: "weight (map snd (concat (map snd ss))) < 2 ^ 31 - 1"
  shows "\<exists>qbs w'. log_sessions crc32 deflate lw ss w = Some w' \<and> log_contents crc32 0 dir base B N qbs w'
     \<and> laid_out dump B (map snd (concat (map snd ss))) (concat (map snd qbs)) \<and> length qbs \<le> weight (map snd (concat (map snd ss)))"
proof -
  have st: "map (stored False deflate) = map snd" by (simp add: fun_eq_iff storable_plain)
  have "0 < B" using new(4,5) by simp
  from log_sessions_hold[where ?crc32.0 = crc32, OF new(1,2,4,5) no_log_contents[OF log this new(3)], of ss deflate] xs room
  obtain qbs w' where q: "log_sessions crc32 deflate lw ss w = Some w'" "log_contents crc32 0 dir base B N qbs w'"
     "laid_out dump B (map snd (concat (map snd ss))) (concat (map snd qbs))"
    by (auto simp: storable_plain st)
  have "linked crc32 B 0 qbs" using q(2) by (simp add: log_contents_def)
  then have "length qbs \<le> length (concat (map snd qbs))" by (rule length_concat_linked)
  then show ?thesis using q encode_records_length[OF laid_out_encode[OF q(3)]] by auto
qed

lemma encode_whole: "encode_records xs (map (Pair IS_FIRST) xs)"
proof (induction xs)
  case (Cons x xs)
  then show ?case
    by (subst encode_records_Cons) (intro exI[of _ "[(IS_FIRST, x)]"] exI[of _ "map (Pair IS_FIRST) xs"], simp)
qed simp

section \<open>Properties\<close>

text \<open>
  C6. Records written to a log come back: any number of processes, one after the other, open
  the log in a directory that had none, write records of any size by either version of
  \<open>WriteRecord\<close> and close it.  A new \<open>LogReader\<close> then returns exactly these records in order,
  through all the files, counts no error, and says that there are no more.  The writers are as
  by default (they do not deflate and use no temporary file), and the records are not empty ones
  given as a stream, which are lost.
\<close>

theorem Log_roundtrip:
  assumes "LogWriter_new dir base (int B) (int N) False False dump = Some lw" "good_names dir base" "0 < N"
      "0 \<le> dump" "dump < int B - 16" "no_log dir base B w"
    and "\<forall>s \<in> set ss. \<forall>x \<in> set (snd s). fst x \<or> snd x \<noteq> []"
    and "weight (map snd (concat (map snd ss))) < 2 ^ 31 - 1"
  shows "\<exists>w'. log_sessions crc32 deflate lw ss w = Some w'
     \<and> reads_all crc32 inflate (LogReader_new dir base (int B) (int N)) w' (map snd (concat (map snd ss)))"
proof -
  obtain qbs w' where q: "log_sessions crc32 deflate lw ss w = Some w'" "log_contents crc32 0 dir base B N qbs w'"
     "laid_out dump B (map snd (concat (map snd ss))) (concat (map snd qbs))"
    using sessions_plain[OF assms(1-8)] by blast
  have "slash \<notin> set base" "12 \<le> B" "int B < 2 ^ 24"
    using assms(2,4,5) LogWriter_new_bound[OF assms(1)] by (simp_all add: good_names_def)
  then show ?thesis using reads_all_contents[OF _ q(2)] laid_out_encode[OF q(3)] q(1) by blast
qed

lemma Log_roundtrip_witness:
  "\<exists>w'. log_sessions (\<lambda>bs. word_of_nat (be_value bs)) (\<lambda>_. None)
        (the (LogWriter_new [47, 116] [97] (int 40) (int 2) False False 20))
        [(7, [(True, replicate 50 7), (True, [])]), (8, []), (9, [(False, [1, 2])])] \<lparr>disk = [], results = []\<rparr> = Some w'
     \<and> reads_all (\<lambda>bs. word_of_nat (be_value bs)) (\<lambda>bs. (bs, True)) (LogReader_new [47, 116] [97] (int 40) (int 2)) w'
         (map snd (concat (map snd [(7 :: int, [(True, replicate 50 7), (True, [])]), (8, []), (9, [(False, [1, 2])])])))"
  by (rule Log_roundtrip[where dump = 20, OF _ _ _ _ _ no_log_empty])
    (simp_all add: LogWriter_new_def RecordWriter_new_def kMaximumRecordBlockSize_def good_names_def slash_def weight_def)

text \<open>
  C13. After \<open>Flush\<close> the position that \<open>LogWriter::Tell\<close> gives is a checkpoint: whatever was
  written before, a new reader that seeks to it gets exactly the records written later, be the
  position inside a file or the beginning of one that did not exist yet.  The writers and the
  records are as in the round trip above.
\<close>

theorem Flush_Tell_Seek:
  assumes "LogWriter_new dir base (int B) (int N) False False dump = Some lw" "good_names dir base" "0 < N"
      "0 \<le> dump" "dump < int B - 16" "no_log dir base B w"
    and "\<forall>s \<in> set ss. \<forall>x \<in> set (snd s). fst x \<or> snd x \<noteq> []" "\<forall>x \<in> set xs. fst x \<or> snd x \<noteq> []"
      "\<forall>x \<in> set ys. fst x \<or> snd x \<noteq> []"
    and "weight (map snd (concat (map snd ss) @ xs @ ys)) < 2 ^ 31 - 1"
  shows "\<exists>w0 lw1 w1 lw2 w2 lw3 w3 pos lw4 w4 w5 lr.
     log_sessions crc32 deflate lw ss w = Some w0 \<and> Initialize pid lw w0 = Some (True, lw1, w1)
     \<and> write_all crc32 deflate xs lw1 w1 = Some (lw2, w2) \<and> Flush crc32 lw2 w2 = Some (True, lw3, w3)
     \<and> LogWriter_Tell lw3 = Some pos
     \<and> write_all crc32 deflate ys lw3 w3 = Some (lw4, w4) \<and> LogWriter_destroy crc32 lw4 w4 = Some w5
     \<and> Seek crc32 inflate pos (LogReader_new dir base (int B) (int N)) w5 = Some (True, lr, w5)
     \<and> reads_all crc32 inflate lr w5 (map snd ys)"
proof -
  have st: "map (stored False deflate) = map snd" by (simp add: fun_eq_iff storable_plain)
  have B: "int B < 2 ^ 24" "12 \<le> B" using assms(4,5) LogWriter_new_bound[OF assms(1)] by simp_all
  have "weight (map snd (concat (map snd ss))) < 2 ^ 31 - 1" using assms(10) by (simp add: weight_def)
  from sessions_plain[OF assms(1-7) this] obtain qbs w0 where q: "log_sessions crc32 deflate lw ss w = Some w0"
     "log_contents crc32 0 dir base B N qbs w0" "length qbs \<le> weight (map snd (concat (map snd ss)))" by blast
  obtain lw1 w1 where i: "Initialize pid lw w0 = Some (True, lw1, w1)" "writer_inv crc32 False dump 0 dir base B N qbs [] lw1 w1"
    using Initialize_inv[OF assms(1,2,4,5) q(2)] by blast
  have r1: "length qbs + length [] + weight (map (stored False deflate) xs) < 2 ^ 31"
    using q(3) assms(10) by (simp add: st weight_def)
  have "\<forall>x \<in> set xs. storable False deflate x" using assms(8) by (simp add: storable_plain)
  from write_all_inv[OF i(2) this r1] obtain n1 ps fs lw2 w2 where a: "write_all crc32 deflate xs lw1 w1 = Some (lw2, w2)"
     "writer_inv crc32 False dump 0 dir base B N (qbs @ n1) ps lw2 w2"
     "laid_out dump B (map snd xs) fs" "fs = concat (map snd n1) @ ps" by (auto simp: st)
  have l1: "linked crc32 B (end_crc crc32 B 0 qbs) n1" using a(2) by (simp add: writer_inv_def)
  have n1: "length n1 + length ps \<le> weight (map snd xs)"
    using length_concat_linked[OF l1] encode_records_length[OF laid_out_encode[OF a(3)]] a(4) by simp
  then have "length (qbs @ n1) < 2 ^ 31 - 1" using q(3) assms(10) by (simp add: weight_def)
  from Flush_inv[OF a(2) this] obtain n2 lw3 w3 where f: "Flush crc32 lw2 w2 = Some (True, lw3, w3)"
     "writer_inv crc32 False dump 0 dir base B N ((qbs @ n1) @ n2) [] lw3 w3" "concat (map snd n2) = ps" by blast
  define at where "at = (qbs @ n1) @ n2"
  have "linked crc32 B (end_crc crc32 B 0 (qbs @ n1)) n2" using f(2) by (simp add: writer_inv_def)
  then have "length n2 \<le> length ps" using length_concat_linked f(3) by metis
  then have len: "length at \<le> length qbs + weight (map snd xs)" using n1 by (simp add: at_def)
  have inv: "writer_inv crc32 False dump 0 dir base B N at [] lw3 w3" using f(2) by (simp add: at_def)
  then have tell: "LogWriter_Tell lw3 = Some \<lparr>file_num = int (length at div N), block_num = int (length at mod N), record_num = 0\<rparr>"
    by (intro LogWriter_Tell_at) (auto simp: writer_inv_def writer_holds_def PendingRecordCount_def)
  have r2: "length at + length [] + weight (map (stored False deflate) ys) < 2 ^ 31"
    using q(3) len assms(10) by (simp add: st weight_def)
  have "\<forall>x \<in> set ys. storable False deflate x" using assms(9) by (simp add: storable_plain)
  from write_all_inv[OF inv this r2] obtain n3 ps2 fs2 lw4 w4 where b: "write_all crc32 deflate ys lw3 w3 = Some (lw4, w4)"
     "writer_inv crc32 False dump 0 dir base B N (at @ n3) ps2 lw4 w4"
     "laid_out dump B (map snd ys) fs2" "fs2 = concat (map snd n3) @ ps2" by (auto simp: st)
  have "linked crc32 B (end_crc crc32 B 0 at) n3" using b(2) by (simp add: writer_inv_def)
  then have "length n3 \<le> weight (map snd ys)"
    using length_concat_linked[of crc32 B "end_crc crc32 B 0 at" n3] encode_records_length[OF laid_out_encode[OF b(3)]] b(4) by simp
  then have "length (at @ n3) < 2 ^ 31 - 1" using len q(3) assms(10) by (simp add: weight_def)
  from LogWriter_Close_inv[OF b(2) this assms(2)] obtain n4 lw5 w5 where c:
     "LogWriter_Close crc32 lw4 w4 = Some (lw5, w5)" "lw_buf lw5 = []" "leftover (lw_recorder lw5) = 0"
     "log_holds 0 dir base B N (log_bytes crc32 B ((at @ n3) @ n4)) w5" "linked crc32 B 0 ((at @ n3) @ n4)" "concat (map snd n4) = ps2"
    by blast
  have "length at \<le> length ((at @ n3) @ n4)" by simp
  from Seek_block[where inflate = inflate, OF c(4,5) B this le0] obtain lr lr1 where s:
     "Seek crc32 inflate \<lparr>file_num = int (length at div N), block_num = int (length at mod N), record_num = 0\<rparr>
         (LogReader_new dir base (int B) (int N)) w5 = Some (True, lr, w5)"
     "GetNextRecord crc32 inflate True lr w5 = next_record_loop crc32 inflate True lr1 w5"
     "reader_state crc32 0 dir base B N ((at @ n3) @ n4) (length at) [] [] lr1 w5" "num_errors lr1 = 0" "num_errors lr = 0"
    by blast
  have "encode_records (map snd ys) ([] @ concat (map snd (drop (length at) ((at @ n3) @ n4))))"
    using laid_out_encode[OF b(3)] b(4) c(6) by simp
  from reads_all_from[where inflate = inflate, OF c(4,5) s(3) records_in_whole[OF this]] have "reads_all crc32 inflate lr w5 (map snd ys)"
    using reads_all_step[of crc32 inflate lr w5 lr1] s(2,4,5) GetNextRecord_loop[OF s(3)] by metis
  moreover have "LogWriter_destroy crc32 lw4 w4 = Some w5" using c(1-3) by (simp add: LogWriter_destroy_def)
  ultimately show ?thesis using q(1) i(1) a(1) f(1) tell b(1) s(1) by blast
qed

lemma Flush_Tell_Seek_witness:
  "\<exists>w0 lw1 w1 lw2 w2 lw3 w3 pos lw4 w4 w5 lr.
     log_sessions (\<lambda>bs. word_of_nat (be_value bs)) (\<lambda>_. None)
        (the (LogWriter_new [47, 116] [97] (int 40) (int 2) False False 20)) [(7, [(True, [5])])] \<lparr>disk = [], results = []\<rparr> = Some w0
     \<and> Initialize 8 (the (LogWriter_new [47, 116] [97] (int 40) (int 2) False False 20)) w0 = Some (True, lw1, w1)
     \<and> write_all (\<lambda>bs. word_of_nat (be_value bs)) (\<lambda>_. None) [(True, replicate 50 7)] lw1 w1 = Some (lw2, w2)
     \<and> Flush (\<lambda>bs. word_of_nat (be_value bs)) lw2 w2 = Some (True, lw3, w3)
     \<and> LogWriter_Tell lw3 = Some pos
     \<and> write_all (\<lambda>bs. word_of_nat (be_value bs)) (\<lambda>_. None) [(False, [1, 2])] lw3 w3 = Some (lw4, w4)
     \<and> LogWriter_destroy (\<lambda>bs. word_of_nat (be_value bs)) lw4 w4 = Some w5
     \<and> Seek (\<lambda>bs. word_of_nat (be_value bs)) (\<lambda>bs. (bs, True)) pos (LogReader_new [47, 116] [97] (int 40) (int 2)) w5 = Some (True, lr, w5)
     \<and> reads_all (\<lambda>bs. word_of_nat (be_value bs)) (\<lambda>bs. (bs, True)) lr w5 (map snd [(False, [1, 2])])"
  by (rule Flush_Tell_Seek[where dump = 20, OF _ _ _ _ _ no_log_empty])
    (simp_all add: LogWriter_new_def RecordWriter_new_def kMaximumRecordBlockSize_def good_names_def slash_def weight_def)

text \<open>
  When every record fits beside what the recorder may keep, so that none is split between
  blocks, a reader can note where it is: after any number of records, a new reader that seeks
  to what \<open>LogReader::Tell\<close> gives reads exactly the records that are left.
\<close>

theorem Tell_Seek_whole_records:
  assumes "LogWriter_new dir base (int B) (int N) False False dump = Some lw" "good_names dir base" "0 < N"
      "0 \<le> dump" "dump < int B - 16" "no_log dir base B w"
    and "\<forall>s \<in> set ss. \<forall>x \<in> set (snd s). fst x \<or> snd x \<noteq> []"
    and "weight (map snd (concat (map snd ss))) < 2 ^ 31 - 1"
    and "\<forall>s \<in> set ss. \<forall>x \<in> set (snd s). int (length (snd x)) + dump \<le> int B - 16"
    and "map snd (concat (map snd ss)) = xs @ ys" "xs \<noteq> []"
  shows "\<exists>w' lr pos lr'. log_sessions crc32 deflate lw ss w = Some w'
     \<and> read_log crc32 inflate (length xs) (LogReader_new dir base (int B) (int N)) w' = Some (xs, lr, w')
     \<and> LogReader_Tell lr = Some pos
     \<and> Seek crc32 inflate pos (LogReader_new dir base (int B) (int N)) w' = Some (True, lr', w')
     \<and> reads_all crc32 inflate lr' w' ys"
proof -
  let ?new = "LogReader_new dir base (int B) (int N)"
  have B: "int B < 2 ^ 24" "12 \<le> B" "slash \<notin> set base"
    using assms(2,4,5) LogWriter_new_bound[OF assms(1)] by (simp_all add: good_names_def)
  obtain qbs w' where q: "log_sessions crc32 deflate lw ss w = Some w'" "log_contents crc32 0 dir base B N qbs w'"
     "laid_out dump B (xs @ ys) (concat (map snd qbs))"
    using sessions_plain[OF assms(1-8)] assms(10) by metis
  have pieces: "concat (map snd qbs) = map (Pair IS_FIRST) (xs @ ys)"
  proof -
    have "\<forall>x \<in> set (xs @ ys). int (length x) + dump \<le> int B - 16" using assms(9) unfolding assms(10)[symmetric] by auto
    then show ?thesis using q(3) by (simp add: laid_out_def)
  qed
  have lk: "linked crc32 B 0 qbs" using q(2) by (simp add: log_contents_def)
  have "log_bytes crc32 B qbs \<noteq> []" using pieces assms(11) B(2) length_log_bytes[OF lk] by (cases qbs) auto
  then have log: "log_holds 0 dir base B N (log_bytes crc32 B qbs) w'" using q(2) by (auto simp: log_contents_def log_before_def)
  obtain lr0 where n: "GetNextRecord crc32 inflate True ?new w' = next_record_loop crc32 inflate True lr0 w'"
     "reader_state crc32 0 dir base B N qbs 0 [] [] lr0 w'"
    using GetNextRecord_new[where inflate = inflate and wanted = True, OF B(3) log B(1,2) lk] by auto
  have "[] @ concat (map snd (drop 0 qbs)) = map (Pair IS_FIRST) (xs @ ys)" using pieces by simp
  from read_log_whole[where inflate = inflate, OF log lk n(2) disjI1[OF refl] this assms(11)] obtain i ps lr where r:
     "read_log crc32 inflate (length xs) lr0 w' = Some (xs, lr, w')"
     "reader_state crc32 0 dir base B N qbs i [] ps lr w'" "ps @ concat (map snd (drop i qbs)) = map (Pair IS_FIRST) ys"
     "tells B N qbs i ps lr"
    by blast
  have rl: "read_log crc32 inflate (length xs) ?new w' = Some (xs, lr, w')"
    using r(1) n(1) GetNextRecord_loop[OF n(2), of inflate True] assms(11) by (cases "length xs") simp_all
  obtain ds where ds: "ds \<noteq> []" "snd (qbs ! (i - 1)) = map (Pair IS_FIRST) ds @ ps" "lr_record_num lr = int (length ds)"
     "0 < i" "0 < file_position (lr_file lr)"
    using r(4) by (auto simp: tells_def)
  have at: "reader_at 0 dir base B N i lr w'" "i \<le> length qbs" using r(2) by (simp_all add: reader_state_def)
  have "0 < length ds" "0 < B" using ds(1) B(2) by simp_all
  from LogReader_Tell_at[OF at(1) this(2) ds(5,3) this(1)] obtain j p where t:
     "LogReader_Tell lr = Some \<lparr>file_num = int j, block_num = int p, record_num = int (length ds)\<rparr>" "j * N + p = i - 1" "p < N"
    by blast
  have i: "i - 1 < length qbs" "p \<le> N" using ds(4) at(2) t(3) by auto
  from Seek_inside[where inflate = inflate, OF log lk B(1,2) i(1) t(2) i(2) le0 \<open>0 < length ds\<close>] obtain lr1 where s:
     "Seek crc32 inflate \<lparr>file_num = int j, block_num = int p, record_num = int (length ds)\<rparr> ?new w'
       = map_option (\<lambda>(ok, l). (ok, l, w')) (skip_log_records crc32 inflate (length ds) lr1)"
     "reader_state crc32 0 dir base B N qbs (Suc (i - 1)) [] (snd (qbs ! (i - 1))) lr1 w'"
    by blast
  obtain lr' where sk: "skip_log_records crc32 inflate (length ds) lr1 = Some (True, lr')"
     "reader_state crc32 0 dir base B N qbs i [] ps lr' w'"
    using skip_whole_records[of crc32 0 dir base B N qbs "Suc (i - 1)" ds ps lr1 w' inflate] s(2) ds(2,4) by auto
  have "reads_all crc32 inflate lr' w' ys" using reads_all_from[OF log lk sk(2)] records_in_whole[OF encode_whole[of ys]] r(3) by metis
  then show ?thesis using q(1) rl t(1) s(1) sk(1) by auto
qed

lemma Tell_Seek_whole_records_witness:
  "\<exists>w' lr pos lr'. log_sessions (\<lambda>bs. word_of_nat (be_value bs)) (\<lambda>_. None)
        (the (LogWriter_new [47, 116] [97] (int 60) (int 2) False False 30)) [(7, [(True, [5, 6]), (True, []), (False, [9])])]
        \<lparr>disk = [], results = []\<rparr> = Some w'
     \<and> read_log (\<lambda>bs. word_of_nat (be_value bs)) (\<lambda>bs. (bs, True)) (length [[5, 6], [] :: bytes])
        (LogReader_new [47, 116] [97] (int 60) (int 2)) w' = Some ([[5, 6], []], lr, w')
     \<and> LogReader_Tell lr = Some pos
     \<and> Seek (\<lambda>bs. word_of_nat (be_value bs)) (\<lambda>bs. (bs, True)) pos (LogReader_new [47, 116] [97] (int 60) (int 2)) w' = Some (True, lr', w')
     \<and> reads_all (\<lambda>bs. word_of_nat (be_value bs)) (\<lambda>bs. (bs, True)) lr' w' [[9]]"
  by (rule Tell_Seek_whole_records[where dump = 30, OF _ _ _ _ _ no_log_empty])
    (simp_all add: LogWriter_new_def RecordWriter_new_def kMaximumRecordBlockSize_def good_names_def slash_def weight_def)

text \<open>
  C36. A position in a block that begins with the rest of a record is not found again.  When the
  first record of a log ends in a later block and another one begins behind it there, a reader
  that has read the first record gives a position; a new reader that seeks to it succeeds, but
  goes on behind the second record, which is lost.
\<close>

theorem Seek_skips_record:
  assumes "log_holds 0 dir base B N (log_bytes crc32 B qbs) w" "linked crc32 B 0 qbs" "slash \<notin> set base"
      "int B < 2 ^ 24" "12 \<le> B" "m < length qbs"
    and "snd (qbs ! m) = (0, t) # (IS_FIRST, x) # ps"
    and "fragments True y (concat (map snd (take m qbs)) @ [(0, t)])"
    and "encode_records zs (ps @ concat (map snd (drop (Suc m) qbs)))"
  shows "\<exists>lr pos lr'. GetNextRecord crc32 inflate True (LogReader_new dir base (int B) (int N)) w = Some ((True, y), lr, w)
     \<and> reads_all crc32 inflate lr w (x # zs) \<and> LogReader_Tell lr = Some pos
     \<and> Seek crc32 inflate pos (LogReader_new dir base (int B) (int N)) w = Some (True, lr', w)
     \<and> reads_all crc32 inflate lr' w zs"
proof -
  let ?new = "LogReader_new dir base (int B) (int N)" and ?fr = "concat (map snd (take m qbs)) @ [(0, t)]"
  let ?later = "concat (map snd (drop (Suc m) qbs))"
  obtain lr0 where n: "GetNextRecord crc32 inflate True ?new w = next_record_loop crc32 inflate True lr0 w"
     "reader_state crc32 0 dir base B N qbs 0 [] [] lr0 w"
    using GetNextRecord_new[where inflate = inflate and wanted = True, OF assms(3,1,4,5,2)] by auto
  have all: "concat (map snd qbs) = ?fr @ (((IS_FIRST, x) # ps) @ ?later)"
    using assms(7) by (subst id_take_nth_drop[OF assms(6)]) simp
  then have tail: "[] @ concat (map snd (drop 0 qbs)) = ?fr @ (((IS_FIRST, x) # ps) @ ?later)" by simp
  have "True \<longleftrightarrow> ([] :: bytes) = []" by simp
  from next_record_loop_at[where inflate = inflate and wanted = True, OF assms(1,2) n(2) assms(8) tail this] obtain i qs lr where s:
    "next_record_loop crc32 inflate True lr0 w = Some ((True, y), lr, w)"
    "reader_state crc32 0 dir base B N qbs i [] qs lr w" "qs @ concat (map snd (drop i qbs)) = ((IS_FIRST, x) # ps) @ ?later"
    "lr_record_num lr = (if i = 0 then lr_record_num lr0 + 1 else 1)"
    "0 < i" "0 < file_position (lr_file lr)" "length qs < length (snd (qbs ! (i - 1)))"
    by (auto simp: neq_Nil_conv)
  have le: "i \<le> length qbs" "reader_at 0 dir base B N i lr w" using s(2) by (simp_all add: reader_state_def)
  have i: "i = Suc m"
  proof (rule ccontr)
    assume "i \<noteq> Suc m"
    then consider "i \<le> m" | "Suc m \<le> i - 1" by linarith
    then show False
    proof cases
      case 1
      have "drop i qbs = take (m - i) (drop i qbs) @ drop m qbs" using 1
        by (metis append_take_drop_id drop_drop le_add_diff_inverse2)
      then have "length (concat (map snd (drop m qbs))) \<le> length (concat (map snd (drop i qbs)))"
        by (metis concat_append le_add2 length_append map_append)
      moreover have "concat (map snd (drop m qbs)) = (0, t) # (IS_FIRST, x) # ps @ ?later"
        using assms(7) concat_map_drop_nth[OF assms(6), of snd] by simp
      ultimately show False using arg_cong[OF s(3), of length] by simp
    next
      case 2
      have "i - 1 < length qbs" "Suc (i - 1) = i" using s(5) le(1) by auto
      then have "concat (map snd (drop (i - 1) qbs)) = snd (qbs ! (i - 1)) @ concat (map snd (drop i qbs))"
        using concat_map_drop_nth[of "i - 1" qbs snd] by simp
      moreover have "length (concat (map snd (drop (i - 1) qbs))) \<le> length ?later"
      proof -
        have "drop (Suc m) qbs = take (i - 1 - Suc m) (drop (Suc m) qbs) @ drop (i - 1) qbs"
          using 2 by (metis append_take_drop_id drop_drop le_add_diff_inverse2)
        then show ?thesis by (metis concat_append le_add2 length_append map_append)
      qed
      ultimately show False using arg_cong[OF s(3), of length] s(7) by simp
    qed
  qed
  have qs: "qs = (IS_FIRST, x) # ps" using s(3) i by simp
  obtain j p where t: "LogReader_Tell lr = Some \<lparr>file_num = int j, block_num = int p, record_num = int 1\<rparr>" "j * N + p = m" "p < N"
    using LogReader_Tell_at[OF le(2) _ s(6), of 1] assms(5) s(4,5) i by auto
  have "p \<le> N" "0 < (1 :: nat)" using t(3) by simp_all
  from Seek_inside[where inflate = inflate, OF assms(1,2,4,5,6) t(2) this(1) le0 this(2)] obtain lr1 where k:
     "Seek crc32 inflate \<lparr>file_num = int j, block_num = int p, record_num = int 1\<rparr> ?new w
       = map_option (\<lambda>(ok, l). (ok, l, w)) (skip_log_records crc32 inflate 1 lr1)"
     "reader_state crc32 0 dir base B N qbs (Suc m) [] ((0, t) # (IS_FIRST, x) # ps) lr1 w"
    using assms(7) by auto
  obtain lr' where sk: "skip_log_records crc32 inflate 1 lr1 = Some (True, lr')"
     "reader_state crc32 0 dir base B N qbs (Suc m) [] ps lr' w"
    using skip_behind_tail[OF k(2), of inflate] by blast
  have "encode_records (x # zs) (qs @ concat (map snd (drop i qbs)))"
    using assms(9) unfolding qs i encode_records_Cons
    by (intro exI[of _ "[(IS_FIRST, x)]"] exI[of _ "ps @ concat (map snd (drop (Suc m) qbs))"]) simp
  then have "reads_all crc32 inflate lr w (x # zs)" by (rule reads_all_from[OF assms(1,2) s(2) records_in_whole])
  moreover have "reads_all crc32 inflate lr' w zs" by (rule reads_all_from[OF assms(1,2) sk(2) records_in_whole[OF assms(9)]])
  ultimately show ?thesis using n(1) s(1) t(1) k(1) sk(1) by auto
qed

definition two_blocks :: "linked_block list" where
  "two_blocks = [(0, [(HAS_CONT OR IS_FIRST, [1, 2, 3])]), (0, [(0, [4]), (IS_FIRST, [5]), (IS_FIRST, [6])])]"

lemma Seek_skips_record_witness:
  "\<exists>lr pos lr'. GetNextRecord (\<lambda>bs. 7) (\<lambda>bs. (bs, True)) True (LogReader_new [47, 116] [97] (int 40) (int 3))
       \<lparr>disk = [(log_name [47, 116] [97] 40 0, log_bytes (\<lambda>bs. 7) 40 two_blocks)], results = []\<rparr>
       = Some ((True, [1, 2, 3, 4]), lr, \<lparr>disk = [(log_name [47, 116] [97] 40 0, log_bytes (\<lambda>bs. 7) 40 two_blocks)], results = []\<rparr>)
     \<and> reads_all (\<lambda>bs. 7) (\<lambda>bs. (bs, True)) lr
         \<lparr>disk = [(log_name [47, 116] [97] 40 0, log_bytes (\<lambda>bs. 7) 40 two_blocks)], results = []\<rparr> ([5] # [[6]])
     \<and> LogReader_Tell lr = Some pos
     \<and> Seek (\<lambda>bs. 7) (\<lambda>bs. (bs, True)) pos (LogReader_new [47, 116] [97] (int 40) (int 3))
         \<lparr>disk = [(log_name [47, 116] [97] 40 0, log_bytes (\<lambda>bs. 7) 40 two_blocks)], results = []\<rparr>
         = Some (True, lr', \<lparr>disk = [(log_name [47, 116] [97] 40 0, log_bytes (\<lambda>bs. 7) 40 two_blocks)], results = []\<rparr>)
     \<and> reads_all (\<lambda>bs. 7) (\<lambda>bs. (bs, True)) lr'
         \<lparr>disk = [(log_name [47, 116] [97] 40 0, log_bytes (\<lambda>bs. 7) 40 two_blocks)], results = []\<rparr> [[6]]"
proof -
  have l: "linked (\<lambda>bs. 7) 40 0 two_blocks" by (simp add: two_blocks_def fits_def)
  have e: "encode_records [[6]] [(IS_FIRST, [6])]" by (auto simp: encode_records_Cons intro!: exI[of _ "[(IS_FIRST, [6])]"])
  show ?thesis
    by (rule Seek_skips_record[OF one_file_log[OF l] l, where m = 1 and t = "[4]" and ps = "[(IS_FIRST, [6])]"])
      (use e in \<open>simp_all add: two_blocks_def slash_def\<close>)
qed

section \<open>Write errors\<close>

lemma File_Write_buffer_result:
  assumes "at_end f path c w" "results w = int (length d) # rs"
  shows "\<exists>f'. File_Write_buffer d f w = Some (int (length d), f', put_file path (c @ d) (w\<lparr>results := rs\<rparr>))
     \<and> at_end f' path (c @ d) (put_file path (c @ d) (w\<lparr>results := rs\<rparr>))"
  using assms
  by (simp add: at_end_def File_Write_buffer_def sys_write_def next_result_def fails_def moved_def Let_def
      file_content_def map_of_put_file)

lemma File_Write_loop_error:
  assumes "at_end f path c w" "results w = replicate m 512 @ (-1) # rs" "written + 512 * int m < len" "512 * m < length ms"
  shows "\<exists>ms' f'. File_Write_loop written len ms f w
       = Some (-1, ms', f', put_file path (c @ take (512 * m) ms) (w\<lparr>results := rs\<rparr>))
     \<and> at_end f' path (c @ take (512 * m) ms) (put_file path (c @ take (512 * m) ms) (w\<lparr>results := rs\<rparr>))"
  using assms
proof (induction m arbitrary: written ms f w c)
  case 0
  have w: "put_file path c (w\<lparr>results := rs\<rparr>) = w\<lparr>results := rs\<rparr>"
    using 0(1) by (intro put_file_same) (simp add: at_end_def)
  have "File_Write_buffer d f w = Some (-1, UpdatePosition f, w\<lparr>results := rs\<rparr>)" for d
    using 0(1,2) by (simp add: File_Write_buffer_def sys_write_def next_result_def fails_def at_end_def)
  moreover have "at_end (UpdatePosition f) path c (w\<lparr>results := rs\<rparr>)"
    using 0(1) by (simp add: at_end_def UpdatePosition_def)
  moreover have "ms \<noteq> []" "written < len" using 0(3,4) by auto
  ultimately show ?case
    using w by (intro exI[of _ "drop (nat (min (len - written) 512)) ms"] exI[of _ "UpdatePosition f"])
      (simp add: File_Write_loop.simps[of written] Let_def)
next
  case (Suc m)
  let ?d = "take 512 ms"
  define v where "v = put_file path (c @ ?d) (w\<lparr>results := replicate m 512 @ (-1) # rs\<rparr>)"
  have len: "length ?d = 512" "ms \<noteq> []" "written < len" "min (len - written) 512 = 512"
    using Suc.prems(3,4) by auto
  have res: "results w = int (length ?d) # replicate m 512 @ (-1) # rs" using Suc.prems(2) len(1) by simp
  obtain f1 where f1: "File_Write_buffer ?d f w = Some (512, f1, v)" "at_end f1 path (c @ ?d) v"
    using File_Write_buffer_result[OF Suc.prems(1) res] len(1) by (auto simp: v_def)
  have "\<exists>ms' f'. File_Write_loop (written + 512) len (drop 512 ms) f1 v
       = Some (-1, ms', f', put_file path ((c @ ?d) @ take (512 * m) (drop 512 ms)) (v\<lparr>results := rs\<rparr>))
     \<and> at_end f' path ((c @ ?d) @ take (512 * m) (drop 512 ms)) (put_file path ((c @ ?d) @ take (512 * m) (drop 512 ms)) (v\<lparr>results := rs\<rparr>))"
    by (rule Suc.IH[OF f1(2)]) (use Suc.prems(3,4) in \<open>simp_all add: v_def\<close>)
  moreover have "(c @ ?d) @ take (512 * m) (drop 512 ms) = c @ take (512 * Suc m) ms"
    by (simp add: take_append_drop_min)
  moreover have "put_file path e (v\<lparr>results := rs\<rparr>) = put_file path e (w\<lparr>results := rs\<rparr>)" for e
    by (simp add: v_def put_file_def)
  ultimately show ?case
    using f1(1) len by (simp add: File_Write_loop.simps[of written] Let_def)
qed

text \<open>
  C38. A write error in the middle of a buffer is not undone.  When \<open>write\<close> fails after \<open>m\<close> pieces
  of 512 bytes, \<open>WriteBuffer\<close> fails and keeps its whole buffer, but the pieces stay in the file.
  If they are whole blocks, the next call succeeds and the log has them twice; if not, every
  later call fails at the position that is no block boundary, and nothing more is written.
\<close>

theorem write_error_not_undone:
  assumes "writer_at lo dir base B N all lw (w\<lparr>results := []\<rparr>)" "results w = replicate m 512 @ [-1]"
    and "length (lw_buf lw) mod B = 0" "512 * m < length (lw_buf lw)"
    and "length all mod (B * N) + 512 * m < B * N" "(length all + 512 * m + length (lw_buf lw)) div (B * N) < 2 ^ 31"
  shows "\<exists>lw1 w1. WriteBuffer False lw w = Some (False, lw1, w1) \<and> lw_buf lw1 = lw_buf lw
     \<and> map_of (disk w1) (log_name dir base B (length all div (B * N)))
         = Some (drop (length all div (B * N) * (B * N)) all @ take (512 * m) (lw_buf lw))
     \<and> (if 512 * m mod B = 0
        then \<exists>lw2 w2. WriteBuffer False lw1 w1 = Some (True, lw2, w2)
               \<and> log_holds lo dir base B N (all @ take (512 * m) (lw_buf lw) @ lw_buf lw) w2
        else WriteBuffer False lw1 w1 = Some (False, lw1, w1))"
proof -
  let ?L = "B * N" and ?m = "length all div (B * N)"
  let ?n = "log_name dir base B ?m" and ?c = "drop (length all div (B * N) * (B * N)) all" and ?d = "take (512 * m) (lw_buf lw)"
  have h: "log_holds lo dir base B N all (w\<lparr>results := []\<rparr>)" "writer_conf dir base B N lw" "at_end (lw_file lw) ?n ?c (w\<lparr>results := []\<rparr>)"
    and num: "lw_file_num lw = int ?m"
    using assms(1) by (simp_all add: writer_at_def)
  have BN: "0 < B" "0 < N" "length all mod B = 0" using h(1) by (simp_all add: log_holds_def)
  define p where "p = length all mod ?L"
  have c: "length ?c = p" by (simp add: p_def length_mod_parts)
  have p: "p + 512 * m < ?L" "p mod B = 0" using assms(5) BN by (simp_all add: p_def mod_mod_cancel)
  have at: "at_end (lw_file lw) ?n ?c w" using h(3) by (simp add: at_end_def)
  define t where "t = min (?L - p) (length (lw_buf lw))"
  have t: "512 * m < t" using assms(4) p(1) by (simp add: t_def)
  have len: "length ?d = 512 * m" using assms(4) by simp
  have res: "results w = replicate m 512 @ (-1) # []" using assms(2) by simp
  have lt: "0 + 512 * int m < int t" using t by simp
  define w1 where "w1 = put_file ?n (?c @ ?d) (w\<lparr>results := []\<rparr>)"
  obtain ms f1 where f1: "File_Write_loop 0 (int t) (lw_buf lw) (lw_file lw) w = Some (-1, ms, f1, w1)" "at_end f1 ?n (?c @ ?d) w1"
    using File_Write_loop_error[OF at res lt assms(4)] unfolding w1_def by blast
  define lw1 where "lw1 = lw\<lparr>lw_file := f1\<rparr>"
  have op: "is_open (lw_file lw)" using at by (simp add: at_end_def is_open_def)
  have conf: "lw_block_size lw = int B" "lw_blocks_per_file lw = int N" using h(2) by (simp_all add: writer_conf_def)
  have pos: "File_Position (lw_file lw) = Some (int p)" using at_end_position[OF at] by (simp only: c)
  have ints: "int p mod int B = 0" "\<not> int p > int B * int N" "int p < int B * int N"
     "int (length (lw_buf lw)) mod int B = 0" "min (int B * int N - int p) (int (length (lw_buf lw))) = int t"
    using p(2) assms(3) by (simp_all add: zmod_int[symmetric] t_def of_nat_diff)
      (use p(1) in \<open>auto simp: min_def of_nat_diff simp flip: of_nat_mult\<close>)
  have ne: "lw_buf lw \<noteq> []" using assms(4) by auto
  have "write_buffer_step lw w = Some (Some False, lw1, w1)"
    unfolding write_buffer_step_def pos using ne ints conf f1(1) op t by (simp add: Let_def lw1_def File_Write_def)
  then have fail: "WriteBuffer False lw w = Some (False, lw1, w1)"
    by (simp add: WriteBuffer_def write_buffer_loop.simps[of lw w])
  have kept: "map_of (disk w1) ?n = Some (?c @ ?d)" using f1(2) by (simp add: at_end_def)
  have pos1: "File_Position f1 = Some (int (p + 512 * m))"
    using at_end_position[OF f1(2)] c len by (simp only: length_append)
  show ?thesis
  proof (cases "512 * m mod B = 0")
    case True
    then have dB: "length ?d mod B = 0" using len by simp
    have room: "length all mod ?L + length ?d < ?L" using p(1) len by (simp add: p_def)
    note ah = log_holds_append[OF h(1) dB room refl]
    have wa: "writer_at lo dir base B N (all @ ?d) lw1 w1"
      using ah h(2) num f1(2) by (simp add: writer_at_def w1_def lw1_def writer_conf_def del: length_append)
    have "length (lw_buf lw1) mod B = 0" "(length (all @ ?d) + length (lw_buf lw1)) div ?L < 2 ^ 31"
      using assms(3,6) len by (simp_all only: lw1_def length_append) simp_all
    from write_buffer_loop_at[OF wa this] obtain lw2 w2 where r: "write_buffer_loop lw1 w1 = Some (True, lw2, w2)"
       "writer_at lo dir base B N ((all @ ?d) @ lw_buf lw1) lw2 w2"
      by (elim exE conjE) (rule that)
    then have "WriteBuffer False lw1 w1 = Some (True, lw2, w2)" "log_holds lo dir base B N (all @ ?d @ lw_buf lw) w2"
      by (simp_all add: WriteBuffer_def writer_at_def lw1_def)
    then show ?thesis using fail kept True by (intro exI[of _ lw1] exI[of _ w1]) (simp add: lw1_def)
  next
    case False
    have "int (p + 512 * m) mod int B \<noteq> 0"
    proof -
      have "(p + 512 * m) mod B = 512 * m mod B" using p(2) by (metis add_0 mod_add_left_eq)
      then show ?thesis using False by (simp only: zmod_int[symmetric] of_nat_eq_0_iff) simp
    qed
    then have "write_buffer_step lw1 w1 = Some (Some False, lw1, w1)"
      using pos1 ne conf by (simp add: write_buffer_step_def Let_def lw1_def)
    then have "WriteBuffer False lw1 w1 = Some (False, lw1, w1)"
      by (simp add: WriteBuffer_def write_buffer_loop.simps[of lw1 w1])
    then show ?thesis using fail kept False by (intro exI[of _ lw1] exI[of _ w1]) (simp add: lw1_def)
  qed
qed

definition empty_log :: world where
  "empty_log = \<lparr>disk = [(log_name [47, 116] [97] 64 0, [])], results = replicate 1 512 @ [-1]\<rparr>"

definition full_writer :: log_writer where
  "full_writer = \<lparr>lw_dir = [47, 116], lw_base = [97], lw_block_size = 64, lw_blocks_per_file = 10, lw_temporary = False,
     lw_file_num = 0, lw_file = \<lparr>filename = log_name [47, 116] [97] 64 0, fd = Some 0, file_size = 0, file_position = 0\<rparr>,
     lw_buf = replicate 576 7, lw_recorder = the (RecordWriter_new 64 False 40)\<rparr>"

lemma write_error_not_undone_witness:
  "\<exists>lw1 w1. WriteBuffer False full_writer empty_log = Some (False, lw1, w1) \<and> lw_buf lw1 = lw_buf full_writer
     \<and> map_of (disk w1) (log_name [47, 116] [97] 64 (length ([] :: bytes) div (64 * 10)))
         = Some (drop (length ([] :: bytes) div (64 * 10) * (64 * 10)) [] @ take (512 * 1) (lw_buf full_writer))
     \<and> (if 512 * 1 mod (64 :: nat) = 0
        then \<exists>lw2 w2. WriteBuffer False lw1 w1 = Some (True, lw2, w2)
               \<and> log_holds 0 [47, 116] [97] 64 10 ([] @ take (512 * 1) (lw_buf full_writer) @ lw_buf full_writer) w2
        else WriteBuffer False lw1 w1 = Some (False, lw1, w1))"
proof (rule write_error_not_undone)
  have "log_holds 0 [47, 116] [97] 64 10 (log_bytes (\<lambda>_. 0) 64 []) \<lparr>disk = [(log_name [47, 116] [97] 64 0, log_bytes (\<lambda>_. 0) 64 [])], results = []\<rparr>"
    by (rule one_file_log) simp_all
  then show "writer_at 0 [47, 116] [97] 64 10 [] full_writer (empty_log\<lparr>results := []\<rparr>)"
    by (simp add: writer_at_def writer_conf_def full_writer_def empty_log_def at_end_def)
qed (simp_all add: full_writer_def empty_log_def)

end
