(* ===== verification/Checkpoints.thy ===== *)
theory Checkpoints
  imports LogIo Amf0
begin

text \<open>
  \<^verbatim>\<open>whisperlib/common/io/checkpoint/checkpointing.{h,cc}\<close>: a checkpoint is a numbered file of
  records, alternating names and values between a first and a last mark.  \<open>CheckpointWriter\<close>
  writes a new file, \<open>ReadCheckpoint\<close> reads the last one that is complete.  The base name has
  no character that is special in a regular expression.  \<open>None\<close> is a failed \<^verbatim>\<open>CHECK\<close>; of the
  loops that read a file, it is also a loop that does not end.
\<close>

section \<open>Names\<close>

definition kDefaultCheckpointBlockSize :: int where "kDefaultCheckpointBlockSize = 65536"

definition kCheckpointBegin :: bytes where "kCheckpointBegin = bytes_of ''__checkpoint_begin__''"
definition kCheckpointEnd :: bytes where "kCheckpointEnd = bytes_of ''__checkpoint_end__''"

definition cp_file_base_name :: "bytes \<Rightarrow> int \<Rightarrow> bytes" where
  "cp_file_base_name file_base num = file_base @ [underscore] @ digits 10 (nat num)"

definition cp_file_name :: "bytes \<Rightarrow> bytes \<Rightarrow> int \<Rightarrow> bytes" where
  "cp_file_name dir file_base num = JoinPaths dir (cp_file_base_name file_base num)"

definition cp_re :: "bytes \<Rightarrow> bytes \<Rightarrow> bool" where
  "cp_re file_base name \<longleftrightarrow>
     (let p = file_base @ [underscore]
      in take (length p) name = p \<and> length name = length p + 10 \<and> list_all is_digit (drop (length p) name))"

definition GetCheckpointFiles :: "bytes \<Rightarrow> bytes \<Rightarrow> world \<Rightarrow> bytes list option \<times> world" where
  "GetCheckpointFiles dir file_base w = (case DirList_files dir (cp_re file_base) w of
     (files, w1) \<Rightarrow> (map_option sort files, w1))"

section \<open>Reader\<close>

type_synonym state_map = "(bytes \<times> bytes) list"

text \<open>The variables of \<^verbatim>\<open>ReadCheckpointFile\<close>.\<close>

record cp_reading =
  first_record :: bool
  reading_name :: bool
  cp_name :: bytes
  cp_map :: state_map
  cp_reader :: record_reader

definition cp_reading_new :: cp_reading where
  "cp_reading_new = \<lparr>first_record = True, reading_name = True, cp_name = [], cp_map = [],
     cp_reader = RecordReader_new kDefaultCheckpointBlockSize\<rparr>"

text \<open>One record: \<open>None\<close> when the checkpoint begins incorrectly.  \<^verbatim>\<open>insert\<close> keeps what is there.\<close>

definition take_record :: "bytes \<Rightarrow> cp_reading \<Rightarrow> cp_reading option" where
  "take_record rec st =
     (if first_record st then
        if rec = kCheckpointBegin then Some (st\<lparr>first_record := False\<rparr>) else None
      else if reading_name st then Some (st\<lparr>reading_name := False, cp_name := rec\<rparr>)
      else Some (st\<lparr>reading_name := True,
        cp_map := (if map_find (cp_name st) (cp_map st) = None then map_insert (cp_name st) rec (cp_map st) else cp_map st)\<rparr>))"

text \<open>The records of a piece of input: whether there was no error.\<close>

partial_function (option) extract_records ::
    "(bytes \<Rightarrow> 32 word) \<Rightarrow> (bytes \<Rightarrow> bytes \<times> bool) \<Rightarrow> bytes \<Rightarrow> cp_reading \<Rightarrow> (bool \<times> cp_reading) option" where
  "extract_records crc32 inflate input st = (case ReadRecord crc32 inflate True input (cp_reader st) of
     None \<Rightarrow> None
   | Some ((res, rec), input1, r) \<Rightarrow>
       (let st1 = st\<lparr>cp_reader := r\<rparr>
        in if res = RECORD_NO_DATA then (if input1 = [] then Some (True, st1) else None)
           else if res \<noteq> RECORD_OK then Some (False, st1)
           else case take_record rec st1 of
                  None \<Rightarrow> Some (False, st1)
                | Some st2 \<Rightarrow> extract_records crc32 inflate input1 st2))"

partial_function (option) read_checkpoint_loop ::
    "(bytes \<Rightarrow> 32 word) \<Rightarrow> (bytes \<Rightarrow> bytes \<times> bool) \<Rightarrow> io_file \<Rightarrow> cp_reading \<Rightarrow> world
       \<Rightarrow> (bool \<times> state_map \<times> world) option" where
  "read_checkpoint_loop crc32 inflate f st w = (case File_Read kDefaultCheckpointBlockSize f w of
     None \<Rightarrow> None
   | Some (cb, input, f1, w1) \<Rightarrow>
       (if cb < 0 then Some (False, cp_map st, w1)
        else if cb = 0 then Some (cp_name st = kCheckpointEnd, cp_map st, w1)
        else if cb \<noteq> kDefaultCheckpointBlockSize then Some (False, cp_map st, w1)
        else case extract_records crc32 inflate input st of
               None \<Rightarrow> None
             | Some (ok, st1) \<Rightarrow>
                 (if ok then read_checkpoint_loop crc32 inflate f1 st1 w1 else Some (False, cp_map st1, w1))))"

text \<open>The result and the map that the caller is left with, from the one that it had.\<close>

definition ReadCheckpointFile ::
    "(bytes \<Rightarrow> 32 word) \<Rightarrow> (bytes \<Rightarrow> bytes \<times> bool) \<Rightarrow> bytes \<Rightarrow> state_map \<Rightarrow> world
       \<Rightarrow> (bool \<times> state_map \<times> world) option" where
  "ReadCheckpointFile crc32 inflate name m w = do {
     (ok, f, w1) \<leftarrow> File_Open name OPEN_EXISTING File_new w;
     (if \<not> ok then Some (False, m, w1) else read_checkpoint_loop crc32 inflate f cp_reading_new w1) }"

text \<open>The files from the last one on, given in that order.\<close>

fun try_checkpoints ::
    "(bytes \<Rightarrow> 32 word) \<Rightarrow> (bytes \<Rightarrow> bytes \<times> bool) \<Rightarrow> bytes \<Rightarrow> bytes list \<Rightarrow> state_map \<Rightarrow> world
       \<Rightarrow> (bool \<times> state_map \<times> world) option" where
  "try_checkpoints crc32 inflate dir [] m w = Some (False, m, w)"
| "try_checkpoints crc32 inflate dir (name # names) m w = do {
     (ok, m1, w1) \<leftarrow> ReadCheckpointFile crc32 inflate (JoinPaths dir name) m w;
     (if ok then Some (True, m1, w1) else try_checkpoints crc32 inflate dir names m1 w1) }"

definition ReadCheckpoint ::
    "(bytes \<Rightarrow> 32 word) \<Rightarrow> (bytes \<Rightarrow> bytes \<times> bool) \<Rightarrow> bytes \<Rightarrow> bytes \<Rightarrow> state_map \<Rightarrow> world
       \<Rightarrow> (bool \<times> state_map \<times> world) option" where
  "ReadCheckpoint crc32 inflate dir file_base m w = (case GetCheckpointFiles dir file_base w of
     (None, w1) \<Rightarrow> Some (False, m, w1)
   | (Some files, w1) \<Rightarrow> try_checkpoints crc32 inflate dir (rev files) m w1)"

section \<open>Writer\<close>

record checkpoint_writer =
  checkpoint_dir :: bytes
  cp_file_base :: bytes
  cp_file :: io_file
  cp_buf :: bytes
  cp_recorder :: "record_writer option"
  cp_names :: "bytes list"

definition CheckpointWriter_new :: "bytes \<Rightarrow> bytes \<Rightarrow> checkpoint_writer" where
  "CheckpointWriter_new dir file_base = \<lparr>checkpoint_dir = dir, cp_file_base = file_base, cp_file = File_new,
     cp_buf = [], cp_recorder = None, cp_names = []\<rparr>"

text \<open>0.9 of the room in a block, which the recorder may not exceed before it makes a block.\<close>

definition kCheckpointDumpableSize :: int where "kCheckpointDumpableSize = 58971"

text \<open>\<^verbatim>\<open>recorder_->AppendRecord(data, size, &buf_)\<close>.\<close>

definition cp_append :: "(bytes \<Rightarrow> 32 word) \<Rightarrow> (bytes \<Rightarrow> bytes option) \<Rightarrow> bytes \<Rightarrow> checkpoint_writer
    \<Rightarrow> (bool \<times> checkpoint_writer) option" where
  "cp_append crc32 deflate data cp = do {
     r \<leftarrow> cp_recorder cp;
     ((ready, out), r1) \<leftarrow> AppendRecord_buffer crc32 deflate data r;
     Some (ready, cp\<lparr>cp_buf := cp_buf cp @ out, cp_recorder := Some r1\<rparr>) }"

definition BeginCheckpoint :: "(bytes \<Rightarrow> 32 word) \<Rightarrow> (bytes \<Rightarrow> bytes option) \<Rightarrow> checkpoint_writer \<Rightarrow> world
    \<Rightarrow> (int \<times> checkpoint_writer \<times> world) option" where
  "BeginCheckpoint crc32 deflate cp w =
     (if is_open (cp_file cp) \<or> cp_recorder cp \<noteq> None \<or> cp_names cp \<noteq> [] \<or> cp_buf cp \<noteq> [] then None
      else do {
        (n, w1) \<leftarrow> GetLastNumberedFile (checkpoint_dir cp) (cp_re (cp_file_base cp)) 10 w;
        let num = n + 1;
        (if num < 0 then Some (-1, cp, w1)
         else do {
           (ok, f, w2) \<leftarrow> File_Open (cp_file_name (checkpoint_dir cp) (cp_file_base cp) num) CREATE_ALWAYS (cp_file cp) w1;
           (if \<not> ok then Some (-1, cp\<lparr>cp_file := f\<rparr>, w2)
            else do {
              r \<leftarrow> RecordWriter_new kDefaultCheckpointBlockSize False kCheckpointDumpableSize;
              (_, cp1) \<leftarrow> cp_append crc32 deflate kCheckpointBegin (cp\<lparr>cp_file := f, cp_recorder := Some r\<rparr>);
              Some (num, cp1, w2) }) }) })"

definition cp_WriteBuffer :: "checkpoint_writer \<Rightarrow> world \<Rightarrow> (bool \<times> checkpoint_writer \<times> world) option" where
  "cp_WriteBuffer cp w =
     (if int (length (cp_buf cp)) mod kDefaultCheckpointBlockSize \<noteq> 0 then None
      else do {
        (cb, rest, f, w1) \<leftarrow> File_Write (cp_buf cp) (-1) (cp_file cp) w;
        Some (if cb < 0 \<or> rest \<noteq> [] then (False, cp\<lparr>cp_file := f\<rparr>, w1)
              else (True, cp\<lparr>cp_file := f, cp_buf := []\<rparr>, w1)) })"

definition AddRecord :: "(bytes \<Rightarrow> 32 word) \<Rightarrow> (bytes \<Rightarrow> bytes option) \<Rightarrow> bytes \<Rightarrow> bytes \<Rightarrow> checkpoint_writer \<Rightarrow> world
    \<Rightarrow> (bool \<times> checkpoint_writer \<times> world) option" where
  "AddRecord crc32 deflate name val cp w =
     (if \<not> is_open (cp_file cp) then None
      else if name \<in> set (cp_names cp) then Some (False, cp, w)
      else do {
        (fin1, cp1) \<leftarrow> cp_append crc32 deflate name (cp\<lparr>cp_names := name # cp_names cp\<rparr>);
        (fin2, cp2) \<leftarrow> cp_append crc32 deflate val cp1;
        (if fin1 \<or> fin2 then cp_WriteBuffer cp2 w else Some (True, cp2, w)) })"

text \<open>The destructor of the recorder fails its \<^verbatim>\<open>CHECK\<close> when there is something in it.\<close>

definition ClearCheckpoint :: "checkpoint_writer \<Rightarrow> checkpoint_writer option" where
  "ClearCheckpoint cp =
     (if (case cp_recorder cp of None \<Rightarrow> False | Some r \<Rightarrow> leftover r \<noteq> 0) then None
      else Some (cp\<lparr>cp_recorder := None, cp_names := [], cp_file := File_Close (cp_file cp), cp_buf := []\<rparr>))"

definition EndCheckpoint :: "(bytes \<Rightarrow> 32 word) \<Rightarrow> (bytes \<Rightarrow> bytes option) \<Rightarrow> checkpoint_writer \<Rightarrow> world
    \<Rightarrow> (bool \<times> checkpoint_writer \<times> world) option" where
  "EndCheckpoint crc32 deflate cp w =
     (if \<not> is_open (cp_file cp) then None
      else do {
        (_, cp1) \<leftarrow> cp_append crc32 deflate kCheckpointEnd cp;
        r \<leftarrow> cp_recorder cp1;
        (out, r1) \<leftarrow> FinalizeContent crc32 r;
        (ok, cp2, w1) \<leftarrow> cp_WriteBuffer (cp1\<lparr>cp_buf := cp_buf cp1 @ out, cp_recorder := Some r1\<rparr>) w;
        cp3 \<leftarrow> ClearCheckpoint cp2;
        Some (ok, cp3, w1) })"

fun add_records :: "(bytes \<Rightarrow> 32 word) \<Rightarrow> (bytes \<Rightarrow> bytes option) \<Rightarrow> state_map \<Rightarrow> checkpoint_writer \<Rightarrow> world
    \<Rightarrow> (bool \<times> checkpoint_writer \<times> world) option" where
  "add_records crc32 deflate [] cp w = Some (True, cp, w)"
| "add_records crc32 deflate ((name, val) # m) cp w = do {
     (ok, cp1, w1) \<leftarrow> AddRecord crc32 deflate name val cp w;
     (if ok then add_records crc32 deflate m cp1 w1 else Some (False, cp1, w1)) }"

text \<open>Written as a whole; on an error the destructor clears the writer.\<close>

definition WriteCheckpointFile :: "(bytes \<Rightarrow> 32 word) \<Rightarrow> (bytes \<Rightarrow> bytes option) \<Rightarrow> state_map \<Rightarrow> bytes \<Rightarrow> bytes \<Rightarrow> world
    \<Rightarrow> (bool \<times> world) option" where
  "WriteCheckpointFile crc32 deflate m dir file_base w = do {
     (n, cp1, w1) \<leftarrow> BeginCheckpoint crc32 deflate (CheckpointWriter_new dir file_base) w;
     (ok, cp2, w2) \<leftarrow> (if n = -1 then Some (False, cp1, w1)
       else do {
         (ok, cp2, w2) \<leftarrow> add_records crc32 deflate m cp1 w1;
         (if ok then EndCheckpoint crc32 deflate cp2 w2 else Some (False, cp2, w2)) });
     _ \<leftarrow> ClearCheckpoint cp2;
     Some (ok, w2) }"

fun rm_files :: "bytes \<Rightarrow> bytes list \<Rightarrow> world \<Rightarrow> world" where
  "rm_files dir [] w = w"
| "rm_files dir (name # names) w = rm_files dir names (snd (Rm (JoinPaths dir name) w))"

definition CleanOldCheckpoints :: "int \<Rightarrow> checkpoint_writer \<Rightarrow> world \<Rightarrow> world" where
  "CleanOldCheckpoints keep cp w = (case GetCheckpointFiles (checkpoint_dir cp) (cp_file_base cp) w of
     (None, w1) \<Rightarrow> w1
   | (Some files, w1) \<Rightarrow> rm_files (checkpoint_dir cp) (take (nat (int (length files) - keep)) files) w1)"

end
