(* ===== verification/StateKeeper.thy ===== *)
theory StateKeeper
  imports Checkpoints
begin

text \<open>
  \<^verbatim>\<open>whisperlib/common/io/checkpoint/state_keeper.{h,cc}\<close>: a map from strings to strings that
  survives the process.  The main thread changes the map and puts what it did in a queue; the
  writer thread writes that to a log, and now and then the whole map to a checkpoint.  A new
  process reads the last checkpoint and what the log has behind it.  A \<open>StateKeepUser\<close> is a
  part of the map under a prefix that expires.  \<open>None\<close> is a failed \<^verbatim>\<open>CHECK\<close> or \<^verbatim>\<open>DCHECK\<close>.
\<close>

section \<open>Ranges of keys\<close>

function GetNextInLexicographicOrder :: "bytes \<Rightarrow> bytes" where
  "GetNextInLexicographicOrder prefix =
     (if prefix = [] then []
      else if last prefix = 0xff then GetNextInLexicographicOrder (butlast prefix)
      else butlast prefix @ [last prefix + 1])"
  by auto
termination
  by (relation "measure length") auto

declare GetNextInLexicographicOrder.simps [simp del]

text \<open>
  The keys between the bounds that \<^verbatim>\<open>strutil::GetBounds\<close> finds: from the first that is not before
  the prefix to the last that is not behind the next string.
\<close>

definition in_bounds :: "bytes \<Rightarrow> bytes \<Rightarrow> bool" where
  "in_bounds prefix key \<longleftrightarrow> (prefix = [] \<or> prefix \<le> key)
     \<and> (GetNextInLexicographicOrder prefix = [] \<or> key \<le> GetNextInLexicographicOrder prefix)"

definition GetBounds :: "bytes \<Rightarrow> state_map \<Rightarrow> state_map" where
  "GetBounds prefix m = filter (\<lambda>(key, _). in_bounds prefix key) m"

definition ClearMapPrefix :: "bytes \<Rightarrow> state_map \<Rightarrow> state_map" where
  "ClearMapPrefix prefix m = filter (\<lambda>(key, _). \<not> in_bounds prefix key) m"

section \<open>Positions as text\<close>

definition LogPos_StrEncode :: "log_pos \<Rightarrow> bytes" where
  "LogPos_StrEncode p = bytes_of ''LogPos{file: '' @ int_text (file_num p) @ bytes_of ''; block: '' @ int_text (block_num p)
     @ bytes_of ''; record: '' @ int_text (record_num p) @ bytes_of ''}''"

text \<open>\<^verbatim>\<open>SplitString\<close> and \<^verbatim>\<open>SplitFirst\<close> with a separator of one character.\<close>

function SplitString :: "byte \<Rightarrow> bytes \<Rightarrow> bytes list" where
  "SplitString sep s =
     (if s = [] then []
      else
        let field = takeWhile (\<lambda>c. c \<noteq> sep) s; rest = dropWhile (\<lambda>c. c \<noteq> sep) s
        in (if field = [] then [] else [field]) @ (if rest = [] then [] else SplitString sep (tl rest)))"
  by auto
termination
proof (relation "measure (\<lambda>(_, s). length s)")
  fix sep :: byte and s :: bytes and field rest
  assume "s \<noteq> []" "rest = dropWhile (\<lambda>c. c \<noteq> sep) s" "rest \<noteq> []"
  then have "length rest \<le> length s" "0 < length rest" by (simp_all add: length_dropWhile_le)
  then have "length (tl rest) < length s" unfolding length_tl by linarith
  then show "((sep, tl rest), sep, s) \<in> measure (\<lambda>(_, s). length s)" by simp
qed simp

declare SplitString.simps [simp del]

definition SplitFirst :: "byte \<Rightarrow> bytes \<Rightarrow> bytes \<times> bytes" where
  "SplitFirst sep s = (takeWhile (\<lambda>c. c \<noteq> sep) s, tl (dropWhile (\<lambda>c. c \<noteq> sep) s))"

text \<open>The elements go to \<^verbatim>\<open>SplitFirst\<close> as C strings.\<close>

definition SplitPairs :: "bytes \<Rightarrow> byte \<Rightarrow> byte \<Rightarrow> (bytes \<times> bytes) list" where
  "SplitPairs s sep1 sep2 = map (\<lambda>e. SplitFirst sep2 (takeWhile (\<lambda>c. c \<noteq> 0) e)) (SplitString sep1 s)"

definition LogPos_StrDecode :: "bytes \<Rightarrow> log_pos option" where
  "LogPos_StrDecode str =
     (if length str \<le> 8 then None
      else case SplitPairs (take (length str - 8) (drop 7 str)) (of_char CHR '';'') (of_char CHR '':'') of
             [p, q, r] \<Rightarrow> Some \<lparr>file_num = parse_int32 (snd p), block_num = parse_int32 (snd q), record_num = parse_int32 (snd r)\<rparr>
           | _ \<Rightarrow> None)"

section \<open>The log of changes\<close>

definition OP_SET :: byte where "OP_SET = 0"
definition OP_DELETE :: byte where "OP_DELETE = 1"
definition OP_CLEARPREFIX :: byte where "OP_CLEARPREFIX = 2"

text \<open>
  \<^verbatim>\<open>buf.ReadString(&s, len)\<close> with a length from the data: -1 means everything, and a string cannot
  be made room for with any other negative length.
\<close>

definition ReadString_len :: "int \<Rightarrow> bytes \<Rightarrow> (bytes \<times> bytes) option" where
  "ReadString_len len buf =
     (if len = -1 then Some (buf, [])
      else if len < 0 then None
      else Some (take (nat len) buf, drop (nat len) buf))"

text \<open>The changes in a record of the log, applied to a map, as \<^verbatim>\<open>ReadState\<close> does.\<close>

function replay_record :: "bytes \<Rightarrow> state_map \<Rightarrow> state_map option" where
  "replay_record buf m =
     (if buf = [] then Some m
      else case ReadBE buf :: (16 word \<times> bytes) option of
        None \<Rightarrow> None
      | Some (name_size, b1) \<Rightarrow>
          (case ReadString_len (sint name_size) b1 of
             None \<Rightarrow> None
           | Some (name, b2) \<Rightarrow>
               if sint name_size \<noteq> int (length name) then replay_record b2 m
               else if b2 = [] then replay_record b2 m
               else
                 let op_code = hd b2; b3 = tl b2
                 in if op_code = OP_SET then
                      if length b3 < 4 then replay_record b3 m
                      else (case ReadBE b3 :: (32 word \<times> bytes) option of
                        None \<Rightarrow> None
                      | Some (value_size, b4) \<Rightarrow>
                          (case ReadString_len (sint value_size) b4 of
                             None \<Rightarrow> None
                           | Some (val, b5) \<Rightarrow>
                               if sint value_size \<noteq> int (length val) then replay_record b5 m
                               else replay_record b5 (map_insert name val m)))
                    else if op_code = OP_DELETE then replay_record b3 (map_erase name m)
                    else if op_code = OP_CLEARPREFIX then replay_record b3 (ClearMapPrefix name m)
                    else replay_record b3 m))"
  by pat_completeness auto
termination
  by (relation "measure (\<lambda>(buf, _). length buf)") (auto simp: ReadString_len_def ReadBE_eq split: if_splits)

declare replay_record.simps [simp del]

partial_function (option) replay_log ::
    "(bytes \<Rightarrow> 32 word) \<Rightarrow> (bytes \<Rightarrow> bytes \<times> bool) \<Rightarrow> log_reader \<Rightarrow> state_map \<Rightarrow> world \<Rightarrow> (state_map \<times> world) option" where
  "replay_log crc32 inflate lr m w = (case GetNextRecord crc32 inflate True lr w of
     None \<Rightarrow> None
   | Some ((ok, buf), lr1, w1) \<Rightarrow>
       (if \<not> ok then Some (m, w1)
        else case replay_record buf m of None \<Rightarrow> None | Some m1 \<Rightarrow> replay_log crc32 inflate lr1 m1 w1))"

definition kStateKeeperLogPosKey :: bytes where "kStateKeeperLogPosKey = bytes_of ''__checkpoint_pos__''"
definition kStateKeeperTimeoutKey :: bytes where "kStateKeeperTimeoutKey = bytes_of ''__t__''"

definition CheckpointFilename :: "bytes \<Rightarrow> bytes" where
  "CheckpointFilename state_name = state_name @ bytes_of ''_checkpoint''"

definition LogFilename :: "bytes \<Rightarrow> bytes" where
  "LogFilename state_name = state_name @ bytes_of ''_statelog''"

definition ReadState ::
    "(bytes \<Rightarrow> 32 word) \<Rightarrow> (bytes \<Rightarrow> bytes \<times> bool) \<Rightarrow> bytes \<Rightarrow> bytes \<Rightarrow> int \<Rightarrow> int \<Rightarrow> world
       \<Rightarrow> (bool \<times> state_map \<times> world) option" where
  "ReadState crc32 inflate state_dir state_name block_size blocks_per_file w = do {
     (found, m, w1) \<leftarrow> ReadCheckpoint crc32 inflate state_dir (CheckpointFilename state_name) [] w;
     (case (if found then Option.bind (map_find kStateKeeperLogPosKey m) LogPos_StrDecode
            else Some \<lparr>file_num = -1, block_num = 0, record_num = 0\<rparr>) of
        None \<Rightarrow> Some (False, m, w1)
      | Some pos \<Rightarrow> do {
          let m1 = map_erase kStateKeeperLogPosKey m;
          (ok, lr, w2) \<leftarrow> Seek crc32 inflate pos
            (LogReader_new state_dir (LogFilename state_name) block_size blocks_per_file) w1;
          (if \<not> ok then Some (True, m1, w2)
           else map_option (\<lambda>(m2, w3). (True, m2, w3)) (replay_log crc32 inflate lr m1 w2)) }) }"

section \<open>The keeper\<close>

text \<open>A command without log data and without checkpoint data ends the writer thread.\<close>

record write_command =
  log_data :: "bytes option"
  checkpoint_data :: "state_map option"

definition kMinNumCheckpointsToKeep :: int where "kMinNumCheckpointsToKeep = 2"

record state_keeper =
  sk_dir :: bytes
  sk_name :: bytes
  sk_block_size :: int
  sk_blocks_per_file :: int
  checkpoints_to_keep :: int
  checkpointer :: checkpoint_writer
  sk_log_writer :: log_writer
  sk_data :: state_map
  in_transaction :: bool
  op_buf :: bytes
  writer_queue :: "write_command list"

definition StateKeeper_new :: "bytes \<Rightarrow> bytes \<Rightarrow> int \<Rightarrow> int \<Rightarrow> int \<Rightarrow> int \<Rightarrow> state_keeper option" where
  "StateKeeper_new dir name block_size blocks_per_file keep dumpable = do {
     lw \<leftarrow> LogWriter_new dir (LogFilename name) block_size blocks_per_file False False dumpable;
     Some \<lparr>sk_dir = dir, sk_name = name, sk_block_size = block_size, sk_blocks_per_file = blocks_per_file,
       checkpoints_to_keep = keep, checkpointer = CheckpointWriter_new dir (CheckpointFilename name),
       sk_log_writer = lw, sk_data = [], in_transaction = False, op_buf = [], writer_queue = []\<rparr> }"

definition StateKeeper_Initialize ::
    "(bytes \<Rightarrow> 32 word) \<Rightarrow> (bytes \<Rightarrow> bytes \<times> bool) \<Rightarrow> int \<Rightarrow> state_keeper \<Rightarrow> world
       \<Rightarrow> (bool \<times> state_keeper \<times> world) option" where
  "StateKeeper_Initialize crc32 inflate pid k w = do {
     (ok, m, w1) \<leftarrow> ReadState crc32 inflate (sk_dir k) (sk_name k) (sk_block_size k) (sk_blocks_per_file k) w;
     (if \<not> ok then Some (False, k\<lparr>sk_data := m\<rparr>, w1)
      else do {
        (ok1, lw, w2) \<leftarrow> Initialize pid (sk_log_writer k) w1;
        Some (ok1, k\<lparr>sk_data := m, sk_log_writer := lw\<rparr>, w2) }) }"

section \<open>Changes\<close>

definition QueueWrite :: "state_keeper \<Rightarrow> state_keeper" where
  "QueueWrite k = k\<lparr>op_buf := [],
     writer_queue := writer_queue k @ [\<lparr>log_data = Some (op_buf k), checkpoint_data = None\<rparr>]\<rparr>"

definition QueueOp :: "bytes \<Rightarrow> byte \<Rightarrow> bytes option \<Rightarrow> state_keeper \<Rightarrow> state_keeper option" where
  "QueueOp key op val k =
     (if length key \<ge> 32767 then None
      else
        let k1 = k\<lparr>op_buf := op_buf k @ WriteBE (word_of_nat (length key) :: 16 word) @ key @ [op]
          @ (case val of None \<Rightarrow> [] | Some v \<Rightarrow> WriteBE (word_of_nat (length v) :: 32 word) @ v)\<rparr>
        in Some (if in_transaction k1 then k1 else QueueWrite k1))"

definition GetValue :: "bytes \<Rightarrow> state_keeper \<Rightarrow> bytes option" where
  "GetValue key k = map_find key (sk_data k)"

definition may_change :: "state_keeper \<Rightarrow> bool" where
  "may_change k \<longleftrightarrow> in_transaction k \<or> op_buf k = []"

definition DeleteValue :: "bytes \<Rightarrow> state_keeper \<Rightarrow> state_keeper option" where
  "DeleteValue key k =
     (if \<not> may_change k then None
      else if map_find key (sk_data k) = None then Some k
      else QueueOp key OP_DELETE None (k\<lparr>sk_data := map_erase key (sk_data k)\<rparr>))"

definition DeletePrefix :: "bytes \<Rightarrow> state_keeper \<Rightarrow> state_keeper option" where
  "DeletePrefix prefix k =
     (if \<not> may_change k then None
      else QueueOp prefix OP_CLEARPREFIX None (k\<lparr>sk_data := ClearMapPrefix prefix (sk_data k)\<rparr>))"

definition SetValue :: "bytes \<Rightarrow> bytes \<Rightarrow> state_keeper \<Rightarrow> state_keeper option" where
  "SetValue key val k =
     (if \<not> may_change k then None
      else if GetValue key k = Some val then Some k
      else QueueOp key OP_SET (Some val) (k\<lparr>sk_data := map_insert key val (sk_data k)\<rparr>))"

definition BeginTransaction :: "state_keeper \<Rightarrow> state_keeper option" where
  "BeginTransaction k = (if in_transaction k then None else Some (k\<lparr>in_transaction := True\<rparr>))"

definition CommitTransaction :: "state_keeper \<Rightarrow> state_keeper option" where
  "CommitTransaction k = (if in_transaction k then Some (QueueWrite (k\<lparr>in_transaction := False\<rparr>)) else None)"

text \<open>\<^verbatim>\<open>strtoll\<close> in base 10, or \<open>None\<close> when it sets \<^verbatim>\<open>errno\<close>.\<close>

definition strtoll :: "bytes \<Rightarrow> int option" where
  "strtoll s =
     (let t = dropWhile is_space s;
          neg = (t \<noteq> [] \<and> hd t = 45);
          u = (if t \<noteq> [] \<and> (hd t = 45 \<or> hd t = 43) then tl t else t);
          v = int (digits_value (takeWhile is_digit u))
      in if neg then (if - v < - (2 ^ 63) then None else Some (- v))
         else if v \<ge> 2 ^ 63 then None else Some v)"

definition kNumTimeoutPosition :: nat where "kNumTimeoutPosition = 25"

text \<open>
  The keys that have expired, from the first of those under the key of the timeouts: once one
  is in the future the loop ends.  \<^verbatim>\<open>sizeof\<close> of the literal counts its last zero.
\<close>

fun expired_keys :: "int \<Rightarrow> state_map \<Rightarrow> (bytes \<times> bytes) list" where
  "expired_keys now [] = []"
| "expired_keys now ((key, prefix) # m) =
     (let n = length kStateKeeperTimeoutKey + 1;
          expired = (if length key > n + kNumTimeoutPosition + 1
            then (case strtoll (take kNumTimeoutPosition (drop (n + 1) key)) of Some t \<Rightarrow> t < now | None \<Rightarrow> True)
            else True)
      in if expired then (key, prefix) # expired_keys now m else [])"

fun delete_expired :: "(bytes \<times> bytes) list \<Rightarrow> state_keeper \<Rightarrow> state_keeper option" where
  "delete_expired [] k = Some k"
| "delete_expired ((key, prefix) # ks) k = do {
     k1 \<leftarrow> DeletePrefix prefix k;
     k2 \<leftarrow> DeleteValue key k1;
     delete_expired ks k2 }"

definition ExpireTimeoutedKeys :: "int \<Rightarrow> state_keeper \<Rightarrow> (nat \<times> state_keeper) option" where
  "ExpireTimeoutedKeys now k = do {
     k1 \<leftarrow> BeginTransaction k;
     let ks = expired_keys now (GetBounds (kStateKeeperTimeoutKey @ [slash]) (sk_data k1));
     k2 \<leftarrow> delete_expired ks k1;
     k3 \<leftarrow> CommitTransaction k2;
     Some (length ks, k3) }"

definition StateKeeper_Checkpoint :: "int \<Rightarrow> state_keeper \<Rightarrow> state_keeper option" where
  "StateKeeper_Checkpoint now k =
     (if in_transaction k then None
      else do {
        (_, k1) \<leftarrow> ExpireTimeoutedKeys now k;
        Some (k1\<lparr>writer_queue := writer_queue k1 @ [\<lparr>log_data = None, checkpoint_data = Some (sk_data k1)\<rparr>]\<rparr>) })"

section \<open>The writer thread\<close>

text \<open>The files that are complete, after the others were deleted.\<close>

fun drop_corrupted ::
    "(bytes \<Rightarrow> 32 word) \<Rightarrow> (bytes \<Rightarrow> bytes \<times> bool) \<Rightarrow> bytes \<Rightarrow> bytes list \<Rightarrow> world \<Rightarrow> (bytes list \<times> world) option" where
  "drop_corrupted crc32 inflate dir [] w = Some ([], w)"
| "drop_corrupted crc32 inflate dir (name # names) w = do {
     (ok, _, w1) \<leftarrow> ReadCheckpointFile crc32 inflate (JoinPaths dir name) [] w;
     (if ok then map_option (\<lambda>(fs, w2). (name # fs, w2)) (drop_corrupted crc32 inflate dir names w1)
      else drop_corrupted crc32 inflate dir names (snd (Rm (JoinPaths dir name) w1))) }"

text \<open>
  The first files are deleted with the logs that only they need.  The iterator that \<^verbatim>\<open>find\<close>
  returns is compared with the end of another map and used in any case.
\<close>

fun drop_old ::
    "(bytes \<Rightarrow> 32 word) \<Rightarrow> (bytes \<Rightarrow> bytes \<times> bool) \<Rightarrow> state_keeper \<Rightarrow> bytes list \<Rightarrow> world \<Rightarrow> world option" where
  "drop_old crc32 inflate k [] w = Some w"
| "drop_old crc32 inflate k (name # names) w = do {
     let path = JoinPaths (sk_dir k) name;
     (_, m, w1) \<leftarrow> ReadCheckpointFile crc32 inflate path [] w;
     let w2 = snd (Rm path w1);
     str \<leftarrow> map_find kStateKeeperLogPosKey m;
     w3 \<leftarrow> (case LogPos_StrDecode str of
         None \<Rightarrow> Some w2
       | Some pos \<Rightarrow> map_option snd (CleanLog (sk_dir k) (LogFilename (sk_name k)) pos (sk_block_size k) w2));
     drop_old crc32 inflate k names w3 }"

definition CleanOldState ::
    "(bytes \<Rightarrow> 32 word) \<Rightarrow> (bytes \<Rightarrow> bytes \<times> bool) \<Rightarrow> int \<Rightarrow> state_keeper \<Rightarrow> world \<Rightarrow> world option" where
  "CleanOldState crc32 inflate keep k w =
     (let keep1 = max keep kMinNumCheckpointsToKeep
      in case GetCheckpointFiles (sk_dir k) (CheckpointFilename (sk_name k)) w of
           (None, w1) \<Rightarrow> Some w1
         | (Some files, w1) \<Rightarrow> do {
             (fs, w2) \<leftarrow> drop_corrupted crc32 inflate (sk_dir k) files w1;
             drop_old crc32 inflate k (take (nat (int (length fs) - keep1)) fs) w2 })"

definition CheckpointInternal ::
    "(bytes \<Rightarrow> 32 word) \<Rightarrow> (bytes \<Rightarrow> bytes option) \<Rightarrow> (bytes \<Rightarrow> bytes \<times> bool) \<Rightarrow> state_map \<Rightarrow> state_keeper \<Rightarrow> world
       \<Rightarrow> (bool \<times> state_keeper \<times> world) option" where
  "CheckpointInternal crc32 deflate inflate m k w = do {
     (flushed, lw, w1) \<leftarrow> Flush crc32 (sk_log_writer k) w;
     let k1 = k\<lparr>sk_log_writer := lw\<rparr>;
     (if \<not> flushed then Some (False, k1, w1)
      else do {
        pos \<leftarrow> LogWriter_Tell lw;
        (n, cp, w2) \<leftarrow> BeginCheckpoint crc32 deflate (checkpointer k1) w1;
        (if n < 0 then Some (False, k1\<lparr>checkpointer := cp\<rparr>, w2)
         else do {
           (ok, cp1, w3) \<leftarrow> add_records crc32 deflate ((kStateKeeperLogPosKey, LogPos_StrEncode pos) # m) cp w2;
           (if \<not> ok then Some (False, k1\<lparr>checkpointer := cp1\<rparr>, w3)
            else do {
              (ok1, cp2, w4) \<leftarrow> EndCheckpoint crc32 deflate cp1 w3;
              let k2 = k1\<lparr>checkpointer := cp2\<rparr>;
              (if \<not> ok1 then Some (False, k2, w4)
               else map_option (\<lambda>w5. (True, k2, w5)) (CleanOldState crc32 inflate (checkpoints_to_keep k2) k2 w4)) }) }) }) }"

text \<open>One turn of the writer thread, which waits for a command for a time; whether it goes on.\<close>

definition writer_turn ::
    "(bytes \<Rightarrow> 32 word) \<Rightarrow> (bytes \<Rightarrow> bytes option) \<Rightarrow> (bytes \<Rightarrow> bytes \<times> bool) \<Rightarrow> state_keeper \<Rightarrow> world
       \<Rightarrow> (bool \<times> state_keeper \<times> world) option" where
  "writer_turn crc32 deflate inflate k w = (case writer_queue k of
     [] \<Rightarrow> map_option (\<lambda>(_, lw, w1). (True, k\<lparr>sk_log_writer := lw\<rparr>, w1)) (Flush crc32 (sk_log_writer k) w)
   | crt # queue \<Rightarrow>
       (let k1 = k\<lparr>writer_queue := queue\<rparr>
        in if log_data crt = None \<and> checkpoint_data crt = None then
             map_option (\<lambda>(_, lw, w1). (False, k1\<lparr>sk_log_writer := lw\<rparr>, w1)) (Flush crc32 (sk_log_writer k1) w)
           else do {
             (k2, w2) \<leftarrow> (case log_data crt of
                None \<Rightarrow> Some (k1, w)
              | Some x \<Rightarrow> map_option (\<lambda>(_, lw, w1). (k1\<lparr>sk_log_writer := lw\<rparr>, w1))
                  (WriteRecord crc32 deflate (True, x) (sk_log_writer k1) w));
             (case checkpoint_data crt of
                None \<Rightarrow> Some (True, k2, w2)
              | Some m \<Rightarrow> map_option (\<lambda>(_, k3, w3). (True, k3, w3)) (CheckpointInternal crc32 deflate inflate m k2 w2)) }))"

text \<open>The thread to its end, when nothing is added to the queue any more.\<close>

fun drain_queue ::
    "(bytes \<Rightarrow> 32 word) \<Rightarrow> (bytes \<Rightarrow> bytes option) \<Rightarrow> (bytes \<Rightarrow> bytes \<times> bool) \<Rightarrow> nat \<Rightarrow> state_keeper \<Rightarrow> world
       \<Rightarrow> (state_keeper \<times> world) option" where
  "drain_queue crc32 deflate inflate 0 k w = None"
| "drain_queue crc32 deflate inflate (Suc n) k w = (case writer_turn crc32 deflate inflate k w of
     None \<Rightarrow> None
   | Some (go_on, k1, w1) \<Rightarrow> (if go_on then drain_queue crc32 deflate inflate n k1 w1 else Some (k1, w1)))"

text \<open>The destructor: the thread is told to end behind what is in the queue, and waited for.\<close>

definition StateKeeper_destroy ::
    "(bytes \<Rightarrow> 32 word) \<Rightarrow> (bytes \<Rightarrow> bytes option) \<Rightarrow> (bytes \<Rightarrow> bytes \<times> bool) \<Rightarrow> state_keeper \<Rightarrow> world \<Rightarrow> world option" where
  "StateKeeper_destroy crc32 deflate inflate k w = do {
     (k1, w1) \<leftarrow> drain_queue crc32 deflate inflate (Suc (length (writer_queue k)))
       (k\<lparr>writer_queue := writer_queue k @ [\<lparr>log_data = None, checkpoint_data = None\<rparr>]\<rparr>) w;
     w2 \<leftarrow> LogWriter_destroy crc32 (sk_log_writer k1) w1;
     _ \<leftarrow> ClearCheckpoint (checkpointer k1);
     Some w2 }"

section \<open>Users\<close>

record state_keep_user =
  user_prefix :: bytes
  timeout_ms :: int
  crt_timeout :: int

definition kMinUpdateTimeoutThresholdMs :: int where "kMinUpdateTimeoutThresholdMs = 1000"

text \<open>\<^verbatim>\<open>%025\<close> of a number that is not negative, and the key under which a timeout is kept.\<close>

definition timeout_key :: "int \<Rightarrow> bytes \<Rightarrow> bytes" where
  "timeout_key t prefix = kStateKeeperTimeoutKey @ [slash] @ digits 25 (nat t) @ [slash] @ prefix"

definition StateKeepUser_new :: "bytes \<Rightarrow> int \<Rightarrow> state_keeper \<Rightarrow> state_keep_user option" where
  "StateKeepUser_new prefix timeout k =
     (if prefix = [] then None
      else Some \<lparr>user_prefix = prefix, timeout_ms = timeout,
        crt_timeout = (case GetValue (prefix @ kStateKeeperTimeoutKey) k of None \<Rightarrow> 0 | Some v \<Rightarrow> strtol v)\<rparr>)"

definition CleanTimeout :: "state_keep_user \<Rightarrow> state_keeper \<Rightarrow> (state_keep_user \<times> state_keeper) option" where
  "CleanTimeout u k =
     (if crt_timeout u \<le> 0 then Some (u, k)
      else map_option (\<lambda>k1. (u\<lparr>crt_timeout := 0\<rparr>, k1)) (DeleteValue (timeout_key (crt_timeout u) (user_prefix u)) k))"

text \<open>
  \<^verbatim>\<open>UpdateTimeout\<close> sets a value itself, which calls it again: at the same time on the clock, that
  call returns at once.
\<close>

definition UpdateTimeout :: "int \<Rightarrow> state_keep_user \<Rightarrow> state_keeper \<Rightarrow> (state_keep_user \<times> state_keeper) option" where
  "UpdateTimeout now u k =
     (if timeout_ms u \<le> 0 \<or> now + timeout_ms u - crt_timeout u < kMinUpdateTimeoutThresholdMs then Some (u, k)
      else do {
        let new_timeout = now + timeout_ms u;
        k1 \<leftarrow> SetValue (timeout_key new_timeout (user_prefix u)) (user_prefix u) k;
        k2 \<leftarrow> SetValue (user_prefix u @ kStateKeeperTimeoutKey) (int_text new_timeout) k1;
        k3 \<leftarrow> (if crt_timeout u > 0 then DeleteValue (timeout_key (crt_timeout u) (user_prefix u)) k2 else Some k2);
        Some (u\<lparr>crt_timeout := new_timeout\<rparr>, k3) })"

definition user_SetValue :: "int \<Rightarrow> bytes \<Rightarrow> bytes \<Rightarrow> state_keep_user \<Rightarrow> state_keeper \<Rightarrow> (state_keep_user \<times> state_keeper) option" where
  "user_SetValue now key val u k =
     (if timeout_ms u = 0 then Some (u, k)
      else do {
        k1 \<leftarrow> SetValue (user_prefix u @ key) val k;
        (if timeout_ms u < 0 then Some (u, k1) else UpdateTimeout now u k1) })"

definition user_DeleteValue :: "bytes \<Rightarrow> state_keep_user \<Rightarrow> state_keeper \<Rightarrow> state_keeper option" where
  "user_DeleteValue key u k = DeleteValue (user_prefix u @ key) k"

definition user_DeletePrefix :: "bytes \<Rightarrow> state_keep_user \<Rightarrow> state_keeper \<Rightarrow> (state_keep_user \<times> state_keeper) option" where
  "user_DeletePrefix prefix u k = do {
     (u1, k1) \<leftarrow> (if prefix = [] then CleanTimeout u k else Some (u, k));
     map_option (Pair u1) (DeletePrefix (user_prefix u1 @ prefix) k1) }"

definition DeleteAllValues :: "state_keep_user \<Rightarrow> state_keeper \<Rightarrow> state_keeper option" where
  "DeleteAllValues u k = DeletePrefix (user_prefix u) k"

definition GetKeyValues :: "bytes \<Rightarrow> state_keep_user \<Rightarrow> state_keeper \<Rightarrow> (bytes \<times> bytes) list" where
  "GetKeyValues prefix u k =
     map (\<lambda>(key, val). (drop (length (user_prefix u)) key, val)) (GetBounds (user_prefix u @ prefix) (sk_data k))"

definition user_CommitTransaction :: "int \<Rightarrow> state_keep_user \<Rightarrow> state_keeper \<Rightarrow> (state_keep_user \<times> state_keeper) option" where
  "user_CommitTransaction now u k = do {
     (u1, k1) \<leftarrow> UpdateTimeout now u k;
     map_option (Pair u1) (CommitTransaction k1) }"

end
