(* ===== verification/StateChanges.thy ===== *)
theory StateChanges
  imports StateKeeper FileLaws
begin

text \<open>
  What the main thread of a \<open>StateKeeper\<close> does to its map, and that the records it queues do the
  same when they are read again; which keys a prefix selects; positions as text.
\<close>

section \<open>The keys under a prefix\<close>

lemma next_snoc: "GetNextInLexicographicOrder (p @ [c]) = (if c = 0xff then GetNextInLexicographicOrder p else p @ [c + 1])"
  by (simp add: GetNextInLexicographicOrder.simps[of "p @ [c]"])

lemma next_Nil [simp]: "GetNextInLexicographicOrder [] = []"
  by (simp add: GetNextInLexicographicOrder.simps)

lemma next_Cons:
  "GetNextInLexicographicOrder (c # p) =
     (if GetNextInLexicographicOrder p \<noteq> [] then c # GetNextInLexicographicOrder p
      else if c = 0xff then [] else [c + 1])"
proof (induction p rule: rev_induct)
  case Nil
  then show ?case using next_snoc[of "[]" c] by simp
next
  case (snoc d p)
  have "GetNextInLexicographicOrder (c # p @ [d])
      = (if d = 0xff then GetNextInLexicographicOrder (c # p) else c # p @ [d + 1])"
    using next_snoc[of "c # p" d] by simp
  then show ?case using snoc by (cases "c = 0xff") (auto simp: next_snoc)
qed

lemma byte_next: "c \<noteq> 0xff \<Longrightarrow> d < c + 1 \<longleftrightarrow> d \<le> (c :: byte)"
proof -
  assume "c \<noteq> 0xff"
  then have "unat c \<noteq> 255" by (auto simp: word_unat_eq_iff)
  then have "unat c + 1 < 256" using unat_byte_less[of c] by simp
  then have "unat (c + 1) = unat c + 1" by (simp add: unat_plus_if')
  then show ?thesis by (simp add: word_less_nat_alt word_le_nat_alt less_Suc_eq_le)
qed

lemma byte_max [simp]: "\<not> 0xff < (d :: byte)"
  using unat_byte_less[of d] by (simp add: word_less_nat_alt)

text \<open>
  The range is the keys with the prefix and, since the upper bound is included, the next string
  itself.
\<close>

lemma in_bounds_iff:
  "in_bounds p k \<longleftrightarrow> take (length p) k = p \<or> k = GetNextInLexicographicOrder p \<and> k \<noteq> []"
proof (induction p arbitrary: k)
  case Nil
  then show ?case by (simp add: in_bounds_def)
next
  case (Cons c p)
  show ?case
  proof (cases k)
    case Nil
    then show ?thesis by (simp add: in_bounds_def)
  next
    case k: (Cons d q)
    have p: "p \<noteq> [] \<Longrightarrow> in_bounds p q \<longleftrightarrow> p \<le> q \<and> (GetNextInLexicographicOrder p = [] \<or> q \<le> GetNextInLexicographicOrder p)"
      by (simp add: in_bounds_def)
    show ?thesis
      using Cons[of q] p byte_next[of c d] unfolding k in_bounds_def[of "c # p"] next_Cons
      by (auto simp: in_bounds_def) 
  qed
qed


section \<open>Positions as text\<close>

lemma decimal_digits: "decimal n \<noteq> [] \<and> list_all is_digit (decimal n) \<and> digits_value (decimal n) = n"
proof (induction n rule: decimal.induct)
  case (1 n)
  have d: "is_digit (digit_char (n mod 10))" by (rule is_digit_digit)
  have "10 * (n div 10) + n mod 10 = n" by simp
  then show ?case
    using 1 d by (subst (1 2 3) decimal.simps) (auto simp: digits_value_snoc digits_value_def)
qed

lemma int_text_nat: "int_text (int n) = decimal n"
  by (simp add: int_text_def)

lemma parse_int32_decimal:
  assumes "n < 2 ^ 31"
  shows "parse_int32 (32 # decimal n) = int n"
proof -
  obtain d ds where ds: "decimal n = d # ds" using decimal_digits[of n] by (cases "decimal n") auto
  have d: "list_all is_digit (d # ds)" "digits_value (d # ds) = n" using decimal_digits[of n] ds by simp_all
  then have tw: "takeWhile is_digit (d # ds) = d # ds" by (simp add: takeWhile_eq_all_conv list_all_iff)
  have "strtol (32 # d # ds) = min (int (digits_value (takeWhile is_digit (d # ds)))) (2 ^ 63 - 1)"
  proof -
    have "is_space 32" by (simp add: is_space_def)
    then show ?thesis using not_space_digit[of d] d(1) by (simp add: strtol_def Let_def)
  qed
  then have "strtol (32 # decimal n) = min (int n) (2 ^ 63 - 1)" unfolding tw d(2) ds .
  then have "strtol (32 # decimal n) = int n" using assms by simp
  then show ?thesis using assms by (simp add: parse_int32_def signed_of_nat signed_take_bit_int_eq_self)
qed

lemma digit_not_mark: "is_digit c \<Longrightarrow> c \<noteq> 59 \<and> c \<noteq> 58 \<and> c \<noteq> 0 \<and> c \<noteq> 32"
  by (auto simp: is_digit_def word_le_nat_alt)

lemma SplitString_field:
  "sep \<notin> set f \<Longrightarrow> f \<noteq> [] \<Longrightarrow> SplitString sep (f @ sep # s) = f # SplitString sep s"
  "sep \<notin> set f \<Longrightarrow> f \<noteq> [] \<Longrightarrow> SplitString sep f = [f]"
proof -
  assume f: "sep \<notin> set f" "f \<noteq> []"
  then have all: "\<And>c. c \<in> set f \<Longrightarrow> c \<noteq> sep" by metis
  have 1: "takeWhile (\<lambda>c. c \<noteq> sep) (f @ sep # s) = f" "dropWhile (\<lambda>c. c \<noteq> sep) (f @ sep # s) = sep # s"
    using all by (simp_all add: takeWhile_append2 dropWhile_append2)
  have 2: "takeWhile (\<lambda>c. c \<noteq> sep) f = f" "dropWhile (\<lambda>c. c \<noteq> sep) f = []"
    using all by (simp_all add: takeWhile_eq_all_conv)
  show "SplitString sep (f @ sep # s) = f # SplitString sep s"
    using f(2) 1 by (subst SplitString.simps) (simp add: Let_def)
  show "SplitString sep f = [f]" using f(2) unfolding SplitString.simps[of sep f] Let_def 2 by simp
qed

lemma SplitFirst_field: "sep \<notin> set a \<Longrightarrow> SplitFirst sep (a @ sep # b) = (a, b)"
proof -
  assume "sep \<notin> set a"
  then have "\<And>c. c \<in> set a \<Longrightarrow> c \<noteq> sep" by metis
  then show ?thesis by (simp add: SplitFirst_def takeWhile_append2 dropWhile_append2)
qed

lemma middle: "length a = 7 \<Longrightarrow> take (length (a @ x @ [y]) - 8) (drop 7 (a @ x @ [y])) = x"
  by simp

text \<open>A position that is written as text is read back.\<close>

lemma LogPos_text:
  assumes "f < 2 ^ 31" "b < 2 ^ 31" "r < 2 ^ 31"
  shows "LogPos_StrDecode (LogPos_StrEncode \<lparr>file_num = int f, block_num = int b, record_num = int r\<rparr>)
     = Some \<lparr>file_num = int f, block_num = int b, record_num = int r\<rparr>"
proof -
  let ?F = "bytes_of ''file'' @ 58 # 32 # decimal f" and ?B = "32 # bytes_of ''block'' @ 58 # 32 # decimal b"
    and ?R = "32 # bytes_of ''record'' @ 58 # 32 # decimal r"
  have dig: "c \<in> set (decimal n) \<Longrightarrow> is_digit c" for c n using decimal_digits[of n] by (simp add: list_all_iff)
  have ne: "59 \<notin> set (decimal n)" "58 \<notin> set (decimal n)" "0 \<notin> set (decimal n)" for n
    using dig[of _ n] digit_not_mark by blast+
  define str where "str = LogPos_StrEncode \<lparr>file_num = int f, block_num = int b, record_num = int r\<rparr>"
  have str: "str = bytes_of ''LogPos{'' @ (?F @ 59 # ?B @ 59 # ?R) @ [125]"
    by (simp add: str_def LogPos_StrEncode_def int_text_nat bytes_of_def)
  have "length (bytes_of ''LogPos{'') = 7" by (simp add: bytes_of_def)
  then have mid: "take (length str - 8) (drop 7 str) = ?F @ 59 # ?B @ 59 # ?R" and len: "8 < length str"
    unfolding str by (simp_all only: middle) simp
  have marks: "of_char CHR '';'' = (59 :: byte)" "of_char CHR '':'' = (58 :: byte)" by simp_all
  have fields: "SplitString 59 (?F @ 59 # ?B @ 59 # ?R) = [?F, ?B, ?R]"
    using SplitString_field(1)[of 59 ?F "?B @ 59 # ?R"] SplitString_field(1)[of 59 ?B ?R] SplitString_field(2)[of 59 ?R] ne
    by (simp add: bytes_of_def)
  have c: "takeWhile (\<lambda>c. c \<noteq> 0) e = e" if "0 \<notin> set e" for e :: bytes
    using that by (simp add: takeWhile_eq_all_conv) metis
  have firsts: "SplitFirst 58 ?F = (bytes_of ''file'', 32 # decimal f)" "SplitFirst 58 ?B = (32 # bytes_of ''block'', 32 # decimal b)"
     "SplitFirst 58 ?R = (32 # bytes_of ''record'', 32 # decimal r)"
    using SplitFirst_field[of 58 "bytes_of ''file''" "32 # decimal f"] SplitFirst_field[of 58 "32 # bytes_of ''block''" "32 # decimal b"]
      SplitFirst_field[of 58 "32 # bytes_of ''record''" "32 # decimal r"] by (simp_all add: bytes_of_def)
  have "SplitPairs (take (length str - 8) (drop 7 str)) 59 58 = [(bytes_of ''file'', 32 # decimal f),
      (32 # bytes_of ''block'', 32 # decimal b), (32 # bytes_of ''record'', 32 # decimal r)]"
    unfolding mid SplitPairs_def fields list.map firsts[symmetric]
    using ne by (simp add: c bytes_of_def)
  then show ?thesis
    using len assms unfolding str_def[symmetric] LogPos_StrDecode_def marks by (simp add: parse_int32_decimal)
qed

section \<open>Records of changes\<close>

datatype state_change = SetChange bytes bytes | DeleteChange bytes | ClearChange bytes

fun enc_change :: "state_change \<Rightarrow> bytes" where
  "enc_change (SetChange key val) = WriteBE (word_of_nat (length key) :: 16 word) @ key @ OP_SET
     # WriteBE (word_of_nat (length val) :: 32 word) @ val"
| "enc_change (DeleteChange key) = WriteBE (word_of_nat (length key) :: 16 word) @ key @ [OP_DELETE]"
| "enc_change (ClearChange key) = WriteBE (word_of_nat (length key) :: 16 word) @ key @ [OP_CLEARPREFIX]"

fun apply_change :: "state_change \<Rightarrow> state_map \<Rightarrow> state_map" where
  "apply_change (SetChange key val) m = map_insert key val m"
| "apply_change (DeleteChange key) m = map_erase key m"
| "apply_change (ClearChange key) m = ClearMapPrefix key m"

fun change_ok :: "state_change \<Rightarrow> bool" where
  "change_ok (SetChange key val) \<longleftrightarrow> length key < 32767 \<and> length val < 2 ^ 31"
| "change_ok (DeleteChange key) \<longleftrightarrow> length key < 32767"
| "change_ok (ClearChange key) \<longleftrightarrow> length key < 32767"

lemma ReadString_len_append: "ReadString_len (int (length a)) (a @ s) = Some (a, s)"
  by (simp add: ReadString_len_def)

lemma sint_length: "n < 32767 \<Longrightarrow> sint (word_of_nat n :: 16 word) = int n" "n < 2 ^ 31 \<Longrightarrow> sint (word_of_nat n :: 32 word) = int n"
  by (simp_all add: signed_of_nat signed_take_bit_int_eq_self)

lemma replay_change:
  assumes "change_ok c"
  shows "replay_record (enc_change c @ rest) m = replay_record rest (apply_change c m)"
  using assms
  by (cases c; subst replay_record.simps)
    (simp_all add: codec_simps sint_length ReadString_len_append OP_SET_def OP_DELETE_def OP_CLEARPREFIX_def)

lemma replay_changes:
  "\<forall>c \<in> set cs. change_ok c \<Longrightarrow> replay_record (concat (map enc_change cs)) m = Some (fold apply_change cs m)"
proof (induction cs arbitrary: m)
  case Nil
  then show ?case by (simp add: replay_record.simps)
next
  case (Cons c cs)
  then show ?case by (simp add: replay_change)
qed


section \<open>The main thread\<close>

text \<open>
  The map that the commands of a queue make of a map.  A checkpoint is of the map at its place
  in the queue, and without the key that the checkpoint itself adds.
\<close>

definition storable_map :: "state_map \<Rightarrow> bool" where
  "storable_map m \<longleftrightarrow> map_ok m \<and> kStateKeeperLogPosKey \<notin> fst ` set m"

fun replay_queue :: "write_command list \<Rightarrow> state_map \<Rightarrow> state_map option" where
  "replay_queue [] m = Some m"
| "replay_queue (c # queue) m = (case (log_data c, checkpoint_data c) of
     (Some x, None) \<Rightarrow> Option.bind (replay_record x m) (replay_queue queue)
   | (None, Some m') \<Rightarrow> if m' = m \<and> storable_map m then replay_queue queue m else None
   | _ \<Rightarrow> None)"

lemma replay_queue_append: "replay_queue (q @ r) m = Option.bind (replay_queue q m) (replay_queue r)"
proof (induction q arbitrary: m)
  case (Cons c q)
  then show ?case by (cases "replay_record (the (log_data c)) m") (auto split: option.splits)
qed simp

text \<open>What is queued, and then what is kept back in a transaction, makes the map of the log that of the keeper.\<close>

definition keeper_holds :: "state_map \<Rightarrow> state_keeper \<Rightarrow> bool" where
  "keeper_holds m k \<longleftrightarrow> (\<exists>m1 cs. replay_queue (writer_queue k) m = Some m1 \<and> op_buf k = concat (map enc_change cs)
       \<and> (\<forall>c \<in> set cs. change_ok c) \<and> sk_data k = fold apply_change cs m1)
     \<and> (in_transaction k \<or> op_buf k = []) \<and> storable_map (sk_data k)"

lemma keeper_holdsE:
  assumes "keeper_holds m k"
  obtains m1 cs where "replay_queue (writer_queue k) m = Some m1" "op_buf k = concat (map enc_change cs)"
    "\<forall>c \<in> set cs. change_ok c" "sk_data k = fold apply_change cs m1" "in_transaction k \<or> op_buf k = []"
    "storable_map (sk_data k)"
  using assms by (auto simp: keeper_holds_def)

lemma keeper_holds_QueueWrite:
  assumes "replay_queue (writer_queue k) m = Some m1" "op_buf k = concat (map enc_change cs)"
    "\<forall>c \<in> set cs. change_ok c" "sk_data k = fold apply_change cs m1" "storable_map (sk_data k)"
  shows "keeper_holds m (QueueWrite k)"
proof -
  have "replay_record (op_buf k) m1 = Some (sk_data k)" using replay_changes[OF assms(3), of m1] assms(2,4) by simp
  then have "replay_queue (writer_queue (QueueWrite k)) m = Some (sk_data k)"
    using assms(1) by (simp add: QueueWrite_def replay_queue_append)
  then show ?thesis
    using assms(5) unfolding keeper_holds_def
    by (intro conjI exI[of _ "sk_data k"] exI[of _ "[]"]) (simp_all add: QueueWrite_def)
qed

fun change_args :: "state_change \<Rightarrow> bytes \<times> byte \<times> bytes option" where
  "change_args (SetChange key val) = (key, OP_SET, Some val)"
| "change_args (DeleteChange key) = (key, OP_DELETE, None)"
| "change_args (ClearChange key) = (key, OP_CLEARPREFIX, None)"

lemma QueueOp_holds:
  assumes "keeper_holds m k" "change_args c = (key, op, val)" "case val of Some v \<Rightarrow> length v < 2 ^ 31 | None \<Rightarrow> True"
    and "storable_map (apply_change c (sk_data k))"
    and "QueueOp key op val (k\<lparr>sk_data := apply_change c (sk_data k)\<rparr>) = Some k'"
  shows "keeper_holds m k'"
proof -
  obtain m1 cs where k: "replay_queue (writer_queue k) m = Some m1" "op_buf k = concat (map enc_change cs)"
    "\<forall>c \<in> set cs. change_ok c" "sk_data k = fold apply_change cs m1" "in_transaction k \<or> op_buf k = []"
    using assms(1) by (elim keeper_holdsE)
  define k1 where "k1 = k\<lparr>sk_data := apply_change c (sk_data k), op_buf := op_buf k @ enc_change c\<rparr>"
  have len: "length key < 32767" using assms(5) by (simp add: QueueOp_def split: if_splits)
  have enc: "enc_change c = WriteBE (word_of_nat (length key) :: 16 word) @ key @ [op]
      @ (case val of None \<Rightarrow> [] | Some v \<Rightarrow> WriteBE (word_of_nat (length v) :: 32 word) @ v)"
    and ok: "change_ok c" using assms(2,3) len by (cases c; auto)+
  have k': "k' = (if in_transaction k then k1 else QueueWrite k1)"
    using assms(5) len by (simp add: QueueOp_def Let_def enc k1_def split: if_splits)
  have h: "replay_queue (writer_queue k1) m = Some m1" "op_buf k1 = concat (map enc_change (cs @ [c]))"
    "\<forall>c \<in> set (cs @ [c]). change_ok c" "sk_data k1 = fold apply_change (cs @ [c]) m1" "storable_map (sk_data k1)"
    using k ok assms(4) by (auto simp: k1_def)
  show ?thesis
  proof (cases "in_transaction k")
    case True
    moreover have "in_transaction k1" using True by (simp add: k1_def)
    ultimately show ?thesis
      using h k' unfolding keeper_holds_def by (intro conjI exI[of _ m1] exI[of _ "cs @ [c]"]) simp_all
  next
    case False
    then show ?thesis using keeper_holds_QueueWrite[OF h] k' by simp
  qed
qed

lemma storable_map_changes:
  assumes "storable_map m"
  shows "key \<noteq> kStateKeeperLogPosKey \<Longrightarrow> storable_map (map_insert key val m)" "storable_map (map_erase key m)"
    "storable_map (ClearMapPrefix key m)"
proof -
  have m: "map_ok m" "kStateKeeperLogPosKey \<notin> fst ` set m" using assms by (simp_all add: storable_map_def)
  show "key \<noteq> kStateKeeperLogPosKey \<Longrightarrow> storable_map (map_insert key val m)"
    using m by (simp add: storable_map_def map_insert_ok map_insert_keys)
  show "storable_map (map_erase key m)"
    using m map_erase_subset[of key m] by (auto simp: storable_map_def map_erase_ok)
  have "sorted_wrt (<) (map fst (filter P m))" for P
    using m(1) by (induction m) (auto simp: map_ok_def)
  then show "storable_map (ClearMapPrefix key m)"
    using m(2) by (auto simp: storable_map_def ClearMapPrefix_def map_ok_def)
qed

text \<open>The operations of the main thread as one function.\<close>

datatype keeper_op = SetOp bytes bytes | DeleteOp bytes | DeletePrefixOp bytes | BeginOp | CommitOp
  | ExpireOp int | CheckpointOp int

fun run_op :: "keeper_op \<Rightarrow> state_keeper \<Rightarrow> state_keeper option" where
  "run_op (SetOp key val) k = SetValue key val k"
| "run_op (DeleteOp key) k = DeleteValue key k"
| "run_op (DeletePrefixOp prefix) k = DeletePrefix prefix k"
| "run_op BeginOp k = BeginTransaction k"
| "run_op CommitOp k = CommitTransaction k"
| "run_op (ExpireOp now) k = map_option snd (ExpireTimeoutedKeys now k)"
| "run_op (CheckpointOp now) k = StateKeeper_Checkpoint now k"

fun op_ok :: "keeper_op \<Rightarrow> bool" where
  "op_ok (SetOp key val) \<longleftrightarrow> key \<noteq> kStateKeeperLogPosKey \<and> length val < 2 ^ 31"
| "op_ok _ \<longleftrightarrow> True"

lemma DeletePrefix_holds: "keeper_holds m k \<Longrightarrow> DeletePrefix prefix k = Some k' \<Longrightarrow> keeper_holds m k'"
  using QueueOp_holds[of m k "ClearChange prefix"]
  by (auto simp: DeletePrefix_def storable_map_changes elim!: keeper_holdsE split: if_splits)

lemma DeleteValue_holds: "keeper_holds m k \<Longrightarrow> DeleteValue key k = Some k' \<Longrightarrow> keeper_holds m k'"
  using QueueOp_holds[of m k "DeleteChange key"]
  by (auto simp: DeleteValue_def storable_map_changes elim!: keeper_holdsE split: if_splits)


lemma SetValue_holds:
  "keeper_holds m k \<Longrightarrow> op_ok (SetOp key val) \<Longrightarrow> SetValue key val k = Some k' \<Longrightarrow> keeper_holds m k'"
  using QueueOp_holds[of m k "SetChange key val"]
  by (auto simp: SetValue_def storable_map_changes elim!: keeper_holdsE split: if_splits)

lemma CommitTransaction_holds: "keeper_holds m k \<Longrightarrow> CommitTransaction k = Some k' \<Longrightarrow> keeper_holds m k'"
  using keeper_holds_QueueWrite[of "k\<lparr>in_transaction := False\<rparr>"]
  by (auto simp: CommitTransaction_def elim!: keeper_holdsE split: if_splits)

lemma BeginTransaction_holds: "keeper_holds m k \<Longrightarrow> BeginTransaction k = Some k' \<Longrightarrow> keeper_holds m k'"
  by (auto simp: BeginTransaction_def keeper_holds_def split: if_splits)

lemma delete_expired_holds: "keeper_holds m k \<Longrightarrow> delete_expired ks k = Some k' \<Longrightarrow> keeper_holds m k'"
proof (induction ks k rule: delete_expired.induct)
  case (2 key prefix ks k)
  then obtain k1 k2 where "DeletePrefix prefix k = Some k1" "DeleteValue key k1 = Some k2" "delete_expired ks k2 = Some k'"
    by auto
  then show ?case using 2 DeletePrefix_holds DeleteValue_holds by metis
qed simp

lemma ExpireTimeoutedKeys_holds:
  "keeper_holds m k \<Longrightarrow> ExpireTimeoutedKeys now k = Some (n, k') \<Longrightarrow> keeper_holds m k'"
proof -
  assume "keeper_holds m k" "ExpireTimeoutedKeys now k = Some (n, k')"
  moreover from this(2) obtain k1 ks k2 where "BeginTransaction k = Some k1" "delete_expired ks k1 = Some k2"
    "CommitTransaction k2 = Some k'"
    by (auto simp: ExpireTimeoutedKeys_def Let_def)
  ultimately show ?thesis using BeginTransaction_holds delete_expired_holds CommitTransaction_holds by metis
qed

lemma ExpireTimeoutedKeys_committed: "ExpireTimeoutedKeys now k = Some (n, k') \<Longrightarrow> \<not> in_transaction k' \<and> op_buf k' = []"
  by (auto simp: ExpireTimeoutedKeys_def Let_def CommitTransaction_def QueueWrite_def split: if_splits)

lemma Checkpoint_holds:
  assumes "keeper_holds m k" "StateKeeper_Checkpoint now k = Some k'"
  shows "keeper_holds m k'"
proof -
  obtain n k1 where e: "ExpireTimeoutedKeys now k = Some (n, k1)"
    and k': "k' = k1\<lparr>writer_queue := writer_queue k1 @ [\<lparr>log_data = None, checkpoint_data = Some (sk_data k1)\<rparr>]\<rparr>"
    using assms(2) by (auto simp: StateKeeper_Checkpoint_def split: if_splits)
  have c: "\<not> in_transaction k1" "op_buf k1 = []" using ExpireTimeoutedKeys_committed[OF e] by simp_all
  obtain m1 cs where h: "replay_queue (writer_queue k1) m = Some m1" "op_buf k1 = concat (map enc_change cs)"
    "\<forall>c \<in> set cs. change_ok c" "sk_data k1 = fold apply_change cs m1" "storable_map (sk_data k1)"
    using ExpireTimeoutedKeys_holds[OF assms(1) e] by (elim keeper_holdsE)
  have "replay_record (op_buf k1) m1 = Some (sk_data k1)" using replay_changes[OF h(3), of m1] h(2,4) by simp
  then have "sk_data k1 = m1" using c(2) by (simp add: replay_record.simps)
  then show ?thesis
    using h(1,5) c unfolding keeper_holds_def k'
    by (intro conjI exI[of _ m1] exI[of _ "[]"]) (simp_all add: replay_queue_append)
qed

lemma run_op_holds: "keeper_holds m k \<Longrightarrow> op_ok x \<Longrightarrow> run_op x k = Some k' \<Longrightarrow> keeper_holds m k'"
  by (cases x) (auto dest: SetValue_holds DeleteValue_holds DeletePrefix_holds BeginTransaction_holds
      CommitTransaction_holds ExpireTimeoutedKeys_holds Checkpoint_holds)

text \<open>What an operation adds to the queue is behind what is there; the other parts are not touched.\<close>

definition same_writer :: "state_keeper \<Rightarrow> state_keeper \<Rightarrow> bool" where
  "same_writer k k' \<longleftrightarrow> sk_dir k' = sk_dir k \<and> sk_name k' = sk_name k \<and> sk_block_size k' = sk_block_size k
     \<and> sk_blocks_per_file k' = sk_blocks_per_file k \<and> checkpoints_to_keep k' = checkpoints_to_keep k
     \<and> checkpointer k' = checkpointer k \<and> sk_log_writer k' = sk_log_writer k
     \<and> (\<exists>q. writer_queue k' = writer_queue k @ q)"

lemma same_writer_refl [simp]: "same_writer k k"
  by (simp add: same_writer_def)

lemma same_writer_trans: "same_writer k k' \<Longrightarrow> same_writer k' k'' \<Longrightarrow> same_writer k k''"
  by (auto simp: same_writer_def)

lemma QueueOp_same: "QueueOp key op val k = Some k' \<Longrightarrow> same_writer k k'"
  by (auto simp: QueueOp_def QueueWrite_def same_writer_def Let_def split: if_splits)

lemma same_writer_data [simp]: "same_writer (k\<lparr>sk_data := m\<rparr>) k' \<longleftrightarrow> same_writer k k'"
  by (simp add: same_writer_def)

lemma change_same:
  "DeletePrefix prefix k = Some k' \<Longrightarrow> same_writer k k'" "DeleteValue key k = Some k' \<Longrightarrow> same_writer k k'"
  "SetValue key val k = Some k' \<Longrightarrow> same_writer k k'"
  by (auto simp: DeletePrefix_def DeleteValue_def SetValue_def split: if_splits dest!: QueueOp_same)

lemma transaction_same:
  "BeginTransaction k = Some k' \<Longrightarrow> same_writer k k'" "CommitTransaction k = Some k' \<Longrightarrow> same_writer k k'"
  by (auto simp: BeginTransaction_def CommitTransaction_def QueueWrite_def same_writer_def split: if_splits)

lemma delete_expired_same: "delete_expired ks k = Some k' \<Longrightarrow> same_writer k k'"
proof (induction ks k rule: delete_expired.induct)
  case (2 key prefix ks k)
  then obtain k1 k2 where "DeletePrefix prefix k = Some k1" "DeleteValue key k1 = Some k2" "delete_expired ks k2 = Some k'"
    by auto
  then show ?case using 2 change_same same_writer_trans by metis
qed simp

lemma ExpireTimeoutedKeys_same: "ExpireTimeoutedKeys now k = Some (n, k') \<Longrightarrow> same_writer k k'"
proof -
  assume "ExpireTimeoutedKeys now k = Some (n, k')"
  then obtain k1 ks k2 where "BeginTransaction k = Some k1" "delete_expired ks k1 = Some k2" "CommitTransaction k2 = Some k'"
    by (auto simp: ExpireTimeoutedKeys_def Let_def)
  then show ?thesis using transaction_same delete_expired_same same_writer_trans by metis
qed

lemma Checkpoint_same: "StateKeeper_Checkpoint now k = Some k' \<Longrightarrow> same_writer k k'"
proof -
  assume "StateKeeper_Checkpoint now k = Some k'"
  then obtain n k1 where "ExpireTimeoutedKeys now k = Some (n, k1)"
    "k' = k1\<lparr>writer_queue := writer_queue k1 @ [\<lparr>log_data = None, checkpoint_data = Some (sk_data k1)\<rparr>]\<rparr>"
    by (auto simp: StateKeeper_Checkpoint_def split: if_splits)
  moreover from this have "same_writer k1 k'" by (simp add: same_writer_def)
  ultimately show ?thesis using ExpireTimeoutedKeys_same same_writer_trans by metis
qed

lemma run_op_same: "run_op x k = Some k' \<Longrightarrow> same_writer k k'"
  by (cases x) (auto dest: change_same transaction_same ExpireTimeoutedKeys_same Checkpoint_same)

section \<open>The property\<close>

text \<open>
  C37. \<open>DeletePrefix\<close> removes the keys with the prefix and, because the upper bound of the range is
  included, the key that is the next string in order, although it does not have the prefix.
\<close>

theorem DeletePrefix_removes:
  assumes "may_change k" "length prefix < 32767"
  shows "\<exists>k'. DeletePrefix prefix k = Some k' \<and> map_of (sk_data k')
     = (\<lambda>key. if take (length prefix) key = prefix \<or> key = GetNextInLexicographicOrder prefix \<and> key \<noteq> [] then None
              else map_of (sk_data k) key)"
proof -
  have "map_of (filter (\<lambda>(key, _). P key) m) key = (if P key then map_of m key else None)" for P key and m :: state_map
    by (induction m) auto
  then have "map_of (ClearMapPrefix prefix (sk_data k))
     = (\<lambda>key. if take (length prefix) key = prefix \<or> key = GetNextInLexicographicOrder prefix \<and> key \<noteq> [] then None
              else map_of (sk_data k) key)"
    by (simp add: ClearMapPrefix_def in_bounds_iff fun_eq_iff)
  then show ?thesis using assms by (simp add: DeletePrefix_def QueueOp_def QueueWrite_def Let_def)
qed

lemma DeletePrefix_removes_witness:
  "let k = the (StateKeeper_new (bytes_of ''/d'') (bytes_of ''st'') 65536 4 2 1000)
   in \<exists>k'. DeletePrefix (bytes_of ''a/'') (k\<lparr>sk_data := [(bytes_of ''a/x'', [1]), (bytes_of ''a0'', [2])]\<rparr>) = Some k'
     \<and> map_of (sk_data k') (bytes_of ''a/x'') = None \<and> map_of (sk_data k') (bytes_of ''a0'') = None"
proof -
  have "GetNextInLexicographicOrder (bytes_of ''a/'') = bytes_of ''a0''"
    by (simp add: GetNextInLexicographicOrder.simps bytes_of_def)
  then show ?thesis
    using DeletePrefix_removes[of "(the (StateKeeper_new (bytes_of ''/d'') (bytes_of ''st'') 65536 4 2 1000))
        \<lparr>sk_data := [(bytes_of ''a/x'', [1]), (bytes_of ''a0'', [2])]\<rparr>" "bytes_of ''a/''"]
    by (auto simp: Let_def StateKeeper_new_def LogWriter_new_def RecordWriter_new_def kMaximumRecordBlockSize_def may_change_def
        bytes_of_def)
qed

end
