(* ===== verification/CheckpointLaws.thy ===== *)
theory CheckpointLaws
  imports Checkpoints LogSessions
begin

text \<open>
  A checkpoint is read as it was written, and not at all when the file was cut short.  The
  records of a file are taken as those of a log: pieces in blocks.
\<close>

section \<open>Files\<close>

definition cp_path :: "bytes \<Rightarrow> bytes \<Rightarrow> nat \<Rightarrow> bytes" where
  "cp_path dir base i = dir @ [slash] @ (base @ [underscore]) @ digits 10 i"

lemma cp_file_name_path:
  assumes "good_names dir base" "name = cp_file_base_name base (int i)"
  shows "JoinPaths dir name = cp_path dir base i" "cp_file_name dir base (int i) = cp_path dir base i"
proof -
  have "hd name \<noteq> slash" "name \<noteq> []"
    using assms by (cases base; auto simp: good_names_def cp_file_base_name_def slash_def underscore_def)+
  then show "JoinPaths dir name = cp_path dir base i"
    using assms by (auto simp: JoinPaths_def cp_path_def good_names_def cp_file_base_name_def)
  then show "cp_file_name dir base (int i) = cp_path dir base i" using assms(2) by (simp add: cp_file_name_def)
qed

lemma cp_path_inject: "i < 10 ^ 10 \<Longrightarrow> j < 10 ^ 10 \<Longrightarrow> cp_path dir base i = cp_path dir base j \<longleftrightarrow> i = j"
  by (simp add: cp_path_def digits_inject)

text \<open>
  The checkpoints of a directory are those with the numbers below \<open>n\<close>, of which those below
  \<open>lo\<close> have been deleted, but never all.
\<close>

definition cp_files :: "bytes \<Rightarrow> bytes \<Rightarrow> nat \<Rightarrow> nat \<Rightarrow> world \<Rightarrow> bool" where
  "cp_files dir base lo n w \<longleftrightarrow> results w = [] \<and> n < 2 ^ 31 \<and> (lo = 0 \<or> lo < n)
     \<and> (\<forall>k < 10 ^ 10. map_of (disk w) (cp_path dir base k) \<noteq> None \<longleftrightarrow> lo \<le> k \<and> k < n)"

lemma sort_Nil_iff: "sort xs = [] \<longleftrightarrow> xs = []"
  by (metis length_0_conv length_sort)

lemma cp_listing:
  assumes "good_names dir base" "cp_files dir base lo n w"
  shows "sort (filter (cp_re base) (dir_entries dir w)) = map (\<lambda>k. cp_file_base_name base (int k)) [lo..<n]"
proof -
  let ?p = "base @ [underscore]"
  have re: "cp_re base name \<longleftrightarrow> (\<exists>k < 10 ^ 10. name = ?p @ digits 10 k)" for name
    unfolding cp_re_def Let_def by (rule numbered_name_iff)
  have "set (filter (cp_re base) (dir_entries dir w)) = (\<lambda>k. ?p @ digits 10 k) ` {lo..<n}"
    by (rule numbered_listing[OF _ re]) (use assms in \<open>auto simp: good_names_def slash_def underscore_def cp_files_def cp_path_def\<close>)
  then have "sort (filter (cp_re base) (dir_entries dir w)) = map (\<lambda>k. ?p @ digits 10 k) [lo..<n]"
    by (rule sort_names) (use assms(2) in \<open>simp_all add: distinct_dir_entries cp_files_def\<close>)
  then show ?thesis by (simp add: cp_file_base_name_def)
qed

lemma GetCheckpointFiles_holds:
  assumes "good_names dir base" "cp_files dir base lo n w"
  shows "GetCheckpointFiles dir base w = (Some (map (\<lambda>k. cp_file_base_name base (int k)) [lo..<n]), w)"
  using assms(2) cp_listing[OF assms] by (simp add: GetCheckpointFiles_def DirList_files_def cp_files_def)

lemma last_checkpoint_number:
  assumes "good_names dir base" "cp_files dir base lo n w"
  shows "GetLastNumberedFile dir (cp_re base) 10 w = Some (int n - 1, w)"
proof (cases n)
  case 0
  then show ?thesis
    using assms(2) cp_listing[OF assms] by (simp add: GetLastNumberedFile_def DirList_files_def cp_files_def sort_Nil_iff)
next
  case (Suc m)
  let ?name = "cp_file_base_name base (int m)" and ?l = "filter (cp_re base) (dir_entries dir w)"
  have "lo \<le> m" using assms(2) Suc by (auto simp: cp_files_def)
  then have "?l \<noteq> []" "last (sort ?l) = ?name" using cp_listing[OF assms] Suc by (auto simp: sort_Nil_iff)
  moreover have "\<not> length ?name \<le> 10" "drop (length ?name - 10) ?name = digits 10 m" by (simp_all add: cp_file_base_name_def)
  moreover have "parse_int32 (digits 10 m) = int m" by (rule parse_int32_digits) (use assms(2) Suc in \<open>simp_all add: cp_files_def\<close>)
  ultimately show ?thesis
    using assms(2) Suc by (simp add: GetLastNumberedFile_def DirList_files_def cp_files_def Let_def)
qed

section \<open>Writing\<close>

lemma cp_size [simp]: "kDefaultCheckpointBlockSize = int 65536"
  by (simp add: kDefaultCheckpointBlockSize_def)

text \<open>
  The writer has the records \<open>xs\<close>: in the blocks \<open>bs\<close> of the file, the blocks \<open>cs\<close> in its buffer
  and the pieces \<open>ps\<close> in the recorder.
\<close>

definition cp_writing :: "(bytes \<Rightarrow> 32 word) \<Rightarrow> bytes \<Rightarrow> bytes list \<Rightarrow> checkpoint_writer \<Rightarrow> world \<Rightarrow> bool" where
  "cp_writing crc32 path xs cp w \<longleftrightarrow> (\<exists>bs cs ps r. cp_recorder cp = Some r
     \<and> writer_holds False 65536 kCheckpointDumpableSize r (last_crc crc32 65536 0 (bs @ cs)) ps
     \<and> int (length (enc_pieces ps)) \<le> kCheckpointDumpableSize
     \<and> cp_buf cp = enc_blocks crc32 65536 (last_crc crc32 65536 0 bs) cs
     \<and> at_end (cp_file cp) path (enc_blocks crc32 65536 0 bs) w \<and> (\<forall>b \<in> set (bs @ cs). b \<noteq> [] \<and> fits 65536 b)
     \<and> encode_records xs (concat (bs @ cs) @ ps))"

lemma cp_append_holds:
  assumes "cp_writing crc32 path xs cp w"
  shows "\<exists>ready cp'. cp_append crc32 deflate x cp = Some (ready, cp') \<and> cp_writing crc32 path (xs @ [x]) cp' w
     \<and> checkpoint_dir cp' = checkpoint_dir cp \<and> cp_file_base cp' = cp_file_base cp \<and> cp_names cp' = cp_names cp
     \<and> cp_file cp' = cp_file cp"
proof -
  obtain bs cs ps r where r: "cp_recorder cp = Some r"
     "writer_holds False 65536 kCheckpointDumpableSize r (last_crc crc32 65536 0 (bs @ cs)) ps"
     "int (length (enc_pieces ps)) \<le> kCheckpointDumpableSize" "cp_buf cp = enc_blocks crc32 65536 (last_crc crc32 65536 0 bs) cs"
     "at_end (cp_file cp) path (enc_blocks crc32 65536 0 bs) w" "\<forall>b \<in> set (bs @ cs). b \<noteq> [] \<and> fits 65536 b"
     "encode_records xs (concat (bs @ cs) @ ps)"
    using assms unfolding cp_writing_def by blast
  have "0 \<le> kCheckpointDumpableSize" "kCheckpointDumpableSize < 65536 - 16" by (simp_all add: kCheckpointDumpableSize_def)
  from append_dump_holds[OF r(2,3) this, of crc32 x] obtain ready ds qs fr r' where a:
    "(case append_pieces crc32 True x r of None \<Rightarrow> None | Some r \<Rightarrow> maybe_dump crc32 r)
       = Some ((ready, enc_blocks crc32 65536 (last_crc crc32 65536 0 (bs @ cs)) ds), r')"
    "writer_holds False 65536 kCheckpointDumpableSize r' (last_crc crc32 65536 (last_crc crc32 65536 0 (bs @ cs)) ds) qs"
    "int (length (enc_pieces qs)) \<le> kCheckpointDumpableSize" "\<forall>b \<in> set ds. b \<noteq> [] \<and> fits 65536 b"
    "fragments True x fr" "ps @ fr = concat ds @ qs" by blast
  have "rw_zlib r = False" using r(2) by (simp add: writer_holds_def)
  then have "cp_append crc32 deflate x cp = Some (ready, cp\<lparr>cp_buf := cp_buf cp
      @ enc_blocks crc32 65536 (last_crc crc32 65536 0 (bs @ cs)) ds, cp_recorder := Some r'\<rparr>)" (is "_ = Some (_, ?cp)")
    using a(1) r(1) by (simp add: cp_append_def AppendRecord_buffer_def)
  moreover have "cp_writing crc32 path (xs @ [x]) ?cp w"
    unfolding cp_writing_def
  proof (rule exI[of _ bs], rule exI[of _ "cs @ ds"], rule exI[of _ qs], rule exI[of _ r'], intro conjI)
    have "encode_records [x] fr" using a(5) by (auto simp: encode_records_Cons)
    from encode_records_append[OF r(7) this]
    show "encode_records (xs @ [x]) (concat (bs @ cs @ ds) @ qs)" using a(6) by simp
    show "writer_holds False 65536 kCheckpointDumpableSize r' (last_crc crc32 65536 0 (bs @ cs @ ds)) qs"
      using a(2) by simp
    show "cp_buf ?cp = enc_blocks crc32 65536 (last_crc crc32 65536 0 bs) (cs @ ds)"
      using r(4) by (simp add: enc_blocks_append)
    show "at_end (cp_file ?cp) path (enc_blocks crc32 65536 0 bs) w" using r(5) by simp
    show "\<forall>b \<in> set (bs @ cs @ ds). b \<noteq> [] \<and> fits 65536 b" using r(6) a(4) by auto
  qed (use a(3) in simp_all)
  ultimately show ?thesis by simp
qed

lemma cp_WriteBuffer_holds:
  assumes "cp_writing crc32 path xs cp w" "results w = []"
  shows "\<exists>f c. cp_WriteBuffer cp w = Some (True, cp\<lparr>cp_file := f, cp_buf := []\<rparr>, put_file path c w)
     \<and> cp_writing crc32 path xs (cp\<lparr>cp_file := f, cp_buf := []\<rparr>) (put_file path c w)"
proof -
  obtain bs cs ps r where r: "cp_recorder cp = Some r"
     "writer_holds False 65536 kCheckpointDumpableSize r (last_crc crc32 65536 0 (bs @ cs)) ps"
     "int (length (enc_pieces ps)) \<le> kCheckpointDumpableSize" "cp_buf cp = enc_blocks crc32 65536 (last_crc crc32 65536 0 bs) cs"
     "at_end (cp_file cp) path (enc_blocks crc32 65536 0 bs) w" "\<forall>b \<in> set (bs @ cs). b \<noteq> [] \<and> fits 65536 b"
     "encode_records xs (concat (bs @ cs) @ ps)"
    using assms unfolding cp_writing_def by blast
  define c where "c = enc_blocks crc32 65536 0 bs @ cp_buf cp"
  have "int (length (cp_buf cp)) = 65536 * int (length cs)"
    unfolding r(4) by (rule length_enc_blocks) (use r(6) in auto)
  then have size: "int (length (cp_buf cp)) mod 65536 = 0" by simp
  obtain f where f: "File_Write (cp_buf cp) (int (length (cp_buf cp))) (cp_file cp) w = Some (int (length (cp_buf cp)), [], f, put_file path c w)"
     "at_end f path c (put_file path c w)"
    using File_Write_end[OF r(5) assms(2), of "length (cp_buf cp)" "cp_buf cp"] by (auto simp: c_def)
  have "File_Write (cp_buf cp) (-1) (cp_file cp) w = File_Write (cp_buf cp) (int (length (cp_buf cp))) (cp_file cp) w"
    by (simp add: File_Write_def)
  then have "cp_WriteBuffer cp w = Some (True, cp\<lparr>cp_file := f, cp_buf := []\<rparr>, put_file path c w)"
    using f(1) size by (simp add: cp_WriteBuffer_def)
  moreover have "cp_writing crc32 path xs (cp\<lparr>cp_file := f, cp_buf := []\<rparr>) (put_file path c w)"
    unfolding cp_writing_def
    by (rule exI[of _ "bs @ cs"], rule exI[of _ "[]"], rule exI[of _ ps], rule exI[of _ r])
      (use r f(2) in \<open>simp add: enc_blocks_append c_def\<close>)
  ultimately show ?thesis by blast
qed


lemma AddRecord_holds:
  assumes "cp_writing crc32 path xs cp w" "results w = []" "name \<notin> set (cp_names cp)"
  shows "\<exists>cp' c. AddRecord crc32 deflate name val cp w = Some (True, cp', put_file path c w)
     \<and> cp_writing crc32 path (xs @ [name, val]) cp' (put_file path c w)
     \<and> checkpoint_dir cp' = checkpoint_dir cp \<and> cp_file_base cp' = cp_file_base cp \<and> cp_names cp' = name # cp_names cp"
proof -
  have op: "is_open (cp_file cp)" using assms(1) by (auto simp: cp_writing_def at_end_def is_open_def)
  have "cp_writing crc32 path xs (cp\<lparr>cp_names := name # cp_names cp\<rparr>) w" using assms(1) by (simp add: cp_writing_def)
  from cp_append_holds[OF this, of deflate name] obtain b1 cp1 where 1:
     "cp_append crc32 deflate name (cp\<lparr>cp_names := name # cp_names cp\<rparr>) = Some (b1, cp1)" "cp_writing crc32 path (xs @ [name]) cp1 w"
     "checkpoint_dir cp1 = checkpoint_dir cp" "cp_file_base cp1 = cp_file_base cp" "cp_names cp1 = name # cp_names cp"
    by auto
  from cp_append_holds[OF 1(2), of deflate val] obtain b2 cp2 where 2:
     "cp_append crc32 deflate val cp1 = Some (b2, cp2)" "cp_writing crc32 path (xs @ [name, val]) cp2 w"
     "checkpoint_dir cp2 = checkpoint_dir cp" "cp_file_base cp2 = cp_file_base cp" "cp_names cp2 = name # cp_names cp"
    using 1(3-5) by auto
  have step: "AddRecord crc32 deflate name val cp w = (if b1 \<or> b2 then cp_WriteBuffer cp2 w else Some (True, cp2, w))"
    using op assms(3) 1(1) 2(1) by (simp add: AddRecord_def)
  show ?thesis
  proof (cases "b1 \<or> b2")
    case True
    from cp_WriteBuffer_holds[OF 2(2) assms(2)] obtain f c where
       "cp_WriteBuffer cp2 w = Some (True, cp2\<lparr>cp_file := f, cp_buf := []\<rparr>, put_file path c w)"
       "cp_writing crc32 path (xs @ [name, val]) (cp2\<lparr>cp_file := f, cp_buf := []\<rparr>) (put_file path c w)"
      by blast
    then show ?thesis using step True 2(3-5) by (intro exI[of _ "cp2\<lparr>cp_file := f, cp_buf := []\<rparr>"] exI[of _ c]) simp
  next
    case False
    obtain c where "map_of (disk w) path = Some c" using 2(2) by (auto simp: cp_writing_def at_end_def)
    then have "put_file path c w = w" by (rule put_file_same)
    then show ?thesis using step False 2(2-5) by (intro exI[of _ cp2] exI[of _ c]) simp
  qed
qed

lemma add_records_holds:
  assumes "cp_writing crc32 path xs cp w" "results w = []" "distinct (map fst m)" "fst ` set m \<inter> set (cp_names cp) = {}"
  shows "\<exists>cp' c. add_records crc32 deflate m cp w = Some (True, cp', put_file path c w)
     \<and> cp_writing crc32 path (xs @ concat (map (\<lambda>(k, v). [k, v]) m)) cp' (put_file path c w)
     \<and> checkpoint_dir cp' = checkpoint_dir cp \<and> cp_file_base cp' = cp_file_base cp"
  using assms
proof (induction m arbitrary: xs cp w)
  case Nil
  obtain c where "map_of (disk w) path = Some c" using Nil(1) by (auto simp: cp_writing_def at_end_def)
  then have "put_file path c w = w" by (rule put_file_same)
  then show ?case using Nil(1) by (intro exI[of _ cp] exI[of _ c]) simp
next
  case (Cons e m)
  obtain name val where e: "e = (name, val)" by (cases e)
  have "name \<notin> set (cp_names cp)" using Cons.prems(4) e by auto
  from AddRecord_holds[OF Cons.prems(1,2) this] obtain cp1 c where a:
     "AddRecord crc32 deflate name val cp w = Some (True, cp1, put_file path c w)"
     "cp_writing crc32 path (xs @ [name, val]) cp1 (put_file path c w)"
     "checkpoint_dir cp1 = checkpoint_dir cp" "cp_file_base cp1 = cp_file_base cp" "cp_names cp1 = name # cp_names cp"
    by blast
  have d: "distinct (map fst m)" "fst ` set m \<inter> set (cp_names cp1) = {}" using Cons.prems(3,4) a(5) e by auto
  have r: "results (put_file path c w) = []" using Cons.prems(2) by simp
  from Cons.IH[OF a(2) r d] obtain cp2 c2 where b:
     "add_records crc32 deflate m cp1 (put_file path c w) = Some (True, cp2, put_file path c2 (put_file path c w))"
     "cp_writing crc32 path ((xs @ [name, val]) @ concat (map (\<lambda>(k, v). [k, v]) m)) cp2 (put_file path c2 (put_file path c w))"
     "checkpoint_dir cp2 = checkpoint_dir cp1" "cp_file_base cp2 = cp_file_base cp1"
    by blast
  have "add_records crc32 deflate (e # m) cp w = Some (True, cp2, put_file path c2 w)" using a(1) b(1) e by simp
  moreover have "cp_writing crc32 path (xs @ concat (map (\<lambda>(k, v). [k, v]) (e # m))) cp2 (put_file path c2 w)"
    using b(2) e by simp
  ultimately show ?case using a(3,4) b(3,4) by auto
qed

text \<open>The content of a file of records, and the records of a map.\<close>

definition record_file_of :: "(bytes \<Rightarrow> 32 word) \<Rightarrow> bytes list \<Rightarrow> linked_block list \<Rightarrow> bool" where
  "record_file_of crc32 xs qbs \<longleftrightarrow> linked crc32 65536 0 qbs \<and> encode_records xs (concat (map snd qbs))"

definition checkpoint_records :: "state_map \<Rightarrow> bytes list" where
  "checkpoint_records m = kCheckpointBegin # concat (map (\<lambda>(k, v). [k, v]) m) @ [kCheckpointEnd]"

lemma BeginCheckpoint_holds:
  assumes "good_names dir base" "cp_files dir base lo n w" "n < 2 ^ 31 - 1"
  shows "\<exists>cp. BeginCheckpoint crc32 deflate (CheckpointWriter_new dir base) w = Some (int n, cp, put_file (cp_path dir base n) [] w)
     \<and> cp_writing crc32 (cp_path dir base n) [kCheckpointBegin] cp (put_file (cp_path dir base n) [] w)
     \<and> checkpoint_dir cp = dir \<and> cp_file_base cp = base \<and> cp_names cp = []"
proof -
  let ?p = "cp_path dir base n"
  define f where "f = File_new\<lparr>filename := ?p, fd := Some 0, file_size := 0, file_position := 0\<rparr>"
  have "n < 10 ^ 10" using assms(3) by simp
  then have "map_of (disk w) ?p \<noteq> None \<longleftrightarrow> lo \<le> n \<and> n < n" "results w = []" using assms(2) unfolding cp_files_def by blast+
  then have none: "map_of (disk w) ?p = None" "results w = []" by simp_all
  have op: "File_Open ?p CREATE_ALWAYS File_new w = Some (True, f, put_file ?p [] w)"
    using none by (simp add: File_Open_def is_open_def File_new_def sys_open_def creation_flags_def UpdatePosition_def
        UpdateSize_def f_def)
  define r where "r = the (RecordWriter_new (int 65536) False kCheckpointDumpableSize)"
  have r: "RecordWriter_new (int 65536) False kCheckpointDumpableSize = Some r"
     "writer_holds False 65536 kCheckpointDumpableSize r 0 []"
    by (simp_all add: r_def RecordWriter_new_def kMaximumRecordBlockSize_def writer_holds_def fits_def)
  define cp where "cp = (CheckpointWriter_new dir base)\<lparr>cp_file := f, cp_recorder := Some r\<rparr>"
  have "cp_writing crc32 ?p [] cp (put_file ?p [] w)"
    unfolding cp_writing_def
    by (rule exI[of _ "[]"], rule exI[of _ "[]"], rule exI[of _ "[]"], rule exI[of _ r])
      (use r(2) in \<open>simp add: cp_def CheckpointWriter_new_def kCheckpointDumpableSize_def at_end_def f_def map_of_put_file\<close>)
  from cp_append_holds[OF this, of deflate kCheckpointBegin] obtain b cp1 where a:
     "cp_append crc32 deflate kCheckpointBegin cp = Some (b, cp1)"
     "cp_writing crc32 ?p [kCheckpointBegin] cp1 (put_file ?p [] w)"
     "checkpoint_dir cp1 = dir" "cp_file_base cp1 = base" "cp_names cp1 = []"
    by (auto simp: cp_def CheckpointWriter_new_def)
  have "BeginCheckpoint crc32 deflate (CheckpointWriter_new dir base) w = Some (int n, cp1, put_file ?p [] w)"
    using a(1) op r(1) last_checkpoint_number[OF assms(1,2)] cp_file_name_path(2)[OF assms(1) refl, of n]
    by (simp add: BeginCheckpoint_def CheckpointWriter_new_def is_open_def File_new_def cp_def)
  then show ?thesis using a(2-5) by blast
qed

lemma EndCheckpoint_holds:
  assumes "cp_writing crc32 path xs cp w" "results w = []" "checkpoint_dir cp = dir" "cp_file_base cp = base"
  shows "\<exists>qbs. EndCheckpoint crc32 deflate cp w
       = Some (True, CheckpointWriter_new dir base, put_file path (log_bytes crc32 65536 qbs) w)
     \<and> record_file_of crc32 (xs @ [kCheckpointEnd]) qbs"
proof -
  from cp_append_holds[OF assms(1), of deflate kCheckpointEnd] obtain b cp1 where a:
     "cp_append crc32 deflate kCheckpointEnd cp = Some (b, cp1)" "cp_writing crc32 path (xs @ [kCheckpointEnd]) cp1 w"
     "checkpoint_dir cp1 = dir" "cp_file_base cp1 = base" "cp_file cp1 = cp_file cp"
    using assms(3,4) by auto
  obtain bs cs ps r where r: "cp_recorder cp1 = Some r"
     "writer_holds False 65536 kCheckpointDumpableSize r (last_crc crc32 65536 0 (bs @ cs)) ps"
     "int (length (enc_pieces ps)) \<le> kCheckpointDumpableSize" "cp_buf cp1 = enc_blocks crc32 65536 (last_crc crc32 65536 0 bs) cs"
     "at_end (cp_file cp1) path (enc_blocks crc32 65536 0 bs) w" "\<forall>b \<in> set (bs @ cs). b \<noteq> [] \<and> fits 65536 b"
     "encode_records (xs @ [kCheckpointEnd]) (concat (bs @ cs) @ ps)"
    using a(2) unfolding cp_writing_def by blast
  define ds where "ds = (if ps = [] then [] else [ps])"
  have "\<exists>r1. FinalizeContent crc32 r = Some (enc_blocks crc32 65536 (last_crc crc32 65536 0 (bs @ cs)) ds, r1)
      \<and> writer_holds False 65536 kCheckpointDumpableSize r1 (last_crc crc32 65536 (last_crc crc32 65536 0 (bs @ cs)) ds) []"
  proof (cases "ps = []")
    case True
    then show ?thesis using r(2) by (simp add: ds_def FinalizeContent_def writer_holds_def)
  next
    case False
    then show ?thesis using FinalizeContent_holds[OF r(2) False, of crc32] by (simp add: ds_def)
  qed
  then obtain r1 where r1: "FinalizeContent crc32 r = Some (enc_blocks crc32 65536 (last_crc crc32 65536 0 (bs @ cs)) ds, r1)"
     "writer_holds False 65536 kCheckpointDumpableSize r1 (last_crc crc32 65536 (last_crc crc32 65536 0 (bs @ cs)) ds) []" by blast
  define cp2 where "cp2 = cp1\<lparr>cp_buf := cp_buf cp1 @ enc_blocks crc32 65536 (last_crc crc32 65536 0 (bs @ cs)) ds, cp_recorder := Some r1\<rparr>"
  have fits: "\<forall>b \<in> set (bs @ cs @ ds). b \<noteq> [] \<and> fits 65536 b"
    using r(2,6) by (auto simp: ds_def writer_holds_def)
  have cat: "concat (bs @ cs @ ds) = concat (bs @ cs) @ ps" by (simp add: ds_def)
  have int: "int (length (cp_buf cp2)) = 65536 * int (length (cs @ ds))"
  proof -
    have "cp_buf cp2 = enc_blocks crc32 65536 (last_crc crc32 65536 0 bs) (cs @ ds)"
      by (simp add: cp2_def r(4) enc_blocks_append)
    then show ?thesis using length_enc_blocks[of "cs @ ds" 65536] fits by simp
  qed
  define c where "c = enc_blocks crc32 65536 0 (bs @ cs @ ds)"
  have c: "enc_blocks crc32 65536 0 bs @ cp_buf cp2 = c" by (simp add: c_def cp2_def r(4) enc_blocks_append)
  obtain f where f: "File_Write (cp_buf cp2) (int (length (cp_buf cp2))) (cp_file cp2) w
      = Some (int (length (cp_buf cp2)), [], f, put_file path c w)" "at_end f path c (put_file path c w)"
    using File_Write_end[of "cp_file cp2", OF _ assms(2), of path _ "length (cp_buf cp2)" "cp_buf cp2"] r(5) c
    by (auto simp: cp2_def)
  have "File_Write (cp_buf cp2) (-1) (cp_file cp2) w = File_Write (cp_buf cp2) (int (length (cp_buf cp2))) (cp_file cp2) w"
    by (simp add: File_Write_def)
  moreover have "int (length (cp_buf cp2)) mod 65536 = 0" using int by simp
  ultimately have wb: "cp_WriteBuffer cp2 w = Some (True, cp2\<lparr>cp_file := f, cp_buf := []\<rparr>, put_file path c w)"
    using f(1) by (simp add: cp_WriteBuffer_def)
  have clr: "ClearCheckpoint (cp2\<lparr>cp_file := f, cp_buf := []\<rparr>) = Some (CheckpointWriter_new dir base)"
    using r1(2) a(3,4) f(2)
    by (simp add: ClearCheckpoint_def cp2_def leftover_def writer_holds_def CheckpointWriter_new_def File_Close_def is_open_def
        at_end_def)
  have op: "is_open (cp_file cp)" using r(5) a(5) by (auto simp: at_end_def is_open_def)
  have "EndCheckpoint crc32 deflate cp w = Some (True, CheckpointWriter_new dir base, put_file path c w)"
    using op a(1) r(1) r1(1) wb clr by (simp add: EndCheckpoint_def cp2_def)
  moreover define qbs where "qbs = link_blocks crc32 65536 0 (bs @ cs @ ds)"
  moreover have "log_bytes crc32 65536 qbs = c" by (simp add: qbs_def c_def link_blocks_facts)
  moreover have "linked crc32 65536 0 qbs" unfolding qbs_def by (rule linked_link_blocks) (use fits in auto)
  moreover have "encode_records (xs @ [kCheckpointEnd]) (concat (map snd qbs))"
    using r(7) cat by (simp add: qbs_def link_blocks_facts)
  ultimately show ?thesis unfolding record_file_of_def by metis
qed


section \<open>Reading\<close>

text \<open>What the records do to the variables of the reader, apart from its \<open>RecordReader\<close>.\<close>

fun take_records :: "bytes list \<Rightarrow> cp_reading \<Rightarrow> cp_reading option" where
  "take_records [] st = Some st"
| "take_records (x # xs) st = Option.bind (take_record x st) (take_records xs)"

lemma take_records_append: "take_records (xs @ ys) st = Option.bind (take_records xs st) (take_records ys)"
  by (induction xs arbitrary: st) (auto split: Option.bind_splits)

lemma take_record_reader: "take_record x (st\<lparr>cp_reader := r\<rparr>) = map_option (\<lambda>s. s\<lparr>cp_reader := r\<rparr>) (take_record x st)"
  by (simp add: take_record_def)

text \<open>The records \<open>xs\<close> are to come, from the pieces \<open>ps\<close>; of the first one the reader has \<open>acc\<close>.\<close>

definition pending :: "bytes \<Rightarrow> bytes list \<Rightarrow> piece list \<Rightarrow> bool" where
  "pending acc xs ps \<longleftrightarrow> xs = [] \<and> acc = [] \<and> ps = []
     \<or> (\<exists>x zs fr qs. xs = (acc @ x) # zs \<and> fragments (acc = []) x fr \<and> encode_records zs qs \<and> ps = fr @ qs)"

lemma pending_start: "encode_records xs ps \<Longrightarrow> pending [] xs ps"
  by (cases xs) (auto simp: pending_def encode_records_Cons)

lemma extract_records_content:
  assumes "pending acc xs (ps @ rest)" "content_holds B acc ps r" "take_records xs st \<noteq> None"
  shows "\<exists>ys zs acc' st' r'. xs = ys @ zs \<and> take_records ys st = Some st'
     \<and> extract_records crc32 inflate [] (st\<lparr>cp_reader := r\<rparr>) = Some (True, st'\<lparr>cp_reader := r'\<rparr>)
     \<and> content_holds B acc' [] r' \<and> rr_prev_block_crc r' = rr_prev_block_crc r \<and> pending acc' zs rest"
  using assms
proof (induction xs arbitrary: acc ps r st)
  case Nil
  then have "acc = []" "ps = []" "rest = []" by (simp_all add: pending_def)
  then show ?case
    using Nil ReadRecord_no_data[of B "[]" r crc32 inflate True]
    by (intro exI[of _ "[]"] exI[of _ st] exI[of _ r]) (simp add: extract_records.simps)
next
  case (Cons y ys)
  obtain x fr qs where x: "y = acc @ x" "fragments (acc = []) x fr" "encode_records ys qs" "ps @ rest = fr @ qs"
    using Cons.prems(1) by (auto simp: pending_def)
  consider (inside) us where "ps = fr @ us" "qs = us @ rest" | (beyond) u where "fr = ps @ u" "u \<noteq> []" "rest = u @ qs"
    using x(4) by (auto simp: append_eq_append_conv2) (metis append_Nil append_Nil2)
  then show ?case
  proof cases
    case inside
    obtain st1 where st1: "take_record y st = Some st1" "take_records ys st1 \<noteq> None"
      using Cons.prems(3) by (auto split: Option.bind_splits)
    have "content_holds B acc (fr @ us) r" using Cons.prems(2) inside(1) by simp
    from ReadRecord_inside[where ?crc32.0 = crc32 and inflate = inflate and wanted = True and s = "[]", OF this x(2) refl]
    obtain r1 where r1: "ReadRecord crc32 inflate True [] r = Some ((RECORD_OK, y), [], r1)" "content_holds B [] us r1"
       "rr_prev_block_crc r1 = rr_prev_block_crc r"
      using x(1) by auto
    have "pending [] ys (us @ rest)" using pending_start x(3) inside(2) by simp
    from Cons.IH[OF this r1(2) st1(2)] obtain as bs acc' st' r' where i: "ys = as @ bs" "take_records as st1 = Some st'"
       "extract_records crc32 inflate [] (st1\<lparr>cp_reader := r1\<rparr>) = Some (True, st'\<lparr>cp_reader := r'\<rparr>)"
       "content_holds B acc' [] r'" "rr_prev_block_crc r' = rr_prev_block_crc r1" "pending acc' bs rest" by blast
    have "extract_records crc32 inflate [] (st\<lparr>cp_reader := r\<rparr>) = extract_records crc32 inflate [] (st1\<lparr>cp_reader := r1\<rparr>)"
      using r1(1) st1(1) by (simp add: extract_records.simps[of _ _ _ "st\<lparr>cp_reader := r\<rparr>"] take_record_reader)
    then show ?thesis
      using i r1(3) st1(1) by (intro exI[of _ "y # as"] exI[of _ bs] exI[of _ acc'] exI[of _ st'] exI[of _ r']) simp
  next
    case beyond
    have fr: "fragments (acc = []) x (ps @ u)" using x(2) beyond(1) by simp
    obtain r1 x1 x2 where r1: "x = x1 @ x2" "ReadRecord crc32 inflate True [] r = Some ((RECORD_NO_DATA, []), [], r1)"
       "content_holds B (acc @ x1) [] r1" "rr_prev_block_crc r1 = rr_prev_block_crc r" "fragments (acc @ x1 = []) x2 u"
      using ReadRecord_runs_out[where wanted = True, OF Cons.prems(2) fr beyond(2) refl] by blast
    have "pending (acc @ x1) (y # ys) rest"
      using r1(1,5) x(1,3) beyond(3) unfolding pending_def by (intro disjI2 exI[of _ x2] exI[of _ ys] exI[of _ u] exI[of _ qs]) simp
    then show ?thesis
      using r1(2-4)
      by (intro exI[of _ "[]"] exI[of _ "y # ys"] exI[of _ "acc @ x1"] exI[of _ st] exI[of _ r1]) (simp add: extract_records.simps)
  qed
qed

lemma extract_records_block:
  assumes "pending acc xs (snd qb @ rest)" "content_holds B acc [] r" "take_records xs st \<noteq> None"
    and "fits (int B) (snd qb)" "snd qb \<noteq> []" "fst qb = 0 \<or> rr_prev_block_crc r = 0 \<or> fst qb = rr_prev_block_crc r"
  shows "\<exists>ys zs acc' st' r'. xs = ys @ zs \<and> take_records ys st = Some st'
     \<and> extract_records crc32 inflate (sealed crc32 B qb) (st\<lparr>cp_reader := r\<rparr>) = Some (True, st'\<lparr>cp_reader := r'\<rparr>)
     \<and> content_holds B acc' [] r' \<and> rr_prev_block_crc r' = crc32 (block_content (int B) (fst qb) (snd qb)) \<and> pending acc' zs rest"
proof -
  obtain r1 where r1: "ReadRecord crc32 inflate True (sealed crc32 B qb) r = ReadRecord crc32 inflate True [] r1"
     "content_holds B acc (snd qb) r1" "rr_prev_block_crc r1 = crc32 (block_content (int B) (fst qb) (snd qb))"
    using ReadRecord_block[where wanted = True, OF assms(2,4-6)] by blast
  have "extract_records crc32 inflate (sealed crc32 B qb) (st\<lparr>cp_reader := r\<rparr>)
      = extract_records crc32 inflate [] (st\<lparr>cp_reader := r1\<rparr>)"
    using r1(1) by (simp add: extract_records.simps cong: option.case_cong)
  then show ?thesis using extract_records_content[OF assms(1) r1(2) assms(3), of crc32 inflate] r1(3) by simp
qed

text \<open>
  The loop over the blocks of a file that may end before the last one, or inside one: its result
  is what the records up to there make.
\<close>

lemma read_checkpoint_blocks:
  assumes "reads_at f path (65536 * length done_qbs) w" "results w = []" "file_content path w = log_bytes crc32 65536 (done_qbs @ qbs) @ part"
    and "length part < 65536" "linked crc32 65536 0 (done_qbs @ qbs @ more_qbs)" "pending acc xs (concat (map snd (qbs @ more_qbs)))" "content_holds 65536 acc [] r"
    and "rr_prev_block_crc r = end_crc crc32 65536 0 done_qbs" "take_records xs st \<noteq> None"
  shows "\<exists>ys zs acc' st'. xs = ys @ zs \<and> take_records ys st = Some st' \<and> pending acc' zs (concat (map snd more_qbs))
     \<and> read_checkpoint_loop crc32 inflate f (st\<lparr>cp_reader := r\<rparr>) w
        = Some (part = [] \<and> cp_name st' = kCheckpointEnd, cp_map st', w)"
  using assms
proof (induction qbs arbitrary: f done_qbs acc xs r st)
  case Nil
  have "length (log_bytes crc32 65536 done_qbs) = 65536 * length done_qbs"
    using Nil.prems(5) length_log_bytes[of crc32 65536 0 done_qbs] by simp
  then have "take 65536 (drop (65536 * length done_qbs) (file_content path w)) = part" using Nil.prems(3,4) by simp
  then obtain f1 where "File_Read (int 65536) f w = Some (int (length part), part, f1, w)"
    using File_Read_at[OF Nil.prems(1,2), of 65536] by auto
  then have "read_checkpoint_loop crc32 inflate f (st\<lparr>cp_reader := r\<rparr>) w
      = Some (part = [] \<and> cp_name st = kCheckpointEnd, cp_map st, w)"
    using Nil.prems(4) by (simp add: read_checkpoint_loop.simps)
  then show ?case using Nil.prems(6) by (intro exI[of _ "[]"] exI[of _ xs] exI[of _ acc] exI[of _ st]) simp
next
  case (Cons qb qbs)
  have l: "linked crc32 65536 0 done_qbs" "snd qb \<noteq> []" "fits (int 65536) (snd qb)"
     "fst qb = 0 \<or> fst qb = end_crc crc32 65536 0 done_qbs"
    using Cons.prems(5) by auto
  have blk: "take 65536 (drop (65536 * length done_qbs) (file_content path w)) = sealed crc32 65536 qb"
    using Cons.prems(3) length_log_bytes[OF l(1)] length_sealed[OF l(3), of crc32] by simp
  obtain f1 where f1: "File_Read (int 65536) f w = Some (int 65536, sealed crc32 65536 qb, f1, w)"
     "reads_at f1 path (65536 * length done_qbs + 65536) w"
    using File_Read_at[OF Cons.prems(1,2), of 65536] length_sealed[OF l(3), of crc32] unfolding blk by auto
  have crc: "fst qb = 0 \<or> rr_prev_block_crc r = 0 \<or> fst qb = rr_prev_block_crc r" using l(4) Cons.prems(8) by auto
  have p: "pending acc xs (snd qb @ concat (map snd (qbs @ more_qbs)))" using Cons.prems(6) by simp
  from extract_records_block[OF p Cons.prems(7,9) l(3,2) crc] obtain ys zs acc1 st1 r1 where e: "xs = ys @ zs"
     "take_records ys st = Some st1"
     "extract_records crc32 inflate (sealed crc32 65536 qb) (st\<lparr>cp_reader := r\<rparr>) = Some (True, st1\<lparr>cp_reader := r1\<rparr>)"
     "content_holds 65536 acc1 [] r1" "rr_prev_block_crc r1 = crc32 (block_content (int 65536) (fst qb) (snd qb))"
     "pending acc1 zs (concat (map snd (qbs @ more_qbs)))"
    by blast
  have step: "read_checkpoint_loop crc32 inflate f (st\<lparr>cp_reader := r\<rparr>) w
      = read_checkpoint_loop crc32 inflate f1 (st1\<lparr>cp_reader := r1\<rparr>) w"
    using f1(1) e(3) by (simp add: read_checkpoint_loop.simps[of _ _ f])
  have "take_records zs st1 \<noteq> None" using Cons.prems(9) e(1,2) by (simp add: take_records_append)
  moreover have "reads_at f1 path (65536 * length (done_qbs @ [qb])) w" using f1(2) by (simp add: add.commute)
  moreover have "file_content path w = log_bytes crc32 65536 ((done_qbs @ [qb]) @ qbs) @ part"
    "linked crc32 65536 0 ((done_qbs @ [qb]) @ qbs @ more_qbs)" "rr_prev_block_crc r1 = end_crc crc32 65536 0 (done_qbs @ [qb])"
    using Cons.prems(3,5) e(5) by auto
  ultimately obtain ys2 zs2 acc2 st2 where
     "zs = ys2 @ zs2" "take_records ys2 st1 = Some st2" "pending acc2 zs2 (concat (map snd more_qbs))"
     "read_checkpoint_loop crc32 inflate f1 (st1\<lparr>cp_reader := r1\<rparr>) w
        = Some (part = [] \<and> cp_name st2 = kCheckpointEnd, cp_map st2, w)"
    using Cons.IH[OF _ Cons.prems(2) _ Cons.prems(4) _ e(6,4)] by metis
  then show ?case
    using e(1,2) step
    by (intro exI[of _ "ys @ ys2"] exI[of _ zs2] exI[of _ acc2] exI[of _ st2]) (simp add: take_records_append)
qed


section \<open>Whole files and files cut short\<close>

definition put_new :: "bytes \<times> bytes \<Rightarrow> state_map \<Rightarrow> state_map" where
  "put_new e m = (if map_find (fst e) m = None then map_insert (fst e) (snd e) m else m)"

lemma take_pair:
  assumes "\<not> first_record st" "reading_name st"
  shows "take_records (k # v # xs) st = take_records xs (st\<lparr>cp_name := k, cp_map := put_new (k, v) (cp_map st)\<rparr>)"
  using assms by (cases st) (simp add: take_record_def put_new_def)

lemma take_records_pairs:
  assumes "\<not> first_record st" "reading_name st"
  shows "\<exists>n. take_records (concat (map (\<lambda>(k, v). [k, v]) m)) st = Some (st\<lparr>cp_name := n, cp_map := fold put_new m (cp_map st)\<rparr>)"
  using assms
proof (induction m arbitrary: st)
  case Nil
  then show ?case by (intro exI[of _ "cp_name st"]) simp
next
  case (Cons e m)
  obtain k v where e: "e = (k, v)" by (cases e)
  define st1 where "st1 = st\<lparr>cp_name := k, cp_map := put_new e (cp_map st)\<rparr>"
  have "take_records (concat (map (\<lambda>(k, v). [k, v]) (e # m))) st = take_records (concat (map (\<lambda>(k, v). [k, v]) m)) st1"
    using Cons.prems by (simp add: e take_pair st1_def del: take_records.simps)
  moreover obtain n where "take_records (concat (map (\<lambda>(k, v). [k, v]) m)) st1
      = Some (st1\<lparr>cp_name := n, cp_map := fold put_new m (cp_map st1)\<rparr>)"
    using Cons.IH[of st1] Cons.prems by (auto simp: st1_def)
  ultimately show ?case by (intro exI[of _ n]) (simp add: st1_def)
qed

lemma take_checkpoint_records:
  "\<exists>st. take_records (checkpoint_records m) cp_reading_new = Some st \<and> cp_name st = kCheckpointEnd \<and> cp_map st = fold put_new m []"
proof -
  let ?st = "cp_reading_new\<lparr>first_record := False\<rparr>"
  obtain n where "take_records (concat (map (\<lambda>(k, v). [k, v]) m)) ?st
      = Some (?st\<lparr>cp_name := n, cp_map := fold put_new m (cp_map ?st)\<rparr>)"
    using take_records_pairs[of ?st m] by (auto simp: cp_reading_new_def)
  then show ?thesis
    by (simp add: checkpoint_records_def take_records_append take_record_def cp_reading_new_def)
qed

text \<open>Until the last record has come, the last name is none or a key of the map.\<close>

lemma take_some_pairs:
  "concat (map (\<lambda>(k, v). [k, v]) m) = ys @ zs \<Longrightarrow> \<not> first_record st \<Longrightarrow> reading_name st \<Longrightarrow>
     take_records ys st = Some st' \<Longrightarrow> cp_name st' \<in> insert (cp_name st) (fst ` set m)"
proof (induction m arbitrary: ys st)
  case (Cons e m)
  obtain k v where e: "e = (k, v)" by (cases e)
  consider "ys = []" | "ys = [k]" | us where "ys = k # v # us" "concat (map (\<lambda>(k, v). [k, v]) m) = us @ zs"
    using Cons.prems(1) by (auto simp: e Cons_eq_append_conv)
  then show ?case
  proof cases
    case 3
    let ?st = "st\<lparr>cp_name := k, cp_map := put_new e (cp_map st)\<rparr>"
    have "take_records us ?st = Some st'"
      using Cons.prems(2-4) 3(1) by (simp add: take_pair e del: take_records.simps)
    from Cons.IH[OF 3(2) _ _ this] have "cp_name st' \<in> insert k (fst ` set m)" using Cons.prems(2,3) by simp
    then show ?thesis by (auto simp: e)
  qed (use Cons.prems in \<open>auto simp: take_record_def e\<close>)
qed auto

lemma take_some_records:
  assumes "checkpoint_records m = ys @ zs" "zs \<noteq> []" "take_records ys cp_reading_new = Some st" "kCheckpointEnd \<notin> fst ` set m"
  shows "cp_name st \<noteq> kCheckpointEnd"
proof -
  have ne: "kCheckpointEnd \<noteq> []" by (simp add: kCheckpointEnd_def bytes_of_def)
  show ?thesis
  proof (cases ys)
    case Nil
    then show ?thesis using assms(3) ne by (auto simp: cp_reading_new_def)
  next
    case (Cons y us)
    obtain zs' where zs: "zs = zs' @ [kCheckpointEnd]" "concat (map (\<lambda>(k, v). [k, v]) m) = us @ zs'"
      using assms(1,2) Cons by (cases zs rule: rev_cases) (auto simp: checkpoint_records_def)
    have "y = kCheckpointBegin" using assms(1) Cons by (simp add: checkpoint_records_def)
    then have "take_records us (cp_reading_new\<lparr>first_record := False\<rparr>) = Some st"
      using assms(3) Cons by (simp add: take_record_def cp_reading_new_def)
    from take_some_pairs[OF zs(2) _ _ this] have "cp_name st \<in> insert [] (fst ` set m)" by (simp add: cp_reading_new_def)
    then show ?thesis using assms(4) ne by (metis insert_iff)
  qed
qed

lemma read_checkpoint_prefix:
  assumes "record_file_of crc32 (checkpoint_records m) (qbs @ more_qbs)" "results w = []"
    and "map_of (disk w) path = Some (log_bytes crc32 65536 qbs @ part)" "length part < 65536"
  shows "\<exists>ys zs acc st. checkpoint_records m = ys @ zs \<and> take_records ys cp_reading_new = Some st
     \<and> pending acc zs (concat (map snd more_qbs))
     \<and> ReadCheckpointFile crc32 inflate path m0 w = Some (part = [] \<and> cp_name st = kCheckpointEnd, cp_map st, w)"
proof -
  let ?c = "log_bytes crc32 65536 qbs @ part"
  define f where "f = File_new\<lparr>filename := path, fd := Some 0, file_size := int (length ?c), file_position := 0\<rparr>"
  have f: "reads_at f path (65536 * length ([] :: linked_block list)) w" "file_content path w = log_bytes crc32 65536 ([] @ qbs) @ part"
    using assms(3) by (simp_all add: reads_at_def f_def file_content_def)
  have op: "File_Open path OPEN_EXISTING File_new w = Some (True, f, w)"
    using assms(2,3) by (simp add: File_Open_def is_open_def File_new_def sys_open_def creation_flags_def UpdatePosition_def
        UpdateSize_def file_content_def f_def)
  have r: "content_holds 65536 [] [] (RecordReader_new (int 65536))" by (rule new_reader_content) simp_all
  have p: "pending [] (checkpoint_records m) (concat (map snd (qbs @ more_qbs)))"
    using assms(1) by (intro pending_start) (simp add: record_file_of_def)
  have "take_records (checkpoint_records m) cp_reading_new \<noteq> None" using take_checkpoint_records[of m] by auto
  from read_checkpoint_blocks[OF f(1) assms(2) f(2) assms(4) _ p r _ this, of inflate] assms(1)
  have "\<exists>ys zs acc st. checkpoint_records m = ys @ zs \<and> take_records ys cp_reading_new = Some st
     \<and> pending acc zs (concat (map snd more_qbs))
     \<and> read_checkpoint_loop crc32 inflate f (cp_reading_new\<lparr>cp_reader := RecordReader_new (int 65536)\<rparr>) w
        = Some (part = [] \<and> cp_name st = kCheckpointEnd, cp_map st, w)"
    by (simp add: record_file_of_def RecordReader_new_def)
  moreover have "cp_reading_new\<lparr>cp_reader := RecordReader_new (int 65536)\<rparr> = cp_reading_new" by (simp add: cp_reading_new_def)
  ultimately show ?thesis using op by (simp add: ReadCheckpointFile_def)
qed

lemma ReadCheckpointFile_whole:
  assumes "record_file_of crc32 (checkpoint_records m) qbs" "results w = []" "map_of (disk w) path = Some (log_bytes crc32 65536 qbs)"
  shows "ReadCheckpointFile crc32 inflate path m0 w = Some (True, fold put_new m [], w)"
proof -
  have "record_file_of crc32 (checkpoint_records m) (qbs @ [])" "map_of (disk w) path = Some (log_bytes crc32 65536 qbs @ [])"
    using assms(1,3) by simp_all
  from read_checkpoint_prefix[where inflate = inflate and ?m0.0 = m0, OF this(1) assms(2) this(2)] obtain ys zs acc st where s: "checkpoint_records m = ys @ zs"
     "take_records ys cp_reading_new = Some st" "pending acc zs []"
     "ReadCheckpointFile crc32 inflate path m0 w = Some (cp_name st = kCheckpointEnd, cp_map st, w)" by auto
  have "fr \<noteq> []" if "fragments b x fr" for b x fr using that by (cases fr) auto
  then have "zs = []" using s(3) by (auto simp: pending_def)
  then have "ys = checkpoint_records m" using s(1) by simp
  then have "cp_name st = kCheckpointEnd" "cp_map st = fold put_new m []" using take_checkpoint_records[of m] s(2) by auto
  then show ?thesis using s(4) by simp
qed

lemma ReadCheckpointFile_cut:
  assumes "record_file_of crc32 (checkpoint_records m) qbs" "results w = []" "kCheckpointEnd \<notin> fst ` set m"
    and "map_of (disk w) path = Some (take n (log_bytes crc32 65536 qbs))" "n < length (log_bytes crc32 65536 qbs)"
  shows "\<exists>m1. ReadCheckpointFile crc32 inflate path m0 w = Some (False, m1, w)"
proof -
  let ?j = "n div 65536"
  have l: "linked crc32 65536 0 qbs" using assms(1) by (simp add: record_file_of_def)
  then have "linked crc32 65536 0 (take ?j qbs @ drop ?j qbs)" by simp
  then have split: "linked crc32 65536 0 (take ?j qbs)" "linked crc32 65536 (end_crc crc32 65536 0 (take ?j qbs)) (drop ?j qbs)"
    by (simp_all only: linked_append)
  have len: "length (log_bytes crc32 65536 qbs) = 65536 * length qbs" by (rule length_log_bytes[OF l])
  then have j: "?j < length qbs" using assms(5) by (simp add: div_less_iff_less_mult mult.commute)
  have front: "length (log_bytes crc32 65536 (take ?j qbs)) = 65536 * ?j"
    using length_log_bytes[OF split(1)] j by simp
  define part where "part = take (n mod 65536) (log_bytes crc32 65536 (drop ?j qbs))"
  have "log_bytes crc32 65536 qbs = log_bytes crc32 65536 (take ?j qbs) @ log_bytes crc32 65536 (drop ?j qbs)"
    by (simp flip: log_bytes_simps(3))
  moreover have "n - 65536 * ?j = n mod 65536" by (rule minus_mult_div_eq_mod)
  ultimately have cont: "take n (log_bytes crc32 65536 qbs) = log_bytes crc32 65536 (take ?j qbs) @ part"
    using front by (simp only: take_append part_def) simp
  have "length part < 65536" by (simp add: part_def min.strict_coboundedI2)
  from read_checkpoint_prefix[where inflate = inflate and ?m0.0 = m0 and qbs = "take ?j qbs" and more_qbs = "drop ?j qbs", OF _ assms(2) _ this] assms(1,4) cont
  obtain ys zs acc st where s: "checkpoint_records m = ys @ zs"
     "take_records ys cp_reading_new = Some st" "pending acc zs (concat (map snd (drop ?j qbs)))"
     "ReadCheckpointFile crc32 inflate path m0 w = Some (part = [] \<and> cp_name st = kCheckpointEnd, cp_map st, w)"
    by (metis append_take_drop_id)
  have "0 < length (drop ?j qbs)" using j by simp
  then have "0 < length (concat (map snd (drop ?j qbs)))" using length_concat_linked[OF split(2)] by (rule less_le_trans)
  then have "concat (map snd (drop ?j qbs)) \<noteq> []" by (simp only: length_greater_0_conv not_False_eq_True)
  then have "zs \<noteq> []" using s(3) by (auto simp: pending_def)
  from take_some_records[OF s(1) this s(2) assms(3)] show ?thesis using s(4) by simp
qed

text \<open>The map of a checkpoint whose names are different.\<close>

lemma fold_put_new:
  "map_ok m0 \<Longrightarrow> distinct (map fst m) \<Longrightarrow> fst ` set m \<inter> fst ` set m0 = {} \<Longrightarrow>
     map_ok (fold put_new m m0) \<and> map_of (fold put_new m m0) = map_of m0 ++ map_of m"
proof (induction m arbitrary: m0)
  case (Cons e m)
  have "map_find (fst e) m0 = None" using Cons.prems(3) by (auto simp: map_find_map_of map_of_eq_None_iff)
  then have put: "put_new e m0 = map_insert (fst e) (snd e) m0" by (simp add: put_new_def)
  have "map_ok (put_new e m0)" "fst ` set m \<inter> fst ` set (put_new e m0) = {}"
    using Cons.prems by (auto simp: put map_insert_ok map_insert_keys)
  from Cons.IH[OF this(1) _ this(2)] Cons.prems(1,2) have
    "map_ok (fold put_new m (put_new e m0))" "map_of (fold put_new m (put_new e m0)) = map_of (put_new e m0) ++ map_of m"
    by simp_all
  moreover have "map_of (put_new e m0) ++ map_of m = map_of m0 ++ map_of (e # m)"
    using Cons.prems(1,2) by (auto simp: put map_of_map_insert fun_eq_iff map_add_def map_of_eq_None_iff image_iff split: option.splits)
  ultimately show ?case by (metis fold_simps(2))
qed simp

lemma fold_put_new_map: "map_ok m \<Longrightarrow> fold put_new m [] = m"
proof -
  assume m: "map_ok m"
  then have "map_ok (fold put_new m []) \<and> map_of (fold put_new m []) = map_of [] ++ map_of m"
    by (intro fold_put_new) (simp_all add: map_ok_distinct)
  then show ?thesis using m by (intro map_ok_unique) simp_all
qed

lemma WriteCheckpointFile_holds:
  assumes "good_names dir base" "cp_files dir base lo n w" "n < 2 ^ 31 - 1" "distinct (map fst m)"
  shows "\<exists>qbs. WriteCheckpointFile crc32 deflate m dir base w = Some (True, put_file (cp_path dir base n) (log_bytes crc32 65536 qbs) w)
     \<and> record_file_of crc32 (checkpoint_records m) qbs"
proof -
  let ?p = "cp_path dir base n"
  have res: "results w = []" using assms(2) by (simp add: cp_files_def)
  obtain cp where b: "BeginCheckpoint crc32 deflate (CheckpointWriter_new dir base) w = Some (int n, cp, put_file ?p [] w)"
     "cp_writing crc32 ?p [kCheckpointBegin] cp (put_file ?p [] w)" "checkpoint_dir cp = dir" "cp_file_base cp = base" "cp_names cp = []"
    using BeginCheckpoint_holds[OF assms(1-3)] by blast
  have "fst ` set m \<inter> set (cp_names cp) = {}" "results (put_file ?p [] w) = []" by (simp_all add: b(5) res)
  then obtain cp1 c where a: "add_records crc32 deflate m cp (put_file ?p [] w) = Some (True, cp1, put_file ?p c w)"
     "cp_writing crc32 ?p ([kCheckpointBegin] @ concat (map (\<lambda>(k, v). [k, v]) m)) cp1 (put_file ?p c w)"
     "checkpoint_dir cp1 = dir" "cp_file_base cp1 = base"
    using add_records_holds[OF b(2) _ assms(4), where deflate = deflate] b(3,4) by auto
  have "results (put_file ?p c w) = []" by (simp add: res)
  from EndCheckpoint_holds[OF a(2) this a(3,4), of deflate] obtain qbs where e:
     "EndCheckpoint crc32 deflate cp1 (put_file ?p c w) = Some (True, CheckpointWriter_new dir base, put_file ?p (log_bytes crc32 65536 qbs) w)"
     "record_file_of crc32 (checkpoint_records m) qbs"
    by (auto simp: checkpoint_records_def)
  have "ClearCheckpoint (CheckpointWriter_new dir base) = Some (CheckpointWriter_new dir base)"
    by (simp add: ClearCheckpoint_def CheckpointWriter_new_def File_Close_def File_new_def is_open_def)
  then show ?thesis using b(1) a(1) e by (intro exI[of _ qbs]) (simp add: WriteCheckpointFile_def)
qed

section \<open>The property\<close>

text \<open>
  C14. A map that is written as the next checkpoint of a directory, from which the first ones may
  have been deleted, is what \<open>ReadCheckpoint\<close> finds then.  When the file is cut anywhere, it is refused, unless a key of the map is the last mark.
\<close>

theorem Checkpoint_roundtrip:
  assumes "good_names dir base" "cp_files dir base lo n w" "n < 2 ^ 31 - 1" "map_ok m"
  shows "\<exists>c. WriteCheckpointFile crc32 deflate m dir base w = Some (True, put_file (cp_path dir base n) c w)
     \<and> ReadCheckpoint crc32 inflate dir base [] (put_file (cp_path dir base n) c w) = Some (True, m, put_file (cp_path dir base n) c w)
     \<and> (kCheckpointEnd \<notin> fst ` set m \<longrightarrow> (\<forall>j < length c. \<exists>m1.
          ReadCheckpointFile crc32 inflate (cp_path dir base n) m0 (put_file (cp_path dir base n) (take j c) w)
            = Some (False, m1, put_file (cp_path dir base n) (take j c) w)))"
proof -
  let ?p = "cp_path dir base n"
  obtain qbs where q: "WriteCheckpointFile crc32 deflate m dir base w = Some (True, put_file ?p (log_bytes crc32 65536 qbs) w)"
     "record_file_of crc32 (checkpoint_records m) qbs"
    using WriteCheckpointFile_holds[OF assms(1-3) map_ok_distinct[OF assms(4)]] by blast
  let ?c = "log_bytes crc32 65536 qbs"
  have files: "cp_files dir base lo (Suc n) (put_file ?p ?c w)"
    using assms(2,3) by (auto simp: cp_files_def map_of_put_file cp_path_inject less_Suc_eq)
  have "ReadCheckpointFile crc32 inflate (JoinPaths dir (cp_file_base_name base (int n))) [] (put_file ?p ?c w)
      = Some (True, m, put_file ?p ?c w)"
    unfolding cp_file_name_path(1)[OF assms(1) refl]
    using ReadCheckpointFile_whole[where inflate = inflate, OF q(2), of "put_file ?p ?c w" ?p] assms(2)
    by (simp add: fold_put_new_map[OF assms(4)] cp_files_def map_of_put_file)
  then have "ReadCheckpoint crc32 inflate dir base [] (put_file ?p ?c w) = Some (True, m, put_file ?p ?c w)"
    using GetCheckpointFiles_holds[OF assms(1) files] assms(2) by (auto simp: ReadCheckpoint_def cp_files_def)
  moreover have "\<exists>m1. ReadCheckpointFile crc32 inflate ?p m0 (put_file ?p (take j ?c) w) = Some (False, m1, put_file ?p (take j ?c) w)"
    if "kCheckpointEnd \<notin> fst ` set m" "j < length ?c" for j
    using ReadCheckpointFile_cut[where inflate = inflate, OF q(2) _ that(1) _ that(2), of "put_file ?p (take j ?c) w" ?p] assms(2)
    by (simp add: cp_files_def map_of_put_file)
  ultimately show ?thesis using q(1) by blast
qed

lemma Checkpoint_roundtrip_witness:
  "let dir = bytes_of ''/d''; base = bytes_of ''st''; w = \<lparr>disk = [], results = []\<rparr>; m = [([1], [2, 3]), ([2], [])]
   in \<exists>c. WriteCheckpointFile (\<lambda>_. 0) Some m dir base w = Some (True, put_file (cp_path dir base 0) c w)
     \<and> ReadCheckpoint (\<lambda>_. 0) (\<lambda>x. (x, True)) dir base [] (put_file (cp_path dir base 0) c w)
        = Some (True, m, put_file (cp_path dir base 0) c w)"
proof -
  have "cp_files (bytes_of ''/d'') (bytes_of ''st'') 0 0 \<lparr>disk = [], results = []\<rparr>" by (simp add: cp_files_def)
  moreover have "good_names (bytes_of ''/d'') (bytes_of ''st'')" by (simp add: good_names_def bytes_of_def slash_def)
  moreover have "map_ok [([1 :: byte], [2 :: byte, 3]), ([2], [])]" by simp
  ultimately show ?thesis
    using Checkpoint_roundtrip[of "bytes_of ''/d''" "bytes_of ''st''" 0 0 "\<lparr>disk = [], results = []\<rparr>" "[([1], [2, 3]), ([2], [])]"
        "\<lambda>_. 0" Some "\<lambda>x. (x, True)" "[]"] by (auto simp: Let_def)
qed

end
