(* ===== verification/LogCleaning.thy ===== *)
theory LogCleaning
  imports LogSessions
begin

text \<open>
  \<^verbatim>\<open>CleanLog\<close>: of a log with the files from \<open>lo\<close> on, those below the file of a position are
  deleted, and no other.  A writer that is at the end of the log is not disturbed.
\<close>

section \<open>Files that are deleted\<close>

lemma Rm_frame:
  assumes "results w = []"
  shows "fst (Rm p w)" "results (snd (Rm p w)) = []"
    "map_of (disk (snd (Rm p w))) q = (if q = p then None else map_of (disk w) q)"
  using assms by (auto simp: Rm_def sys_unlink_def IsReadableFile_def delete_conv')

lemma Rm_log_file:
  assumes "log_holds k dir base B N all w" "k < length all div (B * N)"
  shows "log_holds (Suc k) dir base B N all (snd (Rm (log_name dir base B k) w))"
  using assms Rm_frame[of w "log_name dir base B k"]
  by (auto simp: log_holds_def log_name_inject le_Suc_eq not_less_eq_eq)

lemma Rm_log_frame:
  "results w = [] \<Longrightarrow> frame_eq dir base B w (snd (Rm (log_name dir base B k) w))"
  by (simp add: frame_eq_def Rm_frame)

text \<open>The loop over the sorted names stops at the first file that is kept.\<close>

lemma clean_loop_holds:
  assumes "log_holds lo dir base B N all w" "f \<le> length all div (B * N)" "m < 2 ^ 31" "f \<le> m" "lo \<le> m"
  shows "\<exists>n' w'. clean_loop (log_file_name dir base (int B)) (int f)
       (map (\<lambda>k. log_name_prefix base (int B) @ digits 10 k) [lo..<Suc m]) n w = Some (n', w')
     \<and> log_holds (max lo f) dir base B N all w' \<and> frame_eq dir base B w w'"
  using assms
proof (induction "f - lo" arbitrary: lo n w)
  case 0
  let ?nm = "log_name_prefix base (int B) @ digits 10 lo"
  have "[lo..<Suc m] = lo # [Suc lo..<Suc m]" using 0(6) by (simp add: upt_conv_Cons del: upt_Suc)
  moreover have "\<not> length ?nm \<le> 10" "drop (length ?nm - 10) ?nm = digits 10 lo" by (simp_all add: log_name_prefix_def)
  moreover have "parse_int32 (digits 10 lo) = int lo" by (rule parse_int32_digits) (use 0(4,6) in simp_all)
  ultimately show ?case using 0 by (simp add: Let_def max_def del: upt_Suc)
next
  case (Suc d)
  let ?nm = "log_name_prefix base (int B) @ digits 10 lo"
  have lt: "lo < f" using Suc(2) by simp
  have res: "results w = []" using Suc(3) by (simp add: log_holds_def)
  have list: "[lo..<Suc m] = lo # [Suc lo..<Suc m]" using Suc.prems(5) by (simp add: upt_conv_Cons del: upt_Suc)
  have nm: "\<not> length ?nm \<le> 10" "drop (length ?nm - 10) ?nm = digits 10 lo" by (simp_all add: log_name_prefix_def)
  have num: "parse_int32 (digits 10 lo) = int lo" by (rule parse_int32_digits) (use Suc.prems(3,5) in simp_all)
  obtain v where rm: "Rm (log_name dir base B lo) w = (True, v)" using Rm_frame(1)[OF res] by (metis prod.collapse)
  have holds: "log_holds (Suc lo) dir base B N all v" using Rm_log_file[OF Suc.prems(1)] lt Suc.prems(2) rm by simp
  have fr: "frame_eq dir base B w v" using Rm_log_frame[OF res, of dir base B lo] rm by simp
  have "d = f - Suc lo" "Suc lo \<le> m" using Suc(2) lt Suc.prems(4) by simp_all
  from Suc(1)[OF this(1) holds Suc.prems(2-4) this(2), of "Suc n"] obtain n' w' where r:
    "clean_loop (log_file_name dir base (int B)) (int f)
       (map (\<lambda>k. log_name_prefix base (int B) @ digits 10 k) [Suc lo..<Suc m]) (Suc n) v = Some (n', w')"
    "log_holds (max (Suc lo) f) dir base B N all w'" "frame_eq dir base B v w'" by blast
  have "max (Suc lo) f = max lo f" using lt by simp
  then show ?case
    using r list nm num rm lt frame_eq_trans[OF fr r(3)]
    by (simp add: Let_def log_name_def del: upt_Suc)
qed

lemma CleanLog_holds:
  assumes "slash \<notin> set base" "log_holds lo dir base B N all w" "f \<le> length all div (B * N)"
  shows "\<exists>n w'. CleanLog dir base \<lparr>file_num = int f, block_num = b, record_num = r\<rparr> (int B) w = Some (n, w')
     \<and> log_holds (max lo f) dir base B N all w' \<and> frame_eq dir base B w w'"
proof -
  let ?m = "length all div (B * N)" and ?l = "filter (log_re base (int B)) (dir_entries dir w)"
  have h: "results w = []" "?m < 2 ^ 31" "lo \<le> ?m" using assms(2) by (simp_all add: log_holds_def)
  have "set ?l = (\<lambda>k. log_name_prefix base (int B) @ digits 10 k) ` {lo..<Suc ?m}"
    by (rule log_listing) (use assms h in \<open>auto simp: log_holds_def\<close>)
  then have "sort ?l = map (\<lambda>k. log_name_prefix base (int B) @ digits 10 k) [lo..<Suc ?m]"
    by (rule sort_names) (use h(2) in \<open>simp_all add: distinct_dir_entries\<close>)
  with clean_loop_holds[OF assms(2,3) h(2) assms(3) h(3), of 0] h(1) show ?thesis
    by (simp add: CleanLog_def DirList_files_def del: upt_Suc)
qed

section \<open>A writer beside it\<close>

text \<open>A writer sees of the files only its log, of which it needs the last file.\<close>

lemma writer_inv_other:
  assumes "\<And>k. map_of (disk w') (log_name dir base B k) = map_of (disk w) (log_name dir base B k)" "results w' = results w"
  shows "writer_inv crc32 zl dump lo dir base B N qbs ps lw w' = writer_inv crc32 zl dump lo dir base B N qbs ps lw w"
  using assms by (simp add: writer_inv_def writer_at_def log_holds_def at_end_def)

lemma writer_inv_cleaned:
  assumes "writer_inv crc32 zl dump lo dir base B N qbs ps lw w" "log_holds lo' dir base B N (log_bytes crc32 B qbs) w'"
  shows "writer_inv crc32 zl dump lo' dir base B N qbs ps lw w'"
proof -
  let ?all = "log_bytes crc32 B qbs"
  have at: "writer_at lo dir base B N ?all lw w" using assms(1) by (simp add: writer_inv_def)
  have BN: "0 < B * N" and m: "length ?all div (B * N) < 10 ^ 10" using assms(2) by (simp_all add: log_holds_def)
  then have "map_of (disk w') (log_name dir base B (length ?all div (B * N))) = Some (drop (length ?all div (B * N) * (B * N)) ?all)"
    using assms(2) file_part_end[OF BN, of ?all] by (simp add: log_holds_def)
  then have "writer_at lo' dir base B N ?all lw w'" using at assms(2) by (simp add: writer_at_def at_end_def)
  then show ?thesis using assms(1) by (simp add: writer_inv_def)
qed

lemma CleanLog_inv:
  assumes "slash \<notin> set base" "writer_inv crc32 zl dump lo dir base B N qbs ps lw w" "n \<le> length qbs"
  shows "\<exists>c w'. CleanLog dir base \<lparr>file_num = int (n div N), block_num = b, record_num = r\<rparr> (int B) w = Some (c, w')
     \<and> writer_inv crc32 zl dump (max lo (n div N)) dir base B N qbs ps lw w' \<and> frame_eq dir base B w w'"
proof -
  have log: "log_holds lo dir base B N (log_bytes crc32 B qbs) w" and l: "linked crc32 B 0 qbs"
    using assms(2) by (simp_all add: writer_inv_def writer_at_def)
  have "n div N \<le> length (log_bytes crc32 B qbs) div (B * N)"
    using length_log_bytes[OF l] log div_le_mono[OF assms(3)] by (simp add: log_holds_def)
  from CleanLog_holds[OF assms(1) log this] writer_inv_cleaned[OF assms(2)] show ?thesis by blast
qed

end
