(* ===== verification/StateRecovery.thy ===== *)
theory StateRecovery
  imports StateChanges CheckpointLaws LogCleaning
begin

text \<open>
  The state that a process leaves is the one that the next process finds: what the writer thread
  keeps of the files, turn by turn, what it deletes of the old ones, and what \<open>ReadState\<close> makes
  of those that are left.
\<close>

section \<open>The files of a state\<close>

text \<open>The changes of the records of a log.\<close>

fun replay_all :: "bytes list \<Rightarrow> state_map \<Rightarrow> state_map option" where
  "replay_all [] m = Some m"
| "replay_all (x # xs) m = Option.bind (replay_record x m) (replay_all xs)"

lemma replay_all_append: "replay_all (xs @ ys) m = Option.bind (replay_all xs m) (replay_all ys)"
proof (induction xs arbitrary: m)
  case (Cons x xs)
  then show ?case by (cases "replay_record x m") simp_all
qed simp

definition log_pos_of :: "nat \<Rightarrow> nat \<Rightarrow> log_pos" where
  "log_pos_of N n = \<lparr>file_num = int (n div N), block_num = int (n mod N), record_num = 0\<rparr>"

text \<open>A map with the position of the log that goes to the checkpoint with it.\<close>

definition with_pos :: "nat \<Rightarrow> state_map \<times> nat \<Rightarrow> state_map" where
  "with_pos N cp = (kStateKeeperLogPosKey, LogPos_StrEncode (log_pos_of N (snd cp))) # fst cp"

definition checkpoint_content :: "(bytes \<Rightarrow> 32 word) \<Rightarrow> state_map \<Rightarrow> bytes option \<Rightarrow> bool" where
  "checkpoint_content crc32 m c \<longleftrightarrow>
     (\<exists>qbs. record_file_of crc32 (checkpoint_records m) qbs \<and> c = Some (log_bytes crc32 65536 qbs))"

text \<open>
  The checkpoints that were made are of the maps and block numbers \<open>cps\<close>; those with a number
  below \<open>clo\<close> have been deleted.
\<close>

definition cps_hold :: "(bytes \<Rightarrow> 32 word) \<Rightarrow> bytes \<Rightarrow> bytes \<Rightarrow> nat \<Rightarrow> nat \<Rightarrow> (state_map \<times> nat) list \<Rightarrow> world \<Rightarrow> bool" where
  "cps_hold crc32 dir name N clo cps w \<longleftrightarrow> cp_files dir (CheckpointFilename name) clo (length cps) w
     \<and> (\<forall>i < length cps. storable_map (fst (cps ! i))) \<and> (\<forall>i < length cps. clo \<le> i \<longrightarrow>
          checkpoint_content crc32 (with_pos N (cps ! i)) (map_of (disk w) (cp_path dir (CheckpointFilename name) i)))"

text \<open>
  Positions do not go back, and of the log those files are there that a kept checkpoint needs;
  without a checkpoint all.
\<close>

definition kept_logs :: "nat \<Rightarrow> nat \<Rightarrow> nat \<Rightarrow> (state_map \<times> nat) list \<Rightarrow> bool" where
  "kept_logs N lo clo cps \<longleftrightarrow> sorted (map snd cps) \<and> (cps = [] \<longrightarrow> lo = 0)
     \<and> (\<forall>i < length cps. clo \<le> i \<longrightarrow> lo \<le> snd (cps ! i) div N)"

definition last_checkpoint :: "(state_map \<times> nat) list \<Rightarrow> state_map \<times> nat" where
  "last_checkpoint cps = (if cps = [] then ([], 0) else last cps)"

text \<open>
  The log from a checkpoint on, with the pieces \<open>ps\<close> that are not in it yet, makes \<open>S\<close> of the map
  of the checkpoint.  From some block on, the records are those of this process: what is read
  without the last ones of them is a map for which \<open>P\<close> holds.
\<close>

definition log_keeps :: "(state_map \<Rightarrow> bool) \<Rightarrow> state_map \<times> nat \<Rightarrow> linked_block list \<Rightarrow> piece list \<Rightarrow> state_map \<Rightarrow> bool" where
  "log_keeps P cp qbs ps S \<longleftrightarrow> (\<exists>old qs xs ys. qbs = old @ qs \<and> snd cp \<le> length old
     \<and> encode_records xs (concat (map snd (drop (snd cp) old))) \<and> encode_records ys (concat (map snd qs) @ ps)
     \<and> replay_all (xs @ ys) (fst cp) = Some S
     \<and> (\<forall>us vs. ys = us @ vs \<longrightarrow> (\<exists>m. replay_all (xs @ us) (fst cp) = Some m \<and> P m)))"

text \<open>How many of the first checkpoints are deleted when \<open>n\<close> were made.\<close>

definition deleted :: "int \<Rightarrow> nat \<Rightarrow> nat" where
  "deleted keep n = nat (int n - max keep kMinNumCheckpointsToKeep)"

definition state_disk ::
    "(bytes \<Rightarrow> 32 word) \<Rightarrow> int \<Rightarrow> bytes \<Rightarrow> bytes \<Rightarrow> nat \<Rightarrow> nat \<Rightarrow> (state_map \<times> nat) list \<Rightarrow> linked_block list \<Rightarrow> state_map
       \<Rightarrow> world \<Rightarrow> bool" where
  "state_disk crc32 keep dir name B N cps qbs S w \<longleftrightarrow> linked crc32 B 0 qbs
     \<and> log_keeps (\<lambda>_. True) (last_checkpoint cps) qbs [] S \<and> storable_map S
     \<and> cps_hold crc32 dir name N (deleted keep (length cps)) cps w
     \<and> (\<exists>lo. kept_logs N lo (deleted keep (length cps)) cps
          \<and> log_before lo dir (LogFilename name) B N (log_bytes crc32 B qbs) w
          \<and> (cps \<noteq> [] \<longrightarrow> log_holds lo dir (LogFilename name) B N (log_bytes crc32 B qbs) w))"

text \<open>The same while a keeper runs, with pieces in the recorder of its log.\<close>

definition keeper_runs ::
    "(bytes \<Rightarrow> 32 word) \<Rightarrow> (state_map \<Rightarrow> bool) \<Rightarrow> int \<Rightarrow> bytes \<Rightarrow> bytes \<Rightarrow> nat \<Rightarrow> nat \<Rightarrow> (state_map \<times> nat) list \<Rightarrow> linked_block list \<Rightarrow> piece list
       \<Rightarrow> state_map \<Rightarrow> state_keeper \<Rightarrow> world \<Rightarrow> bool" where
  "keeper_runs crc32 P dump dir name B N cps qbs ps S k w \<longleftrightarrow>
     cps_hold crc32 dir name N (deleted (checkpoints_to_keep k) (length cps)) cps w
     \<and> (\<exists>lo. kept_logs N lo (deleted (checkpoints_to_keep k) (length cps)) cps
        \<and> writer_inv crc32 False dump lo dir (LogFilename name) B N qbs ps (sk_log_writer k) w)
     \<and> log_keeps P (last_checkpoint cps) qbs ps S \<and> checkpointer k = CheckpointWriter_new dir (CheckpointFilename name)
     \<and> sk_dir k = dir \<and> sk_name k = name \<and> sk_block_size k = int B \<and> sk_blocks_per_file k = int N"

lemma log_keepsE:
  assumes "log_keeps P cp qbs ps S"
  obtains old qs xs ys where "qbs = old @ qs" "snd cp \<le> length old" "encode_records xs (concat (map snd (drop (snd cp) old)))"
    "encode_records ys (concat (map snd qs) @ ps)" "replay_all (xs @ ys) (fst cp) = Some S"
    "\<forall>us vs. ys = us @ vs \<longrightarrow> (\<exists>m. replay_all (xs @ us) (fst cp) = Some m \<and> P m)"
  using assms unfolding log_keeps_def by blast

lemma log_keepsI:
  assumes "qbs = old @ qs" "snd cp \<le> length old" "encode_records xs (concat (map snd (drop (snd cp) old)))"
    "encode_records ys (concat (map snd qs) @ ps)" "replay_all (xs @ ys) (fst cp) = Some S"
    "\<And>us vs. ys = us @ vs \<Longrightarrow> \<exists>m. replay_all (xs @ us) (fst cp) = Some m \<and> P m"
  shows "log_keeps P cp qbs ps S"
  using assms unfolding log_keeps_def by blast

text \<open>All records, and the ones of which nothing is missing.\<close>

lemma log_keeps_records:
  assumes "log_keeps P cp qbs ps S"
  shows "snd cp \<le> length qbs" "\<exists>zs. encode_records zs (concat (map snd (drop (snd cp) qbs)) @ ps) \<and> replay_all zs (fst cp) = Some S"
    and "\<exists>zs m. records_in zs (concat (map snd (drop (snd cp) qbs))) \<and> replay_all zs (fst cp) = Some m \<and> P m"
    and "P S"
proof -
  obtain old qs xs ys where k: "qbs = old @ qs" "snd cp \<le> length old" "encode_records xs (concat (map snd (drop (snd cp) old)))"
    "encode_records ys (concat (map snd qs) @ ps)" "replay_all (xs @ ys) (fst cp) = Some S"
    "\<forall>us vs. ys = us @ vs \<longrightarrow> (\<exists>m. replay_all (xs @ us) (fst cp) = Some m \<and> P m)"
    using assms by (elim log_keepsE)
  have d: "concat (map snd (drop (snd cp) qbs)) = concat (map snd (drop (snd cp) old)) @ concat (map snd qs)"
    using k(1,2) by simp
  show "snd cp \<le> length qbs" using k(1,2) by simp
  show "\<exists>zs. encode_records zs (concat (map snd (drop (snd cp) qbs)) @ ps) \<and> replay_all zs (fst cp) = Some S"
    using encode_records_append[OF k(3,4)] k(5) d by auto
  obtain us vs where "ys = us @ vs" "records_in us (concat (map snd qs))" using records_in_front[OF k(4)] by blast
  with k(6) records_in_append[OF k(3)] d
  show "\<exists>zs m. records_in zs (concat (map snd (drop (snd cp) qbs))) \<and> replay_all zs (fst cp) = Some m \<and> P m" by metis
  show "P S" using k(6)[rule_format, of ys "[]"] k(5) by simp
qed

lemma log_keeps_append:
  assumes "log_keeps P cp qbs ps S" "ps = concat (map snd new) @ qs"
  shows "log_keeps P cp (qbs @ new) qs S"
proof -
  obtain old os xs ys where k: "qbs = old @ os" "snd cp \<le> length old" "encode_records xs (concat (map snd (drop (snd cp) old)))"
    "encode_records ys (concat (map snd os) @ ps)" "replay_all (xs @ ys) (fst cp) = Some S"
    "\<forall>us vs. ys = us @ vs \<longrightarrow> (\<exists>m. replay_all (xs @ us) (fst cp) = Some m \<and> P m)"
    using assms(1) by (elim log_keepsE)
  show ?thesis
    by (rule log_keepsI[OF _ k(2,3) _ k(5) k(6)[rule_format], where qs = "os @ new"]) (use k(1,4) assms(2) in simp_all)
qed

lemma log_keeps_record:
  assumes "log_keeps P cp qbs ps S" "fragments True x fr" "ps @ fr = concat (map snd new) @ qs" "replay_record x S = Some S'" "P S'"
  shows "log_keeps P cp (qbs @ new) qs S'"
proof -
  obtain old os xs ys where k: "qbs = old @ os" "snd cp \<le> length old" "encode_records xs (concat (map snd (drop (snd cp) old)))"
    "encode_records ys (concat (map snd os) @ ps)" "replay_all (xs @ ys) (fst cp) = Some S"
    "\<forall>us vs. ys = us @ vs \<longrightarrow> (\<exists>m. replay_all (xs @ us) (fst cp) = Some m \<and> P m)"
    using assms(1) by (elim log_keepsE)
  have "encode_records [x] fr" using assms(2) by (simp add: encode_records_Cons)
  from encode_records_append[OF k(4) this]
  have enc: "encode_records (ys @ [x]) (concat (map snd (os @ new)) @ qs)" using assms(3) by simp
  have all: "replay_all (xs @ ys @ [x]) (fst cp) = Some S'"
    using k(5) assms(4) replay_all_append[of "xs @ ys" "[x]"] by simp
  show ?thesis
  proof (rule log_keepsI[OF _ k(2,3) enc all])
    show "qbs @ new = old @ os @ new" using k(1) by simp
    fix us vs assume "ys @ [x] = us @ vs"
    then show "\<exists>m. replay_all (xs @ us) (fst cp) = Some m \<and> P m"
      using k(6)[rule_format, of us] all assms(5) by (cases vs rule: rev_cases) auto
  qed
qed

text \<open>A state from which a process goes on.\<close>

lemma log_keeps_start:
  assumes "snd cp \<le> length qbs" "encode_records xs (concat (map snd (drop (snd cp) qbs)))" "replay_all xs (fst cp) = Some S" "P S"
  shows "log_keeps P cp qbs [] S"
  by (rule log_keepsI[where old = qbs and qs = "[]" and xs = xs and ys = "[]"]) (use assms in simp_all)

lemma log_keeps_restart: "log_keeps Q cp qbs [] S \<Longrightarrow> P S \<Longrightarrow> log_keeps P cp qbs [] S"
  using log_keeps_records(1,2)[of Q cp qbs "[]" S] log_keeps_start[of cp qbs _ S P] by auto

text \<open>The files of the checkpoints are not those of the log.\<close>

lemma state_names:
  assumes "good_names dir name"
  shows "good_names dir (CheckpointFilename name)" "good_names dir (LogFilename name)"
  using assms by (simp_all add: good_names_def CheckpointFilename_def LogFilename_def bytes_of_def slash_def)

lemma cp_path_other:
  "cp_path dir (CheckpointFilename name) i \<noteq> log_name dir (LogFilename name) B k"
  "cp_path dir (CheckpointFilename name) i \<noteq> log_lock dir (LogFilename name)"
  by (simp_all add: cp_path_def log_name_def log_file_name_def log_name_prefix_def log_lock_def CheckpointFilename_def
      LogFilename_def bytes_of_def)

lemma cps_hold_outside:
  assumes "cps_hold crc32 dir name N clo cps w" "outside_eq dir (LogFilename name) B w w'" "results w' = []"
  shows "cps_hold crc32 dir name N clo cps w'"
proof -
  have "map_of (disk w') (cp_path dir (CheckpointFilename name) i) = map_of (disk w) (cp_path dir (CheckpointFilename name) i)" for i
    using assms(2) cp_path_other[of dir name i] unfolding outside_eq_def log_lock_def by simp
  then show ?thesis using assms(1,3) by (simp add: cps_hold_def cp_files_def)
qed

lemma cps_hold_put:
  assumes "cps_hold crc32 dir name N clo cps w" "storable_map (fst cp)" "length cps < 2 ^ 31 - 1"
    and "checkpoint_content crc32 (with_pos N cp) (Some c)"
  shows "cps_hold crc32 dir name N clo (cps @ [cp]) (put_file (cp_path dir (CheckpointFilename name) (length cps)) c w)"
  using assms
  by (auto simp: cps_hold_def cp_files_def map_of_put_file cp_path_inject nth_append less_Suc_eq)

lemma writer_inv_put:
  assumes "\<And>k. p \<noteq> log_name dir base B k"
  shows "writer_inv crc32 zl dump lo dir base B N qbs ps lw (put_file p c w) = writer_inv crc32 zl dump lo dir base B N qbs ps lw w"
proof (rule writer_inv_other)
  show "map_of (disk (put_file p c w)) (log_name dir base B k) = map_of (disk w) (log_name dir base B k)" for k
    using assms[of k] by (simp add: map_of_put_file)
qed simp

lemma writer_inv_results: "writer_inv crc32 zl dump lo dir base B N qbs ps lw w \<Longrightarrow> results w = []"
  by (simp add: writer_inv_def writer_at_def log_holds_def)

lemma keeper_runsE:
  assumes "keeper_runs crc32 P dump dir name B N cps qbs ps S k w"
  obtains lo where "cps_hold crc32 dir name N (deleted (checkpoints_to_keep k) (length cps)) cps w"
    "kept_logs N lo (deleted (checkpoints_to_keep k) (length cps)) cps"
    "writer_inv crc32 False dump lo dir (LogFilename name) B N qbs ps (sk_log_writer k) w"
  using assms unfolding keeper_runs_def by blast

lemma keeper_runs_facts:
  assumes "keeper_runs crc32 P dump dir name B N cps qbs ps S k w"
  shows "log_keeps P (last_checkpoint cps) qbs ps S" "linked crc32 B 0 qbs" "results w = []"
    "checkpointer k = CheckpointWriter_new dir (CheckpointFilename name)"
    "sk_dir k = dir" "sk_name k = name" "sk_block_size k = int B" "sk_blocks_per_file k = int N"
  using assms by (auto simp: keeper_runs_def writer_inv_def writer_at_def log_holds_def)

section \<open>Turns of the writer\<close>

lemma flush_runs:
  assumes "keeper_runs crc32 P dump dir name B N cps qbs ps S k w" "length qbs + length ps < 2 ^ 31 - 1"
  shows "\<exists>qbs' lw w'. Flush crc32 (sk_log_writer k) w = Some (True, lw, w')
     \<and> keeper_runs crc32 P dump dir name B N cps qbs' [] S (k\<lparr>sk_log_writer := lw\<rparr>) w'
     \<and> length qbs' \<le> length qbs + length ps"
proof -
  obtain lo where k: "cps_hold crc32 dir name N (deleted (checkpoints_to_keep k) (length cps)) cps w"
    "kept_logs N lo (deleted (checkpoints_to_keep k) (length cps)) cps"
    "writer_inv crc32 False dump lo dir (LogFilename name) B N qbs ps (sk_log_writer k) w"
    using assms(1) by (rule keeper_runsE)
  note keeps = keeper_runs_facts(1)[OF assms(1)]
  have "length qbs < 2 ^ 31 - 1" using assms(2) by simp
  from Flush_inv[OF k(3) this] obtain new lw w' where f: "Flush crc32 (sk_log_writer k) w = Some (True, lw, w')"
     "writer_inv crc32 False dump lo dir (LogFilename name) B N (qbs @ new) [] lw w'" "concat (map snd new) = ps"
     "frame_eq dir (LogFilename name) B w w'"
    by blast
  have "linked crc32 B (end_crc crc32 B 0 qbs) new" using f(2) by (simp add: writer_inv_def)
  from length_concat_linked[OF this] have "length (qbs @ new) \<le> length qbs + length ps" by (simp add: f(3))
  moreover have "cps_hold crc32 dir name N (deleted (checkpoints_to_keep k) (length cps)) cps w'"
    by (rule cps_hold_outside[OF k(1) frame_outside[OF f(4)] writer_inv_results[OF f(2)]])
  moreover have "log_keeps P (last_checkpoint cps) (qbs @ new) [] S"
    by (rule log_keeps_append[OF keeps]) (simp add: f(3))
  ultimately show ?thesis
    using f(1,2) k(2) keeper_runs_facts(4-8)[OF assms(1)] unfolding keeper_runs_def
    by (intro exI[of _ "qbs @ new"] exI[of _ lw] exI[of _ w']) auto
qed

lemma write_runs:
  assumes "keeper_runs crc32 P dump dir name B N cps qbs ps S k w" "length qbs + length ps + weight [x] < 2 ^ 31"
    and "replay_record x S = Some S'" "P S'"
  shows "\<exists>qbs' qs lw w'. WriteRecord crc32 deflate (True, x) (sk_log_writer k) w = Some (True, lw, w')
     \<and> keeper_runs crc32 P dump dir name B N cps qbs' qs S' (k\<lparr>sk_log_writer := lw\<rparr>) w'
     \<and> length qbs' + length qs \<le> length qbs + length ps + weight [x]"
proof -
  obtain lo where k: "cps_hold crc32 dir name N (deleted (checkpoints_to_keep k) (length cps)) cps w"
    "kept_logs N lo (deleted (checkpoints_to_keep k) (length cps)) cps"
    "writer_inv crc32 False dump lo dir (LogFilename name) B N qbs ps (sk_log_writer k) w"
    using assms(1) by (rule keeper_runsE)
  note keeps = keeper_runs_facts(1)[OF assms(1)]
  have st: "storable False deflate (True, x)" "stored False deflate (True, x) = x" by (simp_all add: storable_plain)
  from WriteRecord_inv[OF k(3) st(1)] assms(2) obtain new qs fr lw w' where f:
     "WriteRecord crc32 deflate (True, x) (sk_log_writer k) w = Some (True, lw, w')"
     "writer_inv crc32 False dump lo dir (LogFilename name) B N (qbs @ new) qs lw w'"
     "fragments True x fr" "ps @ fr = concat (map snd new) @ qs" "frame_eq dir (LogFilename name) B w w'"
    unfolding st(2) by blast
  have "linked crc32 B (end_crc crc32 B 0 qbs) new" using f(2) by (simp add: writer_inv_def)
  then have "length new + length qs \<le> length ps + length fr"
    using length_concat_linked[of crc32 B _ new] arg_cong[OF f(4), of length] by simp
  then have "length (qbs @ new) + length qs \<le> length qbs + length ps + weight [x]"
    using fragments_length[OF f(3)] by (simp add: weight_def)
  moreover have "cps_hold crc32 dir name N (deleted (checkpoints_to_keep k) (length cps)) cps w'"
    by (rule cps_hold_outside[OF k(1) frame_outside[OF f(5)] writer_inv_results[OF f(2)]])
  moreover have "log_keeps P (last_checkpoint cps) (qbs @ new) qs S'"
    by (rule log_keeps_record[OF keeps f(3,4) assms(3,4)])
  ultimately show ?thesis
    using f(1,2) k(2) keeper_runs_facts(4-8)[OF assms(1)] unfolding keeper_runs_def
    by (intro exI[of _ "qbs @ new"] exI[of _ qs] exI[of _ lw] exI[of _ w']) auto
qed

lemma read_whole_checkpoint:
  assumes "checkpoint_content crc32 m (map_of (disk w) path)" "results w = []"
  shows "ReadCheckpointFile crc32 inflate path m0 w = Some (True, fold put_new m [], w)"
  using assms ReadCheckpointFile_whole by (metis checkpoint_content_def)

text \<open>A map that is read from a checkpoint, with and without the position.\<close>

lemma map_with_pos:
  assumes "storable_map (fst cp)"
  shows "map_find kStateKeeperLogPosKey (fold put_new (with_pos N cp) []) = Some (LogPos_StrEncode (log_pos_of N (snd cp)))"
    and "map_erase kStateKeeperLogPosKey (fold put_new (with_pos N cp) []) = fst cp"
proof -
  let ?m = "fold put_new (with_pos N cp) []"
  have s: "map_ok (fst cp)" "kStateKeeperLogPosKey \<notin> fst ` set (fst cp)" using assms by (simp_all add: storable_map_def)
  then have "distinct (map fst (with_pos N cp))" by (simp add: with_pos_def map_ok_distinct)
  then have m: "map_ok ?m" "map_of ?m = map_of (with_pos N cp)"
    using fold_put_new[of "[]" "with_pos N cp"] by (simp_all del: fold_simps)
  show "map_find kStateKeeperLogPosKey ?m = Some (LogPos_StrEncode (log_pos_of N (snd cp)))"
    unfolding map_find_map_of m(2) by (simp add: with_pos_def)
  have "map_of (map_erase kStateKeeperLogPosKey ?m) = map_of (fst cp)"
    unfolding map_of_map_erase[OF m(1)] m(2) using s(2) by (simp add: with_pos_def map_of_eq_None_iff fun_upd_idem)
  with map_erase_ok[OF m(1)] s(1) show "map_erase kStateKeeperLogPosKey ?m = fst cp" by (metis map_ok_unique)
qed

lemma LogPos_of:
  assumes "n < 2 ^ 31"
  shows "LogPos_StrDecode (LogPos_StrEncode (log_pos_of N n)) = Some (log_pos_of N n)"
proof -
  have "n div N < 2 ^ 31" "n mod N < 2 ^ 31"
    by (rule le_less_trans[OF div_le_dividend assms], rule le_less_trans[OF mod_less_eq_dividend assms])
  then show ?thesis using LogPos_text[of "n div N" "n mod N" 0] by (simp add: log_pos_of_def)
qed

section \<open>Old checkpoints\<close>

text \<open>None is corrupted, so none is deleted for that.\<close>

lemma drop_corrupted_none:
  "\<forall>name \<in> set names. \<exists>m. ReadCheckpointFile crc32 inflate (JoinPaths dir name) [] w = Some (True, m, w) \<Longrightarrow>
     drop_corrupted crc32 inflate dir names w = Some (names, w)"
  by (induction names) auto

lemma read_kept_checkpoint:
  assumes "good_names dir name" "cps_hold crc32 dir name N clo cps w" "clo \<le> i" "i < length cps"
  shows "ReadCheckpointFile crc32 inflate (JoinPaths dir (cp_file_base_name (CheckpointFilename name) (int i))) m0 w
     = Some (True, fold put_new (with_pos N (cps ! i)) [], w)"
  unfolding cp_file_name_path(1)[OF state_names(1)[OF assms(1)] refl]
  by (rule read_whole_checkpoint) (use assms(2-4) in \<open>simp_all add: cps_hold_def cp_files_def\<close>)

lemma cps_hold_Rm:
  assumes "cps_hold crc32 dir name N clo cps w" "Suc clo < length cps"
  shows "cps_hold crc32 dir name N (Suc clo) cps (snd (Rm (cp_path dir (CheckpointFilename name) clo) w))"
  using assms Rm_frame[of w "cp_path dir (CheckpointFilename name) clo"]
  by (auto simp: cps_hold_def cp_files_def cp_path_inject)

text \<open>
  The first checkpoints are deleted, each with the files of the log that lie before its position:
  those that are kept have later positions and still find the log that they need.
\<close>

lemma drop_old_holds:
  assumes "good_names dir name" "cps_hold crc32 dir name N clo cps w" "kept_logs N lo clo cps"
    and "writer_inv crc32 False dump lo dir (LogFilename name) B N qbs ps lw w"
    and "clo \<le> c" "c < length cps" "\<forall>cp \<in> set cps. snd cp \<le> length qbs" "length qbs < 2 ^ 31"
    and k: "sk_dir k = dir" "sk_name k = name" "sk_block_size k = int B"
  shows "\<exists>lo' w'. drop_old crc32 inflate k (map (\<lambda>i. cp_file_base_name (CheckpointFilename name) (int i)) [clo..<c]) w = Some w'
     \<and> cps_hold crc32 dir name N c cps w' \<and> kept_logs N lo' c cps
     \<and> writer_inv crc32 False dump lo' dir (LogFilename name) B N qbs ps lw w'"
  using assms(2-6)
proof (induction "c - clo" arbitrary: clo lo w)
  case 0
  then show ?case by auto
next
  case (Suc d)
  let ?l = "LogFilename name" and ?n = "snd (cps ! clo)"
  let ?name = "cp_file_base_name (CheckpointFilename name) (int clo)" and ?p = "cp_path dir (CheckpointFilename name) clo"
  have lt: "clo < c" "clo < length cps" "Suc clo < length cps" using Suc(2) Suc.prems(5) by simp_all
  have list: "[clo..<c] = clo # [Suc clo..<c]" using lt(1) by (simp add: upt_conv_Cons)
  have st: "storable_map (fst (cps ! clo))" using Suc.prems(1) lt(2) by (simp add: cps_hold_def)
  have n: "?n \<le> length qbs" using assms(7) lt(2) by simp
  then have pos: "LogPos_StrDecode (LogPos_StrEncode (log_pos_of N ?n)) = Some (log_pos_of N ?n)"
    using assms(8) by (intro LogPos_of) simp
  have path: "JoinPaths dir ?name = ?p" by (rule cp_file_name_path(1)[OF state_names(1)[OF assms(1)] refl])
  define v where "v = snd (Rm ?p w)"
  have res: "results w = []" by (rule writer_inv_results[OF Suc.prems(3)])
  have cv: "cps_hold crc32 dir name N (Suc clo) cps v" unfolding v_def by (rule cps_hold_Rm[OF Suc.prems(1) lt(3)])
  have "map_of (disk v) (log_name dir ?l B i) = map_of (disk w) (log_name dir ?l B i)" for i
    using Rm_frame(3)[OF res, of ?p "log_name dir ?l B i"] cp_path_other(1)[of dir name clo B i] by (auto simp: v_def)
  moreover have "results v = results w" using Rm_frame(2)[OF res] res by (simp add: v_def)
  ultimately have wv: "writer_inv crc32 False dump lo dir ?l B N qbs ps lw v"
    using writer_inv_other[of v dir ?l B w] Suc.prems(3) by blast
  have slash: "slash \<notin> set ?l" using state_names(2)[OF assms(1)] by (simp add: good_names_def)
  obtain cnt u where u: "CleanLog dir ?l (log_pos_of N ?n) (int B) v = Some (cnt, u)"
    "writer_inv crc32 False dump (max lo (?n div N)) dir ?l B N qbs ps lw u" "frame_eq dir ?l B v u"
    using CleanLog_inv[OF slash wv n] unfolding log_pos_of_def by blast
  have cu: "cps_hold crc32 dir name N (Suc clo) cps u"
    by (rule cps_hold_outside[OF cv frame_outside[OF u(3)] writer_inv_results[OF u(2)]])
  have "?n \<le> snd (cps ! i)" if "clo \<le> i" "i < length cps" for i
    using Suc.prems(2) sorted_nth_mono[of "map snd cps" clo i] that by (simp add: kept_logs_def)
  then have ku: "kept_logs N (max lo (?n div N)) (Suc clo) cps"
    using Suc.prems(2) lt(2) by (auto simp: kept_logs_def div_le_mono)
  have "d = c - Suc clo" "Suc clo \<le> c" using Suc(2) lt(1) by simp_all
  from Suc(1)[OF this(1) cu ku u(2) this(2) Suc.prems(5)] obtain lo' w' where r:
    "drop_old crc32 inflate k (map (\<lambda>i. cp_file_base_name (CheckpointFilename name) (int i)) [Suc clo..<c]) u = Some w'"
    "cps_hold crc32 dir name N c cps w'" "kept_logs N lo' c cps"
    "writer_inv crc32 False dump lo' dir ?l B N qbs ps lw w'" by blast
  have "drop_old crc32 inflate k (map (\<lambda>i. cp_file_base_name (CheckpointFilename name) (int i)) [clo..<c]) w = Some w'"
    using read_kept_checkpoint[OF assms(1) Suc.prems(1) order_refl lt(2), of inflate "[]"] map_with_pos(1)[OF st, of N] pos u(1) r(1) k path
    unfolding list by (simp add: Let_def v_def)
  then show ?case using r(2-4) by blast
qed

lemma CleanOldState_holds:
  assumes "good_names dir name" "cps_hold crc32 dir name N clo cps w" "kept_logs N lo clo cps"
    and "writer_inv crc32 False dump lo dir (LogFilename name) B N qbs ps lw w"
    and "\<forall>cp \<in> set cps. snd cp \<le> length qbs" "length qbs < 2 ^ 31"
    and k: "sk_dir k = dir" "sk_name k = name" "sk_block_size k = int B"
  shows "\<exists>lo' clo' w'. CleanOldState crc32 inflate keep k w = Some w'
     \<and> cps_hold crc32 dir name N clo' cps w' \<and> kept_logs N lo' clo' cps
     \<and> writer_inv crc32 False dump lo' dir (LogFilename name) B N qbs ps lw w'
     \<and> clo' = max clo (nat (int (length cps) - max keep kMinNumCheckpointsToKeep))"
proof -
  let ?c = "CheckpointFilename name" and ?keep = "max keep kMinNumCheckpointsToKeep"
  let ?d = "nat (int (length cps - clo) - ?keep)"
  let ?names = "map (\<lambda>i. cp_file_base_name ?c (int i)) [clo..<length cps]"
  have files: "cp_files dir ?c clo (length cps) w" using assms(2) by (simp add: cps_hold_def)
  have "\<forall>n \<in> set ?names. \<exists>m. ReadCheckpointFile crc32 inflate (JoinPaths dir n) [] w = Some (True, m, w)"
    using read_kept_checkpoint[OF assms(1,2)] by auto
  note none = drop_corrupted_none[OF this]
  have clean: "CleanOldState crc32 inflate keep k w = drop_old crc32 inflate k (take ?d ?names) w"
    using none GetCheckpointFiles_holds[OF state_names(1)[OF assms(1)] files] k
    by (simp add: CleanOldState_def Let_def)
  have two: "2 \<le> ?keep" by (simp add: kMinNumCheckpointsToKeep_def)
  show ?thesis
  proof (cases "?d = 0")
    case True
    then have "clo = max clo (nat (int (length cps) - ?keep))" using files by (auto simp: cp_files_def)
    then show ?thesis using clean True assms(2-4) by auto
  next
    case False
    then have d: "clo + ?d < length cps" "clo + ?d = max clo (nat (int (length cps) - ?keep))" using two by linarith+
    then have names: "take ?d ?names = map (\<lambda>i. cp_file_base_name ?c (int i)) [clo..<clo + ?d]"
      by (simp add: take_map take_upt)
    show ?thesis
      using drop_old_holds[OF assms(1-4) le_add1 d(1) assms(5,6) k, of inflate] clean d(2) unfolding names by metis
  qed
qed

lemma positions_before:
  assumes "kept_logs N lo clo cps" "snd (last_checkpoint cps) \<le> n"
  shows "\<forall>cp \<in> set cps. snd cp \<le> n"
proof (cases "cps = []")
  case False
  have "sorted (map snd cps)" using assms(1) by (simp add: kept_logs_def)
  then have "\<forall>cp \<in> set cps. snd cp \<le> snd (last cps)"
    using sorted_wrt_last[of "(\<le>)" "map snd cps"] False by (force simp: last_map)
  then show ?thesis using assms(2) False by (fastforce simp: last_checkpoint_def)
qed simp

text \<open>A new checkpoint is at the end of the log.\<close>

lemma kept_logs_snoc:
  assumes "kept_logs N lo clo cps" "snd (last_checkpoint cps) \<le> length qbs"
    and "writer_inv crc32 zl dump lo dir base B N qbs ps lw w"
  shows "kept_logs N lo clo (cps @ [(S, length qbs)])"
proof -
  have log: "log_holds lo dir base B N (log_bytes crc32 B qbs) w" and l: "linked crc32 B 0 qbs"
    using assms(3) by (simp_all add: writer_inv_def writer_at_def)
  then have "lo \<le> length qbs div N" using length_log_bytes[OF l] by (simp add: log_holds_def split: if_splits)
  then show ?thesis
    using assms(1) positions_before[OF assms(1,2)] by (auto simp: kept_logs_def sorted_append nth_append less_Suc_eq)
qed

lemma checkpoint_runs:
  assumes "keeper_runs crc32 P dump dir name B N cps qbs ps S k w" "length qbs + length ps < 2 ^ 31 - 1" "good_names dir name"
    and "storable_map S" "length cps < 2 ^ 31 - 1"
  shows "\<exists>qbs' lw w'. CheckpointInternal crc32 deflate inflate S k w = Some (True, k\<lparr>sk_log_writer := lw\<rparr>, w')
     \<and> keeper_runs crc32 P dump dir name B N (cps @ [(S, length qbs')]) qbs' [] S (k\<lparr>sk_log_writer := lw\<rparr>) w'
     \<and> length qbs' \<le> length qbs + length ps"
proof -
  let ?c = "CheckpointFilename name"
  let ?p = "cp_path dir ?c (length cps)"
  note g = state_names(1)[OF assms(3)]
  obtain qs lw w1 where f: "Flush crc32 (sk_log_writer k) w = Some (True, lw, w1)"
     "keeper_runs crc32 P dump dir name B N cps qs [] S (k\<lparr>sk_log_writer := lw\<rparr>) w1" "length qs \<le> length qbs + length ps"
    using flush_runs[OF assms(1,2)] by (elim exE conjE) (rule that)
  define k1 where "k1 = k\<lparr>sk_log_writer := lw\<rparr>"
  define clo where "clo = deleted (checkpoints_to_keep k) (length cps)"
  obtain lo where r: "writer_inv crc32 False dump lo dir (LogFilename name) B N qs [] lw w1" "cps_hold crc32 dir name N clo cps w1"
    "checkpointer k1 = CheckpointWriter_new dir ?c" "sk_dir k1 = dir" "sk_name k1 = name" "sk_block_size k1 = int B"
    "kept_logs N lo clo cps"
    using f(2) by (auto simp: keeper_runs_def k1_def clo_def)
  have last: "snd (last_checkpoint cps) \<le> length qs" by (rule log_keeps_records(1)[OF keeper_runs_facts(1)[OF f(2)]])
  have res: "results w1 = []" by (rule writer_inv_results[OF r(1)])
  have tell: "LogWriter_Tell lw = Some (log_pos_of N (length qs))"
    unfolding log_pos_of_def
    using r(1) by (intro LogWriter_Tell_at) (auto simp: writer_inv_def writer_holds_def PendingRecordCount_def)
  have files: "cp_files dir ?c clo (length cps) w1" using r(2) by (simp add: cps_hold_def)
  from BeginCheckpoint_holds[where ?crc32.0 = crc32 and deflate = deflate, OF g files assms(5)] obtain cp where b:
     "BeginCheckpoint crc32 deflate (checkpointer k1) w1 = Some (int (length cps), cp, put_file ?p [] w1)"
     "cp_writing crc32 ?p [kCheckpointBegin] cp (put_file ?p [] w1)"
     "checkpoint_dir cp = dir" "cp_file_base cp = ?c" "cp_names cp = []"
    unfolding r(3) by blast
  define m where "m = with_pos N (S, length qs)"
  have "distinct (map fst m)" using assms(4) by (simp add: m_def with_pos_def storable_map_def map_ok_distinct)
  moreover have "fst ` set m \<inter> set (cp_names cp) = {}" by (simp add: b(5))
  moreover have "results (put_file ?p [] w1) = []" by (simp add: res)
  ultimately obtain cp1 c where a:
     "add_records crc32 deflate m cp (put_file ?p [] w1) = Some (True, cp1, put_file ?p c w1)"
     "cp_writing crc32 ?p ([kCheckpointBegin] @ concat (map (\<lambda>(k, v). [k, v]) m)) cp1 (put_file ?p c w1)"
     "checkpoint_dir cp1 = dir" "cp_file_base cp1 = ?c"
    using add_records_holds[OF b(2), where m = m and deflate = deflate] b(3,4) by auto
  have "results (put_file ?p c w1) = []" by (simp add: res)
  from EndCheckpoint_holds[OF a(2) this a(3,4), of deflate] obtain cbs where e:
     "EndCheckpoint crc32 deflate cp1 (put_file ?p c w1)
        = Some (True, CheckpointWriter_new dir ?c, put_file ?p (log_bytes crc32 65536 cbs) w1)"
     "record_file_of crc32 (checkpoint_records m) cbs"
    by (auto simp: checkpoint_records_def)
  let ?w = "put_file ?p (log_bytes crc32 65536 cbs) w1"
  have "checkpoint_content crc32 m (Some (log_bytes crc32 65536 cbs))" using e(2) by (auto simp: checkpoint_content_def)
  from cps_hold_put[where cp = "(S, length qs)", OF r(2) _ assms(5)] this assms(4)
  have cps: "cps_hold crc32 dir name N clo (cps @ [(S, length qs)]) ?w" by (simp add: m_def)
  have same: "k\<lparr>sk_log_writer := lw, checkpointer := CheckpointWriter_new dir ?c\<rparr> = k\<lparr>sk_log_writer := lw\<rparr>"
    using r(3) by (simp add: k1_def)
  have kept: "kept_logs N lo clo (cps @ [(S, length qs)])" by (rule kept_logs_snoc[OF r(7) last r(1)])
  have inv: "writer_inv crc32 False dump lo dir (LogFilename name) B N qs [] lw ?w"
    using r(1) writer_inv_put[OF cp_path_other(1)] by blast
  have "\<forall>cp \<in> set (cps @ [(S, length qs)]). snd cp \<le> length qs" "length qs < 2 ^ 31"
    using positions_before[OF r(7) last] f(3) assms(2) by auto
  from CleanOldState_holds[OF assms(3) cps kept inv this r(4-6), of inflate "checkpoints_to_keep k"] obtain lo' clo' v where c:
    "CleanOldState crc32 inflate (checkpoints_to_keep k) k1 ?w = Some v"
    "cps_hold crc32 dir name N clo' (cps @ [(S, length qs)]) v" "kept_logs N lo' clo' (cps @ [(S, length qs)])"
    "writer_inv crc32 False dump lo' dir (LogFilename name) B N qs [] lw v"
    "clo' = max clo (deleted (checkpoints_to_keep k) (length (cps @ [(S, length qs)])))" unfolding deleted_def by blast
  have gone: "clo' = deleted (checkpoints_to_keep k) (length (cps @ [(S, length qs)]))"
    unfolding c(5) by (simp add: clo_def deleted_def)
  have "BeginCheckpoint crc32 deflate (checkpointer k) w1 = Some (int (length cps), cp, put_file ?p [] w1)"
    using b(1) by (simp add: k1_def)
  moreover have "add_records crc32 deflate ((kStateKeeperLogPosKey, LogPos_StrEncode (log_pos_of N (length qs))) # S) cp
      (put_file ?p [] w1) = Some (True, cp1, put_file ?p c w1)"
    using a(1) by (simp only: m_def with_pos_def fst_conv snd_conv)
  ultimately have "CheckpointInternal crc32 deflate inflate S k w = Some (True, k1, v)"
    using f(1) tell e(1) same c(1)
    by (simp add: CheckpointInternal_def Let_def k1_def del: add_records.simps)
  moreover have "P S" using keeper_runs_facts(1)[OF f(2)] by (rule log_keeps_records(4))
  then have start: "log_keeps P (S, length qs) qs [] S" by (intro log_keeps_start[where xs = "[]"]) simp_all
  have "keeper_runs crc32 P dump dir name B N (cps @ [(S, length qs)]) qs [] S k1 v"
    using c(2-4) gone start keeper_runs_facts(4-8)[OF f(2)] unfolding keeper_runs_def k1_def
    by (auto simp: last_checkpoint_def)
  ultimately show ?thesis using f(3) by (intro exI[of _ qs] exI[of _ lw] exI[of _ v]) (simp add: k1_def)
qed

text \<open>The records and the number of checkpoints in a queue.\<close>

definition logged :: "write_command list \<Rightarrow> bytes list" where
  "logged q = List.map_filter log_data q"

definition checkpoints_in :: "write_command list \<Rightarrow> nat" where
  "checkpoints_in q = length (List.map_filter checkpoint_data q)"

lemma logged_simps [simp]:
  "logged [] = []" "logged (q @ r) = logged q @ logged r"
  "logged (c # q) = (case log_data c of None \<Rightarrow> logged q | Some x \<Rightarrow> x # logged q)"
  by (simp_all add: logged_def List.map_filter_def split: option.splits)

lemma checkpoints_in_simps [simp]:
  "checkpoints_in [] = 0" "checkpoints_in (q @ r) = checkpoints_in q + checkpoints_in r"
  "checkpoints_in (c # q) = (case checkpoint_data c of None \<Rightarrow> checkpoints_in q | Some x \<Rightarrow> Suc (checkpoints_in q))"
  by (simp_all add: checkpoints_in_def List.map_filter_def split: option.splits)

lemma weight_append [simp]: "weight (xs @ ys) = weight xs + weight ys"
  by (simp add: weight_def)

lemma keeper_runs_queue [simp]:
  "keeper_runs crc32 P dump dir name B N cps qbs ps S (k\<lparr>writer_queue := q\<rparr>) w = keeper_runs crc32 P dump dir name B N cps qbs ps S k w"
  by (simp add: keeper_runs_def)

text \<open>A turn takes the first command of the queue, or none.\<close>

lemma turn_runs:
  assumes runs: "keeper_runs crc32 P dump dir name B N cps qbs ps S k w" and g: "good_names dir name"
    and q: "writer_queue k = c # q" "replay_queue [c] S = Some S'" "P S'"
    and room: "length qbs + length ps + weight (logged [c]) < 2 ^ 31 - 1" "length cps + checkpoints_in [c] < 2 ^ 31"
  shows "\<exists>cps' qbs' qs lw w'. writer_turn crc32 deflate inflate k w
       = Some (True, k\<lparr>writer_queue := q, sk_log_writer := lw\<rparr>, w')
     \<and> keeper_runs crc32 P dump dir name B N cps' qbs' qs S' (k\<lparr>writer_queue := q, sk_log_writer := lw\<rparr>) w'
     \<and> length qbs' + length qs \<le> length qbs + length ps + weight (logged [c])
     \<and> length cps' = length cps + checkpoints_in [c]"
proof -
  let ?k = "k\<lparr>writer_queue := q\<rparr>"
  have runs1: "keeper_runs crc32 P dump dir name B N cps qbs ps S ?k w" using runs by simp
  consider x where "log_data c = Some x" "checkpoint_data c = None" "replay_record x S = Some S'"
    | "log_data c = None" "checkpoint_data c = Some S" "storable_map S" "S' = S"
    using q(2) by (auto split: option.splits if_splits)
  then show ?thesis
  proof cases
    case 1
    have "length qbs + length ps + weight [x] < 2 ^ 31" using room(1) 1(1) by simp
    from write_runs[OF runs1 this 1(3) q(3), of deflate] obtain qbs' qs lw w' where t:
      "WriteRecord crc32 deflate (True, x) (sk_log_writer ?k) w = Some (True, lw, w')"
      "keeper_runs crc32 P dump dir name B N cps qbs' qs S' (?k\<lparr>sk_log_writer := lw\<rparr>) w'"
      "length qbs' + length qs \<le> length qbs + length ps + weight [x]" by (elim exE conjE) (rule that)
    show ?thesis
      by (rule exI[of _ cps], rule exI[of _ qbs'], rule exI[of _ qs], rule exI[of _ lw], rule exI[of _ w'])
        (use t q(1) 1 in \<open>simp add: writer_turn_def Let_def\<close>)
  next
    case 2
    have l: "length qbs + length ps < 2 ^ 31 - 1" "length cps < 2 ^ 31 - 1" using room 2 by simp_all
    from checkpoint_runs[OF runs1 l(1) g 2(3) l(2), of deflate inflate] obtain qbs' lw w' where t:
      "CheckpointInternal crc32 deflate inflate S ?k w = Some (True, ?k\<lparr>sk_log_writer := lw\<rparr>, w')"
      "keeper_runs crc32 P dump dir name B N (cps @ [(S, length qbs')]) qbs' [] S (?k\<lparr>sk_log_writer := lw\<rparr>) w'"
      "length qbs' \<le> length qbs + length ps" by (elim exE conjE) (rule that)
    show ?thesis
      by (rule exI[of _ "cps @ [(S, length qbs')]"], rule exI[of _ qbs'], rule exI[of _ "[]"], rule exI[of _ lw], rule exI[of _ w'])
        (use t q(1) 2 in \<open>simp add: writer_turn_def Let_def weight_def\<close>)
  qed
qed

section \<open>Reading the state\<close>

lemma replay_log_reads:
  "read_log crc32 inflate (length xs) lr w = Some (xs, lr1, w1) \<Longrightarrow>
     GetNextRecord crc32 inflate True lr1 w1 = Some ((False, []), lr2, w2) \<Longrightarrow> replay_all xs m = Some m' \<Longrightarrow>
     replay_log crc32 inflate lr m w = Some (m', w2)"
proof (induction xs arbitrary: lr m w)
  case Nil
  then show ?case by (subst replay_log.simps) simp
next
  case (Cons x xs)
  obtain l v where l: "GetNextRecord crc32 inflate True lr w = Some ((True, x), l, v)"
     "read_log crc32 inflate (length xs) l v = Some (xs, lr1, w1)"
    using Cons.prems(1) by (auto split: option.splits bool.splits)
  obtain m1 where m1: "replay_record x m = Some m1" "replay_all xs m1 = Some m'"
    using Cons.prems(3) by (cases "replay_record x m") auto
  from Cons.IH[OF l(2) Cons.prems(2) m1(2)] show ?case using l(1) m1(1) by (subst replay_log.simps) simp
qed

lemma replay_log_all:
  "reads_all crc32 inflate lr w xs \<Longrightarrow> replay_all xs m = Some m' \<Longrightarrow> replay_log crc32 inflate lr m w = Some (m', w)"
  by (auto simp: reads_all_def intro: replay_log_reads)

lemma ReadCheckpoint_last:
  assumes "good_names dir name" "cps_hold crc32 dir name N clo cps w" "cps \<noteq> []"
  shows "ReadCheckpoint crc32 inflate dir (CheckpointFilename name) [] w = Some (True, fold put_new (with_pos N (last cps)) [], w)"
proof -
  let ?c = "CheckpointFilename name" and ?i = "length cps - 1"
  have files: "cp_files dir ?c clo (length cps) w" using assms(2) by (simp add: cps_hold_def)
  then have i: "clo \<le> ?i" "?i < length cps" using assms(3) by (auto simp: cp_files_def)
  then have "[clo..<length cps] = [clo..<?i] @ [?i]" using upt_Suc_append[of clo ?i] assms(3) by (simp del: upt_Suc)
  then show ?thesis
    using GetCheckpointFiles_holds[OF state_names(1)[OF assms(1)] files] read_kept_checkpoint[OF assms(1,2) i, of inflate "[]"] assms(3)
    by (simp add: ReadCheckpoint_def last_conv_nth)
qed

text \<open>There is only one number that is next.\<close>

lemma cp_files_le: "cp_files dir base lo n w \<Longrightarrow> cp_files dir base lo' n' w \<Longrightarrow> n \<le> n'"
proof (rule ccontr)
  assume a: "cp_files dir base lo n w" "cp_files dir base lo' n' w" "\<not> n \<le> n'"
  then have i: "lo \<le> n - 1" "n - 1 < n" "n - 1 < 10 ^ 10" by (auto simp: cp_files_def)
  then have "map_of (disk w) (cp_path dir base (n - 1)) \<noteq> None" using a(1) unfolding cp_files_def by blast
  then have "n - 1 < n'" using a(2) i(3) unfolding cp_files_def by blast
  then show False using a(3) by simp
qed

lemma cp_files_number: "cp_files dir base lo n w \<Longrightarrow> cp_files dir base lo' n' w \<Longrightarrow> n = n'"
  using cp_files_le by (metis antisym)

text \<open>A checkpoint that was cut short is passed over.\<close>

definition half_checkpoint ::
    "(bytes \<Rightarrow> 32 word) \<Rightarrow> (bytes \<Rightarrow> bytes option) \<Rightarrow> bytes \<Rightarrow> bytes \<Rightarrow> world \<Rightarrow> world \<Rightarrow> bool" where
  "half_checkpoint crc32 deflate dir base w v \<longleftrightarrow> (\<exists>lo n m c j. cp_files dir base lo n w \<and> 0 < n \<and> n < 2 ^ 31 - 1
     \<and> distinct (map fst m) \<and> kCheckpointEnd \<notin> fst ` set m
     \<and> WriteCheckpointFile crc32 deflate m dir base w = Some (True, put_file (cp_path dir base n) c w)
     \<and> j < length c \<and> v = put_file (cp_path dir base n) (take j c) w)"

text \<open>There are such files, behind any complete checkpoint.\<close>

lemma half_checkpoint_exists:
  fixes m :: state_map
  assumes "good_names dir base" "cp_files dir base lo n w" "0 < n" "n < 2 ^ 31 - 1" "map_ok m" "kCheckpointEnd \<notin> fst ` set m"
  shows "half_checkpoint crc32 deflate dir base w (put_file (cp_path dir base n) [] w)"
proof -
  obtain qbs where q: "WriteCheckpointFile crc32 deflate m dir base w = Some (True, put_file (cp_path dir base n) (log_bytes crc32 65536 qbs) w)"
    "record_file_of crc32 (checkpoint_records m) qbs"
    using WriteCheckpointFile_holds[OF assms(1,2,4) map_ok_distinct[OF assms(5)]] by blast
  obtain fr rest where f: "fragments True kCheckpointBegin fr" "concat (map snd qbs) = fr @ rest"
    using q(2) by (auto simp: record_file_of_def checkpoint_records_def encode_records_Cons)
  then have "fr \<noteq> []" by (cases fr) auto
  then have "qbs \<noteq> []" using f(2) by auto
  then have "0 < length (log_bytes crc32 65536 qbs)"
    using q(2) length_log_bytes[of crc32 65536 0 qbs] by (cases qbs) (auto simp: record_file_of_def)
  then show ?thesis
    unfolding half_checkpoint_def using assms q(1) map_ok_distinct[OF assms(5)]
    by (intro exI[of _ lo] exI[of _ n] exI[of _ m] exI[of _ "log_bytes crc32 65536 qbs"] exI[of _ 0]) simp
qed

lemma ReadCheckpoint_half:
  assumes "good_names dir base" "half_checkpoint crc32 deflate dir base w v"
    and "ReadCheckpoint crc32 inflate dir base [] w = Some (True, m, w)"
    and last: "cp_files dir base lo n w" "0 < n" "\<And>m0. ReadCheckpointFile crc32 inflate (cp_path dir base (n - 1)) m0 v = Some (True, m, v)"
  shows "ReadCheckpoint crc32 inflate dir base [] v = Some (True, m, v)"
proof -
  obtain lo' n' m' c j where h: "cp_files dir base lo' n' w" "0 < n'" "n' < 2 ^ 31 - 1" "distinct (map fst m')"
    "kCheckpointEnd \<notin> fst ` set m'" "WriteCheckpointFile crc32 deflate m' dir base w = Some (True, put_file (cp_path dir base n') c w)"
    "j < length c" "v = put_file (cp_path dir base n') (take j c) w"
    using assms(2) unfolding half_checkpoint_def by blast
  have n: "n' = n" by (rule cp_files_number[OF h(1) last(1)])
  obtain qbs where q: "put_file (cp_path dir base n) c w = put_file (cp_path dir base n) (log_bytes crc32 65536 qbs) w"
     "record_file_of crc32 (checkpoint_records m') qbs"
    using WriteCheckpointFile_holds[OF assms(1) h(1,3,4), of crc32 deflate] h(6) n by auto
  have "c = log_bytes crc32 65536 qbs"
    using arg_cong[OF q(1), of "\<lambda>u. map_of (disk u) (cp_path dir base n)"] by (simp add: map_of_put_file)
  then have cut: "\<exists>m1. ReadCheckpointFile crc32 inflate (cp_path dir base n) [] v = Some (False, m1, v)"
    using ReadCheckpointFile_cut[OF q(2) _ h(5), of v "cp_path dir base n" j inflate "[]"] h(1,7,8) n
    by (simp add: map_of_put_file cp_files_def)
  have files: "cp_files dir base lo (Suc n) v"
    using last(1) h(3,8) n by (auto simp: cp_files_def map_of_put_file cp_path_inject less_Suc_eq)
  have "lo \<le> n - 1" using last(1,2) by (auto simp: cp_files_def)
  then have "[lo..<Suc n] = [lo..<n - 1] @ [n - 1, n]"
    using last(2) upt_Suc_append[of lo "n - 1"] upt_Suc_append[of lo n] by (simp del: upt_Suc)
  then show ?thesis
    using GetCheckpointFiles_holds[OF assms(1) files] cut last(3) cp_file_name_path(1)[OF assms(1) refl]
    by (auto simp: ReadCheckpoint_def simp del: upt_Suc)
qed

text \<open>From a checkpoint on, and from the beginning of the log.\<close>

lemma ReadState_from:
  assumes "good_names dir name" and lh: "log_holds lo dir (LogFilename name) B N (log_bytes crc32 B qbs) w" "linked crc32 B 0 qbs"
    and "length qbs < 2 ^ 31" "12 \<le> B" "int B < 2 ^ 24"
    and cp: "ReadCheckpoint crc32 inflate dir (CheckpointFilename name) [] w = Some (True, fold put_new (with_pos N cp) [], w)"
      "storable_map (fst cp)" "snd cp \<le> length qbs" "lo \<le> snd cp div N"
    and ys: "records_in ys (concat (map snd (drop (snd cp) qbs)))" "replay_all ys (fst cp) = Some S"
  shows "ReadState crc32 inflate dir name (int B) (int N) w = Some (True, S, w)"
proof -
  let ?l = "LogFilename name" and ?n = "snd cp"
  let ?new = "LogReader_new dir ?l (int B) (int N)"
  have pos: "LogPos_StrDecode (LogPos_StrEncode (log_pos_of N ?n)) = Some (log_pos_of N ?n)"
    by (rule LogPos_of) (use cp(3) assms(4) in simp)
  obtain lr lr1 where s: "Seek crc32 inflate (log_pos_of N ?n) ?new w = Some (True, lr, w)"
     "num_errors lr = 0" "GetNextRecord crc32 inflate True lr w = next_record_loop crc32 inflate True lr1 w"
     "reader_state crc32 lo dir ?l B N qbs ?n [] [] lr1 w" "num_errors lr1 = 0"
    using Seek_block[where inflate = inflate, OF lh assms(6,5) cp(3,4)] unfolding log_pos_of_def by blast
  have "records_in ys ([] @ concat (map snd (drop ?n qbs)))" using ys(1) by simp
  from reads_all_from[where inflate = inflate, OF lh s(4) this]
  have "reads_all crc32 inflate lr w ys"
    using reads_all_step[of crc32 inflate lr w lr1] s(2,3,5) GetNextRecord_loop[OF s(4)] by metis
  from replay_log_all[OF this ys(2)] show ?thesis
    using cp(1) map_with_pos[OF cp(2), of N] pos s(1) by (simp add: ReadState_def)
qed

lemma ReadState_reads:
  assumes "good_names dir name" and d: "cps_hold crc32 dir name N clo cps w" "kept_logs N lo clo cps"
      "log_before lo dir (LogFilename name) B N (log_bytes crc32 B qbs) w" "linked crc32 B 0 qbs"
      "cps \<noteq> [] \<longrightarrow> log_holds lo dir (LogFilename name) B N (log_bytes crc32 B qbs) w"
    and "length qbs < 2 ^ 31" "12 \<le> B" "int B < 2 ^ 24"
    and ys: "snd (last_checkpoint cps) \<le> length qbs" "records_in ys (concat (map snd (drop (snd (last_checkpoint cps)) qbs)))"
      "replay_all ys (fst (last_checkpoint cps)) = Some S"
  shows "ReadState crc32 inflate dir name (int B) (int N) w = Some (True, S, w)"
proof -
  let ?l = "LogFilename name" and ?c = "CheckpointFilename name"
  let ?new = "LogReader_new dir ?l (int B) (int N)"
  note g = state_names[OF assms(1)]
  have slash: "slash \<notin> set ?l" using g(2) by (simp add: good_names_def)
  show ?thesis
  proof (cases "cps = []")
    case True
    have "cp_files dir ?c 0 0 w" using d(1) True by (simp add: cps_hold_def cp_files_def)
    from GetCheckpointFiles_holds[OF g(1) this] have cp: "ReadCheckpoint crc32 inflate dir ?c [] w = Some (False, [], w)"
      by (simp add: ReadCheckpoint_def)
    have ys0: "records_in ys (concat (map snd qbs))" "replay_all ys [] = Some S" using ys True by (simp_all add: last_checkpoint_def)
    have "lo = 0" using d(2) True by (simp add: kept_logs_def)
    then have start: "records_in ys (concat (map snd (drop (lo * N) qbs)))" using ys0(1) by simp
    obtain lr where lr: "Rewind ?new w = Some (lr, w)" "reads_all crc32 inflate lr w ys"
      using Rewind_reads_all[where inflate = inflate, OF slash d(3,4) _ _ start] assms(8,9) by blast
    from replay_log_all[OF lr(2) ys0(2)] lr(1) show ?thesis
      by (simp add: ReadState_def cp Seek_def LogPos_IsNull_def)
  next
    case False
    then have l: "last_checkpoint cps = last cps" "storable_map (fst (last cps))"
      using d(1) by (simp_all add: last_checkpoint_def cps_hold_def last_conv_nth)
    have lh: "log_holds lo dir ?l B N (log_bytes crc32 B qbs) w" using d(5) False by simp
    have "clo \<le> length cps - 1" using d(1) False by (auto simp: cps_hold_def cp_files_def)
    then have kept: "lo \<le> snd (last cps) div N" using d(2) False by (simp add: kept_logs_def last_conv_nth)
    show ?thesis
      by (rule ReadState_from[OF assms(1) lh d(4) assms(7-9) ReadCheckpoint_last[OF assms(1) d(1) False] l(2) _ kept])
        (use ys l(1) in simp_all)
  qed
qed

text \<open>What a keeper that was destroyed has left, and what one that still runs has written.\<close>

lemma ReadState_holds:
  assumes "good_names dir name" "state_disk crc32 keep dir name B N cps qbs S w" "length qbs < 2 ^ 31" "12 \<le> B" "int B < 2 ^ 24"
  shows "ReadState crc32 inflate dir name (int B) (int N) w = Some (True, S, w)"
proof -
  obtain lo clo where d: "cps_hold crc32 dir name N clo cps w" "kept_logs N lo clo cps"
      "log_before lo dir (LogFilename name) B N (log_bytes crc32 B qbs) w" "linked crc32 B 0 qbs"
      "cps \<noteq> [] \<longrightarrow> log_holds lo dir (LogFilename name) B N (log_bytes crc32 B qbs) w"
      "log_keeps (\<lambda>_. True) (last_checkpoint cps) qbs [] S"
    using assms(2) by (auto simp: state_disk_def)
  obtain ys where "encode_records ys (concat (map snd (drop (snd (last_checkpoint cps)) qbs)))"
    "replay_all ys (fst (last_checkpoint cps)) = Some S"
    using log_keeps_records(2)[OF d(6)] by auto
  from ReadState_reads[OF assms(1) d(1-5) assms(3-5) log_keeps_records(1)[OF d(6)] records_in_whole[OF this(1)] this(2)]
  show ?thesis .
qed

lemma ReadState_running:
  assumes "good_names dir name" "keeper_runs crc32 P dump dir name B N cps qbs ps S k w" "length qbs < 2 ^ 31" "12 \<le> B" "int B < 2 ^ 24"
  shows "\<exists>m. ReadState crc32 inflate dir name (int B) (int N) w = Some (True, m, w) \<and> P m \<and> (ps = [] \<longrightarrow> m = S)
     \<and> (\<forall>v. half_checkpoint crc32 deflate dir (CheckpointFilename name) w v \<longrightarrow>
          ReadState crc32 inflate dir name (int B) (int N) v = Some (True, m, v))"
proof -
  let ?c = "CheckpointFilename name"
  note g = state_names(1)[OF assms(1)]
  obtain lo clo where d: "cps_hold crc32 dir name N clo cps w" "kept_logs N lo clo cps"
      "log_holds lo dir (LogFilename name) B N (log_bytes crc32 B qbs) w" "linked crc32 B 0 qbs"
      "log_keeps P (last_checkpoint cps) qbs ps S"
    using assms(2) by (auto simp: keeper_runs_def writer_inv_def writer_at_def)
  then have before: "log_before lo dir (LogFilename name) B N (log_bytes crc32 B qbs) w" by (simp add: log_before_def)
  have "\<exists>ys m. records_in ys (concat (map snd (drop (snd (last_checkpoint cps)) qbs)))
      \<and> replay_all ys (fst (last_checkpoint cps)) = Some m \<and> P m \<and> (ps = [] \<longrightarrow> m = S)"
  proof (cases "ps = []")
    case True
    then show ?thesis using log_keeps_records(2)[OF d(5)] log_keeps_records(4)[OF d(5)] records_in_whole by auto
  next
    case False
    then show ?thesis using log_keeps_records(3)[OF d(5)] by blast
  qed
  then obtain ys m where m: "records_in ys (concat (map snd (drop (snd (last_checkpoint cps)) qbs)))"
     "replay_all ys (fst (last_checkpoint cps)) = Some m" "P m \<and> (ps = [] \<longrightarrow> m = S)" by blast
  have now: "ReadState crc32 inflate dir name (int B) (int N) w = Some (True, m, w)"
    using ReadState_reads[OF assms(1) d(1,2) before d(4) _ assms(3-5) log_keeps_records(1)[OF d(5)] m(1,2), of inflate] d(3) by blast
  have "ReadState crc32 inflate dir name (int B) (int N) v = Some (True, m, v)"
    if half: "half_checkpoint crc32 deflate dir ?c w v" for v
  proof -
    obtain lo' n' c where v: "cp_files dir ?c lo' n' w" "0 < n'" "v = put_file (cp_path dir ?c n') c w" "n' < 2 ^ 31 - 1"
      using half by (auto simp: half_checkpoint_def)
    have files: "cp_files dir ?c clo (length cps) w" using d(1) by (simp add: cps_hold_def)
    have n: "n' = length cps" by (rule cp_files_number[OF v(1) files])
    then have cps: "cps \<noteq> []" using v(2) by auto
    let ?i = "length cps - 1"
    have i: "clo \<le> ?i" "?i < length cps" "?i < 10 ^ 10" using files cps by (auto simp: cp_files_def)
    have last: "last_checkpoint cps = last cps" "storable_map (fst (last cps))"
      using d(1) cps by (simp_all add: last_checkpoint_def cps_hold_def last_conv_nth)
    have "map_of (disk v) (cp_path dir ?c ?i) = map_of (disk w) (cp_path dir ?c ?i)" "results v = []"
      using v(3,4) n i files by (auto simp: map_of_put_file cp_path_inject cp_files_def)
    then have content: "checkpoint_content crc32 (with_pos N (last cps)) (map_of (disk v) (cp_path dir ?c ?i))"
      using d(1) i cps by (simp add: cps_hold_def last_conv_nth)
    have read: "ReadCheckpointFile crc32 inflate (cp_path dir ?c ?i) m0 v = Some (True, fold put_new (with_pos N (last cps)) [], v)" for m0
      by (rule read_whole_checkpoint[OF content \<open>results v = []\<close>])
    have "0 < length cps" using cps by simp
    from ReadCheckpoint_half[OF g half ReadCheckpoint_last[OF assms(1) d(1) cps] files this read]
    have rc: "ReadCheckpoint crc32 inflate dir ?c [] v = Some (True, fold put_new (with_pos N (last cps)) [], v)" .
    have "log_holds lo dir (LogFilename name) B N (log_bytes crc32 B qbs) v"
      using d(3) log_holds_put_other[OF cp_path_other(1)] unfolding v(3) by blast
    moreover have "lo \<le> snd (last cps) div N" using d(2) i(1,2) cps by (simp add: kept_logs_def last_conv_nth)
    ultimately show ?thesis
      using ReadState_from[OF assms(1) _ d(4) assms(3-5) rc last(2)] log_keeps_records(1)[OF d(5)] m(1,2) last(1) by simp
  qed
  then show ?thesis using now m(3) by blast
qed

end
