(* ===== verification/StateSessions.thy ===== *)
theory StateSessions
  imports StateRecovery
begin

text \<open>
  Processes that keep a state, one after the other, with the turns of the writer thread anywhere
  between the operations of the main thread.  What is on the disk in the end, and after a crash,
  is what the main thread alone made of the map, at the end or at an earlier moment outside of
  a transaction.
\<close>

section \<open>The main thread without the writer\<close>

fun run_ops :: "keeper_op list \<Rightarrow> state_keeper \<Rightarrow> state_keeper option" where
  "run_ops [] k = Some k"
| "run_ops (x # xs) k = Option.bind (run_op x k) (run_ops xs)"

lemma run_ops_append: "run_ops (xs @ ys) k = Option.bind (run_ops xs k) (run_ops ys)"
proof (induction xs arbitrary: k)
  case (Cons x xs)
  then show ?case by (cases "run_op x k") simp_all
qed simp

lemma run_ops_holds: "keeper_holds m k \<Longrightarrow> \<forall>x \<in> set xs. op_ok x \<Longrightarrow> run_ops xs k = Some k' \<Longrightarrow> keeper_holds m k'"
proof (induction xs arbitrary: k)
  case (Cons x xs)
  then obtain k1 where "run_op x k = Some k1" "run_ops xs k1 = Some k'" by (cases "run_op x k") auto
  then show ?case using Cons run_op_holds by (metis list.set_intros(1,2))
qed simp

lemma run_ops_same: "run_ops xs k = Some k' \<Longrightarrow> same_writer k k'"
proof (induction xs arbitrary: k)
  case (Cons x xs)
  then obtain k1 where "run_op x k = Some k1" "run_ops xs k1 = Some k'" by (cases "run_op x k") auto
  then show ?case using Cons.IH run_op_same same_writer_trans by metis
qed simp

text \<open>Another writer, and commands in front of the queue, make no difference to it.\<close>

definition shift :: "log_writer \<Rightarrow> write_command list \<Rightarrow> state_keeper \<Rightarrow> state_keeper" where
  "shift lw q k = k\<lparr>sk_log_writer := lw, writer_queue := q @ writer_queue k\<rparr>"

lemma shift_simps [simp]:
  "sk_data (shift lw q k) = sk_data k" "in_transaction (shift lw q k) = in_transaction k" "op_buf (shift lw q k) = op_buf k"
  "writer_queue (shift lw q k) = q @ writer_queue k"
  "(shift lw q k)\<lparr>sk_data := m\<rparr> = shift lw q (k\<lparr>sk_data := m\<rparr>)"
  "(shift lw q k)\<lparr>in_transaction := b\<rparr> = shift lw q (k\<lparr>in_transaction := b\<rparr>)"
  "(shift lw q k)\<lparr>op_buf := x\<rparr> = shift lw q (k\<lparr>op_buf := x\<rparr>)"
  "(shift lw q k)\<lparr>writer_queue := q @ r\<rparr> = shift lw q (k\<lparr>writer_queue := r\<rparr>)"
  by (simp_all add: shift_def)

lemma QueueWrite_shift [simp]: "QueueWrite (shift lw q k) = shift lw q (QueueWrite k)"
  by (simp add: QueueWrite_def)

lemma QueueOp_shift [simp]: "QueueOp key op val (shift lw q k) = map_option (shift lw q) (QueueOp key op val k)"
  by (simp add: QueueOp_def Let_def)

lemma change_shift [simp]:
  "DeleteValue key (shift lw q k) = map_option (shift lw q) (DeleteValue key k)"
  "DeletePrefix prefix (shift lw q k) = map_option (shift lw q) (DeletePrefix prefix k)"
  "SetValue key val (shift lw q k) = map_option (shift lw q) (SetValue key val k)"
  "BeginTransaction (shift lw q k) = map_option (shift lw q) (BeginTransaction k)"
  "CommitTransaction (shift lw q k) = map_option (shift lw q) (CommitTransaction k)"
  by (simp_all add: DeleteValue_def DeletePrefix_def SetValue_def BeginTransaction_def CommitTransaction_def may_change_def
      GetValue_def)

lemma delete_expired_shift [simp]: "delete_expired ks (shift lw q k) = map_option (shift lw q) (delete_expired ks k)"
proof (induction ks k rule: delete_expired.induct)
  case (2 key prefix ks k)
  show ?case
  proof (cases "DeletePrefix prefix k")
    case (Some k1)
    then show ?thesis using 2 by (cases "DeleteValue key k1") simp_all
  qed simp
qed simp

lemma ExpireTimeoutedKeys_shift [simp]:
  "ExpireTimeoutedKeys now (shift lw q k) = map_option (\<lambda>(n, k'). (n, shift lw q k')) (ExpireTimeoutedKeys now k)"
  by (cases "BeginTransaction k") (auto simp: ExpireTimeoutedKeys_def Let_def split: Option.bind_split)

lemma Checkpoint_shift [simp]: "StateKeeper_Checkpoint now (shift lw q k) = map_option (shift lw q) (StateKeeper_Checkpoint now k)"
  by (cases "ExpireTimeoutedKeys now k") (auto simp: StateKeeper_Checkpoint_def)

lemma run_op_shift [simp]: "run_op x (shift lw q k) = map_option (shift lw q) (run_op x k)"
proof (cases x)
  case (ExpireOp now)
  then show ?thesis by (cases "ExpireTimeoutedKeys now k") auto
qed simp_all

lemma run_ops_shift [simp]: "run_ops xs (shift lw q k) = map_option (shift lw q) (run_ops xs k)"
proof (induction xs arbitrary: k)
  case (Cons x xs)
  then show ?case by (cases "run_op x k") simp_all
qed simp

text \<open>What an operation queues is one record, outside of a transaction, and perhaps a checkpoint.\<close>

definition queues_change :: "state_keeper \<Rightarrow> state_keeper \<Rightarrow> bool" where
  "queues_change k k' \<longleftrightarrow> (if in_transaction k then in_transaction k' \<and> writer_queue k' = writer_queue k
    else \<not> in_transaction k' \<and> (writer_queue k' = writer_queue k \<or> (\<exists>c. writer_queue k' = writer_queue k @ [c])))"

lemma change_queue:
  "DeletePrefix prefix k = Some k' \<Longrightarrow> queues_change k k'" "DeleteValue key k = Some k' \<Longrightarrow> queues_change k k'"
  "SetValue key val k = Some k' \<Longrightarrow> queues_change k k'"
  by (auto simp: queues_change_def DeletePrefix_def DeleteValue_def SetValue_def QueueOp_def QueueWrite_def Let_def
      split: if_splits)

lemma delete_expired_queue:
  "delete_expired ks k = Some k' \<Longrightarrow> in_transaction k \<Longrightarrow> in_transaction k' \<and> writer_queue k' = writer_queue k"
proof (induction ks k rule: delete_expired.induct)
  case (2 key prefix ks k)
  then obtain k1 k2 where d: "DeletePrefix prefix k = Some k1" "DeleteValue key k1 = Some k2" "delete_expired ks k2 = Some k'"
    by auto
  have "in_transaction k1 \<and> writer_queue k1 = writer_queue k" using change_queue(1)[OF d(1)] 2(3) by (auto simp: queues_change_def)
  moreover from this have "in_transaction k2 \<and> writer_queue k2 = writer_queue k1"
    using change_queue(2)[OF d(2)] by (auto simp: queues_change_def)
  ultimately show ?case using 2(1)[OF d] by auto
qed simp

lemma ExpireTimeoutedKeys_queue:
  assumes "ExpireTimeoutedKeys now k = Some (n, k')"
  shows "\<not> in_transaction k' \<and> (\<exists>c. writer_queue k' = writer_queue k @ [c])"
proof -
  from assms obtain k1 ks k2 where e: "BeginTransaction k = Some k1" "delete_expired ks k1 = Some k2" "CommitTransaction k2 = Some k'"
    by (auto simp: ExpireTimeoutedKeys_def Let_def)
  then have "in_transaction k2 \<and> writer_queue k2 = writer_queue k"
    using delete_expired_queue[OF e(2)] by (auto simp: BeginTransaction_def split: if_splits)
  then show ?thesis using e(3) by (auto simp: CommitTransaction_def QueueWrite_def split: if_splits)
qed

lemma run_op_queue:
  assumes "run_op x k = Some k'"
  shows "writer_queue k' = writer_queue k
    \<or> \<not> in_transaction k' \<and> (\<exists>c r. writer_queue k' = writer_queue k @ c # r \<and> (\<forall>d \<in> set r. log_data d = None))"
proof (cases x)
  case (CheckpointOp now)
  then obtain n k1 where "ExpireTimeoutedKeys now k = Some (n, k1)"
     "k' = k1\<lparr>writer_queue := writer_queue k1 @ [\<lparr>log_data = None, checkpoint_data = Some (sk_data k1)\<rparr>]\<rparr>"
    using assms by (auto simp: StateKeeper_Checkpoint_def split: if_splits)
  then show ?thesis using ExpireTimeoutedKeys_queue[of now k n k1] by auto
next
  case (ExpireOp now)
  then show ?thesis using assms ExpireTimeoutedKeys_queue[of now k] by auto
next
  case BeginOp
  then show ?thesis using assms by (auto simp: BeginTransaction_def split: if_splits)
next
  case CommitOp
  then show ?thesis using assms by (auto simp: CommitTransaction_def QueueWrite_def split: if_splits)
qed (use assms in \<open>auto dest!: change_queue simp: queues_change_def split: if_splits\<close>)

section \<open>Moments outside of a transaction\<close>

text \<open>A map that the main thread had after some of its operations, and not inside a transaction.\<close>

definition committed :: "keeper_op list \<Rightarrow> state_keeper \<Rightarrow> state_map \<Rightarrow> bool" where
  "committed xs k m \<longleftrightarrow> (\<exists>j \<le> length xs. \<exists>k'. run_ops (take j xs) k = Some k' \<and> \<not> in_transaction k' \<and> sk_data k' = m)"

lemma replay_checkpoints: "\<forall>d \<in> set q. log_data d = None \<Longrightarrow> replay_queue q m = Some m' \<Longrightarrow> m' = m"
  by (induction q arbitrary: m) (auto split: option.splits if_splits)

lemma keeper_holds_data:
  assumes "keeper_holds m k" "\<not> in_transaction k"
  shows "replay_queue (writer_queue k) m = Some (sk_data k)"
proof -
  obtain m1 cs where h: "replay_queue (writer_queue k) m = Some m1" "op_buf k = concat (map enc_change cs)"
    "\<forall>c \<in> set cs. change_ok c" "sk_data k = fold apply_change cs m1" "in_transaction k \<or> op_buf k = []"
    using assms(1) by (elim keeper_holdsE)
  have "replay_record (op_buf k) m1 = Some (sk_data k)" using replay_changes[OF h(3), of m1] h(2,4) by simp
  then have "sk_data k = m1" using h(5) assms(2) by (simp add: replay_record.simps)
  then show ?thesis using h(1) by simp
qed

text \<open>The commands of a queue up to any of them make such a map.\<close>

lemma committed_prefix:
  assumes "keeper_holds m k" "\<not> in_transaction k" "\<forall>x \<in> set xs. op_ok x" "run_ops xs k = Some k'"
    and "writer_queue k' = writer_queue k @ q @ r" "replay_queue (writer_queue k @ q) m = Some m'"
  shows "committed xs k m'"
  using assms(3-6)
proof (induction xs arbitrary: k' q r m' rule: rev_induct)
  case Nil
  then have "replay_queue (writer_queue k) m = Some m'" by auto
  then have "m' = sk_data k" using keeper_holds_data[OF assms(1,2)] by simp
  then show ?case using assms(2) by (auto simp: committed_def)
next
  case (snoc x xs)
  obtain k1 where k1: "run_ops xs k = Some k1" "run_op x k1 = Some k'"
    using snoc.prems(2) by (cases "run_ops xs k") (auto simp: run_ops_append)
  obtain q1 where q1: "writer_queue k1 = writer_queue k @ q1" using run_ops_same[OF k1(1)] by (auto simp: same_writer_def)
  have all: "take (length (xs @ [x])) (xs @ [x]) = xs @ [x]" by simp
  have old: "committed (xs @ [x]) k m'" if "q1 = q @ r1" for r1
  proof -
    have "committed xs k m'" using snoc.IH[OF _ k1(1) _ snoc.prems(4), of r1] snoc.prems(1) q1 that by simp
    then obtain j k2 where "j \<le> length xs" "run_ops (take j xs) k = Some k2" "\<not> in_transaction k2" "sk_data k2 = m'"
      unfolding committed_def by blast
    then show ?thesis unfolding committed_def by (intro exI[of _ j] conjI exI[of _ k2]) simp_all
  qed
  have "writer_queue k' = writer_queue k1 \<or> (\<not> in_transaction k'
      \<and> (\<exists>c s. writer_queue k' = writer_queue k1 @ c # s \<and> (\<forall>d \<in> set s. log_data d = None)))"
    using run_op_queue[OF k1(2)] by blast
  then show ?case
  proof (elim disjE conjE exE)
    assume "writer_queue k' = writer_queue k1"
    then show ?thesis using old[of r] snoc.prems(3) q1 by simp
  next
    fix c s assume n: "\<not> in_transaction k'" "writer_queue k' = writer_queue k1 @ c # s" "\<forall>d \<in> set s. log_data d = None"
    then have "q @ r = q1 @ c # s" using snoc.prems(3) q1 by simp
    then consider r1 where "q1 = q @ r1" | u where "q = q1 @ c # u" "s = u @ r"
      by (auto simp: append_eq_append_conv2 append_eq_Cons_conv)
    then show ?thesis
    proof cases
      case 2
      have "keeper_holds m k'" using run_ops_holds[OF assms(1) snoc.prems(1,2)] .
      then have "replay_queue ((writer_queue k @ q) @ r) m = Some (sk_data k')"
        using keeper_holds_data n(1) snoc.prems(3) by fastforce
      then have "replay_queue r m' = Some (sk_data k')" using snoc.prems(4) unfolding replay_queue_append by simp
      moreover have "\<forall>d \<in> set r. log_data d = None" using n(3) 2(2) by simp
      ultimately have "sk_data k' = m'" using replay_checkpoints by metis
      then show ?thesis
        unfolding committed_def using n(1) snoc.prems(2) all by (intro exI[of _ "length (xs @ [x])"] conjI exI[of _ k']) simp_all
    qed (rule old)
  qed
qed

section \<open>The two threads\<close>

datatype keeper_event = MainEvent keeper_op | WriterEvent

fun ops_of :: "keeper_event list \<Rightarrow> keeper_op list" where
  "ops_of [] = []"
| "ops_of (MainEvent x # es) = x # ops_of es"
| "ops_of (WriterEvent # es) = ops_of es"

fun run_events ::
    "(bytes \<Rightarrow> 32 word) \<Rightarrow> (bytes \<Rightarrow> bytes option) \<Rightarrow> (bytes \<Rightarrow> bytes \<times> bool) \<Rightarrow> keeper_event list \<Rightarrow> state_keeper \<Rightarrow> world
       \<Rightarrow> (state_keeper \<times> world) option" where
  "run_events crc32 deflate inflate [] k w = Some (k, w)"
| "run_events crc32 deflate inflate (MainEvent x # es) k w = do {
     k1 \<leftarrow> run_op x k;
     run_events crc32 deflate inflate es k1 w }"
| "run_events crc32 deflate inflate (WriterEvent # es) k w = do {
     (_, k1, w1) \<leftarrow> writer_turn crc32 deflate inflate k w;
     run_events crc32 deflate inflate es k1 w1 }"

lemma keeper_holds_rest:
  assumes "keeper_holds m k" "writer_queue k = q @ r" "replay_queue q m = Some m'"
  shows "keeper_holds m' (k\<lparr>writer_queue := r, sk_log_writer := lw\<rparr>)"
  using assms by (simp add: keeper_holds_def replay_queue_append)

text \<open>What there must be room for: bytes of the log and numbers of checkpoints.\<close>

definition room_for :: "nat \<Rightarrow> nat \<Rightarrow> write_command list \<Rightarrow> bool" where
  "room_for blocks checkpoints q \<longleftrightarrow> blocks + weight (logged q) < 2 ^ 31 - 1 \<and> checkpoints + checkpoints_in q < 2 ^ 31"

lemma room_for_front: "room_for b c (q @ r) \<Longrightarrow> room_for b c q"
  by (simp add: room_for_def)

lemma room_for_rest:
  "room_for b c (q @ r) \<Longrightarrow> b' \<le> b + weight (logged q) \<Longrightarrow> c' = c + checkpoints_in q \<Longrightarrow> room_for b' c' r"
  by (simp add: room_for_def)

lemma turn_step:
  assumes runs: "keeper_runs crc32 P dump dir name B N cps qbs ps S k w" and g: "good_names dir name"
    and q: "writer_queue k = c # q" "replay_queue [c] S = Some S'" "P S'"
    and room: "room_for (length qbs + length ps) (length cps) [c]"
  shows "\<exists>cps' qbs' qs lw w'. writer_turn crc32 deflate inflate k w
       = Some (True, k\<lparr>writer_queue := q, sk_log_writer := lw\<rparr>, w')
     \<and> keeper_runs crc32 P dump dir name B N cps' qbs' qs S' (k\<lparr>writer_queue := q, sk_log_writer := lw\<rparr>) w'
     \<and> length qbs' + length qs \<le> length qbs + length ps + weight (logged [c]) \<and> length cps' = length cps + checkpoints_in [c]"
  by (rule turn_runs[OF runs g q]) (use room in \<open>simp_all only: room_for_def\<close>)

lemma idle_step:
  assumes "keeper_runs crc32 P dump dir name B N cps qbs ps S k w" "writer_queue k = []" "length qbs + length ps < 2 ^ 31 - 1"
  shows "\<exists>qbs' lw w'. writer_turn crc32 deflate inflate k w = Some (True, k\<lparr>sk_log_writer := lw\<rparr>, w')
     \<and> keeper_runs crc32 P dump dir name B N cps qbs' [] S (k\<lparr>sk_log_writer := lw\<rparr>) w' \<and> length qbs' \<le> length qbs + length ps"
proof -
  from flush_runs[OF assms(1,3)] obtain qbs' lw w' where "Flush crc32 (sk_log_writer k) w = Some (True, lw, w')"
    "keeper_runs crc32 P dump dir name B N cps qbs' [] S (k\<lparr>sk_log_writer := lw\<rparr>) w'" "length qbs' \<le> length qbs + length ps"
    by (elim exE conjE) (rule that)
  then show ?thesis using assms(2) by (intro exI[of _ qbs'] exI[of _ lw] exI[of _ w']) (simp add: writer_turn_def)
qed

lemma writer_step:
  assumes runs: "keeper_runs crc32 P dump dir name B N cps qbs ps S k w" "keeper_holds S k" "good_names dir name"
    and P: "\<forall>q r S'. writer_queue k = q @ r \<longrightarrow> replay_queue q S = Some S' \<longrightarrow> P S'"
    and room: "room_for (length qbs + length ps) (length cps) (writer_queue k)"
  shows "\<exists>cps' qbs' ps' S' q r lw w'. writer_turn crc32 deflate inflate k w
       = Some (True, k\<lparr>writer_queue := r, sk_log_writer := lw\<rparr>, w')
     \<and> keeper_runs crc32 P dump dir name B N cps' qbs' ps' S' (k\<lparr>writer_queue := r, sk_log_writer := lw\<rparr>) w'
     \<and> writer_queue k = q @ r \<and> replay_queue q S = Some S' \<and> (writer_queue k = [] \<longrightarrow> ps' = [])
     \<and> length qbs' + length ps' \<le> length qbs + length ps + weight (logged q) \<and> length cps' = length cps + checkpoints_in q"
proof (cases "writer_queue k")
  case Nil
  have "length qbs + length ps < 2 ^ 31 - 1" using room by (simp add: room_for_def)
  from idle_step[where deflate = deflate and inflate = inflate, OF runs(1) Nil this] obtain qbs' lw w' where t:
    "writer_turn crc32 deflate inflate k w = Some (True, k\<lparr>sk_log_writer := lw\<rparr>, w')"
    "keeper_runs crc32 P dump dir name B N cps qbs' [] S (k\<lparr>sk_log_writer := lw\<rparr>) w'" "length qbs' \<le> length qbs + length ps"
    by (elim exE conjE) (rule that)
  have "k\<lparr>writer_queue := [], sk_log_writer := lw\<rparr> = k\<lparr>sk_log_writer := lw\<rparr>" using Nil by simp
  then have t': "writer_turn crc32 deflate inflate k w = Some (True, k\<lparr>writer_queue := [], sk_log_writer := lw\<rparr>, w')"
    "keeper_runs crc32 P dump dir name B N cps qbs' [] S (k\<lparr>writer_queue := [], sk_log_writer := lw\<rparr>) w'"
    using t by simp_all
  show ?thesis
    by (rule exI[of _ cps], rule exI[of _ qbs'], rule exI[of _ "[]"], rule exI[of _ S], rule exI[of _ "[]"], rule exI[of _ "[]"],
        rule exI[of _ lw], rule exI[of _ w']) (use t' t(3) Nil in simp)
next
  case (Cons c cs)
  obtain m1 where "replay_queue ([c] @ cs) S = Some m1" using runs(2) Cons by (auto elim!: keeper_holdsE)
  then obtain S1 where S1: "replay_queue [c] S = Some S1" unfolding replay_queue_append by (cases "replay_queue [c] S") auto
  have q: "writer_queue k = [c] @ cs" using Cons by simp
  have "room_for (length qbs + length ps) (length cps) [c]" using room unfolding q by (rule room_for_front)
  from turn_step[where deflate = deflate and inflate = inflate, OF runs(1,3) Cons S1 P[rule_format, OF q S1] this] obtain cps' qbs' ps' lw w' where t:
    "writer_turn crc32 deflate inflate k w = Some (True, k\<lparr>writer_queue := cs, sk_log_writer := lw\<rparr>, w')"
    "keeper_runs crc32 P dump dir name B N cps' qbs' ps' S1 (k\<lparr>writer_queue := cs, sk_log_writer := lw\<rparr>) w'"
    "length qbs' + length ps' \<le> length qbs + length ps + weight (logged [c])" "length cps' = length cps + checkpoints_in [c]"
    by (elim exE conjE) (rule that)
  show ?thesis
    by (rule exI[of _ cps'], rule exI[of _ qbs'], rule exI[of _ ps'], rule exI[of _ S1], rule exI[of _ "[c]"], rule exI[of _ cs],
        rule exI[of _ lw], rule exI[of _ w']) (use t q S1 in simp)
qed

lemma keeper_runs_same:
  "keeper_runs crc32 P dump dir name B N cps qbs ps S k w \<Longrightarrow> same_writer k k' \<Longrightarrow> keeper_runs crc32 P dump dir name B N cps qbs ps S k' w"
  by (simp add: keeper_runs_def same_writer_def)

text \<open>
  The operations of the main thread do what they do alone, wherever the turns of the writer come;
  these never fail, and keep what is on the disk in step.
\<close>

lemma run_events_hold:
  assumes "keeper_runs crc32 P dump dir name B N cps qbs ps S k w" "keeper_holds S k" "good_names dir name"
    and "run_ops (ops_of es) k = Some km" "\<forall>x \<in> set (ops_of es). op_ok x"
    and "\<forall>q r S'. writer_queue km = q @ r \<longrightarrow> replay_queue q S = Some S' \<longrightarrow> P S'"
    and "room_for (length qbs + length ps) (length cps) (writer_queue km)"
  shows "\<exists>cps' qbs' qs S' q lw k' w'. run_events crc32 deflate inflate es k w = Some (k', w')
     \<and> keeper_runs crc32 P dump dir name B N cps' qbs' qs S' k' w' \<and> keeper_holds S' k' \<and> km = shift lw q k'
     \<and> replay_queue q S = Some S'
     \<and> length qbs' + length qs \<le> length qbs + length ps + weight (logged q) \<and> length cps' = length cps + checkpoints_in q"
  using assms(1,2,4-7)
proof (induction es arbitrary: cps qbs ps S k w km)
  case Nil
  have "km = shift (sk_log_writer km) [] k" using Nil(3) by (simp add: shift_def)
  then show ?case
    using Nil by (intro exI[of _ cps], intro exI[of _ qbs], intro exI[of _ ps], intro exI[of _ S], intro exI[of _ "[]"]) auto
next
  case (Cons e es)
  show ?case
  proof (cases e)
    case (MainEvent x)
    obtain k1 where k1: "run_op x k = Some k1" "run_ops (ops_of es) k1 = Some km"
      using Cons.prems(3) MainEvent by (cases "run_op x k") auto
    have same: "same_writer k k1" by (rule run_op_same[OF k1(1)])
    have "keeper_holds S k1" using run_op_holds[OF Cons.prems(2) _ k1(1)] Cons.prems(4) MainEvent by simp
    from Cons.IH[OF keeper_runs_same[OF Cons.prems(1) same] this k1(2) _ Cons.prems(5)] Cons.prems(4,6) k1(1) MainEvent
    show ?thesis by simp
  next
    case WriterEvent
    obtain q1 where q1: "writer_queue km = writer_queue k @ q1"
      using run_ops_same[OF Cons.prems(3)] by (auto simp: same_writer_def)
    have P: "\<forall>q r S'. writer_queue k = q @ r \<longrightarrow> replay_queue q S = Some S' \<longrightarrow> P S'"
      using Cons.prems(5) q1 by (metis append_assoc)
    have "room_for (length qbs + length ps) (length cps) (writer_queue k)"
      using Cons.prems(6) unfolding q1 by (rule room_for_front)
    from writer_step[where deflate = deflate and inflate = inflate, OF Cons.prems(1,2) assms(3) P this]
    obtain cps1 qbs1 ps1 S1 q0 r0 lw w1 where t:
      "writer_turn crc32 deflate inflate k w = Some (True, k\<lparr>writer_queue := r0, sk_log_writer := lw\<rparr>, w1)"
      "keeper_runs crc32 P dump dir name B N cps1 qbs1 ps1 S1 (k\<lparr>writer_queue := r0, sk_log_writer := lw\<rparr>) w1"
      "writer_queue k = q0 @ r0" "replay_queue q0 S = Some S1" "writer_queue k = [] \<longrightarrow> ps1 = []"
      "length qbs1 + length ps1 \<le> length qbs + length ps + weight (logged q0)" "length cps1 = length cps + checkpoints_in q0"
      by (elim exE conjE) (rule that)
    let ?k = "k\<lparr>writer_queue := r0, sk_log_writer := lw\<rparr>"
    have "k = shift (sk_log_writer k) q0 ?k" using t(3) by (simp add: shift_def)
    then have "run_ops (ops_of es) (shift (sk_log_writer k) q0 ?k) = Some km" using Cons.prems(3) WriterEvent by simp
    then obtain km1 where km1: "run_ops (ops_of es) ?k = Some km1" "km = shift (sk_log_writer k) q0 km1" by auto
    have "keeper_holds S1 ?k" by (rule keeper_holds_rest[OF Cons.prems(2) t(3,4)])
    moreover have "\<forall>x \<in> set (ops_of es). op_ok x" using Cons.prems(4) WriterEvent by simp
    moreover have "\<forall>q r S'. writer_queue km1 = q @ r \<longrightarrow> replay_queue q S1 = Some S' \<longrightarrow> P S'"
    proof (intro allI impI)
      fix q r S' assume "writer_queue km1 = q @ r" "replay_queue q S1 = Some S'"
      then have "writer_queue km = (q0 @ q) @ r" "replay_queue (q0 @ q) S = Some S'"
        using km1(2) t(4) by (simp_all add: replay_queue_append)
      then show "P S'" using Cons.prems(5) by blast
    qed
    moreover have "room_for (length qbs1 + length ps1) (length cps1) (writer_queue km1)"
      by (rule room_for_rest[OF _ t(6,7)]) (use Cons.prems(6) km1(2) in simp)
    ultimately obtain cps' qbs' qs S' q lw' k' w' where r: "run_events crc32 deflate inflate es ?k w1 = Some (k', w')"
      "keeper_runs crc32 P dump dir name B N cps' qbs' qs S' k' w'" "keeper_holds S' k'" "km1 = shift lw' q k'"
      "replay_queue q S1 = Some S'"
      "length qbs' + length qs \<le> length qbs1 + length ps1 + weight (logged q)" "length cps' = length cps1 + checkpoints_in q"
      using Cons.IH[OF t(2) _ km1(1)] by blast
    have "km = shift (sk_log_writer k) (q0 @ q) k'" using km1(2) r(4) by (simp add: shift_def)
    moreover have "run_events crc32 deflate inflate (e # es) k w = Some (k', w')" using t(1) r(1) WriterEvent by simp
    moreover have "replay_queue (q0 @ q) S = Some S'" using t(4) r(5) by (simp add: replay_queue_append)
    moreover have "length qbs' + length qs \<le> length qbs + length ps + weight (logged (q0 @ q))" using r(6) t(6) by simp
    moreover have "length cps' = length cps + checkpoints_in (q0 @ q)" using r(7) t(7) by simp
    ultimately show ?thesis using r(2,3) by blast
  qed
qed

section \<open>A process from its start to its end\<close>

definition no_state :: "bytes \<Rightarrow> bytes \<Rightarrow> nat \<Rightarrow> world \<Rightarrow> bool" where
  "no_state dir name B w \<longleftrightarrow> no_log dir (LogFilename name) B w
     \<and> (\<forall>k < 10 ^ 10. map_of (disk w) (cp_path dir (CheckpointFilename name) k) = None)"

lemma storable_Nil [simp]: "storable_map []"
  by (simp add: storable_map_def)

lemma no_state_disk:
  assumes "no_state dir name B w" "0 < B" "0 < N"
  shows "state_disk crc32 keep dir name B N [] [] [] w" "map_of (disk w) (log_lock dir (LogFilename name)) = None"
proof -
  have l: "no_log dir (LogFilename name) B w" using assms(1) by (simp add: no_state_def)
  have "log_keeps (\<lambda>_. True) ([], 0) [] [] []" by (rule log_keeps_start[where xs = "[]"]) simp_all
  moreover have "cps_hold crc32 dir name N (deleted keep 0) [] w" "kept_logs N 0 (deleted keep 0) []" "log_before 0 dir (LogFilename name) B N [] w"
    using assms l by (simp_all add: deleted_def kMinNumCheckpointsToKeep_def cps_hold_def cp_files_def no_state_def no_log_def log_before_def kept_logs_def)
  ultimately show "state_disk crc32 keep dir name B N [] [] [] w"
    by (auto simp: state_disk_def last_checkpoint_def)
  show "map_of (disk w) (log_lock dir (LogFilename name)) = None" using l by (simp add: no_log_def)
qed

lemma start_keeper:
  assumes new: "StateKeeper_new dir name (int B) (int N) keep dump = Some k" "good_names dir name" "0 \<le> dump" "dump < int B - 16"
    and d: "state_disk crc32 keep dir name B N cps qbs S w" "map_of (disk w) (log_lock dir (LogFilename name)) = None" "length qbs < 2 ^ 31"
    and "P S"
  shows "\<exists>lw w'. StateKeeper_Initialize crc32 inflate pid k w = Some (True, k\<lparr>sk_data := S, sk_log_writer := lw\<rparr>, w')
     \<and> keeper_runs crc32 P dump dir name B N cps qbs [] S (k\<lparr>sk_data := S, sk_log_writer := lw\<rparr>) w'
     \<and> keeper_holds S (k\<lparr>sk_data := S, sk_log_writer := lw\<rparr>)"
proof -
  have lw: "LogWriter_new dir (LogFilename name) (int B) (int N) False False dump = Some (sk_log_writer k)"
    and k: "sk_dir k = dir" "sk_name k = name" "sk_block_size k = int B" "sk_blocks_per_file k = int N"
      "checkpointer k = CheckpointWriter_new dir (CheckpointFilename name)" "writer_queue k = []" "op_buf k = []" "\<not> in_transaction k"
    using new(1) by (auto simp: StateKeeper_new_def)
  have B: "12 \<le> B" "int B < 2 ^ 24" using new(3,4) LogWriter_new_bound[OF lw] by simp_all
  have keep: "checkpoints_to_keep k = keep" using new(1) by (auto simp: StateKeeper_new_def)
  obtain lo where s: "cps_hold crc32 dir name N (deleted keep (length cps)) cps w" "log_contents crc32 lo dir (LogFilename name) B N qbs w"
    "log_keeps (\<lambda>_. True) (last_checkpoint cps) qbs [] S" "storable_map S" "kept_logs N lo (deleted keep (length cps)) cps"
    using d by (auto simp: state_disk_def log_contents_def)
  obtain lw' w' where i: "Initialize pid (sk_log_writer k) w = Some (True, lw', w')"
    "writer_inv crc32 False dump lo dir (LogFilename name) B N qbs [] lw' w'" "outside_eq dir (LogFilename name) B w w'"
    using Initialize_inv[OF lw state_names(2)[OF new(2)] new(3,4) s(2), of pid] by blast
  have "cps_hold crc32 dir name N (deleted keep (length cps)) cps w'" by (rule cps_hold_outside[OF s(1) i(3) writer_inv_results[OF i(2)]])
  moreover have "log_keeps P (last_checkpoint cps) qbs [] S" using assms(8) by (rule log_keeps_restart[where P = P, OF s(3)])
  moreover have "keeper_holds S (k\<lparr>sk_data := S, sk_log_writer := lw'\<rparr>)"
    unfolding keeper_holds_def using k s(4) by (intro conjI exI[of _ S] exI[of _ "[]"]) simp_all
  moreover have "StateKeeper_Initialize crc32 inflate pid k w = Some (True, k\<lparr>sk_data := S, sk_log_writer := lw'\<rparr>, w')"
    using ReadState_holds[OF new(2) d(1,3) B, of inflate] i(1) k by (simp add: StateKeeper_Initialize_def)
  ultimately show ?thesis using i(2) k s(5) keep by (intro exI[of _ lw'] exI[of _ w']) (auto simp: keeper_runs_def)
qed

text \<open>The end of the process: what is queued is written, and nothing stays in a buffer.\<close>

lemma keeper_runs_any: "keeper_runs crc32 P dump dir name B N cps qbs ps S k w \<Longrightarrow>
  keeper_runs crc32 (\<lambda>_. True) dump dir name B N cps qbs ps S k w"
  by (auto simp: keeper_runs_def elim!: log_keepsE intro!: log_keepsI)

lemma drain_runs:
  assumes "keeper_runs crc32 (\<lambda>_. True) dump dir name B N cps qbs ps S k w" "good_names dir name"
    and "writer_queue k = q @ [\<lparr>log_data = None, checkpoint_data = None\<rparr>]" "replay_queue q S = Some S'"
    and "room_for (length qbs + length ps) (length cps) q"
  shows "\<exists>cps' qbs' lw w'. drain_queue crc32 deflate inflate (Suc (length q)) k w
       = Some (k\<lparr>writer_queue := [], sk_log_writer := lw\<rparr>, w')
     \<and> keeper_runs crc32 (\<lambda>_. True) dump dir name B N cps' qbs' [] S' (k\<lparr>writer_queue := [], sk_log_writer := lw\<rparr>) w'
     \<and> length qbs' \<le> length qbs + length ps + weight (logged q) \<and> length cps' = length cps + checkpoints_in q"
  using assms(1,3-5)
proof (induction q arbitrary: cps qbs ps S k w)
  case Nil
  have "length qbs + length ps < 2 ^ 31 - 1" using Nil(4) by (simp add: room_for_def)
  then obtain qbs' lw w' where f: "Flush crc32 (sk_log_writer (k\<lparr>writer_queue := []\<rparr>)) w = Some (True, lw, w')"
    "keeper_runs crc32 (\<lambda>_. True) dump dir name B N cps qbs' [] S (k\<lparr>writer_queue := [], sk_log_writer := lw\<rparr>) w'"
    "length qbs' \<le> length qbs + length ps"
    using flush_runs[of crc32 "\<lambda>_. True" dump dir name B N cps qbs ps S "k\<lparr>writer_queue := []\<rparr>" w] Nil(1) by auto
  have "writer_turn crc32 deflate inflate k w = Some (False, k\<lparr>writer_queue := [], sk_log_writer := lw\<rparr>, w')"
    using f(1) Nil(2) by (simp add: writer_turn_def)
  then show ?case
    using f(2,3) Nil(3) by (intro exI[of _ cps], intro exI[of _ qbs'], intro exI[of _ lw], intro exI[of _ w']) (simp add: weight_def)
next
  case (Cons c q)
  let ?stop = "\<lparr>log_data = None, checkpoint_data = None\<rparr>"
  have q: "writer_queue k = c # (q @ [?stop])" using Cons.prems(2) by simp
  have "replay_queue ([c] @ q) S = Some S'" using Cons.prems(3) by simp
  then obtain S1 where S1: "replay_queue [c] S = Some S1" "replay_queue q S1 = Some S'"
    unfolding replay_queue_append by (cases "replay_queue [c] S") auto
  have room: "room_for (length qbs + length ps) (length cps) ([c] @ q)" using Cons.prems(4) by simp
  obtain cps1 qbs1 ps1 lw w1 where t:
    "writer_turn crc32 deflate inflate k w = Some (True, k\<lparr>writer_queue := q @ [?stop], sk_log_writer := lw\<rparr>, w1)"
    "keeper_runs crc32 (\<lambda>_. True) dump dir name B N cps1 qbs1 ps1 S1 (k\<lparr>writer_queue := q @ [?stop], sk_log_writer := lw\<rparr>) w1"
    "length qbs1 + length ps1 \<le> length qbs + length ps + weight (logged [c])" "length cps1 = length cps + checkpoints_in [c]"
    using turn_step[where deflate = deflate and inflate = inflate, OF Cons.prems(1) assms(2) q S1(1) TrueI room_for_front[OF room]]
    by (elim exE conjE) (rule that)
  let ?k = "k\<lparr>writer_queue := q @ [?stop], sk_log_writer := lw\<rparr>"
  have "writer_queue ?k = q @ [?stop]" "room_for (length qbs1 + length ps1) (length cps1) q"
    using room_for_rest[OF room t(3,4)] by simp_all
  from Cons.IH[OF t(2) this(1) S1(2) this(2)] obtain cps' qbs' lw' w' where
    "drain_queue crc32 deflate inflate (Suc (length q)) ?k w1 = Some (?k\<lparr>writer_queue := [], sk_log_writer := lw'\<rparr>, w')"
    "keeper_runs crc32 (\<lambda>_. True) dump dir name B N cps' qbs' [] S' (?k\<lparr>writer_queue := [], sk_log_writer := lw'\<rparr>) w'"
    "length qbs' \<le> length qbs1 + length ps1 + weight (logged q)" "length cps' = length cps1 + checkpoints_in q"
    by (elim exE conjE) (rule that)
  then show ?case
    using t(1,3,4) weight_append[of "logged [c]" "logged q"] logged_simps(2)[of "[c]" q] checkpoints_in_simps(2)[of "[c]" q]
    by (intro exI[of _ cps'], intro exI[of _ qbs'], intro exI[of _ lw'], intro exI[of _ w']) (simp del: logged_simps checkpoints_in_simps)
qed

lemma destroy_holds:
  assumes "keeper_runs crc32 P dump dir name B N cps qbs ps S k w" "keeper_holds S k" "\<not> in_transaction k" "good_names dir name"
    and "room_for (length qbs + length ps) (length cps) (writer_queue k)"
  shows "\<exists>cps' qbs' w'. StateKeeper_destroy crc32 deflate inflate k w = Some w' \<and> state_disk crc32 (checkpoints_to_keep k) dir name B N cps' qbs' (sk_data k) w'
     \<and> map_of (disk w') (log_lock dir (LogFilename name)) = None
     \<and> length qbs' \<le> length qbs + length ps + weight (logged (writer_queue k)) \<and> length cps' = length cps + checkpoints_in (writer_queue k)"
proof -
  let ?q = "writer_queue k"
  let ?k = "k\<lparr>writer_queue := ?q @ [\<lparr>log_data = None, checkpoint_data = None\<rparr>]\<rparr>"
  have runs: "keeper_runs crc32 (\<lambda>_. True) dump dir name B N cps qbs ps S ?k w" using keeper_runs_any[OF assms(1)] by simp
  obtain cps' qbs' lw w1 where d: "drain_queue crc32 deflate inflate (Suc (length ?q)) ?k w
       = Some (?k\<lparr>writer_queue := [], sk_log_writer := lw\<rparr>, w1)"
     "keeper_runs crc32 (\<lambda>_. True) dump dir name B N cps' qbs' [] (sk_data k) (?k\<lparr>writer_queue := [], sk_log_writer := lw\<rparr>) w1"
     "length qbs' \<le> length qbs + length ps + weight (logged ?q)" "length cps' = length cps + checkpoints_in ?q"
    using drain_runs[where deflate = deflate and inflate = inflate, OF runs assms(4) _ keeper_holds_data[OF assms(2,3)]] assms(5)
    by (simp add: shift_def) blast
  obtain lo where r: "writer_inv crc32 False dump lo dir (LogFilename name) B N qbs' [] lw w1"
    "cps_hold crc32 dir name N (deleted (checkpoints_to_keep k) (length cps')) cps' w1"
    "log_keeps (\<lambda>_. True) (last_checkpoint cps') qbs' [] (sk_data k)" "checkpointer k = CheckpointWriter_new dir (CheckpointFilename name)"
    "kept_logs N lo (deleted (checkpoints_to_keep k) (length cps')) cps'"
    using d(2) by (auto simp: keeper_runs_def)
  have "length qbs' < 2 ^ 31 - 1" using d(3) assms(5) by (simp add: room_for_def)
  from LogWriter_Close_inv[OF r(1) this state_names(2)[OF assms(4)]] obtain new lw' w' where c:
    "LogWriter_Close crc32 lw w1 = Some (lw', w')" "lw_buf lw' = []" "leftover (lw_recorder lw') = 0"
    "log_holds lo dir (LogFilename name) B N (log_bytes crc32 B (qbs' @ new)) w'" "linked crc32 B 0 (qbs' @ new)"
    "concat (map snd new) = []" "map_of (disk w') (log_lock dir (LogFilename name)) = None" "outside_eq dir (LogFilename name) B w1 w'"
    by blast
  have "linked crc32 B (end_crc crc32 B 0 qbs') new" using c(5) by simp
  then have new: "new = []" using length_concat_linked c(6) by (metis le_zero_eq length_0_conv)
  have "results w' = []" using c(4) by (simp add: log_holds_def)
  then have "state_disk crc32 (checkpoints_to_keep k) dir name B N cps' qbs' (sk_data k) w'"
    using cps_hold_outside[OF r(2) c(8)] c(4,5) new r(3,5) assms(2)
    by (auto simp: state_disk_def log_before_def keeper_holds_def)
  moreover have "StateKeeper_destroy crc32 deflate inflate k w = Some w'"
    using d(1) c(1-3) r(4)
    by (simp add: StateKeeper_destroy_def LogWriter_destroy_def ClearCheckpoint_def CheckpointWriter_new_def)
  ultimately show ?thesis using c(7) d(3,4) by blast
qed

definition keeper_session ::
    "(bytes \<Rightarrow> 32 word) \<Rightarrow> (bytes \<Rightarrow> bytes option) \<Rightarrow> (bytes \<Rightarrow> bytes \<times> bool) \<Rightarrow> state_keeper \<Rightarrow> int \<Rightarrow> keeper_event list \<Rightarrow> world
       \<Rightarrow> world option" where
  "keeper_session crc32 deflate inflate k pid es w = do {
     (ok, k1, w1) \<leftarrow> StateKeeper_Initialize crc32 inflate pid k w;
     (if \<not> ok then None
      else do {
        (k2, w2) \<leftarrow> run_events crc32 deflate inflate es k1 w1;
        StateKeeper_destroy crc32 deflate inflate k2 w2 }) }"

text \<open>A process up to a moment at which nothing has failed.\<close>

lemma session_runs:
  assumes new: "StateKeeper_new dir name (int B) (int N) keep dump = Some k" "good_names dir name" "0 \<le> dump" "dump < int B - 16"
    and d: "state_disk crc32 keep dir name B N cps qbs S w" "map_of (disk w) (log_lock dir (LogFilename name)) = None"
    and xs: "run_ops (ops_of es) (k\<lparr>sk_data := S\<rparr>) = Some km" "\<forall>x \<in> set (ops_of es). op_ok x"
    and room: "room_for (length qbs) (length cps) (writer_queue km)"
  shows "\<exists>cps' qbs' qs S' q lw k1 w1 k2 w2. StateKeeper_Initialize crc32 inflate pid k w = Some (True, k1, w1)
     \<and> run_events crc32 deflate inflate es k1 w1 = Some (k2, w2)
     \<and> keeper_runs crc32 (committed (ops_of es) (k\<lparr>sk_data := S\<rparr>)) dump dir name B N cps' qbs' qs S' k2 w2 \<and> keeper_holds S' k2
     \<and> km = shift lw q k2 \<and> checkpoints_to_keep k2 = keep
     \<and> length qbs' + length qs \<le> length qbs + weight (logged q) \<and> length cps' = length cps + checkpoints_in q"
proof -
  let ?P = "committed (ops_of es) (k\<lparr>sk_data := S\<rparr>)"
  have k: "writer_queue k = []" "\<not> in_transaction k" "op_buf k = []"
    using new(1) by (auto simp: StateKeeper_new_def)
  have "storable_map S" using d(1) by (simp add: state_disk_def)
  then have holds: "keeper_holds S (k\<lparr>sk_data := S\<rparr>)"
    unfolding keeper_holds_def using k by (intro conjI exI[of _ S] exI[of _ "[]"]) simp_all
  have P: "\<forall>q r S'. writer_queue km = q @ r \<longrightarrow> replay_queue q S = Some S' \<longrightarrow> ?P S'"
    using committed_prefix[OF holds _ xs(2,1)] k(1,2) by simp
  have "?P S" using P[rule_format, of "[]" "writer_queue km" S] by simp
  moreover have "length qbs < 2 ^ 31" using room by (simp add: room_for_def)
  ultimately obtain lw0 w1 where i: "StateKeeper_Initialize crc32 inflate pid k w = Some (True, k\<lparr>sk_data := S, sk_log_writer := lw0\<rparr>, w1)"
     "keeper_runs crc32 ?P dump dir name B N cps qbs [] S (k\<lparr>sk_data := S, sk_log_writer := lw0\<rparr>) w1"
     "keeper_holds S (k\<lparr>sk_data := S, sk_log_writer := lw0\<rparr>)"
    using start_keeper[where P = ?P and inflate = inflate and pid = pid, OF new d] by blast
  define k1 where "k1 = k\<lparr>sk_data := S, sk_log_writer := lw0\<rparr>"
  have "k\<lparr>sk_data := S\<rparr> = shift (sk_log_writer k) [] k1" by (simp add: shift_def k1_def)
  then have "run_ops (ops_of es) (shift (sk_log_writer k) [] k1) = Some km" using xs(1) by (simp only:)
  then obtain km1 where km1: "run_ops (ops_of es) k1 = Some km1" "km = shift (sk_log_writer k) [] km1" by auto
  have "\<forall>q r S'. writer_queue km1 = q @ r \<longrightarrow> replay_queue q S = Some S' \<longrightarrow> ?P S'" using P km1(2) by simp
  moreover have "room_for (length qbs + length ([] :: piece list)) (length cps) (writer_queue km1)"
    using room km1(2) by simp
  ultimately obtain cps' qbs' qs S' q lw k2 w2 where r: "run_events crc32 deflate inflate es k1 w1 = Some (k2, w2)"
    "keeper_runs crc32 ?P dump dir name B N cps' qbs' qs S' k2 w2" "keeper_holds S' k2" "km1 = shift lw q k2"
    "length qbs' + length qs \<le> length qbs + length ([] :: piece list) + weight (logged q)" "length cps' = length cps + checkpoints_in q"
    using run_events_hold[where deflate = deflate and inflate = inflate, OF i(2,3)[folded k1_def] new(2) km1(1) xs(2)] by blast
  have "checkpoints_to_keep k = keep" using new(1) by (auto simp: StateKeeper_new_def)
  then have "checkpoints_to_keep km1 = keep" using run_ops_same[OF km1(1)] by (simp add: same_writer_def k1_def)
  then have "checkpoints_to_keep k2 = keep" using r(4) by (simp add: shift_def)
  moreover have "km = shift (sk_log_writer k) q k2" using km1(2) r(4) by (simp add: shift_def)
  ultimately show ?thesis using i(1)[folded k1_def] r(1-3,5,6) by fastforce
qed

lemma session_holds:
  assumes new: "StateKeeper_new dir name (int B) (int N) keep dump = Some k" "good_names dir name" "0 \<le> dump" "dump < int B - 16"
    and d: "state_disk crc32 keep dir name B N cps qbs S w" "map_of (disk w) (log_lock dir (LogFilename name)) = None"
    and xs: "run_ops (ops_of es) (k\<lparr>sk_data := S\<rparr>) = Some km" "\<forall>x \<in> set (ops_of es). op_ok x" "\<not> in_transaction km"
    and room: "room_for (length qbs) (length cps) (writer_queue km)"
  shows "\<exists>cps' qbs' w'. keeper_session crc32 deflate inflate k pid es w = Some w' \<and> state_disk crc32 keep dir name B N cps' qbs' (sk_data km) w'
     \<and> map_of (disk w') (log_lock dir (LogFilename name)) = None
     \<and> length qbs' \<le> length qbs + weight (logged (writer_queue km)) \<and> length cps' = length cps + checkpoints_in (writer_queue km)"
proof -
  obtain cps1 qbs1 ps S' q lw k1 w1 k2 w2 where r: "StateKeeper_Initialize crc32 inflate pid k w = Some (True, k1, w1)"
    "run_events crc32 deflate inflate es k1 w1 = Some (k2, w2)"
    "keeper_runs crc32 (committed (ops_of es) (k\<lparr>sk_data := S\<rparr>)) dump dir name B N cps1 qbs1 ps S' k2 w2" "keeper_holds S' k2"
    "km = shift lw q k2" "checkpoints_to_keep k2 = keep"
    "length qbs1 + length ps \<le> length qbs + weight (logged q)" "length cps1 = length cps + checkpoints_in q"
    using session_runs[where deflate = deflate and inflate = inflate and pid = pid, OF new d xs(1,2) room]
    by (elim exE conjE) (rule that)
  have "room_for (length qbs1 + length ps) (length cps1) (writer_queue k2)"
    by (rule room_for_rest[OF _ r(7,8)]) (use room r(5) in simp)
  moreover have "\<not> in_transaction k2" using xs(3) r(5) by simp
  ultimately obtain cps' qbs' w' where d': "StateKeeper_destroy crc32 deflate inflate k2 w2 = Some w'"
     "state_disk crc32 keep dir name B N cps' qbs' (sk_data k2) w'" "map_of (disk w') (log_lock dir (LogFilename name)) = None"
     "length qbs' \<le> length qbs1 + length ps + weight (logged (writer_queue k2))" "length cps' = length cps1 + checkpoints_in (writer_queue k2)"
    using destroy_holds[where deflate = deflate and inflate = inflate, OF r(3,4) _ new(2)] unfolding r(6) by blast
  then show ?thesis
    using r by (intro exI[of _ cps'], intro exI[of _ qbs'], intro exI[of _ w']) (simp add: keeper_session_def)
qed

section \<open>One process after the other\<close>

fun keeper_sessions ::
    "(bytes \<Rightarrow> 32 word) \<Rightarrow> (bytes \<Rightarrow> bytes option) \<Rightarrow> (bytes \<Rightarrow> bytes \<times> bool) \<Rightarrow> state_keeper \<Rightarrow> (int \<times> keeper_event list) list
       \<Rightarrow> world \<Rightarrow> world option" where
  "keeper_sessions crc32 deflate inflate k [] w = Some w"
| "keeper_sessions crc32 deflate inflate k ((pid, es) # ss) w = do {
     w1 \<leftarrow> keeper_session crc32 deflate inflate k pid es w;
     keeper_sessions crc32 deflate inflate k ss w1 }"

text \<open>
  The same of the main threads alone, each of which starts with the map that the one before
  ended with: the last map, and all that was queued for the disk.
\<close>

fun main_threads :: "state_keeper \<Rightarrow> keeper_op list list \<Rightarrow> state_map \<Rightarrow> (state_map \<times> write_command list) option" where
  "main_threads k [] m = Some (m, [])"
| "main_threads k (xs # xss) m = do {
     km \<leftarrow> run_ops xs (k\<lparr>sk_data := m\<rparr>);
     (if in_transaction km then None
      else do {
        (m1, q) \<leftarrow> main_threads k xss (sk_data km);
        Some (m1, writer_queue km @ q) }) }"

lemma sessions_hold:
  assumes new: "StateKeeper_new dir name (int B) (int N) keep dump = Some k" "good_names dir name" "0 \<le> dump" "dump < int B - 16"
    and "state_disk crc32 keep dir name B N cps qbs S w" "map_of (disk w) (log_lock dir (LogFilename name)) = None"
    and "main_threads k (map (ops_of \<circ> snd) ss) S = Some (m, q)" "\<forall>s \<in> set ss. \<forall>x \<in> set (ops_of (snd s)). op_ok x"
    and "room_for (length qbs) (length cps) q"
  shows "\<exists>cps' qbs' w'. keeper_sessions crc32 deflate inflate k ss w = Some w' \<and> state_disk crc32 keep dir name B N cps' qbs' m w'
     \<and> map_of (disk w') (log_lock dir (LogFilename name)) = None
     \<and> length qbs' \<le> length qbs + weight (logged q) \<and> length cps' = length cps + checkpoints_in q"
  using assms(5-)
proof (induction ss arbitrary: cps qbs S w q)
  case Nil
  then show ?case by (intro exI[of _ cps], intro exI[of _ qbs], intro exI[of _ w]) simp
next
  case (Cons s ss)
  obtain pid es where s: "s = (pid, es)" by (cases s)
  obtain km q' where km: "run_ops (ops_of es) (k\<lparr>sk_data := S\<rparr>) = Some km" "\<not> in_transaction km"
    "main_threads k (map (ops_of \<circ> snd) ss) (sk_data km) = Some (m, q')" "q = writer_queue km @ q'"
    using Cons.prems(3) s by (auto simp: comp_def split: Option.bind_splits if_splits)
  have ok: "\<forall>x \<in> set (ops_of es). op_ok x" "\<forall>s \<in> set ss. \<forall>x \<in> set (ops_of (snd s)). op_ok x" using Cons.prems(4) s by auto
  have room: "room_for (length qbs) (length cps) (writer_queue km @ q')" using Cons.prems(5) km(4) by simp
  obtain cps1 qbs1 w1 where a: "keeper_session crc32 deflate inflate k pid es w = Some w1"
     "state_disk crc32 keep dir name B N cps1 qbs1 (sk_data km) w1" "map_of (disk w1) (log_lock dir (LogFilename name)) = None"
     "length qbs1 \<le> length qbs + weight (logged (writer_queue km))" "length cps1 = length cps + checkpoints_in (writer_queue km)"
    using session_holds[where deflate = deflate and inflate = inflate and pid = pid,
        OF new Cons.prems(1,2) km(1) ok(1) km(2) room_for_front[OF room]]
    by (elim exE conjE) (rule that)
  obtain cps2 qbs2 w2 where b: "keeper_sessions crc32 deflate inflate k ss w1 = Some w2"
     "state_disk crc32 keep dir name B N cps2 qbs2 m w2" "map_of (disk w2) (log_lock dir (LogFilename name)) = None"
     "length qbs2 \<le> length qbs1 + weight (logged q')" "length cps2 = length cps1 + checkpoints_in q'"
    using Cons.IH[OF a(2,3) km(3) ok(2) room_for_rest[OF room a(4,5)]] by (elim exE conjE) (rule that)
  show ?case
    using a b km(4) s by (intro exI[of _ cps2], intro exI[of _ qbs2], intro exI[of _ w2]) simp
qed

text \<open>
  C7. Any number of processes keep a state, one after the other, each with its main thread and
  its writer thread interleaved in any way and destroyed in the end.  Then none of them fails,
  what \<open>ReadState\<close> finds is exactly the map that the main threads alone make of it, and of the
  checkpoints exactly the newest ones are left, as many as are to be kept, but two at least; the
  files of the log before them may have been deleted.  No write fails, no process is killed, the
  changes and checkpoints are less than \<^verbatim>\<open>2^31\<close> (\<open>room_for\<close>), a value has less than \<^verbatim>\<open>2^31\<close> bytes,
  and no key is the one under which a checkpoint keeps its position (\<open>op_ok\<close>).
\<close>

theorem State_recovered:
  assumes "StateKeeper_new dir name (int B) (int N) keep dump = Some k" "good_names dir name" "0 < N" "0 \<le> dump" "dump < int B - 16"
    and "no_state dir name B w"
    and "main_threads k (map (ops_of \<circ> snd) ss) [] = Some (m, q)" "\<forall>s \<in> set ss. \<forall>x \<in> set (ops_of (snd s)). op_ok x"
    and "room_for 0 0 q"
  shows "\<exists>w'. keeper_sessions crc32 deflate inflate k ss w = Some w'
     \<and> ReadState crc32 inflate dir name (int B) (int N) w' = Some (True, m, w')
     \<and> cp_files dir (CheckpointFilename name) (deleted keep (checkpoints_in q)) (checkpoints_in q) w'"
proof -
  have B: "12 \<le> B" "0 < B" "int B < 2 ^ 24"
    using assms(1,4,5) LogWriter_new_bound[of dir _ "int B"] by (auto simp: StateKeeper_new_def)
  have room: "room_for (length ([] :: linked_block list)) (length ([] :: (state_map \<times> nat) list)) q" using assms(9) by simp
  obtain cps' qbs' w' where s: "keeper_sessions crc32 deflate inflate k ss w = Some w'" "state_disk crc32 keep dir name B N cps' qbs' m w'"
     "length qbs' \<le> length ([] :: linked_block list) + weight (logged q)"
     "length cps' = length ([] :: (state_map \<times> nat) list) + checkpoints_in q"
    using sessions_hold[where ?crc32.0 = crc32 and deflate = deflate and inflate = inflate,
        OF assms(1,2,4,5) no_state_disk[OF assms(6) B(2) assms(3)] assms(7,8) room]
    by blast
  then have "length qbs' < 2 ^ 31" using assms(9) by (simp add: room_for_def)
  moreover have "cp_files dir (CheckpointFilename name) (deleted keep (length cps')) (length cps') w'"
    using s(2) by (simp add: state_disk_def cps_hold_def)
  ultimately show ?thesis using ReadState_holds[OF assms(2) s(2) _ B(1,3)] s(1,4) by auto
qed

text \<open>The disk when the process is killed after the flush of a checkpoint and before its file is whole.\<close>

definition killed_in_checkpoint ::
    "(bytes \<Rightarrow> 32 word) \<Rightarrow> (bytes \<Rightarrow> bytes option) \<Rightarrow> state_keeper \<Rightarrow> world \<Rightarrow> world \<Rightarrow> bool" where
  "killed_in_checkpoint crc32 deflate k w v \<longleftrightarrow> (\<exists>lw w1. Flush crc32 (sk_log_writer k) w = Some (True, lw, w1)
     \<and> half_checkpoint crc32 deflate (sk_dir k) (CheckpointFilename (sk_name k)) w1 v)"

lemma ReadState_killed:
  assumes "good_names dir name" and runs: "keeper_runs crc32 P dump dir name B N cps qbs ps S k w"
    and "length qbs + length ps < 2 ^ 31 - 1" "12 \<le> B" "int B < 2 ^ 24" "killed_in_checkpoint crc32 deflate k w v"
  shows "\<exists>m. ReadState crc32 inflate dir name (int B) (int N) v = Some (True, m, v) \<and> P m"
proof -
  obtain qbs' lw w1 where f: "Flush crc32 (sk_log_writer k) w = Some (True, lw, w1)"
    "keeper_runs crc32 P dump dir name B N cps qbs' [] S (k\<lparr>sk_log_writer := lw\<rparr>) w1" "length qbs' \<le> length qbs + length ps"
    using flush_runs[OF runs assms(3)] by (elim exE conjE) (rule that)
  have "half_checkpoint crc32 deflate dir (CheckpointFilename name) w1 v"
    using assms(6) f(1) keeper_runs_facts(5,6)[OF runs] by (auto simp: killed_in_checkpoint_def)
  moreover have "length qbs' < 2 ^ 31" using f(3) assms(3) by simp
  ultimately show ?thesis using ReadState_running[OF assms(1) f(2) _ assms(4,5), of inflate deflate] by blast
qed

text \<open>
  C8. A process that is killed between two turns of its writer, after others have ended as they
  should: what \<open>ReadState\<close> finds is the map after some of the operations of its main thread, and
  never one from inside of a transaction.  Once the writer has found its queue empty, it is the
  map after all of them.  It finds such a map also when the process is killed while it writes the
  file of a checkpoint and there is a complete one before (\<open>killed_in_checkpoint\<close>).  A kill inside of the write
  of a block to the log, or between the deletions of old files, is not covered; the limits on
  sizes and keys are those of the property above.
\<close>

theorem State_after_crash:
  assumes "StateKeeper_new dir name (int B) (int N) keep dump = Some k" "good_names dir name" "0 < N" "0 \<le> dump" "dump < int B - 16"
    and "no_state dir name B w"
    and "main_threads k (map (ops_of \<circ> snd) ss) [] = Some (m, q)" "\<forall>s \<in> set ss. \<forall>x \<in> set (ops_of (snd s)). op_ok x"
    and "run_ops (ops_of es) (k\<lparr>sk_data := m\<rparr>) = Some km" "\<forall>x \<in> set (ops_of es). op_ok x"
    and "room_for 0 0 (q @ writer_queue km)"
  shows "\<exists>w0 k1 w1 k2 w2. keeper_sessions crc32 deflate inflate k ss w = Some w0
     \<and> StateKeeper_Initialize crc32 inflate pid k w0 = Some (True, k1, w1)
     \<and> run_events crc32 deflate inflate es k1 w1 = Some (k2, w2)
     \<and> (\<exists>m'. ReadState crc32 inflate dir name (int B) (int N) w2 = Some (True, m', w2)
          \<and> committed (ops_of es) (k\<lparr>sk_data := m\<rparr>) m')
     \<and> (\<forall>v. killed_in_checkpoint crc32 deflate k2 w2 v \<longrightarrow>
          (\<exists>m'. ReadState crc32 inflate dir name (int B) (int N) v = Some (True, m', v)
            \<and> committed (ops_of es) (k\<lparr>sk_data := m\<rparr>) m'))
     \<and> (writer_queue k2 = [] \<longrightarrow> \<not> in_transaction km \<longrightarrow>
          (\<exists>k3 w3. writer_turn crc32 deflate inflate k2 w2 = Some (True, k3, w3)
            \<and> ReadState crc32 inflate dir name (int B) (int N) w3 = Some (True, sk_data km, w3)))"
proof -
  have B: "12 \<le> B" "0 < B" "int B < 2 ^ 24"
    using assms(1,4,5) LogWriter_new_bound[of dir _ "int B"] by (auto simp: StateKeeper_new_def)
  have room: "room_for (length ([] :: linked_block list)) (length ([] :: (state_map \<times> nat) list)) (q @ writer_queue km)"
    using assms(11) by simp
  obtain cps0 qbs0 w0 where s: "keeper_sessions crc32 deflate inflate k ss w = Some w0" "state_disk crc32 keep dir name B N cps0 qbs0 m w0"
     "map_of (disk w0) (log_lock dir (LogFilename name)) = None"
     "length qbs0 \<le> length ([] :: linked_block list) + weight (logged q)"
     "length cps0 = length ([] :: (state_map \<times> nat) list) + checkpoints_in q"
    using sessions_hold[where ?crc32.0 = crc32 and deflate = deflate and inflate = inflate,
        OF assms(1,2,4,5) no_state_disk[OF assms(6) B(2) assms(3)] assms(7,8) room_for_front[OF room]]
    by blast
  note room1 = room_for_rest[OF room s(4,5)]
  let ?P = "committed (ops_of es) (k\<lparr>sk_data := m\<rparr>)"
  obtain cps qbs ps S q' lw k1 w1 k2 w2 where r: "StateKeeper_Initialize crc32 inflate pid k w0 = Some (True, k1, w1)"
    "run_events crc32 deflate inflate es k1 w1 = Some (k2, w2)"
    "keeper_runs crc32 ?P dump dir name B N cps qbs ps S k2 w2" "keeper_holds S k2" "km = shift lw q' k2" "checkpoints_to_keep k2 = keep"
    "length qbs + length ps \<le> length qbs0 + weight (logged q')" "length cps = length cps0 + checkpoints_in q'"
    using session_runs[where deflate = deflate and inflate = inflate and pid = pid, OF assms(1,2,4,5) s(2,3) assms(9,10) room1]
    by (elim exE conjE) (rule that)
  have "room_for (length qbs0) (length cps0) (q' @ writer_queue k2)" using room1 r(5) by simp
  from room_for_rest[OF this r(7,8)] have len: "length qbs + length ps < 2 ^ 31 - 1" by (simp add: room_for_def)
  then have "length qbs < 2 ^ 31" by simp
  from ReadState_running[OF assms(2) r(3) this B(1,3), of inflate deflate]
  have now: "\<exists>m'. ReadState crc32 inflate dir name (int B) (int N) w2 = Some (True, m', w2) \<and> ?P m'" by blast
  have half: "\<exists>m'. ReadState crc32 inflate dir name (int B) (int N) v = Some (True, m', v) \<and> ?P m'"
    if "killed_in_checkpoint crc32 deflate k2 w2 v" for v
    by (rule ReadState_killed[OF assms(2) r(3) len B(1,3) that])
  have idle: "\<exists>k3 w3. writer_turn crc32 deflate inflate k2 w2 = Some (True, k3, w3)
      \<and> ReadState crc32 inflate dir name (int B) (int N) w3 = Some (True, sk_data km, w3)"
    if q2: "writer_queue k2 = []" "\<not> in_transaction km"
  proof -
    have data: "S = sk_data km" using keeper_holds_data[OF r(4)] q2 r(5) by simp
    obtain qbs3 lw3 w3 where t: "writer_turn crc32 deflate inflate k2 w2 = Some (True, k2\<lparr>sk_log_writer := lw3\<rparr>, w3)"
      "keeper_runs crc32 ?P dump dir name B N cps qbs3 [] S (k2\<lparr>sk_log_writer := lw3\<rparr>) w3" "length qbs3 \<le> length qbs + length ps"
      using idle_step[where deflate = deflate and inflate = inflate, OF r(3) q2(1) len] by (elim exE conjE) (rule that)
    have "length qbs3 < 2 ^ 31" using t(3) len by simp
    from ReadState_running[OF assms(2) t(2) this B(1,3), of inflate] t(1) data show ?thesis by blast
  qed
  show ?thesis using s(1) r(1,2) now half idle by blast
qed

text \<open>
  Two processes: one with a transaction and five checkpoints, of which the last two are left, and
  one that is killed in a transaction.
\<close>

definition example_keeper :: state_keeper where
  "example_keeper = the (StateKeeper_new (bytes_of ''/d'') (bytes_of ''st'') 64 2 2 40)"

definition example_events :: "keeper_event list" where
  "example_events = [MainEvent (SetOp [1] [2]), WriterEvent, MainEvent BeginOp, MainEvent (SetOp [3] [4]), MainEvent (DeleteOp [1]),
     MainEvent CommitOp, MainEvent (CheckpointOp 0), MainEvent (SetOp [1] [7]), MainEvent (CheckpointOp 0), WriterEvent,
     MainEvent (DeleteOp [1]), MainEvent (CheckpointOp 0), MainEvent (CheckpointOp 0), MainEvent (CheckpointOp 0)]"

definition example_queue :: "write_command list" where
  "example_queue = [\<lparr>log_data = Some [0, 1, 1, 0, 0, 0, 0, 1, 2], checkpoint_data = None\<rparr>,
      \<lparr>log_data = Some [0, 1, 3, 0, 0, 0, 0, 1, 4, 0, 1, 1, 1], checkpoint_data = None\<rparr>,
      \<lparr>log_data = Some [], checkpoint_data = None\<rparr>,
      \<lparr>log_data = None, checkpoint_data = Some [([3], [4])]\<rparr>,
      \<lparr>log_data = Some [0, 1, 1, 0, 0, 0, 0, 1, 7], checkpoint_data = None\<rparr>,
      \<lparr>log_data = Some [], checkpoint_data = None\<rparr>,
      \<lparr>log_data = None, checkpoint_data = Some [([1], [7]), ([3], [4])]\<rparr>,
      \<lparr>log_data = Some [0, 1, 1, 1], checkpoint_data = None\<rparr>,
      \<lparr>log_data = Some [], checkpoint_data = None\<rparr>,
      \<lparr>log_data = None, checkpoint_data = Some [([3], [4])]\<rparr>,
      \<lparr>log_data = Some [], checkpoint_data = None\<rparr>,
      \<lparr>log_data = None, checkpoint_data = Some [([3], [4])]\<rparr>,
      \<lparr>log_data = Some [], checkpoint_data = None\<rparr>,
      \<lparr>log_data = None, checkpoint_data = Some [([3], [4])]\<rparr>]"

definition killed_events :: "keeper_event list" where
  "killed_events = [MainEvent (SetOp [5] [6]), WriterEvent, MainEvent BeginOp, MainEvent (DeleteOp [3])]"

lemma one_BE: "WriteBE (1 :: 16 word) = [0, 1]" "WriteBE (1 :: 32 word) = [0, 0, 0, 1]"
  by code_simp+

lemmas keeper_defs = SetValue_def may_change_def GetValue_def QueueOp_def QueueWrite_def DeleteValue_def
      BeginTransaction_def CommitTransaction_def Let_def one_BE OP_SET_def OP_DELETE_def

lemma example_keeper: "StateKeeper_new (bytes_of ''/d'') (bytes_of ''st'') (int 64) (int 2) 2 40 = Some example_keeper"
  "writer_queue example_keeper = []" "sk_data example_keeper = []" "\<not> in_transaction example_keeper" "op_buf example_keeper = []"
  by (simp_all add: example_keeper_def StateKeeper_new_def LogWriter_new_def RecordWriter_new_def kMaximumRecordBlockSize_def)

lemma example_main: "main_threads example_keeper [ops_of example_events] [] = Some ([([3], [4])], example_queue)"
  by (simp add: example_keeper(2-) example_events_def example_queue_def keeper_defs StateKeeper_Checkpoint_def
      ExpireTimeoutedKeys_def GetBounds_def in_bounds_iff kStateKeeperTimeoutKey_def bytes_of_def slash_def next_Cons)

lemma example_names: "good_names (bytes_of ''/d'') (bytes_of ''st'')" "no_state (bytes_of ''/d'') (bytes_of ''st'') 64 \<lparr>disk = [], results = []\<rparr>"
  by (simp_all add: good_names_def bytes_of_def slash_def no_state_def no_log_def)

lemma example_ok: "\<forall>s \<in> set [(7 :: int, example_events)]. \<forall>x \<in> set (ops_of (snd s)). op_ok x" "\<forall>x \<in> set (ops_of killed_events). op_ok x"
  by (simp_all add: example_events_def killed_events_def kStateKeeperLogPosKey_def bytes_of_def)

lemma State_recovered_witness:
  "\<exists>w'. keeper_sessions (\<lambda>_. 0) Some (\<lambda>x. (x, True)) example_keeper [(7, example_events)] \<lparr>disk = [], results = []\<rparr> = Some w'
     \<and> ReadState (\<lambda>_. 0) (\<lambda>x. (x, True)) (bytes_of ''/d'') (bytes_of ''st'') (int 64) (int 2) w' = Some (True, [([3], [4])], w')
     \<and> cp_files (bytes_of ''/d'') (CheckpointFilename (bytes_of ''st'')) 3 5 w'"
proof -
  have "main_threads example_keeper (map (ops_of \<circ> snd) [(7 :: int, example_events)]) [] = Some ([([3], [4])], example_queue)"
    using example_main by simp
  moreover have "room_for 0 0 example_queue" "checkpoints_in example_queue = 5" "deleted 2 5 = 3"
    by (simp_all add: room_for_def example_queue_def weight_def deleted_def kMinNumCheckpointsToKeep_def)
  ultimately show ?thesis
    using State_recovered[of "bytes_of ''/d''" "bytes_of ''st''" 64 2 2 40 example_keeper, OF example_keeper(1) example_names(1) _ _ _
        example_names(2) _ example_ok(1)] by simp
qed

lemma State_after_crash_witness:
  "\<exists>w0 k1 w1 k2 w2 m. keeper_sessions (\<lambda>_. 0) Some (\<lambda>x. (x, True)) example_keeper [(7, example_events)] \<lparr>disk = [], results = []\<rparr> = Some w0
     \<and> StateKeeper_Initialize (\<lambda>_. 0) (\<lambda>x. (x, True)) 8 example_keeper w0 = Some (True, k1, w1)
     \<and> run_events (\<lambda>_. 0) Some (\<lambda>x. (x, True)) killed_events k1 w1 = Some (k2, w2)
     \<and> ReadState (\<lambda>_. 0) (\<lambda>x. (x, True)) (bytes_of ''/d'') (bytes_of ''st'') (int 64) (int 2) w2 = Some (True, m, w2)
     \<and> committed (ops_of killed_events) (example_keeper\<lparr>sk_data := [([3], [4])]\<rparr>) m"
proof -
  have "main_threads example_keeper (map (ops_of \<circ> snd) [(7 :: int, example_events)]) [] = Some ([([3], [4])], example_queue)"
    using example_main by simp
  moreover obtain km where km: "run_ops (ops_of killed_events) (example_keeper\<lparr>sk_data := [([3], [4])]\<rparr>) = Some km"
     "writer_queue km = [\<lparr>log_data = Some [0, 1, 5, 0, 0, 0, 0, 1, 6], checkpoint_data = None\<rparr>]"
    by (simp add: killed_events_def keeper_defs example_keeper(2-))
  moreover have "room_for 0 0 (example_queue @ writer_queue km)"
    unfolding km(2) by (simp add: room_for_def example_queue_def weight_def)
  ultimately show ?thesis
    using State_after_crash[of "bytes_of ''/d''" "bytes_of ''st''" 64 2 2 40 example_keeper "\<lparr>disk = [], results = []\<rparr>"
        "[(7, example_events)]" "[([3], [4])]" example_queue killed_events km "\<lambda>_. 0" Some "\<lambda>x. (x, True)" 8,
        OF example_keeper(1) example_names(1) _ _ _ example_names(2) _ example_ok(1) km(1) example_ok(2)]
    by auto
qed

end
