(* ===== verification/Spec2Isabelle.thy ===== *)
theory Spec2Isabelle
  imports F4vFile F4vToFlv StreamLaws NumStreaming Amf0Laws RtmpStream FlvRoundtrip FlvVideo FlvEvents RecordLaws
    MediaTagLaws TagSession RtpBroadcast LogSessions StateSessions
begin

text \<open>
  Whispercast is a streaming server in C++.  \<^verbatim>\<open>whisperlib\<close> has the general parts (buffers,
  number streaming, record files, network, HTTP, RPC), \<^verbatim>\<open>whisperstreamlib\<close> the media parts
  (the FLV, F4V, RTMP and RTP formats, tags, and the elements that a stream flows through).  This
  development models the data path of the server: bytes in buffers, the formats that are read
  from and written to them, and the tags that are handed from a source to its clients.

  \<^bold>\<open>How the parts interact.\<close>
  All input and output goes through \<^verbatim>\<open>io::MemoryStream\<close>, a queue of blocks with a read and a
  write pointer and a stack of markers.  \<^verbatim>\<open>io::NumStreamer\<close> reads and writes numbers on it,
  AMF0 objects, RTMP events, FLV tags, records and RTP packets are sequences of such reads and
  writes.  The RTMP coder cuts events into chunks on channels; FLV tags travel in RTMP events
  and in files.  A source gives tags to a \<^verbatim>\<open>TagDistributor\<close>, which keeps a \<^verbatim>\<open>Bootstrapper\<close>
  and calls the callbacks of the clients; an RTP broadcaster is a client that sends packets.

  \<^bold>\<open>Conventions.\<close>
  A state is a record with the members of the class, an operation a function from the state to
  the results and the new state.  A fatal \<^verbatim>\<open>CHECK\<close> or \<^verbatim>\<open>DCHECK\<close>, a read past the end of a
  buffer, and the use of what does not exist are \<open>None\<close>; statuses of the code are values of a
  datatype, in a sum with the result where there is one.  Integers of the wire and of flags are
  words of their width; lengths, times in \<^verbatim>\<open>int64\<close> and positions are integers or naturals that
  do not wrap (streams have less than \<open>2 ^ 31\<close> bytes).  Loops are recursive functions with
  a proof of termination; four decoders take fuel (\<open>ReadNextObject_fuel\<close>,
  \<open>read_objects_fuel\<close>, \<open>Coder_Decode_fuel\<close>, and \<open>ReadAtom_fuel\<close> below), which their callers set to more than the number of
  bytes, and every round consumes a byte, so it does not run out (\<open>ReadNextObject_total\<close>,
  \<open>DecodeBody_total\<close>, \<open>Coder_Decode_total\<close>).  Logging, locks and reference counts are left out.

  \<^bold>\<open>Buffers\<close> (\<^verbatim>\<open>whisperlib/common/io\<close>).
  \<^item> \<open>DataBlock\<close>, \<open>DataBlockPointer\<close>: \<^verbatim>\<open>buffer/data_block.{h,cc}\<close>; blocks, the queue of
    blocks by number, and pointers that read, write and move over it.
  \<^item> \<open>MemoryStream\<close>, \<open>BlockText\<close>: \<^verbatim>\<open>buffer/memory_stream.{h,cc}\<close>; reading, writing,
    appending blocks, markers, and the scanners for lines and tokens.
  \<^item> \<open>StreamContent\<close>, \<open>ByteStream\<close>, \<open>StreamLaws\<close>: what a stream means, its unread bytes and
    the contents at its marks; the contract of a stream as the locales \<open>byte_source\<close> and
    \<open>byte_stream\<close>, interpreted for the memory stream and for plain lists.  \<open>stream_refines_list\<close>
    below says that the two cannot be told apart, so the formats are modelled on lists.
  \<^item> \<open>NumStreaming\<close>, \<open>Reader\<close>, \<open>DoubleBits\<close>: \<^verbatim>\<open>num_streaming.h\<close>, the shape of decoders of
    untrusted input with the assertion \<open>rd_post\<close> and its rules, and \<^verbatim>\<open>double\<close> as bits.
  \<^item> \<open>RecordIo\<close>, \<open>RecordLaws\<close>: \<^verbatim>\<open>logio/recordio.{h,cc}\<close>; records in checked blocks, the
    round trip of a file that is not deflated, and two defects of the reader.  An empty record
    that is appended from a stream leaves no trace.  The checksum and the compression are
    parameters, as they come from zlib.
  \<^item> \<open>FileIo\<close>, \<open>FileLaws\<close>: \<^verbatim>\<open>file/file.{h,cc}\<close> and what the logs use of \<^verbatim>\<open>ioutil.cc\<close>, over a
    \<open>world\<close> record: the regular files of a disk and the results of the system calls to come,
    so that short and failed writes are inputs of the model.
  \<^item> \<open>LogIo\<close>, \<open>LogLaws\<close>, \<open>LogReading\<close>, \<open>LogSessions\<close>, \<open>LogCleaning\<close>: \<^verbatim>\<open>logio/logio.{h,cc}\<close>; the
    writer that goes on in the next file when one is full, the reader that follows it, positions,
    and \<^verbatim>\<open>CleanLog\<close>, after which the log has the files from a number \<open>lo\<close> on (\<open>log_holds\<close>).  The
    loops over files are partial functions (\<open>None\<close> also when they do not end); the theorems
    state that they return.

  \<^bold>\<open>Kept state\<close> (\<^verbatim>\<open>whisperlib/common/io/checkpoint\<close>).
  \<^item> \<open>Checkpoints\<close>, \<open>CheckpointLaws\<close>: \<^verbatim>\<open>checkpointing.{h,cc}\<close>; a map in a file of records between
    two marks, which is read back whole or, cut anywhere, not at all.
  \<^item> \<open>StateKeeper\<close>, \<open>StateChanges\<close>: \<^verbatim>\<open>state_keeper.{h,cc}\<close> with \<^verbatim>\<open>LogPos\<close> as text and the ranges
    of keys of \<^verbatim>\<open>strutil\<close>; the main thread that changes a map and queues what it did, the writer
    thread that logs it and makes checkpoints, \<open>ReadState\<close>, and the users with their timeouts.
    The queue is a list in the state, a turn of the writer one step; the queue of the code has a
    limit, at which the main thread waits.
  \<^item> \<open>StateRecovery\<close>, \<open>StateSessions\<close>: what holds of the disk while a keeper runs (\<open>keeper_runs\<close>) is
    kept by every turn; threads that are interleaved in any way refine the main thread alone, over
    any number of processes, and a killed process leaves a map from outside of a transaction.
    Old checkpoints are deleted with the log files before them (\<open>CleanOldState_holds\<close>): a disk
    has the checkpoints from \<open>deleted\<close> on and the log from a file on that no kept one needs before
    (\<open>kept_logs\<close>).  The theorems are for less than \<open>2 ^ 31\<close> bytes of changes and checkpoints; \<open>op_ok\<close>
    excludes the key that the checkpoint adds itself, under which the checkpoint would fail.  A
    process is killed between turns of its writer or in the middle of a checkpoint file, not
    inside the write of a block to the log.

  \<^bold>\<open>RTMP\<close> (\<^verbatim>\<open>whisperstreamlib/rtmp\<close>).
  \<^item> \<open>Amf0\<close>, \<open>Amf0Laws\<close>: \<^verbatim>\<open>objects\<close>; values, their maps (a locale \<open>object_map\<close>, also of the maps
    of the distributor), encoding and decoding.
  \<^item> \<open>RtmpHeader\<close>, \<open>RtmpEvents\<close>, \<open>RtmpCoder\<close>: \<^verbatim>\<open>rtmp_header\<close>, \<^verbatim>\<open>events\<close>, \<^verbatim>\<open>rtmp_coder\<close>; headers of
    chunks relative to a channel's memory, bodies of events, and the coder: conversations are
    decoded as they were encoded, arbitrary bytes do no harm, pieces are as good as the whole,
    memory stays within the limit.
  \<^item> \<open>RtmpStream\<close>: the clocks of \<^verbatim>\<open>rtmp_stream\<close>; times survive the trip, but for some of events
    of several chunks (\<open>timely\<close>, \<open>multi_chunk_absolute_header\<close>).

  \<^bold>\<open>FLV\<close> (\<^verbatim>\<open>whisperstreamlib/flv\<close>).
  \<^item> \<open>FlvTag\<close>, \<open>FlvCoder\<close>: \<^verbatim>\<open>flv_tag\<close>, \<^verbatim>\<open>flv_coder\<close>, \<^verbatim>\<open>flv_consts\<close>; bodies, flags, attributes, the
    reader, the serializer, and the transformation of H264 units.
  \<^item> \<open>FlvLaws\<close>, \<open>FlvRoundtrip\<close>, \<open>FlvVideo\<close>, \<open>FlvEvents\<close>: outcomes on arbitrary bytes, files that are
    read back, the units, and tags inside RTMP events.

  \<^bold>\<open>F4V\<close> (\<^verbatim>\<open>whisperstreamlib/f4v\<close>).
  \<^item> \<open>F4vTypes\<close>, \<open>F4vTables\<close>, \<open>F4vBodies\<close>, \<open>F4vVersioned\<close>, \<open>F4vEsds\<close>: \<^verbatim>\<open>f4v_types\<close> and
    \<^verbatim>\<open>atoms/movie\<close>; the sample tables of many records, and the bodies of the other atoms, with
    the reader, the writer and the measure of each.  A uniform \<^verbatim>\<open>stsz\<close> table, a name with a
    length byte and elementary stream tags are read as the code reads them.
  \<^item> \<open>F4vAtoms\<close>, \<open>F4vAtomLaws\<close>: \<^verbatim>\<open>atoms/base_atom\<close>, \<^verbatim>\<open>container_atom\<close>, \<^verbatim>\<open>versioned_atom\<close>,
    \<^verbatim>\<open>container_versioned_atom\<close>; the tree of atoms as a datatype, sizes, encoding, equality and
    the lookups of subatoms; what \<^verbatim>\<open>UpdateSize\<close> establishes.
  \<^item> \<open>F4vFrames\<close>, \<open>F4vFrameLaws\<close>: \<^verbatim>\<open>f4v_util\<close> (\<^verbatim>\<open>ExtractFrames\<close>) and \<^verbatim>\<open>Decoder::BuildFrames\<close>; the
    walk over the compact tables is that of the expanded tables (\<open>table_frames_reference\<close>).
  \<^item> \<open>F4vDecoder\<close>, \<open>F4vRoundtrip\<close>, \<open>F4vPlayback\<close>, \<open>F4vFile\<close>: \<^verbatim>\<open>f4v_decoder\<close>, \<^verbatim>\<open>f4v_encoder\<close>; reading
    atoms, frames and tags, seeking; trees that are read back, the decoders that can be reached
    (\<open>decoder_reached\<close>) and the invariant that lets them read frames, and whole files.
    \<open>good_tree\<close> says which trees come back; lemmas of \<open>F4vRoundtrip\<close> show the failures of those
    that do not (\<open>setter_esds_not_written\<close>, \<open>uniform_stsz_not_read\<close> and others), and
    \<open>seek_outside_fails\<close> that of a seek to a frame outside of the data.
  \<^item> \<open>F4vToFlv\<close>: \<^verbatim>\<open>f4v_to_flv\<close>; the FLV tags made of frames and of configurations.

  The tree of atoms is read by mutual recursion through the decoder, which the model ties with
  fuel (\<open>ReadAtom_fuel\<close>): \<open>ReadAtom\<close> gives one round more than there are bytes, and every nested
  read has consumed a header of 8 bytes before.  The loops over subatoms get as many rounds,
  \<open>ReadFrames\<close> one for every frame and byte, since a call that does not skip to the next frame
  consumes a byte; the theorems state that frames come to the end.  Sizes, offsets and times of
  64 bits are naturals and integers; the theorems on files bound the movie by \<open>2 ^ 31\<close> bytes,
  as \<^verbatim>\<open>ReadAtom\<close> counts in \<^verbatim>\<open>int32\<close>.

  \<^bold>\<open>Tags\<close> (\<^verbatim>\<open>whisperstreamlib/base\<close>).
  \<^item> \<open>MediaTag\<close>, \<open>MediaTagLaws\<close>: \<^verbatim>\<open>tag\<close>, \<^verbatim>\<open>tag_dropper\<close>; the classes of tags, cue points, the stream
    clock and the dropper, whose guarantee does not extend to the drop of a composed tag
    (\<open>composed_tag_gap\<close>).
  \<^item> \<open>Bootstrap\<close>: \<^verbatim>\<open>bootstrapper\<close>; what it keeps is a function of the tags that went by.
  \<^item> \<open>TagDistribution\<close>, \<open>TagDistributionLaws\<close>, \<open>TagSession\<close>: \<^verbatim>\<open>tag_distributor\<close>,
    \<^verbatim>\<open>callbacks_manager\<close>; the states a distributor reaches (\<open>td_reach\<close>), the invariant \<open>td_inv\<close>
    that ties what each client was sent to the bootstrapper's stack, and delivery.

  \<^bold>\<open>RTP\<close> (\<^verbatim>\<open>whisperstreamlib/rtp\<close>).
  \<^item> \<open>RtpPackets\<close>, \<open>RtpLaws\<close>: \<^verbatim>\<open>rtp_header\<close>, \<^verbatim>\<open>rtp_packetization\<close>; the locale \<open>frame_cutter\<close> of the
    packetizers that cut, limits, and frames that the receiver gets back.
  \<^item> \<open>RtpBroadcast\<close>: \<^verbatim>\<open>rtp_broadcaster\<close>; the packets of a frame and their numbers.

  \<^bold>\<open>Not modelled.\<close>
  Sockets, selectors, threads and the callbacks between elements are effects of the
  system.  HTTP, RPC, the settings of a log found from its files, the RTMP connection, RTSP,
  the elements, the media information and the rewriting of F4V files, and the MP3, AAC and MPEG-TS
  formats are code of the same kind as what is modelled and not done.  \<^verbatim>\<open>MediaInfo\<close> is a
  parameter wherever it is carried.  \<^verbatim>\<open>f4v_tag_reorder\<close> is not part of the build and calls functions
  that are not declared.  The printing of values, the statistics and the generated and
  third-party code are not part of the core.  Blocks are values: that two streams can share a
  block through its reference count is outside the model.
\<close>

section \<open>Memory stream\<close>

text \<open>
  C1. A program of stream operations (reads, peeks, skips, writes, appended raw blocks,
  markers, lines and tokens) run on a memory stream of any block size observes exactly what
  it observes on a plain list of bytes with a stack of marked positions, and aborts exactly
  when the latter has no answer (restore or clear without a marker, negative skip, string of a
  length below -1, clear with markers set, empty raw block).  \<^verbatim>\<open>AppendStream\<close>,
  \<^verbatim>\<open>ReadNext\<close> and \<^verbatim>\<open>Equals\<close> are not among the operations.
\<close>

theorem stream_refines_list:
  assumes "0 < bsz"
  shows "ms_trace bsz ops = ps_run ops ([], [])"
proof -
  obtain s where s: "ms_new bsz = Some s" "ms_is s [] []" using ms_new_is[OF assms] by blast
  then show ?thesis using ms_run_simulates[OF s(2)] by (simp add: ms_trace_def)
qed

theorem stream_refines_list_witness:
  "ms_trace 2 [OpWrite [1, 2, 3], OpMarkerSet, OpRead 2, OpWrite [4], OpMarkerRestore, OpRead 9]
    = Some [ObsInt 3, ObsDone, ObsBytes [1, 2], ObsInt 1, ObsDone, ObsBytes [1, 2, 3, 4]]"
  using stream_refines_list[of 2 "[OpWrite [1, 2, 3], OpMarkerSet, OpRead 2, OpWrite [4], OpMarkerRestore, OpRead 9]"]
  by (simp add: ps_op_def)

end
